(* ===== verification/Prelude.thy ===== *)
theory Prelude
  imports Main "HOL-Library.Word" "HOL-Library.AList"
begin

text \<open>
  Shared vocabulary of the development: the fixed-width integers of C++ as wrap functions on
  \<^typ>\<open>int\<close> and \<^typ>\<open>nat\<close>, C++ integer division, and the list and association-list facts
  that several components use.  The collections \<open>cpp_range\<close> (a conversion is the identity on
  values in range) and \<open>alist_simps\<close> (lookup and iteration laws of the hash maps) carry most of
  the component proofs.
\<close>

named_theorems cpp_range \<open>conversions that do not change an in-range value\<close>
named_theorems wrap_simps \<open>an inner conversion is absorbed by an outer one\<close>
named_theorems alist_simps \<open>laws of association lists standing for hash maps\<close>

type_synonym byte = "8 word"

section \<open>Machine integers\<close>

text \<open>
  \<open>std::int32_t\<close>, \<open>std::int64_t\<close>, \<open>std::uint32_t\<close> and \<open>std::uint64_t\<close> hold the
  representative of their argument modulo the width.  A C++ conversion to the type is one
  application of the function; arithmetic on the type is the arithmetic of \<^typ>\<open>int\<close> followed
  by it.
\<close>

definition s32 :: "int \<Rightarrow> int" where
  "s32 x = (x + 2 ^ 31) mod 2 ^ 32 - 2 ^ 31"

definition s64 :: "int \<Rightarrow> int" where
  "s64 x = (x + 2 ^ 63) mod 2 ^ 64 - 2 ^ 63"

definition u32 :: "int \<Rightarrow> int" where
  "u32 x = x mod 2 ^ 32"

definition u64 :: "int \<Rightarrow> int" where
  "u64 x = x mod 2 ^ 64"

lemma s32_id [cpp_range]: "- (2 ^ 31) \<le> x \<Longrightarrow> x < 2 ^ 31 \<Longrightarrow> s32 x = x"
  by (simp add: s32_def)

lemma s64_id [cpp_range]: "- (2 ^ 63) \<le> x \<Longrightarrow> x < 2 ^ 63 \<Longrightarrow> s64 x = x"
  by (simp add: s64_def)

lemma u32_id [cpp_range]: "0 \<le> x \<Longrightarrow> x < 2 ^ 32 \<Longrightarrow> u32 x = x"
  by (simp add: u32_def)

lemma u64_id [cpp_range]: "0 \<le> x \<Longrightarrow> x < 2 ^ 64 \<Longrightarrow> u64 x = x"
  by (simp add: u64_def)

lemma s32_range: "- (2 ^ 31) \<le> s32 x" "s32 x < 2 ^ 31"
proof -
  have "0 \<le> (x + 2 ^ 31) mod 2 ^ 32" "(x + 2 ^ 31) mod 2 ^ 32 < (2::int) ^ 32"
    by (simp_all add: pos_mod_bound)
  then show "- (2 ^ 31) \<le> s32 x" "s32 x < 2 ^ 31" by (simp_all add: s32_def)
qed

lemma s64_range: "- (2 ^ 63) \<le> s64 x" "s64 x < 2 ^ 63"
proof -
  have "0 \<le> (x + 2 ^ 63) mod 2 ^ 64" "(x + 2 ^ 63) mod 2 ^ 64 < (2::int) ^ 64"
    by (simp_all add: pos_mod_bound)
  then show "- (2 ^ 63) \<le> s64 x" "s64 x < 2 ^ 63" by (simp_all add: s64_def)
qed

text \<open>A wrap is a congruence: two arguments with the same residue have the same value.\<close>

lemma s32_cong: "s32 x = s32 y \<longleftrightarrow> x mod 2 ^ 32 = y mod 2 ^ 32"
  using mod_diff_cong [of "x + 2 ^ 31" "2 ^ 32" "y + 2 ^ 31" "2 ^ 31" "2 ^ 31"]
    mod_add_cong [of x "2 ^ 32" y "2 ^ 31" "2 ^ 31"] by (auto simp: s32_def)

lemma s64_cong: "s64 x = s64 y \<longleftrightarrow> x mod 2 ^ 64 = y mod 2 ^ 64"
  using mod_diff_cong [of "x + 2 ^ 63" "2 ^ 64" "y + 2 ^ 63" "2 ^ 63" "2 ^ 63"]
    mod_add_cong [of x "2 ^ 64" y "2 ^ 63" "2 ^ 63"] by (auto simp: s64_def)

lemma s32_mod: "s32 x mod 2 ^ 32 = x mod 2 ^ 32"
proof -
  have "s32 x mod 2 ^ 32 = ((x + 2 ^ 31) mod 2 ^ 32 - 2 ^ 31) mod 2 ^ 32" by (simp add: s32_def)
  also have "\<dots> = x mod 2 ^ 32" by (simp add: mod_diff_left_eq)
  finally show ?thesis .
qed

lemma s64_mod: "s64 x mod 2 ^ 64 = x mod 2 ^ 64"
proof -
  have "s64 x mod 2 ^ 64 = ((x + 2 ^ 63) mod 2 ^ 64 - 2 ^ 63) mod 2 ^ 64" by (simp add: s64_def)
  also have "\<dots> = x mod 2 ^ 64" by (simp add: mod_diff_left_eq)
  finally show ?thesis .
qed

lemma s32_wrap [wrap_simps]:
  "s32 (s32 x) = s32 x" "s32 (u32 x) = s32 x" "s32 (s32 x + y) = s32 (x + y)" "s32 (x + s32 y) = s32 (x + y)"
  "s32 (s32 x - y) = s32 (x - y)" "s32 (x - s32 y) = s32 (x - y)" "s32 (- s32 x) = s32 (- x)"
proof -
  show "s32 (s32 x) = s32 x" "s32 (u32 x) = s32 x"
    unfolding s32_cong by (simp_all only: s32_mod u32_def mod_mod_trivial)
  show "s32 (s32 x + y) = s32 (x + y)" "s32 (s32 x - y) = s32 (x - y)"
    unfolding s32_cong by (metis s32_mod mod_add_left_eq, metis s32_mod mod_diff_left_eq)
  show "s32 (x + s32 y) = s32 (x + y)" "s32 (x - s32 y) = s32 (x - y)"
    unfolding s32_cong by (metis s32_mod mod_add_right_eq, metis s32_mod mod_diff_right_eq)
  show "s32 (- s32 x) = s32 (- x)" unfolding s32_cong by (metis s32_mod mod_minus_eq)
qed

lemma s64_wrap [wrap_simps]:
  "s64 (s64 x) = s64 x" "s64 (s64 x + y) = s64 (x + y)" "s64 (x + s64 y) = s64 (x + y)"
  "s64 (s64 x - y) = s64 (x - y)" "s64 (x - s64 y) = s64 (x - y)" "s64 (s64 x * y) = s64 (x * y)"
  "s64 (x * s64 y) = s64 (x * y)"
proof -
  show "s64 (s64 x) = s64 x" unfolding s64_cong by (rule s64_mod)
  show "s64 (s64 x + y) = s64 (x + y)" "s64 (s64 x - y) = s64 (x - y)" "s64 (s64 x * y) = s64 (x * y)"
    unfolding s64_cong by (metis s64_mod mod_add_left_eq, metis s64_mod mod_diff_left_eq, metis s64_mod mod_mult_left_eq)
  show "s64 (x + s64 y) = s64 (x + y)" "s64 (x - s64 y) = s64 (x - y)" "s64 (x * s64 y) = s64 (x * y)"
    unfolding s64_cong by (metis s64_mod mod_add_right_eq, metis s64_mod mod_diff_right_eq, metis s64_mod mod_mult_right_eq)
qed

lemma u32_range: "0 \<le> u32 x" "u32 x < 2 ^ 32"
  by (simp_all add: u32_def pos_mod_bound)

lemma u64_range: "0 \<le> u64 x" "u64 x < 2 ^ 64"
  by (simp_all add: u64_def pos_mod_bound)

text \<open>\<open>std::abs\<close> on \<open>std::int32_t\<close>.\<close>

definition sabs32 :: "int \<Rightarrow> int" where
  "sabs32 x = s32 \<bar>x\<bar>"

lemma sabs32_small: "\<bar>x\<bar> < 2 ^ 31 \<Longrightarrow> sabs32 x = \<bar>x\<bar>"
  by (simp add: sabs32_def s32_id)

text \<open>The quotient of C++ integers truncates towards zero.\<close>

definition tdiv :: "int \<Rightarrow> int \<Rightarrow> int" where
  "tdiv a b = sgn a * sgn b * (\<bar>a\<bar> div \<bar>b\<bar>)"

lemma tdiv_nonneg: "0 \<le> a \<Longrightarrow> 0 < b \<Longrightarrow> tdiv a b = a div b"
  by (cases "a = 0") (simp_all add: tdiv_def)

text \<open>
  \<open>std::size_t\<close> values are natural numbers below \<open>2^64\<close>; a difference wraps.
\<close>

definition sz_sub :: "nat \<Rightarrow> nat \<Rightarrow> nat" where
  "sz_sub a b = (a + (2 ^ 64 - b mod 2 ^ 64)) mod 2 ^ 64"

section \<open>Lists\<close>

lemma sum_list_map_upd:
  fixes f :: "'a \<Rightarrow> int"
  assumes "i < length xs"
  shows "sum_list (map f (xs[i := v])) = sum_list (map f xs) - f (xs ! i) + f v"
  using assms
proof (induction xs arbitrary: i)
  case Nil
  then show ?case by simp
next
  case (Cons x xs)
  then show ?case by (cases i) auto
qed

section \<open>Association lists as hash maps\<close>

text \<open>
  A \<open>std::unordered_map\<close> is an association list with distinct keys: \<^const>\<open>map_of\<close> is
  \<open>find\<close>, \<^const>\<open>AList.update\<close> is \<open>m[k] = v\<close>, \<^const>\<open>AList.delete\<close> is \<open>erase\<close>,
  and a range-based \<open>for\<close> walks the list.  The list's order is one of the orders in which the
  C++ container may be walked.
\<close>

type_synonym ('k, 'v) hmap = "('k \<times> 'v) list"

abbreviation hm_wf :: "('k, 'v) hmap \<Rightarrow> bool" where
  "hm_wf m \<equiv> distinct (map fst m)"

definition hm_sum :: "('v \<Rightarrow> int) \<Rightarrow> ('k, 'v) hmap \<Rightarrow> int" where
  "hm_sum f m = (\<Sum>(k, v) \<leftarrow> m. f v)"

definition hm_val :: "('v \<Rightarrow> int) \<Rightarrow> 'v option \<Rightarrow> int" where
  "hm_val f ov = (case ov of None \<Rightarrow> 0 | Some v \<Rightarrow> f v)"

lemma hm_val_simps [simp]: "hm_val f None = 0" "hm_val f (Some v) = f v"
  by (simp_all add: hm_val_def)

lemma hm_sum_simps [simp]:
  "hm_sum f [] = 0"
  "hm_sum f ((k, v) # m) = f v + hm_sum f m"
  by (simp_all add: hm_sum_def)

lemma hm_sum_update [alist_simps]:
  "hm_wf m \<Longrightarrow> hm_sum f (AList.update k v m) = hm_sum f m - hm_val f (map_of m k) + f v"
  by (induction m) (auto simp: hm_sum_def hm_val_def)

lemma hm_sum_delete_notin: "k \<notin> set (map fst m) \<Longrightarrow> AList.delete k m = m"
  by (induction m) (auto simp: AList.delete_eq)

lemma hm_sum_delete [alist_simps]:
  "hm_wf m \<Longrightarrow> hm_sum f (AList.delete k m) = hm_sum f m - hm_val f (map_of m k)"
  by (induction m) (auto simp: hm_sum_delete_notin)

lemma length_hm_delete: "hm_wf m \<Longrightarrow> map_of m k = Some v \<Longrightarrow> length m = Suc (length (AList.delete k m))"
  by (induction m) (auto simp: hm_sum_delete_notin split: if_splits)

lemma length_hm_update: "map_of m k = None \<Longrightarrow> length (AList.update k v m) = Suc (length m)"
  by (induction m) (auto split: if_splits)

lemma hm_wf_update [alist_simps]: "hm_wf m \<Longrightarrow> hm_wf (AList.update k v m)"
  by (rule distinct_update)

lemma hm_wf_delete [alist_simps]: "hm_wf m \<Longrightarrow> hm_wf (AList.delete k m)"
  by (rule distinct_delete)

lemma map_of_update_same [alist_simps]: "map_of (AList.update k v m) k = Some v"
  by (simp add: update_conv')

lemma map_of_update_other [alist_simps]:
  "k' \<noteq> k \<Longrightarrow> map_of (AList.update k v m) k' = map_of m k'"
  by (simp add: update_conv')

lemma map_of_delete_same [alist_simps]: "map_of (AList.delete k m) k = None"
  by (simp add: delete_conv')

lemma map_of_delete_other [alist_simps]:
  "k' \<noteq> k \<Longrightarrow> map_of (AList.delete k m) k' = map_of m k'"
  by (simp add: delete_conv')

lemma hm_set_update: "x \<in> set (AList.update k v m) \<Longrightarrow> x = (k, v) \<or> x \<in> set m"
  by (induction m) (auto split: if_splits)

lemma hm_set_delete: "x \<in> set (AList.delete k m) \<Longrightarrow> x \<in> set m \<and> fst x \<noteq> k"
  by (auto simp: AList.delete_eq)

text \<open>The loop that adds up a value of every entry in a 64-bit accumulator.\<close>

definition acc64 :: "('v \<Rightarrow> int) \<Rightarrow> ('k, 'v) hmap \<Rightarrow> int" where
  "acc64 f m = fold (\<lambda>(k, v) a. s64 (a + f v)) m 0"

lemma acc64_eq: "acc64 f m = s64 (hm_sum f m)"
proof -
  have "fold (\<lambda>(k, v) a. s64 (a + f v)) m (s64 a) = s64 (a + hm_sum f m)" for a
  proof (induction m arbitrary: a)
    case (Cons x m)
    then show ?case by (cases x) (simp add: wrap_simps algebra_simps)
  qed simp
  from this [of 0] show ?thesis by (simp add: acc64_def s64_def)
qed

text \<open>Over a finite type of keys a sum over the entries is a sum over all keys.\<close>

lemma hm_sum_UNIV:
  fixes m :: "('k :: finite, 'v) hmap"
  assumes "hm_wf m"
  shows "hm_sum f m = (\<Sum>k\<in>UNIV. hm_val f (map_of m k))"
  using assms
proof (induction m)
  case (Cons x m)
  obtain k v where x: "x = (k, v)" by (cases x)
  have k: "map_of m k = None" using Cons.prems by (simp add: x map_of_eq_None_iff)
  have "(\<Sum>j\<in>UNIV. hm_val f (map_of (x # m) j)) = f v + (\<Sum>j\<in>UNIV - {k}. hm_val f (map_of (x # m) j))"
    by (simp add: x sum.remove [of UNIV k])
  also have "(\<Sum>j\<in>UNIV - {k}. hm_val f (map_of (x # m) j)) = (\<Sum>j\<in>UNIV - {k}. hm_val f (map_of m j))"
    by (rule sum.cong) (auto simp: x)
  also have "\<dots> = (\<Sum>j\<in>UNIV. hm_val f (map_of m j))"
    by (simp add: k sum.remove [of UNIV k])
  finally show ?case using Cons by (simp add: x)
qed simp

lemma sum_UNIV_upd:
  fixes f :: "'k :: finite \<Rightarrow> int"
  assumes "\<And>j. j \<noteq> k \<Longrightarrow> g j = f j"
  shows "sum g UNIV = sum f UNIV - f k + g k"
proof -
  have "sum g (UNIV - {k}) = sum f (UNIV - {k})" by (rule sum.cong) (use assms in auto)
  then show ?thesis by (simp add: sum.remove [of UNIV k])
qed

lemma hm_val_le_sum:
  assumes "\<And>v. 0 \<le> f v"
  shows "hm_val f (map_of m k) \<le> hm_sum f m"
proof (induction m)
  case (Cons x m)
  obtain j v where x: "x = (j, v)" by (cases x)
  have "0 \<le> hm_sum f m" using assms by (induction m) (auto intro: add_nonneg_nonneg)
  then show ?case using Cons assms [of v] by (auto simp: x intro: order_trans)
qed simp

end
