(* ===== verification/Ring_Buffer.thy ===== *)
theory Ring_Buffer
  imports Prelude
begin

text \<open>
  The mask-wrapped ring buffer that the queues, the loggers and the rate limiters share: index
  arithmetic modulo a power of two, the items between the two indices, and the contract of a
  bounded first-in first-out queue as the locale \<open>bounded_fifo\<close>.
\<close>

unbundle bit_operations_syntax

section \<open>Index arithmetic\<close>

text \<open>\<open>i & (SIZE - 1)\<close>.\<close>

definition ring_mask :: "nat \<Rightarrow> nat \<Rightarrow> nat" where
  "ring_mask N i = i AND (N - 1)"

text \<open>The \<open>static_assert\<close> on the template parameter: a positive power of two.\<close>

definition pow2 :: "nat \<Rightarrow> bool" where
  "pow2 N \<longleftrightarrow> 0 < N \<and> N AND (N - 1) = 0"

lemma and_pred_mod: "i AND (2 ^ k - Suc 0) = i mod 2 ^ k" for i :: nat
proof -
  have "i AND mask k = take_bit k i" by (simp only: take_bit_eq_mask)
  then show ?thesis by (simp add: mask_eq_exp_minus_1 take_bit_eq_mod)
qed

lemma and_double_pred: "0 < m \<Longrightarrow> (2 * m) AND (2 * m - Suc 0) = 2 * (m AND (m - Suc 0))" for m :: nat
proof -
  assume "0 < m"
  then have pred: "2 * m - Suc 0 = Suc (2 * (m - Suc 0))" by simp
  show ?thesis
    unfolding pred by (subst and_rec) simp
qed

lemma and_pred_zero_power: "0 < n \<Longrightarrow> n AND (n - Suc 0) = 0 \<Longrightarrow> \<exists>k. n = 2 ^ k" for n :: nat
proof (induction n rule: less_induct)
  case (less n)
  show ?case
  proof (cases "even n")
    case True
    then obtain m where m: "n = 2 * m" by blast
    with less.prems have "0 < m" by simp
    then have "m AND (m - Suc 0) = 0" using less.prems m and_double_pred by simp
    then obtain k where "m = 2 ^ k" using less.IH [of m] \<open>0 < m\<close> m by auto
    then have "n = 2 ^ Suc k" using m by simp
    then show ?thesis by blast
  next
    case False
    then obtain m where m: "n = Suc (2 * m)" by (auto elim: oddE)
    have "Suc (2 * m) AND 2 * m = 2 * (m AND m)"
      by (subst and_rec) simp
    then have "m = 0" using less.prems m by simp
    then have "n = 2 ^ 0" using m by simp
    then show ?thesis by blast
  qed
qed

lemma pow2_iff: "pow2 N \<longleftrightarrow> (\<exists>k. N = 2 ^ k)"
  using and_pred_zero_power [of N] by (auto simp: pow2_def and_pred_mod)

lemma pow2_pos: "pow2 N \<Longrightarrow> 0 < N"
  by (simp add: pow2_def)

lemma ring_mask_mod [simp]: "pow2 N \<Longrightarrow> ring_mask N i = i mod N"
  by (auto simp: pow2_iff ring_mask_def and_pred_mod)

lemma pow2_dvd: "pow2 N \<Longrightarrow> N \<le> 2 ^ k \<Longrightarrow> N dvd 2 ^ k"
  by (auto simp: pow2_iff le_imp_power_dvd)

lemma ring_mask_sz_sub:
  assumes "pow2 N" "N \<le> 2 ^ 64" "t < N"
  shows "ring_mask N (sz_sub h t) = (h + N - t) mod N"
proof -
  obtain q :: nat where q: "2 ^ 64 = N * q" using pow2_dvd [OF assms(1,2)] by (rule dvdE)
  have "q \<noteq> 0"
  proof
    assume "q = 0"
    with q show False by simp
  qed
  then obtain r where r: "q = Suc r" by (cases q) auto
  have "t mod 2 ^ 64 = t" using assms(2,3) by (intro mod_less) linarith
  then have "ring_mask N (sz_sub h t) = (h + (N * q - t)) mod (N * q) mod N"
    using assms(1) by (simp only: sz_sub_def ring_mask_mod q)
  also have "\<dots> = (h + (N * q - t)) mod N"
    by (simp add: mod_mod_cancel)
  also have "N * q - t = N - t + N * r"
    using assms(3) r by (simp add: algebra_simps)
  also have "(h + (N - t + N * r)) mod N = (h + (N - t)) mod N"
    by (metis add.assoc mod_mult_self2)
  finally show ?thesis using assms(3) by simp
qed

section \<open>The items of a ring\<close>

text \<open>
  The items between the read index \<open>t\<close> and the write index \<open>h\<close>, oldest first.
\<close>

definition ring_len :: "nat \<Rightarrow> nat \<Rightarrow> nat \<Rightarrow> nat" where
  "ring_len N h t = (h + N - t) mod N"

definition ring_items :: "nat \<Rightarrow> 'a list \<Rightarrow> nat \<Rightarrow> nat \<Rightarrow> 'a list" where
  "ring_items N buf h t = map (\<lambda>i. buf ! ((t + i) mod N)) [0..<ring_len N h t]"

lemma length_ring_items [simp]: "length (ring_items N buf h t) = ring_len N h t"
  by (simp add: ring_items_def)

lemma ring_len_less: "0 < N \<Longrightarrow> ring_len N h t < N"
  by (simp add: ring_len_def)

lemma ring_len_cases:
  assumes "h < N" "t < N"
  shows "ring_len N h t = (if t \<le> h then h - t else h + N - t)"
  using assms by (auto simp: ring_len_def le_mod_geq)

lemma ring_len_self [simp]: "t < N \<Longrightarrow> ring_len N t t = 0"
  by (simp add: ring_len_cases)

lemma ring_len_zero: "h < N \<Longrightarrow> t < N \<Longrightarrow> ring_len N h t = 0 \<longleftrightarrow> h = t"
  by (auto simp: ring_len_cases)

lemma ring_items_empty: "h < N \<Longrightarrow> t < N \<Longrightarrow> ring_items N buf h t = [] \<longleftrightarrow> h = t"
  using ring_len_zero by (metis length_ring_items length_0_conv)

lemma Suc_mod_cases: "h < N \<Longrightarrow> Suc h mod N = (if Suc h = N then 0 else Suc h)"
  by (simp add: mod_Suc)

lemma ring_len_full:
  assumes "h < N" "t < N"
  shows "Suc h mod N = t \<longleftrightarrow> ring_len N h t = N - 1"
  using assms by (auto simp: ring_len_cases Suc_mod_cases split: if_splits)

lemma ring_len_push:
  assumes "h < N" "t < N" "Suc h mod N \<noteq> t"
  shows "ring_len N (Suc h mod N) t = Suc (ring_len N h t)"
  using assms by (auto simp: ring_len_cases Suc_mod_cases split: if_splits)

lemma ring_len_pop:
  assumes "h < N" "t < N" "h \<noteq> t"
  shows "ring_len N h t = Suc (ring_len N h (Suc t mod N))"
  using assms by (auto simp: ring_len_cases Suc_mod_cases split: if_splits)

lemma ring_pos_write:
  assumes "h < N" "t < N"
  shows "(t + ring_len N h t) mod N = h"
  using assms by (auto simp: ring_len_cases mod_if)

lemma mod_add_inj:
  assumes "i < N" "j < N" "(t + i) mod N = (t + j) mod (N::nat)"
  shows "i = j"
  using assms
proof (induction i j rule: linorder_wlog)
  case (le i j)
  then have "N dvd (t + j) - (t + i)" by (metis mod_eq_dvd_iff_nat add_le_cancel_left)
  then have "N dvd j - i" by simp
  then show ?case using le by (auto dest: dvd_imp_le)
next
  case (sym i j)
  then show ?case by simp
qed

lemma ring_slot_other:
  assumes "h < N" "t < N" "i < ring_len N h t"
  shows "h \<noteq> (t + i) mod N"
proof
  assume "h = (t + i) mod N"
  then have "(t + i) mod N = (t + ring_len N h t) mod N"
    using ring_pos_write [OF assms(1,2)] by simp
  moreover have "ring_len N h t < N" using assms(1) by (simp add: ring_len_less)
  ultimately have "i = ring_len N h t" using mod_add_inj assms(3) by (metis less_trans)
  then show False using assms(3) by simp
qed

lemma ring_items_map_cong:
  assumes "\<And>i. i < ring_len N h t \<Longrightarrow> f i = buf ! ((t + i) mod N)"
  shows "map f [0..<ring_len N h t] = ring_items N buf h t"
  using assms by (simp add: ring_items_def)

lemma ring_items_push:
  assumes "h < N" "t < N" "Suc h mod N \<noteq> t" "length buf = N"
  shows "ring_items N (buf[h := x]) (Suc h mod N) t = ring_items N buf h t @ [x]"
proof -
  have old: "map (\<lambda>i. buf[h := x] ! ((t + i) mod N)) [0..<ring_len N h t] = ring_items N buf h t"
    by (intro ring_items_map_cong) (simp add: ring_slot_other [OF assms(1,2)])
  have new: "buf[h := x] ! ((t + ring_len N h t) mod N) = x"
    using ring_pos_write [OF assms(1,2)] assms by simp
  show ?thesis
    using old new by (simp add: ring_items_def ring_len_push [OF assms(1-3)])
qed

lemma ring_items_write_free:
  assumes "h < N" "t < N"
  shows "ring_items N (buf[h := x]) h t = ring_items N buf h t"
  unfolding ring_items_def [of N "buf[h := x]"]
  by (intro ring_items_map_cong) (simp add: ring_slot_other [OF assms])

lemma ring_items_pop:
  assumes "h < N" "t < N" "h \<noteq> t"
  shows "ring_items N buf h t = buf ! t # ring_items N buf h (Suc t mod N)"
proof -
  let ?n = "ring_len N h (Suc t mod N)"
  have "map (\<lambda>i. buf ! ((t + i) mod N)) [0..<Suc ?n]
      = buf ! (t mod N) # map (\<lambda>i. buf ! ((t + Suc i) mod N)) [0..<?n]"
    by (simp only: map_upt_Suc) simp
  moreover have "(t + Suc i) mod N = (Suc t mod N + i) mod N" for i
    by (simp add: mod_add_left_eq)
  ultimately show ?thesis
    using assms(2) ring_len_pop [OF assms] by (simp add: ring_items_def)
qed

section \<open>The contract of a bounded queue\<close>

datatype 'a qop = Push 'a | Pop

text \<open>
  A sequence of calls on a queue: the final queue, the items that were accepted and the items
  that were handed out, each in order.
\<close>

fun run_queue :: "('q \<Rightarrow> 'a \<Rightarrow> 'q \<times> bool) \<Rightarrow> ('q \<Rightarrow> ('q \<times> 'a) option) \<Rightarrow> 'q \<Rightarrow> 'a qop list
    \<Rightarrow> 'q \<times> 'a list \<times> 'a list" where
  "run_queue push pop q [] = (q, [], [])"
| "run_queue push pop q (Push x # ops) =
     (let (q1, ok) = push q x; (q2, ins, outs) = run_queue push pop q1 ops
      in (q2, (if ok then x # ins else ins), outs))"
| "run_queue push pop q (Pop # ops) =
     (case pop q of
        None \<Rightarrow> run_queue push pop q ops
      | Some (q1, x) \<Rightarrow> (let (q2, ins, outs) = run_queue push pop q1 ops in (q2, ins, x # outs)))"

locale bounded_fifo =
  fixes push :: "'q \<Rightarrow> 'a \<Rightarrow> 'q \<times> bool"
    and pop :: "'q \<Rightarrow> ('q \<times> 'a) option"
    and items :: "'q \<Rightarrow> 'a list"
    and inv :: "'q \<Rightarrow> bool"
    and cap :: nat
  assumes items_cap: "inv q \<Longrightarrow> length (items q) \<le> cap"
    and push_full: "inv q \<Longrightarrow> length (items q) = cap \<Longrightarrow> push q x = (q, False)"
    and push_room: "inv q \<Longrightarrow> length (items q) < cap \<Longrightarrow>
          \<exists>q'. push q x = (q', True) \<and> inv q' \<and> items q' = items q @ [x]"
    and pop_empty: "inv q \<Longrightarrow> items q = [] \<Longrightarrow> pop q = None"
    and pop_item: "inv q \<Longrightarrow> items q = x # xs \<Longrightarrow>
          \<exists>q'. pop q = Some (q', x) \<and> inv q' \<and> items q' = xs"
begin

lemma push_cases:
  assumes "inv q"
  obtains (full) "length (items q) = cap" "push q x = (q, False)"
  | (room) q' where "length (items q) < cap" "push q x = (q', True)" "inv q'"
      "items q' = items q @ [x]"
  using items_cap [OF assms] push_full [OF assms] push_room [OF assms] that
  by (cases "length (items q) = cap") auto

lemma pop_cases:
  assumes "inv q"
  obtains (empty) "items q = []" "pop q = None"
  | (item) q' x where "items q = x # items q'" "pop q = Some (q', x)" "inv q'"
  using pop_empty [OF assms] pop_item [OF assms] that
  by (cases "items q") auto

lemma run_fifo:
  "inv q \<Longrightarrow> run_queue push pop q ops = (q', ins, outs) \<Longrightarrow>
     inv q' \<and> items q @ ins = outs @ items q'"
proof (induction ops arbitrary: q q' ins outs)
  case Nil
  then show ?case by simp
next
  case (Cons op ops)
  show ?case
  proof (cases op)
    case (Push x)
    show ?thesis
      using Cons.prems(1)
    proof (cases rule: push_cases [where x = x])
      case full
      with Cons Push show ?thesis by (auto split: prod.splits)
    next
      case (room q1)
      obtain q2 ins1 outs1 where run: "run_queue push pop q1 ops = (q2, ins1, outs1)"
        by (cases "run_queue push pop q1 ops") auto
      then have "inv q2 \<and> items q1 @ ins1 = outs1 @ items q2"
        by (rule Cons.IH [OF room(3)])
      with room run Push Cons.prems(2) show ?thesis by auto
    qed
  next
    case Pop
    show ?thesis
      using Cons.prems(1)
    proof (cases rule: pop_cases)
      case empty
      then show ?thesis using Cons.IH [OF Cons.prems(1)] Cons.prems(2) Pop by simp
    next
      case (item q1 x)
      obtain q2 ins1 outs1 where run: "run_queue push pop q1 ops = (q2, ins1, outs1)"
        by (cases "run_queue push pop q1 ops") auto
      then have "inv q2 \<and> items q1 @ ins1 = outs1 @ items q2"
        by (rule Cons.IH [OF item(3)])
      with item run Pop Cons.prems(2) show ?thesis by auto
    qed
  qed
qed

lemma run_bounded:
  "inv q \<Longrightarrow> run_queue push pop q ops = (q', ins, outs) \<Longrightarrow> length (items q') \<le> cap"
  using run_fifo items_cap by blast

end

end
