(* ===== verification/Spsc.thy ===== *)
theory Spsc
  imports Ring_Buffer "HOL-Library.Sublist"
begin

text \<open>
  \<open>lockfree/spsc_queue.hpp\<close>: the single-producer single-consumer ring.  The calls first, as
  atomic operations with the contract \<open>bounded_fifo\<close>; then the two threads as a step relation
  whose steps are the individual loads, stores and slot accesses of \<open>push\<close> and \<open>pop\<close>.
\<close>

section \<open>The calls\<close>

record 'a spsc =
  q_buffer :: "'a list"
  q_head :: nat
  q_tail :: nat

definition spsc_init :: "nat \<Rightarrow> 'a \<Rightarrow> 'a spsc" where
  "spsc_init N d = \<lparr>q_buffer = replicate N d, q_head = 0, q_tail = 0\<rparr>"

definition spsc_push :: "nat \<Rightarrow> 'a spsc \<Rightarrow> 'a \<Rightarrow> 'a spsc \<times> bool" where
  "spsc_push N q item =
     (let h = q_head q; nxt = ring_mask N (h + 1)
      in if nxt = q_tail q then (q, False)
         else (q\<lparr>q_buffer := (q_buffer q)[h := item], q_head := nxt\<rparr>, True))"

definition spsc_pop :: "nat \<Rightarrow> 'a spsc \<Rightarrow> ('a spsc \<times> 'a) option" where
  "spsc_pop N q =
     (let t = q_tail q
      in if t = q_head q then None
         else Some (q\<lparr>q_tail := ring_mask N (t + 1)\<rparr>, q_buffer q ! t))"

definition spsc_empty :: "'a spsc \<Rightarrow> bool" where
  "spsc_empty q \<longleftrightarrow> q_tail q = q_head q"

definition spsc_full :: "nat \<Rightarrow> 'a spsc \<Rightarrow> bool" where
  "spsc_full N q \<longleftrightarrow> ring_mask N (q_head q + 1) = q_tail q"

definition spsc_size :: "nat \<Rightarrow> 'a spsc \<Rightarrow> nat" where
  "spsc_size N q = ring_mask N (sz_sub (q_head q) (q_tail q))"

definition spsc_capacity :: "nat \<Rightarrow> nat" where
  "spsc_capacity N = N - 1"

definition spsc_inv :: "nat \<Rightarrow> 'a spsc \<Rightarrow> bool" where
  "spsc_inv N q \<longleftrightarrow> pow2 N \<and> length (q_buffer q) = N \<and> q_head q < N \<and> q_tail q < N"

definition spsc_items :: "nat \<Rightarrow> 'a spsc \<Rightarrow> 'a list" where
  "spsc_items N q = ring_items N (q_buffer q) (q_head q) (q_tail q)"

lemma spsc_init_inv: "pow2 N \<Longrightarrow> spsc_inv N (spsc_init N d) \<and> spsc_items N (spsc_init N d) = []"
  by (simp add: spsc_inv_def spsc_init_def spsc_items_def ring_items_empty pow2_pos)

lemma spsc_push_full:
  "spsc_inv N q \<Longrightarrow> length (spsc_items N q) = N - 1 \<Longrightarrow> spsc_push N q x = (q, False)"
  using ring_len_full [of "q_head q" N "q_tail q"]
  by (simp add: spsc_inv_def spsc_items_def spsc_push_def)

lemma spsc_push_room:
  assumes "spsc_inv N q" "length (spsc_items N q) < N - 1"
  shows "\<exists>q'. spsc_push N q x = (q', True) \<and> spsc_inv N q' \<and> spsc_items N q' = spsc_items N q @ [x]"
proof -
  from assms have ix: "pow2 N" "q_head q < N" "q_tail q < N" "length (q_buffer q) = N"
    by (simp_all add: spsc_inv_def)
  moreover have "Suc (q_head q) mod N \<noteq> q_tail q"
    using ring_len_full [OF ix(2,3)] assms(2) by (simp add: spsc_items_def)
  ultimately show ?thesis
    using ring_items_push [of "q_head q" N "q_tail q" "q_buffer q" x]
    by (simp add: Let_def spsc_push_def spsc_inv_def spsc_items_def pow2_pos)
qed

lemma spsc_pop_empty: "spsc_inv N q \<Longrightarrow> spsc_items N q = [] \<Longrightarrow> spsc_pop N q = None"
  by (simp add: spsc_inv_def spsc_items_def ring_items_empty spsc_pop_def)

lemma spsc_pop_item:
  assumes "spsc_inv N q" "spsc_items N q = x # xs"
  shows "\<exists>q'. spsc_pop N q = Some (q', x) \<and> spsc_inv N q' \<and> spsc_items N q' = xs"
proof -
  from assms(1) have ix: "pow2 N" "q_head q < N" "q_tail q < N" "length (q_buffer q) = N"
    by (simp_all add: spsc_inv_def)
  have ne: "q_head q \<noteq> q_tail q"
    using assms ring_items_empty [OF ix(2,3), of "q_buffer q"] by (auto simp: spsc_items_def)
  show ?thesis
    using ring_items_pop [OF ix(2,3) ne, of "q_buffer q"] ix ne assms(2)
    by (simp add: spsc_pop_def spsc_inv_def spsc_items_def pow2_pos)
qed

interpretation spsc: bounded_fifo "spsc_push N" "spsc_pop N" "spsc_items N" "spsc_inv N" "N - 1"
proof
  show "length (spsc_items N q) \<le> N - 1" if "spsc_inv N q" for q :: "'a spsc"
    using that ring_len_less [of N "q_head q" "q_tail q"] by (auto simp: spsc_inv_def spsc_items_def)
qed (rule spsc_push_full spsc_push_room spsc_pop_empty spsc_pop_item; assumption)+

lemma spsc_size_items:
  "spsc_inv N q \<Longrightarrow> N \<le> 2 ^ 64 \<Longrightarrow> spsc_size N q = length (spsc_items N q)"
  by (simp only: spsc_size_def spsc_inv_def spsc_items_def length_ring_items ring_len_def
      ring_mask_sz_sub)

lemma spsc_empty_full_items:
  assumes "spsc_inv N q"
  shows "spsc_empty q \<longleftrightarrow> spsc_items N q = []"
    and "spsc_full N q \<longleftrightarrow> length (spsc_items N q) = spsc_capacity N"
  using assms ring_items_empty [of "q_head q" N "q_tail q" "q_buffer q"]
    ring_len_full [of "q_head q" N "q_tail q"]
  by (auto simp: spsc_inv_def spsc_items_def spsc_empty_def spsc_full_def spsc_capacity_def)

section \<open>The two threads\<close>

text \<open>
  Each step is one memory access of the code.  The producer loads \<open>head_\<close>, loads \<open>tail_\<close> and
  compares, writes the slot, stores \<open>head_\<close>; the consumer loads \<open>tail_\<close>, loads \<open>head_\<close> and
  compares, reads the slot, stores \<open>tail_\<close>.  The release stores and acquire loads order the
  slot accesses with the index accesses, so interleavings of these steps are the executions.
  The fields \<open>accepted\<close> and \<open>delivered\<close> record the items whose \<open>push\<close> and \<open>pop\<close>
  returned true.
\<close>

datatype 'a ppc = P_idle | P_loaded 'a nat | P_room 'a nat | P_wrote 'a nat

datatype 'a cpc = C_idle | C_loaded nat | C_avail nat | C_read nat 'a

record 'a spsc_sys =
  queue :: "'a spsc"
  prod :: "'a ppc"
  cons :: "'a cpc"
  accepted :: "'a list"
  delivered :: "'a list"

inductive spsc_step :: "nat \<Rightarrow> 'a spsc_sys \<Rightarrow> 'a spsc_sys \<Rightarrow> bool" for N :: nat where
  p_load: "prod s = P_idle \<Longrightarrow> spsc_step N s (s\<lparr>prod := P_loaded x (q_head (queue s))\<rparr>)"
| p_full: "prod s = P_loaded x h \<Longrightarrow> ring_mask N (h + 1) = q_tail (queue s) \<Longrightarrow>
     spsc_step N s (s\<lparr>prod := P_idle\<rparr>)"
| p_check: "prod s = P_loaded x h \<Longrightarrow> ring_mask N (h + 1) \<noteq> q_tail (queue s) \<Longrightarrow>
     spsc_step N s (s\<lparr>prod := P_room x h\<rparr>)"
| p_write: "prod s = P_room x h \<Longrightarrow>
     spsc_step N s (s\<lparr>queue := (queue s)\<lparr>q_buffer := (q_buffer (queue s))[h := x]\<rparr>, prod := P_wrote x h\<rparr>)"
| p_publish: "prod s = P_wrote x h \<Longrightarrow>
     spsc_step N s (s\<lparr>queue := (queue s)\<lparr>q_head := ring_mask N (h + 1)\<rparr>, prod := P_idle,
                      accepted := accepted s @ [x]\<rparr>)"
| c_load: "cons s = C_idle \<Longrightarrow> spsc_step N s (s\<lparr>cons := C_loaded (q_tail (queue s))\<rparr>)"
| c_empty: "cons s = C_loaded t \<Longrightarrow> t = q_head (queue s) \<Longrightarrow> spsc_step N s (s\<lparr>cons := C_idle\<rparr>)"
| c_check: "cons s = C_loaded t \<Longrightarrow> t \<noteq> q_head (queue s) \<Longrightarrow> spsc_step N s (s\<lparr>cons := C_avail t\<rparr>)"
| c_read: "cons s = C_avail t \<Longrightarrow>
     spsc_step N s (s\<lparr>cons := C_read t (q_buffer (queue s) ! t)\<rparr>)"
| c_publish: "cons s = C_read t x \<Longrightarrow>
     spsc_step N s (s\<lparr>queue := (queue s)\<lparr>q_tail := ring_mask N (t + 1)\<rparr>, cons := C_idle,
                      delivered := delivered s @ [x]\<rparr>)"

inductive spsc_reach :: "nat \<Rightarrow> 'a \<Rightarrow> 'a spsc_sys \<Rightarrow> bool" for N :: nat and d :: 'a where
  start: "spsc_reach N d \<lparr>queue = spsc_init N d, prod = P_idle, cons = C_idle,
                          accepted = [], delivered = []\<rparr>"
| step: "spsc_reach N d s \<Longrightarrow> spsc_step N s s' \<Longrightarrow> spsc_reach N d s'"

text \<open>What each program counter knows about the shared indices.\<close>

fun prod_ok :: "nat \<Rightarrow> 'a spsc \<Rightarrow> 'a ppc \<Rightarrow> bool" where
  "prod_ok N q P_idle = True"
| "prod_ok N q (P_loaded x h) = (h = q_head q)"
| "prod_ok N q (P_room x h) = (h = q_head q \<and> Suc h mod N \<noteq> q_tail q)"
| "prod_ok N q (P_wrote x h) = (h = q_head q \<and> Suc h mod N \<noteq> q_tail q \<and> q_buffer q ! h = x)"

fun cons_ok :: "nat \<Rightarrow> 'a spsc \<Rightarrow> 'a cpc \<Rightarrow> bool" where
  "cons_ok N q C_idle = True"
| "cons_ok N q (C_loaded t) = (t = q_tail q)"
| "cons_ok N q (C_avail t) = (t = q_tail q \<and> t \<noteq> q_head q)"
| "cons_ok N q (C_read t x) = (t = q_tail q \<and> t \<noteq> q_head q \<and> x = q_buffer q ! t)"

definition spsc_sys_inv :: "nat \<Rightarrow> 'a spsc_sys \<Rightarrow> bool" where
  "spsc_sys_inv N s \<longleftrightarrow> spsc_inv N (queue s) \<and> prod_ok N (queue s) (prod s) \<and> cons_ok N (queue s) (cons s)
     \<and> accepted s = delivered s @ spsc_items N (queue s)"

lemma head_after_publish:
  assumes "h < N" "t < N" "Suc h mod N \<noteq> t" "length buf = N" "buf ! h = x"
  shows "ring_items N buf (Suc h mod N) t = ring_items N buf h t @ [x]"
  using ring_items_push [OF assms(1-4), of x] assms(4,5) by (metis list_update_id)

lemma Suc_mod_neq: "t < N \<Longrightarrow> h < N \<Longrightarrow> h \<noteq> t \<Longrightarrow> Suc h mod N \<noteq> Suc t mod N"
  by (auto simp: Suc_mod_cases split: if_splits)

lemma spsc_step_inv:
  "spsc_step N s s' \<Longrightarrow> spsc_sys_inv N s \<Longrightarrow> spsc_sys_inv N s'"
proof (induction rule: spsc_step.induct)
  case (p_write s x h)
  then have "spsc_items N ((queue s)\<lparr>q_buffer := (q_buffer (queue s))[h := x]\<rparr>) = spsc_items N (queue s)"
    by (simp add: spsc_sys_inv_def spsc_inv_def spsc_items_def ring_items_write_free)
  with p_write show ?case
    by (cases "cons s") (auto simp: spsc_sys_inv_def spsc_inv_def)
next
  case (p_publish s x h)
  then have ok: "spsc_inv N (queue s)" "h = q_head (queue s)" "Suc h mod N \<noteq> q_tail (queue s)"
    "q_buffer (queue s) ! h = x" by (auto simp: spsc_sys_inv_def)
  then have "spsc_items N ((queue s)\<lparr>q_head := Suc h mod N\<rparr>) = spsc_items N (queue s) @ [x]"
    by (simp add: spsc_inv_def spsc_items_def head_after_publish)
  with p_publish ok show ?case
    by (cases "cons s") (auto simp: spsc_sys_inv_def spsc_inv_def pow2_pos)
next
  case (c_publish s t x)
  then have ok: "spsc_inv N (queue s)" "t = q_tail (queue s)" "t \<noteq> q_head (queue s)"
    "x = q_buffer (queue s) ! t" by (auto simp: spsc_sys_inv_def)
  then have "spsc_items N (queue s) = x # spsc_items N ((queue s)\<lparr>q_tail := Suc t mod N\<rparr>)"
    using ring_items_pop [of "q_head (queue s)" N "q_tail (queue s)"]
    by (auto simp: spsc_inv_def spsc_items_def)
  with c_publish ok show ?case
    using Suc_mod_neq [of "q_tail (queue s)" N "q_head (queue s)"]
    by (cases "prod s") (auto simp: spsc_sys_inv_def spsc_inv_def pow2_pos)
qed (auto simp: spsc_sys_inv_def spsc_inv_def)

lemma spsc_reach_inv: "spsc_reach N d s \<Longrightarrow> pow2 N \<Longrightarrow> spsc_sys_inv N s"
proof (induction rule: spsc_reach.induct)
  case start
  then show ?case using spsc_init_inv [of N d] by (simp add: spsc_sys_inv_def)
next
  case (step s s')
  then show ?case by (blast intro: spsc_step_inv)
qed

section \<open>Properties\<close>

text \<open>C40. Under every interleaving of one producer and one consumer, the items handed out by
  \<open>pop\<close> are a prefix of the items accepted by \<open>push\<close>, in order; at most \<open>SIZE - 1\<close> items
  are in flight; and the two threads never access the same slot at the same time (when the
  producer is about to write a slot and the consumer about to read one, the slots differ).\<close>

theorem spsc_fifo_race_free:
  assumes "spsc_reach N d s" "pow2 N"
  shows "prefix (delivered s) (accepted s)
    \<and> length (accepted s) \<le> length (delivered s) + spsc_capacity N
    \<and> (\<forall>x h t. prod s = P_room x h \<longrightarrow> cons s = C_avail t \<longrightarrow> h \<noteq> t)"
proof -
  have I: "spsc_sys_inv N s" using spsc_reach_inv [OF assms] .
  then have "length (spsc_items N (queue s)) \<le> N - 1"
    by (intro spsc.items_cap) (simp add: spsc_sys_inv_def)
  with I show ?thesis
    by (auto simp: spsc_sys_inv_def spsc_capacity_def)
qed

lemma spsc_reach_push:
  "\<exists>s. spsc_reach 4 (0::nat) s \<and> accepted s = [7] \<and> delivered s = [] \<and> prod s = P_idle"
proof -
  let ?s0 = "\<lparr>queue = spsc_init 4 (0::nat), prod = P_idle, cons = C_idle, accepted = [], delivered = []\<rparr>"
  have "spsc_reach 4 0 ?s0" by (rule spsc_reach.start)
  then have "spsc_reach 4 0 (?s0\<lparr>prod := P_loaded 7 (q_head (queue ?s0))\<rparr>)" (is "spsc_reach _ _ ?s1")
    by (rule spsc_reach.step) (rule spsc_step.p_load, simp)
  then have "spsc_reach 4 0 (?s1\<lparr>prod := P_room 7 0\<rparr>)" (is "spsc_reach _ _ ?s2")
    by (rule spsc_reach.step)
      (rule spsc_step.p_check, simp_all add: spsc_init_def ring_mask_def)
  then have "spsc_reach 4 0 (?s2\<lparr>queue := (queue ?s2)\<lparr>q_buffer := (q_buffer (queue ?s2))[0 := 7]\<rparr>,
      prod := P_wrote 7 0\<rparr>)" (is "spsc_reach _ _ ?s3")
    by (rule spsc_reach.step) (rule spsc_step.p_write, simp)
  then have "spsc_reach 4 0 (?s3\<lparr>queue := (queue ?s3)\<lparr>q_head := ring_mask 4 (0 + 1)\<rparr>, prod := P_idle,
      accepted := accepted ?s3 @ [7]\<rparr>)" (is "spsc_reach _ _ ?s4")
    by (rule spsc_reach.step) (rule spsc_step.p_publish, simp)
  then show ?thesis by (intro exI [of _ ?s4]) simp
qed

theorem spsc_fifo_race_free_witness:
  "\<exists>s. spsc_reach 4 (0::nat) s \<and> accepted s = [7] \<and> delivered s = []
     \<and> prefix (delivered s) (accepted s) \<and> length (accepted s) \<le> length (delivered s) + spsc_capacity 4"
proof -
  obtain s where s: "spsc_reach 4 (0::nat) s" "accepted s = [7]" "delivered s = []"
    using spsc_reach_push by blast
  have "pow2 4" by (simp add: pow2_def)
  from spsc_fifo_race_free [OF s(1) this] s show ?thesis by blast
qed

text \<open>Any sequence of \<open>push\<close> and \<open>pop\<close> calls on an SPSC queue: what was in it and what was
  accepted is, in order, what was handed out and what is left in it; and \<open>size()\<close> reports the
  number of items left.\<close>

theorem spsc_run_conserves:
  assumes "spsc_inv N q" "N \<le> 2 ^ 64" "run_queue (spsc_push N) (spsc_pop N) q ops = (q', ins, outs)"
  shows "spsc_items N q @ ins = outs @ spsc_items N q' \<and> spsc_size N q' = length (spsc_items N q')"
  using spsc.run_fifo [OF assms(1,3)] spsc_size_items assms(2) by blast

theorem spsc_run_conserves_witness:
  "\<exists>q'. run_queue (spsc_push 4) (spsc_pop 4) (spsc_init 4 (0::nat))
          [Push 5, Push 6, Pop, Push 7, Push 8, Push 9] = (q', [5, 6, 7, 8], [5])
     \<and> spsc_items 4 (spsc_init 4 0) @ [5, 6, 7, 8] = [5] @ spsc_items 4 q'
     \<and> spsc_size 4 q' = length (spsc_items 4 q')"
proof -
  have i: "spsc_inv 4 (spsc_init 4 (0::nat))"
    using spsc_init_inv [of 4 "0::nat"] by (simp add: pow2_def)
  have r: "run_queue (spsc_push 4) (spsc_pop 4) (spsc_init 4 (0::nat))
      [Push 5, Push 6, Pop, Push 7, Push 8, Push 9]
      = (\<lparr>q_buffer = [5, 6, 7, 8], q_head = 0, q_tail = 1\<rparr>, [5, 6, 7, 8], [5])"
    by code_simp
  have "(4::nat) \<le> 2 ^ 64" by simp
  from spsc_run_conserves [OF i this r] r show ?thesis by blast
qed

end
