(* ===== verification/Mpmc.thy ===== *)
theory Mpmc
  imports Ring_Buffer
begin

text \<open>
  \<open>lockfree/mpmc_queue.hpp\<close>: the bounded queue for any number of producers and consumers, as a
  step relation over the loads, compare-and-swaps and stores of \<open>push\<close> and \<open>pop\<close>.  The
  producer half is the one of \<open>lockfree/mpsc_queue.hpp\<close> too.
\<close>

section \<open>State and steps\<close>

record 'a cell =
  seq :: nat
  cdata :: 'a

text \<open>A \<open>std::size_t\<close> store keeps the value modulo \<open>2^64\<close>.\<close>

definition sz :: "nat \<Rightarrow> nat" where
  "sz n = n mod 2 ^ 64"

text \<open>
  \<open>static_cast<std::intptr_t>(seq) - static_cast<std::intptr_t>(pos)\<close>.
\<close>

definition seq_diff :: "nat \<Rightarrow> nat \<Rightarrow> int" where
  "seq_diff a b = s64 (s64 (int a) - s64 (int b))"

datatype 'a mppc = MP_idle | MP_pos 'a nat | MP_free 'a nat | MP_reload 'a | MP_own 'a nat
  | MP_wrote nat

datatype 'a mcpc = MC_idle | MC_pos nat | MC_ready nat | MC_reload | MC_own nat | MC_read nat 'a

text \<open>
  \<open>claims\<close> lists the items in the order in which their compare-and-swap on \<open>head_\<close>
  succeeded, \<open>taken\<close> the positions and values with which calls of \<open>pop\<close> returned true, and
  \<open>popped\<close> counts the successful compare-and-swaps on \<open>tail_\<close>.
\<close>

record 'a mq =
  cells :: "'a cell list"
  mhead :: nat
  mtail :: nat
  mprod :: "nat \<Rightarrow> 'a mppc"
  mcons :: "nat \<Rightarrow> 'a mcpc"
  claims :: "'a list"
  popped :: nat
  taken :: "(nat \<times> 'a) list"

definition mq_init :: "nat \<Rightarrow> 'a \<Rightarrow> 'a mq" where
  "mq_init N d = \<lparr>cells = map (\<lambda>i. \<lparr>seq = i, cdata = d\<rparr>) [0..<N], mhead = 0, mtail = 0,
     mprod = (\<lambda>_. MP_idle), mcons = (\<lambda>_. MC_idle), claims = [], popped = 0, taken = []\<rparr>"

abbreviation cell_at :: "nat \<Rightarrow> 'a mq \<Rightarrow> nat \<Rightarrow> 'a cell" where
  "cell_at N s pos \<equiv> cells s ! ring_mask N pos"

definition set_cell :: "nat \<Rightarrow> nat \<Rightarrow> ('a cell \<Rightarrow> 'a cell) \<Rightarrow> 'a mq \<Rightarrow> 'a mq" where
  "set_cell N pos f s = s\<lparr>cells := (cells s)[ring_mask N pos := f (cell_at N s pos)]\<rparr>"

definition set_prod :: "nat \<Rightarrow> 'a mppc \<Rightarrow> 'a mq \<Rightarrow> 'a mq" where
  "set_prod i p s = s\<lparr>mprod := (mprod s)(i := p)\<rparr>"

definition set_cons :: "nat \<Rightarrow> 'a mcpc \<Rightarrow> 'a mq \<Rightarrow> 'a mq" where
  "set_cons i p s = s\<lparr>mcons := (mcons s)(i := p)\<rparr>"

inductive mq_step :: "nat \<Rightarrow> 'a mq \<Rightarrow> 'a mq \<Rightarrow> bool" for N :: nat where
  p_load: "mprod s i = MP_idle \<Longrightarrow> mq_step N s (set_prod i (MP_pos x (mhead s)) s)"
| p_free: "mprod s i = MP_pos x pos \<Longrightarrow> seq_diff (seq (cell_at N s pos)) pos = 0 \<Longrightarrow>
     mq_step N s (set_prod i (MP_free x pos) s)"
| p_full: "mprod s i = MP_pos x pos \<Longrightarrow> seq_diff (seq (cell_at N s pos)) pos < 0 \<Longrightarrow>
     mq_step N s (set_prod i MP_idle s)"
| p_lost: "mprod s i = MP_pos x pos \<Longrightarrow> seq_diff (seq (cell_at N s pos)) pos > 0 \<Longrightarrow>
     mq_step N s (set_prod i (MP_reload x) s)"
| p_reload: "mprod s i = MP_reload x \<Longrightarrow> mq_step N s (set_prod i (MP_pos x (mhead s)) s)"
| p_cas: "mprod s i = MP_free x pos \<Longrightarrow> mhead s = pos \<Longrightarrow>
     mq_step N s (set_prod i (MP_own x pos) (s\<lparr>mhead := sz (pos + 1), claims := claims s @ [x]\<rparr>))"
| p_cas_fail: "mprod s i = MP_free x pos \<Longrightarrow> mq_step N s (set_prod i (MP_pos x (mhead s)) s)"
| p_write: "mprod s i = MP_own x pos \<Longrightarrow>
     mq_step N s (set_prod i (MP_wrote pos) (set_cell N pos (cdata_update (\<lambda>_. x)) s))"
| p_publish: "mprod s i = MP_wrote pos \<Longrightarrow>
     mq_step N s (set_prod i MP_idle (set_cell N pos (seq_update (\<lambda>_. sz (pos + 1))) s))"
| c_load: "mcons s i = MC_idle \<Longrightarrow> mq_step N s (set_cons i (MC_pos (mtail s)) s)"
| c_ready: "mcons s i = MC_pos pos \<Longrightarrow> seq_diff (seq (cell_at N s pos)) (sz (pos + 1)) = 0 \<Longrightarrow>
     mq_step N s (set_cons i (MC_ready pos) s)"
| c_empty: "mcons s i = MC_pos pos \<Longrightarrow> seq_diff (seq (cell_at N s pos)) (sz (pos + 1)) < 0 \<Longrightarrow>
     mq_step N s (set_cons i MC_idle s)"
| c_lost: "mcons s i = MC_pos pos \<Longrightarrow> seq_diff (seq (cell_at N s pos)) (sz (pos + 1)) > 0 \<Longrightarrow>
     mq_step N s (set_cons i MC_reload s)"
| c_reload: "mcons s i = MC_reload \<Longrightarrow> mq_step N s (set_cons i (MC_pos (mtail s)) s)"
| c_cas: "mcons s i = MC_ready pos \<Longrightarrow> mtail s = pos \<Longrightarrow>
     mq_step N s (set_cons i (MC_own pos) (s\<lparr>mtail := sz (pos + 1), popped := popped s + 1\<rparr>))"
| c_cas_fail: "mcons s i = MC_ready pos \<Longrightarrow> mq_step N s (set_cons i (MC_pos (mtail s)) s)"
| c_read: "mcons s i = MC_own pos \<Longrightarrow>
     mq_step N s (set_cons i (MC_read pos (cdata (cell_at N s pos))) s)"
| c_release: "mcons s i = MC_read pos v \<Longrightarrow>
     mq_step N s (set_cons i MC_idle (set_cell N pos (seq_update (\<lambda>_. sz (pos + N)))
                   (s\<lparr>taken := taken s @ [(pos, v)]\<rparr>)))"

inductive mq_reach :: "nat \<Rightarrow> 'a \<Rightarrow> 'a mq \<Rightarrow> bool" for N :: nat and d :: 'a where
  start: "mq_reach N d (mq_init N d)"
| step: "mq_reach N d s \<Longrightarrow> mq_step N s s' \<Longrightarrow> mq_reach N d s'"

section \<open>The invariant\<close>

text \<open>The positions a thread has won and not yet given back.\<close>

fun powns :: "'a mppc \<Rightarrow> nat option" where
  "powns (MP_own x p) = Some p"
| "powns (MP_wrote p) = Some p"
| "powns _ = None"

fun cowns :: "'a mcpc \<Rightarrow> nat option" where
  "cowns (MC_own p) = Some p"
| "cowns (MC_read p v) = Some p"
| "cowns _ = None"

text \<open>
  What each program counter knows; \<open>H\<close> and \<open>T\<close> are the numbers of positions claimed and
  taken, \<open>cs\<close> the cells and \<open>xs\<close> the claimed items.
\<close>

fun mprod_ok :: "nat \<Rightarrow> nat \<Rightarrow> nat \<Rightarrow> 'a cell list \<Rightarrow> 'a list \<Rightarrow> 'a mppc \<Rightarrow> bool" where
  "mprod_ok N H T cs xs (MP_pos x p) = (p \<le> H)"
| "mprod_ok N H T cs xs (MP_free x p) = (p \<le> H \<and> (p = H \<longrightarrow> seq (cs ! (p mod N)) = p))"
| "mprod_ok N H T cs xs (MP_own x p) =
     (T \<le> p \<and> p < H \<and> seq (cs ! (p mod N)) = p \<and> xs ! p = x)"
| "mprod_ok N H T cs xs (MP_wrote p) =
     (T \<le> p \<and> p < H \<and> seq (cs ! (p mod N)) = p \<and> cdata (cs ! (p mod N)) = xs ! p)"
| "mprod_ok N H T cs xs _ = True"

fun mcons_ok :: "nat \<Rightarrow> nat \<Rightarrow> nat \<Rightarrow> 'a cell list \<Rightarrow> 'a list \<Rightarrow> 'a mcpc \<Rightarrow> bool" where
  "mcons_ok N H T cs xs (MC_pos p) = (p \<le> T)"
| "mcons_ok N H T cs xs (MC_ready p) = (p \<le> T \<and> (p = T \<longrightarrow> seq (cs ! (p mod N)) = p + 1))"
| "mcons_ok N H T cs xs (MC_own p) =
     (p < T \<and> H \<le> p + N \<and> seq (cs ! (p mod N)) = p + 1 \<and> cdata (cs ! (p mod N)) = xs ! p)"
| "mcons_ok N H T cs xs (MC_read p v) =
     (p < T \<and> H \<le> p + N \<and> seq (cs ! (p mod N)) = p + 1 \<and> v = xs ! p)"
| "mcons_ok N H T cs xs _ = True"

text \<open>A cell whose position is claimed is being written or holds the item.\<close>

definition filled_ok :: "nat \<Rightarrow> nat \<Rightarrow> nat \<Rightarrow> 'a cell list \<Rightarrow> 'a list \<Rightarrow> bool" where
  "filled_ok N H T cs xs \<longleftrightarrow> (\<forall>p. T \<le> p \<longrightarrow> p < H \<longrightarrow>
     seq (cs ! (p mod N)) = p
     \<or> seq (cs ! (p mod N)) = p + 1 \<and> cdata (cs ! (p mod N)) = xs ! p)"

text \<open>A cell whose next position is not claimed is free for it, or a consumer still reads the
  item one lap below.\<close>

definition free_ok :: "nat \<Rightarrow> nat \<Rightarrow> nat \<Rightarrow> 'a cell list \<Rightarrow> bool" where
  "free_ok N H T cs \<longleftrightarrow> (\<forall>p. H \<le> p \<longrightarrow> p < T + N \<longrightarrow>
     seq (cs ! (p mod N)) = p \<or> N \<le> p \<and> seq (cs ! (p mod N)) = p - N + 1)"

text \<open>No position has two owners.\<close>

definition uniq_owner :: "(nat \<Rightarrow> nat option) \<Rightarrow> bool" where
  "uniq_owner f \<longleftrightarrow> (\<forall>i j p. f i = Some p \<longrightarrow> f j = Some p \<longrightarrow> i = j)"

text \<open>What \<open>pop\<close> handed out: each position once, with the item pushed at it.\<close>

definition taken_ok :: "nat \<Rightarrow> 'a list \<Rightarrow> (nat \<times> 'a) list \<Rightarrow> bool" where
  "taken_ok T xs tk \<longleftrightarrow> (\<forall>(p, v) \<in> set tk. p < T \<and> v = xs ! p) \<and> distinct (map fst tk)"

definition not_taken :: "(nat \<Rightarrow> nat option) \<Rightarrow> (nat \<times> 'a) list \<Rightarrow> bool" where
  "not_taken f tk \<longleftrightarrow> (\<forall>i p. f i = Some p \<longrightarrow> p \<notin> fst ` set tk)"

definition mq_inv :: "nat \<Rightarrow> 'a mq \<Rightarrow> bool" where
  "mq_inv N s \<longleftrightarrow>
     (let H = length (claims s); T = popped s; cs = cells s; xs = claims s in
      length cs = N \<and> mhead s = H \<and> mtail s = T \<and> T \<le> H \<and> H \<le> T + N
      \<and> filled_ok N H T cs xs \<and> free_ok N H T cs
      \<and> (\<forall>i. mprod_ok N H T cs xs (mprod s i)) \<and> (\<forall>i. mcons_ok N H T cs xs (mcons s i))
      \<and> uniq_owner (powns \<circ> mprod s) \<and> uniq_owner (cowns \<circ> mcons s)
      \<and> taken_ok T xs (taken s) \<and> not_taken (cowns \<circ> mcons s) (taken s))"

lemma uniq_owner_upd:
  "uniq_owner f \<Longrightarrow> p = None \<or> p = f i \<or> (\<forall>j. f j \<noteq> p) \<Longrightarrow> uniq_owner (f(i := p))"
  unfolding uniq_owner_def by (metis fun_upd_apply option.distinct(1))

lemma uniq_ownerD:
  "uniq_owner (f \<circ> g) \<Longrightarrow> f (g i) = Some p \<Longrightarrow> f (g j) = Some p \<Longrightarrow> i = j"
  unfolding uniq_owner_def comp_def by blast

lemma not_taken_upd:
  "not_taken f tk \<Longrightarrow> p = None \<or> p = f i \<or> (\<forall>q. p = Some q \<longrightarrow> q \<notin> fst ` set tk) \<Longrightarrow>
   not_taken (f(i := p)) tk"
  unfolding not_taken_def by (metis fun_upd_apply option.distinct(1))

lemma taken_ok_mono:
  "taken_ok T xs tk \<Longrightarrow> T \<le> T' \<Longrightarrow> T \<le> length xs \<Longrightarrow> taken_ok T' (xs @ ys) tk"
  by (fastforce simp: taken_ok_def nth_append)

lemma sz_id [simp]: "n < 2 ^ 63 \<Longrightarrow> sz n = n"
  by (simp add: sz_def)

lemma seq_diff_int: "a < 2 ^ 63 \<Longrightarrow> b < 2 ^ 63 \<Longrightarrow> seq_diff a b = int a - int b"
proof -
  assume "a < 2 ^ 63" "b < 2 ^ 63"
  then have "int a < 2 ^ 63" "int b < 2 ^ 63" by simp_all
  then show ?thesis by (simp add: seq_diff_def s64_id)
qed

lemma other_slot: "a < b \<Longrightarrow> b < a + N \<Longrightarrow> b mod N \<noteq> a mod (N::nat)"
proof
  assume ab: "a < b" "b < a + N" and "b mod N = a mod N"
  then have "N dvd b - a" by (simp add: mod_eq_dvd_iff_nat)
  with ab show False by (auto dest: dvd_imp_le)
qed

lemma mq_inv_parts:
  assumes "mq_inv N s"
  shows "length (cells s) = N" "mhead s = length (claims s)" "mtail s = popped s"
    "popped s \<le> length (claims s)" "length (claims s) \<le> popped s + N"
    "filled_ok N (length (claims s)) (popped s) (cells s) (claims s)"
    "free_ok N (length (claims s)) (popped s) (cells s)"
    "mprod_ok N (length (claims s)) (popped s) (cells s) (claims s) (mprod s i)"
    "mcons_ok N (length (claims s)) (popped s) (cells s) (claims s) (mcons s i)"
    "uniq_owner (powns \<circ> mprod s)" "uniq_owner (cowns \<circ> mcons s)"
    "taken_ok (popped s) (claims s) (taken s)" "not_taken (cowns \<circ> mcons s) (taken s)"
  using assms unfolding mq_inv_def Let_def by blast+

text \<open>Steps that change one program counter only.\<close>

lemma mq_inv_set_prod:
  assumes "mq_inv N s"
    and "mprod_ok N (length (claims s)) (popped s) (cells s) (claims s) pc"
    and "powns pc = None \<or> powns pc = powns (mprod s i)"
  shows "mq_inv N (set_prod i pc s)"
proof -
  note I = mq_inv_parts [OF assms(1)]
  have "uniq_owner ((powns \<circ> mprod s)(i := powns pc))"
    by (rule uniq_owner_upd [OF I(10)]) (use assms(3) in auto)
  then show ?thesis using I assms(2) by (simp add: mq_inv_def set_prod_def fun_upd_comp)
qed

lemma mq_inv_set_cons:
  assumes "mq_inv N s"
    and "mcons_ok N (length (claims s)) (popped s) (cells s) (claims s) pc"
    and "cowns pc = None \<or> cowns pc = cowns (mcons s i)"
  shows "mq_inv N (set_cons i pc s)"
proof -
  note I = mq_inv_parts [OF assms(1)]
  have "uniq_owner ((cowns \<circ> mcons s)(i := cowns pc))"
    by (rule uniq_owner_upd [OF I(11)]) (use assms(3) in auto)
  moreover have "not_taken ((cowns \<circ> mcons s)(i := cowns pc)) (taken s)"
    by (rule not_taken_upd [OF I(13)]) (use assms(3) in auto)
  ultimately show ?thesis using I assms(2) by (simp add: mq_inv_def set_cons_def fun_upd_comp)
qed

text \<open>The sequence numbers stay below \<open>2^63\<close> while fewer than \<open>2^63 - N\<close> items were pushed.\<close>

lemma window_slot:
  assumes "0 < N"
  obtains p where "T \<le> p" "p < T + N" "p mod N = i mod (N::nat)"
proof
  let ?p = "T + (i + (N - T mod N)) mod N"
  show "T \<le> ?p" "?p < T + N" using assms by simp_all
  have "?p mod N = (T mod N + (i + (N - T mod N))) mod N"
    by (metis mod_add_left_eq mod_add_right_eq)
  also have "T mod N + (i + (N - T mod N)) = i + N"
    using mod_less_divisor [OF assms, of T] by linarith
  finally show "?p mod N = i mod N" by simp
qed

lemma seq_bound:
  assumes "filled_ok N H T cs xs" "free_ok N H T cs" "T \<le> H" "0 < N" "H + N < 2 ^ 63"
  shows "seq (cs ! (i mod N)) < 2 ^ 63"
proof -
  obtain p where p: "T \<le> p" "p < T + N" "p mod N = i mod N" by (rule window_slot [OF assms(4)])
  show ?thesis
  proof (cases "p < H")
    case True
    with assms p have "seq (cs ! (p mod N)) \<le> p + 1" by (auto simp: filled_ok_def)
    with True p(3) assms(4,5) show ?thesis by simp
  next
    case False
    then have "seq (cs ! (p mod N)) = p \<or> N \<le> p \<and> seq (cs ! (p mod N)) = p - N + 1"
      using assms(2) p(2) by (simp add: free_ok_def)
    then have "seq (cs ! (p mod N)) \<le> p + 1" by auto
    with p assms show ?thesis by simp
  qed
qed

lemma claim_room:
  assumes "filled_ok N H T cs xs" "T \<le> H" "H \<le> T + N" "2 \<le> N" "seq (cs ! (H mod N)) = H"
  shows "H < T + N"
proof (rule ccontr)
  assume "\<not> H < T + N"
  then have "H = T + N" using assms by simp
  then have "H mod N = T mod N" "T < H" using assms by simp_all
  with assms \<open>H = T + N\<close> show False by (auto simp: filled_ok_def)
qed

lemma take_ready:
  assumes "free_ok N H T cs" "T \<le> H" "0 < N" "seq (cs ! (T mod N)) = T + 1"
  shows "T < H"
proof (rule ccontr)
  assume "\<not> T < H"
  then have "seq (cs ! (T mod N)) = T \<or> N \<le> T \<and> seq (cs ! (T mod N)) = T - N + 1"
    using assms by (auto simp: free_ok_def)
  with assms show False by auto
qed

text \<open>The compare-and-swap on \<open>head_\<close>.\<close>

lemma mprod_ok_claim:
  assumes "mprod_ok N H T cs xs pc" "length xs = H"
  shows "mprod_ok N (Suc H) T cs (xs @ [x]) pc"
  using assms by (cases pc) (auto simp: nth_append)

lemma mcons_ok_claim:
  assumes "mcons_ok N H T cs xs pc" "length xs = H" "T \<le> H" "seq (cs ! (H mod N)) = H" "2 \<le> N"
  shows "mcons_ok N (Suc H) T cs (xs @ [x]) pc"
proof -
  have "Suc H \<le> p + N" if "seq (cs ! (p mod N)) = Suc p" "H \<le> p + N" for p
  proof (rule ccontr)
    assume "\<not> Suc H \<le> p + N"
    then have "H = p + N" using that(2) by simp
    then have "H = Suc p" using that(1) assms(4) by simp
    then show False using \<open>H = p + N\<close> assms(5) by simp
  qed
  with assms show ?thesis by (cases pc) (auto simp: nth_append)
qed

lemma mq_inv_claim:
  assumes inv: "mq_inv N s" and pc: "mprod s i = MP_free x pos" "mhead s = pos" and N: "2 \<le> N"
    and bound: "length (claims s) + N < 2 ^ 63"
  shows "mq_inv N (set_prod i (MP_own x pos) (s\<lparr>mhead := sz (pos + 1), claims := claims s @ [x]\<rparr>))"
proof -
  let ?H = "length (claims s)" and ?T = "popped s" and ?cs = "cells s"
  note I = mq_inv_parts [OF inv]
  have pos: "pos = ?H" using I(2) pc by simp
  have sq: "seq (?cs ! (?H mod N)) = ?H" using I(8) [of i] pc pos by simp
  have room: "?H < ?T + N" using claim_room [OF I(6,4,5) N sq] .
  have fill: "filled_ok N (Suc ?H) ?T ?cs (claims s @ [x])"
    using I(6) sq by (auto simp: filled_ok_def nth_append less_Suc_eq)
  have free: "free_ok N (Suc ?H) ?T ?cs"
    using I(7) by (auto simp: free_ok_def)
  have po: "mprod_ok N (Suc ?H) ?T ?cs (claims s @ [x]) (mprod s j)" for j
    by (rule mprod_ok_claim [OF I(8)]) simp
  have co: "mcons_ok N (Suc ?H) ?T ?cs (claims s @ [x]) (mcons s j)" for j
    by (rule mcons_ok_claim [OF I(9) _ I(4) sq N]) simp
  have "powns (mprod s j) \<noteq> Some ?H" for j
    using I(8) [of j] by (cases "mprod s j") auto
  then have "uniq_owner ((powns \<circ> mprod s)(i := Some ?H))"
    by (intro uniq_owner_upd I(10)) auto
  then show ?thesis
    using I fill free po co room pos sq bound taken_ok_mono [OF I(12), of ?T "[x]"]
    by (simp add: mq_inv_def set_prod_def fun_upd_comp)
qed


lemma suc_slot: "2 \<le> N \<Longrightarrow> Suc p mod N \<noteq> p mod N"
  using other_slot [of p "Suc p" N] by simp

text \<open>Writing the item into the slot of an owned position.\<close>

lemma mq_inv_write:
  assumes inv: "mq_inv N s" and pc: "mprod s i = MP_own x pos" and N: "pow2 N" "2 \<le> N"
  shows "mq_inv N (set_prod i (MP_wrote pos) (set_cell N pos (cdata_update (\<lambda>_. x)) s))"
proof -
  let ?H = "length (claims s)" and ?T = "popped s" and ?k = "pos mod N"
  let ?cs = "(cells s)[?k := (cells s ! ?k)\<lparr>cdata := x\<rparr>]"
  note I = mq_inv_parts [OF inv]
  have P: "?T \<le> pos" "pos < ?H" "seq (cells s ! ?k) = pos" "claims s ! pos = x"
    using I(8) [of i] pc by auto
  have k: "?k < length (cells s)" using I(1) N by simp
  have sq: "seq (?cs ! (q mod N)) = seq (cells s ! (q mod N))" for q
    using k by (cases "q mod N = ?k") simp_all
  have dt: "cdata (?cs ! (q mod N)) = cdata (cells s ! (q mod N))" if "q mod N \<noteq> ?k" for q
    using that k by simp
  have fill: "filled_ok N ?H ?T ?cs (claims s)"
    unfolding filled_ok_def sq
  proof (intro allI impI)
    fix q assume q: "?T \<le> q" "q < ?H"
    then have old: "seq (cells s ! (q mod N)) = q \<or> seq (cells s ! (q mod N)) = q + 1
        \<and> cdata (cells s ! (q mod N)) = claims s ! q" using I(6) by (simp add: filled_ok_def)
    show "seq (cells s ! (q mod N)) = q \<or> seq (cells s ! (q mod N)) = q + 1
        \<and> cdata (?cs ! (q mod N)) = claims s ! q"
      using old dt P(3) suc_slot [OF N(2), of q] by (cases "q mod N = ?k") auto
  qed
  have free: "free_ok N ?H ?T ?cs" using I(7) unfolding free_ok_def sq by simp
  have po: "mprod_ok N ?H ?T ?cs (claims s) (mprod s j)" if "j \<noteq> i" for j
  proof -
    have "q mod N \<noteq> ?k" if "mprod s j = MP_wrote q" for q
    proof
      assume "q mod N = ?k"
      moreover have "seq (cells s ! (q mod N)) = q" using I(8) [of j] that by simp
      ultimately have "q = pos" using P(3) by metis
      then show False using uniq_ownerD [OF I(10), of j pos i] \<open>j \<noteq> i\<close> that pc by simp
    qed
    then show ?thesis using I(8) [of j] dt by (cases "mprod s j") (simp_all add: sq)
  qed
  have co: "mcons_ok N ?H ?T ?cs (claims s) (mcons s j)" for j
  proof -
    have "cdata (?cs ! (q mod N)) = cdata (cells s ! (q mod N))"
      if "seq (cells s ! (q mod N)) = Suc q" for q
      using that P(3) suc_slot [OF N(2), of q] by (intro dt) auto
    then show ?thesis using I(9) [of j] by (cases "mcons s j") (simp_all add: sq)
  qed
  have own: "uniq_owner ((powns \<circ> mprod s)(i := Some pos))"
    by (rule uniq_owner_upd [OF I(10)]) (simp add: pc)
  show ?thesis
    using I fill free po co own P k N(1)
    by (simp add: mq_inv_def set_prod_def set_cell_def fun_upd_comp sq)
qed

text \<open>Publishing the item: the release store of \<open>pos + 1\<close>.\<close>

lemma mq_inv_publish:
  assumes inv: "mq_inv N s" and pc: "mprod s i = MP_wrote pos" and N: "pow2 N" "2 \<le> N"
    and bound: "length (claims s) + N < 2 ^ 63"
  shows "mq_inv N (set_prod i MP_idle (set_cell N pos (seq_update (\<lambda>_. sz (pos + 1))) s))"
proof -
  let ?H = "length (claims s)" and ?T = "popped s" and ?k = "pos mod N"
  let ?cs = "(cells s)[?k := (cells s ! ?k)\<lparr>seq := Suc pos\<rparr>]"
  note I = mq_inv_parts [OF inv]
  have P: "?T \<le> pos" "pos < ?H" "seq (cells s ! ?k) = pos" "cdata (cells s ! ?k) = claims s ! pos"
    using I(8) [of i] pc by auto
  have k: "?k < length (cells s)" using I(1) N by simp
  have dt: "cdata (?cs ! (q mod N)) = cdata (cells s ! (q mod N))" for q
    using k by (cases "q mod N = ?k") simp_all
  have sq: "seq (?cs ! (q mod N)) = seq (cells s ! (q mod N))" if "q mod N \<noteq> ?k" for q
    using that k by simp
  have sk: "seq (?cs ! ?k) = Suc pos" using k by simp
  have same: "seq (?cs ! (q mod N)) = q" if "seq (cells s ! (q mod N)) = q" "q \<noteq> pos" for q
    using that P(3) by (intro trans [OF sq]) auto
  have ahead: "seq (?cs ! (q mod N)) = Suc q" if "seq (cells s ! (q mod N)) = Suc q" for q
    using that P(3) suc_slot [OF N(2), of q] by (intro trans [OF sq]) auto
  have fill: "filled_ok N ?H ?T ?cs (claims s)"
    using I(6) same ahead sk P unfolding filled_ok_def dt by (metis Suc_eq_plus1)
  have free: "free_ok N ?H ?T ?cs"
    unfolding free_ok_def
  proof (intro allI impI)
    fix q assume q: "?H \<le> q" "q < ?T + N"
    then have "q mod N \<noteq> ?k" using P other_slot [of pos q N] by simp
    then show "seq (?cs ! (q mod N)) = q \<or> N \<le> q \<and> seq (?cs ! (q mod N)) = q - N + 1"
      using sq I(7) q by (simp add: free_ok_def)
  qed
  have po: "mprod_ok N ?H ?T ?cs (claims s) (mprod s j)" if "j \<noteq> i" for j
  proof -
    have "q \<noteq> pos" if "powns (mprod s j) = Some q" for q
      using uniq_ownerD [OF I(10), of j pos i] \<open>j \<noteq> i\<close> that pc by auto
    then show ?thesis using I(8) [of j] same P(2) by (cases "mprod s j") (simp_all add: dt)
  qed
  have co: "mcons_ok N ?H ?T ?cs (claims s) (mcons s j)" for j
    using I(9) [of j] ahead by (cases "mcons s j") (simp_all add: dt)
  have own: "uniq_owner ((powns \<circ> mprod s)(i := None))"
    by (rule uniq_owner_upd [OF I(10)]) simp
  show ?thesis
    using I fill free po co own P k N(1) bound
    by (simp add: mq_inv_def set_prod_def set_cell_def fun_upd_comp)
qed

text \<open>The compare-and-swap on \<open>tail_\<close>.\<close>

lemma mq_inv_take:
  assumes inv: "mq_inv N s" and pc: "mcons s i = MC_ready pos" "mtail s = pos" and N: "2 \<le> N"
    and bound: "length (claims s) + N < 2 ^ 63"
  shows "mq_inv N (set_cons i (MC_own pos) (s\<lparr>mtail := sz (pos + 1), popped := popped s + 1\<rparr>))"
proof -
  let ?H = "length (claims s)" and ?T = "popped s" and ?cs = "cells s"
  note I = mq_inv_parts [OF inv]
  have pos: "pos = ?T" using I(3) pc by simp
  have sq: "seq (?cs ! (?T mod N)) = Suc ?T" using I(9) [of i] pc pos by simp
  have room: "?T < ?H" using take_ready [OF I(7,4)] N sq by simp
  have dt: "cdata (?cs ! (?T mod N)) = claims s ! ?T"
    using I(6) room sq by (auto simp: filled_ok_def)
  have fill: "filled_ok N ?H (Suc ?T) ?cs (claims s)"
    using I(6) by (auto simp: filled_ok_def)
  have free: "free_ok N ?H (Suc ?T) ?cs"
    unfolding free_ok_def
  proof (intro allI impI)
    fix q assume q: "?H \<le> q" "q < Suc ?T + N"
    show "seq (?cs ! (q mod N)) = q \<or> N \<le> q \<and> seq (?cs ! (q mod N)) = q - N + 1"
      using I(7) q sq by (cases "q = ?T + N") (simp_all add: free_ok_def)
  qed
  have po: "mprod_ok N ?H (Suc ?T) ?cs (claims s) (mprod s j)" for j
  proof -
    have "Suc ?T \<le> q" if "?T \<le> q" "seq (?cs ! (q mod N)) = q" for q
      using that sq by (cases "q = ?T") auto
    then show ?thesis using I(8) [of j] by (cases "mprod s j") auto
  qed
  have co: "mcons_ok N ?H (Suc ?T) ?cs (claims s) (mcons s j)" for j
    using I(9) [of j] by (cases "mcons s j") auto
  have "cowns (mcons s j) \<noteq> Some ?T" for j
    using I(9) [of j] by (cases "mcons s j") auto
  then have own: "uniq_owner ((cowns \<circ> mcons s)(i := Some ?T))"
    by (intro uniq_owner_upd I(11)) auto
  have "?T \<notin> fst ` set (taken s)" using I(12) by (auto simp: taken_ok_def)
  then have nt: "not_taken ((cowns \<circ> mcons s)(i := Some ?T)) (taken s)"
    by (intro not_taken_upd I(13)) auto
  show ?thesis
    using I fill free po co own nt room pos sq dt bound taken_ok_mono [OF I(12), of "Suc ?T" "[]"]
    by (simp add: mq_inv_def set_cons_def fun_upd_comp)
qed

text \<open>Freeing the slot for the next lap: the release store of \<open>pos + SIZE\<close>.\<close>

lemma mq_inv_release:
  assumes inv: "mq_inv N s" and pc: "mcons s i = MC_read pos v" and N: "pow2 N" "2 \<le> N"
    and bound: "length (claims s) + N < 2 ^ 63"
  shows "mq_inv N (set_cons i MC_idle (set_cell N pos (seq_update (\<lambda>_. sz (pos + N)))
           (s\<lparr>taken := taken s @ [(pos, v)]\<rparr>)))"
proof -
  let ?H = "length (claims s)" and ?T = "popped s" and ?k = "pos mod N"
  let ?cs = "(cells s)[?k := (cells s ! ?k)\<lparr>seq := pos + N\<rparr>]"
  note I = mq_inv_parts [OF inv]
  have P: "pos < ?T" "?H \<le> pos + N" "seq (cells s ! ?k) = Suc pos" "v = claims s ! pos"
    using I(9) [of i] pc by auto
  have k: "?k < length (cells s)" using I(1) N by simp
  have dt: "cdata (?cs ! (q mod N)) = cdata (cells s ! (q mod N))" for q
    using k by (cases "q mod N = ?k") simp_all
  have sq: "seq (?cs ! (q mod N)) = seq (cells s ! (q mod N))" if "q mod N \<noteq> ?k" for q
    using that k by simp
  have sk: "seq (?cs ! ?k) = pos + N" using k by simp
  have window: "seq (?cs ! (q mod N)) = seq (cells s ! (q mod N))" if "?T \<le> q" "q < ?H" for q
    using that P other_slot [of pos q N] by (intro sq) simp
  have ahead: "seq (?cs ! (q mod N)) = Suc q" if "seq (cells s ! (q mod N)) = Suc q" "q \<noteq> pos" for q
    using that P(3) by (intro trans [OF sq]) auto
  have fill: "filled_ok N ?H ?T ?cs (claims s)"
    using I(6) window by (simp add: filled_ok_def dt)
  have free: "free_ok N ?H ?T ?cs"
    unfolding free_ok_def
  proof (intro allI impI)
    fix q assume q: "?H \<le> q" "q < ?T + N"
    show "seq (?cs ! (q mod N)) = q \<or> N \<le> q \<and> seq (?cs ! (q mod N)) = q - N + 1"
    proof (cases "q mod N = ?k")
      case True
      moreover have "q \<le> pos + N"
        using True q P I(4) other_slot [of "pos + N" q N] by fastforce
      moreover have "pos + N \<le> q"
        using True q P I(4) other_slot [of pos q N] by fastforce
      ultimately show ?thesis using sk by simp
    next
      case False
      then show ?thesis using I(7) q by (simp add: sq free_ok_def)
    qed
  qed
  have po: "mprod_ok N ?H ?T ?cs (claims s) (mprod s j)" for j
  proof -
    have "seq (?cs ! (?H mod N)) = ?H" if "seq (cells s ! (?H mod N)) = ?H"
      using that P(3) suc_slot [OF N(2), of pos] by (intro trans [OF sq]) auto
    then show ?thesis using I(8) [of j] window by (cases "mprod s j") (simp_all add: dt)
  qed
  have co: "mcons_ok N ?H ?T ?cs (claims s) (mcons s j)" if "j \<noteq> i" for j
  proof -
    have "q \<noteq> pos" if "cowns (mcons s j) = Some q" for q
      using uniq_ownerD [OF I(11), of j pos i] \<open>j \<noteq> i\<close> that pc by auto
    then show ?thesis using I(9) [of j] ahead P(1) by (cases "mcons s j") (simp_all add: dt)
  qed
  have own: "uniq_owner ((cowns \<circ> mcons s)(i := None))"
    by (rule uniq_owner_upd [OF I(11)]) simp
  have fresh: "pos \<notin> fst ` set (taken s)"
    using I(13) pc by (metis comp_apply cowns.simps(2) not_taken_def)
  have tk: "taken_ok ?T (claims s) (taken s @ [(pos, v)])"
    using I(12) P fresh by (auto simp: taken_ok_def)
  have nt: "not_taken ((cowns \<circ> mcons s)(i := None)) (taken s @ [(pos, v)])"
    using I(13) uniq_ownerD [OF I(11), of _ pos i] pc by (auto simp: not_taken_def)
  show ?thesis
    using I fill free po co own tk nt P k N(1) bound
    by (simp add: mq_inv_def set_cons_def set_cell_def fun_upd_comp)
qed

section \<open>Reachable states\<close>

lemma mq_init_inv: "mq_inv N (mq_init N d)"
  by (simp add: mq_inv_def mq_init_def filled_ok_def free_ok_def uniq_owner_def taken_ok_def
      not_taken_def)

lemma mq_step_claims: "mq_step N s s' \<Longrightarrow> length (claims s) \<le> length (claims s')"
  by (induction rule: mq_step.induct) (simp_all add: set_prod_def set_cons_def set_cell_def)

lemma mq_step_inv:
  assumes "mq_step N s s'" "mq_inv N s" "pow2 N" "2 \<le> N" "length (claims s') + N < 2 ^ 63"
  shows "mq_inv N s'"
proof -
  note I = mq_inv_parts [OF assms(2)]
  have B: "length (claims s) + N < 2 ^ 63"
    using mq_step_claims [OF assms(1)] assms(5) by simp
  have cell: "seq (cells s ! (i mod N)) < 2 ^ 63" for i
    using seq_bound [OF I(6,7,4) _ B] assms(4) by simp
  have diff: "seq_diff (seq (cell_at N s pos)) p = int (seq (cells s ! (pos mod N))) - int p"
    if "p < 2 ^ 63" for pos p
    using seq_diff_int [OF cell that] assms(3) by simp
  show ?thesis
    using assms(1)
  proof (cases rule: mq_step.cases)
    case (p_free i x pos)
    with I(8) [of i] diff [of pos pos] B have "seq (cells s ! (pos mod N)) = pos" "pos \<le> length (claims s)"
      by auto
    with p_free show ?thesis by (auto intro!: mq_inv_set_prod assms(2))
  next
    case (c_ready i pos)
    then have "pos \<le> popped s" using I(9) [of i] by simp
    then have "Suc pos < 2 ^ 63" using I(4) B assms(4) by linarith
    then have "seq (cells s ! (pos mod N)) = Suc pos"
      using c_ready diff [of "Suc pos" pos] by simp
    then have "mcons_ok N (length (claims s)) (popped s) (cells s) (claims s) (MC_ready pos)"
      using \<open>pos \<le> popped s\<close> by (metis Suc_eq_plus1 mcons_ok.simps(2))
    then show ?thesis
      unfolding c_ready(1) by (rule mq_inv_set_cons [OF assms(2)]) simp
  next
    case (p_cas i x pos)
    show ?thesis unfolding p_cas(1) by (rule mq_inv_claim [OF assms(2) p_cas(2,3) assms(4) B])
  next
    case (p_write i x pos)
    show ?thesis unfolding p_write(1) by (rule mq_inv_write [OF assms(2) p_write(2) assms(3,4)])
  next
    case (p_publish i pos)
    show ?thesis unfolding p_publish(1) by (rule mq_inv_publish [OF assms(2) p_publish(2) assms(3,4) B])
  next
    case (c_cas i pos)
    show ?thesis unfolding c_cas(1) by (rule mq_inv_take [OF assms(2) c_cas(2,3) assms(4) B])
  next
    case (c_release i pos v)
    show ?thesis unfolding c_release(1) by (rule mq_inv_release [OF assms(2) c_release(2) assms(3,4) B])
  next
    case (c_read i pos)
    with I(9) [of i] assms(3) show ?thesis by (auto intro!: mq_inv_set_cons assms(2))
  qed (auto intro!: mq_inv_set_prod mq_inv_set_cons assms(2) simp: I)
qed

lemma mq_reach_inv:
  assumes "mq_reach N d s" "pow2 N" "2 \<le> N" "length (claims s) + N < 2 ^ 63"
  shows "mq_inv N s"
  using assms
proof (induction rule: mq_reach.induct)
  case start
  show ?case by (rule mq_init_inv)
next
  case (step s s')
  then have "length (claims s) + N < 2 ^ 63" using mq_step_claims [of N s s'] by simp
  with step show ?case by (blast intro: mq_step_inv)
qed

section \<open>Properties\<close>

text \<open>C1. In every reachable state of an MPMC queue of two or more slots, with fewer than
  \<open>2^63 - SIZE\<close> items pushed so far, the pops have returned distinct positions, each with the
  item that the compare-and-swap for this position stored, and at most \<open>SIZE\<close> claimed items are
  not taken: no item is lost, duplicated, torn or reordered, under any interleaving of any number
  of producers and consumers.\<close>

theorem mpmc_exactly_once:
  assumes "mq_reach N d s" "pow2 N" "2 \<le> N" "length (claims s) + N < 2 ^ 63"
  shows "distinct (map fst (taken s)) \<and> (\<forall>(p, v) \<in> set (taken s). p < popped s \<and> v = claims s ! p)
    \<and> popped s \<le> length (claims s) \<and> length (claims s) \<le> popped s + N"
  using mq_inv_parts(4,5,12) [OF mq_reach_inv [OF assms]] by (auto simp: taken_ok_def)

text \<open>
  A call that is not interleaved with others: from an idle thread and a free slot the five steps of
  \<open>push\<close> lead to the queue with the item published; from a published slot the five steps of
  \<open>pop\<close> hand the item out.
\<close>

lemma mq_push_run:
  assumes "mq_reach N d s" "mprod s i = MP_idle"
    and free: "seq_diff (seq (cell_at N s (mhead s))) (mhead s) = 0"
    and ix: "ring_mask N (mhead s) < length (cells s)"
  shows "mq_reach N d (s\<lparr>mhead := sz (mhead s + 1), claims := claims s @ [x],
           cells := (cells s)[ring_mask N (mhead s) :=
             (cell_at N s (mhead s))\<lparr>cdata := x, seq := sz (mhead s + 1)\<rparr>]\<rparr>)"
proof -
  let ?h = "mhead s"
  let ?s1 = "set_prod i (MP_pos x ?h) s"
  let ?s2 = "set_prod i (MP_free x ?h) ?s1"
  let ?s3 = "set_prod i (MP_own x ?h) (?s2\<lparr>mhead := sz (?h + 1), claims := claims ?s2 @ [x]\<rparr>)"
  let ?s4 = "set_prod i (MP_wrote ?h) (set_cell N ?h (cdata_update (\<lambda>_. x)) ?s3)"
  let ?s5 = "set_prod i MP_idle (set_cell N ?h (seq_update (\<lambda>_. sz (?h + 1))) ?s4)"
  note defs = set_prod_def set_cell_def
  have "mq_step N s ?s1" by (rule mq_step.p_load) (rule assms(2))
  then have "mq_reach N d ?s1" by (rule mq_reach.step [OF assms(1)])
  then have "mq_reach N d ?s2"
    by (rule mq_reach.step) (rule mq_step.p_free, use free in \<open>simp_all add: defs\<close>)
  then have "mq_reach N d ?s3"
    by (rule mq_reach.step) (rule mq_step.p_cas, simp_all add: defs)
  then have "mq_reach N d ?s4"
    by (rule mq_reach.step) (rule mq_step.p_write, simp add: defs)
  then have "mq_reach N d ?s5"
    by (rule mq_reach.step) (rule mq_step.p_publish, simp add: defs)
  moreover have "(mprod s)(i := MP_idle) = mprod s" using assms(2) by auto
  ultimately show ?thesis using ix by (simp add: defs)
qed

lemma mq_pop_run:
  assumes "mq_reach N d s" "mcons s i = MC_idle"
    and ready: "seq_diff (seq (cell_at N s (mtail s))) (sz (mtail s + 1)) = 0"
    and ix: "ring_mask N (mtail s) < length (cells s)"
  shows "mq_reach N d (s\<lparr>mtail := sz (mtail s + 1), popped := popped s + 1,
           taken := taken s @ [(mtail s, cdata (cell_at N s (mtail s)))],
           cells := (cells s)[ring_mask N (mtail s) :=
             (cell_at N s (mtail s))\<lparr>seq := sz (mtail s + N)\<rparr>]\<rparr>)"
proof -
  let ?t = "mtail s" and ?v = "cdata (cell_at N s (mtail s))"
  let ?s1 = "set_cons i (MC_pos ?t) s"
  let ?s2 = "set_cons i (MC_ready ?t) ?s1"
  let ?s3 = "set_cons i (MC_own ?t) (?s2\<lparr>mtail := sz (?t + 1), popped := popped ?s2 + 1\<rparr>)"
  let ?s4 = "set_cons i (MC_read ?t (cdata (cell_at N ?s3 ?t))) ?s3"
  let ?s5 = "set_cons i MC_idle (set_cell N ?t (seq_update (\<lambda>_. sz (?t + N)))
                (?s4\<lparr>taken := taken ?s4 @ [(?t, cdata (cell_at N ?s3 ?t))]\<rparr>))"
  note defs = set_cons_def set_cell_def
  have "mq_step N s ?s1" by (rule mq_step.c_load) (rule assms(2))
  then have "mq_reach N d ?s1" by (rule mq_reach.step [OF assms(1)])
  then have "mq_reach N d ?s2"
    by (rule mq_reach.step) (rule mq_step.c_ready, use ready in \<open>simp_all add: defs\<close>)
  then have "mq_reach N d ?s3"
    by (rule mq_reach.step) (rule mq_step.c_cas, simp_all add: defs)
  then have "mq_reach N d ?s4"
    by (rule mq_reach.step) (rule mq_step.c_read, simp add: defs)
  then have "mq_reach N d ?s5"
    by (rule mq_reach.step) (rule mq_step.c_release, simp add: defs)
  moreover have "(mcons s)(i := MC_idle) = mcons s" using assms(2) by auto
  ultimately show ?thesis using ix by (simp add: defs)
qed

lemmas mq_eval = mq_init_def ring_mask_def seq_diff_def s64_def sz_def

lemma mq_reach_one:
  "\<exists>s. mq_reach 2 (0::nat) s \<and> claims s = [7] \<and> popped s = 1 \<and> taken s = [(0, 7)]"
proof -
  let ?s1 = "mq_init 2 (0::nat)\<lparr>mhead := 1, claims := [7],
       cells := [\<lparr>seq = 1, cdata = 7\<rparr>, \<lparr>seq = 1, cdata = 0\<rparr>]\<rparr>"
  have "mq_reach 2 0 ?s1"
    using mq_push_run [OF mq_reach.start, of 2 0 0 7] by (simp add: mq_eval upt_rec)
  then show ?thesis
    using mq_pop_run [of 2 0 ?s1 0] by (auto simp: mq_eval)
qed

theorem mpmc_exactly_once_witness:
  "\<exists>s. mq_reach 2 (0::nat) s \<and> taken s = [(0, 7)] \<and> claims s = [7]
     \<and> distinct (map fst (taken s)) \<and> length (claims s) \<le> popped s + 2"
proof -
  obtain s where s: "mq_reach 2 (0::nat) s" "claims s = [7]" "popped s = 1" "taken s = [(0, 7)]"
    using mq_reach_one by blast
  have "distinct (map fst (taken s)) \<and> length (claims s) \<le> popped s + 2"
    using mpmc_exactly_once [OF s(1)] s(2) by (simp add: pow2_iff exI [of _ 1])
  with s show ?thesis by blast
qed

text \<open>A queue of one slot, which the class admits (\<open>static_assert\<close> asks for a positive power
  of two), does not keep its capacity: freeing a slot and publishing into it store the same
  sequence number, so a second \<open>push\<close> succeeds while the first item is still queued and
  overwrites it.\<close>

theorem mpmc_one_slot_overrun:
  "pow2 1 \<and> (\<exists>s. mq_reach 1 (0::nat) s \<and> claims s = [7, 8] \<and> popped s = 0
     \<and> length (cells s) = 1 \<and> cdata (cells s ! 0) = 8 \<and> seq (cells s ! 0) = 2)"
proof -
  let ?s1 = "mq_init 1 (0::nat)\<lparr>mhead := 1, claims := [7], cells := [\<lparr>seq = 1, cdata = 7\<rparr>]\<rparr>"
  have "mq_reach 1 0 ?s1"
    using mq_push_run [OF mq_reach.start, of 1 0 0 7] by (simp add: mq_eval)
  then have "\<exists>s. mq_reach 1 (0::nat) s \<and> claims s = [7, 8] \<and> popped s = 0
     \<and> length (cells s) = 1 \<and> cdata (cells s ! 0) = 8 \<and> seq (cells s ! 0) = 2"
    using mq_push_run [of 1 0 ?s1 0 8] by (auto simp: mq_eval)
  then show ?thesis by (simp add: pow2_def)
qed

end
