(* ===== verification/Mpsc.thy ===== *)
theory Mpsc
  imports Mpmc
begin

text \<open>
  \<open>lockfree/mpsc_queue.hpp\<close>: any number of producers, one consumer.  \<open>push\<close> is the code of the
  MPMC queue; \<open>pop\<close> advances \<open>tail_\<close> with a plain store after it has freed the slot.  A mediator
  function maps each state to a state of the MPMC queue in which the consumer wins its position as
  soon as it has seen the slot ready, so every execution is one of the MPMC queue with one consumer.
\<close>

section \<open>State and steps\<close>

datatype 'a spc = SC_idle | SC_pos nat | SC_ready nat | SC_read nat 'a | SC_freed nat

text \<open>
  \<open>pushed\<close> lists the items in the order of their compare-and-swap on \<open>head_\<close>, \<open>out\<close> the items
  \<open>pop\<close> returned, in order.
\<close>

record 'a msq =
  buffer :: "'a cell list"
  shead :: nat
  stail :: nat
  sprod :: "nat \<Rightarrow> 'a mppc"
  scons :: "'a spc"
  pushed :: "'a list"
  out :: "'a list"

definition msq_init :: "nat \<Rightarrow> 'a \<Rightarrow> 'a msq" where
  "msq_init N d = \<lparr>buffer = map (\<lambda>i. \<lparr>seq = i, cdata = d\<rparr>) [0..<N], shead = 0, stail = 0,
     sprod = (\<lambda>_. MP_idle), scons = SC_idle, pushed = [], out = []\<rparr>"

abbreviation slot_at :: "nat \<Rightarrow> 'a msq \<Rightarrow> nat \<Rightarrow> 'a cell" where
  "slot_at N s pos \<equiv> buffer s ! ring_mask N pos"

definition upd_slot :: "nat \<Rightarrow> nat \<Rightarrow> ('a cell \<Rightarrow> 'a cell) \<Rightarrow> 'a msq \<Rightarrow> 'a msq" where
  "upd_slot N pos f s = s\<lparr>buffer := (buffer s)[ring_mask N pos := f (slot_at N s pos)]\<rparr>"

definition upd_prod :: "nat \<Rightarrow> 'a mppc \<Rightarrow> 'a msq \<Rightarrow> 'a msq" where
  "upd_prod i p s = s\<lparr>sprod := (sprod s)(i := p)\<rparr>"

inductive ms_step :: "nat \<Rightarrow> 'a msq \<Rightarrow> 'a msq \<Rightarrow> bool" for N :: nat where
  sp_load: "sprod s i = MP_idle \<Longrightarrow> ms_step N s (upd_prod i (MP_pos x (shead s)) s)"
| sp_free: "sprod s i = MP_pos x pos \<Longrightarrow> seq_diff (seq (slot_at N s pos)) pos = 0 \<Longrightarrow>
     ms_step N s (upd_prod i (MP_free x pos) s)"
| sp_full: "sprod s i = MP_pos x pos \<Longrightarrow> seq_diff (seq (slot_at N s pos)) pos < 0 \<Longrightarrow>
     ms_step N s (upd_prod i MP_idle s)"
| sp_lost: "sprod s i = MP_pos x pos \<Longrightarrow> seq_diff (seq (slot_at N s pos)) pos > 0 \<Longrightarrow>
     ms_step N s (upd_prod i (MP_reload x) s)"
| sp_reload: "sprod s i = MP_reload x \<Longrightarrow> ms_step N s (upd_prod i (MP_pos x (shead s)) s)"
| sp_cas: "sprod s i = MP_free x pos \<Longrightarrow> shead s = pos \<Longrightarrow>
     ms_step N s (upd_prod i (MP_own x pos) (s\<lparr>shead := sz (pos + 1), pushed := pushed s @ [x]\<rparr>))"
| sp_cas_fail: "sprod s i = MP_free x pos \<Longrightarrow> ms_step N s (upd_prod i (MP_pos x (shead s)) s)"
| sp_write: "sprod s i = MP_own x pos \<Longrightarrow>
     ms_step N s (upd_prod i (MP_wrote pos) (upd_slot N pos (cdata_update (\<lambda>_. x)) s))"
| sp_publish: "sprod s i = MP_wrote pos \<Longrightarrow>
     ms_step N s (upd_prod i MP_idle (upd_slot N pos (seq_update (\<lambda>_. sz (pos + 1))) s))"
| sc_load: "scons s = SC_idle \<Longrightarrow> ms_step N s (s\<lparr>scons := SC_pos (stail s)\<rparr>)"
| sc_ready: "scons s = SC_pos pos \<Longrightarrow> seq_diff (seq (slot_at N s pos)) (sz (pos + 1)) = 0 \<Longrightarrow>
     ms_step N s (s\<lparr>scons := SC_ready pos\<rparr>)"
| sc_empty: "scons s = SC_pos pos \<Longrightarrow> seq_diff (seq (slot_at N s pos)) (sz (pos + 1)) \<noteq> 0 \<Longrightarrow>
     ms_step N s (s\<lparr>scons := SC_idle\<rparr>)"
| sc_read: "scons s = SC_ready pos \<Longrightarrow>
     ms_step N s (s\<lparr>scons := SC_read pos (cdata (slot_at N s pos))\<rparr>)"
| sc_release: "scons s = SC_read pos v \<Longrightarrow>
     ms_step N s (upd_slot N pos (seq_update (\<lambda>_. sz (pos + N))) (s\<lparr>scons := SC_freed pos, out := out s @ [v]\<rparr>))"
| sc_tail: "scons s = SC_freed pos \<Longrightarrow> ms_step N s (s\<lparr>scons := SC_idle, stail := sz (pos + 1)\<rparr>)"

inductive ms_reach :: "nat \<Rightarrow> 'a \<Rightarrow> 'a msq \<Rightarrow> bool" for N :: nat and d :: 'a where
  start: "ms_reach N d (msq_init N d)"
| step: "ms_reach N d s \<Longrightarrow> ms_step N s s' \<Longrightarrow> ms_reach N d s'"

text \<open>\<open>empty\<close> and \<open>capacity\<close>.\<close>

definition msq_empty :: "nat \<Rightarrow> 'a msq \<Rightarrow> bool" where
  "msq_empty N s \<longleftrightarrow> seq (slot_at N s (stail s)) \<noteq> sz (stail s + 1)"

definition msq_capacity :: "nat \<Rightarrow> nat" where
  "msq_capacity N = N"

section \<open>The mediator\<close>

fun med_cons :: "'a spc \<Rightarrow> 'a mcpc" where
  "med_cons SC_idle = MC_idle"
| "med_cons (SC_pos p) = MC_pos p"
| "med_cons (SC_ready p) = MC_own p"
| "med_cons (SC_read p v) = MC_read p v"
| "med_cons (SC_freed p) = MC_idle"

text \<open>Whether the consumer is past its check and has not stored \<open>tail_\<close> yet.\<close>

fun ahead_of_tail :: "'a spc \<Rightarrow> bool" where
  "ahead_of_tail SC_idle = False"
| "ahead_of_tail (SC_pos p) = False"
| "ahead_of_tail _ = True"

definition med :: "'a msq \<Rightarrow> 'a mq" where
  "med s = \<lparr>cells = buffer s, mhead = shead s,
     mtail = (if ahead_of_tail (scons s) then sz (stail s + 1) else stail s),
     mprod = sprod s, mcons = (\<lambda>_. MC_idle)(0 := med_cons (scons s)), claims = pushed s,
     popped = (if ahead_of_tail (scons s) then stail s + 1 else stail s),
     taken = zip [0..<length (out s)] (out s)\<rparr>"

lemma med_simps [simp]:
  "cells (med s) = buffer s" "mhead (med s) = shead s" "mprod (med s) = sprod s" "claims (med s) = pushed s"
  "mcons (med s) i = (if i = 0 then med_cons (scons s) else MC_idle)"
  by (simp_all add: med_def)

text \<open>What one consumer adds: its position is \<open>tail_\<close>, and \<open>tail_\<close> counts the items handed out.\<close>

fun cons_ok :: "nat \<Rightarrow> nat \<Rightarrow> 'a spc \<Rightarrow> bool" where
  "cons_ok t n SC_idle = (n = t)"
| "cons_ok t n (SC_pos p) = (p = t \<and> n = t)"
| "cons_ok t n (SC_ready p) = (p = t \<and> n = t)"
| "cons_ok t n (SC_read p v) = (p = t \<and> n = t)"
| "cons_ok t n (SC_freed p) = (p = t \<and> n = Suc t)"

definition ms_inv :: "nat \<Rightarrow> 'a \<Rightarrow> 'a msq \<Rightarrow> bool" where
  "ms_inv N d s \<longleftrightarrow> cons_ok (stail s) (length (out s)) (scons s) \<and> mq_reach N d (med s)"

lemmas med_defs = med_def set_prod_def set_cons_def set_cell_def upd_prod_def upd_slot_def

text \<open>The mediator commutes with the updates of the producers.\<close>

lemma med_upd [simp]:
  "med (upd_prod i p s) = set_prod i p (med s)" "med (upd_slot N pos f s) = set_cell N pos f (med s)"
  "med (s\<lparr>shead := h, pushed := xs\<rparr>) = (med s)\<lparr>mhead := h, claims := xs\<rparr>"
  by (simp_all add: med_defs)

lemma upd_frame [simp]:
  "stail (upd_prod i p s) = stail s" "out (upd_prod i p s) = out s" "scons (upd_prod i p s) = scons s"
  "stail (upd_slot N pos f s) = stail s" "out (upd_slot N pos f s) = out s" "scons (upd_slot N pos f s) = scons s"
  by (simp_all add: upd_prod_def upd_slot_def)

lemma med_init: "med (msq_init N d) = mq_init N d"
  by (simp add: med_def msq_init_def mq_init_def fun_eq_iff)

lemma ms_step_pushed: "ms_step N s s' \<Longrightarrow> length (pushed s) \<le> length (pushed s')"
  by (induction rule: ms_step.induct) (simp_all add: upd_prod_def upd_slot_def)

lemma cons_fun_upd: "((\<lambda>_. MC_idle)(0 := a))(0 := b) = (\<lambda>_. MC_idle)(0 := b)"
  by simp

text \<open>In a reachable state the slot at \<open>tail_\<close> is never ahead of the consumer.\<close>

lemma slot_not_ahead:
  assumes "mq_inv N q" "pow2 N" "2 \<le> N" "length (claims q) + N < 2 ^ 63"
  shows "seq_diff (seq (cell_at N q (popped q))) (sz (popped q + 1)) \<le> 0"
proof -
  note I = mq_inv_parts [OF assms(1)]
  let ?T = "popped q" and ?c = "seq (cells q ! (popped q mod N))"
  have b: "?c < 2 ^ 63" using seq_bound [OF I(6,7,4) _ assms(4)] assms(3) by simp
  have T: "?T + 1 < 2 ^ 63" using I(4) assms(3,4) by simp
  have "?c \<le> ?T + 1"
  proof (cases "?T < length (claims q)")
    case True
    then show ?thesis using I(6) by (auto simp: filled_ok_def)
  next
    case False
    then have "?c = ?T \<or> N \<le> ?T \<and> ?c = ?T - N + 1" using I(4,7) assms(3) by (simp add: free_ok_def)
    then show ?thesis by auto
  qed
  then show ?thesis using seq_diff_int [OF b, of "?T + 1"] T assms(2) by simp
qed

lemma ms_step_simulates:
  assumes "ms_step N s s'" "ms_inv N d s" "pow2 N" "2 \<le> N" "length (pushed s') + N < 2 ^ 63"
  shows "ms_inv N d s'"
proof -
  have C: "cons_ok (stail s) (length (out s)) (scons s)" and R: "mq_reach N d (med s)"
    using assms(2) by (simp_all add: ms_inv_def)
  have B: "length (claims (med s)) + N < 2 ^ 63" using ms_step_pushed [OF assms(1)] assms(5) by simp
  note inv = mq_reach_inv [OF R assms(3,4) B]
  have tl: "stail s + 1 < 2 ^ 63" if "\<not> ahead_of_tail (scons s)"
    using mq_inv_parts(4) [OF inv] B that assms(4) by (simp add: med_def)
  note go = mq_reach.step [OF R]
  show ?thesis
    using assms(1)
  proof (cases rule: ms_step.cases)
    case (sc_ready pos)
    then have pos: "pos = stail s" "length (out s) = stail s" using C by simp_all
    have "mq_reach N d (set_cons 0 (MC_ready pos) (med s))"
      by (rule go, rule mq_step.c_ready) (use sc_ready in simp_all)
    then have "mq_reach N d (set_cons 0 (MC_own pos) ((set_cons 0 (MC_ready pos) (med s))
        \<lparr>mtail := sz (pos + 1), popped := popped (set_cons 0 (MC_ready pos) (med s)) + 1\<rparr>))"
      by (rule mq_reach.step, intro mq_step.c_cas) (use sc_ready pos in \<open>simp_all add: med_defs\<close>)
    then show ?thesis using sc_ready pos by (simp add: ms_inv_def med_defs)
  next
    case (sc_empty pos)
    then have pos: "pos = stail s" "length (out s) = stail s" using C by simp_all
    have "popped (med s) = pos" using sc_empty pos by (simp add: med_def)
    then have "seq_diff (seq (slot_at N s pos)) (sz (pos + 1)) < 0"
      using slot_not_ahead [OF inv assms(3,4) B] sc_empty(3) by simp
    then have "mq_reach N d (set_cons 0 MC_idle (med s))"
      by (intro go mq_step.c_empty) (use sc_empty in simp_all)
    then show ?thesis using sc_empty pos by (simp add: ms_inv_def med_defs)
  next
    case (sc_release pos v)
    then have pos: "pos = stail s" "length (out s) = stail s" using C by simp_all
    have "mq_reach N d (set_cons 0 MC_idle (set_cell N pos (seq_update (\<lambda>_. sz (pos + N)))
        ((med s)\<lparr>taken := taken (med s) @ [(pos, v)]\<rparr>)))"
      by (intro go mq_step.c_release) (use sc_release in simp)
    then show ?thesis using sc_release pos by (simp add: ms_inv_def med_defs)
  next
    case (sc_read pos)
    have "mq_reach N d (set_cons 0 (MC_read pos (cdata (cell_at N (med s) pos))) (med s))"
      by (intro go mq_step.c_read) (use sc_read in simp)
    then show ?thesis using sc_read C by (simp add: ms_inv_def med_defs)
  next
    case sc_load
    have "mq_reach N d (set_cons 0 (MC_pos (mtail (med s))) (med s))"
      by (intro go mq_step.c_load) (use sc_load in simp)
    then show ?thesis using sc_load C by (simp add: ms_inv_def med_defs)
  next
    case (sc_tail pos)
    then have "sz (pos + 1) = pos + 1" using C mq_inv_parts(4) [OF inv] B assms(4) by (simp add: med_def)
    then have "med s' = med s" using sc_tail C by (simp add: med_def)
    then show ?thesis using sc_tail C R \<open>sz (pos + 1) = pos + 1\<close> by (simp add: ms_inv_def)
  next
    case (sp_load i x)
    show ?thesis using go [OF mq_step.p_load [of "med s" i N x]] sp_load C by (simp add: ms_inv_def)
  next
    case (sp_free i x pos)
    show ?thesis using go [OF mq_step.p_free [of "med s" i x pos N]] sp_free C by (simp add: ms_inv_def)
  next
    case (sp_full i x pos)
    show ?thesis using go [OF mq_step.p_full [of "med s" i x pos N]] sp_full C by (simp add: ms_inv_def)
  next
    case (sp_lost i x pos)
    show ?thesis using go [OF mq_step.p_lost [of "med s" i x pos N]] sp_lost C by (simp add: ms_inv_def)
  next
    case (sp_reload i x)
    show ?thesis using go [OF mq_step.p_reload [of "med s" i x N]] sp_reload C by (simp add: ms_inv_def)
  next
    case (sp_cas i x pos)
    show ?thesis using go [OF mq_step.p_cas [of "med s" i x pos N]] sp_cas C by (simp add: ms_inv_def)
  next
    case (sp_cas_fail i x pos)
    show ?thesis using go [OF mq_step.p_cas_fail [of "med s" i x pos N]] sp_cas_fail C by (simp add: ms_inv_def)
  next
    case (sp_write i x pos)
    show ?thesis using go [OF mq_step.p_write [of "med s" i x pos N]] sp_write C by (simp add: ms_inv_def)
  next
    case (sp_publish i pos)
    show ?thesis using go [OF mq_step.p_publish [of "med s" i pos N]] sp_publish C by (simp add: ms_inv_def)
  qed
qed

lemma ms_reach_inv:
  assumes "ms_reach N d s" "pow2 N" "2 \<le> N" "length (pushed s) + N < 2 ^ 63"
  shows "ms_inv N d s"
  using assms
proof (induction rule: ms_reach.induct)
  case start
  show ?case by (simp add: ms_inv_def med_init mq_reach.start) (simp add: msq_init_def)
next
  case (step s s')
  then have "length (pushed s) + N < 2 ^ 63" using ms_step_pushed [of N s s'] by simp
  with step show ?case by (blast intro: ms_step_simulates)
qed

section \<open>Properties\<close>

text \<open>
  C2. The MPSC queue is first-in first-out under every interleaving.  With two or more slots and
  fewer than \<open>2^63 - SIZE\<close> pushes, what \<open>pop\<close> has returned is the first items pushed, in the order
  in which the producers won their slots, at most \<open>SIZE\<close> items wait, and the execution is one of the
  MPMC queue with one consumer.
\<close>

theorem mpsc_fifo:
  assumes "ms_reach N d s" "pow2 N" "2 \<le> N" "length (pushed s) + N < 2 ^ 63"
  shows "out s = take (length (out s)) (pushed s) \<and> length (pushed s) \<le> length (out s) + N
    \<and> mq_reach N d (med s)"
proof -
  have inv: "ms_inv N d s" by (rule ms_reach_inv [OF assms])
  then have R: "mq_reach N d (med s)" and C: "cons_ok (stail s) (length (out s)) (scons s)"
    by (simp_all add: ms_inv_def)
  note I = mq_inv_parts [OF mq_reach_inv [OF R assms(2,3)]]
  have tk: "taken_ok (popped (med s)) (pushed s) (zip [0..<length (out s)] (out s))"
    using I(12) assms(4) by (simp add: med_def)
  have le: "popped (med s) \<le> length (pushed s)" "length (pushed s) \<le> popped (med s) + N"
    using I(4,5) assms(4) by simp_all
  have nth: "i < length (pushed s) \<and> out s ! i = pushed s ! i" if "i < length (out s)" for i
  proof -
    have "(i, out s ! i) \<in> set (zip [0..<length (out s)] (out s))" using that by (auto simp: set_zip intro!: exI [of _ i])
    then show ?thesis using tk le(1) by (fastforce simp: taken_ok_def)
  qed
  have "length (out s) \<le> length (pushed s)"
    using nth [of "length (out s) - 1"] by (cases "length (out s)") auto
  then have "out s = take (length (out s)) (pushed s)" using nth by (intro nth_equalityI) simp_all
  moreover have "length (pushed s) \<le> length (out s) + N"
    using C le(2) I(9) [of 0] assms(4) by (cases "scons s") (simp_all add: med_def)
  ultimately show ?thesis using R by simp
qed

text \<open>One \<open>push\<close> and one \<open>pop\<close>, step by step.\<close>

lemma ms_reach_one: "\<exists>s. ms_reach 2 (0::nat) s \<and> pushed s = [7] \<and> out s = [7]"
proof -
  let ?s0 = "msq_init 2 (0::nat)"
  let ?s1 = "upd_prod 0 (MP_pos 7 0) ?s0"
  let ?s2 = "upd_prod 0 (MP_free 7 0) ?s1"
  let ?s3 = "upd_prod 0 (MP_own 7 0) (?s2\<lparr>shead := sz (0 + 1), pushed := pushed ?s2 @ [7]\<rparr>)"
  let ?s4 = "upd_prod 0 (MP_wrote 0) (upd_slot 2 0 (cdata_update (\<lambda>_. 7)) ?s3)"
  let ?s5 = "upd_prod 0 MP_idle (upd_slot 2 0 (seq_update (\<lambda>_. sz (0 + 1))) ?s4)"
  let ?s6 = "?s5\<lparr>scons := SC_pos (stail ?s5)\<rparr>"
  let ?s7 = "?s6\<lparr>scons := SC_ready 0\<rparr>"
  let ?s8 = "?s7\<lparr>scons := SC_read 0 (cdata (slot_at 2 ?s7 0))\<rparr>"
  let ?s9 = "upd_slot 2 0 (seq_update (\<lambda>_. sz (0 + 2))) (?s8\<lparr>scons := SC_freed 0, out := out ?s8 @ [7]\<rparr>)"
  note defs = msq_init_def upd_prod_def upd_slot_def ring_mask_def seq_diff_def s64_def sz_def upt_rec
  have "ms_reach 2 0 ?s1"
    using ms_reach.step [OF ms_reach.start ms_step.sp_load [of ?s0 0 2 7]] by (simp add: msq_init_def)
  then have "ms_reach 2 0 ?s2" by (rule ms_reach.step) (rule ms_step.sp_free, simp_all add: defs)
  then have "ms_reach 2 0 ?s3" by (rule ms_reach.step) (rule ms_step.sp_cas, simp_all add: defs)
  then have "ms_reach 2 0 ?s4" by (rule ms_reach.step) (rule ms_step.sp_write, simp add: defs)
  then have "ms_reach 2 0 ?s5" by (rule ms_reach.step) (rule ms_step.sp_publish, simp add: defs)
  then have "ms_reach 2 0 ?s6" by (rule ms_reach.step) (rule ms_step.sc_load, simp add: defs)
  then have "ms_reach 2 0 ?s7" by (rule ms_reach.step) (rule ms_step.sc_ready, simp_all add: defs)
  then have "ms_reach 2 0 ?s8" by (rule ms_reach.step) (rule ms_step.sc_read, simp)
  then have "ms_reach 2 0 ?s9" by (rule ms_reach.step) (rule ms_step.sc_release, simp add: defs)
  then show ?thesis by (intro exI [of _ ?s9]) (simp add: defs)
qed

theorem mpsc_fifo_witness: "\<exists>s. ms_reach 2 (0::nat) s \<and> out s = [7] \<and> take 1 (pushed s) = [7]"
proof -
  obtain s where s: "ms_reach 2 (0::nat) s" "pushed s = [7]" "out s = [7]" using ms_reach_one by blast
  have "out s = take (length (out s)) (pushed s)"
    using mpsc_fifo [OF s(1)] s(2) by (simp add: pow2_iff exI [of _ 1])
  with s show ?thesis by auto
qed

end
