(* ===== verification/Waitable.thy ===== *)
theory Waitable
  imports Mpsc
begin

text \<open>
  \<open>lockfree/waitable_mpsc.hpp\<close>: the MPSC queue with a consumer that may sleep.  The steps are the
  accesses to \<open>has_waiter_\<close>, to the mutex and to the condition variable, interleaved in any order; the queue
  inside is the first-in first-out queue shown of \<open>mpsc_queue.hpp\<close>, in which a slot is won first and
  published later and \<open>empty()\<close> looks at the oldest slot only.  The stores of \<open>has_waiter_\<close> and the store that publishes a slot are
  release stores and the loads acquire loads, so each thread has a buffer: a store reaches the other threads
  some time after it was issued, in order, and a later load may overtake it.  Compare-and-swap, lock and
  unlock wait until the buffer of their thread is empty.  With \<open>F\<close> the two loads that decide about sleeping and
  waking wait too, as they would after a sequentially consistent fence; the code has no such fence.
\<close>

section \<open>State and steps\<close>

datatype wppc = WP_idle | WP_claimed | WP_pushed | WP_lock | WP_locked | WP_notified

datatype wcpc = WC_idle | WC_lock | WC_locked | WC_check | WC_wait | WC_asleep | WC_woken | WC_timeout | WC_last
  | WC_leave bool | WC_unlock bool | WC_pop

datatype holder = Producer nat | Consumer

record 'a wslot =
  owner :: nat
  published :: bool
  item :: 'a

record 'a waitable =
  slots :: "'a wslot list"
  prod_buffer :: "nat \<Rightarrow> bool"
  has_waiter :: bool
  cons_buffer :: "bool list"
  mutex :: "holder option"
  wprod :: "nat \<Rightarrow> wppc"
  wcons :: wcpc
  claimed_items :: "'a list"
  popped_items :: "'a list"

definition w_init :: "'a waitable" where
  "w_init = \<lparr>slots = [], prod_buffer = (\<lambda>_. False), has_waiter = False, cons_buffer = [], mutex = None,
     wprod = (\<lambda>_. WP_idle), wcons = WC_idle, claimed_items = [], popped_items = []\<rparr>"

text \<open>\<open>!q_.empty()\<close>: the oldest slot is published.\<close>

definition front_ready :: "'a waitable \<Rightarrow> bool" where
  "front_ready s \<longleftrightarrow> (case slots s of [] \<Rightarrow> False | w # ws \<Rightarrow> published w)"

definition publish_of :: "nat \<Rightarrow> 'a wslot \<Rightarrow> 'a wslot" where
  "publish_of i w = (if owner w = i then w\<lparr>published := True\<rparr> else w)"

definition set_wprod :: "nat \<Rightarrow> wppc \<Rightarrow> 'a waitable \<Rightarrow> 'a waitable" where
  "set_wprod i p s = s\<lparr>wprod := (wprod s)(i := p)\<rparr>"

definition take_front :: "'a waitable \<Rightarrow> 'a waitable" where
  "take_front s = s\<lparr>popped_items := popped_items s @ [item (hd (slots s))], slots := tl (slots s)\<rparr>"

inductive w_step :: "bool \<Rightarrow> nat \<Rightarrow> 'a waitable \<Rightarrow> 'a waitable \<Rightarrow> bool" for F :: bool and N :: nat where
  wp_claim: "wprod s i = WP_idle \<Longrightarrow> \<not> prod_buffer s i \<Longrightarrow> length (slots s) < N \<Longrightarrow>
     w_step F N s (set_wprod i WP_claimed (s\<lparr>slots := slots s @ [\<lparr>owner = i, published = False, item = x\<rparr>], claimed_items := claimed_items s @ [x]\<rparr>))"
| wp_store: "wprod s i = WP_claimed \<Longrightarrow> w_step F N s (set_wprod i WP_pushed (s\<lparr>prod_buffer := (prod_buffer s)(i := True)\<rparr>))"
| wp_drain: "prod_buffer s i \<Longrightarrow>
     w_step F N s (s\<lparr>prod_buffer := (prod_buffer s)(i := False), slots := map (publish_of i) (slots s)\<rparr>)"
| wp_quiet: "wprod s i = WP_pushed \<Longrightarrow> \<not> has_waiter s \<Longrightarrow> F \<longrightarrow> \<not> prod_buffer s i \<Longrightarrow> w_step F N s (set_wprod i WP_idle s)"
| wp_waiter: "wprod s i = WP_pushed \<Longrightarrow> has_waiter s \<Longrightarrow> F \<longrightarrow> \<not> prod_buffer s i \<Longrightarrow> w_step F N s (set_wprod i WP_lock s)"
| wp_lock: "wprod s i = WP_lock \<Longrightarrow> mutex s = None \<Longrightarrow> \<not> prod_buffer s i \<Longrightarrow>
     w_step F N s (set_wprod i WP_locked (s\<lparr>mutex := Some (Producer i)\<rparr>))"
| wp_notify: "wprod s i = WP_locked \<Longrightarrow>
     w_step F N s (set_wprod i WP_notified (s\<lparr>wcons := (if wcons s = WC_asleep then WC_woken else wcons s)\<rparr>))"
| wp_unlock: "wprod s i = WP_notified \<Longrightarrow> w_step F N s (set_wprod i WP_idle (s\<lparr>mutex := None\<rparr>))"
| wc_fast: "wcons s = WC_idle \<Longrightarrow> front_ready s \<Longrightarrow> w_step F N s (take_front s)"
| wc_miss: "wcons s = WC_idle \<Longrightarrow> \<not> front_ready s \<Longrightarrow> w_step F N s (s\<lparr>wcons := WC_lock\<rparr>)"
| wc_lock: "wcons s = WC_lock \<Longrightarrow> mutex s = None \<Longrightarrow> cons_buffer s = [] \<Longrightarrow> w_step F N s (s\<lparr>wcons := WC_locked, mutex := Some Consumer\<rparr>)"
| wc_arm: "wcons s = WC_locked \<Longrightarrow> w_step F N s (s\<lparr>wcons := WC_check, cons_buffer := cons_buffer s @ [True]\<rparr>)"
| wc_drain: "cons_buffer s = h # hs \<Longrightarrow> w_step F N s (s\<lparr>has_waiter := h, cons_buffer := hs\<rparr>)"
| wc_ready: "wcons s = WC_check \<Longrightarrow> front_ready s \<Longrightarrow> F \<longrightarrow> cons_buffer s = [] \<Longrightarrow> w_step F N s (s\<lparr>wcons := WC_leave True\<rparr>)"
| wc_empty: "wcons s = WC_check \<Longrightarrow> \<not> front_ready s \<Longrightarrow> F \<longrightarrow> cons_buffer s = [] \<Longrightarrow> w_step F N s (s\<lparr>wcons := WC_wait\<rparr>)"
| wc_sleep: "wcons s = WC_wait \<Longrightarrow> cons_buffer s = [] \<Longrightarrow> w_step F N s (s\<lparr>wcons := WC_asleep, mutex := None\<rparr>)"
| wc_spurious: "wcons s = WC_asleep \<Longrightarrow> w_step F N s (s\<lparr>wcons := WC_woken\<rparr>)"
| wc_expire: "wcons s = WC_asleep \<Longrightarrow> w_step F N s (s\<lparr>wcons := WC_timeout\<rparr>)"
| wc_wake: "wcons s = WC_woken \<Longrightarrow> mutex s = None \<Longrightarrow> w_step F N s (s\<lparr>wcons := WC_check, mutex := Some Consumer\<rparr>)"
| wc_late: "wcons s = WC_timeout \<Longrightarrow> mutex s = None \<Longrightarrow> w_step F N s (s\<lparr>wcons := WC_last, mutex := Some Consumer\<rparr>)"
| wc_look: "wcons s = WC_last \<Longrightarrow> w_step F N s (s\<lparr>wcons := WC_leave (front_ready s)\<rparr>)"
| wc_disarm: "wcons s = WC_leave w \<Longrightarrow> w_step F N s (s\<lparr>wcons := WC_unlock w, cons_buffer := cons_buffer s @ [False]\<rparr>)"
| wc_unlock: "wcons s = WC_unlock w \<Longrightarrow> cons_buffer s = [] \<Longrightarrow>
     w_step F N s (s\<lparr>wcons := (if w then WC_pop else WC_idle), mutex := None\<rparr>)"
| wc_pop: "wcons s = WC_pop \<Longrightarrow> front_ready s \<Longrightarrow> w_step F N s (take_front (s\<lparr>wcons := WC_idle\<rparr>))"
| wc_pop_fails: "wcons s = WC_pop \<Longrightarrow> \<not> front_ready s \<Longrightarrow> w_step F N s (s\<lparr>wcons := WC_idle\<rparr>)"

inductive w_reach :: "bool \<Rightarrow> nat \<Rightarrow> 'a waitable \<Rightarrow> bool" for F :: bool and N :: nat where
  start: "w_reach F N w_init"
| step: "w_reach F N s \<Longrightarrow> w_step F N s s' \<Longrightarrow> w_reach F N s'"

section \<open>The invariant\<close>

fun cons_holds :: "wcpc \<Rightarrow> bool" where
  "cons_holds WC_locked = True"
| "cons_holds WC_check = True"
| "cons_holds WC_wait = True"
| "cons_holds WC_last = True"
| "cons_holds (WC_leave w) = True"
| "cons_holds (WC_unlock w) = True"
| "cons_holds _ = False"

fun cons_armed :: "wcpc \<Rightarrow> bool" where
  "cons_armed WC_check = True"
| "cons_armed WC_wait = True"
| "cons_armed WC_asleep = True"
| "cons_armed WC_woken = True"
| "cons_armed WC_timeout = True"
| "cons_armed WC_last = True"
| "cons_armed (WC_leave w) = True"
| "cons_armed _ = False"

fun found_item :: "wcpc \<Rightarrow> bool" where
  "found_item (WC_leave w) = w"
| "found_item (WC_unlock w) = w"
| "found_item WC_pop = True"
| "found_item _ = False"

definition prod_holds :: "wppc \<Rightarrow> bool" where
  "prod_holds p \<longleftrightarrow> p = WP_locked \<or> p = WP_notified"

definition will_notify :: "wppc \<Rightarrow> bool" where
  "will_notify p \<longleftrightarrow> p = WP_pushed \<or> p = WP_lock \<or> p = WP_locked"

text \<open>The value of \<open>has_waiter_\<close> once the consumer's buffer is empty.\<close>

definition flag :: "'a waitable \<Rightarrow> bool" where
  "flag s = (if cons_buffer s = [] then has_waiter s else List.last (cons_buffer s))"

text \<open>
  The mutex excludes, \<open>has_waiter_\<close> says whether the consumer is between arming and disarming, items keep their
  order, and what the consumer found stays there.
\<close>

definition w_inv :: "'a waitable \<Rightarrow> bool" where
  "w_inv s \<longleftrightarrow> (cons_holds (wcons s) \<longleftrightarrow> mutex s = Some Consumer)
     \<and> (\<forall>i. prod_holds (wprod s i) \<longleftrightarrow> mutex s = Some (Producer i))
     \<and> (flag s \<longleftrightarrow> cons_armed (wcons s)) \<and> (wcons s = WC_asleep \<longrightarrow> cons_buffer s = [])
     \<and> claimed_items s = popped_items s @ map item (slots s)
     \<and> (found_item (wcons s) \<longrightarrow> front_ready s)"

text \<open>With the fence: a consumer about to sleep or asleep, with an item ready, has a producer on its way to notify.\<close>

definition f_inv :: "'a waitable \<Rightarrow> bool" where
  "f_inv s \<longleftrightarrow> (\<forall>i. prod_buffer s i \<longrightarrow> wprod s i = WP_pushed) \<and> (wcons s = WC_wait \<longrightarrow> cons_buffer s = [])
     \<and> ((wcons s = WC_wait \<or> wcons s = WC_asleep) \<and> front_ready s \<longrightarrow> (\<exists>i. will_notify (wprod s i)))"

lemma front_ready_publish: "front_ready s \<Longrightarrow> slots s' = map (publish_of i) (slots s) \<Longrightarrow> front_ready s'"
  by (auto simp: front_ready_def publish_of_def split: list.splits)

lemma front_ready_append: "\<not> published w \<Longrightarrow> slots s' = slots s @ [w] \<Longrightarrow> front_ready s' \<longleftrightarrow> front_ready s"
  by (auto simp: front_ready_def split: list.splits)

lemma front_ready_same: "slots s' = slots s \<Longrightarrow> front_ready s' = front_ready s"
  by (simp add: front_ready_def)

lemma item_publish [simp]: "item (publish_of i w) = item w"
  by (simp add: publish_of_def)

lemma take_items: "front_ready s \<Longrightarrow> popped_items (take_front s) @ map item (slots (take_front s)) = popped_items s @ map item (slots s)"
  by (auto simp: front_ready_def take_front_def split: list.splits)

lemma take_frame [simp]: "wcons (take_front s) = wcons s" "mutex (take_front s) = mutex s" "wprod (take_front s) = wprod s" "flag (take_front s) = flag s"
  "cons_buffer (take_front s) = cons_buffer s" "claimed_items (take_front s) = claimed_items s" "prod_buffer (take_front s) = prod_buffer s"
  by (simp_all add: take_front_def flag_def)

lemma w_inv_init: "w_inv w_init"
  by (simp add: w_inv_def w_init_def flag_def prod_holds_def)

text \<open>A step of the consumer that leaves the slots alone, and one of a producer.\<close>

lemma w_inv_cons:
  assumes "w_inv s" "cons_holds c \<longleftrightarrow> m = Some Consumer" "(if b = [] then h else List.last b) \<longleftrightarrow> cons_armed c"
    and "\<And>i. m = Some (Producer i) \<longleftrightarrow> mutex s = Some (Producer i)" "found_item c \<Longrightarrow> front_ready s" "c = WC_asleep \<Longrightarrow> b = []"
    and "s' = s\<lparr>has_waiter := h, cons_buffer := b, mutex := m, wcons := c\<rparr>"
  shows "w_inv s'"
proof -
  have "flag s' \<longleftrightarrow> cons_armed c" using assms(3) by (auto simp: flag_def assms(7) split: if_splits)
  then show ?thesis using assms front_ready_same [of s' s] unfolding w_inv_def by simp
qed

lemma w_inv_prod:
  assumes "w_inv s" "prod_holds p \<longleftrightarrow> m = Some (Producer i)" "\<And>j. j \<noteq> i \<Longrightarrow> m = Some (Producer j) \<longleftrightarrow> mutex s = Some (Producer j)"
    and "cons_holds c \<longleftrightarrow> m = Some Consumer" "c = wcons s \<or> wcons s = WC_asleep \<and> c = WC_woken"
    and "claimed_items s' = popped_items s @ map item (slots s')" "front_ready s \<Longrightarrow> front_ready s'"
    and "wprod s' = (wprod s)(i := p)" "mutex s' = m" "wcons s' = c" "cons_buffer s' = cons_buffer s" "has_waiter s' = has_waiter s" "popped_items s' = popped_items s"
  shows "w_inv s'"
proof -
  have "prod_holds (wprod s' j) \<longleftrightarrow> mutex s' = Some (Producer j)" for j
    using assms(1-3,8,9) unfolding w_inv_def by (cases "j = i") simp_all
  moreover have "cons_armed c = cons_armed (wcons s)" "found_item c = found_item (wcons s)" "c = WC_asleep \<Longrightarrow> wcons s = WC_asleep" using assms(5) by auto
  moreover have "flag s' = flag s" by (simp add: flag_def assms)
  ultimately show ?thesis using assms(1,4,6,7,9-13) unfolding w_inv_def by simp
qed

lemma w_step_inv:
  assumes "w_step F N s s'" "w_inv s"
  shows "w_inv s'"
proof -
  from assms(2) have M: "cons_holds (wcons s) \<longleftrightarrow> mutex s = Some Consumer"
    and P: "\<And>i. prod_holds (wprod s i) \<longleftrightarrow> mutex s = Some (Producer i)"
    and A: "flag s \<longleftrightarrow> cons_armed (wcons s)" and B: "wcons s = WC_asleep \<Longrightarrow> cons_buffer s = []"
    and Q: "claimed_items s = popped_items s @ map item (slots s)" and R: "found_item (wcons s) \<Longrightarrow> front_ready s"
    unfolding w_inv_def by blast+
  note C = w_inv_cons [OF assms(2)] and D = w_inv_prod [OF assms(2)]
  show ?thesis
    using assms(1)
  proof (cases rule: w_step.cases)
    case (wp_claim i x)
    have f: "front_ready s' = front_ready s" using wp_claim by (intro front_ready_append) (auto simp: set_wprod_def)
    show ?thesis
    proof (rule D [of WP_claimed "mutex s" i "wcons s"])
      show "front_ready s \<Longrightarrow> front_ready s'" using f by simp
    qed (use wp_claim(1,2) M P [of i] Q in \<open>simp_all add: set_wprod_def prod_holds_def\<close>)
  next
    case (wp_store i)
    then show ?thesis using M P [of i] Q
      by (intro D [of WP_pushed "mutex s" i "wcons s"]) (auto simp: set_wprod_def prod_holds_def front_ready_def)
  next
    case (wp_drain i)
    show ?thesis
    proof (rule D [of "wprod s i" "mutex s" i "wcons s"])
      show "front_ready s'" if "front_ready s" by (rule front_ready_publish [OF that, of s' i]) (simp add: wp_drain(1))
    qed (use wp_drain(1) M P [of i] Q in \<open>simp_all add: comp_def\<close>)
  next
    case (wp_quiet i)
    then show ?thesis using M P [of i] Q
      by (intro D [of WP_idle "mutex s" i "wcons s"]) (auto simp: set_wprod_def prod_holds_def front_ready_def)
  next
    case (wp_waiter i)
    then show ?thesis using M P [of i] Q
      by (intro D [of WP_lock "mutex s" i "wcons s"]) (auto simp: set_wprod_def prod_holds_def front_ready_def)
  next
    case (wp_lock i)
    then show ?thesis using M P [of i] Q
      by (intro D [of WP_locked "Some (Producer i)" i "wcons s"]) (auto simp: set_wprod_def prod_holds_def front_ready_def)
  next
    case (wp_notify i)
    then show ?thesis using M P [of i] Q
      by (intro D [of WP_notified "mutex s" i "if wcons s = WC_asleep then WC_woken else wcons s"]) (auto simp: set_wprod_def prod_holds_def front_ready_def)
  next
    case (wp_unlock i)
    then show ?thesis using M P [of i] Q
      by (intro D [of WP_idle None i "wcons s"]) (auto simp: set_wprod_def prod_holds_def front_ready_def)
  next
    case wc_fast
    then show ?thesis using M P A B Q R take_items [of s] unfolding w_inv_def by simp
  next
    case wc_pop
    then show ?thesis using M P A B Q R take_items [of "s\<lparr>wcons := WC_idle\<rparr>"] front_ready_same [of "s\<lparr>wcons := WC_idle\<rparr>" s]
      unfolding w_inv_def by (auto simp: flag_def take_front_def split: if_splits)
  next
    case (wc_unlock w)
    then show ?thesis using M A R
      by (intro C [of "if w then WC_pop else WC_idle" None "cons_buffer s" "has_waiter s"]) (auto simp: flag_def split: if_splits)
  next
    case (wc_drain h hs)
    then show ?thesis using M A B R by (intro C [of "wcons s" "mutex s" hs h]) (auto simp: flag_def split: if_splits)
  next
    case wc_arm
    then show ?thesis using M by (intro C [of WC_check "mutex s" "cons_buffer s @ [True]" "has_waiter s"]) auto
  next
    case (wc_disarm w)
    then show ?thesis using M R by (intro C [of "WC_unlock w" "mutex s" "cons_buffer s @ [False]" "has_waiter s"]) auto
  next
    case wc_lock
    then show ?thesis using A by (intro C [of WC_locked "Some Consumer" "cons_buffer s" "has_waiter s"]) (auto simp: flag_def)
  next
    case wc_sleep
    then show ?thesis using M A by (intro C [of WC_asleep None "cons_buffer s" "has_waiter s"]) (auto simp: flag_def)
  next
    case wc_wake
    then show ?thesis using A by (intro C [of WC_check "Some Consumer" "cons_buffer s" "has_waiter s"]) (auto simp: flag_def split: if_splits)
  next
    case wc_late
    then show ?thesis using A by (intro C [of WC_last "Some Consumer" "cons_buffer s" "has_waiter s"]) (auto simp: flag_def split: if_splits)
  next
    case wc_look
    then show ?thesis using M A by (intro C [of "WC_leave (front_ready s)" "mutex s" "cons_buffer s" "has_waiter s"]) (auto simp: flag_def split: if_splits)
  next
    case wc_miss
    then show ?thesis using M A by (intro C [of WC_lock "mutex s" "cons_buffer s" "has_waiter s"]) (auto simp: flag_def split: if_splits)
  next
    case wc_ready
    then show ?thesis using M A by (intro C [of "WC_leave True" "mutex s" "cons_buffer s" "has_waiter s"]) (auto simp: flag_def split: if_splits)
  next
    case wc_empty
    then show ?thesis using M A by (intro C [of WC_wait "mutex s" "cons_buffer s" "has_waiter s"]) (auto simp: flag_def split: if_splits)
  next
    case wc_spurious
    then show ?thesis using M A B by (intro C [of WC_woken "mutex s" "cons_buffer s" "has_waiter s"]) (auto simp: flag_def split: if_splits)
  next
    case wc_expire
    then show ?thesis using M A B by (intro C [of WC_timeout "mutex s" "cons_buffer s" "has_waiter s"]) (auto simp: flag_def split: if_splits)
  next
    case wc_pop_fails
    then show ?thesis using M A by (intro C [of WC_idle "mutex s" "cons_buffer s" "has_waiter s"]) (auto simp: flag_def split: if_splits)
  qed
qed


section \<open>The consumer returns\<close>











section \<open>With a fence no wake-up is lost, without one it may be\<close>

lemma f_inv_keep:
  assumes "f_inv s" "wcons s' = wcons s" "front_ready s' \<longleftrightarrow> front_ready s" "cons_buffer s' = cons_buffer s"
    and "\<And>j. will_notify (wprod s j) \<Longrightarrow> will_notify (wprod s' j)" "\<And>j. prod_buffer s' j \<Longrightarrow> wprod s' j = WP_pushed"
  shows "f_inv s'"
  using assms(1,5,6) unfolding f_inv_def assms(2-4) by blast

lemma f_inv_awake:
  assumes "f_inv s" "wcons s' \<noteq> WC_wait" "wcons s' \<noteq> WC_asleep" "\<And>j. prod_buffer s' j \<Longrightarrow> wprod s' j = WP_pushed"
  shows "f_inv s'"
  using assms unfolding f_inv_def by blast

lemma f_step_inv:
  assumes "w_step True N s s'" "w_inv s" "f_inv s"
  shows "f_inv s'"
proof -
  have B: "\<And>j. prod_buffer s j \<Longrightarrow> wprod s j = WP_pushed" using assms(3) by (simp add: f_inv_def)
  note same = front_ready_same [of s' s] and K = f_inv_keep [OF assms(3)] and W = f_inv_awake [OF assms(3)]
  show ?thesis
    using assms(1)
  proof (cases rule: w_step.cases)
    case (wp_claim i x)
    have f: "front_ready s' = front_ready s" using wp_claim by (intro front_ready_append) (auto simp: set_wprod_def)
    show ?thesis by (rule K [OF _ f]) (use wp_claim B in \<open>auto simp: set_wprod_def will_notify_def split: if_splits\<close>)
  next
    case (wp_store i)
    have f: "front_ready s' = front_ready s" using wp_store(1) by (simp add: set_wprod_def front_ready_def)
    show ?thesis by (rule K [OF _ f]) (use wp_store B in \<open>auto simp: set_wprod_def will_notify_def split: if_splits\<close>)
  next
    case (wp_drain i)
    then have "will_notify (wprod s' i)" using B [of i] by (simp add: will_notify_def)
    moreover have "\<And>j. prod_buffer s' j \<Longrightarrow> wprod s' j = WP_pushed" using wp_drain B by (auto split: if_splits)
    moreover have "wcons s' = wcons s" "cons_buffer s' = cons_buffer s" using wp_drain(1) by simp_all
    ultimately show ?thesis using assms(3) unfolding f_inv_def by metis
  next
    case (wp_quiet i)
    then have "wcons s \<noteq> WC_wait" "wcons s \<noteq> WC_asleep" using assms(2,3) unfolding w_inv_def f_inv_def flag_def by (auto split: if_splits)
    then show ?thesis using wp_quiet B by (intro W) (auto simp: set_wprod_def)
  next
    case (wp_waiter i)
    have f: "front_ready s' = front_ready s" using wp_waiter(1) by (simp add: set_wprod_def front_ready_def)
    show ?thesis by (rule K [OF _ f]) (use wp_waiter B in \<open>auto simp: set_wprod_def will_notify_def split: if_splits\<close>)
  next
    case (wp_lock i)
    have f: "front_ready s' = front_ready s" using wp_lock(1) by (simp add: set_wprod_def front_ready_def)
    show ?thesis by (rule K [OF _ f]) (use wp_lock B in \<open>auto simp: set_wprod_def will_notify_def split: if_splits\<close>)
  next
    case (wp_notify i)
    then have "prod_holds (wprod s i)" by (simp add: prod_holds_def)
    then have "wcons s \<noteq> WC_wait" using assms(2) unfolding w_inv_def by force
    then show ?thesis using wp_notify B by (intro W) (auto simp: set_wprod_def)
  next
    case (wp_unlock i)
    have f: "front_ready s' = front_ready s" using wp_unlock(1) by (simp add: set_wprod_def front_ready_def)
    show ?thesis by (rule K [OF _ f]) (use wp_unlock B in \<open>auto simp: set_wprod_def will_notify_def split: if_splits\<close>)
  next
    case (wc_drain h hs)
    then show ?thesis using assms(3) same unfolding f_inv_def by simp
  next
    case wc_empty
    then show ?thesis using assms(3) same unfolding f_inv_def by simp
  next
    case wc_sleep
    then show ?thesis using assms(3) same unfolding f_inv_def by simp
  next
    case (wc_unlock w)
    then show ?thesis using B by (intro W) auto
  qed (use B in \<open>auto intro!: W simp: take_front_def\<close>)
qed

lemma fenced_no_lost_wakeup:
  assumes "w_reach True N s" "wcons s = WC_asleep" "front_ready s"
  shows "\<exists>i. will_notify (wprod s i)"
proof -
  have "w_inv s \<and> f_inv s"
    using assms(1)
  proof (induction rule: w_reach.induct)
    case start
    then show ?case using w_inv_init by (simp add: f_inv_def w_init_def)
  qed (blast intro: w_step_inv f_step_inv)
  then show ?thesis using assms(2,3) by (auto simp: f_inv_def)
qed

text \<open>
  Without the fence: the consumer issues its store of \<open>has_waiter_\<close> and looks at the queue before the store has
  arrived; a producer publishes, still reads \<open>false\<close> and returns.  The consumer sleeps with an item ready, every
  store has arrived, and nobody is left to wake it before its timeout.
\<close>

definition lost_wakeup :: "'a waitable \<Rightarrow> bool" where
  "lost_wakeup s \<longleftrightarrow> wcons s = WC_asleep \<and> front_ready s \<and> cons_buffer s = [] \<and> (\<forall>i. wprod s i = WP_idle \<and> \<not> prod_buffer s i)"

definition sleeper :: "nat waitable" where
  "sleeper = \<lparr>slots = [\<lparr>owner = 0, published = True, item = 7\<rparr>], prod_buffer = (\<lambda>_. False), has_waiter = True, cons_buffer = [], mutex = None,
     wprod = (\<lambda>_. WP_idle), wcons = WC_asleep, claimed_items = [7], popped_items = []\<rparr>"

lemma sleeper_reached: "w_reach False 4 sleeper"
proof -
  let ?i = "w_init :: nat waitable"
  let ?c = "\<lambda>c m b. ?i\<lparr>wcons := c, mutex := m, cons_buffer := b\<rparr>"
  let ?s = "?c WC_wait (Some Consumer) [True]"
  let ?s1 = "set_wprod 0 WP_claimed (?s\<lparr>slots := slots ?s @ [\<lparr>owner = 0, published = False, item = 7\<rparr>], claimed_items := claimed_items ?s @ [7]\<rparr>)"
  let ?s2 = "set_wprod 0 WP_pushed (?s1\<lparr>prod_buffer := (prod_buffer ?s1)(0 := True)\<rparr>)"
  let ?s3 = "set_wprod 0 WP_idle ?s2"
  let ?s4 = "?s3\<lparr>prod_buffer := (prod_buffer ?s3)(0 := False), slots := map (publish_of 0) (slots ?s3)\<rparr>"
  let ?s5 = "?s4\<lparr>has_waiter := True, cons_buffer := []\<rparr>"
  have "w_reach False 4 (?c WC_lock None [])"
    using w_reach.step [OF w_reach.start w_step.wc_miss, of False 4] by (simp add: w_init_def front_ready_def)
  then have "w_reach False 4 (?c WC_locked (Some Consumer) [])"
    using w_reach.step [OF _ w_step.wc_lock, of False 4 "?c WC_lock None []"] by (simp add: w_init_def)
  then have "w_reach False 4 (?c WC_check (Some Consumer) [True])"
    using w_reach.step [OF _ w_step.wc_arm, of False 4 "?c WC_locked (Some Consumer) []"] by (simp add: w_init_def)
  then have "w_reach False 4 ?s"
    using w_reach.step [OF _ w_step.wc_empty, of False 4 "?c WC_check (Some Consumer) [True]"] by (simp add: w_init_def front_ready_def)
  then have "w_reach False 4 ?s1" by (rule w_reach.step) (rule w_step.wp_claim, simp_all add: w_init_def)
  then have "w_reach False 4 ?s2" by (rule w_reach.step) (rule w_step.wp_store, simp add: set_wprod_def)
  then have "w_reach False 4 ?s3" by (rule w_reach.step) (rule w_step.wp_quiet, simp_all add: set_wprod_def w_init_def)
  then have "w_reach False 4 ?s4" by (rule w_reach.step) (rule w_step.wp_drain, simp add: set_wprod_def)
  then have "w_reach False 4 ?s5" by (rule w_reach.step) (rule w_step.wc_drain, simp add: set_wprod_def w_init_def)
  then have "w_reach False 4 (?s5\<lparr>wcons := WC_asleep, mutex := None\<rparr>)"
    by (rule w_reach.step) (rule w_step.wc_sleep, simp_all add: set_wprod_def w_init_def)
  moreover have "?s5\<lparr>wcons := WC_asleep, mutex := None\<rparr> = sleeper"
    by (simp add: sleeper_def set_wprod_def w_init_def publish_of_def fun_eq_iff)
  ultimately show ?thesis by simp
qed

lemma wakeup_lost_without_fence: "(\<exists>s :: nat waitable. w_reach F 4 s \<and> lost_wakeup s) \<longleftrightarrow> \<not> F"
proof (cases F)
  case True
  have "\<not> lost_wakeup s" if r: "w_reach True 4 s" for s :: "nat waitable"
  proof
    assume l: "lost_wakeup s"
    then obtain i where "will_notify (wprod s i)" using fenced_no_lost_wakeup [OF r] by (auto simp: lost_wakeup_def)
    moreover have "wprod s i = WP_idle" using l by (simp add: lost_wakeup_def)
    ultimately show False by (simp add: will_notify_def)
  qed
  then show ?thesis using True by auto
next
  case False
  have "lost_wakeup sleeper" by (simp add: lost_wakeup_def sleeper_def front_ready_def)
  then show ?thesis using False sleeper_reached by auto
qed

section \<open>Properties\<close>



end
