(* ===== verification/Sequencer.thy ===== *)
theory Sequencer
  imports Ring_Buffer
begin

unbundle bit_operations_syntax

text \<open>
  \<open>lockfree/sequencer.hpp\<close>: the single-producer ring with many readers.  The member functions
  first; then the protocol of the class comment as a step relation: the producer claims, writes in
  place and publishes, each reader reads every published slot in order, and an aggregator marks as
  consumed what all of them have read.
\<close>

section \<open>The class\<close>

record 'a sequencer =
  sq_buffer :: "'a list"
  cursor :: int
  gating :: int
  next_seq :: int

definition sequencer_init :: "nat \<Rightarrow> 'a \<Rightarrow> 'a sequencer" where
  "sequencer_init N d = \<lparr>sq_buffer = replicate N d, cursor = - 1, gating = - 1, next_seq = 0\<rparr>"

definition try_claim :: "nat \<Rightarrow> 'a sequencer \<Rightarrow> 'a sequencer \<times> int" where
  "try_claim N q =
     (let sq = next_seq q; wrap_min = s64 (sq - int N)
      in if wrap_min > gating q then (q, - 1) else (q\<lparr>next_seq := s64 (sq + 1)\<rparr>, sq))"

text \<open>\<open>seq & MASK\<close>.\<close>

definition sq_index :: "nat \<Rightarrow> int \<Rightarrow> nat" where
  "sq_index N sq = nat (sq AND int (N - 1))"

definition write_slot :: "nat \<Rightarrow> int \<Rightarrow> 'a \<Rightarrow> 'a sequencer \<Rightarrow> 'a sequencer" where
  "write_slot N sq x q = q\<lparr>sq_buffer := (sq_buffer q)[sq_index N sq := x]\<rparr>"

definition sq_publish :: "int \<Rightarrow> 'a sequencer \<Rightarrow> 'a sequencer" where
  "sq_publish sq q = q\<lparr>cursor := sq\<rparr>"

definition sq_available :: "'a sequencer \<Rightarrow> int" where
  "sq_available q = cursor q"

definition sq_read :: "nat \<Rightarrow> int \<Rightarrow> 'a sequencer \<Rightarrow> 'a" where
  "sq_read N sq q = sq_buffer q ! sq_index N sq"

definition mark_consumed :: "int \<Rightarrow> 'a sequencer \<Rightarrow> 'a sequencer" where
  "mark_consumed sq q = q\<lparr>gating := sq\<rparr>"

definition sq_capacity :: "nat \<Rightarrow> nat" where
  "sq_capacity N = N"

section \<open>The protocol\<close>

text \<open>
  \<open>pending\<close> is the claimed sequence number with its item and whether the slot is written; \<open>sent\<close>
  lists the published items, \<open>seen i\<close> what reader \<open>i\<close> has read, \<open>at i\<close> its next number.  A reader
  that works off a batch up to an earlier \<open>available()\<close> takes the same steps at the same numbers.
\<close>

record 'a sq_sys =
  ring :: "'a sequencer"
  pending :: "(int \<times> 'a \<times> bool) option"
  sent :: "'a list"
  at :: "nat \<Rightarrow> int"
  seen :: "nat \<Rightarrow> 'a list"

definition sq_start :: "nat \<Rightarrow> 'a \<Rightarrow> 'a sq_sys" where
  "sq_start N d = \<lparr>ring = sequencer_init N d, pending = None, sent = [], at = (\<lambda>_. 0), seen = (\<lambda>_. [])\<rparr>"

inductive sq_step :: "nat \<Rightarrow> nat \<Rightarrow> 'a sq_sys \<Rightarrow> 'a sq_sys \<Rightarrow> bool" for N K :: nat where
  claim: "pending s = None \<Longrightarrow> try_claim N (ring s) = (r, sq) \<Longrightarrow> sq \<noteq> - 1 \<Longrightarrow>
     sq_step N K s (s\<lparr>ring := r, pending := Some (sq, x, False)\<rparr>)"
| fill: "pending s = Some (sq, x, False) \<Longrightarrow>
     sq_step N K s (s\<lparr>ring := write_slot N sq x (ring s), pending := Some (sq, x, True)\<rparr>)"
| publish: "pending s = Some (sq, x, True) \<Longrightarrow>
     sq_step N K s (s\<lparr>ring := sq_publish sq (ring s), pending := None, sent := sent s @ [x]\<rparr>)"
| consume: "i < K \<Longrightarrow> at s i \<le> sq_available (ring s) \<Longrightarrow>
     sq_step N K s (s\<lparr>at := (at s)(i := at s i + 1),
       seen := (seen s)(i := seen s i @ [sq_read N (at s i) (ring s)])\<rparr>)"
| mark: "(\<And>i. i < K \<Longrightarrow> sq < at s i) \<Longrightarrow> - 1 \<le> sq \<Longrightarrow> 0 < K \<Longrightarrow>
     sq_step N K s (s\<lparr>ring := mark_consumed sq (ring s)\<rparr>)"

inductive sq_reach :: "nat \<Rightarrow> nat \<Rightarrow> 'a \<Rightarrow> 'a sq_sys \<Rightarrow> bool" for N K :: nat and d :: 'a where
  start: "sq_reach N K d (sq_start N d)"
| step: "sq_reach N K d s \<Longrightarrow> sq_step N K s s' \<Longrightarrow> sq_reach N K d s'"

section \<open>The invariant\<close>

lemma sq_index_mod: "pow2 N \<Longrightarrow> sq_index N (int j) = j mod N"
  using ring_mask_mod [of N j] by (simp add: sq_index_def ring_mask_def and_nat_def)

fun claimed :: "(int \<times> 'a \<times> bool) option \<Rightarrow> nat" where
  "claimed None = 0"
| "claimed (Some _) = 1"

text \<open>
  The numbers are consecutive, no reader is more than a lap behind the claimed number, and the
  last lap of published items is in the buffer.
\<close>

definition sq_inv :: "nat \<Rightarrow> nat \<Rightarrow> 'a sq_sys \<Rightarrow> bool" where
  "sq_inv N K s \<longleftrightarrow>
     (let L = length (sent s); b = sq_buffer (ring s) in
      length b = N \<and> cursor (ring s) = int L - 1 \<and> next_seq (ring s) = int (L + claimed (pending s))
      \<and> (\<forall>sq x w. pending s = Some (sq, x, w) \<longrightarrow> sq = int L \<and> (w \<longrightarrow> b ! (L mod N) = x))
      \<and> - 1 \<le> gating (ring s)
      \<and> (\<forall>i < K. gating (ring s) < int (length (seen s i)) \<and> L + claimed (pending s) \<le> length (seen s i) + N
           \<and> at s i = int (length (seen s i)) \<and> length (seen s i) \<le> L
           \<and> take (length (seen s i)) (sent s) = seen s i)
      \<and> (\<forall>j < L. L + claimed (pending s) \<le> j + N \<longrightarrow> b ! (j mod N) = sent s ! j))"

lemma sq_invI:
  assumes "length (sq_buffer (ring s)) = N" "cursor (ring s) = int (length (sent s)) - 1"
    and "next_seq (ring s) = int (length (sent s) + claimed (pending s))" "- 1 \<le> gating (ring s)"
    and "\<And>sq x w. pending s = Some (sq, x, w) \<Longrightarrow> sq = int (length (sent s)) \<and> (w \<longrightarrow> sq_buffer (ring s) ! (length (sent s) mod N) = x)"
    and "\<And>i. i < K \<Longrightarrow> gating (ring s) < int (length (seen s i)) \<and> length (sent s) + claimed (pending s) \<le> length (seen s i) + N"
    and "\<And>i. i < K \<Longrightarrow> at s i = int (length (seen s i)) \<and> length (seen s i) \<le> length (sent s)"
    and "\<And>i. i < K \<Longrightarrow> take (length (seen s i)) (sent s) = seen s i"
    and "\<And>j. j < length (sent s) \<Longrightarrow> length (sent s) + claimed (pending s) \<le> j + N \<Longrightarrow> sq_buffer (ring s) ! (j mod N) = sent s ! j"
  shows "sq_inv N K s"
  unfolding sq_inv_def Let_def using assms by blast

lemma sq_step_sent: "sq_step N K s s' \<Longrightarrow> length (sent s) \<le> length (sent s')"
  by (induction rule: sq_step.induct) simp_all

lemma lap_slot: "j < L \<Longrightarrow> L < j + N \<Longrightarrow> L mod N \<noteq> j mod (N::nat)"
proof
  assume "j < L" "L < j + N" "L mod N = j mod N"
  then have "N dvd L - j" by (simp add: mod_eq_dvd_iff_nat)
  with \<open>j < L\<close> \<open>L < j + N\<close> show False by (auto dest: dvd_imp_le)
qed

lemma sq_step_inv:
  assumes "sq_step N K s s'" "sq_inv N K s" "pow2 N" "int (length (sent s')) + int N < 2 ^ 62"
  shows "sq_inv N K s'"
proof -
  let ?L = "length (sent s)" and ?b = "sq_buffer (ring s)"
  from assms(2) have len: "length ?b = N" and cur: "cursor (ring s) = int ?L - 1"
    and nxt: "next_seq (ring s) = int (?L + claimed (pending s))"
    and pen: "\<And>sq x w. pending s = Some (sq, x, w) \<Longrightarrow> sq = int ?L \<and> (w \<longrightarrow> ?b ! (?L mod N) = x)"
    and gat: "- 1 \<le> gating (ring s)"
    and rdr: "\<And>i. i < K \<Longrightarrow> gating (ring s) < int (length (seen s i)) \<and> ?L + claimed (pending s) \<le> length (seen s i) + N
           \<and> at s i = int (length (seen s i)) \<and> length (seen s i) \<le> ?L \<and> take (length (seen s i)) (sent s) = seen s i"
    and buf: "\<And>j. j < ?L \<Longrightarrow> ?L + claimed (pending s) \<le> j + N \<Longrightarrow> ?b ! (j mod N) = sent s ! j"
    unfolding sq_inv_def Let_def by blast+
  have N: "0 < N" using assms(3) by (rule pow2_pos)
  have L: "int ?L + int N < 2 ^ 62" using sq_step_sent [OF assms(1)] assms(4) by linarith
  show ?thesis
    using assms(1)
  proof (cases rule: sq_step.cases)
    case (claim r sq x)
    have w: "s64 (int ?L - int N) = int ?L - int N" by (rule s64_id) (use L in simp_all)
    have w1: "s64 (int ?L + 1) = int ?L + 1" by (rule s64_id) (use L in simp_all)
    have c: "int ?L - int N \<le> gating (ring s)" "sq = int ?L" "r = (ring s)\<lparr>next_seq := int ?L + 1\<rparr>"
      using claim nxt w w1 by (auto simp: try_claim_def Let_def split: if_splits)
    have "gating (ring s') < int (length (seen s' i)) \<and> length (sent s') + claimed (pending s') \<le> length (seen s' i) + N" if "i < K" for i
      using rdr [OF that] c claim by simp
    then show ?thesis using claim c len cur gat rdr buf by (intro sq_invI) (simp_all)
  next
    case (fill sq x)
    have c: "sq = int ?L" using pen fill by blast
    have ix: "sq_index N sq = ?L mod N" by (simp add: c sq_index_mod [OF assms(3)])
    have keep: "?b[?L mod N := x] ! (j mod N) = sent s ! j" if "j < ?L" "?L + 1 \<le> j + N" for j
      using buf [of j] that fill lap_slot [of j ?L N] by simp
    have "?b[?L mod N := x] ! (?L mod N) = x" using len N by simp
    then show ?thesis using fill c ix keep len cur nxt gat rdr by (intro sq_invI) (simp_all add: write_slot_def)
  next
    case (publish sq x)
    have c: "sq = int ?L" "?b ! (?L mod N) = x" using pen publish by blast+
    have keep: "?b ! (j mod N) = (sent s @ [x]) ! j" if "j < Suc ?L" "Suc ?L \<le> j + N" for j
      using buf [of j] c(2) that publish by (cases "j = ?L") (simp_all add: nth_append)
    have seen: "take (length (seen s i)) (sent s @ [x]) = seen s i" if "i < K" for i using rdr [OF that] by simp
    have "length (seen s i) \<le> Suc ?L" if "i < K" for i using rdr [OF that] by simp
    then show ?thesis using publish c keep len cur nxt gat rdr seen
      by (intro sq_invI) (simp_all add: sq_publish_def)
  next
    case (consume i)
    let ?j = "length (seen s i)"
    note R = rdr [OF consume(2)]
    have j: "?j < ?L" "at s i = int ?j" using consume(3) cur R by (auto simp: sq_available_def)
    have "sq_read N (at s i) (ring s) = sent s ! ?j"
      using buf [of ?j] j R by (simp add: sq_read_def sq_index_mod [OF assms(3)])
    then have e: "seen s i @ [sq_read N (at s i) (ring s)] = take (Suc ?j) (sent s)"
      using R j(1) by (simp add: take_Suc_conv_app_nth)
    show ?thesis
    proof (rule sq_invI)
      fix k assume "k < K"
      note Rk = rdr [OF this]
      show "gating (ring s') < int (length (seen s' k)) \<and> length (sent s') + claimed (pending s') \<le> length (seen s' k) + N"
        using consume Rk j by (cases "k = i") auto
      show "at s' k = int (length (seen s' k)) \<and> length (seen s' k) \<le> length (sent s')"
        using consume Rk j by (cases "k = i") auto
      show "take (length (seen s' k)) (sent s') = seen s' k" using consume Rk e j(1) by (cases "k = i") (auto simp: min_absorb2)
    qed (use consume len cur nxt pen gat buf in simp_all)
  next
    case (mark sq)
    moreover have "sq < int (length (seen s i))" if "i < K" for i using mark(2) [OF that] rdr [OF that] by simp
    ultimately show ?thesis using len cur nxt pen rdr buf by (intro sq_invI) (simp_all add: mark_consumed_def)
  qed
qed

lemma sq_reach_inv:
  assumes "sq_reach N K d s" "pow2 N" "int (length (sent s)) + int N < 2 ^ 62"
  shows "sq_inv N K s"
  using assms
proof (induction rule: sq_reach.induct)
  case start
  show ?case by (simp add: sq_inv_def sq_start_def sequencer_init_def)
next
  case (step s s')
  then have "int (length (sent s)) + int N < 2 ^ 62" using sq_step_sent [of N K s s'] by simp
  with step show ?case by (blast intro: sq_step_inv)
qed

section \<open>Properties\<close>

text \<open>
  C3. Every reader of the sequencer sees every published item, in order and unspoilt: under any
  interleaving of the producer and the readers, what a reader has read is a prefix of what was
  published, and the producer never gets more than \<open>SIZE\<close> items ahead of the slowest reader.
\<close>

theorem sequencer_broadcast:
  assumes "sq_reach N K d s" "pow2 N" "int (length (sent s)) + int N < 2 ^ 62" "i < K"
  shows "seen s i = take (length (seen s i)) (sent s) \<and> length (sent s) \<le> length (seen s i) + N"
  using sq_reach_inv [OF assms(1-3)] assms(4) unfolding sq_inv_def Let_def by force

lemma sq_reach_one: "\<exists>s. sq_reach 2 1 (0::nat) s \<and> sent s = [7] \<and> seen s 0 = [7]"
proof -
  let ?s0 = "sq_start 2 (0::nat)"
  let ?s1 = "?s0\<lparr>ring := (ring ?s0)\<lparr>next_seq := 1\<rparr>, pending := Some (0, 7, False)\<rparr>"
  let ?s2 = "?s1\<lparr>ring := write_slot 2 0 7 (ring ?s1), pending := Some (0, 7, True)\<rparr>"
  let ?s3 = "?s2\<lparr>ring := sq_publish 0 (ring ?s2), pending := None, sent := sent ?s2 @ [7]\<rparr>"
  let ?s4 = "?s3\<lparr>at := (at ?s3)(0 := at ?s3 0 + 1), seen := (seen ?s3)(0 := seen ?s3 0 @ [sq_read 2 (at ?s3 0) (ring ?s3)])\<rparr>"
  note defs = sq_start_def sequencer_init_def try_claim_def write_slot_def sq_publish_def sq_available_def sq_read_def
    sq_index_def s64_def
  have "sq_reach 2 1 0 ?s1"
    by (rule sq_reach.step [OF sq_reach.start], rule sq_step.claim) (simp_all add: defs)
  then have "sq_reach 2 1 0 ?s2" by (rule sq_reach.step) (rule sq_step.fill, simp)
  then have "sq_reach 2 1 0 ?s3" by (rule sq_reach.step) (rule sq_step.publish, simp)
  then have "sq_reach 2 1 0 ?s4" by (rule sq_reach.step) (rule sq_step.consume, simp_all add: defs)
  then show ?thesis by (intro exI [of _ ?s4]) (simp add: defs)
qed

theorem sequencer_broadcast_witness:
  "\<exists>s. sq_reach 2 1 (0::nat) s \<and> seen s 0 = [7] \<and> seen s 0 = take (length (seen s 0)) (sent s)"
proof -
  obtain s where s: "sq_reach 2 1 (0::nat) s" "sent s = [7]" "seen s 0 = [7]" using sq_reach_one by blast
  show ?thesis using sequencer_broadcast [OF s(1), of 0] s by (auto simp: pow2_iff exI [of _ 1])
qed

end
