(* ===== verification/Varlen.thy ===== *)
theory Varlen
  imports Ring_Buffer
begin

text \<open>
  \<open>lockfree/varlen_ring.hpp\<close>: the byte ring of length-prefixed records, refining a bounded queue of
  byte strings.  The length prefix is kept in the byte order of the host, here little-endian.
\<close>

section \<open>The ring\<close>

record varlen =
  vl_buffer :: "byte list"
  vl_head :: nat
  vl_tail :: nat

definition vl_init :: "nat \<Rightarrow> varlen" where
  "vl_init N = \<lparr>vl_buffer = replicate N 0, vl_head = 0, vl_tail = 0\<rparr>"

definition HDR :: nat where
  "HDR = 4"

text \<open>The bytes of a \<open>uint32_t\<close> in memory.\<close>

definition put_len :: "nat \<Rightarrow> byte list" where
  "put_len n = map (\<lambda>k. word_of_nat (n div 256 ^ k)) [0..<HDR]"

definition get_len :: "byte list \<Rightarrow> nat" where
  "get_len bs = (\<Sum>k<HDR. unat (bs ! k) * 256 ^ k)"

definition free_space :: "nat \<Rightarrow> nat \<Rightarrow> nat \<Rightarrow> nat" where
  "free_space N h t = ring_mask N (sz_sub (sz_sub t h) 1)"

definition vl_available :: "nat \<Rightarrow> nat \<Rightarrow> nat \<Rightarrow> nat" where
  "vl_available N h t = ring_mask N (sz_sub h t)"

definition memcpy_to :: "byte list \<Rightarrow> nat \<Rightarrow> byte list \<Rightarrow> byte list" where
  "memcpy_to buf pos src = take pos buf @ src @ drop (pos + length src) buf"

definition write_at :: "nat \<Rightarrow> nat \<Rightarrow> byte list \<Rightarrow> byte list \<Rightarrow> byte list" where
  "write_at N pos src buf =
     (if pos + length src \<le> N then memcpy_to buf pos src
      else let first = N - pos in memcpy_to (memcpy_to buf pos (take first src)) 0 (drop first src))"

definition read_at :: "nat \<Rightarrow> nat \<Rightarrow> nat \<Rightarrow> byte list \<Rightarrow> byte list" where
  "read_at N pos n buf =
     (if pos + n \<le> N then take n (drop pos buf)
      else let first = N - pos in take first (drop pos buf) @ take (n - first) buf)"

definition vl_write :: "nat \<Rightarrow> byte list \<Rightarrow> varlen \<Rightarrow> varlen \<times> bool" where
  "vl_write N payload r =
     (let len = length payload; h = vl_head r; t = vl_tail r
      in if len = 0 \<or> len + HDR > N - 1 then (r, False)
         else if free_space N h t < len + HDR then (r, False)
         else (r\<lparr>vl_buffer := write_at N (ring_mask N (h + HDR)) payload (write_at N h (put_len len) (vl_buffer r)),
                 vl_head := ring_mask N (h + HDR + len)\<rparr>, True))"

text \<open>The result is the record read; the empty list stands for the return value 0.\<close>

definition vl_read :: "nat \<Rightarrow> nat \<Rightarrow> varlen \<Rightarrow> varlen \<times> byte list" where
  "vl_read N max_len r =
     (let t = vl_tail r; h = vl_head r
      in if vl_available N h t < HDR then (r, [])
         else let len = get_len (read_at N t HDR (vl_buffer r))
              in if len = 0 \<or> vl_available N h t < HDR + len then (r, [])
                 else if len > max_len then (r, [])
                 else (r\<lparr>vl_tail := ring_mask N (t + HDR + len)\<rparr>, read_at N (ring_mask N (t + HDR)) len (vl_buffer r)))"

definition vl_empty :: "varlen \<Rightarrow> bool" where
  "vl_empty r \<longleftrightarrow> vl_tail r = vl_head r"

definition bytes_used :: "nat \<Rightarrow> varlen \<Rightarrow> nat" where
  "bytes_used N r = vl_available N (vl_head r) (vl_tail r)"

definition vl_capacity :: "nat \<Rightarrow> nat" where
  "vl_capacity N = N - 1"

section \<open>The specification\<close>

text \<open>A queue of records in which a record of \<open>n\<close> bytes takes \<open>n + 4\<close> of \<open>SIZE - 1\<close> bytes.\<close>

definition frame :: "byte list \<Rightarrow> byte list" where
  "frame p = put_len (length p) @ p"

definition frames :: "byte list list \<Rightarrow> byte list" where
  "frames q = concat (map frame q)"

definition vq_write :: "nat \<Rightarrow> byte list \<Rightarrow> byte list list \<Rightarrow> byte list list \<times> bool" where
  "vq_write N p q = (if p = [] \<or> length (frames q) + HDR + length p > N - 1 then (q, False) else (q @ [p], True))"

fun vq_read :: "nat \<Rightarrow> byte list list \<Rightarrow> byte list list \<times> byte list" where
  "vq_read max_len [] = ([], [])"
| "vq_read max_len (p # q) = (if length p > max_len then (p # q, []) else (q, p))"

section \<open>Copies that wrap\<close>

lemma length_write_at [simp]:
  "pos < N \<Longrightarrow> length src \<le> N \<Longrightarrow> length buf = N \<Longrightarrow> length (write_at N pos src buf) = N"
  by (auto simp: write_at_def memcpy_to_def Let_def)

lemma nth_write_at:
  assumes "pos < N" "length src \<le> N" "length buf = N" "j < N"
  shows "write_at N pos src buf ! j = (if (j + N - pos) mod N < length src then src ! ((j + N - pos) mod N) else buf ! j)"
proof (cases "pos \<le> j")
  case True
  then have "(j + N - pos) mod N = j - pos" using assms by (simp add: mod_if)
  then show ?thesis using True assms
    by (auto simp: write_at_def memcpy_to_def Let_def nth_append min_def)
next
  case False
  then have "(j + N - pos) mod N = j + (N - pos)" using assms by (simp add: mod_if)
  then show ?thesis using False assms
    by (auto simp: write_at_def memcpy_to_def Let_def nth_append min_def add.commute)
qed

lemma read_at_map:
  assumes "pos < N" "n \<le> N" "length buf = N"
  shows "read_at N pos n buf = map (\<lambda>i. buf ! ((pos + i) mod N)) [0..<n]"
proof (rule nth_equalityI)
  show "length (read_at N pos n buf) = length (map (\<lambda>i. buf ! ((pos + i) mod N)) [0..<n])"
    using assms by (auto simp: read_at_def Let_def)
next
  fix i assume "i < length (read_at N pos n buf)"
  then have "i < n" using assms by (auto simp: read_at_def Let_def split: if_splits)
  then show "read_at N pos n buf ! i = map (\<lambda>i. buf ! ((pos + i) mod N)) [0..<n] ! i"
    using assms by (auto simp: read_at_def Let_def nth_append mod_if add.commute)
qed

lemma ring_len_add:
  assumes "h < N" "t < N" "ring_len N h t + n < N"
  shows "ring_len N ((h + n) mod N) t = ring_len N h t + n"
  using assms by (auto simp: ring_len_cases mod_if split: if_splits)

lemma slot_offset: "h < N \<Longrightarrow> k < N \<Longrightarrow> ((h + k) mod N + N - h) mod N = (k::nat)"
  by (auto simp: mod_if)

lemma ring_step:
  assumes "h < N" "t < N"
  shows "(h + k) mod N = (t + (ring_len N h t + k)) mod N"
  using ring_pos_write [OF assms] by (metis add.assoc mod_add_left_eq)

text \<open>Writing at the head appends to the bytes of the ring.\<close>

lemma ring_items_write_at:
  assumes "h < N" "t < N" "length buf = N" "ring_len N h t + length src < N"
  shows "ring_items N (write_at N h src buf) ((h + length src) mod N) t = ring_items N buf h t @ src"
proof (rule nth_equalityI)
  let ?L = "ring_len N h t" and ?n = "length src"
  show "length (ring_items N (write_at N h src buf) ((h + ?n) mod N) t) = length (ring_items N buf h t @ src)"
    using ring_len_add [OF assms(1,2,4)] by simp
  fix i assume "i < length (ring_items N (write_at N h src buf) ((h + ?n) mod N) t)"
  then have i: "i < ?L + ?n" using ring_len_add [OF assms(1,2,4)] by simp
  let ?j = "(t + i) mod N"
  have j: "?j < N" using assms(1) by (intro mod_less_divisor) simp
  have off: "(?j + N - h) mod N = (if i < ?L then N - (?L - i) else i - ?L)"
  proof (cases "i < ?L")
    case True
    have "(h + (N - (?L - i))) mod N = (t + i + N) mod N"
      using ring_step [OF assms(1,2), of "N - (?L - i)"] ring_len_less [of N h t] assms(1) True by (simp add: ac_simps)
    then have "?j = (h + (N - (?L - i))) mod N" by (simp only: mod_add_self2)
    then show ?thesis using slot_offset [OF assms(1), of "N - (?L - i)"] True assms(1) by simp
  next
    case False
    then have "?j = (h + (i - ?L)) mod N" using ring_step [OF assms(1,2), of "i - ?L"] by simp
    then show ?thesis using slot_offset [OF assms(1), of "i - ?L"] False i assms(4) by simp
  qed
  have "ring_items N (write_at N h src buf) ((h + ?n) mod N) t ! i = write_at N h src buf ! ?j"
    using i ring_len_add [OF assms(1,2,4)] by (simp add: ring_items_def)
  also have "\<dots> = (if (?j + N - h) mod N < ?n then src ! ((?j + N - h) mod N) else buf ! ?j)"
    using assms j by (intro nth_write_at) simp_all
  also have "\<dots> = (ring_items N buf h t @ src) ! i"
    unfolding off using i assms(4) by (auto simp: nth_append ring_items_def)
  finally show "ring_items N (write_at N h src buf) ((h + ?n) mod N) t ! i = (ring_items N buf h t @ src) ! i" .
qed

lemma read_at_ring:
  assumes "h < N" "t < N" "length buf = N" "n \<le> ring_len N h t"
  shows "read_at N t n buf = take n (ring_items N buf h t)"
proof -
  have "n \<le> N" using ring_len_less [of N h t] assms by simp
  then show ?thesis using read_at_map [OF assms(2) _ assms(3)] assms(4) by (simp add: ring_items_def take_map)
qed

text \<open>Advancing the tail drops bytes.\<close>

lemma ring_items_drop:
  assumes "h < N" "t < N" "n \<le> ring_len N h t"
  shows "ring_items N buf h ((t + n) mod N) = drop n (ring_items N buf h t)"
proof -
  have n: "n < N" using assms(3) ring_len_less [of N h t] assms(1) by simp
  have m: "(t + n) mod N = (if t + n < N then t + n else t + n - N)" using assms(2) n by (simp add: mod_if)
  have b: "(t + n) mod N < N" using assms(1) by (intro mod_less_divisor) simp
  have l: "ring_len N h ((t + n) mod N) = ring_len N h t - n"
    using ring_len_cases [OF assms(1) b] ring_len_cases [OF assms(1,2)] assms n m by (auto split: if_splits)
  have "((t + n) mod N + i) mod N = (t + (n + i)) mod N" for i by (simp add: mod_add_left_eq add.assoc)
  moreover have "[0..<ring_len N h t] ! (n + i) = n + i" if "i < ring_len N h t - n" for i
    using that by (subst nth_upt) auto
  ultimately show ?thesis by (intro nth_equalityI) (simp_all add: ring_items_def l)
qed

section \<open>Frames\<close>

lemma length_put_len [simp]: "length (put_len n) = 4"
  by (simp add: put_len_def HDR_def)

lemma put_len_list:
  "put_len n = [word_of_nat n, word_of_nat (n div 256), word_of_nat (n div 65536), word_of_nat (n div 16777216)]"
  by (simp add: put_len_def HDR_def upt_rec)

lemma get_len_list: "get_len (a # b # c # e # rest) = unat a + unat b * 256 + unat c * 65536 + unat e * 16777216"
proof -
  have "{..<4::nat} = {0, 1, 2, 3}" by auto
  then show ?thesis by (simp add: get_len_def HDR_def)
qed

lemma get_put_len: "n < 2 ^ 32 \<Longrightarrow> get_len (put_len n @ rest) = n"
proof -
  assume n: "n < 2 ^ 32"
  have d: "get_len (put_len n @ rest) = n mod 256 + n div 256 mod 256 * 256 + n div 65536 mod 256 * 65536 + n div 16777216 mod 256 * 16777216"
    by (simp add: put_len_list get_len_list unat_of_nat take_bit_eq_mod)
  let ?a = "n div 256" and ?b = "n div 256 div 256" and ?c = "n div 256 div 256 div 256"
  have e: "n div 65536 = ?b" "n div 16777216 = ?c" by (simp_all add: div_mult2_eq [symmetric])
  have "?c mod 256 = ?c" using n by (intro mod_less) (simp add: div_mult2_eq [symmetric] less_mult_imp_div_less)
  moreover have "n = n mod 256 + 256 * ?a" "?a = ?a mod 256 + 256 * ?b" "?b = ?b mod 256 + 256 * ?c" by simp_all
  ultimately show ?thesis unfolding d e by linarith
qed

lemma length_frame [simp]: "length (frame p) = 4 + length p"
  by (simp add: frame_def)

lemma frames_simps [simp]: "frames [] = []" "frames (p # q) = frame p @ frames q" "frames (q @ [p]) = frames q @ frame p"
  by (simp_all add: frames_def)

text \<open>The ring holds the records of a queue.\<close>

definition vl_rel :: "nat \<Rightarrow> varlen \<Rightarrow> byte list list \<Rightarrow> bool" where
  "vl_rel N r q \<longleftrightarrow> length (vl_buffer r) = N \<and> vl_head r < N \<and> vl_tail r < N
     \<and> ring_items N (vl_buffer r) (vl_head r) (vl_tail r) = frames q
     \<and> (\<forall>p \<in> set q. p \<noteq> [] \<and> length p < 2 ^ 32)"

lemma free_space_eq:
  assumes "pow2 N" "N \<le> 2 ^ 64" "2 \<le> N" "h < N" "t < N"
  shows "free_space N h t = N - 1 - ring_len N h t"
proof -
  let ?a = "ring_len N t h"
  have a: "?a < N" using assms(4) by (intro ring_len_less) simp
  have "sz_sub t h mod N = ?a"
    using ring_mask_sz_sub [OF assms(1,2,4), of t] assms(1) by (simp add: ring_len_def)
  then have "(sz_sub t h + N - 1) mod N = (?a + (N - 1)) mod N"
    using assms(3) by (metis Nat.add_diff_assoc mod_add_left_eq one_le_numeral order_trans)
  moreover have "free_space N h t = (sz_sub t h + N - 1) mod N"
    using ring_mask_sz_sub [OF assms(1,2), of 1 "sz_sub t h"] assms(3) by (simp add: free_space_def)
  moreover have "(?a + (N - 1)) mod N = (if ?a = 0 then N - 1 else ?a - 1)"
    using a by (simp add: mod_if)
  ultimately show ?thesis
    using ring_len_cases [OF assms(4,5)] ring_len_cases [OF assms(5,4)] assms(4,5) by (auto split: if_splits)
qed

lemma vl_available_eq:
  "pow2 N \<Longrightarrow> N \<le> 2 ^ 64 \<Longrightarrow> t < N \<Longrightarrow> vl_available N h t = ring_len N h t"
  unfolding vl_available_def ring_len_def by (rule ring_mask_sz_sub)

text \<open>The laws of the host: a power of two from 64 on.\<close>

definition vl_size :: "nat \<Rightarrow> bool" where
  "vl_size N \<longleftrightarrow> pow2 N \<and> 64 \<le> N \<and> N \<le> 2 ^ 64"

lemma vl_write_refines:
  assumes "vl_rel N r q" "vl_size N" "length p < 2 ^ 32"
  shows "snd (vl_write N p r) = snd (vq_write N p q) \<and> vl_rel N (fst (vl_write N p r)) (fst (vq_write N p q))"
proof -
  let ?h = "vl_head r" and ?t = "vl_tail r" and ?b = "vl_buffer r" and ?n = "length p"
  have R: "length ?b = N" "?h < N" "?t < N" "ring_items N ?b ?h ?t = frames q" "\<forall>p \<in> set q. p \<noteq> [] \<and> length p < 2 ^ 32"
    using assms(1) by (simp_all add: vl_rel_def)
  have S: "pow2 N" "N \<le> 2 ^ 64" "2 \<le> N" using assms(2) by (simp_all add: vl_size_def)
  have L: "length (frames q) = ring_len N ?h ?t" "ring_len N ?h ?t < N"
    using R(2,4) ring_len_less [of N ?h ?t] by (metis length_ring_items, simp)
  have fs: "free_space N ?h ?t = N - 1 - ring_len N ?h ?t" by (rule free_space_eq [OF S R(2,3)])
  show ?thesis
  proof (cases "p = [] \<or> length (frames q) + HDR + ?n > N - 1")
    case True
    then have "vl_write N p r = (r, False)" unfolding vl_write_def Let_def fs using L by auto
    then show ?thesis using True assms(1) by (simp add: vq_write_def)
  next
    case False
    let ?b1 = "write_at N ?h (put_len ?n) ?b" and ?h1 = "(?h + 4) mod N"
    let ?b2 = "write_at N ?h1 p ?b1"
    have room: "ring_len N ?h ?t + length (put_len ?n) < N" "ring_len N ?h ?t + 4 + ?n < N"
      using False L by (auto simp: HDR_def)
    have b1: "length ?b1 = N" using R(1,2) room(1) by simp
    have h1: "?h1 < N" using S by simp
    have one: "ring_items N ?b1 ?h1 ?t = frames q @ put_len ?n"
      using ring_items_write_at [OF R(2,3,1) room(1)] R(4) by simp
    have l1: "ring_len N ?h1 ?t = ring_len N ?h ?t + 4"
      using ring_len_add [OF R(2,3), of 4] room by simp
    have two: "ring_items N ?b2 ((?h1 + ?n) mod N) ?t = frames (q @ [p])"
      using ring_items_write_at [OF h1 R(3) b1, of p] l1 room(2) one by (simp add: frame_def)
    have hh: "(?h1 + ?n) mod N = (?h + 4 + ?n) mod N" by (simp add: mod_add_left_eq)
    have w: "vl_write N p r = (r\<lparr>vl_buffer := ?b2, vl_head := (?h + 4 + ?n) mod N\<rparr>, True)"
      unfolding vl_write_def Let_def fs using False L S(1) by (auto simp: HDR_def)
    have "length ?b2 = N" using b1 h1 room(2) by simp
    moreover have "(?h + 4 + ?n) mod N < N" using S by simp
    ultimately have "vl_rel N (r\<lparr>vl_buffer := ?b2, vl_head := (?h + 4 + ?n) mod N\<rparr>) (q @ [p])"
      using two R(3,5) assms(3) False unfolding vl_rel_def hh by auto
    then show ?thesis using w False by (simp add: vq_write_def)
  qed
qed

lemma vl_read_refines:
  assumes "vl_rel N r q" "vl_size N"
  shows "snd (vl_read N m r) = snd (vq_read m q) \<and> vl_rel N (fst (vl_read N m r)) (fst (vq_read m q))"
proof -
  let ?h = "vl_head r" and ?t = "vl_tail r" and ?b = "vl_buffer r"
  have R: "length ?b = N" "?h < N" "?t < N" "ring_items N ?b ?h ?t = frames q" "\<forall>p \<in> set q. p \<noteq> [] \<and> length p < 2 ^ 32"
    using assms(1) by (simp_all add: vl_rel_def)
  have S: "pow2 N" "N \<le> 2 ^ 64" using assms(2) by (simp_all add: vl_size_def)
  have L: "length (frames q) = ring_len N ?h ?t" using R(4) by (metis length_ring_items)
  have av: "vl_available N ?h ?t = length (frames q)" using vl_available_eq [OF S R(3)] L by simp
  show ?thesis
  proof (cases q)
    case Nil
    then have "vl_read N m r = (r, [])" unfolding vl_read_def Let_def av by (simp add: HDR_def)
    then show ?thesis using Nil assms(1) by simp
  next
    case (Cons p q')
    have p: "p \<noteq> []" "length p < 2 ^ 32" using R(5) Cons by auto
    have le: "4 + length p \<le> ring_len N ?h ?t" using L Cons by simp
    have "read_at N ?t HDR ?b = put_len (length p)"
      using read_at_ring [OF R(2,3,1), of 4] le R(4) Cons by (simp add: HDR_def frame_def)
    then have g: "get_len (read_at N ?t HDR ?b) = length p" using get_put_len [OF p(2), of "[]"] by simp
    let ?t1 = "(?t + 4) mod N"
    have i1: "ring_items N ?b ?h ?t1 = p @ frames q'"
      using ring_items_drop [OF R(2,3), of 4 ?b] le R(4) Cons by (simp add: frame_def)
    have t1: "?t1 < N" using S(1) pow2_pos by simp
    have l1: "length p \<le> ring_len N ?h ?t1" using i1 by (metis length_ring_items length_append le_add1)
    have pay: "read_at N ?t1 (length p) ?b = p" using read_at_ring [OF R(2) t1 R(1) l1] i1 by simp
    have i2: "ring_items N ?b ?h ((?t1 + length p) mod N) = frames q'" using ring_items_drop [OF R(2) t1 l1, of ?b] i1 by simp
    have tt: "(?t1 + length p) mod N = (?t + 4 + length p) mod N" by (simp add: mod_add_left_eq)
    have v: "vl_read N m r = (if length p > m then (r, []) else (r\<lparr>vl_tail := (?t + 4 + length p) mod N\<rparr>, p))"
      unfolding vl_read_def Let_def av g using Cons p(1) pay S(1) by (simp add: HDR_def)
    have "vl_rel N (r\<lparr>vl_tail := (?t + 4 + length p) mod N\<rparr>) q'"
      using i2 R(1,2,5) Cons pow2_pos [OF S(1)] unfolding vl_rel_def tt by simp
    then show ?thesis using v Cons assms(1) by simp
  qed
qed

section \<open>Properties\<close>

datatype vop = VWrite "byte list" | VRead nat

datatype vres = VOk bool | VData "byte list"

fun vl_run :: "nat \<Rightarrow> vop list \<Rightarrow> varlen \<Rightarrow> vres list" where
  "vl_run N [] r = []"
| "vl_run N (VWrite p # ops) r = VOk (snd (vl_write N p r)) # vl_run N ops (fst (vl_write N p r))"
| "vl_run N (VRead m # ops) r = VData (snd (vl_read N m r)) # vl_run N ops (fst (vl_read N m r))"

fun vq_run :: "nat \<Rightarrow> vop list \<Rightarrow> byte list list \<Rightarrow> vres list" where
  "vq_run N [] q = []"
| "vq_run N (VWrite p # ops) q = VOk (snd (vq_write N p q)) # vq_run N ops (fst (vq_write N p q))"
| "vq_run N (VRead m # ops) q = VData (snd (vq_read m q)) # vq_run N ops (fst (vq_read m q))"

fun vop_ok :: "vop \<Rightarrow> bool" where
  "vop_ok (VWrite p) = (length p < 2 ^ 32)"
| "vop_ok (VRead m) = True"

lemma vl_run_refines:
  "vl_rel N r q \<Longrightarrow> vl_size N \<Longrightarrow> list_all vop_ok ops \<Longrightarrow> vl_run N ops r = vq_run N ops q"
proof (induction ops arbitrary: r q)
  case (Cons op ops)
  then show ?case using vl_write_refines vl_read_refines by (cases op) simp_all
qed simp

text \<open>
  C5. The byte ring is a queue of records.  Any sequence of writes and reads on \<open>VarlenRingBuffer\<close>
  returns what the same sequence returns on a bounded queue of byte strings, whatever the positions
  at which records and their length prefixes wrap around the end of the buffer.
\<close>

theorem varlen_refines_queue:
  assumes "vl_size N" "list_all vop_ok ops"
  shows "vl_run N ops (vl_init N) = vq_run N ops []"
proof -
  have "0 < N" using assms(1) by (simp add: vl_size_def)
  then have "vl_rel N (vl_init N) []" by (simp add: vl_rel_def vl_init_def ring_items_empty)
  then show ?thesis by (rule vl_run_refines [OF _ assms])
qed

theorem varlen_refines_queue_witness:
  "vl_run 64 [VWrite [1, 2, 3], VWrite (replicate 53 9), VRead 2, VRead 8, VWrite (replicate 53 9), VRead 64] (vl_init 64)
   = [VOk True, VOk False, VData [], VData [1, 2, 3], VOk True, VData (replicate 53 9)]"
proof -
  have "vl_size 64" by (simp add: vl_size_def pow2_iff exI [of _ 6])
  note varlen_refines_queue [OF this, of "[VWrite [1, 2, 3], VWrite (replicate 53 9), VRead 2, VRead 8, VWrite (replicate 53 9), VRead 64]"]
  then show ?thesis by (simp add: vq_write_def HDR_def)
qed

end
