(* ===== verification/Common.thy ===== *)
theory Common
  imports Ring_Buffer
begin

unbundle bit_operations_syntax

text \<open>
  \<open>common/\<close>: the \<open>Side\<close> enumeration (\<open>types.hpp\<close>), the packing of a ticker into a 64-bit key
  (\<open>symbol_key.hpp\<close>) and the ring of timestamps behind the rate limiters
  (\<open>ring_counter.hpp\<close>).
\<close>

section \<open>Sides\<close>

datatype Side = BUY | SELL

definition side_str :: "Side \<Rightarrow> string" where
  "side_str s = (if s = BUY then ''BUY'' else ''SELL'')"

text \<open>A null pointer is \<^const>\<open>None\<close>; a C string carries no terminator in the model.\<close>

definition side_from_str :: "string option \<Rightarrow> Side" where
  "side_from_str s =
     (case s of Some (c # _) \<Rightarrow> (if c = CHR ''B'' \<or> c = CHR ''b'' then BUY else SELL) | _ \<Rightarrow> SELL)"

lemma side_from_str_side_str: "side_from_str (Some (side_str s)) = s"
  by (cases s) (simp_all add: side_from_str_def side_str_def)

section \<open>Symbol keys\<close>

text \<open>
  A symbol is the list of bytes the pointer addresses; the key is built from the bytes before the
  first nul among the first eight.
\<close>

definition sym_chars :: "byte list \<Rightarrow> byte list" where
  "sym_chars cs = takeWhile (\<lambda>b. b \<noteq> 0) (take 8 cs)"

fun pack_from :: "nat \<Rightarrow> byte list \<Rightarrow> 64 word \<Rightarrow> 64 word" where
  "pack_from i [] key = key"
| "pack_from i (b # bs) key = pack_from (Suc i) bs (key OR push_bit (i * 8) (ucast b))"

definition sym_to_key :: "byte list \<Rightarrow> 64 word" where
  "sym_to_key cs = pack_from 0 (sym_chars cs) 0"

function unpack_from :: "nat \<Rightarrow> 64 word \<Rightarrow> byte list" where
  "unpack_from n key =
     (if n < 8 then
        (let c = ucast (drop_bit (n * 8) key AND 0xFF) :: byte
         in if c = 0 then [] else c # unpack_from (Suc n) key)
      else [])"
  by pat_completeness auto
termination
  by (relation "measure (\<lambda>(n, key). 8 - n)") auto

declare unpack_from.simps [simp del]

definition key_to_sym :: "64 word \<Rightarrow> byte list" where
  "key_to_sym key = unpack_from 0 key"

lemma bit_byte_shifted:
  "bit (push_bit (i * 8) (ucast (b :: byte)) :: 64 word) k \<longleftrightarrow> k < 64 \<and> k div 8 = i \<and> bit b (k mod 8)"
proof (cases "k div 8 = i")
  case True
  then have "i * 8 \<le> k" "k - i * 8 = k mod 8" by (simp_all add: modulo_nat_def)
  with True show ?thesis by (auto simp: bit_simps)
next
  case False
  have "\<not> bit b (k - i * 8)" if "i * 8 \<le> k"
  proof
    assume "bit b (k - i * 8)"
    then have "k - i * 8 < 8" using bit_imp_le_length by fastforce
    with that False show False by (simp add: div_nat_eqI)
  qed
  with False show ?thesis by (auto simp: bit_simps)
qed

lemma bit_pack_from:
  "bit (pack_from i bs key) k \<longleftrightarrow>
     bit key k \<or> (k < 64 \<and> i \<le> k div 8 \<and> k div 8 - i < length bs \<and> bit (bs ! (k div 8 - i)) (k mod 8))"
proof (induction i bs key rule: pack_from.induct)
  case (1 i key)
  then show ?case by simp
next
  case (2 i b bs key)
  consider "k div 8 < i" | "k div 8 = i" | m where "k div 8 = Suc (i + m)"
    using less_imp_Suc_add by (metis linorder_neqE_nat)
  then show ?case
  proof cases
    case 3
    then show ?thesis by (simp add: 2 bit_or_iff bit_byte_shifted)
  qed (simp_all add: 2 bit_or_iff bit_byte_shifted)
qed

lemma key_byte:
  assumes "length bs \<le> 8" "n < 8"
  shows "(ucast (drop_bit (n * 8) (pack_from 0 bs 0) AND 0xFF) :: byte)
    = (if n < length bs then bs ! n else 0)"
proof (rule bit_word_eqI)
  fix j assume "j < LENGTH(8)"
  then have j: "j < 8" by simp
  have mask: "bit (0xFF :: 64 word) j \<longleftrightarrow> j < 8"
    using bit_mask_iff [where ?'a = "64 word", of 8 j] j by (simp add: mask_eq_exp_minus_1)
  have pos: "(n * 8 + j) div 8 = n" "(n * 8 + j) mod 8 = j" "n * 8 + j < 64" using j assms(2) by auto
  show "bit (ucast (drop_bit (n * 8) (pack_from 0 bs 0) AND 0xFF) :: byte) j
      = bit (if n < length bs then bs ! n else 0) j"
    using j mask pos by (simp add: bit_simps bit_pack_from)
qed

lemma unpack_pack:
  assumes "length bs \<le> 8" "0 \<notin> set bs" "n \<le> length bs"
  shows "unpack_from n (pack_from 0 bs 0) = drop n bs"
  using assms(3)
proof (induction "length bs - n" arbitrary: n)
  case 0
  then have n: "n = length bs" by simp
  show ?case
    by (subst unpack_from.simps) (use key_byte [OF assms(1), of n] n in \<open>simp add: Let_def\<close>)
next
  case (Suc m)
  then have n: "n < length bs" by simp
  then have "bs ! n \<noteq> 0" using assms(2) by (metis nth_mem)
  moreover have "unpack_from (Suc n) (pack_from 0 bs 0) = drop (Suc n) bs"
    using Suc n by simp
  ultimately show ?case
    by (subst unpack_from.simps)
      (use key_byte [OF assms(1), of n] n assms(1) in \<open>simp add: Let_def Cons_nth_drop_Suc\<close>)
qed

lemma sym_chars_props: "length (sym_chars cs) \<le> 8" "0 \<notin> set (sym_chars cs)"
proof -
  show "length (sym_chars cs) \<le> 8"
    using length_takeWhile_le [of "\<lambda>b. b \<noteq> 0" "take 8 cs"] by (simp add: sym_chars_def)
  show "0 \<notin> set (sym_chars cs)" by (auto simp: sym_chars_def dest: set_takeWhileD)
qed

lemma key_to_sym_sym_to_key: "key_to_sym (sym_to_key cs) = sym_chars cs"
  using unpack_pack [OF sym_chars_props, of 0 cs] by (simp add: key_to_sym_def sym_to_key_def)

section \<open>The ring of timestamps\<close>

record ts_ring =
  ts :: "int list"
  ts_head :: nat
  ts_tail :: nat

definition ts_init :: "nat \<Rightarrow> ts_ring" where
  "ts_init N = \<lparr>ts = replicate N 0, ts_head = 0, ts_tail = 0\<rparr>"

text \<open>
  The loop of \<open>evict\<close> advances \<open>head_\<close> at most once per stored entry; the fuel is the
  capacity, and \<open>evict_items\<close> below shows that it never runs out before the loop ends.
\<close>

fun evict_loop :: "nat \<Rightarrow> nat \<Rightarrow> int \<Rightarrow> ts_ring \<Rightarrow> ts_ring" where
  "evict_loop 0 N cutoff r = r"
| "evict_loop (Suc fuel) N cutoff r =
     (if ts_head r \<noteq> ts_tail r \<and> ts r ! ts_head r \<le> cutoff
      then evict_loop fuel N cutoff (r\<lparr>ts_head := ring_mask N (ts_head r + 1)\<rparr>)
      else r)"

definition evict :: "nat \<Rightarrow> int \<Rightarrow> ts_ring \<Rightarrow> ts_ring" where
  "evict N cutoff r = evict_loop N N cutoff r"

definition ts_push :: "nat \<Rightarrow> int \<Rightarrow> ts_ring \<Rightarrow> ts_ring" where
  "ts_push N now r =
     (let r1 = r\<lparr>ts := (ts r)[ts_tail r := now], ts_tail := ring_mask N (ts_tail r + 1)\<rparr>
      in if ts_tail r1 = ts_head r1 then r1\<lparr>ts_head := ring_mask N (ts_head r1 + 1)\<rparr> else r1)"

definition ts_count :: "nat \<Rightarrow> ts_ring \<Rightarrow> nat" where
  "ts_count N r = ring_mask N ((sz_sub (ts_tail r) (ts_head r) + N) mod 2 ^ 64)"

definition ts_empty :: "ts_ring \<Rightarrow> bool" where
  "ts_empty r \<longleftrightarrow> ts_head r = ts_tail r"

definition ts_reset :: "ts_ring \<Rightarrow> ts_ring" where
  "ts_reset r = r\<lparr>ts_head := 0, ts_tail := 0\<rparr>"

definition ts_inv :: "nat \<Rightarrow> ts_ring \<Rightarrow> bool" where
  "ts_inv N r \<longleftrightarrow> pow2 N \<and> length (ts r) = N \<and> ts_head r < N \<and> ts_tail r < N"

definition ts_items :: "nat \<Rightarrow> ts_ring \<Rightarrow> int list" where
  "ts_items N r = ring_items N (ts r) (ts_tail r) (ts_head r)"

lemma ts_items_cons:
  assumes "ts_inv N r" "ts_head r \<noteq> ts_tail r"
  shows "ts_items N r = ts r ! ts_head r # ts_items N (r\<lparr>ts_head := Suc (ts_head r) mod N\<rparr>)"
  using assms ring_items_pop [of "ts_tail r" N "ts_head r" "ts r"]
  by (auto simp: ts_inv_def ts_items_def)

lemma evict_loop_items:
  "ts_inv N r \<Longrightarrow> length (ts_items N r) \<le> fuel \<Longrightarrow>
     ts_inv N (evict_loop fuel N c r) \<and> ts_items N (evict_loop fuel N c r) = dropWhile (\<lambda>t. t \<le> c) (ts_items N r)"
proof (induction fuel N c r rule: evict_loop.induct)
  case (1 N c r)
  then show ?case by simp
next
  case (2 fuel N c r)
  show ?case
  proof (cases "ts_head r = ts_tail r")
    case True
    then have "ts_items N r = []" using 2 by (simp add: ts_items_def ts_inv_def ring_items_empty)
    with True 2 show ?thesis by simp
  next
    case False
    note unroll = ts_items_cons [OF 2(2) False]
    have "ts_inv N (r\<lparr>ts_head := Suc (ts_head r) mod N\<rparr>)" "pow2 N"
      using 2 by (auto simp: ts_inv_def pow2_pos)
    with 2 False show ?thesis by (auto simp: unroll)
  qed
qed

lemma evict_items:
  assumes "ts_inv N r"
  shows "ts_inv N (evict N c r)" "ts_items N (evict N c r) = dropWhile (\<lambda>t. t \<le> c) (ts_items N r)"
proof -
  have "length (ts_items N r) \<le> N"
    using assms ring_len_less [of N "ts_tail r" "ts_head r"] by (simp add: ts_items_def ts_inv_def)
  from evict_loop_items [OF assms this]
  show "ts_inv N (evict N c r)" "ts_items N (evict N c r) = dropWhile (\<lambda>t. t \<le> c) (ts_items N r)"
    by (simp_all add: evict_def)
qed

lemma ts_push_items:
  assumes "ts_inv N r" "2 \<le> N"
  shows "ts_inv N (ts_push N now r)"
    and "ts_items N (ts_push N now r)
       = (if length (ts_items N r) = N - 1 then tl (ts_items N r) else ts_items N r) @ [now]"
proof -
  have ix: "pow2 N" "ts_head r < N" "ts_tail r < N" "length (ts r) = N" using assms by (simp_all add: ts_inv_def)
  show "ts_inv N (ts_push N now r)" using assms by (auto simp: ts_push_def ts_inv_def Let_def)
  note full = ring_len_full [OF ix(3,2)]
  show "ts_items N (ts_push N now r)
       = (if length (ts_items N r) = N - 1 then tl (ts_items N r) else ts_items N r) @ [now]"
  proof (cases "Suc (ts_tail r) mod N = ts_head r")
    case False
    then show ?thesis
      using ring_items_push [OF ix(3,2) False ix(4)] ix full by (simp add: ts_push_def ts_items_def Let_def)
  next
    case True
    let ?h = "Suc (ts_head r) mod N"
    have h: "?h < N" "ts_tail r \<noteq> ts_head r" "ts_head r \<noteq> ?h"
      using ix True assms(2) by (auto simp: Suc_mod_cases split: if_splits)
    have ne: "Suc (ts_tail r) mod N \<noteq> ?h" using True h(3) by simp
    have "ring_items N (ts r) (ts_tail r) (ts_head r) = ts r ! ts_head r # ring_items N (ts r) (ts_tail r) ?h"
      by (rule ring_items_pop [OF ix(3,2) h(2)])
    then show ?thesis
      using ring_items_push [OF ix(3) h(1) ne ix(4), of now] True ix full ring_len_pop [OF ix(3,2) h(2)]
      by (simp add: ts_push_def ts_items_def Let_def)
  qed
qed

lemma ts_count_items:
  assumes "ts_inv N r" "N \<le> 2 ^ 63"
  shows "ts_count N r = length (ts_items N r)"
proof -
  have ix: "pow2 N" "ts_head r < N" "ts_tail r < N" using assms by (simp_all add: ts_inv_def)
  have d: "N dvd 2 ^ 64" by (rule pow2_dvd [OF ix(1)]) (use assms(2) in simp)
  have "ts_count N r = (sz_sub (ts_tail r) (ts_head r) + N) mod N"
    using ix(1) mod_mod_cancel [OF d] by (simp add: ts_count_def)
  also have "\<dots> = ring_mask N (sz_sub (ts_tail r) (ts_head r))" using ix(1) by simp
  also have "\<dots> = length (ts_items N r)"
    using ring_mask_sz_sub [OF ix(1) _ ix(2)] assms(2) by (simp add: ts_items_def ring_len_def)
  finally show ?thesis .
qed

lemma ts_init_inv: "pow2 N \<Longrightarrow> ts_inv N (ts_init N)" "pow2 N \<Longrightarrow> ts_items N (ts_init N) = []"
  by (simp_all add: ts_inv_def ts_init_def ts_items_def ring_items_empty pow2_pos)

lemma drop_last_snoc:
  assumes "0 < k"
  shows "(if length (drop (length xs - k) xs) = k then tl (drop (length xs - k) xs)
          else drop (length xs - k) xs) @ [x] = drop (length (xs @ [x]) - k) (xs @ [x])"
proof (cases "length xs < k")
  case True
  then show ?thesis by simp
next
  case False
  then have "tl (drop (length xs - k) xs) = drop (Suc (length xs) - k) xs"
    by (simp add: tl_drop drop_Suc [symmetric] Suc_diff_le)
  with False assms show ?thesis by simp
qed

lemma ts_history:
  assumes "pow2 N" "2 \<le> N"
  shows "ts_inv N (fold (ts_push N) xs (ts_init N))"
    and "ts_items N (fold (ts_push N) xs (ts_init N)) = drop (length xs - (N - 1)) xs"
proof (induction xs rule: rev_induct)
  case Nil
  case 1 then show ?case using ts_init_inv assms by simp
  case 2 then show ?case using ts_init_inv assms by simp
next
  case (snoc x xs)
  have k: "0 < N - 1" using assms by simp
  case 1 then show ?case using ts_push_items(1) [OF snoc(1) assms(2)] by simp
  case 2 then show ?case
    unfolding drop_last_snoc [OF k, of xs x, symmetric] snoc(2) [symmetric]
    using ts_push_items(2) [OF snoc(1) assms(2), of x] by simp
qed

lemma sorted_dropWhile_filter:
  "sorted xs \<Longrightarrow> dropWhile (\<lambda>t. t \<le> c) xs = filter (\<lambda>t. c < t) xs" for c :: "'a::linorder"
proof (induction xs)
  case Nil
  then show ?case by simp
next
  case (Cons x xs)
  show ?case
  proof (cases "x \<le> c")
    case True
    with Cons show ?thesis by simp
  next
    case False
    with Cons.prems have "\<forall>y \<in> set xs. c < y" by auto
    with False show ?thesis by (simp add: filter_id_conv)
  qed
qed

section \<open>Sliding windows\<close>

text \<open>
  What a rate limiter relies on: a counter whose contents are the stored stamps, oldest first, with
  eviction from the front, insertion at the back below the capacity, and an exact count.
\<close>

locale sliding_window =
  fixes winv :: "'r \<Rightarrow> bool" and items :: "'r \<Rightarrow> int list" and cap :: nat
    and drop_until :: "int \<Rightarrow> 'r \<Rightarrow> 'r" and insert_at :: "int \<Rightarrow> 'r \<Rightarrow> 'r" and number :: "'r \<Rightarrow> nat"
  assumes winv_drop: "winv r \<Longrightarrow> winv (drop_until c r)"
    and items_drop: "winv r \<Longrightarrow> items (drop_until c r) = dropWhile (\<lambda>t. t \<le> c) (items r)"
    and winv_insert: "winv r \<Longrightarrow> winv (insert_at t r)"
    and items_insert: "winv r \<Longrightarrow> length (items r) < cap \<Longrightarrow> items (insert_at t r) = items r @ [t]"
    and number_items: "winv r \<Longrightarrow> number r = length (items r)"
begin

text \<open>
  The stamps \<open>hs\<close> let through so far, none later than \<open>now\<close>, at most \<open>L\<close> of them in any window of
  width \<open>w\<close>; the counter holds those after a cutoff no later than the window that ends at \<open>now\<close>.
\<close>

definition tracks :: "int \<Rightarrow> nat \<Rightarrow> 'r \<Rightarrow> int list \<Rightarrow> int \<Rightarrow> bool" where
  "tracks w L r hs now \<longleftrightarrow> winv r \<and> sorted hs \<and> (\<forall>x \<in> set hs. x \<le> now)
     \<and> (\<exists>c \<le> now - w. items r = filter (\<lambda>x. c < x) hs)
     \<and> (\<forall>u. length (filter (\<lambda>x. u - w < x \<and> x \<le> u) hs) \<le> L)"

lemma tracks_start: "winv r \<Longrightarrow> items r = [] \<Longrightarrow> tracks w L r [] now"
  by (auto simp: tracks_def)

lemma tracks_evict_items:
  assumes "tracks w L r hs now" "now \<le> t"
  shows "items (drop_until (t - w) r) = filter (\<lambda>x. t - w < x) hs"
proof -
  obtain c where c: "c \<le> now - w" "items r = filter (\<lambda>x. c < x) hs"
    using assms(1) unfolding tracks_def by blast
  have "sorted (items r)" using assms(1) c(2) by (simp add: tracks_def sorted_wrt_filter)
  then have "items (drop_until (t - w) r) = filter (\<lambda>x. t - w < x) (filter (\<lambda>x. c < x) hs)"
    using assms(1) c(2) by (simp add: tracks_def items_drop sorted_dropWhile_filter)
  also have "\<dots> = filter (\<lambda>x. t - w < x) hs" using c(1) assms(2) by (auto simp: intro!: filter_cong)
  finally show ?thesis .
qed

lemma tracks_evict:
  assumes "tracks w L r hs now" "now \<le> t"
  shows "tracks w L (drop_until (t - w) r) hs t"
proof -
  have "\<exists>c \<le> t - w. items (drop_until (t - w) r) = filter (\<lambda>x. c < x) hs"
    using tracks_evict_items [OF assms] by blast
  moreover have "\<forall>x \<in> set hs. x \<le> t" using assms by (auto simp: tracks_def)
  ultimately show ?thesis using assms(1) by (simp add: tracks_def winv_drop)
qed

lemma tracks_insert:
  assumes "tracks w L r hs now" "now \<le> t" "number (drop_until (t - w) r) < L" "L \<le> cap" "0 < w"
  shows "tracks w L (insert_at t (drop_until (t - w) r)) (hs @ [t]) t"
proof -
  let ?r = "drop_until (t - w) r"
  note E = tracks_evict [OF assms(1,2)] and I = tracks_evict_items [OF assms(1,2)]
  have inv: "winv ?r" and le: "\<forall>x \<in> set hs. x \<le> t" and hs: "sorted hs"
    using E by (simp_all add: tracks_def)
  have n: "length (filter (\<lambda>x. t - w < x) hs) < L" using assms(3) number_items [OF inv] by (simp add: I)
  then have "length (items ?r) < cap" using assms(4) by (simp add: I)
  from items_insert [OF inv this] have it: "items (insert_at t ?r) = filter (\<lambda>x. t - w < x) (hs @ [t])"
    using assms(5) by (simp add: I)
  have win: "length (filter (\<lambda>x. u - w < x \<and> x \<le> u) (hs @ [t])) \<le> L" for u
  proof (cases "t \<le> u")
    case True
    have "length (filter (\<lambda>x. u - w < x \<and> x \<le> u) hs) \<le> length (filter (\<lambda>x. t - w < x) hs)"
      using True by (induction hs) auto
    with n show ?thesis by simp
  next
    case False
    then show ?thesis using assms(1) by (simp add: tracks_def)
  qed
  show ?thesis unfolding tracks_def
    using winv_insert [OF inv] hs le it win by (fastforce simp: sorted_append)
qed

lemma tracks_bound: "tracks w L r hs now \<Longrightarrow> length (filter (\<lambda>x. u - w < x \<and> x \<le> u) hs) \<le> L"
  by (simp add: tracks_def)

lemma tracks_later: "tracks w L r hs now \<Longrightarrow> now \<le> t \<Longrightarrow> tracks w L r hs t"
  unfolding tracks_def by (meson diff_right_mono order_trans)

end

text \<open>The ring of timestamps is such a counter, with room for one entry less than its slots.\<close>

lemma ts_ring_sliding_window:
  assumes "pow2 N" "2 \<le> N" "N \<le> 2 ^ 63"
  shows "sliding_window (ts_inv N) (ts_items N) (N - 1) (evict N) (ts_push N) (ts_count N)"
proof
  fix r c t
  assume r: "ts_inv N r"
  show "ts_inv N (evict N c r)" "ts_items N (evict N c r) = dropWhile (\<lambda>t. t \<le> c) (ts_items N r)"
    by (rule evict_items [OF r])+
  show "ts_inv N (ts_push N t r)" by (rule ts_push_items(1) [OF r assms(2)])
  show "ts_items N (ts_push N t r) = ts_items N r @ [t]" if "length (ts_items N r) < N - 1"
    using ts_push_items(2) [OF r assms(2), of t] that by simp
  show "ts_count N r = length (ts_items N r)" by (rule ts_count_items [OF r assms(3)])
qed

section \<open>Properties\<close>

text \<open>Packing a ticker into its 64-bit key loses nothing: \<open>key_to_sym\<close> gives back the
  characters before the terminator, and two symbols share a key exactly when these agree, so maps
  keyed by the packed symbol never confuse two tickers.\<close>

theorem sym_key_roundtrip:
  "key_to_sym (sym_to_key cs) = sym_chars cs
   \<and> (sym_to_key cs = sym_to_key ds \<longleftrightarrow> sym_chars cs = sym_chars ds)"
proof -
  have "sym_chars cs = sym_chars ds" if "sym_to_key cs = sym_to_key ds"
    using key_to_sym_sym_to_key [of cs] key_to_sym_sym_to_key [of ds] that by simp
  moreover have "sym_to_key cs = sym_to_key ds" if "sym_chars cs = sym_chars ds"
    using that by (simp add: sym_to_key_def)
  ultimately show ?thesis using key_to_sym_sym_to_key by blast
qed

text \<open>The sliding window: after pushing timestamps \<open>xs\<close> in non-decreasing order into a ring of
  \<open>N\<close> slots, evicting up to \<open>cutoff\<close> leaves exactly the stamps strictly after \<open>cutoff\<close>
  among the last \<open>N - 1\<close>, and \<open>count()\<close> is their number.  (An entry equal to \<open>cutoff\<close> is
  evicted: the window is open at \<open>cutoff\<close>.)\<close>

theorem ts_ring_window:
  assumes "pow2 N" "2 \<le> N" "N \<le> 2 ^ 63" "sorted xs"
  shows "ts_count N (evict N cutoff (fold (ts_push N) xs (ts_init N)))
    = length (filter (\<lambda>t. cutoff < t) (drop (length xs - (N - 1)) xs))"
proof -
  let ?r = "fold (ts_push N) xs (ts_init N)"
  note inv = ts_history(1) [OF assms(1,2), of xs] and items = ts_history(2) [OF assms(1,2), of xs]
  have "sorted (drop (length xs - (N - 1)) xs)" using assms(4) by (rule sorted_wrt_drop)
  then have "ts_items N (evict N cutoff ?r) = filter (\<lambda>t. cutoff < t) (drop (length xs - (N - 1)) xs)"
    by (simp only: evict_items(2) [OF inv] items sorted_dropWhile_filter)
  then show ?thesis using ts_count_items [OF evict_items(1) [OF inv] assms(3)] by simp
qed

theorem ts_ring_window_witness:
  "ts_count 4 (evict 4 20 (fold (ts_push 4) [10, 20, 30, 40] (ts_init 4))) = 2"
proof -
  have "pow2 4" by (simp add: pow2_def)
  then have "ts_count 4 (evict 4 20 (fold (ts_push 4) [10, 20, 30, 40] (ts_init 4)))
      = length (filter (\<lambda>t. 20 < t) (drop (length [10, 20, 30, 40 :: int] - (4 - 1)) [10, 20, 30, 40 :: int]))"
    by (rule ts_ring_window) simp_all
  then show ?thesis by simp
qed

end
