(* ===== verification/Level_Bitmap.thy ===== *)
theory Level_Bitmap
  imports Ring_Buffer
begin

unbundle bit_operations_syntax

text \<open>
  The occupancy bitmap of \<open>orderbook/orderbook_flat.hpp\<close>: one bit per price level, 64 levels per
  word, with the word-at-a-time searches for the next occupied level.  The locale
  \<open>level_index\<close> is what the order book relies on; the bitmap functions are its instance.
\<close>

section \<open>Specification of the searches\<close>

text \<open>The highest occupied level at or below a level, and the lowest at or above it.\<close>

fun hi_occ :: "(nat \<Rightarrow> bool) \<Rightarrow> nat \<Rightarrow> int" where
  "hi_occ f 0 = (if f 0 then 0 else - 1)"
| "hi_occ f (Suc n) = (if f (Suc n) then int (Suc n) else hi_occ f n)"

text \<open>\<open>lo_occ f n k\<close> looks at the \<open>k\<close> levels from \<open>n\<close> on.\<close>

fun lo_occ :: "(nat \<Rightarrow> bool) \<Rightarrow> nat \<Rightarrow> nat \<Rightarrow> int" where
  "lo_occ f n 0 = int n"
| "lo_occ f n (Suc k) = (if f n then int n else lo_occ f (Suc n) k)"

lemma hi_occ_Some: "p \<le> n \<Longrightarrow> f p \<Longrightarrow> (\<And>q. p < q \<Longrightarrow> q \<le> n \<Longrightarrow> \<not> f q) \<Longrightarrow> hi_occ f n = int p"
  by (induction n) (auto simp: le_Suc_eq)

lemma hi_occ_None: "(\<And>q. q \<le> n \<Longrightarrow> \<not> f q) \<Longrightarrow> hi_occ f n = - 1"
  by (induction n) auto

lemma hi_occ_cases:
  obtains (none) "hi_occ f n = - 1" "\<And>q. q \<le> n \<Longrightarrow> \<not> f q"
  | (some) p where "hi_occ f n = int p" "p \<le> n" "f p" "\<And>q. p < q \<Longrightarrow> q \<le> n \<Longrightarrow> \<not> f q"
proof (cases "\<exists>q \<le> n. f q")
  case True
  define p where "p = (GREATEST q. q \<le> n \<and> f q)"
  have "p \<le> n \<and> f p" unfolding p_def by (rule GreatestI_ex_nat [of _ n]) (use True in auto)
  moreover have "\<not> f q" if "p < q" "q \<le> n" for q
    using that Greatest_le_nat [of "\<lambda>q. q \<le> n \<and> f q" q n] unfolding p_def by auto
  ultimately show thesis using some hi_occ_Some by blast
next
  case False
  then show thesis using none hi_occ_None by blast
qed

lemma lo_occ_Some:
  "p < n + k \<Longrightarrow> n \<le> p \<Longrightarrow> f p \<Longrightarrow> (\<And>q. n \<le> q \<Longrightarrow> q < p \<Longrightarrow> \<not> f q) \<Longrightarrow> lo_occ f n k = int p"
proof (induction f n k rule: lo_occ.induct)
  case (2 f n k)
  then show ?case by (cases "n = p") auto
qed simp

lemma lo_occ_None: "(\<And>q. n \<le> q \<Longrightarrow> q < n + k \<Longrightarrow> \<not> f q) \<Longrightarrow> lo_occ f n k = int (n + k)"
  by (induction f n k rule: lo_occ.induct) auto

lemma lo_occ_cases:
  obtains (none) "lo_occ f n k = int (n + k)" "\<And>q. n \<le> q \<Longrightarrow> q < n + k \<Longrightarrow> \<not> f q"
  | (some) p where "lo_occ f n k = int p" "n \<le> p" "p < n + k" "f p"
      "\<And>q. n \<le> q \<Longrightarrow> q < p \<Longrightarrow> \<not> f q"
proof (cases "\<exists>q. n \<le> q \<and> q < n + k \<and> f q")
  case True
  define p where "p = (LEAST q. n \<le> q \<and> q < n + k \<and> f q)"
  have p: "n \<le> p \<and> p < n + k \<and> f p" unfolding p_def by (rule LeastI_ex) (rule True)
  moreover have least: "\<not> f q" if "n \<le> q" "q < p" for q
    using that not_less_Least [of q "\<lambda>q. n \<le> q \<and> q < n + k \<and> f q"] p unfolding p_def by auto
  ultimately show thesis using some lo_occ_Some by blast
next
  case False
  then show thesis using none lo_occ_None by blast
qed

section \<open>The bitmap\<close>

text \<open>The index of the highest and of the lowest set bit: \<open>63 - __builtin_clzll\<close> and
  \<open>__builtin_ctzll\<close> of a non-zero word.\<close>

definition clzll :: "64 word \<Rightarrow> nat" where
  "clzll w = length (takeWhile (\<lambda>i. \<not> bit w i) (rev [0..<64]))"

definition ctzll :: "64 word \<Rightarrow> nat" where
  "ctzll w = length (takeWhile (\<lambda>i. \<not> bit w i) [0..<64])"

definition bit_at :: "64 word list \<Rightarrow> nat \<Rightarrow> bool" where
  "bit_at bits p = bit (bits ! drop_bit 6 p) (p AND 63)"

definition set_bit_at :: "64 word list \<Rightarrow> nat \<Rightarrow> 64 word list" where
  "set_bit_at bits p =
     (let w = drop_bit 6 p in bits[w := bits ! w OR push_bit (p AND 63) 1])"

definition clear_bit_at :: "64 word list \<Rightarrow> nat \<Rightarrow> 64 word list" where
  "clear_bit_at bits p =
     (let w = drop_bit 6 p in bits[w := bits ! w AND NOT (push_bit (p AND 63) 1)])"

fun down_loop :: "64 word list \<Rightarrow> nat \<Rightarrow> 64 word \<Rightarrow> int" where
  "down_loop bits 0 word = (if word \<noteq> 0 then int (push_bit 6 0 + (63 - clzll word)) else - 1)"
| "down_loop bits (Suc w) word =
     (if word \<noteq> 0 then int (push_bit 6 (Suc w) + (63 - clzll word))
      else down_loop bits w (bits ! w))"

definition scan_down :: "64 word list \<Rightarrow> int \<Rightarrow> int" where
  "scan_down bits from =
     (if from < 0 then - 1
      else let f = nat from; w = drop_bit 6 f
           in down_loop bits w (bits ! w AND drop_bit (63 - (f AND 63)) (NOT 0)))"

function up_loop :: "nat \<Rightarrow> 64 word list \<Rightarrow> nat \<Rightarrow> 64 word \<Rightarrow> int" where
  "up_loop L bits w word =
     (if word \<noteq> 0 then int (push_bit 6 w + ctzll word)
      else if Suc w \<ge> L div 64 then int L
      else up_loop L bits (Suc w) (bits ! Suc w))"
  by pat_completeness auto
termination
  by (relation "measure (\<lambda>(L, bits, w, word). L div 64 - w)") auto

declare up_loop.simps [simp del]

definition scan_up :: "nat \<Rightarrow> 64 word list \<Rightarrow> int \<Rightarrow> int" where
  "scan_up L bits from =
     (if from \<ge> int L then int L
      else let f = nat from; w = drop_bit 6 f
           in up_loop L bits w (bits ! w AND push_bit (f AND 63) (NOT 0)))"

lemma and_63 [simp]: "p AND 63 = p mod 64" for p :: nat
  using and_pred_mod [of p 6] by simp

lemma drop_6 [simp]: "drop_bit 6 p = p div 64" for p :: nat
  by (simp add: drop_bit_eq_div)

lemma push_6 [simp]: "push_bit 6 p = p * 64" for p :: nat
  by (simp add: push_bit_eq_mult)

lemma takeWhile_upt:
  assumes "i < n" "P i" "\<And>j. j < i \<Longrightarrow> \<not> P j"
  shows "length (takeWhile (\<lambda>j. \<not> P j) [0..<n]) = i"
proof -
  have "[0..<n] = [0..<i] @ i # [Suc i..<n]"
    using assms(1) upt_add_eq_append [of 0 i "n - i"] upt_conv_Cons [of i n] by simp
  moreover have "takeWhile (\<lambda>j. \<not> P j) ([0..<i] @ i # [Suc i..<n]) = [0..<i]"
    by (subst takeWhile_append2) (use assms in auto)
  ultimately show ?thesis by simp
qed

lemma ctzll_eq:
  assumes "i < 64" "bit w i" "\<And>j. j < i \<Longrightarrow> \<not> bit w j"
  shows "ctzll w = i"
  unfolding ctzll_def using assms by (rule takeWhile_upt)

lemma clzll_eq:
  assumes "i < 64" "bit w i" "\<And>j. i < j \<Longrightarrow> j < 64 \<Longrightarrow> \<not> bit w j"
  shows "clzll w = 63 - i"
proof -
  have "rev [0..<64] = map (\<lambda>j. 63 - j) [0..<64]"
    by (rule nth_equalityI) (simp_all add: rev_nth)
  then have "clzll w = length (takeWhile (\<lambda>j. \<not> bit w (63 - j)) [0..<64])"
    by (simp add: clzll_def takeWhile_map comp_def)
  also have "\<dots> = 63 - i"
    by (rule takeWhile_upt) (use assms in auto)
  finally show ?thesis .
qed

lemma word_zero_bits: "w = 0 \<longleftrightarrow> (\<forall>i < 64. \<not> bit w i)" for w :: "64 word"
  by (auto intro: bit_word_eqI)

lemma word_top_bit:
  fixes w :: "64 word"
  assumes "w \<noteq> 0"
  obtains i where "i < 64" "bit w i" "\<And>j. i < j \<Longrightarrow> j < 64 \<Longrightarrow> \<not> bit w j"
    "63 - clzll w = i"
proof -
  define i where "i = (GREATEST i. i < 64 \<and> bit w i)"
  have "i < 64 \<and> bit w i" unfolding i_def
    by (rule GreatestI_ex_nat [of _ 64]) (use assms word_zero_bits in auto)
  moreover have "\<not> bit w j" if "i < j" "j < 64" for j
    using that Greatest_le_nat [of "\<lambda>i. i < 64 \<and> bit w i" j 64] unfolding i_def by auto
  moreover from calculation have "63 - clzll w = i" using clzll_eq [of i w] by simp
  ultimately show thesis using that by blast
qed

lemma word_low_bit:
  fixes w :: "64 word"
  assumes "w \<noteq> 0"
  obtains i where "i < 64" "bit w i" "\<And>j. j < i \<Longrightarrow> \<not> bit w j" "ctzll w = i"
proof -
  define i where "i = (LEAST i. i < 64 \<and> bit w i)"
  have "i < 64 \<and> bit w i" unfolding i_def
    by (rule LeastI_ex) (use assms word_zero_bits in auto)
  moreover have "\<not> bit w j" if "j < i" for j
    using that not_less_Least [of j "\<lambda>i. i < 64 \<and> bit w i"] calculation unfolding i_def by auto
  ultimately show thesis using that ctzll_eq by blast
qed

lemma hi_occ_skip: "m \<le> n \<Longrightarrow> (\<And>q. m < q \<Longrightarrow> q \<le> n \<Longrightarrow> \<not> f q) \<Longrightarrow> hi_occ f n = hi_occ f m"
  by (induction n) (auto simp: le_Suc_eq)

lemma lo_occ_skip:
  "(\<And>q. n \<le> q \<Longrightarrow> q < n + j \<Longrightarrow> \<not> f q) \<Longrightarrow> lo_occ f n (j + k) = lo_occ f (n + j) k"
  by (induction j arbitrary: n) auto

lemma bit_at_word [simp]: "j < 64 \<Longrightarrow> bit_at bits (w * 64 + j) = bit (bits ! w) j"
  by (simp add: bit_at_def)

lemma down_loop_hi:
  assumes "\<And>j. j < 64 \<Longrightarrow> bit word j \<longleftrightarrow> w * 64 + j \<le> n \<and> bit_at bits (w * 64 + j)"
    and "w * 64 \<le> n" "n < w * 64 + 64"
  shows "down_loop bits w word = hi_occ (bit_at bits) n"
  using assms
proof (induction w arbitrary: word n)
  case 0
  show ?case
  proof (cases "word = 0")
    case True
    then have "\<not> bit_at bits q" if "q \<le> n" for q
      using 0(1) [of q] 0(3) that by (simp add: word_zero_bits)
    with True show ?thesis by (simp add: hi_occ_None)
  next
    case False
    then obtain i where i: "i < 64" "bit word i" "\<And>j. i < j \<Longrightarrow> j < 64 \<Longrightarrow> \<not> bit word j"
      "63 - clzll word = i" by (rule word_top_bit) blast
    have "hi_occ (bit_at bits) n = int i"
      by (rule hi_occ_Some) (use 0 i in fastforce)+
    with False i(4) show ?thesis by simp
  qed
next
  case (Suc v)
  show ?case
  proof (cases "word = 0")
    case True
    have none: "\<not> bit_at bits q" if qn: "v * 64 + 63 < q" "q \<le> n" for q
    proof -
      obtain j where j: "q = Suc v * 64 + j" "j < 64"
        using qn Suc.prems(2,3) by (intro that [of "q - Suc v * 64"]) auto
      then show ?thesis using Suc.prems(1) [of j] True qn by (simp add: word_zero_bits)
    qed
    have "down_loop bits v (bits ! v) = hi_occ (bit_at bits) (v * 64 + 63)"
      by (rule Suc.IH) auto
    also have "\<dots> = hi_occ (bit_at bits) n"
      by (rule hi_occ_skip [symmetric]) (use Suc.prems none in auto)
    finally show ?thesis using True by simp
  next
    case False
    then obtain i where i: "i < 64" "bit word i" "\<And>j. i < j \<Longrightarrow> j < 64 \<Longrightarrow> \<not> bit word j"
      "63 - clzll word = i" by (rule word_top_bit) blast
    have "hi_occ (bit_at bits) n = int (Suc v * 64 + i)"
    proof (rule hi_occ_Some)
      fix q assume q: "Suc v * 64 + i < q" "q \<le> n"
      then obtain j where j: "q = Suc v * 64 + j" "i < j" "j < 64"
        using Suc.prems(2,3) by (intro that [of "q - Suc v * 64"]) auto
      then show "\<not> bit_at bits q" using Suc.prems(1) [of j] i(3) [of j] q by simp
    qed (use Suc.prems i in auto)
    with False i(4) show ?thesis by simp
  qed
qed


lemma bit_low_mask:
  assumes "k < 64" "j < 64"
  shows "bit (drop_bit (63 - k) (NOT 0) :: 64 word) j \<longleftrightarrow> j \<le> k"
  using assms by (auto simp: bit_simps)

lemma bit_high_mask:
  assumes "k < 64" "j < 64"
  shows "bit (push_bit k (NOT 0) :: 64 word) j \<longleftrightarrow> k \<le> j"
  using assms by (auto simp: bit_simps)

lemma scan_down_hi: "scan_down bits (int n) = hi_occ (bit_at bits) n"
proof -
  have n: "n = n div 64 * 64 + n mod 64" by simp
  have "down_loop bits (n div 64) (bits ! (n div 64) AND drop_bit (63 - n mod 64) (NOT 0))
      = hi_occ (bit_at bits) n"
  proof (rule down_loop_hi)
    fix j :: nat assume j: "j < 64"
    have "n div 64 * 64 + j \<le> n \<longleftrightarrow> j \<le> n mod 64" using n by linarith
    then show "bit (bits ! (n div 64) AND drop_bit (63 - n mod 64) (NOT 0)) j
      \<longleftrightarrow> n div 64 * 64 + j \<le> n \<and> bit_at bits (n div 64 * 64 + j)"
      using j bit_low_mask [of "n mod 64" j] by (auto simp: bit_and_iff)
  qed (use n mod_less_divisor [of 64 n] in linarith)+
  then show ?thesis by (simp add: scan_down_def)
qed

lemma up_loop_lo:
  assumes "\<And>j. j < 64 \<Longrightarrow> bit word j \<longleftrightarrow> n \<le> w * 64 + j \<and> bit_at bits (w * 64 + j)"
    and "w * 64 \<le> n" "n < w * 64 + 64" "w < L div 64" "64 dvd L"
  shows "up_loop L bits w word = lo_occ (bit_at bits) n (L - n)"
  using assms
proof (induction "L div 64 - w" arbitrary: w word n)
  case 0
  then show ?case by simp
next
  case (Suc m)
  have top: "w * 64 + 64 \<le> L" using Suc.prems(4) by (simp add: less_eq_div_iff_mult_less_eq Suc_le_eq [symmetric])
  show ?case
  proof (cases "word = 0")
    case False
    then obtain i where i: "i < 64" "bit word i" "\<And>j. j < i \<Longrightarrow> \<not> bit word j" "ctzll word = i"
      by (rule word_low_bit) blast
    have "lo_occ (bit_at bits) n (L - n) = int (w * 64 + i)"
    proof (rule lo_occ_Some)
      show "w * 64 + i < n + (L - n)" "n \<le> w * 64 + i" "bit_at bits (w * 64 + i)"
        using Suc.prems(1) [of i] i top by simp_all
      fix q assume q: "n \<le> q" "q < w * 64 + i"
      then obtain j where j: "q = w * 64 + j" "j < i"
        using Suc.prems(2) i(1) by (intro that [of "q - w * 64"]) auto
      then show "\<not> bit_at bits q" using Suc.prems(1) [of j] i(1,3) q by simp
    qed
    with False i(4) show ?thesis by (simp add: up_loop.simps)
  next
    case True
    have none: "\<not> bit_at bits q" if qn: "n \<le> q" "q < w * 64 + 64" for q
    proof -
      obtain j where j: "q = w * 64 + j" "j < 64"
        using qn Suc.prems(2) by (intro that [of "q - w * 64"]) auto
      then show ?thesis using Suc.prems(1) [of j] True qn by (simp add: word_zero_bits)
    qed
    show ?thesis
    proof (cases "Suc w \<ge> L div 64")
      case last: True
      then have "L = w * 64 + 64" using top Suc.prems(5) by (auto elim!: dvdE)
      then have "lo_occ (bit_at bits) n (L - n) = int L"
        using lo_occ_None [of n "L - n" "bit_at bits"] none Suc.prems(3) by simp
      with True last show ?thesis by (simp add: up_loop.simps)
    next
      case False
      have "up_loop L bits (Suc w) (bits ! Suc w) = lo_occ (bit_at bits) (Suc w * 64) (L - Suc w * 64)"
        by (rule Suc.hyps) (use Suc False bit_at_word [of _ bits "Suc w"] in auto)
      also have "\<dots> = lo_occ (bit_at bits) n (L - n)"
        using lo_occ_skip [of n "Suc w * 64 - n" "bit_at bits" "L - Suc w * 64"] none Suc.prems(3) top
        by simp
      finally show ?thesis using True False by (simp add: up_loop.simps [of L bits w])
    qed
  qed
qed

lemma scan_up_lo:
  assumes "64 dvd L" "n \<le> L"
  shows "scan_up L bits (int n) = lo_occ (bit_at bits) n (L - n)"
proof (cases "n = L")
  case True
  then show ?thesis by (simp add: scan_up_def)
next
  case False
  have n: "n = n div 64 * 64 + n mod 64" by simp
  have w: "n div 64 < L div 64" using False assms by (auto elim!: dvdE simp: div_less_iff_less_mult)
  have "up_loop L bits (n div 64) (bits ! (n div 64) AND push_bit (n mod 64) (NOT 0))
      = lo_occ (bit_at bits) n (L - n)"
  proof (rule up_loop_lo [OF _ _ _ w assms(1)])
    fix j :: nat assume j: "j < 64"
    have "n \<le> n div 64 * 64 + j \<longleftrightarrow> n mod 64 \<le> j" using n by linarith
    then show "bit (bits ! (n div 64) AND push_bit (n mod 64) (NOT 0)) j
      \<longleftrightarrow> n \<le> n div 64 * 64 + j \<and> bit_at bits (n div 64 * 64 + j)"
      using j bit_high_mask [of "n mod 64" j] by (auto simp: bit_and_iff)
  qed (use n mod_less_divisor [of 64 n] in linarith)+
  with False assms(2) show ?thesis by (simp add: scan_up_def)
qed

lemma bit_at_set:
  assumes "p div 64 < length bits"
  shows "bit_at (set_bit_at bits p) q \<longleftrightarrow> q = p \<or> bit_at bits q"
proof (cases "q div 64 = p div 64")
  case True
  then have "q mod 64 = p mod 64 \<longleftrightarrow> q = p" by (metis div_mult_mod_eq)
  with True assms show ?thesis
    by (auto simp: bit_at_def set_bit_at_def Let_def bit_or_iff bit_exp_iff)
next
  case False
  then show ?thesis by (auto simp: bit_at_def set_bit_at_def Let_def)
qed

lemma bit_at_clear:
  assumes "p div 64 < length bits"
  shows "bit_at (clear_bit_at bits p) q \<longleftrightarrow> q \<noteq> p \<and> bit_at bits q"
proof (cases "q div 64 = p div 64")
  case True
  then have "q mod 64 = p mod 64 \<longleftrightarrow> q = p" by (metis div_mult_mod_eq)
  with True assms show ?thesis
    by (auto simp: bit_at_def clear_bit_at_def Let_def bit_and_iff bit_not_iff bit_exp_iff)
next
  case False
  then show ?thesis by (auto simp: bit_at_def clear_bit_at_def Let_def)
qed

section \<open>What the order book relies on\<close>

locale level_index =
  fixes occ :: "'b \<Rightarrow> nat \<Rightarrow> bool"
    and set_level :: "'b \<Rightarrow> nat \<Rightarrow> 'b"
    and clear_level :: "'b \<Rightarrow> nat \<Rightarrow> 'b"
    and down :: "'b \<Rightarrow> int \<Rightarrow> int"
    and up :: "'b \<Rightarrow> int \<Rightarrow> int"
    and wf :: "'b \<Rightarrow> bool"
    and L :: nat
  assumes wf_levels: "wf b \<Longrightarrow> 0 < L"
    and wf_set: "wf b \<Longrightarrow> p < L \<Longrightarrow> wf (set_level b p)"
    and wf_clear: "wf b \<Longrightarrow> p < L \<Longrightarrow> wf (clear_level b p)"
    and occ_set: "wf b \<Longrightarrow> p < L \<Longrightarrow> occ (set_level b p) q \<longleftrightarrow> q = p \<or> occ b q"
    and occ_clear: "wf b \<Longrightarrow> p < L \<Longrightarrow> occ (clear_level b p) q \<longleftrightarrow> q \<noteq> p \<and> occ b q"
    and down_below: "down b (- 1) = - 1"
    and down_hi: "wf b \<Longrightarrow> n < L \<Longrightarrow> down b (int n) = hi_occ (occ b) n"
    and up_lo: "wf b \<Longrightarrow> n \<le> L \<Longrightarrow> up b (int n) = lo_occ (occ b) n (L - n)"
begin

text \<open>
  The cursors: the best bid is the highest occupied level of the whole range and the best ask the
  lowest.  Both follow an insertion by a comparison and a removal by a search from the old cursor.
\<close>

definition best_hi :: "'b \<Rightarrow> int" where
  "best_hi b = hi_occ (occ b) (L - 1)"

definition best_lo :: "'b \<Rightarrow> int" where
  "best_lo b = lo_occ (occ b) 0 L"

lemma best_hi_cases:
  assumes "wf b"
  obtains (none) "best_hi b = - 1" "\<And>q. q < L \<Longrightarrow> \<not> occ b q"
  | (some) p where "best_hi b = int p" "p < L" "occ b p" "\<And>q. p < q \<Longrightarrow> q < L \<Longrightarrow> \<not> occ b q"
proof (cases rule: hi_occ_cases [of "occ b" "L - 1"])
  case none
  then show thesis using that(1) wf_levels [OF assms] by (simp add: best_hi_def)
next
  case (some p)
  then show thesis using that(2) [of p] wf_levels [OF assms] by (simp add: best_hi_def)
qed

lemma best_lo_cases:
  obtains (none) "best_lo b = int L" "\<And>q. q < L \<Longrightarrow> \<not> occ b q"
  | (some) p where "best_lo b = int p" "p < L" "occ b p" "\<And>q. q < p \<Longrightarrow> \<not> occ b q"
proof (cases rule: lo_occ_cases [of "occ b" 0 L])
  case none
  then show thesis using that(1) by (simp add: best_lo_def)
next
  case (some p)
  then show thesis using that(2) [of p] by (simp add: best_lo_def)
qed

lemma best_hi_ge: "wf b \<Longrightarrow> p < L \<Longrightarrow> occ b p \<Longrightarrow> int p \<le> best_hi b"
  by (cases rule: best_hi_cases [of b]) (auto simp: not_le [symmetric])

lemma best_lo_le: "p < L \<Longrightarrow> occ b p \<Longrightarrow> best_lo b \<le> int p"
  by (cases rule: best_lo_cases [of b]) (auto simp: not_le [symmetric])

lemma best_hi_set:
  assumes "wf b" "p < L"
  shows "best_hi (set_level b p) = max (best_hi b) (int p)"
  using assms(1)
proof (cases rule: best_hi_cases)
  case none
  have "best_hi (set_level b p) = int p"
    unfolding best_hi_def by (rule hi_occ_Some) (use assms none(2) occ_set [OF assms] in auto)
  with none show ?thesis by simp
next
  case (some r)
  have "best_hi (set_level b p) = int (max r p)"
    unfolding best_hi_def
    by (rule hi_occ_Some) (use assms some occ_set [OF assms] in \<open>auto simp: max_def split: if_splits\<close>)
  with some show ?thesis by simp
qed

lemma best_lo_set:
  assumes "wf b" "p < L"
  shows "best_lo (set_level b p) = min (best_lo b) (int p)"
proof (cases rule: best_lo_cases [of b])
  case none
  have "best_lo (set_level b p) = int p"
    unfolding best_lo_def by (rule lo_occ_Some) (use assms none(2) occ_set [OF assms] in auto)
  with none assms(2) show ?thesis by simp
next
  case (some r)
  have "best_lo (set_level b p) = int (min r p)"
    unfolding best_lo_def
    by (rule lo_occ_Some) (use assms some occ_set [OF assms] in \<open>auto simp: min_def split: if_splits\<close>)
  with some show ?thesis by simp
qed

lemma down_best:
  assumes "wf b" "wf b'" "\<And>q. occ b' q \<Longrightarrow> occ b q"
  shows "down b' (best_hi b) = best_hi b'"
  using assms(1)
proof (cases rule: best_hi_cases)
  case none
  then have "best_hi b' = - 1"
    unfolding best_hi_def using assms(3) wf_levels [OF assms(1)] by (intro hi_occ_None) fastforce
  with none show ?thesis by (simp add: down_below)
next
  case (some p)
  then have "down b' (best_hi b) = hi_occ (occ b') p" using down_hi assms(2) by simp
  also have "\<dots> = best_hi b'"
    unfolding best_hi_def by (rule hi_occ_skip [symmetric]) (use some assms(3) in fastforce)+
  finally show ?thesis .
qed

lemma up_best:
  assumes "wf b" "wf b'" "\<And>q. occ b' q \<Longrightarrow> occ b q"
  shows "up b' (best_lo b) = best_lo b'"
proof (cases rule: best_lo_cases [of b])
  case none
  then have "best_lo b' = int L"
    unfolding best_lo_def using assms(3) lo_occ_None [of 0 L "occ b'"] by auto
  with none up_lo [OF assms(2), of L] show ?thesis by simp
next
  case (some p)
  then have "up b' (best_lo b) = lo_occ (occ b') p (L - p)" using up_lo assms(2) by simp
  also have "\<dots> = best_lo b'"
    unfolding best_lo_def
    by (subst lo_occ_skip [of 0 p "occ b'" "L - p", simplified, symmetric]) (use some assms(3) in auto)
  finally show ?thesis .
qed

end

definition bitmap_wf :: "nat \<Rightarrow> 64 word list \<Rightarrow> bool" where
  "bitmap_wf L bits \<longleftrightarrow> 0 < L \<and> 64 dvd L \<and> length bits = L div 64"

lemma length_set_clear [simp]:
  "length (set_bit_at bits p) = length bits" "length (clear_bit_at bits p) = length bits"
  by (simp_all add: set_bit_at_def clear_bit_at_def Let_def)

interpretation bitmap: level_index bit_at set_bit_at clear_bit_at scan_down "scan_up L" "bitmap_wf L" L
proof
  have word: "p div 64 < length b" if "bitmap_wf L b" "p < L" for b p
    using that by (auto simp: bitmap_wf_def div_less_iff_less_mult)
  show "bit_at (set_bit_at b p) q \<longleftrightarrow> q = p \<or> bit_at b q" if "bitmap_wf L b" "p < L" for b p q
    by (rule bit_at_set [OF word [OF that]])
  show "bit_at (clear_bit_at b p) q \<longleftrightarrow> q \<noteq> p \<and> bit_at b q" if "bitmap_wf L b" "p < L" for b p q
    by (rule bit_at_clear [OF word [OF that]])
  show "scan_up L b (int n) = lo_occ (bit_at b) n (L - n)" if "bitmap_wf L b" "n \<le> L" for b n
    using that by (intro scan_up_lo) (simp_all add: bitmap_wf_def)
qed (simp_all add: bitmap_wf_def scan_down_def [of _ "- 1"] scan_down_hi)

end
