(* ===== verification/Flat_Book.thy ===== *)
theory Flat_Book
  imports Level_Bitmap
begin

text \<open>
  \<open>orderbook/orderbook_flat.hpp\<close>: the flat-array matching book.  The operations as the class has
  them, over quantity arrays, occupancy bitmaps and cursors; a reference book with neither
  bitmaps nor cursors, which searches the quantity arrays level by level; and the refinement
  between the two.
\<close>

section \<open>The class\<close>

record order_ref =
  ref_price :: int
  ref_qty :: int
  ref_is_buy :: bool

record flat =
  bid_qty :: "int list"
  ask_qty :: "int list"
  bid_bits :: "64 word list"
  ask_bits :: "64 word list"
  best_bid :: int
  best_ask :: int
  trades :: int
  orders_by_id :: "(nat, order_ref) hmap"

definition flat_init :: "nat \<Rightarrow> flat" where
  "flat_init L = \<lparr>bid_qty = replicate L 0, ask_qty = replicate L 0,
     bid_bits = replicate (L div 64) 0, ask_bits = replicate (L div 64) 0,
     best_bid = - 1, best_ask = int L, trades = 0, orders_by_id = []\<rparr>"

definition crossed :: "nat \<Rightarrow> flat \<Rightarrow> bool" where
  "crossed L b \<longleftrightarrow> best_bid b \<noteq> - 1 \<and> best_ask b \<noteq> int L \<and> best_bid b \<ge> best_ask b"

text \<open>The body of the loop of \<open>try_match\<close>.\<close>

definition take_fill :: "flat \<Rightarrow> flat" where
  "take_fill b =
     (let bb = nat (best_bid b); ba = nat (best_ask b);
          fill = min (bid_qty b ! bb) (ask_qty b ! ba)
      in b\<lparr>bid_qty := (bid_qty b)[bb := s32 (bid_qty b ! bb - fill)],
           ask_qty := (ask_qty b)[ba := s32 (ask_qty b ! ba - fill)],
           trades := u64 (trades b + 1)\<rparr>)"

definition advance_bid :: "flat \<Rightarrow> flat" where
  "advance_bid b =
     (if bid_qty b ! nat (best_bid b) = 0
      then let bits = clear_bit_at (bid_bits b) (nat (best_bid b))
           in b\<lparr>bid_bits := bits, best_bid := scan_down bits (best_bid b)\<rparr>
      else b)"

definition advance_ask :: "nat \<Rightarrow> flat \<Rightarrow> flat" where
  "advance_ask L b =
     (if ask_qty b ! nat (best_ask b) = 0
      then let bits = clear_bit_at (ask_bits b) (nat (best_ask b))
           in b\<lparr>ask_bits := bits, best_ask := scan_up L bits (best_ask b)\<rparr>
      else b)"

definition match_step :: "nat \<Rightarrow> flat \<Rightarrow> flat" where
  "match_step L b = advance_ask L (advance_bid (take_fill b))"

text \<open>
  Every pass empties the best level of one side, so \<open>2 * LEVELS\<close> passes are enough;
  \<open>try_match_done\<close> below shows that the loop has ended by then.
\<close>

fun match_loop :: "nat \<Rightarrow> nat \<Rightarrow> flat \<Rightarrow> flat" where
  "match_loop 0 L b = b"
| "match_loop (Suc fuel) L b = (if crossed L b then match_loop fuel L (match_step L b) else b)"

definition try_match :: "nat \<Rightarrow> flat \<Rightarrow> flat" where
  "try_match L b = match_loop (2 * L) L b"

definition bad_order :: "nat \<Rightarrow> int \<Rightarrow> int \<Rightarrow> bool" where
  "bad_order L price qty \<longleftrightarrow> price < 0 \<or> price \<ge> int L \<or> qty \<le> 0"

definition rest_buy :: "int \<Rightarrow> int \<Rightarrow> flat \<Rightarrow> flat" where
  "rest_buy price qty b =
     (let p = nat price
      in b\<lparr>bid_bits := (if bid_qty b ! p = 0 then set_bit_at (bid_bits b) p else bid_bits b),
           bid_qty := (bid_qty b)[p := s32 (bid_qty b ! p + qty)],
           best_bid := (if price > best_bid b then price else best_bid b)\<rparr>)"

definition rest_sell :: "int \<Rightarrow> int \<Rightarrow> flat \<Rightarrow> flat" where
  "rest_sell price qty b =
     (let p = nat price
      in b\<lparr>ask_bits := (if ask_qty b ! p = 0 then set_bit_at (ask_bits b) p else ask_bits b),
           ask_qty := (ask_qty b)[p := s32 (ask_qty b ! p + qty)],
           best_ask := (if price < best_ask b then price else best_ask b)\<rparr>)"

definition add_buy :: "nat \<Rightarrow> int \<Rightarrow> int \<Rightarrow> flat \<Rightarrow> flat \<times> bool" where
  "add_buy L price qty b =
     (if bad_order L price qty then (b, False) else (try_match L (rest_buy price qty b), True))"

definition add_sell :: "nat \<Rightarrow> int \<Rightarrow> int \<Rightarrow> flat \<Rightarrow> flat \<times> bool" where
  "add_sell L price qty b =
     (if bad_order L price qty then (b, False) else (try_match L (rest_sell price qty b), True))"

definition submit_with_id :: "nat \<Rightarrow> nat \<Rightarrow> int \<Rightarrow> int \<Rightarrow> bool \<Rightarrow> flat \<Rightarrow> flat \<times> bool" where
  "submit_with_id L oid price qty is_buy b =
     (if bad_order L price qty then (b, False)
      else if map_of (orders_by_id b) oid \<noteq> None then (b, False)
      else let b1 = b\<lparr>orders_by_id := AList.update oid
                       \<lparr>ref_price = price, ref_qty = qty, ref_is_buy = is_buy\<rparr> (orders_by_id b)\<rparr>
           in (try_match L (if is_buy then rest_buy price qty b1 else rest_sell price qty b1), True))"

definition drop_bid :: "int \<Rightarrow> int \<Rightarrow> flat \<Rightarrow> flat" where
  "drop_bid price qty b =
     (let p = nat price; drop = min qty (bid_qty b ! p);
          qs = (bid_qty b)[p := s32 (bid_qty b ! p - drop)];
          bits = (if qs ! p = 0 then clear_bit_at (bid_bits b) p else bid_bits b)
      in b\<lparr>bid_qty := qs, bid_bits := bits, best_bid := scan_down bits (best_bid b)\<rparr>)"

definition drop_ask :: "nat \<Rightarrow> int \<Rightarrow> int \<Rightarrow> flat \<Rightarrow> flat" where
  "drop_ask L price qty b =
     (let p = nat price; drop = min qty (ask_qty b ! p);
          qs = (ask_qty b)[p := s32 (ask_qty b ! p - drop)];
          bits = (if qs ! p = 0 then clear_bit_at (ask_bits b) p else ask_bits b)
      in b\<lparr>ask_qty := qs, ask_bits := bits, best_ask := scan_up L bits (best_ask b)\<rparr>)"

definition flat_cancel :: "nat \<Rightarrow> nat \<Rightarrow> flat \<Rightarrow> flat \<times> bool" where
  "flat_cancel L oid b =
     (case map_of (orders_by_id b) oid of
        None \<Rightarrow> (b, False)
      | Some ref \<Rightarrow>
          (let b1 = b\<lparr>orders_by_id := AList.delete oid (orders_by_id b)\<rparr>
           in (if ref_is_buy ref then drop_bid (ref_price ref) (ref_qty ref) b1
               else drop_ask L (ref_price ref) (ref_qty ref) b1, True)))"

definition flat_modify :: "nat \<Rightarrow> nat \<Rightarrow> int \<Rightarrow> int \<Rightarrow> flat \<Rightarrow> flat \<times> bool" where
  "flat_modify L oid new_price new_qty b =
     (case map_of (orders_by_id b) oid of
        None \<Rightarrow> (b, False)
      | Some ref \<Rightarrow> submit_with_id L oid new_price new_qty (ref_is_buy ref) (fst (flat_cancel L oid b)))"

definition tracked_orders :: "flat \<Rightarrow> nat" where
  "tracked_orders b = length (orders_by_id b)"

definition flat_empty :: "nat \<Rightarrow> flat \<Rightarrow> bool" where
  "flat_empty L b \<longleftrightarrow> best_bid b = - 1 \<and> best_ask b = int L"

definition bid_qty_at :: "nat \<Rightarrow> int \<Rightarrow> flat \<Rightarrow> int" where
  "bid_qty_at L p b = (if p < 0 \<or> p \<ge> int L then 0 else bid_qty b ! nat p)"

definition ask_qty_at :: "nat \<Rightarrow> int \<Rightarrow> flat \<Rightarrow> int" where
  "ask_qty_at L p b = (if p < 0 \<or> p \<ge> int L then 0 else ask_qty b ! nat p)"

section \<open>The invariant\<close>

text \<open>One side of the book: the bitmap marks exactly the levels with a positive quantity.\<close>

definition side_ok :: "nat \<Rightarrow> int list \<Rightarrow> 64 word list \<Rightarrow> bool" where
  "side_ok L qs bits \<longleftrightarrow> bitmap_wf L bits \<and> length qs = L
     \<and> (\<forall>p < L. 0 \<le> qs ! p \<and> qs ! p < 2 ^ 31 \<and> (bit_at bits p \<longleftrightarrow> 0 < qs ! p))"

abbreviation top_bid :: "nat \<Rightarrow> int list \<Rightarrow> int" where
  "top_bid L qs \<equiv> hi_occ (\<lambda>p. 0 < qs ! p) (L - 1)"

abbreviation top_ask :: "nat \<Rightarrow> int list \<Rightarrow> int" where
  "top_ask L qs \<equiv> lo_occ (\<lambda>p. 0 < qs ! p) 0 L"

definition flat_core :: "nat \<Rightarrow> flat \<Rightarrow> bool" where
  "flat_core L b \<longleftrightarrow> side_ok L (bid_qty b) (bid_bits b) \<and> side_ok L (ask_qty b) (ask_bits b)
     \<and> best_bid b = top_bid L (bid_qty b) \<and> best_ask b = top_ask L (ask_qty b)"

definition refs_ok :: "nat \<Rightarrow> flat \<Rightarrow> bool" where
  "refs_ok L b \<longleftrightarrow> hm_wf (orders_by_id b)
     \<and> (\<forall>(k, r) \<in> set (orders_by_id b). 0 \<le> ref_price r \<and> ref_price r < int L \<and> 0 < ref_qty r)"

definition flat_inv :: "nat \<Rightarrow> flat \<Rightarrow> bool" where
  "flat_inv L b \<longleftrightarrow> flat_core L b \<and> refs_ok L b \<and> \<not> crossed L b"

lemma hi_occ_cong: "(\<And>p. p \<le> n \<Longrightarrow> f p = g p) \<Longrightarrow> hi_occ f n = hi_occ g n"
  by (induction n) auto

lemma lo_occ_cong: "(\<And>p. n \<le> p \<Longrightarrow> p < n + k \<Longrightarrow> f p = g p) \<Longrightarrow> lo_occ f n k = lo_occ g n k"
  by (induction f n k rule: lo_occ.induct) auto

lemma side_best:
  assumes "side_ok L qs bits"
  shows "bitmap.best_hi L bits = top_bid L qs" "bitmap.best_lo L bits = top_ask L qs"
proof -
  from assms have "0 < L" by (simp add: side_ok_def bitmap_wf_def)
  then show "bitmap.best_hi L bits = top_bid L qs"
    unfolding bitmap.best_hi_def using assms by (intro hi_occ_cong) (auto simp: side_ok_def)
  show "bitmap.best_lo L bits = top_ask L qs"
    unfolding bitmap.best_lo_def using assms by (intro lo_occ_cong) (auto simp: side_ok_def)
qed

lemma side_ok_set:
  assumes "side_ok L qs bits" "p < L" "0 < v" "v < 2 ^ 31"
  shows "side_ok L (qs[p := v]) (if qs ! p = 0 then set_bit_at bits p else bits)"
  using assms bitmap.occ_set [of L bits p] bitmap.wf_set [of L bits p]
  by (auto simp: side_ok_def nth_list_update less_le)

lemma side_ok_reduce:
  assumes "side_ok L qs bits" "p < L" "0 \<le> v" "v < 2 ^ 31" "0 < v \<Longrightarrow> 0 < qs ! p"
  shows "side_ok L (qs[p := v]) (if v = 0 then clear_bit_at bits p else bits)"
  using assms bitmap.occ_clear [of L bits p] bitmap.wf_clear [of L bits p]
  by (auto simp: side_ok_def nth_list_update)


lemma top_bid_set:
  assumes "side_ok L qs bits" "p < L" "0 < v" "v < 2 ^ 31"
  shows "top_bid L (qs[p := v]) = max (top_bid L qs) (int p)"
proof -
  let ?bits = "if qs ! p = 0 then set_bit_at bits p else bits"
  have wf: "bitmap_wf L bits" using assms(1) by (simp add: side_ok_def)
  have "bitmap.best_hi L ?bits = max (bitmap.best_hi L bits) (int p)"
  proof (cases "qs ! p = 0")
    case True
    then show ?thesis using bitmap.best_hi_set [OF wf assms(2)] by simp
  next
    case False
    then have "bit_at bits p" using assms(1,2) by (auto simp: side_ok_def less_le)
    with False show ?thesis using bitmap.best_hi_ge [OF wf assms(2)] by simp
  qed
  then show ?thesis using side_best(1) [OF assms(1)] side_best(1) [OF side_ok_set [OF assms]] by simp
qed

lemma top_ask_set:
  assumes "side_ok L qs bits" "p < L" "0 < v" "v < 2 ^ 31"
  shows "top_ask L (qs[p := v]) = min (top_ask L qs) (int p)"
proof -
  let ?bits = "if qs ! p = 0 then set_bit_at bits p else bits"
  have wf: "bitmap_wf L bits" using assms(1) by (simp add: side_ok_def)
  have "bitmap.best_lo L ?bits = min (bitmap.best_lo L bits) (int p)"
  proof (cases "qs ! p = 0")
    case True
    then show ?thesis using bitmap.best_lo_set [OF wf assms(2)] by simp
  next
    case False
    then have "bit_at bits p" using assms(1,2) by (auto simp: side_ok_def less_le)
    with False show ?thesis using bitmap.best_lo_le [of p L bits] assms(2) by simp
  qed
  then show ?thesis using side_best(2) [OF assms(1)] side_best(2) [OF side_ok_set [OF assms]] by simp
qed

text \<open>A reduced level: searching from the old cursor finds the new best level.\<close>

lemma scan_reduce:
  assumes "side_ok L qs bits" "p < L" "0 \<le> v" "v < 2 ^ 31" "0 < v \<Longrightarrow> 0 < qs ! p"
  defines "bits' \<equiv> if v = 0 then clear_bit_at bits p else bits"
  shows "scan_down bits' (top_bid L qs) = top_bid L (qs[p := v])"
    and "scan_up L bits' (top_ask L qs) = top_ask L (qs[p := v])"
proof -
  have new: "side_ok L (qs[p := v]) bits'" unfolding bits'_def by (rule side_ok_reduce [OF assms(1-5)])
  have wf: "bitmap_wf L bits" "bitmap_wf L bits'" using assms(1) new by (simp_all add: side_ok_def)
  have sub: "bit_at bits q" if "bit_at bits' q" for q
    using that bitmap.occ_clear [OF wf(1) assms(2)] by (auto simp: bits'_def split: if_splits)
  show "scan_down bits' (top_bid L qs) = top_bid L (qs[p := v])"
    using bitmap.down_best [OF wf sub] side_best(1) [OF assms(1)] side_best(1) [OF new] by simp
  show "scan_up L bits' (top_ask L qs) = top_ask L (qs[p := v])"
    using bitmap.up_best [OF wf sub] side_best(2) [OF assms(1)] side_best(2) [OF new] by simp
qed

lemma top_same:
  assumes "0 < v" "0 < qs ! p" "p < length qs"
  shows "top_bid L (qs[p := v]) = top_bid L qs" "top_ask L (qs[p := v]) = top_ask L qs"
proof -
  have "0 < qs[p := v] ! q \<longleftrightarrow> 0 < qs ! q" for q using assms by (cases "q = p") auto
  then show "top_bid L (qs[p := v]) = top_bid L qs" "top_ask L (qs[p := v]) = top_ask L qs" by simp_all
qed

lemma top_bid_level:
  assumes "side_ok L qs bits" "top_bid L qs \<noteq> - 1"
  obtains p where "top_bid L qs = int p" "p < L" "0 < qs ! p"
proof -
  have "0 < L" using assms(1) by (simp add: side_ok_def bitmap_wf_def)
  with assms(2) that show thesis by (cases rule: hi_occ_cases [of "\<lambda>p. 0 < qs ! p" "L - 1"]) auto
qed

lemma top_ask_level:
  assumes "top_ask L qs \<noteq> int L"
  obtains p where "top_ask L qs = int p" "p < L" "0 < qs ! p"
  using assms that by (cases rule: lo_occ_cases [of "\<lambda>p. 0 < qs ! p" 0 L]) auto

lemma top_bid_drop:
  assumes "side_ok L qs bits" "top_bid L qs = int p" "p < L"
  shows "top_bid L (qs[p := 0]) < int p"
proof -
  have len: "length qs = L" "0 < L" using assms(1) by (simp_all add: side_ok_def bitmap_wf_def)
  show ?thesis
  proof (cases rule: hi_occ_cases [of "\<lambda>q. 0 < qs[p := 0] ! q" "L - 1"])
    case none
    then show ?thesis by simp
  next
    case (some r)
    then have r: "r \<noteq> p" "0 < qs ! r" "r \<le> L - 1" using assms(3) len by (auto simp: nth_list_update split: if_splits)
    then have "int r \<le> top_bid L qs"
      by (cases rule: hi_occ_cases [of "\<lambda>q. 0 < qs ! q" "L - 1"]) (auto simp: not_le [symmetric])
    with r some assms(2) show ?thesis by simp
  qed
qed

lemma top_ask_drop:
  assumes "side_ok L qs bits" "top_ask L qs = int p" "p < L"
  shows "int p < top_ask L (qs[p := 0])"
proof -
  have len: "length qs = L" using assms(1) by (simp add: side_ok_def)
  show ?thesis
  proof (cases rule: lo_occ_cases [of "\<lambda>q. 0 < qs[p := 0] ! q" 0 L])
    case none
    then show ?thesis using assms(3) by simp
  next
    case (some r)
    then have r: "r \<noteq> p" "0 < qs ! r" "r < L" using assms(3) len by (auto simp: nth_list_update split: if_splits)
    then have "top_ask L qs \<le> int r"
      by (cases rule: lo_occ_cases [of "\<lambda>q. 0 < qs ! q" 0 L]) (auto simp: not_le [symmetric])
    with r some assms(2) show ?thesis by simp
  qed
qed

section \<open>Matching\<close>

text \<open>A pass of the loop, side by side: the quantities, the levels and the trade counter.\<close>

lemma match_step_core:
  assumes core: "flat_core L b" and cr: "crossed L b"
  obtains bb ba fill where "best_bid b = int bb" "best_ask b = int ba" "bb < L" "ba < L"
    "fill = min (bid_qty b ! bb) (ask_qty b ! ba)" "0 < fill"
    "bid_qty (match_step L b) = (bid_qty b)[bb := bid_qty b ! bb - fill]"
    "ask_qty (match_step L b) = (ask_qty b)[ba := ask_qty b ! ba - fill]"
    "trades (match_step L b) = u64 (trades b + 1)"
    "orders_by_id (match_step L b) = orders_by_id b"
    "flat_core L (match_step L b)"
proof -
  have ok: "side_ok L (bid_qty b) (bid_bits b)" "side_ok L (ask_qty b) (ask_bits b)"
    and best: "best_bid b = top_bid L (bid_qty b)" "best_ask b = top_ask L (ask_qty b)"
    using core by (simp_all add: flat_core_def)
  obtain bb where bb: "top_bid L (bid_qty b) = int bb" "bb < L" "0 < bid_qty b ! bb"
    using top_bid_level [OF ok(1)] cr best by (auto simp: crossed_def)
  obtain ba where ba: "top_ask L (ask_qty b) = int ba" "ba < L" "0 < ask_qty b ! ba"
    using top_ask_level [of "ask_qty b" L] cr best by (auto simp: crossed_def)
  define fill where "fill = min (bid_qty b ! bb) (ask_qty b ! ba)"
  let ?vb = "bid_qty b ! bb - fill" and ?va = "ask_qty b ! ba - fill"
  have len: "length (bid_qty b) = L" "length (ask_qty b) = L" "0 < L"
    using ok by (simp_all add: side_ok_def bitmap_wf_def)
  have small: "bid_qty b ! bb < 2 ^ 31" "ask_qty b ! ba < 2 ^ 31"
    using ok bb(2) ba(2) by (auto simp: side_ok_def)
  have v: "0 \<le> ?vb" "?vb < 2 ^ 31" "0 \<le> ?va" "?va < 2 ^ 31" "0 < fill"
    using bb ba small by (auto simp: fill_def)
  have s: "s32 ?vb = ?vb" "s32 ?va = ?va" using v by (auto intro!: s32_id)
  have tf: "take_fill b = b\<lparr>bid_qty := (bid_qty b)[bb := ?vb], ask_qty := (ask_qty b)[ba := ?va],
      trades := u64 (trades b + 1)\<rparr>"
    using best bb ba s by (simp add: take_fill_def Let_def fill_def)
  let ?bits = "if ?vb = 0 then clear_bit_at (bid_bits b) bb else bid_bits b"
  let ?abits = "if ?va = 0 then clear_bit_at (ask_bits b) ba else ask_bits b"
  have nb: "side_ok L ((bid_qty b)[bb := ?vb]) ?bits" "scan_down ?bits (int bb) = top_bid L ((bid_qty b)[bb := ?vb])"
    using side_ok_reduce [OF ok(1) bb(2) v(1,2)] scan_reduce(1) [OF ok(1) bb(2) v(1,2)] bb by auto
  have na: "side_ok L ((ask_qty b)[ba := ?va]) ?abits" "scan_up L ?abits (int ba) = top_ask L ((ask_qty b)[ba := ?va])"
    using side_ok_reduce [OF ok(2) ba(2) v(3,4)] scan_reduce(2) [OF ok(2) ba(2) v(3,4)] ba by auto
  have tb: "top_bid L ((bid_qty b)[bb := ?vb]) = int bb" if "?vb \<noteq> 0"
    using top_same(1) [of ?vb "bid_qty b" bb L] that v(1) bb len by simp
  have ta: "top_ask L ((ask_qty b)[ba := ?va]) = int ba" if "?va \<noteq> 0"
    using top_same(2) [of ?va "ask_qty b" ba L] that v(3) ba len by simp
  have ab: "advance_bid (take_fill b) = b\<lparr>bid_qty := (bid_qty b)[bb := ?vb], ask_qty := (ask_qty b)[ba := ?va],
      trades := u64 (trades b + 1), bid_bits := ?bits, best_bid := top_bid L ((bid_qty b)[bb := ?vb])\<rparr>"
    using nb(2) tb best bb len by (auto simp: advance_bid_def tf Let_def)
  have ms: "match_step L b = b\<lparr>bid_qty := (bid_qty b)[bb := ?vb], ask_qty := (ask_qty b)[ba := ?va],
      trades := u64 (trades b + 1), bid_bits := ?bits, best_bid := top_bid L ((bid_qty b)[bb := ?vb]),
      ask_bits := ?abits, best_ask := top_ask L ((ask_qty b)[ba := ?va])\<rparr>"
    using na(2) ta best ba len by (auto simp: match_step_def advance_ask_def ab Let_def)
  show thesis
    by (rule that [OF _ _ bb(2) ba(2) fill_def v(5)]) (use best bb ba nb(1) na(1) in \<open>simp_all add: ms flat_core_def\<close>)
qed

text \<open>How many passes the loop can still make.\<close>

definition passes :: "nat \<Rightarrow> flat \<Rightarrow> nat" where
  "passes L b = nat (best_bid b + 1) + nat (int L - best_ask b)"

lemma match_step_passes:
  assumes core: "flat_core L b" and cr: "crossed L b"
  shows "passes L (match_step L b) < passes L b"
proof -
  have ok: "side_ok L (bid_qty b) (bid_bits b)" "side_ok L (ask_qty b) (ask_bits b)"
    and best: "best_bid b = top_bid L (bid_qty b)" "best_ask b = top_ask L (ask_qty b)"
    using core by (simp_all add: flat_core_def)
  obtain bb ba fill where M: "best_bid b = int bb" "best_ask b = int ba" "bb < L" "ba < L"
    "fill = min (bid_qty b ! bb) (ask_qty b ! ba)" "0 < fill"
    "bid_qty (match_step L b) = (bid_qty b)[bb := bid_qty b ! bb - fill]"
    "ask_qty (match_step L b) = (ask_qty b)[ba := ask_qty b ! ba - fill]"
    "flat_core L (match_step L b)"
    by (rule match_step_core [OF assms])
  have len: "length (bid_qty b) = L" "length (ask_qty b) = L" using ok by (simp_all add: side_ok_def)
  have nb: "best_bid (match_step L b) = top_bid L ((bid_qty b)[bb := bid_qty b ! bb - fill])"
    and na: "best_ask (match_step L b) = top_ask L ((ask_qty b)[ba := ask_qty b ! ba - fill])"
    using M(7-9) by (simp_all add: flat_core_def)
  have bid: "best_bid (match_step L b) \<le> int bb \<and> (fill = bid_qty b ! bb \<longrightarrow> best_bid (match_step L b) < int bb)"
    using top_bid_drop [OF ok(1), of bb] top_same(1) [of "bid_qty b ! bb - fill" "bid_qty b" bb L] M best len nb
    by (cases "fill = bid_qty b ! bb") auto
  have ask: "int ba \<le> best_ask (match_step L b) \<and> (fill = ask_qty b ! ba \<longrightarrow> int ba < best_ask (match_step L b))"
    using top_ask_drop [OF ok(2), of ba] top_same(2) [of "ask_qty b ! ba - fill" "ask_qty b" ba L] M best len na
    by (cases "fill = ask_qty b ! ba") auto
  have "fill = bid_qty b ! bb \<or> fill = ask_qty b ! ba" using M(5) by (auto simp: min_def)
  then show ?thesis using bid ask M(1-4) by (auto simp: passes_def)
qed

lemma match_loop_done:
  "flat_core L b \<Longrightarrow> passes L b \<le> fuel \<Longrightarrow>
     flat_core L (match_loop fuel L b) \<and> \<not> crossed L (match_loop fuel L b)
     \<and> orders_by_id (match_loop fuel L b) = orders_by_id b"
proof (induction fuel arbitrary: b)
  case 0
  then have "\<not> crossed L b" using match_step_passes by fastforce
  with 0 show ?case by simp
next
  case (Suc fuel)
  show ?case
  proof (cases "crossed L b")
    case True
    have step: "flat_core L (match_step L b)" "orders_by_id (match_step L b) = orders_by_id b"
      by (rule match_step_core [OF Suc.prems(1) True], simp)+
    moreover have "passes L (match_step L b) \<le> fuel"
      using match_step_passes [OF Suc.prems(1) True] Suc.prems(2) by simp
    ultimately show ?thesis using Suc.IH [of "match_step L b"] True by simp
  next
    case False
    with Suc show ?thesis by simp
  qed
qed

lemma passes_bound:
  assumes "flat_core L b"
  shows "passes L b \<le> 2 * L"
proof -
  have "best_bid b < int L"
  proof (cases rule: hi_occ_cases [of "\<lambda>p. 0 < bid_qty b ! p" "L - 1"])
    case (some p)
    have "0 < L" using assms by (simp add: flat_core_def side_ok_def bitmap_wf_def)
    with some show ?thesis using assms by (simp add: flat_core_def)
  qed (use assms in \<open>simp add: flat_core_def\<close>)
  moreover have "0 \<le> best_ask b"
    using assms by (cases rule: lo_occ_cases [of "\<lambda>p. 0 < ask_qty b ! p" 0 L]) (auto simp: flat_core_def)
  ultimately show ?thesis by (simp add: passes_def)
qed

lemma try_match_done:
  assumes "flat_core L b"
  shows "flat_core L (try_match L b)" "\<not> crossed L (try_match L b)"
    "orders_by_id (try_match L b) = orders_by_id b"
  using match_loop_done [OF assms passes_bound [OF assms]] by (simp_all add: try_match_def)

text \<open>More fuel than passes changes nothing.\<close>

lemma match_loop_enough:
  "flat_core L b \<Longrightarrow> passes L b \<le> fuel \<Longrightarrow> match_loop (fuel + k) L b = match_loop fuel L b"
proof (induction fuel arbitrary: b)
  case 0
  then have "\<not> crossed L b" using match_step_passes by fastforce
  then show ?case by (cases k) simp_all
next
  case (Suc fuel)
  show ?case
  proof (cases "crossed L b")
    case True
    have "flat_core L (match_step L b)" by (rule match_step_core [OF Suc.prems(1) True])
    moreover have "passes L (match_step L b) \<le> fuel"
      using match_step_passes [OF Suc.prems(1) True] Suc.prems(2) by simp
    ultimately show ?thesis using Suc.IH True by simp
  qed simp
qed

text \<open>A fill takes the same quantity from both sides.\<close>

definition book_net :: "flat \<Rightarrow> int" where
  "book_net b = sum_list (bid_qty b) - sum_list (ask_qty b)"

lemma sum_list_upd: "i < length xs \<Longrightarrow> sum_list (xs[i := v]) = sum_list xs - xs ! i + v" for xs :: "int list"
  using sum_list_map_upd [of i xs "\<lambda>x. x" v] by simp

lemma match_loop_net:
  "flat_core L b \<Longrightarrow> book_net (match_loop fuel L b) = book_net b
     \<and> sum_list (bid_qty (match_loop fuel L b)) \<le> sum_list (bid_qty b)"
proof (induction fuel arbitrary: b)
  case (Suc fuel)
  show ?case
  proof (cases "crossed L b")
    case True
    obtain bb ba fill where M: "bb < L" "ba < L" "0 < fill"
      "bid_qty (match_step L b) = (bid_qty b)[bb := bid_qty b ! bb - fill]"
      "ask_qty (match_step L b) = (ask_qty b)[ba := ask_qty b ! ba - fill]"
      "flat_core L (match_step L b)"
      by (rule match_step_core [OF Suc.prems True])
    have "length (bid_qty b) = L" "length (ask_qty b) = L"
      using Suc.prems by (simp_all add: flat_core_def side_ok_def)
    then have "book_net (match_step L b) = book_net b"
      "sum_list (bid_qty (match_step L b)) \<le> sum_list (bid_qty b)"
      using M by (simp_all add: book_net_def sum_list_upd)
    then show ?thesis using Suc.IH [OF M(6)] True by simp
  qed simp
qed simp

section \<open>Resting and cancelling\<close>

lemma sum_list_ge_nth:
  fixes xs :: "int list"
  shows "i < length xs \<Longrightarrow> (\<And>j. j < length xs \<Longrightarrow> 0 \<le> xs ! j) \<Longrightarrow> xs ! i \<le> sum_list xs"
proof (induction xs arbitrary: i)
  case (Cons x xs)
  have nn: "0 \<le> x" "\<And>j. j < length xs \<Longrightarrow> 0 \<le> xs ! j"
    using Cons.prems(2) [of 0] Cons.prems(2) [of "Suc j" for j] by auto
  have "0 \<le> sum_list xs" by (rule sum_list_nonneg) (use nn(2) in \<open>auto simp: in_set_conv_nth\<close>)
  with Cons.prems(1) Cons.IH [OF _ nn(2)] nn(1) show ?case by (cases i) fastforce+
qed simp

lemma rest_buy_core:
  assumes core: "flat_core L b" and p: "0 \<le> price" "price < int L" and q: "0 < qty"
    and small: "bid_qty b ! nat price + qty < 2 ^ 31"
  shows "flat_core L (rest_buy price qty b)"
    "bid_qty (rest_buy price qty b) = (bid_qty b)[nat price := bid_qty b ! nat price + qty]"
proof -
  let ?p = "nat price"
  have ok: "side_ok L (bid_qty b) (bid_bits b)" and best: "best_bid b = top_bid L (bid_qty b)"
    using core by (simp_all add: flat_core_def)
  have pL: "?p < L" using p by simp
  then have nn: "0 \<le> bid_qty b ! ?p" using ok by (simp add: side_ok_def)
  then have v: "0 < bid_qty b ! ?p + qty" "s32 (bid_qty b ! ?p + qty) = bid_qty b ! ?p + qty"
    using q small by (auto intro: s32_id)
  show "bid_qty (rest_buy price qty b) = (bid_qty b)[?p := bid_qty b ! ?p + qty]"
    using v by (simp add: rest_buy_def Let_def)
  show "flat_core L (rest_buy price qty b)"
    using core v side_ok_set [OF ok pL v(1) small] top_bid_set [OF ok pL v(1) small] best p
    by (auto simp: flat_core_def rest_buy_def Let_def)
qed

lemma rest_sell_core:
  assumes core: "flat_core L b" and p: "0 \<le> price" "price < int L" and q: "0 < qty"
    and small: "ask_qty b ! nat price + qty < 2 ^ 31"
  shows "flat_core L (rest_sell price qty b)"
    "ask_qty (rest_sell price qty b) = (ask_qty b)[nat price := ask_qty b ! nat price + qty]"
proof -
  let ?p = "nat price"
  have ok: "side_ok L (ask_qty b) (ask_bits b)" and best: "best_ask b = top_ask L (ask_qty b)"
    using core by (simp_all add: flat_core_def)
  have pL: "?p < L" using p by simp
  then have nn: "0 \<le> ask_qty b ! ?p" using ok by (simp add: side_ok_def)
  then have v: "0 < ask_qty b ! ?p + qty" "s32 (ask_qty b ! ?p + qty) = ask_qty b ! ?p + qty"
    using q small by (auto intro: s32_id)
  show "ask_qty (rest_sell price qty b) = (ask_qty b)[?p := ask_qty b ! ?p + qty]"
    using v by (simp add: rest_sell_def Let_def)
  show "flat_core L (rest_sell price qty b)"
    using core v side_ok_set [OF ok pL v(1) small] top_ask_set [OF ok pL v(1) small] best p
    by (auto simp: flat_core_def rest_sell_def Let_def)
qed

lemma rest_frame [simp]:
  "ask_qty (rest_buy price qty b) = ask_qty b" "bid_qty (rest_sell price qty b) = bid_qty b"
  "orders_by_id (rest_buy price qty b) = orders_by_id b" "orders_by_id (rest_sell price qty b) = orders_by_id b"
  "trades (rest_buy price qty b) = trades b" "trades (rest_sell price qty b) = trades b"
  by (simp_all add: rest_buy_def rest_sell_def Let_def)

text \<open>A level that shrinks cannot raise the best bid or lower the best ask.\<close>

lemma top_bid_mono:
  assumes "\<And>p. p < L \<Longrightarrow> 0 < qs' ! p \<Longrightarrow> 0 < qs ! p" "0 < L"
  shows "top_bid L qs' \<le> top_bid L qs"
proof (cases rule: hi_occ_cases [of "\<lambda>q. 0 < qs' ! q" "L - 1"])
  case none
  then show ?thesis by (cases rule: hi_occ_cases [of "\<lambda>q. 0 < qs ! q" "L - 1"]) auto
next
  case (some r)
  then have "0 < qs ! r" using assms by simp
  with some show ?thesis
    by (cases rule: hi_occ_cases [of "\<lambda>q. 0 < qs ! q" "L - 1"]) (auto simp: not_le [symmetric])
qed

lemma top_ask_mono:
  assumes "\<And>p. p < L \<Longrightarrow> 0 < qs' ! p \<Longrightarrow> 0 < qs ! p"
  shows "top_ask L qs \<le> top_ask L qs'"
proof (cases rule: lo_occ_cases [of "\<lambda>q. 0 < qs' ! q" 0 L])
  case none
  then show ?thesis by (cases rule: lo_occ_cases [of "\<lambda>q. 0 < qs ! q" 0 L]) auto
next
  case (some r)
  then have "0 < qs ! r" using assms by simp
  with some show ?thesis
    by (cases rule: lo_occ_cases [of "\<lambda>q. 0 < qs ! q" 0 L]) (auto simp: not_le [symmetric])
qed

lemma drop_bid_core:
  assumes core: "flat_core L b" and p: "0 \<le> price" "price < int L" and q: "0 < qty"
  shows "flat_core L (drop_bid price qty b)"
    "bid_qty (drop_bid price qty b) = (bid_qty b)[nat price := bid_qty b ! nat price - min qty (bid_qty b ! nat price)]"
    "best_bid (drop_bid price qty b) \<le> best_bid b"
proof -
  let ?p = "nat price" let ?v = "bid_qty b ! ?p - min qty (bid_qty b ! ?p)"
  have ok: "side_ok L (bid_qty b) (bid_bits b)" and best: "best_bid b = top_bid L (bid_qty b)"
    using core by (simp_all add: flat_core_def)
  have pL: "?p < L" using p by simp
  then have r: "0 \<le> bid_qty b ! ?p" "bid_qty b ! ?p < 2 ^ 31" "length (bid_qty b) = L" "0 < L"
    using ok by (simp_all add: side_ok_def)
  have v: "0 \<le> ?v" "?v < 2 ^ 31" "0 < ?v \<Longrightarrow> 0 < bid_qty b ! ?p" using r q by auto
  then have s: "s32 ?v = ?v" by (simp add: s32_id)
  let ?bits = "if ?v = 0 then clear_bit_at (bid_bits b) ?p else bid_bits b"
  have db: "drop_bid price qty b = b\<lparr>bid_qty := (bid_qty b)[?p := ?v], bid_bits := ?bits,
      best_bid := top_bid L ((bid_qty b)[?p := ?v])\<rparr>"
    unfolding drop_bid_def Let_def s
    by (simp only: nth_list_update_eq r(3) pL best scan_reduce(1) [OF ok pL v])
  show eq: "bid_qty (drop_bid price qty b) = (bid_qty b)[?p := ?v]"
    using s by (simp add: drop_bid_def Let_def)
  show new: "flat_core L (drop_bid price qty b)"
    using core side_ok_reduce [OF ok pL v] unfolding flat_core_def db by simp
  have "top_bid L ((bid_qty b)[?p := ?v]) \<le> top_bid L (bid_qty b)"
    by (rule top_bid_mono) (use v(3) pL r in \<open>auto simp: nth_list_update split: if_splits\<close>)
  then show "best_bid (drop_bid price qty b) \<le> best_bid b"
    using new best eq by (simp add: flat_core_def)
qed

lemma drop_ask_core:
  assumes core: "flat_core L b" and p: "0 \<le> price" "price < int L" and q: "0 < qty"
  shows "flat_core L (drop_ask L price qty b)"
    "ask_qty (drop_ask L price qty b) = (ask_qty b)[nat price := ask_qty b ! nat price - min qty (ask_qty b ! nat price)]"
    "best_ask b \<le> best_ask (drop_ask L price qty b)"
proof -
  let ?p = "nat price" let ?v = "ask_qty b ! ?p - min qty (ask_qty b ! ?p)"
  have ok: "side_ok L (ask_qty b) (ask_bits b)" and best: "best_ask b = top_ask L (ask_qty b)"
    using core by (simp_all add: flat_core_def)
  have pL: "?p < L" using p by simp
  then have r: "0 \<le> ask_qty b ! ?p" "ask_qty b ! ?p < 2 ^ 31" "length (ask_qty b) = L"
    using ok by (simp_all add: side_ok_def)
  have v: "0 \<le> ?v" "?v < 2 ^ 31" "0 < ?v \<Longrightarrow> 0 < ask_qty b ! ?p" using r q by auto
  then have s: "s32 ?v = ?v" by (simp add: s32_id)
  let ?bits = "if ?v = 0 then clear_bit_at (ask_bits b) ?p else ask_bits b"
  have db: "drop_ask L price qty b = b\<lparr>ask_qty := (ask_qty b)[?p := ?v], ask_bits := ?bits,
      best_ask := top_ask L ((ask_qty b)[?p := ?v])\<rparr>"
    unfolding drop_ask_def Let_def s
    by (simp only: nth_list_update_eq r(3) pL best scan_reduce(2) [OF ok pL v])
  show eq: "ask_qty (drop_ask L price qty b) = (ask_qty b)[?p := ?v]"
    using s by (simp add: drop_ask_def Let_def)
  show new: "flat_core L (drop_ask L price qty b)"
    using core side_ok_reduce [OF ok pL v] unfolding flat_core_def db by simp
  have "top_ask L (ask_qty b) \<le> top_ask L ((ask_qty b)[?p := ?v])"
    by (rule top_ask_mono) (use v(3) pL r in \<open>auto simp: nth_list_update split: if_splits\<close>)
  then show "best_ask b \<le> best_ask (drop_ask L price qty b)"
    using new best eq by (simp add: flat_core_def)
qed

lemma drop_frame [simp]:
  "ask_qty (drop_bid price qty b) = ask_qty b" "best_ask (drop_bid price qty b) = best_ask b"
  "bid_qty (drop_ask L price qty b) = bid_qty b" "best_bid (drop_ask L price qty b) = best_bid b"
  "orders_by_id (drop_bid price qty b) = orders_by_id b" "orders_by_id (drop_ask L price qty b) = orders_by_id b"
  "trades (drop_bid price qty b) = trades b" "trades (drop_ask L price qty b) = trades b"
  by (simp_all add: drop_bid_def drop_ask_def Let_def)

section \<open>The reference book\<close>

text \<open>
  The book a trader has in mind: a quantity per level and side, the identifiers, and nothing else.
  Its best levels are found by looking at every level.
\<close>

record ref_book =
  rb_bids :: "int list"
  rb_asks :: "int list"
  rb_trades :: int
  rb_orders :: "(nat, order_ref) hmap"

definition flat_abs :: "flat \<Rightarrow> ref_book" where
  "flat_abs b = \<lparr>rb_bids = bid_qty b, rb_asks = ask_qty b, rb_trades = trades b, rb_orders = orders_by_id b\<rparr>"

definition rb_crossed :: "nat \<Rightarrow> ref_book \<Rightarrow> bool" where
  "rb_crossed L r \<longleftrightarrow> top_bid L (rb_bids r) \<noteq> - 1 \<and> top_ask L (rb_asks r) \<noteq> int L
     \<and> top_ask L (rb_asks r) \<le> top_bid L (rb_bids r)"

definition rb_fill :: "nat \<Rightarrow> ref_book \<Rightarrow> ref_book" where
  "rb_fill L r =
     (let bb = nat (top_bid L (rb_bids r)); ba = nat (top_ask L (rb_asks r));
          fill = min (rb_bids r ! bb) (rb_asks r ! ba)
      in r\<lparr>rb_bids := (rb_bids r)[bb := rb_bids r ! bb - fill],
           rb_asks := (rb_asks r)[ba := rb_asks r ! ba - fill], rb_trades := u64 (rb_trades r + 1)\<rparr>)"

fun rb_match :: "nat \<Rightarrow> nat \<Rightarrow> ref_book \<Rightarrow> ref_book" where
  "rb_match 0 L r = r"
| "rb_match (Suc n) L r = (if rb_crossed L r then rb_match n L (rb_fill L r) else r)"

definition rb_add :: "nat \<Rightarrow> int \<Rightarrow> int \<Rightarrow> bool \<Rightarrow> ref_book \<Rightarrow> ref_book" where
  "rb_add L price qty is_buy r = rb_match (2 * L) L
     (if is_buy then r\<lparr>rb_bids := (rb_bids r)[nat price := rb_bids r ! nat price + qty]\<rparr>
      else r\<lparr>rb_asks := (rb_asks r)[nat price := rb_asks r ! nat price + qty]\<rparr>)"

definition rb_submit :: "nat \<Rightarrow> nat \<Rightarrow> int \<Rightarrow> int \<Rightarrow> bool \<Rightarrow> ref_book \<Rightarrow> ref_book \<times> bool" where
  "rb_submit L oid price qty is_buy r =
     (if bad_order L price qty \<or> map_of (rb_orders r) oid \<noteq> None then (r, False)
      else (rb_add L price qty is_buy (r\<lparr>rb_orders := AList.update oid
              \<lparr>ref_price = price, ref_qty = qty, ref_is_buy = is_buy\<rparr> (rb_orders r)\<rparr>), True))"

definition rb_cancel :: "nat \<Rightarrow> ref_book \<Rightarrow> ref_book \<times> bool" where
  "rb_cancel oid r =
     (case map_of (rb_orders r) oid of
        None \<Rightarrow> (r, False)
      | Some ref \<Rightarrow>
          (let p = nat (ref_price ref); left = (\<lambda>q. q - min (ref_qty ref) q);
               r1 = r\<lparr>rb_orders := AList.delete oid (rb_orders r)\<rparr>
           in (if ref_is_buy ref then r1\<lparr>rb_bids := (rb_bids r)[p := left (rb_bids r ! p)]\<rparr>
               else r1\<lparr>rb_asks := (rb_asks r)[p := left (rb_asks r ! p)]\<rparr>, True)))"

section \<open>Operation sequences\<close>

datatype flat_op = AddBuy int int | AddSell int int | Submit nat int int bool
  | Cancel nat | Modify nat int int

primrec flat_exec :: "nat \<Rightarrow> flat_op \<Rightarrow> flat \<Rightarrow> flat \<times> bool" where
  "flat_exec L (AddBuy p q) b = add_buy L p q b"
| "flat_exec L (AddSell p q) b = add_sell L p q b"
| "flat_exec L (Submit k p q s) b = submit_with_id L k p q s b"
| "flat_exec L (Cancel k) b = flat_cancel L k b"
| "flat_exec L (Modify k p q) b = flat_modify L k p q b"

primrec rb_exec :: "nat \<Rightarrow> flat_op \<Rightarrow> ref_book \<Rightarrow> ref_book \<times> bool" where
  "rb_exec L (AddBuy p q) r = (if bad_order L p q then (r, False) else (rb_add L p q True r, True))"
| "rb_exec L (AddSell p q) r = (if bad_order L p q then (r, False) else (rb_add L p q False r, True))"
| "rb_exec L (Submit k p q s) r = rb_submit L k p q s r"
| "rb_exec L (Cancel k) r = rb_cancel k r"
| "rb_exec L (Modify k p q) r =
     (case map_of (rb_orders r) k of
        None \<Rightarrow> (r, False)
      | Some ref \<Rightarrow> rb_submit L k p q (ref_is_buy ref) (fst (rb_cancel k r)))"

fun op_run :: "('op \<Rightarrow> 's \<Rightarrow> 's \<times> bool) \<Rightarrow> 'op list \<Rightarrow> 's \<Rightarrow> 's \<times> bool list" where
  "op_run f [] s = (s, [])"
| "op_run f (x # xs) s = (let (s1, ok) = f x s; (s2, oks) = op_run f xs s1 in (s2, ok # oks))"

primrec op_qty :: "flat_op \<Rightarrow> int" where
  "op_qty (AddBuy p q) = max 0 q"
| "op_qty (AddSell p q) = max 0 q"
| "op_qty (Submit k p q s) = max 0 q"
| "op_qty (Cancel k) = 0"
| "op_qty (Modify k p q) = max 0 q"

text \<open>The quantity resting on both sides together.\<close>

definition resting :: "flat \<Rightarrow> int" where
  "resting b = sum_list (bid_qty b) + sum_list (ask_qty b)"

lemma op_qty_nonneg: "0 \<le> op_qty x"
  by (cases x) auto

lemma level_le_resting:
  assumes "flat_core L b" "p < L"
  shows "bid_qty b ! p \<le> resting b" "ask_qty b ! p \<le> resting b"
proof -
  have nn: "\<And>j. j < length (bid_qty b) \<Longrightarrow> 0 \<le> bid_qty b ! j" "\<And>j. j < length (ask_qty b) \<Longrightarrow> 0 \<le> ask_qty b ! j"
    and len: "length (bid_qty b) = L" "length (ask_qty b) = L"
    using assms by (auto simp: flat_core_def side_ok_def)
  have "0 \<le> sum_list (bid_qty b)" "0 \<le> sum_list (ask_qty b)"
    using nn by (auto intro!: sum_list_nonneg simp: in_set_conv_nth)
  then show "bid_qty b ! p \<le> resting b" "ask_qty b ! p \<le> resting b"
    using sum_list_ge_nth [of p "bid_qty b"] sum_list_ge_nth [of p "ask_qty b"] nn assms(2) len
    by (auto simp: resting_def)
qed

lemma match_loop_abs:
  "flat_core L b \<Longrightarrow> flat_abs (match_loop n L b) = rb_match n L (flat_abs b)"
proof (induction n arbitrary: b)
  case (Suc n)
  have cr: "rb_crossed L (flat_abs b) \<longleftrightarrow> crossed L b"
    using Suc.prems by (simp add: rb_crossed_def crossed_def flat_abs_def flat_core_def)
  show ?case
  proof (cases "crossed L b")
    case True
    obtain bb ba fill where M: "best_bid b = int bb" "best_ask b = int ba"
      "fill = min (bid_qty b ! bb) (ask_qty b ! ba)"
      "bid_qty (match_step L b) = (bid_qty b)[bb := bid_qty b ! bb - fill]"
      "ask_qty (match_step L b) = (ask_qty b)[ba := ask_qty b ! ba - fill]"
      "trades (match_step L b) = u64 (trades b + 1)"
      "orders_by_id (match_step L b) = orders_by_id b" "flat_core L (match_step L b)"
      by (rule match_step_core [OF Suc.prems True])
    have best: "top_bid L (bid_qty b) = int bb" "top_ask L (ask_qty b) = int ba"
      using M(1,2) Suc.prems by (simp_all add: flat_core_def)
    have "flat_abs (match_step L b) = rb_fill L (flat_abs b)"
      unfolding flat_abs_def rb_fill_def Let_def ref_book.simps best M(4-7) by (simp add: M(3))
    then show ?thesis using Suc.IH [OF M(8)] True cr by simp
  qed (use cr in simp)
qed simp

text \<open>An accepted order, on either side: the three entry points share this.\<close>

abbreviation rest_order :: "bool \<Rightarrow> int \<Rightarrow> int \<Rightarrow> flat \<Rightarrow> flat" where
  "rest_order is_buy price qty b \<equiv> if is_buy then rest_buy price qty b else rest_sell price qty b"

lemma rest_order_core:
  assumes core: "flat_core L b" and ok: "\<not> bad_order L price qty" and small: "resting b + qty < 2 ^ 31"
  shows "flat_core L (rest_order is_buy price qty b)"
    "flat_abs (try_match L (rest_order is_buy price qty b)) = rb_add L price qty is_buy (flat_abs b)"
    "resting (rest_order is_buy price qty b) = resting b + qty"
    "book_net (rest_order is_buy price qty b) = book_net b + (if is_buy then qty else - qty)"
proof -
  have p: "0 \<le> price" "price < int L" "0 < qty" using ok by (auto simp: bad_order_def)
  have len: "length (bid_qty b) = L" "length (ask_qty b) = L"
    using core by (simp_all add: flat_core_def side_ok_def)
  have lev: "bid_qty b ! nat price + qty < 2 ^ 31" "ask_qty b ! nat price + qty < 2 ^ 31"
    using level_le_resting [OF core, of "nat price"] p small by (simp_all add: nat_less_iff)
  note B = rest_buy_core [OF core p lev(1)] and S = rest_sell_core [OF core p lev(2)]
  show c: "flat_core L (rest_order is_buy price qty b)" using B(1) S(1) by simp
  have "flat_abs (rest_order is_buy price qty b) =
      (if is_buy then (flat_abs b)\<lparr>rb_bids := (bid_qty b)[nat price := bid_qty b ! nat price + qty]\<rparr>
       else (flat_abs b)\<lparr>rb_asks := (ask_qty b)[nat price := ask_qty b ! nat price + qty]\<rparr>)"
    using B(2) S(2) by (simp add: flat_abs_def)
  then show "flat_abs (try_match L (rest_order is_buy price qty b)) = rb_add L price qty is_buy (flat_abs b)"
    unfolding try_match_def match_loop_abs [OF c] rb_add_def by (simp add: flat_abs_def)
  show "resting (rest_order is_buy price qty b) = resting b + qty"
    "book_net (rest_order is_buy price qty b) = book_net b + (if is_buy then qty else - qty)"
    using B(2) S(2) p len by (simp_all add: resting_def book_net_def sum_list_upd)
qed

lemma match_resting:
  assumes "flat_core L b"
  shows "resting (try_match L b) \<le> resting b" "book_net (try_match L b) = book_net b"
  using match_loop_net [OF assms, of "2 * L"] by (auto simp: try_match_def resting_def book_net_def)

lemma place_order:
  fixes is_buy :: bool
  assumes inv: "flat_core L b" "refs_ok L b" and ok: "\<not> bad_order L price qty" and small: "resting b + qty < 2 ^ 31"
  defines "b' \<equiv> try_match L (rest_order is_buy price qty b)"
  shows "flat_inv L b'" "resting b' \<le> resting b + qty"
    "flat_abs b' = rb_add L price qty is_buy (flat_abs b)"
    "book_net b' = book_net b + (if is_buy then qty else - qty)"
proof -
  note R = rest_order_core [OF inv(1) ok small, of is_buy]
  have "orders_by_id b' = orders_by_id b"
    unfolding b'_def using try_match_done(3) [OF R(1)] by simp
  then show "flat_inv L b'"
    using try_match_done(1,2) [OF R(1)] inv(2) by (simp add: flat_inv_def b'_def refs_ok_def)
  show "resting b' \<le> resting b + qty" "flat_abs b' = rb_add L price qty is_buy (flat_abs b)"
    "book_net b' = book_net b + (if is_buy then qty else - qty)"
    unfolding b'_def using match_resting [OF R(1)] R(2-4) by simp_all
qed

lemma add_order_step:
  fixes is_buy :: bool and price :: int
  assumes "flat_inv L b" "resting b + max 0 qty < 2 ^ 31"
  defines "r \<equiv> (if is_buy then add_buy L price qty b else add_sell L price qty b)"
  shows "flat_inv L (fst r)" "resting (fst r) \<le> resting b + max 0 qty"
    "(flat_abs (fst r), snd r) =
       (if bad_order L price qty then (flat_abs b, False) else (rb_add L price qty is_buy (flat_abs b), True))"
proof -
  have "flat_inv L (fst r) \<and> resting (fst r) \<le> resting b + max 0 qty
    \<and> (flat_abs (fst r), snd r) =
       (if bad_order L price qty then (flat_abs b, False) else (rb_add L price qty is_buy (flat_abs b), True))"
  proof (cases "bad_order L price qty")
    case True
    then show ?thesis using assms(1) by (simp add: r_def add_buy_def add_sell_def)
  next
    case False
    then have "max 0 qty = qty" by (simp add: bad_order_def)
    then show ?thesis
      using place_order [of L b price qty is_buy] False assms
      by (simp add: flat_inv_def add_buy_def add_sell_def split: if_splits)
  qed
  then show "flat_inv L (fst r)" "resting (fst r) \<le> resting b + max 0 qty"
    "(flat_abs (fst r), snd r) =
       (if bad_order L price qty then (flat_abs b, False) else (rb_add L price qty is_buy (flat_abs b), True))"
    by blast+
qed

lemma submit_step:
  fixes is_buy :: bool and price :: int and oid :: nat
  assumes inv: "flat_inv L b" and small: "resting b + max 0 qty < 2 ^ 31"
  defines "r \<equiv> submit_with_id L oid price qty is_buy b"
  shows "flat_inv L (fst r) \<and> resting (fst r) \<le> resting b + max 0 qty
    \<and> (flat_abs (fst r), snd r) = rb_submit L oid price qty is_buy (flat_abs b)"
proof (cases "bad_order L price qty \<or> map_of (orders_by_id b) oid \<noteq> None")
  case True
  then have "r = (b, False)" by (auto simp: r_def submit_with_id_def)
  with True inv show ?thesis by (auto simp: rb_submit_def flat_abs_def)
next
  case False
  let ?ref = "\<lparr>ref_price = price, ref_qty = qty, ref_is_buy = is_buy\<rparr>"
  let ?b = "b\<lparr>orders_by_id := AList.update oid ?ref (orders_by_id b)\<rparr>"
  have r: "r = (try_match L (rest_order is_buy price qty ?b), True)"
    using False by (simp add: r_def submit_with_id_def Let_def)
  have q: "max 0 qty = qty" using False by (simp add: bad_order_def)
  have core: "flat_core L ?b" using inv by (simp add: flat_inv_def flat_core_def)
  have refs: "refs_ok L ?b"
    using inv False unfolding flat_inv_def refs_ok_def bad_order_def
    by (auto simp: hm_wf_update dest!: hm_set_update)
  have rest: "resting ?b + qty < 2 ^ 31" "resting ?b = resting b" using small q by (simp_all add: resting_def)
  have ok: "\<not> bad_order L price qty" using False by simp
  have "rb_submit L oid price qty is_buy (flat_abs b) = (rb_add L price qty is_buy (flat_abs ?b), True)"
    using False by (simp add: rb_submit_def flat_abs_def)
  with place_order [OF core refs ok rest(1), of is_buy] rest(2) q show ?thesis by (simp add: r)
qed

lemma core_range:
  assumes "flat_core L b"
  shows "- 1 \<le> best_bid b" "best_ask b \<le> int L"
proof -
  have "- 1 \<le> top_bid L (bid_qty b)"
    by (cases rule: hi_occ_cases [of "\<lambda>p. 0 < bid_qty b ! p" "L - 1"]) auto
  moreover have "top_ask L (ask_qty b) \<le> int L"
    by (cases rule: lo_occ_cases [of "\<lambda>p. 0 < ask_qty b ! p" 0 L]) auto
  ultimately show "- 1 \<le> best_bid b" "best_ask b \<le> int L" using assms by (simp_all add: flat_core_def)
qed

lemma cancel_step:
  fixes oid :: nat
  assumes inv: "flat_inv L b"
  defines "r \<equiv> flat_cancel L oid b"
  shows "flat_inv L (fst r) \<and> resting (fst r) \<le> resting b \<and> (flat_abs (fst r), snd r) = rb_cancel oid (flat_abs b)"
proof (cases "map_of (orders_by_id b) oid")
  case None
  then show ?thesis using inv by (simp add: r_def flat_cancel_def rb_cancel_def flat_abs_def)
next
  case (Some ref)
  let ?b = "b\<lparr>orders_by_id := AList.delete oid (orders_by_id b)\<rparr>"
  have p: "0 \<le> ref_price ref" "ref_price ref < int L" "0 < ref_qty ref"
    using inv map_of_SomeD [OF Some] by (auto simp: flat_inv_def refs_ok_def)
  have core: "flat_core L ?b" and nc: "\<not> crossed L ?b"
    using inv by (simp_all add: flat_inv_def flat_core_def) (auto simp: crossed_def)
  have refs: "refs_ok L ?b"
    using inv by (auto simp: flat_inv_def refs_ok_def hm_wf_delete dest!: hm_set_delete)
  have len: "length (bid_qty b) = L" "length (ask_qty b) = L"
    using inv by (simp_all add: flat_inv_def flat_core_def side_ok_def)
  have nn: "0 \<le> bid_qty b ! nat (ref_price ref)" "0 \<le> ask_qty b ! nat (ref_price ref)"
    using inv p by (simp_all add: flat_inv_def flat_core_def side_ok_def)
  note B = drop_bid_core [OF core p] and S = drop_ask_core [OF core p]
  show ?thesis
  proof (cases "ref_is_buy ref")
    case True
    then have r: "r = (drop_bid (ref_price ref) (ref_qty ref) ?b, True)"
      using Some by (simp add: r_def flat_cancel_def Let_def)
    have "\<not> crossed L (fst r)" using nc B(3) core_range [OF B(1)] by (auto simp: r crossed_def)
    then show ?thesis using B refs True Some len nn p
      by (auto simp: r flat_inv_def refs_ok_def resting_def sum_list_upd rb_cancel_def flat_abs_def Let_def)
  next
    case False
    then have r: "r = (drop_ask L (ref_price ref) (ref_qty ref) ?b, True)"
      using Some by (simp add: r_def flat_cancel_def Let_def)
    have "\<not> crossed L (fst r)" using nc S(3) core_range [OF S(1)] by (auto simp: r crossed_def)
    then show ?thesis using S refs False Some len nn p
      by (auto simp: r flat_inv_def refs_ok_def resting_def sum_list_upd rb_cancel_def flat_abs_def Let_def)
  qed
qed

lemma exec_step:
  assumes inv: "flat_inv L b" and small: "resting b + op_qty x < 2 ^ 31"
  shows "flat_inv L (fst (flat_exec L x b)) \<and> resting (fst (flat_exec L x b)) \<le> resting b + op_qty x
    \<and> (flat_abs (fst (flat_exec L x b)), snd (flat_exec L x b)) = rb_exec L x (flat_abs b)"
proof (cases x)
  case (AddBuy p q)
  then show ?thesis using add_order_step [of L b q True p] assms by simp
next
  case (AddSell p q)
  then show ?thesis using add_order_step [of L b q False p] assms by simp
next
  case (Submit k p q s)
  then show ?thesis using submit_step [OF inv, of q k p s] small by simp
next
  case (Cancel k)
  then show ?thesis using cancel_step [OF inv, of k] by simp
next
  case (Modify k p q)
  show ?thesis
  proof (cases "map_of (orders_by_id b) k")
    case None
    then show ?thesis using Modify inv by (simp add: flat_modify_def flat_abs_def)
  next
    case (Some ref)
    let ?c = "flat_cancel L k b"
    have C: "flat_inv L (fst ?c)" "resting (fst ?c) \<le> resting b" "flat_abs (fst ?c) = fst (rb_cancel k (flat_abs b))"
      using cancel_step [OF inv, of k] by (auto simp: prod_eq_iff)
    have "resting (fst ?c) + max 0 q < 2 ^ 31" using C(2) small Modify by simp
    from submit_step [OF C(1) this, of k p "ref_is_buy ref"] C Modify Some show ?thesis
      by (simp add: flat_modify_def flat_abs_def)
  qed
qed

lemma flat_run_step:
  "flat_inv L b \<Longrightarrow> resting b + (\<Sum>x\<leftarrow>xs. op_qty x) < 2 ^ 31 \<Longrightarrow>
     flat_inv L (fst (op_run (flat_exec L) xs b))
     \<and> (flat_abs (fst (op_run (flat_exec L) xs b)), snd (op_run (flat_exec L) xs b)) = op_run (rb_exec L) xs (flat_abs b)"
proof (induction xs arbitrary: b)
  case (Cons x xs)
  have "0 \<le> (\<Sum>x\<leftarrow>xs. op_qty x)" by (rule sum_list_nonneg) (auto simp: op_qty_nonneg)
  then have "resting b + op_qty x < 2 ^ 31" using Cons.prems(2) by simp
  from exec_step [OF Cons.prems(1) this]
  have S: "flat_inv L (fst (flat_exec L x b))" "resting (fst (flat_exec L x b)) \<le> resting b + op_qty x"
    "rb_exec L x (flat_abs b) = (flat_abs (fst (flat_exec L x b)), snd (flat_exec L x b))" by auto
  have "resting (fst (flat_exec L x b)) + (\<Sum>x\<leftarrow>xs. op_qty x) < 2 ^ 31" using S(2) Cons.prems(2) by simp
  from Cons.IH [OF S(1) this] S(3) show ?case by (simp add: case_prod_beta prod_eq_iff)
qed simp

definition levels_ok :: "nat \<Rightarrow> bool" where
  "levels_ok L \<longleftrightarrow> L mod 64 = 0 \<and> 0 < L div 64 \<and> L < 2 ^ 31"

lemma flat_init_inv:
  assumes "levels_ok L"
  shows "flat_inv L (flat_init L)" "resting (flat_init L) = 0"
proof -
  have L: "L mod 64 = 0" "0 < L" using assms by (auto simp: levels_ok_def)
  have "bit_at (replicate (L div 64) 0) p = False" if "p < L" for p
    using that L less_mult_imp_div_less [of p "L div 64" 64] by (simp add: bit_at_def minus_mod_eq_div_mult [symmetric])
  then have side: "side_ok L (replicate L 0) (replicate (L div 64) 0)"
    using L by (auto simp: side_ok_def bitmap_wf_def)
  have "top_bid L (replicate L 0) = - 1"
    using L by (cases rule: hi_occ_cases [of "\<lambda>q. 0 < replicate L (0::int) ! q" "L - 1"]) auto
  moreover have "top_ask L (replicate L 0) = int L"
    by (cases rule: lo_occ_cases [of "\<lambda>q. 0 < replicate L (0::int) ! q" 0 L]) auto
  ultimately show "flat_inv L (flat_init L)"
    using side by (simp add: flat_inv_def flat_core_def refs_ok_def crossed_def flat_init_def)
  show "resting (flat_init L) = 0" by (simp add: resting_def flat_init_def sum_list_replicate)
qed

section \<open>Properties\<close>

text \<open>
  C6. Refinement.  Any sequence of calls on a fresh book, with total submitted quantity below
  \<open>2^31\<close>, returns the same results and leaves the same quantities, trade count and
  identifiers as the reference book, which keeps neither bitmaps nor cursors.
\<close>

theorem flat_book_refines:
  assumes "levels_ok L" "(\<Sum>x\<leftarrow>xs. op_qty x) < 2 ^ 31"
  shows "(flat_abs (fst (op_run (flat_exec L) xs (flat_init L))), snd (op_run (flat_exec L) xs (flat_init L)))
    = op_run (rb_exec L) xs (flat_abs (flat_init L))"
  using flat_run_step [OF flat_init_inv(1) [OF assms(1)], of xs] flat_init_inv(2) [OF assms(1)] assms(2) by simp

theorem flat_book_refines_witness:
  "(flat_abs (fst (op_run (flat_exec 64) [AddSell 7 5, AddBuy 9 3] (flat_init 64))),
    snd (op_run (flat_exec 64) [AddSell 7 5, AddBuy 9 3] (flat_init 64)))
   = op_run (rb_exec 64) [AddSell 7 5, AddBuy 9 3] (flat_abs (flat_init 64))"
  by (rule flat_book_refines) (simp_all add: levels_ok_def)

text \<open>
  Invariant.  After any such sequence the bitmaps mark exactly the levels with a positive
  quantity, the cursors are the highest occupied bid and the lowest occupied ask level (or the
  empty markers), no quantity is negative, and the book is not crossed.
\<close>

theorem flat_book_invariant:
  assumes "levels_ok L" "(\<Sum>x\<leftarrow>xs. op_qty x) < 2 ^ 31"
  defines "b \<equiv> fst (op_run (flat_exec L) xs (flat_init L))"
  shows "(\<forall>p < L. 0 \<le> bid_qty b ! p \<and> 0 \<le> ask_qty b ! p
            \<and> (bit_at (bid_bits b) p \<longleftrightarrow> 0 < bid_qty b ! p) \<and> (bit_at (ask_bits b) p \<longleftrightarrow> 0 < ask_qty b ! p))
    \<and> best_bid b = hi_occ (\<lambda>p. 0 < bid_qty b ! p) (L - 1)
    \<and> best_ask b = lo_occ (\<lambda>p. 0 < ask_qty b ! p) 0 L
    \<and> (best_bid b = - 1 \<or> best_ask b = int L \<or> best_bid b < best_ask b)"
proof -
  have "flat_inv L b"
    using flat_run_step [OF flat_init_inv(1) [OF assms(1)], of xs] flat_init_inv(2) [OF assms(1)] assms(2)
    by (simp add: b_def)
  then show ?thesis unfolding flat_inv_def flat_core_def side_ok_def crossed_def by auto
qed

theorem flat_book_invariant_witness:
  "best_bid (fst (op_run (flat_exec 64) [AddBuy 9 3, AddSell 9 1] (flat_init 64)))
     = hi_occ (\<lambda>p. 0 < bid_qty (fst (op_run (flat_exec 64) [AddBuy 9 3, AddSell 9 1] (flat_init 64))) ! p) (64 - 1)"
  using flat_book_invariant [of 64 "[AddBuy 9 3, AddSell 9 1]"] by (simp add: levels_ok_def)

text \<open>
  C7. Conservation and termination.  An accepted order adds its quantity to its side and nothing
  else changes the balance between the sides: matching takes equal quantities from both.  The
  matching loop has come to rest within \<open>2 * LEVELS\<close> passes: any larger number of passes gives the
  same book, which is not crossed.
\<close>

theorem flat_submit_conserves:
  assumes "flat_inv L b" "\<not> bad_order L price qty" "resting b + qty < 2 ^ 31"
  shows "book_net (fst (if is_buy then add_buy L price qty b else add_sell L price qty b))
      = book_net b + (if is_buy then qty else - qty)
    \<and> \<not> crossed L (fst (if is_buy then add_buy L price qty b else add_sell L price qty b))
    \<and> (\<forall>k. match_loop (2 * L + k) L (rest_order is_buy price qty b) = try_match L (rest_order is_buy price qty b))"
proof -
  have inv: "flat_core L b" "refs_ok L b" using assms(1) by (simp_all add: flat_inv_def)
  note P = place_order [OF inv assms(2,3), of is_buy]
  note R = rest_order_core(1) [OF inv(1) assms(2,3), of is_buy]
  have "match_loop (2 * L + k) L (rest_order is_buy price qty b) = try_match L (rest_order is_buy price qty b)" for k
    unfolding try_match_def by (rule match_loop_enough [OF R passes_bound [OF R]])
  then show ?thesis
    using P assms(2) by (cases is_buy) (simp_all add: add_buy_def add_sell_def flat_inv_def)
qed

theorem flat_submit_conserves_witness:
  "book_net (fst (add_buy 64 9 3 (flat_init 64))) = book_net (flat_init 64) + 3"
proof -
  have "flat_inv 64 (flat_init 64)" "resting (flat_init 64) = 0"
    by (rule flat_init_inv; simp add: levels_ok_def)+
  then show ?thesis using flat_submit_conserves [of 64 "flat_init 64" 9 3 True] by (simp add: bad_order_def)
qed

text \<open>
  Error path.  \<open>modify\<close> with a new price or quantity that \<open>submit_with_id\<close> rejects returns
  false, but the order is gone: the book is the one \<open>cancel\<close> leaves.
\<close>

theorem flat_modify_reject_cancels:
  assumes "map_of (orders_by_id b) oid = Some ref" "bad_order L new_price new_qty"
  shows "flat_modify L oid new_price new_qty b = (fst (flat_cancel L oid b), False)
    \<and> map_of (orders_by_id (fst (flat_modify L oid new_price new_qty b))) oid = None"
proof -
  have "flat_modify L oid new_price new_qty b = (fst (flat_cancel L oid b), False)"
    using assms by (simp add: flat_modify_def submit_with_id_def)
  moreover have "map_of (orders_by_id (fst (flat_cancel L oid b))) oid = None"
    using assms(1) by (simp add: flat_cancel_def Let_def alist_simps)
  ultimately show ?thesis by simp
qed

theorem flat_modify_reject_cancels_witness:
  "flat_modify 64 1 9 0 ((flat_init 64)\<lparr>orders_by_id := [(1, \<lparr>ref_price = 9, ref_qty = 3, ref_is_buy = True\<rparr>)]\<rparr>)
    = (fst (flat_cancel 64 1 ((flat_init 64)\<lparr>orders_by_id := [(1, \<lparr>ref_price = 9, ref_qty = 3, ref_is_buy = True\<rparr>)]\<rparr>)), False)"
  by (rule conjunct1 [OF flat_modify_reject_cancels]) (simp_all add: bad_order_def)

end
