(* ===== verification/Binary64.thy ===== *)
theory Binary64
  imports Prelude Complex_Main
begin

text \<open>
  The \<open>double\<close> of the code: IEEE-754 binary64 with rounding to nearest, ties to even.  A finite
  value is the rational it stands for; zeros of both signs are one value.  The fixed-point
  conversions of \<open>oms.hpp\<close> (\<open>to_fixed\<close>, \<open>to_float\<close>) are built on it.
\<close>

section \<open>Values and rounding\<close>

datatype dbl = Fin rat | Inf bool | NaN

fun flog2 :: "nat \<Rightarrow> nat" where
  "flog2 n = (if n < 2 then 0 else Suc (flog2 (n div 2)))"

declare flog2.simps [simp del]

text \<open>The exponent \<open>e\<close> with \<open>2^e \<le> x < 2^(e+1)\<close>, for a positive \<open>x\<close>.\<close>

definition ilog2 :: "rat \<Rightarrow> int" where
  "ilog2 x = (let (n, d) = quotient_of x; k = int (flog2 (nat n)) - int (flog2 (nat d))
              in if 2 powi k \<le> x then k else k - 1)"

definition round_even :: "rat \<Rightarrow> int" where
  "round_even x = (let f = \<lfloor>x\<rfloor>; r = x - of_int f
     in if r < 1 / 2 then f else if r > 1 / 2 then f + 1 else if even f then f else f + 1)"

definition ulp_exp :: "rat \<Rightarrow> int" where
  "ulp_exp x = max (ilog2 \<bar>x\<bar> - 52) (- 1074)"

definition rnd :: "rat \<Rightarrow> rat" where
  "rnd x = (if x = 0 then 0 else of_int (round_even (x / 2 powi ulp_exp x)) * 2 powi ulp_exp x)"

definition fin :: "rat \<Rightarrow> dbl" where
  "fin x = (let r = rnd x in if \<bar>r\<bar> \<ge> 2 ^ 1024 then Inf (r < 0) else Fin r)"

section \<open>Arithmetic\<close>

fun dneg :: "dbl \<Rightarrow> dbl" where
  "dneg (Fin a) = Fin (- a)"
| "dneg (Inf s) = Inf (\<not> s)"
| "dneg NaN = NaN"

fun dadd :: "dbl \<Rightarrow> dbl \<Rightarrow> dbl" where
  "dadd (Fin a) (Fin b) = fin (a + b)"
| "dadd (Fin a) (Inf s) = Inf s"
| "dadd (Inf s) (Fin b) = Inf s"
| "dadd (Inf s) (Inf t) = (if s = t then Inf s else NaN)"
| "dadd _ _ = NaN"

definition dsub :: "dbl \<Rightarrow> dbl \<Rightarrow> dbl" where
  "dsub x y = dadd x (dneg y)"

fun dmul :: "dbl \<Rightarrow> dbl \<Rightarrow> dbl" where
  "dmul (Fin a) (Fin b) = fin (a * b)"
| "dmul (Fin a) (Inf s) = (if a = 0 then NaN else Inf (s \<noteq> (a < 0)))"
| "dmul (Inf s) (Fin b) = (if b = 0 then NaN else Inf (s \<noteq> (b < 0)))"
| "dmul (Inf s) (Inf t) = Inf (s \<noteq> t)"
| "dmul _ _ = NaN"

fun ddiv :: "dbl \<Rightarrow> dbl \<Rightarrow> dbl" where
  "ddiv (Fin a) (Fin b) = (if b = 0 then (if a = 0 then NaN else Inf (a < 0)) else fin (a / b))"
| "ddiv (Fin a) (Inf s) = Fin 0"
| "ddiv (Inf s) (Fin b) = Inf (s \<noteq> (b < 0))"
| "ddiv (Inf s) (Inf t) = NaN"
| "ddiv _ _ = NaN"

fun dlt :: "dbl \<Rightarrow> dbl \<Rightarrow> bool" where
  "dlt (Fin a) (Fin b) = (a < b)"
| "dlt (Fin a) (Inf s) = (\<not> s)"
| "dlt (Inf s) (Fin b) = s"
| "dlt (Inf s) (Inf t) = (s \<and> \<not> t)"
| "dlt _ _ = False"

definition dle :: "dbl \<Rightarrow> dbl \<Rightarrow> bool" where
  "dle x y \<longleftrightarrow> x \<noteq> NaN \<and> y \<noteq> NaN \<and> \<not> dlt y x"

fun dabs :: "dbl \<Rightarrow> dbl" where
  "dabs (Fin a) = Fin \<bar>a\<bar>"
| "dabs (Inf s) = Inf False"
| "dabs NaN = NaN"

definition isnan :: "dbl \<Rightarrow> bool" where
  "isnan x \<longleftrightarrow> x = NaN"

definition d_of_int :: "int \<Rightarrow> dbl" where
  "d_of_int n = fin (of_int n)"

definition trunc :: "rat \<Rightarrow> int" where
  "trunc x = (if x < 0 then \<lceil>x\<rceil> else \<lfloor>x\<rfloor>)"

text \<open>
  Conversion to \<open>std::int64_t\<close>: truncation; a value that does not fit gives the smallest
  integer, as the conversion instruction of x86-64 does.
\<close>

fun d_to_s64 :: "dbl \<Rightarrow> int" where
  "d_to_s64 (Fin a) = (if - (2 ^ 63) \<le> trunc a \<and> trunc a < 2 ^ 63 then trunc a else - (2 ^ 63))"
| "d_to_s64 _ = - (2 ^ 63)"

section \<open>Fixed-point prices\<close>

definition PRICE_SCALE :: int where
  "PRICE_SCALE = 10000"

definition to_fixed :: "dbl \<Rightarrow> int" where
  "to_fixed price = d_to_s64 (dadd (dmul price (d_of_int PRICE_SCALE)) (Fin (1 / 2)))"

definition to_float :: "int \<Rightarrow> dbl" where
  "to_float fixed_price = ddiv (d_of_int fixed_price) (d_of_int PRICE_SCALE)"

section \<open>Rounding error\<close>

lemma flog2_bounds: "0 < n \<Longrightarrow> 2 ^ flog2 n \<le> n \<and> n < 2 ^ Suc (flog2 n)"
proof (induction n rule: flog2.induct)
  case (1 n)
  show ?case
  proof (cases "n < 2")
    case True
    with 1 show ?thesis by (simp add: flog2.simps)
  next
    case False
    then have "2 ^ flog2 (n div 2) \<le> n div 2 \<and> n div 2 < 2 ^ Suc (flog2 (n div 2))" using 1 by simp
    then show ?thesis using False by (subst (1 2) flog2.simps) auto
  qed
qed

lemma flog2_rat:
  assumes "0 < n"
  shows "2 powi int (flog2 n) \<le> (of_nat n :: rat)" "(of_nat n :: rat) < 2 powi (int (flog2 n) + 1)"
proof -
  have "2 ^ flog2 n \<le> n" using flog2_bounds assms by blast
  moreover have "n < 2 ^ Suc (flog2 n)" using flog2_bounds assms by blast
  ultimately have "(of_nat (2 ^ flog2 n) :: rat) \<le> of_nat n" "(of_nat n :: rat) < of_nat (2 ^ Suc (flog2 n))"
    by (simp_all only: of_nat_le_iff of_nat_less_iff)
  then show "2 powi int (flog2 n) \<le> (of_nat n :: rat)" "(of_nat n :: rat) < 2 powi (int (flog2 n) + 1)"
    by (simp_all add: power_int_add)
qed

lemma ilog2_bounds:
  assumes "0 < x"
  shows "2 powi ilog2 x \<le> x" "x < 2 powi (ilog2 x + 1)"
proof -
  obtain n d where q: "quotient_of x = (n, d)" by (cases "quotient_of x")
  have d: "0 < d" using q by (rule quotient_of_denom_pos)
  have x: "x = of_int n / of_int d" using q by (rule quotient_of_div)
  have n: "0 < n" using assms d by (simp add: x zero_less_divide_iff)
  let ?a = "int (flog2 (nat n))" and ?b = "int (flog2 (nat d))"
  have N: "2 powi ?a \<le> (of_int n :: rat)" "(of_int n :: rat) < 2 powi (?a + 1)"
    using flog2_rat [of "nat n"] n by simp_all
  have D: "2 powi ?b \<le> (of_int d :: rat)" "(of_int d :: rat) < 2 powi (?b + 1)"
    using flog2_rat [of "nat d"] d by simp_all
  have hi: "x < 2 powi (?a - ?b + 1)"
  proof -
    have "x \<le> of_int n / 2 powi ?b" unfolding x using D(1) n by (intro divide_left_mono) (simp_all add: d)
    also have "\<dots> < 2 powi (?a + 1) / 2 powi ?b" using N(2) by (simp add: divide_strict_right_mono)
    also have "\<dots> = 2 powi (?a - ?b + 1)"
      by (subst power_int_diff [symmetric]) (simp_all add: algebra_simps)
    finally show ?thesis .
  qed
  have lo: "2 powi (?a - ?b - 1) \<le> x"
  proof -
    have "2 powi (?a - ?b - 1) = (2 powi ?a / 2 powi (?b + 1) :: rat)"
      by (subst power_int_diff [symmetric]) (simp_all add: algebra_simps)
    also have "\<dots> \<le> of_int n / 2 powi (?b + 1)" using N(1) by (simp add: divide_right_mono)
    also have "\<dots> \<le> x" unfolding x using D(2) n by (intro divide_left_mono) (simp_all add: d less_imp_le)
    finally show ?thesis .
  qed
  show "2 powi ilog2 x \<le> x" "x < 2 powi (ilog2 x + 1)"
    using lo hi by (auto simp: ilog2_def q Let_def)
qed

lemma round_even_error: "\<bar>of_int (round_even x) - x\<bar> \<le> 1 / 2"
proof -
  have "of_int \<lfloor>x\<rfloor> \<le> x" "x < of_int \<lfloor>x\<rfloor> + 1" by linarith+
  then show ?thesis by (simp add: round_even_def Let_def abs_le_iff)
qed

lemma round_even_int [simp]: "round_even (of_int n) = n"
  by (simp add: round_even_def)

lemma rnd_0 [simp]: "rnd 0 = 0"
  by (simp add: rnd_def)

lemma rnd_error: "\<bar>rnd x - x\<bar> \<le> 2 powi ulp_exp x / 2"
proof (cases "x = 0")
  case False
  let ?q = "2 powi ulp_exp x :: rat"
  have q: "0 < ?q" by simp
  have "rnd x - x = (of_int (round_even (x / ?q)) - x / ?q) * ?q"
    using False q by (simp add: rnd_def left_diff_distrib)
  then have "\<bar>rnd x - x\<bar> = \<bar>of_int (round_even (x / ?q)) - x / ?q\<bar> * ?q"
    using q by (simp add: abs_mult)
  also have "\<dots> \<le> 1 / 2 * ?q" by (rule mult_right_mono [OF round_even_error]) (use q in simp)
  finally show ?thesis by simp
qed simp

lemma rnd_error_lt:
  assumes "\<bar>x\<bar> < 2 powi e" "- 1021 \<le> e"
  shows "\<bar>rnd x - x\<bar> \<le> 2 powi (e - 54)"
proof (cases "x = 0")
  case False
  then have "2 powi ilog2 \<bar>x\<bar> < (2 powi e :: rat)" using ilog2_bounds(1) [of "\<bar>x\<bar>"] assms(1) by simp
  then have "ilog2 \<bar>x\<bar> < e" by (metis not_less one_le_numeral power_int_increasing)
  then have "2 powi ulp_exp x \<le> (2 powi (e - 53) :: rat)"
    using assms(2) by (intro power_int_increasing) (auto simp: ulp_exp_def)
  then have "\<bar>rnd x - x\<bar> \<le> 2 powi (e - 53) / 2" using rnd_error [of x] by simp
  also have "\<dots> = 2 powi (e - 54)" by (simp add: power_int_diff)
  finally show ?thesis .
qed simp

text \<open>Executable forms over binary integers, for evaluation.\<close>

function flogi :: "int \<Rightarrow> int" where
  "flogi n = (if n < 2 then 0 else 1 + flogi (n div 2))"
  by pat_completeness auto
termination by (relation "measure nat") auto

function ipow2 :: "int \<Rightarrow> int" where
  "ipow2 n = (if n \<le> 0 then 1 else let h = ipow2 (n div 2) in if even n then h * h else 2 * (h * h))"
  by pat_completeness auto
termination by (relation "measure nat") auto

declare flogi.simps [simp del] ipow2.simps [simp del]

definition p2 :: "int \<Rightarrow> rat" where
  "p2 k = (if 0 \<le> k then of_int (ipow2 k) else 1 / of_int (ipow2 (- k)))"

lemma flogi_eq: "flogi n = int (flog2 (nat n))"
proof (induction n rule: flogi.induct)
  case (1 n)
  show ?case
  proof (cases "n < 2")
    case True
    then show ?thesis by (subst flogi.simps, subst flog2.simps) simp
  next
    case False
    then have "nat (n div 2) = nat n div 2" by (simp add: nat_div_distrib)
    then show ?thesis using 1 False by (subst flogi.simps, subst flog2.simps) simp
  qed
qed

lemma ipow2_eq: "ipow2 n = 2 ^ nat n"
proof (induction n rule: ipow2.induct)
  case (1 n)
  show ?case
  proof (cases "n \<le> 0")
    case True
    then show ?thesis by (subst ipow2.simps) simp
  next
    case False
    define h where "h = nat (n div 2)"
    have "nat n = (if even n then h + h else Suc (h + h))"
      using False by (auto simp: h_def elim!: evenE oddE)
    then show ?thesis using 1 False by (subst ipow2.simps) (simp add: h_def [symmetric] power_add Let_def)
  qed
qed

lemma p2_eq: "p2 k = 2 powi k"
  by (simp add: p2_def ipow2_eq power_int_def power_one_over inverse_eq_divide)

lemma ilog2_code [code]:
  "ilog2 x = (let (n, d) = quotient_of x; k = flogi n - flogi d in if p2 k \<le> x then k else k - 1)"
  by (simp add: ilog2_def flogi_eq p2_eq)

lemma rnd_code [code]:
  "rnd x = (if x = 0 then 0 else let q = p2 (ulp_exp x) in of_int (round_even (x / q)) * q)"
  by (simp add: rnd_def p2_eq Let_def)

lemma ilog2_ge: "0 < x \<Longrightarrow> int k \<le> ilog2 x \<longleftrightarrow> 2 ^ k \<le> x"
proof
  assume x: "0 < x"
  show "2 ^ k \<le> x" if "int k \<le> ilog2 x"
    using power_int_increasing [OF that, of "2 :: rat"] ilog2_bounds(1) [OF x] by simp
  show "int k \<le> ilog2 x" if "2 ^ k \<le> x"
  proof (rule ccontr)
    assume "\<not> int k \<le> ilog2 x"
    then have "ilog2 x + 1 \<le> int k" by simp
    from power_int_increasing [OF this, of "2 :: rat"] ilog2_bounds(2) [OF x] that show False by simp
  qed
qed

lemma fin_code [code]:
  "fin x = (let r = rnd x in if r \<noteq> 0 \<and> 1024 \<le> ilog2 \<bar>r\<bar> then Inf (r < 0) else Fin r)"
proof -
  have "r \<noteq> 0 \<and> 1024 \<le> ilog2 \<bar>r\<bar> \<longleftrightarrow> \<bar>r\<bar> \<ge> 2 ^ 1024" for r :: rat
  proof (cases "r = 0")
    case False
    then show ?thesis using ilog2_ge [of "\<bar>r\<bar>" 1024] by simp
  qed simp
  then show ?thesis by (simp only: fin_def)
qed

text \<open>Integers of up to 53 bits are exact.\<close>

lemma rnd_of_int:
  assumes "\<bar>n\<bar> < 2 ^ 53"
  shows "rnd (of_int n) = of_int n"
proof (cases "n = 0")
  case False
  let ?x = "of_int n :: rat"
  have "2 powi ilog2 \<bar>?x\<bar> \<le> \<bar>?x\<bar>" using ilog2_bounds(1) [of "\<bar>?x\<bar>"] False by simp
  also have "\<dots> < 2 powi 53"
    using assms by (simp add: of_int_less_iff [where ?'a = rat, of "\<bar>n\<bar>" "2 ^ 53", symmetric])
  finally have "ilog2 \<bar>?x\<bar> < 53" by (metis not_less one_le_numeral power_int_increasing)
  then have "ulp_exp ?x \<le> 0" by (simp add: ulp_exp_def)
  then have k: "ulp_exp ?x = - int (nat (- ulp_exp ?x))" by simp
  define k where "k = nat (- ulp_exp ?x)"
  note k = k [folded k_def]
  have "?x / 2 powi ulp_exp ?x = of_int (n * 2 ^ k)" by (simp add: k power_int_minus divide_inverse)
  then have "rnd ?x = of_int (n * 2 ^ k) * 2 powi ulp_exp ?x"
    using False by (simp only: rnd_def round_even_int of_int_eq_0_iff if_False)
  also have "\<dots> = ?x" by (simp add: k power_int_minus)
  finally show ?thesis .
qed simp

lemma fin_small: "\<bar>x\<bar> < 2 ^ 100 \<Longrightarrow> fin x = Fin (rnd x)"
proof -
  assume x: "\<bar>x\<bar> < 2 ^ 100"
  then have "\<bar>rnd x - x\<bar> \<le> 2 powi (100 - 54)" by (intro rnd_error_lt) simp_all
  then have "\<bar>rnd x\<bar> < 2 ^ 1024" using x by simp
  then show ?thesis by (simp add: fin_def)
qed

lemma d_of_int_small: "\<bar>n\<bar> < 2 ^ 53 \<Longrightarrow> d_of_int n = Fin (of_int n)"
proof -
  assume n: "\<bar>n\<bar> < 2 ^ 53"
  then have "(of_int \<bar>n\<bar> :: rat) < of_int (2 ^ 53)" by (simp only: of_int_less_iff)
  then have "\<bar>of_int n :: rat\<bar> < 2 ^ 100" by simp
  then show ?thesis using n by (simp add: d_of_int_def fin_small rnd_of_int)
qed

lemma fixed_roundtrip:
  assumes "0 \<le> p" "p < 2 ^ 50"
  shows "to_fixed (to_float p) = p"
proof -
  define P where "P = (of_int p :: rat)"
  have P: "0 \<le> P" "P < 2 ^ 50"
    using assms of_int_less_iff [where ?'a = rat, of p "2 ^ 50"] by (simp_all add: P_def)
  define y where "y = rnd (P / 10000)"
  have "\<bar>y - P / 10000\<bar> \<le> 2 powi (37 - 54)"
    unfolding y_def by (rule rnd_error_lt) (use P in simp_all)
  then have y: "\<bar>y - P / 10000\<bar> \<le> 1 / 131072" by (simp add: power_int_minus)
  define z where "z = rnd (y * 10000)"
  have yb: "\<bar>y * 10000\<bar> < 2 powi 51" using y P by (simp add: abs_if field_simps split: if_splits)
  have "\<bar>z - y * 10000\<bar> \<le> 2 powi (51 - 54)" unfolding z_def by (rule rnd_error_lt [OF yb]) simp
  then have z: "\<bar>z - y * 10000\<bar> \<le> 1 / 8" by (simp add: power_int_minus)
  define w where "w = rnd (z + 1 / 2)"
  have zP: "\<bar>z - P\<bar> \<le> 1 / 8 + 10000 / 131072" using y z by linarith
  have zb: "\<bar>z + 1 / 2\<bar> < 2 powi 51" using zP P by (simp add: abs_if split: if_splits)
  have "\<bar>w - (z + 1 / 2)\<bar> \<le> 2 powi (51 - 54)" unfolding w_def by (rule rnd_error_lt [OF zb]) simp
  then have "\<bar>w - (z + 1 / 2)\<bar> \<le> 1 / 8" by (simp add: power_int_minus)
  with zP have w: "P < w" "w < P + 1" by linarith+
  have "to_float p = Fin y"
    using assms P by (simp add: to_float_def PRICE_SCALE_def d_of_int_small P_def [symmetric] fin_small y_def)
  moreover have "dmul (Fin y) (d_of_int PRICE_SCALE) = Fin z"
    using yb by (simp add: PRICE_SCALE_def d_of_int_small fin_small z_def)
  moreover have "dadd (Fin z) (Fin (1 / 2)) = Fin w"
    using zb by (simp add: fin_small w_def)
  moreover have "trunc w = p"
    using w P unfolding trunc_def P_def by (simp add: floor_eq_iff)
  ultimately show ?thesis using assms by (simp add: to_fixed_def)
qed

section \<open>Square root\<close>

text \<open>
  \<open>std::sqrt\<close> is correctly rounded: the nearest multiple of the unit in the last place of the
  root, found by an integer square root.
\<close>

function isqrt :: "int \<Rightarrow> int" where
  "isqrt n = (if n \<le> 0 then 0 else let r = 2 * isqrt (n div 4) in if (r + 1) * (r + 1) \<le> n then r + 1 else r)"
  by pat_completeness auto
termination by (relation "measure nat") auto

declare isqrt.simps [simp del]

definition sqrt_ulp :: "rat \<Rightarrow> rat" where
  "sqrt_ulp x = 2 powi (ilog2 x div 2 - 52)"

fun dsqrt :: "dbl \<Rightarrow> dbl" where
  "dsqrt (Fin x) = (if x < 0 then NaN else if x = 0 then Fin 0
     else let q = sqrt_ulp x; n = isqrt \<lfloor>x / (q * q)\<rfloor>
          in Fin (of_int (if (of_int n + 1 / 2) * (of_int n + 1 / 2) * (q * q) < x then n + 1 else n) * q))"
| "dsqrt (Inf s) = (if s then NaN else Inf False)"
| "dsqrt NaN = NaN"

lemma isqrt_bounds: "0 \<le> n \<Longrightarrow> 0 \<le> isqrt n \<and> isqrt n * isqrt n \<le> n \<and> n < (isqrt n + 1) * (isqrt n + 1)"
proof (induction n rule: isqrt.induct)
  case (1 n)
  show ?case
  proof (cases "n \<le> 0")
    case True
    with 1 show ?thesis by (simp add: isqrt.simps)
  next
    case False
    define s where "s = isqrt (n div 4)"
    have s: "0 \<le> s" "s * s \<le> n div 4" "n div 4 < (s + 1) * (s + 1)"
      using 1(1) [OF False] False by (auto simp: s_def)
    then have "n div 4 + 1 \<le> (s + 1) * (s + 1)" by simp
    moreover have "n < 4 * (n div 4 + 1)" "4 * (n div 4) \<le> n" by simp_all
    ultimately have "4 * (s * s) \<le> n" "n < 4 * ((s + 1) * (s + 1))" using s by linarith+
    then have "(2 * s) * (2 * s) \<le> n" "n < (2 * s + 2) * (2 * s + 2)" by (simp_all add: algebra_simps)
    moreover have "isqrt n = (if (2 * s + 1) * (2 * s + 1) \<le> n then 2 * s + 1 else 2 * s)"
      using False by (subst isqrt.simps) (simp add: s_def [symmetric] Let_def)
    ultimately show ?thesis using s(1) by (simp add: algebra_simps)
  qed
qed

text \<open>The result is within half a unit of the root: the root lies between the neighbouring midpoints.\<close>

lemma dsqrt_nearest:
  assumes "0 < x"
  obtains r where "dsqrt (Fin x) = Fin (of_int r * sqrt_ulp x)" "0 \<le> r"
    "x \<le> (of_int r + 1 / 2) * (of_int r + 1 / 2) * (sqrt_ulp x * sqrt_ulp x)"
    "r = 0 \<or> (of_int r - 1 / 2) * (of_int r - 1 / 2) * (sqrt_ulp x * sqrt_ulp x) \<le> x"
proof -
  define q where "q = sqrt_ulp x * sqrt_ulp x"
  have q: "0 < q" by (simp add: q_def sqrt_ulp_def)
  define n where "n = isqrt \<lfloor>x / q\<rfloor>"
  have "0 \<le> \<lfloor>x / q\<rfloor>" using assms q by simp
  from isqrt_bounds [OF this] have n: "0 \<le> n" "n * n \<le> \<lfloor>x / q\<rfloor>" "\<lfloor>x / q\<rfloor> < (n + 1) * (n + 1)"
    by (simp_all add: n_def)
  have "of_int (n * n) \<le> x / q" using n(2) by (simp only: le_floor_iff)
  then have lo: "of_int n * of_int n * q \<le> x" using q by (simp add: pos_le_divide_eq)
  have "x / q < of_int ((n + 1) * (n + 1))" using n(3) by (simp only: floor_less_iff)
  then have hi: "x < (of_int n + 1) * (of_int n + 1) * q" using q by (simp add: pos_divide_less_eq)
  let ?up = "(of_int n + 1 / 2) * (of_int n + 1 / 2) * q < x"
  have half: "(y - 1 / 2) * (y - 1 / 2) * q \<le> y * y * q" "y * y * q \<le> (y + 1 / 2) * (y + 1 / 2) * q"
    if "1 \<le> y" for y :: rat
    using that q by (auto intro!: mult_right_mono mult_mono)
  show thesis
  proof (cases ?up)
    case True
    show thesis
    proof (rule that [of "n + 1"])
      show "dsqrt (Fin x) = Fin (of_int (n + 1) * sqrt_ulp x)"
        using True assms by (simp add: Let_def n_def q_def)
      show "x \<le> (of_int (n + 1) + 1 / 2) * (of_int (n + 1) + 1 / 2) * (sqrt_ulp x * sqrt_ulp x)"
        using hi half(2) [of "of_int n + 1"] n(1) by (simp add: q_def)
      show "n + 1 = 0 \<or> (of_int (n + 1) - 1 / 2) * (of_int (n + 1) - 1 / 2) * (sqrt_ulp x * sqrt_ulp x) \<le> x"
        using True by (simp add: q_def add.commute)
    qed (use n in simp)
  next
    case False
    show thesis
    proof (rule that [of n])
      show "dsqrt (Fin x) = Fin (of_int n * sqrt_ulp x)"
        using False assms by (simp add: Let_def n_def q_def)
      show "x \<le> (of_int n + 1 / 2) * (of_int n + 1 / 2) * (sqrt_ulp x * sqrt_ulp x)"
        using False by (simp add: q_def)
      show "n = 0 \<or> (of_int n - 1 / 2) * (of_int n - 1 / 2) * (sqrt_ulp x * sqrt_ulp x) \<le> x"
      proof (cases "n = 0")
        case f: False
        then have "(1 :: rat) \<le> of_int n" using n(1) by simp
        then show ?thesis using half(1) [of "of_int n"] lo by (simp add: q_def)
      qed simp
    qed (use n in simp)
  qed
qed

lemma sqrt_ulp_code [code]: "sqrt_ulp x = p2 (ilog2 x div 2 - 52)"
  by (simp add: sqrt_ulp_def p2_eq)

section \<open>Properties\<close>

text \<open>
  Round trip of fixed-point prices: converting a price below \<open>2^50\<close> ticks to \<open>double\<close> and
  back gives the same price, in spite of the two roundings.
\<close>

theorem to_fixed_to_float:
  assumes "0 \<le> p" "p < 2 ^ 50"
  shows "to_fixed (to_float p) = p"
  by (rule fixed_roundtrip [OF assms])

theorem to_fixed_to_float_witness: "to_fixed (to_float 1502500) = 1502500"
  by (rule to_fixed_to_float) simp_all

end
