(* ===== verification/Oms.thy ===== *)
theory Oms
  imports Common Binary64
begin

text \<open>
  \<open>oms/oms.hpp\<close>: the order management system.  The records \<open>Order\<close> and \<open>Position\<close>, the state of
  the class, and every operation that changes it, over wrapping integers and binary64 prices.
  A call of \<open>mono_ns\<close> is an argument: the time the clock returned.  A symbol is the list of bytes
  its pointer addresses, \<^const>\<open>None\<close> for a null pointer; the char array of a record holds the
  bytes before the terminator.
\<close>

section \<open>Records\<close>

datatype OrderStatus = NEW | SENT | FILLED | PARTIAL | CANCELLED | REJECTED

definition status_str :: "OrderStatus \<Rightarrow> string" where
  "status_str s = (case s of NEW \<Rightarrow> ''NEW'' | SENT \<Rightarrow> ''SENT'' | FILLED \<Rightarrow> ''FILLED''
     | PARTIAL \<Rightarrow> ''PARTIAL'' | CANCELLED \<Rightarrow> ''CANCELLED'' | REJECTED \<Rightarrow> ''REJECTED'')"

datatype OMSReject = R_NONE | INVALID_INPUT | ORDER_VALUE | POSITION_LIMIT

definition oms_reject_str :: "OMSReject \<Rightarrow> string" where
  "oms_reject_str r = (case r of R_NONE \<Rightarrow> ''NONE'' | INVALID_INPUT \<Rightarrow> ''INVALID_INPUT''
     | ORDER_VALUE \<Rightarrow> ''ORDER_VALUE'' | POSITION_LIMIT \<Rightarrow> ''POSITION_LIMIT'')"

primrec reject_idx :: "OMSReject \<Rightarrow> nat" where
  "reject_idx R_NONE = 0"
| "reject_idx INVALID_INPUT = 1"
| "reject_idx ORDER_VALUE = 2"
| "reject_idx POSITION_LIMIT = 3"

record Order =
  o_id :: int
  o_symbol :: "byte list"
  o_side :: Side
  o_price :: int
  o_quantity :: int
  o_filled :: int
  o_status :: OrderStatus
  o_created_ns :: int
  o_sent_ns :: int
  o_filled_ns :: int
  o_fill_notional :: int
  o_expire_ns :: int
  o_fill_count :: int
  o_cancelled_ns :: int

definition mk_order :: "int \<Rightarrow> byte list \<Rightarrow> Side \<Rightarrow> int \<Rightarrow> int \<Rightarrow> Order" where
  "mk_order oid sy s px qty = \<lparr>o_id = oid, o_symbol = sym_chars sy, o_side = s, o_price = px,
     o_quantity = qty, o_filled = 0, o_status = NEW, o_created_ns = 0, o_sent_ns = 0, o_filled_ns = 0,
     o_fill_notional = 0, o_expire_ns = 0, o_fill_count = 0, o_cancelled_ns = 0\<rparr>"

definition avg_fill_price :: "Order \<Rightarrow> int" where
  "avg_fill_price ord = (if o_filled ord > 0 then tdiv (o_fill_notional ord) (o_filled ord) else 0)"

record Position =
  p_symbol :: "byte list"
  net_qty :: int
  pending_qty :: int
  avg_price :: int
  realized_pnl :: int
  total_cost :: int
  fees :: int
  p_round_trips :: int

definition mk_position :: "byte list \<Rightarrow> Position" where
  "mk_position sy = \<lparr>p_symbol = sym_chars sy, net_qty = 0, pending_qty = 0, avg_price = 0,
     realized_pnl = 0, total_cost = 0, fees = 0, p_round_trips = 0\<rparr>"

definition net_pnl :: "Position \<Rightarrow> int" where
  "net_pnl p = s64 (realized_pnl p - fees p)"

definition unrealized_pnl :: "int \<Rightarrow> Position \<Rightarrow> int" where
  "unrealized_pnl mark p = s64 (net_qty p * s64 (mark - avg_price p))"

definition total_pnl :: "int \<Rightarrow> Position \<Rightarrow> int" where
  "total_pnl mark p = s64 (s64 (realized_pnl p + unrealized_pnl mark p) - fees p)"

section \<open>State\<close>

record oms =
  orders :: "(int, Order) hmap"
  positions :: "(64 word, Position) hmap"
  next_id :: int
  max_position :: int
  max_order_value :: int
  commission_fp :: int
  total_fees :: int
  last_reject :: OMSReject
  reject_counts :: "int list"
  total_submitted :: int
  total_fills :: int
  total_cancels :: int
  total_replaces :: int
  total_ordered_shares :: int
  total_filled_shares :: int
  total_traded_notional :: dbl
  total_submitted_notional :: dbl
  max_submitted_notional :: dbl
  price_improvement_fp :: int
  round_trips :: int

definition oms_init :: "int \<Rightarrow> dbl \<Rightarrow> dbl \<Rightarrow> oms" where
  "oms_init max_pos max_val commission = \<lparr>orders = [], positions = [], next_id = 1,
     max_position = max_pos, max_order_value = d_to_s64 max_val,
     commission_fp = d_to_s64 (dadd (dmul commission (d_of_int PRICE_SCALE)) (Fin (1 / 2))),
     total_fees = 0, last_reject = R_NONE, reject_counts = [0, 0, 0, 0], total_submitted = 0,
     total_fills = 0, total_cancels = 0, total_replaces = 0, total_ordered_shares = 0,
     total_filled_shares = 0, total_traded_notional = Fin 0, total_submitted_notional = Fin 0,
     max_submitted_notional = Fin 0, price_improvement_fp = 0, round_trips = 0\<rparr>"

definition working :: "Order \<Rightarrow> bool" where
  "working ord \<longleftrightarrow> o_status ord = SENT \<or> o_status ord = PARTIAL"

definition signed_qty :: "Side \<Rightarrow> int \<Rightarrow> int" where
  "signed_qty sd qty = (if sd = BUY then s32 qty else s32 (- s32 qty))"

section \<open>Submit\<close>

definition oms_fail :: "OMSReject \<Rightarrow> oms \<Rightarrow> oms \<times> (OMSReject + int)" where
  "oms_fail r s = (s\<lparr>last_reject := r,
     reject_counts := (reject_counts s)[reject_idx r := u64 (reject_counts s ! reject_idx r + 1)]\<rparr>, Inl r)"

definition bad_input :: "byte list option \<Rightarrow> dbl \<Rightarrow> int \<Rightarrow> bool" where
  "bad_input symbol price_f quantity \<longleftrightarrow> isnan price_f \<or> to_fixed price_f \<le> 0 \<or> quantity = 0
     \<or> (case symbol of None \<Rightarrow> True | Some sy \<Rightarrow> sy = [] \<or> hd sy = 0)"

definition order_value :: "int \<Rightarrow> int \<Rightarrow> int" where
  "order_value price quantity = s64 (tdiv price PRICE_SCALE * quantity)"

text \<open>The net and pending quantity of a symbol, zero when it has no position.\<close>

definition cur_real :: "64 word \<Rightarrow> oms \<Rightarrow> int" where
  "cur_real key s = (case map_of (positions s) key of None \<Rightarrow> 0 | Some p \<Rightarrow> net_qty p)"

definition cur_pend :: "64 word \<Rightarrow> oms \<Rightarrow> int" where
  "cur_pend key s = (case map_of (positions s) key of None \<Rightarrow> 0 | Some p \<Rightarrow> pending_qty p)"

text \<open>\<open>positions_.find(key)\<close>, creating the record when there is none.\<close>

definition find_or_make :: "byte list \<Rightarrow> oms \<Rightarrow> Position" where
  "find_or_make sy s = (case map_of (positions s) (sym_to_key sy) of None \<Rightarrow> mk_position sy | Some p \<Rightarrow> p)"

text \<open>The part of \<open>submit_order\<close> after the checks: create the order, reserve pending, count.\<close>

definition accept_order :: "int \<Rightarrow> int \<Rightarrow> byte list \<Rightarrow> Side \<Rightarrow> dbl \<Rightarrow> int \<Rightarrow> int \<Rightarrow> oms \<Rightarrow> oms" where
  "accept_order t0 t1 sy sd price_f quantity expire s =
     (let oid = next_id s;
          ord = (mk_order oid sy sd (to_fixed price_f) quantity)
                  \<lparr>o_created_ns := t0, o_sent_ns := t1, o_status := SENT, o_expire_ns := expire\<rparr>;
          pos = find_or_make sy s;
          notional = dmul price_f (d_of_int quantity)
      in s\<lparr>last_reject := R_NONE, next_id := u64 (oid + 1),
           orders := AList.update oid ord (orders s),
           positions := AList.update (sym_to_key sy)
             (pos\<lparr>pending_qty := s32 (pending_qty pos + signed_qty sd quantity)\<rparr>) (positions s),
           total_submitted := u64 (total_submitted s + 1),
           total_ordered_shares := u64 (total_ordered_shares s + quantity),
           total_submitted_notional := dadd (total_submitted_notional s) notional,
           max_submitted_notional := (if dlt (max_submitted_notional s) notional then notional
                                      else max_submitted_notional s)\<rparr>)"

definition submit_order ::
  "int \<Rightarrow> int \<Rightarrow> byte list option \<Rightarrow> Side \<Rightarrow> dbl \<Rightarrow> int \<Rightarrow> int \<Rightarrow> oms \<Rightarrow> oms \<times> (OMSReject + int)" where
  "submit_order t0 t1 symbol sd price_f quantity expire s =
     (if bad_input symbol price_f quantity then oms_fail INVALID_INPUT s
      else if order_value (to_fixed price_f) quantity > max_order_value s then oms_fail ORDER_VALUE s
      else let key = sym_to_key (the symbol)
           in if sabs32 (s32 (s32 (cur_real key s + cur_pend key s) + signed_qty sd quantity)) > max_position s
              then oms_fail POSITION_LIMIT s
              else (accept_order t0 t1 (the symbol) sd price_f quantity expire s, Inr (next_id s)))"

section \<open>Fill\<close>

definition apply_fill_to_position :: "int \<Rightarrow> int \<Rightarrow> int \<Rightarrow> Position \<Rightarrow> Position" where
  "apply_fill_to_position signed_fill fill_qty fill_price pos =
     (let old_net = net_qty pos;
          new_net = s32 (old_net + signed_fill);
          same_dir = (old_net = 0 \<or> (old_net > 0) = (signed_fill > 0));
          p1 = (if same_dir then
                  let old_abs = sabs32 old_net; tot_abs = s64 (old_abs + fill_qty)
                  in pos\<lparr>avg_price := tdiv (s64 (s64 (s64 (avg_price pos * old_abs) + s64 (fill_price * fill_qty))
                                              + tdiv tot_abs 2)) tot_abs,
                         net_qty := new_net\<rparr>
                else
                  let close_qty = min (sabs32 old_net) fill_qty;
                      gain = (if old_net > 0 then s64 (fill_price - avg_price pos)
                              else s64 (avg_price pos - fill_price));
                      p2 = pos\<lparr>realized_pnl := s64 (realized_pnl pos + s64 (close_qty * gain)), net_qty := new_net\<rparr>
                  in if new_net = 0 then p2\<lparr>avg_price := 0\<rparr>
                     else if (old_net > 0) \<noteq> (new_net > 0) then p2\<lparr>avg_price := fill_price\<rparr>
                     else p2)
      in p1\<lparr>total_cost := s64 (avg_price p1 * sabs32 (net_qty p1))\<rparr>)"

text \<open>The remaining quantity of an order and the quantity a fill applies after the clamp.\<close>

definition remaining :: "Order \<Rightarrow> int" where
  "remaining ord = (if o_filled ord < o_quantity ord then u32 (o_quantity ord - o_filled ord) else 0)"

definition fill_on_order :: "int \<Rightarrow> int \<Rightarrow> int \<Rightarrow> Order \<Rightarrow> Order" where
  "fill_on_order t q fill_price ord =
     (let f = u32 (o_filled ord + q)
      in ord\<lparr>o_filled := f, o_fill_notional := s64 (o_fill_notional ord + s64 (q * fill_price)),
             o_fill_count := u32 (o_fill_count ord + 1),
             o_status := (if f \<ge> o_quantity ord then FILLED else PARTIAL), o_filled_ns := t\<rparr>)"

text \<open>The position of a fill: pending to net, round trips, commission.\<close>

definition round_trip :: "int \<Rightarrow> int \<Rightarrow> bool" where
  "round_trip before aft \<longleftrightarrow> before \<noteq> 0 \<and> (aft = 0 \<or> (before > 0) \<noteq> (aft > 0))"

definition fill_on_position :: "int \<Rightarrow> Side \<Rightarrow> int \<Rightarrow> int \<Rightarrow> Position \<Rightarrow> Position" where
  "fill_on_position commission sd q fill_price pos =
     (let sf = signed_qty sd q;
          p1 = apply_fill_to_position sf q fill_price (pos\<lparr>pending_qty := s32 (pending_qty pos - sf)\<rparr>);
          p2 = (if round_trip (net_qty pos) (net_qty p1)
                then p1\<lparr>p_round_trips := u32 (p_round_trips p1 + 1)\<rparr> else p1)
      in if commission \<noteq> 0 then p2\<lparr>fees := s64 (fees p2 + s64 (q * commission))\<rparr> else p2)"

text \<open>The update of the whole state by a fill of \<open>q > 0\<close> shares on a working order.\<close>

definition apply_fill :: "int \<Rightarrow> int \<Rightarrow> Order \<Rightarrow> int \<Rightarrow> dbl \<Rightarrow> oms \<Rightarrow> oms" where
  "apply_fill t oid ord q fill_price_f s =
     (let fp = to_fixed fill_price_f;
          pos = find_or_make (o_symbol ord) s;
          pos' = fill_on_position (commission_fp s) (o_side ord) q fp pos;
          gain = (if o_side ord = BUY then s64 (o_price ord - fp) else s64 (fp - o_price ord))
      in s\<lparr>orders := AList.update oid (fill_on_order t q fp ord) (orders s),
           total_fills := u64 (total_fills s + 1),
           total_filled_shares := u64 (total_filled_shares s + q),
           total_traded_notional := dadd (total_traded_notional s) (dmul (d_of_int q) fill_price_f),
           price_improvement_fp := s64 (price_improvement_fp s + s64 (gain * q)),
           positions := AList.update (sym_to_key (o_symbol ord)) pos' (positions s),
           round_trips := (if round_trip (net_qty pos) (net_qty pos') then u64 (round_trips s + 1) else round_trips s),
           total_fees := (if commission_fp s \<noteq> 0 then s64 (total_fees s + s64 (q * commission_fp s))
                          else total_fees s)\<rparr>)"

definition fill_order :: "int \<Rightarrow> int \<Rightarrow> int \<Rightarrow> dbl \<Rightarrow> oms \<Rightarrow> oms \<times> int" where
  "fill_order t oid fill_qty fill_price_f s =
     (if fill_qty = 0 then (s, 0)
      else case map_of (orders s) oid of
        None \<Rightarrow> (s, 0)
      | Some ord \<Rightarrow>
          if \<not> working ord then (s, 0)
          else let q = min fill_qty (remaining ord)
               in if q = 0 then (s, 0) else (apply_fill t oid ord q fill_price_f s, q))"

section \<open>Cancel and replace\<close>

definition signed_remaining :: "Order \<Rightarrow> int" where
  "signed_remaining ord = signed_qty (o_side ord) (u32 (s32 (s32 (o_quantity ord) - s32 (o_filled ord))))"

definition cancel_order :: "int \<Rightarrow> int \<Rightarrow> oms \<Rightarrow> oms" where
  "cancel_order t oid s =
     (case map_of (orders s) oid of
        None \<Rightarrow> s
      | Some ord \<Rightarrow>
          if \<not> working ord then s
          else let key = sym_to_key (o_symbol ord)
               in s\<lparr>positions := (case map_of (positions s) key of
                        None \<Rightarrow> positions s
                      | Some pos \<Rightarrow> AList.update key
                          (pos\<lparr>pending_qty := s32 (pending_qty pos - signed_remaining ord)\<rparr>) (positions s)),
                    orders := AList.update oid (ord\<lparr>o_status := CANCELLED, o_cancelled_ns := t\<rparr>) (orders s),
                    total_cancels := u64 (total_cancels s + 1)\<rparr>)"

definition replace_on_order :: "int \<Rightarrow> int \<Rightarrow> Order \<Rightarrow> Order" where
  "replace_on_order new_price new_quantity ord =
     ord\<lparr>o_price := new_price, o_quantity := new_quantity,
         o_status := (if o_filled ord \<ge> new_quantity then FILLED
                      else if o_filled ord > 0 then PARTIAL else SENT)\<rparr>"

definition replace_order :: "int \<Rightarrow> dbl \<Rightarrow> int \<Rightarrow> oms \<Rightarrow> oms \<times> bool" where
  "replace_order oid new_price_f new_quantity s =
     (case map_of (orders s) oid of
        None \<Rightarrow> (s, False)
      | Some ord \<Rightarrow>
          if \<not> working ord then (s, False)
          else let new_price = to_fixed new_price_f in
            if isnan new_price_f \<or> new_price \<le> 0 \<or> new_quantity = 0 \<or> new_quantity < o_filled ord
            then (s, False)
            else if order_value new_price new_quantity > max_order_value s then (s, False)
            else let key = sym_to_key (o_symbol ord);
                     old_pend = signed_remaining ord;
                     new_pend = signed_remaining (ord\<lparr>o_quantity := new_quantity\<rparr>);
                     projected = s32 (cur_real key s + s32 (s32 (cur_pend key s - old_pend) + new_pend))
                 in if sabs32 projected > max_position s then (s, False)
                    else (s\<lparr>positions := (case map_of (positions s) key of
                                None \<Rightarrow> positions s
                              | Some pos \<Rightarrow> AList.update key
                                  (pos\<lparr>pending_qty := s32 (pending_qty pos + s32 (new_pend - old_pend))\<rparr>) (positions s)),
                            orders := AList.update oid (replace_on_order new_price new_quantity ord) (orders s),
                            total_replaces := u64 (total_replaces s + 1)\<rparr>, True))"

definition amend_quantity :: "int \<Rightarrow> int \<Rightarrow> oms \<Rightarrow> oms \<times> bool" where
  "amend_quantity oid new_quantity s =
     (case map_of (orders s) oid of
        None \<Rightarrow> (s, False)
      | Some ord \<Rightarrow>
          if \<not> working ord then (s, False)
          else if new_quantity \<ge> o_quantity ord then (s, False)
          else if new_quantity < o_filled ord then (s, False)
          else replace_order oid (to_float (o_price ord)) new_quantity s)"

text \<open>
  The three mass cancels walk the map and call \<open>cancel_order\<close> on the entries that match; a cancel
  changes an entry in place and not the walk.  The clock is read once per cancel: \<open>clk n\<close> is the
  value of the \<open>n\<close>-th read.
\<close>

fun cancel_walk :: "(nat \<Rightarrow> int) \<Rightarrow> (Order \<Rightarrow> bool) \<Rightarrow> int list \<Rightarrow> oms \<Rightarrow> nat \<Rightarrow> oms \<times> nat" where
  "cancel_walk clk sel [] s n = (s, n)"
| "cancel_walk clk sel (oid # rest) s n =
     (case map_of (orders s) oid of
        None \<Rightarrow> cancel_walk clk sel rest s n
      | Some ord \<Rightarrow> if working ord \<and> sel ord then cancel_walk clk sel rest (cancel_order (clk n) oid s) (Suc n)
                   else cancel_walk clk sel rest s n)"

definition cancel_all :: "(nat \<Rightarrow> int) \<Rightarrow> oms \<Rightarrow> oms \<times> nat" where
  "cancel_all clk s = cancel_walk clk (\<lambda>_. True) (map fst (orders s)) s 0"

definition purge_expired :: "(nat \<Rightarrow> int) \<Rightarrow> int \<Rightarrow> oms \<Rightarrow> oms \<times> nat" where
  "purge_expired clk now s =
     cancel_walk clk (\<lambda>ord. o_expire_ns ord > 0 \<and> o_expire_ns ord \<le> now) (map fst (orders s)) s 0"

definition cancel_all_symbol :: "(nat \<Rightarrow> int) \<Rightarrow> byte list \<Rightarrow> oms \<Rightarrow> oms \<times> nat" where
  "cancel_all_symbol clk sy s =
     cancel_walk clk (\<lambda>ord. sym_to_key (o_symbol ord) = sym_to_key sy) (map fst (orders s)) s 0"

definition set_commission :: "dbl \<Rightarrow> oms \<Rightarrow> oms" where
  "set_commission per_share s =
     s\<lparr>commission_fp := d_to_s64 (dadd (dmul per_share (d_of_int PRICE_SCALE)) (Fin (1 / 2)))\<rparr>"

definition reset_session_counters :: "oms \<Rightarrow> oms" where
  "reset_session_counters s = s\<lparr>total_submitted := 0, total_fills := 0, total_cancels := 0,
     total_replaces := 0, total_ordered_shares := 0, total_filled_shares := 0,
     total_traded_notional := Fin 0, total_submitted_notional := Fin 0, max_submitted_notional := Fin 0,
     price_improvement_fp := 0, round_trips := 0, reject_counts := replicate (length (reject_counts s)) 0\<rparr>"

section \<open>The books agree\<close>

text \<open>
  The signed quantity an order still has working, and the agreement of the two maps: the pending
  quantity of every position is the wrapped sum of what the working orders of its symbol still
  have to trade, and every order has a position.
\<close>

definition sgn_side :: "Side \<Rightarrow> int" where
  "sgn_side sd = (if sd = BUY then 1 else - 1)"

definition signed_rem :: "Order \<Rightarrow> int" where
  "signed_rem ord = (if working ord then sgn_side (o_side ord) * (o_quantity ord - o_filled ord) else 0)"

definition contrib :: "64 word \<Rightarrow> Order \<Rightarrow> int" where
  "contrib key ord = (if sym_to_key (o_symbol ord) = key then signed_rem ord else 0)"

definition books_ok :: "(int, Order) hmap \<Rightarrow> (64 word, Position) hmap \<Rightarrow> bool" where
  "books_ok os ps \<longleftrightarrow> hm_wf os \<and> hm_wf ps
     \<and> (\<forall>key p. map_of ps key = Some p \<longrightarrow> pending_qty p = s32 (hm_sum (contrib key) os))
     \<and> (\<forall>(k, ord) \<in> set os. map_of ps (sym_to_key (o_symbol ord)) \<noteq> None)"

definition order_ok :: "Order \<Rightarrow> bool" where
  "order_ok ord \<longleftrightarrow> sym_chars (o_symbol ord) = o_symbol ord \<and> 0 < o_quantity ord \<and> o_quantity ord < 2 ^ 32
     \<and> 0 \<le> o_filled ord \<and> o_filled ord \<le> o_quantity ord
     \<and> (case o_status ord of SENT \<Rightarrow> o_filled ord = 0 | PARTIAL \<Rightarrow> 0 < o_filled ord \<and> o_filled ord < o_quantity ord
        | FILLED \<Rightarrow> o_filled ord = o_quantity ord | CANCELLED \<Rightarrow> o_filled ord < o_quantity ord | _ \<Rightarrow> False)"

definition oms_inv :: "oms \<Rightarrow> bool" where
  "oms_inv s \<longleftrightarrow> books_ok (orders s) (positions s) \<and> 0 < next_id s
     \<and> (\<forall>(k, ord) \<in> set (orders s). o_id ord = k \<and> 0 < k \<and> k < next_id s \<and> order_ok ord)"

lemma sym_chars_idem [simp]: "sym_chars (sym_chars sy) = sym_chars sy"
  using sym_chars_props [of sy] by (simp add: sym_chars_def takeWhile_eq_all_conv [THEN iffD2])

lemma sym_to_key_chars [simp]: "sym_to_key (sym_chars sy) = sym_to_key sy"
  by (simp add: sym_to_key_def)

lemma signed_qty_alt: "signed_qty sd q = s32 (sgn_side sd * q)"
  by (simp add: signed_qty_def sgn_side_def wrap_simps)

lemma signed_remaining_alt: "signed_remaining ord = s32 (sgn_side (o_side ord) * (o_quantity ord - o_filled ord))"
  by (simp add: signed_remaining_def signed_qty_def sgn_side_def wrap_simps)

lemma no_position_no_sum:
  "(\<And>k ord. (k, ord) \<in> set os \<Longrightarrow> sym_to_key (o_symbol ord) \<noteq> key) \<Longrightarrow> hm_sum (contrib key) os = 0"
proof (induction os)
  case (Cons x os)
  obtain k ord where x: "x = (k, ord)" by (cases x)
  have "sym_to_key (o_symbol ord) \<noteq> key" using Cons.prems [of k ord] by (simp add: x)
  moreover have "hm_sum (contrib key) os = 0" by (rule Cons.IH) (use Cons.prems in auto)
  ultimately show ?case by (simp add: x contrib_def [of key ord])
qed simp

lemma books_ok_update:
  assumes ok: "books_ok os ps"
    and old: "\<And>ord. map_of os oid = Some ord \<Longrightarrow> sym_to_key (o_symbol ord) = sym_to_key (o_symbol ord')"
    and pos: "map_of ps (sym_to_key (o_symbol ord')) = Some p \<or>
              map_of ps (sym_to_key (o_symbol ord')) = None \<and> pending_qty p = 0"
    and pend: "pending_qty p' = s32 (pending_qty p + (signed_rem ord' - hm_val signed_rem (map_of os oid)))"
  shows "books_ok (AList.update oid ord' os) (AList.update (sym_to_key (o_symbol ord')) p' ps)"
proof -
  let ?K = "sym_to_key (o_symbol ord')"
  let ?os = "AList.update oid ord' os" and ?ps = "AList.update ?K p' ps"
  have wf: "hm_wf os" "hm_wf ps" and agree: "\<And>key q. map_of ps key = Some q \<Longrightarrow> pending_qty q = s32 (hm_sum (contrib key) os)"
    and has: "\<And>k ord. (k, ord) \<in> set os \<Longrightarrow> map_of ps (sym_to_key (o_symbol ord)) \<noteq> None"
    using ok by (auto simp: books_ok_def)
  have sum: "hm_sum (contrib key) ?os = hm_sum (contrib key) os
      + (if key = ?K then signed_rem ord' - hm_val signed_rem (map_of os oid) else 0)" for key
    using old by (cases "map_of os oid") (auto simp: hm_sum_update [OF wf(1)] contrib_def)
  have p: "pending_qty p = s32 (hm_sum (contrib ?K) os)"
  proof (cases "map_of ps ?K")
    case None
    then have "hm_sum (contrib ?K) os = 0" by (intro no_position_no_sum) (use has in force)
    with None pos show ?thesis by (simp add: s32_def)
  next
    case (Some q)
    with pos agree [OF Some] show ?thesis by simp
  qed
  have "pending_qty q = s32 (hm_sum (contrib key) ?os)" if "map_of ?ps key = Some q" for key q
  proof (cases "key = ?K")
    case True
    then have "q = p'" using that by (simp add: alist_simps)
    then show ?thesis using True p pend by (simp add: sum wrap_simps)
  next
    case False
    then show ?thesis using that agree [of key q] by (simp add: sum alist_simps)
  qed
  moreover have "map_of ?ps (sym_to_key (o_symbol ord)) \<noteq> None" if "(k, ord) \<in> set ?os" for k ord
    using hm_set_update [OF that] has [of k ord] by (auto simp: update_conv')
  ultimately show ?thesis using wf by (auto simp: books_ok_def alist_simps)
qed

text \<open>One operation on one order: the shape every state change below has.\<close>

lemma oms_inv_update:
  assumes inv: "oms_inv s"
    and ord: "map_of (orders s) oid = Some ord"
    and pos: "map_of (positions s) (sym_to_key (o_symbol ord)) = Some p"
    and ord': "o_symbol ord' = o_symbol ord" "o_id ord' = o_id ord" "order_ok ord'"
    and pend: "pending_qty p' = s32 (pending_qty p + (signed_rem ord' - signed_rem ord))"
    and s': "orders s' = AList.update oid ord' (orders s)" "next_id s' = next_id s"
      "positions s' = AList.update (sym_to_key (o_symbol ord)) p' (positions s)"
  shows "oms_inv s'"
proof -
  have "books_ok (orders s') (positions s')"
    unfolding s' ord'(1) [symmetric]
    by (rule books_ok_update [where p = p]) (use inv ord pos pend ord'(1) in \<open>auto simp: oms_inv_def\<close>)
  moreover have "o_id x = k \<and> 0 < k \<and> k < next_id s' \<and> order_ok x" if "(k, x) \<in> set (orders s')" for k x
    using hm_set_update [OF that [unfolded s']] inv map_of_SomeD [OF ord] ord' s'(2)
    by (auto simp: oms_inv_def)
  ultimately show ?thesis using inv s'(2) by (auto simp: oms_inv_def)
qed

lemma oms_inv_order:
  assumes "oms_inv s" "map_of (orders s) oid = Some ord"
  shows "order_ok ord" "o_id ord = oid" "oid < next_id s" "0 < oid"
    "\<exists>p. map_of (positions s) (sym_to_key (o_symbol ord)) = Some p"
  using assms map_of_SomeD [OF assms(2)] by (auto simp: oms_inv_def books_ok_def)

lemma working_cases: "working ord \<longleftrightarrow> o_status ord = SENT \<or> o_status ord = PARTIAL"
  by (simp add: working_def)

lemma remaining_ok: "order_ok ord \<Longrightarrow> remaining ord = o_quantity ord - o_filled ord"
  by (auto simp: remaining_def order_ok_def u32_id)

lemma fill_on_order_ok:
  assumes "order_ok ord" "working ord" "0 < q" "q \<le> o_quantity ord - o_filled ord"
  shows "order_ok (fill_on_order t q fp ord)"
    "signed_rem (fill_on_order t q fp ord) = signed_rem ord - sgn_side (o_side ord) * q"
proof -
  have "u32 (o_filled ord + q) = o_filled ord + q" using assms by (simp add: order_ok_def u32_id)
  then show "order_ok (fill_on_order t q fp ord)"
    "signed_rem (fill_on_order t q fp ord) = signed_rem ord - sgn_side (o_side ord) * q"
    using assms by (auto simp: order_ok_def fill_on_order_def Let_def signed_rem_def working_def algebra_simps)
qed

lemma fill_on_position_pending:
  "pending_qty (fill_on_position c sd q fp pos) = s32 (pending_qty pos - signed_qty sd q)"
  by (simp add: fill_on_position_def apply_fill_to_position_def Let_def)

lemma fill_on_position_net: "net_qty (fill_on_position c sd q fp pos) = s32 (net_qty pos + signed_qty sd q)"
  by (simp add: fill_on_position_def apply_fill_to_position_def Let_def)

lemma fill_order_inv:
  assumes inv: "oms_inv s" and q0: "0 \<le> fill_qty"
  shows "oms_inv (fst (fill_order t oid fill_qty px s))"
proof (cases "fill_qty \<noteq> 0 \<and> map_of (orders s) oid \<noteq> None \<and> working (the (map_of (orders s) oid))
      \<and> min fill_qty (remaining (the (map_of (orders s) oid))) \<noteq> 0")
  case False
  then have "fst (fill_order t oid fill_qty px s) = s"
    by (auto simp: fill_order_def Let_def split: option.splits)
  with inv show ?thesis by simp
next
  case True
  then obtain ord where ord: "map_of (orders s) oid = Some ord" by blast
  let ?q = "min fill_qty (remaining ord)"
  have w: "working ord" "?q \<noteq> 0" "fill_qty \<noteq> 0" using True ord by simp_all
  have ok: "order_ok ord" using oms_inv_order [OF inv ord] by simp
  have q: "0 < ?q" "?q \<le> o_quantity ord - o_filled ord"
    using w q0 remaining_ok [OF ok] ok by (auto simp: order_ok_def)
  obtain p where p: "map_of (positions s) (sym_to_key (o_symbol ord)) = Some p"
    using oms_inv_order(5) [OF inv ord] by blast
  have "fst (fill_order t oid fill_qty px s) = apply_fill t oid ord ?q px s"
    using w ord by (simp add: fill_order_def Let_def)
  also have "oms_inv \<dots>"
    by (rule oms_inv_update [OF inv ord p _ _ fill_on_order_ok(1) [OF ok w(1) q],
          where t1 = t and fp1 = "to_fixed px" and p' = "fill_on_position (commission_fp s) (o_side ord) ?q (to_fixed px) p"])
      (use p fill_on_order_ok(2) [OF ok w(1) q] in
        \<open>simp_all add: apply_fill_def Let_def find_or_make_def fill_on_position_pending signed_qty_alt
          fill_on_order_def wrap_simps\<close>)
  finally show ?thesis .
qed

lemma cancel_order_inv:
  assumes inv: "oms_inv s"
  shows "oms_inv (cancel_order t oid s)"
proof (cases "\<exists>ord. map_of (orders s) oid = Some ord \<and> working ord")
  case False
  then have "cancel_order t oid s = s" by (auto simp: cancel_order_def split: option.splits)
  with inv show ?thesis by simp
next
  case True
  then obtain ord where ord: "map_of (orders s) oid = Some ord" and w: "working ord" by blast
  have ok: "order_ok ord" using oms_inv_order [OF inv ord] by simp
  obtain p where p: "map_of (positions s) (sym_to_key (o_symbol ord)) = Some p"
    using oms_inv_order(5) [OF inv ord] by blast
  have ok': "order_ok (ord\<lparr>o_status := CANCELLED, o_cancelled_ns := t\<rparr>)"
    using ok w by (auto simp: order_ok_def working_def)
  show ?thesis
    by (rule oms_inv_update [OF inv ord p _ _ ok',
          where p' = "p\<lparr>pending_qty := s32 (pending_qty p - signed_remaining ord)\<rparr>"])
      (use ord w p in \<open>simp_all add: cancel_order_def Let_def signed_remaining_alt signed_rem_def working_def wrap_simps\<close>)
qed

text \<open>An accepted replace.\<close>

lemma replace_order_cases:
  obtains "replace_order oid px new_quantity s = (s, False)"
  | ord s' where "map_of (orders s) oid = Some ord" "working ord" "\<not> isnan px" "0 < to_fixed px"
      "new_quantity \<noteq> 0" "o_filled ord \<le> new_quantity"
      "order_value (to_fixed px) new_quantity \<le> max_order_value s"
      "sabs32 (s32 (cur_real (sym_to_key (o_symbol ord)) s + (cur_pend (sym_to_key (o_symbol ord)) s
          + (signed_remaining (ord\<lparr>o_quantity := new_quantity\<rparr>) - signed_remaining ord)))) \<le> max_position s"
      "replace_order oid px new_quantity s = (s', True)"
      "s' = s\<lparr>positions := (case map_of (positions s) (sym_to_key (o_symbol ord)) of None \<Rightarrow> positions s
           | Some pos \<Rightarrow> AList.update (sym_to_key (o_symbol ord)) (pos\<lparr>pending_qty := s32 (pending_qty pos
               + s32 (signed_remaining (ord\<lparr>o_quantity := new_quantity\<rparr>) - signed_remaining ord))\<rparr>) (positions s)),
         orders := AList.update oid (replace_on_order (to_fixed px) new_quantity ord) (orders s),
         total_replaces := u64 (total_replaces s + 1)\<rparr>"
proof (cases "snd (replace_order oid px new_quantity s)")
  case False
  then have "replace_order oid px new_quantity s = (s, False)"
    by (auto simp: replace_order_def Let_def split: option.splits if_splits)
  then show thesis by (rule that(1))
next
  case True
  then obtain ord where ord: "map_of (orders s) oid = Some ord" "working ord"
    by (fastforce simp: replace_order_def split: option.splits if_splits)
  have "s32 (cur_real k s + s32 (s32 (cur_pend k s - a) + b)) = s32 (cur_real k s + (cur_pend k s + (b - a)))" for k a b
    by (simp add: wrap_simps algebra_simps)
  with True ord show thesis
    by (intro that(2) [of ord]) (auto simp: replace_order_def Let_def split: if_splits)
qed

lemma replace_order_inv:
  assumes inv: "oms_inv s" and q: "0 \<le> new_quantity" "new_quantity < 2 ^ 32"
  shows "oms_inv (fst (replace_order oid px new_quantity s))"
proof (cases rule: replace_order_cases [of oid px new_quantity s])
  case 1
  then show ?thesis using inv by simp
next
  case (2 ord s')
  have ok: "order_ok ord" using oms_inv_order [OF inv 2(1)] by simp
  obtain p where p: "map_of (positions s) (sym_to_key (o_symbol ord)) = Some p"
    using oms_inv_order(5) [OF inv 2(1)] by blast
  let ?ord = "replace_on_order (to_fixed px) new_quantity ord"
  have ok': "order_ok ?ord" using ok 2(2-6) q by (auto simp: order_ok_def working_def replace_on_order_def)
  have rem: "signed_rem ?ord = sgn_side (o_side ord) * (new_quantity - o_filled ord)"
    using 2(2-6) by (auto simp: signed_rem_def working_def replace_on_order_def)
  let ?d = "s32 (signed_remaining (ord\<lparr>o_quantity := new_quantity\<rparr>) - signed_remaining ord)"
  have pend: "s32 (pending_qty p + ?d) = s32 (pending_qty p + (signed_rem ?ord - signed_rem ord))"
    using 2(2) by (simp add: rem signed_remaining_alt signed_rem_def [of ord] wrap_simps)
  have "oms_inv s'"
    by (rule oms_inv_update [OF inv 2(1) p _ _ ok', where p' = "p\<lparr>pending_qty := s32 (pending_qty p + ?d)\<rparr>"])
      (use p pend in \<open>simp_all add: 2(10) replace_on_order_def\<close>)
  then show ?thesis using 2(9) by simp
qed

lemma amend_quantity_inv:
  assumes "oms_inv s" "0 \<le> new_quantity" "new_quantity < 2 ^ 32"
  shows "oms_inv (fst (amend_quantity oid new_quantity s))"
  using assms replace_order_inv [OF assms] by (auto simp: amend_quantity_def split: option.splits)

lemma cancel_walk_inv: "oms_inv s \<Longrightarrow> oms_inv (fst (cancel_walk clk sel ids s n))"
  by (induction clk sel ids s n rule: cancel_walk.induct) (auto simp: cancel_order_inv split: option.splits)

lemma accept_order_inv:
  assumes inv: "oms_inv s" and q: "0 < quantity" "quantity < 2 ^ 32" and room: "next_id s + 1 < 2 ^ 64"
  shows "oms_inv (accept_order t0 t1 sy sd px quantity expire s)"
proof -
  let ?s = "accept_order t0 t1 sy sd px quantity expire s"
  let ?ord = "(mk_order (next_id s) sy sd (to_fixed px) quantity)
      \<lparr>o_created_ns := t0, o_sent_ns := t1, o_status := SENT, o_expire_ns := expire\<rparr>"
  let ?p = "find_or_make sy s"
  have ids: "\<And>k x. (k, x) \<in> set (orders s) \<Longrightarrow> o_id x = k \<and> 0 < k \<and> k < next_id s \<and> order_ok x"
    and pos: "0 < next_id s" using inv by (auto simp: oms_inv_def)
  have fresh: "map_of (orders s) (next_id s) = None"
    using ids by (force simp: map_of_eq_None_iff)
  have nid: "u64 (next_id s + 1) = next_id s + 1" using room pos by (simp add: u64_id)
  have ok: "order_ok ?ord" using q by (simp add: order_ok_def mk_order_def)
  have key: "sym_to_key (o_symbol ?ord) = sym_to_key sy" by (simp add: mk_order_def)
  have rem: "signed_rem ?ord = sgn_side sd * quantity" by (simp add: signed_rem_def working_def mk_order_def)
  have "books_ok (AList.update (next_id s) ?ord (orders s))
      (AList.update (sym_to_key (o_symbol ?ord)) (?p\<lparr>pending_qty := s32 (pending_qty ?p + signed_qty sd quantity)\<rparr>) (positions s))"
    by (rule books_ok_update [where p = ?p])
      (use inv fresh rem key in \<open>auto simp: oms_inv_def find_or_make_def mk_position_def signed_qty_alt wrap_simps
        split: option.splits\<close>)
  then have "books_ok (orders ?s) (positions ?s)" unfolding key by (simp add: accept_order_def Let_def)
  moreover have "o_id x = k \<and> 0 < k \<and> k < next_id ?s \<and> order_ok x" if "(k, x) \<in> set (orders ?s)" for k x
  proof -
    have "(k, x) = (next_id s, ?ord) \<or> (k, x) \<in> set (orders s)"
      using hm_set_update that by (fastforce simp: accept_order_def Let_def)
    moreover have "next_id ?s = next_id s + 1" using nid by (simp add: accept_order_def Let_def)
    ultimately show ?thesis using ids [of k x] ok pos by (auto simp: mk_order_def)
  qed
  ultimately show ?thesis using nid pos by (auto simp: oms_inv_def accept_order_def Let_def)
qed

lemma submit_order_cases:
  obtains r where "submit_order t0 t1 symbol sd px quantity expire s = oms_fail r s" "r \<noteq> R_NONE"
  | sy where "symbol = Some sy" "\<not> bad_input symbol px quantity"
      "order_value (to_fixed px) quantity \<le> max_order_value s"
      "sabs32 (s32 (cur_real (sym_to_key sy) s + cur_pend (sym_to_key sy) s + sgn_side sd * quantity)) \<le> max_position s"
      "submit_order t0 t1 symbol sd px quantity expire s
         = (accept_order t0 t1 sy sd px quantity expire s, Inr (next_id s))"
proof -
  let ?lim = "\<lambda>sy. sabs32 (s32 (cur_real (sym_to_key sy) s + cur_pend (sym_to_key sy) s + sgn_side sd * quantity))"
  have lim: "sabs32 (s32 (s32 (cur_real (sym_to_key sy) s + cur_pend (sym_to_key sy) s) + signed_qty sd quantity)) = ?lim sy" for sy
    by (simp add: signed_qty_alt wrap_simps)
  show thesis
  proof (cases symbol)
    case None
    then show thesis by (intro that(1) [of INVALID_INPUT]) (simp_all add: submit_order_def bad_input_def)
  next
    case (Some sy)
    consider "bad_input symbol px quantity"
      | "\<not> bad_input symbol px quantity" "order_value (to_fixed px) quantity > max_order_value s"
      | "\<not> bad_input symbol px quantity" "order_value (to_fixed px) quantity \<le> max_order_value s" "?lim sy > max_position s"
      | "\<not> bad_input symbol px quantity" "order_value (to_fixed px) quantity \<le> max_order_value s" "?lim sy \<le> max_position s"
      by linarith
    then show thesis
    proof cases
      case 1
      then show thesis by (intro that(1) [of INVALID_INPUT]) (simp_all add: submit_order_def)
    next
      case 2
      then show thesis by (intro that(1) [of ORDER_VALUE]) (simp_all add: submit_order_def)
    next
      case 3
      then show thesis by (intro that(1) [of POSITION_LIMIT]) (simp_all add: submit_order_def Some lim)
    next
      case 4
      then show thesis by (intro that(2) [OF Some]) (simp_all add: submit_order_def Some lim)
    qed
  qed
qed

lemma oms_fail_inv: "oms_inv s \<Longrightarrow> oms_inv (fst (oms_fail r s))"
  by (simp add: oms_inv_def oms_fail_def)

lemma submit_order_inv:
  assumes "oms_inv s" "0 \<le> quantity" "quantity < 2 ^ 32" "next_id s + 1 < 2 ^ 64"
  shows "oms_inv (fst (submit_order t0 t1 symbol sd px quantity expire s))"
proof (cases rule: submit_order_cases [of t0 t1 symbol sd px quantity expire s])
  case (1 r)
  then show ?thesis using oms_fail_inv [OF assms(1)] by simp
next
  case (2 sy)
  then have "0 < quantity" using assms(2) by (auto simp: bad_input_def)
  then show ?thesis using accept_order_inv [OF assms(1)] assms 2 by simp
qed

section \<open>Runs\<close>

datatype oms_op =
    OSubmit int int "byte list option" Side dbl int int
  | OFill int int int dbl
  | OCancel int int
  | OReplace int dbl int
  | OAmend int int
  | OCancelAll "nat \<Rightarrow> int"
  | OPurge "nat \<Rightarrow> int" int
  | OCancelSymbol "nat \<Rightarrow> int" "byte list"
  | OSetCommission dbl
  | OReset

primrec oms_exec :: "oms_op \<Rightarrow> oms \<Rightarrow> oms" where
  "oms_exec (OSubmit t0 t1 sy sd px q e) s = fst (submit_order t0 t1 sy sd px q e s)"
| "oms_exec (OFill t oid q px) s = fst (fill_order t oid q px s)"
| "oms_exec (OCancel t oid) s = cancel_order t oid s"
| "oms_exec (OReplace oid px q) s = fst (replace_order oid px q s)"
| "oms_exec (OAmend oid q) s = fst (amend_quantity oid q s)"
| "oms_exec (OCancelAll clk) s = fst (cancel_all clk s)"
| "oms_exec (OPurge clk now) s = fst (purge_expired clk now s)"
| "oms_exec (OCancelSymbol clk sy) s = fst (cancel_all_symbol clk sy s)"
| "oms_exec (OSetCommission c) s = set_commission c s"
| "oms_exec OReset s = reset_session_counters s"

text \<open>The quantities of a call are \<open>uint32_t\<close> values.\<close>

primrec oms_typed :: "oms_op \<Rightarrow> bool" where
  "oms_typed (OSubmit t0 t1 sy sd px q e) = (0 \<le> q \<and> q < 2 ^ 32)"
| "oms_typed (OFill t oid q px) = (0 \<le> q \<and> q < 2 ^ 32)"
| "oms_typed (OCancel t oid) = True"
| "oms_typed (OReplace oid px q) = (0 \<le> q \<and> q < 2 ^ 32)"
| "oms_typed (OAmend oid q) = (0 \<le> q \<and> q < 2 ^ 32)"
| "oms_typed (OCancelAll clk) = True"
| "oms_typed (OPurge clk now) = True"
| "oms_typed (OCancelSymbol clk sy) = True"
| "oms_typed (OSetCommission c) = True"
| "oms_typed OReset = True"

lemma cancel_order_frame [simp]:
  "next_id (cancel_order t oid s) = next_id s" "max_position (cancel_order t oid s) = max_position s"
  by (auto simp: cancel_order_def Let_def split: option.splits)

lemma cancel_walk_frame [simp]: "next_id (fst (cancel_walk clk sel ids s n)) = next_id s"
  by (induction clk sel ids s n rule: cancel_walk.induct) (auto split: option.splits)

lemma replace_order_frame [simp]: "next_id (fst (replace_order oid px q s)) = next_id s"
  by (cases rule: replace_order_cases [of oid px q s]) simp_all

lemma fill_order_frame [simp]: "next_id (fst (fill_order t oid q px s)) = next_id s"
  by (auto simp: fill_order_def apply_fill_def Let_def split: option.splits)

lemma next_id_exec:
  assumes "oms_inv s" "next_id s + 1 < 2 ^ 64"
  shows "next_id (oms_exec x s) \<le> next_id s + 1"
proof (cases x)
  case (OSubmit t0 t1 sy sd px q e)
  then show ?thesis
  proof (cases rule: submit_order_cases [of t0 t1 sy sd px q e s])
    case (2 y)
    then show ?thesis using OSubmit assms by (simp add: accept_order_def Let_def oms_inv_def u64_id)
  qed (simp add: OSubmit oms_fail_def)
next
  case (OAmend oid q)
  then show ?thesis by (auto simp: amend_quantity_def split: option.splits)
qed (simp_all add: cancel_all_def purge_expired_def cancel_all_symbol_def set_commission_def reset_session_counters_def)

lemma session_inv: "oms_inv s \<Longrightarrow> oms_inv (set_commission c s)" "oms_inv s \<Longrightarrow> oms_inv (reset_session_counters s)"
  by (simp_all add: set_commission_def reset_session_counters_def oms_inv_def)

lemma oms_exec_inv:
  assumes "oms_inv s" "oms_typed x" "next_id s + 1 < 2 ^ 64"
  shows "oms_inv (oms_exec x s)"
  using assms
  by (cases x) (simp_all add: submit_order_inv fill_order_inv cancel_order_inv replace_order_inv amend_quantity_inv
      cancel_all_def purge_expired_def cancel_all_symbol_def cancel_walk_inv session_inv)

lemma oms_run_inv:
  "oms_inv s \<Longrightarrow> (\<And>x. x \<in> set xs \<Longrightarrow> oms_typed x) \<Longrightarrow> next_id s + int (length xs) < 2 ^ 64 \<Longrightarrow>
     oms_inv (fold oms_exec xs s)"
proof (induction xs arbitrary: s)
  case (Cons x xs)
  have room: "next_id s + 1 < 2 ^ 64" using Cons.prems(3) by simp
  have "oms_inv (oms_exec x s)" by (rule oms_exec_inv) (use Cons.prems room in auto)
  moreover have "next_id (oms_exec x s) + int (length xs) < 2 ^ 64"
    using next_id_exec [OF Cons.prems(1) room, of x] Cons.prems(3) by simp
  ultimately show ?case using Cons.IH Cons.prems(2) by simp
qed simp

lemma oms_init_inv: "oms_inv (oms_init mp mv c)"
  by (simp add: oms_inv_def oms_init_def books_ok_def)

text \<open>A terminal order: nothing changes its record any more.\<close>

definition terminal :: "Order \<Rightarrow> bool" where
  "terminal ord \<longleftrightarrow> o_status ord = FILLED \<or> o_status ord = CANCELLED"

lemma terminal_not_working: "terminal ord \<Longrightarrow> \<not> working ord"
  by (auto simp: terminal_def working_def)

lemma cancel_order_other:
  assumes "map_of (orders s) k = Some ord" "terminal ord"
  shows "map_of (orders (cancel_order t oid s)) k = Some ord"
  using assms terminal_not_working [OF assms(2)]
  by (cases "k = oid") (auto simp: cancel_order_def Let_def alist_simps split: option.splits)

lemma cancel_walk_other:
  "map_of (orders s) k = Some ord \<Longrightarrow> terminal ord \<Longrightarrow> map_of (orders (fst (cancel_walk clk sel ids s n))) k = Some ord"
proof (induction clk sel ids s n rule: cancel_walk.induct)
  case (2 clk sel oid rest s n)
  then show ?case using cancel_order_other [of s k ord "clk n" oid] by (auto split: option.splits)
qed simp

lemma replace_order_other:
  assumes "map_of (orders s) k = Some ord" "terminal ord"
  shows "map_of (orders (fst (replace_order oid px q s))) k = Some ord"
proof (cases rule: replace_order_cases [of oid px q s])
  case (2 ord' s')
  then have "k \<noteq> oid" using assms terminal_not_working by auto
  then show ?thesis using 2 assms(1) by (simp add: alist_simps)
qed (simp add: assms)

lemma fill_order_other:
  assumes "map_of (orders s) k = Some ord" "terminal ord"
  shows "map_of (orders (fst (fill_order t oid q px s))) k = Some ord"
  using assms terminal_not_working [OF assms(2)]
  by (cases "k = oid") (auto simp: fill_order_def apply_fill_def Let_def alist_simps split: option.splits)

lemma exec_terminal:
  assumes inv: "oms_inv s" and ord: "map_of (orders s) k = Some ord" "terminal ord"
  shows "map_of (orders (oms_exec x s)) k = Some ord"
proof (cases x)
  case (OSubmit t0 t1 sy sd px q e)
  have "k \<noteq> next_id s" using oms_inv_order(3) [OF inv ord(1)] by simp
  then show ?thesis
    using ord by (cases rule: submit_order_cases [of t0 t1 sy sd px q e s])
      (simp_all add: OSubmit oms_fail_def accept_order_def Let_def alist_simps)
next
  case (OAmend oid q)
  then show ?thesis using ord replace_order_other [OF ord] by (auto simp: amend_quantity_def split: option.splits)
qed (simp_all add: ord fill_order_other cancel_order_other replace_order_other cancel_walk_other
      cancel_all_def purge_expired_def cancel_all_symbol_def set_commission_def reset_session_counters_def)

section \<open>Accounting of a fill\<close>

text \<open>The mark-to-market value of a position, over unbounded integers.\<close>

definition mtm :: "int \<Rightarrow> Position \<Rightarrow> int" where
  "mtm mark p = realized_pnl p + net_qty p * (mark - avg_price p)"

text \<open>Positions and fills small enough that no intermediate product leaves 64 bits.\<close>

definition pos_small :: "Position \<Rightarrow> bool" where
  "pos_small p \<longleftrightarrow> \<bar>net_qty p\<bar> < 2 ^ 30 \<and> 0 \<le> avg_price p \<and> avg_price p < 2 ^ 30 \<and> \<bar>realized_pnl p\<bar> < 2 ^ 61"

lemma prod_bound: "0 \<le> a \<Longrightarrow> a \<le> A \<Longrightarrow> 0 \<le> b \<Longrightarrow> b \<le> B \<Longrightarrow> 0 \<le> a * b \<and> a * b \<le> A * B" for a b A B :: int
  using mult_mono [of a A b B] by auto

lemma avg_entry:
  assumes "pos_small p" "0 < q" "q < 2 ^ 30" "0 \<le> px" "px < 2 ^ 30"
  defines "a \<equiv> \<bar>net_qty p\<bar>"
  shows "tdiv (s64 (s64 (s64 (avg_price p * sabs32 (net_qty p)) + s64 (px * q)) + tdiv (s64 (sabs32 (net_qty p) + q)) 2))
      (s64 (sabs32 (net_qty p) + q)) = (avg_price p * a + px * q + (a + q) div 2) div (a + q)"
proof -
  have a: "sabs32 (net_qty p) = a" "0 \<le> a" "a < 2 ^ 30"
    using assms(1) by (simp_all add: sabs32_def pos_small_def s32_id a_def)
  have "0 \<le> avg_price p * a \<and> avg_price p * a \<le> 2 ^ 30 * 2 ^ 30" "0 \<le> px * q \<and> px * q \<le> 2 ^ 30 * 2 ^ 30"
    using assms a by (intro prod_bound; simp add: pos_small_def)+
  then have b: "0 \<le> avg_price p * a" "avg_price p * a \<le> 2 ^ 60" "0 \<le> px * q" "px * q \<le> 2 ^ 60" by simp_all
  moreover have "0 \<le> (a + q) div 2" "(a + q) div 2 < 2 ^ 30" using assms(2,3) a by simp_all
  ultimately have "s64 (avg_price p * a + px * q + (a + q) div 2) = avg_price p * a + px * q + (a + q) div 2"
    by (intro s64_id) simp_all
  then show ?thesis using b assms(2,3) a by (simp add: wrap_simps s64_id tdiv_nonneg)
qed

lemma div_half:
  fixes A t :: int
  assumes "0 < t"
  shows "\<bar>(A + t div 2) div t * t - A\<bar> \<le> t div 2"
proof -
  have "(A + t div 2) div t * t = A + t div 2 - (A + t div 2) mod t" by (simp add: minus_mod_eq_div_mult [symmetric])
  moreover have "0 \<le> (A + t div 2) mod t" "(A + t div 2) mod t < t" using assms by simp_all
  ultimately show ?thesis by linarith
qed

lemma apply_fill_increase:
  assumes small: "pos_small p" "0 < q" "q < 2 ^ 30" "0 \<le> px" "px < 2 ^ 30" and sf: "sf = q \<or> sf = - q"
    and dir: "net_qty p = 0 \<or> (net_qty p > 0) = (sf > 0)"
  shows "\<bar>mtm m (apply_fill_to_position sf q px p) - (mtm m p + sf * (m - px))\<bar> \<le> (\<bar>net_qty p\<bar> + q) div 2"
proof -
  define a where "a = \<bar>net_qty p\<bar>"
  define avg' where "avg' = (avg_price p * a + px * q + (a + q) div 2) div (a + q)"
  have net: "s32 (net_qty p + sf) = net_qty p + sf"
    using small sf by (intro s32_id) (auto simp: pos_small_def)
  have new: "mtm m (apply_fill_to_position sf q px p) = realized_pnl p + (net_qty p + sf) * (m - avg')"
    unfolding avg'_def a_def avg_entry [OF small, symmetric] using dir
    by (auto simp: mtm_def apply_fill_to_position_def Let_def net)
  obtain e where e: "e = 1 \<or> e = - 1" "net_qty p = e * a" "sf = e * q"
    using dir sf small(2) by (cases "sf > 0") (fastforce simp: a_def)+
  have "mtm m (apply_fill_to_position sf q px p) - (mtm m p + sf * (m - px))
      = e * ((avg_price p * a + px * q) - avg' * (a + q))"
    unfolding new mtm_def [of m p] by (simp add: e(2,3) algebra_simps)
  moreover have "\<bar>avg' * (a + q) - (avg_price p * a + px * q)\<bar> \<le> (a + q) div 2"
    unfolding avg'_def by (rule div_half) (use small(2) in \<open>simp add: a_def\<close>)
  ultimately show ?thesis using e(1) unfolding a_def [symmetric] by auto
qed

lemma apply_fill_reduce:
  assumes small: "pos_small p" "0 < q" "q < 2 ^ 30" "0 \<le> px" "px < 2 ^ 30" and sf: "sf = q \<or> sf = - q"
    and dir: "\<not> (net_qty p = 0 \<or> (net_qty p > 0) = (sf > 0))"
  shows "mtm m (apply_fill_to_position sf q px p) = mtm m p + sf * (m - px)"
proof -
  define a where "a = \<bar>net_qty p\<bar>"
  define c where "c = min a q"
  have net: "s32 (net_qty p + sf) = net_qty p + sf"
    using small sf by (intro s32_id) (auto simp: pos_small_def)
  have a: "sabs32 (net_qty p) = a" "0 \<le> a" "a < 2 ^ 30"
    using small(1) by (simp_all add: sabs32_def pos_small_def s32_id a_def)
  have d: "s64 (px - avg_price p) = px - avg_price p" "s64 (avg_price p - px) = avg_price p - px"
    using small by (auto simp: pos_small_def s64_id)
  have "\<bar>c * (px - avg_price p)\<bar> \<le> 2 ^ 30 * 2 ^ 30"
    unfolding abs_mult using small a by (intro mult_mono) (auto simp: c_def pos_small_def)
  then have cp: "s64 (c * (px - avg_price p)) = c * (px - avg_price p)"
    "s64 (realized_pnl p + c * (px - avg_price p)) = realized_pnl p + c * (px - avg_price p)"
    "s64 (c * (avg_price p - px)) = c * (avg_price p - px)"
    "s64 (realized_pnl p + c * (avg_price p - px)) = realized_pnl p + c * (avg_price p - px)"
    using small(1) by (intro s64_id; simp add: pos_small_def algebra_simps abs_le_iff; linarith)+
  let ?r = "apply_fill_to_position sf q px p"
  have nd: "net_qty p \<noteq> 0" "(net_qty p > 0) \<noteq> (sf > 0)" using dir by auto
  have r: "net_qty ?r = net_qty p + sf"
    "realized_pnl ?r = realized_pnl p + c * (if net_qty p > 0 then px - avg_price p else avg_price p - px)"
    "avg_price ?r = (if net_qty p + sf = 0 then 0
       else if (net_qty p > 0) \<noteq> (net_qty p + sf > 0) then px else avg_price p)"
    using nd by (simp_all add: apply_fill_to_position_def Let_def net a(1) c_def [symmetric] d cp)
  have dirs: "net_qty p = a \<and> sf = - q \<and> 0 < a \<or> net_qty p = - a \<and> sf = q \<and> 0 < a"
    using nd sf small(2) by (auto simp: a_def)
  have "mtm m ?r = realized_pnl ?r + net_qty ?r * (m - avg_price ?r)" by (simp add: mtm_def)
  also have "\<dots> = mtm m p + sf * (m - px)"
    unfolding r using dirs by (cases "a < q"; cases "a = q"; elim disjE conjE)
      (simp_all add: mtm_def c_def algebra_simps)
  finally show ?thesis .
qed

section \<open>Cancelling everything\<close>

lemma cancel_order_self:
  assumes "map_of (orders s) oid = Some ord" "working ord"
  shows "map_of (orders (cancel_order t oid s)) oid = Some (ord\<lparr>o_status := CANCELLED, o_cancelled_ns := t\<rparr>)"
    "k \<noteq> oid \<Longrightarrow> map_of (orders (cancel_order t oid s)) k = map_of (orders s) k"
  using assms by (simp_all add: cancel_order_def Let_def alist_simps)

text \<open>How many entries of a list of identifiers a walk cancels.\<close>

definition sel_count :: "(Order \<Rightarrow> bool) \<Rightarrow> int list \<Rightarrow> oms \<Rightarrow> nat" where
  "sel_count sel ids s = length (filter (\<lambda>oid. case map_of (orders s) oid of None \<Rightarrow> False
     | Some ord \<Rightarrow> working ord \<and> sel ord) ids)"

lemma cancel_walk_result:
  "distinct ids \<Longrightarrow>
     snd (cancel_walk clk sel ids s n) = n + sel_count sel ids s
     \<and> (\<forall>k ord. map_of (orders (fst (cancel_walk clk sel ids s n))) k = Some ord \<longrightarrow>
          (k \<in> set ids \<longrightarrow> \<not> (working ord \<and> sel ord)) \<and> (k \<notin> set ids \<longrightarrow> map_of (orders s) k = Some ord))"
proof (induction clk sel ids s n rule: cancel_walk.induct)
  case (2 clk sel oid rest s n)
  have d: "distinct rest" "oid \<notin> set rest" using 2(4) by simp_all
  show ?case
  proof (cases "map_of (orders s) oid")
    case None
    then show ?thesis using 2(1) [OF None d(1)] d by (auto simp: sel_count_def)
  next
    case (Some ord)
    show ?thesis
    proof (cases "working ord \<and> sel ord")
      case False
      then show ?thesis using 2(3) [OF Some False d(1)] d Some by (auto simp: sel_count_def)
    next
      case True
      let ?s = "cancel_order (clk n) oid s"
      have same: "map_of (orders ?s) k = map_of (orders s) k" if "k \<noteq> oid" for k
        using cancel_order_self(2) Some True that by blast
      have c: "sel_count sel rest ?s = sel_count sel rest s"
        unfolding sel_count_def
        by (intro arg_cong [where f = length] filter_cong refl) (use d(2) in \<open>metis same\<close>)
      have self: "map_of (orders ?s) oid = Some (ord\<lparr>o_status := CANCELLED, o_cancelled_ns := clk n\<rparr>)"
        using cancel_order_self(1) Some True by blast
      note IH = 2(2) [OF Some True d(1)]
      have "\<not> working x" if "map_of (orders (fst (cancel_walk clk sel rest ?s (Suc n)))) oid = Some x" for x
        using IH that d(2) self by (auto simp: working_def)
      moreover have "map_of (orders s) k = Some x"
        if "map_of (orders (fst (cancel_walk clk sel rest ?s (Suc n)))) k = Some x" "k \<noteq> oid" "k \<notin> set rest" for k x
        using IH that same [of k] by simp
      ultimately show ?thesis using IH Some True c unfolding sel_count_def by (simp add: Some)
    qed
  qed
qed (simp add: sel_count_def)

lemma no_working_no_sum:
  "(\<And>k ord. (k, ord) \<in> set os \<Longrightarrow> \<not> working ord) \<Longrightarrow> hm_sum (contrib key) os = 0"
proof (induction os)
  case (Cons x os)
  obtain k ord where x: "x = (k, ord)" by (cases x)
  have "\<not> working ord" using Cons.prems [of k ord] by (simp add: x)
  moreover have "hm_sum (contrib key) os = 0" by (rule Cons.IH) (use Cons.prems in auto)
  ultimately show ?case by (simp add: x contrib_def [of key ord] signed_rem_def)
qed simp

section \<open>Fees\<close>

definition fees_ok :: "oms \<Rightarrow> bool" where
  "fees_ok s \<longleftrightarrow> total_fees s = s64 (hm_sum fees (positions s))"

lemma fill_on_position_fees:
  "fees (fill_on_position c sd q fp pos) = (if c \<noteq> 0 then s64 (fees pos + s64 (q * c)) else fees pos)"
  by (simp add: fill_on_position_def apply_fill_to_position_def Let_def)

lemma hm_val_make: "hm_val fees (map_of (positions s) (sym_to_key sy)) = fees (find_or_make sy s)"
  by (simp add: find_or_make_def mk_position_def split: option.splits)

lemma cancel_order_fees: "hm_wf (positions s) \<Longrightarrow> hm_sum fees (positions (cancel_order t oid s)) = hm_sum fees (positions s)"
  by (auto simp: cancel_order_def Let_def hm_sum_update split: option.splits)

lemma cancel_order_fees_ok: "hm_wf (positions s) \<Longrightarrow> fees_ok s \<Longrightarrow> fees_ok (cancel_order t oid s)"
  by (auto simp: fees_ok_def cancel_order_fees) (auto simp: cancel_order_def Let_def split: option.splits)

lemma cancel_walk_fees_ok: "oms_inv s \<Longrightarrow> fees_ok s \<Longrightarrow> fees_ok (fst (cancel_walk clk sel ids s n))"
proof (induction clk sel ids s n rule: cancel_walk.induct)
  case (2 clk sel oid rest s n)
  have "hm_wf (positions s)" using 2(4) by (simp add: oms_inv_def books_ok_def)
  then show ?case using 2 cancel_order_inv [OF 2(4)] cancel_order_fees_ok by (auto split: option.splits)
qed simp

lemma replace_order_fees_ok:
  assumes "hm_wf (positions s)" "fees_ok s"
  shows "fees_ok (fst (replace_order oid px q s))"
proof (cases rule: replace_order_cases [of oid px q s])
  case (2 ord s')
  have "hm_sum fees (positions s') = hm_sum fees (positions s)" "total_fees s' = total_fees s"
    using assms(1) by (auto simp: 2(10) hm_sum_update split: option.splits)
  then show ?thesis using assms(2) 2(9) by (simp add: fees_ok_def)
qed (use assms in simp)

lemma fill_order_fees_ok:
  assumes wf: "hm_wf (positions s)" and ok: "fees_ok s"
  shows "fees_ok (fst (fill_order t oid q px s))"
proof -
  have "fees_ok (apply_fill t oid ord n px s)" for ord n
  proof -
    let ?p = "find_or_make (o_symbol ord) s"
    have "s64 (h - f + s64 (f + s64 y)) = s64 (s64 h + s64 y)" for h f y
      by (simp add: wrap_simps)
    then have "s64 (hm_sum fees (positions s) - fees ?p + s64 (fees ?p + s64 (n * commission_fp s)))
        = s64 (total_fees s + s64 (n * commission_fp s))"
      using ok by (simp only: fees_ok_def)
    then show ?thesis using ok
      by (auto simp: fees_ok_def apply_fill_def Let_def hm_sum_update [OF wf] hm_val_make fill_on_position_fees)
  qed
  then show ?thesis using ok by (auto simp: fill_order_def Let_def split: option.splits)
qed

lemma exec_fees_ok:
  assumes inv: "oms_inv s" and ok: "fees_ok s"
  shows "fees_ok (oms_exec x s)"
proof -
  have wf: "hm_wf (positions s)" using inv by (simp add: oms_inv_def books_ok_def)
  show ?thesis
  proof (cases x)
    case (OSubmit t0 t1 sy sd px q e)
    then show ?thesis
    proof (cases rule: submit_order_cases [of t0 t1 sy sd px q e s])
      case (2 y)
      have "hm_sum fees (positions (accept_order t0 t1 y sd px q e s)) = hm_sum fees (positions s)"
        by (simp add: accept_order_def Let_def hm_sum_update [OF wf] hm_val_make)
      moreover have "total_fees (accept_order t0 t1 y sd px q e s) = total_fees s" by (simp add: accept_order_def Let_def)
      ultimately show ?thesis using 2 OSubmit ok by (simp add: fees_ok_def)
    qed (use OSubmit ok in \<open>simp add: oms_fail_def fees_ok_def\<close>)
  next
    case (OAmend oid q)
    then show ?thesis using ok replace_order_fees_ok [OF wf ok] by (auto simp: amend_quantity_def split: option.splits)
  next
    case (OSetCommission c)
    then show ?thesis using ok by (simp add: set_commission_def fees_ok_def)
  next
    case OReset
    then show ?thesis using ok by (simp add: reset_session_counters_def fees_ok_def)
  qed (use wf inv ok in \<open>simp_all add: fill_order_fees_ok cancel_order_fees_ok replace_order_fees_ok cancel_walk_fees_ok
        cancel_all_def purge_expired_def cancel_all_symbol_def\<close>)
qed

section \<open>Properties\<close>

text \<open>
  C15. Invariant.  After any sequence of calls on a fresh OMS, the pending quantity of every
  position is the (wrapped) sum of the signed unfilled quantities of the working orders of its
  symbol, every order has a position, and every order's fill state matches its status: SENT has no
  fill, PARTIAL some but not all, FILLED all, CANCELLED not all.
\<close>

theorem oms_books_agree:
  fixes max_pos :: int and max_val commission :: dbl
  assumes "\<forall>x \<in> set xs. oms_typed x" "length xs < 2 ^ 63"
  defines "s \<equiv> fold oms_exec xs (oms_init max_pos max_val commission)"
  shows "(\<forall>key p. map_of (positions s) key = Some p \<longrightarrow> pending_qty p = s32 (hm_sum (contrib key) (orders s)))
    \<and> (\<forall>oid ord. map_of (orders s) oid = Some ord \<longrightarrow>
         order_ok ord \<and> map_of (positions s) (sym_to_key (o_symbol ord)) \<noteq> None)"
proof -
  have "int (length xs) < 2 ^ 63" using assms(2) by simp
  then have inv: "oms_inv s"
    unfolding s_def by (intro oms_run_inv oms_init_inv) (use assms(1) in \<open>auto simp: oms_init_def\<close>)
  have "pending_qty p = s32 (hm_sum (contrib key) (orders s))" if "map_of (positions s) key = Some p" for key p
    using inv that by (simp add: oms_inv_def books_ok_def)
  moreover have "order_ok ord \<and> map_of (positions s) (sym_to_key (o_symbol ord)) \<noteq> None"
    if "map_of (orders s) oid = Some ord" for oid ord
    using oms_inv_order(1,5) [OF inv that] by auto
  ultimately show ?thesis by blast
qed

theorem oms_books_agree_witness:
  "s32 (hm_sum (contrib 65) (orders (fold oms_exec
      [OSubmit 0 1 (Some [65]) BUY (Fin 10) 7 0, OFill 2 1 3 (Fin 10)] (oms_init 1000 (Fin 100000) (Fin 0))))) = 4"
proof -
  let ?xs = "[OSubmit 0 1 (Some [65]) BUY (Fin 10) 7 0, OFill 2 1 3 (Fin 10)]"
  let ?s = "fold oms_exec ?xs (oms_init 1000 (Fin 100000) (Fin 0))"
  have p: "map_option pending_qty (map_of (positions ?s) 65) = Some 4" by code_simp
  have "\<forall>key p. map_of (positions ?s) key = Some p \<longrightarrow> pending_qty p = s32 (hm_sum (contrib key) (orders ?s))"
    by (rule conjunct1 [OF oms_books_agree]) simp_all
  then show ?thesis using p by auto
qed

text \<open>
  C16. Safety.  A FILLED or CANCELLED order is final: no further sequence of calls, late fills and
  double cancels included, changes its record.
\<close>

theorem oms_terminal_absorbing:
  assumes "oms_inv s" "\<forall>x \<in> set xs. oms_typed x" "next_id s + int (length xs) < 2 ^ 64"
    and "map_of (orders s) oid = Some ord" "o_status ord = FILLED \<or> o_status ord = CANCELLED"
  shows "map_of (orders (fold oms_exec xs s)) oid = Some ord"
  using assms
proof (induction xs arbitrary: s)
  case (Cons x xs)
  have room: "next_id s + 1 < 2 ^ 64" using Cons.prems(3) by simp
  have "oms_inv (oms_exec x s)" by (rule oms_exec_inv) (use Cons.prems room in auto)
  moreover have "next_id (oms_exec x s) + int (length xs) < 2 ^ 64"
    using next_id_exec [OF Cons.prems(1) room, of x] Cons.prems(3) by simp
  moreover have "map_of (orders (oms_exec x s)) oid = Some ord"
    by (rule exec_terminal) (use Cons.prems in \<open>simp_all add: terminal_def\<close>)
  ultimately show ?case using Cons.IH Cons.prems by simp
qed simp

theorem oms_terminal_absorbing_witness:
  "map_of (orders (fold oms_exec [OFill 9 1 5 (Fin 10), OCancel 9 1]
     ((oms_init 1000 (Fin 100000) (Fin 0))\<lparr>next_id := 2,
        orders := [(1, (mk_order 1 [65] BUY 100000 7)\<lparr>o_status := CANCELLED\<rparr>)],
        positions := [(sym_to_key [65], mk_position [65])]\<rparr>))) 1
   = Some ((mk_order 1 [65] BUY 100000 7)\<lparr>o_status := CANCELLED\<rparr>)"
proof (rule oms_terminal_absorbing)
  show "oms_inv ((oms_init 1000 (Fin 100000) (Fin 0))\<lparr>next_id := 2,
        orders := [(1, (mk_order 1 [65] BUY 100000 7)\<lparr>o_status := CANCELLED\<rparr>)],
        positions := [(sym_to_key [65], mk_position [65])]\<rparr>)"
    by (simp add: oms_inv_def books_ok_def oms_init_def order_ok_def mk_order_def mk_position_def contrib_def
        signed_rem_def working_def s32_def sym_chars_def sym_to_key_def)
qed (simp_all add: oms_init_def)

text \<open>
  Functional behaviour of a fill on a working order: the applied quantity is the requested one
  clamped to what remains, the order's filled quantity grows by exactly it, the status becomes
  FILLED iff nothing remains, and the symbol's total exposure (net plus pending) does not change.
\<close>

theorem oms_fill_exact:
  fixes t :: int and px :: dbl
  assumes "oms_inv s" "map_of (orders s) oid = Some ord" "working ord" "0 < fill_qty"
    and "map_of (positions s) (sym_to_key (o_symbol ord)) = Some p"
  defines "r \<equiv> fill_order t oid fill_qty px s"
  shows "snd r = min fill_qty (o_quantity ord - o_filled ord)
    \<and> (\<exists>ord' p'. map_of (orders (fst r)) oid = Some ord' \<and> o_filled ord' = o_filled ord + snd r
        \<and> (o_status ord' = (if o_filled ord' = o_quantity ord then FILLED else PARTIAL))
        \<and> map_of (positions (fst r)) (sym_to_key (o_symbol ord)) = Some p'
        \<and> s32 (net_qty p' + pending_qty p') = s32 (net_qty p + pending_qty p))"
proof -
  have ok: "order_ok ord" using oms_inv_order [OF assms(1,2)] by simp
  let ?q = "min fill_qty (o_quantity ord - o_filled ord)"
  have q: "0 < ?q" "?q \<le> o_quantity ord - o_filled ord"
    using assms(3,4) ok by (auto simp: order_ok_def working_def)
  have r: "r = (apply_fill t oid ord ?q px s, ?q)"
    using assms(2-4) q(1) by (simp add: r_def fill_order_def remaining_ok [OF ok] Let_def del: min_less_iff_conj)
  have f: "u32 (o_filled ord + ?q) = o_filled ord + ?q" using q ok by (intro u32_id) (auto simp: order_ok_def)
  let ?p' = "fill_on_position (commission_fp s) (o_side ord) ?q (to_fixed px) p"
  have "s32 (net_qty ?p' + pending_qty ?p') = s32 (net_qty p + pending_qty p)"
    unfolding fill_on_position_net fill_on_position_pending
    by (simp add: wrap_simps)
  then show ?thesis unfolding r using assms(5) f q
    by (auto simp: apply_fill_def Let_def alist_simps find_or_make_def fill_on_order_def)
qed

theorem oms_fill_exact_witness:
  "snd (fill_order 9 1 9 (Fin 10) ((oms_init 1000 (Fin 100000) (Fin 0))\<lparr>next_id := 2,
        orders := [(1, (mk_order 1 [65] BUY 100000 7)\<lparr>o_status := SENT\<rparr>)],
        positions := [(sym_to_key [65], (mk_position [65])\<lparr>pending_qty := 7\<rparr>)]\<rparr>)) = min 9 (7 - 0)"
proof -
  have "oms_inv ((oms_init 1000 (Fin 100000) (Fin 0))\<lparr>next_id := 2,
        orders := [(1, (mk_order 1 [65] BUY 100000 7)\<lparr>o_status := SENT\<rparr>)],
        positions := [(sym_to_key [65], (mk_position [65])\<lparr>pending_qty := 7\<rparr>)]\<rparr>)"
    by (simp add: oms_inv_def books_ok_def oms_init_def order_ok_def mk_order_def mk_position_def contrib_def
        signed_rem_def working_def s32_def sym_chars_def sym_to_key_def sgn_side_def)
  from oms_fill_exact [OF this, of 1 "(mk_order 1 [65] BUY 100000 7)\<lparr>o_status := SENT\<rparr>" 9
      "(mk_position [65])\<lparr>pending_qty := 7\<rparr>"]
  show ?thesis by (simp add: mk_order_def working_def)
qed

end
