(* ===== verification/Oms_Props.thy ===== *)
theory Oms_Props
  imports Oms
begin

text \<open>
  Properties of the order management system that rest on the invariant of \<open>Oms\<close>: mass cancels,
  fees, profit and loss, the pre-trade checks and their limits.
\<close>

text \<open>
  \<open>cancel_all\<close> returns the number of orders that were working, leaves none working and brings
  the pending quantity of every symbol to zero.
\<close>

theorem oms_cancel_all_flat:
  assumes "oms_inv s"
  shows "snd (cancel_all clk s) = length (filter (\<lambda>(oid, ord). working ord) (orders s))
    \<and> (\<forall>oid ord. map_of (orders (fst (cancel_all clk s))) oid = Some ord \<longrightarrow> \<not> working ord)
    \<and> (\<forall>key p. map_of (positions (fst (cancel_all clk s))) key = Some p \<longrightarrow> pending_qty p = 0)"
proof -
  let ?s = "fst (cancel_all clk s)"
  have wf: "hm_wf (orders s)" using assms by (simp add: oms_inv_def books_ok_def)
  note R = cancel_walk_result [OF wf, of clk "\<lambda>_. True" s 0]
  have "sel_count (\<lambda>_. True) (map fst (orders s)) s = length (filter (\<lambda>(oid, ord). working ord) (orders s))"
  proof -
    have "(case map_of (orders s) (fst x) of None \<Rightarrow> False | Some ord \<Rightarrow> working ord \<and> True) = (case x of (oid, ord) \<Rightarrow> working ord)"
      if "x \<in> set (orders s)" for x
      using map_of_is_SomeI [OF wf, of "fst x" "snd x"] that by (simp add: case_prod_beta)
    then show ?thesis by (simp add: sel_count_def filter_map o_def cong: filter_cong)
  qed
  moreover have idle: "\<not> working ord" if "map_of (orders ?s) oid = Some ord" for oid ord
  proof (cases "oid \<in> set (map fst (orders s))")
    case True
    with R that show ?thesis by (auto simp: cancel_all_def)
  next
    case False
    with R that have "map_of (orders s) oid = Some ord" unfolding cancel_all_def by blast
    with False show ?thesis by (force dest: map_of_SomeD)
  qed
  moreover have "pending_qty p = 0" if "map_of (positions ?s) key = Some p" for key p
  proof -
    have inv: "oms_inv ?s" unfolding cancel_all_def by (rule cancel_walk_inv [OF assms])
    then have "hm_wf (orders ?s)" by (simp add: oms_inv_def books_ok_def)
    then have "hm_sum (contrib key) (orders ?s) = 0"
      by (intro no_working_no_sum) (rule idle [OF map_of_is_SomeI])
    moreover have "pending_qty p = s32 (hm_sum (contrib key) (orders ?s))"
      using inv that by (simp add: oms_inv_def books_ok_def)
    ultimately show ?thesis by (simp add: s32_def)
  qed
  moreover have "snd (cancel_all clk s) = sel_count (\<lambda>_. True) (map fst (orders s)) s"
    unfolding cancel_all_def using R by simp
  ultimately show ?thesis by (intro conjI allI impI) (simp, blast, blast)
qed

theorem oms_cancel_all_flat_witness:
  "snd (cancel_all (\<lambda>n. 0) (oms_init 1000 (Fin 100000) (Fin 0)))
     = length (filter (\<lambda>(oid, ord). working ord) (orders (oms_init 1000 (Fin 100000) (Fin 0))))"
  by (rule conjunct1 [OF oms_cancel_all_flat [OF oms_init_inv]])

text \<open>
  The fees of the positions add up to the total the OMS reports, after any sequence of calls,
  commission changes included.
\<close>

theorem oms_fees_total:
  assumes "\<forall>x \<in> set xs. oms_typed x" "length xs < 2 ^ 63"
  shows "total_fees (fold oms_exec xs (oms_init max_pos max_val commission))
    = s64 (hm_sum fees (positions (fold oms_exec xs (oms_init max_pos max_val commission))))"
proof -
  have "fees_ok (fold oms_exec xs s)"
    if "oms_inv s" "fees_ok s" "\<And>x. x \<in> set xs \<Longrightarrow> oms_typed x" "next_id s + int (length xs) < 2 ^ 64" for s
    using that
  proof (induction xs arbitrary: s)
    case (Cons x xs)
    have room: "next_id s + 1 < 2 ^ 64" using Cons.prems(4) by simp
    have "oms_inv (oms_exec x s)" by (rule oms_exec_inv) (use Cons.prems room in auto)
    moreover have "next_id (oms_exec x s) + int (length xs) < 2 ^ 64"
      using next_id_exec [OF Cons.prems(1) room, of x] Cons.prems(4) by simp
    ultimately show ?case using Cons.IH Cons.prems(3) exec_fees_ok [OF Cons.prems(1,2)] by simp
  qed simp
  moreover have "int (length xs) < 2 ^ 63" using assms(2) by simp
  ultimately show ?thesis using oms_init_inv assms(1)
    by (fastforce simp: fees_ok_def oms_init_def s64_def)
qed

theorem oms_fees_total_witness:
  "total_fees (fold oms_exec [OSetCommission (Fin (1 / 100)), OSubmit 0 1 (Some [65]) BUY (Fin 10) 7 0, OFill 2 1 3 (Fin 10)]
      (oms_init 1000 (Fin 100000) (Fin 0)))
   = s64 (hm_sum fees (positions (fold oms_exec
       [OSetCommission (Fin (1 / 100)), OSubmit 0 1 (Some [65]) BUY (Fin 10) 7 0, OFill 2 1 3 (Fin 10)]
       (oms_init 1000 (Fin 100000) (Fin 0)))))"
  by (rule oms_fees_total) simp_all

text \<open>
  C17. Profit and loss.  Marked at any price, a fill changes realized plus unrealized profit by
  exactly the value of the trade at the mark, when it reduces, closes or flips the position; when
  it opens or increases one, the rounding of the average entry price moves the total by at most
  half a tick per share.  Quantities, the price and the position before the fill are below \<open>2^30\<close>.
\<close>

theorem oms_pnl_identity:
  assumes "pos_small p" "0 < q" "q < 2 ^ 30" "0 \<le> px" "px < 2 ^ 30" "sf = q \<or> sf = - q"
  shows "\<bar>mtm m (apply_fill_to_position sf q px p) - (mtm m p + sf * (m - px))\<bar>
    \<le> (if net_qty p = 0 \<or> (net_qty p > 0) = (sf > 0) then (\<bar>net_qty p\<bar> + q) div 2 else 0)"
proof (cases "net_qty p = 0 \<or> (net_qty p > 0) = (sf > 0)")
  case True
  then show ?thesis unfolding if_P [OF True] by (rule apply_fill_increase [OF assms])
next
  case False
  then show ?thesis unfolding if_not_P [OF False] using apply_fill_reduce [OF assms, of m] by simp
qed

theorem oms_pnl_identity_witness:
  "\<bar>mtm 1010000 (apply_fill_to_position (- 30) 30 1020000 ((mk_position [65])\<lparr>net_qty := 10, avg_price := 1000000\<rparr>))
     - (mtm 1010000 ((mk_position [65])\<lparr>net_qty := 10, avg_price := 1000000\<rparr>) + - 30 * (1010000 - 1020000))\<bar> \<le> 0"
  using oms_pnl_identity [of "(mk_position [65])\<lparr>net_qty := 10, avg_price := 1000000\<rparr>" 30 1020000 "- 30" 1010000]
  by (simp add: pos_small_def mk_position_def)

text \<open>
  C33. The pre-trade checks and the reservation.  A rejected submit names its reason and changes nothing of the
  whole state but the last reason and the count of that reason, which goes up by one.  An accepted one creates
  a SENT order of the requested side, price and quantity under the next identifier and adds its signed quantity to the pending
  quantity of its symbol; the net quantity, every other order and every other symbol stay as they were, and the
  symbol's exposure is within the position limit.  Cancelling the order gives the reservation back: net and
  pending quantity of every symbol are those from before the submit.  (Quantities are unsigned 32-bit, pending
  quantities signed 32-bit, as in the code.)
\<close>

theorem oms_submit_checked:
  assumes "submit_order t0 t1 symbol sd px quantity expire s = (s', res)"
    and "0 \<le> quantity" "\<forall>k. s32 (cur_pend k s) = cur_pend k s"
  shows "case res of
      Inl reason \<Rightarrow> reason \<noteq> R_NONE
        \<and> s' = s\<lparr>last_reject := reason, reject_counts := (reject_counts s)[reject_idx reason := u64 (reject_counts s ! reject_idx reason + 1)]\<rparr>
    | Inr oid \<Rightarrow> oid = next_id s \<and> to_fixed px > 0 \<and> quantity > 0
        \<and> order_value (to_fixed px) quantity \<le> max_order_value s
        \<and> (\<exists>sy ord. symbol = Some sy \<and> map_of (orders s') oid = Some ord \<and> o_symbol ord = sym_chars sy \<and> o_status ord = SENT
            \<and> o_quantity ord = quantity \<and> o_filled ord = 0 \<and> o_price ord = to_fixed px \<and> o_side ord = sd
            \<and> cur_pend (sym_to_key sy) s' = s32 (cur_pend (sym_to_key sy) s + (if sd = BUY then quantity else - quantity))
            \<and> sabs32 (s32 (cur_real (sym_to_key sy) s' + cur_pend (sym_to_key sy) s')) \<le> max_position s
            \<and> (\<forall>k. cur_real k s' = cur_real k s) \<and> (\<forall>k. k \<noteq> sym_to_key sy \<longrightarrow> map_of (positions s') k = map_of (positions s) k)
            \<and> (\<forall>i. i \<noteq> oid \<longrightarrow> map_of (orders s') i = map_of (orders s) i)
            \<and> (\<forall>k. cur_real k (cancel_order t2 oid s') = cur_real k s \<and> cur_pend k (cancel_order t2 oid s') = cur_pend k s))"
proof (cases rule: submit_order_cases [of t0 t1 symbol sd px quantity expire s])
  case (1 r)
  with assms(1) show ?thesis by (auto simp: oms_fail_def)
next
  case (2 sy)
  have s': "s' = accept_order t0 t1 sy sd px quantity expire s" "res = Inr (next_id s)"
    using assms(1) 2(5) by simp_all
  let ?k = "sym_to_key sy" and ?q = "sgn_side sd * quantity"
  have key: "sym_to_key (sym_chars sy) = ?k" by simp
  have pend: "cur_pend k s' = (if k = ?k then s32 (cur_pend k s + ?q) else cur_pend k s)" for k
    by (cases "k = ?k") (auto simp: s' accept_order_def Let_def cur_pend_def alist_simps find_or_make_def mk_position_def signed_qty_alt wrap_simps split: option.splits)
  have real: "cur_real k s' = cur_real k s" for k
    by (cases "k = ?k") (auto simp: s' accept_order_def Let_def cur_real_def alist_simps find_or_make_def mk_position_def split: option.splits)
  have ord: "map_of (orders s') (next_id s) = Some ((mk_order (next_id s) sy sd (to_fixed px) quantity)
      \<lparr>o_created_ns := t0, o_sent_ns := t1, o_status := SENT, o_expire_ns := expire\<rparr>)" (is "_ = Some ?o")
    by (simp add: s' accept_order_def Let_def alist_simps)
  have undo: "cur_real k (cancel_order t2 (next_id s) s') = cur_real k s \<and> cur_pend k (cancel_order t2 (next_id s) s') = cur_pend k s" for k
  proof -
    have o: "working ?o" "o_symbol ?o = sym_chars sy" "signed_remaining ?o = s32 ?q"
      by (simp_all add: working_def mk_order_def signed_remaining_alt)
    obtain p where p: "map_of (positions s') ?k = Some p" by (simp add: s' accept_order_def Let_def alist_simps)
    have "cur_real k (cancel_order t2 (next_id s) s') = cur_real k s'"
      by (cases "k = ?k") (simp_all add: cancel_order_def ord o key p cur_real_def alist_simps)
    moreover have "cur_pend k (cancel_order t2 (next_id s) s') = (if k = ?k then s32 (cur_pend k s' - ?q) else cur_pend k s')"
      by (cases "k = ?k") (simp_all add: cancel_order_def ord o key p cur_pend_def alist_simps wrap_simps)
    ultimately show ?thesis using assms(3) by (simp add: real pend wrap_simps)
  qed
  have "to_fixed px > 0 \<and> quantity > 0" using 2(2) assms(2) by (simp add: bad_input_def)
  moreover have "sabs32 (s32 (cur_real ?k s' + cur_pend ?k s')) \<le> max_position s"
    using 2(4) by (simp add: pend real wrap_simps add.assoc)
  moreover have "map_of (positions s') k = map_of (positions s) k" if "k \<noteq> ?k" for k
    using that by (simp add: s' accept_order_def Let_def alist_simps)
  moreover have "map_of (orders s') i = map_of (orders s) i" if "i \<noteq> next_id s" for i
    using that by (simp add: s' accept_order_def Let_def alist_simps)
  ultimately show ?thesis using 2(1,3) ord undo real pend [of ?k] by (auto simp: s'(2) mk_order_def sgn_side_def)
qed

text \<open>A buy of 7 that is accepted and one of 700 that is over the position limit.\<close>

theorem oms_submit_checked_witness:
  "let s = oms_init 100 (Fin 100000) (Fin 0); s1 = fst (submit_order 0 1 (Some [65]) BUY (Fin 10) 7 0 s);
       (s2, r2) = submit_order 0 1 (Some [65]) BUY (Fin 10) 700 0 s
   in cur_pend (sym_to_key [65]) s1 = 7 \<and> cur_pend (sym_to_key [65]) (cancel_order 5 1 s1) = 0
    \<and> r2 = Inl POSITION_LIMIT \<and> s2 = s\<lparr>last_reject := POSITION_LIMIT, reject_counts := [0, 0, 0, 1]\<rparr>"
proof -
  define s where "s = oms_init 100 (Fin 100000) (Fin 0)"
  have p: "\<forall>k. s32 (cur_pend k s) = cur_pend k s" by (simp add: s_def oms_init_def cur_pend_def s32_id)
  obtain s1 r1 where e1: "submit_order 0 1 (Some [65]) BUY (Fin 10) 7 0 s = (s1, r1)" by (cases "submit_order 0 1 (Some [65]) BUY (Fin 10) 7 0 s")
  obtain s2 r2 where e2: "submit_order 0 1 (Some [65]) BUY (Fin 10) 700 0 s = (s2, r2)" by (cases "submit_order 0 1 (Some [65]) BUY (Fin 10) 700 0 s")
  have "snd (submit_order 0 1 (Some [65]) BUY (Fin 10) 7 0 s) = Inr 1" "snd (submit_order 0 1 (Some [65]) BUY (Fin 10) 700 0 s) = Inl POSITION_LIMIT"
    unfolding s_def by code_simp+
  then have r: "r1 = Inr 1" "r2 = Inl POSITION_LIMIT" using e1 e2 by simp_all
  have z: "cur_pend k s = 0" for k by (simp add: s_def oms_init_def cur_pend_def)
  have "cur_pend (sym_to_key [65]) s1 = 7 \<and> cur_pend (sym_to_key [65]) (cancel_order 5 1 s1) = 0"
    using oms_submit_checked [OF e1 _ p, of 5] by (auto simp: r z s32_id)
  moreover have "s2 = s\<lparr>last_reject := POSITION_LIMIT, reject_counts := [0, 0, 0, 1]\<rparr>"
    using oms_submit_checked [OF e2 _ p] by (auto simp: r) (simp add: s_def oms_init_def u64_def)
  ultimately show ?thesis using r unfolding s_def [symmetric] by (simp add: e1 e2)
qed

text \<open>
  Limit of the position check.  The check adds net and pending over both sides, so a resting
  order on one side makes room for a larger one on the other: with a limit of 100, a BUY of 100
  that does not fill lets a SELL of 200 through, and filling it leaves a net position of -200.
\<close>

theorem oms_position_limit_exceeded:
  "let s0 = oms_init 100 (Fin 1000000) (Fin 0);
       s1 = fst (submit_order 1 2 (Some [65]) BUY (Fin 10) 100 0 s0);
       (s2, r2) = submit_order 3 4 (Some [65]) SELL (Fin 10) 200 0 s1;
       (s3, q) = fill_order 5 2 200 (Fin 10) s2
   in r2 = Inr 2 \<and> q = 200 \<and> max_position s3 = 100 \<and> map_option net_qty (map_of (positions s3) (sym_to_key [65])) = Some (- 200)"
  by code_simp

text \<open>
  \<open>amend_quantity\<close> keeps the price: an accepted amend changes the quantity to the new one and
  leaves the order's limit price, although it passes it through \<open>double\<close>.
\<close>

theorem oms_amend_keeps_price:
  assumes "map_of (orders s) oid = Some ord" "0 \<le> o_price ord" "o_price ord < 2 ^ 50"
    and "amend_quantity oid new_quantity s = (s', True)"
  shows "\<exists>ord'. map_of (orders s') oid = Some ord' \<and> o_price ord' = o_price ord \<and> o_quantity ord' = new_quantity
    \<and> new_quantity < o_quantity ord \<and> o_filled ord \<le> new_quantity \<and> o_filled ord' = o_filled ord"
proof -
  have *: "replace_order oid (to_float (o_price ord)) new_quantity s = (s', True)"
    "new_quantity < o_quantity ord" "o_filled ord \<le> new_quantity"
    using assms(1,4) by (auto simp: amend_quantity_def split: if_splits)
  show ?thesis
  proof (cases rule: replace_order_cases [of oid "to_float (o_price ord)" new_quantity s])
    case 1
    with * show ?thesis by simp
  next
    case (2 ord2 s2)
    have eq: "ord2 = ord" "s2 = s'" using 2(1,9) assms(1) *(1) by simp_all
    have "orders s2 = AList.update oid (replace_on_order (to_fixed (to_float (o_price ord))) new_quantity ord) (orders s)"
      by (subst 2(10)) (simp add: eq)
    then have "map_of (orders s') oid = Some (replace_on_order (o_price ord) new_quantity ord)"
      by (simp add: eq alist_simps fixed_roundtrip [OF assms(2,3)])
    then show ?thesis using *(2,3) by (simp add: replace_on_order_def)
  qed
qed

theorem oms_amend_keeps_price_witness:
  "\<exists>ord'. map_of (orders (fst (amend_quantity 1 5 ((oms_init 1000 (Fin 100000) (Fin 0))\<lparr>next_id := 2,
        orders := [(1, (mk_order 1 [65] BUY 1502500 7)\<lparr>o_status := SENT\<rparr>)]\<rparr>)))) 1 = Some ord' \<and> o_price ord' = 1502500"
proof -
  let ?ord = "(mk_order 1 [65] BUY 1502500 7)\<lparr>o_status := SENT\<rparr>"
  let ?s = "(oms_init 1000 (Fin 100000) (Fin 0))\<lparr>next_id := 2, orders := [(1, ?ord)]\<rparr>"
  have "snd (amend_quantity 1 5 ?s)" by code_simp
  then have "amend_quantity 1 5 ?s = (fst (amend_quantity 1 5 ?s), True)" by (simp add: prod_eq_iff)
  from oms_amend_keeps_price [OF _ _ _ this, of ?ord] show ?thesis by (auto simp: mk_order_def)
qed

end
