(* ===== verification/Oms_Metrics.thy ===== *)
theory Oms_Metrics
  imports Oms
begin

text \<open>
  The read-only accessors of \<open>oms.hpp\<close>: counts, exposure, profit and loss attribution, latency and
  ratio metrics.  A loop over a map is a fold over its association list; sums wrap after every
  addition, as the accumulators do.
\<close>

section \<open>Loops over the maps\<close>

definition cnt :: "('v \<Rightarrow> bool) \<Rightarrow> ('k, 'v) hmap \<Rightarrow> nat" where
  "cnt P m = fold (\<lambda>(k, v) n. if P v then Suc n else n) m 0"

definition maxof :: "('v \<Rightarrow> bool) \<Rightarrow> ('v \<Rightarrow> int) \<Rightarrow> ('k, 'v) hmap \<Rightarrow> int" where
  "maxof P f m = fold (\<lambda>(k, v) a. if P v \<and> f v > a then f v else a) m 0"

text \<open>The first element that is better than all before it, of those that qualify.\<close>

definition pick :: "('v \<Rightarrow> bool) \<Rightarrow> ('v \<Rightarrow> 'v \<Rightarrow> bool) \<Rightarrow> ('k, 'v) hmap \<Rightarrow> ('k \<times> 'v) option" where
  "pick P better m = fold (\<lambda>(k, v) b. if P v then (case b of None \<Rightarrow> Some (k, v)
     | Some (k', w) \<Rightarrow> if better v w then Some (k, v) else b) else b) m None"

definition sumd :: "('v \<Rightarrow> bool) \<Rightarrow> ('v \<Rightarrow> dbl) \<Rightarrow> ('k, 'v) hmap \<Rightarrow> dbl" where
  "sumd P f m = fold (\<lambda>(k, v) a. if P v then dadd a (f v) else a) m (Fin 0)"

section \<open>Orders and exposure\<close>

definition open_order_notional :: "oms \<Rightarrow> dbl" where
  "open_order_notional s =
     sumd working (\<lambda>ord. dmul (to_float (o_price ord)) (d_of_int (remaining ord))) (orders s)"

definition open_order_notional_symbol :: "byte list \<Rightarrow> oms \<Rightarrow> dbl" where
  "open_order_notional_symbol sy s =
     sumd (\<lambda>ord. working ord \<and> sym_to_key (o_symbol ord) = sym_to_key sy)
       (\<lambda>ord. dmul (to_float (o_price ord)) (d_of_int (remaining ord))) (orders s)"

definition open_position_count :: "oms \<Rightarrow> nat" where
  "open_position_count s = cnt (\<lambda>p. net_qty p \<noteq> 0) (positions s)"

definition gross_position_shares :: "oms \<Rightarrow> int" where
  "gross_position_shares s = acc64 (\<lambda>p. \<bar>net_qty p\<bar>) (positions s)"

definition largest_position :: "oms \<Rightarrow> int" where
  "largest_position s = maxof (\<lambda>_. True) (\<lambda>p. sabs32 (net_qty p)) (positions s)"

definition inventory_value :: "oms \<Rightarrow> int" where
  "inventory_value s = acc64 (\<lambda>p. s64 (\<bar>net_qty p\<bar> * avg_price p)) (positions s)"

definition net_position_shares :: "oms \<Rightarrow> int" where
  "net_position_shares s = acc64 net_qty (positions s)"

definition net_inventory_value :: "oms \<Rightarrow> int" where
  "net_inventory_value s = acc64 (\<lambda>p. s64 (net_qty p * avg_price p)) (positions s)"

definition largest_position_notional :: "oms \<Rightarrow> int" where
  "largest_position_notional s = maxof (\<lambda>_. True) (\<lambda>p. s64 (\<bar>net_qty p\<bar> * avg_price p)) (positions s)"

definition largest_position_symbol :: "oms \<Rightarrow> byte list \<times> dbl" where
  "largest_position_symbol s =
     (let v = (\<lambda>p. s64 (\<bar>net_qty p\<bar> * avg_price p))
      in case pick (\<lambda>p. net_qty p \<noteq> 0) (\<lambda>p q. v p > v q) (positions s) of
           None \<Rightarrow> ([], Fin 0) | Some (k, p) \<Rightarrow> (p_symbol p, to_float (v p)))"

definition pending_buy_shares :: "oms \<Rightarrow> int" where
  "pending_buy_shares s = acc64 (\<lambda>p. if pending_qty p > 0 then pending_qty p else 0) (positions s)"

definition pending_sell_shares :: "oms \<Rightarrow> int" where
  "pending_sell_shares s = acc64 (\<lambda>p. if pending_qty p < 0 then s32 (- pending_qty p) else 0) (positions s)"

definition is_flat :: "oms \<Rightarrow> bool" where
  "is_flat s \<longleftrightarrow> open_position_count s = 0 \<and> list_all (\<lambda>(k, ord). \<not> working ord) (orders s)"

definition get_order :: "int \<Rightarrow> oms \<Rightarrow> Order option" where
  "get_order oid s = map_of (orders s) oid"

definition get_position :: "byte list \<Rightarrow> oms \<Rightarrow> Position option" where
  "get_position sy s = map_of (positions s) (sym_to_key sy)"

definition realized_pnl_symbol :: "byte list \<Rightarrow> oms \<Rightarrow> dbl" where
  "realized_pnl_symbol sy s = (case get_position sy s of None \<Rightarrow> Fin 0 | Some p \<Rightarrow> to_float (realized_pnl p))"

definition net_pnl_symbol :: "byte list \<Rightarrow> oms \<Rightarrow> dbl" where
  "net_pnl_symbol sy s = (case get_position sy s of None \<Rightarrow> Fin 0 | Some p \<Rightarrow> to_float (net_pnl p))"

definition order_count :: "oms \<Rightarrow> nat" where
  "order_count s = length (orders s)"

definition position_count :: "oms \<Rightarrow> nat" where
  "position_count s = length (positions s)"

definition count_by_status :: "OrderStatus \<Rightarrow> oms \<Rightarrow> nat" where
  "count_by_status st s = cnt (\<lambda>ord. o_status ord = st) (orders s)"

definition working_order_count :: "oms \<Rightarrow> nat" where
  "working_order_count s = cnt working (orders s)"

definition done_order_count :: "oms \<Rightarrow> nat" where
  "done_order_count s =
     cnt (\<lambda>ord. o_status ord = FILLED \<or> o_status ord = CANCELLED \<or> o_status ord = REJECTED) (orders s)"

definition oldest_working :: "oms \<Rightarrow> (int \<times> Order) option" where
  "oldest_working s = pick working (\<lambda>x y. o_sent_ns x < o_sent_ns y) (orders s)"

definition oldest_working_order_age_ns :: "int \<Rightarrow> oms \<Rightarrow> int" where
  "oldest_working_order_age_ns now s =
     (case oldest_working s of None \<Rightarrow> 0
      | Some (k, ord) \<Rightarrow> if now > o_sent_ns ord then s64 (now - o_sent_ns ord) else 0)"

definition oldest_working_order_id :: "oms \<Rightarrow> int" where
  "oldest_working_order_id s = (case oldest_working s of None \<Rightarrow> 0 | Some (k, ord) \<Rightarrow> k)"

definition avg_working_order_age_ns :: "int \<Rightarrow> oms \<Rightarrow> int" where
  "avg_working_order_age_ns now s =
     (let sum = acc64 (\<lambda>ord. if working ord \<and> now > o_sent_ns ord then s64 (now - o_sent_ns ord) else 0) (orders s);
          n = int (cnt working (orders s))
      in if n > 0 then tdiv sum n else 0)"

section \<open>Costs, profit and loss\<close>

definition dratio :: "dbl \<Rightarrow> int \<Rightarrow> dbl" where
  "dratio num den = (if den > 0 then ddiv num (d_of_int den) else Fin 0)"

definition avg_commission_per_share :: "oms \<Rightarrow> dbl" where
  "avg_commission_per_share s = dratio (to_float (total_fees s)) (total_filled_shares s)"

definition fee_bps_of_turnover :: "oms \<Rightarrow> dbl" where
  "fee_bps_of_turnover s = (if dlt (Fin 0) (total_traded_notional s)
     then dmul (ddiv (to_float (total_fees s)) (total_traded_notional s)) (Fin 10000) else Fin 0)"

definition commission_per_share :: "oms \<Rightarrow> dbl" where
  "commission_per_share s = ddiv (d_of_int (commission_fp s)) (d_of_int PRICE_SCALE)"

definition total_realized_pnl :: "oms \<Rightarrow> int" where
  "total_realized_pnl s = acc64 realized_pnl (positions s)"

definition total_net_pnl :: "oms \<Rightarrow> int" where
  "total_net_pnl s = acc64 net_pnl (positions s)"

definition winning_symbols :: "oms \<Rightarrow> nat" where
  "winning_symbols s = cnt (\<lambda>p. realized_pnl p > 0) (positions s)"

definition losing_symbols :: "oms \<Rightarrow> nat" where
  "losing_symbols s = cnt (\<lambda>p. realized_pnl p < 0) (positions s)"

definition symbol_win_rate :: "oms \<Rightarrow> dbl" where
  "symbol_win_rate s = dratio (d_of_int (int (winning_symbols s))) (int (winning_symbols s + losing_symbols s))"

definition gross_profit :: "oms \<Rightarrow> int" where
  "gross_profit s = acc64 (\<lambda>p. if realized_pnl p > 0 then realized_pnl p else 0) (positions s)"

definition gross_loss :: "oms \<Rightarrow> int" where
  "gross_loss s = acc64 (\<lambda>p. if realized_pnl p < 0 then - realized_pnl p else 0) (positions s)"

definition best_realized_symbol :: "oms \<Rightarrow> byte list \<times> dbl" where
  "best_realized_symbol s =
     (case pick (\<lambda>p. realized_pnl p \<noteq> 0) (\<lambda>p q. realized_pnl p > realized_pnl q) (positions s) of
        None \<Rightarrow> ([], Fin 0) | Some (k, p) \<Rightarrow> (p_symbol p, to_float (realized_pnl p)))"

definition worst_realized_symbol :: "oms \<Rightarrow> byte list \<times> dbl" where
  "worst_realized_symbol s =
     (case pick (\<lambda>p. realized_pnl p \<noteq> 0) (\<lambda>p q. realized_pnl p < realized_pnl q) (positions s) of
        None \<Rightarrow> ([], Fin 0) | Some (k, p) \<Rightarrow> (p_symbol p, to_float (realized_pnl p)))"

definition largest_win :: "oms \<Rightarrow> int" where
  "largest_win s = maxof (\<lambda>_. True) realized_pnl (positions s)"

definition largest_loss :: "oms \<Rightarrow> int" where
  "largest_loss s = maxof (\<lambda>p. realized_pnl p < 0) (\<lambda>p. s64 (- realized_pnl p)) (positions s)"

definition profit_concentration :: "oms \<Rightarrow> dbl" where
  "profit_concentration s = dratio (d_of_int (maxof (\<lambda>p. realized_pnl p > 0) realized_pnl (positions s))) (gross_profit s)"

definition worst_loss :: "oms \<Rightarrow> int" where
  "worst_loss s = fold (\<lambda>(k, p) w. if realized_pnl p < 0 \<and> realized_pnl p < w then realized_pnl p else w) (positions s) 0"

definition loss_concentration :: "oms \<Rightarrow> dbl" where
  "loss_concentration s = dratio (d_of_int (s64 (- worst_loss s))) (gross_loss s)"

definition profit_factor :: "oms \<Rightarrow> dbl" where
  "profit_factor s = (if gross_loss s > 0 then ddiv (d_of_int (gross_profit s)) (d_of_int (gross_loss s))
     else if gross_profit s > 0 then Inf False else Fin 0)"

definition avg_win_per_symbol :: "oms \<Rightarrow> dbl" where
  "avg_win_per_symbol s = dratio (to_float (gross_profit s)) (int (winning_symbols s))"

definition avg_loss_per_symbol :: "oms \<Rightarrow> dbl" where
  "avg_loss_per_symbol s = dratio (to_float (gross_loss s)) (int (losing_symbols s))"

definition expectancy_per_symbol :: "oms \<Rightarrow> dbl" where
  "expectancy_per_symbol s = dratio (dsub (to_float (gross_profit s)) (to_float (gross_loss s)))
     (int (winning_symbols s + losing_symbols s))"

section \<open>Rejections\<close>

definition reject_count :: "OMSReject \<Rightarrow> oms \<Rightarrow> int" where
  "reject_count r s = reject_counts s ! reject_idx r"

definition total_rejects :: "oms \<Rightarrow> int" where
  "total_rejects s = u64 (u64 (reject_counts s ! 1 + reject_counts s ! 2) + reject_counts s ! 3)"

definition reject_share :: "OMSReject \<Rightarrow> oms \<Rightarrow> dbl" where
  "reject_share r s = (if r = R_NONE then Fin 0 else dratio (d_of_int (reject_count r s)) (total_rejects s))"

definition most_common_reject :: "oms \<Rightarrow> OMSReject" where
  "most_common_reject s =
     fst (fold (\<lambda>r (best, n). if reject_count r s > n then (r, reject_count r s) else (best, n))
       [INVALID_INPUT, ORDER_VALUE, POSITION_LIMIT] (R_NONE, 0))"

definition submit_reject_rate :: "oms \<Rightarrow> dbl" where
  "submit_reject_rate s = dratio (d_of_int (total_rejects s)) (u64 (total_submitted s + total_rejects s))"

section \<open>Execution quality\<close>

definition avg_fill_size :: "oms \<Rightarrow> dbl" where
  "avg_fill_size s = dratio (d_of_int (total_filled_shares s)) (total_fills s)"

definition cancel_to_fill_ratio :: "oms \<Rightarrow> dbl" where
  "cancel_to_fill_ratio s = dratio (d_of_int (total_cancels s)) (total_fills s)"

definition avg_submitted_size :: "oms \<Rightarrow> dbl" where
  "avg_submitted_size s = dratio (d_of_int (total_ordered_shares s)) (total_submitted s)"

definition filled_after_sent :: "Order \<Rightarrow> bool" where
  "filled_after_sent ord \<longleftrightarrow> o_status ord = FILLED \<and> o_filled_ns ord > o_sent_ns ord"

definition time_to_fill :: "Order \<Rightarrow> int" where
  "time_to_fill ord = s64 (o_filled_ns ord - o_sent_ns ord)"

definition avg_time_to_fill_ns :: "oms \<Rightarrow> int" where
  "avg_time_to_fill_ns s =
     (let sum = acc64 (\<lambda>ord. if filled_after_sent ord then time_to_fill ord else 0) (orders s);
          n = int (cnt filled_after_sent (orders s)) in if n > 0 then tdiv sum n else 0)"

definition max_time_to_fill_ns :: "oms \<Rightarrow> int" where
  "max_time_to_fill_ns s = maxof filled_after_sent time_to_fill (orders s)"

definition min_time_to_fill_ns :: "oms \<Rightarrow> int" where
  "min_time_to_fill_ns s = (case pick filled_after_sent (\<lambda>x y. time_to_fill x < time_to_fill y) (orders s) of
     None \<Rightarrow> 0 | Some (k, ord) \<Rightarrow> time_to_fill ord)"

definition cancelled_after_sent :: "Order \<Rightarrow> bool" where
  "cancelled_after_sent ord \<longleftrightarrow> o_status ord = CANCELLED \<and> o_cancelled_ns ord > o_sent_ns ord"

definition time_to_cancel :: "Order \<Rightarrow> int" where
  "time_to_cancel ord = s64 (o_cancelled_ns ord - o_sent_ns ord)"

definition max_time_to_cancel_ns :: "oms \<Rightarrow> int" where
  "max_time_to_cancel_ns s = maxof cancelled_after_sent time_to_cancel (orders s)"

definition avg_time_to_cancel_ns :: "oms \<Rightarrow> int" where
  "avg_time_to_cancel_ns s =
     (let sum = acc64 (\<lambda>ord. if cancelled_after_sent ord then time_to_cancel ord else 0) (orders s);
          n = int (cnt cancelled_after_sent (orders s)) in if n > 0 then tdiv sum n else 0)"

definition min_time_to_cancel_ns :: "oms \<Rightarrow> int" where
  "min_time_to_cancel_ns s = (case pick cancelled_after_sent (\<lambda>x y. time_to_cancel x < time_to_cancel y) (orders s) of
     None \<Rightarrow> 0 | Some (k, ord) \<Rightarrow> time_to_cancel ord)"

definition total_price_improvement :: "oms \<Rightarrow> dbl" where
  "total_price_improvement s = to_float (price_improvement_fp s)"

definition avg_price_improvement_per_share :: "oms \<Rightarrow> dbl" where
  "avg_price_improvement_per_share s = dratio (to_float (price_improvement_fp s)) (total_filled_shares s)"

definition avg_pnl_per_round_trip :: "oms \<Rightarrow> dbl" where
  "avg_pnl_per_round_trip s = dratio (to_float (total_realized_pnl s)) (round_trips s)"

definition avg_net_pnl_per_round_trip :: "oms \<Rightarrow> dbl" where
  "avg_net_pnl_per_round_trip s = dratio (to_float (total_net_pnl s)) (round_trips s)"

definition realized_pnl_per_share :: "oms \<Rightarrow> dbl" where
  "realized_pnl_per_share s = dratio (to_float (total_realized_pnl s)) (total_filled_shares s)"

definition net_pnl_per_share :: "oms \<Rightarrow> dbl" where
  "net_pnl_per_share s = dratio (to_float (total_net_pnl s)) (total_filled_shares s)"

definition symbol_round_trips :: "byte list \<Rightarrow> oms \<Rightarrow> int" where
  "symbol_round_trips sy s = (case map_of (positions s) (sym_to_key sy) of None \<Rightarrow> 0 | Some p \<Rightarrow> p_round_trips p)"

definition order_fill_count :: "int \<Rightarrow> oms \<Rightarrow> int" where
  "order_fill_count oid s = (case map_of (orders s) oid of None \<Rightarrow> 0 | Some ord \<Rightarrow> o_fill_count ord)"

definition max_order_fill_count :: "oms \<Rightarrow> int" where
  "max_order_fill_count s = maxof (\<lambda>_. True) o_fill_count (orders s)"

definition most_fragmented_order_id :: "oms \<Rightarrow> int" where
  "most_fragmented_order_id s =
     snd (fold (\<lambda>(k, ord) (mx, who). if o_fill_count ord > mx then (o_fill_count ord, k) else (mx, who)) (orders s) (0, 0))"

definition order_fill_rate :: "oms \<Rightarrow> dbl" where
  "order_fill_rate s = dratio (d_of_int (int (count_by_status FILLED s))) (total_submitted s)"

definition cancel_rate :: "oms \<Rightarrow> dbl" where
  "cancel_rate s = dratio (d_of_int (total_cancels s)) (total_submitted s)"

definition replace_rate :: "oms \<Rightarrow> dbl" where
  "replace_rate s = dratio (d_of_int (total_replaces s)) (total_submitted s)"

definition notional_fill_ratio :: "oms \<Rightarrow> dbl" where
  "notional_fill_ratio s = (if dlt (Fin 0) (total_submitted_notional s)
     then ddiv (total_traded_notional s) (total_submitted_notional s) else Fin 0)"

definition avg_submitted_notional :: "oms \<Rightarrow> dbl" where
  "avg_submitted_notional s = dratio (total_submitted_notional s) (total_submitted s)"

definition avg_trade_price :: "oms \<Rightarrow> dbl" where
  "avg_trade_price s = dratio (total_traded_notional s) (total_filled_shares s)"

definition fill_ratio :: "oms \<Rightarrow> dbl" where
  "fill_ratio s = dratio (d_of_int (total_filled_shares s)) (total_ordered_shares s)"

section \<open>What the loops compute\<close>

lemma cnt_eq: "cnt P m = length (filter (\<lambda>x. P (snd x)) m)"
proof -
  have "fold (\<lambda>(k, v) n. if P v then Suc n else n) m n = n + length (filter (\<lambda>x. P (snd x)) m)" for n
    by (induction m arbitrary: n) auto
  then show ?thesis by (simp add: cnt_def)
qed

lemma cnt_split:
  assumes "\<And>k v. (k, v) \<in> set m \<Longrightarrow> P v \<longleftrightarrow> \<not> Q v"
  shows "cnt P m + cnt Q m = length m"
proof -
  have "filter (\<lambda>x. P (snd x)) m = filter (\<lambda>x. \<not> Q (snd x)) m"
    by (rule filter_cong) (use assms in auto)
  then show ?thesis using sum_length_filter_compl [of "\<lambda>x. Q (snd x)" m] by (simp add: cnt_eq)
qed

lemma hm_sum_diff: "hm_sum (\<lambda>v. f v - g v) m = hm_sum f m - hm_sum g m"
  by (induction m) auto

lemma hm_sum_s64: "s64 (hm_sum (\<lambda>v. s64 (f v)) m) = s64 (hm_sum f m)"
proof (induction m)
  case (Cons x m)
  obtain k v where x: "x = (k, v)" by (cases x)
  have "s64 (hm_sum (\<lambda>v. s64 (f v)) (x # m)) = s64 (f v + s64 (hm_sum (\<lambda>v. s64 (f v)) m))"
    by (simp add: x wrap_simps)
  also have "\<dots> = s64 (hm_sum f (x # m))" by (simp add: x Cons wrap_simps)
  finally show ?case .
qed simp

lemma hm_sum_abs: "\<bar>hm_sum f m\<bar> \<le> hm_sum (\<lambda>v. \<bar>f v\<bar>) m"
  by (induction m) auto

section \<open>Properties\<close>

lemma most_common_reject_max:
  "(most_common_reject s = R_NONE \<and> (\<forall>r. r \<noteq> R_NONE \<longrightarrow> reject_count r s \<le> 0))
   \<or> (most_common_reject s \<noteq> R_NONE \<and> (\<forall>r. r \<noteq> R_NONE \<longrightarrow> reject_count r s \<le> reject_count (most_common_reject s) s))"
proof -
  let ?m = "most_common_reject s"
  have three: "\<And>P. P INVALID_INPUT \<Longrightarrow> P ORDER_VALUE \<Longrightarrow> P POSITION_LIMIT \<Longrightarrow> \<forall>r. r \<noteq> R_NONE \<longrightarrow> P r"
    by (metis OMSReject.exhaust)
  show ?thesis
  proof (cases "?m = R_NONE")
    case True
    then have "\<forall>r. r \<noteq> R_NONE \<longrightarrow> reject_count r s \<le> 0"
      by (intro three) (auto simp: most_common_reject_def split: if_splits)
    with True show ?thesis by simp
  next
    case False
    have "\<forall>r. r \<noteq> R_NONE \<longrightarrow> reject_count r s \<le> reject_count ?m s"
      by (intro three; use False in \<open>auto simp: most_common_reject_def split: if_splits\<close>)
    with False show ?thesis by simp
  qed
qed

text \<open>
  The accessors agree with each other: working and done orders split the order count, the
  portfolio's net profit is its realized profit less the fees of its positions, and the most common
  rejection is one no other reason outnumbers.
\<close>

theorem oms_metrics_consistent:
  assumes "oms_inv s"
  shows "working_order_count s + done_order_count s = order_count s
    \<and> total_net_pnl s = s64 (total_realized_pnl s - hm_sum fees (positions s))
    \<and> (\<forall>r. r \<noteq> R_NONE \<longrightarrow> reject_count r s
          \<le> (if most_common_reject s = R_NONE then 0 else reject_count (most_common_reject s) s))"
proof -
  have ord: "working ord \<longleftrightarrow> \<not> (o_status ord = FILLED \<or> o_status ord = CANCELLED \<or> o_status ord = REJECTED)"
    if "(k, ord) \<in> set (orders s)" for k ord
  proof -
    have "order_ok ord" using that assms by (auto simp: oms_inv_def)
    then show ?thesis by (cases "o_status ord") (simp_all add: order_ok_def working_def)
  qed
  have "working_order_count s + done_order_count s = order_count s"
    unfolding working_order_count_def done_order_count_def order_count_def by (rule cnt_split) (rule ord)
  moreover have "total_net_pnl s = s64 (total_realized_pnl s - hm_sum fees (positions s))"
    unfolding total_net_pnl_def total_realized_pnl_def acc64_eq net_pnl_def hm_sum_s64
    by (simp add: hm_sum_diff wrap_simps)
  ultimately show ?thesis using most_common_reject_max [of s] by auto
qed

theorem oms_metrics_consistent_witness:
  "working_order_count (oms_init 10 (Fin 10) (Fin 0)) + done_order_count (oms_init 10 (Fin 10) (Fin 0))
     = order_count (oms_init 10 (Fin 10) (Fin 0))"
  by (rule conjunct1 [OF oms_metrics_consistent [OF oms_init_inv]])

end
