(* ===== verification/Wire.thy ===== *)
theory Wire
  imports Common Binary64
begin

unbundle bit_operations_syntax

text \<open>
  What the wire formats share: big-endian integers, space-padded text fields, decimal text, the
  fixed-point price field, and the splitting of a byte stream into frames.  A buffer is the list of
  its bytes; a char array is the list of the bytes before its terminator.
\<close>

section \<open>Characters and text fields\<close>

definition chr :: "char \<Rightarrow> byte" where
  "chr c = of_char c"

definition bytes_of :: "string \<Rightarrow> byte list" where
  "bytes_of s = map chr s"

definition cstr :: "byte list \<Rightarrow> byte list" where
  "cstr bs = takeWhile (\<lambda>b. b \<noteq> 0) bs"

definition SPACE :: byte where
  "SPACE = 32"

definition write_padded :: "byte list \<Rightarrow> nat \<Rightarrow> byte list" where
  "write_padded src len = take len src @ replicate (len - length src) SPACE"

fun strip_loop :: "byte list \<Rightarrow> nat \<Rightarrow> nat" where
  "strip_loop dst 0 = 0"
| "strip_loop dst (Suc e) = (if dst ! e = SPACE then strip_loop dst e else Suc e)"

definition strip_padding :: "byte list \<Rightarrow> nat \<Rightarrow> byte list" where
  "strip_padding src len = (let dst = take len src in cstr (take (strip_loop dst len) dst))"

text \<open>A text that a padded field of length \<open>n\<close> can carry.\<close>

definition field_ok :: "nat \<Rightarrow> byte list \<Rightarrow> bool" where
  "field_ok n s \<longleftrightarrow> length s \<le> n \<and> 0 \<notin> set s \<and> (s \<noteq> [] \<longrightarrow> last s \<noteq> SPACE)"

lemma length_write_padded [simp]: "length (write_padded src len) = len"
  by (simp add: write_padded_def)

lemma strip_loop_padded:
  assumes "s \<noteq> [] \<longrightarrow> last s \<noteq> SPACE"
  shows "strip_loop (s @ replicate k SPACE) (length s + k) = length s"
proof (induction k)
  case 0
  show ?case
  proof (cases s rule: rev_cases)
    case (snoc ys y)
    then show ?thesis using assms by (simp add: nth_append)
  qed simp
next
  case (Suc k)
  have *: "strip_loop (s @ replicate (Suc k) SPACE) n = strip_loop (s @ replicate k SPACE) n" if "n \<le> length s + k" for n
    using that by (induction n) (auto simp: nth_append nth_Cons' simp del: replicate.simps)
  have "(s @ replicate (Suc k) SPACE) ! (length s + k) = SPACE" by (simp add: nth_append del: replicate.simps)
  then show ?case using Suc * [of "length s + k"] by simp
qed

lemma strip_write_padded:
  assumes "field_ok n s"
  shows "strip_padding (write_padded s n @ rest) n = s"
proof -
  have "take n (write_padded s n @ rest) = s @ replicate (n - length s) SPACE"
    using assms by (simp add: write_padded_def field_ok_def)
  moreover have "strip_loop (s @ replicate (n - length s) SPACE) n = length s"
    using strip_loop_padded [of s "n - length s"] assms by (simp add: field_ok_def)
  moreover have "takeWhile (\<lambda>b. b \<noteq> 0) s = s" using assms by (auto simp: field_ok_def)
  ultimately show ?thesis by (simp only: strip_padding_def cstr_def Let_def) simp
qed

section \<open>Decimal text\<close>

fun dec_digits :: "nat \<Rightarrow> string" where
  "dec_digits n = (if n < 10 then [char_of (48 + n)] else dec_digits (n div 10) @ [char_of (48 + n mod 10)])"

declare dec_digits.simps [simp del]

section \<open>Big-endian integers\<close>

definition read_be :: "byte list \<Rightarrow> 'a::len word" where
  "read_be src = fold (\<lambda>b v. push_bit 8 v OR ucast b) src 0"

definition write_be :: "nat \<Rightarrow> 'a::len word \<Rightarrow> byte list" where
  "write_be n v = map (\<lambda>i. ucast (drop_bit (i * 8) v AND 0xFF)) (rev [0..<n])"

definition read_u32_be :: "byte list \<Rightarrow> 32 word" where
  "read_u32_be src = push_bit 24 (ucast (src ! 0)) OR push_bit 16 (ucast (src ! 1))
     OR push_bit 8 (ucast (src ! 2)) OR ucast (src ! 3)"

definition write_u32_be :: "32 word \<Rightarrow> byte list" where
  "write_u32_be val = [ucast (drop_bit 24 val AND 0xFF), ucast (drop_bit 16 val AND 0xFF),
     ucast (drop_bit 8 val AND 0xFF), ucast (val AND 0xFF)]"

definition read_u64_be :: "byte list \<Rightarrow> 64 word" where
  "read_u64_be src = read_be (take 8 src)"

definition write_u64_be :: "64 word \<Rightarrow> byte list" where
  "write_u64_be val = write_be 8 val"

definition read_u16_be :: "byte list \<Rightarrow> 16 word" where
  "read_u16_be src = push_bit 8 (ucast (src ! 0)) OR ucast (src ! 1)"

definition write_u16_be :: "16 word \<Rightarrow> byte list" where
  "write_u16_be val = [ucast (drop_bit 8 val), ucast val]"

lemma length_write_be [simp]: "length (write_be n v) = n"
  by (simp add: write_be_def)

lemma length_write_u [simp]:
  "length (write_u32_be v) = 4" "length (write_u64_be w) = 8" "length (write_u16_be x) = 2"
  by (simp_all add: write_u32_be_def write_u64_be_def write_u16_be_def)

lemma read_be_snoc: "read_be (bs @ [b]) = push_bit 8 (read_be bs) OR ucast b"
  by (simp add: read_be_def)

lemma bit_read_be:
  "bit (read_be bs :: 'a::len word) k \<longleftrightarrow> k < LENGTH('a) \<and> k < 8 * length bs \<and> bit (bs ! (length bs - 1 - k div 8)) (k mod 8)"
proof (induction bs arbitrary: k rule: rev_induct)
  case Nil
  then show ?case by (simp add: read_be_def)
next
  case (snoc b bs)
  show ?case
  proof (cases "k < 8")
    case True
    then show ?thesis by (auto simp: read_be_snoc bit_simps nth_append)
  next
    case False
    then obtain j where j: "k = j + 8" by (metis add.commute le_Suc_ex not_less)
    have "\<not> bit b k" using False bit_imp_le_length [of b k] by auto
    then have "bit (read_be (bs @ [b]) :: 'a word) k \<longleftrightarrow> k < LENGTH('a) \<and> bit (read_be bs :: 'a word) j"
      using j by (auto simp: read_be_snoc bit_simps)
    also have "\<dots> \<longleftrightarrow> k < LENGTH('a) \<and> k < 8 * length (bs @ [b]) \<and> bit ((bs @ [b]) ! (length (bs @ [b]) - 1 - k div 8)) (k mod 8)"
    proof -
      have "j < 8 * length bs \<Longrightarrow> length bs - Suc (j div 8) < length bs" by (cases "length bs") auto
      moreover have "length bs - 1 - j div 8 = length bs - Suc (j div 8)" by simp
      ultimately show ?thesis using snoc [of j] by (auto simp: j nth_append)
    qed
    finally show ?thesis .
  qed
qed

lemma bit_FF: "bit (255 :: int) j \<longleftrightarrow> j < 8"
proof -
  have "(255 :: int) = mask 8" by (simp add: mask_eq_exp_minus_1)
  then show ?thesis by (simp only: bit_mask_iff possible_bit_int) simp
qed

lemma bit_write_be:
  assumes "i < n" "j < 8" "n * 8 \<le> LENGTH('a)"
  shows "bit (write_be n (v :: 'a::len word) ! i) j \<longleftrightarrow> bit v ((n - 1 - i) * 8 + j)"
proof -
  have "(n - 1 - i) * 8 + j < LENGTH('a)" using assms by (cases n) auto
  then show ?thesis using assms by (auto simp: write_be_def rev_nth bit_simps bit_FF)
qed

lemma read_write_be:
  assumes "n * 8 = LENGTH('a)"
  shows "read_be (write_be n v) = (v :: 'a::len word)"
proof (rule bit_word_eqI)
  fix k assume k: "k < LENGTH('a)"
  then have kd: "k div 8 < n" "k < 8 * n" using assms by auto
  then have "bit (write_be n v ! (n - 1 - k div 8)) (k mod 8) \<longleftrightarrow> bit v ((n - 1 - (n - 1 - k div 8)) * 8 + k mod 8)"
    using assms by (intro bit_write_be) auto
  also have "(n - 1 - (n - 1 - k div 8)) * 8 + k mod 8 = k" using kd by simp
  finally show "bit (read_be (write_be n v) :: 'a word) k = bit v k" using k kd by (simp add: bit_read_be)
qed

lemma list4: "4 \<le> length src \<Longrightarrow> \<exists>a b c d r. src = a # b # c # d # r"
  by (auto simp: numeral_eq_Suc Suc_le_length_iff)

lemma read_u32_be_eq: "4 \<le> length src \<Longrightarrow> read_u32_be src = read_be (take 4 src)"
  by (drule list4) (auto simp: read_u32_be_def read_be_def push_bit_or or.assoc)

lemma read_u16_be_eq: "read_u16_be (a # b # r) = read_be [a, b]"
  by (simp add: read_u16_be_def read_be_def)

lemma write_u32_be_eq: "write_u32_be v = write_be 4 v"
  by (simp add: write_u32_be_def write_be_def upt_rec)

lemma ucast_low: "(ucast (x AND 0xFF) :: byte) = ucast (x :: 'a::len word)"
  by (rule bit_word_eqI) (auto simp: bit_simps bit_FF dest: bit_imp_le_length)

lemma write_u16_be_eq: "write_u16_be v = write_be 2 v"
  by (simp add: write_u16_be_def write_be_def upt_rec ucast_low)

lemma read_write_u32 [simp]: "read_u32_be (write_u32_be v @ rest) = v"
  by (simp add: read_u32_be_eq write_u32_be_eq read_write_be)

lemma read_write_u64 [simp]: "read_u64_be (write_u64_be v @ rest) = v"
  by (simp add: read_u64_be_def write_u64_be_def read_write_be)

lemma read_write_u16 [simp]: "read_u16_be (write_u16_be v @ rest) = v"
proof -
  have "read_be (write_be 2 v) = v" by (simp add: read_write_be)
  then show ?thesis by (simp add: write_u16_be_eq write_be_def upt_rec read_u16_be_eq)
qed

section \<open>Prices on the wire\<close>

text \<open>
  The four bytes of a price are the price times ten thousand.  The encoders multiply in binary64
  and convert to \<open>uint32_t\<close>, which truncates; the decoders divide.
\<close>

definition price_field :: "dbl \<Rightarrow> 32 word" where
  "price_field price = word_of_int (d_to_s64 (dmul price (d_of_int 10000)))"

definition price_of :: "32 word \<Rightarrow> dbl" where
  "price_of w = ddiv (d_of_int (uint w)) (Fin 10000)"

lemma price_of_to_float: "price_of w = to_float (uint w)"
  by (simp add: price_of_def to_float_def PRICE_SCALE_def d_of_int_small)

lemma price_field_to_float:
  assumes "0 \<le> p" "p < 2 ^ 32"
  shows "uint (price_field (to_float p)) = p \<or> uint (price_field (to_float p)) = p - 1"
proof -
  define P where "P = (of_int p :: rat)"
  have P: "0 \<le> P" "P < 2 ^ 32"
    using assms of_int_less_iff [where ?'a = rat, of p "2 ^ 32"] by (simp_all add: P_def)
  define y where "y = rnd (P / 10000)"
  have "\<bar>y - P / 10000\<bar> \<le> 2 powi (19 - 54)"
    unfolding y_def by (rule rnd_error_lt) (use P in simp_all)
  then have y: "\<bar>y - P / 10000\<bar> \<le> 1 / 34359738368" by (simp add: power_int_minus)
  define z where "z = rnd (y * 10000)"
  have yb: "\<bar>y * 10000\<bar> < 2 powi 33" using y P by (simp add: abs_if field_simps split: if_splits)
  have "\<bar>z - y * 10000\<bar> \<le> 2 powi (33 - 54)" unfolding z_def by (rule rnd_error_lt [OF yb]) simp
  then have z: "\<bar>z - y * 10000\<bar> \<le> 1 / 2097152" by (simp add: power_int_minus)
  have zP: "\<bar>z - P\<bar> < 1 / 2" using y z by linarith
  have "to_float p = Fin y"
    using assms P by (simp add: to_float_def PRICE_SCALE_def d_of_int_small P_def [symmetric] fin_small y_def)
  moreover have "dmul (Fin y) (d_of_int 10000) = Fin z"
    using yb by (simp add: d_of_int_small fin_small z_def)
  moreover have "trunc z = p \<or> trunc z = p - 1 \<and> 0 < p"
  proof (cases "z < 0")
    case True
    then have "P < 1 / 2" using zP P by linarith
    then have "p = 0" using assms by (simp add: P_def)
    moreover have "\<lceil>z\<rceil> = 0" using True zP \<open>p = 0\<close> by (simp add: P_def ceiling_eq_iff)
    ultimately show ?thesis using True by (simp add: trunc_def)
  next
    case False
    have "\<lfloor>z\<rfloor> = p \<or> \<lfloor>z\<rfloor> = p - 1" using zP unfolding P_def by linarith
    moreover have "0 \<le> \<lfloor>z\<rfloor>" using False by (simp add: not_less)
    ultimately have "\<lfloor>z\<rfloor> = p \<or> \<lfloor>z\<rfloor> = p - 1 \<and> 0 < p" by (elim disjE) linarith+
    then show ?thesis by (simp only: trunc_def False if_False)
  qed
  ultimately have "price_field (to_float p) = word_of_int p \<or> price_field (to_float p) = word_of_int (p - 1) \<and> 0 < p"
    using assms by (auto simp: price_field_def)
  moreover have U: "uint (word_of_int q :: 32 word) = q" if "0 \<le> q" "q < 2 ^ 32" for q
    using that by (simp add: uint_word_of_int take_bit_int_eq_self)
  ultimately show ?thesis using U [of p] U [of "p - 1"] assms by (elim disjE conjE) simp_all
qed

section \<open>Splitting a stream into frames\<close>

text \<open>
  The contract of a framing layer: \<open>next_frame\<close> is the length of the frame at the head of the
  buffer, 0 when there is none (nothing complete, or nothing recognisable), and a frame does not
  depend on the bytes after it.
\<close>

locale framing =
  fixes next_frame :: "byte list \<Rightarrow> nat"
  assumes frame_le: "next_frame bs \<le> length bs"
    and frame_prefix: "next_frame bs = n \<Longrightarrow> 0 < n \<Longrightarrow> next_frame (take n bs @ rest) = n"
begin

function frames :: "byte list \<Rightarrow> byte list list" where
  "frames bs = (let n = next_frame bs in if n = 0 then [] else take n bs # frames (drop n bs))"
  by pat_completeness auto
termination
proof (relation "measure length")
  fix bs n assume "n = next_frame bs" "n \<noteq> 0"
  then show "(drop n bs, bs) \<in> measure length" using frame_le [of bs] by (cases bs) auto
qed simp

declare frames.simps [simp del]

function leftover :: "byte list \<Rightarrow> byte list" where
  "leftover bs = (let n = next_frame bs in if n = 0 then bs else leftover (drop n bs))"
  by pat_completeness auto
termination
proof (relation "measure length")
  fix bs n assume "n = next_frame bs" "n \<noteq> 0"
  then show "(drop n bs, bs) \<in> measure length" using frame_le [of bs] by (cases bs) auto
qed simp

declare leftover.simps [simp del]

lemma frames_lossless: "concat (frames bs) @ leftover bs = bs"
proof (induction bs rule: frames.induct)
  case (1 bs)
  then show ?case by (subst frames.simps, subst leftover.simps) (simp add: Let_def)
qed

lemma frame_extend: "0 < next_frame bs \<Longrightarrow> next_frame (bs @ cs) = next_frame bs"
proof -
  assume pos: "0 < next_frame bs"
  let ?n = "next_frame bs"
  have "next_frame (take ?n bs @ (drop ?n bs @ cs)) = ?n" using frame_prefix pos by blast
  then show ?thesis by (simp flip: append_assoc)
qed

text \<open>Segmentation does not matter: the frames of two chunks, with the unconsumed tail of the
  first put before the second, are the frames of the whole.\<close>

lemma frames_segment: "frames (as @ bs) = frames as @ frames (leftover as @ bs)"
proof (induction as rule: frames.induct)
  case (1 as)
  show ?case
  proof (cases "next_frame as = 0")
    case True
    then show ?thesis by (simp add: frames.simps [of as] leftover.simps [of as])
  next
    case False
    then have n: "next_frame (as @ bs) = next_frame as" using frame_extend by simp
    have "next_frame as \<le> length as" by (rule frame_le)
    then have "frames (as @ bs) = take (next_frame as) as # frames (drop (next_frame as) as @ bs)"
      using False by (subst frames.simps) (simp add: n Let_def)
    also have "frames (drop (next_frame as) as @ bs)
        = frames (drop (next_frame as) as) @ frames (leftover (drop (next_frame as) as) @ bs)"
      using 1 [OF refl False] .
    finally show ?thesis using False by (simp add: frames.simps [of as] leftover.simps [of as] Let_def)
  qed
qed

lemma leftover_segment: "leftover (as @ bs) = leftover (leftover as @ bs)"
proof (induction as rule: leftover.induct)
  case (1 as)
  show ?case
  proof (cases "next_frame as = 0")
    case True
    then show ?thesis by (simp add: leftover.simps [of as])
  next
    case False
    then have n: "next_frame (as @ bs) = next_frame as" using frame_extend by simp
    have "next_frame as \<le> length as" by (rule frame_le)
    then have "leftover (as @ bs) = leftover (drop (next_frame as) as @ bs)"
      using False by (subst leftover.simps) (simp add: n Let_def)
    also have "\<dots> = leftover (leftover (drop (next_frame as) as) @ bs)" using 1 [OF refl False] .
    finally show ?thesis using False by (simp add: leftover.simps [of as] Let_def)
  qed
qed

lemma frames_concat:
  assumes "\<And>f. f \<in> set fs \<Longrightarrow> f \<noteq> [] \<and> next_frame f = length f"
  shows "frames (concat fs @ tail) = fs @ frames tail"
  using assms
proof (induction fs)
  case (Cons f fs)
  have f: "f \<noteq> []" "next_frame f = length f" using Cons.prems by simp_all
  then have "next_frame (f @ concat fs @ tail) = length f" using frame_extend [of f] by simp
  then show ?case using Cons f by (subst frames.simps) (simp add: Let_def)
qed simp

end

end
