(* ===== verification/Ouch.thy ===== *)
theory Ouch
  imports Wire
begin

text \<open>
  \<open>ouch-protocol/ouch_protocol.hpp\<close>: the encoders of both sides, the framing of a response stream,
  the decoder of responses, the decoder and the validation of client orders.
\<close>

section \<open>Records\<close>

record OUCHResponse =
  r_type :: string
  r_token :: "byte list"
  r_side :: string
  r_shares :: int
  r_stock :: "byte list"
  r_price :: dbl
  r_order_ref :: int
  r_match_number :: int
  r_reason :: "byte list"
  r_error_msg :: string
  r_prev_token :: "byte list"

definition resp0 :: OUCHResponse where
  "resp0 = \<lparr>r_type = [], r_token = [], r_side = [], r_shares = 0, r_stock = [], r_price = Fin 0,
     r_order_ref = 0, r_match_number = 0, r_reason = [], r_error_msg = [], r_prev_token = []\<rparr>"

record OUCHOrder =
  c_type :: byte
  c_token :: "byte list"
  c_new_token :: "byte list"
  c_side :: byte
  c_shares :: int
  c_stock :: "byte list"
  c_price :: dbl
  c_tif :: byte
  c_valid :: bool

definition order0 :: OUCHOrder where
  "order0 = \<lparr>c_type = chr (CHR ''E''), c_token = [], c_new_token = [], c_side = SPACE, c_shares = 0,
     c_stock = [], c_price = Fin 0, c_tif = SPACE, c_valid = False\<rparr>"

section \<open>Client to exchange\<close>

definition enter_order :: "byte list \<Rightarrow> byte \<Rightarrow> int \<Rightarrow> byte list \<Rightarrow> dbl \<Rightarrow> byte \<Rightarrow> byte list" where
  "enter_order token side shares stock price tif =
     chr (CHR ''O'') # write_padded token 14 @ side # write_u32_be (word_of_int shares) @ write_padded stock 8
     @ write_u32_be (price_field price) @ [tif]"

definition ouch_cancel_order :: "byte list \<Rightarrow> int \<Rightarrow> byte list" where
  "ouch_cancel_order token shares = chr (CHR ''X'') # write_padded token 14 @ write_u32_be (word_of_int shares)"

definition ouch_replace_order :: "byte list \<Rightarrow> byte list \<Rightarrow> int \<Rightarrow> dbl \<Rightarrow> byte list" where
  "ouch_replace_order existing new_token shares price =
     chr (CHR ''U'') # write_padded existing 14 @ write_padded new_token 14 @ write_u32_be (word_of_int shares)
     @ write_u32_be (price_field price)"

definition modify_order :: "byte list \<Rightarrow> int \<Rightarrow> byte list" where
  "modify_order token new_shares = chr (CHR ''M'') # write_padded token 14 @ write_u32_be (word_of_int new_shares)"

section \<open>Exchange to client\<close>

definition encode_accepted :: "byte list \<Rightarrow> byte \<Rightarrow> int \<Rightarrow> byte list \<Rightarrow> dbl \<Rightarrow> int \<Rightarrow> byte \<Rightarrow> byte list" where
  "encode_accepted token side shares stock price order_ref tif =
     chr (CHR ''A'') # write_padded token 14 @ side # write_u32_be (word_of_int shares) @ write_padded stock 8
     @ write_u32_be (price_field price) @ tif # write_u64_be (word_of_int order_ref)"

definition encode_executed :: "byte list \<Rightarrow> int \<Rightarrow> dbl \<Rightarrow> int \<Rightarrow> byte list" where
  "encode_executed token shares price match_number =
     chr (CHR ''E'') # write_padded token 14 @ write_u32_be (word_of_int shares)
     @ write_u32_be (price_field price) @ write_u64_be (word_of_int match_number)"

definition encode_cancelled :: "byte list \<Rightarrow> int \<Rightarrow> byte \<Rightarrow> byte list" where
  "encode_cancelled token shares reason =
     chr (CHR ''C'') # write_padded token 14 @ write_u32_be (word_of_int shares) @ [reason]"

definition encode_rejected :: "byte list \<Rightarrow> byte \<Rightarrow> byte list" where
  "encode_rejected token reason = chr (CHR ''J'') # write_padded token 14 @ [reason]"

definition encode_cancel_reject :: "byte list \<Rightarrow> byte \<Rightarrow> byte list" where
  "encode_cancel_reject token reason = chr (CHR ''I'') # write_padded token 14 @ [reason]"

definition encode_cancel_pending :: "byte list \<Rightarrow> byte list" where
  "encode_cancel_pending token = chr (CHR ''P'') # write_padded token 14"

definition encode_aiq_canceled :: "byte list \<Rightarrow> int \<Rightarrow> byte \<Rightarrow> byte list" where
  "encode_aiq_canceled token decrement reason =
     chr (CHR ''D'') # write_padded token 14 @ write_u32_be (word_of_int decrement) @ [reason]"

definition encode_system_event :: "int \<Rightarrow> byte \<Rightarrow> byte list" where
  "encode_system_event timestamp event_code = chr (CHR ''S'') # write_u64_be (word_of_int timestamp) @ [event_code]"

definition encode_restated :: "byte list \<Rightarrow> int \<Rightarrow> dbl \<Rightarrow> byte \<Rightarrow> byte list" where
  "encode_restated token shares price reason =
     chr (CHR ''R'') # write_padded token 14 @ write_u32_be (word_of_int shares)
     @ write_u32_be (price_field price) @ [reason]"

definition encode_replaced :: "byte list \<Rightarrow> byte list \<Rightarrow> int \<Rightarrow> dbl \<Rightarrow> int \<Rightarrow> byte list" where
  "encode_replaced repl_token prev_token shares price order_ref =
     chr (CHR ''U'') # write_padded repl_token 14 @ write_padded prev_token 14 @ write_u32_be (word_of_int shares)
     @ write_u32_be (price_field price) @ write_u64_be (word_of_int order_ref)"

definition encode_broken_trade :: "byte list \<Rightarrow> int \<Rightarrow> int \<Rightarrow> byte \<Rightarrow> byte list" where
  "encode_broken_trade token shares match_number reason =
     chr (CHR ''B'') # write_padded token 14 @ write_u32_be (word_of_int shares)
     @ write_u64_be (word_of_int match_number) @ [reason]"

definition expected_length :: "byte \<Rightarrow> nat" where
  "expected_length ty =
     (if ty = chr (CHR ''A'') then 41 else if ty = chr (CHR ''C'') then 20 else if ty = chr (CHR ''E'') then 31
      else if ty = chr (CHR ''J'') then 16 else if ty = chr (CHR ''U'') then 45 else if ty = chr (CHR ''B'') then 28
      else if ty = chr (CHR ''I'') then 16 else if ty = chr (CHR ''P'') then 15 else if ty = chr (CHR ''D'') then 20
      else if ty = chr (CHR ''S'') then 10 else if ty = chr (CHR ''R'') then 24 else 0)"

section \<open>Decoding responses\<close>

definition too_short :: "string \<Rightarrow> nat \<Rightarrow> nat \<Rightarrow> OUCHResponse" where
  "too_short name len need = resp0\<lparr>r_type := ''ERROR'',
     r_error_msg := name @ '' too short: '' @ dec_digits len @ '' < '' @ dec_digits need @ '' bytes''\<rparr>"

definition parse_response :: "byte list \<Rightarrow> OUCHResponse" where
  "parse_response data =
     (let len = length data in
      if len < 1 then resp0\<lparr>r_type := ''ERROR'', r_error_msg := ''empty response''\<rparr>
      else let ty = data ! 0 in
      if ty = chr (CHR ''A'') then
        (if len < 41 then too_short ''ACCEPTED'' len 41
         else resp0\<lparr>r_type := ''ACCEPTED'', r_token := strip_padding (drop 1 data) 14,
                r_side := (if data ! 15 = chr (CHR ''B'') then ''BUY'' else ''SELL''),
                r_shares := sint (read_u32_be (drop 16 data)), r_stock := strip_padding (drop 20 data) 8,
                r_price := price_of (read_u32_be (drop 28 data)), r_order_ref := sint (read_u64_be (drop 33 data))\<rparr>)
      else if ty = chr (CHR ''C'') then
        (if len < 20 then too_short ''CANCELLED'' len 20
         else resp0\<lparr>r_type := ''CANCELLED'', r_token := strip_padding (drop 1 data) 14,
                r_shares := sint (read_u32_be (drop 15 data)), r_reason := cstr [data ! 19]\<rparr>)
      else if ty = chr (CHR ''E'') then
        (if len < 31 then too_short ''EXECUTED'' len 31
         else resp0\<lparr>r_type := ''EXECUTED'', r_token := strip_padding (drop 1 data) 14,
                r_shares := sint (read_u32_be (drop 15 data)), r_price := price_of (read_u32_be (drop 19 data)),
                r_match_number := sint (read_u64_be (drop 23 data))\<rparr>)
      else if ty = chr (CHR ''B'') then
        (if len < 28 then too_short ''BROKEN'' len 28
         else resp0\<lparr>r_type := ''BROKEN'', r_token := strip_padding (drop 1 data) 14,
                r_shares := sint (read_u32_be (drop 15 data)), r_match_number := sint (read_u64_be (drop 19 data)),
                r_reason := cstr [data ! 27]\<rparr>)
      else if ty = chr (CHR ''J'') then
        (if len < 16 then too_short ''REJECTED'' len 16
         else resp0\<lparr>r_type := ''REJECTED'', r_token := strip_padding (drop 1 data) 14, r_reason := cstr [data ! 15]\<rparr>)
      else if ty = chr (CHR ''I'') then
        (if len < 16 then too_short ''CANCEL_REJECT'' len 16
         else resp0\<lparr>r_type := ''CXL_REJECT'', r_token := strip_padding (drop 1 data) 14, r_reason := cstr [data ! 15]\<rparr>)
      else if ty = chr (CHR ''P'') then
        (if len < 15 then too_short ''CANCEL_PENDING'' len 15
         else resp0\<lparr>r_type := ''CXL_PEND'', r_token := strip_padding (drop 1 data) 14\<rparr>)
      else if ty = chr (CHR ''D'') then
        (if len < 20 then too_short ''AIQ_CANCEL'' len 20
         else resp0\<lparr>r_type := ''AIQ_CXL'', r_token := strip_padding (drop 1 data) 14,
                r_shares := sint (read_u32_be (drop 15 data)), r_reason := cstr [data ! 19]\<rparr>)
      else if ty = chr (CHR ''S'') then
        (if len < 10 then too_short ''SYS_EVENT'' len 10
         else resp0\<lparr>r_type := ''SYS_EVENT'', r_match_number := sint (read_u64_be (drop 1 data)),
                r_reason := cstr [data ! 9]\<rparr>)
      else if ty = chr (CHR ''R'') then
        (if len < 24 then too_short ''RESTATED'' len 24
         else resp0\<lparr>r_type := ''RESTATED'', r_token := strip_padding (drop 1 data) 14,
                r_shares := sint (read_u32_be (drop 15 data)), r_price := price_of (read_u32_be (drop 19 data)),
                r_reason := cstr [data ! 23]\<rparr>)
      else if ty = chr (CHR ''U'') then
        (if len < 45 then too_short ''REPLACED'' len 45
         else resp0\<lparr>r_type := ''REPLACED'', r_token := strip_padding (drop 1 data) 14,
                r_prev_token := strip_padding (drop 15 data) 14, r_shares := sint (read_u32_be (drop 29 data)),
                r_price := price_of (read_u32_be (drop 33 data)), r_order_ref := sint (read_u64_be (drop 37 data))\<rparr>)
      else resp0\<lparr>r_type := ''UNKNOWN''\<rparr>)"

text \<open>
  The loop of \<open>parse_stream\<close> from an offset: the responses handed to the callback, in order, and
  the number of bytes consumed.
\<close>

function parse_stream_from :: "byte list \<Rightarrow> nat \<Rightarrow> OUCHResponse list \<times> nat" where
  "parse_stream_from data off =
     (if off < length data then
        (let mlen = expected_length (data ! off) in
         if mlen \<le> 0 then ([], off)
         else if off + mlen > length data then ([], off)
         else let (rs, e) = parse_stream_from data (off + mlen)
              in (parse_response (take mlen (drop off data)) # rs, e))
      else ([], off))"
  by pat_completeness auto
termination
  by (relation "measure (\<lambda>(data, off). length data - off)") auto

declare parse_stream_from.simps [simp del]

definition parse_stream :: "byte list \<Rightarrow> OUCHResponse list \<times> nat" where
  "parse_stream data = parse_stream_from data 0"

section \<open>Decoding and validating client orders\<close>

definition parse_order :: "byte list \<Rightarrow> OUCHOrder" where
  "parse_order data =
     (let len = length data in
      if len < 1 then order0
      else let t = data ! 0 in
      if t = chr (CHR ''O'') then
        (if len < 33 then order0
         else order0\<lparr>c_type := t, c_token := strip_padding (drop 1 data) 14, c_side := data ! 15,
                c_shares := sint (read_u32_be (drop 16 data)), c_stock := strip_padding (drop 20 data) 8,
                c_price := price_of (read_u32_be (drop 28 data)), c_tif := data ! 32, c_valid := True\<rparr>)
      else if t = chr (CHR ''X'') then
        (if len < 19 then order0
         else order0\<lparr>c_type := t, c_token := strip_padding (drop 1 data) 14,
                c_shares := sint (read_u32_be (drop 15 data)), c_valid := True\<rparr>)
      else if t = chr (CHR ''U'') then
        (if len < 37 then order0
         else order0\<lparr>c_type := t, c_token := strip_padding (drop 1 data) 14, c_new_token := strip_padding (drop 15 data) 14,
                c_shares := sint (read_u32_be (drop 29 data)), c_price := price_of (read_u32_be (drop 33 data)),
                c_valid := True\<rparr>)
      else if t = chr (CHR ''M'') then
        (if len < 19 then order0
         else order0\<lparr>c_type := t, c_token := strip_padding (drop 1 data) 14,
                c_shares := sint (read_u32_be (drop 15 data)), c_valid := True\<rparr>)
      else order0)"

definition MAX_ORDER_SHARES :: int where
  "MAX_ORDER_SHARES = 1000000"

definition MAX_ORDER_PRICE :: dbl where
  "MAX_ORDER_PRICE = fin (19999999 / 100)"

definition validate_order :: "OUCHOrder \<Rightarrow> string option" where
  "validate_order ord =
     (if \<not> c_valid ord then Some ''malformed''
      else if c_token ord = [] then Some ''empty token''
      else if c_type ord = chr (CHR ''O'') then
        (if c_side ord \<noteq> chr (CHR ''B'') \<and> c_side ord \<noteq> chr (CHR ''S'') then Some ''invalid side''
         else if c_shares ord \<le> 0 then Some ''non-positive shares''
         else if c_shares ord > MAX_ORDER_SHARES then Some ''shares exceed maximum''
         else if dle (c_price ord) (Fin 0) then Some ''non-positive price''
         else if dlt MAX_ORDER_PRICE (c_price ord) then Some ''price exceeds maximum''
         else if c_stock ord = [] then Some ''empty symbol'' else None)
      else if c_type ord = chr (CHR ''U'') then
        (if c_new_token ord = [] then Some ''empty replacement token''
         else if c_shares ord \<le> 0 then Some ''non-positive shares''
         else if c_shares ord > MAX_ORDER_SHARES then Some ''shares exceed maximum''
         else if dle (c_price ord) (Fin 0) then Some ''non-positive price''
         else if dlt MAX_ORDER_PRICE (c_price ord) then Some ''price exceeds maximum'' else None)
      else if c_type ord = chr (CHR ''M'') then
        (if c_shares ord \<le> 0 then Some ''non-positive shares''
         else if c_shares ord > MAX_ORDER_SHARES then Some ''shares exceed maximum'' else None)
      else if c_type ord = chr (CHR ''X'') then
        (if c_shares ord < 0 then Some ''negative shares'' else None)
      else None)"

section \<open>Character codes\<close>

lemma chr_codes [simp]:
  "chr CHR ''A'' = 65" "chr CHR ''B'' = 66" "chr CHR ''C'' = 67" "chr CHR ''D'' = 68" "chr CHR ''E'' = 69"
  "chr CHR ''I'' = 73" "chr CHR ''J'' = 74" "chr CHR ''M'' = 77" "chr CHR ''O'' = 79" "chr CHR ''P'' = 80"
  "chr CHR ''R'' = 82" "chr CHR ''S'' = 83" "chr CHR ''U'' = 85" "chr CHR ''X'' = 88"
  by (simp_all add: chr_def)

section \<open>Round trips\<close>

text \<open>The exchange's messages, what each encodes to and what the client should read.\<close>

datatype ouch_msg =
    Accepted "byte list" byte int "byte list" dbl int byte
  | Executed "byte list" int dbl int
  | Cancelled "byte list" int byte
  | Rejected "byte list" byte
  | CancelReject "byte list" byte
  | CancelPending "byte list"
  | AiqCanceled "byte list" int byte
  | SystemEvent int byte
  | Restated "byte list" int dbl byte
  | Replaced "byte list" "byte list" int dbl int
  | BrokenTrade "byte list" int int byte

primrec encode_msg :: "ouch_msg \<Rightarrow> byte list" where
  "encode_msg (Accepted tok sd n st px oref tif) = encode_accepted tok sd n st px oref tif"
| "encode_msg (Executed tok n px mn) = encode_executed tok n px mn"
| "encode_msg (Cancelled tok n rs) = encode_cancelled tok n rs"
| "encode_msg (Rejected tok rs) = encode_rejected tok rs"
| "encode_msg (CancelReject tok rs) = encode_cancel_reject tok rs"
| "encode_msg (CancelPending tok) = encode_cancel_pending tok"
| "encode_msg (AiqCanceled tok n rs) = encode_aiq_canceled tok n rs"
| "encode_msg (SystemEvent tm ev) = encode_system_event tm ev"
| "encode_msg (Restated tok n px rs) = encode_restated tok n px rs"
| "encode_msg (Replaced tok prev n px oref) = encode_replaced tok prev n px oref"
| "encode_msg (BrokenTrade tok n mn rs) = encode_broken_trade tok n mn rs"

primrec msg_resp :: "ouch_msg \<Rightarrow> OUCHResponse" where
  "msg_resp (Accepted tok sd n st px oref tif) = resp0\<lparr>r_type := ''ACCEPTED'', r_token := tok,
     r_side := (if sd = chr (CHR ''B'') then ''BUY'' else ''SELL''), r_shares := n, r_stock := st,
     r_price := price_of (price_field px), r_order_ref := oref\<rparr>"
| "msg_resp (Executed tok n px mn) = resp0\<lparr>r_type := ''EXECUTED'', r_token := tok, r_shares := n,
     r_price := price_of (price_field px), r_match_number := mn\<rparr>"
| "msg_resp (Cancelled tok n rs) = resp0\<lparr>r_type := ''CANCELLED'', r_token := tok, r_shares := n, r_reason := [rs]\<rparr>"
| "msg_resp (Rejected tok rs) = resp0\<lparr>r_type := ''REJECTED'', r_token := tok, r_reason := [rs]\<rparr>"
| "msg_resp (CancelReject tok rs) = resp0\<lparr>r_type := ''CXL_REJECT'', r_token := tok, r_reason := [rs]\<rparr>"
| "msg_resp (CancelPending tok) = resp0\<lparr>r_type := ''CXL_PEND'', r_token := tok\<rparr>"
| "msg_resp (AiqCanceled tok n rs) = resp0\<lparr>r_type := ''AIQ_CXL'', r_token := tok, r_shares := n, r_reason := [rs]\<rparr>"
| "msg_resp (SystemEvent tm ev) = resp0\<lparr>r_type := ''SYS_EVENT'', r_match_number := tm, r_reason := [ev]\<rparr>"
| "msg_resp (Restated tok n px rs) = resp0\<lparr>r_type := ''RESTATED'', r_token := tok, r_shares := n,
     r_price := price_of (price_field px), r_reason := [rs]\<rparr>"
| "msg_resp (Replaced tok prev n px oref) = resp0\<lparr>r_type := ''REPLACED'', r_token := tok, r_prev_token := prev,
     r_shares := n, r_price := price_of (price_field px), r_order_ref := oref\<rparr>"
| "msg_resp (BrokenTrade tok n mn rs) = resp0\<lparr>r_type := ''BROKEN'', r_token := tok, r_shares := n,
     r_match_number := mn, r_reason := [rs]\<rparr>"

definition int32_ok :: "int \<Rightarrow> bool" where
  "int32_ok n \<longleftrightarrow> - (2 ^ 31) \<le> n \<and> n < 2 ^ 31"

definition int64_ok :: "int \<Rightarrow> bool" where
  "int64_ok n \<longleftrightarrow> - (2 ^ 63) \<le> n \<and> n < 2 ^ 63"

primrec msg_ok :: "ouch_msg \<Rightarrow> bool" where
  "msg_ok (Accepted tok sd n st px oref tif) \<longleftrightarrow> field_ok 14 tok \<and> field_ok 8 st \<and> int32_ok n \<and> int64_ok oref"
| "msg_ok (Executed tok n px mn) \<longleftrightarrow> field_ok 14 tok \<and> int32_ok n \<and> int64_ok mn"
| "msg_ok (Cancelled tok n rs) \<longleftrightarrow> field_ok 14 tok \<and> int32_ok n \<and> rs \<noteq> 0"
| "msg_ok (Rejected tok rs) \<longleftrightarrow> field_ok 14 tok \<and> rs \<noteq> 0"
| "msg_ok (CancelReject tok rs) \<longleftrightarrow> field_ok 14 tok \<and> rs \<noteq> 0"
| "msg_ok (CancelPending tok) \<longleftrightarrow> field_ok 14 tok"
| "msg_ok (AiqCanceled tok n rs) \<longleftrightarrow> field_ok 14 tok \<and> int32_ok n \<and> rs \<noteq> 0"
| "msg_ok (SystemEvent tm ev) \<longleftrightarrow> int64_ok tm \<and> ev \<noteq> 0"
| "msg_ok (Restated tok n px rs) \<longleftrightarrow> field_ok 14 tok \<and> int32_ok n \<and> rs \<noteq> 0"
| "msg_ok (Replaced tok prev n px oref) \<longleftrightarrow> field_ok 14 tok \<and> field_ok 14 prev \<and> int32_ok n \<and> int64_ok oref"
| "msg_ok (BrokenTrade tok n mn rs) \<longleftrightarrow> field_ok 14 tok \<and> int32_ok n \<and> int64_ok mn \<and> rs \<noteq> 0"

lemma sint_of_int32 [simp]: "int32_ok n \<Longrightarrow> sint (word_of_int n :: 32 word) = n"
  by (simp add: int32_ok_def signed_take_bit_int_eq_self_iff sint_sbintrunc')

lemma sint_of_int64 [simp]: "int64_ok n \<Longrightarrow> sint (word_of_int n :: 64 word) = n"
  by (simp add: int64_ok_def signed_take_bit_int_eq_self_iff sint_sbintrunc')

lemma cstr1 [simp]: "b \<noteq> 0 \<Longrightarrow> cstr [b] = [b]"
  by (simp add: cstr_def)

lemmas encode_defs = encode_accepted_def encode_executed_def encode_cancelled_def encode_rejected_def
  encode_cancel_reject_def encode_cancel_pending_def encode_aiq_canceled_def encode_system_event_def
  encode_restated_def encode_replaced_def encode_broken_trade_def

lemma encode_msg_length: "length (encode_msg m) = expected_length (hd (encode_msg m)) \<and> encode_msg m \<noteq> []"
  by (cases m) (simp_all add: encode_defs expected_length_def)

lemma strip_write_padded0 [simp]: "field_ok n s \<Longrightarrow> strip_padding (write_padded s n) n = s"
  using strip_write_padded [of n s "[]"] by simp

lemma read_write_u0 [simp]: "read_u32_be (write_u32_be v) = v" "read_u64_be (write_u64_be w) = w"
  using read_write_u32 [of v "[]"] read_write_u64 [of w "[]"] by simp_all

lemma parse_encode: "msg_ok m \<Longrightarrow> parse_response (encode_msg m) = msg_resp m"
  by (cases m) (simp_all add: encode_defs parse_response_def Let_def strip_write_padded nth_append)

section \<open>The stream\<close>

definition ouch_frame :: "byte list \<Rightarrow> nat" where
  "ouch_frame bs = (case bs of [] \<Rightarrow> 0
     | b # _ \<Rightarrow> if expected_length b \<le> length bs then expected_length b else 0)"

interpretation ouch: framing ouch_frame
proof
  fix bs rest and n :: nat
  show "ouch_frame bs \<le> length bs" by (simp add: ouch_frame_def split: list.split)
  assume n: "ouch_frame bs = n" "0 < n"
  then obtain b cs where bs: "bs = b # cs" "expected_length b = n" "n \<le> length bs"
    by (auto simp: ouch_frame_def split: list.splits if_splits)
  then obtain k where k: "n = Suc k" using n(2) by (cases n) auto
  show "ouch_frame (take n bs @ rest) = n" using bs k by (simp add: ouch_frame_def)
qed

lemma parse_stream_frames:
  "off \<le> length data \<Longrightarrow> parse_stream_from data off
     = (map parse_response (ouch.frames (drop off data)), length data - length (ouch.leftover (drop off data)))"
proof (induction data off rule: parse_stream_from.induct)
  case (1 data off)
  show ?case
  proof (cases "off < length data")
    case False
    then have "drop off data = []" by simp
    then show ?thesis using False 1(2)
      by (subst parse_stream_from.simps, subst ouch.frames.simps, subst ouch.leftover.simps)
        (simp add: ouch_frame_def)
  next
    case True
    let ?m = "expected_length (data ! off)"
    have hd: "drop off data = data ! off # drop (Suc off) data" using True by (simp add: Cons_nth_drop_Suc)
    have nf: "ouch_frame (drop off data) = (if off + ?m \<le> length data then ?m else 0)"
      using True by (subst hd, simp add: ouch_frame_def) auto
    show ?thesis
    proof (cases "?m = 0 \<or> off + ?m > length data")
      case stop: True
      then have "ouch_frame (drop off data) = 0" using nf by auto
      then show ?thesis using True stop
        by (subst parse_stream_from.simps, subst ouch.frames.simps, subst ouch.leftover.simps) (auto simp: Let_def)
    next
      case go: False
      then have f: "ouch_frame (drop off data) = ?m" "?m \<noteq> 0" using nf by auto
      have IH: "parse_stream_from data (off + ?m) = (map parse_response (ouch.frames (drop (off + ?m) data)),
          length data - length (ouch.leftover (drop (off + ?m) data)))"
        using go 1(1) [OF True refl] by simp
      show ?thesis using True go f IH
        by (subst parse_stream_from.simps, subst ouch.frames.simps, subst ouch.leftover.simps)
          (simp add: Let_def add.commute)
    qed
  qed
qed

lemma parse_stream_eq:
  "parse_stream data = (map parse_response (ouch.frames data), length data - length (ouch.leftover data))"
  using parse_stream_frames [of 0 data] by (simp add: parse_stream_def)

lemma parse_stream_leftover: "drop (snd (parse_stream data)) data = ouch.leftover data"
proof -
  let ?n = "length (concat (ouch.frames data))"
  have split: "concat (ouch.frames data) @ ouch.leftover data = data" by (rule ouch.frames_lossless)
  then have "length data = ?n + length (ouch.leftover data)" by (metis length_append)
  then have "snd (parse_stream data) = ?n" by (simp add: parse_stream_eq)
  then show ?thesis using split by (metis append_eq_conv_conj)
qed

lemma frames_messages: "ouch.frames (concat (map encode_msg ms)) = map encode_msg ms"
proof -
  have nf: "ouch_frame (encode_msg m) = length (encode_msg m) \<and> encode_msg m \<noteq> []" for m
    using encode_msg_length [of m] by (cases "encode_msg m") (simp_all add: ouch_frame_def)
  have e: "ouch.frames [] = []" by (subst ouch.frames.simps) (simp add: ouch_frame_def)
  have "ouch.frames (concat (map encode_msg ms) @ []) = map encode_msg ms @ ouch.frames []"
    by (rule ouch.frames_concat) (use nf in auto)
  then show ?thesis by (simp add: e)
qed

text \<open>A stream cut in two, the tail of the first piece put before the second.\<close>

lemma stream_messages:
  assumes "concat (map encode_msg ms) = as @ bs"
  shows "fst (parse_stream as) @ fst (parse_stream (drop (snd (parse_stream as)) as @ bs)) = map (\<lambda>m. parse_response (encode_msg m)) ms"
proof -
  have "map parse_response (ouch.frames (as @ bs)) = map (\<lambda>m. parse_response (encode_msg m)) ms"
    using frames_messages [of ms] assms by simp
  then show ?thesis unfolding parse_stream_leftover by (simp add: parse_stream_eq ouch.frames_segment [of as bs])
qed

section \<open>Properties\<close>

text \<open>
  Round trip of the exchange's messages: what each of the eleven encoders writes has the
  length \<open>expected_length\<close> gives for its type byte, and \<open>parse_response\<close> reads every field back
  (the price as the price field carries it).
\<close>

theorem ouch_response_roundtrip:
  assumes "msg_ok m"
  shows "parse_response (encode_msg m) = msg_resp m
    \<and> length (encode_msg m) = expected_length (hd (encode_msg m))"
  using parse_encode [OF assms] encode_msg_length by blast

theorem ouch_response_roundtrip_witness:
  "parse_response (encode_msg (Executed (bytes_of ''ORDER1'') 100 (Fin 150) 42))
     = msg_resp (Executed (bytes_of ''ORDER1'') 100 (Fin 150) 42)"
proof -
  have "msg_ok (Executed (bytes_of ''ORDER1'') 100 (Fin 150) 42)"
    by (simp add: bytes_of_def chr_def field_ok_def int32_ok_def int64_ok_def SPACE_def)
  then show ?thesis using ouch_response_roundtrip by blast
qed

text \<open>
  Stream framing.  Feeding \<open>parse_stream\<close> a TCP stream in two pieces, with the unconsumed
  tail of the first put before the second, delivers the same responses and consumes the same bytes
  as feeding it whole; and a concatenation of encoded messages comes out message by message.
\<close>

theorem ouch_stream_segmentation:
  "(let (rs1, n1) = parse_stream as; (rs2, n2) = parse_stream (drop n1 as @ bs)
    in fst (parse_stream (as @ bs)) = rs1 @ rs2 \<and> snd (parse_stream (as @ bs)) = n1 + n2)
   \<and> fst (parse_stream (concat (map encode_msg ms))) = map (\<lambda>m. parse_response (encode_msg m)) ms"
proof -
  have rest: "drop (snd (parse_stream as)) as = ouch.leftover as" by (rule parse_stream_leftover)
  have len: "length (ouch.leftover xs) \<le> length xs" for xs
    using ouch.frames_lossless [of xs] by (metis length_append le_add2)
  have 1: "fst (parse_stream (as @ bs)) = fst (parse_stream as) @ fst (parse_stream (ouch.leftover as @ bs))"
    by (simp add: parse_stream_eq ouch.frames_segment [of as])
  have 2: "snd (parse_stream (as @ bs)) = snd (parse_stream as) + snd (parse_stream (ouch.leftover as @ bs))"
    using len [of as] len [of "ouch.leftover as @ bs"]
    by (simp add: parse_stream_eq ouch.leftover_segment [of as])
  show ?thesis using 1 2 by (simp add: case_prod_beta rest) (simp add: parse_stream_eq frames_messages)
qed

text \<open>
  The client's orders: what \<open>enter_order\<close>, \<open>cancel_order\<close>, \<open>replace_order\<close> and
  \<open>modify_order\<close> write, the gateway's \<open>parse_order\<close> reads back, also with bytes following.
\<close>

theorem ouch_order_roundtrip:
  assumes "field_ok 14 tok" "field_ok 14 tok2" "field_ok 8 st" "int32_ok n"
  shows "parse_order (enter_order tok sd n st px tif @ rest) = order0\<lparr>c_type := chr (CHR ''O''), c_token := tok,
       c_side := sd, c_shares := n, c_stock := st, c_price := price_of (price_field px), c_tif := tif, c_valid := True\<rparr>
    \<and> parse_order (ouch_cancel_order tok n @ rest) =
       order0\<lparr>c_type := chr (CHR ''X''), c_token := tok, c_shares := n, c_valid := True\<rparr>
    \<and> parse_order (ouch_replace_order tok tok2 n px @ rest) = order0\<lparr>c_type := chr (CHR ''U''), c_token := tok,
       c_new_token := tok2, c_shares := n, c_price := price_of (price_field px), c_valid := True\<rparr>
    \<and> parse_order (modify_order tok n @ rest) =
       order0\<lparr>c_type := chr (CHR ''M''), c_token := tok, c_shares := n, c_valid := True\<rparr>"
  using assms by (simp add: parse_order_def enter_order_def ouch_cancel_order_def ouch_replace_order_def
      modify_order_def Let_def strip_write_padded nth_append)

theorem ouch_order_roundtrip_witness:
  "parse_order (ouch_cancel_order (bytes_of ''T1'') 5 @ [0]) =
     order0\<lparr>c_type := chr (CHR ''X''), c_token := bytes_of ''T1'', c_shares := 5, c_valid := True\<rparr>"
  using ouch_order_roundtrip [of "bytes_of ''T1''" "[]" "[]" 5 0 "Fin 0" 0 "[0]"]
  by (simp add: bytes_of_def chr_def field_ok_def int32_ok_def SPACE_def)

text \<open>
  The price field.  A price of \<open>p\<close> ticks is carried as \<open>p\<close> or as \<open>p - 1\<close>: the encoders
  truncate after a multiplication that may round down.  \<open>$1.14\<close> is one that loses its last tick.
\<close>

theorem ouch_price_field_tick:
  "(\<forall>p. 0 \<le> p \<and> p < 2 ^ 32 \<longrightarrow> uint (price_field (to_float p)) \<in> {p, p - 1})
   \<and> uint (price_field (to_float 11400)) = 11399"
proof -
  have "uint (price_field (to_float 11400)) = 11399" by code_simp
  then show ?thesis using price_field_to_float by blast
qed

theorem ouch_price_field_tick_witness:
  "uint (price_field (to_float 12345)) \<in> {12345, 12345 - 1}"
  using spec [OF conjunct1 [OF ouch_price_field_tick], of 12345] by simp

end
