(* ===== verification/Soupbin.thy ===== *)
theory Soupbin
  imports Ouch
begin

text \<open>
  \<open>ouch-protocol/soupbin.hpp\<close> and \<open>soupbin_session.hpp\<close>: the SoupBinTCP packets, the client's
  session state machine fed from a TCP stream, and the mock exchange that answers it.
\<close>

section \<open>Packets\<close>

definition HEADER_SIZE :: nat where "HEADER_SIZE = 3"
definition USERNAME_LEN :: nat where "USERNAME_LEN = 6"
definition PASSWORD_LEN :: nat where "PASSWORD_LEN = 10"
definition SESSION_LEN :: nat where "SESSION_LEN = 10"
definition SEQNUM_LEN :: nat where "SEQNUM_LEN = 20"

lemmas soup_sizes = HEADER_SIZE_def USERNAME_LEN_def PASSWORD_LEN_def SESSION_LEN_def SEQNUM_LEN_def

text \<open>\<open>PacketType\<close> is an enumeration over \<open>char\<close>; a parsed packet may carry any byte as its type.\<close>

datatype PacketType = SEQUENCED_DATA | SERVER_HEARTBEAT | LOGIN_ACCEPTED | LOGIN_REJECTED | END_OF_SESSION
  | DEBUG | UNSEQUENCED_DATA | CLIENT_HEARTBEAT | LOGIN_REQUEST | LOGOUT_REQUEST

primrec pt_code :: "PacketType \<Rightarrow> byte" where
  "pt_code SEQUENCED_DATA = chr (CHR ''S'')"
| "pt_code SERVER_HEARTBEAT = chr (CHR ''H'')"
| "pt_code LOGIN_ACCEPTED = chr (CHR ''A'')"
| "pt_code LOGIN_REJECTED = chr (CHR ''J'')"
| "pt_code END_OF_SESSION = chr (CHR ''Z'')"
| "pt_code DEBUG = chr (CHR ''+'')"
| "pt_code UNSEQUENCED_DATA = chr (CHR ''U'')"
| "pt_code CLIENT_HEARTBEAT = chr (CHR ''R'')"
| "pt_code LOGIN_REQUEST = chr (CHR ''L'')"
| "pt_code LOGOUT_REQUEST = chr (CHR ''O'')"

definition pack_header :: "PacketType \<Rightarrow> nat \<Rightarrow> byte list" where
  "pack_header ty payload_len = write_u16_be (word_of_nat (1 + payload_len)) @ [pt_code ty]"

definition pack_heartbeat :: "bool \<Rightarrow> byte list" where
  "pack_heartbeat client_side = pack_header (if client_side then CLIENT_HEARTBEAT else SERVER_HEARTBEAT) 0"

text \<open>A return value of 0 bytes, when the packet does not fit, is \<^const>\<open>None\<close>.\<close>

definition pack_data :: "nat \<Rightarrow> byte list \<Rightarrow> bool \<Rightarrow> byte list option" where
  "pack_data cap payload client_side =
     (if cap < HEADER_SIZE + length payload then None
      else Some (pack_header (if client_side then UNSEQUENCED_DATA else SEQUENCED_DATA) (length payload) @ payload))"

definition pack_login_request :: "nat \<Rightarrow> byte list \<Rightarrow> byte list \<Rightarrow> byte list \<Rightarrow> byte list \<Rightarrow> byte list option" where
  "pack_login_request cap username password session sq =
     (let payload = USERNAME_LEN + PASSWORD_LEN + SESSION_LEN + SEQNUM_LEN in
      if cap < HEADER_SIZE + payload then None
      else Some (pack_header LOGIN_REQUEST payload @ write_padded username USERNAME_LEN
             @ write_padded password PASSWORD_LEN @ write_padded session SESSION_LEN @ write_padded sq SEQNUM_LEN))"

definition pack_logout_request :: "byte list" where
  "pack_logout_request = pack_header LOGOUT_REQUEST 0"

record packet =
  pk_type :: byte
  pk_payload :: "byte list"
  pk_used :: nat

definition parse_packet :: "byte list \<Rightarrow> packet option" where
  "parse_packet buf =
     (if length buf < HEADER_SIZE then None
      else let rest_len = unat (read_u16_be buf) in
        if rest_len < 1 then None
        else let total = 2 + rest_len in
          if length buf < total then None
          else Some \<lparr>pk_type = buf ! 2, pk_payload = take (rest_len - 1) (drop HEADER_SIZE buf), pk_used = total\<rparr>)"

record seq_tracker =
  sq_expected :: int
  sq_received :: int
  sq_gaps :: int

definition observe_sequenced :: "seq_tracker \<Rightarrow> seq_tracker" where
  "observe_sequenced s = s\<lparr>sq_expected := u64 (sq_expected s + 1), sq_received := u64 (sq_received s + 1)\<rparr>"

definition reset_to :: "int \<Rightarrow> seq_tracker" where
  "reset_to starting_seq = \<lparr>sq_expected = starting_seq, sq_received = 0, sq_gaps = 0\<rparr>"

section \<open>Session client\<close>

definition parse_seqnum :: "byte list \<Rightarrow> int" where
  "parse_seqnum p = fold (\<lambda>c v. if 48 \<le> c \<and> c \<le> 57 then u64 (v * 10 + (uint c - 48)) else v) p 0"

definition pack_enter_order :: "nat \<Rightarrow> byte list \<Rightarrow> byte \<Rightarrow> int \<Rightarrow> byte list \<Rightarrow> dbl \<Rightarrow> byte \<Rightarrow> byte list option" where
  "pack_enter_order cap token side shares stock price tif =
     pack_data cap (enter_order token side shares stock price tif) True"

definition pack_cancel_order :: "nat \<Rightarrow> byte list \<Rightarrow> int \<Rightarrow> byte list option" where
  "pack_cancel_order cap token shares = pack_data cap (ouch_cancel_order token shares) True"

definition pack_replace_order :: "nat \<Rightarrow> byte list \<Rightarrow> byte list \<Rightarrow> int \<Rightarrow> dbl \<Rightarrow> byte list option" where
  "pack_replace_order cap existing new_token shares price =
     pack_data cap (ouch_replace_order existing new_token shares price) True"

record heartbeat_timer =
  hb_last_tx :: int
  hb_last_rx :: int
  hb_started :: bool

definition on_tx :: "int \<Rightarrow> heartbeat_timer \<Rightarrow> heartbeat_timer" where
  "on_tx now h = h\<lparr>hb_last_tx := now, hb_started := True\<rparr>"

definition on_rx :: "int \<Rightarrow> heartbeat_timer \<Rightarrow> heartbeat_timer" where
  "on_rx now h = h\<lparr>hb_last_rx := now, hb_started := True\<rparr>"

definition need_send :: "int \<Rightarrow> int \<Rightarrow> heartbeat_timer \<Rightarrow> bool" where
  "need_send now interval h \<longleftrightarrow> hb_started h \<and> s64 (now - hb_last_tx h) \<ge> interval"

definition peer_timed_out :: "int \<Rightarrow> int \<Rightarrow> heartbeat_timer \<Rightarrow> bool" where
  "peer_timed_out now timeout h \<longleftrightarrow> hb_started h \<and> s64 (now - hb_last_rx h) > timeout"

definition hb_reset :: heartbeat_timer where
  "hb_reset = \<lparr>hb_last_tx = 0, hb_last_rx = 0, hb_started = False\<rparr>"

record session_client =
  logged_in :: bool
  session_ended :: bool
  login_reject_reason :: byte
  sc_seq :: seq_tracker
  accepts :: int
  executes :: int
  cancels :: int
  rejects :: int
  replaces :: int
  heartbeats :: int
  errors :: int
  others :: int

definition client0 :: session_client where
  "client0 = \<lparr>logged_in = False, session_ended = False, login_reject_reason = 0,
     sc_seq = \<lparr>sq_expected = 1, sq_received = 0, sq_gaps = 0\<rparr>, accepts = 0, executes = 0, cancels = 0,
     rejects = 0, replaces = 0, heartbeats = 0, errors = 0, others = 0\<rparr>"

definition count_response :: "string \<Rightarrow> session_client \<Rightarrow> session_client" where
  "count_response ty c =
     (if ty = ''ACCEPTED'' then c\<lparr>accepts := u64 (accepts c + 1)\<rparr>
      else if ty = ''EXECUTED'' then c\<lparr>executes := u64 (executes c + 1)\<rparr>
      else if ty = ''CANCELLED'' then c\<lparr>cancels := u64 (cancels c + 1)\<rparr>
      else if ty = ''REJECTED'' then c\<lparr>rejects := u64 (rejects c + 1)\<rparr>
      else if ty = ''REPLACED'' then c\<lparr>replaces := u64 (replaces c + 1)\<rparr>
      else if ty = ''ERROR'' \<or> ty = ''UNKNOWN'' then c\<lparr>errors := u64 (errors c + 1)\<rparr>
      else c\<lparr>others := u64 (others c + 1)\<rparr>)"

definition on_packet :: "packet option \<Rightarrow> session_client \<Rightarrow> session_client" where
  "on_packet op c =
     (case op of None \<Rightarrow> c\<lparr>errors := u64 (errors c + 1)\<rparr>
      | Some p \<Rightarrow>
        if pk_type p = pt_code LOGIN_ACCEPTED then
          (let c1 = c\<lparr>logged_in := True\<rparr> in
           if length (pk_payload p) \<ge> SESSION_LEN + SEQNUM_LEN then
             (let s = parse_seqnum (take SEQNUM_LEN (drop SESSION_LEN (pk_payload p)))
              in c1\<lparr>sc_seq := reset_to (if s = 0 then 1 else s)\<rparr>)
           else c1)
        else if pk_type p = pt_code LOGIN_REJECTED then
          (let c1 = c\<lparr>logged_in := False, errors := u64 (errors c + 1)\<rparr> in
           if length (pk_payload p) \<ge> 1 then c1\<lparr>login_reject_reason := pk_payload p ! 0\<rparr> else c1)
        else if pk_type p = pt_code SEQUENCED_DATA then
          count_response (r_type (parse_response (pk_payload p))) (c\<lparr>sc_seq := observe_sequenced (sc_seq c)\<rparr>)
        else if pk_type p = pt_code SERVER_HEARTBEAT then c\<lparr>heartbeats := u64 (heartbeats c + 1)\<rparr>
        else if pk_type p = pt_code END_OF_SESSION then c\<lparr>session_ended := True\<rparr>
        else if pk_type p = pt_code DEBUG then c
        else c\<lparr>errors := u64 (errors c + 1)\<rparr>)"

lemma parse_packet_used: "parse_packet buf = Some p \<Longrightarrow> 3 \<le> pk_used p \<and> pk_used p \<le> length buf"
  by (auto simp: parse_packet_def Let_def HEADER_SIZE_def split: if_splits)

function consume_from :: "byte list \<Rightarrow> nat \<Rightarrow> session_client \<Rightarrow> session_client \<times> nat" where
  "consume_from buf off c =
     (if off < length buf then
        (case parse_packet (drop off buf) of
           None \<Rightarrow> (c, off)
         | Some p \<Rightarrow> consume_from buf (off + pk_used p) (on_packet (Some p) c))
      else (c, off))"
  by pat_completeness auto
termination
  by (relation "measure (\<lambda>(buf, off, c). length buf - off)") (auto dest!: parse_packet_used)

declare consume_from.simps [simp del]

definition consume :: "byte list \<Rightarrow> session_client \<Rightarrow> session_client \<times> nat" where
  "consume buf c = consume_from buf 0 c"

section \<open>Mock exchange\<close>

text \<open>
  The exchange reads the client's stream packet by packet.  The fields of an Enter Order are read
  from the payload pointer without a length check: \<^const>\<open>None\<close> stands for a read past the end of
  the stream.  A full output buffer ends the loop.
\<close>

record mock =
  mk_out :: "byte list"
  mk_order_ref :: int
  mk_match_no :: int

definition login_accepted :: "int \<Rightarrow> byte list" where
  "login_accepted start_seq = pack_header LOGIN_ACCEPTED (SESSION_LEN + SEQNUM_LEN)
     @ write_padded (bytes_of ''SESSION01'') SESSION_LEN @ write_padded (bytes_of (dec_digits (nat start_seq))) SEQNUM_LEN"

text \<open>The two reports of an order; the flag says whether the loop goes on.\<close>

definition mock_enter :: "nat \<Rightarrow> byte list \<Rightarrow> mock \<Rightarrow> mock \<times> bool" where
  "mock_enter cap pl m =
     (let token = strip_padding (drop 1 pl) 14; side = pl ! 15; shares = sint (read_u32_be (drop 16 pl));
          stock = strip_padding (drop 20 pl) 8; price = price_of (read_u32_be (drop 28 pl)); tif = pl ! 32;
          acc = encode_accepted token side shares stock price (mk_order_ref m) tif;
          m1 = m\<lparr>mk_order_ref := mk_order_ref m + 1\<rparr>
      in if length (mk_out m) + (HEADER_SIZE + length acc) > cap then (m1, False)
         else let m2 = m1\<lparr>mk_out := mk_out m @ the (pack_data (cap - length (mk_out m)) acc False)\<rparr>;
                  ex = encode_executed token shares price (mk_match_no m);
                  m3 = m2\<lparr>mk_match_no := mk_match_no m + 1\<rparr>
              in if length (mk_out m2) + (HEADER_SIZE + length ex) > cap then (m3, False)
                 else (m3\<lparr>mk_out := mk_out m2 @ the (pack_data (cap - length (mk_out m2)) ex False)\<rparr>, True))"

function mock_loop :: "nat \<Rightarrow> int \<Rightarrow> byte list \<Rightarrow> nat \<Rightarrow> mock \<Rightarrow> mock option" where
  "mock_loop cap start_seq stream in_off m =
     (if in_off < length stream then
        (case parse_packet (drop in_off stream) of
           None \<Rightarrow> Some m
         | Some p \<Rightarrow>
            (let next = in_off + pk_used p; pl = drop (in_off + HEADER_SIZE) stream in
             if pk_type p = pt_code LOGIN_REQUEST then
               (if length (mk_out m) + (HEADER_SIZE + (SESSION_LEN + SEQNUM_LEN)) > cap then Some m
                else mock_loop cap start_seq stream next (m\<lparr>mk_out := mk_out m @ login_accepted start_seq\<rparr>))
             else if pk_type p = pt_code UNSEQUENCED_DATA \<and> length (pk_payload p) \<ge> 1
                \<and> pk_payload p ! 0 = chr (CHR ''O'') then
               (if length pl < 33 then None
                else let (m', go) = mock_enter cap pl m
                     in if go then mock_loop cap start_seq stream next m' else Some m')
             else if pk_type p = pt_code LOGOUT_REQUEST then
               (if length (mk_out m) + HEADER_SIZE > cap then Some m
                else mock_loop cap start_seq stream next (m\<lparr>mk_out := mk_out m @ pack_header END_OF_SESSION 0\<rparr>))
             else mock_loop cap start_seq stream next m))
      else Some m)"
  by pat_completeness auto
termination
  by (relation "measure (\<lambda>(cap, q, stream, in_off, m). length stream - in_off)") (auto dest!: parse_packet_used)

declare mock_loop.simps [simp del]

definition mock_exchange_respond :: "nat \<Rightarrow> byte list \<Rightarrow> int \<Rightarrow> byte list option" where
  "mock_exchange_respond cap stream start_seq =
     map_option mk_out (mock_loop cap start_seq stream 0 \<lparr>mk_out = [], mk_order_ref = 7000, mk_match_no = 90000\<rparr>)"

lemma chr_codes2 [simp]: "chr CHR ''H'' = 72" "chr CHR ''Z'' = 90" "chr CHR ''+'' = 43" "chr CHR ''L'' = 76"
  by (simp_all add: chr_def)

section \<open>Framing\<close>

definition soup_frame :: "byte list \<Rightarrow> nat" where
  "soup_frame bs = (case parse_packet bs of None \<Rightarrow> 0 | Some p \<Rightarrow> pk_used p)"

lemma take2_u16: "2 \<le> n \<Longrightarrow> 2 \<le> length bs \<Longrightarrow> read_u16_be (take n bs @ rest) = read_u16_be bs"
  by (auto simp: read_u16_be_def nth_append)

lemma parse_packet_prefix:
  assumes "parse_packet bs = Some p"
  shows "parse_packet (take (pk_used p) bs @ rest) = Some p"
proof -
  have p: "3 \<le> length bs" "1 \<le> unat (read_u16_be bs)" "2 + unat (read_u16_be bs) \<le> length bs"
    "p = \<lparr>pk_type = bs ! 2, pk_payload = take (unat (read_u16_be bs) - 1) (drop 3 bs), pk_used = 2 + unat (read_u16_be bs)\<rparr>"
    using assms by (auto simp: parse_packet_def Let_def HEADER_SIZE_def split: if_splits)
  have rd: "read_u16_be (take (pk_used p) bs @ rest) = read_u16_be bs"
    by (rule take2_u16) (use p in simp_all)
  have n: "pk_used p = 2 + unat (read_u16_be bs)" by (simp add: p(4))
  have a: "(take (pk_used p) bs @ rest) ! 2 = bs ! 2" using p(1-3) by (simp add: n nth_append)
  have b: "take (unat (read_u16_be bs) - 1) (drop 3 (take (pk_used p) bs @ rest)) = take (unat (read_u16_be bs) - 1) (drop 3 bs)"
    using p(1-3) by (simp add: n drop_take)
  have c: "length (take (pk_used p) bs) = pk_used p" using p(3) by (simp add: n)
  show ?thesis using p(1-3) unfolding parse_packet_def Let_def HEADER_SIZE_def rd a b
    by (simp add: p(4) n)
qed

interpretation soup: framing soup_frame
proof
  fix bs rest and n :: nat
  show "soup_frame bs \<le> length bs"
    using parse_packet_used [of bs] by (auto simp: soup_frame_def split: option.split)
  assume n: "soup_frame bs = n" "0 < n"
  then obtain p where p: "parse_packet bs = Some p" "pk_used p = n"
    by (auto simp: soup_frame_def split: option.splits)
  show "soup_frame (take n bs @ rest) = n" using parse_packet_prefix [OF p(1)] p(2) by (simp add: soup_frame_def)
qed

lemma parse_packet_take: "parse_packet bs = Some p \<Longrightarrow> parse_packet (take (pk_used p) bs) = Some p"
  using parse_packet_prefix [of bs p "[]"] by simp

lemma consume_frames:
  "off \<le> length buf \<Longrightarrow> consume_from buf off c
     = (fold (\<lambda>f. on_packet (parse_packet f)) (soup.frames (drop off buf)) c,
        length buf - length (soup.leftover (drop off buf)))"
proof (induction buf off c rule: consume_from.induct)
  case (1 buf off c)
  show ?case
  proof (cases "off < length buf")
    case False
    then have "drop off buf = []" by simp
    moreover have "soup_frame [] = 0" by (simp add: soup_frame_def parse_packet_def HEADER_SIZE_def)
    ultimately show ?thesis using False 1(2)
      by (subst consume_from.simps, subst soup.frames.simps, subst soup.leftover.simps) simp
  next
    case True
    show ?thesis
    proof (cases "parse_packet (drop off buf)")
      case None
      then have "soup_frame (drop off buf) = 0" by (simp add: soup_frame_def)
      then show ?thesis using True None
        by (subst consume_from.simps, subst soup.frames.simps, subst soup.leftover.simps) simp
    next
      case (Some p)
      have u: "3 \<le> pk_used p" "pk_used p \<le> length buf - off" using parse_packet_used [OF Some] by simp_all
      have f: "soup_frame (drop off buf) = pk_used p" by (simp add: soup_frame_def Some)
      have "consume_from buf (off + pk_used p) (on_packet (Some p) c)
          = (fold (\<lambda>f. on_packet (parse_packet f)) (soup.frames (drop (off + pk_used p) buf)) (on_packet (Some p) c),
             length buf - length (soup.leftover (drop (off + pk_used p) buf)))"
        using 1(1) [OF True Some] u True by simp
      then show ?thesis using True Some f u parse_packet_take [OF Some]
        by (subst consume_from.simps, subst soup.frames.simps, subst soup.leftover.simps)
          (simp add: Let_def add.commute)
    qed
  qed
qed

lemma consume_eq:
  "consume buf c = (fold (\<lambda>f. on_packet (parse_packet f)) (soup.frames buf) c, length buf - length (soup.leftover buf))"
  using consume_frames [of 0 buf c] by (simp add: consume_def)

lemma consume_leftover: "drop (snd (consume buf c)) buf = soup.leftover buf"
proof -
  let ?n = "length (concat (soup.frames buf))"
  have split: "concat (soup.frames buf) @ soup.leftover buf = buf" by (rule soup.frames_lossless)
  then have "length buf = ?n + length (soup.leftover buf)" by (metis length_append)
  then have "snd (consume buf c) = ?n" by (simp add: consume_eq)
  then show ?thesis using split by (metis append_eq_conv_conj)
qed

lemma read_pack_header:
  assumes "n \<le> 65534"
  shows "unat (read_u16_be (pack_header ty n @ rest)) = 1 + n" "(pack_header ty n @ rest) ! 2 = pt_code ty"
    "length (pack_header ty n) = 3" "drop 3 (pack_header ty n @ rest) = rest"
proof -
  have "unat (word_of_nat (1 + n) :: 16 word) = 1 + n"
    using assms by (simp only: unat_of_nat) simp
  then show "unat (read_u16_be (pack_header ty n @ rest)) = 1 + n" by (simp add: pack_header_def)
  show "(pack_header ty n @ rest) ! 2 = pt_code ty" by (simp add: pack_header_def nth_append)
  show "length (pack_header ty n) = 3" by (simp add: pack_header_def)
  then show "drop 3 (pack_header ty n @ rest) = rest" by simp
qed

lemma parse_pack:
  assumes "length payload \<le> 65534"
  shows "parse_packet (pack_header ty (length payload) @ payload @ rest)
    = Some \<lparr>pk_type = pt_code ty, pk_payload = payload, pk_used = 3 + length payload\<rparr>"
  using read_pack_header(1,2) [OF assms, of ty "payload @ rest"] read_pack_header(3) [OF assms, of ty]
    read_pack_header(4) [OF assms, of ty "payload @ rest"]
  by (simp add: parse_packet_def Let_def HEADER_SIZE_def)

section \<open>A whole session\<close>

datatype enter = Enter "byte list" byte int "byte list" dbl byte

text \<open>The client's packet for an order, and the exchange's reports for a list of orders.\<close>

primrec enter_bytes :: "enter \<Rightarrow> byte list" where
  "enter_bytes (Enter tok sd n st px tif) = enter_order tok sd n st px tif"

definition enter_packet :: "enter \<Rightarrow> byte list" where
  "enter_packet e = pack_header UNSEQUENCED_DATA 33 @ enter_bytes e"

primrec enter_ok :: "enter \<Rightarrow> bool" where
  "enter_ok (Enter tok sd n st px tif) \<longleftrightarrow> field_ok 14 tok \<and> field_ok 8 st \<and> int32_ok n"

primrec accept_of :: "int \<Rightarrow> enter \<Rightarrow> byte list" where
  "accept_of ref (Enter tok sd n st px tif) = encode_accepted tok sd n st (price_of (price_field px)) ref tif"

primrec execute_of :: "int \<Rightarrow> enter \<Rightarrow> byte list" where
  "execute_of mn (Enter tok sd n st px tif) = encode_executed tok n (price_of (price_field px)) mn"

fun reports :: "int \<Rightarrow> int \<Rightarrow> enter list \<Rightarrow> byte list list" where
  "reports ref mn [] = []"
| "reports ref mn (e # es) = accept_of ref e # execute_of mn e # reports (ref + 1) (mn + 1) es"

definition seq_packet :: "byte list \<Rightarrow> byte list" where
  "seq_packet payload = pack_header SEQUENCED_DATA (length payload) @ payload"

lemma report_lengths [simp]: "length (accept_of ref e) = 41" "length (execute_of mn e) = 31" "length (enter_bytes e) = 33"
  by (cases e; simp add: encode_accepted_def encode_executed_def enter_order_def)+

lemma length_pack_header [simp]: "length (pack_header ty n) = 3"
  by (simp add: pack_header_def)

lemma mock_enter_result:
  assumes "enter_ok e" "length (mk_out m) + 78 \<le> cap"
  shows "mock_enter cap (enter_bytes e @ rest) m
    = (m\<lparr>mk_order_ref := mk_order_ref m + 1, mk_match_no := mk_match_no m + 1,
         mk_out := mk_out m @ seq_packet (accept_of (mk_order_ref m) e) @ seq_packet (execute_of (mk_match_no m) e)\<rparr>, True)"
proof (cases e)
  case (Enter tok sd n st px tif)
  let ?pl = "enter_order tok sd n st px tif @ rest"
  have fields: "strip_padding (drop 1 ?pl) 14 = tok" "?pl ! 15 = sd" "sint (read_u32_be (drop 16 ?pl)) = n"
    "strip_padding (drop 20 ?pl) 8 = st" "read_u32_be (drop 28 ?pl) = price_field px" "?pl ! 32 = tif"
    using assms(1) by (simp_all add: Enter enter_order_def strip_write_padded nth_append)
  have len: "length (encode_accepted tok sd n st (price_of (price_field px)) (mk_order_ref m) tif) = 41"
    "length (encode_executed tok n (price_of (price_field px)) (mk_match_no m)) = 31"
    by (simp_all add: encode_accepted_def encode_executed_def)
  have pd: "pack_data c x False = Some (seq_packet x)" if "3 + length x \<le> c" for c x
    using that by (simp add: pack_data_def seq_packet_def HEADER_SIZE_def)
  have "length (seq_packet x) = 3 + length x" for x by (simp add: seq_packet_def)
  note pd = pd this
  show ?thesis
    unfolding mock_enter_def Enter enter_bytes.simps fields Let_def
    using assms(2) by (simp add: len HEADER_SIZE_def pd)
qed

lemma mock_loop_orders:
  "drop off stream = concat (map enter_packet es) \<Longrightarrow> off \<le> length stream \<Longrightarrow> list_all enter_ok es \<Longrightarrow>
   length (mk_out m) + 78 * length es \<le> cap \<Longrightarrow>
   \<exists>m'. mock_loop cap sq stream off m = Some m'
      \<and> mk_out m' = mk_out m @ concat (map seq_packet (reports (mk_order_ref m) (mk_match_no m) es))"
proof (induction es arbitrary: off m)
  case Nil
  then show ?case by (subst mock_loop.simps) simp
next
  case (Cons e es)
  have len: "length (enter_packet e) = 36" by (simp add: enter_packet_def)
  have dropn: "drop off stream = pack_header UNSEQUENCED_DATA (length (enter_bytes e)) @ enter_bytes e @ concat (map enter_packet es)"
    using Cons.prems(1) by (simp add: enter_packet_def [of e])
  have off: "off < length stream"
    using arg_cong [OF dropn, of length] by simp
  have pk: "parse_packet (drop off stream) = Some \<lparr>pk_type = pt_code UNSEQUENCED_DATA, pk_payload = enter_bytes e, pk_used = 36\<rparr>"
    unfolding dropn by (subst parse_pack) simp_all
  have pl: "drop (off + HEADER_SIZE) stream = enter_bytes e @ concat (map enter_packet es)"
    using arg_cong [OF dropn, of "drop 3"] by (simp add: HEADER_SIZE_def add.commute)
  have o: "enter_bytes e ! 0 = chr (CHR ''O'')" by (cases e) (simp add: enter_order_def)
  let ?m = "m\<lparr>mk_order_ref := mk_order_ref m + 1, mk_match_no := mk_match_no m + 1,
      mk_out := mk_out m @ seq_packet (accept_of (mk_order_ref m) e) @ seq_packet (execute_of (mk_match_no m) e)\<rparr>"
  have me: "mock_enter cap (enter_bytes e @ concat (map enter_packet es)) m = (?m, True)"
    by (rule mock_enter_result) (use Cons.prems in simp_all)
  have next_drop: "drop (off + 36) stream = concat (map enter_packet es)"
    using arg_cong [OF Cons.prems(1), of "drop 36"] len by (simp add: add.commute)
  have "length (drop off stream) \<ge> 36" unfolding Cons.prems(1) by (simp add: len)
  then have le: "off + 36 \<le> length stream" by simp
  have "\<exists>m'. mock_loop cap sq stream (off + 36) ?m = Some m'
      \<and> mk_out m' = mk_out ?m @ concat (map seq_packet (reports (mk_order_ref ?m) (mk_match_no ?m) es))"
    by (rule Cons.IH [OF next_drop le]) (use Cons.prems(3,4) in \<open>simp_all add: seq_packet_def\<close>)
  moreover have "mock_loop cap sq stream off m = mock_loop cap sq stream (off + 36) ?m"
    by (subst mock_loop.simps) (simp add: off pk pl o me Let_def)
  ultimately show ?case by auto
qed

text \<open>The decimal sequence number of the login survives the padding.\<close>

lemma chr_digit:
  assumes "d < 10"
  shows "chr (char_of (48 + d)) = word_of_nat (48 + d)" "uint (chr (char_of (48 + d))) = 48 + int d"
    "48 \<le> chr (char_of (48 + d))" "chr (char_of (48 + d)) \<le> 57"
proof -
  have "chr (char_of (48 + d)) = word_of_nat (of_char (char_of (48 + d) :: char))"
    unfolding chr_def by (rule of_nat_of_char [symmetric])
  also have "of_char (char_of (48 + d) :: char) = (48 + d) mod 256" by (rule of_char_of)
  finally show c: "chr (char_of (48 + d)) = word_of_nat (48 + d)" using assms by simp
  have u: "uint (word_of_nat (48 + d) :: byte) = 48 + int d"
    unfolding uint_nat unat_of_nat using assms by simp
  then show "uint (chr (char_of (48 + d))) = 48 + int d" by (simp only: c)
  show "48 \<le> chr (char_of (48 + d))" "chr (char_of (48 + d)) \<le> 57"
    unfolding word_le_def c u using assms by simp_all
qed

lemma parse_seqnum_digits: "int n < 2 ^ 64 \<Longrightarrow> parse_seqnum (bytes_of (dec_digits n)) = int n"
proof (induction n rule: dec_digits.induct)
  case (1 n)
  show ?case
  proof (cases "n < 10")
    case True
    then show ?thesis using chr_digit [OF True]
      by (subst dec_digits.simps) (simp add: parse_seqnum_def bytes_of_def u64_id)
  next
    case False
    have IH: "parse_seqnum (bytes_of (dec_digits (n div 10))) = int (n div 10)" using 1 False by simp
    have d: "n mod 10 < 10" by simp
    have "int (n div 10) * 10 + int (n mod 10) = int n"
      by (simp add: zdiv_int zmod_int)
    then show ?thesis using False IH 1(2) chr_digit [OF d]
      by (subst dec_digits.simps) (simp add: parse_seqnum_def bytes_of_def u64_id)
  qed
qed

lemma parse_seqnum_spaces: "parse_seqnum (p @ replicate k SPACE) = parse_seqnum p"
proof (induction k)
  case (Suc k)
  have "\<not> (48 \<le> SPACE)" by (simp add: SPACE_def word_le_nat_alt)
  with Suc show ?case by (simp add: parse_seqnum_def replicate_append_same [symmetric] del: replicate.simps)
qed simp

lemma dec_digits_length: "n < 10 ^ Suc k \<Longrightarrow> length (dec_digits n) \<le> Suc k"
proof (induction k arbitrary: n)
  case 0
  then show ?case by (simp add: dec_digits.simps)
next
  case (Suc k)
  then have "n div 10 < 10 ^ Suc k" by (simp add: less_mult_imp_div_less mult.commute)
  with Suc show ?case by (subst dec_digits.simps) simp
qed

lemma login_seq:
  assumes "0 \<le> q" "q < 2 ^ 64"
  shows "parse_seqnum (write_padded (bytes_of (dec_digits (nat q))) SEQNUM_LEN) = q"
proof -
  have "nat q < 10 ^ Suc 19" using assms(2) by (simp add: nat_less_iff)
  then have "length (bytes_of (dec_digits (nat q))) \<le> 20" using dec_digits_length [of "nat q" 19] by (simp add: bytes_of_def)
  then have "write_padded (bytes_of (dec_digits (nat q))) SEQNUM_LEN = bytes_of (dec_digits (nat q))
      @ replicate (20 - length (bytes_of (dec_digits (nat q)))) SPACE"
    by (simp add: write_padded_def SEQNUM_LEN_def)
  then show ?thesis using assms parse_seqnum_digits [of "nat q"] by (simp add: parse_seqnum_spaces)
qed

lemma report_types: "r_type (parse_response (accept_of ref e)) = ''ACCEPTED''" "r_type (parse_response (execute_of mn e)) = ''EXECUTED''"
  by (cases e; simp add: encode_accepted_def encode_executed_def parse_response_def Let_def)+

lemma parse_seq_packet:
  "length pl \<le> 65534 \<Longrightarrow> parse_packet (seq_packet pl) = Some \<lparr>pk_type = pt_code SEQUENCED_DATA, pk_payload = pl, pk_used = 3 + length pl\<rparr>"
  using parse_pack [of pl SEQUENCED_DATA "[]"] by (simp add: seq_packet_def)

lemma on_reports:
  "accepts c + int (length es) < 2 ^ 64 \<Longrightarrow> executes c + int (length es) < 2 ^ 64 \<Longrightarrow> 0 \<le> accepts c \<Longrightarrow> 0 \<le> executes c \<Longrightarrow>
   \<exists>c'. fold (\<lambda>f. on_packet (parse_packet f)) (map seq_packet (reports ref mn es)) c = c'
     \<and> accepts c' = accepts c + int (length es) \<and> executes c' = executes c + int (length es)
     \<and> errors c' = errors c \<and> logged_in c' = logged_in c"
proof (induction ref mn es arbitrary: c rule: reports.induct)
  case (2 ref mn e es)
  let ?c1 = "on_packet (parse_packet (seq_packet (accept_of ref e))) c"
  let ?c2 = "on_packet (parse_packet (seq_packet (execute_of mn e))) ?c1"
  have c1: "accepts ?c1 = u64 (accepts c + 1)" "executes ?c1 = executes c" "errors ?c1 = errors c" "logged_in ?c1 = logged_in c"
    by (simp_all add: parse_seq_packet on_packet_def count_response_def report_types)
  have c2: "accepts ?c2 = accepts ?c1" "executes ?c2 = u64 (executes ?c1 + 1)" "errors ?c2 = errors ?c1" "logged_in ?c2 = logged_in ?c1"
    by (simp_all add: parse_seq_packet on_packet_def count_response_def report_types)
  have n: "accepts ?c2 = accepts c + 1" "executes ?c2 = executes c + 1" "errors ?c2 = errors c" "logged_in ?c2 = logged_in c"
    using c1 c2 "2.prems" by (simp_all add: u64_id)
  show ?case using "2.IH" [of ?c2] "2.prems" n by simp
qed simp

lemma soup_frames_packets:
  assumes "\<And>f. f \<in> set fs \<Longrightarrow> \<exists>p. parse_packet f = Some p \<and> pk_used p = length f"
  shows "soup.frames (concat fs) = fs"
proof -
  have e: "soup.frames [] = []" by (subst soup.frames.simps) (simp add: soup_frame_def parse_packet_def HEADER_SIZE_def)
  have "soup.frames (concat fs @ []) = fs @ soup.frames []"
  proof (rule soup.frames_concat)
    fix f assume "f \<in> set fs"
    then obtain p where p: "parse_packet f = Some p" "pk_used p = length f" using assms by blast
    then show "f \<noteq> [] \<and> soup_frame f = length f" using parse_packet_used [OF p(1)] by (auto simp: soup_frame_def)
  qed
  then show ?thesis by (simp add: e)
qed

lemma login_packet:
  assumes "0 \<le> q" "q < 2 ^ 64"
  shows "\<exists>p. parse_packet (login_accepted q) = Some p \<and> pk_used p = length (login_accepted q)
    \<and> on_packet (Some p) c = c\<lparr>logged_in := True, sc_seq := reset_to (if q = 0 then 1 else q)\<rparr>"
proof -
  let ?pl = "write_padded (bytes_of ''SESSION01'') SESSION_LEN @ write_padded (bytes_of (dec_digits (nat q))) SEQNUM_LEN"
  have len: "length ?pl = 30" by (simp add: soup_sizes)
  have la: "login_accepted q = pack_header LOGIN_ACCEPTED (length ?pl) @ ?pl @ []"
    unfolding len by (simp add: login_accepted_def soup_sizes)
  have "parse_packet (login_accepted q) = Some \<lparr>pk_type = pt_code LOGIN_ACCEPTED, pk_payload = ?pl, pk_used = 3 + length ?pl\<rparr>"
    unfolding la by (rule parse_pack) (simp add: soup_sizes)
  moreover have "take SEQNUM_LEN (drop SESSION_LEN ?pl) = write_padded (bytes_of (dec_digits (nat q))) SEQNUM_LEN"
    by simp
  ultimately show ?thesis using login_seq [OF assms] la len
    by (simp add: on_packet_def Let_def soup_sizes)
qed

definition session_stream :: "byte list \<Rightarrow> enter list \<Rightarrow> byte list" where
  "session_stream login es = login @ concat (map enter_packet es)"

lemma mock_session:
  assumes login: "pack_login_request lcap user pass sess sqn = Some login" and ok: "list_all enter_ok es"
    and cap: "33 + 78 * length es \<le> cap"
  shows "mock_exchange_respond cap (session_stream login es) q
    = Some (login_accepted q @ concat (map seq_packet (reports 7000 90000 es)))"
proof -
  let ?st = "session_stream login es"
  let ?m0 = "\<lparr>mk_out = [], mk_order_ref = 7000, mk_match_no = 90000\<rparr>"
  let ?m1 = "?m0\<lparr>mk_out := login_accepted q\<rparr>"
  obtain pl where pl: "login = pack_header LOGIN_REQUEST (length pl) @ pl" "length pl = 46"
    using login by (auto simp: pack_login_request_def Let_def soup_sizes split: if_splits)
  have pk: "parse_packet ?st = Some \<lparr>pk_type = pt_code LOGIN_REQUEST, pk_payload = pl, pk_used = 49\<rparr>"
    unfolding session_stream_def pl(1) append_assoc by (subst parse_pack) (simp_all add: pl(2))
  have len: "length login = 49" by (simp add: pl)
  have "length (login_accepted q) = 33" by (simp add: login_accepted_def soup_sizes)
  then have "\<exists>m'. mock_loop cap q ?st 49 ?m1 = Some m'
      \<and> mk_out m' = mk_out ?m1 @ concat (map seq_packet (reports (mk_order_ref ?m1) (mk_match_no ?m1) es))"
    using cap by (intro mock_loop_orders [OF _ _ ok]) (simp_all add: session_stream_def len)
  moreover have "mock_loop cap q ?st 0 ?m0 = mock_loop cap q ?st 49 ?m1"
  proof -
    have "0 < length ?st" by (simp add: session_stream_def len)
    then show ?thesis using cap by (subst mock_loop.simps) (simp add: pk Let_def soup_sizes)
  qed
  ultimately show ?thesis by (auto simp: mock_exchange_respond_def)
qed

lemma report_short: "pl \<in> set (reports ref mn es) \<Longrightarrow> length pl \<le> 65534"
  by (induction ref mn es rule: reports.induct) auto

lemma reply_frames:
  assumes q: "0 \<le> q" "q < 2 ^ 64"
  shows "soup.frames (login_accepted q @ concat (map seq_packet (reports ref mn es))) = login_accepted q # map seq_packet (reports ref mn es)"
proof -
  let ?fs = "login_accepted q # map seq_packet (reports ref mn es)"
  have pk: "\<exists>p. parse_packet f = Some p \<and> pk_used p = length f" if fm: "f \<in> set ?fs" for f
  proof (cases "f = login_accepted q")
    case True
    then show ?thesis using login_packet [OF q] by blast
  next
    case False
    then obtain pl where "f = seq_packet pl" "pl \<in> set (reports ref mn es)" using fm by auto
    then show ?thesis using parse_seq_packet [of pl] report_short by (simp add: seq_packet_def)
  qed
  then show ?thesis using soup_frames_packets [of ?fs] by simp
qed

lemma client_session:
  assumes q: "0 \<le> q" "q < 2 ^ 64" and n: "int (length es) < 2 ^ 64"
  defines "out \<equiv> login_accepted q @ concat (map seq_packet (reports 7000 90000 es))"
  shows "snd (consume out client0) = length out \<and> logged_in (fst (consume out client0))
    \<and> accepts (fst (consume out client0)) = int (length es) \<and> executes (fst (consume out client0)) = int (length es)
    \<and> errors (fst (consume out client0)) = 0"
proof -
  note frames = reply_frames [OF q, of 7000 90000 es, folded out_def]
  have "concat (soup.frames out) = out" unfolding frames by (simp add: out_def)
  then have left: "soup.leftover out = []" using soup.frames_lossless [of out] by simp
  obtain p where p: "parse_packet (login_accepted q) = Some p"
    "on_packet (Some p) client0 = client0\<lparr>logged_in := True, sc_seq := reset_to (if q = 0 then 1 else q)\<rparr>"
    using login_packet [OF q] by blast
  let ?c = "on_packet (Some p) client0"
  have c: "accepts ?c = 0" "executes ?c = 0" "errors ?c = 0" "logged_in ?c" unfolding p(2) by (simp_all add: client0_def)
  have "fst (consume out client0) = fold (\<lambda>f. on_packet (parse_packet f)) (map seq_packet (reports 7000 90000 es)) ?c"
    unfolding consume_eq frames by (simp add: p(1))
  moreover have "snd (consume out client0) = length out" by (simp add: consume_eq left)
  ultimately show ?thesis using on_reports [of ?c es 7000 90000] n c by simp
qed

text \<open>
  What the client reads: the response in every packet of a reply.  The answers an order should get, and the price
  they carry, which went through the price field on the way out and on the way back.
\<close>

primrec client_packet :: "nat \<Rightarrow> enter \<Rightarrow> byte list option" where
  "client_packet cap (Enter tok sd n st px tif) = pack_enter_order cap tok sd n st px tif"

definition replies :: "byte list \<Rightarrow> OUCHResponse list" where
  "replies out = map (\<lambda>f. parse_response (pk_payload (the (parse_packet f)))) (soup.frames out)"

definition relayed :: "dbl \<Rightarrow> dbl" where
  "relayed px = price_of (price_field (price_of (price_field px)))"

fun answers :: "int \<Rightarrow> int \<Rightarrow> enter list \<Rightarrow> OUCHResponse list" where
  "answers oref mn [] = []"
| "answers oref mn (Enter tok sd n st px tif # es) =
     resp0\<lparr>r_type := ''ACCEPTED'', r_token := tok, r_side := (if sd = 66 then ''BUY'' else ''SELL''), r_shares := n, r_stock := st,
       r_price := relayed px, r_order_ref := oref\<rparr>
     # resp0\<lparr>r_type := ''EXECUTED'', r_token := tok, r_shares := n, r_price := relayed px, r_match_number := mn\<rparr>
     # answers (oref + 1) (mn + 1) es"

lemma client_packets:
  assumes "map (client_packet cap) es = map Some pks"
  shows "concat pks = concat (map enter_packet es)"
proof -
  have "pk = enter_packet e" if "client_packet cap e = Some pk" for e pk
    using that by (cases e) (auto simp: pack_enter_order_def pack_data_def enter_packet_def enter_order_def split: if_splits)
  then have "pks = map enter_packet es" using assms by (induction es arbitrary: pks) (auto simp: Cons_eq_map_conv)
  then show ?thesis by simp
qed

lemma parse_reports:
  "list_all enter_ok es \<Longrightarrow> 0 \<le> oref \<Longrightarrow> 0 \<le> mn \<Longrightarrow> oref + int (length es) < 2 ^ 63 \<Longrightarrow> mn + int (length es) < 2 ^ 63 \<Longrightarrow>
   map parse_response (reports oref mn es) = answers oref mn es"
proof (induction oref mn es rule: answers.induct)
  case (2 oref mn tok sd n st px tif es)
  let ?p = "price_of (price_field px)"
  have "msg_ok (Accepted tok sd n st ?p oref tif)" "msg_ok (Executed tok n ?p mn)"
    using "2.prems" by (simp_all add: int64_ok_def)
  then show ?case using "2.IH" "2.prems" parse_encode [of "Accepted tok sd n st ?p oref tif"] parse_encode [of "Executed tok n ?p mn"]
    by (simp add: relayed_def)
qed simp

lemma client_replies:
  assumes "0 \<le> q" "q < 2 ^ 64" "list_all enter_ok es" "int (length es) < 2 ^ 62"
  shows "tl (replies (login_accepted q @ concat (map seq_packet (reports 7000 90000 es)))) = answers 7000 90000 es"
proof -
  have "tl (replies (login_accepted q @ concat (map seq_packet (reports 7000 90000 es)))) =
      map (\<lambda>f. parse_response (pk_payload (the (parse_packet f)))) (map seq_packet (reports 7000 90000 es))"
    unfolding replies_def reply_frames [OF assms(1,2)] by simp
  also have "\<dots> = map parse_response (reports 7000 90000 es)"
    using report_short by (auto simp: parse_seq_packet)
  also have "\<dots> = answers 7000 90000 es" by (rule parse_reports) (use assms(3,4) in simp_all)
  finally show ?thesis .
qed

section \<open>Properties\<close>

text \<open>
  Packet round trip: what \<open>pack_data\<close> writes, followed by any bytes, \<open>parse_packet\<close> reads
  back with its type and its payload, and consumes exactly, for payloads of up to 65534 bytes.
\<close>

theorem soup_packet_roundtrip:
  assumes "pack_data cap payload client_side = Some pkt" "length payload \<le> 65534"
  shows "parse_packet (pkt @ rest) = Some \<lparr>pk_type = pt_code (if client_side then UNSEQUENCED_DATA else SEQUENCED_DATA),
      pk_payload = payload, pk_used = length pkt\<rparr>"
  using assms parse_pack [OF assms(2), of _ rest] by (auto simp: pack_data_def split: if_splits)

theorem soup_packet_roundtrip_witness:
  "parse_packet (the (pack_data 10 [1, 2, 3] True) @ [9])
     = Some \<lparr>pk_type = pt_code UNSEQUENCED_DATA, pk_payload = [1, 2, 3], pk_used = 6\<rparr>"
  using soup_packet_roundtrip [of 10 "[1, 2, 3]" True "pack_header UNSEQUENCED_DATA 3 @ [1, 2, 3]" "[9]"]
  by (simp add: pack_data_def HEADER_SIZE_def numeral_3_eq_3)

text \<open>
  TCP segmentation: the session client ends in the same state, having consumed the same bytes,
  whether it is fed the stream at once or in two pieces with the unconsumed tail kept.
\<close>

theorem soup_session_segmentation:
  "consume (as @ bs) c =
     (let (c1, n1) = consume as c; (c2, n2) = consume (drop n1 as @ bs) c1 in (c2, n1 + n2))"
proof -
  have rest: "drop (snd (consume as c)) as = soup.leftover as" by (rule consume_leftover)
  have len: "length (soup.leftover xs) \<le> length xs" for xs
    using soup.frames_lossless [of xs] by (metis length_append le_add2)
  have "fst (consume (as @ bs) c) = fst (consume (soup.leftover as @ bs) (fst (consume as c)))"
    by (simp add: consume_eq soup.frames_segment [of as])
  moreover have "snd (consume (as @ bs) c) = snd (consume as c) + snd (consume (soup.leftover as @ bs) (fst (consume as c)))"
    using len [of as] len [of "soup.leftover as @ bs"]
    by (simp add: consume_eq soup.leftover_segment [of as])
  ultimately show ?thesis by (simp add: case_prod_beta rest prod_eq_iff)
qed

text \<open>
  C36. End to end: a login and any list of orders, each packed with \<open>pack_enter_order\<close>, sent to the mock exchange.  The
  exchange answers every one, and the packets of its reply carry, after the login acceptance, for the orders
  in turn an acceptance with the order's token, side, shares, stock and price under the references 7000, 7001, ... and an execution of
  all its shares at that price under the match numbers 90000, 90001, ...  The client that reads the reply is
  logged in, has counted an acceptance and an execution per order and no error, and has consumed it all.
  Tokens and stocks fit their fields, and the reply fits the exchange's buffer; a price is the one that
  comes out of two trips through the 32-bit price field, each of which may lose a tick.
\<close>

theorem soup_session_roundtrip:
  assumes "pack_login_request lcap user pass sess sqn = Some login" "map (client_packet ocap) es = map Some pks" "list_all enter_ok es"
    and "33 + 78 * length es \<le> cap" "0 \<le> q" "q < 2 ^ 64" "int (length es) < 2 ^ 62"
  shows "\<exists>out. mock_exchange_respond cap (login @ concat pks) q = Some out
    \<and> tl (replies out) = answers 7000 90000 es
    \<and> snd (consume out client0) = length out \<and> logged_in (fst (consume out client0))
    \<and> accepts (fst (consume out client0)) = int (length es) \<and> executes (fst (consume out client0)) = int (length es)
    \<and> errors (fst (consume out client0)) = 0"
  using mock_session [OF assms(1,3,4), of q] client_session [OF assms(5,6), of es] client_replies [OF assms(5,6,3)] assms(7)
  unfolding session_stream_def client_packets [OF assms(2)] by simp

theorem soup_session_roundtrip_witness:
  "\<exists>out. mock_exchange_respond 111 (the (pack_login_request 64 [1] [2] [] [48])
        @ the (pack_enter_order 64 (bytes_of ''T1'') 66 100 (bytes_of ''AAPL'') (Fin 10) 68)) 1 = Some out
     \<and> map (\<lambda>r. (r_type r, r_token r, r_shares r, r_price r)) (tl (replies out)) =
         [(''ACCEPTED'', bytes_of ''T1'', 100, Fin 10), (''EXECUTED'', bytes_of ''T1'', 100, Fin 10)]
     \<and> accepts (fst (consume out client0)) = 1 \<and> executes (fst (consume out client0)) = 1"
proof -
  let ?e = "Enter (bytes_of ''T1'') 66 100 (bytes_of ''AAPL'') (Fin 10) 68"
  let ?l = "the (pack_login_request 64 [1] [2] [] [48])" and ?p = "the (pack_enter_order 64 (bytes_of ''T1'') 66 100 (bytes_of ''AAPL'') (Fin 10) 68)"
  have l: "pack_login_request 64 [1] [2] [] [48] = Some ?l" by (simp add: pack_login_request_def Let_def soup_sizes)
  have k: "map (client_packet 64) [?e] = map Some [?p]"
    by (simp add: pack_enter_order_def pack_data_def HEADER_SIZE_def enter_order_def)
  have o: "list_all enter_ok [?e]" by (simp add: bytes_of_def chr_def field_ok_def int32_ok_def SPACE_def)
  have "relayed (Fin 10) = Fin 10" by code_simp
  then show ?thesis using soup_session_roundtrip [OF l k o, of 111 1] by (auto simp: resp0_def)
qed

text \<open>
  A packet of declared length 0 stops the stream for good: no number of further bytes makes
  the client or the exchange advance past it.
\<close>

theorem soup_zero_length_stalls:
  "parse_packet (0 # 0 # rest) = None \<and> consume (0 # 0 # rest) c = (c, 0)"
proof -
  have "parse_packet (0 # 0 # rest) = None"
    by (simp add: parse_packet_def read_u16_be_def)
  then show ?thesis by (simp add: consume_def consume_from.simps)
qed

text \<open>
  The mock exchange reads the fields of an Enter Order without checking the payload length: a
  one-byte payload at the end of the stream makes it read past the buffer.
\<close>

theorem soup_mock_short_order:
  "mock_exchange_respond 1000 (pack_header UNSEQUENCED_DATA 1 @ [chr (CHR ''O'')]) 1 = None"
proof -
  let ?s = "pack_header UNSEQUENCED_DATA 1 @ [chr (CHR ''O'')]"
  have "parse_packet ?s = Some \<lparr>pk_type = pt_code UNSEQUENCED_DATA, pk_payload = [chr (CHR ''O'')], pk_used = 4\<rparr>"
    using parse_pack [of "[chr (CHR ''O'')]" UNSEQUENCED_DATA "[]"] by simp
  then show ?thesis by (simp add: mock_exchange_respond_def mock_loop.simps Let_def HEADER_SIZE_def)
qed

end
