(* ===== verification/Itch.thy ===== *)
theory Itch
  imports Ouch
begin

text \<open>
  \<open>itch-parser/itch_parser.hpp\<close>: the binary market-data messages and their parser.  The tagged
  union \<open>ParsedMessage\<close> is a datatype; text fields are the eight (or four) bytes copied, up to a
  nul.
\<close>

section \<open>Messages\<close>

datatype ParsedMessage =
    ADD_ORDER int int byte int "byte list" dbl
  | ADD_ORDER_MPID int int byte int "byte list" dbl "byte list"
  | DELETE_ORDER int int
  | REPLACE_ORDER int int int int dbl
  | ORDER_EXECUTED int int int int
  | ORDER_CANCELLED int int int
  | TRADE int int byte int "byte list" dbl int
  | SYSTEM_EVENT int byte
  | STOCK_DIRECTORY int "byte list" byte
  | UNKNOWN
  | ITCH_ERROR

definition read_be64 :: "byte list \<Rightarrow> int" where
  "read_be64 p = sint (read_u64_be p)"

definition read_be32 :: "byte list \<Rightarrow> int" where
  "read_be32 p = uint (read_u32_be p)"

definition itch_price :: "byte list \<Rightarrow> dbl" where
  "itch_price p = price_of (read_u32_be p)"

definition text_field :: "nat \<Rightarrow> byte list \<Rightarrow> byte list" where
  "text_field n p = cstr (take n p)"

section \<open>Parsing\<close>

definition parse_add_order :: "byte list \<Rightarrow> ParsedMessage" where
  "parse_add_order d = (if length d < 34 then ITCH_ERROR
     else ADD_ORDER (read_be64 (drop 1 d)) (read_be64 (drop 9 d)) (d ! 17) (read_be32 (drop 18 d))
            (text_field 8 (drop 22 d)) (itch_price (drop 30 d)))"

definition parse_add_order_mpid :: "byte list \<Rightarrow> ParsedMessage" where
  "parse_add_order_mpid d = (if length d < 38 then ITCH_ERROR
     else ADD_ORDER_MPID (read_be64 (drop 1 d)) (read_be64 (drop 9 d)) (d ! 17) (read_be32 (drop 18 d))
            (text_field 8 (drop 22 d)) (itch_price (drop 30 d)) (text_field 4 (drop 34 d)))"

definition parse_delete_order :: "byte list \<Rightarrow> ParsedMessage" where
  "parse_delete_order d = (if length d < 17 then ITCH_ERROR
     else DELETE_ORDER (read_be64 (drop 1 d)) (read_be64 (drop 9 d)))"

definition parse_replace_order :: "byte list \<Rightarrow> ParsedMessage" where
  "parse_replace_order d = (if length d < 33 then ITCH_ERROR
     else REPLACE_ORDER (read_be64 (drop 1 d)) (read_be64 (drop 9 d)) (read_be64 (drop 17 d))
            (read_be32 (drop 25 d)) (itch_price (drop 29 d)))"

definition parse_order_executed :: "byte list \<Rightarrow> ParsedMessage" where
  "parse_order_executed d = (if length d < 29 then ITCH_ERROR
     else ORDER_EXECUTED (read_be64 (drop 1 d)) (read_be64 (drop 9 d)) (read_be32 (drop 17 d)) (read_be64 (drop 21 d)))"

definition parse_order_cancelled :: "byte list \<Rightarrow> ParsedMessage" where
  "parse_order_cancelled d = (if length d < 21 then ITCH_ERROR
     else ORDER_CANCELLED (read_be64 (drop 1 d)) (read_be64 (drop 9 d)) (read_be32 (drop 17 d)))"

definition parse_trade :: "byte list \<Rightarrow> ParsedMessage" where
  "parse_trade d = (if length d < 42 then ITCH_ERROR
     else TRADE (read_be64 (drop 1 d)) (read_be64 (drop 9 d)) (d ! 17) (read_be32 (drop 18 d))
            (text_field 8 (drop 22 d)) (itch_price (drop 30 d)) (read_be64 (drop 34 d)))"

definition parse_system_event :: "byte list \<Rightarrow> ParsedMessage" where
  "parse_system_event d = (if length d < 10 then ITCH_ERROR
     else SYSTEM_EVENT (read_be64 (drop 1 d)) (d ! 9))"

definition parse_stock_directory :: "byte list \<Rightarrow> ParsedMessage" where
  "parse_stock_directory d = (if length d < 18 then ITCH_ERROR
     else STOCK_DIRECTORY (read_be64 (drop 1 d)) (text_field 8 (drop 9 d)) (d ! 17))"

record Stats =
  total_parsed :: int
  add_orders :: int
  delete_orders :: int
  replace_orders :: int
  executions :: int
  st_cancels :: int
  st_trades :: int
  system_events :: int
  unknowns :: int

definition reset_stats :: Stats where
  "reset_stats = \<lparr>total_parsed = 0, add_orders = 0, delete_orders = 0, replace_orders = 0, executions = 0,
     st_cancels = 0, st_trades = 0, system_events = 0, unknowns = 0\<rparr>"

definition itch_parse :: "byte list \<Rightarrow> Stats \<Rightarrow> Stats \<times> ParsedMessage" where
  "itch_parse d st =
     (if length d < 1 then (st, ITCH_ERROR)
      else let t = d ! 0; s = st\<lparr>total_parsed := u64 (total_parsed st + 1)\<rparr> in
      if t = chr (CHR ''A'') then (s\<lparr>add_orders := u64 (add_orders s + 1)\<rparr>, parse_add_order d)
      else if t = chr (CHR ''F'') then (s\<lparr>add_orders := u64 (add_orders s + 1)\<rparr>, parse_add_order_mpid d)
      else if t = chr (CHR ''D'') then (s\<lparr>delete_orders := u64 (delete_orders s + 1)\<rparr>, parse_delete_order d)
      else if t = chr (CHR ''U'') then (s\<lparr>replace_orders := u64 (replace_orders s + 1)\<rparr>, parse_replace_order d)
      else if t = chr (CHR ''E'') then (s\<lparr>executions := u64 (executions s + 1)\<rparr>, parse_order_executed d)
      else if t = chr (CHR ''C'') then (s\<lparr>st_cancels := u64 (st_cancels s + 1)\<rparr>, parse_order_cancelled d)
      else if t = chr (CHR ''P'') then (s\<lparr>st_trades := u64 (st_trades s + 1)\<rparr>, parse_trade d)
      else if t = chr (CHR ''S'') then (s\<lparr>system_events := u64 (system_events s + 1)\<rparr>, parse_system_event d)
      else if t = chr (CHR ''R'') then (s, parse_stock_directory d)
      else (s\<lparr>unknowns := u64 (unknowns s + 1)\<rparr>, UNKNOWN))"

section \<open>The wire layout\<close>

text \<open>
  The layout the comments of the parser document, as an encoder: prices are the 32-bit field.
\<close>

datatype itch_msg =
    I_Add int int byte int "byte list" "32 word"
  | I_AddMpid int int byte int "byte list" "32 word" "byte list"
  | I_Delete int int
  | I_Replace int int int int "32 word"
  | I_Executed int int int int
  | I_Cancelled int int int
  | I_Trade int int byte int "byte list" "32 word" int
  | I_System int byte
  | I_Directory int "byte list" byte

abbreviation w8 :: "int \<Rightarrow> byte list" where "w8 n \<equiv> write_u64_be (word_of_int n)"
abbreviation w4 :: "int \<Rightarrow> byte list" where "w4 n \<equiv> write_u32_be (word_of_int n)"

primrec itch_bytes :: "itch_msg \<Rightarrow> byte list" where
  "itch_bytes (I_Add tm ref sd n st px) = chr (CHR ''A'') # w8 tm @ w8 ref @ sd # w4 n @ st @ write_u32_be px"
| "itch_bytes (I_AddMpid tm ref sd n st px mp) =
     chr (CHR ''F'') # w8 tm @ w8 ref @ sd # w4 n @ st @ write_u32_be px @ mp"
| "itch_bytes (I_Delete tm ref) = chr (CHR ''D'') # w8 tm @ w8 ref"
| "itch_bytes (I_Replace tm ref ref2 n px) = chr (CHR ''U'') # w8 tm @ w8 ref @ w8 ref2 @ w4 n @ write_u32_be px"
| "itch_bytes (I_Executed tm ref n mn) = chr (CHR ''E'') # w8 tm @ w8 ref @ w4 n @ w8 mn"
| "itch_bytes (I_Cancelled tm ref n) = chr (CHR ''C'') # w8 tm @ w8 ref @ w4 n"
| "itch_bytes (I_Trade tm ref sd n st px mn) =
     chr (CHR ''P'') # w8 tm @ w8 ref @ sd # w4 n @ st @ write_u32_be px @ w8 mn"
| "itch_bytes (I_System tm ev) = chr (CHR ''S'') # w8 tm @ [ev]"
| "itch_bytes (I_Directory tm st mc) = chr (CHR ''R'') # w8 tm @ st @ [mc]"

primrec itch_value :: "itch_msg \<Rightarrow> ParsedMessage" where
  "itch_value (I_Add tm ref sd n st px) = ADD_ORDER tm ref sd n (cstr st) (to_float (uint px))"
| "itch_value (I_AddMpid tm ref sd n st px mp) = ADD_ORDER_MPID tm ref sd n (cstr st) (to_float (uint px)) (cstr mp)"
| "itch_value (I_Delete tm ref) = DELETE_ORDER tm ref"
| "itch_value (I_Replace tm ref ref2 n px) = REPLACE_ORDER tm ref ref2 n (to_float (uint px))"
| "itch_value (I_Executed tm ref n mn) = ORDER_EXECUTED tm ref n mn"
| "itch_value (I_Cancelled tm ref n) = ORDER_CANCELLED tm ref n"
| "itch_value (I_Trade tm ref sd n st px mn) = TRADE tm ref sd n (cstr st) (to_float (uint px)) mn"
| "itch_value (I_System tm ev) = SYSTEM_EVENT tm ev"
| "itch_value (I_Directory tm st mc) = STOCK_DIRECTORY tm (cstr st) mc"

definition uint32_ok :: "int \<Rightarrow> bool" where
  "uint32_ok n \<longleftrightarrow> 0 \<le> n \<and> n < 2 ^ 32"

primrec itch_ok :: "itch_msg \<Rightarrow> bool" where
  "itch_ok (I_Add tm ref sd n st px) \<longleftrightarrow> int64_ok tm \<and> int64_ok ref \<and> uint32_ok n \<and> length st = 8"
| "itch_ok (I_AddMpid tm ref sd n st px mp) \<longleftrightarrow>
     int64_ok tm \<and> int64_ok ref \<and> uint32_ok n \<and> length st = 8 \<and> length mp = 4"
| "itch_ok (I_Delete tm ref) \<longleftrightarrow> int64_ok tm \<and> int64_ok ref"
| "itch_ok (I_Replace tm ref ref2 n px) \<longleftrightarrow> int64_ok tm \<and> int64_ok ref \<and> int64_ok ref2 \<and> uint32_ok n"
| "itch_ok (I_Executed tm ref n mn) \<longleftrightarrow> int64_ok tm \<and> int64_ok ref \<and> uint32_ok n \<and> int64_ok mn"
| "itch_ok (I_Cancelled tm ref n) \<longleftrightarrow> int64_ok tm \<and> int64_ok ref \<and> uint32_ok n"
| "itch_ok (I_Trade tm ref sd n st px mn) \<longleftrightarrow>
     int64_ok tm \<and> int64_ok ref \<and> uint32_ok n \<and> length st = 8 \<and> int64_ok mn"
| "itch_ok (I_System tm ev) \<longleftrightarrow> int64_ok tm"
| "itch_ok (I_Directory tm st mc) \<longleftrightarrow> int64_ok tm \<and> length st = 8"

lemma chr_F [simp]: "chr CHR ''F'' = 70"
  by (simp add: chr_def)

lemma uint_of_int32 [simp]: "uint32_ok n \<Longrightarrow> uint (word_of_int n :: 32 word) = n"
  by (simp add: uint32_ok_def uint_word_of_int take_bit_int_eq_self)

lemmas itch_parsers = parse_add_order_def parse_add_order_mpid_def parse_delete_order_def parse_replace_order_def
  parse_order_executed_def parse_order_cancelled_def parse_trade_def parse_system_event_def parse_stock_directory_def

lemma itch_parse_bytes: "itch_ok m \<Longrightarrow> snd (itch_parse (itch_bytes m @ rest) st) = itch_value m"
  by (cases m) (simp_all add: itch_parse_def itch_parsers Let_def read_be64_def read_be32_def text_field_def
      itch_price_def price_of_to_float nth_append)

lemma itch_parse_short:
  assumes "itch_ok m" "0 < n" "n < length (itch_bytes m)"
  shows "snd (itch_parse (take n (itch_bytes m)) st) = ITCH_ERROR"
proof -
  obtain d where d: "d = take n (itch_bytes m)" by simp
  have "d ! 0 = itch_bytes m ! 0" "length d = n" "length d \<noteq> 0" using assms(2,3) by (simp_all add: d)
  then have "snd (itch_parse d st) = ITCH_ERROR"
    using assms by (cases m) (simp_all add: itch_parse_def itch_parsers Let_def)
  then show ?thesis by (simp add: d)
qed

section \<open>Properties\<close>

text \<open>
  The parser reads back every field of every message in the documented layout, whatever bytes
  follow, and reports an error for every proper non-empty prefix of one.
\<close>

theorem itch_parse_roundtrip:
  assumes "itch_ok m"
  shows "snd (itch_parse (itch_bytes m @ rest) st) = itch_value m
    \<and> (\<forall>n. 0 < n \<and> n < length (itch_bytes m) \<longrightarrow> snd (itch_parse (take n (itch_bytes m)) st) = ITCH_ERROR)"
  using itch_parse_bytes [OF assms] itch_parse_short [OF assms] by blast

theorem itch_parse_roundtrip_witness:
  "snd (itch_parse (itch_bytes (I_Executed 1 2 300 4) @ [7]) reset_stats) = ORDER_EXECUTED 1 2 300 4"
  using itch_parse_roundtrip [of "I_Executed 1 2 300 4" "[7]" reset_stats] by (simp add: int64_ok_def uint32_ok_def)

definition stat_sum :: "Stats \<Rightarrow> int" where
  "stat_sum s = add_orders s + delete_orders s + replace_orders s + executions s + st_cancels s + st_trades s
     + system_events s + unknowns s"

definition small_stats :: "int \<Rightarrow> Stats \<Rightarrow> bool" where
  "small_stats n s \<longleftrightarrow> 0 \<le> total_parsed s \<and> total_parsed s \<le> n \<and> 0 \<le> add_orders s \<and> add_orders s \<le> n
     \<and> 0 \<le> delete_orders s \<and> delete_orders s \<le> n \<and> 0 \<le> replace_orders s \<and> replace_orders s \<le> n
     \<and> 0 \<le> executions s \<and> executions s \<le> n \<and> 0 \<le> st_cancels s \<and> st_cancels s \<le> n \<and> 0 \<le> st_trades s \<and> st_trades s \<le> n
     \<and> 0 \<le> system_events s \<and> system_events s \<le> n \<and> 0 \<le> unknowns s \<and> unknowns s \<le> n"

lemma itch_parse_stats:
  assumes "small_stats n s" "n + 1 < 2 ^ 64"
  shows "small_stats (n + 1) (fst (itch_parse d s))"
    "total_parsed (fst (itch_parse d s)) - stat_sum (fst (itch_parse d s))
       = total_parsed s - stat_sum s + (if d \<noteq> [] \<and> hd d = chr (CHR ''R'') then 1 else 0)"
  using assms by (cases d; simp add: itch_parse_def Let_def small_stats_def stat_sum_def u64_id)+

text \<open>
  Statistics: after any sequence of buffers, the total is the sum of the per-type counters and
  the number of stock-directory buffers, the one type without a counter; empty buffers are not
  counted at all.
\<close>

theorem itch_stats_account:
  assumes "length ds < 2 ^ 63"
  shows "total_parsed (fold (\<lambda>d s. fst (itch_parse d s)) ds reset_stats)
    = stat_sum (fold (\<lambda>d s. fst (itch_parse d s)) ds reset_stats)
      + int (length (filter (\<lambda>d. d \<noteq> [] \<and> hd d = chr (CHR ''R'')) ds))"
proof -
  have "total_parsed (fold (\<lambda>d s. fst (itch_parse d s)) ds s) - stat_sum (fold (\<lambda>d s. fst (itch_parse d s)) ds s)
      = total_parsed s - stat_sum s + int (length (filter (\<lambda>d. d \<noteq> [] \<and> hd d = chr (CHR ''R'')) ds))"
    if "small_stats n s" "n + int (length ds) < 2 ^ 64" for n s
    using that
  proof (induction ds arbitrary: n s)
    case (Cons d ds)
    have n: "n + 1 < 2 ^ 64" using Cons.prems(2) by simp
    note I = itch_parse_stats [OF Cons.prems(1) n, of d]
    show ?case using Cons.IH [OF I(1)] I(2) Cons.prems(2) by simp
  qed simp
  from this [of 0 reset_stats] assms show ?thesis
    by (simp add: small_stats_def reset_stats_def stat_sum_def)
qed

theorem itch_stats_account_witness:
  "total_parsed (fold (\<lambda>d s. fst (itch_parse d s)) [[82], [65], []] reset_stats)
    = stat_sum (fold (\<lambda>d s. fst (itch_parse d s)) [[82], [65], []] reset_stats)
      + int (length (filter (\<lambda>d. d \<noteq> [] \<and> hd d = chr (CHR ''R'')) [[82], [65], []]))"
  by (rule itch_stats_account) simp

end
