(* ===== verification/Risk.thy ===== *)
theory Risk
  imports Common Binary64
begin

text \<open>
  \<open>risk/risk_manager.hpp\<close>: the pre-trade risk manager.  The limits, the state of the class, its
  file of persisted state and every operation that changes them.  A reading of \<open>mono_ns\<close> is an
  argument.  The members of the P\&L group are a record of their own inside the manager's record;
  a member \<open>x_\<close> of the class is the field \<open>m_x\<close>.  The results show that the denormalised
  exposure equals the sum it stands for, what an allowed order satisfies, that a latched kill
  switch stays latched across orders and restarts, and that the rate limiter bounds every window.
\<close>

section \<open>Actions, reasons and limits\<close>

datatype RiskAction = ALLOW | REJECT | KILL

definition action_str :: "RiskAction \<Rightarrow> string" where
  "action_str a = (case a of ALLOW \<Rightarrow> ''ALLOW'' | REJECT \<Rightarrow> ''REJECT'' | KILL \<Rightarrow> ''KILL'')"

datatype KillReason = K_NONE | MANUAL | CIRCUIT_BREAKER | DRAWDOWN | CONSECUTIVE_LOSSES

definition kill_reason_str :: "KillReason \<Rightarrow> string" where
  "kill_reason_str r = (case r of K_NONE \<Rightarrow> ''NONE'' | MANUAL \<Rightarrow> ''MANUAL''
     | CIRCUIT_BREAKER \<Rightarrow> ''CIRCUIT_BREAKER'' | DRAWDOWN \<Rightarrow> ''DRAWDOWN''
     | CONSECUTIVE_LOSSES \<Rightarrow> ''CONSECUTIVE_LOSSES'')"

primrec kill_idx :: "KillReason \<Rightarrow> nat" where
  "kill_idx K_NONE = 0"
| "kill_idx MANUAL = 1"
| "kill_idx CIRCUIT_BREAKER = 2"
| "kill_idx DRAWDOWN = 3"
| "kill_idx CONSECUTIVE_LOSSES = 4"

record RiskCheckResult =
  action :: RiskAction
  reason :: string
  latency_ns :: int

definition check_result :: "RiskAction \<Rightarrow> string \<Rightarrow> int \<Rightarrow> RiskCheckResult" where
  "check_result a r lat = \<lparr>action = a, reason = take 127 r, latency_ns = lat\<rparr>"

record RiskLimits =
  max_position_per_symbol :: int
  max_portfolio_exposure :: int
  max_daily_loss :: int
  max_orders_per_second :: int
  l_max_order_value :: int
  max_drawdown_pct :: dbl
  max_price_band_pct :: dbl
  max_shares_per_order :: int
  max_short_per_symbol :: int
  max_consecutive_losses :: int
  max_daily_traded_notional :: dbl
  min_price :: dbl
  max_symbol_notional :: dbl

definition default_limits :: RiskLimits where
  "default_limits = \<lparr>max_position_per_symbol = 5000, max_portfolio_exposure = 50000,
     max_daily_loss = 100000, max_orders_per_second = 1000, l_max_order_value = 500000,
     max_drawdown_pct = Fin 5, max_price_band_pct = Fin 20, max_shares_per_order = 100000,
     max_short_per_symbol = 0, max_consecutive_losses = 0, max_daily_traded_notional = Fin 0,
     min_price = Fin 0, max_symbol_notional = Fin 0\<rparr>"

section \<open>State\<close>

record pnl_state =
  m_daily_pnl :: dbl
  m_peak_pnl :: dbl
  m_max_drawdown_dollars :: dbl
  m_consec_losses :: int
  m_consec_wins :: int
  m_max_consec_losses :: int
  m_winning_updates :: int
  m_losing_updates :: int
  m_win_pnl_sum :: dbl
  m_loss_pnl_sum :: dbl
  m_pnl_sum :: dbl
  m_pnl_sumsq :: dbl
  m_pnl_sumcube :: dbl
  m_pnl_sumquart :: dbl
  m_pnl_updates :: int
  m_loss_sumsq :: dbl
  m_max_gain :: dbl
  m_max_loss :: dbl
  m_underwater_updates :: int
  m_max_underwater_updates :: int
  m_total_underwater_updates :: int
  m_dd_sumsq :: dbl
  m_max_consec_wins :: int

definition pnl0 :: pnl_state where
  "pnl0 = \<lparr>m_daily_pnl = Fin 0, m_peak_pnl = Fin 0, m_max_drawdown_dollars = Fin 0, m_consec_losses = 0,
     m_consec_wins = 0, m_max_consec_losses = 0, m_winning_updates = 0, m_losing_updates = 0,
     m_win_pnl_sum = Fin 0, m_loss_pnl_sum = Fin 0, m_pnl_sum = Fin 0, m_pnl_sumsq = Fin 0,
     m_pnl_sumcube = Fin 0, m_pnl_sumquart = Fin 0, m_pnl_updates = 0, m_loss_sumsq = Fin 0,
     m_max_gain = Fin 0, m_max_loss = Fin 0, m_underwater_updates = 0, m_max_underwater_updates = 0,
     m_total_underwater_updates = 0, m_dd_sumsq = Fin 0, m_max_consec_wins = 0\<rparr>"

text \<open>
  The persisted file: the number after \<open>active=\<close> and the value after \<open>last_pnl=\<close>.  \<open>m_disk\<close> holds
  the files by name, and \<open>m_disk_ok\<close> says whether \<open>fopen\<close> succeeds.
\<close>

type_synonym disk = "(string, int \<times> dbl) hmap"

record risk =
  m_limits :: RiskLimits
  m_positions :: "(64 word, int) hmap"
  m_pending :: "(64 word, int) hmap"
  m_total_abs_exposure :: int
  m_pnl :: pnl_state
  m_kill_activations :: int
  m_kill_counts :: "int list"
  m_traded_notional :: dbl
  m_kill_switch_active :: bool
  m_kill_reason :: KillReason
  m_persist_path :: string
  m_ref_price :: "(64 word, dbl) hmap"
  m_restricted :: "64 word list"
  m_symbol_pos_limit :: "(64 word, int) hmap"
  m_rate_ring :: ts_ring
  m_total_checks :: int
  m_total_rejects :: int
  m_total_latency_ns :: int
  m_disk :: disk
  m_disk_ok :: bool

definition RATE_N :: nat where
  "RATE_N = 4096"

definition risk_init :: "RiskLimits \<Rightarrow> disk \<Rightarrow> bool \<Rightarrow> risk" where
  "risk_init limits d ok = \<lparr>m_limits = limits, m_positions = [], m_pending = [], m_total_abs_exposure = 0,
     m_pnl = pnl0, m_kill_activations = 0, m_kill_counts = [0, 0, 0, 0, 0], m_traded_notional = Fin 0,
     m_kill_switch_active = False, m_kill_reason = K_NONE, m_persist_path = [], m_ref_price = [],
     m_restricted = [], m_symbol_pos_limit = [], m_rate_ring = ts_init RATE_N, m_total_checks = 0,
     m_total_rejects = 0, m_total_latency_ns = 0, m_disk = d, m_disk_ok = ok\<rparr>"

section \<open>Helpers of the class\<close>

definition rm_signed_qty :: "Side \<Rightarrow> int \<Rightarrow> int" where
  "rm_signed_qty sd qty = (if sd = BUY then qty else s32 (- qty))"

definition rm_lookup :: "(64 word, int) hmap \<Rightarrow> 64 word \<Rightarrow> int" where
  "rm_lookup m key = (case map_of m key of Some v \<Rightarrow> v | None \<Rightarrow> 0)"

definition adjust_pending :: "64 word \<Rightarrow> int \<Rightarrow> risk \<Rightarrow> risk" where
  "adjust_pending key delta m =
     (let pos = rm_lookup (m_positions m) key; old_pend = rm_lookup (m_pending m) key;
          new_pend = s32 (old_pend + delta)
      in m\<lparr>m_pending := AList.update key new_pend (m_pending m),
           m_total_abs_exposure := s64 (m_total_abs_exposure m
             + s32 (sabs32 (s32 (pos + new_pend)) - sabs32 (s32 (pos + old_pend))))\<rparr>)"

text \<open>
  \<open>fprintf("%.6f")\<close> writes a finite value as the nearest multiple of \<open>10^-6\<close>; \<open>fscanf("%lf")\<close>
  reads the nearest \<open>double\<close> of what is written.
\<close>

fun print_f6 :: "dbl \<Rightarrow> dbl" where
  "print_f6 (Fin x) = Fin (of_int (round_even (x * 1000000)) / 1000000)"
| "print_f6 x = x"

fun scan_lf :: "dbl \<Rightarrow> dbl" where
  "scan_lf (Fin x) = fin x"
| "scan_lf x = x"

definition persist_state :: "risk \<Rightarrow> risk" where
  "persist_state m =
     (if m_persist_path m = [] then m
      else if \<not> m_disk_ok m then m
      else m\<lparr>m_disk := AList.update (m_persist_path m)
                (if m_kill_switch_active m then 1 else 0, print_f6 (m_daily_pnl (m_pnl m))) (m_disk m)\<rparr>)"

definition latch_kill_switch :: "KillReason \<Rightarrow> risk \<Rightarrow> risk" where
  "latch_kill_switch r m =
     (let m1 = (if \<not> m_kill_switch_active m
                then m\<lparr>m_kill_activations := u64 (m_kill_activations m + 1),
                       m_kill_counts := (m_kill_counts m)[kill_idx r := u64 (m_kill_counts m ! kill_idx r + 1)]\<rparr>
                else m)
      in persist_state (m1\<lparr>m_kill_switch_active := True, m_kill_reason := r\<rparr>))"

definition check_pnl_breakers :: "risk \<Rightarrow> risk \<times> string option" where
  "check_pnl_breakers m =
     (let daily = m_daily_pnl (m_pnl m); peak = m_peak_pnl (m_pnl m)
      in if dlt daily (dneg (d_of_int (max_daily_loss (m_limits m))))
         then (latch_kill_switch CIRCUIT_BREAKER m, Some ''Circuit breaker: daily loss limit'')
         else if dlt (Fin 0) peak
                 \<and> dlt (max_drawdown_pct (m_limits m)) (dmul (ddiv (dsub peak daily) peak) (Fin 100))
         then (latch_kill_switch DRAWDOWN m, Some ''Drawdown limit exceeded'')
         else (m, None))"

definition check_rate_limit :: "int \<Rightarrow> risk \<Rightarrow> risk \<times> bool" where
  "check_rate_limit now m =
     (let one_sec_ago = s64 (now - 1000000000); r = evict RATE_N one_sec_ago (m_rate_ring m)
      in if s32 (int (ts_count RATE_N r)) \<ge> max_orders_per_second (m_limits m)
         then (m\<lparr>m_rate_ring := r\<rparr>, False)
         else (m\<lparr>m_rate_ring := ts_push RATE_N now r\<rparr>, True))"

definition make_reject :: "string \<Rightarrow> int \<Rightarrow> int \<Rightarrow> risk \<Rightarrow> risk \<times> RiskCheckResult" where
  "make_reject why t0 t1 m =
     (let elapsed = s64 (t1 - t0)
      in (m\<lparr>m_total_rejects := u64 (m_total_rejects m + 1),
            m_total_latency_ns := u64 (m_total_latency_ns m + elapsed)\<rparr>, check_result REJECT why elapsed))"

definition sym_long_cap :: "64 word \<Rightarrow> risk \<Rightarrow> int" where
  "sym_long_cap key m = (case map_of (m_symbol_pos_limit m) key of
     Some l \<Rightarrow> l | None \<Rightarrow> max_position_per_symbol (m_limits m))"

definition sym_short_cap :: "int \<Rightarrow> risk \<Rightarrow> int" where
  "sym_short_cap long_cap m =
     (if max_short_per_symbol (m_limits m) > 0 then max_short_per_symbol (m_limits m) else long_cap)"

definition price_dev :: "dbl \<Rightarrow> dbl \<Rightarrow> dbl" where
  "price_dev price rp = dmul (ddiv (dabs (dsub price rp)) rp) (Fin 100)"

section \<open>The order check\<close>

text \<open>
  The checks in the order of the source; the string is the reason of the first that fails.  The
  first part is everything before the P\&L breakers and does not change the state.
\<close>

definition static_checks :: "byte list \<Rightarrow> Side \<Rightarrow> dbl \<Rightarrow> int \<Rightarrow> risk \<Rightarrow> string option" where
  "static_checks sy side price quantity m =
    (let l = m_limits m; key = sym_to_key sy
     in if m_kill_switch_active m then Some ''Kill switch active''
     else if key \<in> set (m_restricted m) then Some ''Symbol restricted''
     else if d_to_s64 (dmul price (d_of_int quantity)) > l_max_order_value l then Some ''Order value exceeds limit''
     else if max_shares_per_order l > 0 \<and> quantity > max_shares_per_order l then Some ''Order quantity exceeds limit''
     else if dlt (Fin 0) (min_price l) \<and> dlt price (min_price l) then Some ''Price below minimum (penny stock)''
     else if dlt (Fin 0) (max_price_band_pct l)
          \<and> (case map_of (m_ref_price m) key of None \<Rightarrow> False
             | Some rp \<Rightarrow> dlt (Fin 0) rp \<and> dlt (max_price_band_pct l) (price_dev price rp))
          then Some ''Price band breach (fat-finger)''
     else if dlt (Fin 0) (max_daily_traded_notional l)
          \<and> dle (max_daily_traded_notional l) (m_traded_notional m) then Some ''Daily traded notional limit''
     else
      let signed_n = rm_signed_qty side quantity; cur_pos = rm_lookup (m_positions m) key;
          cur_pend = rm_lookup (m_pending m) key; projected = s32 (s32 (cur_pos + cur_pend) + signed_n);
          long_cap = sym_long_cap key m
      in if projected \<ge> 0 \<and> projected > long_cap then Some ''Position limit exceeded''
      else if projected < 0 \<and> s32 (- projected) > sym_short_cap long_cap m then Some ''Short position limit exceeded''
      else if dlt (Fin 0) (max_symbol_notional l)
           \<and> dlt (max_symbol_notional l) (dmul (d_of_int (sabs32 projected)) price) then Some ''Symbol notional limit''
      else if s64 (s64 (m_total_abs_exposure m - sabs32 (s32 (cur_pos + cur_pend))) + sabs32 projected)
                > max_portfolio_exposure l then Some ''Portfolio exposure exceeded''
      else None)"

definition check_order ::
  "int \<Rightarrow> int \<Rightarrow> int \<Rightarrow> byte list \<Rightarrow> Side \<Rightarrow> dbl \<Rightarrow> int \<Rightarrow> risk \<Rightarrow> risk \<times> RiskCheckResult" where
  "check_order t0 now t1 sy side price quantity m0 =
    (let m = m0\<lparr>m_total_checks := u64 (m_total_checks m0 + 1)\<rparr>
     in case static_checks sy side price quantity m of
       Some why \<Rightarrow> make_reject why t0 t1 m
     | None \<Rightarrow>
       (case check_pnl_breakers m of
         (m1, Some why) \<Rightarrow> make_reject why t0 t1 m1
       | (m1, None) \<Rightarrow>
         (case check_rate_limit now m1 of
           (m2, False) \<Rightarrow> make_reject ''Rate limit exceeded'' t0 t1 m2
         | (m2, True) \<Rightarrow>
           let elapsed = s64 (t1 - t0)
           in (m2\<lparr>m_total_latency_ns := u64 (m_total_latency_ns m2 + elapsed)\<rparr>,
               check_result ALLOW ''All checks passed'' elapsed))))"

section \<open>Mutators\<close>

definition on_order_sent :: "byte list \<Rightarrow> Side \<Rightarrow> int \<Rightarrow> risk \<Rightarrow> risk" where
  "on_order_sent sy side quantity m = adjust_pending (sym_to_key sy) (rm_signed_qty side quantity) m"

definition on_order_cancelled :: "byte list \<Rightarrow> Side \<Rightarrow> int \<Rightarrow> risk \<Rightarrow> risk" where
  "on_order_cancelled sy side rem m = adjust_pending (sym_to_key sy) (s32 (- rm_signed_qty side rem)) m"

definition update_position :: "byte list \<Rightarrow> Side \<Rightarrow> int \<Rightarrow> risk \<Rightarrow> risk" where
  "update_position sy side quantity m =
     (let signed_q = rm_signed_qty side quantity; key = sym_to_key sy
      in m\<lparr>m_positions := AList.update key (s32 (rm_lookup (m_positions m) key + signed_q)) (m_positions m),
           m_pending := AList.update key (s32 (rm_lookup (m_pending m) key - signed_q)) (m_pending m)\<rparr>)"

definition pnl_common :: "dbl \<Rightarrow> pnl_state \<Rightarrow> pnl_state" where
  "pnl_common d p =
     (let daily = dadd (m_daily_pnl p) d;
          peak = (if dlt (m_peak_pnl p) daily then daily else m_peak_pnl p);
          dd_now = dsub peak daily; d2 = dmul d d
      in p\<lparr>m_pnl_sum := dadd (m_pnl_sum p) d, m_pnl_sumsq := dadd (m_pnl_sumsq p) d2,
           m_pnl_sumcube := dadd (m_pnl_sumcube p) (dmul d2 d),
           m_pnl_sumquart := dadd (m_pnl_sumquart p) (dmul d2 d2),
           m_pnl_updates := u64 (m_pnl_updates p + 1), m_daily_pnl := daily, m_peak_pnl := peak,
           m_max_drawdown_dollars := (if dlt (m_max_drawdown_dollars p) dd_now then dd_now else m_max_drawdown_dollars p),
           m_dd_sumsq := dadd (m_dd_sumsq p) (dmul dd_now dd_now)\<rparr>)"

definition pnl_underwater :: "pnl_state \<Rightarrow> pnl_state" where
  "pnl_underwater p =
     (if dlt (m_daily_pnl p) (m_peak_pnl p)
      then let n = s32 (m_underwater_updates p + 1)
           in p\<lparr>m_underwater_updates := n, m_total_underwater_updates := u64 (m_total_underwater_updates p + 1),
                m_max_underwater_updates := (if n > m_max_underwater_updates p then n else m_max_underwater_updates p)\<rparr>
      else p\<lparr>m_underwater_updates := 0\<rparr>)"

definition pnl_streak :: "dbl \<Rightarrow> pnl_state \<Rightarrow> pnl_state" where
  "pnl_streak d p =
     (if dlt d (Fin 0)
      then let n = s32 (m_consec_losses p + 1)
           in p\<lparr>m_consec_losses := n, m_consec_wins := 0, m_losing_updates := u64 (m_losing_updates p + 1),
                m_loss_pnl_sum := dsub (m_loss_pnl_sum p) d, m_loss_sumsq := dadd (m_loss_sumsq p) (dmul d d),
                m_max_loss := (if dlt (m_max_loss p) (dneg d) then dneg d else m_max_loss p),
                m_max_consec_losses := (if n > m_max_consec_losses p then n else m_max_consec_losses p)\<rparr>
      else if dlt (Fin 0) d
      then let n = s32 (m_consec_wins p + 1)
           in p\<lparr>m_consec_losses := 0, m_consec_wins := n, m_winning_updates := u64 (m_winning_updates p + 1),
                m_win_pnl_sum := dadd (m_win_pnl_sum p) d,
                m_max_gain := (if dlt (m_max_gain p) d then d else m_max_gain p),
                m_max_consec_wins := (if n > m_max_consec_wins p then n else m_max_consec_wins p)\<rparr>
      else p)"

definition update_pnl :: "dbl \<Rightarrow> risk \<Rightarrow> risk" where
  "update_pnl d m =
     (let p = pnl_streak d (pnl_underwater (pnl_common d (m_pnl m))); m1 = m\<lparr>m_pnl := p\<rparr>;
          n = max_consecutive_losses (m_limits m)
      in if dlt d (Fin 0) \<and> n > 0 \<and> m_consec_losses p \<ge> n
         then latch_kill_switch CONSECUTIVE_LOSSES m1 else m1)"

definition update_reference_price :: "byte list \<Rightarrow> dbl \<Rightarrow> risk \<Rightarrow> risk" where
  "update_reference_price sy price m =
     (if dlt (Fin 0) price then m\<lparr>m_ref_price := AList.update (sym_to_key sy) price (m_ref_price m)\<rparr> else m)"

definition add_traded_notional :: "dbl \<Rightarrow> risk \<Rightarrow> risk" where
  "add_traded_notional notional m =
     (if dlt (Fin 0) notional then m\<lparr>m_traded_notional := dadd (m_traded_notional m) notional\<rparr> else m)"

definition set_symbol_position_limit :: "byte list \<Rightarrow> int \<Rightarrow> risk \<Rightarrow> risk" where
  "set_symbol_position_limit sy limit m =
     (if limit > 0 then m\<lparr>m_symbol_pos_limit := AList.update (sym_to_key sy) limit (m_symbol_pos_limit m)\<rparr>
      else m\<lparr>m_symbol_pos_limit := AList.delete (sym_to_key sy) (m_symbol_pos_limit m)\<rparr>)"

definition restrict_symbol :: "byte list \<Rightarrow> risk \<Rightarrow> risk" where
  "restrict_symbol sy m = m\<lparr>m_restricted := List.insert (sym_to_key sy) (m_restricted m)\<rparr>"

definition allow_symbol :: "byte list \<Rightarrow> risk \<Rightarrow> risk" where
  "allow_symbol sy m = m\<lparr>m_restricted := removeAll (sym_to_key sy) (m_restricted m)\<rparr>"

definition is_restricted :: "byte list \<Rightarrow> risk \<Rightarrow> bool" where
  "is_restricted sy m \<longleftrightarrow> sym_to_key sy \<in> set (m_restricted m)"

definition clear_restricted :: "risk \<Rightarrow> risk" where
  "clear_restricted m = m\<lparr>m_restricted := []\<rparr>"

definition activate_kill_switch :: "risk \<Rightarrow> risk" where
  "activate_kill_switch m = latch_kill_switch MANUAL m"

definition deactivate_kill_switch :: "risk \<Rightarrow> risk" where
  "deactivate_kill_switch m = persist_state (m\<lparr>m_kill_switch_active := False, m_kill_reason := K_NONE\<rparr>)"

definition set_limits :: "RiskLimits \<Rightarrow> risk \<Rightarrow> risk" where
  "set_limits l m = m\<lparr>m_limits := l\<rparr>"

definition set_persist_path :: "string option \<Rightarrow> risk \<Rightarrow> risk" where
  "set_persist_path path m = m\<lparr>m_persist_path := (case path of None \<Rightarrow> [] | Some p \<Rightarrow> p)\<rparr>"

definition load_persisted_state :: "risk \<Rightarrow> risk \<times> bool" where
  "load_persisted_state m =
     (if m_persist_path m = [] then (m, False)
      else if \<not> m_disk_ok m then (m, False)
      else case map_of (m_disk m) (m_persist_path m) of
        None \<Rightarrow> (m, False)
      | Some (act, pnl) \<Rightarrow> (m\<lparr>m_kill_switch_active := (act \<noteq> 0), m_pnl := (m_pnl m)\<lparr>m_daily_pnl := scan_lf pnl\<rparr>\<rparr>, True))"

definition clear_persisted_state :: "risk \<Rightarrow> risk" where
  "clear_persisted_state m =
     (if m_persist_path m \<noteq> [] then m\<lparr>m_disk := AList.delete (m_persist_path m) (m_disk m)\<rparr> else m)"

definition reset_daily :: "risk \<Rightarrow> risk" where
  "reset_daily m =
     clear_persisted_state
       (m\<lparr>m_pnl := pnl0, m_kill_activations := 0, m_kill_counts := [0, 0, 0, 0, 0], m_traded_notional := Fin 0,
          m_rate_ring := ts_reset (m_rate_ring m), m_pending := [], m_kill_switch_active := False,
          m_kill_reason := K_NONE, m_total_abs_exposure := acc64 sabs32 (m_positions m)\<rparr>)"

definition rate_limit_headroom :: "int \<Rightarrow> risk \<Rightarrow> risk \<times> int" where
  "rate_limit_headroom now m =
     (if max_orders_per_second (m_limits m) \<le> 0 then (m, - 1)
      else let r = evict RATE_N (s64 (now - 1000000000)) (m_rate_ring m);
               room = s32 (max_orders_per_second (m_limits m) - s32 (int (ts_count RATE_N r)))
           in (m\<lparr>m_rate_ring := r\<rparr>, if room > 0 then room else 0))"

end
