(* ===== verification/Risk_Metrics.thy ===== *)
theory Risk_Metrics
  imports Risk
begin

text \<open>
  The read-only accessors of \<open>risk_manager.hpp\<close>: exposures and headroom, the what-if checks, and
  the P\&L statistics.  \<open>pnl_expected_shortfall\<close> uses \<open>std::exp\<close>, whose result the library does not
  pin down to a value, and is left out.
\<close>

section \<open>Exposure\<close>

definition rm_get_position :: "byte list \<Rightarrow> risk \<Rightarrow> int" where
  "rm_get_position sy m = rm_lookup (m_positions m) (sym_to_key sy)"

definition rm_get_pending :: "byte list \<Rightarrow> risk \<Rightarrow> int" where
  "rm_get_pending sy m = rm_lookup (m_pending m) (sym_to_key sy)"

definition sym_net :: "64 word \<Rightarrow> risk \<Rightarrow> int" where
  "sym_net k m = s32 (rm_lookup (m_positions m) k + rm_lookup (m_pending m) k)"

definition get_exposure :: "byte list \<Rightarrow> risk \<Rightarrow> int" where
  "get_exposure sy m = sabs32 (sym_net (sym_to_key sy) m)"

definition get_total_exposure :: "risk \<Rightarrow> int" where
  "get_total_exposure m = m_total_abs_exposure m"

definition total_pending_exposure :: "risk \<Rightarrow> int" where
  "total_pending_exposure m = acc64 sabs32 (m_pending m)"

definition net_exposure :: "risk \<Rightarrow> int" where
  "net_exposure m = fold (\<lambda>(k, v) s. s64 (s + v)) (m_pending m) (acc64 (\<lambda>v. v) (m_positions m))"

definition long_exposure :: "risk \<Rightarrow> int" where
  "long_exposure m = tdiv (s64 (get_total_exposure m + net_exposure m)) 2"

definition short_exposure :: "risk \<Rightarrow> int" where
  "short_exposure m = tdiv (s64 (get_total_exposure m - net_exposure m)) 2"

definition portfolio_skew :: "risk \<Rightarrow> dbl" where
  "portfolio_skew m = (let gross = get_total_exposure m
     in if gross > 0 then ddiv (d_of_int (net_exposure m)) (d_of_int gross) else Fin 0)"

text \<open>
  The two loops of \<open>largest_symbol_exposure\<close> and \<open>largest_exposure_symbol\<close>: positions with their
  pending quantity, then the pending quantities of symbols without a position.
\<close>

definition expo_terms :: "risk \<Rightarrow> (64 word \<times> int) list" where
  "expo_terms m = map (\<lambda>(k, v). (k, \<bar>v + rm_lookup (m_pending m) k\<bar>)) (m_positions m)
     @ map (\<lambda>(k, v). (k, \<bar>v\<bar>)) (filter (\<lambda>(k, v). map_of (m_positions m) k = None) (m_pending m))"

definition largest_symbol_exposure :: "risk \<Rightarrow> int" where
  "largest_symbol_exposure m = fold (\<lambda>(k, e) b. if e > b then e else b) (expo_terms m) 0"

definition largest_exposure_symbol :: "risk \<Rightarrow> int \<times> byte list" where
  "largest_exposure_symbol m =
     (let (b, bk) = fold (\<lambda>(k, e) (b, bk). if e > b then (e, k) else (b, bk)) (expo_terms m) (0, 0)
      in (b, if b > 0 then key_to_sym bk else []))"

definition exposure_concentration :: "risk \<Rightarrow> dbl" where
  "exposure_concentration m = (let total = get_total_exposure m
     in if total > 0 then ddiv (d_of_int (largest_symbol_exposure m)) (d_of_int total) else Fin 0)"

definition exposure_utilization_pct :: "risk \<Rightarrow> dbl" where
  "exposure_utilization_pct m = (if max_portfolio_exposure (m_limits m) \<le> 0 then Fin 0
     else dmul (ddiv (d_of_int (m_total_abs_exposure m)) (d_of_int (max_portfolio_exposure (m_limits m)))) (Fin 100))"

definition exposure_headroom :: "risk \<Rightarrow> int" where
  "exposure_headroom m = (let cap = max_portfolio_exposure (m_limits m)
     in if cap \<le> 0 then 0
        else if cap > m_total_abs_exposure m then s64 (cap - m_total_abs_exposure m) else 0)"

section \<open>Limits per symbol\<close>

definition is_near_position_limit :: "byte list \<Rightarrow> dbl \<Rightarrow> risk \<Rightarrow> bool" where
  "is_near_position_limit sy warn_pct m =
     (let k = sym_to_key sy; cap = sym_long_cap k m
      in if cap \<le> 0 then False
         else dle (ddiv (dmul (d_of_int cap) warn_pct) (Fin 100)) (d_of_int (sabs32 (sym_net k m))))"

definition position_utilization_pct :: "byte list \<Rightarrow> risk \<Rightarrow> dbl" where
  "position_utilization_pct sy m =
     (let k = sym_to_key sy; cap = sym_long_cap k m
      in if cap \<le> 0 then Fin 0 else dmul (ddiv (d_of_int (sabs32 (sym_net k m))) (d_of_int cap)) (Fin 100))"

definition projected_exposure :: "byte list \<Rightarrow> Side \<Rightarrow> int \<Rightarrow> risk \<Rightarrow> int" where
  "projected_exposure sy sd qty m = sabs32 (s32 (sym_net (sym_to_key sy) m + rm_signed_qty sd qty))"

definition would_breach_position :: "byte list \<Rightarrow> Side \<Rightarrow> int \<Rightarrow> risk \<Rightarrow> bool" where
  "would_breach_position sy sd qty m =
     (let k = sym_to_key sy; long_cap = sym_long_cap k m
      in if long_cap \<le> 0 then False
         else let projected = s32 (sym_net k m + rm_signed_qty sd qty)
              in if projected \<ge> 0 then projected > long_cap
                 else s32 (- projected) > sym_short_cap long_cap m)"

definition would_breach_price_band :: "byte list \<Rightarrow> dbl \<Rightarrow> risk \<Rightarrow> bool" where
  "would_breach_price_band sy price m =
     (if dle (max_price_band_pct (m_limits m)) (Fin 0) then False
      else case map_of (m_ref_price m) (sym_to_key sy) of None \<Rightarrow> False
        | Some rp \<Rightarrow> if dle rp (Fin 0) then False
                      else dlt (max_price_band_pct (m_limits m)) (price_dev price rp))"

definition would_breach_symbol_notional :: "byte list \<Rightarrow> Side \<Rightarrow> int \<Rightarrow> dbl \<Rightarrow> risk \<Rightarrow> bool" where
  "would_breach_symbol_notional sy sd qty price m =
     (if dle (max_symbol_notional (m_limits m)) (Fin 0) then False
      else dlt (max_symbol_notional (m_limits m))
             (dmul (d_of_int (sabs32 (s32 (sym_net (sym_to_key sy) m + rm_signed_qty sd qty)))) price))"

definition would_breach_exposure :: "byte list \<Rightarrow> Side \<Rightarrow> int \<Rightarrow> risk \<Rightarrow> bool" where
  "would_breach_exposure sy sd qty m =
     (if max_portfolio_exposure (m_limits m) \<le> 0 then False
      else let cur = sym_net (sym_to_key sy) m
           in s64 (s64 (m_total_abs_exposure m - sabs32 cur) + sabs32 (s32 (cur + rm_signed_qty sd qty)))
                > max_portfolio_exposure (m_limits m))"

definition headroom_shares :: "byte list \<Rightarrow> Side \<Rightarrow> risk \<Rightarrow> int" where
  "headroom_shares sy sd m =
     (let k = sym_to_key sy; cap = sym_long_cap k m; cur = sym_net k m
      in if cap \<le> 0 then 0
         else let room = (if sd = BUY then s32 (cap - cur) else s32 (sym_short_cap cap m + cur))
              in if room > 0 then room else 0)"

definition get_position_notional :: "byte list \<Rightarrow> risk \<Rightarrow> dbl" where
  "get_position_notional sy m =
     (let k = sym_to_key sy
      in case map_of (m_ref_price m) k of None \<Rightarrow> Fin 0
         | Some rp \<Rightarrow> if dle rp (Fin 0) then Fin 0 else dmul (d_of_int (sabs32 (sym_net k m))) rp)"

definition symbol_notional_utilization_pct :: "byte list \<Rightarrow> risk \<Rightarrow> dbl" where
  "symbol_notional_utilization_pct sy m =
     (if dle (max_symbol_notional (m_limits m)) (Fin 0) then Fin 0
      else dmul (ddiv (get_position_notional sy m) (max_symbol_notional (m_limits m))) (Fin 100))"

section \<open>Kill switch and counters\<close>

definition is_kill_switch_active :: "risk \<Rightarrow> bool" where
  "is_kill_switch_active m = m_kill_switch_active m"

definition get_kill_reason :: "risk \<Rightarrow> KillReason" where
  "get_kill_reason m = m_kill_reason m"

definition kill_count :: "KillReason \<Rightarrow> risk \<Rightarrow> int" where
  "kill_count r m = m_kill_counts m ! kill_idx r"

definition most_common_kill_reason :: "risk \<Rightarrow> KillReason" where
  "most_common_kill_reason m =
     fst (fold (\<lambda>r (best, best_n). if kill_count r m > best_n then (r, kill_count r m) else (best, best_n))
       [MANUAL, CIRCUIT_BREAKER, DRAWDOWN, CONSECUTIVE_LOSSES] (K_NONE, 0))"

definition check_reject_rate :: "risk \<Rightarrow> dbl" where
  "check_reject_rate m = (if m_total_checks m > 0
     then ddiv (d_of_int (m_total_rejects m)) (d_of_int (m_total_checks m)) else Fin 0)"

section \<open>Budgets\<close>

definition daily_turnover_pct :: "risk \<Rightarrow> dbl" where
  "daily_turnover_pct m = (let cap = max_daily_traded_notional (m_limits m)
     in if dle cap (Fin 0) then Fin 0 else dmul (ddiv (m_traded_notional m) cap) (Fin 100))"

definition current_drawdown_pct :: "risk \<Rightarrow> dbl" where
  "current_drawdown_pct m = (let p = m_pnl m in if dle (m_peak_pnl p) (Fin 0) then Fin 0
     else dmul (ddiv (dsub (m_peak_pnl p) (m_daily_pnl p)) (m_peak_pnl p)) (Fin 100))"

definition drawdown_headroom_pct :: "risk \<Rightarrow> dbl" where
  "drawdown_headroom_pct m = (if dle (max_drawdown_pct (m_limits m)) (Fin 0) then Fin 0
     else let room = dsub (max_drawdown_pct (m_limits m)) (current_drawdown_pct m)
          in if dlt (Fin 0) room then room else Fin 0)"

definition remaining_turnover_budget :: "risk \<Rightarrow> dbl" where
  "remaining_turnover_budget m = (if dle (max_daily_traded_notional (m_limits m)) (Fin 0) then Fin (- 1)
     else let room = dsub (max_daily_traded_notional (m_limits m)) (m_traded_notional m)
          in if dlt (Fin 0) room then room else Fin 0)"

definition current_drawdown_dollars :: "risk \<Rightarrow> dbl" where
  "current_drawdown_dollars m = (let dd = dsub (m_peak_pnl (m_pnl m)) (m_daily_pnl (m_pnl m))
     in if dlt (Fin 0) dd then dd else Fin 0)"

definition consecutive_losses_remaining :: "risk \<Rightarrow> int" where
  "consecutive_losses_remaining m = (if max_consecutive_losses (m_limits m) \<le> 0 then - 1
     else let rem = s32 (max_consecutive_losses (m_limits m) - m_consec_losses (m_pnl m))
          in if rem > 0 then rem else 0)"

definition remaining_loss_budget :: "risk \<Rightarrow> dbl" where
  "remaining_loss_budget m = (let budget = dadd (d_of_int (max_daily_loss (m_limits m))) (m_daily_pnl (m_pnl m))
     in if dlt (Fin 0) budget then budget else Fin 0)"

definition loss_budget_utilization_pct :: "risk \<Rightarrow> dbl" where
  "loss_budget_utilization_pct m = (if max_daily_loss (m_limits m) \<le> 0 then Fin 0
     else let daily = m_daily_pnl (m_pnl m); consumed = (if dlt daily (Fin 0) then dneg daily else Fin 0);
              pct = dmul (ddiv consumed (d_of_int (max_daily_loss (m_limits m)))) (Fin 100)
          in if dlt (Fin 100) pct then Fin 100 else pct)"

section \<open>P\&L statistics\<close>

definition avg_over :: "dbl \<Rightarrow> int \<Rightarrow> dbl" where
  "avg_over tot n = (if n > 0 then ddiv tot (d_of_int n) else Fin 0)"

definition pnl_win_rate :: "pnl_state \<Rightarrow> dbl" where
  "pnl_win_rate p = (let decided = u64 (m_winning_updates p + m_losing_updates p)
     in avg_over (d_of_int (m_winning_updates p)) decided)"

definition avg_pnl_win :: "pnl_state \<Rightarrow> dbl" where
  "avg_pnl_win p = avg_over (m_win_pnl_sum p) (m_winning_updates p)"

definition avg_pnl_loss :: "pnl_state \<Rightarrow> dbl" where
  "avg_pnl_loss p = avg_over (m_loss_pnl_sum p) (m_losing_updates p)"

definition pnl_payoff_ratio :: "pnl_state \<Rightarrow> dbl" where
  "pnl_payoff_ratio p = (let aw = avg_pnl_win p; al = avg_pnl_loss p
     in if dlt (Fin 0) aw \<and> dlt (Fin 0) al then ddiv aw al else Fin 0)"

definition kelly_fraction :: "pnl_state \<Rightarrow> dbl" where
  "kelly_fraction p = (let b = pnl_payoff_ratio p; w = pnl_win_rate p
     in if dle b (Fin 0) then Fin 0 else dsub w (ddiv (dsub (Fin 1) w) b))"

definition loss_budget_runway :: "risk \<Rightarrow> dbl" where
  "loss_budget_runway m = (if max_daily_loss (m_limits m) \<le> 0 then Fin (- 1)
     else let al = avg_pnl_loss (m_pnl m)
          in if dle al (Fin 0) then Fin (- 1) else ddiv (remaining_loss_budget m) al)"

definition pnl_mean :: "pnl_state \<Rightarrow> dbl" where
  "pnl_mean p = ddiv (m_pnl_sum p) (d_of_int (m_pnl_updates p))"

definition pnl_var :: "pnl_state \<Rightarrow> dbl" where
  "pnl_var p = dsub (ddiv (m_pnl_sumsq p) (d_of_int (m_pnl_updates p))) (dmul (pnl_mean p) (pnl_mean p))"

definition pnl_std_dev :: "pnl_state \<Rightarrow> dbl" where
  "pnl_std_dev p = (if m_pnl_updates p < 2 then Fin 0
     else if dlt (Fin 0) (pnl_var p) then dsqrt (pnl_var p) else Fin 0)"

definition pnl_skewness :: "pnl_state \<Rightarrow> dbl" where
  "pnl_skewness p = (if m_pnl_updates p < 2 then Fin 0
     else let n = d_of_int (m_pnl_updates p); mean = pnl_mean p; m2 = ddiv (m_pnl_sumsq p) n
          in if dle (pnl_var p) (Fin 0) then Fin 0
             else let sd = dsqrt (pnl_var p);
                      central3 = dadd (dsub (ddiv (m_pnl_sumcube p) n) (dmul (dmul (Fin 3) mean) m2))
                        (dmul (dmul (dmul (Fin 2) mean) mean) mean)
                  in ddiv central3 (dmul (dmul sd sd) sd))"

definition pnl_kurtosis :: "pnl_state \<Rightarrow> dbl" where
  "pnl_kurtosis p = (if m_pnl_updates p < 2 then Fin 0
     else let n = d_of_int (m_pnl_updates p); mean = pnl_mean p; m2 = ddiv (m_pnl_sumsq p) n; var = pnl_var p
          in if dle var (Fin 0) then Fin 0
             else let m3 = ddiv (m_pnl_sumcube p) n; m4 = ddiv (m_pnl_sumquart p) n; mu2 = dmul mean mean;
                      central4 = dsub (dadd (dsub m4 (dmul (dmul (Fin 4) mean) m3)) (dmul (dmul (Fin 6) mu2) m2))
                        (dmul (dmul (Fin 3) mu2) mu2)
                  in dsub (ddiv central4 (dmul var var)) (Fin 3))"

definition pnl_value_at_risk :: "dbl \<Rightarrow> pnl_state \<Rightarrow> dbl" where
  "pnl_value_at_risk z p = (let sd = pnl_std_dev p
     in if dle sd (Fin 0) then Fin 0
        else let v = dsub (dmul z sd) (pnl_mean p) in if dlt (Fin 0) v then v else Fin 0)"

definition pnl_recovery_factor :: "pnl_state \<Rightarrow> dbl" where
  "pnl_recovery_factor p = (if dlt (Fin 0) (m_max_drawdown_dollars p)
     then ddiv (m_daily_pnl p) (m_max_drawdown_dollars p) else Fin 0)"

definition pnl_pain_index :: "pnl_state \<Rightarrow> dbl" where
  "pnl_pain_index p = (if m_pnl_updates p > 0
     then dsqrt (ddiv (m_dd_sumsq p) (d_of_int (m_pnl_updates p))) else Fin 0)"

definition pnl_martin_ratio :: "pnl_state \<Rightarrow> dbl" where
  "pnl_martin_ratio p = (let pain = pnl_pain_index p
     in if dlt (Fin 0) pain then ddiv (m_daily_pnl p) pain else Fin 0)"

definition pnl_sharpe :: "pnl_state \<Rightarrow> dbl" where
  "pnl_sharpe p = (let sd = pnl_std_dev p
     in if dle sd (Fin 0) \<or> m_pnl_updates p = 0 then Fin 0 else ddiv (pnl_mean p) sd)"

definition pnl_gain_concentration :: "pnl_state \<Rightarrow> dbl" where
  "pnl_gain_concentration p = (if dlt (Fin 0) (m_win_pnl_sum p) then ddiv (m_max_gain p) (m_win_pnl_sum p) else Fin 0)"

definition pnl_loss_concentration :: "pnl_state \<Rightarrow> dbl" where
  "pnl_loss_concentration p = (if dlt (Fin 0) (m_loss_pnl_sum p) then ddiv (m_max_loss p) (m_loss_pnl_sum p) else Fin 0)"

definition pnl_tail_ratio :: "pnl_state \<Rightarrow> dbl" where
  "pnl_tail_ratio p = (if dlt (Fin 0) (m_max_loss p) then ddiv (m_max_gain p) (m_max_loss p) else Fin 0)"

definition pnl_downside_dev :: "pnl_state \<Rightarrow> dbl" where
  "pnl_downside_dev p = (if m_pnl_updates p = 0 then Fin 0
     else let dd = ddiv (m_loss_sumsq p) (d_of_int (m_pnl_updates p)) in if dlt (Fin 0) dd then dsqrt dd else Fin 0)"

definition pnl_sortino :: "pnl_state \<Rightarrow> dbl" where
  "pnl_sortino p = (let dd = pnl_downside_dev p
     in if dle dd (Fin 0) \<or> m_pnl_updates p = 0 then Fin 0 else ddiv (pnl_mean p) dd)"

definition pnl_profit_factor :: "pnl_state \<Rightarrow> dbl" where
  "pnl_profit_factor p = (if dlt (Fin 0) (m_loss_pnl_sum p) then ddiv (m_win_pnl_sum p) (m_loss_pnl_sum p) else Fin 0)"

definition pnl_expectancy :: "pnl_state \<Rightarrow> dbl" where
  "pnl_expectancy p = (let decided = u64 (m_winning_updates p + m_losing_updates p)
     in avg_over (dsub (m_win_pnl_sum p) (m_loss_pnl_sum p)) decided)"

definition underwater_fraction :: "pnl_state \<Rightarrow> dbl" where
  "underwater_fraction p = avg_over (d_of_int (m_total_underwater_updates p)) (m_pnl_updates p)"

end
