(* ===== verification/Risk_Props.thy ===== *)
theory Risk_Props
  imports Risk_Metrics
begin

text \<open>
  Properties of the risk manager: runs of calls, the exposure invariant, what an allowed order
  satisfies, the latched kill switch and its persistence, and the rate limit.
\<close>

section \<open>Runs\<close>

datatype risk_call =
    RCheck int int int "byte list" Side dbl int
  | RSent "byte list" Side int
  | RCancelled "byte list" Side int
  | RFill "byte list" Side int
  | RPnl dbl
  | RRefPrice "byte list" dbl
  | RNotional dbl
  | RSymLimit "byte list" int
  | RRestrict "byte list"
  | RAllow "byte list"
  | RClearRestricted
  | RKill
  | RUnkill
  | RSetLimits RiskLimits
  | RSetPath "string option"
  | RLoad
  | RClearFile
  | RReset
  | RHeadroom int

primrec risk_exec :: "risk_call \<Rightarrow> risk \<Rightarrow> risk" where
  "risk_exec (RCheck t0 now t1 sy sd px q) m = fst (check_order t0 now t1 sy sd px q m)"
| "risk_exec (RSent sy sd q) m = on_order_sent sy sd q m"
| "risk_exec (RCancelled sy sd q) m = on_order_cancelled sy sd q m"
| "risk_exec (RFill sy sd q) m = update_position sy sd q m"
| "risk_exec (RPnl d) m = update_pnl d m"
| "risk_exec (RRefPrice sy px) m = update_reference_price sy px m"
| "risk_exec (RNotional d) m = add_traded_notional d m"
| "risk_exec (RSymLimit sy l) m = set_symbol_position_limit sy l m"
| "risk_exec (RRestrict sy) m = restrict_symbol sy m"
| "risk_exec (RAllow sy) m = allow_symbol sy m"
| "risk_exec RClearRestricted m = clear_restricted m"
| "risk_exec RKill m = activate_kill_switch m"
| "risk_exec RUnkill m = deactivate_kill_switch m"
| "risk_exec (RSetLimits l) m = set_limits l m"
| "risk_exec (RSetPath p) m = set_persist_path p m"
| "risk_exec RLoad m = fst (load_persisted_state m)"
| "risk_exec RClearFile m = clear_persisted_state m"
| "risk_exec RReset m = reset_daily m"
| "risk_exec (RHeadroom now) m = fst (rate_limit_headroom now m)"

text \<open>The number of shares a call moves.\<close>

fun call_qty :: "risk_call \<Rightarrow> int" where
  "call_qty (RSent sy sd q) = \<bar>q\<bar>"
| "call_qty (RCancelled sy sd q) = \<bar>q\<bar>"
| "call_qty (RFill sy sd q) = \<bar>q\<bar>"
| "call_qty _ = 0"

lemma call_qty_nonneg [simp]: "0 \<le> call_qty x"
  by (cases x) auto

section \<open>The members an operation leaves alone\<close>

definition core :: "risk \<Rightarrow> (64 word, int) hmap \<times> (64 word, int) hmap \<times> int" where
  "core m = (m_positions m, m_pending m, m_total_abs_exposure m)"

lemma persist_frame [simp]:
  "core (persist_state m) = core m" "m_rate_ring (persist_state m) = m_rate_ring m"
  "m_limits (persist_state m) = m_limits m" "m_kill_switch_active (persist_state m) = m_kill_switch_active m"
  "m_persist_path (persist_state m) = m_persist_path m" "m_disk_ok (persist_state m) = m_disk_ok m"
  by (simp_all add: persist_state_def core_def)

lemma latch_frame [simp]:
  "core (latch_kill_switch r m) = core m" "m_rate_ring (latch_kill_switch r m) = m_rate_ring m"
  "m_limits (latch_kill_switch r m) = m_limits m" "m_kill_switch_active (latch_kill_switch r m)"
  "m_persist_path (latch_kill_switch r m) = m_persist_path m" "m_disk_ok (latch_kill_switch r m) = m_disk_ok m"
  by (simp_all add: latch_kill_switch_def Let_def) (simp_all add: core_def)

lemma breakers_frame:
  "check_pnl_breakers m = (m1, why) \<Longrightarrow> core m1 = core m \<and> m_rate_ring m1 = m_rate_ring m \<and> m_limits m1 = m_limits m
     \<and> (m_kill_switch_active m \<longrightarrow> m_kill_switch_active m1) \<and> (why = None \<longrightarrow> m1 = m)"
  by (auto simp: check_pnl_breakers_def Let_def split: if_splits)

lemma rate_frame:
  "check_rate_limit now m = (m1, ok) \<Longrightarrow> core m1 = core m \<and> m_limits m1 = m_limits m
     \<and> m_kill_switch_active m1 = m_kill_switch_active m"
  by (auto simp: check_rate_limit_def Let_def core_def split: if_splits)

text \<open>The ways \<open>check_order\<close> ends.\<close>

lemma check_order_cases:
  obtains
    (static) why m1 where "static_checks sy sd px q m = Some why" "check_order t0 now t1 sy sd px q m = (m1, check_result REJECT why (s64 (t1 - t0)))"
      "core m1 = core m" "m_rate_ring m1 = m_rate_ring m" "m_limits m1 = m_limits m"
      "m_kill_switch_active m1 = m_kill_switch_active m" "m_disk m1 = m_disk m" "m_persist_path m1 = m_persist_path m" "m_disk_ok m1 = m_disk_ok m"
  | (breaker) r why m1 where "static_checks sy sd px q m = None" "snd (check_pnl_breakers m) = Some why"
      "check_order t0 now t1 sy sd px q m = (m1, check_result REJECT why (s64 (t1 - t0)))"
      "core m1 = core m" "m_rate_ring m1 = m_rate_ring m" "m_limits m1 = m_limits m" "m_kill_switch_active m1"
      "m_disk m1 = m_disk (latch_kill_switch r m)" "m_persist_path m1 = m_persist_path m" "m_disk_ok m1 = m_disk_ok m"
  | (rate) ok m1 where "static_checks sy sd px q m = None" "snd (check_pnl_breakers m) = None"
      "snd (check_rate_limit now m) = ok"
      "check_order t0 now t1 sy sd px q m = (m1, check_result (if ok then ALLOW else REJECT) (if ok then ''All checks passed'' else ''Rate limit exceeded'') (s64 (t1 - t0)))"
      "core m1 = core m" "m_rate_ring m1 = m_rate_ring (fst (check_rate_limit now m))" "m_limits m1 = m_limits m"
      "m_kill_switch_active m1 = m_kill_switch_active m" "m_disk m1 = m_disk m" "m_persist_path m1 = m_persist_path m" "m_disk_ok m1 = m_disk_ok m"
proof -
  let ?m = "m\<lparr>m_total_checks := u64 (m_total_checks m + 1)\<rparr>"
  have st: "static_checks sy sd px q ?m = static_checks sy sd px q m"
    by (cases m, hypsubst, unfold static_checks_def sym_long_cap_def sym_short_cap_def risk.select_convs risk.update_convs, rule refl)
  show thesis
  proof (cases "static_checks sy sd px q m")
    case (Some why)
    show ?thesis
      by (rule static [OF Some, where ?m1.0 = "fst (check_order t0 now t1 sy sd px q m)"]) (simp_all add: check_order_def st Some make_reject_def core_def Let_def)
  next
    case None
    show ?thesis
    proof (cases "snd (check_pnl_breakers m)")
      case (Some why)
      obtain r where r: "check_pnl_breakers ?m = (latch_kill_switch r ?m, Some why)"
        using Some by (auto simp: check_pnl_breakers_def Let_def split: if_splits)
      have d: "m_disk (latch_kill_switch r ?m) = m_disk (latch_kill_switch r m)"
        by (simp add: latch_kill_switch_def persist_state_def Let_def)
      have c: "core (m'\<lparr>m_total_rejects := a, m_total_latency_ns := b\<rparr>) = core m'" for m' a b by (simp add: core_def)
      have cm: "core ?m = core m" by (simp add: core_def)
      show ?thesis
        by (rule breaker [OF None Some, where ?m1.0 = "fst (check_order t0 now t1 sy sd px q m)" and r = r]) (simp_all add: check_order_def Let_def st None r make_reject_def d c cm)
    next
      case N: None
      then have br: "check_pnl_breakers ?m = (?m, None)"
        by (auto simp: check_pnl_breakers_def Let_def split: if_splits)
      define ok where "ok = snd (check_rate_limit now m)"
      have ok': "check_rate_limit now ?m = (?m\<lparr>m_rate_ring := m_rate_ring (fst (check_rate_limit now m))\<rparr>, ok)"
        by (simp add: check_rate_limit_def Let_def ok_def)
      show ?thesis
        by (rule rate [OF None N ok_def [symmetric], where ?m1.0 = "fst (check_order t0 now t1 sy sd px q m)"])
          (cases ok; simp add: check_order_def Let_def st None br ok' make_reject_def core_def)+
    qed
  qed
qed

section \<open>The exposure invariant\<close>

text \<open>
  The sum that \<open>total_abs_exposure_\<close> stands for, over all keys, and the invariant under a bound
  \<open>B\<close> on the shares moved so far: below \<open>2^30\<close> no 32-bit sum wraps.
\<close>

definition net_of :: "risk \<Rightarrow> 64 word \<Rightarrow> int" where
  "net_of m k = rm_lookup (m_positions m) k + rm_lookup (m_pending m) k"

definition exp_inv :: "int \<Rightarrow> risk \<Rightarrow> bool" where
  "exp_inv B m \<longleftrightarrow> hm_wf (m_positions m) \<and> hm_wf (m_pending m) \<and> hm_sum abs (m_positions m) \<le> B
     \<and> hm_sum abs (m_pending m) \<le> B \<and> m_total_abs_exposure m = (\<Sum>k\<in>UNIV. \<bar>net_of m k\<bar>)"

lemma rm_lookup_val: "rm_lookup m k = hm_val (\<lambda>v. v) (map_of m k)"
  by (simp add: rm_lookup_def hm_val_def)

lemma rm_lookup_update [simp]: "rm_lookup (AList.update k v m) j = (if j = k then v else rm_lookup m j)"
  by (simp add: rm_lookup_def alist_simps)

lemma rm_lookup_abs: "\<bar>rm_lookup m k\<bar> = hm_val abs (map_of m k)"
  by (simp add: rm_lookup_def split: option.split)

lemma rm_lookup_bound: "hm_sum abs m \<le> B \<Longrightarrow> \<bar>rm_lookup m k\<bar> \<le> B"
  using hm_val_le_sum [of abs m k] by (simp add: rm_lookup_abs)

lemma rm_update_bound:
  assumes "hm_wf m" "hm_sum abs m \<le> B" "\<bar>v - rm_lookup m k\<bar> \<le> d"
  shows "hm_sum abs (AList.update k v m) \<le> B + d"
  using assms by (simp add: hm_sum_update flip: rm_lookup_abs)

lemma rm_signed_small: "\<bar>q\<bar> < 2 ^ 31 \<Longrightarrow> \<bar>rm_signed_qty sd q\<bar> = \<bar>q\<bar>"
  by (auto simp: rm_signed_qty_def s32_id)

lemma exp_inv_core: "core m = core m' \<Longrightarrow> exp_inv B m = exp_inv B m'"
  by (simp add: exp_inv_def net_of_def core_def)

lemma exp_inv_mono: "exp_inv B m \<Longrightarrow> B \<le> B' \<Longrightarrow> exp_inv B' m"
  by (auto simp: exp_inv_def)

lemma exposure_le:
  assumes "exp_inv B m"
  shows "(\<Sum>k\<in>UNIV. \<bar>net_of m k\<bar>) \<le> 2 * B"
proof -
  have "(\<Sum>k\<in>UNIV. \<bar>net_of m k\<bar>) \<le> (\<Sum>k\<in>UNIV. \<bar>rm_lookup (m_positions m) k\<bar> + \<bar>rm_lookup (m_pending m) k\<bar>)"
    by (rule sum_mono) (simp add: net_of_def)
  also have "\<dots> = hm_sum abs (m_positions m) + hm_sum abs (m_pending m)"
    using assms by (simp add: sum.distrib rm_lookup_abs hm_sum_UNIV exp_inv_def)
  finally show ?thesis using assms by (simp add: exp_inv_def)
qed

lemma adjust_pending_exact:
  assumes "exp_inv B m" "\<bar>delta\<bar> \<le> d" "B + d < 2 ^ 30"
  shows "m_pending (adjust_pending key delta m) = AList.update key (rm_lookup (m_pending m) key + delta) (m_pending m)"
    and "m_total_abs_exposure (adjust_pending key delta m)
      = m_total_abs_exposure m - \<bar>net_of m key\<bar> + \<bar>net_of m key + delta\<bar>"
    and "m_positions (adjust_pending key delta m) = m_positions m"
proof -
  have b: "\<bar>rm_lookup (m_positions m) key\<bar> \<le> B" "\<bar>rm_lookup (m_pending m) key\<bar> \<le> B"
    using assms(1) by (auto simp: exp_inv_def intro: rm_lookup_bound)
  have p: "s32 (rm_lookup (m_pending m) key + delta) = rm_lookup (m_pending m) key + delta"
    using b assms by (intro s32_id) simp_all
  have o: "s32 (rm_lookup (m_positions m) key + rm_lookup (m_pending m) key) = net_of m key"
    using b assms by (simp add: net_of_def s32_id)
  have n: "s32 (rm_lookup (m_positions m) key + (rm_lookup (m_pending m) key + delta)) = net_of m key + delta"
    using b assms by (simp add: net_of_def s32_id)
  have a: "sabs32 (net_of m key) = \<bar>net_of m key\<bar>" "sabs32 (net_of m key + delta) = \<bar>net_of m key + delta\<bar>"
    using b assms by (simp_all add: net_of_def sabs32_small)
  have dl: "0 \<le> d" "0 \<le> B" "d < 2 ^ 30" "B < 2 ^ 30"
    and dd: "- d \<le> \<bar>net_of m key + delta\<bar> - \<bar>net_of m key\<bar>" "\<bar>net_of m key + delta\<bar> - \<bar>net_of m key\<bar> \<le> d"
    using b assms by linarith+
  have d: "s32 (\<bar>net_of m key + delta\<bar> - \<bar>net_of m key\<bar>) = \<bar>net_of m key + delta\<bar> - \<bar>net_of m key\<bar>"
    using dl dd by (intro s32_id) simp_all
  have t: "0 \<le> m_total_abs_exposure m" "m_total_abs_exposure m \<le> 2 * B"
    using assms(1) exposure_le [OF assms(1)] by (simp_all add: exp_inv_def sum_nonneg)
  have "s64 (m_total_abs_exposure m + (\<bar>net_of m key + delta\<bar> - \<bar>net_of m key\<bar>))
      = m_total_abs_exposure m - \<bar>net_of m key\<bar> + \<bar>net_of m key + delta\<bar>"
    using t dl dd by (subst s64_id) simp_all
  then show "m_total_abs_exposure (adjust_pending key delta m)
      = m_total_abs_exposure m - \<bar>net_of m key\<bar> + \<bar>net_of m key + delta\<bar>"
    by (simp add: adjust_pending_def Let_def p o n a d)
  show "m_pending (adjust_pending key delta m) = AList.update key (rm_lookup (m_pending m) key + delta) (m_pending m)"
    "m_positions (adjust_pending key delta m) = m_positions m"
    by (simp_all add: adjust_pending_def Let_def p)
qed

lemma adjust_pending_inv:
  assumes "exp_inv B m" "\<bar>delta\<bar> \<le> d" "B + d < 2 ^ 30"
  shows "exp_inv (B + d) (adjust_pending key delta m)"
proof -
  note E = adjust_pending_exact [OF assms, of key]
  let ?m = "adjust_pending key delta m"
  have n: "net_of ?m k = (if k = key then net_of m key + delta else net_of m k)" for k
    by (simp add: net_of_def E(1,3))
  have "(\<Sum>k\<in>UNIV. \<bar>net_of ?m k\<bar>) = (\<Sum>k\<in>UNIV. \<bar>net_of m k\<bar>) - \<bar>net_of m key\<bar> + \<bar>net_of m key + delta\<bar>"
    using sum_UNIV_upd [of key "\<lambda>k. \<bar>net_of ?m k\<bar>" "\<lambda>k. \<bar>net_of m k\<bar>"] by (simp add: n)
  moreover have "hm_sum abs (m_pending ?m) \<le> B + d"
    unfolding E(1) by (rule rm_update_bound) (use assms in \<open>auto simp: exp_inv_def\<close>)
  moreover have "0 \<le> d" using assms(2) by simp
  ultimately show ?thesis
    using assms(1) by (simp add: exp_inv_def E alist_simps)
qed

lemma update_position_inv:
  assumes "exp_inv B m" "\<bar>q\<bar> \<le> d" "B + d < 2 ^ 30"
  shows "exp_inv (B + d) (update_position sy sd q m)"
    and "net_of (update_position sy sd q m) = net_of m"
    and "rm_lookup (m_positions (update_position sy sd q m)) (sym_to_key sy)
      = rm_lookup (m_positions m) (sym_to_key sy) + rm_signed_qty sd q"
proof -
  let ?k = "sym_to_key sy" and ?q = "rm_signed_qty sd q"
  have b: "\<bar>rm_lookup (m_positions m) ?k\<bar> \<le> B" "\<bar>rm_lookup (m_pending m) ?k\<bar> \<le> B"
    using assms(1) by (auto simp: exp_inv_def intro: rm_lookup_bound)
  have q: "\<bar>?q\<bar> = \<bar>q\<bar>" using assms b by (intro rm_signed_small) simp
  have s: "s32 (rm_lookup (m_positions m) ?k + ?q) = rm_lookup (m_positions m) ?k + ?q"
    "s32 (rm_lookup (m_pending m) ?k - ?q) = rm_lookup (m_pending m) ?k - ?q"
    using b q assms by (auto intro!: s32_id)
  have E: "m_positions (update_position sy sd q m) = AList.update ?k (rm_lookup (m_positions m) ?k + ?q) (m_positions m)"
    "m_pending (update_position sy sd q m) = AList.update ?k (rm_lookup (m_pending m) ?k - ?q) (m_pending m)"
    "m_total_abs_exposure (update_position sy sd q m) = m_total_abs_exposure m"
    by (simp_all add: update_position_def Let_def s)
  show n: "net_of (update_position sy sd q m) = net_of m"
    by (rule ext) (simp add: net_of_def E)
  have "hm_sum abs (m_positions (update_position sy sd q m)) \<le> B + d"
    "hm_sum abs (m_pending (update_position sy sd q m)) \<le> B + d"
    unfolding E by (rule rm_update_bound; use assms q in \<open>simp add: exp_inv_def\<close>)+
  then show "exp_inv (B + d) (update_position sy sd q m)"
    using assms(1) by (simp add: exp_inv_def n) (simp add: E alist_simps)
  show "rm_lookup (m_positions (update_position sy sd q m)) ?k = rm_lookup (m_positions m) ?k + ?q"
    by (simp add: E)
qed

lemma hm_sum_nonneg: "(\<And>v. 0 \<le> f v) \<Longrightarrow> 0 \<le> hm_sum f m"
  by (induction m) (auto intro: add_nonneg_nonneg)

lemma hm_sum_cong: "(\<And>k v. (k, v) \<in> set m \<Longrightarrow> f v = g v) \<Longrightarrow> hm_sum f m = hm_sum g m"
  unfolding hm_sum_def by (rule arg_cong [of _ _ sum_list], rule map_cong) auto

lemma reset_daily_inv:
  assumes "exp_inv B m" "0 \<le> B" "B < 2 ^ 30"
  shows "exp_inv B (reset_daily m)"
proof -
  have b: "\<bar>v\<bar> \<le> B" if "(k, v) \<in> set (m_positions m)" for k v
    using rm_lookup_bound [of "m_positions m" B k] assms(1) map_of_is_SomeI [OF _ that]
    by (simp add: exp_inv_def rm_lookup_def)
  have "hm_sum sabs32 (m_positions m) = hm_sum abs (m_positions m)"
    by (rule hm_sum_cong, rule sabs32_small) (use b assms(3) in fastforce)
  moreover have "0 \<le> hm_sum abs (m_positions m)" "hm_sum abs (m_positions m) \<le> B"
    using assms(1) by (auto simp: exp_inv_def intro: hm_sum_nonneg)
  moreover have "hm_sum abs (m_positions m) = (\<Sum>k\<in>UNIV. \<bar>rm_lookup (m_positions m) k\<bar>)"
    using assms(1) by (simp add: hm_sum_UNIV exp_inv_def rm_lookup_abs)
  moreover have "s64 (hm_sum abs (m_positions m)) = hm_sum abs (m_positions m)"
    using calculation(2,3) assms(3) by (intro s64_id) simp_all
  ultimately have t: "acc64 sabs32 (m_positions m) = (\<Sum>k\<in>UNIV. \<bar>rm_lookup (m_positions m) k\<bar>)"
    by (simp only: acc64_eq)
  have c: "core (clear_persisted_state x) = core x" for x by (simp add: clear_persisted_state_def core_def)
  show ?thesis
    unfolding reset_daily_def
    by (subst exp_inv_core [OF c])
      (use assms t in \<open>simp add: exp_inv_def net_of_def rm_lookup_def [of "[]"]\<close>)
qed

lemma exec_core:
  assumes "call_qty x = 0" "x \<noteq> RReset" "\<And>sy sd q. x \<noteq> RSent sy sd q" "\<And>sy sd q. x \<noteq> RCancelled sy sd q"
    "\<And>sy sd q. x \<noteq> RFill sy sd q"
  shows "core (risk_exec x m) = core m"
proof (cases x)
  case (RCheck t0 now t1 sy sd px q)
  show ?thesis unfolding RCheck risk_exec.simps
    by (rule check_order_cases [of sy sd px q m t0 now t1]) simp_all
next
  case (RPnl d)
  then show ?thesis by (simp add: update_pnl_def Let_def) (simp add: core_def)
next
  case RKill
  then show ?thesis by (simp add: activate_kill_switch_def)
next
  case RUnkill
  then show ?thesis by (simp add: deactivate_kill_switch_def) (simp add: core_def)
qed (use assms in \<open>auto simp: core_def update_reference_price_def add_traded_notional_def
      set_symbol_position_limit_def restrict_symbol_def allow_symbol_def clear_restricted_def set_limits_def
      set_persist_path_def load_persisted_state_def clear_persisted_state_def rate_limit_headroom_def Let_def
      split: option.split\<close>)

lemma risk_exec_inv:
  assumes "exp_inv B m" "0 \<le> B" "B + call_qty x < 2 ^ 30"
  shows "exp_inv (B + call_qty x) (risk_exec x m)"
proof -
  consider (sent) sy sd q where "x = RSent sy sd q" | (canc) sy sd q where "x = RCancelled sy sd q"
    | (fill) sy sd q where "x = RFill sy sd q" | (reset) "x = RReset"
    | (other) "call_qty x = 0" "core (risk_exec x m) = core m"
    using exec_core [of x m] by (cases x) auto
  then show ?thesis
  proof cases
    case sent
    then have "\<bar>rm_signed_qty sd q\<bar> = \<bar>q\<bar>" using assms by (intro rm_signed_small) simp
    with sent assms show ?thesis by (simp add: on_order_sent_def adjust_pending_inv)
  next
    case canc
    then have "\<bar>rm_signed_qty sd q\<bar> = \<bar>q\<bar>" using assms by (intro rm_signed_small) simp
    moreover from this have "s32 (- rm_signed_qty sd q) = - rm_signed_qty sd q"
      using canc assms by (intro s32_id) simp_all
    ultimately show ?thesis using canc assms by (simp add: on_order_cancelled_def adjust_pending_inv)
  next
    case fill
    with assms show ?thesis by (simp add: update_position_inv(1))
  next
    case reset
    with assms show ?thesis by (simp add: reset_daily_inv)
  next
    case other
    with assms exp_inv_core [OF other(2), of B] show ?thesis by simp
  qed
qed

lemma risk_init_inv: "exp_inv 0 (risk_init l d ok)"
  by (simp add: exp_inv_def risk_init_def net_of_def rm_lookup_def)

lemma risk_run_inv:
  assumes "exp_inv B m" "0 \<le> B" "B + sum_list (map call_qty xs) < 2 ^ 30"
  shows "exp_inv (B + sum_list (map call_qty xs)) (fold risk_exec xs m)"
  using assms
proof (induction xs arbitrary: B m)
  case (Cons x xs)
  have n: "0 \<le> sum_list (map call_qty xs)" by (rule sum_list_nonneg) auto
  have "exp_inv (B + call_qty x) (risk_exec x m)" by (rule risk_exec_inv) (use Cons.prems n in auto)
  moreover have "0 \<le> B + call_qty x" using Cons.prems(2) by simp
  ultimately show ?case using Cons.IH [of "B + call_qty x" "risk_exec x m"] Cons.prems(3)
    by (simp add: add.assoc)
qed simp

section \<open>Accessors under the invariant\<close>

lemma net_sum:
  assumes "exp_inv B m"
  shows "(\<Sum>k\<in>UNIV. net_of m k) = hm_sum (\<lambda>v. v) (m_positions m) + hm_sum (\<lambda>v. v) (m_pending m)"
  using assms by (simp add: net_of_def sum.distrib rm_lookup_val hm_sum_UNIV exp_inv_def)

lemma net_exposure_eq:
  assumes "exp_inv B m" "B < 2 ^ 30"
  shows "net_exposure m = (\<Sum>k\<in>UNIV. net_of m k)"
proof -
  have f: "fold (\<lambda>(k, v) s. s64 (s + v)) xs (s64 a) = s64 (a + hm_sum (\<lambda>v. v) xs)" for xs :: "(64 word, int) hmap" and a
  proof (induction xs arbitrary: a)
    case (Cons x xs)
    then show ?case by (cases x) (simp add: wrap_simps algebra_simps)
  qed simp
  have "\<bar>\<Sum>k\<in>UNIV. net_of m k\<bar> \<le> (\<Sum>k\<in>UNIV. \<bar>net_of m k\<bar>)" by (rule sum_abs)
  then have b: "\<bar>\<Sum>k\<in>UNIV. net_of m k\<bar> \<le> 2 * B" using exposure_le [OF assms(1)] by (rule order_trans)
  have "net_exposure m = s64 (\<Sum>k\<in>UNIV. net_of m k)"
    by (simp add: net_exposure_def acc64_eq f net_sum [OF assms(1)])
  then show ?thesis using b assms(2) by (simp add: s64_id abs_le_iff)
qed

lemma tdiv_double: "tdiv (2 * x) 2 = x"
  by (cases "0 \<le> x") (auto simp: tdiv_def abs_if sgn_if)

lemma sum_parts:
  fixes f :: "'k :: finite \<Rightarrow> int"
  shows "(\<Sum>k\<in>UNIV. \<bar>f k\<bar>) + (\<Sum>k\<in>UNIV. f k) = 2 * (\<Sum>k\<in>UNIV. max (f k) 0)"
    and "(\<Sum>k\<in>UNIV. \<bar>f k\<bar>) - (\<Sum>k\<in>UNIV. f k) = 2 * (\<Sum>k\<in>UNIV. max (- f k) 0)"
proof -
  have "(\<Sum>k\<in>UNIV. \<bar>f k\<bar> + f k) = (\<Sum>k\<in>UNIV. 2 * max (f k) 0)"
    "(\<Sum>k\<in>UNIV. \<bar>f k\<bar> - f k) = (\<Sum>k\<in>UNIV. 2 * max (- f k) 0)"
    by (rule sum.cong [OF refl], simp add: max_def)+
  then show "(\<Sum>k\<in>UNIV. \<bar>f k\<bar>) + (\<Sum>k\<in>UNIV. f k) = 2 * (\<Sum>k\<in>UNIV. max (f k) 0)"
    "(\<Sum>k\<in>UNIV. \<bar>f k\<bar>) - (\<Sum>k\<in>UNIV. f k) = 2 * (\<Sum>k\<in>UNIV. max (- f k) 0)"
    by (simp_all only: sum.distrib sum_subtractf sum_distrib_left)
qed

lemma split_exposure:
  assumes "exp_inv B m" "B < 2 ^ 30"
  shows "long_exposure m = (\<Sum>k\<in>UNIV. max (net_of m k) 0)" "short_exposure m = (\<Sum>k\<in>UNIV. max (- net_of m k) 0)"
proof -
  let ?g = "\<Sum>k\<in>UNIV. \<bar>net_of m k\<bar>" and ?n = "\<Sum>k\<in>UNIV. net_of m k"
  have g: "get_total_exposure m = ?g" using assms(1) by (simp add: get_total_exposure_def exp_inv_def)
  have "\<bar>?n\<bar> \<le> ?g" by (rule sum_abs)
  then have "- (2 * B) \<le> ?g + ?n" "?g + ?n \<le> 4 * B" "- (2 * B) \<le> ?g - ?n" "?g - ?n \<le> 4 * B"
    using exposure_le [OF assms(1)] by linarith+
  then have "s64 (?g + ?n) = ?g + ?n" "s64 (?g - ?n) = ?g - ?n"
    using assms(2) by (auto intro!: s64_id)
  then show "long_exposure m = (\<Sum>k\<in>UNIV. max (net_of m k) 0)" "short_exposure m = (\<Sum>k\<in>UNIV. max (- net_of m k) 0)"
    unfolding long_exposure_def short_exposure_def g net_exposure_eq [OF assms]
    by (simp_all only: sum_parts tdiv_double)
qed

lemma fold_largest:
  fixes xs :: "('k \<times> int) list"
  shows "b \<le> fold (\<lambda>(k, e) b. if e > b then e else b) xs b"
    and "(k, e) \<in> set xs \<Longrightarrow> e \<le> fold (\<lambda>(k, e) b. if e > b then e else b) xs b"
    and "fold (\<lambda>(k, e) b. if e > b then e else b) xs b \<in> insert b (snd ` set xs)"
proof -
  have le: "b \<le> fold (\<lambda>(k, e) b. if e > b then e else b) xs b" for b and xs :: "('k \<times> int) list"
  proof (induction xs arbitrary: b)
    case (Cons x xs)
    from Cons.IH [of "if snd x > b then snd x else b"] show ?case by (auto simp: case_prod_beta split: if_splits)
  qed simp
  show "b \<le> fold (\<lambda>(k, e) b. if e > b then e else b) xs b" by (rule le)
  show "(k, e) \<in> set xs \<Longrightarrow> e \<le> fold (\<lambda>(k, e) b. if e > b then e else b) xs b"
  proof (induction xs arbitrary: b)
    case (Cons x xs)
    have "(if snd x > b then snd x else b) \<le> fold (\<lambda>(k, e) b. if e > b then e else b) (x # xs) b"
      using le [of "if snd x > b then snd x else b" xs] by (simp add: case_prod_beta)
    with Cons show ?case by (auto split: if_splits)
  qed simp
  show "fold (\<lambda>(k, e) b. if e > b then e else b) xs b \<in> insert b (snd ` set xs)"
  proof (induction xs arbitrary: b)
    case (Cons x xs)
    from Cons.IH [of "if snd x > b then snd x else b"] show ?case by (auto simp: case_prod_beta split: if_splits)
  qed simp
qed

lemma expo_terms_net:
  assumes "exp_inv B m"
  shows "(k, e) \<in> set (expo_terms m) \<Longrightarrow> e = \<bar>net_of m k\<bar>"
    and "net_of m k \<noteq> 0 \<Longrightarrow> (k, \<bar>net_of m k\<bar>) \<in> set (expo_terms m)"
proof -
  have wf: "hm_wf (m_positions m)" "hm_wf (m_pending m)" using assms by (simp_all add: exp_inv_def)
  show "e = \<bar>net_of m k\<bar>" if "(k, e) \<in> set (expo_terms m)"
    using that map_of_is_SomeI [OF wf(1)] map_of_is_SomeI [OF wf(2)]
    by (auto simp: expo_terms_def net_of_def rm_lookup_def)
  show "(k, \<bar>net_of m k\<bar>) \<in> set (expo_terms m)" if n: "net_of m k \<noteq> 0"
  proof (cases "map_of (m_positions m) k")
    case (Some v)
    then show ?thesis using map_of_SomeD [OF Some] by (force simp: expo_terms_def net_of_def rm_lookup_def [of "m_positions m"])
  next
    case None
    with n obtain v where v: "map_of (m_pending m) k = Some v"
      by (auto simp: net_of_def rm_lookup_def split: option.splits)
    then show ?thesis using None map_of_SomeD [OF v] by (force simp: expo_terms_def net_of_def rm_lookup_def)
  qed
qed

lemma largest_exposure_eq:
  assumes "exp_inv B m"
  shows "\<bar>net_of m k\<bar> \<le> largest_symbol_exposure m" "\<exists>k. largest_symbol_exposure m = \<bar>net_of m k\<bar> \<or> largest_symbol_exposure m = 0"
proof -
  show "\<bar>net_of m k\<bar> \<le> largest_symbol_exposure m"
    using fold_largest(1) [where xs = "expo_terms m" and b = 0] fold_largest(2) [OF expo_terms_net(2) [OF assms, of k]]
    by (cases "net_of m k = 0") (simp_all add: largest_symbol_exposure_def)
  have "largest_symbol_exposure m = 0 \<or> (\<exists>k. (k, largest_symbol_exposure m) \<in> set (expo_terms m))"
    using fold_largest(3) [where xs = "expo_terms m" and b = 0] by (fastforce simp: largest_symbol_exposure_def)
  then show "\<exists>k. largest_symbol_exposure m = \<bar>net_of m k\<bar> \<or> largest_symbol_exposure m = 0"
    using expo_terms_net(1) [OF assms] by blast
qed

section \<open>What an allowed order satisfies\<close>

lemma first_fail [simp]: "(if c then Some w else e) = None \<longleftrightarrow> \<not> c \<and> e = None"
  by simp

lemma static_checks_None:
  "static_checks sy sd px q m = None \<longleftrightarrow>
    \<not> m_kill_switch_active m \<and> sym_to_key sy \<notin> set (m_restricted m)
    \<and> d_to_s64 (dmul px (d_of_int q)) \<le> l_max_order_value (m_limits m)
    \<and> \<not> (max_shares_per_order (m_limits m) > 0 \<and> q > max_shares_per_order (m_limits m))
    \<and> \<not> (dlt (Fin 0) (min_price (m_limits m)) \<and> dlt px (min_price (m_limits m)))
    \<and> \<not> (dlt (Fin 0) (max_price_band_pct (m_limits m))
         \<and> (case map_of (m_ref_price m) (sym_to_key sy) of None \<Rightarrow> False
            | Some rp \<Rightarrow> dlt (Fin 0) rp \<and> dlt (max_price_band_pct (m_limits m)) (price_dev px rp)))
    \<and> \<not> (dlt (Fin 0) (max_daily_traded_notional (m_limits m))
         \<and> dle (max_daily_traded_notional (m_limits m)) (m_traded_notional m))
    \<and> (let net = sym_net (sym_to_key sy) m; projected = s32 (net + rm_signed_qty sd q); cap = sym_long_cap (sym_to_key sy) m
       in \<not> (projected \<ge> 0 \<and> projected > cap) \<and> \<not> (projected < 0 \<and> s32 (- projected) > sym_short_cap cap m)
          \<and> \<not> (dlt (Fin 0) (max_symbol_notional (m_limits m))
               \<and> dlt (max_symbol_notional (m_limits m)) (dmul (d_of_int (sabs32 projected)) px))
          \<and> s64 (s64 (m_total_abs_exposure m - sabs32 net) + sabs32 projected) \<le> max_portfolio_exposure (m_limits m))"
  unfolding static_checks_def Let_def first_fail sym_net_def by (simp only: not_less simp_thms)

lemma check_order_ALLOW:
  assumes "action (snd (check_order t0 now t1 sy sd px q m)) = ALLOW"
  shows "static_checks sy sd px q m = None" "snd (check_pnl_breakers m) = None" "snd (check_rate_limit now m)"
    "core (fst (check_order t0 now t1 sy sd px q m)) = core m"
  using assms by (rule_tac [!] check_order_cases [of sy sd px q m t0 now t1])
    (simp_all add: check_result_def split: if_splits)

lemma on_order_sent_exact:
  assumes "exp_inv B m" "B + \<bar>q\<bar> < 2 ^ 30" "0 \<le> B"
  shows "net_of (on_order_sent sy sd q m) (sym_to_key sy) = net_of m (sym_to_key sy) + rm_signed_qty sd q"
    and "get_total_exposure (on_order_sent sy sd q m) = get_total_exposure m - \<bar>net_of m (sym_to_key sy)\<bar>
      + \<bar>net_of m (sym_to_key sy) + rm_signed_qty sd q\<bar>"
    and "m_positions (on_order_sent sy sd q m) = m_positions m"
proof -
  have "\<bar>rm_signed_qty sd q\<bar> \<le> \<bar>q\<bar>" using assms(2,3) rm_signed_small [of q sd] by simp
  note E = adjust_pending_exact [OF assms(1) this assms(2), of "sym_to_key sy"]
  show "net_of (on_order_sent sy sd q m) (sym_to_key sy) = net_of m (sym_to_key sy) + rm_signed_qty sd q"
    "get_total_exposure (on_order_sent sy sd q m) = get_total_exposure m - \<bar>net_of m (sym_to_key sy)\<bar>
      + \<bar>net_of m (sym_to_key sy) + rm_signed_qty sd q\<bar>"
    "m_positions (on_order_sent sy sd q m) = m_positions m"
    by (simp_all add: on_order_sent_def net_of_def get_total_exposure_def E)
qed

lemma projected_exact:
  assumes "exp_inv B m" "B + \<bar>q\<bar> < 2 ^ 30" "0 \<le> B"
  shows "sym_net k m = net_of m k" "\<bar>net_of m k\<bar> < 2 ^ 31 - \<bar>q\<bar>" "\<bar>rm_signed_qty sd q\<bar> = \<bar>q\<bar>"
    "s32 (net_of m k + rm_signed_qty sd q) = net_of m k + rm_signed_qty sd q"
    "sabs32 (net_of m k) = \<bar>net_of m k\<bar>" "sabs32 (net_of m k + rm_signed_qty sd q) = \<bar>net_of m k + rm_signed_qty sd q\<bar>"
    "0 \<le> m_total_abs_exposure m - \<bar>net_of m k\<bar>" "m_total_abs_exposure m - \<bar>net_of m k\<bar> < 2 ^ 31"
proof -
  have b: "\<bar>rm_lookup (m_positions m) k\<bar> \<le> B" "\<bar>rm_lookup (m_pending m) k\<bar> \<le> B"
    using assms(1) by (auto simp: exp_inv_def intro: rm_lookup_bound)
  show q: "\<bar>rm_signed_qty sd q\<bar> = \<bar>q\<bar>" using assms by (intro rm_signed_small) simp
  show n: "\<bar>net_of m k\<bar> < 2 ^ 31 - \<bar>q\<bar>" using b assms by (simp add: net_of_def)
  show "sym_net k m = net_of m k" using b assms by (simp add: sym_net_def net_of_def s32_id)
  show "s32 (net_of m k + rm_signed_qty sd q) = net_of m k + rm_signed_qty sd q" using n q by (intro s32_id) simp_all
  show "sabs32 (net_of m k) = \<bar>net_of m k\<bar>" "sabs32 (net_of m k + rm_signed_qty sd q) = \<bar>net_of m k + rm_signed_qty sd q\<bar>"
    using n q by (simp_all add: sabs32_small)
  have "\<bar>net_of m k\<bar> \<le> (\<Sum>k\<in>UNIV. \<bar>net_of m k\<bar>)" by (rule member_le_sum) auto
  then show "0 \<le> m_total_abs_exposure m - \<bar>net_of m k\<bar>" using assms(1) by (simp add: exp_inv_def)
  show "m_total_abs_exposure m - \<bar>net_of m k\<bar> < 2 ^ 31"
    using exposure_le [OF assms(1)] assms by (simp add: exp_inv_def)
qed

section \<open>The rate limiter\<close>

interpretation rate: sliding_window "ts_inv RATE_N" "ts_items RATE_N" "RATE_N - 1" "evict RATE_N" "ts_push RATE_N" "ts_count RATE_N"
  by (rule ts_ring_sliding_window) (simp_all add: RATE_N_def pow2_def)

lemma ts_items_bound: "ts_inv RATE_N r \<Longrightarrow> length (ts_items RATE_N r) < RATE_N"
  by (simp add: ts_inv_def ts_items_def ring_len_less)

lemma ts_count_s32: "ts_inv RATE_N r \<Longrightarrow> s32 (int (ts_count RATE_N r)) = int (length (ts_items RATE_N r))"
  using ts_items_bound [of r] rate.number_items [of r] by (simp add: s32_id) (simp add: RATE_N_def s32_id)

text \<open>The stamps of the checks a run allowed, and the clock readings its calls take.\<close>

primrec risk_log :: "risk_call list \<Rightarrow> risk \<Rightarrow> int list" where
  "risk_log [] m = []"
| "risk_log (x # xs) m =
     (case x of RCheck t0 now t1 sy sd px q \<Rightarrow>
        if action (snd (check_order t0 now t1 sy sd px q m)) = ALLOW then [now] else [] | _ \<Rightarrow> [])
     @ risk_log xs (risk_exec x m)"

fun call_clock :: "risk_call \<Rightarrow> int list" where
  "call_clock (RCheck t0 now t1 sy sd px q) = [now]"
| "call_clock (RHeadroom now) = [now]"
| "call_clock _ = []"

fun keeps_window :: "risk_call \<Rightarrow> bool" where
  "keeps_window RReset = False"
| "keeps_window (RSetLimits l) = False"
| "keeps_window _ = True"

lemma exec_ring:
  assumes "keeps_window x" "call_clock x = []"
  shows "m_rate_ring (risk_exec x m) = m_rate_ring m"
  using assms
  by (cases x) (auto simp: on_order_sent_def on_order_cancelled_def adjust_pending_def update_position_def
      update_pnl_def update_reference_price_def add_traded_notional_def set_symbol_position_limit_def
      restrict_symbol_def allow_symbol_def clear_restricted_def set_persist_path_def load_persisted_state_def
      clear_persisted_state_def activate_kill_switch_def deactivate_kill_switch_def Let_def split: option.split)

lemma exec_limits:
  assumes "keeps_window x"
  shows "m_limits (risk_exec x m) = m_limits m"
proof (cases x)
  case (RCheck t0 now t1 sy sd px q)
  show ?thesis unfolding RCheck risk_exec.simps
    by (rule check_order_cases [of sy sd px q m t0 now t1]) simp_all
qed (use assms in \<open>auto simp: on_order_sent_def on_order_cancelled_def adjust_pending_def update_position_def
      update_pnl_def update_reference_price_def add_traded_notional_def set_symbol_position_limit_def
      restrict_symbol_def allow_symbol_def clear_restricted_def set_persist_path_def load_persisted_state_def
      clear_persisted_state_def activate_kill_switch_def deactivate_kill_switch_def rate_limit_headroom_def
      Let_def split: option.split\<close>)

abbreviation rate_ok :: "nat \<Rightarrow> risk \<Rightarrow> int list \<Rightarrow> int \<Rightarrow> bool" where
  "rate_ok L m hs now \<equiv> rate.tracks 1000000000 L (m_rate_ring m) hs now"

lemma check_rate_tracks:
  assumes "rate_ok L m hs prev" "prev \<le> now" "0 \<le> now" "now < 2 ^ 63"
    "max_orders_per_second (m_limits m) = int L" "L \<le> RATE_N - 1"
  shows "rate_ok L (fst (check_rate_limit now m)) (hs @ (if snd (check_rate_limit now m) then [now] else [])) now"
proof -
  let ?r = "evict RATE_N (now - 1000000000) (m_rate_ring m)"
  have w: "s64 (now - 1000000000) = now - 1000000000" using assms(3,4) by (simp add: s64_id)
  note E = rate.tracks_evict [OF assms(1,2)]
  have inv: "ts_inv RATE_N ?r" using E by (simp add: rate.tracks_def)
  have c: "s32 (int (ts_count RATE_N ?r)) = int (ts_count RATE_N ?r)"
    using ts_count_s32 [OF inv] rate.number_items [OF inv] by simp
  show ?thesis
  proof (cases "ts_count RATE_N ?r < L")
    case True
    have "rate_ok L (m\<lparr>m_rate_ring := ts_push RATE_N now ?r\<rparr>) (hs @ [now]) now"
      using rate.tracks_insert [OF assms(1,2) True assms(6)] by simp
    then show ?thesis using True by (simp add: check_rate_limit_def Let_def w c assms(5))
  next
    case False
    then show ?thesis using E by (simp add: check_rate_limit_def Let_def w c assms(5))
  qed
qed

lemma exec_tracks:
  assumes "rate_ok L m hs prev" "keeps_window x" "\<forall>t \<in> set (call_clock x). prev \<le> t \<and> 0 \<le> t \<and> t < 2 ^ 63"
    "max_orders_per_second (m_limits m) = int L" "L \<le> RATE_N - 1" "\<forall>t \<in> set (call_clock x). t \<le> t'" "prev \<le> t'"
  shows "rate_ok L (risk_exec x m) (hs @ (case x of RCheck t0 now t1 sy sd px q \<Rightarrow>
        if action (snd (check_order t0 now t1 sy sd px q m)) = ALLOW then [now] else [] | _ \<Rightarrow> [])) t'"
proof (cases "\<exists>t0 now t1 sy sd px q. x = RCheck t0 now t1 sy sd px q")
  case True
  then obtain t0 now t1 sy sd px q where x: "x = RCheck t0 now t1 sy sd px q" by blast
  have now: "prev \<le> now" "0 \<le> now" "now < 2 ^ 63" "now \<le> t'" using assms(3,6) by (simp_all add: x)
  note C = rate.tracks_later [OF check_rate_tracks [OF assms(1) now(1,2,3) assms(4,5)] now(4)]
  show ?thesis
  proof (rule check_order_cases [of sy sd px q m t0 now t1], goal_cases)
    case 1
    then show ?case using rate.tracks_later [OF assms(1,7)] by (simp add: x check_result_def)
  next
    case 2
    then show ?case using rate.tracks_later [OF assms(1,7)] by (simp add: x check_result_def)
  next
    case (3 ok m1)
    then show ?case using C by (cases ok) (simp_all add: x check_result_def)
  qed
next
  case False
  show ?thesis
  proof (cases "\<exists>now. x = RHeadroom now")
    case True
    then obtain now where x: "x = RHeadroom now" by blast
    have now: "prev \<le> now" "0 \<le> now" "now < 2 ^ 63" "now \<le> t'" using assms(3,6) by (simp_all add: x)
    have "s64 (now - 1000000000) = now - 1000000000" using now by (simp add: s64_id)
    then show ?thesis
      using rate.tracks_later [OF rate.tracks_evict [OF assms(1) now(1)] now(4)] rate.tracks_later [OF assms(1,7)]
      by (simp add: x rate_limit_headroom_def Let_def)
  next
    case no: False
    have "call_clock x = []" using False no by (cases x) auto
    then show ?thesis
      using exec_ring [OF assms(2), of m] rate.tracks_later [OF assms(1,7)] False by (cases x) auto
  qed
qed

lemma check_rate_room:
  assumes "ts_inv RATE_N (m_rate_ring m)" "int (length (ts_items RATE_N (m_rate_ring m))) < max_orders_per_second (m_limits m)"
  shows "snd (check_rate_limit now m)" "ts_inv RATE_N (m_rate_ring (fst (check_rate_limit now m)))"
    "length (ts_items RATE_N (m_rate_ring (fst (check_rate_limit now m)))) \<le> Suc (length (ts_items RATE_N (m_rate_ring m)))"
proof -
  let ?r = "evict RATE_N (s64 (now - 1000000000)) (m_rate_ring m)"
  have inv: "ts_inv RATE_N ?r" by (rule rate.winv_drop [OF assms(1)])
  have n: "length (ts_items RATE_N ?r) \<le> length (ts_items RATE_N (m_rate_ring m))"
    by (simp add: rate.items_drop [OF assms(1)] length_dropWhile_le)
  have c: "s32 (int (ts_count RATE_N ?r)) < max_orders_per_second (m_limits m)"
    using ts_count_s32 [OF inv] n assms(2) by simp
  show "snd (check_rate_limit now m)" "ts_inv RATE_N (m_rate_ring (fst (check_rate_limit now m)))"
    using c rate.winv_insert [OF inv] by (simp_all add: check_rate_limit_def Let_def)
  have "length (ts_items RATE_N (ts_push RATE_N now ?r)) \<le> Suc (length (ts_items RATE_N ?r))"
    using ts_push_items(2) [OF inv, of now] by (simp add: RATE_N_def)
  with n c show "length (ts_items RATE_N (m_rate_ring (fst (check_rate_limit now m)))) \<le> Suc (length (ts_items RATE_N (m_rate_ring m)))"
    by (simp add: check_rate_limit_def Let_def)
qed

lemma init_ring: "m_rate_ring (risk_init l d ok) = ts_init RATE_N" "ts_inv RATE_N (ts_init RATE_N)" "ts_items RATE_N (ts_init RATE_N) = []"
  using ts_init_inv [of RATE_N] by (simp_all add: risk_init_def RATE_N_def pow2_def)

text \<open>An order that passes the other checks is allowed when the ring has room.\<close>

lemma allow_when_room:
  assumes "static_checks sy sd px q m = None" "snd (check_pnl_breakers m) = None"
    "ts_inv RATE_N (m_rate_ring m)" "int (length (ts_items RATE_N (m_rate_ring m))) < max_orders_per_second (m_limits m)"
  shows "action (snd (check_order t0 now t1 sy sd px q m)) = ALLOW"
    "m_rate_ring (fst (check_order t0 now t1 sy sd px q m)) = m_rate_ring (fst (check_rate_limit now m))"
  using check_rate_room(1) [OF assms(3,4), of now] assms(1,2)
  by (rule_tac [!] check_order_cases [of sy sd px q m t0 now t1]) (simp_all add: check_result_def)

lemma fresh_allow:
  assumes "static_checks sy sd px q (risk_init l d ok) = None" "snd (check_pnl_breakers (risk_init l d ok)) = None"
    "0 < max_orders_per_second l"
  shows "action (snd (check_order t0 now t1 sy sd px q (risk_init l d ok))) = ALLOW"
  using allow_when_room(1) [OF assms(1,2)] assms(3) by (simp add: init_ring) (simp add: risk_init_def)

text \<open>An allowed check changes the counters and the ring only, which the other checks do not read.\<close>

definition touch :: "int \<Rightarrow> ts_ring \<Rightarrow> int \<Rightarrow> risk \<Rightarrow> risk" where
  "touch c r lat m = m\<lparr>m_total_checks := c, m_rate_ring := r, m_total_latency_ns := lat\<rparr>"

lemma static_checks_touch [simp]: "static_checks sy sd px q (touch c r lat m) = static_checks sy sd px q m"
  by (cases m, hypsubst, unfold touch_def static_checks_def sym_long_cap_def sym_short_cap_def risk.select_convs risk.update_convs, rule refl)

lemma touch_frame [simp]:
  "on_order_sent sy sd q (touch c r lat m) = touch c r lat (on_order_sent sy sd q m)"
  "on_order_cancelled sy sd q (touch c r lat m) = touch c r lat (on_order_cancelled sy sd q m)"
  "snd (check_pnl_breakers (touch c r lat m)) = snd (check_pnl_breakers m)"
  "net_of (touch c r lat m) = net_of m" "m_rate_ring (touch c r lat m) = r" "m_limits (touch c r lat m) = m_limits m"
  "sym_long_cap k (touch c r lat m) = sym_long_cap k m"
  by (simp_all add: touch_def on_order_sent_def on_order_cancelled_def adjust_pending_def check_pnl_breakers_def
      net_of_def sym_long_cap_def Let_def fun_eq_iff split: option.split)

lemma check_order_allow_touch:
  assumes "action (snd (check_order t0 now t1 sy sd px q m)) = ALLOW"
  obtains c lat where "fst (check_order t0 now t1 sy sd px q m) = touch c (m_rate_ring (fst (check_rate_limit now m))) lat m"
proof -
  note A = check_order_ALLOW [OF assms]
  let ?m = "touch (u64 (m_total_checks m + 1)) (m_rate_ring m) (m_total_latency_ns m) m"
  have m: "m\<lparr>m_total_checks := u64 (m_total_checks m + 1)\<rparr> = ?m" by (simp add: touch_def)
  have b: "check_pnl_breakers ?m = (?m, None)"
    using A(2) by (auto simp: touch_def check_pnl_breakers_def Let_def split: if_splits)
  have r: "check_rate_limit now ?m = (?m\<lparr>m_rate_ring := m_rate_ring (fst (check_rate_limit now m))\<rparr>, True)"
    using A(3) by (auto simp: touch_def check_rate_limit_def Let_def split: if_splits)
  show thesis
    by (rule that) (simp add: check_order_def m Let_def A(1) b r, simp add: touch_def)
qed

section \<open>The latched kill switch\<close>

fun keeps_kill :: "risk_call \<Rightarrow> bool" where
  "keeps_kill RUnkill = False"
| "keeps_kill RReset = False"
| "keeps_kill RLoad = False"
| "keeps_kill (RSetPath p) = False"
| "keeps_kill RClearFile = False"
| "keeps_kill _ = True"

text \<open>The switch is on, in memory and in the file.\<close>

definition latched :: "string \<Rightarrow> risk \<Rightarrow> bool" where
  "latched p m \<longleftrightarrow> m_kill_switch_active m \<and> m_persist_path m = p \<and> m_disk_ok m
     \<and> (\<exists>v. map_of (m_disk m) p = Some (1, v))"

lemma latch_latched:
  assumes "p \<noteq> []" "m_persist_path m = p" "m_disk_ok m"
  shows "latched p (latch_kill_switch r m)"
  using assms by (simp add: latched_def) (simp add: latch_kill_switch_def persist_state_def Let_def alist_simps)

lemma latched_upd: "latched p m \<Longrightarrow> m_kill_switch_active m' = m_kill_switch_active m \<Longrightarrow> m_persist_path m' = m_persist_path m
    \<Longrightarrow> m_disk_ok m' = m_disk_ok m \<Longrightarrow> m_disk m' = m_disk m \<Longrightarrow> latched p m'"
  by (simp add: latched_def)

lemma check_order_killed:
  assumes "m_kill_switch_active m"
  shows "snd (check_order t0 now t1 sy sd px q m) = check_result REJECT ''Kill switch active'' (s64 (t1 - t0))"
    "latched p m \<Longrightarrow> latched p (fst (check_order t0 now t1 sy sd px q m))"
proof -
  have s: "static_checks sy sd px q m = Some ''Kill switch active''" using assms by (simp add: static_checks_def Let_def)
  show "snd (check_order t0 now t1 sy sd px q m) = check_result REJECT ''Kill switch active'' (s64 (t1 - t0))"
    by (rule check_order_cases [of sy sd px q m t0 now t1]) (simp_all add: s)
  show "latched p m \<Longrightarrow> latched p (fst (check_order t0 now t1 sy sd px q m))"
    by (rule check_order_cases [of sy sd px q m t0 now t1]) (simp_all add: s latched_def)
qed

lemma exec_latched:
  assumes "latched p m" "p \<noteq> []" "keeps_kill x"
  shows "latched p (risk_exec x m)"
proof (cases x)
  case (RCheck t0 now t1 sy sd px q)
  have "m_kill_switch_active m" using assms(1) by (simp add: latched_def)
  from check_order_killed(2) [OF this assms(1)] show ?thesis by (simp add: RCheck)
next
  case (RPnl d)
  let ?m = "m\<lparr>m_pnl := pnl_streak d (pnl_underwater (pnl_common d (m_pnl m)))\<rparr>"
  have "latched p ?m" using assms(1) by (simp add: latched_def)
  moreover from this have "latched p (latch_kill_switch CONSECUTIVE_LOSSES ?m)"
    using assms(2) by (intro latch_latched) (simp_all add: latched_def)
  ultimately show ?thesis unfolding RPnl risk_exec.simps update_pnl_def Let_def by (simp split: if_split)
next
  case RKill
  then show ?thesis using assms latch_latched [of p m MANUAL] by (simp add: activate_kill_switch_def latched_def)
qed (use assms in \<open>auto intro!: latched_upd [OF assms(1)] simp: on_order_sent_def on_order_cancelled_def adjust_pending_def
      update_position_def update_reference_price_def add_traded_notional_def set_symbol_position_limit_def
      restrict_symbol_def allow_symbol_def clear_restricted_def set_limits_def rate_limit_headroom_def Let_def\<close>)

lemma run_latched:
  "latched p m \<Longrightarrow> p \<noteq> [] \<Longrightarrow> \<forall>x \<in> set xs. keeps_kill x \<Longrightarrow> latched p (fold risk_exec xs m)"
  by (induction xs arbitrary: m) (auto intro: exec_latched)

section \<open>Properties\<close>

text \<open>
  C12. The denormalised exposure is exact.  After any sequence of calls on a fresh risk manager
  that moves less than \<open>2^30\<close> shares, the O(1) total is the sum of |position + pending| over all
  symbols, the long and short legs are the sums of the positive and negative parts, net exposure is
  their difference, and the largest symbol exposure is that of a symbol, no symbol has a larger one, and it is bounded by the total.
\<close>

theorem risk_exposure_exact:
  fixes l :: RiskLimits and d :: disk and ok :: bool
  assumes "sum_list (map call_qty xs) < 2 ^ 30"
  defines "m \<equiv> fold risk_exec xs (risk_init l d ok)"
  shows "get_total_exposure m = (\<Sum>k\<in>UNIV. \<bar>net_of m k\<bar>)
    \<and> long_exposure m = (\<Sum>k\<in>UNIV. max (net_of m k) 0)
    \<and> short_exposure m = (\<Sum>k\<in>UNIV. max (- net_of m k) 0)
    \<and> net_exposure m = long_exposure m - short_exposure m
    \<and> (\<forall>k. \<bar>net_of m k\<bar> \<le> largest_symbol_exposure m) \<and> (\<exists>k. largest_symbol_exposure m = \<bar>net_of m k\<bar>)
    \<and> largest_symbol_exposure m \<le> get_total_exposure m"
proof -
  have inv: "exp_inv (sum_list (map call_qty xs)) m"
    using risk_run_inv [OF risk_init_inv, of xs l d ok] assms(1) by (simp add: m_def)
  note S = split_exposure [OF inv assms(1)] and L = largest_exposure_eq [OF inv]
  have g: "get_total_exposure m = (\<Sum>k\<in>UNIV. \<bar>net_of m k\<bar>)" using inv by (simp add: get_total_exposure_def exp_inv_def)
  have "2 * net_exposure m = 2 * (long_exposure m - short_exposure m)"
    using sum_parts [of "net_of m"] unfolding S net_exposure_eq [OF inv assms(1)] by simp
  moreover have "\<bar>net_of m k\<bar> \<le> get_total_exposure m" for k
    unfolding g by (rule member_le_sum) auto
  then have "largest_symbol_exposure m \<le> get_total_exposure m"
    using L(2) by (auto simp: g sum_nonneg)
  moreover have "\<exists>k. largest_symbol_exposure m = \<bar>net_of m k\<bar>"
    using L(2) L(1) abs_ge_zero by (metis order_antisym)
  ultimately show ?thesis using S L(1) g by simp
qed

theorem risk_exposure_exact_witness:
  "get_total_exposure (fold risk_exec [RSent [65] BUY 300, RFill [65] BUY 100, RSent [66] SELL 50] (risk_init default_limits [] True))
   = (\<Sum>k\<in>UNIV. \<bar>net_of (fold risk_exec [RSent [65] BUY 300, RFill [65] BUY 100, RSent [66] SELL 50] (risk_init default_limits [] True)) k\<bar>)"
  by (rule conjunct1 [OF risk_exposure_exact]) simp

text \<open>
  C13. What an allowed order satisfies.  When \<open>check_order\<close> allows an order and it is then reserved
  with \<open>on_order_sent\<close>, the kill switch is off, the symbol is not restricted, the order is within the limits
  on its notional, its shares, its price and its distance from the reference price, the symbol's net quantity
  is within its long or short cap and its notional limit, the portfolio exposure is within its cap, the day's
  traded notional has not reached its limit, neither the day's loss nor the drawdown from the day's peak is
  beyond its limit, and neither of the two what-if predicates fires.  Limits of zero that the code reads as
  "no limit" are none.  Positions and the order are small enough for 32-bit sums.  (The rate limit is shown of
  whole runs below.)
\<close>

theorem risk_allow_sound:
  fixes t0 now t1 :: int
  assumes "exp_inv B m" "0 \<le> B" "B + \<bar>q\<bar> < 2 ^ 30"
    and "action (snd (check_order t0 now t1 sy sd px q m)) = ALLOW"
  defines "m' \<equiv> on_order_sent sy sd q (fst (check_order t0 now t1 sy sd px q m))" and "l \<equiv> m_limits m"
  shows "\<not> m_kill_switch_active m \<and> \<not> is_restricted sy m
    \<and> d_to_s64 (dmul px (d_of_int q)) \<le> l_max_order_value l
    \<and> \<not> (0 < max_shares_per_order l \<and> max_shares_per_order l < q)
    \<and> \<not> (dlt (Fin 0) (min_price l) \<and> dlt px (min_price l))
    \<and> (\<forall>rp. map_of (m_ref_price m) (sym_to_key sy) = Some rp \<and> dlt (Fin 0) rp
         \<longrightarrow> \<not> (dlt (Fin 0) (max_price_band_pct l) \<and> dlt (max_price_band_pct l) (price_dev px rp)))
    \<and> net_of m' (sym_to_key sy) \<le> max (sym_long_cap (sym_to_key sy) m) 0
    \<and> - net_of m' (sym_to_key sy) \<le> max (sym_short_cap (sym_long_cap (sym_to_key sy) m) m) 0
    \<and> \<not> (dlt (Fin 0) (max_symbol_notional l) \<and> dlt (max_symbol_notional l) (dmul (d_of_int \<bar>net_of m' (sym_to_key sy)\<bar>) px))
    \<and> get_total_exposure m' \<le> max_portfolio_exposure l
    \<and> \<not> (dlt (Fin 0) (max_daily_traded_notional l) \<and> dle (max_daily_traded_notional l) (m_traded_notional m))
    \<and> \<not> dlt (m_daily_pnl (m_pnl m)) (dneg (d_of_int (max_daily_loss l)))
    \<and> \<not> (dlt (Fin 0) (m_peak_pnl (m_pnl m)) \<and> dlt (max_drawdown_pct l)
           (dmul (ddiv (dsub (m_peak_pnl (m_pnl m)) (m_daily_pnl (m_pnl m))) (m_peak_pnl (m_pnl m))) (Fin 100)))
    \<and> \<not> would_breach_position sy sd q m \<and> \<not> would_breach_exposure sy sd q m"
proof -
  let ?k = "sym_to_key sy" and ?m1 = "fst (check_order t0 now t1 sy sd px q m)"
  note A = check_order_ALLOW [OF assms(4)] and P = projected_exact [OF assms(1,3,2)]
  have inv1: "exp_inv B ?m1" using exp_inv_core [OF A(4)] assms(1) by simp
  have core1: "net_of ?m1 = net_of m" "get_total_exposure ?m1 = get_total_exposure m"
    using A(4) by (auto simp: core_def net_of_def get_total_exposure_def)
  note S = on_order_sent_exact [OF inv1 assms(3,2), of sy sd, folded m'_def, unfolded core1]
  note C = A(1) [unfolded static_checks_None Let_def P(1) P(4) P(5) P(6)]
  have pos: "net_of m ?k + rm_signed_qty sd q \<ge> 0 \<longrightarrow> net_of m ?k + rm_signed_qty sd q \<le> sym_long_cap ?k m"
    "net_of m ?k + rm_signed_qty sd q < 0 \<longrightarrow> s32 (- (net_of m ?k + rm_signed_qty sd q)) \<le> sym_short_cap (sym_long_cap ?k m) m"
    using C by (blast intro: leI)+
  have neg: "s32 (- (net_of m ?k + rm_signed_qty sd q)) = - (net_of m ?k + rm_signed_qty sd q)"
    using P(2) [of ?k] P(3) [of sd] by (intro s32_id) simp_all
  have tot: "s64 (s64 (m_total_abs_exposure m - \<bar>net_of m ?k\<bar>) + \<bar>net_of m ?k + rm_signed_qty sd q\<bar>)
      = m_total_abs_exposure m - \<bar>net_of m ?k\<bar> + \<bar>net_of m ?k + rm_signed_qty sd q\<bar>"
    using P(2,7,8) [of ?k] P(3) [of sd] by (simp add: wrap_simps s64_id)
  have br: "\<not> dlt (m_daily_pnl (m_pnl m)) (dneg (d_of_int (max_daily_loss l)))"
    "\<not> (dlt (Fin 0) (m_peak_pnl (m_pnl m)) \<and> dlt (max_drawdown_pct l)
           (dmul (ddiv (dsub (m_peak_pnl (m_pnl m)) (m_daily_pnl (m_pnl m))) (m_peak_pnl (m_pnl m))) (Fin 100)))"
    using A(2) by (auto simp: check_pnl_breakers_def Let_def l_def split: if_splits)
  have e1: "net_of m' ?k \<le> max (sym_long_cap ?k m) 0" "- net_of m' ?k \<le> max (sym_short_cap (sym_long_cap ?k m) m) 0"
    using pos unfolding neg S(1) by linarith+
  have ex: "m_total_abs_exposure m - \<bar>net_of m ?k\<bar> + \<bar>net_of m ?k + rm_signed_qty sd q\<bar> \<le> max_portfolio_exposure (m_limits m)"
    using C unfolding tot by blast
  then have e2: "get_total_exposure m' \<le> max_portfolio_exposure (m_limits m)"
    unfolding S(2) by (simp add: get_total_exposure_def)
  have w: "\<not> would_breach_position sy sd q m" "\<not> would_breach_exposure sy sd q m"
    unfolding would_breach_position_def would_breach_exposure_def Let_def P(1) P(4) P(5) P(6) tot
    using pos ex by (auto simp: not_less)
  have o: "\<not> m_kill_switch_active m" "\<not> is_restricted sy m" "d_to_s64 (dmul px (d_of_int q)) \<le> l_max_order_value l"
    "\<not> (0 < max_shares_per_order l \<and> max_shares_per_order l < q)" "\<not> (dlt (Fin 0) (min_price l) \<and> dlt px (min_price l))"
    "\<not> (dlt (Fin 0) (max_daily_traded_notional l) \<and> dle (max_daily_traded_notional l) (m_traded_notional m))"
    "\<not> (dlt (Fin 0) (max_symbol_notional l) \<and> dlt (max_symbol_notional l) (dmul (d_of_int \<bar>net_of m' ?k\<bar>) px))"
    unfolding is_restricted_def l_def S(1) using C by blast+
  have band: "\<forall>rp. map_of (m_ref_price m) ?k = Some rp \<and> dlt (Fin 0) rp
      \<longrightarrow> \<not> (dlt (Fin 0) (max_price_band_pct l) \<and> dlt (max_price_band_pct l) (price_dev px rp))"
    unfolding l_def using C by (auto split: option.splits)
  show ?thesis using o band br e1 e2 [folded l_def] w by (intro conjI)
qed

theorem risk_allow_sound_witness:
  "net_of (on_order_sent [65] BUY 5000 (fst (check_order 0 1 2 [65] BUY (Fin 10) 5000 (risk_init default_limits [] True)))) 65 \<le> 5000"
proof -
  have "sym_to_key [65] = 65" by code_simp
  moreover have "action (snd (check_order 0 1 2 [65] BUY (Fin 10) 5000 (risk_init default_limits [] True))) = ALLOW"
    by (rule fresh_allow) code_simp+
  ultimately show ?thesis
    using risk_allow_sound [OF risk_init_inv, of 5000 0 1 2 "[65]" BUY "Fin 10" default_limits "[]" True]
    by (simp add: sym_long_cap_def risk_init_def default_limits_def)
qed

text \<open>
  The rate limit holds in every window.  In a run without \<open>reset_daily\<close> and \<open>set_limits\<close>, with
  clock readings that do not go back, any window of one second, wherever it starts, contains at most
  \<open>max_orders_per_second\<close> allowed orders, for limits up to the ring's 4095 entries.
\<close>

theorem risk_rate_window:
  assumes "\<forall>x \<in> set xs. keeps_window x" "sorted (concat (map call_clock xs))"
    and "\<forall>t \<in> set (concat (map call_clock xs)). 0 \<le> t \<and> t < 2 ^ 63"
    and "max_orders_per_second l = int L" "L \<le> 4095"
  shows "length (filter (\<lambda>t. u - 1000000000 < t \<and> t \<le> u) (risk_log xs (risk_init l d ok))) \<le> L"
proof -
  have run: "length (filter (\<lambda>t. u - 1000000000 < t \<and> t \<le> u) (hs @ risk_log xs m)) \<le> L"
    if "rate_ok L m hs prev" "\<forall>t \<in> set (concat (map call_clock xs)). prev \<le> t" "max_orders_per_second (m_limits m) = int L"
    for m hs prev
    using assms(1,2,3) that
  proof (induction xs arbitrary: m hs prev)
    case Nil
    then show ?case using rate.tracks_bound by simp
  next
    case (Cons x xs)
    define t' where "t' = (if call_clock x = [] then prev else hd (call_clock x))"
    have one: "call_clock x = [] \<or> call_clock x = [t']" by (cases x) (auto simp: t'_def)
    have t: "\<forall>t \<in> set (call_clock x). t \<le> t'" "prev \<le> t'" using one Cons.prems(5) by auto (auto simp: t'_def)
    let ?a = "case x of RCheck t0 now t1 sy sd px q \<Rightarrow>
        if action (snd (check_order t0 now t1 sy sd px q m)) = ALLOW then [now] else [] | _ \<Rightarrow> []"
    have "rate_ok L (risk_exec x m) (hs @ ?a) t'"
      using Cons.prems one assms(5) by (intro exec_tracks [OF Cons.prems(4) _ _ _ _ t]) (auto simp: RATE_N_def)
    moreover have "\<forall>t \<in> set (concat (map call_clock xs)). t' \<le> t"
      using one
    proof
      assume "call_clock x = []"
      then show ?thesis using Cons.prems(5) by (simp add: t'_def)
    next
      assume "call_clock x = [t']"
      then show ?thesis using Cons.prems(2) by (simp add: sorted_append)
    qed
    moreover have "max_orders_per_second (m_limits (risk_exec x m)) = int L"
      using exec_limits Cons.prems by simp
    moreover have "sorted (concat (map call_clock xs))" using Cons.prems(2) by (simp add: sorted_append)
    ultimately have "length (filter (\<lambda>t. u - 1000000000 < t \<and> t \<le> u) ((hs @ ?a) @ risk_log xs (risk_exec x m))) \<le> L"
      using Cons.prems(1,3) by (intro Cons.IH) auto
    then show ?case by (simp only: risk_log.simps append_assoc)
  qed
  have st: "ts_inv RATE_N (ts_init RATE_N)" "ts_items RATE_N (ts_init RATE_N) = []"
    using ts_init_inv [of RATE_N] by (simp_all add: RATE_N_def pow2_def)
  have "rate_ok L (risk_init l d ok) [] 0"
    using rate.tracks_start [OF st] by (simp add: risk_init_def)
  from run [OF this] show ?thesis using assms(3,4) by (simp add: risk_init_def)
qed

theorem risk_rate_window_witness:
  "length (filter (\<lambda>t. 5 - 1000000000 < t \<and> t \<le> 5)
     (risk_log [RCheck 1 1 1 [65] BUY (Fin 10) 5, RHeadroom 2, RCheck 3 3 3 [65] BUY (Fin 10) 5]
       (risk_init (default_limits\<lparr>max_orders_per_second := 1\<rparr>) [] True))) \<le> 1"
  by (rule risk_rate_window) simp_all

text \<open>
  C14. A tripped breaker cannot be bypassed.  When a check finds a P\&L breaker violated, the order is
  rejected and, whatever calls follow other than the explicit resets, every later order is rejected,
  in this process and, when a state file is configured, in a process started afresh that loads it.
  (The new process does not know why: its reason is \<open>NONE\<close>.)
\<close>

theorem risk_breaker_survives_restart:
  fixes t0 now t1 t0' now' t1' :: int and l :: RiskLimits
  assumes "static_checks sy sd px q m = None" "snd (check_pnl_breakers m) = Some why"
    and "m_persist_path m = p" "p \<noteq> []" "m_disk_ok m" "\<forall>x \<in> set xs. keeps_kill x"
  defines "m1 \<equiv> fold risk_exec xs (fst (check_order t0 now t1 sy sd px q m))"
  defines "m2 \<equiv> fst (load_persisted_state (set_persist_path (Some p) (risk_init l (m_disk m1) True)))"
  shows "action (snd (check_order t0 now t1 sy sd px q m)) = REJECT
    \<and> (\<forall>m' \<in> {m1, m2}. action (snd (check_order t0' now' t1' sy' sd' px' q' m')) = REJECT)
    \<and> get_kill_reason m2 = K_NONE"
proof -
  let ?m = "fst (check_order t0 now t1 sy sd px q m)"
  have "action (snd (check_order t0 now t1 sy sd px q m)) = REJECT \<and> latched p ?m"
  proof (rule check_order_cases [of sy sd px q m t0 now t1], goal_cases)
    case (2 r why m1)
    have "latched p (latch_kill_switch r m)" using assms(3,4,5) by (intro latch_latched) simp_all
    with 2 show ?case using assms(3,5) by (simp add: check_result_def latched_def)
  qed (use assms(1,2) in simp_all)
  then have r: "action (snd (check_order t0 now t1 sy sd px q m)) = REJECT" and l: "latched p m1"
    using run_latched [OF _ assms(4,6)] by (auto simp: m1_def)
  then obtain v where "map_of (m_disk m1) p = Some (1, v)" by (auto simp: latched_def)
  then have "m_kill_switch_active m2" "get_kill_reason m2 = K_NONE"
    using assms(4) by (simp_all add: m2_def load_persisted_state_def set_persist_path_def risk_init_def get_kill_reason_def)
  moreover have "m_kill_switch_active m1" using l by (simp add: latched_def)
  ultimately show ?thesis using r check_order_killed(1) by (simp add: check_result_def)
qed

theorem risk_breaker_survives_restart_witness:
  "action (snd (check_order 0 1 2 [65] BUY (Fin 10) 5
     (update_pnl (Fin (- 200000)) (set_persist_path (Some ''f'') (risk_init default_limits [] True))))) = REJECT"
proof -
  let ?m = "update_pnl (Fin (- 200000)) (set_persist_path (Some ''f'') (risk_init default_limits [] True))"
  have s: "static_checks [65] BUY (Fin 10) 5 ?m = None" and b: "snd (check_pnl_breakers ?m) = Some ''Circuit breaker: daily loss limit''"
    and p: "m_persist_path ?m = ''f''" and k: "m_disk_ok ?m" by code_simp+
  show ?thesis
    by (rule conjunct1 [OF risk_breaker_survives_restart [OF s b p _ k, where xs = "[]"]]) simp_all
qed

text \<open>
  The position check nets pending orders of both sides.  With the default limit of 5000 shares
  per symbol, a BUY of 5000 and then a SELL of 10000 are both allowed; when the BUY is cancelled
  unfilled, the risk manager's own net quantity for the symbol is 10000 short, twice the limit.
\<close>

theorem risk_netting_exceeds_limit:
  defines "m0 \<equiv> risk_init default_limits [] True"
  defines "m1 \<equiv> on_order_sent [65] BUY 5000 (fst (check_order 0 0 0 [65] BUY (Fin 10) 5000 m0))"
  defines "m2 \<equiv> on_order_sent [65] SELL 10000 (fst (check_order 1 1 1 [65] SELL (Fin 10) 10000 m1))"
  shows "action (snd (check_order 0 0 0 [65] BUY (Fin 10) 5000 m0)) = ALLOW
    \<and> action (snd (check_order 1 1 1 [65] SELL (Fin 10) 10000 m1)) = ALLOW
    \<and> net_of (on_order_cancelled [65] BUY 5000 m2) (sym_to_key [65]) = - 10000
    \<and> sym_long_cap (sym_to_key [65]) m2 = 5000"
proof -
  have k: "sym_to_key [65] = 65" by code_simp
  have s0: "static_checks [65] BUY (Fin 10) 5000 m0 = None" "snd (check_pnl_breakers m0) = None" "0 < max_orders_per_second default_limits"
    unfolding m0_def by code_simp+
  have a0: "action (snd (check_order 0 0 0 [65] BUY (Fin 10) 5000 m0)) = ALLOW"
    using fresh_allow [OF s0 [unfolded m0_def], folded m0_def] .
  then obtain c lat where m1: "m1 = touch c (m_rate_ring (fst (check_rate_limit 0 m0))) lat (on_order_sent [65] BUY 5000 m0)"
    unfolding m1_def by (auto elim: check_order_allow_touch)
  have r: "ts_inv RATE_N (m_rate_ring m0)" "int (length (ts_items RATE_N (m_rate_ring m0))) < max_orders_per_second (m_limits m0)"
    by (simp_all add: m0_def init_ring) (simp add: risk_init_def default_limits_def)
  have ring: "ts_inv RATE_N (m_rate_ring m1)" "length (ts_items RATE_N (m_rate_ring m1)) \<le> 1"
    using check_rate_room(2,3) [OF r, of 0] by (simp_all add: m1 m0_def init_ring)
  have s1: "static_checks [65] SELL (Fin 10) 10000 m1 = None" "snd (check_pnl_breakers m1) = None"
    "max_orders_per_second (m_limits m1) = 1000"
    unfolding m1 m0_def static_checks_touch touch_frame by code_simp+
  have a1: "action (snd (check_order 1 1 1 [65] SELL (Fin 10) 10000 m1)) = ALLOW"
    by (rule allow_when_room(1) [OF s1(1,2) ring(1)]) (use ring(2) s1(3) in simp)
  then obtain c' lat' where m2: "m2 = touch c' (m_rate_ring (fst (check_rate_limit 1 m1))) lat' (on_order_sent [65] SELL 10000 m1)"
    unfolding m2_def by (auto elim: check_order_allow_touch)
  have "net_of (on_order_cancelled [65] BUY 5000 m2) (sym_to_key [65]) = - 10000" "sym_long_cap (sym_to_key [65]) m2 = 5000"
    unfolding m2 m1 m0_def touch_frame k by code_simp+
  with a0 a1 show ?thesis by blast
qed

text \<open>
  Prices that are no number.  A NaN price passes the value, minimum-price, price-band and
  notional checks of every state (each comparison with NaN is false, and its conversion to an
  integer gives the smallest one): whether the order is allowed does not depend on the price limits.
\<close>

theorem risk_nan_price_passes:
  assumes "- (2 ^ 63) \<le> l_max_order_value (m_limits m)"
    and "static_checks sy sd px q m = None"
  shows "static_checks sy sd NaN q m = None"
proof -
  have n: "dmul NaN (d_of_int q) = NaN" "price_dev NaN rp = NaN" "dmul x NaN = NaN" for rp x
    by (simp_all add: price_dev_def dsub_def)
  have l: "\<not> dlt x NaN" "\<not> dlt NaN x" for x by (cases x; simp)+
  show ?thesis
    using assms unfolding static_checks_None Let_def n by (simp add: l split: option.split)
qed

theorem risk_nan_price_passes_witness:
  "static_checks [65] BUY NaN 100 (risk_init default_limits [] True) = None"
  by (rule risk_nan_price_passes [where px = "Fin 10"]) code_simp+

end
