(* ===== verification/Gap_Recovery.thy ===== *)
theory Gap_Recovery
  imports Common Binary64
begin

text \<open>
  \<open>multicast/gap_recovery.hpp\<close>, the components that decide what is delivered: gap detection and
  recovery, the A/B line arbiter, recovery per channel, duplicate suppression, the reorder buffer,
  snapshot synchronisation and the retransmission tracker.  A sequence number is an integer in the
  range of \<open>uint64_t\<close>; a \<open>std::set\<close> of them is a finite set, walked in ascending order.
\<close>

section \<open>GapRecovery\<close>

record GapRecovery =
  missing :: "int set"
  expected :: int
  primary_packets :: int
  gr_initialized :: bool
  gap_events :: int
  recovered :: int
  gr_duplicates :: int
  gr_max_gap_burst :: int

definition gr0 :: GapRecovery where
  "gr0 = \<lparr>missing = {}, expected = 0, primary_packets = 0, gr_initialized = False, gap_events = 0,
     recovered = 0, gr_duplicates = 0, gr_max_gap_burst = 0\<rparr>"

definition observe :: "int \<Rightarrow> GapRecovery \<Rightarrow> GapRecovery" where
  "observe seq g0 =
     (let g = g0\<lparr>primary_packets := u64 (primary_packets g0 + 1)\<rparr>
      in if \<not> gr_initialized g then g\<lparr>gr_initialized := True, expected := u64 (seq + 1)\<rparr>
         else if seq = expected g then g\<lparr>expected := u64 (expected g + 1)\<rparr>
         else if seq > expected g
         then let burst = u64 (seq - expected g)
              in g\<lparr>gr_max_gap_burst := (if burst > gr_max_gap_burst g then burst else gr_max_gap_burst g),
                   missing := missing g \<union> set [expected g..seq - 1],
                   gap_events := u64 (gap_events g + 1), expected := u64 (seq + 1)\<rparr>
         else if seq \<in> missing g
         then g\<lparr>missing := missing g - {seq}, recovered := u64 (recovered g + 1)\<rparr>
         else g\<lparr>gr_duplicates := u64 (gr_duplicates g + 1)\<rparr>)"

definition on_retransmit :: "int \<Rightarrow> GapRecovery \<Rightarrow> GapRecovery \<times> bool" where
  "on_retransmit seq g =
     (if seq \<in> missing g then (g\<lparr>missing := missing g - {seq}, recovered := u64 (recovered g + 1)\<rparr>, True)
      else (g, False))"

definition next_request :: "GapRecovery \<Rightarrow> (int \<times> int) option" where
  "next_request g = (if missing g = {} then None
     else Some (hd (sorted_list_of_set (missing g)), List.last (sorted_list_of_set (missing g))))"

definition has_gaps :: "GapRecovery \<Rightarrow> bool" where
  "has_gaps g \<longleftrightarrow> missing g \<noteq> {}"

definition missing_count :: "GapRecovery \<Rightarrow> int" where
  "missing_count g = int (card (missing g))"

definition ratio_or :: "dbl \<Rightarrow> int \<Rightarrow> int \<Rightarrow> dbl" where
  "ratio_or dflt a b = (if b > 0 then ddiv (d_of_int a) (d_of_int b) else dflt)"

definition duplicate_rate :: "GapRecovery \<Rightarrow> dbl" where
  "duplicate_rate g = ratio_or (Fin 0) (gr_duplicates g) (primary_packets g)"

definition gap_event_rate :: "GapRecovery \<Rightarrow> dbl" where
  "gap_event_rate g = ratio_or (Fin 0) (gap_events g) (primary_packets g)"

definition recovery_completeness :: "GapRecovery \<Rightarrow> dbl" where
  "recovery_completeness g = (let tot = u64 (recovered g + missing_count g) in ratio_or (Fin 1) (recovered g) tot)"

definition avg_gap_burst :: "GapRecovery \<Rightarrow> dbl" where
  "avg_gap_burst g = ratio_or (Fin 0) (u64 (recovered g + missing_count g)) (gap_events g)"

definition max_gap_burst :: "GapRecovery \<Rightarrow> int" where
  "max_gap_burst g = gr_max_gap_burst g"

text \<open>The loops over the ascending set, with the previous element when there is one.\<close>

fun count_runs :: "int option \<Rightarrow> int list \<Rightarrow> nat" where
  "count_runs prev [] = 0"
| "count_runs prev (s # ss) = (if prev = None \<or> s \<noteq> u64 (the prev + 1) then 1 else 0) + count_runs (Some s) ss"

definition outstanding_range_count :: "GapRecovery \<Rightarrow> nat" where
  "outstanding_range_count g = count_runs None (sorted_list_of_set (missing g))"

fun longest_run :: "int option \<Rightarrow> int \<Rightarrow> int \<Rightarrow> int list \<Rightarrow> int" where
  "longest_run prev cur best [] = best"
| "longest_run prev cur best (s # ss) =
     (let cur' = (if prev \<noteq> None \<and> s = u64 (the prev + 1) then u64 (cur + 1) else 1)
      in longest_run (Some s) cur' (if cur' > best then cur' else best) ss)"

definition largest_outstanding_run :: "GapRecovery \<Rightarrow> int" where
  "largest_outstanding_run g = longest_run None 0 0 (sorted_list_of_set (missing g))"

definition oldest_missing :: "GapRecovery \<Rightarrow> int" where
  "oldest_missing g = (if missing g = {} then 0 else hd (sorted_list_of_set (missing g)))"

definition head_of_line_lag :: "GapRecovery \<Rightarrow> int" where
  "head_of_line_lag g = (if missing g = {} then 0 else u64 (expected g - hd (sorted_list_of_set (missing g))))"

fun ranges_from :: "int \<Rightarrow> int \<Rightarrow> int list \<Rightarrow> (int \<times> int) list" where
  "ranges_from start prev [] = [(start, prev)]"
| "ranges_from start prev (s # ss) =
     (if s = u64 (prev + 1) then ranges_from start s ss else (start, prev) # ranges_from s s ss)"

definition missing_ranges :: "GapRecovery \<Rightarrow> (int \<times> int) list" where
  "missing_ranges g = (case sorted_list_of_set (missing g) of [] \<Rightarrow> [] | s # ss \<Rightarrow> ranges_from s s ss)"

definition recommend_snapshot :: "int \<Rightarrow> GapRecovery \<Rightarrow> bool" where
  "recommend_snapshot threshold g \<longleftrightarrow> threshold > 0 \<and> missing_count g \<ge> threshold"

definition snapshot_resync :: "int \<Rightarrow> GapRecovery \<Rightarrow> GapRecovery" where
  "snapshot_resync snap g =
     (let covered = takeWhile (\<lambda>s. s \<le> snap) (sorted_list_of_set (missing g))
      in g\<lparr>missing := missing g - set covered, recovered := u64 (recovered g + int (length covered)),
           expected := (if u64 (snap + 1) > expected g then u64 (snap + 1) else expected g), gr_initialized := True\<rparr>)"

definition gr_reset :: "GapRecovery \<Rightarrow> GapRecovery" where
  "gr_reset g = gr0"

section \<open>ABLineArbitrator\<close>

record ABLine =
  ab_rec :: GapRecovery
  a_first :: int
  b_first :: int
  ab_dups :: int

definition ab0 :: ABLine where
  "ab0 = \<lparr>ab_rec = gr0, a_first = 0, b_first = 0, ab_dups = 0\<rparr>"

definition ab_on_packet :: "int \<Rightarrow> bool \<Rightarrow> ABLine \<Rightarrow> ABLine \<times> bool" where
  "ab_on_packet seq from_line_a a =
     (let is_new = (\<not> gr_initialized (ab_rec a) \<or> seq \<ge> expected (ab_rec a) \<or> seq \<in> missing (ab_rec a))
      in if \<not> is_new then (a\<lparr>ab_dups := u64 (ab_dups a + 1)\<rparr>, False)
         else let a1 = a\<lparr>ab_rec := observe seq (ab_rec a)\<rparr>
              in (if from_line_a then a1\<lparr>a_first := u64 (a_first a1 + 1)\<rparr>
                  else a1\<lparr>b_first := u64 (b_first a1 + 1)\<rparr>, True))"

definition a_win_rate :: "ABLine \<Rightarrow> dbl" where
  "a_win_rate a = (let tot = u64 (a_first a + b_first a) in ratio_or (Fin (1 / 2)) (a_first a) tot)"

definition lagging_line :: "dbl \<Rightarrow> ABLine \<Rightarrow> char" where
  "lagging_line threshold a =
     (let tot = u64 (a_first a + b_first a); r = ddiv (d_of_int (a_first a)) (d_of_int tot)
      in if tot = 0 then CHR ''-'' else if dle r threshold then CHR ''A''
         else if dle (dsub (Fin 1) r) threshold then CHR ''B'' else CHR ''-'')"

definition ab_dup_rate :: "ABLine \<Rightarrow> dbl" where
  "ab_dup_rate a = (let seen = u64 (a_first a + b_first a + ab_dups a) in ratio_or (Fin 0) (ab_dups a) seen)"

definition preferred_line :: "dbl \<Rightarrow> ABLine \<Rightarrow> char" where
  "preferred_line margin a =
     (let tot = u64 (a_first a + b_first a); r = ddiv (d_of_int (a_first a)) (d_of_int tot);
          bar = dadd (Fin (1 / 2)) margin
      in if tot = 0 then CHR ''-'' else if dle bar r then CHR ''A''
         else if dle bar (dsub (Fin 1) r) then CHR ''B'' else CHR ''-'')"

section \<open>MultiChannelRecovery\<close>

type_synonym channels = "(int, GapRecovery) hmap"

definition channel :: "int \<Rightarrow> channels \<Rightarrow> GapRecovery" where
  "channel c m = (case map_of m c of None \<Rightarrow> gr0 | Some g \<Rightarrow> g)"

definition mc_observe :: "int \<Rightarrow> int \<Rightarrow> channels \<Rightarrow> channels" where
  "mc_observe c seq m = AList.update c (observe seq (channel c m)) m"

definition mc_on_retransmit :: "int \<Rightarrow> int \<Rightarrow> channels \<Rightarrow> channels \<times> bool" where
  "mc_on_retransmit c seq m =
     (AList.update c (fst (on_retransmit seq (channel c m))) m, snd (on_retransmit seq (channel c m)))"

definition any_gaps :: "channels \<Rightarrow> bool" where
  "any_gaps m \<longleftrightarrow> list_ex (\<lambda>(c, g). has_gaps g) m"

definition total_missing :: "channels \<Rightarrow> int" where
  "total_missing m = fold (\<lambda>(c, g) n. u64 (n + missing_count g)) m 0"

definition total_recovered :: "channels \<Rightarrow> int" where
  "total_recovered m = fold (\<lambda>(c, g) n. u64 (n + recovered g)) m 0"

definition channels_with_gaps :: "channels \<Rightarrow> nat" where
  "channels_with_gaps m = length (filter (\<lambda>(c, g). has_gaps g) m)"

definition worst_channel :: "channels \<Rightarrow> (int \<times> int) option" where
  "worst_channel m =
     (let (worst, who) = fold (\<lambda>(c, g) (w, i). if missing_count g > w then (missing_count g, c) else (w, i)) m (0, 0)
      in if worst = 0 then None else Some (who, worst))"

definition overall_completeness :: "channels \<Rightarrow> dbl" where
  "overall_completeness m = (let rec = total_recovered m; tot = u64 (rec + total_missing m) in ratio_or (Fin 1) rec tot)"

section \<open>DedupWindow\<close>

record DedupWindow =
  dw_window :: int
  high :: int
  dw_init :: bool
  dw_seen :: "int set"
  dw_duplicates :: int
  accepted :: int

definition dw_new :: "int \<Rightarrow> DedupWindow" where
  "dw_new w = \<lparr>dw_window = (if w \<noteq> 0 then w else 1), high = 0, dw_init = False, dw_seen = {}, dw_duplicates = 0, accepted = 0\<rparr>"

text \<open>The loop drops the smallest numbers while they are out of the window.\<close>

definition dw_prune :: "DedupWindow \<Rightarrow> DedupWindow" where
  "dw_prune d = d\<lparr>dw_seen := set (dropWhile (\<lambda>s. u64 (s + dw_window d) \<le> high d) (sorted_list_of_set (dw_seen d)))\<rparr>"

definition dw_accept :: "int \<Rightarrow> DedupWindow \<Rightarrow> DedupWindow \<times> bool" where
  "dw_accept seq d =
     (if \<not> dw_init d
      then (d\<lparr>dw_init := True, high := seq, dw_seen := insert seq (dw_seen d), accepted := u64 (accepted d + 1)\<rparr>, True)
      else if u64 (seq + dw_window d) \<le> high d then (d\<lparr>dw_duplicates := u64 (dw_duplicates d + 1)\<rparr>, False)
      else if seq \<in> dw_seen d then (d\<lparr>dw_duplicates := u64 (dw_duplicates d + 1)\<rparr>, False)
      else let d1 = d\<lparr>dw_seen := insert seq (dw_seen d), high := (if seq > high d then seq else high d)\<rparr>;
               d2 = dw_prune d1
           in (d2\<lparr>accepted := u64 (accepted d2 + 1)\<rparr>, True))"

definition dw_total_seen :: "DedupWindow \<Rightarrow> int" where
  "dw_total_seen d = u64 (accepted d + dw_duplicates d)"

definition dw_dup_rate :: "DedupWindow \<Rightarrow> dbl" where
  "dw_dup_rate d = ratio_or (Fin 0) (dw_duplicates d) (dw_total_seen d)"

definition dw_reset :: "DedupWindow \<Rightarrow> DedupWindow" where
  "dw_reset d = dw_new (dw_window d)"

section \<open>DualFeedReconciler\<close>

record DualFeed =
  df_seen :: "int set"
  a_wins :: int
  b_wins :: int
  df_duplicates :: int

definition df0 :: DualFeed where
  "df0 = \<lparr>df_seen = {}, a_wins = 0, b_wins = 0, df_duplicates = 0\<rparr>"

definition df_on_packet :: "int \<Rightarrow> int \<Rightarrow> DualFeed \<Rightarrow> DualFeed \<times> bool" where
  "df_on_packet seq line d =
     (if seq \<in> df_seen d then (d\<lparr>df_duplicates := u64 (df_duplicates d + 1)\<rparr>, False)
      else let d1 = d\<lparr>df_seen := insert seq (df_seen d)\<rparr>
           in (if line = 0 then d1\<lparr>a_wins := u64 (a_wins d1 + 1)\<rparr> else d1\<lparr>b_wins := u64 (b_wins d1 + 1)\<rparr>, True))"

definition df_a_win_rate :: "DualFeed \<Rightarrow> dbl" where
  "df_a_win_rate d = (let tot = u64 (a_wins d + b_wins d)
     in if tot \<noteq> 0 then ddiv (d_of_int (a_wins d)) (d_of_int tot) else Fin 0)"

definition df_reset :: "DualFeed \<Rightarrow> DualFeed" where
  "df_reset d = df0"

section \<open>ContiguousTracker\<close>

record ContiguousTracker =
  next_expected :: int
  ahead :: "int set"
  ct_max_lookahead :: int

definition ct_new :: "int \<Rightarrow> ContiguousTracker" where
  "ct_new start = \<lparr>next_expected = start, ahead = {}, ct_max_lookahead = 0\<rparr>"

text \<open>The inner loop runs once per number set aside; the fuel is their number.\<close>

fun ct_drain :: "nat \<Rightarrow> ContiguousTracker \<Rightarrow> ContiguousTracker" where
  "ct_drain 0 c = c"
| "ct_drain (Suc fuel) c =
     (if next_expected c \<in> ahead c
      then ct_drain fuel (c\<lparr>ahead := ahead c - {next_expected c}, next_expected := u64 (next_expected c + 1)\<rparr>) else c)"

definition ct_receive :: "int \<Rightarrow> ContiguousTracker \<Rightarrow> ContiguousTracker" where
  "ct_receive seq c =
     (if seq < next_expected c then c
      else if seq = next_expected c
      then ct_drain (card (ahead c)) (c\<lparr>next_expected := u64 (next_expected c + 1)\<rparr>)
      else let dist = u64 (seq - next_expected c)
           in c\<lparr>ct_max_lookahead := (if dist > ct_max_lookahead c then dist else ct_max_lookahead c),
                ahead := insert seq (ahead c)\<rparr>)"

definition contiguous_high :: "ContiguousTracker \<Rightarrow> int" where
  "contiguous_high c = u64 (next_expected c - 1)"

definition current_lookahead :: "ContiguousTracker \<Rightarrow> int" where
  "current_lookahead c = (if ahead c = {} then 0
     else u64 (List.last (sorted_list_of_set (ahead c)) - next_expected c))"

definition ct_reset :: "int \<Rightarrow> ContiguousTracker \<Rightarrow> ContiguousTracker" where
  "ct_reset start c = ct_new start"

section \<open>ReorderBuffer\<close>

record 'a ReorderBuffer =
  rb_expected :: int
  rb_initialized :: bool
  rb_pending :: "(int, 'a) hmap"
  rb_out :: "'a list"
  rb_duplicates :: int
  rb_max_buffered :: nat

definition rb0 :: "'a ReorderBuffer" where
  "rb0 = \<lparr>rb_expected = 0, rb_initialized = False, rb_pending = [], rb_out = [], rb_duplicates = 0, rb_max_buffered = 0\<rparr>"

fun rb_drain :: "nat \<Rightarrow> 'a ReorderBuffer \<Rightarrow> 'a ReorderBuffer" where
  "rb_drain 0 r = r"
| "rb_drain (Suc fuel) r =
     (case map_of (rb_pending r) (rb_expected r) of None \<Rightarrow> r
      | Some v \<Rightarrow> rb_drain fuel (r\<lparr>rb_out := rb_out r @ [v], rb_pending := AList.delete (rb_expected r) (rb_pending r),
                                  rb_expected := u64 (rb_expected r + 1)\<rparr>))"

definition rb_push :: "int \<Rightarrow> 'a \<Rightarrow> 'a ReorderBuffer \<Rightarrow> 'a ReorderBuffer" where
  "rb_push seq val r0 =
     (let r = (if \<not> rb_initialized r0 then r0\<lparr>rb_expected := seq, rb_initialized := True\<rparr> else r0)
      in if seq < rb_expected r then r\<lparr>rb_duplicates := u64 (rb_duplicates r + 1)\<rparr>
         else let p = AList.update seq val (rb_pending r);
                  r1 = r\<lparr>rb_pending := p, rb_max_buffered := (if length p > rb_max_buffered r then length p else rb_max_buffered r)\<rparr>
              in rb_drain (length p) r1)"

definition rb_has_gap :: "'a ReorderBuffer \<Rightarrow> bool" where
  "rb_has_gap r \<longleftrightarrow> rb_pending r \<noteq> []"

definition rb_clear_out :: "'a ReorderBuffer \<Rightarrow> 'a ReorderBuffer" where
  "rb_clear_out r = r\<lparr>rb_out := []\<rparr>"

section \<open>SnapshotSyncBuffer\<close>

record SnapshotSync =
  applied :: bool
  snapshot_seq :: int
  ss_buffered :: "int set"
  dropped :: int

definition ss0 :: SnapshotSync where
  "ss0 = \<lparr>applied = False, snapshot_seq = 0, ss_buffered = {}, dropped = 0\<rparr>"

definition on_increment :: "int \<Rightarrow> SnapshotSync \<Rightarrow> SnapshotSync \<times> bool" where
  "on_increment seq s = (if applied s then (s, True) else (s\<lparr>ss_buffered := insert seq (ss_buffered s)\<rparr>, False))"

definition apply_snapshot :: "int \<Rightarrow> SnapshotSync \<Rightarrow> SnapshotSync \<times> int" where
  "apply_snapshot snap s =
     (let keep = Set.filter (\<lambda>x. x > snap) (ss_buffered s)
      in (s\<lparr>snapshot_seq := snap, applied := True, ss_buffered := keep,
            dropped := u64 (dropped s + int (card (ss_buffered s - keep)))\<rparr>, int (card keep)))"

definition total_buffered :: "SnapshotSync \<Rightarrow> int" where
  "total_buffered s = u64 (dropped s + int (card (ss_buffered s)))"

definition snapshot_coverage :: "SnapshotSync \<Rightarrow> dbl" where
  "snapshot_coverage s = ratio_or (Fin 0) (dropped s) (total_buffered s)"

definition ss_reset :: "SnapshotSync \<Rightarrow> SnapshotSync" where
  "ss_reset s = ss0"

section \<open>RetransmitTracker\<close>

record Req =
  last_sent_ns :: int
  attempts :: int

record RetransmitTracker =
  timeout_ns :: int
  max_attempts :: int
  rt_pending :: "(int, Req) hmap"
  fulfilled :: int
  escalated :: int

definition rt_new :: "int \<Rightarrow> int \<Rightarrow> RetransmitTracker" where
  "rt_new tmo mx = \<lparr>timeout_ns = tmo, max_attempts = mx, rt_pending = [], fulfilled = 0, escalated = 0\<rparr>"

definition rt_request :: "int \<Rightarrow> int \<Rightarrow> RetransmitTracker \<Rightarrow> RetransmitTracker" where
  "rt_request seq now t = (case map_of (rt_pending t) seq of
     None \<Rightarrow> t\<lparr>rt_pending := AList.update seq \<lparr>last_sent_ns = now, attempts = 1\<rparr> (rt_pending t)\<rparr> | Some _ \<Rightarrow> t)"

definition rt_on_received :: "int \<Rightarrow> RetransmitTracker \<Rightarrow> RetransmitTracker" where
  "rt_on_received seq t = (case map_of (rt_pending t) seq of None \<Rightarrow> t
     | Some _ \<Rightarrow> t\<lparr>rt_pending := AList.delete seq (rt_pending t), fulfilled := u64 (fulfilled t + 1)\<rparr>)"

text \<open>One pass of \<open>poll\<close>: an entry that timed out is retried or, out of attempts, dropped.\<close>

definition poll_entry :: "int \<Rightarrow> RetransmitTracker \<Rightarrow> Req \<Rightarrow> Req option" where
  "poll_entry now t r =
     (if s64 (now - last_sent_ns r) \<ge> timeout_ns t
      then if attempts r < max_attempts t then Some \<lparr>last_sent_ns = now, attempts = s32 (attempts r + 1)\<rparr> else None
      else Some r)"

definition due :: "int \<Rightarrow> RetransmitTracker \<Rightarrow> Req \<Rightarrow> bool" where
  "due now t r \<longleftrightarrow> s64 (now - last_sent_ns r) \<ge> timeout_ns t"

definition rt_poll :: "int \<Rightarrow> RetransmitTracker \<Rightarrow> RetransmitTracker \<times> nat" where
  "rt_poll now t =
     (let retries = length (filter (\<lambda>(k, r). due now t r \<and> attempts r < max_attempts t) (rt_pending t));
          gone = length (filter (\<lambda>(k, r). due now t r \<and> \<not> attempts r < max_attempts t) (rt_pending t))
      in (t\<lparr>rt_pending := List.map_filter (\<lambda>(k, r). map_option (Pair k) (poll_entry now t r)) (rt_pending t),
            escalated := u64 (escalated t + int gone)\<rparr>, retries))"

definition outstanding :: "RetransmitTracker \<Rightarrow> nat" where
  "outstanding t = length (rt_pending t)"

definition escalation_rate :: "RetransmitTracker \<Rightarrow> dbl" where
  "escalation_rate t = ratio_or (Fin 0) (escalated t) (u64 (fulfilled t + escalated t))"

definition max_attempts_in_flight :: "RetransmitTracker \<Rightarrow> int" where
  "max_attempts_in_flight t = fold (\<lambda>(k, r) mx. if attempts r > mx then attempts r else mx) (rt_pending t) 0"

definition rt_reset :: "RetransmitTracker \<Rightarrow> RetransmitTracker" where
  "rt_reset t = t\<lparr>rt_pending := [], fulfilled := 0, escalated := 0\<rparr>"

end
