(* ===== verification/Gap_Props.thy ===== *)
theory Gap_Props
  imports Gap_Recovery
begin

text \<open>
  Properties of the recovery layer: gap detection refines a specification that keeps the set of
  numbers received; the duplicate filters deliver every number at most once, whatever the order of
  arrival; the reorder buffer and the contiguous tracker deliver the longest gap-free prefix; the
  retransmission tracker accounts for every request and ends.
\<close>

section \<open>Specification of gap detection\<close>

text \<open>
  What a feed handler has to know: the range of numbers seen so far, from the first one received,
  and which of them it has.
\<close>

record gap_spec =
  sp_started :: bool
  sp_base :: int
  sp_top :: int
  sp_have :: "int set"
  sp_holes :: int

definition sp0 :: gap_spec where
  "sp0 = \<lparr>sp_started = False, sp_base = 0, sp_top = 0, sp_have = {}, sp_holes = 0\<rparr>"

datatype gap_ev = GObserve int | GRetransmit int | GSnapshot int

fun gap_seq :: "gap_ev \<Rightarrow> int" where
  "gap_seq (GObserve s) = s" | "gap_seq (GRetransmit s) = s" | "gap_seq (GSnapshot s) = s"

definition seq_ok :: "int \<Rightarrow> bool" where
  "seq_ok s \<longleftrightarrow> 0 \<le> s \<and> s < 2 ^ 64 - 1"

fun sp_step :: "gap_ev \<Rightarrow> gap_spec \<Rightarrow> gap_spec" where
  "sp_step (GObserve s) p =
     (if \<not> sp_started p then p\<lparr>sp_started := True, sp_base := s, sp_top := s + 1, sp_have := {s}\<rparr>
      else p\<lparr>sp_top := max (sp_top p) (s + 1), sp_have := insert s (sp_have p), sp_holes := sp_holes p + max 0 (s - sp_top p)\<rparr>)"
| "sp_step (GRetransmit s) p = (if s < sp_top p then p\<lparr>sp_have := insert s (sp_have p)\<rparr> else p)"
| "sp_step (GSnapshot s) p =
     p\<lparr>sp_started := True, sp_base := (if sp_started p then sp_base p else s + 1), sp_top := max (sp_top p) (s + 1),
       sp_have := sp_have p \<union> {..s}\<rparr>"

fun gap_exec :: "gap_ev \<Rightarrow> GapRecovery \<Rightarrow> GapRecovery" where
  "gap_exec (GObserve s) g = observe s g"
| "gap_exec (GRetransmit s) g = fst (on_retransmit s g)"
| "gap_exec (GSnapshot s) g = snapshot_resync s g"

definition gap_rel :: "GapRecovery \<Rightarrow> gap_spec \<Rightarrow> bool" where
  "gap_rel g p \<longleftrightarrow> gr_initialized g = sp_started p \<and> expected g = sp_top p
     \<and> missing g = {sp_base p..<sp_top p} - sp_have p 
     \<and> recovered g + int (card ({sp_base p..<sp_top p} - sp_have p)) = sp_holes p \<and> 0 \<le> recovered g \<and> sp_holes p \<le> sp_top p - sp_base p \<and> sp_top p < 2 ^ 64
     \<and> 0 \<le> sp_base p \<and> sp_base p \<le> sp_top p
     \<and> (\<not> sp_started p \<longrightarrow> sp_top p = 0 \<and> sp_base p = 0 \<and> sp_holes p = 0)
     \<and> (\<forall>n \<in> sp_have p. n < sp_top p)"

lemma gap_rel_init: "gap_rel gr0 sp0"
  by (simp add: gap_rel_def gr0_def sp0_def)

lemma set_upto_eq: "{a..b - 1} = {a..<b}" for a b :: int
  by auto

lemma gap_relD:
  assumes "gap_rel g p"
  shows "gr_initialized g = sp_started p" "expected g = sp_top p" "missing g = {sp_base p..<sp_top p} - sp_have p"
    "recovered g + int (card (missing g)) = sp_holes p" "0 \<le> recovered g" "sp_holes p \<le> sp_top p - sp_base p"
    "sp_top p < 2 ^ 64" "0 \<le> sp_base p" "sp_base p \<le> sp_top p" "finite (missing g)" "\<forall>n \<in> sp_have p. n < sp_top p"
    "\<not> sp_started p \<Longrightarrow> sp_top p = 0 \<and> sp_base p = 0 \<and> sp_holes p = 0"
  using assms by (simp_all add: gap_rel_def)

text \<open>Filling a hole is the same for a late packet and a retransmission.\<close>

lemma gap_rel_fill:
  assumes "gap_rel g p" "s \<in> missing g"
  shows "u64 (recovered g + 1) = recovered g + 1"
    and "gap_rel (g\<lparr>missing := missing g - {s}, recovered := recovered g + 1\<rparr>) (p\<lparr>sp_have := insert s (sp_have p)\<rparr>)"
proof -
  note D = gap_relD [OF assms(1)]
  have pos: "0 < card (missing g)" using assms(2) D(10) card_gt_0_iff by blast
  have c: "int (card (missing g - {s})) = int (card (missing g)) - 1" "0 < card (missing g)"
    using pos card_Diff_singleton [OF assms(2)] by linarith+
  show "u64 (recovered g + 1) = recovered g + 1" using D c(2) by (intro u64_id) linarith+
  have m: "missing g - {s} = {sp_base p..<sp_top p} - insert s (sp_have p)" unfolding D(3) by blast
  have st: "s < sp_top p" "sp_started p" using assms(2) D(3,8,12) by auto
  have h: "recovered g + 1 + int (card ({sp_base p..<sp_top p} - insert s (sp_have p))) = sp_holes p"
    using D(4) c(1) unfolding m [symmetric] by simp
  show "gap_rel (g\<lparr>missing := missing g - {s}, recovered := recovered g + 1\<rparr>) (p\<lparr>sp_have := insert s (sp_have p)\<rparr>)"
    using D st h m unfolding gap_rel_def by simp
qed

lemma gap_rel_known:
  assumes "gap_rel g p" "s < sp_top p" "s \<notin> missing g"
  shows "gap_rel g (p\<lparr>sp_have := insert s (sp_have p)\<rparr>)"
proof -
  note D = gap_relD [OF assms(1)]
  have "{sp_base p..<sp_top p} - insert s (sp_have p) = {sp_base p..<sp_top p} - sp_have p" using assms(3) unfolding D(3) by auto
  then show ?thesis using assms(1,2) unfolding gap_rel_def by simp
qed

lemma gap_rel_cong:
  assumes "gap_rel g p" "missing g' = missing g" "expected g' = expected g" "gr_initialized g' = gr_initialized g" "recovered g' = recovered g"
  shows "gap_rel g' p"
  using assms by (simp add: gap_rel_def)

lemma gap_rel_observe:
  assumes "gap_rel g p" "seq_ok s"
  shows "gap_rel (observe s g) (sp_step (GObserve s) p)"
proof -
  note D = gap_relD [OF assms(1)]
  have s: "u64 (s + 1) = s + 1" "0 \<le> s" "s + 1 < 2 ^ 64" using assms(2) by (simp_all add: seq_ok_def u64_id)
  define n where "n = u64 (primary_packets g + 1)"
  show ?thesis
  proof (cases "sp_started p")
    case False
    then have o: "observe s g = g\<lparr>primary_packets := n, gr_initialized := True, expected := s + 1\<rparr>"
      by (simp add: observe_def Let_def n_def D(1) s)
    have "{s..<s + 1} - {s} = {}" by auto
    moreover have "missing g = {}" using D(3) D(12) [OF False] by simp
    ultimately show ?thesis using D D(12) [OF False] s False unfolding o gap_rel_def by simp
  next
    case True
    have bs: "max 0 (s - sp_top p) = 0" "max (sp_top p) (s + 1) = sp_top p" if "s < sp_top p" using that by simp_all
    consider (eq) "s = sp_top p" | (gap) "s > sp_top p" | (late) "s < sp_top p" "s \<in> missing g" | (dup) "s < sp_top p" "s \<notin> missing g"
      by linarith
    then show ?thesis
    proof cases
      case eq
      then have o: "observe s g = g\<lparr>primary_packets := n, expected := s + 1\<rparr>"
        using True s by (simp add: observe_def Let_def n_def D(1,2))
      have m: "{sp_base p..<s + 1} - insert s (sp_have p) = {sp_base p..<sp_top p} - sp_have p" by (force simp: eq)
      have "\<forall>k \<in> sp_have p. k < s + 1" using D(11) eq by force
      then show ?thesis using assms(1) eq True s unfolding o gap_rel_def by (simp add: m [unfolded eq])
    next
      case gap
      define mx where "mx = (if u64 (s - expected g) > gr_max_gap_burst g then u64 (s - expected g) else gr_max_gap_burst g)"
      have o: "observe s g = g\<lparr>primary_packets := n, gr_max_gap_burst := mx, missing := missing g \<union> {sp_top p..<s},
          gap_events := u64 (gap_events g + 1), expected := s + 1\<rparr>"
        using gap True s by (simp add: observe_def Let_def n_def mx_def D(1,2) set_upto_eq)
      have m: "missing g \<union> {sp_top p..<s} = {sp_base p..<s + 1} - insert s (sp_have p)"
        using D(9,11) gap unfolding D(3) by auto
      have "missing g \<inter> {sp_top p..<s} = {}" unfolding D(3) by auto
      then have "card (missing g \<union> {sp_top p..<s}) = card (missing g) + nat (s - sp_top p)"
        using card_Un_disjoint [OF D(10), of "{sp_top p..<s}"] by simp
      then have c: "recovered g + int (card (missing g \<union> {sp_top p..<s})) = sp_holes p + (s - sp_top p)"
        using D(4) gap by simp
      have x: "max (sp_top p) (s + 1) = s + 1" "max 0 (s - sp_top p) = s - sp_top p" using gap by simp_all
      have "\<forall>k \<in> sp_have p. k < s + 1" using D(11) gap by force
      then show ?thesis
        using D(1,5,6,8,9) c [unfolded m] s True gap x m unfolding o gap_rel_def by simp
    next
      case late
      then have o: "observe s g = g\<lparr>primary_packets := n, missing := missing g - {s}, recovered := recovered g + 1\<rparr>"
        using True gap_rel_fill(1) [OF assms(1)] by (simp add: observe_def Let_def n_def D(1,2))
      show ?thesis
        by (rule gap_rel_cong [of "g\<lparr>missing := missing g - {s}, recovered := recovered g + 1\<rparr>"])
          (use late True gap_rel_fill(2) [OF assms(1) late(2)] in \<open>simp_all add: o bs\<close>)
    next
      case dup
      then have o: "observe s g = g\<lparr>primary_packets := n, gr_duplicates := u64 (gr_duplicates g + 1)\<rparr>"
        using True by (simp add: observe_def Let_def n_def D(1,2))
      show ?thesis
        by (rule gap_rel_cong [of g]) (use dup True gap_rel_known [OF assms(1)] in \<open>simp_all add: o bs\<close>)
    qed
  qed
qed

lemma gap_rel_retransmit:
  assumes "gap_rel g p"
  shows "gap_rel (fst (on_retransmit s g)) (sp_step (GRetransmit s) p)"
proof (cases "s \<in> missing g")
  case True
  then have "s < sp_top p" using gap_relD(3) [OF assms] by simp
  then show ?thesis using True gap_rel_fill [OF assms True] by (simp add: on_retransmit_def)
next
  case False
  then show ?thesis using assms gap_rel_known [OF assms] by (simp add: on_retransmit_def)
qed

lemma takeWhile_sorted_set:
  fixes A :: "int set"
  assumes "finite A"
  shows "set (takeWhile (\<lambda>s. s \<le> n) (sorted_list_of_set A)) = A \<inter> {..n}"
    and "length (takeWhile (\<lambda>s. s \<le> n) (sorted_list_of_set A)) = card (A \<inter> {..n})"
proof -
  have s: "set (takeWhile (\<lambda>s. s \<le> n) xs) = set xs \<inter> {..n}" if "sorted xs" for xs :: "int list"
    using that by (induction xs) auto
  from s [OF sorted_sorted_list_of_set] show "set (takeWhile (\<lambda>s. s \<le> n) (sorted_list_of_set A)) = A \<inter> {..n}"
    using assms by simp
  then show "length (takeWhile (\<lambda>s. s \<le> n) (sorted_list_of_set A)) = card (A \<inter> {..n})"
    using distinct_card [of "takeWhile (\<lambda>s. s \<le> n) (sorted_list_of_set A)"] by (simp add: distinct_takeWhile)
qed

lemma gap_rel_snapshot:
  assumes "gap_rel g p" "seq_ok s"
  shows "gap_rel (snapshot_resync s g) (sp_step (GSnapshot s) p)"
proof -
  have fin: "finite (missing g)" using assms(1) by (simp add: gap_rel_def)
  note T = takeWhile_sorted_set [OF fin, of s]
  have u: "u64 (s + 1) = s + 1" using assms(2) by (simp add: seq_ok_def u64_id)
  have card: "int (card (missing g - missing g \<inter> {..s})) = int (card (missing g)) - int (card (missing g \<inter> {..s}))"
    using fin by (simp add: card_Diff_subset card_mono of_nat_diff)
  have le: "card (missing g \<inter> {..s}) \<le> card (missing g)" using fin by (simp add: card_mono)
  have w: "u64 (recovered g + int (card (missing g \<inter> {..s}))) = recovered g + int (card (missing g \<inter> {..s}))"
    using gap_relD(4,5,6,7,8) [OF assms(1)] le by (intro u64_id) linarith+
  have top: "(if u64 (s + 1) > expected g then u64 (s + 1) else expected g) = max (sp_top p) (s + 1)"
    using assms(1) u by (auto simp: gap_rel_def)
  note D = gap_relD [OF assms(1)]
  have m: "missing g - missing g \<inter> {..s}
      = {(if sp_started p then sp_base p else s + 1)..<max (sp_top p) (s + 1)} - (sp_have p \<union> {..s})"
    unfolding D(3) using D(12) assms(2) by (auto simp: seq_ok_def max_def split: if_splits)
  have g: "snapshot_resync s g = g\<lparr>missing := missing g - missing g \<inter> {..s},
      recovered := recovered g + int (card (missing g \<inter> {..s})), expected := max (sp_top p) (s + 1), gr_initialized := True\<rparr>"
    by (simp add: snapshot_resync_def Let_def T w top)
  show ?thesis
    using D card [unfolded m] assms(2) m unfolding g gap_rel_def seq_ok_def by auto
qed

lemma gap_rel_step: "gap_rel g p \<Longrightarrow> seq_ok (gap_seq e) \<Longrightarrow> gap_rel (gap_exec e g) (sp_step e p)"
  using gap_rel_observe gap_rel_retransmit gap_rel_snapshot by (cases e) simp_all

lemma gap_rel_run:
  "gap_rel g p \<Longrightarrow> \<forall>e \<in> set es. seq_ok (gap_seq e) \<Longrightarrow> gap_rel (fold gap_exec es g) (fold sp_step es p)"
  by (induction es arbitrary: g p) (auto intro: gap_rel_step)

section \<open>Ranges of missing numbers\<close>

definition range_set :: "(int \<times> int) list \<Rightarrow> int set" where
  "range_set rs = (\<Union>(lo, hi) \<in> set rs. {lo..hi})"

text \<open>Ranges in ascending order, none empty, with a number between each and the next.\<close>

fun separated :: "(int \<times> int) list \<Rightarrow> bool" where
  "separated [] = True"
| "separated [(lo, hi)] = (lo \<le> hi)"
| "separated ((lo, hi) # (lo', hi') # rs) = (lo \<le> hi \<and> hi + 1 < lo' \<and> separated ((lo', hi') # rs))"

lemma range_set_Cons: "range_set ((lo, hi) # rs) = {lo..hi} \<union> range_set rs"
  by (simp add: range_set_def)

lemma ranges_from_hd: "\<exists>hi rs. ranges_from start prev ss = (start, hi) # rs"
  by (induction ss arbitrary: start prev) auto

lemma separated_Cons:
  "separated ((lo, hi) # (lo', hi') # rs) \<longleftrightarrow> lo \<le> hi \<and> hi + 1 < lo' \<and> separated ((lo', hi') # rs)"
  by simp

lemma ranges_from_exact:
  assumes "sorted_wrt (<) (prev # ss)" "start \<le> prev" "\<forall>s \<in> set (prev # ss). 0 \<le> s \<and> s < 2 ^ 64"
  shows "range_set (ranges_from start prev ss) = {start..prev} \<union> set ss \<and> separated (ranges_from start prev ss)
    \<and> length (ranges_from start prev ss) = Suc (count_runs (Some prev) ss)"
  using assms
proof (induction ss arbitrary: start prev)
  case Nil
  then show ?case by (simp add: range_set_def)
next
  case (Cons s ss)
  have s: "prev < s" "sorted_wrt (<) (s # ss)" "\<forall>x \<in> set (s # ss). 0 \<le> x \<and> x < 2 ^ 64" "0 \<le> prev" "s < 2 ^ 64"
    using Cons.prems by simp_all
  have u: "u64 (prev + 1) = prev + 1" using s(1,4,5) by (intro u64_id) simp_all
  show ?case
  proof (cases "s = prev + 1")
    case True
    have "start \<le> s" using Cons.prems(2) s(1) by simp
    note I = Cons.IH [OF s(2) this s(3)]
    have "{start..s} = insert s {start..prev}" using True Cons.prems(2) by auto
    with I True show ?thesis by (simp add: u)
  next
    case False
    note I = Cons.IH [OF s(2) order_refl s(3)]
    obtain hi rs where r: "ranges_from s s ss = (s, hi) # rs" using ranges_from_hd by blast
    have "prev + 1 < s" using False s(1) by simp
    with I False Cons.prems(2) show ?thesis
      by (simp add: u r range_set_Cons)
  qed
qed

lemma missing_ranges_cover:
  assumes "finite (missing g)" "\<forall>s \<in> missing g. 0 \<le> s \<and> s < 2 ^ 64"
  shows "range_set (missing_ranges g) = missing g" "separated (missing_ranges g)"
    "length (missing_ranges g) = outstanding_range_count g"
proof -
  have "range_set (missing_ranges g) = missing g \<and> separated (missing_ranges g) \<and> length (missing_ranges g) = outstanding_range_count g"
  proof (cases "sorted_list_of_set (missing g)")
    case Nil
    then show ?thesis using assms(1) by (simp add: missing_ranges_def range_set_def outstanding_range_count_def)
  next
    case (Cons s ss)
    have st: "sorted_wrt (<) (s # ss)" using strict_sorted_list_of_set [of "missing g"] by (simp only: Cons)
    have set: "set (s # ss) = missing g" using set_sorted_list_of_set [OF assms(1)] by (simp only: Cons)
    note R = ranges_from_exact [OF st order_refl, unfolded set, OF assms(2)]
    show ?thesis using R set by (simp add: missing_ranges_def outstanding_range_count_def Cons)
  qed
  then show "range_set (missing_ranges g) = missing g" "separated (missing_ranges g)"
    "length (missing_ranges g) = outstanding_range_count g" by simp_all
qed

section \<open>Duplicate filters\<close>

text \<open>The packets a filter lets through, in order.\<close>

fun passed :: "('p \<Rightarrow> 's \<Rightarrow> 's \<times> bool) \<Rightarrow> 'p list \<Rightarrow> 's \<Rightarrow> 'p list" where
  "passed offer [] s = []"
| "passed offer (p # ps) s = (if snd (offer p s) then [p] else []) @ passed offer ps (fst (offer p s))"

text \<open>
  The contract of a duplicate filter: the numbers that are \<open>past\<close> stay so, a packet that passes was
  not past and is from then on.
\<close>

locale once_filter =
  fixes inv :: "'s \<Rightarrow> bool" and past :: "'s \<Rightarrow> int \<Rightarrow> bool" and ok :: "'p \<Rightarrow> bool" and seqno :: "'p \<Rightarrow> int"
    and offer :: "'p \<Rightarrow> 's \<Rightarrow> 's \<times> bool"
  assumes inv_offer: "inv s \<Longrightarrow> ok p \<Longrightarrow> inv (fst (offer p s))"
    and past_offer: "inv s \<Longrightarrow> ok p \<Longrightarrow> past s n \<Longrightarrow> past (fst (offer p s)) n"
    and offer_fresh: "inv s \<Longrightarrow> ok p \<Longrightarrow> snd (offer p s) \<Longrightarrow> \<not> past s (seqno p) \<and> past (fst (offer p s)) (seqno p)"
begin

lemma passed_once:
  "inv s \<Longrightarrow> \<forall>p \<in> set ps. ok p \<Longrightarrow> distinct (map seqno (passed offer ps s)) \<and> (\<forall>p \<in> set (passed offer ps s). \<not> past s (seqno p))"
proof (induction ps arbitrary: s)
  case (Cons p ps)
  then have "inv (fst (offer p s))" by (simp add: inv_offer)
  with Cons have I: "distinct (map seqno (passed offer ps (fst (offer p s))))"
    "\<forall>x \<in> set (passed offer ps (fst (offer p s))). \<not> past (fst (offer p s)) (seqno x)" by simp_all
  have "\<forall>x \<in> set (passed offer ps (fst (offer p s))). \<not> past s (seqno x)"
    using I(2) past_offer Cons.prems by auto
  moreover have "seqno p \<notin> seqno ` set (passed offer ps (fst (offer p s)))" if "snd (offer p s)"
    using offer_fresh [OF _ _ that] I(2) Cons.prems by auto
  ultimately show ?case using I(1) offer_fresh Cons.prems by auto
qed simp

end

text \<open>A filter without a window forgets nothing: what is not past passes.\<close>

locale full_filter = once_filter +
  assumes fresh_passes: "inv s \<Longrightarrow> ok p \<Longrightarrow> \<not> past s (seqno p) \<Longrightarrow> snd (offer p s)"
    and past_only: "inv s \<Longrightarrow> ok p \<Longrightarrow> past (fst (offer p s)) n \<Longrightarrow> past s n \<or> n = seqno p"
begin

lemma passed_all:
  "inv s \<Longrightarrow> \<forall>p \<in> set ps. ok p \<Longrightarrow> seqno ` set (passed offer ps s) = {n \<in> seqno ` set ps. \<not> past s n}"
proof (induction ps arbitrary: s)
  case (Cons p ps)
  then have "inv (fst (offer p s))" by (simp add: inv_offer)
  with Cons have I: "seqno ` set (passed offer ps (fst (offer p s))) = {n \<in> seqno ` set ps. \<not> past (fst (offer p s)) n}" by simp
  show ?case
  proof (cases "past s (seqno p)")
    case True
    then have "past (fst (offer p s)) n \<longleftrightarrow> past s n" for n
      using past_only past_offer Cons.prems by (metis list.set_intros(1))
    then show ?thesis using I True offer_fresh Cons.prems by auto
  next
    case False
    then have "snd (offer p s)" "past (fst (offer p s)) n \<longleftrightarrow> past s n \<or> n = seqno p" for n
      using fresh_passes offer_fresh past_only past_offer Cons.prems by (metis list.set_intros(1))+
    then show ?thesis using I False by auto
  qed
qed simp

end

subsection \<open>The A/B arbiter\<close>

definition ab_offer :: "int \<times> bool \<Rightarrow> ABLine \<Rightarrow> ABLine \<times> bool" where
  "ab_offer p a = ab_on_packet (fst p) (snd p) a"

definition ab_past :: "ABLine \<Rightarrow> int \<Rightarrow> bool" where
  "ab_past a n \<longleftrightarrow> gr_initialized (ab_rec a) \<and> n < expected (ab_rec a) \<and> n \<notin> missing (ab_rec a)"

definition ab_inv :: "ABLine \<Rightarrow> bool" where
  "ab_inv a \<longleftrightarrow> (\<forall>n \<in> missing (ab_rec a). n < expected (ab_rec a)) \<and> 0 \<le> expected (ab_rec a) \<and> expected (ab_rec a) < 2 ^ 64
     \<and> (\<not> gr_initialized (ab_rec a) \<longrightarrow> missing (ab_rec a) = {})"

lemma observe_new:
  assumes "seq_ok s" "\<not> gr_initialized g \<or> s \<ge> expected g \<or> s \<in> missing g" "\<forall>n \<in> missing g. n < expected g"
  shows "gr_initialized (observe s g)"
    "expected (observe s g) = (if gr_initialized g then max (expected g) (s + 1) else s + 1)"
    "missing (observe s g) = (if gr_initialized g then (missing g \<union> {expected g..<s}) - {s} else missing g)"
proof -
  have u: "u64 (s + 1) = s + 1" using assms(1) by (simp add: seq_ok_def u64_id)
  show "gr_initialized (observe s g)" by (simp add: observe_def Let_def)
  show "expected (observe s g) = (if gr_initialized g then max (expected g) (s + 1) else s + 1)"
    using assms u by (auto simp: observe_def Let_def)
  show "missing (observe s g) = (if gr_initialized g then (missing g \<union> {expected g..<s}) - {s} else missing g)"
    using assms u by (auto simp: observe_def Let_def)
qed

lemma ab_offer_state:
  assumes "ab_inv a" "seq_ok (fst p)"
  shows "snd (ab_offer p a) \<longleftrightarrow> \<not> ab_past a (fst p)"
    and "ab_inv (fst (ab_offer p a))"
    and "gr_initialized (ab_rec a) \<Longrightarrow> gr_initialized (ab_rec (fst (ab_offer p a))) \<and>
      (ab_past (fst (ab_offer p a)) n \<longleftrightarrow> ab_past a n \<or> n = fst p)"
    and "\<not> gr_initialized (ab_rec a) \<Longrightarrow> ab_past (fst (ab_offer p a)) n \<longleftrightarrow> n \<le> fst p"
proof -
  show new: "snd (ab_offer p a) \<longleftrightarrow> \<not> ab_past a (fst p)"
    by (auto simp: ab_offer_def ab_on_packet_def ab_past_def Let_def)
  have r: "ab_rec (fst (ab_offer p a)) = (if ab_past a (fst p) then ab_rec a else observe (fst p) (ab_rec a))"
    by (auto simp: ab_offer_def ab_on_packet_def ab_past_def Let_def)
  have lt: "\<forall>n \<in> missing (ab_rec a). n < expected (ab_rec a)" using assms(1) by (simp add: ab_inv_def)
  note O = observe_new [OF assms(2) _ lt]
  have n: "\<not> gr_initialized (ab_rec a) \<or> fst p \<ge> expected (ab_rec a) \<or> fst p \<in> missing (ab_rec a)" if "\<not> ab_past a (fst p)"
    using that by (auto simp: ab_past_def)
  show "ab_inv (fst (ab_offer p a))"
    using assms O [OF n] by (cases "ab_past a (fst p)") (auto simp: ab_inv_def r seq_ok_def)
  show "gr_initialized (ab_rec (fst (ab_offer p a))) \<and> (ab_past (fst (ab_offer p a)) n \<longleftrightarrow> ab_past a n \<or> n = fst p)"
    if "gr_initialized (ab_rec a)"
    using that O [OF n] assms lt by (cases "ab_past a (fst p)") (auto simp: ab_past_def r)
  show "ab_past (fst (ab_offer p a)) n \<longleftrightarrow> n \<le> fst p" if "\<not> gr_initialized (ab_rec a)"
    using that O [OF n] assms(1) by (auto simp: ab_past_def r ab_inv_def)
qed

interpretation ab: full_filter "\<lambda>a. ab_inv a \<and> gr_initialized (ab_rec a)" ab_past "\<lambda>p. seq_ok (fst p)" fst ab_offer
proof
  fix s :: ABLine and p :: "int \<times> bool" and n :: int
  assume a: "ab_inv s \<and> gr_initialized (ab_rec s)" "seq_ok (fst p)"
  note S = ab_offer_state [OF conjunct1 [OF a(1)] a(2)]
  show "ab_inv (fst (ab_offer p s)) \<and> gr_initialized (ab_rec (fst (ab_offer p s)))" using S(2,3) a by blast
  show "ab_past s n \<Longrightarrow> ab_past (fst (ab_offer p s)) n" using S(3) a by blast
  show "snd (ab_offer p s) \<Longrightarrow> \<not> ab_past s (fst p) \<and> ab_past (fst (ab_offer p s)) (fst p)" using S(1,3) a by blast
  show "\<not> ab_past s (fst p) \<Longrightarrow> snd (ab_offer p s)" using S(1) by blast
  show "ab_past (fst (ab_offer p s)) n \<Longrightarrow> ab_past s n \<or> n = fst p" using S(3) a by blast
qed

subsection \<open>The dual feed reconciler\<close>

interpretation df: full_filter "\<lambda>d. True" "\<lambda>d n. n \<in> df_seen d" "\<lambda>p. True" fst "\<lambda>p d. df_on_packet (fst p) (snd p) d"
  by unfold_locales (auto simp: df_on_packet_def Let_def split: if_splits)

subsection \<open>The window filter\<close>

definition dw_inv :: "int \<Rightarrow> DedupWindow \<Rightarrow> bool" where
  "dw_inv w d \<longleftrightarrow> dw_window d = w \<and> 0 < w \<and> finite (dw_seen d) \<and> (\<forall>n \<in> dw_seen d. 0 \<le> n \<and> n \<le> high d)
     \<and> 0 \<le> high d \<and> high d + w < 2 ^ 64 \<and> (\<not> dw_init d \<longrightarrow> dw_seen d = {} \<and> high d = 0)"

definition dw_past :: "DedupWindow \<Rightarrow> int \<Rightarrow> bool" where
  "dw_past d n \<longleftrightarrow> dw_init d \<and> (n + dw_window d \<le> high d \<or> n \<in> dw_seen d)"

definition dw_ok :: "int \<Rightarrow> int \<Rightarrow> bool" where
  "dw_ok w n \<longleftrightarrow> 0 \<le> n \<and> n + w < 2 ^ 64"

lemma dw_prune_seen:
  assumes "finite (dw_seen d)" "\<forall>n \<in> dw_seen d. 0 \<le> n \<and> n \<le> high d" "0 < dw_window d" "high d + dw_window d < 2 ^ 64"
  shows "dw_seen (dw_prune d) = {n \<in> dw_seen d. high d < n + dw_window d}"
proof -
  let ?P = "\<lambda>s. u64 (s + dw_window d) \<le> high d"
  have u: "u64 (n + dw_window d) = n + dw_window d" if "n \<in> dw_seen d" for n
    using assms that by (intro u64_id) fastforce+
  have s: "set (dropWhile ?P xs) = {n \<in> set xs. high d < n + dw_window d}"
    if "sorted xs" "set xs \<subseteq> dw_seen d" for xs
    using that
  proof (induction xs)
    case (Cons x xs)
    then have x: "x \<in> dw_seen d" "\<forall>y \<in> set xs. x \<le> y" by simp_all
    show ?case
    proof (cases "?P x")
      case True
      then show ?thesis using Cons u [OF x(1)] by auto
    next
      case False
      then show ?thesis using x u [OF x(1)] by auto
    qed
  qed simp
  show ?thesis using s [of "sorted_list_of_set (dw_seen d)"] assms(1) by (simp add: dw_prune_def)
qed

lemma dw_accept_state:
  assumes "dw_inv w d" "dw_ok w n"
  shows "snd (dw_accept n d) \<longleftrightarrow> \<not> dw_past d n"
    and "dw_inv w (fst (dw_accept n d))"
    and "dw_past (fst (dw_accept n d)) k \<longleftrightarrow>
      dw_past d k \<or> k = n \<and> snd (dw_accept n d) \<or> snd (dw_accept n d) \<and> k + w \<le> n"
proof -
  have w: "u64 (n + w) = n + w" "0 \<le> n" "n + w < 2 ^ 64" "0 < w" "dw_window d = w"
    using assms by (auto simp: dw_ok_def dw_inv_def intro!: u64_id)
  show acc: "snd (dw_accept n d) \<longleftrightarrow> \<not> dw_past d n"
    using w by (auto simp: dw_accept_def dw_past_def Let_def)
  define d1 where "d1 = d\<lparr>dw_seen := insert n (dw_seen d), high := (if n > high d then n else high d)\<rparr>"
  have s: "dw_seen (dw_prune d1) = {k \<in> insert n (dw_seen d). max n (high d) < k + w}"
    using assms w by (subst dw_prune_seen) (auto simp: d1_def dw_inv_def)
  have p: "high (dw_prune d1) = max n (high d)" "dw_init (dw_prune d1) = dw_init d" "dw_window (dw_prune d1) = w"
    using w by (auto simp: dw_prune_def d1_def)
  consider (first) "\<not> dw_init d" | (dup) "dw_init d" "dw_past d n" | (new) "dw_init d" "\<not> dw_past d n" by blast
  then have "dw_inv w (fst (dw_accept n d)) \<and> (dw_past (fst (dw_accept n d)) k \<longleftrightarrow>
      dw_past d k \<or> k = n \<and> snd (dw_accept n d) \<or> snd (dw_accept n d) \<and> k + w \<le> n)"
  proof cases
    case first
    then show ?thesis using assms w by (auto simp: dw_accept_def dw_inv_def dw_past_def)
  next
    case dup
    then have "fst (dw_accept n d) = d\<lparr>dw_duplicates := u64 (dw_duplicates d + 1)\<rparr>"
      using w by (auto simp: dw_accept_def dw_past_def)
    then show ?thesis using assms dup acc by (simp add: dw_inv_def dw_past_def)
  next
    case new
    then have f: "fst (dw_accept n d) = (dw_prune d1)\<lparr>accepted := u64 (accepted (dw_prune d1) + 1)\<rparr>"
      using w by (auto simp: dw_accept_def dw_past_def d1_def Let_def)
    have "dw_inv w (fst (dw_accept n d))"
      using assms w new by (auto simp: dw_inv_def f p s)
    moreover have "dw_past (fst (dw_accept n d)) k \<longleftrightarrow> dw_past d k \<or> k = n \<or> k + w \<le> n"
      using w new by (auto simp: dw_past_def f p s)
    ultimately show ?thesis using acc new by blast
  qed
  then show "dw_inv w (fst (dw_accept n d))"
    "dw_past (fst (dw_accept n d)) k \<longleftrightarrow> dw_past d k \<or> k = n \<and> snd (dw_accept n d) \<or> snd (dw_accept n d) \<and> k + w \<le> n"
    by blast+
qed

interpretation dw: once_filter "dw_inv w" dw_past "dw_ok w" "\<lambda>n. n" dw_accept for w
  by unfold_locales (use dw_accept_state in blast)+

section \<open>Gap-free prefixes\<close>

text \<open>
  The contiguous tracker: everything from the start up to the next expected number has been
  received, the next expected one has not, and what is set aside is what was received beyond it.
\<close>

definition ct_inv :: "int \<Rightarrow> int set \<Rightarrow> ContiguousTracker \<Rightarrow> bool" where
  "ct_inv start S c \<longleftrightarrow> start \<le> next_expected c \<and> {start..<next_expected c} \<subseteq> S \<and> next_expected c \<notin> S
     \<and> ahead c = {s \<in> S. s > next_expected c} \<and> finite S \<and> (\<forall>s \<in> S. seq_ok s) \<and> 0 \<le> start"

lemma ct_drain_inv:
  assumes "start \<le> next_expected c" "{start..<next_expected c} \<subseteq> S" "ahead c = {s \<in> S. s \<ge> next_expected c}"
    "finite S" "\<forall>s \<in> S. seq_ok s" "0 \<le> start" "card (ahead c) \<le> fuel"
  shows "ct_inv start S (ct_drain fuel c)"
  using assms
proof (induction fuel arbitrary: c)
  case 0
  then have "ahead c = {}" by simp
  then have "next_expected c \<notin> S" "{s \<in> S. s > next_expected c} = {}" using 0(3) by auto
  then show ?case using 0 \<open>ahead c = {}\<close> by (simp add: ct_inv_def)
next
  case (Suc fuel)
  show ?case
  proof (cases "next_expected c \<in> ahead c")
    case True
    then have n: "next_expected c \<in> S" "seq_ok (next_expected c)" using Suc.prems(3,5) by auto
    then have u: "u64 (next_expected c + 1) = next_expected c + 1" by (simp add: seq_ok_def u64_id)
    let ?c = "c\<lparr>ahead := ahead c - {next_expected c}, next_expected := next_expected c + 1\<rparr>"
    have "finite (ahead c)" using Suc.prems(3,4) by simp
    then have "card (ahead ?c) \<le> fuel" using Suc.prems(7) True by simp
    moreover have "{start..<next_expected c + 1} \<subseteq> insert (next_expected c) {start..<next_expected c}" by auto
    then have "{start..<next_expected ?c} \<subseteq> S" using Suc.prems(2) n(1) by auto
    moreover have "ahead ?c = {s \<in> S. s \<ge> next_expected ?c}" by (simp add: Suc.prems(3)) auto
    ultimately have "ct_inv start S (ct_drain fuel ?c)" using Suc.prems by (intro Suc.IH) simp_all
    then show ?thesis using True by (simp add: u)
  next
    case False
    then have "next_expected c \<notin> S" using Suc.prems(3) by auto
    moreover from this have "{s \<in> S. s \<ge> next_expected c} = {s \<in> S. s > next_expected c}" by (auto simp: order_le_less)
    ultimately show ?thesis using Suc.prems False by (simp add: ct_inv_def)
  qed
qed

lemma ct_receive_inv:
  assumes "ct_inv start S c" "seq_ok s"
  shows "ct_inv start (insert s S) (ct_receive s c)"
proof -
  have I: "start \<le> next_expected c" "{start..<next_expected c} \<subseteq> S" "next_expected c \<notin> S" "ahead c = {s \<in> S. s > next_expected c}"
    "finite S" "\<forall>s \<in> S. seq_ok s" "0 \<le> start" using assms(1) by (simp_all add: ct_inv_def)
  consider (old) "s < next_expected c" | (eq) "s = next_expected c" | (far) "s > next_expected c" by linarith
  then show ?thesis
  proof cases
    case old
    moreover from this have "{x \<in> insert s S. x > next_expected c} = {x \<in> S. x > next_expected c}" by auto
    ultimately show ?thesis using assms(2) I old unfolding ct_inv_def ct_receive_def by (simp add: subset_insertI2)
  next
    case eq
    have u: "u64 (next_expected c + 1) = next_expected c + 1" using assms(2) eq by (simp add: seq_ok_def u64_id)
    let ?c = "c\<lparr>next_expected := next_expected c + 1\<rparr>"
    have a: "ahead ?c = {x \<in> insert s S. x \<ge> next_expected ?c}" unfolding eq by (simp add: I(4)) auto
    have "{start..<next_expected c + 1} \<subseteq> insert (next_expected c) {start..<next_expected c}" by auto
    then have b: "{start..<next_expected ?c} \<subseteq> insert s S" using I(2) unfolding eq by auto
    have "ct_inv start (insert s S) (ct_drain (card (ahead c)) ?c)"
      by (rule ct_drain_inv [OF _ b a]) (use I assms(2) in simp_all)
    then show ?thesis using eq by (simp add: ct_receive_def u)
  next
    case far
    have "insert s (ahead c) = {x \<in> insert s S. x > next_expected c}" using far I(4) by auto
    with far I assms(2) show ?thesis unfolding ct_inv_def ct_receive_def Let_def by (simp add: subset_insertI2)
  qed
qed

text \<open>The reorder buffer, when every packet numbered \<open>s\<close> carries the value \<open>f s\<close>.\<close>

definition rb_core :: "(int \<Rightarrow> 'a) \<Rightarrow> int \<Rightarrow> int set \<Rightarrow> 'a ReorderBuffer \<Rightarrow> bool" where
  "rb_core f b S r \<longleftrightarrow> rb_initialized r \<and> hm_wf (rb_pending r) \<and> b \<le> rb_expected r \<and> rb_out r = map f [b..rb_expected r - 1]
     \<and> {b..<rb_expected r} \<subseteq> S \<and> (\<forall>s v. map_of (rb_pending r) s = Some v \<longleftrightarrow> s \<in> S \<and> rb_expected r \<le> s \<and> v = f s)
     \<and> (\<forall>s \<in> S. seq_ok s) \<and> 0 \<le> b"

lemma hm_delete_shorter: "map_of m k \<noteq> None \<Longrightarrow> length (AList.delete k m) < length m"
  unfolding AList.delete_eq by (rule length_filter_less [of "(k, the (map_of m k))"]) (auto dest: map_of_SomeD)

lemma rb_drain_core:
  assumes "rb_core f b S r" "length (rb_pending r) \<le> fuel"
  shows "rb_core f b S (rb_drain fuel r) \<and> rb_expected (rb_drain fuel r) \<notin> S"
  using assms
proof (induction fuel arbitrary: r)
  case 0
  then have "map_of (rb_pending r) (rb_expected r) = None" by simp
  then have "rb_expected r \<notin> S" using 0(1) unfolding rb_core_def by (metis option.distinct(1) order_refl)
  with 0 show ?case by simp
next
  case (Suc fuel)
  show ?case
  proof (cases "map_of (rb_pending r) (rb_expected r)")
    case None
    then have "rb_expected r \<notin> S" using Suc.prems(1) unfolding rb_core_def by (metis option.distinct(1) order_refl)
    with None Suc.prems show ?thesis by simp
  next
    case (Some v)
    let ?e = "rb_expected r"
    have v: "?e \<in> S" "v = f ?e" "seq_ok ?e" "b \<le> ?e" using Suc.prems(1) Some by (auto simp: rb_core_def)
    have u: "u64 (?e + 1) = ?e + 1" using v(3) by (simp add: seq_ok_def u64_id)
    let ?r = "r\<lparr>rb_out := rb_out r @ [v], rb_pending := AList.delete ?e (rb_pending r), rb_expected := ?e + 1\<rparr>"
    have m: "map_of (AList.delete ?e (rb_pending r)) s = (if s = ?e then None else map_of (rb_pending r) s)" for s
      by (simp add: alist_simps)
    have out: "rb_out r @ [v] = map f [b..?e]" using Suc.prems(1) v(2) upto_rec2 [OF v(4)] by (simp add: rb_core_def)
    have "{b..<?e + 1} \<subseteq> insert ?e {b..<?e}" by auto
    then have sub: "{b..<?e + 1} \<subseteq> S" using Suc.prems(1) v(1) unfolding rb_core_def by auto
    have pend: "map_of (rb_pending ?r) s = Some w \<longleftrightarrow> s \<in> S \<and> rb_expected ?r \<le> s \<and> w = f s" for s w
      using Suc.prems(1) by (auto simp: rb_core_def m)
    have "rb_core f b S ?r"
      using Suc.prems(1) out sub pend unfolding rb_core_def by (simp add: alist_simps)
    moreover have "length (rb_pending ?r) \<le> fuel" using hm_delete_shorter [of "rb_pending r" ?e] Some Suc.prems(2) by simp
    ultimately show ?thesis using Suc.IH [of ?r] Some by (simp add: u)
  qed
qed

lemma rb_push_core:
  assumes "rb_core f b S r" "rb_expected r \<notin> S" "seq_ok s"
  shows "rb_core f b (insert s S) (rb_push s (f s) r) \<and> rb_expected (rb_push s (f s) r) \<notin> insert s S"
proof (cases "s < rb_expected r")
  case True
  then have "rb_push s (f s) r = r\<lparr>rb_duplicates := u64 (rb_duplicates r + 1)\<rparr>"
    using assms(1) by (simp add: rb_push_def rb_core_def Let_def)
  with True assms show ?thesis by (auto simp: rb_core_def)
next
  case False
  let ?p = "AList.update s (f s) (rb_pending r)"
  define mx where "mx = (if length ?p > rb_max_buffered r then length ?p else rb_max_buffered r)"
  let ?r = "r\<lparr>rb_pending := ?p, rb_max_buffered := mx\<rparr>"
  have pend: "map_of ?p x = Some v \<longleftrightarrow> x \<in> insert s S \<and> rb_expected r \<le> x \<and> v = f x" for x v
    using assms(1) False by (auto simp: rb_core_def update_conv')
  have "rb_core f b (insert s S) ?r"
    using assms(1,3) pend unfolding rb_core_def by (auto simp: alist_simps)
  from rb_drain_core [OF this, of "length ?p"] show ?thesis
    using assms(1) False by (simp add: rb_push_def rb_core_def Let_def mx_def)
qed

section \<open>Retransmission\<close>

datatype rt_ev = RtRequest int int | RtReceived int | RtPoll int

fun rt_exec :: "rt_ev \<Rightarrow> RetransmitTracker \<Rightarrow> RetransmitTracker" where
  "rt_exec (RtRequest s now) t = rt_request s now t"
| "rt_exec (RtReceived s) t = rt_on_received s t"
| "rt_exec (RtPoll now) t = fst (rt_poll now t)"

text \<open>The number of requests that opened an entry.\<close>

fun rt_fresh :: "rt_ev list \<Rightarrow> RetransmitTracker \<Rightarrow> nat" where
  "rt_fresh [] t = 0"
| "rt_fresh (e # es) t = (case e of RtRequest s now \<Rightarrow> if map_of (rt_pending t) s = None then 1 else 0 | _ \<Rightarrow> 0)
     + rt_fresh es (rt_exec e t)"

definition rt_inv :: "nat \<Rightarrow> RetransmitTracker \<Rightarrow> bool" where
  "rt_inv n t \<longleftrightarrow> hm_wf (rt_pending t) \<and> 0 \<le> fulfilled t \<and> 0 \<le> escalated t
     \<and> fulfilled t + escalated t + int (outstanding t) = int n
     \<and> (\<forall>(s, r) \<in> set (rt_pending t). 1 \<le> attempts r \<and> (attempts r \<le> max_attempts t \<or> attempts r = 1))"

lemma map_filter_poll:
  fixes m :: "(int, Req) hmap" and now :: int and t :: RetransmitTracker
  defines "P \<equiv> \<lambda>(k :: int, r). map_option (Pair k) (poll_entry now t r)"
  shows "length (List.map_filter P m) + length (filter (\<lambda>(k, r). due now t r \<and> \<not> attempts r < max_attempts t) m) = length m"
    and "hm_wf m \<Longrightarrow> hm_wf (List.map_filter P m)"
    and "(k, r') \<in> set (List.map_filter P m) \<longleftrightarrow> (\<exists>r. (k, r) \<in> set m \<and> poll_entry now t r = Some r')"
proof -
  show set: "(k, r') \<in> set (List.map_filter P m) \<longleftrightarrow> (\<exists>r. (k, r) \<in> set m \<and> poll_entry now t r = Some r')" for k r' m
    by (induction m) (auto simp: map_filter_simps P_def split: option.splits)
  show "length (List.map_filter P m) + length (filter (\<lambda>(k, r). due now t r \<and> \<not> attempts r < max_attempts t) m) = length m"
  proof (induction m)
    case (Cons x m)
    obtain k r where x: "x = (k, r)" by (cases x)
    have "poll_entry now t r = None \<longleftrightarrow> due now t r \<and> \<not> attempts r < max_attempts t" by (auto simp: poll_entry_def due_def)
    then show ?case using Cons.IH by (cases "poll_entry now t r") (simp_all add: x map_filter_simps P_def)
  qed (simp add: map_filter_simps)
  show "hm_wf m \<Longrightarrow> hm_wf (List.map_filter P m)"
  proof (induction m)
    case (Cons x m)
    obtain k r where x: "x = (k, r)" by (cases x)
    have "k \<notin> fst ` set (List.map_filter P m)" using Cons.prems set by (force simp: x)
    then show ?case using Cons by (simp add: x map_filter_simps P_def split: option.split)
  qed (simp add: map_filter_simps)
qed

lemma outstanding_poll:
  "outstanding (fst (rt_poll now t)) + length (filter (\<lambda>(k, r). due now t r \<and> \<not> attempts r < max_attempts t) (rt_pending t)) = outstanding t"
  using map_filter_poll(1) [where m = "rt_pending t" and now = now and t = t] by (simp add: rt_poll_def outstanding_def Let_def)

lemma rt_exec_config [simp]: "max_attempts (rt_exec e t) = max_attempts t" "timeout_ns (rt_exec e t) = timeout_ns t"
  by (cases e; simp add: rt_request_def rt_on_received_def rt_poll_def Let_def split: option.split)+

lemma rt_run_config [simp]: "max_attempts (fold rt_exec es t) = max_attempts t" "timeout_ns (fold rt_exec es t) = timeout_ns t"
  by (induction es arbitrary: t) simp_all

lemma rt_exec_inv:
  assumes "rt_inv n t" "int n + 1 < 2 ^ 64" "max_attempts t < 2 ^ 31"
  shows "rt_inv (rt_fresh [e] t + n) (rt_exec e t)" "max_attempts (rt_exec e t) = max_attempts t"
proof -
  have I: "hm_wf (rt_pending t)" "0 \<le> fulfilled t" "0 \<le> escalated t" "fulfilled t + escalated t + int (outstanding t) = int n"
    "\<And>s r. (s, r) \<in> set (rt_pending t) \<Longrightarrow> 1 \<le> attempts r \<and> (attempts r \<le> max_attempts t \<or> attempts r = 1)"
    using assms(1) by (auto simp: rt_inv_def)
  show "max_attempts (rt_exec e t) = max_attempts t"
    by (cases e) (auto simp: rt_request_def rt_on_received_def rt_poll_def Let_def split: option.split)
  show "rt_inv (rt_fresh [e] t + n) (rt_exec e t)"
  proof (cases e)
    case (RtRequest s now)
    show ?thesis
    proof (cases "map_of (rt_pending t) s")
      case None
      then have "length (AList.update s x (rt_pending t)) = Suc (length (rt_pending t))" for x
        by (rule length_hm_update)
      with None RtRequest I show ?thesis
        by (auto simp: rt_inv_def rt_request_def outstanding_def alist_simps dest!: hm_set_update)
    next
      case Some
      then show ?thesis using RtRequest assms(1) by (simp add: rt_request_def)
    qed
  next
    case (RtReceived s)
    show ?thesis
    proof (cases "map_of (rt_pending t) s")
      case None
      then show ?thesis using RtReceived assms(1) by (simp add: rt_on_received_def)
    next
      case (Some r)
      have l: "length (rt_pending t) = Suc (length (AList.delete s (rt_pending t)))"
        using I(1) Some by (metis length_hm_delete)
      have "u64 (fulfilled t + 1) = fulfilled t + 1" using I assms(2) by (intro u64_id) linarith+
      with Some RtReceived I l show ?thesis
        by (auto simp: rt_inv_def rt_on_received_def outstanding_def alist_simps dest!: hm_set_delete)
    qed
  next
    case (RtPoll now)
    let ?g = "length (filter (\<lambda>(k, r). due now t r \<and> \<not> attempts r < max_attempts t) (rt_pending t))"
    note O = outstanding_poll [of now t]
    have u: "u64 (escalated t + int ?g) = escalated t + int ?g" using I O assms(2) by (intro u64_id) linarith+
    have a: "1 \<le> attempts r' \<and> (attempts r' \<le> max_attempts t \<or> attempts r' = 1)"
      if "(s, r) \<in> set (rt_pending t)" "poll_entry now t r = Some r'" for s r r'
      using I(5) [OF that(1)] that(2) assms(3) by (auto simp: poll_entry_def s32_id split: if_splits)
    have f: "fulfilled (fst (rt_poll now t)) = fulfilled t" "escalated (fst (rt_poll now t)) = escalated t + int ?g"
      "max_attempts (fst (rt_poll now t)) = max_attempts t"
      using u by (simp_all add: rt_poll_def Let_def)
    have w: "hm_wf (rt_pending (fst (rt_poll now t)))"
      "\<And>s r'. (s, r') \<in> set (rt_pending (fst (rt_poll now t))) \<Longrightarrow> \<exists>r. (s, r) \<in> set (rt_pending t) \<and> poll_entry now t r = Some r'"
      using map_filter_poll(2,3) [where m = "rt_pending t" and now = now and t = t] I(1) by (simp_all add: rt_poll_def Let_def)
    show ?thesis
      unfolding rt_inv_def RtPoll rt_exec.simps f
      using I(2,3,4) O w a by (auto simp del: of_nat_add) fastforce+
  qed
qed

text \<open>Polls that come a timeout after everything they find: each raises the least number of attempts.\<close>

fun spaced :: "int \<Rightarrow> int \<Rightarrow> int list \<Rightarrow> bool" where
  "spaced tmo prev [] = True"
| "spaced tmo prev (x # xs) = (prev + tmo \<le> x \<and> 0 \<le> x \<and> x < 2 ^ 63 \<and> spaced tmo x xs)"

lemma poll_progress:
  assumes "\<forall>(s, r) \<in> set (rt_pending t). k \<le> attempts r \<and> last_sent_ns r \<le> prev \<and> 0 \<le> last_sent_ns r"
    and "prev + timeout_ns t \<le> now" "0 \<le> now" "now < 2 ^ 63" "max_attempts t < 2 ^ 31" "1 \<le> k" "0 \<le> timeout_ns t"
  shows "\<forall>(s, r) \<in> set (rt_pending (fst (rt_poll now t))). k + 1 \<le> attempts r \<and> attempts r \<le> max_attempts t
    \<and> last_sent_ns r = now"
proof -
  have "k + 1 \<le> attempts r' \<and> attempts r' \<le> max_attempts t \<and> last_sent_ns r' = now"
    if "(s, r) \<in> set (rt_pending t)" "poll_entry now t r = Some r'" for s r r'
  proof -
    have r: "k \<le> attempts r" "last_sent_ns r \<le> prev" "0 \<le> last_sent_ns r" using assms(1) that(1) by auto
    have w: "s64 (now - last_sent_ns r) = now - last_sent_ns r" using r assms(2,4,7) by (intro s64_id) simp_all
    have "timeout_ns t \<le> now - last_sent_ns r" using r assms(2) by linarith
    then have p: "attempts r < max_attempts t" "r' = \<lparr>last_sent_ns = now, attempts = s32 (attempts r + 1)\<rparr>"
      using that(2) by (auto simp: poll_entry_def w split: if_splits)
    have "s32 (attempts r + 1) = attempts r + 1" using p(1) r(1) assms(5,6) by (intro s32_id) linarith+
    then show ?thesis using p r by simp
  qed
  then show ?thesis using map_filter_poll(3) [where m = "rt_pending t" and now = now and t = t] by (fastforce simp: rt_poll_def Let_def)
qed

lemma polls_progress:
  assumes "\<forall>(s, r) \<in> set (rt_pending t). k \<le> attempts r \<and> last_sent_ns r \<le> prev \<and> 0 \<le> last_sent_ns r"
    and "spaced (timeout_ns t) prev xs" "max_attempts t < 2 ^ 31" "1 \<le> k" "0 \<le> timeout_ns t" "xs \<noteq> []"
  shows "\<forall>(s, r) \<in> set (rt_pending (fold (\<lambda>now t. fst (rt_poll now t)) xs t)).
      k + int (length xs) \<le> attempts r \<and> attempts r \<le> max_attempts t"
  using assms
proof (induction xs arbitrary: t k prev)
  case (Cons now xs)
  let ?t = "fst (rt_poll now t)"
  have now: "prev + timeout_ns t \<le> now" "0 \<le> now" "now < 2 ^ 63" "spaced (timeout_ns t) now xs" using Cons.prems(2) by simp_all
  note P = poll_progress [OF Cons.prems(1) now(1,2,3) Cons.prems(3,4,5)]
  have c: "timeout_ns ?t = timeout_ns t" "max_attempts ?t = max_attempts t" by (simp_all add: rt_poll_def Let_def)
  show ?case
  proof (cases "xs = []")
    case True
    then show ?thesis using P by auto
  next
    case False
    have "\<forall>(s, r) \<in> set (rt_pending ?t). k + 1 \<le> attempts r \<and> last_sent_ns r \<le> now \<and> 0 \<le> last_sent_ns r"
      using P now(2) by auto
    from Cons.IH [OF this] show ?thesis using now(4) Cons.prems(3,4,5) False c by (simp add: algebra_simps)
  qed
qed simp

lemma rt_inv_run:
  assumes "rt_inv n t" "int n + int (length es) < 2 ^ 64" "max_attempts t < 2 ^ 31"
  shows "rt_inv (rt_fresh es t + n) (fold rt_exec es t)"
  using assms
proof (induction es arbitrary: n t)
  case (Cons e es)
  have f: "rt_fresh [e] t \<le> 1" by (simp split: rt_ev.split)
  have I: "rt_inv (rt_fresh [e] t + n) (rt_exec e t)" "max_attempts (rt_exec e t) = max_attempts t"
    using rt_exec_inv [OF Cons.prems(1) _ Cons.prems(3), of e] Cons.prems(2) by simp_all
  from Cons.IH [OF I(1)] show ?case
    using I(2) Cons.prems(2,3) f by (simp add: add.commute add.left_commute)
qed simp

section \<open>Properties\<close>

text \<open>
  C24. Gap detection is exact.  After any mix of packets, retransmissions and snapshots the missing set
  is exactly the numbers between the first one received and the highest one seen that have not
  arrived, the numbers recovered and missing add up to all holes ever opened, and the ranges reported
  for gap-fill requests cover the missing numbers exactly, in ascending maximal runs.
\<close>

theorem gap_recovery_exact:
  assumes "\<forall>e \<in> set es. seq_ok (gap_seq e)"
  defines "g \<equiv> fold gap_exec es gr0" and "p \<equiv> fold sp_step es sp0"
  shows "missing g = {sp_base p..<sp_top p} - sp_have p \<and> expected g = sp_top p
    \<and> recovered g + missing_count g = sp_holes p
    \<and> range_set (missing_ranges g) = missing g \<and> separated (missing_ranges g)
    \<and> length (missing_ranges g) = outstanding_range_count g"
proof -
  have "gap_rel g p" unfolding g_def p_def by (rule gap_rel_run [OF gap_rel_init assms(1)])
  note D = gap_relD [OF this]
  have "\<forall>s \<in> missing g. 0 \<le> s \<and> s < 2 ^ 64" unfolding D(3) using D(7,8) by auto
  note M = missing_ranges_cover [OF D(10) this]
  show ?thesis using D(2,3,4) M unfolding missing_count_def by blast
qed

theorem gap_recovery_exact_witness:
  "missing (fold gap_exec [GObserve 5, GObserve 9, GRetransmit 7, GObserve 6] gr0) = {8}"
proof -
  let ?es = "[GObserve 5, GObserve 9, GRetransmit 7, GObserve 6]"
  have "missing (fold gap_exec ?es gr0)
      = {sp_base (fold sp_step ?es sp0)..<sp_top (fold sp_step ?es sp0)} - sp_have (fold sp_step ?es sp0)"
    by (rule conjunct1 [OF gap_recovery_exact]) (simp add: seq_ok_def)
  also have "\<dots> = {5..<10} - {5, 6, 7, 9}" by (simp add: sp0_def insert_commute)
  also have "\<dots> = {8}" by auto
  finally show ?thesis .
qed

text \<open>
  C25. The A/B arbiter delivers exactly once.  Whatever the interleaving of the two lines, the
  sequence numbers delivered are distinct, and they are all the numbers offered from the first
  packet on upwards.
\<close>

theorem ab_exactly_once:
  assumes "\<forall>p \<in> set (p0 # ps). seq_ok (fst p)"
  shows "distinct (map fst (passed ab_offer (p0 # ps) ab0))
    \<and> fst ` set (passed ab_offer (p0 # ps) ab0) = {n \<in> fst ` set (p0 # ps). fst p0 \<le> n}"
proof -
  have i: "ab_inv ab0" "\<not> gr_initialized (ab_rec ab0)" by (simp_all add: ab_inv_def ab0_def gr0_def)
  have ok: "seq_ok (fst p0)" "\<forall>p \<in> set ps. seq_ok (fst p)" using assms by simp_all
  note S = ab_offer_state [OF i(1) ok(1)]
  let ?a = "fst (ab_offer p0 ab0)"
  have first: "snd (ab_offer p0 ab0)" "gr_initialized (ab_rec ?a)"
    using i(2) by (simp_all add: S(1) ab_past_def) (simp add: ab_offer_def ab_on_packet_def observe_def Let_def)
  have past: "ab_past ?a n \<longleftrightarrow> n \<le> fst p0" for n using S(4) i(2) by blast
  have inv: "ab_inv ?a \<and> gr_initialized (ab_rec ?a)" using S(2) first(2) by blast
  note O = ab.passed_once [OF inv ok(2)] and A = ab.passed_all [OF inv ok(2)]
  have "fst p0 \<notin> fst ` set (passed ab_offer ps ?a)" unfolding A past by simp
  moreover have "insert (fst p0) {n \<in> fst ` set ps. \<not> n \<le> fst p0} = {n \<in> fst ` set (p0 # ps). fst p0 \<le> n}"
    by force
  ultimately show ?thesis using O A first(1) by (simp add: past)
qed

theorem ab_exactly_once_witness:
  "fst ` set (passed ab_offer [(5, True), (7, False), (7, True), (6, True), (5, False)] ab0) = {5, 6, 7}"
proof -
  let ?ps = "[(7, False), (7, True), (6, True), (5, False)]"
  have "fst ` set (passed ab_offer ((5, True) # ?ps) ab0) = {n \<in> fst ` set ((5, True) # ?ps). fst (5 :: int, True) \<le> n}"
    by (rule conjunct2 [OF ab_exactly_once]) (simp add: seq_ok_def)
  also have "\<dots> = {5, 6, 7}" by auto
  finally show ?thesis .
qed

text \<open>
  The window filter delivers no number twice, whatever the order of arrival: a number that fell
  out of the window is refused, not forgotten.
\<close>

theorem dedup_window_once:
  assumes "0 < w" "\<forall>n \<in> set ns. 0 \<le> n \<and> n + w < 2 ^ 64" "w < 2 ^ 64"
  shows "distinct (passed dw_accept ns (dw_new w))"
proof -
  have "dw_inv w (dw_new w)" using assms(1,3) by (simp add: dw_inv_def dw_new_def)
  from dw.passed_once [OF this, of ns] show ?thesis using assms(2) by (simp add: dw_ok_def)
qed

theorem dedup_window_once_witness: "distinct (passed dw_accept [5, 9, 5, 6, 9, 30, 9] (dw_new 8))"
  by (rule dedup_window_once) simp_all

text \<open>
  C26. The reorder buffer delivers in order and without gaps.  Whatever order packets arrive in, what
  it has handed out is the values of consecutive numbers from the first packet's on, and it stops
  only at a number that has not arrived.
\<close>

theorem reorder_buffer_in_order:
  fixes f :: "int \<Rightarrow> 'a"
  assumes "\<forall>s \<in> set (s0 # ss). seq_ok s"
  defines "r \<equiv> fold (\<lambda>s. rb_push s (f s)) (s0 # ss) rb0"
  shows "rb_out r = map f [s0..rb_expected r - 1] \<and> s0 < rb_expected r
    \<and> {s0..<rb_expected r} \<subseteq> set (s0 # ss) \<and> rb_expected r \<notin> set (s0 # ss)"
proof -
  have ok: "seq_ok s0" using assms(1) by simp
  let ?r1 = "rb_push s0 (f s0) rb0" and ?i = "rb0\<lparr>rb_expected := s0, rb_initialized := True\<rparr> :: 'a ReorderBuffer"
  have i: "rb_core f s0 {} ?i" "rb_expected ?i \<notin> {}" using ok by (simp_all add: rb_core_def rb0_def seq_ok_def)
  have "?r1 = rb_push s0 (f s0) ?i" by (simp add: rb_push_def rb0_def)
  then have one: "rb_core f s0 {s0} ?r1 \<and> rb_expected ?r1 \<notin> {s0}" using rb_push_core [OF i ok] by simp
  have run: "rb_core f s0 (S \<union> set xs) (fold (\<lambda>s. rb_push s (f s)) xs r') \<and> rb_expected (fold (\<lambda>s. rb_push s (f s)) xs r') \<notin> S \<union> set xs"
    if "rb_core f s0 S r' \<and> rb_expected r' \<notin> S" "\<forall>s \<in> set xs. seq_ok s" for xs S r'
    using that
  proof (induction xs arbitrary: S r')
    case (Cons x xs)
    then have "rb_core f s0 (insert x S) (rb_push x (f x) r') \<and> rb_expected (rb_push x (f x) r') \<notin> insert x S"
      using rb_push_core by (metis list.set_intros(1))
    from Cons.IH [OF this] Cons.prems(2) show ?case by simp
  qed simp
  have R: "rb_core f s0 (set (s0 # ss)) r" "rb_expected r \<notin> set (s0 # ss)"
    using run [OF one, of ss] assms(1) by (simp_all add: r_def)
  then have "s0 < rb_expected r" unfolding rb_core_def by (metis list.set_intros(1) order_le_less)
  with R show ?thesis unfolding rb_core_def by blast
qed

theorem reorder_buffer_in_order_witness:
  "rb_out (fold (\<lambda>s. rb_push s (s * 10)) [3, 5, 4, 3, 8] rb0) = map (\<lambda>s. s * 10) [3..rb_expected (fold (\<lambda>s. rb_push s (s * 10)) [3, 5, 4, 3, 8] rb0) - 1]"
  by (rule conjunct1 [OF reorder_buffer_in_order]) (simp add: seq_ok_def)

text \<open>
  The contiguous high-water mark: after any arrivals, everything from the start up to the mark has
  been received and the next number has not.
\<close>

theorem contiguous_high_exact:
  assumes "\<forall>s \<in> set ss. seq_ok s" "seq_ok start"
  defines "c \<equiv> fold ct_receive ss (ct_new start)"
  shows "{start..<next_expected c} \<subseteq> set ss \<and> next_expected c \<notin> set ss \<and> start \<le> next_expected c
    \<and> ahead c = {s \<in> set ss. next_expected c < s}"
proof -
  have run: "ct_inv start (S \<union> set xs) (fold ct_receive xs c')" if "ct_inv start S c'" "\<forall>s \<in> set xs. seq_ok s" for xs S c'
    using that
  proof (induction xs arbitrary: S c')
    case (Cons x xs)
    then have "ct_inv start (insert x S) (ct_receive x c')" using ct_receive_inv by simp
    from Cons.IH [OF this] Cons.prems(2) show ?case by simp
  qed simp
  have "ct_inv start {} (ct_new start)" using assms(2) by (simp add: ct_inv_def ct_new_def seq_ok_def)
  from run [OF this assms(1)] show ?thesis by (simp add: c_def ct_inv_def)
qed

theorem contiguous_high_exact_witness:
  "next_expected (fold ct_receive [2, 1, 4] (ct_new 1)) \<notin> {1, 2, 4}"
  using contiguous_high_exact [of "[2, 1, 4]" 1] by (simp add: seq_ok_def)

text \<open>
  C27. Retransmission requests are all accounted for and all end.  After any sequence of calls every
  request ever opened is fulfilled, escalated or still outstanding; and \<open>max_attempts\<close> polls, each at
  least a timeout after the last and with no other call between them, leave nothing outstanding.  (The calls counted are requests,
  receipts and polls, not \<open>reset\<close>.)
\<close>

theorem retransmit_accounted_and_ends:
  fixes tmo mx :: int
  assumes "length es < 2 ^ 63" "1 \<le> mx" "mx < 2 ^ 31" "length polls = nat mx" "0 \<le> tmo"
  defines "t \<equiv> fold rt_exec es (rt_new tmo mx)"
  assumes sent: "\<forall>(s, r) \<in> set (rt_pending t). 0 \<le> last_sent_ns r \<and> last_sent_ns r \<le> prev"
    and sp: "spaced (timeout_ns t) prev polls"
  shows "fulfilled t + escalated t + int (outstanding t) = int (rt_fresh es (rt_new tmo mx))
    \<and> outstanding (fold (\<lambda>now t. fst (rt_poll now t)) polls t) = 0"
proof -
  have "rt_inv 0 (rt_new tmo mx)" by (simp add: rt_inv_def rt_new_def outstanding_def)
  from rt_inv_run [OF this, of es] have inv: "rt_inv (rt_fresh es (rt_new tmo mx)) t"
    using assms(1,3) by (simp add: t_def rt_new_def)
  have mx: "max_attempts t = mx" "timeout_ns t = tmo" by (simp_all add: t_def rt_new_def)
  have p: "polls \<noteq> []" using assms(2,4) by auto
  have "\<forall>(s, r) \<in> set (rt_pending t). 1 \<le> attempts r \<and> last_sent_ns r \<le> prev \<and> 0 \<le> last_sent_ns r"
    using inv sent by (auto simp: rt_inv_def)
  from polls_progress [OF this sp _ order_refl _ p]
  have "\<forall>(s, r) \<in> set (rt_pending (fold (\<lambda>now t. fst (rt_poll now t)) polls t)). 1 + mx \<le> attempts r \<and> attempts r \<le> mx"
    using assms(2,3,4,5) by (simp add: mx)
  then have "rt_pending (fold (\<lambda>now t. fst (rt_poll now t)) polls t) = []"
    by (cases "rt_pending (fold (\<lambda>now t. fst (rt_poll now t)) polls t)") auto
  then show ?thesis using inv by (simp add: rt_inv_def outstanding_def)
qed

theorem retransmit_accounted_and_ends_witness:
  "outstanding (fold (\<lambda>now t. fst (rt_poll now t)) [10, 20]
     (fold rt_exec [RtRequest 7 0, RtRequest 8 0, RtReceived 7] (rt_new 10 2))) = 0"
  by (rule conjunct2 [OF retransmit_accounted_and_ends [where prev = 0]])
    (simp_all add: rt_request_def rt_on_received_def rt_new_def)

end
