(* ===== verification/Feed_Meters.thy ===== *)
theory Feed_Meters
  imports Gap_Recovery
begin

text \<open>
  \<open>multicast/gap_recovery.hpp\<close>, the meters and controls of a feed: message rates over a window,
  inter-arrival times, backpressure, loss and reordering, sequence resets, request throttling, the
  token bucket, conflation, latency, gap-fill times, packet sizes, staleness and the health score.
\<close>

section \<open>Rates over a window\<close>

text \<open>\<open>FeedRateMeter\<close> and \<open>SlidingWindowRate\<close>: a ring of timestamps and its high-water mark.\<close>

definition RING_SIZE :: nat where
  "RING_SIZE = 4096"

record RateMeter =
  window_ns :: int
  ring :: ts_ring
  peak_count :: nat

definition frm_new :: "int \<Rightarrow> RateMeter" where
  "frm_new w = \<lparr>window_ns = (if w > 0 then w else 1), ring = ts_init RING_SIZE, peak_count = 0\<rparr>"

definition swr_new :: "int \<Rightarrow> RateMeter" where
  "swr_new w = \<lparr>window_ns = w, ring = ts_init RING_SIZE, peak_count = 0\<rparr>"

definition rm_on_message :: "int \<Rightarrow> RateMeter \<Rightarrow> RateMeter" where
  "rm_on_message now r =
     (let g = evict RING_SIZE (s64 (now - window_ns r)) (ts_push RING_SIZE now (ring r)); c = ts_count RING_SIZE g
      in r\<lparr>ring := g, peak_count := (if c > peak_count r then c else peak_count r)\<rparr>)"

definition frm_count :: "int \<Rightarrow> RateMeter \<Rightarrow> RateMeter \<times> nat" where
  "frm_count now r = (let g = evict RING_SIZE (s64 (now - window_ns r)) (ring r) in (r\<lparr>ring := g\<rparr>, ts_count RING_SIZE g))"

definition per_sec :: "nat \<Rightarrow> int \<Rightarrow> dbl" where
  "per_sec n w = ddiv (dmul (d_of_int (int n)) (Fin 1000000000)) (d_of_int w)"

definition frm_rate_per_sec :: "int \<Rightarrow> RateMeter \<Rightarrow> RateMeter \<times> dbl" where
  "frm_rate_per_sec now r = (let (r1, n) = frm_count now r in (r1, per_sec n (window_ns r1)))"

definition frm_peak_rate_per_sec :: "RateMeter \<Rightarrow> dbl" where
  "frm_peak_rate_per_sec r = per_sec (peak_count r) (window_ns r)"

definition swr_count :: "RateMeter \<Rightarrow> nat" where
  "swr_count r = ts_count RING_SIZE (ring r)"

definition swr_rate_per_sec :: "RateMeter \<Rightarrow> dbl" where
  "swr_rate_per_sec r = (if window_ns r > 0 then per_sec (swr_count r) (window_ns r) else Fin 0)"

definition swr_peak_rate_per_sec :: "RateMeter \<Rightarrow> dbl" where
  "swr_peak_rate_per_sec r = (if window_ns r > 0 then per_sec (peak_count r) (window_ns r) else Fin 0)"

definition rm_reset :: "RateMeter \<Rightarrow> RateMeter" where
  "rm_reset r = r\<lparr>ring := ts_reset (ring r), peak_count := 0\<rparr>"

section \<open>Inter-arrival times\<close>

record InterArrivalMeter =
  ia_last_ns :: int
  started :: bool
  ia_min_gap :: int
  ia_max_gap :: int
  sum_gap :: int
  ia_gaps :: int

definition ia0 :: InterArrivalMeter where
  "ia0 = \<lparr>ia_last_ns = 0, started = False, ia_min_gap = 2 ^ 63 - 1, ia_max_gap = 0, sum_gap = 0, ia_gaps = 0\<rparr>"

definition ia_on_message :: "int \<Rightarrow> InterArrivalMeter \<Rightarrow> InterArrivalMeter" where
  "ia_on_message now m =
     (let g = s64 (now - ia_last_ns m)
      in if started m \<and> g < 0 then m
         else let m1 = (if started m
                then m\<lparr>ia_min_gap := (if g < ia_min_gap m then g else ia_min_gap m),
                       ia_max_gap := (if g > ia_max_gap m then g else ia_max_gap m),
                       sum_gap := s64 (sum_gap m + g), ia_gaps := u64 (ia_gaps m + 1)\<rparr> else m)
              in m1\<lparr>ia_last_ns := now, started := True\<rparr>)"

definition avg_gap_ns :: "InterArrivalMeter \<Rightarrow> dbl" where
  "avg_gap_ns m = (if ia_gaps m \<noteq> 0 then ddiv (d_of_int (sum_gap m)) (d_of_int (ia_gaps m)) else Fin 0)"

definition min_gap_ns :: "InterArrivalMeter \<Rightarrow> int" where
  "min_gap_ns m = (if ia_gaps m \<noteq> 0 then ia_min_gap m else 0)"

definition jitter_ns :: "InterArrivalMeter \<Rightarrow> int" where
  "jitter_ns m = (if ia_gaps m \<noteq> 0 then s64 (ia_max_gap m - ia_min_gap m) else 0)"

definition burst_ratio :: "InterArrivalMeter \<Rightarrow> dbl" where
  "burst_ratio m = (let avg = avg_gap_ns m in if dlt (Fin 0) avg then ddiv (d_of_int (ia_max_gap m)) avg else Fin 0)"

record InterArrivalStats =
  last_ts :: int
  is_count :: int
  total_gap :: int
  is_min_gap :: int
  is_max_gap :: int
  is_last_gap :: int

definition is0 :: InterArrivalStats where
  "is0 = \<lparr>last_ts = - 1, is_count = 0, total_gap = 0, is_min_gap = 0, is_max_gap = 0, is_last_gap = 0\<rparr>"

definition is_on_message :: "int \<Rightarrow> InterArrivalStats \<Rightarrow> InterArrivalStats" where
  "is_on_message t m =
     (let gap = s64 (t - last_ts m)
      in if last_ts m \<ge> 0 \<and> gap < 0 then m
         else let m1 = (if last_ts m \<ge> 0
                then m\<lparr>is_min_gap := (if is_count m = 0 \<or> gap < is_min_gap m then gap else is_min_gap m),
                       is_max_gap := (if gap > is_max_gap m then gap else is_max_gap m),
                       total_gap := s64 (total_gap m + gap), is_last_gap := gap, is_count := u64 (is_count m + 1)\<rparr> else m)
              in m1\<lparr>last_ts := t\<rparr>)"

definition mean_gap :: "InterArrivalStats \<Rightarrow> dbl" where
  "mean_gap m = ratio_or (Fin 0) (total_gap m) (is_count m)"

definition is_jitter :: "InterArrivalStats \<Rightarrow> int" where
  "is_jitter m = (if is_count m > 0 then s64 (is_max_gap m - is_min_gap m) else 0)"

definition jitter_ratio :: "InterArrivalStats \<Rightarrow> dbl" where
  "jitter_ratio m = (let g = mean_gap m in if dlt (Fin 0) g then ddiv (d_of_int (is_jitter m)) g else Fin 0)"

section \<open>Backpressure\<close>

record Backpressure =
  enqueued :: int
  dequeued :: int
  peak_depth :: int

definition bp0 :: Backpressure where
  "bp0 = \<lparr>enqueued = 0, dequeued = 0, peak_depth = 0\<rparr>"

definition depth :: "Backpressure \<Rightarrow> int" where
  "depth b = u64 (enqueued b - dequeued b)"

definition on_enqueue :: "int \<Rightarrow> Backpressure \<Rightarrow> Backpressure" where
  "on_enqueue n b = (let b1 = b\<lparr>enqueued := u64 (enqueued b + n)\<rparr>; d = depth b1
     in b1\<lparr>peak_depth := (if d > peak_depth b1 then d else peak_depth b1)\<rparr>)"

definition on_dequeue :: "int \<Rightarrow> Backpressure \<Rightarrow> Backpressure" where
  "on_dequeue n b = b\<lparr>dequeued := u64 (dequeued b + (if n > depth b then depth b else n))\<rparr>"

definition is_overloaded :: "int \<Rightarrow> Backpressure \<Rightarrow> bool" where
  "is_overloaded threshold b \<longleftrightarrow> depth b \<ge> threshold"

definition drain_ratio :: "Backpressure \<Rightarrow> dbl" where
  "drain_ratio b = ratio_or (Fin 1) (dequeued b) (enqueued b)"

definition ever_overloaded :: "int \<Rightarrow> Backpressure \<Rightarrow> bool" where
  "ever_overloaded threshold b \<longleftrightarrow> peak_depth b \<ge> threshold"

section \<open>Loss and order\<close>

record LossRateMeter =
  lr_first :: int
  lr_highest :: int
  lr_received :: int
  lr_init :: bool

definition lr0 :: LossRateMeter where
  "lr0 = \<lparr>lr_first = 0, lr_highest = 0, lr_received = 0, lr_init = False\<rparr>"

definition lr_on_packet :: "int \<Rightarrow> LossRateMeter \<Rightarrow> LossRateMeter" where
  "lr_on_packet seq m =
     (let m1 = (if \<not> lr_init m then m\<lparr>lr_first := seq, lr_highest := seq, lr_init := True\<rparr>
                else if seq > lr_highest m then m\<lparr>lr_highest := seq\<rparr> else m)
      in m1\<lparr>lr_received := u64 (lr_received m1 + 1)\<rparr>)"

definition lr_expected :: "LossRateMeter \<Rightarrow> int" where
  "lr_expected m = (if lr_init m then u64 (lr_highest m - lr_first m + 1) else 0)"

definition lr_lost :: "LossRateMeter \<Rightarrow> int" where
  "lr_lost m = (let e = lr_expected m in if e > lr_received m then e - lr_received m else 0)"

definition lr_loss_rate :: "LossRateMeter \<Rightarrow> dbl" where
  "lr_loss_rate m = (let e = lr_expected m in if e \<noteq> 0 then ddiv (d_of_int (lr_lost m)) (d_of_int e) else Fin 0)"

definition delivery_rate :: "LossRateMeter \<Rightarrow> dbl" where
  "delivery_rate m = (let e = lr_expected m in if e \<noteq> 0 then ddiv (d_of_int (lr_received m)) (d_of_int e) else Fin 1)"

definition is_within_sla :: "dbl \<Rightarrow> LossRateMeter \<Rightarrow> bool" where
  "is_within_sla mx m \<longleftrightarrow> dle (lr_loss_rate m) mx"

record OutOfOrderMeter =
  oo_highest :: int
  oo_total :: int
  out_of_order :: int
  max_depth :: int
  depth_sum :: int
  oo_init :: bool

definition oo0 :: OutOfOrderMeter where
  "oo0 = \<lparr>oo_highest = 0, oo_total = 0, out_of_order = 0, max_depth = 0, depth_sum = 0, oo_init = False\<rparr>"

definition oo_on_packet :: "int \<Rightarrow> OutOfOrderMeter \<Rightarrow> OutOfOrderMeter" where
  "oo_on_packet seq m0 =
     (let m = m0\<lparr>oo_total := u64 (oo_total m0 + 1)\<rparr>
      in if \<not> oo_init m then m\<lparr>oo_highest := seq, oo_init := True\<rparr>
         else if seq < oo_highest m
         then let d = u64 (oo_highest m - seq)
              in m\<lparr>out_of_order := u64 (out_of_order m + 1), depth_sum := u64 (depth_sum m + d),
                   max_depth := (if d > max_depth m then d else max_depth m)\<rparr>
         else m\<lparr>oo_highest := seq\<rparr>)"

definition ooo_rate :: "OutOfOrderMeter \<Rightarrow> dbl" where
  "ooo_rate m = (if oo_total m \<noteq> 0 then ddiv (d_of_int (out_of_order m)) (d_of_int (oo_total m)) else Fin 0)"

definition avg_reorder_depth :: "OutOfOrderMeter \<Rightarrow> dbl" where
  "avg_reorder_depth m = (if out_of_order m \<noteq> 0 then ddiv (d_of_int (depth_sum m)) (d_of_int (out_of_order m)) else Fin 0)"

section \<open>Sequence resets, throttling and the token bucket\<close>

record ResetDetector =
  rd_threshold :: int
  rd_last :: int
  rd_init :: bool
  resets :: int

definition rd_new :: "int \<Rightarrow> ResetDetector" where
  "rd_new th = \<lparr>rd_threshold = th, rd_last = 0, rd_init = False, resets = 0\<rparr>"

definition on_seq :: "int \<Rightarrow> ResetDetector \<Rightarrow> ResetDetector \<times> bool" where
  "on_seq seq d =
     (if \<not> rd_init d then (d\<lparr>rd_last := seq, rd_init := True\<rparr>, False)
      else let rs = (u64 (seq + rd_threshold d) < rd_last d)
           in (if rs then d\<lparr>resets := u64 (resets d + 1), rd_last := seq\<rparr>
               else if seq > rd_last d then d\<lparr>rd_last := seq\<rparr> else d, rs))"

record Throttle =
  min_interval_ns :: int
  last_request_ns :: int
  requested :: bool
  suppressed :: int
  th_allowed :: int

definition th_new :: "int \<Rightarrow> Throttle" where
  "th_new iv = \<lparr>min_interval_ns = iv, last_request_ns = 0, requested = False, suppressed = 0, th_allowed = 0\<rparr>"

definition th_allow :: "int \<Rightarrow> Throttle \<Rightarrow> Throttle \<times> bool" where
  "th_allow now t =
     (if \<not> requested t \<or> s64 (now - last_request_ns t) \<ge> min_interval_ns t
      then (t\<lparr>last_request_ns := now, requested := True, th_allowed := u64 (th_allowed t + 1)\<rparr>, True)
      else (t\<lparr>suppressed := u64 (suppressed t + 1)\<rparr>, False))"

definition suppression_rate :: "Throttle \<Rightarrow> dbl" where
  "suppression_rate t = ratio_or (Fin 0) (suppressed t) (u64 (th_allowed t + suppressed t))"

definition th_reset :: "Throttle \<Rightarrow> Throttle" where
  "th_reset t = th_new (min_interval_ns t)"

record TokenBucket =
  capacity :: dbl
  tokens :: dbl
  refill_per_ns :: dbl
  tb_last_ns :: int
  tb_init :: bool
  denied :: int
  granted :: int

definition tb_new :: "dbl \<Rightarrow> dbl \<Rightarrow> TokenBucket" where
  "tb_new cap refill = \<lparr>capacity = cap, tokens = cap, refill_per_ns = ddiv refill (Fin 1000000000), tb_last_ns = 0,
     tb_init = False, denied = 0, granted = 0\<rparr>"

definition top_up :: "int \<Rightarrow> TokenBucket \<Rightarrow> TokenBucket" where
  "top_up now b =
     (if \<not> tb_init b then b\<lparr>tb_init := True, tb_last_ns := now\<rparr>
      else let x = dadd (tokens b) (dmul (d_of_int (s64 (now - tb_last_ns b))) (refill_per_ns b))
           in b\<lparr>tokens := (if dlt (capacity b) x then capacity b else x), tb_last_ns := now\<rparr>)"

definition try_consume :: "int \<Rightarrow> dbl \<Rightarrow> TokenBucket \<Rightarrow> TokenBucket \<times> bool" where
  "try_consume now n b0 =
     (let b = top_up now b0
      in if dle n (tokens b) then (b\<lparr>tokens := dsub (tokens b) n, granted := u64 (granted b + 1)\<rparr>, True)
         else (b\<lparr>denied := u64 (denied b + 1)\<rparr>, False))"

definition denial_rate :: "TokenBucket \<Rightarrow> dbl" where
  "denial_rate b = ratio_or (Fin 0) (denied b) (u64 (granted b + denied b))"

definition tb_available :: "int \<Rightarrow> TokenBucket \<Rightarrow> TokenBucket \<times> dbl" where
  "tb_available now b = (let b1 = top_up now b in (b1, tokens b1))"

definition tb_reset :: "TokenBucket \<Rightarrow> TokenBucket" where
  "tb_reset b = b\<lparr>tokens := capacity b, tb_last_ns := 0, tb_init := False, denied := 0, granted := 0\<rparr>"

section \<open>Conflation and latency\<close>

record Conflation =
  latest :: "(int, dbl) hmap"
  conflated :: int
  cb_received :: int
  peak_pending :: nat

definition cb0 :: Conflation where
  "cb0 = \<lparr>latest = [], conflated = 0, cb_received = 0, peak_pending = 0\<rparr>"

definition cb_update :: "int \<Rightarrow> dbl \<Rightarrow> Conflation \<Rightarrow> Conflation" where
  "cb_update key val c =
     (let m = AList.update key val (latest c)
      in c\<lparr>cb_received := u64 (cb_received c + 1), latest := m,
           conflated := (if map_of (latest c) key = None then conflated c else u64 (conflated c + 1)),
           peak_pending := (if length m > peak_pending c then length m else peak_pending c)\<rparr>)"

definition cb_get :: "int \<Rightarrow> Conflation \<Rightarrow> dbl option" where
  "cb_get key c = map_of (latest c) key"

definition cb_drain :: "Conflation \<Rightarrow> Conflation" where
  "cb_drain c = c\<lparr>latest := []\<rparr>"

definition conflation_ratio :: "Conflation \<Rightarrow> dbl" where
  "conflation_ratio c = ratio_or (Fin 0) (conflated c) (cb_received c)"

record LatencyTracker =
  alpha :: dbl
  ewma :: dbl
  lt_max_ns :: int
  min_ns_val :: int
  lt_count :: int

definition lt_new :: "dbl \<Rightarrow> LatencyTracker" where
  "lt_new a = \<lparr>alpha = a, ewma = Fin 0, lt_max_ns = 0, min_ns_val = 0, lt_count = 0\<rparr>"

definition lt_sample :: "int \<Rightarrow> LatencyTracker \<Rightarrow> LatencyTracker" where
  "lt_sample ns t =
     (let t1 = (if lt_count t = 0 then t\<lparr>ewma := d_of_int ns, min_ns_val := ns\<rparr>
                else t\<lparr>ewma := dadd (dmul (alpha t) (d_of_int ns)) (dmul (dsub (Fin 1) (alpha t)) (ewma t))\<rparr>)
      in t1\<lparr>lt_max_ns := (if ns > lt_max_ns t1 then ns else lt_max_ns t1),
            min_ns_val := (if ns < min_ns_val t1 then ns else min_ns_val t1), lt_count := u64 (lt_count t1 + 1)\<rparr>)"

definition lt_min_ns :: "LatencyTracker \<Rightarrow> int" where
  "lt_min_ns t = (if lt_count t \<noteq> 0 then min_ns_val t else 0)"

definition lt_jitter_ns :: "LatencyTracker \<Rightarrow> int" where
  "lt_jitter_ns t = (if lt_count t \<noteq> 0 then s64 (lt_max_ns t - min_ns_val t) else 0)"

section \<open>Health, gap-fill times, packets and staleness\<close>

record FeedHealth =
  loss_weight :: dbl
  ooo_weight :: dbl
  stale_penalty :: dbl
  min_healthy :: dbl

definition fh0 :: FeedHealth where
  "fh0 = \<lparr>loss_weight = Fin 200, ooo_weight = Fin 100, stale_penalty = Fin 50, min_healthy = Fin 70\<rparr>"

definition score :: "dbl \<Rightarrow> dbl \<Rightarrow> bool \<Rightarrow> FeedHealth \<Rightarrow> dbl" where
  "score loss ooo stale h =
     (let s0 = dsub (dsub (Fin 100) (dmul loss (loss_weight h))) (dmul ooo (ooo_weight h));
          s = (if stale then dsub s0 (stale_penalty h) else s0)
      in if dlt s (Fin 0) then Fin 0 else if dlt (Fin 100) s then Fin 100 else s)"

definition is_healthy :: "dbl \<Rightarrow> dbl \<Rightarrow> bool \<Rightarrow> FeedHealth \<Rightarrow> bool" where
  "is_healthy loss ooo stale h \<longleftrightarrow> dle (min_healthy h) (score loss ooo stale h)"

definition worst_impairment :: "dbl \<Rightarrow> dbl \<Rightarrow> bool \<Rightarrow> FeedHealth \<Rightarrow> string" where
  "worst_impairment loss ooo stale h =
     (let dl = dmul loss (loss_weight h); doo = dmul ooo (ooo_weight h); ds = (if stale then stale_penalty h else Fin 0)
      in if dle dl (Fin 0) \<and> dle doo (Fin 0) \<and> dle ds (Fin 0) then ''none''
         else if dle doo dl \<and> dle ds dl then ''loss'' else if dle ds doo then ''reorder'' else ''stale'')"

record GapFillTimer =
  gf_gaps :: int
  total_recovery_ms :: int
  max_recovery_ms :: int
  gf_min_recovery_ms :: int
  sla_ms :: int
  gf_sla_breaches :: int

definition gf_new :: "int \<Rightarrow> GapFillTimer" where
  "gf_new sla = \<lparr>gf_gaps = 0, total_recovery_ms = 0, max_recovery_ms = 0, gf_min_recovery_ms = 0,
     sla_ms = (if sla > 0 then sla else 1), gf_sla_breaches = 0\<rparr>"

definition gf_record :: "int \<Rightarrow> int \<Rightarrow> GapFillTimer \<Rightarrow> GapFillTimer" where
  "gf_record detect fill g =
     (let dur = s64 (fill - detect)
      in if dur < 0 then g
         else g\<lparr>gf_min_recovery_ms := (if gf_gaps g = 0 \<or> dur < gf_min_recovery_ms g then dur else gf_min_recovery_ms g),
                gf_gaps := u64 (gf_gaps g + 1), total_recovery_ms := s64 (total_recovery_ms g + dur),
                max_recovery_ms := (if dur > max_recovery_ms g then dur else max_recovery_ms g),
                gf_sla_breaches := (if dur > sla_ms g then u64 (gf_sla_breaches g + 1) else gf_sla_breaches g)\<rparr>)"

definition avg_recovery_ms :: "GapFillTimer \<Rightarrow> dbl" where
  "avg_recovery_ms g = ratio_or (Fin 0) (total_recovery_ms g) (gf_gaps g)"

definition min_recovery_ms :: "GapFillTimer \<Rightarrow> int" where
  "min_recovery_ms g = (if gf_gaps g > 0 then gf_min_recovery_ms g else 0)"

definition recovery_jitter_ms :: "GapFillTimer \<Rightarrow> int" where
  "recovery_jitter_ms g = (if gf_gaps g > 0 then s64 (max_recovery_ms g - gf_min_recovery_ms g) else 0)"

definition sla_breach_rate :: "GapFillTimer \<Rightarrow> dbl" where
  "sla_breach_rate g = ratio_or (Fin 0) (gf_sla_breaches g) (gf_gaps g)"

definition meets_sla :: "GapFillTimer \<Rightarrow> bool" where
  "meets_sla g \<longleftrightarrow> gf_sla_breaches g = 0"

definition gf_reset :: "GapFillTimer \<Rightarrow> GapFillTimer" where
  "gf_reset g = g\<lparr>gf_gaps := 0, total_recovery_ms := 0, max_recovery_ms := 0, gf_min_recovery_ms := 0, gf_sla_breaches := 0\<rparr>"

record PacketStats =
  packets :: int
  total_bytes :: int
  max_bytes :: int
  min_bytes :: int

definition ps0 :: PacketStats where
  "ps0 = \<lparr>packets = 0, total_bytes = 0, max_bytes = 0, min_bytes = 0\<rparr>"

definition ps_on_packet :: "int \<Rightarrow> PacketStats \<Rightarrow> PacketStats" where
  "ps_on_packet n p = p\<lparr>packets := u64 (packets p + 1), total_bytes := u64 (total_bytes p + n),
     max_bytes := (if n > max_bytes p then n else max_bytes p),
     min_bytes := (if min_bytes p = 0 \<or> n < min_bytes p then n else min_bytes p)\<rparr>"

definition mean_bytes :: "PacketStats \<Rightarrow> dbl" where
  "mean_bytes p = ratio_or (Fin 0) (total_bytes p) (packets p)"

definition byte_range :: "PacketStats \<Rightarrow> int" where
  "byte_range p = (if packets p > 0 then u32 (max_bytes p - min_bytes p) else 0)"

record Staleness =
  sm_last_ns :: int
  sm_seen :: bool
  stale :: bool
  stale_events :: int
  longest_outage_ns :: int
  total_outage_ns :: int

definition sm0 :: Staleness where
  "sm0 = \<lparr>sm_last_ns = 0, sm_seen = False, stale = False, stale_events = 0, longest_outage_ns = 0, total_outage_ns = 0\<rparr>"

definition sm_on_packet :: "int \<Rightarrow> Staleness \<Rightarrow> Staleness" where
  "sm_on_packet now m =
     (let outage = s64 (now - sm_last_ns m);
          m1 = (if stale m \<and> sm_seen m \<and> outage > 0
                then m\<lparr>total_outage_ns := s64 (total_outage_ns m + outage),
                       longest_outage_ns := (if outage > longest_outage_ns m then outage else longest_outage_ns m)\<rparr> else m)
      in m1\<lparr>sm_last_ns := now, sm_seen := True, stale := False\<rparr>)"

definition sm_check :: "int \<Rightarrow> int \<Rightarrow> Staleness \<Rightarrow> Staleness \<times> bool" where
  "sm_check now tmo m =
     (if \<not> sm_seen m then (m, False)
      else let now_stale = (s64 (now - sm_last_ns m) > tmo)
           in (m\<lparr>stale_events := (if now_stale \<and> \<not> stale m then u64 (stale_events m + 1) else stale_events m),
                 stale := now_stale\<rparr>, now_stale))"

definition completed_outages :: "Staleness \<Rightarrow> int" where
  "completed_outages m = u64 (stale_events m - (if stale m then 1 else 0))"

definition avg_outage_ns :: "Staleness \<Rightarrow> dbl" where
  "avg_outage_ns m = (let n = completed_outages m in ratio_or (Fin 0) (total_outage_ns m) n)"

section \<open>Lemmas\<close>

interpretation meter: sliding_window "ts_inv RING_SIZE" "ts_items RING_SIZE" "RING_SIZE - 1" "evict RING_SIZE" "ts_push RING_SIZE" "ts_count RING_SIZE"
  by (rule ts_ring_sliding_window) (simp_all add: RING_SIZE_def pow2_def)

text \<open>What a rate meter holds after messages at the times \<open>xs\<close>, the last of them at \<open>now\<close>.\<close>

definition meter_rel :: "RateMeter \<Rightarrow> int list \<Rightarrow> int \<Rightarrow> bool" where
  "meter_rel r xs now \<longleftrightarrow> ts_inv RING_SIZE (ring r) \<and> sorted xs \<and> (\<forall>x \<in> set xs. x \<le> now)
     \<and> (\<exists>c \<le> now - window_ns r. ts_items RING_SIZE (ring r) = filter (\<lambda>x. c < x) xs)"

lemma meter_message:
  assumes "meter_rel r xs prev" "prev \<le> now" "0 \<le> now" "now < 2 ^ 63" "0 < window_ns r" "window_ns r < 2 ^ 63"
    and "length (filter (\<lambda>x. prev - window_ns r < x) xs) < RING_SIZE - 1" "ts_items RING_SIZE (ring r) = filter (\<lambda>x. prev - window_ns r < x) xs"
  shows "meter_rel (rm_on_message now r) (xs @ [now]) now"
    and "ts_items RING_SIZE (ring (rm_on_message now r)) = filter (\<lambda>x. now - window_ns r < x) (xs @ [now])"
proof -
  have inv: "ts_inv RING_SIZE (ring r)" and xs: "sorted xs" "\<forall>x \<in> set xs. x \<le> prev"
    using assms(1) by (simp_all add: meter_rel_def)
  have w: "s64 (now - window_ns r) = now - window_ns r" using assms(3,4,5,6) by (intro s64_id) simp_all
  have push: "ts_items RING_SIZE (ts_push RING_SIZE now (ring r)) = filter (\<lambda>x. prev - window_ns r < x) xs @ [now]"
    using meter.items_insert [OF inv] assms(7) unfolding assms(8) by simp
  have pinv: "ts_inv RING_SIZE (ts_push RING_SIZE now (ring r))" by (rule meter.winv_insert [OF inv])
  have srt: "sorted (filter (\<lambda>x. prev - window_ns r < x) xs @ [now])"
    using xs assms(2) by (fastforce simp: sorted_append sorted_wrt_filter)
  show items: "ts_items RING_SIZE (ring (rm_on_message now r)) = filter (\<lambda>x. now - window_ns r < x) (xs @ [now])"
  proof -
    have "ts_items RING_SIZE (ring (rm_on_message now r)) = filter (\<lambda>x. now - window_ns r < x) (filter (\<lambda>x. prev - window_ns r < x) xs @ [now])"
      using meter.items_drop [OF pinv] sorted_dropWhile_filter [OF srt] by (simp add: rm_on_message_def Let_def w push)
    also have "\<dots> = filter (\<lambda>x. now - window_ns r < x) (xs @ [now])"
      using assms(2) by (auto intro: filter_cong)
    finally show ?thesis .
  qed
  have "ts_inv RING_SIZE (ring (rm_on_message now r))" using meter.winv_drop [OF pinv] by (simp add: rm_on_message_def Let_def)
  moreover have "sorted (xs @ [now])" using xs assms(2) by (fastforce simp: sorted_append)
  moreover have "window_ns (rm_on_message now r) = window_ns r" by (simp add: rm_on_message_def Let_def)
  ultimately show "meter_rel (rm_on_message now r) (xs @ [now]) now"
    using items xs(2) assms(2) unfolding meter_rel_def by fastforce
qed

text \<open>The queue depth is the difference of the counters and never exceeds its recorded peak.\<close>

definition bp_inv :: "Backpressure \<Rightarrow> bool" where
  "bp_inv b \<longleftrightarrow> 0 \<le> dequeued b \<and> dequeued b \<le> enqueued b \<and> enqueued b < 2 ^ 64 \<and> enqueued b - dequeued b \<le> peak_depth b"

lemma bp_depth: "bp_inv b \<Longrightarrow> depth b = enqueued b - dequeued b"
  by (simp add: bp_inv_def depth_def u64_id)

lemma bp_inv_ops:
  "bp_inv bp0"
  "bp_inv b \<Longrightarrow> 0 \<le> n \<Longrightarrow> enqueued b + n < 2 ^ 64 \<Longrightarrow> bp_inv (on_enqueue n b)"
  "bp_inv b \<Longrightarrow> 0 \<le> n \<Longrightarrow> bp_inv (on_dequeue n b) \<and> depth (on_dequeue n b) = max 0 (depth b - n)"
proof -
  show "bp_inv bp0" by (simp add: bp_inv_def bp0_def)
  show "bp_inv (on_enqueue n b)" if "bp_inv b" "0 \<le> n" "enqueued b + n < 2 ^ 64"
    using that by (auto simp: bp_inv_def on_enqueue_def depth_def Let_def u64_id)
  show "bp_inv (on_dequeue n b) \<and> depth (on_dequeue n b) = max 0 (depth b - n)" if b: "bp_inv b" "0 \<le> n"
  proof -
    have "u64 (dequeued b + (if n > depth b then depth b else n)) = dequeued b + (if n > depth b then depth b else n)"
      using b bp_depth [OF b(1)] by (intro u64_id) (auto simp: bp_inv_def)
    then have d: "dequeued (on_dequeue n b) = dequeued b + min n (depth b)" "enqueued (on_dequeue n b) = enqueued b"
      "peak_depth (on_dequeue n b) = peak_depth b"
      by (auto simp: on_dequeue_def)
    have i: "bp_inv (on_dequeue n b)" using b bp_depth [OF b(1)] unfolding bp_inv_def d by (auto simp: min_def)
    show ?thesis using i bp_depth [OF i] bp_depth [OF b(1)] unfolding d by (auto simp: min_def max_def)
  qed
qed

text \<open>The loss meter over a duplicate-free arrival order whose first packet is the lowest.\<close>

lemma lr_run:
  assumes "distinct (s0 # ss)" "\<forall>s \<in> set ss. s0 \<le> s" "0 \<le> s0" "\<forall>s \<in> set (s0 # ss). s < 2 ^ 64 - 1"
  defines "m \<equiv> fold lr_on_packet (s0 # ss) lr0"
  shows "lr_init m" "lr_first m = s0" "lr_highest m = Max (set (s0 # ss))" "length ss < 2 ^ 63 \<Longrightarrow> lr_received m = int (length (s0 # ss))"
proof -
  have run: "lr_init (fold lr_on_packet xs r) \<and> lr_first (fold lr_on_packet xs r) = lr_first r
      \<and> lr_highest (fold lr_on_packet xs r) = Max (insert (lr_highest r) (set xs))
      \<and> (0 \<le> lr_received r \<and> lr_received r + int (length xs) < 2 ^ 64 \<longrightarrow> lr_received (fold lr_on_packet xs r) = lr_received r + int (length xs))"
    if "lr_init r" for xs r
    using that
  proof (induction xs arbitrary: r)
    case (Cons x xs)
    let ?r = "lr_on_packet x r"
    have r: "lr_init ?r" "lr_first ?r = lr_first r" "lr_highest ?r = max (lr_highest r) x"
      using Cons.prems by (auto simp: lr_on_packet_def Let_def)
    have c: "lr_received ?r = lr_received r + 1" if "0 \<le> lr_received r" "lr_received r + int (length (x # xs)) < 2 ^ 64"
      using Cons.prems that by (auto simp: lr_on_packet_def Let_def u64_id)
    have "Max (insert (max (lr_highest r) x) (set xs)) = Max (insert (lr_highest r) (set (x # xs)))"
      by (cases "set xs = {}") (simp_all add: insert_commute max.commute max.left_commute)
    then show ?case using Cons.IH [OF r(1)] r c by auto
  qed simp
  let ?r = "lr_on_packet s0 lr0"
  have r: "lr_init ?r" "lr_first ?r = s0" "lr_highest ?r = s0" "lr_received ?r = 1"
    by (simp_all add: lr_on_packet_def lr0_def Let_def u64_id)
  note R = run [OF r(1), of ss, unfolded r]
  have m: "m = fold lr_on_packet ss ?r" by (simp add: m_def)
  show "lr_init m" "lr_first m = s0" "lr_highest m = Max (set (s0 # ss))" unfolding m using R by simp_all
  show "length ss < 2 ^ 63 \<Longrightarrow> lr_received m = int (length (s0 # ss))" unfolding m using R by simp
qed

section \<open>Properties\<close>

text \<open>
  Measured loss is the real loss.  When no packet is counted twice and the first one received is
  the lowest, the number the meter calls lost is the number of sequence numbers between the first and
  the highest that did not arrive.
\<close>

theorem loss_meter_exact:
  assumes "distinct (s0 # ss)" "\<forall>s \<in> set ss. s0 \<le> s" "0 \<le> s0" "\<forall>s \<in> set (s0 # ss). s < 2 ^ 64 - 1" "length ss < 2 ^ 63"
  shows "lr_lost (fold lr_on_packet (s0 # ss) lr0) = int (card ({s0..Max (set (s0 # ss))} - set (s0 # ss)))"
proof -
  let ?m = "fold lr_on_packet (s0 # ss) lr0" and ?H = "Max (set (s0 # ss))"
  note R = lr_run [OF assms(1,2,3,4)]
  have H: "s0 \<le> ?H" "?H < 2 ^ 64 - 1" using assms(4) by (simp_all add: Max_ge_iff del: Max_insert)
  have "u64 (?H - s0 + 1) = ?H - s0 + 1" using H assms(3) by (intro u64_id) linarith+
  then have e: "lr_expected ?m = ?H - s0 + 1" using R(1,2,3) unfolding lr_expected_def by presburger
  have sub: "set (s0 # ss) \<subseteq> {s0..?H}" using assms(2) by auto
  have "card (set (s0 # ss)) = length (s0 # ss)" using assms(1) by (rule distinct_card)
  then have c: "card ({s0..?H} - set (s0 # ss)) = card {s0..?H} - length (s0 # ss)"
    using card_Diff_subset [OF _ sub] by simp
  have le: "length (s0 # ss) \<le> card {s0..?H}"
    using card_mono [OF _ sub] distinct_card [OF assms(1)] by simp
  have "int (card {s0..?H}) = ?H - s0 + 1" using H by simp
  then have "int (card ({s0..?H} - set (s0 # ss))) = ?H - s0 + 1 - int (length (s0 # ss))" "int (length (s0 # ss)) \<le> ?H - s0 + 1"
    using c le by linarith+
  then show ?thesis using R(4) [OF assms(5)] e unfolding lr_lost_def Let_def by presburger
qed

theorem loss_meter_exact_witness: "lr_lost (fold lr_on_packet [5, 9, 6] lr0) = 2"
proof -
  have "lr_lost (fold lr_on_packet [5, 9, 6] lr0) = int (card ({5..Max (set [5, 9, 6])} - set [5, 9, 6 :: int]))"
    by (rule loss_meter_exact) simp_all
  also have "{5..Max (set [5, 9, 6])} - set [5, 9, 6 :: int] = {7, 8}" by auto
  finally show ?thesis by simp
qed

text \<open>The times at which a throttle let a request through.\<close>

fun th_times :: "int list \<Rightarrow> Throttle \<Rightarrow> int list" where
  "th_times [] t = []"
| "th_times (x # xs) t = (if snd (th_allow x t) then [x] else []) @ th_times xs (fst (th_allow x t))"

text \<open>
  Snapshot requests are spaced: whatever the times of the attempts, the requests let through are
  at least \<open>min_interval_ns\<close> apart, in order.
\<close>

theorem throttle_spacing:
  assumes "\<forall>x \<in> set xs. 0 \<le> x \<and> x < 2 ^ 63" "0 \<le> iv"
  shows "sorted_wrt (\<lambda>a b. a + iv \<le> b) (th_times xs (th_new iv))"
proof -
  have run: "sorted_wrt (\<lambda>a b. a + iv \<le> b) (th_times xs t) \<and> (requested t \<longrightarrow> (\<forall>b \<in> set (th_times xs t). last_request_ns t + iv \<le> b))"
    if "\<forall>x \<in> set xs. 0 \<le> x \<and> x < 2 ^ 63" "min_interval_ns t = iv" "requested t \<longrightarrow> 0 \<le> last_request_ns t \<and> last_request_ns t < 2 ^ 63"
    for xs t
    using that
  proof (induction xs arbitrary: t)
    case (Cons x xs)
    have x: "0 \<le> x" "x < 2 ^ 63" using Cons.prems(1) by simp_all
    let ?t = "fst (th_allow x t)"
    have d: "s64 (x - last_request_ns t) = x - last_request_ns t" if "requested t"
      using that Cons.prems(3) x by (intro s64_id) simp_all
    show ?case
    proof (cases "snd (th_allow x t)")
      case True
      then have t: "?t = t\<lparr>last_request_ns := x, requested := True, th_allowed := u64 (th_allowed t + 1)\<rparr>"
        "requested t \<longrightarrow> last_request_ns t + iv \<le> x"
        using d Cons.prems(2) by (auto simp: th_allow_def split: if_splits)
      have I: "sorted_wrt (\<lambda>a b. a + iv \<le> b) (th_times xs ?t)" "\<forall>b \<in> set (th_times xs ?t). x + iv \<le> b"
        using Cons.IH [of ?t] Cons.prems x by (simp_all add: t(1))
      then have "requested t \<longrightarrow> (\<forall>b \<in> set (th_times xs ?t). last_request_ns t + iv \<le> b)" using t(2) assms(2) by force
      then show ?thesis using I t(2) True by simp
    next
      case False
      then have t: "?t = t\<lparr>suppressed := u64 (suppressed t + 1)\<rparr>" by (auto simp: th_allow_def split: if_splits)
      show ?thesis using Cons.IH [of ?t] Cons.prems False by (simp add: t)
    qed
  qed simp
  show ?thesis using run [of xs "th_new iv"] assms(1) by (simp add: th_new_def)
qed

theorem throttle_spacing_witness:
  "sorted_wrt (\<lambda>a b. a + 10 \<le> b) (th_times [3, 5, 13, 20, 2, 23] (th_new 10))"
  by (rule throttle_spacing) simp_all

end
