(* ===== verification/Multicast.thy ===== *)
theory Multicast
  imports Wire Gap_Recovery
begin

text \<open>
  \<open>multicast/multicast.hpp\<close>: the 40-byte market-data message, the sequence tracker, MoldUDP64
  packets and the A/B receiver.  A buffer is the list of its bytes, its length the length of the
  list.  The socket wrappers are left out, but for the part of \<open>receive\<close> after \<open>recv\<close>.
\<close>

section \<open>Messages\<close>

record MarketDataMessage =
  sequence :: "64 word"
  timestamp_ns :: "64 word"
  md_symbol :: "byte list"
  md_price :: "64 word"
  md_quantity :: "32 word"
  md_side :: byte
  msg_type :: byte
  padding :: "byte list"

definition MC_MSG_SIZE :: nat where
  "MC_MSG_SIZE = 40"

definition serialize :: "MarketDataMessage \<Rightarrow> byte list" where
  "serialize m = write_u64_be (sequence m) @ write_u64_be (timestamp_ns m) @ md_symbol m @ write_u64_be (md_price m)
     @ write_u32_be (md_quantity m) @ [md_side m, msg_type m, 0, 0]"

definition deserialize :: "byte list \<Rightarrow> MarketDataMessage option" where
  "deserialize buf = (if length buf < MC_MSG_SIZE then None
     else Some \<lparr>sequence = read_u64_be buf, timestamp_ns = read_u64_be (drop 8 buf), md_symbol = take 8 (drop 16 buf),
       md_price = read_u64_be (drop 24 buf), md_quantity = read_u32_be (drop 32 buf), md_side = buf ! 36,
       msg_type = buf ! 37, padding = [0, 0]\<rparr>)"

text \<open>\<open>memchr\<close> for the terminator among the first \<open>n\<close> bytes, then the field padded with spaces.\<close>

definition padded_field :: "nat \<Rightarrow> byte list \<Rightarrow> byte list" where
  "padded_field n s = (let t = takeWhile (\<lambda>b. b \<noteq> 0) (take n s) in t @ replicate (n - length t) SPACE)"

definition make_message :: "64 word \<Rightarrow> 64 word \<Rightarrow> byte list \<Rightarrow> 64 word \<Rightarrow> 32 word \<Rightarrow> byte \<Rightarrow> byte \<Rightarrow> MarketDataMessage" where
  "make_message now seq sy price qty sd ty = \<lparr>sequence = seq, timestamp_ns = now, md_symbol = padded_field 8 sy,
     md_price = price, md_quantity = qty, md_side = sd, msg_type = ty, padding = [0, 0]\<rparr>"

section \<open>SequenceTracker\<close>

datatype Status = OK | GAP | DUPLICATE

record SequenceTracker =
  expected_seq :: int
  received :: int
  gaps :: int
  lost :: int
  duplicates :: int
  initialized :: bool

definition st0 :: SequenceTracker where
  "st0 = \<lparr>expected_seq = 0, received = 0, gaps = 0, lost = 0, duplicates = 0, initialized = False\<rparr>"

definition st_observe :: "int \<Rightarrow> SequenceTracker \<Rightarrow> SequenceTracker \<times> Status" where
  "st_observe seq t =
     (if \<not> initialized t
      then (t\<lparr>initialized := True, expected_seq := u64 (seq + 1), received := u64 (received t + 1)\<rparr>, OK)
      else if seq = expected_seq t
      then (t\<lparr>expected_seq := u64 (expected_seq t + 1), received := u64 (received t + 1)\<rparr>, OK)
      else if seq > expected_seq t
      then (t\<lparr>gaps := u64 (gaps t + 1), lost := u64 (lost t + (seq - expected_seq t)), expected_seq := u64 (seq + 1),
              received := u64 (received t + 1)\<rparr>, GAP)
      else (t\<lparr>duplicates := u64 (duplicates t + 1)\<rparr>, DUPLICATE))"

definition observe_packet :: "int \<Rightarrow> int \<Rightarrow> SequenceTracker \<Rightarrow> SequenceTracker \<times> Status" where
  "observe_packet pseq count t =
     (if \<not> initialized t
      then (t\<lparr>initialized := True, expected_seq := u64 (pseq + count), received := u64 (received t + count)\<rparr>, OK)
      else if pseq = expected_seq t
      then (t\<lparr>expected_seq := u64 (expected_seq t + count), received := u64 (received t + count)\<rparr>, OK)
      else if pseq > expected_seq t
      then (t\<lparr>gaps := u64 (gaps t + 1), lost := u64 (lost t + (pseq - expected_seq t)),
              expected_seq := u64 (pseq + count), received := u64 (received t + count)\<rparr>, GAP)
      else let packet_end = u64 (pseq + count)
           in if packet_end \<le> expected_seq t then (t\<lparr>duplicates := u64 (duplicates t + 1)\<rparr>, DUPLICATE)
              else (t\<lparr>received := u64 (received t + (packet_end - expected_seq t)), expected_seq := packet_end,
                      duplicates := u64 (duplicates t + 1)\<rparr>, DUPLICATE))"

definition st_loss_rate :: "SequenceTracker \<Rightarrow> dbl" where
  "st_loss_rate t = (let tot = u64 (received t + lost t) in ratio_or (Fin 0) (lost t) tot)"

definition st_reset :: "SequenceTracker \<Rightarrow> SequenceTracker" where
  "st_reset t = st0"

text \<open>\<open>MulticastReceiver::receive\<close> after the datagram has been read; zero stands for no message.\<close>

definition receive_datagram :: "byte list \<Rightarrow> SequenceTracker \<Rightarrow> SequenceTracker \<times> (MarketDataMessage \<times> Status) option" where
  "receive_datagram buf t = (case deserialize (take (MC_MSG_SIZE + 16) buf) of None \<Rightarrow> (t, None)
     | Some m \<Rightarrow> (let (t1, st) = st_observe (uint (sequence m)) t in (t1, Some (m, st))))"

section \<open>MoldUDP64\<close>

definition MOLD_HEADER_SIZE :: nat where
  "MOLD_HEADER_SIZE = 20"

record MoldHeader =
  session :: "byte list"
  mh_sequence :: "64 word"
  message_count :: "16 word"

definition mold_write_header :: "byte list \<Rightarrow> 64 word \<Rightarrow> 16 word \<Rightarrow> byte list" where
  "mold_write_header sess seq count = padded_field 10 sess @ write_u64_be seq @ write_u16_be count"

definition mold_read_header :: "byte list \<Rightarrow> MoldHeader option" where
  "mold_read_header buf = (if length buf < MOLD_HEADER_SIZE then None
     else Some \<lparr>session = take 10 buf, mh_sequence = read_u64_be (drop 10 buf), message_count = read_u16_be (drop 18 buf)\<rparr>)"

text \<open>A packet that does not fit the buffer's capacity is not written: the result is \<open>None\<close>.\<close>

definition mold_serialize_packet :: "nat \<Rightarrow> byte list \<Rightarrow> 64 word \<Rightarrow> MarketDataMessage list \<Rightarrow> byte list option" where
  "mold_serialize_packet cap sess first_seq msgs =
     (let needed = MOLD_HEADER_SIZE + length msgs * (2 + MC_MSG_SIZE)
      in if cap < needed then None
         else Some (mold_write_header sess first_seq (word_of_nat (length msgs))
                @ concat (map (\<lambda>m. write_u16_be 40 @ serialize m) msgs)))"

text \<open>The loop over the message blocks: the messages delivered and whether it ran to the end.\<close>

fun mold_blocks :: "nat \<Rightarrow> byte list \<Rightarrow> MarketDataMessage list \<times> bool" where
  "mold_blocks 0 buf = ([], True)"
| "mold_blocks (Suc n) buf =
     (if length buf < 2 then ([], False)
      else let mlen = unat (read_u16_be buf); rest = drop 2 buf
           in if length rest < mlen then ([], False)
              else let m = (if mlen \<ge> MC_MSG_SIZE then deserialize (take mlen rest) else None);
                       (ms, ok) = mold_blocks n (drop mlen rest)
                   in ((case m of None \<Rightarrow> ms | Some x \<Rightarrow> x # ms), ok))"

definition is_control :: "16 word \<Rightarrow> bool" where
  "is_control c \<longleftrightarrow> c = 0 \<or> c = 0xFFFF"

definition mold_parse_packet ::
  "byte list \<Rightarrow> SequenceTracker \<Rightarrow> SequenceTracker \<times> MarketDataMessage list \<times> int" where
  "mold_parse_packet buf t = (case mold_read_header buf of None \<Rightarrow> (t, [], - 1)
     | Some h \<Rightarrow>
       (let c = message_count h;
            t1 = fst (observe_packet (uint (mh_sequence h)) (if is_control c then 0 else uint c) t)
        in if is_control c then (t1, [], 0)
           else let (ms, ok) = mold_blocks (unat c) (drop MOLD_HEADER_SIZE buf)
                in (t1, ms, if ok then uint c else - 1)))"

section \<open>ArbitratedReceiver\<close>

datatype Line = LA | LB

datatype ArbResult = FRESH | ARB_DUPLICATE | ARB_GAP

record ArbitratedReceiver =
  tracker :: SequenceTracker
  from_a :: int
  from_b :: int
  deduped :: int

definition ar0 :: ArbitratedReceiver where
  "ar0 = \<lparr>tracker = st0, from_a = 0, from_b = 0, deduped = 0\<rparr>"

definition count_line :: "Line \<Rightarrow> ArbitratedReceiver \<Rightarrow> ArbitratedReceiver" where
  "count_line l a = (if l = LA then a\<lparr>from_a := u64 (from_a a + 1)\<rparr> else a\<lparr>from_b := u64 (from_b a + 1)\<rparr>)"

definition arb_observe :: "Line \<Rightarrow> int \<Rightarrow> int \<Rightarrow> ArbitratedReceiver \<Rightarrow> ArbitratedReceiver \<times> ArbResult" where
  "arb_observe l pseq count a =
     (let (t, st) = observe_packet pseq count (tracker a); a1 = a\<lparr>tracker := t\<rparr>
      in case st of OK \<Rightarrow> (count_line l a1, FRESH)
         | DUPLICATE \<Rightarrow> (a1\<lparr>deduped := u64 (deduped a1 + 1)\<rparr>, ARB_DUPLICATE)
         | GAP \<Rightarrow> (count_line l a1, ARB_GAP))"

definition failover_ratio :: "ArbitratedReceiver \<Rightarrow> dbl" where
  "failover_ratio a = (let tot = u64 (from_a a + from_b a) in ratio_or (Fin 0) (from_b a) tot)"

section \<open>LatencyStats\<close>

record LatencyStats =
  ls_count :: int
  sum_ns :: int
  ls_min_ns :: int
  ls_max_ns :: int

definition ls0 :: LatencyStats where
  "ls0 = \<lparr>ls_count = 0, sum_ns = 0, ls_min_ns = 2 ^ 64 - 1, ls_max_ns = 0\<rparr>"

definition ls_record :: "int \<Rightarrow> LatencyStats \<Rightarrow> LatencyStats" where
  "ls_record ns s = s\<lparr>ls_count := u64 (ls_count s + 1), sum_ns := u64 (sum_ns s + ns),
     ls_min_ns := (if ns < ls_min_ns s then ns else ls_min_ns s), ls_max_ns := (if ns > ls_max_ns s then ns else ls_max_ns s)\<rparr>"

definition ls_avg_ns :: "LatencyStats \<Rightarrow> int" where
  "ls_avg_ns s = (if ls_count s > 0 then sum_ns s div ls_count s else 0)"

section \<open>Lemmas\<close>

definition msg_ok :: "MarketDataMessage \<Rightarrow> bool" where
  "msg_ok m \<longleftrightarrow> length (md_symbol m) = 8 \<and> padding m = [0, 0]"

lemma length_serialize: "msg_ok m \<Longrightarrow> length (serialize m) = 40"
  by (simp add: serialize_def msg_ok_def)

lemma deserialize_serialize:
  assumes "msg_ok m"
  shows "deserialize (serialize m @ rest) = Some m"
proof -
  let ?q = "write_u32_be (md_quantity m)" and ?s = "md_symbol m"
  let ?b = "serialize m @ rest"
  have s: "length ?s = 8" "padding m = [0, 0]" using assms by (simp_all add: msg_ok_def)
  have d8: "drop 8 ?b = write_u64_be (timestamp_ns m) @ ?s @ write_u64_be (md_price m) @ ?q @ [md_side m, msg_type m, 0, 0] @ rest"
    by (simp add: serialize_def)
  have d16: "drop 16 ?b = ?s @ write_u64_be (md_price m) @ ?q @ [md_side m, msg_type m, 0, 0] @ rest"
    by (simp add: serialize_def)
  have d24: "drop 24 ?b = write_u64_be (md_price m) @ ?q @ [md_side m, msg_type m, 0, 0] @ rest"
    using s by (simp add: serialize_def)
  have d32: "drop 32 ?b = ?q @ [md_side m, msg_type m, 0, 0] @ rest" using s by (simp add: serialize_def)
  have d36: "drop 36 ?b = md_side m # msg_type m # 0 # 0 # rest" using s by (simp add: serialize_def)
  have n: "?b ! 36 = md_side m" "?b ! 37 = msg_type m"
    using nth_drop [of 36 ?b 0] nth_drop [of 36 ?b 1] length_serialize [OF assms] unfolding d36 by simp_all
  have h: "read_u64_be ?b = sequence m" by (simp add: serialize_def)
  have "deserialize ?b = Some \<lparr>sequence = sequence m, timestamp_ns = timestamp_ns m, md_symbol = ?s, md_price = md_price m,
      md_quantity = md_quantity m, md_side = md_side m, msg_type = msg_type m, padding = [0, 0]\<rparr>"
    using length_serialize [OF assms] s unfolding deserialize_def h d8 d16 d24 d32 n by (simp add: MC_MSG_SIZE_def)
  also have "\<dots> = Some m" using s(2) by simp
  finally show ?thesis .
qed

lemma length_padded_field [simp]: "length (padded_field n s) = n"
  using length_takeWhile_le [of "\<lambda>b. b \<noteq> 0" "take n s"] by (simp add: padded_field_def Let_def)

lemma mold_blocks_serialize:
  "\<forall>m \<in> set ms. msg_ok m \<Longrightarrow> mold_blocks (length ms) (concat (map (\<lambda>m. write_u16_be 40 @ serialize m) ms) @ rest) = (ms, True)"
proof (induction ms)
  case (Cons m ms)
  have "deserialize (serialize m) = Some m" using deserialize_serialize [of m "[]"] Cons.prems by simp
  moreover have "length (serialize m) = 40" using Cons.prems by (simp add: length_serialize)
  ultimately show ?case using Cons by (simp add: Let_def MC_MSG_SIZE_def)
qed simp

lemma mold_header_roundtrip:
  "mold_read_header (mold_write_header sess seq c @ rest) = Some \<lparr>session = padded_field 10 sess, mh_sequence = seq, message_count = c\<rparr>"
proof -
  let ?b = "mold_write_header sess seq c @ rest"
  have "drop 10 ?b = write_u64_be seq @ write_u16_be c @ rest" "drop 18 ?b = write_u16_be c @ rest"
    "take 10 ?b = padded_field 10 sess" "\<not> length ?b < 20"
    by (simp_all add: mold_write_header_def)
  then show ?thesis by (simp only: mold_read_header_def MOLD_HEADER_SIZE_def read_write_u64 read_write_u16 if_False)
qed

text \<open>
  The tracker's account: what it expects next is the first number plus what it received and lost.
\<close>

definition st_inv :: "SequenceTracker \<Rightarrow> int \<Rightarrow> bool" where
  "st_inv t b \<longleftrightarrow> (initialized t \<longrightarrow> expected_seq t = b + received t + lost t) \<and> 0 \<le> received t \<and> 0 \<le> lost t
     \<and> (\<not> initialized t \<longrightarrow> received t = 0 \<and> lost t = 0) \<and> 0 \<le> b \<and> expected_seq t < 2 ^ 64 \<and> 0 \<le> expected_seq t"

lemma st_inv_packet:
  assumes "st_inv t b" "0 \<le> p" "0 \<le> c" "p + c < 2 ^ 64" "\<not> initialized t \<longrightarrow> b = p"
  shows "st_inv (fst (observe_packet p c t)) b" "initialized (fst (observe_packet p c t))"
proof -
  have u: "u64 (p + c) = p + c" using assms by (intro u64_id) simp_all
  show "initialized (fst (observe_packet p c t))" by (simp add: observe_packet_def Let_def)
  consider (first) "\<not> initialized t" | (inseq) "initialized t" "p = expected_seq t" | (gap) "initialized t" "p > expected_seq t"
    | (dup) "initialized t" "p < expected_seq t" "p + c \<le> expected_seq t" | (over) "initialized t" "p < expected_seq t" "p + c > expected_seq t"
    by linarith
  then show "st_inv (fst (observe_packet p c t)) b"
  proof cases
    case first
    then show ?thesis using assms u by (auto simp: observe_packet_def st_inv_def u64_id)
  next
    case inseq
    then have "u64 (received t + c) = received t + c" "u64 (expected_seq t + c) = expected_seq t + c"
      using assms by (auto simp: st_inv_def intro!: u64_id)
    then show ?thesis using assms inseq by (auto simp: observe_packet_def st_inv_def)
  next
    case gap
    then have "u64 (received t + c) = received t + c" "u64 (lost t + (p - expected_seq t)) = lost t + (p - expected_seq t)"
      using assms by (auto simp: st_inv_def intro!: u64_id)
    then show ?thesis using assms gap u by (auto simp: observe_packet_def st_inv_def)
  next
    case dup
    then show ?thesis using assms u by (auto simp: observe_packet_def st_inv_def Let_def)
  next
    case over
    then have "u64 (received t + (p + c - expected_seq t)) = received t + (p + c - expected_seq t)"
      using assms by (auto simp: st_inv_def intro!: u64_id)
    then show ?thesis using assms over u by (auto simp: observe_packet_def st_inv_def Let_def)
  qed
qed

section \<open>Properties\<close>

text \<open>
  C28. MoldUDP64 round trip.  A packet of 1 to 65534 messages that fits the buffer is parsed back to
  exactly the messages packed, whatever bytes follow it in the buffer, and a tracker in step with the
  stream moves on by their number.
\<close>

theorem mold_packet_roundtrip:
  assumes "\<forall>m \<in> set ms. msg_ok m" "0 < length ms" "length ms < 65535"
    and "mold_serialize_packet cap sess seq ms = Some buf"
    and "initialized t" "expected_seq t = uint seq" "uint seq + int (length ms) < 2 ^ 64"
  shows "snd (mold_parse_packet (buf @ rest) t) = (ms, int (length ms))
    \<and> expected_seq (fst (mold_parse_packet (buf @ rest) t)) = uint seq + int (length ms)"
proof -
  let ?c = "word_of_nat (length ms) :: 16 word"
  have c: "unat ?c = length ms" using assms(3) by (simp add: unat_of_nat take_bit_nat_eq_self)
  then have u: "uint ?c = int (length ms)" by (metis uint_nat)
  have n: "\<not> is_control ?c" using c assms(2,3) unfolding is_control_def by (auto simp: unat_eq_zero)
  have b: "buf = mold_write_header sess seq ?c @ concat (map (\<lambda>m. write_u16_be 40 @ serialize m) ms)"
    using assms(4) by (simp add: mold_serialize_packet_def Let_def split: if_splits)
  have h: "mold_read_header (buf @ rest) = Some \<lparr>session = padded_field 10 sess, mh_sequence = seq, message_count = ?c\<rparr>"
    unfolding b append_assoc by (rule mold_header_roundtrip)
  have d: "drop MOLD_HEADER_SIZE (buf @ rest) = concat (map (\<lambda>m. write_u16_be 40 @ serialize m) ms) @ rest"
    unfolding b by (simp add: mold_write_header_def MOLD_HEADER_SIZE_def)
  have bl: "mold_blocks (unat ?c) (drop MOLD_HEADER_SIZE (buf @ rest)) = (ms, True)"
    unfolding c d using mold_blocks_serialize [OF assms(1)] .
  have "u64 (uint seq + int (length ms)) = uint seq + int (length ms)" using assms(7) by (intro u64_id) simp_all
  then have e: "expected_seq (fst (observe_packet (uint seq) (int (length ms)) t)) = uint seq + int (length ms)"
    using assms(5,6) by (simp add: observe_packet_def)
  have p: "mold_parse_packet (buf @ rest) t = (fst (observe_packet (uint seq) (int (length ms)) t), ms, int (length ms))"
    unfolding mold_parse_packet_def h option.case Let_def MoldHeader.simps bl u using n by simp
  show ?thesis unfolding p using e by simp
qed

definition sample_msg :: MarketDataMessage where
  "sample_msg = make_message 9 7 [65, 66] 1502500 100 66 65"

theorem mold_packet_roundtrip_witness:
  "snd (mold_parse_packet (the (mold_serialize_packet 100 [83] 7 [sample_msg]) @ [1, 2])
     (st0\<lparr>initialized := True, expected_seq := 7\<rparr>)) = ([sample_msg], 1)"
proof -
  have "\<exists>buf. mold_serialize_packet 100 [83] 7 [sample_msg] = Some buf"
    by (simp add: mold_serialize_packet_def MOLD_HEADER_SIZE_def MC_MSG_SIZE_def)
  then obtain buf where b: "mold_serialize_packet 100 [83] 7 [sample_msg] = Some buf" by blast
  have m: "msg_ok sample_msg" by (simp add: msg_ok_def sample_msg_def make_message_def)
  show ?thesis
    using mold_packet_roundtrip [of "[sample_msg]", OF _ _ _ b, of "st0\<lparr>initialized := True, expected_seq := 7\<rparr>" "[1, 2]"] m
    by (simp add: b)
qed

text \<open>
  The tracker's account.  After any packets, overlapping, repeated or out of order, the next
  expected number is the first packet's plus the messages received plus the messages counted lost.
\<close>

theorem tracker_accounts:
  assumes "\<forall>(p, c) \<in> set ((p0, c0) # ps). 0 \<le> p \<and> 0 \<le> c \<and> p + c < 2 ^ 64"
  defines "t \<equiv> fold (\<lambda>(p, c) t. fst (observe_packet p c t)) ((p0, c0) # ps) st0"
  shows "expected_seq t = p0 + received t + lost t"
proof -
  have ok: "0 \<le> p0" "0 \<le> c0" "p0 + c0 < 2 ^ 64" using assms(1) by auto
  have i: "st_inv st0 p0" "\<not> initialized st0" using ok by (simp_all add: st_inv_def st0_def)
  note one = st_inv_packet [OF i(1) ok, simplified]
  have run: "st_inv (fold (\<lambda>(p, c) t. fst (observe_packet p c t)) xs t') p0 \<and> initialized (fold (\<lambda>(p, c) t. fst (observe_packet p c t)) xs t')"
    if "st_inv t' p0" "initialized t'" "\<forall>(p, c) \<in> set xs. 0 \<le> p \<and> 0 \<le> c \<and> p + c < 2 ^ 64" for xs t'
    using that
  proof (induction xs arbitrary: t')
    case (Cons x xs)
    obtain p c where x: "x = (p, c)" by (cases x)
    have "0 \<le> p" "0 \<le> c" "p + c < 2 ^ 64" using Cons.prems(3) by (auto simp: x)
    note S = st_inv_packet [OF Cons.prems(1) this] Cons.prems(2)
    then have "st_inv (fst (observe_packet p c t')) p0" "initialized (fst (observe_packet p c t'))" by blast+
    from Cons.IH [OF this] Cons.prems(3) show ?case by (simp add: x)
  qed simp
  have "st_inv t p0 \<and> initialized t"
    unfolding t_def using run [OF one(1) one(2), of ps] assms(1) by simp
  then show ?thesis by (simp add: st_inv_def)
qed

theorem tracker_accounts_witness:
  "expected_seq (fold (\<lambda>(p, c) t. fst (observe_packet p c t)) [(10, 3), (15, 2), (10, 3), (16, 4)] st0)
   = 10 + received (fold (\<lambda>(p, c) t. fst (observe_packet p c t)) [(10, 3), (15, 2), (10, 3), (16, 4)] st0)
     + lost (fold (\<lambda>(p, c) t. fst (observe_packet p c t)) [(10, 3), (15, 2), (10, 3), (16, 4)] st0)"
  by (rule tracker_accounts) simp

text \<open>
  The A/B receiver does not fill gaps: a packet lost on line A that line B delivers after line A has
  moved on is dropped as a duplicate, although nobody has seen it.  And a packet that overlaps what
  was seen is reported as a duplicate although its tail is new.
\<close>

theorem arb_drops_late_copy:
  fixes n :: int
  assumes "0 \<le> n" "n < 2 ^ 63"
  shows "snd (arb_observe LB (n + 1) 1 (fst (arb_observe LA (n + 2) 1 (fst (arb_observe LA n 1 ar0))))) = ARB_DUPLICATE"
    and "snd (arb_observe LB n 2 (fst (arb_observe LA n 1 ar0))) = ARB_DUPLICATE"
  using assms by (simp_all add: arb_observe_def observe_packet_def ar0_def st0_def count_line_def u64_id Let_def)

text \<open>
  A truncated packet moves the tracker on by its message count, although the messages after the cut
  are not delivered: the loss is not seen as a gap.
\<close>

theorem mold_truncation_unnoticed:
  assumes "initialized t" "expected_seq t = 7"
  shows "snd (mold_parse_packet (mold_write_header [83] 7 3) t) = ([], - 1)"
    and "expected_seq (fst (mold_parse_packet (mold_write_header [83] 7 3) t)) = 10"
    and "gaps (fst (mold_parse_packet (mold_write_header [83] 7 3) t)) = gaps t"
proof -
  have h: "mold_read_header (mold_write_header [83] 7 3) = Some \<lparr>session = padded_field 10 [83], mh_sequence = 7, message_count = 3\<rparr>"
    using mold_header_roundtrip [of "[83]" 7 3 "[]"] by simp
  have l: "drop MOLD_HEADER_SIZE (mold_write_header [83] 7 3) = []" by (simp add: mold_write_header_def MOLD_HEADER_SIZE_def)
  have three: "mold_blocks 3 [] = ([], False)" using mold_blocks.simps(2) [of 2 "[]"] by simp
  have p: "mold_parse_packet (mold_write_header [83] 7 3) t = (fst (observe_packet 7 3 t), [], - 1)"
    unfolding mold_parse_packet_def h by (simp add: Let_def is_control_def l three)
  show "snd (mold_parse_packet (mold_write_header [83] 7 3) t) = ([], - 1)"
    "expected_seq (fst (mold_parse_packet (mold_write_header [83] 7 3) t)) = 10"
    "gaps (fst (mold_parse_packet (mold_write_header [83] 7 3) t)) = gaps t"
    unfolding p using assms by (simp_all add: observe_packet_def u64_id)
qed

end
