(* ===== verification/Fix_Text.thy ===== *)
theory Fix_Text
  imports Wire
begin

text \<open>
  The text conversions of the C library that the FIX code uses: \<open>atoi\<close>, \<open>atoll\<close> and \<open>atof\<close>, and the
  \<open>%d\<close>, \<open>%u\<close>, \<open>%03u\<close> and \<open>%.2f\<close> conversions of \<open>snprintf\<close>, with the facts that the readers undo the
  writers.  A C string is the list of its bytes without the terminator.
\<close>

section \<open>Reading numbers\<close>

definition is_space :: "byte \<Rightarrow> bool" where
  "is_space b \<longleftrightarrow> b = 32 \<or> 9 \<le> b \<and> b \<le> 13"

definition is_digit :: "byte \<Rightarrow> bool" where
  "is_digit b \<longleftrightarrow> 48 \<le> b \<and> b \<le> 57"

definition digits_val :: "byte list \<Rightarrow> int" where
  "digits_val bs = foldl (\<lambda>a b. 10 * a + (uint b - 48)) 0 bs"

definition split_sign :: "byte list \<Rightarrow> bool \<times> byte list" where
  "split_sign bs = (case bs of [] \<Rightarrow> (False, [])
     | b # r \<Rightarrow> if b = 45 then (True, r) else if b = 43 then (False, r) else (False, b # r))"

text \<open>\<open>strtol\<close> clamps to the range of \<open>long\<close>; \<open>atoi\<close> converts its value to \<open>int\<close>.\<close>

definition atoll :: "byte list \<Rightarrow> int" where
  "atoll bs = (let (neg, r) = split_sign (dropWhile is_space bs); v = digits_val (takeWhile is_digit r)
     in max (- (2 ^ 63)) (min (2 ^ 63 - 1) (if neg then - v else v)))"

definition atoi :: "byte list \<Rightarrow> int" where
  "atoi bs = s32 (atoll bs)"

text \<open>\<open>strtod\<close>: decimal and hexadecimal numerals with exponents, infinity and NaN.\<close>

definition lower :: "byte \<Rightarrow> byte" where
  "lower b = (if 65 \<le> b \<and> b \<le> 90 then b + 32 else b)"

definition starts_ci :: "string \<Rightarrow> byte list \<Rightarrow> bool" where
  "starts_ci s bs \<longleftrightarrow> map lower (take (length s) bs) = bytes_of s"

definition is_hex :: "byte \<Rightarrow> bool" where
  "is_hex b \<longleftrightarrow> is_digit b \<or> 97 \<le> lower b \<and> lower b \<le> 102"

definition hex_val :: "byte list \<Rightarrow> int" where
  "hex_val bs = foldl (\<lambda>a b. 16 * a + (if is_digit b then uint b - 48 else uint (lower b) - 87)) 0 bs"

definition read_exponent :: "byte \<Rightarrow> byte list \<Rightarrow> int" where
  "read_exponent mark r = (case r of [] \<Rightarrow> 0
     | b # r1 \<Rightarrow> if lower b \<noteq> mark then 0
                else let (neg, r2) = split_sign r1; v = digits_val (takeWhile is_digit r2) in if neg then - v else v)"

definition fraction_part :: "(byte \<Rightarrow> bool) \<Rightarrow> byte list \<Rightarrow> byte list \<times> byte list" where
  "fraction_part p r = (case r of b # r1 \<Rightarrow> if b = 46 then (takeWhile p r1, dropWhile p r1) else ([], r) | [] \<Rightarrow> ([], []))"

definition read_decimal :: "byte list \<Rightarrow> dbl" where
  "read_decimal r = (let ip = takeWhile is_digit r; (fp, rest) = fraction_part is_digit (dropWhile is_digit r)
     in if ip = [] \<and> fp = [] then Fin 0
        else fin (of_int (digits_val (ip @ fp)) * 10 powi (read_exponent 101 rest - int (length fp))))"

definition read_hex :: "byte list \<Rightarrow> dbl" where
  "read_hex r = (let ip = takeWhile is_hex r; (fp, rest) = fraction_part is_hex (dropWhile is_hex r)
     in if ip = [] \<and> fp = [] then Fin 0
        else fin (of_int (hex_val (ip @ fp)) * 2 powi (read_exponent 112 rest - 4 * int (length fp))))"

definition atof :: "byte list \<Rightarrow> dbl" where
  "atof bs = (let (neg, r) = split_sign (dropWhile is_space bs);
       v = (if starts_ci ''inf'' r then Inf False else if starts_ci ''nan'' r then NaN
            else if starts_ci ''0x'' r then read_hex (drop 2 r) else read_decimal r)
     in if neg then dneg v else v)"

section \<open>Writing numbers\<close>

definition udec :: "nat \<Rightarrow> byte list" where
  "udec n = bytes_of (dec_digits n)"

definition print_u :: "int \<Rightarrow> byte list" where
  "print_u n = udec (nat n)"

definition print_d :: "int \<Rightarrow> byte list" where
  "print_d n = (if n < 0 then 45 # udec (nat (- n)) else udec (nat n))"

definition print_03u :: "int \<Rightarrow> byte list" where
  "print_03u n = (let s = print_u n in replicate (3 - length s) 48 @ s)"

text \<open>\<open>%.2f\<close> writes the exact value rounded to a multiple of a hundredth, ties to even.\<close>

definition cents :: "rat \<Rightarrow> nat" where
  "cents x = nat (round_even (\<bar>x\<bar> * 100))"

fun print_2f :: "dbl \<Rightarrow> byte list" where
  "print_2f (Fin x) = (let n = cents x; s = udec (n div 100) @ 46 # udec (n mod 100 div 10) @ udec (n mod 10)
     in if x < 0 then 45 # s else s)"
| "print_2f (Inf neg) = (if neg then bytes_of ''-inf'' else bytes_of ''inf'')"
| "print_2f NaN = bytes_of ''nan''"

section \<open>Readers undo writers\<close>

lemma digit_byte: "k < 10 \<Longrightarrow> chr (char_of (48 + k)) = word_of_nat (48 + k)" for k :: nat
proof -
  assume k: "k < 10"
  have "(of_char (char_of (48 + k)) :: byte) = of_nat (of_char (char_of (48 + k)))" by (simp only: of_nat_of_char)
  also have "(of_char (char_of (48 + k)) :: nat) = 48 + k" using k by (simp add: of_char_of)
  finally show ?thesis by (simp add: chr_def)
qed

lemma udec_rec: "udec n = (if n < 10 then [word_of_nat (48 + n)] else udec (n div 10) @ [word_of_nat (48 + n mod 10)])"
  by (subst udec_def, subst dec_digits.simps) (simp add: bytes_of_def digit_byte udec_def del: of_nat_add)

lemma uint_digit: "k < 10 \<Longrightarrow> uint (word_of_nat (48 + k) :: byte) = 48 + int k"
  by (simp add: uint_word_of_int unsigned_of_nat take_bit_nat_eq_self take_bit_int_eq_self del: of_nat_add)

lemma is_digit_digit: "k < 10 \<Longrightarrow> is_digit (word_of_nat (48 + k))"
  by (simp add: is_digit_def word_le_def uint_digit del: of_nat_add)

lemma udec_facts: "list_all is_digit (udec n) \<and> digits_val (udec n) = int n \<and> udec n \<noteq> []"
proof (induction n rule: less_induct)
  case (less n)
  show ?case
  proof (cases "n < 10")
    case True
    then show ?thesis by (subst (1 2 3) udec_rec) (simp add: digits_val_def uint_digit is_digit_digit del: of_nat_add)
  next
    case False
    then have IH: "list_all is_digit (udec (n div 10))" "digits_val (udec (n div 10)) = int (n div 10)"
      using less [of "n div 10"] by auto
    have "10 * int (n div 10) + int (n mod 10) = int n" by (simp add: zdiv_int zmod_int)
    moreover have "digits_val (udec (n div 10) @ [word_of_nat (48 + n mod 10)]) = 10 * digits_val (udec (n div 10)) + int (n mod 10)"
      by (simp add: digits_val_def uint_digit del: of_nat_add)
    ultimately have "digits_val (udec (n div 10) @ [word_of_nat (48 + n mod 10)]) = int n" using IH(2) by simp
    then show ?thesis using IH(1) False by (subst (1 2 3) udec_rec) (simp add: is_digit_digit del: of_nat_add)
  qed
qed

lemma udec_digits: "b \<in> set (udec n) \<Longrightarrow> is_digit b"
  using udec_facts by (simp add: list_all_iff)

lemma udec_not_Nil [simp]: "udec n \<noteq> []"
  using udec_facts by blast

lemma digits_val_udec [simp]: "digits_val (udec n) = int n"
  using udec_facts by blast

text \<open>Bytes that no numeral contains.\<close>

lemma not_digit: "\<not> is_digit 1" "\<not> is_digit 124" "\<not> is_digit 61" "\<not> is_digit 46" "\<not> is_digit 45" "\<not> is_digit 43"
  "\<not> is_digit 0" "\<not> is_digit 32"
  by (simp_all add: is_digit_def word_le_def)

lemma space_not_digit: "is_digit b \<Longrightarrow> \<not> is_space b"
  by (auto simp: is_digit_def is_space_def word_le_def)

lemma takeWhile_digits:
  "\<forall>b \<in> set bs. is_digit b \<Longrightarrow> rest = [] \<or> \<not> is_digit (hd rest) \<Longrightarrow>
   takeWhile is_digit (bs @ rest) = bs \<and> dropWhile is_digit (bs @ rest) = rest"
  by (cases rest) (simp_all add: takeWhile_append dropWhile_append)

lemma udec_head: "\<exists>b r. udec n = b # r \<and> is_digit b"
  using udec_facts [of n] by (cases "udec n") auto

lemma split_digits: "split_sign (dropWhile is_space (udec n @ rest)) = (False, udec n @ rest)"
proof -
  obtain b r where u: "udec n = b # r" "is_digit b" using udec_head by blast
  then have "\<not> is_space b" "b \<noteq> 45" "b \<noteq> 43" using space_not_digit not_digit by auto
  then show ?thesis using u by (simp add: split_sign_def)
qed

lemma atoll_udec: "int n < 2 ^ 63 \<Longrightarrow> rest = [] \<or> \<not> is_digit (hd rest) \<Longrightarrow> atoll (udec n @ rest) = int n"
  using takeWhile_digits [of "udec n" rest] udec_digits [of _ n] by (simp add: atoll_def split_digits)

lemma atoi_print_u: "0 \<le> n \<Longrightarrow> n < 2 ^ 31 \<Longrightarrow> atoi (print_u n) = n"
  using atoll_udec [of "nat n" "[]"] by (simp add: atoi_def print_u_def s32_id)

text \<open>Above \<open>2^31\<close> the value wraps, and converting back to \<open>uint32_t\<close> restores it.\<close>

lemma u32_atoi_print_u: "0 \<le> n \<Longrightarrow> n < 2 ^ 32 \<Longrightarrow> u32 (atoi (print_u n)) = n"
proof -
  assume n: "0 \<le> n" "n < 2 ^ 32"
  have "atoll (print_u n) = n" using atoll_udec [of "nat n" "[]"] n by (simp add: print_u_def)
  then have "u32 (atoi (print_u n)) = n mod 2 ^ 32" unfolding atoi_def u32_def by (simp only: s32_mod)
  then show ?thesis using n by simp
qed

lemma atoll_print_d:
  assumes "- (2 ^ 63) < n" "n < 2 ^ 63"
  shows "atoll (print_d n) = n"
proof (cases "n < 0")
  case True
  have t: "takeWhile is_digit (udec (nat (- n))) = udec (nat (- n))" using udec_digits by simp
  have "atoll (print_d n) = max (- (2 ^ 63)) (min (2 ^ 63 - 1) n)"
    using True by (simp add: atoll_def print_d_def split_sign_def is_space_def t del: takeWhile_eq_all_conv)
  then show ?thesis using assms by simp
next
  case False
  then show ?thesis using atoll_udec [of "nat n" "[]"] assms by (simp add: print_d_def)
qed

lemma atoi_print_d: "- (2 ^ 31) \<le> n \<Longrightarrow> n < 2 ^ 31 \<Longrightarrow> atoi (print_d n) = n"
  using atoll_print_d [of n] by (simp add: atoi_def s32_id)

lemma digits_val_zeros: "digits_val (replicate k 48 @ bs) = digits_val bs"
  by (induction k) (simp_all add: digits_val_def)

lemma atoi_print_03u: "0 \<le> n \<Longrightarrow> n < 2 ^ 31 \<Longrightarrow> atoi (print_03u n) = n"
proof -
  assume n: "0 \<le> n" "n < 2 ^ 31"
  let ?s = "print_03u n"
  have d: "\<forall>b \<in> set ?s. is_digit b" by (auto simp: print_03u_def print_u_def Let_def is_digit_def dest: udec_digits)
  have ne: "?s \<noteq> []" by (simp add: print_03u_def print_u_def Let_def)
  then obtain b r where br: "?s = b # r" by (cases ?s) auto
  then have "\<not> is_space b" "b \<noteq> 45" "b \<noteq> 43" using d space_not_digit not_digit by auto
  then have "split_sign (dropWhile is_space ?s) = (False, ?s)" by (simp add: br split_sign_def)
  moreover have t: "takeWhile is_digit ?s = ?s" using d by simp
  moreover have "digits_val ?s = n" using n by (simp add: print_03u_def print_u_def Let_def digits_val_zeros)
  ultimately show ?thesis using n by (simp add: atoi_def atoll_def s32_id del: takeWhile_eq_all_conv)
qed

lemma digits_val_append: "digits_val (xs @ ys) = digits_val xs * 10 ^ length ys + digits_val ys"
proof (induction ys rule: rev_induct)
  case (snoc y ys)
  then show ?case by (simp add: digits_val_def algebra_simps flip: append_assoc)
qed (simp add: digits_val_def)

lemma udec_digit: "n < 10 \<Longrightarrow> length (udec n) = 1"
  by (subst udec_rec) simp

lemma lower_digit: "is_digit b \<Longrightarrow> lower b = b"
  by (auto simp: is_digit_def lower_def word_le_def)

text \<open>A text that starts with a digit and continues with a digit or a point is a decimal numeral.\<close>

lemma decimal_start:
  assumes "is_digit b" "r = [] \<or> is_digit (hd r) \<or> hd r = 46"
  shows "atof (b # r) = read_decimal (b # r)"
proof -
  have b: "\<not> is_space b" "b \<noteq> 45" "b \<noteq> 43" "lower b = b" "b \<noteq> 105" "b \<noteq> 110"
    using assms(1) space_not_digit not_digit lower_digit by (auto simp: is_digit_def word_le_def)
  have "r = [] \<or> lower (hd r) \<noteq> 120"
    using assms(2) lower_digit by (auto simp: is_digit_def lower_def word_le_def)
  then have "\<not> starts_ci ''0x'' (b # r)"
    by (cases r) (simp_all add: starts_ci_def bytes_of_def chr_def)
  moreover have "\<not> starts_ci ''inf'' (b # r)" "\<not> starts_ci ''nan'' (b # r)"
    using b by (simp_all add: starts_ci_def bytes_of_def chr_def)
  ultimately show ?thesis using b by (simp add: atof_def split_sign_def)
qed

lemma atof_print_2f:
  assumes "0 \<le> x"
  shows "atof (print_2f (Fin x)) = fin (of_nat (cents x) / 100)"
proof -
  let ?n = "cents x"
  let ?a = "udec (?n div 100)" and ?f = "udec (?n mod 100 div 10) @ udec (?n mod 10)"
  have p: "print_2f (Fin x) = ?a @ 46 # ?f" using assms by (simp add: Let_def)
  obtain b r where u: "?a = b # r" "is_digit b" using udec_head by blast
  have r: "r @ 46 # ?f = [] \<or> is_digit (hd (r @ 46 # ?f)) \<or> hd (r @ 46 # ?f) = 46"
    using udec_digits [of _ "?n div 100"] u(1) by (cases r) auto
  have l: "length ?f = 2" using udec_digit [of "?n mod 100 div 10"] udec_digit [of "?n mod 10"] by simp
  have tw: "takeWhile is_digit (?a @ 46 # ?f) = ?a \<and> dropWhile is_digit (?a @ 46 # ?f) = 46 # ?f"
    by (rule takeWhile_digits) (use udec_digits not_digit in auto)
  have fd: "\<forall>y \<in> set ?f. is_digit y" using udec_digits by auto
  have fp: "fraction_part is_digit (46 # ?f) = (?f, [])" using takeWhile_digits [OF fd, of "[]"] by (simp add: fraction_part_def)
  have "digits_val (?a @ ?f) = int (?n div 100) * 100 + (int (?n mod 100 div 10) * 10 + int (?n mod 10))"
    using udec_digit [of "?n mod 10"] unfolding digits_val_append [of ?a ?f] l by (simp add: digits_val_append)
  also have "\<dots> = int ?n"
  proof -
    have e: "k div 100 * 100 + (k mod 100 div 10 * 10 + k mod 10) = k" for k :: nat
    proof -
      have "k mod 10 = k mod 100 mod 10" by (simp add: mod_mod_cancel)
      then have "k mod 100 div 10 * 10 + k mod 10 = k mod 100" by (simp only: div_mult_mod_eq)
      then show ?thesis by (simp only: div_mult_mod_eq)
    qed
    show ?thesis using arg_cong [OF e [of ?n], of int] by (simp only: of_nat_add of_nat_mult of_nat_numeral)
  qed
  finally have v: "digits_val (?a @ ?f) = int ?n" .
  have e: "read_exponent 101 [] - int 2 = - 2" by (simp add: read_exponent_def)
  have "read_decimal (?a @ 46 # ?f) = fin (of_int (int ?n) * 10 powi (- 2))"
    unfolding read_decimal_def tw [THEN conjunct1] tw [THEN conjunct2] fp Let_def case_prod_conv v l e
    using udec_not_Nil by (simp only: append_is_Nil_conv simp_thms if_False)
  also have "(of_int (int ?n) * 10 powi (- 2) :: rat) = of_nat ?n / 100"
    by (simp only: power_int_minus of_int_of_nat_eq power_int_numeral divide_inverse) simp
  also have "read_decimal (?a @ 46 # ?f) = atof (?a @ 46 # ?f)"
    unfolding u(1) append_Cons by (rule decimal_start [OF u(2) r, symmetric])
  finally show ?thesis unfolding p .
qed

end
