(* ===== verification/Fix_Parser.thy ===== *)
theory Fix_Parser
  imports Fix_Text
begin

text \<open>
  \<open>fix-protocol/fix_parser.hpp\<close>: the scan of a FIX message into tag and value pairs, its CheckSum and
  BodyLength checks, the accessors, and \<open>build_message\<close>.  The parser works on a copy of at most 1023
  bytes of the C string it is given.
\<close>

section \<open>Messages\<close>

definition SOH :: byte where
  "SOH = 1"

definition BAR :: byte where
  "BAR = 124"

definition EQ :: byte where
  "EQ = 61"

definition MAX_FIX_TAGS :: nat where
  "MAX_FIX_TAGS = 32"

definition MAX_FIX_VALUE :: nat where
  "MAX_FIX_VALUE = 32"

type_synonym fix_field = "int \<times> byte list"

record FIXMessage =
  fix_fields :: "fix_field list"
  cksum_present :: bool
  cksum_valid :: bool
  bodylen_present :: bool
  bodylen_valid :: bool
  computed_cksum :: int
  computed_bodylen :: int

definition fm0 :: FIXMessage where
  "fm0 = \<lparr>fix_fields = [], cksum_present = False, cksum_valid = False, bodylen_present = False, bodylen_valid = False,
     computed_cksum = - 1, computed_bodylen = - 1\<rparr>"

definition find_field :: "int \<Rightarrow> FIXMessage \<Rightarrow> byte list option" where
  "find_field tag m = map_of (fix_fields m) tag"

definition compute_checksum :: "byte list \<Rightarrow> int" where
  "compute_checksum bs = u32 (sum_list (map uint bs)) mod 256"

section \<open>Parsing\<close>

record fix_scan =
  sc_fields :: "fix_field list"
  cksum_off :: int
  body_off :: int
  pending_body :: bool

definition scan0 :: fix_scan where
  "scan0 = \<lparr>sc_fields = [], cksum_off = - 1, body_off = - 1, pending_body = False\<rparr>"

text \<open>One pass of the loop: the text of the field at offset \<open>off\<close>.\<close>

definition scan_field :: "nat \<Rightarrow> byte list \<Rightarrow> fix_scan \<Rightarrow> fix_scan" where
  "scan_field off field s0 =
     (let s = (if pending_body s0 then s0\<lparr>body_off := int off, pending_body := False\<rparr> else s0);
          tag_text = takeWhile (\<lambda>b. b \<noteq> EQ) field; tag = atoi tag_text;
          value = take (MAX_FIX_VALUE - 1) (drop (length tag_text + 1) field)
      in if EQ \<in> set field \<and> tag_text \<noteq> [] \<and> tag > 0
         then s\<lparr>sc_fields := sc_fields s @ [(tag, value)],
                pending_body := (if tag = 9 then True else pending_body s),
                cksum_off := (if tag = 10 then int off else cksum_off s)\<rparr>
         else s)"

lemma scan_used: "rest \<noteq> [] \<Longrightarrow> d \<notin> set rest \<Longrightarrow> takeWhile (\<lambda>b. b \<noteq> d) rest \<noteq> []"
  by (cases rest) auto

function scan_fields :: "byte \<Rightarrow> nat \<Rightarrow> byte list \<Rightarrow> fix_scan \<Rightarrow> fix_scan" where
  "scan_fields d off rest s =
     (if rest = [] \<or> length (sc_fields s) \<ge> MAX_FIX_TAGS then s
      else let field = takeWhile (\<lambda>b. b \<noteq> d) rest;
               used = length field + (if d \<in> set rest then 1 else 0)
           in scan_fields d (off + used) (drop used rest) (scan_field off field s))"
  by pat_completeness auto
termination
  by (relation "measure (\<lambda>(d, off, rest, s). length rest)") (auto simp: scan_used)

declare scan_fields.simps [simp del]

definition validate :: "byte list \<Rightarrow> fix_scan \<Rightarrow> FIXMessage" where
  "validate raw s =
     (let m0 = fm0\<lparr>fix_fields := sc_fields s\<rparr>;
          m1 = (case find_field 10 m0 of
                  Some v \<Rightarrow> if cksum_off s \<ge> 0
                    then let c = compute_checksum (take (nat (cksum_off s)) raw)
                         in m0\<lparr>cksum_present := True, computed_cksum := c, cksum_valid := (atoi v = c)\<rparr>
                    else m0
                | None \<Rightarrow> m0)
      in case find_field 9 m1 of
           Some v \<Rightarrow> if body_off s \<ge> 0 \<and> cksum_off s \<ge> body_off s
             then let n = s32 (cksum_off s - body_off s)
                  in m1\<lparr>bodylen_present := True, computed_bodylen := n, bodylen_valid := (atoi v = n)\<rparr>
             else m1
         | None \<Rightarrow> m1)"

definition fix_parse :: "byte list \<Rightarrow> FIXMessage" where
  "fix_parse raw0 =
     (let raw = cstr raw0 in
      if raw = [] then fm0
      else let buf = take 1023 raw; d = (if SOH \<in> set buf then SOH else BAR)
           in validate raw (scan_fields d 0 buf scan0))"

section \<open>Accessors\<close>

definition get_msg_type :: "FIXMessage \<Rightarrow> byte list" where
  "get_msg_type m = (case find_field 35 m of Some v \<Rightarrow> v | None \<Rightarrow> bytes_of ''UNKNOWN'')"

text \<open>\<open>s[0]\<close>, the terminator for an empty string.\<close>

definition head0 :: "byte list \<Rightarrow> byte" where
  "head0 s = (case s of [] \<Rightarrow> 0 | b # _ \<Rightarrow> b)"

definition is_admin_msg_type :: "byte list option \<Rightarrow> bool" where
  "is_admin_msg_type t = (case t of None \<Rightarrow> False
     | Some s \<Rightarrow> length s = 1 \<and> (head0 s \<in> set (bytes_of ''012345A'')))"

definition is_admin :: "FIXMessage \<Rightarrow> bool" where
  "is_admin m = (case find_field 35 m of None \<Rightarrow> False | Some v \<Rightarrow> is_admin_msg_type (Some v))"

definition count_field :: "int \<Rightarrow> FIXMessage \<Rightarrow> nat" where
  "count_field tag m = length (filter (\<lambda>(t, v). t = tag) (fix_fields m))"

definition get_field_nth :: "int \<Rightarrow> nat \<Rightarrow> FIXMessage \<Rightarrow> byte list option" where
  "get_field_nth tag i m = (let vs = map snd (filter (\<lambda>(t, v). t = tag) (fix_fields m))
     in if i < length vs then Some (vs ! i) else None)"

definition get_int_nth :: "int \<Rightarrow> nat \<Rightarrow> FIXMessage \<Rightarrow> int" where
  "get_int_nth tag i m = (case get_field_nth tag i m of Some v \<Rightarrow> atoi v | None \<Rightarrow> 0)"

definition get_double_nth :: "int \<Rightarrow> nat \<Rightarrow> FIXMessage \<Rightarrow> dbl" where
  "get_double_nth tag i m = (case get_field_nth tag i m of Some v \<Rightarrow> atof v | None \<Rightarrow> Fin 0)"

definition get_symbol :: "FIXMessage \<Rightarrow> byte list" where
  "get_symbol m = (case find_field 55 m of Some v \<Rightarrow> v | None \<Rightarrow> bytes_of ''UNKNOWN'')"

definition get_side :: "FIXMessage \<Rightarrow> string" where
  "get_side m = (case find_field 54 m of None \<Rightarrow> ''UNKNOWN''
     | Some v \<Rightarrow> if head0 v = chr (CHR ''1'') then ''BUY'' else ''SELL'')"

definition get_int :: "int \<Rightarrow> FIXMessage \<Rightarrow> int" where
  "get_int tag m = (case find_field tag m of Some v \<Rightarrow> atoi v | None \<Rightarrow> 0)"

definition get_double :: "int \<Rightarrow> FIXMessage \<Rightarrow> dbl" where
  "get_double tag m = (case find_field tag m of Some v \<Rightarrow> atof v | None \<Rightarrow> Fin 0)"

definition get_price :: "FIXMessage \<Rightarrow> dbl" where
  "get_price m = (case find_field 44 m of Some v \<Rightarrow> atof v | None \<Rightarrow> Fin 0)"

definition get_quantity :: "FIXMessage \<Rightarrow> int" where
  "get_quantity m = (case find_field 38 m of Some v \<Rightarrow> atoi v | None \<Rightarrow> 0)"

definition get_field :: "int \<Rightarrow> FIXMessage \<Rightarrow> byte list option" where
  "get_field tag m = find_field tag m"

definition field_count :: "FIXMessage \<Rightarrow> nat" where
  "field_count m = length (fix_fields m)"

definition has_required_header :: "FIXMessage \<Rightarrow> bool" where
  "has_required_header m \<longleftrightarrow> find_field 8 m \<noteq> None \<and> find_field 9 m \<noteq> None \<and> find_field 35 m \<noteq> None \<and> find_field 10 m \<noteq> None"

definition fix_is_valid :: "FIXMessage \<Rightarrow> bool" where
  "fix_is_valid m \<longleftrightarrow> has_required_header m \<and> cksum_valid m \<and> bodylen_valid m"

definition validate_new_order :: "FIXMessage \<Rightarrow> string option" where
  "validate_new_order m =
     (if head0 (case find_field 35 m of Some v \<Rightarrow> v | None \<Rightarrow> []) \<noteq> chr (CHR ''D'') then Some ''not a NewOrderSingle (35!=D)''
      else if find_field 11 m = None then Some ''missing ClOrdID (11)''
      else if find_field 55 m = None then Some ''missing Symbol (55)''
      else case find_field 54 m of None \<Rightarrow> Some ''missing Side (54)''
      | Some sd \<Rightarrow>
        if head0 sd \<noteq> chr (CHR ''1'') \<and> head0 sd \<noteq> chr (CHR ''2'') then Some ''invalid Side (54)''
        else case find_field 38 m of None \<Rightarrow> Some ''missing OrderQty (38)''
        | Some q \<Rightarrow>
          if atoi q \<le> 0 then Some ''non-positive OrderQty (38)''
          else case find_field 40 m of None \<Rightarrow> None
          | Some ot \<Rightarrow>
            if head0 ot = chr (CHR ''2'')
            then (case find_field 44 m of None \<Rightarrow> Some ''limit order requires positive Price (44)''
                  | Some px \<Rightarrow> if dle (atof px) (Fin 0) then Some ''limit order requires positive Price (44)'' else None)
            else None)"

section \<open>Building\<close>

text \<open>
  \<open>snprintf\<close> returns the length of the whole header even when the 64 byte buffer holds less; the copy
  then reads past it.
\<close>

datatype built = Built "byte list" | TooSmall | OverRead

definition fix_header :: "byte list \<Rightarrow> nat \<Rightarrow> byte \<Rightarrow> byte list" where
  "fix_header begin_string blen delim =
     bytes_of ''8='' @ begin_string @ delim # bytes_of ''9='' @ print_d (int blen) @ [delim]"

definition build_message :: "nat \<Rightarrow> byte list \<Rightarrow> byte list \<Rightarrow> byte \<Rightarrow> built" where
  "build_message cap body0 begin_string delim =
     (let body = cstr body0; blen = length body; head = fix_header begin_string blen delim; hlen = length head
      in if hlen + blen + 16 > cap then TooSmall
         else if hlen \<ge> 64 then OverRead
         else Built (head @ body @ bytes_of ''10='' @ print_03u (compute_checksum (head @ body)) @ [delim]))"

section \<open>What is built is read back\<close>

text \<open>The text of fields, each closed by the delimiter, as the format strings write it.\<close>

definition wire_field :: "byte \<Rightarrow> fix_field \<Rightarrow> byte list" where
  "wire_field d f = print_u (fst f) @ EQ # snd f @ [d]"

definition wire :: "byte \<Rightarrow> fix_field list \<Rightarrow> byte list" where
  "wire d fs = concat (map (wire_field d) fs)"

lemma wire_simps [simp]: "wire d [] = []" "wire d (f # fs) = wire_field d f @ wire d fs" "wire d (fs @ gs) = wire d fs @ wire d gs"
  by (simp_all add: wire_def)

text \<open>Fields that the parser reproduces: a positive tag and at most 31 bytes without delimiter.\<close>

definition value_fits :: "byte \<Rightarrow> byte list \<Rightarrow> bool" where
  "value_fits d v \<longleftrightarrow> length v \<le> 31 \<and> d \<notin> set v \<and> SOH \<notin> set v \<and> 0 \<notin> set v"

definition field_fits :: "byte \<Rightarrow> fix_field \<Rightarrow> bool" where
  "field_fits d f \<longleftrightarrow> 0 < fst f \<and> fst f < 2 ^ 31 \<and> value_fits d (snd f)"

definition delimiter :: "byte \<Rightarrow> bool" where
  "delimiter d \<longleftrightarrow> d = SOH \<or> d = BAR"

lemma print_u_bytes:
  assumes "b \<in> set (print_u n)"
  shows "b \<noteq> EQ" "b \<noteq> SOH" "b \<noteq> BAR" "b \<noteq> 0"
  using udec_digits [of b "nat n"] assms not_digit by (auto simp: print_u_def EQ_def SOH_def BAR_def)

lemma print_u_not_Nil [simp]: "print_u n \<noteq> []"
  by (simp add: print_u_def)

text \<open>The effect of one well-formed field on the scan.\<close>

definition put_field :: "nat \<Rightarrow> fix_field \<Rightarrow> fix_scan \<Rightarrow> fix_scan" where
  "put_field off f s =
     s\<lparr>sc_fields := sc_fields s @ [f], body_off := (if pending_body s then int off else body_off s),
        pending_body := (fst f = 9), cksum_off := (if fst f = 10 then int off else cksum_off s)\<rparr>"

lemma scan_field_fits:
  assumes "field_fits d f"
  shows "scan_field off (print_u (fst f) @ EQ # snd f) s = put_field off f s"
proof -
  have tag: "takeWhile (\<lambda>b. b \<noteq> EQ) (print_u (fst f) @ EQ # snd f) = print_u (fst f)"
    by (rule takeWhile_tail [THEN trans]) (use print_u_bytes in \<open>auto simp: takeWhile_append\<close>)
  have "atoi (print_u (fst f)) = fst f" using assms by (intro atoi_print_u) (simp_all add: field_fits_def)
  moreover have "take 31 (snd f) = snd f" using assms by (simp add: field_fits_def value_fits_def)
  ultimately show ?thesis using assms unfolding scan_field_def Let_def tag
    by (auto simp: field_fits_def put_field_def MAX_FIX_VALUE_def)
qed

fun scan_spec :: "byte \<Rightarrow> nat \<Rightarrow> fix_field list \<Rightarrow> fix_scan \<Rightarrow> fix_scan" where
  "scan_spec d off [] s = s"
| "scan_spec d off (f # fs) s = scan_spec d (off + length (wire_field d f)) fs (put_field off f s)"

lemma scan_piece:
  assumes "\<forall>b \<in> set t. b \<noteq> d" "length (sc_fields s) < 32"
  shows "scan_fields d off (t @ d # rest) s = scan_fields d (off + (length t + 1)) rest (scan_field off t s)"
proof -
  have "takeWhile (\<lambda>b. b \<noteq> d) (t @ d # rest) = t" using assms(1) by (subst takeWhile_append2) auto
  then show ?thesis using assms(2) by (subst scan_fields.simps) (simp add: Let_def MAX_FIX_TAGS_def)
qed

lemma scan_one:
  assumes "field_fits d f" "delimiter d" "length (sc_fields s) < 32"
  shows "scan_fields d off (wire_field d f @ rest) s = scan_fields d (off + length (wire_field d f)) rest (put_field off f s)"
proof -
  let ?t = "print_u (fst f) @ EQ # snd f"
  have "\<forall>b \<in> set ?t. b \<noteq> d"
    using assms(1,2) print_u_bytes(2,3) [of d "fst f"]
    by (auto simp: field_fits_def value_fits_def delimiter_def) (simp_all add: EQ_def SOH_def BAR_def)
  from scan_piece [OF this assms(3)] show ?thesis
    using scan_field_fits [OF assms(1)] by (simp add: wire_field_def)
qed

lemma scan_wire:
  "list_all (field_fits d) fs \<Longrightarrow> delimiter d \<Longrightarrow> length (sc_fields s) + length fs \<le> 32 \<Longrightarrow>
   scan_fields d off (wire d fs) s = scan_spec d off fs s"
proof (induction fs arbitrary: off s)
  case Nil
  then show ?case by (simp add: scan_fields.simps)
next
  case (Cons f fs)
  then show ?case using scan_one [of d f s off "wire d fs"] by (simp add: put_field_def)
qed

lemma scan_spec_append: "scan_spec d off (fs @ gs) s = scan_spec d (off + length (wire d fs)) gs (scan_spec d off fs s)"
  by (induction fs arbitrary: off s) (simp_all add: add.assoc)

lemma scan_spec_plain:
  assumes "\<forall>f \<in> set fs. fst f \<noteq> 9 \<and> fst f \<noteq> 10" "fs \<noteq> []"
  shows "scan_spec d off fs s = s\<lparr>sc_fields := sc_fields s @ fs, body_off := (if pending_body s then int off else body_off s), pending_body := False\<rparr>"
  using assms
proof (induction fs arbitrary: off s)
  case (Cons f fs)
  then show ?case by (cases "fs = []") (simp_all add: put_field_def)
qed simp

lemma print_u_small: "print_u 8 = bytes_of ''8''" "print_u 9 = bytes_of ''9''" "print_u 10 = bytes_of ''10''"
proof -
  have "udec 8 = [56]" "udec 9 = [57]" "udec 10 = [49, 48]" by (simp_all add: udec_rec)
  then show "print_u 8 = bytes_of ''8''" "print_u 9 = bytes_of ''9''" "print_u 10 = bytes_of ''10''"
    by (simp_all add: print_u_def bytes_of_def chr_def)
qed

lemma EQ_char: "bytes_of ''='' = [EQ]"
  by (simp add: bytes_of_def chr_def EQ_def)

lemma bytes_of_append: "bytes_of (s @ t) = bytes_of s @ bytes_of t"
  by (simp add: bytes_of_def)

lemma fix_header_wire: "fix_header bs n d = wire d [(8, bs), (9, print_d (int n))]"
proof -
  have "bytes_of ''8='' = print_u 8 @ [EQ]" "bytes_of ''9='' = print_u 9 @ [EQ]"
    using bytes_of_append [of "''8''" "''=''"] bytes_of_append [of "''9''" "''=''"] by (simp_all add: print_u_small EQ_char)
  then show ?thesis by (simp add: fix_header_def wire_field_def)
qed

lemma trailer_wire: "bytes_of ''10='' @ v @ [d] = wire d [(10, v)]"
proof -
  have "bytes_of ''10='' = print_u 10 @ [EQ]" using bytes_of_append [of "''10''" "''=''"] by (simp add: print_u_small EQ_char)
  then show ?thesis by (simp add: wire_field_def)
qed

lemma compute_checksum_range: "0 \<le> compute_checksum bs" "compute_checksum bs < 256"
  by (simp_all add: compute_checksum_def)

lemma digits_fit: "\<forall>b \<in> set v. is_digit b \<Longrightarrow> length v \<le> 31 \<Longrightarrow> delimiter d \<Longrightarrow> value_fits d v"
  using not_digit by (auto simp: value_fits_def delimiter_def SOH_def BAR_def)

lemma length_udec: "n < 10 ^ Suc k \<Longrightarrow> length (udec n) \<le> Suc k"
proof (induction k arbitrary: n)
  case 0
  then show ?case by (simp add: udec_digit)
next
  case (Suc k)
  then have "n div 10 < 10 ^ Suc k" by (simp add: less_mult_imp_div_less)
  with Suc.IH [of "n div 10"] show ?case by (subst udec_rec) simp
qed

lemma print_03u_fits:
  assumes "0 \<le> n" "n < 256" "delimiter d"
  shows "value_fits d (print_03u n)"
proof (rule digits_fit [OF _ _ assms(3)])
  show "\<forall>b \<in> set (print_03u n). is_digit b" by (auto simp: print_03u_def print_u_def Let_def is_digit_def dest: udec_digits)
  have "length (udec (nat n)) \<le> Suc 2" using assms(1,2) by (intro length_udec) simp
  then show "length (print_03u n) \<le> 31" by (simp add: print_03u_def print_u_def Let_def)
qed

lemma print_d_fits:
  assumes "n < 10 ^ 9" "delimiter d"
  shows "value_fits d (print_d (int n))"
proof (rule digits_fit [OF _ _ assms(2)])
  show "\<forall>b \<in> set (print_d (int n)). is_digit b" by (auto simp: print_d_def dest: udec_digits)
  have "length (udec n) \<le> Suc 8" using assms(1) by (intro length_udec) simp
  then show "length (print_d (int n)) \<le> 31" by (simp add: print_d_def)
qed

lemma wire_no_nul: "list_all (field_fits d) fs \<Longrightarrow> delimiter d \<Longrightarrow> 0 \<notin> set (wire d fs)"
proof (induction fs)
  case (Cons f fs)
  have "0 \<notin> set (wire_field d f)"
    using Cons.prems print_u_bytes(4) [of 0 "fst f"]
    by (auto simp: wire_field_def field_fits_def value_fits_def delimiter_def EQ_def SOH_def BAR_def)
  then show ?case using Cons by simp
qed simp

lemma wire_no_soh: "list_all (field_fits d) fs \<Longrightarrow> d \<noteq> SOH \<Longrightarrow> SOH \<notin> set (wire d fs)"
proof (induction fs)
  case (Cons f fs)
  have "SOH \<notin> set (wire_field d f)"
    using Cons.prems print_u_bytes(2) [of SOH "fst f"]
    by (auto simp: wire_field_def field_fits_def value_fits_def) (simp add: EQ_def SOH_def)
  then show ?case using Cons by simp
qed simp

text \<open>The parser on a whole message of fields.\<close>

lemma parse_wire:
  assumes "list_all (field_fits d) fs" "delimiter d" "length fs \<le> 32" "fs \<noteq> []" "length (wire d fs) \<le> 1023"
  shows "fix_parse (wire d fs) = validate (wire d fs) (scan_spec d 0 fs scan0)"
proof -
  let ?w = "wire d fs"
  have c: "cstr ?w = ?w" using wire_no_nul [OF assms(1,2)] by (auto simp: cstr_def)
  have ne: "?w \<noteq> []" using assms(4) by (cases fs) (simp_all add: wire_field_def)
  have "(if SOH \<in> set ?w then SOH else BAR) = d"
  proof (cases "d = SOH")
    case True
    then have "SOH \<in> set ?w" using assms(4) by (cases fs) (simp_all add: wire_field_def)
    then show ?thesis using True by simp
  next
    case False
    then show ?thesis using wire_no_soh [OF assms(1)] assms(2) by (simp add: delimiter_def)
  qed
  moreover have "scan_fields d 0 ?w scan0 = scan_spec d 0 fs scan0"
    using assms(1-3) by (intro scan_wire) (simp_all add: scan0_def)
  ultimately show ?thesis using ne assms(5) unfolding fix_parse_def c Let_def by simp
qed

text \<open>A body built by the format strings: fields without the framing tags.\<close>

definition body_ok :: "byte \<Rightarrow> fix_field list \<Rightarrow> bool" where
  "body_ok d fs \<longleftrightarrow> delimiter d \<and> list_all (field_fits d) fs \<and> length fs \<le> 29 \<and> list_all (\<lambda>f. fst f \<noteq> 8 \<and> fst f \<noteq> 9 \<and> fst f \<noteq> 10) fs"

definition framed :: "byte list \<Rightarrow> byte \<Rightarrow> fix_field list \<Rightarrow> fix_field list" where
  "framed bs d fs = (let b = wire d fs in
     (8, bs) # (9, print_d (int (length b))) # fs @ [(10, print_03u (compute_checksum (fix_header bs (length b) d @ b)))])"

lemma scan_framed:
  assumes "body_ok d fs"
  shows "scan_spec d 0 (framed bs d fs) scan0 = \<lparr>sc_fields = framed bs d fs,
     cksum_off = int (length (fix_header bs (length (wire d fs)) d @ wire d fs)),
     body_off = int (length (fix_header bs (length (wire d fs)) d)), pending_body = False\<rparr>"
proof -
  have p: "\<forall>f \<in> set fs. fst f \<noteq> 9 \<and> fst f \<noteq> 10" using assms by (auto simp: body_ok_def list_all_iff)
  have h: "length (wire_field d (8, bs)) + length (wire_field d (9, print_d (int n))) = length (fix_header bs n d)" for n
    by (simp add: fix_header_wire)
  show ?thesis
  proof (cases "fs = []")
    case True
    then show ?thesis using h [of 0] by (simp add: framed_def Let_def put_field_def scan0_def)
  next
    case False
    then show ?thesis using h [of "length (wire d fs)"] scan_spec_plain [OF p False]
      by (simp add: framed_def Let_def scan_spec_append put_field_def scan0_def)
  qed
qed

lemma cstr_wire: "list_all (field_fits d) fs \<Longrightarrow> delimiter d \<Longrightarrow> cstr (wire d fs) = wire d fs"
  using wire_no_nul by (auto simp: cstr_def)

lemma build_framed:
  "body_ok d fs \<Longrightarrow> build_message cap (wire d fs) bs d = Built msg \<Longrightarrow> msg = wire d (framed bs d fs)"
  using cstr_wire [of d fs] by (auto simp: body_ok_def build_message_def framed_def Let_def fix_header_wire trailer_wire split: if_splits)

lemma framed_fits:
  assumes "body_ok d fs" "value_fits d bs" "length (wire d (framed bs d fs)) \<le> 1023"
  shows "list_all (field_fits d) (framed bs d fs)"
proof -
  have "length (wire d fs) < 10 ^ 9" using assms(3) by (simp add: framed_def Let_def)
  then show ?thesis using assms(1,2) compute_checksum_range print_03u_fits print_d_fits
    by (auto simp: framed_def Let_def body_ok_def field_fits_def)
qed

lemma map_of_framed:
  assumes "body_ok d fs"
  shows "map_of (framed bs d fs) 8 = Some bs" "map_of (framed bs d fs) 9 = Some (print_d (int (length (wire d fs))))"
    "map_of (framed bs d fs) 10 = Some (print_03u (compute_checksum (fix_header bs (length (wire d fs)) d @ wire d fs)))"
    "tag \<noteq> 8 \<Longrightarrow> tag \<noteq> 9 \<Longrightarrow> tag \<noteq> 10 \<Longrightarrow> map_of (framed bs d fs) tag = map_of fs tag"
proof -
  have "map_of fs 10 = None" using assms by (auto simp: body_ok_def list_all_iff map_of_eq_None_iff)
  then show "map_of (framed bs d fs) 10 = Some (print_03u (compute_checksum (fix_header bs (length (wire d fs)) d @ wire d fs)))"
    by (simp add: framed_def Let_def map_add_def)
qed (simp_all add: framed_def Let_def map_add_def split: option.splits)

lemma atoi_print_d_nat: "n < 2 ^ 31 \<Longrightarrow> atoi (print_d (int n)) = int n"
  by (rule atoi_print_d) simp_all

text \<open>What the client of a built message relies on: all its fields are read back and both checks pass.\<close>

lemma parse_built:
  assumes "body_ok d fs" "value_fits d bs" "build_message cap (wire d fs) bs d = Built msg" "length msg \<le> 1023"
  shows "fix_fields (fix_parse msg) = framed bs d fs" "cksum_valid (fix_parse msg)" "bodylen_valid (fix_parse msg)"
    "tag \<noteq> 8 \<Longrightarrow> tag \<noteq> 9 \<Longrightarrow> tag \<noteq> 10 \<Longrightarrow> find_field tag (fix_parse msg) = map_of fs tag"
proof -
  let ?h = "fix_header bs (length (wire d fs)) d" and ?F = "framed bs d fs"
  have msg: "msg = wire d ?F" by (rule build_framed [OF assms(1,3)])
  have len: "length (wire d ?F) \<le> 1023" using assms(4) msg by simp
  have "fix_parse msg = validate (wire d ?F) (scan_spec d 0 ?F scan0)"
    unfolding msg using framed_fits [OF assms(1,2) len] len assms(1)
    by (intro parse_wire) (simp_all add: body_ok_def framed_def Let_def)
  note P = this [unfolded scan_framed [OF assms(1)]]
  have w: "take (length (?h @ wire d fs)) (wire d ?F) = ?h @ wire d fs"
    by (simp add: framed_def Let_def fix_header_wire)
  have c: "atoi (print_03u (compute_checksum (?h @ wire d fs))) = compute_checksum (?h @ wire d fs)"
    using compute_checksum_range [of "?h @ wire d fs"] by (intro atoi_print_03u) simp_all
  have bl: "length (wire d fs) < 2 ^ 31" using len by (simp add: framed_def Let_def)
  have n: "s32 (int (length (?h @ wire d fs)) - int (length ?h)) = int (length (wire d fs))"
    using bl by (simp add: s32_id)
  have le: "length ?h \<le> length (?h @ wire d fs)" by simp
  show F: "fix_fields (fix_parse msg) = ?F"
    unfolding P validate_def Let_def find_field_def by (simp add: map_of_framed [OF assms(1)] fm0_def)
  show "cksum_valid (fix_parse msg)" "bodylen_valid (fix_parse msg)"
    unfolding P validate_def Let_def find_field_def
    by (simp_all add: map_of_framed [OF assms(1)] fm0_def w c n le atoi_print_d_nat [OF bl] del: length_append of_nat_add)
  show "tag \<noteq> 8 \<Longrightarrow> tag \<noteq> 9 \<Longrightarrow> tag \<noteq> 10 \<Longrightarrow> find_field tag (fix_parse msg) = map_of fs tag"
    unfolding find_field_def F by (rule map_of_framed(4) [OF assms(1)])
qed

section \<open>Properties\<close>

text \<open>
  A message built from a body of well-formed fields is parsed back: for either delimiter the
  parser finds exactly the framing fields and the fields of the body in order, both the CheckSum and
  the BodyLength check pass, and the message is valid exactly when the body names a message type.
\<close>

theorem fix_build_parse:
  assumes "body_ok d fs" "value_fits d bs" "build_message cap (wire d fs) bs d = Built msg" "length msg \<le> 1023"
  shows "fix_fields (fix_parse msg) = framed bs d fs \<and> cksum_valid (fix_parse msg) \<and> bodylen_valid (fix_parse msg)
    \<and> (fix_is_valid (fix_parse msg) \<longleftrightarrow> map_of fs 35 \<noteq> None)"
proof -
  note P = parse_built [OF assms]
  have "find_field 8 (fix_parse msg) \<noteq> None" "find_field 9 (fix_parse msg) \<noteq> None" "find_field 10 (fix_parse msg) \<noteq> None"
    unfolding find_field_def P(1) using map_of_framed [OF assms(1)] by simp_all
  then show ?thesis using P(1-3) P(4) [of 35] by (simp add: fix_is_valid_def has_required_header_def)
qed

theorem fix_build_parse_witness:
  "\<exists>msg. build_message 200 (wire SOH [(35, bytes_of ''D''), (55, bytes_of ''AAPL'')]) (bytes_of ''FIX.4.2'') SOH = Built msg
     \<and> cksum_valid (fix_parse msg) \<and> fix_is_valid (fix_parse msg)"
proof -
  let ?fs = "[(35, bytes_of ''D''), (55, bytes_of ''AAPL'')]" and ?bs = "bytes_of ''FIX.4.2''"
  have u: "udec 35 = [51, 53]" "udec 55 = [53, 53]" by (simp_all add: udec_rec)
  have ok: "body_ok SOH ?fs" "value_fits SOH ?bs"
    by (simp_all add: body_ok_def delimiter_def field_fits_def value_fits_def bytes_of_def chr_def SOH_def)
  have c: "cstr (wire SOH ?fs) = wire SOH ?fs" using ok(1) by (intro cstr_wire) (simp_all add: body_ok_def)
  have b: "length (wire SOH ?fs) = 13" by (simp add: wire_field_def print_u_def u bytes_of_def)
  have "udec 13 = [49, 51]" by (simp add: udec_rec)
  then have h: "length (fix_header ?bs 13 SOH) = 15" by (simp add: fix_header_def bytes_of_def print_d_def)
  obtain msg where m: "build_message 200 (wire SOH ?fs) ?bs SOH = Built msg"
    unfolding build_message_def Let_def c b h by simp
  have "length (udec (nat (compute_checksum x))) \<le> Suc 2" for x
    using compute_checksum_range [of x] by (intro length_udec) (simp add: nat_less_iff)
  then have "length (print_03u (compute_checksum x)) = 3" for x by (simp add: print_03u_def print_u_def Let_def)
  then have "length msg \<le> 1023" using m b h c by (auto simp: build_message_def Let_def bytes_of_def simp del: wire_simps)
  with fix_build_parse [OF ok m] m show ?thesis by simp
qed

end
