(* ===== verification/Fix_Session.thy ===== *)
theory Fix_Session
  imports Fix_Parser
begin

text \<open>
  \<open>fix-protocol/fix_session.hpp\<close>, the session proper: sequence numbers in and out, the session state,
  the heartbeat timer, the file that keeps the sequence numbers, and the builders of all messages.
  A builder consumes a sequence number, prints its fields into a body buffer of fixed size and frames
  the body; \<^const>\<open>None\<close> is its return value 0.
\<close>

section \<open>State\<close>

datatype SessionState = DISCONNECTED | LOGON_SENT | LOGGED_IN | LOGOUT

record GapDetected =
  gd_expected :: int
  gd_received :: int
  gd_valid :: bool

record FIXSession =
  fs_state :: SessionState
  expected_in_seq :: int
  next_out_seq :: int
  heartbeat_int_sec :: int
  last_inbound_ms :: int
  last_outbound_ms :: int
  test_request_pending :: bool
  sender_comp :: "byte list"
  target_comp :: "byte list"
  pending_test_req_id :: "byte list"
  fs_persist_path :: "byte list"
  gaps_detected :: int
  heartbeats_sent :: int
  resends_requested :: int
  fs_disk :: "(byte list, int \<times> int) hmap"
  fs_disk_ok :: bool

definition fs0 :: FIXSession where
  "fs0 = \<lparr>fs_state = DISCONNECTED, expected_in_seq = 1, next_out_seq = 1, heartbeat_int_sec = 30, last_inbound_ms = 0,
     last_outbound_ms = 0, test_request_pending = False, sender_comp = bytes_of ''SENDER'', target_comp = bytes_of ''TARGET'',
     pending_test_req_id = [], fs_persist_path = [], gaps_detected = 0, heartbeats_sent = 0, resends_requested = 0,
     fs_disk = [], fs_disk_ok = True\<rparr>"

text \<open>\<open>strncpy\<close> into an array of \<open>n\<close> bytes whose last byte stays the terminator.\<close>

definition strn :: "nat \<Rightarrow> byte list \<Rightarrow> byte list" where
  "strn n s = take (n - 1) (cstr s)"

definition set_comp_ids :: "byte list option \<Rightarrow> byte list option \<Rightarrow> FIXSession \<Rightarrow> FIXSession" where
  "set_comp_ids sender target s =
     s\<lparr>sender_comp := (case sender of Some x \<Rightarrow> strn 32 x | None \<Rightarrow> sender_comp s),
        target_comp := (case target of Some x \<Rightarrow> strn 32 x | None \<Rightarrow> target_comp s)\<rparr>"

definition is_logged_in :: "FIXSession \<Rightarrow> bool" where
  "is_logged_in s \<longleftrightarrow> fs_state s = LOGGED_IN"

definition next_outbound_seq :: "FIXSession \<Rightarrow> FIXSession \<times> int" where
  "next_outbound_seq s = (s\<lparr>next_out_seq := u32 (next_out_seq s + 1)\<rparr>, next_out_seq s)"

section \<open>Inbound\<close>

definition observe_inbound :: "int \<Rightarrow> int \<Rightarrow> FIXSession \<Rightarrow> FIXSession \<times> GapDetected" where
  "observe_inbound n now s0 =
     (let s = s0\<lparr>last_inbound_ms := now, test_request_pending := False\<rparr>;
          g = \<lparr>gd_expected = 0, gd_received = n, gd_valid = False\<rparr>
      in if n = expected_in_seq s then (s\<lparr>expected_in_seq := u32 (expected_in_seq s + 1)\<rparr>, g)
         else if n > expected_in_seq s
         then (s\<lparr>gaps_detected := u64 (gaps_detected s + 1), expected_in_seq := u32 (n + 1)\<rparr>,
               g\<lparr>gd_expected := expected_in_seq s, gd_valid := True\<rparr>)
         else (s, g))"

definition mark_resend_requested :: "FIXSession \<Rightarrow> FIXSession" where
  "mark_resend_requested s = s\<lparr>resends_requested := u64 (resends_requested s + 1)\<rparr>"

definition apply_inbound_sequence_reset :: "int \<Rightarrow> FIXSession \<Rightarrow> FIXSession" where
  "apply_inbound_sequence_reset n s = (if n \<ge> expected_in_seq s then s\<lparr>expected_in_seq := n\<rparr> else s)"

definition mark_logon_sent :: "int \<Rightarrow> FIXSession \<Rightarrow> FIXSession" where
  "mark_logon_sent now s = s\<lparr>fs_state := LOGON_SENT, last_outbound_ms := now\<rparr>"

definition mark_logon_received :: "int \<Rightarrow> int \<Rightarrow> FIXSession \<Rightarrow> FIXSession" where
  "mark_logon_received hb now s =
     s\<lparr>fs_state := LOGGED_IN, heartbeat_int_sec := (if hb > 0 then hb else 30), last_inbound_ms := now\<rparr>"

definition mark_logout :: "int \<Rightarrow> FIXSession \<Rightarrow> FIXSession" where
  "mark_logout now s = s\<lparr>fs_state := LOGOUT, last_outbound_ms := now\<rparr>"

definition mark_disconnected :: "FIXSession \<Rightarrow> FIXSession" where
  "mark_disconnected s = s\<lparr>fs_state := DISCONNECTED\<rparr>"

definition no_gap :: GapDetected where
  "no_gap = \<lparr>gd_expected = 0, gd_received = 0, gd_valid = False\<rparr>"

text \<open>The effect of the message type after the sequence number was observed.\<close>

definition inbound_effect :: "FIXMessage \<Rightarrow> int \<Rightarrow> FIXSession \<Rightarrow> FIXSession" where
  "inbound_effect m now s =
     (let c = head0 (get_msg_type m)
      in if c = chr (CHR ''A'')
         then mark_logon_received (case get_field 108 m of Some v \<Rightarrow> atoi v | None \<Rightarrow> 30) now s
         else if c = chr (CHR ''5'') then mark_logout now s
         else if c = chr (CHR ''1'')
         then (case get_field 112 m of Some v \<Rightarrow> s\<lparr>pending_test_req_id := strn 32 v\<rparr> | None \<Rightarrow> s)
         else s)"

definition process_inbound :: "FIXMessage \<Rightarrow> int \<Rightarrow> FIXSession \<Rightarrow> FIXSession \<times> GapDetected" where
  "process_inbound m now s =
     (if head0 (get_msg_type m) = chr (CHR ''4'')
      then let s1 = (case get_field 36 m of Some v \<Rightarrow> apply_inbound_sequence_reset (u32 (atoi v)) s | None \<Rightarrow> s)
           in (s1\<lparr>last_inbound_ms := now\<rparr>, no_gap)
      else let (s1, gap) = (case get_field 34 m of Some v \<Rightarrow> observe_inbound (u32 (atoi v)) now s
                            | None \<Rightarrow> (s\<lparr>last_inbound_ms := now\<rparr>, no_gap))
           in (inbound_effect m now s1, gap))"

definition clear_pending_test_req :: "FIXSession \<Rightarrow> FIXSession" where
  "clear_pending_test_req s = s\<lparr>pending_test_req_id := []\<rparr>"

section \<open>Heartbeat timer\<close>

datatype Action = ACT_NONE | SEND_HEARTBEAT | SEND_TEST_REQUEST | DISCONNECT

definition tick :: "int \<Rightarrow> FIXSession \<Rightarrow> FIXSession \<times> Action" where
  "tick now s =
     (if fs_state s \<noteq> LOGGED_IN then (s, ACT_NONE)
      else let hb_ms = s64 (heartbeat_int_sec s * 1000)
           in if s64 (now - last_inbound_ms s) > s64 (2 * hb_ms)
              then (if test_request_pending s then (s, DISCONNECT) else (s\<lparr>test_request_pending := True\<rparr>, SEND_TEST_REQUEST))
              else if s64 (now - last_outbound_ms s) > hb_ms
              then (s\<lparr>heartbeats_sent := u64 (heartbeats_sent s + 1), last_outbound_ms := now\<rparr>, SEND_HEARTBEAT)
              else (s, ACT_NONE))"

definition mark_outbound :: "int \<Rightarrow> FIXSession \<Rightarrow> FIXSession" where
  "mark_outbound now s = s\<lparr>last_outbound_ms := now\<rparr>"

section \<open>Persistence\<close>

text \<open>The file keeps the two numbers; \<open>fs_disk_ok\<close> says whether it can be opened for writing.\<close>

definition fs_set_persist_path :: "byte list option \<Rightarrow> FIXSession \<Rightarrow> FIXSession" where
  "fs_set_persist_path p s = s\<lparr>fs_persist_path := (case p of Some x \<Rightarrow> cstr x | None \<Rightarrow> [])\<rparr>"

definition persist_seq :: "FIXSession \<Rightarrow> FIXSession" where
  "persist_seq s = (if fs_persist_path s = [] \<or> \<not> fs_disk_ok s then s
     else s\<lparr>fs_disk := AList.update (fs_persist_path s) (next_out_seq s, expected_in_seq s) (fs_disk s)\<rparr>)"

definition load_persisted_seq :: "FIXSession \<Rightarrow> FIXSession \<times> bool" where
  "load_persisted_seq s = (if fs_persist_path s = [] then (s, False)
     else case map_of (fs_disk s) (fs_persist_path s) of None \<Rightarrow> (s, False)
     | Some (o_seq, i_seq) \<Rightarrow> (s\<lparr>next_out_seq := o_seq, expected_in_seq := i_seq\<rparr>, True))"

section \<open>Builders\<close>

definition FIX42 :: "byte list" where
  "FIX42 = bytes_of ''FIX.4.2''"

definition fix_side :: "Side \<Rightarrow> byte" where
  "fix_side sd = (if sd = BUY then chr (CHR ''1'') else chr (CHR ''2''))"

text \<open>
  What the builders share: the session fields in front, the sequence number consumed whatever happens,
  and 0 for a body that does not fit its buffer or a message that does not fit \<open>cap\<close>.
\<close>

definition session_fields :: "string \<Rightarrow> FIXSession \<Rightarrow> fix_field list" where
  "session_fields mt s = [(35, bytes_of mt), (49, sender_comp s), (56, target_comp s), (34, print_u (next_out_seq s))]"

definition body_fits :: "nat \<Rightarrow> string \<Rightarrow> fix_field list \<Rightarrow> byte \<Rightarrow> FIXSession \<Rightarrow> bool" where
  "body_fits room mt fs d s \<longleftrightarrow> length (wire d (session_fields mt s @ fs)) < room"

definition send :: "nat \<Rightarrow> string \<Rightarrow> fix_field list \<Rightarrow> nat \<Rightarrow> byte \<Rightarrow> FIXSession \<Rightarrow> FIXSession \<times> byte list option" where
  "send room mt fs cap d s =
     (fst (next_outbound_seq s),
      if \<not> body_fits room mt fs d s then None
      else case build_message cap (wire d (session_fields mt s @ fs)) FIX42 d of Built msg \<Rightarrow> Some msg | _ \<Rightarrow> None)"

definition build_logon :: "nat \<Rightarrow> int \<Rightarrow> byte \<Rightarrow> FIXSession \<Rightarrow> FIXSession \<times> byte list option" where
  "build_logon cap hb d = send 160 ''A'' [(108, print_d hb)] cap d"

definition opt_text :: "int \<Rightarrow> byte list option \<Rightarrow> fix_field list" where
  "opt_text tag t = (case t of Some x \<Rightarrow> if x = [] then [] else [(tag, x)] | None \<Rightarrow> [])"

definition build_heartbeat :: "nat \<Rightarrow> byte list option \<Rightarrow> byte \<Rightarrow> FIXSession \<Rightarrow> FIXSession \<times> byte list option" where
  "build_heartbeat cap tri d s =
     (let (s1, r) = send 160 ''0'' (opt_text 112 tri) cap d s
      in (if body_fits 160 ''0'' (opt_text 112 tri) d s then s1\<lparr>heartbeats_sent := u64 (heartbeats_sent s1 + 1)\<rparr> else s1, r))"

definition build_test_request :: "nat \<Rightarrow> byte list option \<Rightarrow> byte \<Rightarrow> FIXSession \<Rightarrow> FIXSession \<times> byte list option" where
  "build_test_request cap tri d = send 160 ''1'' [(112, case tri of Some x \<Rightarrow> x | None \<Rightarrow> bytes_of ''TEST'')] cap d"

definition build_resend_request :: "nat \<Rightarrow> int \<Rightarrow> int \<Rightarrow> byte \<Rightarrow> FIXSession \<Rightarrow> FIXSession \<times> byte list option" where
  "build_resend_request cap a b d s =
     (let fs = [(7, print_u a), (16, print_u b)]; (s1, r) = send 160 ''2'' fs cap d s
      in (if body_fits 160 ''2'' fs d s then s1\<lparr>resends_requested := u64 (resends_requested s1 + 1)\<rparr> else s1, r))"

definition build_sequence_reset :: "nat \<Rightarrow> int \<Rightarrow> bool \<Rightarrow> byte \<Rightarrow> FIXSession \<Rightarrow> FIXSession \<times> byte list option" where
  "build_sequence_reset cap n gap_fill d = send 160 ''4'' [(36, print_u n), (123, if gap_fill then bytes_of ''Y'' else bytes_of ''N'')] cap d"

definition build_logout :: "nat \<Rightarrow> byte list option \<Rightarrow> byte \<Rightarrow> FIXSession \<Rightarrow> FIXSession \<times> byte list option" where
  "build_logout cap txt d = send 192 ''5'' (opt_text 58 txt) cap d"

definition build_new_order :: "nat \<Rightarrow> byte list \<Rightarrow> byte list \<Rightarrow> Side \<Rightarrow> int \<Rightarrow> dbl \<Rightarrow> byte \<Rightarrow> FIXSession \<Rightarrow> FIXSession \<times> byte list option" where
  "build_new_order cap oid sy side qty price d =
     send 256 ''D'' [(11, oid), (55, sy), (54, [fix_side side]), (38, print_d qty), (44, print_2f price), (40, bytes_of ''2'')] cap d"

definition build_cancel_order :: "nat \<Rightarrow> byte list \<Rightarrow> byte list \<Rightarrow> byte list \<Rightarrow> Side \<Rightarrow> int \<Rightarrow> byte \<Rightarrow> FIXSession \<Rightarrow> FIXSession \<times> byte list option" where
  "build_cancel_order cap oid orig sy side qty d =
     send 256 ''F'' [(11, oid), (41, orig), (55, sy), (54, [fix_side side]), (38, print_d qty)] cap d"

definition build_cancel_replace ::
  "nat \<Rightarrow> byte list \<Rightarrow> byte list \<Rightarrow> byte list \<Rightarrow> Side \<Rightarrow> int \<Rightarrow> dbl \<Rightarrow> byte \<Rightarrow> FIXSession \<Rightarrow> FIXSession \<times> byte list option" where
  "build_cancel_replace cap oid orig sy side qty price d =
     send 256 ''G'' [(11, oid), (41, orig), (55, sy), (54, [fix_side side]), (38, print_d qty), (44, print_2f price), (40, bytes_of ''2'')] cap d"

definition build_order_status_request :: "nat \<Rightarrow> byte list \<Rightarrow> byte list \<Rightarrow> Side \<Rightarrow> byte \<Rightarrow> FIXSession \<Rightarrow> FIXSession \<times> byte list option" where
  "build_order_status_request cap oid sy side d = send 256 ''H'' [(11, oid), (55, sy), (54, [fix_side side])] cap d"

definition build_mass_cancel :: "nat \<Rightarrow> byte list \<Rightarrow> byte \<Rightarrow> byte list option \<Rightarrow> byte \<Rightarrow> FIXSession \<Rightarrow> FIXSession \<times> byte list option" where
  "build_mass_cancel cap oid rtype sy d =
     send 256 ''q'' (if rtype = chr (CHR ''1'') \<and> sy \<noteq> None then [(11, oid), (530, bytes_of ''1''), (55, the sy)]
                     else [(11, oid), (530, bytes_of ''7'')]) cap d"

definition build_mass_cancel_report :: "nat \<Rightarrow> byte list \<Rightarrow> byte \<Rightarrow> int \<Rightarrow> byte \<Rightarrow> FIXSession \<Rightarrow> FIXSession \<times> byte list option" where
  "build_mass_cancel_report cap oid response affected d = send 256 ''r'' [(11, oid), (531, [response]), (533, print_d affected)] cap d"

definition build_market_data_request ::
  "nat \<Rightarrow> byte list \<Rightarrow> byte \<Rightarrow> int \<Rightarrow> byte list \<Rightarrow> byte \<Rightarrow> FIXSession \<Rightarrow> FIXSession \<times> byte list option" where
  "build_market_data_request cap rid sub depth sy d =
     send 256 ''V'' [(262, rid), (263, [sub]), (264, print_d depth), (146, bytes_of ''1''), (55, sy)] cap d"

definition build_md_snapshot ::
  "nat \<Rightarrow> byte list \<Rightarrow> byte list \<Rightarrow> dbl \<Rightarrow> int \<Rightarrow> dbl \<Rightarrow> int \<Rightarrow> byte \<Rightarrow> FIXSession \<Rightarrow> FIXSession \<times> byte list option" where
  "build_md_snapshot cap rid sy bid_px bid_sz ask_px ask_sz d =
     send 320 ''W'' [(262, rid), (55, sy), (268, bytes_of ''2''), (269, bytes_of ''0''), (270, print_2f bid_px), (271, print_d bid_sz),
                     (269, bytes_of ''1''), (270, print_2f ask_px), (271, print_d ask_sz)] cap d"

definition build_md_incremental ::
  "nat \<Rightarrow> byte list \<Rightarrow> byte \<Rightarrow> byte \<Rightarrow> byte list \<Rightarrow> dbl \<Rightarrow> int \<Rightarrow> byte \<Rightarrow> FIXSession \<Rightarrow> FIXSession \<times> byte list option" where
  "build_md_incremental cap rid act etype sy px sz d =
     send 320 ''X'' [(262, rid), (268, bytes_of ''1''), (279, [act]), (269, [etype]), (55, sy), (270, print_2f px), (271, print_d sz)] cap d"

definition build_md_request_reject :: "nat \<Rightarrow> byte list \<Rightarrow> byte \<Rightarrow> byte \<Rightarrow> FIXSession \<Rightarrow> FIXSession \<times> byte list option" where
  "build_md_request_reject cap rid reason d = send 256 ''Y'' [(262, rid), (281, [reason])] cap d"

definition build_quote ::
  "nat \<Rightarrow> byte list \<Rightarrow> byte list \<Rightarrow> dbl \<Rightarrow> dbl \<Rightarrow> int \<Rightarrow> int \<Rightarrow> byte \<Rightarrow> FIXSession \<Rightarrow> FIXSession \<times> byte list option" where
  "build_quote cap qid sy bid_px offer_px bid_sz offer_sz d =
     send 256 ''S'' [(117, qid), (55, sy), (132, print_2f bid_px), (133, print_2f offer_px), (134, print_d bid_sz), (135, print_d offer_sz)] cap d"

definition build_quote_request :: "nat \<Rightarrow> byte list \<Rightarrow> byte list \<Rightarrow> byte \<Rightarrow> FIXSession \<Rightarrow> FIXSession \<times> byte list option" where
  "build_quote_request cap rid sy d = send 256 ''R'' [(131, rid), (146, bytes_of ''1''), (55, sy)] cap d"

definition build_quote_cancel :: "nat \<Rightarrow> byte list \<Rightarrow> byte \<Rightarrow> byte list \<Rightarrow> byte \<Rightarrow> FIXSession \<Rightarrow> FIXSession \<times> byte list option" where
  "build_quote_cancel cap qid ctype sy d = send 256 ''Z'' [(117, qid), (298, [ctype]), (55, sy)] cap d"

definition build_mass_quote ::
  "nat \<Rightarrow> byte list \<Rightarrow> byte list \<Rightarrow> dbl \<Rightarrow> dbl \<Rightarrow> byte list \<Rightarrow> dbl \<Rightarrow> dbl \<Rightarrow> byte \<Rightarrow> FIXSession \<Rightarrow> FIXSession \<times> byte list option" where
  "build_mass_quote cap qid sy1 bid1 ask1 sy2 bid2 ask2 d =
     send 320 ''i'' [(117, qid), (296, bytes_of ''1''), (295, bytes_of ''2''),
                     (299, bytes_of ''1''), (55, sy1), (132, print_2f bid1), (133, print_2f ask1),
                     (299, bytes_of ''2''), (55, sy2), (132, print_2f bid2), (133, print_2f ask2)] cap d"

definition build_trade_capture_report ::
  "nat \<Rightarrow> byte list \<Rightarrow> byte list \<Rightarrow> Side \<Rightarrow> int \<Rightarrow> dbl \<Rightarrow> byte list \<Rightarrow> byte \<Rightarrow> FIXSession \<Rightarrow> FIXSession \<times> byte list option" where
  "build_trade_capture_report cap rid sy side qty px date d =
     send 256 ''AE'' [(571, rid), (55, sy), (54, [fix_side side]), (32, print_d qty), (31, print_2f px), (75, date)] cap d"

definition build_business_reject_seq ::
  "nat \<Rightarrow> int \<Rightarrow> byte list \<Rightarrow> int \<Rightarrow> byte list \<Rightarrow> byte \<Rightarrow> FIXSession \<Rightarrow> FIXSession \<times> byte list option" where
  "build_business_reject_seq cap ref_seq rmt reason txt d =
     send 256 ''j'' [(45, print_u ref_seq), (372, rmt), (380, print_d reason), (58, txt)] cap d"

definition build_trading_session_status_request ::
  "nat \<Rightarrow> byte list \<Rightarrow> byte list \<Rightarrow> byte \<Rightarrow> byte \<Rightarrow> FIXSession \<Rightarrow> FIXSession \<times> byte list option" where
  "build_trading_session_status_request cap rid sid sub d = send 200 ''g'' [(335, rid), (336, sid), (263, [sub])] cap d"

definition build_trading_session_status :: "nat \<Rightarrow> byte list \<Rightarrow> int \<Rightarrow> byte \<Rightarrow> FIXSession \<Rightarrow> FIXSession \<times> byte list option" where
  "build_trading_session_status cap sid status d = send 160 ''h'' [(336, sid), (340, print_d status)] cap d"

definition build_mass_status_request :: "nat \<Rightarrow> byte list \<Rightarrow> int \<Rightarrow> byte list \<Rightarrow> byte \<Rightarrow> FIXSession \<Rightarrow> FIXSession \<times> byte list option" where
  "build_mass_status_request cap rid rtype sy d = send 200 ''AF'' [(584, rid), (585, print_d rtype), (55, sy)] cap d"

definition build_ioi ::
  "nat \<Rightarrow> byte list \<Rightarrow> byte \<Rightarrow> byte list \<Rightarrow> Side \<Rightarrow> int \<Rightarrow> dbl \<Rightarrow> byte \<Rightarrow> FIXSession \<Rightarrow> FIXSession \<times> byte list option" where
  "build_ioi cap iid tt sy side qty price d =
     send 256 ''6'' [(23, iid), (28, [tt]), (55, sy), (54, [fix_side side]), (27, print_d qty), (44, print_2f price)] cap d"

definition build_exec_report ::
  "nat \<Rightarrow> byte list \<Rightarrow> byte list \<Rightarrow> byte list \<Rightarrow> byte \<Rightarrow> byte \<Rightarrow> byte list \<Rightarrow> Side \<Rightarrow> int \<Rightarrow> dbl \<Rightarrow> int \<Rightarrow> int \<Rightarrow> byte \<Rightarrow> FIXSession
   \<Rightarrow> FIXSession \<times> byte list option" where
  "build_exec_report cap oid order_id exec_id etype ostatus sy side last_qty last_px cum leaves d =
     send 320 ''8'' [(11, oid), (37, order_id), (17, exec_id), (150, [etype]), (39, [ostatus]), (55, sy), (54, [fix_side side]),
                     (32, print_d last_qty), (31, print_2f last_px), (14, print_d cum), (151, print_d leaves)] cap d"

text \<open>A null text is written as an empty value.\<close>

definition or_empty :: "byte list option \<Rightarrow> byte list" where
  "or_empty x = (case x of Some v \<Rightarrow> v | None \<Rightarrow> [])"

definition build_reject ::
  "nat \<Rightarrow> int \<Rightarrow> byte list option \<Rightarrow> int \<Rightarrow> byte list option \<Rightarrow> byte \<Rightarrow> FIXSession \<Rightarrow> FIXSession \<times> byte list option" where
  "build_reject cap ref_seq rmt reason txt d =
     send 256 ''3'' [(45, print_u ref_seq), (372, or_empty rmt), (373, print_d reason), (58, or_empty txt)] cap d"

definition build_business_reject_ref ::
  "nat \<Rightarrow> byte list option \<Rightarrow> byte list option \<Rightarrow> int \<Rightarrow> byte list option \<Rightarrow> byte \<Rightarrow> FIXSession \<Rightarrow> FIXSession \<times> byte list option" where
  "build_business_reject_ref cap rmt ref_id reason txt d =
     send 256 ''j'' [(372, or_empty rmt), (379, or_empty ref_id), (380, print_d reason), (58, or_empty txt)] cap d"

definition build_cancel_reject ::
  "nat \<Rightarrow> byte list \<Rightarrow> byte list option \<Rightarrow> byte list option \<Rightarrow> byte \<Rightarrow> byte \<Rightarrow> int \<Rightarrow> byte list option \<Rightarrow> byte \<Rightarrow> FIXSession
   \<Rightarrow> FIXSession \<times> byte list option" where
  "build_cancel_reject cap oid orig order_id ostatus resp reason txt d =
     send 256 ''9'' [(11, oid), (41, or_empty orig), (37, or_empty order_id), (39, [ostatus]), (434, [resp]), (102, print_d reason),
                     (58, or_empty txt)] cap d"

definition build_quote_status_report ::
  "nat \<Rightarrow> byte list \<Rightarrow> byte list \<Rightarrow> int \<Rightarrow> byte list option \<Rightarrow> byte \<Rightarrow> FIXSession \<Rightarrow> FIXSession \<times> byte list option" where
  "build_quote_status_report cap qid sy status txt d = send 256 ''AI'' ([(117, qid), (55, sy), (297, print_d status)] @ opt_text 58 txt) cap d"

definition build_dont_know_trade ::
  "nat \<Rightarrow> byte list \<Rightarrow> byte list \<Rightarrow> byte \<Rightarrow> byte list \<Rightarrow> byte \<Rightarrow> int \<Rightarrow> byte list option \<Rightarrow> byte \<Rightarrow> FIXSession
   \<Rightarrow> FIXSession \<times> byte list option" where
  "build_dont_know_trade cap order_id exec_id reason sy side qty txt d =
     send 256 ''Q'' ([(37, order_id), (17, exec_id), (127, [reason]), (55, sy), (54, [side]), (38, print_u qty)] @ opt_text 58 txt) cap d"

section \<open>The fields of a sent message\<close>

definition session_ok :: "byte \<Rightarrow> FIXSession \<Rightarrow> bool" where
  "session_ok d s \<longleftrightarrow> delimiter d \<and> value_fits d (sender_comp s) \<and> value_fits d (target_comp s)
     \<and> 0 \<le> next_out_seq s \<and> next_out_seq s < 2 ^ 32"

definition app_fields :: "byte \<Rightarrow> fix_field list \<Rightarrow> bool" where
  "app_fields d fs \<longleftrightarrow> length fs \<le> 25 \<and> list_all (\<lambda>f. field_fits d f \<and> fst f \<notin> {8, 9, 10, 34, 35, 49, 56}) fs"

lemma print_u_fits:
  assumes "0 \<le> n" "n < 2 ^ 32" "delimiter d"
  shows "value_fits d (print_u n)"
proof (rule digits_fit [OF _ _ assms(3)])
  show "\<forall>b \<in> set (print_u n). is_digit b" by (auto simp: print_u_def dest: udec_digits)
  have "nat n < 10 ^ Suc 9" using assms(1,2) by simp
  then have "length (udec (nat n)) \<le> Suc 9" by (rule length_udec)
  then show "length (print_u n) \<le> 31" by (simp add: print_u_def)
qed

lemma print_d_fits32:
  assumes "- (2 ^ 31) \<le> n" "n < 2 ^ 31" "delimiter d"
  shows "value_fits d (print_d n)"
proof -
  have l: "length (udec (nat \<bar>n\<bar>)) \<le> Suc 9" using assms(1,2) by (intro length_udec) simp
  have v: "value_fits d (udec (nat \<bar>n\<bar>))"
    by (rule digits_fit [OF _ _ assms(3)]) (use l udec_digits in auto)
  then show ?thesis using l assms(3)
    by (auto simp: print_d_def value_fits_def delimiter_def SOH_def BAR_def)
qed

lemma print_2f_fits:
  assumes "0 \<le> x" "x < 10 ^ 12" "delimiter d"
  shows "value_fits d (print_2f (Fin x))"
proof -
  let ?n = "cents x"
  have "round_even (x * 100) \<le> 10 ^ 14"
  proof -
    have "of_int (round_even (x * 100)) \<le> x * 100 + 1 / (2 :: rat)" using round_even_error [of "x * 100"] by linarith
    also have "\<dots> < 10 ^ 14 + 1" using assms(2) by simp
    finally have "of_int (round_even (x * 100)) < (of_int (10 ^ 14 + 1) :: rat)" by simp
    then show ?thesis by (simp only: of_int_less_iff)
  qed
  then have "?n div 100 < 10 ^ Suc 12" using assms(1) by (simp add: cents_def nat_le_iff)
  then have l: "length (udec (?n div 100)) \<le> Suc 12" by (rule length_udec)
  have "length (udec (?n mod 100 div 10)) = 1" "length (udec (?n mod 10)) = 1" by (simp_all add: udec_digit)
  moreover have "\<not> is_digit d" using assms(3) not_digit by (auto simp: delimiter_def SOH_def BAR_def)
  ultimately show ?thesis using l assms(1,3) not_digit udec_digits
    by (auto simp: value_fits_def Let_def delimiter_def SOH_def BAR_def dest: udec_digits)
qed

lemma session_fields_ok:
  assumes "session_ok d s" "app_fields d fs" "value_fits d (bytes_of mt)"
  shows "body_ok d (session_fields mt s @ fs)"
  using assms print_u_fits [of "next_out_seq s" d]
  by (auto simp: session_ok_def app_fields_def body_ok_def session_fields_def field_fits_def list_all_iff)

lemma framed_length: "length (wire d fs) < 320 \<Longrightarrow> length (wire d (framed bs d fs)) \<le> 320 + length bs + 80"
proof -
  assume l: "length (wire d fs) < 320"
  have "value_fits SOH (print_d (int (length (wire d fs))))" using l by (intro print_d_fits) (simp_all add: delimiter_def)
  then have a: "length (print_d (int (length (wire d fs)))) \<le> 31" by (simp add: value_fits_def)
  have "value_fits SOH (print_03u (compute_checksum x))" for x
    by (rule print_03u_fits [OF compute_checksum_range]) (simp add: delimiter_def)
  then have b: "length (print_03u (compute_checksum x)) \<le> 31" for x by (simp add: value_fits_def)
  have c: "length (wire d (framed bs d fs)) = length bs + length (print_d (int (length (wire d fs)))) + length (wire d fs)
      + length (print_03u (compute_checksum (fix_header bs (length (wire d fs)) d @ wire d fs))) + 10"
    by (simp add: framed_def Let_def wire_field_def print_u_small bytes_of_def)
  show ?thesis unfolding c using l a b [of "fix_header bs (length (wire d fs)) d @ wire d fs"] by linarith
qed

lemma send_result:
  assumes "session_ok d s" "app_fields d fs" "value_fits d (bytes_of mt)" "room \<le> 320"
    and "snd (send room mt fs cap d s) = Some msg"
  shows "tag \<noteq> 8 \<Longrightarrow> tag \<noteq> 9 \<Longrightarrow> tag \<noteq> 10 \<Longrightarrow> find_field tag (fix_parse msg) = map_of (session_fields mt s @ fs) tag"
    and "fix_is_valid (fix_parse msg)"
proof -
  let ?fs = "session_fields mt s @ fs"
  have ok: "body_ok d ?fs" by (rule session_fields_ok [OF assms(1-3)])
  have bs: "value_fits d FIX42"
    using assms(1) by (auto simp: session_ok_def value_fits_def FIX42_def bytes_of_def chr_def delimiter_def SOH_def BAR_def)
  have bld: "build_message cap (wire d ?fs) FIX42 d = Built msg" and len: "length (wire d ?fs) < 320"
    using assms(4,5) by (auto simp: send_def body_fits_def split: if_splits built.splits)
  have "length msg \<le> 1023"
    using framed_length [OF len, of FIX42] build_framed [OF ok bld] by (simp add: FIX42_def bytes_of_def)
  note P = parse_built [OF ok bs bld this]
  show F: "tag \<noteq> 8 \<Longrightarrow> tag \<noteq> 9 \<Longrightarrow> tag \<noteq> 10 \<Longrightarrow> find_field tag (fix_parse msg) = map_of ?fs tag" by (rule P(4))
  show "fix_is_valid (fix_parse msg)"
    using P(2,3) P(4) [of 35] map_of_framed [OF ok, where bs = FIX42] unfolding fix_is_valid_def has_required_header_def find_field_def P(1)
    by (simp add: session_fields_def)
qed

text \<open>The bytes a field list takes at most, and what the session's own fields take.\<close>

definition tag_digits :: "int \<Rightarrow> nat" where
  "tag_digits t = (if t < 10 then 1 else if t < 100 then 2 else 3)"

definition field_room :: "fix_field list \<Rightarrow> nat" where
  "field_room fs = sum_list (map (\<lambda>f. tag_digits (fst f) + 2 + length (snd f)) fs)"

lemma field_room_simps [simp]:
  "field_room [] = 0" "field_room (f # fs) = tag_digits (fst f) + 2 + length (snd f) + field_room fs" "field_room (fs @ gs) = field_room fs + field_room gs"
  by (simp_all add: field_room_def)

lemma wire_room: "list_all (\<lambda>f. 0 < fst f \<and> fst f < 1000) fs \<Longrightarrow> length (wire d fs) \<le> field_room fs"
proof (induction fs)
  case (Cons f fs)
  have f: "0 < fst f" "fst f < 1000" using Cons.prems by simp_all
  then have "length (print_u (fst f)) = length (udec (nat (fst f)))" by (simp add: print_u_def u32_id)
  moreover have "length (udec (nat (fst f))) \<le> 1" if "fst f < 10" using that length_udec [of "nat (fst f)" 0] by simp
  moreover have "length (udec (nat (fst f))) \<le> 2" if "fst f < 100"
  proof -
    have "nat (fst f) < 10 ^ Suc 1" using that by simp
    from length_udec [OF this] show ?thesis by simp
  qed
  moreover have "length (udec (nat (fst f))) \<le> 3"
  proof -
    have "nat (fst f) < 10 ^ Suc 2" using f by simp
    from length_udec [OF this] show ?thesis by simp
  qed
  ultimately have "length (print_u (fst f)) \<le> tag_digits (fst f)" by (simp add: tag_digits_def)
  then show ?case using Cons by (simp add: wire_field_def)
qed simp

lemma u32_length: "0 \<le> n \<Longrightarrow> n < 2 ^ 32 \<Longrightarrow> length (print_u n) \<le> 10"
proof -
  assume n: "0 \<le> n" "n < 2 ^ 32"
  have "length (udec (nat n)) \<le> Suc 9" by (rule length_udec) (use n in simp)
  then show ?thesis using n by (simp add: print_u_def u32_id)
qed

lemma session_room:
  assumes "session_ok d s" "length mt \<le> 2"
  shows "field_room (session_fields mt s) \<le> 90"
proof -
  have "length (print_u (next_out_seq s)) \<le> Suc 9"
    using u32_length [of "next_out_seq s"] assms(1) by (simp add: session_ok_def)
  then show ?thesis using assms by (simp add: session_fields_def session_ok_def value_fits_def tag_digits_def bytes_of_def)
qed

text \<open>A builder whose body fits its buffer succeeds when the caller gives 384 bytes.\<close>

lemma send_succeeds:
  assumes "session_ok d s" "app_fields d fs" "value_fits d (bytes_of mt)" "room \<le> 320" "body_fits room mt fs d s" "384 \<le> cap"
  shows "\<exists>msg. snd (send room mt fs cap d s) = Some msg"
proof -
  let ?b = "wire d (session_fields mt s @ fs)"
  have ok: "body_ok d (session_fields mt s @ fs)" by (rule session_fields_ok [OF assms(1-3)])
  then have c: "cstr ?b = ?b" by (intro cstr_wire) (simp_all add: body_ok_def)
  have l: "length ?b < 320" using assms(4,5) by (simp add: body_fits_def)
  have "length (udec (length ?b)) \<le> Suc 2" using l by (intro length_udec) simp
  then have "length (fix_header FIX42 n d) < 48" if "n = length ?b" for n
    unfolding that [symmetric] by (simp add: fix_header_def FIX42_def bytes_of_def print_d_def)
  then have "length (fix_header FIX42 (length ?b) d) < 48" by blast
  then have "\<exists>msg. build_message cap ?b FIX42 d = Built msg"
    using l assms(6) unfolding build_message_def Let_def c by simp
  then show ?thesis using assms(5) by (auto simp: send_def)
qed

end
