(* ===== verification/Fix_Decode.thy ===== *)
theory Fix_Decode
  imports Fix_Session
begin

text \<open>
  \<open>fix-protocol/fix_session.hpp\<close>, the typed views: one record per message type and the function that
  fills it from a parsed message.  A message of another type gives the record with its default values.
\<close>

section \<open>Reading fields\<close>

text \<open>A character field: its first byte, the nul character when absent or empty.\<close>

definition char_field :: "int \<Rightarrow> FIXMessage \<Rightarrow> byte" where
  "char_field tag m = (case get_field tag m of Some v \<Rightarrow> head0 v | None \<Rightarrow> 0)"

text \<open>A text field copied into an array of \<open>n\<close> bytes.\<close>

definition text_field :: "nat \<Rightarrow> int \<Rightarrow> FIXMessage \<Rightarrow> byte list" where
  "text_field n tag m = (case get_field tag m of Some v \<Rightarrow> strn n v | None \<Rightarrow> [])"

definition int_or :: "int \<Rightarrow> int \<Rightarrow> FIXMessage \<Rightarrow> int" where
  "int_or dflt tag m = (if get_field tag m \<noteq> None then get_int tag m else dflt)"

text \<open>The two type tests: the first character, and \<open>strcmp\<close>.\<close>

definition type_starts :: "char \<Rightarrow> FIXMessage \<Rightarrow> bool" where
  "type_starts c m \<longleftrightarrow> head0 (get_msg_type m) = chr c"

definition type_is :: "string \<Rightarrow> FIXMessage \<Rightarrow> bool" where
  "type_is t m \<longleftrightarrow> get_msg_type m = bytes_of t"


section \<open>IOI\<close>

record IOI =
  ioi_trans_type :: "byte"
  ioi_side :: "byte"
  ioi_qty :: "int"
  ioi_price :: "dbl"
  ioi_valid :: bool

definition parse_ioi :: "FIXMessage \<Rightarrow> IOI" where
  "parse_ioi m =
     (if type_starts (CHR ''6'') m
      then \<lparr>ioi_trans_type = char_field 28 m, ioi_side = char_field 54 m, ioi_qty = get_int 27 m, ioi_price = get_double 44 m, ioi_valid = True\<rparr>
      else \<lparr>ioi_trans_type = 0, ioi_side = 0, ioi_qty = 0, ioi_price = Fin 0, ioi_valid = False\<rparr>)"


section \<open>ExecReport\<close>

record ExecReport =
  er_ord_status :: "byte"
  er_exec_type :: "byte"
  er_last_qty :: "int"
  er_last_px :: "dbl"
  er_cum_qty :: "int"
  er_leaves_qty :: "int"
  er_valid :: bool

definition parse_exec_report :: "FIXMessage \<Rightarrow> ExecReport" where
  "parse_exec_report m =
     (if type_starts (CHR ''8'') m
      then \<lparr>er_ord_status = char_field 39 m, er_exec_type = char_field 150 m, er_last_qty = get_int 32 m, er_last_px = get_double 31 m, er_cum_qty = get_int 14 m, er_leaves_qty = get_int 151 m, er_valid = True\<rparr>
      else \<lparr>er_ord_status = 0, er_exec_type = 0, er_last_qty = 0, er_last_px = Fin 0, er_cum_qty = 0, er_leaves_qty = 0, er_valid = False\<rparr>)"


section \<open>QuoteStatusReport\<close>

record QuoteStatusReport =
  qs_status :: "int"
  qs_valid :: bool

definition parse_quote_status :: "FIXMessage \<Rightarrow> QuoteStatusReport" where
  "parse_quote_status m =
     (if type_is ''AI'' m
      then \<lparr>qs_status = int_or (- 1) 297 m, qs_valid = True\<rparr>
      else \<lparr>qs_status = - 1, qs_valid = False\<rparr>)"


section \<open>MassStatusRequest\<close>

record MassStatusRequest =
  ms_req_id :: "byte list"
  ms_req_type :: "int"
  ms_symbol :: "byte list"
  ms_valid :: bool

definition parse_mass_status_request :: "FIXMessage \<Rightarrow> MassStatusRequest" where
  "parse_mass_status_request m =
     (if type_is ''AF'' m
      then \<lparr>ms_req_id = text_field 24 584 m, ms_req_type = int_or (- 1) 585 m, ms_symbol = text_field 16 55 m, ms_valid = True\<rparr>
      else \<lparr>ms_req_id = [], ms_req_type = - 1, ms_symbol = [], ms_valid = False\<rparr>)"


section \<open>MDIncrement\<close>

record MDIncrement =
  mi_md_req_id :: "byte list"
  mi_symbol :: "byte list"
  mi_update_action :: "byte"
  mi_entry_type :: "byte"
  mi_px :: "dbl"
  mi_size :: "int"
  mi_valid :: bool

definition parse_md_incremental :: "FIXMessage \<Rightarrow> MDIncrement" where
  "parse_md_incremental m =
     (if type_starts (CHR ''X'') m
      then \<lparr>mi_md_req_id = text_field 24 262 m, mi_symbol = text_field 16 55 m, mi_update_action = char_field 279 m, mi_entry_type = char_field 269 m, mi_px = get_double 270 m, mi_size = int_or (- 1) 271 m, mi_valid = True\<rparr>
      else \<lparr>mi_md_req_id = [], mi_symbol = [], mi_update_action = 0, mi_entry_type = 0, mi_px = Fin 0, mi_size = - 1, mi_valid = False\<rparr>)"


section \<open>ResendReq\<close>

record ResendReq =
  rr_begin_seq :: "int"
  rr_end_seq :: "int"
  rr_valid :: bool

definition parse_resend_request :: "FIXMessage \<Rightarrow> ResendReq" where
  "parse_resend_request m =
     (if type_starts (CHR ''2'') m
      then \<lparr>rr_begin_seq = u32 (int_or 0 7 m), rr_end_seq = u32 (int_or 0 16 m), rr_valid = True\<rparr>
      else \<lparr>rr_begin_seq = 0, rr_end_seq = 0, rr_valid = False\<rparr>)"


section \<open>LogonMsg\<close>

record LogonMsg =
  lo_hb_int_sec :: "int"
  lo_valid :: bool

definition parse_logon :: "FIXMessage \<Rightarrow> LogonMsg" where
  "parse_logon m =
     (if type_is ''A'' m
      then \<lparr>lo_hb_int_sec = int_or (- 1) 108 m, lo_valid = True\<rparr>
      else \<lparr>lo_hb_int_sec = - 1, lo_valid = False\<rparr>)"


section \<open>LogoutMsg\<close>

record LogoutMsg =
  lx_text :: "byte list"
  lx_valid :: bool

definition parse_logout :: "FIXMessage \<Rightarrow> LogoutMsg" where
  "parse_logout m =
     (if type_starts (CHR ''5'') m
      then \<lparr>lx_text = text_field 64 58 m, lx_valid = True\<rparr>
      else \<lparr>lx_text = [], lx_valid = False\<rparr>)"


section \<open>TestReq\<close>

record TestReq =
  tr_test_req_id :: "byte list"
  tr_valid :: bool

definition parse_test_request :: "FIXMessage \<Rightarrow> TestReq" where
  "parse_test_request m =
     (if type_starts (CHR ''1'') m
      then \<lparr>tr_test_req_id = text_field 24 112 m, tr_valid = True\<rparr>
      else \<lparr>tr_test_req_id = [], tr_valid = False\<rparr>)"


section \<open>HeartbeatMsg\<close>

record HeartbeatMsg =
  hb_test_req_id :: "byte list"
  hb_valid :: bool

definition parse_heartbeat :: "FIXMessage \<Rightarrow> HeartbeatMsg" where
  "parse_heartbeat m =
     (if type_starts (CHR ''0'') m
      then \<lparr>hb_test_req_id = text_field 24 112 m, hb_valid = True\<rparr>
      else \<lparr>hb_test_req_id = [], hb_valid = False\<rparr>)"


section \<open>DontKnowTrade\<close>

record DontKnowTrade =
  dk_reason :: "byte"
  dk_valid :: bool

definition parse_dont_know_trade :: "FIXMessage \<Rightarrow> DontKnowTrade" where
  "parse_dont_know_trade m =
     (if type_is ''Q'' m
      then \<lparr>dk_reason = char_field 127 m, dk_valid = True\<rparr>
      else \<lparr>dk_reason = 0, dk_valid = False\<rparr>)"


section \<open>TradeCaptureReport\<close>

record TradeCaptureReport =
  tc_trade_report_id :: "byte list"
  tc_symbol :: "byte list"
  tc_side :: "byte"
  tc_last_qty :: "int"
  tc_last_px :: "dbl"
  tc_trade_date :: "byte list"
  tc_valid :: bool

definition parse_trade_capture_report :: "FIXMessage \<Rightarrow> TradeCaptureReport" where
  "parse_trade_capture_report m =
     (if type_is ''AE'' m
      then \<lparr>tc_trade_report_id = text_field 32 571 m, tc_symbol = text_field 16 55 m, tc_side = char_field 54 m, tc_last_qty = get_int 32 m, tc_last_px = get_double 31 m, tc_trade_date = text_field 16 75 m, tc_valid = True\<rparr>
      else \<lparr>tc_trade_report_id = [], tc_symbol = [], tc_side = 0, tc_last_qty = 0, tc_last_px = Fin 0, tc_trade_date = [], tc_valid = False\<rparr>)"


section \<open>NewOrder\<close>

record NewOrder =
  no_cl_ord_id :: "byte list"
  no_symbol :: "byte list"
  no_side :: "byte"
  no_qty :: "int"
  no_price :: "dbl"
  no_ord_type :: "byte"
  no_valid :: bool

definition parse_new_order :: "FIXMessage \<Rightarrow> NewOrder" where
  "parse_new_order m =
     (if type_starts (CHR ''D'') m
      then \<lparr>no_cl_ord_id = text_field 32 11 m, no_symbol = text_field 16 55 m, no_side = char_field 54 m, no_qty = get_int 38 m, no_price = get_double 44 m, no_ord_type = char_field 40 m, no_valid = True\<rparr>
      else \<lparr>no_cl_ord_id = [], no_symbol = [], no_side = 0, no_qty = 0, no_price = Fin 0, no_ord_type = 0, no_valid = False\<rparr>)"


section \<open>CancelRequest\<close>

record CancelRequest =
  cr_cl_ord_id :: "byte list"
  cr_orig_cl_ord_id :: "byte list"
  cr_symbol :: "byte list"
  cr_side :: "byte"
  cr_qty :: "int"
  cr_valid :: bool

definition parse_cancel_request :: "FIXMessage \<Rightarrow> CancelRequest" where
  "parse_cancel_request m =
     (if type_starts (CHR ''F'') m
      then \<lparr>cr_cl_ord_id = text_field 32 11 m, cr_orig_cl_ord_id = text_field 32 41 m, cr_symbol = text_field 16 55 m, cr_side = char_field 54 m, cr_qty = get_int 38 m, cr_valid = True\<rparr>
      else \<lparr>cr_cl_ord_id = [], cr_orig_cl_ord_id = [], cr_symbol = [], cr_side = 0, cr_qty = 0, cr_valid = False\<rparr>)"


section \<open>ReplaceRequest\<close>

record ReplaceRequest =
  rp_cl_ord_id :: "byte list"
  rp_orig_cl_ord_id :: "byte list"
  rp_symbol :: "byte list"
  rp_side :: "byte"
  rp_qty :: "int"
  rp_price :: "dbl"
  rp_ord_type :: "byte"
  rp_valid :: bool

definition parse_replace_request :: "FIXMessage \<Rightarrow> ReplaceRequest" where
  "parse_replace_request m =
     (if type_starts (CHR ''G'') m
      then \<lparr>rp_cl_ord_id = text_field 32 11 m, rp_orig_cl_ord_id = text_field 32 41 m, rp_symbol = text_field 16 55 m, rp_side = char_field 54 m, rp_qty = get_int 38 m, rp_price = get_double 44 m, rp_ord_type = char_field 40 m, rp_valid = True\<rparr>
      else \<lparr>rp_cl_ord_id = [], rp_orig_cl_ord_id = [], rp_symbol = [], rp_side = 0, rp_qty = 0, rp_price = Fin 0, rp_ord_type = 0, rp_valid = False\<rparr>)"


section \<open>CancelReject\<close>

record CancelReject =
  cj_cl_ord_id :: "byte list"
  cj_orig_cl_ord_id :: "byte list"
  cj_order_id :: "byte list"
  cj_ord_status :: "byte"
  cj_response_to :: "byte"
  cj_reason :: "int"
  cj_text :: "byte list"
  cj_valid :: bool

definition parse_cancel_reject :: "FIXMessage \<Rightarrow> CancelReject" where
  "parse_cancel_reject m =
     (if type_starts (CHR ''9'') m
      then \<lparr>cj_cl_ord_id = text_field 32 11 m, cj_orig_cl_ord_id = text_field 32 41 m, cj_order_id = text_field 32 37 m, cj_ord_status = char_field 39 m, cj_response_to = char_field 434 m, cj_reason = int_or (- 1) 102 m, cj_text = text_field 64 58 m, cj_valid = True\<rparr>
      else \<lparr>cj_cl_ord_id = [], cj_orig_cl_ord_id = [], cj_order_id = [], cj_ord_status = 0, cj_response_to = 0, cj_reason = - 1, cj_text = [], cj_valid = False\<rparr>)"


section \<open>BusinessReject\<close>

record BusinessReject =
  bj_ref_seq :: "int"
  bj_ref_id :: "byte list"
  bj_ref_msg_type :: "byte list"
  bj_reason :: "int"
  bj_text :: "byte list"
  bj_valid :: bool

definition parse_business_reject :: "FIXMessage \<Rightarrow> BusinessReject" where
  "parse_business_reject m =
     (if type_starts (CHR ''j'') m
      then \<lparr>bj_ref_seq = u32 (int_or 0 45 m), bj_ref_id = text_field 32 379 m, bj_ref_msg_type = text_field 8 372 m, bj_reason = int_or (- 1) 380 m, bj_text = text_field 64 58 m, bj_valid = True\<rparr>
      else \<lparr>bj_ref_seq = 0, bj_ref_id = [], bj_ref_msg_type = [], bj_reason = - 1, bj_text = [], bj_valid = False\<rparr>)"


section \<open>StatusRequest\<close>

record StatusRequest =
  sr_cl_ord_id :: "byte list"
  sr_symbol :: "byte list"
  sr_side :: "byte"
  sr_valid :: bool

definition parse_order_status_request :: "FIXMessage \<Rightarrow> StatusRequest" where
  "parse_order_status_request m =
     (if type_starts (CHR ''H'') m
      then \<lparr>sr_cl_ord_id = text_field 32 11 m, sr_symbol = text_field 16 55 m, sr_side = char_field 54 m, sr_valid = True\<rparr>
      else \<lparr>sr_cl_ord_id = [], sr_symbol = [], sr_side = 0, sr_valid = False\<rparr>)"


section \<open>MassCancel\<close>

record MassCancel =
  mc_cl_ord_id :: "byte list"
  mc_request_type :: "byte"
  mc_symbol :: "byte list"
  mc_valid :: bool

definition parse_mass_cancel :: "FIXMessage \<Rightarrow> MassCancel" where
  "parse_mass_cancel m =
     (if type_starts (CHR ''q'') m
      then \<lparr>mc_cl_ord_id = text_field 32 11 m, mc_request_type = char_field 530 m, mc_symbol = text_field 16 55 m, mc_valid = True\<rparr>
      else \<lparr>mc_cl_ord_id = [], mc_request_type = 0, mc_symbol = [], mc_valid = False\<rparr>)"


section \<open>MassCancelReport\<close>

record MassCancelReport =
  mr_cl_ord_id :: "byte list"
  mr_response :: "byte"
  mr_affected :: "int"
  mr_valid :: bool

definition parse_mass_cancel_report :: "FIXMessage \<Rightarrow> MassCancelReport" where
  "parse_mass_cancel_report m =
     (if type_is ''r'' m
      then \<lparr>mr_cl_ord_id = text_field 32 11 m, mr_response = char_field 531 m, mr_affected = int_or (- 1) 533 m, mr_valid = True\<rparr>
      else \<lparr>mr_cl_ord_id = [], mr_response = 0, mr_affected = - 1, mr_valid = False\<rparr>)"


section \<open>SessionStatusRequest\<close>

record SessionStatusRequest =
  sq_req_id :: "byte list"
  sq_session_id :: "byte list"
  sq_sub_type :: "byte"
  sq_valid :: bool

definition parse_trading_session_status_request :: "FIXMessage \<Rightarrow> SessionStatusRequest" where
  "parse_trading_session_status_request m =
     (if type_starts (CHR ''g'') m
      then \<lparr>sq_req_id = text_field 24 335 m, sq_session_id = text_field 24 336 m, sq_sub_type = char_field 263 m, sq_valid = True\<rparr>
      else \<lparr>sq_req_id = [], sq_session_id = [], sq_sub_type = 0, sq_valid = False\<rparr>)"


section \<open>SessionStatus\<close>

record SessionStatus =
  sst_session_id :: "byte list"
  sst_status :: "int"
  sst_valid :: bool

definition parse_trading_session_status :: "FIXMessage \<Rightarrow> SessionStatus" where
  "parse_trading_session_status m =
     (if type_starts (CHR ''h'') m
      then \<lparr>sst_session_id = text_field 24 336 m, sst_status = int_or (- 1) 340 m, sst_valid = True\<rparr>
      else \<lparr>sst_session_id = [], sst_status = - 1, sst_valid = False\<rparr>)"


section \<open>QuoteCancelMsg\<close>

record QuoteCancelMsg =
  qc_quote_id :: "byte list"
  qc_cancel_type :: "byte"
  qc_symbol :: "byte list"
  qc_valid :: bool

definition parse_quote_cancel :: "FIXMessage \<Rightarrow> QuoteCancelMsg" where
  "parse_quote_cancel m =
     (if type_starts (CHR ''Z'') m
      then \<lparr>qc_quote_id = text_field 32 117 m, qc_cancel_type = char_field 298 m, qc_symbol = text_field 16 55 m, qc_valid = True\<rparr>
      else \<lparr>qc_quote_id = [], qc_cancel_type = 0, qc_symbol = [], qc_valid = False\<rparr>)"


section \<open>QuoteReq\<close>

record QuoteReq =
  qr_quote_req_id :: "byte list"
  qr_symbol :: "byte list"
  qr_valid :: bool

definition parse_quote_request :: "FIXMessage \<Rightarrow> QuoteReq" where
  "parse_quote_request m =
     (if type_starts (CHR ''R'') m
      then \<lparr>qr_quote_req_id = text_field 32 131 m, qr_symbol = text_field 16 55 m, qr_valid = True\<rparr>
      else \<lparr>qr_quote_req_id = [], qr_symbol = [], qr_valid = False\<rparr>)"


section \<open>Quote\<close>

record Quote =
  qt_quote_id :: "byte list"
  qt_symbol :: "byte list"
  qt_bid_px :: "dbl"
  qt_offer_px :: "dbl"
  qt_bid_size :: "int"
  qt_offer_size :: "int"
  qt_valid :: bool

definition parse_quote :: "FIXMessage \<Rightarrow> Quote" where
  "parse_quote m =
     (if type_starts (CHR ''S'') m
      then \<lparr>qt_quote_id = text_field 32 117 m, qt_symbol = text_field 16 55 m, qt_bid_px = get_double 132 m, qt_offer_px = get_double 133 m, qt_bid_size = get_int 134 m, qt_offer_size = get_int 135 m, qt_valid = True\<rparr>
      else \<lparr>qt_quote_id = [], qt_symbol = [], qt_bid_px = Fin 0, qt_offer_px = Fin 0, qt_bid_size = 0, qt_offer_size = 0, qt_valid = False\<rparr>)"


section \<open>MDReject\<close>

record MDReject =
  mj_md_req_id :: "byte list"
  mj_reason :: "byte"
  mj_valid :: bool

definition parse_md_request_reject :: "FIXMessage \<Rightarrow> MDReject" where
  "parse_md_request_reject m =
     (if type_starts (CHR ''Y'') m
      then \<lparr>mj_md_req_id = text_field 32 262 m, mj_reason = char_field 281 m, mj_valid = True\<rparr>
      else \<lparr>mj_md_req_id = [], mj_reason = 0, mj_valid = False\<rparr>)"


section \<open>MDRequest\<close>

record MDRequest =
  mq_md_req_id :: "byte list"
  mq_symbol :: "byte list"
  mq_sub_type :: "byte"
  mq_depth :: "int"
  mq_valid :: bool

definition parse_market_data_request :: "FIXMessage \<Rightarrow> MDRequest" where
  "parse_market_data_request m =
     (if type_starts (CHR ''V'') m
      then \<lparr>mq_md_req_id = text_field 32 262 m, mq_symbol = text_field 16 55 m, mq_sub_type = char_field 263 m, mq_depth = int_or (- 1) 264 m, mq_valid = True\<rparr>
      else \<lparr>mq_md_req_id = [], mq_symbol = [], mq_sub_type = 0, mq_depth = - 1, mq_valid = False\<rparr>)"


section \<open>Derived readings\<close>

definition is_all_orders :: "MassStatusRequest \<Rightarrow> bool" where
  "is_all_orders r \<longleftrightarrow> ms_req_type r = 1"

definition mi_is_bid :: "MDIncrement \<Rightarrow> bool" where
  "mi_is_bid r \<longleftrightarrow> mi_entry_type r = chr (CHR ''0'')"

definition mi_is_delete :: "MDIncrement \<Rightarrow> bool" where
  "mi_is_delete r \<longleftrightarrow> mi_update_action r = chr (CHR ''2'')"

definition is_open_ended :: "ResendReq \<Rightarrow> bool" where
  "is_open_ended r \<longleftrightarrow> rr_end_seq r = 0"

definition rr_count :: "ResendReq \<Rightarrow> int" where
  "rr_count r = (if rr_end_seq r \<ge> rr_begin_seq r \<and> rr_end_seq r > 0 then u32 (rr_end_seq r - rr_begin_seq r + 1) else 0)"

definition has_reason :: "LogoutMsg \<Rightarrow> bool" where
  "has_reason r \<longleftrightarrow> lx_text r \<noteq> []"

definition is_solicited :: "HeartbeatMsg \<Rightarrow> bool" where
  "is_solicited r \<longleftrightarrow> hb_test_req_id r \<noteq> []"

definition is_unknown_security :: "BusinessReject \<Rightarrow> bool" where
  "is_unknown_security r \<longleftrightarrow> bj_reason r = 2"

definition sst_is_open :: "SessionStatus \<Rightarrow> bool" where
  "sst_is_open r \<longleftrightarrow> sst_status r = 2"

definition sst_is_halted :: "SessionStatus \<Rightarrow> bool" where
  "sst_is_halted r \<longleftrightarrow> sst_status r = 1"

section \<open>SeqReset\<close>

record SeqReset =
  sx_new_seq :: int
  sx_gap_fill :: bool
  sx_valid :: bool

definition parse_sequence_reset :: "FIXMessage \<Rightarrow> SeqReset" where
  "parse_sequence_reset m =
     (if type_starts (CHR ''4'') m
      then \<lparr>sx_new_seq = u32 (int_or 0 36 m), sx_gap_fill = (char_field 123 m = chr (CHR ''Y'')), sx_valid = True\<rparr>
      else \<lparr>sx_new_seq = 0, sx_gap_fill = False, sx_valid = False\<rparr>)"

definition is_hard_reset :: "SeqReset \<Rightarrow> bool" where
  "is_hard_reset r \<longleftrightarrow> \<not> sx_gap_fill r"

section \<open>MDSnapshot\<close>

record MDSnapshot =
  sn_md_req_id :: "byte list"
  sn_symbol :: "byte list"
  sn_entries :: int
  sn_bid_px :: dbl
  sn_ask_px :: dbl
  sn_bid_sz :: int
  sn_ask_sz :: int
  sn_valid :: bool

definition snapshot_entry :: "FIXMessage \<Rightarrow> nat \<Rightarrow> MDSnapshot \<Rightarrow> MDSnapshot" where
  "snapshot_entry m i r =
     (case get_field_nth 269 i m of None \<Rightarrow> r
      | Some et \<Rightarrow>
        if head0 et = chr (CHR ''0'') then r\<lparr>sn_bid_px := get_double_nth 270 i m, sn_bid_sz := get_int_nth 271 i m\<rparr>
        else if head0 et = chr (CHR ''1'') then r\<lparr>sn_ask_px := get_double_nth 270 i m, sn_ask_sz := get_int_nth 271 i m\<rparr>
        else r)"

definition sn0 :: MDSnapshot where
  "sn0 = \<lparr>sn_md_req_id = [], sn_symbol = [], sn_entries = - 1, sn_bid_px = Fin 0, sn_ask_px = Fin 0, sn_bid_sz = 0, sn_ask_sz = 0, sn_valid = False\<rparr>"

definition parse_md_snapshot :: "FIXMessage \<Rightarrow> MDSnapshot" where
  "parse_md_snapshot m =
     (if type_starts (CHR ''W'') m
      then (fold (snapshot_entry m) [0..<count_field 269 m]
              (sn0\<lparr>sn_md_req_id := text_field 24 262 m, sn_symbol := text_field 16 55 m, sn_entries := int_or (- 1) 268 m\<rparr>))\<lparr>sn_valid := True\<rparr>
      else sn0)"

definition has_both_sides :: "MDSnapshot \<Rightarrow> bool" where
  "has_both_sides r \<longleftrightarrow> dlt (Fin 0) (sn_bid_px r) \<and> dlt (Fin 0) (sn_ask_px r)"

section \<open>MassQuote\<close>

record QuoteEntry =
  qe_symbol :: "byte list"
  qe_bid_px :: dbl
  qe_offer_px :: dbl

record MassQuote =
  mq_quote_id :: "byte list"
  mq_entries :: "QuoteEntry list"
  mq_entry_count :: int
  mq_valid_quote :: bool

definition MAX_ENTRIES :: nat where
  "MAX_ENTRIES = 8"

text \<open>One pass of the loop; entries past the eighth are dropped.\<close>

definition quote_entry :: "FIXMessage \<Rightarrow> nat \<Rightarrow> QuoteEntry list \<Rightarrow> QuoteEntry list" where
  "quote_entry m i es = (if length es \<ge> MAX_ENTRIES then es
     else case get_field_nth 55 i m of None \<Rightarrow> es
     | Some sy \<Rightarrow> if sy = [] then es
                 else es @ [\<lparr>qe_symbol = strn 16 sy, qe_bid_px = get_double_nth 132 i m, qe_offer_px = get_double_nth 133 i m\<rparr>])"

definition parse_mass_quote :: "FIXMessage \<Rightarrow> MassQuote" where
  "parse_mass_quote m =
     (if type_starts (CHR ''i'') m
      then \<lparr>mq_quote_id = text_field 24 117 m, mq_entries = fold (quote_entry m) [0..<count_field 55 m] [],
            mq_entry_count = int_or (- 1) 295 m, mq_valid_quote = True\<rparr>
      else \<lparr>mq_quote_id = [], mq_entries = [], mq_entry_count = - 1, mq_valid_quote = False\<rparr>)"

definition two_sided :: "QuoteEntry \<Rightarrow> bool" where
  "two_sided e \<longleftrightarrow> dlt (Fin 0) (qe_bid_px e) \<and> dlt (Fin 0) (qe_offer_px e)"

definition truncated :: "MassQuote \<Rightarrow> bool" where
  "truncated r \<longleftrightarrow> mq_entry_count r > int (length (mq_entries r))"

end
