(* ===== verification/Fix_Orders.thy ===== *)
theory Fix_Orders
  imports Fix_Parser
begin

text \<open>
  \<open>fix-protocol/fix_order_state.hpp\<close>: the client's view of its orders, driven by the execution reports
  of the exchange.
\<close>

section \<open>State\<close>

datatype OrdState = ONEW | OPARTIAL | OFILLED | OCANCELED | OREJECTED | OUNKNOWN

fun ord_state_str :: "OrdState \<Rightarrow> string" where
  "ord_state_str ONEW = ''NEW''"
| "ord_state_str OPARTIAL = ''PARTIAL''"
| "ord_state_str OFILLED = ''FILLED''"
| "ord_state_str OCANCELED = ''CANCELED''"
| "ord_state_str OREJECTED = ''REJECTED''"
| "ord_state_str OUNKNOWN = ''UNKNOWN''"

record fix_order =
  fo_state :: OrdState
  fo_ordered :: int
  fo_cum :: int
  fo_leaves :: int
  fo_pending_cancel :: bool

record fix_tracker =
  ft_orders :: "(byte list, fix_order) hmap"
  ft_fills :: int
  ft_cancels :: int
  ft_rejects :: int
  ft_cancel_rejects :: int
  ft_replaces :: int
  ft_notional :: dbl
  ft_shares :: int

definition ft0 :: fix_tracker where
  "ft0 = \<lparr>ft_orders = [], ft_fills = 0, ft_cancels = 0, ft_rejects = 0, ft_cancel_rejects = 0, ft_replaces = 0,
     ft_notional = Fin 0, ft_shares = 0\<rparr>"

definition map_status :: "byte \<Rightarrow> OrdState" where
  "map_status b = (if b = chr (CHR ''0'') then ONEW else if b = chr (CHR ''1'') then OPARTIAL
     else if b = chr (CHR ''2'') then OFILLED else if b = chr (CHR ''4'') then OCANCELED
     else if b = chr (CHR ''8'') then OREJECTED else OUNKNOWN)"

definition fo_working :: "fix_order \<Rightarrow> bool" where
  "fo_working r \<longleftrightarrow> fo_state r = ONEW \<or> fo_state r = OPARTIAL"

section \<open>Operations\<close>

definition ft_on_new :: "byte list \<Rightarrow> int \<Rightarrow> fix_tracker \<Rightarrow> fix_tracker" where
  "ft_on_new oid qty t = t\<lparr>ft_orders := AList.update oid
     \<lparr>fo_state = ONEW, fo_ordered = qty, fo_cum = 0, fo_leaves = qty, fo_pending_cancel = False\<rparr> (ft_orders t)\<rparr>"

text \<open>Tags 14 and 151 overwrite the quantities when present.\<close>

definition refresh_qty :: "FIXMessage \<Rightarrow> fix_order \<Rightarrow> fix_order" where
  "refresh_qty m r = r\<lparr>fo_cum := (case get_field 14 m of Some v \<Rightarrow> atoi v | None \<Rightarrow> fo_cum r),
     fo_leaves := (case get_field 151 m of Some v \<Rightarrow> atoi v | None \<Rightarrow> fo_leaves r)\<rparr>"

text \<open>The branch for OrdStatus 5: the record moves to the new ClOrdID.\<close>

definition apply_replaced :: "byte list \<Rightarrow> FIXMessage \<Rightarrow> fix_tracker \<Rightarrow> fix_tracker \<times> OrdState" where
  "apply_replaced oid m t = (case get_field 41 m of None \<Rightarrow> (t, OUNKNOWN)
     | Some orig \<Rightarrow> (case map_of (ft_orders t) orig of None \<Rightarrow> (t, OUNKNOWN)
       | Some r \<Rightarrow>
         let r1 = refresh_qty m r;
             moved = r1\<lparr>fo_pending_cancel := False, fo_state := (if fo_cum r1 > 0 then OPARTIAL else ONEW)\<rparr>
         in (t\<lparr>ft_orders := AList.update oid moved (AList.delete orig (ft_orders t)), ft_replaces := u64 (ft_replaces t + 1)\<rparr>,
             fo_state moved)))"

definition accrue_fill :: "FIXMessage \<Rightarrow> fix_tracker \<Rightarrow> fix_tracker" where
  "accrue_fill m t = (case (get_field 32 m, get_field 31 m) of
     (Some lq, Some lp) \<Rightarrow>
       let q = atoll lq; px = atof lp
       in if q > 0 \<and> dlt (Fin 0) px
          then t\<lparr>ft_notional := dadd (ft_notional t) (dmul (d_of_int q) px), ft_shares := s64 (ft_shares t + q)\<rparr>
          else t
     | _ \<Rightarrow> t)"

definition count_status :: "OrdState \<Rightarrow> fix_tracker \<Rightarrow> fix_tracker" where
  "count_status st t = (if st = OFILLED then t\<lparr>ft_fills := u64 (ft_fills t + 1)\<rparr>
     else if st = OCANCELED then t\<lparr>ft_cancels := u64 (ft_cancels t + 1)\<rparr>
     else if st = OREJECTED then t\<lparr>ft_rejects := u64 (ft_rejects t + 1)\<rparr> else t)"

definition on_exec_report :: "FIXMessage \<Rightarrow> fix_tracker \<Rightarrow> fix_tracker \<times> OrdState" where
  "on_exec_report m t = (case get_field 11 m of None \<Rightarrow> (t, OUNKNOWN)
     | Some oid \<Rightarrow>
       if get_field 39 m \<noteq> None \<and> head0 (the (get_field 39 m)) = chr (CHR ''5'') then apply_replaced oid m t
       else case map_of (ft_orders t) oid of None \<Rightarrow> (t, OUNKNOWN)
       | Some r \<Rightarrow>
         let r1 = refresh_qty m r;
             st = (case get_field 39 m of Some v \<Rightarrow> map_status (head0 v) | None \<Rightarrow> OUNKNOWN);
             r2 = r1\<lparr>fo_state := st, fo_pending_cancel := (if st = OCANCELED then False else fo_pending_cancel r1)\<rparr>;
             t1 = accrue_fill m t
         in (count_status st (t1\<lparr>ft_orders := AList.update oid r2 (ft_orders t1)\<rparr>), st))"

definition on_cancel_sent :: "byte list \<Rightarrow> fix_tracker \<Rightarrow> fix_tracker" where
  "on_cancel_sent oid t = (case map_of (ft_orders t) oid of None \<Rightarrow> t
     | Some r \<Rightarrow> if fo_working r then t\<lparr>ft_orders := AList.update oid (r\<lparr>fo_pending_cancel := True\<rparr>) (ft_orders t)\<rparr> else t)"

definition on_cancel_reject :: "FIXMessage \<Rightarrow> fix_tracker \<Rightarrow> fix_tracker \<times> OrdState" where
  "on_cancel_reject m t = (case get_field 41 m of None \<Rightarrow> (t, OUNKNOWN)
     | Some orig \<Rightarrow> (case map_of (ft_orders t) orig of None \<Rightarrow> (t, OUNKNOWN)
       | Some r \<Rightarrow> (t\<lparr>ft_orders := AList.update orig (r\<lparr>fo_pending_cancel := False\<rparr>) (ft_orders t),
                      ft_cancel_rejects := u64 (ft_cancel_rejects t + 1)\<rparr>, fo_state r)))"

definition reset_session :: "fix_tracker \<Rightarrow> fix_tracker" where
  "reset_session t = ft0"

section \<open>Reading\<close>

definition is_pending_cancel :: "byte list \<Rightarrow> fix_tracker \<Rightarrow> bool" where
  "is_pending_cancel oid t = (case map_of (ft_orders t) oid of None \<Rightarrow> False | Some r \<Rightarrow> fo_pending_cancel r)"

definition ft_state :: "byte list \<Rightarrow> fix_tracker \<Rightarrow> OrdState" where
  "ft_state oid t = (case map_of (ft_orders t) oid of None \<Rightarrow> OUNKNOWN | Some r \<Rightarrow> fo_state r)"

definition ft_cum_qty :: "byte list \<Rightarrow> fix_tracker \<Rightarrow> int" where
  "ft_cum_qty oid t = (case map_of (ft_orders t) oid of None \<Rightarrow> 0 | Some r \<Rightarrow> fo_cum r)"

definition ft_leaves_qty :: "byte list \<Rightarrow> fix_tracker \<Rightarrow> int" where
  "ft_leaves_qty oid t = (case map_of (ft_orders t) oid of None \<Rightarrow> 0 | Some r \<Rightarrow> fo_leaves r)"

definition ft_order_count :: "fix_tracker \<Rightarrow> nat" where
  "ft_order_count t = length (ft_orders t)"

definition working_orders :: "fix_tracker \<Rightarrow> nat" where
  "working_orders t = length (filter (\<lambda>(k, r). fo_working r) (ft_orders t))"

text \<open>\<open>int32_t\<close> sums over the records.\<close>

definition sum32 :: "('a \<Rightarrow> int) \<Rightarrow> 'a list \<Rightarrow> int" where
  "sum32 f xs = fold (\<lambda>x s. s32 (s + f x)) xs 0"

definition working_qty :: "fix_tracker \<Rightarrow> int" where
  "working_qty t = sum32 (\<lambda>(k, r). if fo_working r then fo_leaves r else 0) (ft_orders t)"

definition pending_cancel_qty :: "fix_tracker \<Rightarrow> int" where
  "pending_cancel_qty t = sum32 (\<lambda>(k, r). if fo_pending_cancel r then fo_leaves r else 0) (ft_orders t)"

definition total_filled_qty :: "fix_tracker \<Rightarrow> int" where
  "total_filled_qty t = sum32 (\<lambda>(k, r). fo_cum r) (ft_orders t)"

definition pending_cancel_fraction :: "fix_tracker \<Rightarrow> dbl" where
  "pending_cancel_fraction t = (if working_qty t > 0 then ddiv (d_of_int (pending_cancel_qty t)) (d_of_int (working_qty t)) else Fin 0)"

definition fill_rate :: "fix_tracker \<Rightarrow> dbl" where
  "fill_rate t = (let ordered = fold (\<lambda>(k, r) s. s64 (s + fo_ordered r)) (ft_orders t) 0
     in if ordered > 0 then ddiv (d_of_int (total_filled_qty t)) (d_of_int ordered) else Fin 0)"

definition fill_vwap :: "fix_tracker \<Rightarrow> dbl" where
  "fill_vwap t = (if ft_shares t > 0 then ddiv (ft_notional t) (d_of_int (ft_shares t)) else Fin 0)"

definition filled_notional :: "fix_tracker \<Rightarrow> dbl" where
  "filled_notional t = ft_notional t"

definition per_order :: "int \<Rightarrow> fix_tracker \<Rightarrow> dbl" where
  "per_order n t = (if ft_orders t \<noteq> [] then ddiv (d_of_int n) (d_of_int (int (length (ft_orders t)))) else Fin 0)"

definition ft_order_fill_rate :: "fix_tracker \<Rightarrow> dbl" where
  "ft_order_fill_rate t = per_order (ft_fills t) t"

definition ft_cancel_rate :: "fix_tracker \<Rightarrow> dbl" where
  "ft_cancel_rate t = per_order (ft_cancels t) t"

definition ft_reject_rate :: "fix_tracker \<Rightarrow> dbl" where
  "ft_reject_rate t = per_order (ft_rejects t) t"

end
