(* ===== verification/Fix_Props.thy ===== *)
theory Fix_Props
  imports Fix_Decode Fix_Orders
begin

text \<open>
  Properties of the FIX session: what the builders write the typed views read back, through framing,
  checksum and parser; sequence gaps are reported exactly; the heartbeat timer; and the client's order
  tracker driven by the exchange's execution reports over the wire.
\<close>

section \<open>Builders and typed views\<close>

text \<open>
  The contract between a builder and the typed view of its message: the fields the builder writes for
  an argument in range fit the wire, and the view computed from them is the one expected.
\<close>

locale typed_message =
  fixes room :: nat and mt :: string and enc :: "'a \<Rightarrow> fix_field list" and ok :: "byte \<Rightarrow> 'a \<Rightarrow> bool"
    and dec :: "FIXMessage \<Rightarrow> 'b" and view :: "'a \<Rightarrow> 'b"
  assumes room: "room \<le> 320"
    and kind_length: "length mt \<le> 2"
    and mt: "delimiter d \<Longrightarrow> value_fits d (bytes_of mt)"
    and enc_fits: "delimiter d \<Longrightarrow> ok d x \<Longrightarrow> app_fields d (enc x)"
    and enc_room: "ok d x \<Longrightarrow> list_all (\<lambda>f. fst f < 1000) (enc x) \<and> field_room (enc x) + 90 < room"
    and dec_view: "ok d x \<Longrightarrow> find_field 35 m = Some (bytes_of mt) \<Longrightarrow>
          (\<And>tag. tag \<notin> {8, 9, 10, 34, 35, 49, 56} \<Longrightarrow> find_field tag m = map_of (enc x) tag) \<Longrightarrow> dec m = view x"
begin

lemma roundtrip:
  assumes "session_ok d s" "ok d x" "snd (send room mt (enc x) cap d s) = Some msg"
  shows "dec (fix_parse msg) = view x \<and> fix_is_valid (fix_parse msg) \<and> find_field 34 (fix_parse msg) = Some (print_u (next_out_seq s))"
proof -
  have d: "delimiter d" using assms(1) by (simp add: session_ok_def)
  note R = send_result [OF assms(1) enc_fits [OF d assms(2)] mt [OF d] room assms(3)]
  have "dec (fix_parse msg) = view x"
    by (rule dec_view [OF assms(2)]) (use R(1) in \<open>auto simp: session_fields_def\<close>)
  then show ?thesis using R(1) [of 34] R(2) by (simp add: session_fields_def)
qed

lemma delivered:
  assumes "session_ok d s" "ok d x" "384 \<le> cap"
  shows "\<exists>msg. snd (send room mt (enc x) cap d s) = Some msg \<and> dec (fix_parse msg) = view x \<and> fix_is_valid (fix_parse msg)
    \<and> find_field 34 (fix_parse msg) = Some (print_u (next_out_seq s))"
proof -
  have d: "delimiter d" using assms(1) by (simp add: session_ok_def)
  note E = enc_fits [OF d assms(2)]
  have "list_all (\<lambda>f. 0 < fst f \<and> fst f < 1000) (session_fields mt s @ enc x)"
    using E enc_room [OF assms(2)] by (auto simp: session_fields_def app_fields_def field_fits_def list_all_iff)
  from wire_room [OF this, of d] have "body_fits room mt (enc x) d s"
    using session_room [OF assms(1) kind_length] conjunct2 [OF enc_room [OF assms(2)]] unfolding body_fits_def field_room_simps(3) by linarith
  from send_succeeds [OF assms(1) E mt [OF d] room this assms(3)] show ?thesis using roundtrip [OF assms(1,2)] by blast
qed

end

text \<open>Arguments in range.\<close>

definition int32 :: "int \<Rightarrow> bool" where
  "int32 n \<longleftrightarrow> - (2 ^ 31) \<le> n \<and> n < 2 ^ 31"

definition ticker :: "byte \<Rightarrow> byte list \<Rightarrow> bool" where
  "ticker d sy \<longleftrightarrow> value_fits d sy \<and> length sy \<le> 15"

definition px_ok :: "rat \<Rightarrow> bool" where
  "px_ok x \<longleftrightarrow> 0 \<le> x \<and> x < 10 ^ 12"

definition on_cent :: "rat \<Rightarrow> dbl" where
  "on_cent x = fin (of_nat (cents x) / 100)"

lemma strn_fits: "value_fits d v \<Longrightarrow> length v \<le> n - 1 \<Longrightarrow> strn n v = v"
proof -
  assume v: "value_fits d v" "length v \<le> n - 1"
  then have "cstr v = v" by (auto simp: cstr_def value_fits_def)
  then show ?thesis using v(2) by (simp add: strn_def)
qed

lemma side_fits: "delimiter d \<Longrightarrow> value_fits d [fix_side sd]"
  by (cases sd) (auto simp: value_fits_def fix_side_def delimiter_def SOH_def BAR_def chr_def)

lemma literal_fits:
  "delimiter d \<Longrightarrow> length s \<le> 31 \<Longrightarrow> list_all (\<lambda>c. chr c \<noteq> 0 \<and> chr c \<noteq> 1 \<and> chr c \<noteq> 124) s \<Longrightarrow> value_fits d (bytes_of s)"
  by (auto simp: value_fits_def bytes_of_def delimiter_def SOH_def BAR_def list_all_iff)

lemma int32_fits: "delimiter d \<Longrightarrow> int32 n \<Longrightarrow> value_fits d (print_d n)"
  by (simp add: int32_def print_d_fits32)

lemma px_fits: "delimiter d \<Longrightarrow> px_ok x \<Longrightarrow> value_fits d (print_2f (Fin x))"
  by (simp add: px_ok_def print_2f_fits del: print_2f.simps)

lemma ticker_fits: "ticker d sy \<Longrightarrow> value_fits d sy"
  by (simp add: ticker_def)

lemma int32_reads: "int32 n \<Longrightarrow> atoi (print_d n) = n"
  by (simp add: int32_def atoi_print_d)

lemma px_reads: "px_ok x \<Longrightarrow> atof (print_2f (Fin x)) = on_cent x"
  by (simp add: px_ok_def on_cent_def atof_print_2f del: print_2f.simps)

lemma id_reads: "value_fits d v \<Longrightarrow> strn 32 v = v"
  by (rule strn_fits [of d]) (simp_all add: value_fits_def)

lemma ticker_reads: "ticker d sy \<Longrightarrow> strn 16 sy = sy"
  by (rule strn_fits [of d]) (simp_all add: ticker_def)

lemma int32_length: "int32 n \<Longrightarrow> length (print_d n) \<le> 11"
proof -
  assume "int32 n"
  then have "length (udec (nat \<bar>n\<bar>)) \<le> Suc 9" by (intro length_udec) (auto simp: int32_def)
  then show ?thesis by (auto simp: print_d_def)
qed

lemma px_length: "px_ok x \<Longrightarrow> length (print_2f (Fin x)) \<le> 31"
  using px_fits [of SOH x] by (simp add: delimiter_def value_fits_def)

lemma fits_length: "value_fits d v \<Longrightarrow> length v \<le> 31" "ticker d sy \<Longrightarrow> length sy \<le> 15"
  by (simp_all add: value_fits_def ticker_def)

lemmas argument_lengths = fits_length int32_length px_length
lemmas lengths = tag_digits_def bytes_of_def
lemmas writes = app_fields_def field_fits_def literal_fits int32_fits px_fits ticker_fits side_fits chr_def
lemmas reads = int32_reads px_reads
lemmas readers = text_field_def char_field_def int_or_def get_int_def get_double_def get_field_def head0_def
lemmas kinds = type_starts_def type_is_def get_msg_type_def head0_def bytes_of_def

declare print_2f.simps [simp del]

subsection \<open>NewOrderSingle\<close>

record order_args =
  oa_id :: "byte list"
  oa_orig :: "byte list"
  oa_symbol :: "byte list"
  oa_side :: Side
  oa_qty :: int
  oa_price :: rat

definition order_ok :: "byte \<Rightarrow> order_args \<Rightarrow> bool" where
  "order_ok d a \<longleftrightarrow> value_fits d (oa_id a) \<and> value_fits d (oa_orig a) \<and> ticker d (oa_symbol a) \<and> int32 (oa_qty a) \<and> px_ok (oa_price a)"

definition new_order_fields :: "order_args \<Rightarrow> fix_field list" where
  "new_order_fields a = [(11, oa_id a), (55, oa_symbol a), (54, [fix_side (oa_side a)]), (38, print_d (oa_qty a)),
     (44, print_2f (Fin (oa_price a))), (40, bytes_of ''2'')]"

definition new_order_view :: "order_args \<Rightarrow> NewOrder" where
  "new_order_view a = \<lparr>no_cl_ord_id = oa_id a, no_symbol = oa_symbol a, no_side = fix_side (oa_side a), no_qty = oa_qty a,
     no_price = on_cent (oa_price a), no_ord_type = chr (CHR ''2''), no_valid = True\<rparr>"

interpretation new_order: typed_message 256 "''D''" new_order_fields order_ok parse_new_order new_order_view
proof (unfold_locales, goal_cases)
  case (3 d) then show ?case by (simp add: literal_fits chr_def)
next
  case (4 d a) then show ?case by (simp add: new_order_fields_def order_ok_def writes)
next
  case (5 d a) then show ?case by (auto simp: new_order_fields_def order_ok_def lengths dest!: argument_lengths)
next
  case (6 d a m)
  have "find_field tag m = map_of (new_order_fields a) tag" if "tag \<in> {11, 55, 54, 38, 44, 40}" for tag using 6(3) that by auto
  then show ?case using 6(1,2)
    by (simp add: parse_new_order_def new_order_view_def new_order_fields_def order_ok_def kinds readers reads id_reads [of d] ticker_reads [of d])
qed simp_all

subsection \<open>OrderCancelRequest and OrderCancelReplaceRequest\<close>

definition cancel_fields :: "order_args \<Rightarrow> fix_field list" where
  "cancel_fields a = [(11, oa_id a), (41, oa_orig a), (55, oa_symbol a), (54, [fix_side (oa_side a)]), (38, print_d (oa_qty a))]"

definition cancel_view :: "order_args \<Rightarrow> CancelRequest" where
  "cancel_view a = \<lparr>cr_cl_ord_id = oa_id a, cr_orig_cl_ord_id = oa_orig a, cr_symbol = oa_symbol a, cr_side = fix_side (oa_side a),
     cr_qty = oa_qty a, cr_valid = True\<rparr>"

interpretation cancel_order: typed_message 256 "''F''" cancel_fields order_ok parse_cancel_request cancel_view
proof (unfold_locales, goal_cases)
  case (3 d) then show ?case by (simp add: literal_fits chr_def)
next
  case (4 d a) then show ?case by (simp add: cancel_fields_def order_ok_def writes)
next
  case (5 d a) then show ?case by (auto simp: cancel_fields_def order_ok_def lengths dest!: argument_lengths)
next
  case (6 d a m)
  have "find_field tag m = map_of (cancel_fields a) tag" if "tag \<in> {11, 41, 55, 54, 38}" for tag using 6(3) that by auto
  then show ?case using 6(1,2)
    by (simp add: parse_cancel_request_def cancel_view_def cancel_fields_def order_ok_def kinds readers reads id_reads [of d] ticker_reads [of d])
qed simp_all

definition replace_fields :: "order_args \<Rightarrow> fix_field list" where
  "replace_fields a = [(11, oa_id a), (41, oa_orig a), (55, oa_symbol a), (54, [fix_side (oa_side a)]), (38, print_d (oa_qty a)),
     (44, print_2f (Fin (oa_price a))), (40, bytes_of ''2'')]"

definition replace_view :: "order_args \<Rightarrow> ReplaceRequest" where
  "replace_view a = \<lparr>rp_cl_ord_id = oa_id a, rp_orig_cl_ord_id = oa_orig a, rp_symbol = oa_symbol a, rp_side = fix_side (oa_side a),
     rp_qty = oa_qty a, rp_price = on_cent (oa_price a), rp_ord_type = chr (CHR ''2''), rp_valid = True\<rparr>"

interpretation cancel_replace: typed_message 256 "''G''" replace_fields order_ok parse_replace_request replace_view
proof (unfold_locales, goal_cases)
  case (3 d) then show ?case by (simp add: literal_fits chr_def)
next
  case (4 d a) then show ?case by (simp add: replace_fields_def order_ok_def writes)
next
  case (5 d a) then show ?case by (auto simp: replace_fields_def order_ok_def lengths dest!: argument_lengths)
next
  case (6 d a m)
  have "find_field tag m = map_of (replace_fields a) tag" if "tag \<in> {11, 41, 55, 54, 38, 44, 40}" for tag using 6(3) that by auto
  then show ?case using 6(1,2)
    by (simp add: parse_replace_request_def replace_view_def replace_fields_def order_ok_def kinds readers reads id_reads [of d] ticker_reads [of d])
qed simp_all

subsection \<open>ExecutionReport\<close>

record report_args =
  ra_id :: "byte list"
  ra_order :: "byte list"
  ra_exec :: "byte list"
  ra_type :: byte
  ra_status :: byte
  ra_symbol :: "byte list"
  ra_side :: Side
  ra_last_qty :: int
  ra_last_px :: rat
  ra_cum :: int
  ra_leaves :: int

definition report_ok :: "byte \<Rightarrow> report_args \<Rightarrow> bool" where
  "report_ok d a \<longleftrightarrow> value_fits d (ra_id a) \<and> value_fits d (ra_order a) \<and> value_fits d (ra_exec a) \<and> value_fits d [ra_type a]
     \<and> value_fits d [ra_status a] \<and> ticker d (ra_symbol a) \<and> int32 (ra_last_qty a) \<and> px_ok (ra_last_px a) \<and> int32 (ra_cum a) \<and> int32 (ra_leaves a)"

definition report_fields :: "report_args \<Rightarrow> fix_field list" where
  "report_fields a = [(11, ra_id a), (37, ra_order a), (17, ra_exec a), (150, [ra_type a]), (39, [ra_status a]), (55, ra_symbol a),
     (54, [fix_side (ra_side a)]), (32, print_d (ra_last_qty a)), (31, print_2f (Fin (ra_last_px a))), (14, print_d (ra_cum a)),
     (151, print_d (ra_leaves a))]"

definition report_view :: "report_args \<Rightarrow> ExecReport" where
  "report_view a = \<lparr>er_ord_status = ra_status a, er_exec_type = ra_type a, er_last_qty = ra_last_qty a, er_last_px = on_cent (ra_last_px a),
     er_cum_qty = ra_cum a, er_leaves_qty = ra_leaves a, er_valid = True\<rparr>"

interpretation exec_report: typed_message 320 "''8''" report_fields report_ok parse_exec_report report_view
proof (unfold_locales, goal_cases)
  case (3 d) then show ?case by (simp add: literal_fits chr_def)
next
  case (4 d a) then show ?case by (simp add: report_fields_def report_ok_def writes)
next
  case (5 d a) then show ?case by (auto simp: report_fields_def report_ok_def lengths dest!: argument_lengths)
next
  case (6 d a m)
  have "find_field tag m = map_of (report_fields a) tag" if "tag \<in> {39, 150, 32, 31, 14, 151}" for tag using 6(3) that by auto
  then show ?case using 6(1,2)
    by (simp add: parse_exec_report_def report_view_def report_fields_def report_ok_def kinds readers reads id_reads [of d] ticker_reads [of d])
qed simp_all

subsection \<open>Session messages\<close>

definition logon_fields :: "int \<Rightarrow> fix_field list" where
  "logon_fields hb = [(108, print_d hb)]"

definition logon_ok :: "byte \<Rightarrow> int \<Rightarrow> bool" where
  "logon_ok d hb \<longleftrightarrow> int32 hb"

definition logon_view :: "int \<Rightarrow> LogonMsg" where
  "logon_view hb = \<lparr>lo_hb_int_sec = hb, lo_valid = True\<rparr>"

interpretation logon: typed_message 160 "''A''" logon_fields logon_ok parse_logon logon_view
proof (unfold_locales, goal_cases)
  case (3 d) then show ?case by (simp add: literal_fits chr_def)
next
  case (4 d a) then show ?case by (simp add: logon_fields_def logon_ok_def writes)
next
  case (5 d a) then show ?case by (auto simp: logon_fields_def logon_ok_def lengths dest!: argument_lengths)
next
  case (6 d a m)
  have "find_field tag m = map_of (logon_fields a) tag" if "tag \<in> {108}" for tag using 6(3) that by auto
  then show ?case using 6(1,2)
    by (simp add: parse_logon_def logon_view_def logon_fields_def logon_ok_def kinds readers reads id_reads [of d] ticker_reads [of d])
qed simp_all

text \<open>A pair of sequence numbers in the range of \<open>uint32_t\<close>.\<close>

definition seqs_ok :: "byte \<Rightarrow> int \<times> int \<Rightarrow> bool" where
  "seqs_ok d p \<longleftrightarrow> 0 \<le> fst p \<and> fst p < 2 ^ 32 \<and> 0 \<le> snd p \<and> snd p < 2 ^ 32"

definition resend_fields :: "int \<times> int \<Rightarrow> fix_field list" where
  "resend_fields p = [(7, print_u (fst p)), (16, print_u (snd p))]"

definition resend_view :: "int \<times> int \<Rightarrow> ResendReq" where
  "resend_view p = \<lparr>rr_begin_seq = fst p, rr_end_seq = snd p, rr_valid = True\<rparr>"

interpretation resend: typed_message 160 "''2''" resend_fields seqs_ok parse_resend_request resend_view
proof (unfold_locales, goal_cases)
  case (3 d) then show ?case by (simp add: literal_fits chr_def)
next
  case (4 d a) then show ?case by (simp add: resend_fields_def seqs_ok_def writes print_u_fits u32_atoi_print_u)
next
  case (5 d a) then show ?case using u32_length [of "fst a"] u32_length [of "snd a"] by (auto simp: resend_fields_def seqs_ok_def lengths)
next
  case (6 d a m)
  have "find_field tag m = map_of (resend_fields a) tag" if "tag \<in> {7, 16}" for tag using 6(3) that by auto
  then show ?case using 6(1,2)
    by (simp add: parse_resend_request_def resend_view_def resend_fields_def seqs_ok_def kinds readers reads id_reads [of d] ticker_reads [of d] print_u_fits u32_atoi_print_u)
qed simp_all

definition reset_ok :: "byte \<Rightarrow> int \<times> bool \<Rightarrow> bool" where
  "reset_ok d p \<longleftrightarrow> 0 \<le> fst p \<and> fst p < 2 ^ 32"

definition reset_fields :: "int \<times> bool \<Rightarrow> fix_field list" where
  "reset_fields p = [(36, print_u (fst p)), (123, if snd p then bytes_of ''Y'' else bytes_of ''N'')]"

definition reset_view :: "int \<times> bool \<Rightarrow> SeqReset" where
  "reset_view p = \<lparr>sx_new_seq = fst p, sx_gap_fill = snd p, sx_valid = True\<rparr>"

interpretation seq_reset: typed_message 160 "''4''" reset_fields reset_ok parse_sequence_reset reset_view
proof (unfold_locales, goal_cases)
  case (3 d) then show ?case by (simp add: literal_fits chr_def)
next
  case (4 d a) then show ?case by (simp add: reset_fields_def reset_ok_def writes print_u_fits u32_atoi_print_u)
next
  case (5 d a) then show ?case using u32_length [of "fst a"] by (auto simp: reset_fields_def reset_ok_def lengths)
next
  case (6 d a m)
  have "find_field tag m = map_of (reset_fields a) tag" if "tag \<in> {36, 123}" for tag using 6(3) that by auto
  then show ?case using 6(1,2)
    by (simp add: parse_sequence_reset_def reset_view_def reset_fields_def reset_ok_def kinds readers reads id_reads [of d] ticker_reads [of d] print_u_fits u32_atoi_print_u chr_def)
qed simp_all

section \<open>Sequence numbers and messages\<close>

text \<open>A run of the receiving side: the session and the gap reports of the messages in order.\<close>

fun inbound_run :: "(FIXMessage \<times> int) list \<Rightarrow> FIXSession \<Rightarrow> FIXSession \<times> GapDetected list" where
  "inbound_run [] s = (s, [])"
| "inbound_run ((m, now) # ms) s =
     (let (s1, g) = process_inbound m now s; (s2, gs) = inbound_run ms s1 in (s2, g # gs))"

definition seq_of :: "FIXMessage \<Rightarrow> int" where
  "seq_of m = u32 (get_int 34 m)"

definition numbered :: "FIXMessage \<Rightarrow> bool" where
  "numbered m \<longleftrightarrow> find_field 34 m \<noteq> None \<and> \<not> type_starts (CHR ''4'') m \<and> seq_of m < 2 ^ 32 - 1"

definition gap_set :: "GapDetected list \<Rightarrow> int set" where
  "gap_set gs = (\<Union>g \<in> set gs. if gd_valid g then {gd_expected g..<gd_received g} else {})"

lemma inbound_effect_frame [simp]:
  "expected_in_seq (inbound_effect m now s) = expected_in_seq s" "gaps_detected (inbound_effect m now s) = gaps_detected s"
  "next_out_seq (inbound_effect m now s) = next_out_seq s"
  by (simp_all add: inbound_effect_def Let_def mark_logon_received_def mark_logout_def split: option.splits)

lemma process_numbered:
  assumes "numbered m"
  shows "process_inbound m now s = (inbound_effect m now (fst (observe_inbound (seq_of m) now s)), snd (observe_inbound (seq_of m) now s))"
  using assms by (auto simp: process_inbound_def numbered_def type_starts_def seq_of_def get_int_def get_field_def split: prod.splits)

lemma observe_ahead:
  assumes "expected_in_seq s \<le> n" "0 \<le> n" "n < 2 ^ 32 - 1"
  shows "expected_in_seq (fst (observe_inbound n now s)) = n + 1"
    and "gap_set [snd (observe_inbound n now s)] = {expected_in_seq s..<n}"
  using assms by (auto simp: observe_inbound_def gap_set_def u32_id Let_def)

lemma gap_set_Cons: "gap_set (g # gs) = gap_set [g] \<union> gap_set gs"
  by (auto simp: gap_set_def)

lemma inbound_run_gaps:
  assumes "\<forall>p \<in> set ms. numbered (fst p)" "sorted_wrt (<) (map (seq_of \<circ> fst) ms)" "\<forall>p \<in> set ms. expected_in_seq s \<le> seq_of (fst p)"
  shows "gap_set (snd (inbound_run ms s)) = {expected_in_seq s..<expected_in_seq (fst (inbound_run ms s))} - (seq_of \<circ> fst) ` set ms
    \<and> expected_in_seq s \<le> expected_in_seq (fst (inbound_run ms s))
    \<and> (\<forall>p \<in> set ms. seq_of (fst p) < expected_in_seq (fst (inbound_run ms s)))"
  using assms
proof (induction ms arbitrary: s)
  case Nil
  then show ?case by (simp add: gap_set_def)
next
  case (Cons p ms)
  obtain m now where p: "p = (m, now)" by (cases p)
  let ?n = "seq_of m" and ?s1 = "inbound_effect m now (fst (observe_inbound (seq_of m) now s))"
  have n: "expected_in_seq s \<le> ?n" "0 \<le> ?n" "?n < 2 ^ 32 - 1" "numbered m"
    using Cons.prems p by (auto simp: numbered_def seq_of_def u32_range)
  note O = observe_ahead [OF n(1-3), of now]
  have e: "expected_in_seq ?s1 = ?n + 1" using O(1) by simp
  have "\<forall>q \<in> set ms. expected_in_seq ?s1 \<le> seq_of (fst q)" using Cons.prems(2) p unfolding e by auto
  from Cons.IH [OF _ _ this] have IH:
    "gap_set (snd (inbound_run ms ?s1)) = {?n + 1..<expected_in_seq (fst (inbound_run ms ?s1))} - (seq_of \<circ> fst) ` set ms"
    "?n + 1 \<le> expected_in_seq (fst (inbound_run ms ?s1))" "\<forall>q \<in> set ms. seq_of (fst q) < expected_in_seq (fst (inbound_run ms ?s1))"
    using Cons.prems unfolding e by simp_all
  have r: "fst (inbound_run (p # ms) s) = fst (inbound_run ms ?s1)"
    "snd (inbound_run (p # ms) s) = snd (observe_inbound ?n now s) # snd (inbound_run ms ?s1)"
    by (simp_all add: p process_numbered [OF n(4)] split: prod.splits)
  have later: "\<forall>q \<in> set ms. ?n < seq_of (fst q)" using Cons.prems(2) p by auto
  have "gap_set (snd (inbound_run (p # ms) s)) = {expected_in_seq s..<?n} \<union> ({?n + 1..<expected_in_seq (fst (inbound_run ms ?s1))} - (seq_of \<circ> fst) ` set ms)"
    unfolding r(2) gap_set_Cons [of _ "snd (inbound_run ms ?s1)"] O(2) IH(1) ..
  also have "\<dots> = {expected_in_seq s..<expected_in_seq (fst (inbound_run ms ?s1))} - (seq_of \<circ> fst) ` set (p # ms)"
    using n(1) IH(2) later p by fastforce
  finally show ?case unfolding r(1) using IH n(1) p by auto
qed

section \<open>Reports and the order tracker\<close>

text \<open>
  What an execution report with the given arguments does to the tracker, written over the arguments
  and not over the message: the reading end of the exchange's report is the client's tracker.
\<close>

definition report_fill :: "report_args \<Rightarrow> fix_tracker \<Rightarrow> fix_tracker" where
  "report_fill a t = (if ra_last_qty a > 0 \<and> dlt (Fin 0) (on_cent (ra_last_px a))
     then t\<lparr>ft_notional := dadd (ft_notional t) (dmul (d_of_int (ra_last_qty a)) (on_cent (ra_last_px a))),
            ft_shares := s64 (ft_shares t + ra_last_qty a)\<rparr> else t)"

definition report_effect :: "report_args \<Rightarrow> fix_tracker \<Rightarrow> fix_tracker \<times> OrdState" where
  "report_effect a t = (case map_of (ft_orders t) (ra_id a) of None \<Rightarrow> (t, OUNKNOWN)
     | Some r \<Rightarrow> let st = map_status (ra_status a);
         r' = r\<lparr>fo_cum := ra_cum a, fo_leaves := ra_leaves a, fo_state := st,
                 fo_pending_cancel := (if st = OCANCELED then False else fo_pending_cancel r)\<rparr>;
         t1 = report_fill a t
       in (count_status st (t1\<lparr>ft_orders := AList.update (ra_id a) r' (ft_orders t1)\<rparr>), st))"

definition plain_report :: "byte \<Rightarrow> report_args \<Rightarrow> bool" where
  "plain_report d a \<longleftrightarrow> report_ok d a \<and> ra_status a \<noteq> chr (CHR ''5'')"

lemma int32_reads64: "int32 n \<Longrightarrow> atoll (print_d n) = n"
  by (rule atoll_print_d) (simp_all add: int32_def)

interpretation tracked_report: typed_message 320 "''8''" report_fields plain_report on_exec_report report_effect
proof (unfold_locales, goal_cases)
  case (3 d) then show ?case by (rule exec_report.mt)
next
  case (4 d a) then show ?case by (intro exec_report.enc_fits) (simp_all add: plain_report_def)
next
  case (5 d a) then show ?case using exec_report.enc_room [of d a] by (simp add: plain_report_def)
next
  case (6 d a m)
  have f: "get_field tag m = map_of (report_fields a) tag" if "tag \<in> {11, 39, 32, 31, 14, 151}" for tag using 6(3) that by (auto simp: get_field_def)
  have ok: "report_ok d a" "ra_status a \<noteq> chr (CHR ''5'')" using 6(1) by (simp_all add: plain_report_def)
  have g: "get_field 11 m = Some (ra_id a)" "get_field 39 m = Some [ra_status a]" "get_field 32 m = Some (print_d (ra_last_qty a))"
    "get_field 31 m = Some (print_2f (Fin (ra_last_px a)))" "get_field 14 m = Some (print_d (ra_cum a))" "get_field 151 m = Some (print_d (ra_leaves a))"
    by (simp_all add: f report_fields_def)
  have "accrue_fill m = report_fill a"
    using ok(1) by (simp add: fun_eq_iff accrue_fill_def report_fill_def g Let_def report_ok_def int32_reads64 px_reads)
  moreover have "refresh_qty m r = r\<lparr>fo_cum := ra_cum a, fo_leaves := ra_leaves a\<rparr>" for r
    using ok(1) by (simp add: refresh_qty_def g report_ok_def int32_reads)
  ultimately show ?case
    using ok(2) by (intro ext) (simp add: on_exec_report_def report_effect_def g head0_def Let_def split: option.splits)
qed simp_all

lemma report_effect_frame:
  assumes "map_of (ft_orders t) (ra_id a) = Some r"
  shows "snd (report_effect a t) = map_status (ra_status a)"
    and "map_of (ft_orders (fst (report_effect a t))) = (map_of (ft_orders t))(ra_id a \<mapsto>
        r\<lparr>fo_cum := ra_cum a, fo_leaves := ra_leaves a, fo_state := map_status (ra_status a),
          fo_pending_cancel := (if map_status (ra_status a) = OCANCELED then False else fo_pending_cancel r)\<rparr>)"
  using assms by (auto simp: report_effect_def Let_def count_status_def report_fill_def update_conv')

section \<open>The heartbeat timer\<close>

text \<open>A run of the session: messages that arrive, messages sent, and ticks, with the action of each.\<close>

datatype session_event = Arrive FIXMessage int | Sent int | Tick int

fun session_step :: "session_event \<Rightarrow> FIXSession \<Rightarrow> FIXSession \<times> Action" where
  "session_step (Arrive m now) s = (fst (process_inbound m now s), ACT_NONE)"
| "session_step (Sent now) s = (mark_outbound now s, ACT_NONE)"
| "session_step (Tick now) s = tick now s"

fun session_run :: "session_event list \<Rightarrow> FIXSession \<Rightarrow> FIXSession \<times> (session_event \<times> Action) list" where
  "session_run [] s = (s, [])"
| "session_run (e # es) s = (let (s1, a) = session_step e s; (s2, tr) = session_run es s1 in (s2, (e, a) # tr))"

fun answers :: "session_event \<Rightarrow> bool" where
  "answers (Arrive m now) \<longleftrightarrow> find_field 34 m \<noteq> None \<and> \<not> type_starts (CHR ''4'') m"
| "answers _ \<longleftrightarrow> False"

lemma session_run_snoc:
  "session_run (es @ [e]) s = (let (s1, tr) = session_run es s; (s2, a) = session_step e s1 in (s2, tr @ [(e, a)]))"
  by (induction es arbitrary: s) (simp_all split: prod.splits)

lemma inbound_effect_pending [simp]: "test_request_pending (inbound_effect m now s) = test_request_pending s"
  by (simp add: inbound_effect_def Let_def mark_logon_received_def mark_logout_def split: option.splits)

lemma inbound_answered: "answers (Arrive m now) \<Longrightarrow> \<not> test_request_pending (fst (process_inbound m now s))"
  by (auto simp: process_inbound_def type_starts_def get_field_def observe_inbound_def Let_def split: prod.splits if_splits)

lemma inbound_keeps_pending: "test_request_pending (fst (process_inbound m now s)) \<Longrightarrow> test_request_pending s"
  by (auto simp: process_inbound_def observe_inbound_def Let_def apply_inbound_sequence_reset_def split: prod.splits option.splits if_splits)

text \<open>What a pending test request means: it was sent by a tick of the run and nothing has answered it.\<close>

definition test_requested :: "(session_event \<times> Action) list \<Rightarrow> bool" where
  "test_requested tr \<longleftrightarrow> (\<exists>before now after. tr = before @ (Tick now, SEND_TEST_REQUEST) # after \<and> (\<forall>p \<in> set after. \<not> answers (fst p)))"

lemma test_requested_snoc: "test_requested tr \<Longrightarrow> \<not> answers e \<Longrightarrow> test_requested (tr @ [(e, a)])"
  unfolding test_requested_def
proof (elim exE conjE)
  fix before now after
  assume "tr = before @ (Tick now, SEND_TEST_REQUEST) # after" "\<forall>p \<in> set after. \<not> answers (fst p)" "\<not> answers e"
  then show "\<exists>before now after'. tr @ [(e, a)] = before @ (Tick now, SEND_TEST_REQUEST) # after' \<and> (\<forall>p \<in> set after'. \<not> answers (fst p))"
    by (intro exI [of _ before] exI [of _ now] exI [of _ "after @ [(e, a)]"]) auto
qed

lemma pending_requested:
  "\<not> test_request_pending s \<Longrightarrow> test_request_pending (fst (session_run es s)) \<Longrightarrow> test_requested (snd (session_run es s))"
proof (induction es rule: rev_induct)
  case (snoc e es)
  obtain s1 tr where r: "session_run es s = (s1, tr)" by (cases "session_run es s")
  obtain s2 a where st: "session_step e s1 = (s2, a)" by (cases "session_step e s1")
  have p2: "test_request_pending s2" using snoc.prems(2) by (simp add: session_run_snoc r st)
  have IH: "test_request_pending s1 \<Longrightarrow> test_requested tr" using snoc.IH [OF snoc.prems(1)] by (simp add: r)
  have "test_request_pending s1 \<and> \<not> answers e \<or> (\<exists>now. e = Tick now \<and> a = SEND_TEST_REQUEST)"
  proof (cases e)
    case (Arrive m now)
    then show ?thesis using st p2 inbound_keeps_pending [of m now s1] inbound_answered [of m now s1] by (metis fst_conv session_step.simps(1))
  qed (use st p2 in \<open>auto simp: mark_outbound_def tick_def Let_def split: if_splits\<close>)
  moreover have "test_requested (tr @ [(Tick now, SEND_TEST_REQUEST)])" for now
    unfolding test_requested_def by (intro exI [of _ tr] exI [of _ now] exI [of _ "[]"]) simp
  ultimately have "test_requested (tr @ [(e, a)])" using IH test_requested_snoc by blast
  then show ?case by (simp add: session_run_snoc r st)
qed simp

lemma tick_disconnect: "snd (tick now s) = DISCONNECT \<Longrightarrow> test_request_pending s"
  by (auto simp: tick_def Let_def split: if_splits)

section \<open>Properties\<close>

text \<open>
  C29. Order entry over the wire: what the client builds, the acceptor reads.  For every new order,
  cancel or replace with arguments in range and an output buffer of 384 bytes, the builder returns a
  message, which passes the parser's checks, carries the session's next sequence number, and whose
  typed view has the arguments, the price rounded to the nearest cent.
\<close>

theorem fix_order_entry_roundtrip:
  assumes "session_ok d s" "order_ok d a" "384 \<le> cap"
  shows "(\<exists>msg. snd (build_new_order cap (oa_id a) (oa_symbol a) (oa_side a) (oa_qty a) (Fin (oa_price a)) d s) = Some msg
      \<and> parse_new_order (fix_parse msg) = new_order_view a \<and> fix_is_valid (fix_parse msg)
      \<and> find_field 34 (fix_parse msg) = Some (print_u (next_out_seq s)))
    \<and> (\<exists>msg. snd (build_cancel_order cap (oa_id a) (oa_orig a) (oa_symbol a) (oa_side a) (oa_qty a) d s) = Some msg
      \<and> parse_cancel_request (fix_parse msg) = cancel_view a \<and> fix_is_valid (fix_parse msg)
      \<and> find_field 34 (fix_parse msg) = Some (print_u (next_out_seq s)))
    \<and> (\<exists>msg. snd (build_cancel_replace cap (oa_id a) (oa_orig a) (oa_symbol a) (oa_side a) (oa_qty a) (Fin (oa_price a)) d s) = Some msg
      \<and> parse_replace_request (fix_parse msg) = replace_view a \<and> fix_is_valid (fix_parse msg)
      \<and> find_field 34 (fix_parse msg) = Some (print_u (next_out_seq s)))"
  unfolding build_new_order_def build_cancel_order_def build_cancel_replace_def
  using new_order.delivered [OF assms] cancel_order.delivered [OF assms] cancel_replace.delivered [OF assms]
  unfolding new_order_fields_def cancel_fields_def replace_fields_def by blast

definition sample_order :: order_args where
  "sample_order = \<lparr>oa_id = bytes_of ''C1'', oa_orig = bytes_of ''C0'', oa_symbol = bytes_of ''AAPL'', oa_side = BUY, oa_qty = 100, oa_price = 3 / 2\<rparr>"

lemma fs0_ok: "session_ok SOH fs0"
  by (simp add: session_ok_def fs0_def delimiter_def value_fits_def bytes_of_def chr_def SOH_def)

lemma sample_order_ok: "order_ok SOH sample_order"
  by (simp add: order_ok_def sample_order_def ticker_def value_fits_def bytes_of_def chr_def SOH_def int32_def px_ok_def)

theorem fix_order_entry_roundtrip_witness:
  "\<exists>msg. snd (build_new_order 400 (bytes_of ''C1'') (bytes_of ''AAPL'') BUY 100 (Fin (3 / 2)) SOH fs0) = Some msg
     \<and> parse_new_order (fix_parse msg) = new_order_view sample_order \<and> fix_is_valid (fix_parse msg)"
  using fix_order_entry_roundtrip [OF fs0_ok sample_order_ok, of 400] by (auto simp: sample_order_def)

text \<open>
  C30. Gap reports are exact.  Messages that arrive in ascending order of their sequence numbers, from the
  expected one on, with any of them missing: the ranges the session reports as gaps are exactly the
  numbers that did not arrive, up to the last one received.  No message is a SequenceReset, which sets the expected number itself.
\<close>

theorem fix_session_gaps_exact:
  assumes "\<forall>p \<in> set ms. numbered (fst p)" "sorted_wrt (<) (map (seq_of \<circ> fst) ms)" "\<forall>p \<in> set ms. expected_in_seq s \<le> seq_of (fst p)"
  shows "gap_set (snd (inbound_run ms s)) = {expected_in_seq s..<expected_in_seq (fst (inbound_run ms s))} - (seq_of \<circ> fst) ` set ms
    \<and> (\<forall>p \<in> set ms. seq_of (fst p) < expected_in_seq (fst (inbound_run ms s)))"
  using inbound_run_gaps [OF assms] by blast

definition heartbeat_msg :: "int \<Rightarrow> FIXMessage" where
  "heartbeat_msg n = fm0\<lparr>fix_fields := [(35, bytes_of ''0''), (34, print_u n)]\<rparr>"

theorem fix_session_gaps_exact_witness:
  "gap_set (snd (inbound_run [(heartbeat_msg 1, 10), (heartbeat_msg 5, 20)] fs0)) = {2, 3, 4}"
proof -
  have h: "numbered (heartbeat_msg n)" "seq_of (heartbeat_msg n) = n" if "0 \<le> n" "n < 2 ^ 32 - 1" for n
    using that by (simp_all add: numbered_def seq_of_def heartbeat_msg_def find_field_def kinds get_int_def chr_def u32_atoi_print_u)
  have e: "expected_in_seq (fst (inbound_run [(heartbeat_msg 1, 10), (heartbeat_msg 5, 20)] fs0)) = 6"
    by (simp add: process_numbered h observe_inbound_def fs0_def u32_id Let_def split: prod.splits)
  have "gap_set (snd (inbound_run [(heartbeat_msg 1, 10), (heartbeat_msg 5, 20)] fs0)) = {expected_in_seq fs0..<6} - {1, 5}"
    using fix_session_gaps_exact [of "[(heartbeat_msg 1, 10), (heartbeat_msg 5, 20)]" fs0] unfolding e
    by (simp add: h) (simp add: fs0_def)
  also have "\<dots> = {2, 3, 4}" by (auto simp: fs0_def)
  finally show ?thesis .
qed


text \<open>
  C31. Execution reports end to end: a report the exchange builds for an order the client tracks is
  framed, parsed and applied: the tracker's record has the status, cumulative and leaves quantity of the
  report's arguments, a cancel clears the pending flag, and no other order changes.  The status is not \<open>'5'\<close>
  (Replaced), which renames the order.
\<close>

theorem fix_report_tracked:
  assumes "session_ok d s" "plain_report d a" "384 \<le> cap" "map_of (ft_orders t) (ra_id a) = Some r"
  shows "\<exists>msg. snd (build_exec_report cap (ra_id a) (ra_order a) (ra_exec a) (ra_type a) (ra_status a) (ra_symbol a) (ra_side a)
        (ra_last_qty a) (Fin (ra_last_px a)) (ra_cum a) (ra_leaves a) d s) = Some msg
    \<and> snd (on_exec_report (fix_parse msg) t) = map_status (ra_status a)
    \<and> map_of (ft_orders (fst (on_exec_report (fix_parse msg) t))) = (map_of (ft_orders t))(ra_id a \<mapsto>
        r\<lparr>fo_cum := ra_cum a, fo_leaves := ra_leaves a, fo_state := map_status (ra_status a),
          fo_pending_cancel := (if map_status (ra_status a) = OCANCELED then False else fo_pending_cancel r)\<rparr>)"
  unfolding build_exec_report_def
  using tracked_report.delivered [OF assms(1-3)] report_effect_frame [OF assms(4)] unfolding report_fields_def by metis

definition sample_report :: report_args where
  "sample_report = \<lparr>ra_id = bytes_of ''C1'', ra_order = bytes_of ''O1'', ra_exec = bytes_of ''E1'', ra_type = chr (CHR ''1''),
     ra_status = chr (CHR ''1''), ra_symbol = bytes_of ''AAPL'', ra_side = BUY, ra_last_qty = 40, ra_last_px = 3 / 2, ra_cum = 40, ra_leaves = 60\<rparr>"

theorem fix_report_tracked_witness:
  "\<exists>msg. snd (build_exec_report 400 (bytes_of ''C1'') (bytes_of ''O1'') (bytes_of ''E1'') (chr (CHR ''1'')) (chr (CHR ''1''))
        (bytes_of ''AAPL'') BUY 40 (Fin (3 / 2)) 40 60 SOH fs0) = Some msg
    \<and> ft_leaves_qty (bytes_of ''C1'') (fst (on_exec_report (fix_parse msg) (ft_on_new (bytes_of ''C1'') 100 ft0))) = 60"
proof -
  have ok: "plain_report SOH sample_report"
    by (simp add: plain_report_def report_ok_def sample_report_def ticker_def value_fits_def bytes_of_def chr_def SOH_def int32_def px_ok_def)
  have id: "ra_id sample_report = bytes_of ''C1''" by (simp add: sample_report_def)
  have r: "map_of (ft_orders (ft_on_new (bytes_of ''C1'') 100 ft0)) (ra_id sample_report) =
    Some \<lparr>fo_state = ONEW, fo_ordered = 100, fo_cum = 0, fo_leaves = 100, fo_pending_cancel = False\<rparr>"
    by (simp add: ft_on_new_def ft0_def id)
  show ?thesis
    using fix_report_tracked [OF fs0_ok ok _ r, of 400] by (auto simp: sample_report_def ft_leaves_qty_def)
qed

text \<open>
  The timer never drops a counterparty unasked, and drops a silent one.  A tick disconnects only when
  an earlier tick of the session asked for proof of life with a TestRequest and no numbered message has
  arrived since; and when the counterparty has been silent for more than two heartbeat intervals, two
  ticks are enough to disconnect it, whatever was sent to it in between.
\<close>

theorem fix_timer_asks_first:
  assumes "\<not> test_request_pending s"
  shows "(snd (session_run (es @ [Tick now]) s) = tr @ [(Tick now, DISCONNECT)] \<longrightarrow> test_requested tr)
    \<and> (fs_state s = LOGGED_IN \<and> 0 < heartbeat_int_sec s \<and> heartbeat_int_sec s < 2 ^ 31 \<and> 0 \<le> last_inbound_ms s
        \<and> last_inbound_ms s + 2 * (heartbeat_int_sec s * 1000) < t1 \<and> t1 \<le> t2 \<and> t2 < 2 ^ 62
      \<longrightarrow> map snd (snd (session_run [Tick t1, Sent t1, Tick t2] s)) = [SEND_TEST_REQUEST, ACT_NONE, DISCONNECT])"
proof (intro conjI impI)
  assume r: "snd (session_run (es @ [Tick now]) s) = tr @ [(Tick now, DISCONNECT)]"
  then have "snd (session_run es s) = tr" "snd (tick now (fst (session_run es s))) = DISCONNECT"
    by (simp_all add: session_run_snoc split: prod.splits)
  then show "test_requested tr" using pending_requested [OF assms, of es] tick_disconnect by blast
next
  assume h: "fs_state s = LOGGED_IN \<and> 0 < heartbeat_int_sec s \<and> heartbeat_int_sec s < 2 ^ 31 \<and> 0 \<le> last_inbound_ms s
    \<and> last_inbound_ms s + 2 * (heartbeat_int_sec s * 1000) < t1 \<and> t1 \<le> t2 \<and> t2 < 2 ^ 62"
  then have "s64 (heartbeat_int_sec s * 1000) = heartbeat_int_sec s * 1000" "s64 (2 * (heartbeat_int_sec s * 1000)) = 2 * (heartbeat_int_sec s * 1000)"
    "s64 (t1 - last_inbound_ms s) = t1 - last_inbound_ms s" "s64 (t2 - last_inbound_ms s) = t2 - last_inbound_ms s"
    by (simp_all add: s64_id)
  then show "map snd (snd (session_run [Tick t1, Sent t1, Tick t2] s)) = [SEND_TEST_REQUEST, ACT_NONE, DISCONNECT]"
    using h assms by (simp add: tick_def Let_def mark_outbound_def)
qed

theorem fix_timer_asks_first_witness:
  "map snd (snd (session_run [Tick 60001, Sent 60001, Tick 60002] (fs0\<lparr>fs_state := LOGGED_IN\<rparr>))) = [SEND_TEST_REQUEST, ACT_NONE, DISCONNECT]
   \<and> test_requested [(Tick 60001, SEND_TEST_REQUEST)]"
proof -
  let ?s = "fs0\<lparr>fs_state := LOGGED_IN\<rparr>"
  have n: "\<not> test_request_pending ?s" by (simp add: fs0_def)
  have "snd (session_run ([Tick 60001] @ [Tick 60002]) ?s) = [(Tick 60001, SEND_TEST_REQUEST)] @ [(Tick 60002, DISCONNECT)]"
    by (simp add: tick_def Let_def fs0_def s64_id)
  then have "test_requested [(Tick 60001, SEND_TEST_REQUEST)]"
    using fix_timer_asks_first [OF n, of "[Tick 60001]" 60002] by blast
  moreover have "map snd (snd (session_run [Tick 60001, Sent 60001, Tick 60002] ?s)) = [SEND_TEST_REQUEST, ACT_NONE, DISCONNECT]"
    using fix_timer_asks_first [OF n, of "[]" 0 "[]" 60001 60002] by (simp add: fs0_def)
  ultimately show ?thesis by simp
qed

end
