(* ===== verification/Pro_Nodes.thy ===== *)
theory Pro_Nodes
  imports Main
begin

text \<open>
  The intrusive lists of \<open>FullOrderBook\<close> in \<open>orderbook/orderbook_pro.hpp\<close>: head and tail of every price level
  and the two link fields of every order, with the pointer updates of \<open>enqueue_at_level\<close>, \<open>unlink_from_level\<close> and the
  matching loop.
\<close>

section \<open>The links and their updates\<close>

record links =
  next_at_level :: "nat \<Rightarrow> nat option"
  prev_at_level :: "nat \<Rightarrow> nat option"
  level_head :: "int \<Rightarrow> nat option"
  level_tail :: "int \<Rightarrow> nat option"

definition links_init :: links where
  "links_init = \<lparr>next_at_level = \<lambda>_. None, prev_at_level = \<lambda>_. None, level_head = \<lambda>_. None, level_tail = \<lambda>_. None\<rparr>"

definition set_next :: "nat \<Rightarrow> nat option \<Rightarrow> links \<Rightarrow> links" where
  "set_next x v s = s\<lparr>next_at_level := (next_at_level s)(x := v)\<rparr>"

definition set_prev :: "nat \<Rightarrow> nat option \<Rightarrow> links \<Rightarrow> links" where
  "set_prev x v s = s\<lparr>prev_at_level := (prev_at_level s)(x := v)\<rparr>"

definition set_head :: "int \<Rightarrow> nat option \<Rightarrow> links \<Rightarrow> links" where
  "set_head p v s = s\<lparr>level_head := (level_head s)(p := v)\<rparr>"

definition set_tail :: "int \<Rightarrow> nat option \<Rightarrow> links \<Rightarrow> links" where
  "set_tail p v s = s\<lparr>level_tail := (level_tail s)(p := v)\<rparr>"

definition link_enqueue :: "int \<Rightarrow> nat \<Rightarrow> links \<Rightarrow> links" where
  "link_enqueue p x s0 =
     (let s = set_prev x (level_tail s0 p) (set_next x None s0)
      in set_tail p (Some x) (case level_tail s p of Some t \<Rightarrow> set_next t (Some x) s | None \<Rightarrow> set_head p (Some x) s))"

text \<open>\<open>Order::reset\<close> clears the links of an order.\<close>

definition link_reset :: "nat \<Rightarrow> links \<Rightarrow> links" where
  "link_reset x s = set_prev x None (set_next x None s)"

text \<open>The two halves of taking an order out of its list.\<close>

definition bridge_next :: "int \<Rightarrow> nat \<Rightarrow> links \<Rightarrow> links" where
  "bridge_next p x s = (case prev_at_level s x of Some y \<Rightarrow> set_next y (next_at_level s x) s | None \<Rightarrow> set_head p (next_at_level s x) s)"

definition link_unlink :: "int \<Rightarrow> nat \<Rightarrow> links \<Rightarrow> links" where
  "link_unlink p x s0 =
     (let s = bridge_next p x s0
      in case next_at_level s x of Some y \<Rightarrow> set_prev y (prev_at_level s x) s | None \<Rightarrow> set_tail p (prev_at_level s x) s)"

text \<open>The refreshed iceberg goes to the tail, unless it is there.\<close>

definition link_to_tail :: "int \<Rightarrow> nat \<Rightarrow> links \<Rightarrow> links" where
  "link_to_tail p x s0 =
     (if level_tail s0 p = Some x then s0
      else let s1 = bridge_next p x s0;
               s2 = (case next_at_level s1 x of Some y \<Rightarrow> set_prev y (prev_at_level s1 x) s1 | None \<Rightarrow> s1);
               s3 = set_next x None (set_prev x (level_tail s2 p) s2)
           in case level_tail s3 p of Some t \<Rightarrow> set_tail p (Some x) (set_next t (Some x) s3) | None \<Rightarrow> s3)"

lemma set_simps [simp]:
  "next_at_level (set_next x v s) = (next_at_level s)(x := v)" "prev_at_level (set_next x v s) = prev_at_level s"
  "level_head (set_next x v s) = level_head s" "level_tail (set_next x v s) = level_tail s"
  "next_at_level (set_prev x v s) = next_at_level s" "prev_at_level (set_prev x v s) = (prev_at_level s)(x := v)"
  "level_head (set_prev x v s) = level_head s" "level_tail (set_prev x v s) = level_tail s"
  "next_at_level (set_head p v s) = next_at_level s" "prev_at_level (set_head p v s) = prev_at_level s"
  "level_head (set_head p v s) = (level_head s)(p := v)" "level_tail (set_head p v s) = level_tail s"
  "next_at_level (set_tail p v s) = next_at_level s" "prev_at_level (set_tail p v s) = prev_at_level s"
  "level_head (set_tail p v s) = level_head s" "level_tail (set_tail p v s) = (level_tail s)(p := v)"
  by (simp_all add: set_next_def set_prev_def set_head_def set_tail_def)

end
