(* ===== verification/Pro_Types.thy ===== *)
theory Pro_Types
  imports Common Binary64 Pro_Nodes
begin

text \<open>
  \<open>orderbook/orderbook_pro_types.hpp\<close> and the data members of \<open>FullOrderBook\<close> in
  \<open>orderbook/orderbook_pro.hpp\<close>.  An \<open>Order*\<close> is the index of a slot of the pool; \<open>lv_queue\<close> is the
  list of the slots of a price level in FIFO order, which the pointers in \<open>pc_links\<close> spell out.  The members are grouped in records by what
  they serve; the part that carries the book itself is \<open>pcore\<close>.
\<close>

section \<open>Enumerations\<close>

datatype OrderType = LIMIT | OT_IOC | OT_FOK | POST_ONLY | ICEBERG | STOP | PEG | MARKET | HIDDEN | AON

datatype TimeInForce = DAY | GTC | TIF_IOC | TIF_FOK | GTD | GTX

datatype SelfTradePrevention = STP_NONE | CANCEL_NEWEST | CANCEL_OLDEST | CANCEL_BOTH | DECREMENT_AND_CXL

datatype BookOrderStatus = S_NEW | S_OPEN | S_PARTIALLY_FILLED | S_FILLED | S_CANCELLED | S_REJECTED | S_EXPIRED | S_REPLACED

datatype EventType = E_ACCEPT | E_REJECT | E_FILL | E_CANCEL | E_EXPIRE | E_REPLACE | E_BOOK_UPDATE

datatype RejectReason = R_NONE | PRICE_OUT_OF_RANGE | QTY_ZERO_OR_NEGATIVE | POOL_EXHAUSTED | POST_ONLY_WOULD_CROSS
  | FOK_NOT_FILLABLE | SELF_TRADE_BLOCKED | DUPLICATE_ID | LOCKED_MARKET | CROSSED_MARKET | HALTED | MIN_QTY_NOT_MET
  | LULD_BAND_BREACH | SSR_RESTRICTED | REDUCE_ONLY_NO_POSITION | RATE_LIMITED | MARKET_CLOSED | MMP_TRIPPED

datatype SessionPhase = PRE_OPEN | CONTINUOUS | CLOSING | CLOSED

fun type_code :: "OrderType \<Rightarrow> nat" where
  "type_code LIMIT = 0" | "type_code OT_IOC = 1" | "type_code OT_FOK = 2" | "type_code POST_ONLY = 3" | "type_code ICEBERG = 4"
| "type_code STOP = 5" | "type_code PEG = 6" | "type_code MARKET = 7" | "type_code HIDDEN = 8" | "type_code AON = 9"

fun tif_code :: "TimeInForce \<Rightarrow> nat" where
  "tif_code DAY = 0" | "tif_code GTC = 1" | "tif_code TIF_IOC = 2" | "tif_code TIF_FOK = 3" | "tif_code GTD = 4" | "tif_code GTX = 5"

fun reason_code :: "RejectReason \<Rightarrow> nat" where
  "reason_code R_NONE = 0" | "reason_code PRICE_OUT_OF_RANGE = 1" | "reason_code QTY_ZERO_OR_NEGATIVE = 2"
| "reason_code POOL_EXHAUSTED = 3" | "reason_code POST_ONLY_WOULD_CROSS = 4" | "reason_code FOK_NOT_FILLABLE = 5"
| "reason_code SELF_TRADE_BLOCKED = 6" | "reason_code DUPLICATE_ID = 7" | "reason_code LOCKED_MARKET = 8"
| "reason_code CROSSED_MARKET = 9" | "reason_code HALTED = 10" | "reason_code MIN_QTY_NOT_MET = 11"
| "reason_code LULD_BAND_BREACH = 12" | "reason_code SSR_RESTRICTED = 13" | "reason_code REDUCE_ONLY_NO_POSITION = 14"
| "reason_code RATE_LIMITED = 15" | "reason_code MARKET_CLOSED = 16" | "reason_code MMP_TRIPPED = 17"

definition NO_BID_TICKS :: int where
  "NO_BID_TICKS = - 1"

definition NO_ASK_TICKS :: int where
  "NO_ASK_TICKS = 2 ^ 31 - 1"

section \<open>Orders, levels and the core of the book\<close>

record porder =
  po_id :: int
  po_client :: int
  po_price :: int
  po_total :: int
  po_filled :: int
  po_displayed :: int
  po_side :: Side
  po_type :: OrderType
  po_tif :: TimeInForce
  po_status :: BookOrderStatus
  po_submit_ts :: int
  po_expire_ts :: int
  po_stop_trigger :: int
  po_peg_offset :: int
  po_peg_cap :: int
  po_decision_mid :: int
  po_ice_size :: int
  po_first_fill_ts :: int

definition porder_reset :: porder where
  "porder_reset = \<lparr>po_id = 0, po_client = 0, po_price = 0, po_total = 0, po_filled = 0, po_displayed = 0, po_side = BUY,
     po_type = LIMIT, po_tif = DAY, po_status = S_NEW, po_submit_ts = 0, po_expire_ts = 0, po_stop_trigger = 0,
     po_peg_offset = 0, po_peg_cap = 0, po_decision_mid = - 1, po_ice_size = 0, po_first_fill_ts = 0\<rparr>"

definition remaining_qty :: "porder \<Rightarrow> int" where
  "remaining_qty x = po_total x - po_filled x"

definition is_active :: "porder \<Rightarrow> bool" where
  "is_active x \<longleftrightarrow> po_status x = S_OPEN \<or> po_status x = S_PARTIALLY_FILLED"

record plevel =
  lv_queue :: "nat list"
  lv_total :: int
  lv_hidden :: int
  lv_count :: int

definition plevel_clear :: plevel where
  "plevel_clear = \<lparr>lv_queue = [], lv_total = 0, lv_hidden = 0, lv_count = 0\<rparr>"

text \<open>
  \<open>pc_oob\<close> is set by the first access to \<open>levels_\<close> outside its bounds; what the program does from there
  on is undefined and the rest of the state says nothing about it.
\<close>

record pcore =
  pc_LEVELS :: int
  pc_MAX :: nat
  pc_pool :: "nat \<Rightarrow> porder"
  pc_free :: "nat list"
  pc_levels :: "int \<Rightarrow> plevel"
  pc_links :: links
  pc_index :: "(int, nat) hmap"
  pc_bid :: int
  pc_ask :: int
  pc_active :: int
  pc_high_water :: int
  pc_stops :: "nat list"
  pc_pegs :: "nat list"
  pc_oob :: bool

definition pcore_init :: "int \<Rightarrow> nat \<Rightarrow> pcore" where
  "pcore_init L N = \<lparr>pc_LEVELS = L, pc_MAX = N, pc_pool = (\<lambda>_. porder_reset), pc_free = [0..<N], pc_levels = (\<lambda>_. plevel_clear), pc_links = links_init,
     pc_index = [], pc_bid = NO_BID_TICKS, pc_ask = NO_ASK_TICKS, pc_active = 0, pc_high_water = 0, pc_stops = [], pc_pegs = [],
     pc_oob = False\<rparr>"

section \<open>Events and feeds\<close>

record bevent =
  ev_type :: EventType
  ev_order :: int
  ev_maker :: int
  ev_price :: int
  ev_qty :: int
  ev_status :: BookOrderStatus
  ev_reason :: RejectReason
  ev_ts :: int
  ev_seq :: int
  ev_client :: int

record delta_message =
  dm_type :: char
  dm_side :: char
  dm_price :: int
  dm_qty :: int
  dm_seq :: int

record audit_record =
  ar_ts :: int
  ar_seq :: int
  ar_order :: int
  ar_price :: int
  ar_qty :: int
  ar_event :: EventType
  ar_side :: Side
  ar_result :: BookOrderStatus

text \<open>A callback is what it has been given so far: the list of its events.\<close>

record pfeed =
  pf_cb :: bool
  pf_events :: "bevent list"
  pf_drop_cb :: bool
  pf_drop_client :: int
  pf_drop_count :: int
  pf_drop_log :: "bevent list"
  pf_next_seq :: int
  pf_last_seq :: int
  pf_delta_on :: bool
  pf_deltas :: "delta_message list"
  pf_delta_seq :: int
  pf_audit_on :: bool
  pf_audit :: "audit_record list"
  pf_audit_seq :: int

definition pfeed_init :: pfeed where
  "pfeed_init = \<lparr>pf_cb = False, pf_events = [], pf_drop_cb = False, pf_drop_client = 0, pf_drop_count = 0, pf_drop_log = [],
     pf_next_seq = 0, pf_last_seq = 0, pf_delta_on = False, pf_deltas = [], pf_delta_seq = 0, pf_audit_on = False, pf_audit = [],
     pf_audit_seq = 0\<rparr>"

record bstats =
  bs_added :: int
  bs_cancelled :: int
  bs_replaced :: int
  bs_rejected :: int
  bs_expired :: int
  bs_fills :: int
  bs_volume :: int
  bs_stp_blocks :: int
  bs_peak_pool :: int
  bs_stop_triggers :: int
  bs_peg_reprices :: int
  bs_mass_cancels :: int
  bs_auctions :: int
  bs_mass_quotes :: int
  bs_sweeps :: int
  bs_multi_sweeps :: int
  bs_levels_touched :: int
  bs_preserved_mods :: int
  bs_lost_mods :: int
  bs_eff_spread :: int
  bs_eff_samples :: int

definition bstats_init :: bstats where
  "bstats_init = \<lparr>bs_added = 0, bs_cancelled = 0, bs_replaced = 0, bs_rejected = 0, bs_expired = 0, bs_fills = 0, bs_volume = 0,
     bs_stp_blocks = 0, bs_peak_pool = 0, bs_stop_triggers = 0, bs_peg_reprices = 0, bs_mass_cancels = 0, bs_auctions = 0,
     bs_mass_quotes = 0, bs_sweeps = 0, bs_multi_sweeps = 0, bs_levels_touched = 0, bs_preserved_mods = 0, bs_lost_mods = 0,
     bs_eff_spread = 0, bs_eff_samples = 0\<rparr>"

definition inc64 :: "int \<Rightarrow> int" where
  "inc64 x = u64 (x + 1)"

end
