(* ===== verification/Pro_Trades.thy ===== *)
theory Pro_Trades
  imports Pro_Types
begin

text \<open>
  What \<open>record_trade\<close> of \<open>orderbook/orderbook_pro.hpp\<close> keeps of every execution: the tape (a ring of
  1024 trades), sizes, fees and best-execution sums, order flow, inter-trade gaps, the short-sale
  circuit breaker, Lee-Ready classification, Kyle and Roll accumulators, and the latency-arbitrage
  window.  One record and one function per group, applied in the order of the code.
\<close>

section \<open>Tape and trade sizes\<close>

record trade =
  tr_exec :: int
  tr_maker :: int
  tr_taker :: int
  tr_price :: int
  tr_qty :: int
  tr_side :: Side
  tr_ts :: int

definition TAPE_CAP :: nat where
  "TAPE_CAP = 1024"

record size_dist =
  sd_small :: int
  sd_medium :: int
  sd_large :: int
  sd_block :: int
  sd_small_vol :: int
  sd_medium_vol :: int
  sd_large_vol :: int
  sd_block_vol :: int

definition sd0 :: size_dist where
  "sd0 = \<lparr>sd_small = 0, sd_medium = 0, sd_large = 0, sd_block = 0, sd_small_vol = 0, sd_medium_vol = 0, sd_large_vol = 0, sd_block_vol = 0\<rparr>"

definition update_size_distribution :: "int \<Rightarrow> size_dist \<Rightarrow> size_dist" where
  "update_size_distribution q d =
     (if q \<le> 100 then d\<lparr>sd_small := inc64 (sd_small d), sd_small_vol := u64 (sd_small_vol d + q)\<rparr>
      else if q \<le> 1000 then d\<lparr>sd_medium := inc64 (sd_medium d), sd_medium_vol := u64 (sd_medium_vol d + q)\<rparr>
      else if q \<le> 10000 then d\<lparr>sd_large := inc64 (sd_large d), sd_large_vol := u64 (sd_large_vol d + q)\<rparr>
      else d\<lparr>sd_block := inc64 (sd_block d), sd_block_vol := u64 (sd_block_vol d + q)\<rparr>)"

record ptape =
  pt_tape :: "nat \<Rightarrow> trade"
  pt_head :: nat
  pt_count :: nat
  pt_next_exec :: int
  pt_last_trade :: int
  pt_sizes :: size_dist

definition no_trade :: trade where
  "no_trade = \<lparr>tr_exec = 0, tr_maker = 0, tr_taker = 0, tr_price = 0, tr_qty = 0, tr_side = BUY, tr_ts = 0\<rparr>"

definition ptape_init :: ptape where
  "ptape_init = \<lparr>pt_tape = (\<lambda>_. no_trade), pt_head = 0, pt_count = 0, pt_next_exec = 1, pt_last_trade = - 1, pt_sizes = sd0\<rparr>"

definition tape_trade :: "int \<Rightarrow> int \<Rightarrow> int \<Rightarrow> int \<Rightarrow> Side \<Rightarrow> int \<Rightarrow> ptape \<Rightarrow> ptape" where
  "tape_trade maker taker px q side tm t =
     t\<lparr>pt_tape := (pt_tape t)(pt_head t mod TAPE_CAP := \<lparr>tr_exec = pt_next_exec t, tr_maker = maker, tr_taker = taker,
          tr_price = px, tr_qty = q, tr_side = side, tr_ts = tm\<rparr>),
        pt_next_exec := inc64 (pt_next_exec t), pt_head := pt_head t + 1, pt_count := pt_count t + 1,
        pt_last_trade := px, pt_sizes := update_size_distribution q (pt_sizes t)\<rparr>"

definition tape_size :: "ptape \<Rightarrow> nat" where
  "tape_size t = min (pt_count t) TAPE_CAP"

text \<open>The \<open>i\<close>-th newest trade.\<close>

definition tape_back :: "ptape \<Rightarrow> nat \<Rightarrow> trade" where
  "tape_back t i = pt_tape t ((pt_head t + TAPE_CAP - 1 - i) mod TAPE_CAP)"

definition recent_trades :: "nat \<Rightarrow> ptape \<Rightarrow> trade list" where
  "recent_trades n t = map (tape_back t) [0..<min (tape_size t) n]"

definition tape_vwap_ticks :: "ptape \<Rightarrow> int" where
  "tape_vwap_ticks t =
     (if tape_size t = 0 then - 1
      else let tm = recent_trades (tape_size t) t;
               pq = fold (\<lambda>x a. s64 (a + tr_price x * tr_qty x)) tm 0; q = fold (\<lambda>x a. s64 (a + tr_qty x)) tm 0
           in if q > 0 then s32 (tdiv pq q) else - 1)"

definition tape_twap_ticks :: "ptape \<Rightarrow> int" where
  "tape_twap_ticks t =
     (if tape_size t = 0 then - 1
      else s32 (tdiv (fold (\<lambda>x a. s64 (a + tr_price x)) (recent_trades (tape_size t) t) 0) (int (tape_size t))))"

section \<open>Fees and best execution\<close>

record pfees =
  fe_taker_bps :: int
  fe_maker_bps :: int
  fe_taker :: int
  fe_maker :: int
  mi_on :: bool
  mi_execs :: int
  mi_volume :: int
  mi_notional :: int
  mi_eff_spread :: int
  mi_impact :: int

definition pfees_init :: pfees where
  "pfees_init = \<lparr>fe_taker_bps = 0, fe_maker_bps = 0, fe_taker = 0, fe_maker = 0, mi_on = False, mi_execs = 0, mi_volume = 0,
     mi_notional = 0, mi_eff_spread = 0, mi_impact = 0\<rparr>"

definition fees_trade :: "int \<Rightarrow> int \<Rightarrow> int \<Rightarrow> Side \<Rightarrow> pfees \<Rightarrow> pfees" where
  "fees_trade m px q side f0 =
     (let n = px * q;
          f = f0\<lparr>fe_taker := s64 (fe_taker f0 + s64 (n * fe_taker_bps f0)), fe_maker := s64 (fe_maker f0 + s64 (n * fe_maker_bps f0))\<rparr>
      in if \<not> mi_on f then f
         else let f1 = f\<lparr>mi_execs := inc64 (mi_execs f), mi_volume := u64 (mi_volume f + q), mi_notional := s64 (mi_notional f + n)\<rparr>
              in if m > 0
                 then f1\<lparr>mi_eff_spread := s64 (mi_eff_spread f1 + \<bar>px - m\<bar> * 2 * q),
                         mi_impact := s64 (mi_impact f1 + (if side = BUY then px - m else m - px) * q)\<rparr>
                 else f1)"

section \<open>Order flow\<close>

record pflow =
  fl_buy_vol :: int
  fl_sell_vol :: int
  fl_buy_count :: int
  fl_sell_count :: int
  mk_prev :: Side
  mk_has :: bool
  mk_BB :: int
  mk_BS :: int
  mk_SB :: int
  mk_SS :: int
  sv_ema :: dbl
  sv_init :: bool
  vw_buy_notional :: int
  vw_buy_vol :: int
  vw_sell_notional :: int
  vw_sell_vol :: int

definition pflow_init :: pflow where
  "pflow_init = \<lparr>fl_buy_vol = 0, fl_sell_vol = 0, fl_buy_count = 0, fl_sell_count = 0, mk_prev = BUY, mk_has = False, mk_BB = 0,
     mk_BS = 0, mk_SB = 0, mk_SS = 0, sv_ema = Fin 0, sv_init = False, vw_buy_notional = 0, vw_buy_vol = 0, vw_sell_notional = 0,
     vw_sell_vol = 0\<rparr>"

definition volume_trade :: "int \<Rightarrow> Side \<Rightarrow> pflow \<Rightarrow> pflow" where
  "volume_trade q side f =
     (if side = BUY then f\<lparr>fl_buy_vol := u64 (fl_buy_vol f + q), fl_buy_count := inc64 (fl_buy_count f)\<rparr>
      else f\<lparr>fl_sell_vol := u64 (fl_sell_vol f + q), fl_sell_count := inc64 (fl_sell_count f)\<rparr>)"

definition markov_trade :: "Side \<Rightarrow> pflow \<Rightarrow> pflow" where
  "markov_trade side f =
     (let f1 = (if \<not> mk_has f then f
                else if mk_prev f = BUY then (if side = BUY then f\<lparr>mk_BB := inc64 (mk_BB f)\<rparr> else f\<lparr>mk_BS := inc64 (mk_BS f)\<rparr>)
                else (if side = BUY then f\<lparr>mk_SB := inc64 (mk_SB f)\<rparr> else f\<lparr>mk_SS := inc64 (mk_SS f)\<rparr>))
      in f1\<lparr>mk_prev := side, mk_has := True\<rparr>)"

definition signed_volume :: "Side \<Rightarrow> int \<Rightarrow> dbl" where
  "signed_volume side q = dmul (Fin (if side = BUY then 1 else - 1)) (d_of_int q)"

definition ema_trade :: "int \<Rightarrow> Side \<Rightarrow> pflow \<Rightarrow> pflow" where
  "ema_trade q side f =
     (if \<not> sv_init f then f\<lparr>sv_ema := signed_volume side q, sv_init := True\<rparr>
      else f\<lparr>sv_ema := dadd (dmul (fin (1 / 10)) (signed_volume side q)) (dmul (fin (9 / 10)) (sv_ema f))\<rparr>)"

definition side_vwap_trade :: "int \<Rightarrow> int \<Rightarrow> Side \<Rightarrow> pflow \<Rightarrow> pflow" where
  "side_vwap_trade px q side f =
     (if side = BUY then f\<lparr>vw_buy_notional := s64 (vw_buy_notional f + px * q), vw_buy_vol := u64 (vw_buy_vol f + q)\<rparr>
      else f\<lparr>vw_sell_notional := s64 (vw_sell_notional f + px * q), vw_sell_vol := u64 (vw_sell_vol f + q)\<rparr>)"

definition flow_trade :: "int \<Rightarrow> int \<Rightarrow> Side \<Rightarrow> pflow \<Rightarrow> pflow" where
  "flow_trade px q side f = side_vwap_trade px q side (ema_trade q side (markov_trade side (volume_trade q side f)))"

section \<open>Inter-trade gaps and the short-sale circuit breaker\<close>

record pgap =
  ga_prev_ts :: int
  ga_min :: int
  ga_max :: int
  ga_sum :: int
  ga_count :: int
  ga_var_count :: int
  ga_mean :: dbl
  ga_M2 :: dbl
  ga_has :: bool
  ga_prev :: dbl
  ga_xy :: dbl
  ga_xx :: dbl
  ga_largest :: int
  ssr_active :: bool
  ssr_armed :: bool
  ssr_trigger :: int
  ssr_trips :: int

definition pgap_init :: pgap where
  "pgap_init = \<lparr>ga_prev_ts = 0, ga_min = 2 ^ 64 - 1, ga_max = 0, ga_sum = 0, ga_count = 0, ga_var_count = 0, ga_mean = Fin 0,
     ga_M2 = Fin 0, ga_has = False, ga_prev = Fin 0, ga_xy = Fin 0, ga_xx = Fin 0, ga_largest = 0, ssr_active = False,
     ssr_armed = False, ssr_trigger = 0, ssr_trips = 0\<rparr>"

definition gap_sample :: "int \<Rightarrow> pgap \<Rightarrow> pgap" where
  "gap_sample gap g =
     (let gd = d_of_int gap; n = inc64 (ga_var_count g); delta = dsub gd (ga_mean g);
          mean = dadd (ga_mean g) (ddiv delta (d_of_int n)); delta2 = dsub gd mean
      in g\<lparr>ga_min := min gap (ga_min g), ga_max := max gap (ga_max g), ga_sum := u64 (ga_sum g + gap), ga_count := inc64 (ga_count g),
           ga_var_count := n, ga_mean := mean, ga_M2 := dadd (ga_M2 g) (dmul delta delta2),
           ga_xy := (if ga_has g then dadd (ga_xy g) (dmul gd (ga_prev g)) else ga_xy g),
           ga_xx := (if ga_has g then dadd (ga_xx g) (dmul (ga_prev g) (ga_prev g)) else ga_xx g),
           ga_prev := gd, ga_has := True\<rparr>)"

definition gap_trade :: "int \<Rightarrow> int \<Rightarrow> int \<Rightarrow> pgap \<Rightarrow> pgap" where
  "gap_trade px q tm g0 =
     (let g1 = (if ga_prev_ts g0 \<noteq> 0 \<and> tm > ga_prev_ts g0 then gap_sample (tm - ga_prev_ts g0) g0 else g0);
          g2 = g1\<lparr>ga_prev_ts := tm, ga_largest := max q (ga_largest g1)\<rparr>
      in if ssr_armed g2 \<and> \<not> ssr_active g2 \<and> px \<le> ssr_trigger g2
         then g2\<lparr>ssr_active := True, ssr_trips := inc64 (ssr_trips g2)\<rparr> else g2)"

section \<open>Classification and price impact\<close>

record pimpact =
  lr_total :: int
  lr_correct :: int
  lr_buy :: int
  lr_sell :: int
  lr_unclass :: int
  ky_prev_px :: int
  ky_pv :: dbl
  ky_vsq :: dbl
  ky_pv_buy :: dbl
  ky_vsq_buy :: dbl
  ky_pv_sell :: dbl
  ky_vsq_sell :: dbl
  ch_hist :: "int list"
  ch_total :: int
  ro_xy :: dbl
  ro_x :: dbl
  ro_y :: dbl
  ro_pairs :: int
  ro_prev :: dbl
  ro_has :: bool

definition pimpact_init :: pimpact where
  "pimpact_init = \<lparr>lr_total = 0, lr_correct = 0, lr_buy = 0, lr_sell = 0, lr_unclass = 0, ky_prev_px = - 1, ky_pv = Fin 0,
     ky_vsq = Fin 0, ky_pv_buy = Fin 0, ky_vsq_buy = Fin 0, ky_pv_sell = Fin 0, ky_vsq_sell = Fin 0, ch_hist = replicate 9 0,
     ch_total = 0, ro_xy = Fin 0, ro_x = Fin 0, ro_y = Fin 0, ro_pairs = 0, ro_prev = Fin 0, ro_has = False\<rparr>"

text \<open>The quote rule against the mid, else the tick test against the previous price.\<close>

definition lee_ready_class :: "int \<Rightarrow> int \<Rightarrow> int \<Rightarrow> Side option" where
  "lee_ready_class m prev px =
     (if m > 0 \<and> px \<noteq> m then Some (if px > m then BUY else SELL)
      else if prev \<ge> 0 \<and> px \<noteq> prev then Some (if px > prev then BUY else SELL) else None)"

definition lee_ready_trade :: "int \<Rightarrow> int \<Rightarrow> Side \<Rightarrow> pimpact \<Rightarrow> pimpact" where
  "lee_ready_trade m px side p =
     (case lee_ready_class m (ky_prev_px p) px of None \<Rightarrow> p\<lparr>lr_unclass := inc64 (lr_unclass p)\<rparr>
      | Some c \<Rightarrow> p\<lparr>lr_total := inc64 (lr_total p),
                     lr_buy := (if c = BUY then inc64 (lr_buy p) else lr_buy p),
                     lr_sell := (if c = BUY then lr_sell p else inc64 (lr_sell p)),
                     lr_correct := (if c = side then inc64 (lr_correct p) else lr_correct p)\<rparr>)"

definition change_trade :: "int \<Rightarrow> pimpact \<Rightarrow> pimpact" where
  "change_trade px p =
     (if ky_prev_px p \<ge> 0
      then let i = nat (max (- 4) (min 4 (s32 (px - ky_prev_px p))) + 4)
           in p\<lparr>ch_hist := (ch_hist p)[i := inc64 (ch_hist p ! i)], ch_total := inc64 (ch_total p)\<rparr>
      else p)"

definition kyle_trade :: "int \<Rightarrow> int \<Rightarrow> Side \<Rightarrow> pimpact \<Rightarrow> pimpact" where
  "kyle_trade px q side p =
     (if ky_prev_px p \<ge> 0
      then let dp = d_of_int (px - ky_prev_px p); v = signed_volume side q; vsq = dmul v v;
               p1 = p\<lparr>ky_pv := dadd (ky_pv p) (dmul dp v), ky_vsq := dadd (ky_vsq p) vsq\<rparr>
           in if side = BUY then p1\<lparr>ky_pv_buy := dadd (ky_pv_buy p1) (dmul dp v), ky_vsq_buy := dadd (ky_vsq_buy p1) vsq\<rparr>
              else p1\<lparr>ky_pv_sell := dadd (ky_pv_sell p1) (dmul dp v), ky_vsq_sell := dadd (ky_vsq_sell p1) vsq\<rparr>
      else p)"

definition roll_trade :: "int \<Rightarrow> pimpact \<Rightarrow> pimpact" where
  "roll_trade px p =
     (if ky_prev_px p \<ge> 0
      then let dp = d_of_int (px - ky_prev_px p);
               p1 = (if ro_has p then p\<lparr>ro_xy := dadd (ro_xy p) (dmul dp (ro_prev p)), ro_x := dadd (ro_x p) dp,
                                        ro_y := dadd (ro_y p) (ro_prev p), ro_pairs := inc64 (ro_pairs p)\<rparr> else p)
           in p1\<lparr>ro_prev := dp, ro_has := True\<rparr>
      else p)"

definition impact_trade :: "int \<Rightarrow> int \<Rightarrow> int \<Rightarrow> Side \<Rightarrow> pimpact \<Rightarrow> pimpact" where
  "impact_trade m px q side p =
     (roll_trade px (kyle_trade px q side (change_trade px (lee_ready_trade m px side p))))\<lparr>ky_prev_px := px\<rparr>"

section \<open>Fill times and volume at price\<close>

record ptimes =
  la_window :: int
  la_last_ts :: int
  la_last_side :: Side
  la_fast :: int
  ft_last :: int
  ft_last_buy :: int
  ft_last_sell :: int
  vap :: "int \<Rightarrow> int"

definition ptimes_init :: ptimes where
  "ptimes_init = \<lparr>la_window = 0, la_last_ts = 0, la_last_side = BUY, la_fast = 0, ft_last = 0, ft_last_buy = 0, ft_last_sell = 0,
     vap = (\<lambda>_. 0)\<rparr>"

definition times_trade :: "int \<Rightarrow> int \<Rightarrow> int \<Rightarrow> Side \<Rightarrow> int \<Rightarrow> ptimes \<Rightarrow> ptimes" where
  "times_trade L px q side tm t =
     (let fast = la_window t > 0 \<and> ft_last t \<noteq> 0 \<and> tm > ft_last t \<and> tm - ft_last t \<le> la_window t \<and> side = la_last_side t
      in t\<lparr>la_fast := (if fast then inc64 (la_fast t) else la_fast t), la_last_side := side, la_last_ts := tm, ft_last := tm,
           ft_last_buy := (if side = BUY then tm else ft_last_buy t), ft_last_sell := (if side = BUY then ft_last_sell t else tm),
           vap := (if 0 \<le> px \<and> px < L then (vap t)(px := u64 (vap t px + q)) else vap t)\<rparr>)"

section \<open>The trade record\<close>

record ptrades =
  pt_ring :: ptape
  pt_fees :: pfees
  pt_flow :: pflow
  pt_gap :: pgap
  pt_impact :: pimpact
  pt_times :: ptimes

definition ptrades_init :: ptrades where
  "ptrades_init = \<lparr>pt_ring = ptape_init, pt_fees = pfees_init, pt_flow = pflow_init, pt_gap = pgap_init, pt_impact = pimpact_init,
     pt_times = ptimes_init\<rparr>"

text \<open>\<open>L\<close> is the number of levels, \<open>m\<close> the mid before the level is updated.\<close>

definition trade_meters :: "int \<Rightarrow> int \<Rightarrow> int \<Rightarrow> int \<Rightarrow> int \<Rightarrow> int \<Rightarrow> Side \<Rightarrow> int \<Rightarrow> ptrades \<Rightarrow> ptrades" where
  "trade_meters L m maker taker px q side tm t =
     \<lparr>pt_ring = tape_trade maker taker px q side tm (pt_ring t), pt_fees = fees_trade m px q side (pt_fees t),
      pt_flow = flow_trade px q side (pt_flow t), pt_gap = gap_trade px q tm (pt_gap t),
      pt_impact = impact_trade m px q side (pt_impact t), pt_times = times_trade L px q side tm (pt_times t)\<rparr>"

end
