(* ===== verification/Pro_Book.thy ===== *)
theory Pro_Book
  imports Pro_Trades
begin

text \<open>
  The order path of \<open>FullOrderBook\<close> in \<open>orderbook/orderbook_pro.hpp\<close>: pool, price levels, matching,
  self-trade prevention, submit, cancel and modify, with the accounting they drive.  A call reads the
  clock once (\<open>now\<close>).  Loops that need not end carry fuel; \<^const>\<open>None\<close> is a loop that has not ended.
\<close>

section \<open>Core: pool and price levels\<close>

definition pro_in_range :: "pcore \<Rightarrow> int \<Rightarrow> bool" where
  "pro_in_range c p \<longleftrightarrow> 0 \<le> p \<and> p < pc_LEVELS c"

definition alloc_order :: "pcore \<Rightarrow> (nat \<times> pcore) option" where
  "alloc_order c = (case pc_free c of [] \<Rightarrow> None
     | s # fs \<Rightarrow> let a = u64 (pc_active c + 1)
                in Some (s, c\<lparr>pc_free := fs, pc_pool := (pc_pool c)(s := porder_reset), pc_links := link_reset s (pc_links c), pc_active := a,
                              pc_high_water := (if a > pc_high_water c then a else pc_high_water c)\<rparr>))"

definition free_order :: "nat \<Rightarrow> pcore \<Rightarrow> pcore" where
  "free_order s c = c\<lparr>pc_free := s # pc_free c, pc_active := u64 (pc_active c - 1)\<rparr>"

definition upd_order :: "nat \<Rightarrow> (porder \<Rightarrow> porder) \<Rightarrow> pcore \<Rightarrow> pcore" where
  "upd_order s f c = c\<lparr>pc_pool := (pc_pool c)(s := f (pc_pool c s))\<rparr>"

definition upd_level :: "int \<Rightarrow> (plevel \<Rightarrow> plevel) \<Rightarrow> pcore \<Rightarrow> pcore" where
  "upd_level p f c = c\<lparr>pc_levels := (pc_levels c)(p := f (pc_levels c p)), pc_oob := (pc_oob c \<or> \<not> pro_in_range c p)\<rparr>"

definition upd_links :: "(links \<Rightarrow> links) \<Rightarrow> pcore \<Rightarrow> pcore" where
  "upd_links f c = c\<lparr>pc_links := f (pc_links c)\<rparr>"

text \<open>The part of an order that is neither filled nor shown.\<close>

definition hidden_part :: "porder \<Rightarrow> int" where
  "hidden_part x = po_total x - po_filled x - po_displayed x"

definition enqueue_at_level :: "nat \<Rightarrow> pcore \<Rightarrow> pcore" where
  "enqueue_at_level s c =
     (let x = pc_pool c s
      in upd_level (po_price x) (\<lambda>l. l\<lparr>lv_queue := lv_queue l @ [s], lv_total := s32 (lv_total l + po_displayed x),
            lv_hidden := s32 (lv_hidden l + hidden_part x), lv_count := s32 (lv_count l + 1)\<rparr>) (upd_links (link_enqueue (po_price x) s) c))"

definition unlink_from_level :: "nat \<Rightarrow> pcore \<Rightarrow> pcore" where
  "unlink_from_level s c =
     (let x = pc_pool c s
      in upd_level (po_price x) (\<lambda>l. l\<lparr>lv_queue := remove1 s (lv_queue l), lv_total := s32 (lv_total l - po_displayed x),
            lv_hidden := s32 (lv_hidden l - hidden_part x),
            lv_count := (if lv_count l > 0 then lv_count l - 1 else lv_count l)\<rparr>) (upd_links (link_unlink (po_price x) s) c))"

definition scan_levels :: "pcore \<Rightarrow> int list \<Rightarrow> int \<Rightarrow> int" where
  "scan_levels c ps none = (case find (\<lambda>p. lv_total (pc_levels c p) > 0) ps of Some p \<Rightarrow> p | None \<Rightarrow> none)"

definition refresh_best_bid_from :: "int \<Rightarrow> pcore \<Rightarrow> pcore" where
  "refresh_best_bid_from start c =
     c\<lparr>pc_bid := (if start < 0 \<or> start \<ge> pc_LEVELS c then NO_BID_TICKS else scan_levels c (rev [0..start]) NO_BID_TICKS)\<rparr>"

definition refresh_best_ask_from :: "int \<Rightarrow> pcore \<Rightarrow> pcore" where
  "refresh_best_ask_from start c =
     c\<lparr>pc_ask := (if start < 0 \<or> start \<ge> pc_LEVELS c then NO_ASK_TICKS
                  else scan_levels c [start..pc_LEVELS c - 1] NO_ASK_TICKS)\<rparr>"

definition has_bid :: "pcore \<Rightarrow> bool" where
  "has_bid c \<longleftrightarrow> pc_bid c \<noteq> NO_BID_TICKS"

definition has_ask :: "pcore \<Rightarrow> bool" where
  "has_ask c \<longleftrightarrow> pc_ask c \<noteq> NO_ASK_TICKS"

definition mid_ticks :: "pcore \<Rightarrow> int" where
  "mid_ticks c = (if has_bid c \<and> has_ask c then tdiv (s32 (pc_bid c + pc_ask c)) 2 else - 1)"

definition would_cross :: "Side \<Rightarrow> int \<Rightarrow> pcore \<Rightarrow> bool" where
  "would_cross side p c = (if side = BUY then has_ask c \<and> p \<ge> pc_ask c else has_bid c \<and> p \<le> pc_bid c)"

fun avail_reaches :: "pcore \<Rightarrow> int \<Rightarrow> int list \<Rightarrow> int \<Rightarrow> bool" where
  "avail_reaches c qty [] acc = (acc \<ge> qty)"
| "avail_reaches c qty (p # ps) acc =
     (let a = s32 (acc + lv_total (pc_levels c p)) in if a \<ge> qty then True else avail_reaches c qty ps a)"

text \<open>The prices a taker passes, best first.\<close>

definition taker_prices :: "Side \<Rightarrow> int \<Rightarrow> pcore \<Rightarrow> int list" where
  "taker_prices side price c = (if side = BUY then [pc_ask c..min price (pc_LEVELS c - 1)] else rev [max price 0..pc_bid c])"

definition fok_fillable :: "Side \<Rightarrow> int \<Rightarrow> int \<Rightarrow> pcore \<Rightarrow> bool" where
  "fok_fillable side price qty c = avail_reaches c qty (taker_prices side price c) 0"

section \<open>The rest of the state\<close>

record exposure =
  ex_open_buy :: int
  ex_open_sell :: int
  ex_net :: int
  ex_gross :: int
  ex_submitted :: int
  ex_cancelled :: int
  ex_fills :: int
  ex_aggressive :: int
  ex_passive :: int

definition exposure0 :: exposure where
  "exposure0 = \<lparr>ex_open_buy = 0, ex_open_sell = 0, ex_net = 0, ex_gross = 0, ex_submitted = 0, ex_cancelled = 0, ex_fills = 0,
     ex_aggressive = 0, ex_passive = 0\<rparr>"

text \<open>\<open>operator[]\<close> of a hash map: the value at the key, default when absent.\<close>

definition at_or :: "'v \<Rightarrow> ('k, 'v) hmap \<Rightarrow> 'k \<Rightarrow> 'v" where
  "at_or d m k = (case map_of m k of Some v \<Rightarrow> v | None \<Rightarrow> d)"

record paccounts =
  pa_exposure :: "(int, exposure) hmap"
  pa_vwap :: "(int, int \<times> int) hmap"
  pa_stuff_limit :: int
  pa_stuff_flag :: "(int, bool) hmap"
  pa_cancel_count :: "(int, int) hmap"
  pa_stuff_total :: int
  pa_rejections :: "(int, int) hmap"
  pa_firm :: "(int, int) hmap"
  pa_firm_blocks :: int

definition paccounts_init :: paccounts where
  "paccounts_init = \<lparr>pa_exposure = [], pa_vwap = [], pa_stuff_limit = 0, pa_stuff_flag = [], pa_cancel_count = [], pa_stuff_total = 0,
     pa_rejections = [], pa_firm = [], pa_firm_blocks = 0\<rparr>"

record bracket_spec =
  br_side :: Side
  br_tp :: int
  br_sl :: int
  br_qty :: int
  br_client :: int

record plinks =
  oco_partner :: "(int, int) hmap"
  oco_pending :: "int list"
  oco_triggered :: int
  br_specs :: "(int, bracket_spec) hmap"
  br_pending :: "bracket_spec list"
  br_armed :: int

definition plinks_init :: plinks where
  "plinks_init = \<lparr>oco_partner = [], oco_pending = [], oco_triggered = 0, br_specs = [], br_pending = [], br_armed = 0\<rparr>"

record mmp_config =
  mm_window :: int
  mm_max :: int
  mm_fills :: int
  mm_start :: int
  mm_tripped :: bool

record rate_bucket =
  rb_tokens :: dbl
  rb_capacity :: dbl
  rb_refill :: dbl
  rb_last_ns :: int

record pguard =
  mmp_conf :: "(int, mmp_config) hmap"
  mmp_pending :: "int list"
  mmp_trips :: int
  mmp_on :: bool
  rate_buckets :: "(int, rate_bucket) hmap"
  rate_on :: bool
  internal_submit :: bool
  rate_rejects :: int
  luld_on :: bool
  luld_low :: int
  luld_high :: int
  luld_auto_halt :: bool
  luld_to_auction :: bool
  luld_breaches :: int
  pg_halted :: bool
  halt_reason :: string
  reopen_pending :: bool
  auction_reopens :: int
  auction_mode :: bool
  session_phase :: SessionPhase

definition pguard_init :: pguard where
  "pguard_init = \<lparr>mmp_conf = [], mmp_pending = [], mmp_trips = 0, mmp_on = False, rate_buckets = [], rate_on = False,
     internal_submit = False, rate_rejects = 0, luld_on = False, luld_low = 0, luld_high = 0, luld_auto_halt = False,
     luld_to_auction = False, luld_breaches = 0, pg_halted = False, halt_reason = [], reopen_pending = False, auction_reopens = 0,
     auction_mode = False, session_phase = CONTINUOUS\<rparr>"

record pcount =
  bu_window :: int
  bu_last :: int
  bu_runs :: int
  bu_in_run :: int
  cp_filled :: int
  cp_cancel_partial :: int
  cp_cancel_unfilled :: int
  cp_expired_partial :: int
  cp_expired_unfilled :: int
  mf_buy :: int
  mf_sell :: int
  cn_buy :: int
  cn_sell :: int
  qd_sum :: int
  qd_count :: int
  qd_max :: int
  by_reason :: "int list"
  by_tif :: "int list"
  by_type :: "int list"

definition pcount_init :: pcount where
  "pcount_init = \<lparr>bu_window = 0, bu_last = 0, bu_runs = 0, bu_in_run = 0, cp_filled = 0, cp_cancel_partial = 0, cp_cancel_unfilled = 0,
     cp_expired_partial = 0, cp_expired_unfilled = 0, mf_buy = 0, mf_sell = 0, cn_buy = 0, cn_sell = 0, qd_sum = 0, qd_count = 0,
     qd_max = 0, by_reason = replicate 18 0, by_tif = replicate 6 0, by_type = replicate 10 0\<rparr>"

record pexec =
  ff_count :: int
  ff_sum :: int
  ff_max :: int
  ff_min :: int
  ag_count :: int
  ag_sum :: int
  ag_max :: int
  sg_limit :: int
  sg_violations :: int
  nbbo_violations :: int
  bd_limit :: int
  bd_within :: int
  bd_outside :: int
  ij_bps :: int
  ij_rng :: int
  ij_refreshes :: int
  is_cost :: int
  is_qty :: int

definition pexec_init :: pexec where
  "pexec_init = \<lparr>ff_count = 0, ff_sum = 0, ff_max = 0, ff_min = 2 ^ 64 - 1, ag_count = 0, ag_sum = 0, ag_max = 0, sg_limit = 0,
     sg_violations = 0, nbbo_violations = 0, bd_limit = 0, bd_within = 0, bd_outside = 0, ij_bps = 0,
     ij_rng = 0x9E3779B97F4A7C15, ij_refreshes = 0, is_cost = 0, is_qty = 0\<rparr>"

record pbook =
  pb_core :: pcore
  pb_feed :: pfeed
  pb_stats :: bstats
  pb_trades :: ptrades
  pb_acc :: paccounts
  pb_links :: plinks
  pb_guard :: pguard
  pb_count :: pcount
  pb_exec :: pexec
  pb_stp :: SelfTradePrevention
  pb_next_id :: int

definition FullOrderBook :: "int \<Rightarrow> nat \<Rightarrow> pbook" where
  "FullOrderBook L N = \<lparr>pb_core = pcore_init L N, pb_feed = pfeed_init, pb_stats = bstats_init, pb_trades = ptrades_init,
     pb_acc = paccounts_init, pb_links = plinks_init, pb_guard = pguard_init, pb_count = pcount_init, pb_exec = pexec_init,
     pb_stp = STP_NONE, pb_next_id = 1\<rparr>"

abbreviation on_core :: "(pcore \<Rightarrow> pcore) \<Rightarrow> pbook \<Rightarrow> pbook" where
  "on_core f b \<equiv> b\<lparr>pb_core := f (pb_core b)\<rparr>"

definition order_at :: "pbook \<Rightarrow> nat \<Rightarrow> porder" where
  "order_at b s = pc_pool (pb_core b) s"

definition level_at :: "pbook \<Rightarrow> int \<Rightarrow> plevel" where
  "level_at b p = pc_levels (pb_core b) p"

section \<open>Feeds\<close>

definition emit :: "int \<Rightarrow> EventType \<Rightarrow> int \<Rightarrow> int \<Rightarrow> int \<Rightarrow> int \<Rightarrow> BookOrderStatus \<Rightarrow> RejectReason \<Rightarrow> int \<Rightarrow> pbook \<Rightarrow> pbook" where
  "emit now ev oid mid px q st rr cid b =
     (let f0 = pb_feed b; n = inc64 (pf_next_seq f0); f = f0\<lparr>pf_next_seq := n, pf_last_seq := n\<rparr>;
          e = \<lparr>ev_type = ev, ev_order = oid, ev_maker = mid, ev_price = px, ev_qty = q, ev_status = st, ev_reason = rr, ev_ts = now,
               ev_seq = n, ev_client = cid\<rparr>;
          f1 = (if pf_cb f then f\<lparr>pf_events := pf_events f @ [e]\<rparr> else f);
          f2 = (if pf_drop_cb f1 \<and> cid \<noteq> 0 \<and> cid = pf_drop_client f1
                then f1\<lparr>pf_drop_count := inc64 (pf_drop_count f1), pf_drop_log := pf_drop_log f1 @ [e]\<rparr> else f1)
      in b\<lparr>pb_feed := f2\<rparr>)"

definition push_audit :: "int \<Rightarrow> EventType \<Rightarrow> int \<Rightarrow> Side \<Rightarrow> int \<Rightarrow> int \<Rightarrow> BookOrderStatus \<Rightarrow> pbook \<Rightarrow> pbook" where
  "push_audit now ev oid side px q st b =
     (let f = pb_feed b; n = inc64 (pf_audit_seq f)
      in if \<not> pf_audit_on f then b
         else b\<lparr>pb_feed := f\<lparr>pf_audit_seq := n, pf_audit := pf_audit f @ [\<lparr>ar_ts = now, ar_seq = n, ar_order = oid, ar_price = px,
                 ar_qty = q, ar_event = ev, ar_side = side, ar_result = st\<rparr>]\<rparr>\<rparr>)"

definition push_delta :: "char \<Rightarrow> char \<Rightarrow> int \<Rightarrow> int \<Rightarrow> pbook \<Rightarrow> pbook" where
  "push_delta ty side px q b =
     (let f = pb_feed b; n = inc64 (pf_delta_seq f)
      in if \<not> pf_delta_on f then b
         else b\<lparr>pb_feed := f\<lparr>pf_delta_seq := n,
                 pf_deltas := pf_deltas f @ [\<lparr>dm_type = ty, dm_side = side, dm_price = px, dm_qty = q, dm_seq = n\<rparr>]\<rparr>\<rparr>)"

definition side_char :: "Side \<Rightarrow> char" where
  "side_char side = (if side = BUY then CHR ''B'' else CHR ''S'')"

section \<open>Accounts\<close>

definition upd_exposure :: "int \<Rightarrow> (exposure \<Rightarrow> exposure) \<Rightarrow> pbook \<Rightarrow> pbook" where
  "upd_exposure cid f b = (if cid = 0 then b
     else b\<lparr>pb_acc := (pb_acc b)\<lparr>pa_exposure := AList.update cid (f (at_or exposure0 (pa_exposure (pb_acc b)) cid)) (pa_exposure (pb_acc b))\<rparr>\<rparr>)"

definition exposure_on_submit :: "int \<Rightarrow> Side \<Rightarrow> int \<Rightarrow> pbook \<Rightarrow> pbook" where
  "exposure_on_submit cid side q = upd_exposure cid (\<lambda>e. (if side = BUY then e\<lparr>ex_open_buy := s64 (ex_open_buy e + q)\<rparr>
     else e\<lparr>ex_open_sell := s64 (ex_open_sell e + q)\<rparr>)\<lparr>ex_submitted := inc64 (ex_submitted e)\<rparr>)"

definition stuffing_check :: "int \<Rightarrow> pbook \<Rightarrow> pbook" where
  "stuffing_check cid b =
     (let a = pb_acc b; n = u32 (at_or 0 (pa_cancel_count a) cid + 1); a1 = a\<lparr>pa_cancel_count := AList.update cid n (pa_cancel_count a)\<rparr>
      in if cid = 0 \<or> pa_stuff_limit a = 0 then b
         else if n > pa_stuff_limit a
         then (let fl = at_or False (pa_stuff_flag a1) cid; a2 = a1\<lparr>pa_stuff_flag := AList.update cid True (pa_stuff_flag a1)\<rparr>
               in b\<lparr>pb_acc := (if fl then a2 else a2\<lparr>pa_stuff_total := inc64 (pa_stuff_total a2)\<rparr>)\<rparr>)
         else b\<lparr>pb_acc := a1\<rparr>)"

definition exposure_on_cancel :: "int \<Rightarrow> Side \<Rightarrow> int \<Rightarrow> pbook \<Rightarrow> pbook" where
  "exposure_on_cancel cid side left b = stuffing_check cid (upd_exposure cid (\<lambda>e. (if side = BUY
     then e\<lparr>ex_open_buy := s64 (ex_open_buy e - left)\<rparr> else e\<lparr>ex_open_sell := s64 (ex_open_sell e - left)\<rparr>)
     \<lparr>ex_cancelled := inc64 (ex_cancelled e)\<rparr>) b)"

definition exposure_on_fill :: "int \<Rightarrow> Side \<Rightarrow> int \<Rightarrow> pbook \<Rightarrow> pbook" where
  "exposure_on_fill cid side q = upd_exposure cid (\<lambda>e. (if side = BUY
     then e\<lparr>ex_open_buy := s64 (ex_open_buy e - q), ex_net := s64 (ex_net e + q)\<rparr>
     else e\<lparr>ex_open_sell := s64 (ex_open_sell e - q), ex_net := s64 (ex_net e - q)\<rparr>)
     \<lparr>ex_gross := s64 (ex_gross e + q), ex_fills := inc64 (ex_fills e)\<rparr>)"

definition tag_aggressor_volume :: "int \<Rightarrow> int \<Rightarrow> pbook \<Rightarrow> pbook" where
  "tag_aggressor_volume cid q = upd_exposure cid (\<lambda>e. e\<lparr>ex_aggressive := u64 (ex_aggressive e + q)\<rparr>)"

definition tag_passive_volume :: "int \<Rightarrow> int \<Rightarrow> pbook \<Rightarrow> pbook" where
  "tag_passive_volume cid q = upd_exposure cid (\<lambda>e. e\<lparr>ex_passive := u64 (ex_passive e + q)\<rparr>)"

definition account_vwap_on_fill :: "int \<Rightarrow> int \<Rightarrow> int \<Rightarrow> pbook \<Rightarrow> pbook" where
  "account_vwap_on_fill cid px q b = (if cid = 0 then b
     else let a = pb_acc b; (n, v) = at_or (0, 0) (pa_vwap a) cid
          in b\<lparr>pb_acc := a\<lparr>pa_vwap := AList.update cid (s64 (n + px * q), s64 (v + q)) (pa_vwap a)\<rparr>\<rparr>)"

definition same_trading_entity :: "int \<Rightarrow> int \<Rightarrow> pbook \<Rightarrow> bool" where
  "same_trading_entity x y b = (if x = 0 \<or> y = 0 then False else if x = y then True
     else case (map_of (pa_firm (pb_acc b)) x, map_of (pa_firm (pb_acc b)) y) of (Some f, Some g) \<Rightarrow> f = g | _ \<Rightarrow> False)"

definition mmp_on_maker_fill :: "int \<Rightarrow> int \<Rightarrow> pbook \<Rightarrow> pbook" where
  "mmp_on_maker_fill now cid b =
     (let g = pb_guard b in if \<not> mmp_on g \<or> cid = 0 then b
      else case map_of (mmp_conf g) cid of None \<Rightarrow> b
      | Some m \<Rightarrow> if mm_tripped m then b
          else let m1 = (if u64 (now - mm_start m) > mm_window m then m\<lparr>mm_start := now, mm_fills := 0\<rparr> else m);
                   m2 = m1\<lparr>mm_fills := u32 (mm_fills m1 + 1)\<rparr>; trip = mm_fills m2 > mm_max m2;
                   m3 = (if trip then m2\<lparr>mm_tripped := True\<rparr> else m2)
               in b\<lparr>pb_guard := g\<lparr>mmp_conf := AList.update cid m3 (mmp_conf g),
                       mmp_pending := (if trip then mmp_pending g @ [cid] else mmp_pending g)\<rparr>\<rparr>)"

section \<open>Counters\<close>

definition tally_rejection :: "RejectReason \<Rightarrow> pbook \<Rightarrow> pbook" where
  "tally_rejection r b = (let c = pb_count b; i = reason_code r in b\<lparr>pb_count := c\<lparr>by_reason := (by_reason c)[i := inc64 (by_reason c ! i)]\<rparr>\<rparr>)"

definition tally_accept :: "OrderType \<Rightarrow> TimeInForce \<Rightarrow> pbook \<Rightarrow> pbook" where
  "tally_accept ty tif b = (let c = pb_count b; i = type_code ty; j = tif_code tif
     in b\<lparr>pb_count := c\<lparr>by_type := (by_type c)[i := inc64 (by_type c ! i)], by_tif := (by_tif c)[j := inc64 (by_tif c ! j)]\<rparr>\<rparr>)"

definition record_first_fill_latency :: "int \<Rightarrow> int \<Rightarrow> pbook \<Rightarrow> pbook" where
  "record_first_fill_latency sub fill b =
     (let e = pb_exec b; lat = fill - sub
      in if sub = 0 \<or> fill < sub then b
         else b\<lparr>pb_exec := e\<lparr>ff_count := inc64 (ff_count e), ff_sum := u64 (ff_sum e + lat), ff_max := max lat (ff_max e),
                 ff_min := min lat (ff_min e)\<rparr>\<rparr>)"

definition record_lifecycle_age :: "int \<Rightarrow> int \<Rightarrow> pbook \<Rightarrow> pbook" where
  "record_lifecycle_age now sub b =
     (let e = pb_exec b; age = now - sub
      in if sub = 0 \<or> now < sub then b
         else b\<lparr>pb_exec := e\<lparr>ag_count := inc64 (ag_count e), ag_sum := u64 (ag_sum e + age), ag_max := max age (ag_max e)\<rparr>\<rparr>)"

definition upd_stats :: "(bstats \<Rightarrow> bstats) \<Rightarrow> pbook \<Rightarrow> pbook" where
  "upd_stats f b = b\<lparr>pb_stats := f (pb_stats b)\<rparr>"

definition upd_count :: "(pcount \<Rightarrow> pcount) \<Rightarrow> pbook \<Rightarrow> pbook" where
  "upd_count f b = b\<lparr>pb_count := f (pb_count b)\<rparr>"

definition record_trade :: "int \<Rightarrow> int \<Rightarrow> int \<Rightarrow> int \<Rightarrow> Side \<Rightarrow> int \<Rightarrow> pbook \<Rightarrow> pbook" where
  "record_trade maker taker px q side tm b =
     upd_stats (\<lambda>s. s\<lparr>bs_fills := inc64 (bs_fills s), bs_volume := u64 (bs_volume s + q)\<rparr>)
       (b\<lparr>pb_trades := trade_meters (pc_LEVELS (pb_core b)) (mid_ticks (pb_core b)) maker taker px q side tm (pb_trades b)\<rparr>)"

section \<open>One-cancels-other and brackets: bookkeeping\<close>

definition oco_on_complete :: "int \<Rightarrow> pbook \<Rightarrow> pbook" where
  "oco_on_complete oid b =
     (let k = pb_links b in case map_of (oco_partner k) oid of None \<Rightarrow> b
      | Some p \<Rightarrow> b\<lparr>pb_links := k\<lparr>oco_partner := AList.delete p (AList.delete oid (oco_partner k)), oco_pending := oco_pending k @ [p]\<rparr>\<rparr>)"

definition bracket_on_full_fill :: "int \<Rightarrow> pbook \<Rightarrow> pbook" where
  "bracket_on_full_fill oid b =
     (let k = pb_links b in case map_of (br_specs k) oid of None \<Rightarrow> b
      | Some s \<Rightarrow> b\<lparr>pb_links := k\<lparr>br_pending := br_pending k @ [s], br_specs := AList.delete oid (br_specs k)\<rparr>\<rparr>)"

definition erase_bracket :: "int \<Rightarrow> pbook \<Rightarrow> pbook" where
  "erase_bracket oid b = b\<lparr>pb_links := (pb_links b)\<lparr>br_specs := AList.delete oid (br_specs (pb_links b))\<rparr>\<rparr>"

definition erase_index :: "int \<Rightarrow> pcore \<Rightarrow> pcore" where
  "erase_index oid c = c\<lparr>pc_index := AList.delete oid (pc_index c)\<rparr>"

definition put_index :: "nat \<Rightarrow> pcore \<Rightarrow> pcore" where
  "put_index s c = c\<lparr>pc_index := AList.update (po_id (pc_pool c s)) s (pc_index c)\<rparr>"

section \<open>Cancelling\<close>

text \<open>Taking an order out of its level refreshes the best price when the level was the best and is now empty.\<close>

definition leave_level :: "nat \<Rightarrow> pcore \<Rightarrow> pcore" where
  "leave_level s c0 =
     (let x = pc_pool c0 s; p = po_price x; c = unlink_from_level s c0
      in if lv_queue (pc_levels c p) \<noteq> [] then c
         else if po_side x = BUY then (if p = pc_bid c then refresh_best_bid_from (p - 1) c else c)
         else (if p = pc_ask c then refresh_best_ask_from (p + 1) c else c))"

definition set_status :: "BookOrderStatus \<Rightarrow> nat \<Rightarrow> pcore \<Rightarrow> pcore" where
  "set_status st s = upd_order s (\<lambda>x. x\<lparr>po_status := st\<rparr>)"

definition count_cancelled :: "porder \<Rightarrow> pbook \<Rightarrow> pbook" where
  "count_cancelled x = upd_count (\<lambda>c. (if po_filled x = 0 then c\<lparr>cp_cancel_unfilled := inc64 (cp_cancel_unfilled c)\<rparr>
     else c\<lparr>cp_cancel_partial := inc64 (cp_cancel_partial c)\<rparr>))"

definition cancel_internal :: "int \<Rightarrow> nat \<Rightarrow> bool \<Rightarrow> pbook \<Rightarrow> pbook" where
  "cancel_internal now s ev b =
     (let x = order_at b s in if \<not> is_active x then b
      else let left = remaining_qty x;
               b1 = on_core (\<lambda>c. erase_index (po_id x) (set_status S_CANCELLED s (leave_level s c))) b;
               b2 = (if ev then emit now E_CANCEL (po_id x) 0 (po_price x) left S_CANCELLED R_NONE (po_client x) b1 else b1);
               b3 = push_audit now E_CANCEL (po_id x) (po_side x) (po_price x) left S_CANCELLED b2;
               b4 = record_lifecycle_age now (po_submit_ts x) (exposure_on_cancel (po_client x) (po_side x) left b3);
               b5 = upd_count (\<lambda>c. if po_side x = BUY then c\<lparr>cn_buy := inc64 (cn_buy c)\<rparr> else c\<lparr>cn_sell := inc64 (cn_sell c)\<rparr>) (count_cancelled x b4);
               b6 = on_core (free_order s) (erase_bracket (po_id x) (oco_on_complete (po_id x) b5));
               b7 = upd_stats (\<lambda>t. t\<lparr>bs_cancelled := inc64 (bs_cancelled t)\<rparr>) b6;
               l = level_at b7 (po_price x)
           in push_delta (if lv_queue l = [] then CHR ''D'' else CHR ''M'') (side_char (po_side x)) (po_price x) (lv_total l) b7)"

text \<open>\<open>swap-erase\<close>: the last element takes the place of the first occurrence.\<close>

definition swap_erase :: "'a \<Rightarrow> 'a list \<Rightarrow> 'a list" where
  "swap_erase x xs = (let i = length (takeWhile (\<lambda>y. y \<noteq> x) xs) in butlast (xs[i := List.last xs]))"

definition cancel_pending_stop :: "int \<Rightarrow> nat \<Rightarrow> pbook \<Rightarrow> pbook \<times> bool" where
  "cancel_pending_stop now s b =
     (if s \<notin> set (pc_stops (pb_core b)) then (b, False)
      else let x = order_at b s;
               b1 = on_core (\<lambda>c. set_status S_CANCELLED s (c\<lparr>pc_stops := swap_erase s (pc_stops c)\<rparr>)) b;
               b2 = emit now E_CANCEL (po_id x) 0 (po_price x) (remaining_qty x) S_CANCELLED R_NONE (po_client x) b1;
               b3 = erase_bracket (po_id x) (oco_on_complete (po_id x) (on_core (erase_index (po_id x)) b2))
           in (upd_stats (\<lambda>t. t\<lparr>bs_cancelled := inc64 (bs_cancelled t)\<rparr>) (on_core (free_order s) b3), True))"

definition pending_stop :: "porder \<Rightarrow> bool" where
  "pending_stop x \<longleftrightarrow> po_type x = STOP \<and> po_status x = S_NEW"

definition cancel_slot :: "int \<Rightarrow> nat \<Rightarrow> pbook \<Rightarrow> pbook" where
  "cancel_slot now s b = (if pending_stop (order_at b s) then fst (cancel_pending_stop now s b) else cancel_internal now s True b)"

definition pop_oco :: "pbook \<Rightarrow> pbook" where
  "pop_oco b = b\<lparr>pb_links := (pb_links b)\<lparr>oco_pending := butlast (oco_pending (pb_links b))\<rparr>\<rparr>"

fun oco_loop :: "nat \<Rightarrow> int \<Rightarrow> pbook \<Rightarrow> pbook" where
  "oco_loop 0 now b = b"
| "oco_loop (Suc n) now b =
     (if oco_pending (pb_links b) = [] then b
      else let pid = List.last (oco_pending (pb_links b)); b1 = pop_oco b
           in case map_of (pc_index (pb_core b1)) pid of None \<Rightarrow> oco_loop n now b1
              | Some s \<Rightarrow> oco_loop n now (cancel_slot now s
                   (b1\<lparr>pb_links := (pb_links b1)\<lparr>oco_triggered := inc64 (oco_triggered (pb_links b1))\<rparr>\<rparr>)))"

text \<open>Every pass takes one entry and a cancel adds one only while it removes a pair: the fuel is enough.\<close>

definition process_oco_pending :: "int \<Rightarrow> pbook \<Rightarrow> pbook" where
  "process_oco_pending now b = oco_loop (length (oco_pending (pb_links b)) + length (oco_partner (pb_links b))) now b"

text \<open>The iteration order of the hash map is that of the association list.\<close>

definition mass_cancel :: "int \<Rightarrow> int \<Rightarrow> pbook \<Rightarrow> pbook \<times> nat" where
  "mass_cancel now cid b =
     (let mine = filter (\<lambda>s. po_client (order_at b s) = cid) (map snd (pc_index (pb_core b)));
          act = filter (\<lambda>s. is_active (order_at b s)) mine;
          stp = filter (\<lambda>s. \<not> is_active (order_at b s) \<and> pending_stop (order_at b s)) mine;
          b1 = fold (\<lambda>s. cancel_internal now s True) act b;
          (b2, n) = fold (\<lambda>s (x, k). let (y, ok) = cancel_pending_stop now s x in (y, if ok then k + 1 else k)) stp (b1, length act);
          b3 = upd_stats (\<lambda>t. t\<lparr>bs_mass_cancels := u64 (bs_mass_cancels t + int n)\<rparr>) b2
      in (process_oco_pending now b3, n))"

fun mmp_loop :: "nat \<Rightarrow> int \<Rightarrow> pbook \<Rightarrow> pbook" where
  "mmp_loop 0 now b = b"
| "mmp_loop (Suc n) now b =
     (let g = pb_guard b in if mmp_pending g = [] then b
      else mmp_loop n now (fst (mass_cancel now (List.last (mmp_pending g))
             (b\<lparr>pb_guard := g\<lparr>mmp_pending := butlast (mmp_pending g), mmp_trips := inc64 (mmp_trips g)\<rparr>\<rparr>))))"

definition process_mmp_pending :: "int \<Rightarrow> pbook \<Rightarrow> pbook" where
  "process_mmp_pending now b = mmp_loop (length (mmp_pending (pb_guard b))) now b"

end
