(* ===== verification/Pro_Match.thy ===== *)
theory Pro_Match
  imports Pro_Book
begin

text \<open>
  Matching and the three calls of the order path of \<open>FullOrderBook\<close>: \<open>submit\<close>, \<open>cancel\<close> and \<open>modify\<close>,
  with stop orders, brackets and trading guards.
\<close>

section \<open>Matching at one level\<close>

text \<open>\<open>next_at_level\<close> of an order in the queue of its level.\<close>

definition next_at :: "nat list \<Rightarrow> nat \<Rightarrow> nat option" where
  "next_at xs m = (case dropWhile (\<lambda>y. y \<noteq> m) xs of _ # n # _ \<Rightarrow> Some n | _ \<Rightarrow> None)"

definition head_at :: "nat list \<Rightarrow> nat option" where
  "head_at xs = (case xs of [] \<Rightarrow> None | x # _ \<Rightarrow> Some x)"

definition note_first_fill :: "int \<Rightarrow> nat \<Rightarrow> pbook \<Rightarrow> pbook" where
  "note_first_fill tm s b =
     (let x = order_at b s in if po_first_fill_ts x \<noteq> 0 then b
      else record_first_fill_latency (po_submit_ts x) tm (on_core (upd_order s (\<lambda>x. x\<lparr>po_first_fill_ts := tm\<rparr>)) b))"

definition shortfall :: "porder \<Rightarrow> int \<Rightarrow> int \<Rightarrow> pbook \<Rightarrow> pbook" where
  "shortfall y px q b =
     (let e = pb_exec b; cost = (if po_side y = BUY then px - po_decision_mid y else po_decision_mid y - px)
      in if po_decision_mid y > 0 then b\<lparr>pb_exec := e\<lparr>is_cost := s64 (is_cost e + s64 (cost * q)), is_qty := u64 (is_qty e + q)\<rparr>\<rparr> else b)"

definition fill_accounts :: "int \<Rightarrow> porder \<Rightarrow> porder \<Rightarrow> int \<Rightarrow> pbook \<Rightarrow> pbook" where
  "fill_accounts tm x y q b =
     tag_passive_volume (po_client x) q (tag_aggressor_volume (po_client y) q (shortfall y (po_price x) q
       (mmp_on_maker_fill tm (po_client x) (account_vwap_on_fill (po_client y) (po_price x) q (account_vwap_on_fill (po_client x) (po_price x) q
         (exposure_on_fill (po_client y) (po_side y) q (exposure_on_fill (po_client x) (po_side x) q b)))))))"

text \<open>The execution itself: quantities of maker \<open>m\<close>, taker \<open>tk\<close> and the level, accounts, tape and event.\<close>

definition execute :: "int \<Rightarrow> int \<Rightarrow> nat \<Rightarrow> nat \<Rightarrow> int \<Rightarrow> pbook \<Rightarrow> pbook" where
  "execute tm p tk m q b =
     (let b1 = on_core (\<lambda>c. upd_order tk (\<lambda>y. y\<lparr>po_filled := po_filled y + q\<rparr>) (upd_order m (\<lambda>x. x\<lparr>po_filled := po_filled x + q\<rparr>) c)) b;
          b2 = note_first_fill tm tk (note_first_fill tm m b1); x = order_at b2 m; y = order_at b2 tk;
          b3 = record_trade (po_id x) (po_id y) (po_price x) q (po_side y) tm (fill_accounts tm x y q b2);
          b4 = emit tm E_FILL (po_id y) (po_id x) (po_price x) q (if remaining_qty y = 0 then S_FILLED else S_PARTIALLY_FILLED) R_NONE (po_client y) b3
      in on_core (\<lambda>c. upd_order m (\<lambda>x. x\<lparr>po_displayed := po_displayed x - q\<rparr>) (upd_level p (\<lambda>l. l\<lparr>lv_total := s32 (lv_total l - q)\<rparr>) c)) b4)"

text \<open>The size an iceberg shows next, with the jitter of the linear congruential generator.\<close>

definition ice_jitter :: "int \<Rightarrow> pexec \<Rightarrow> int \<times> pexec" where
  "ice_jitter shown e =
     (if ij_bps e \<le> 0 then (shown, e)
      else let r = u64 (ij_rng e * 6364136223846793005 + 1442695040888963407); span = s32 (tdiv (shown * ij_bps e) 10000);
               e1 = e\<lparr>ij_rng := r\<rparr>
           in if span > 0 then (max 1 (s32 (shown + (s32 ((r div 2 ^ 33) mod u64 (s32 (2 * span + 1))) - span))), e1) else (shown, e1))"

definition to_tail :: "nat \<Rightarrow> nat list \<Rightarrow> nat list" where
  "to_tail m xs = (if xs \<noteq> [] \<and> List.last xs = m then xs else remove1 m xs @ [m])"

definition refresh_iceberg :: "int \<Rightarrow> nat \<Rightarrow> pbook \<Rightarrow> pbook" where
  "refresh_iceberg p m b =
     (let x = order_at b m; (shown, e) = ice_jitter (if po_ice_size x > 0 then po_ice_size x else 100) (pb_exec b);
          d = min (remaining_qty x) shown
      in (on_core (\<lambda>c. upd_level p (\<lambda>l. l\<lparr>lv_total := s32 (lv_total l + d), lv_hidden := s32 (lv_hidden l - d), lv_queue := to_tail m (lv_queue l)\<rparr>)
                         (upd_links (link_to_tail p m) (upd_order m (\<lambda>x. x\<lparr>po_displayed := d\<rparr>) c))) b)\<lparr>pb_exec := e\<lparr>ij_refreshes := inc64 (ij_refreshes e)\<rparr>\<rparr>)"

definition finish_maker :: "int \<Rightarrow> int \<Rightarrow> nat \<Rightarrow> nat \<Rightarrow> int \<Rightarrow> pbook \<Rightarrow> pbook" where
  "finish_maker tm p tk m q b =
     (let b1 = on_core (set_status S_FILLED m) b; x = order_at b1 m;
          b2 = emit tm E_FILL (po_id x) (po_id (order_at b1 tk)) (po_price x) q S_FILLED R_NONE (po_client x) b1;
          b3 = on_core (\<lambda>c. erase_index (po_id x) (upd_level p (\<lambda>l. l\<lparr>lv_queue := remove1 m (lv_queue l),
                     lv_count := (if lv_count l > 0 then lv_count l - 1 else lv_count l)\<rparr>) (upd_links (link_unlink p m) c))) b2;
          b4 = upd_count (\<lambda>c. (if po_side x = BUY then c\<lparr>mf_buy := inc64 (mf_buy c)\<rparr> else c\<lparr>mf_sell := inc64 (mf_sell c)\<rparr>)
                     \<lparr>cp_filled := inc64 (cp_filled c)\<rparr>) (record_lifecycle_age tm (po_submit_ts x) b3)
      in on_core (free_order m) (bracket_on_full_fill (po_id x) (oco_on_complete (po_id x) b4)))"

definition count_stp :: "nat \<Rightarrow> nat \<Rightarrow> pbook \<Rightarrow> pbook" where
  "count_stp tk m b =
     (let b1 = upd_stats (\<lambda>s. s\<lparr>bs_stp_blocks := inc64 (bs_stp_blocks s)\<rparr>) b
      in if po_client (order_at b m) \<noteq> po_client (order_at b tk)
         then b1\<lparr>pb_acc := (pb_acc b1)\<lparr>pa_firm_blocks := inc64 (pa_firm_blocks (pb_acc b1))\<rparr>\<rparr> else b1)"

text \<open>After an execution: the maker is refreshed, finished or left; the result is the next maker.\<close>

definition settle_maker :: "int \<Rightarrow> int \<Rightarrow> nat \<Rightarrow> nat \<Rightarrow> int \<Rightarrow> pbook \<Rightarrow> pbook \<times> nat option" where
  "settle_maker tm p tk m q b =
     (let x = order_at b m; nx = next_at (lv_queue (level_at b p)) m
      in if po_displayed x = 0 \<and> remaining_qty x > 0 \<and> po_type x = ICEBERG then (refresh_iceberg p m b, nx)
         else if po_filled x \<ge> po_total x then (finish_maker tm p tk m q b, nx)
         else (on_core (set_status S_PARTIALLY_FILLED m) b, nx))"

text \<open>One pass of the loop over maker \<open>m\<close>: the loop is left, or goes on with the next maker.\<close>

definition level_step :: "int \<Rightarrow> int \<Rightarrow> nat \<Rightarrow> nat \<Rightarrow> int \<Rightarrow> pbook \<Rightarrow> pbook \<times> int + pbook \<times> nat option \<times> int" where
  "level_step tm p tk m q b =
     (let own = pb_stp b \<noteq> STP_NONE \<and> same_trading_entity (po_client (order_at b m)) (po_client (order_at b tk)) b;
          b0 = (if own then count_stp tk m b else b); e = min q (po_displayed (order_at b0 m));
          (b1, nx) = settle_maker tm p tk m e (execute tm p tk m e b0)
      in if own \<and> pb_stp b = CANCEL_NEWEST then Inl (b0, 0)
         else if own \<and> pb_stp b = CANCEL_OLDEST then Inr (cancel_internal tm m True b0, next_at (lv_queue (level_at b0 p)) m, q)
         else if own \<and> pb_stp b = CANCEL_BOTH then Inl (cancel_internal tm m True b0, 0)
         else Inr (b1, nx, q - e))"

fun match_at_level :: "nat \<Rightarrow> int \<Rightarrow> int \<Rightarrow> nat \<Rightarrow> nat option \<Rightarrow> int \<Rightarrow> pbook \<Rightarrow> (pbook \<times> int) option" where
  "match_at_level 0 tm p tk mo q b = None"
| "match_at_level (Suc n) tm p tk None q b = Some (b, q)"
| "match_at_level (Suc n) tm p tk (Some m) q b =
     (if q \<le> 0 then Some (b, q)
      else case level_step tm p tk m q b of Inl r \<Rightarrow> Some r | Inr (b1, nx, q1) \<Rightarrow> match_at_level n tm p tk nx q1 b1)"

section \<open>Sweeping the opposite side\<close>

definition best_against :: "Side \<Rightarrow> pcore \<Rightarrow> int" where
  "best_against side c = (if side = BUY then pc_ask c else pc_bid c)"

definition past_empty_level :: "Side \<Rightarrow> int \<Rightarrow> pcore \<Rightarrow> pcore" where
  "past_empty_level side p c =
     (if lv_queue (pc_levels c p) \<noteq> [] then c
      else if side = BUY then refresh_best_ask_from (s32 (pc_ask c + 1)) c else refresh_best_bid_from (pc_bid c - 1) c)"

fun sweep :: "nat \<Rightarrow> int \<Rightarrow> nat \<Rightarrow> int \<Rightarrow> int \<Rightarrow> pbook \<Rightarrow> (pbook \<times> int \<times> int) option" where
  "sweep 0 tm tk q lc b = None"
| "sweep (Suc n) tm tk q lc b =
     (let y = order_at b tk; p = best_against (po_side y) (pb_core b)
      in if q > 0 \<and> would_cross (po_side y) (po_price y) (pb_core b)
         then (case match_at_level n tm p tk (head_at (lv_queue (level_at b p))) q b of None \<Rightarrow> None
               | Some (b1, q1) \<Rightarrow> sweep n tm tk q1 (if q1 < q then lc + 1 else lc) (on_core (past_empty_level (po_side y) p) b1))
         else Some (b, q, lc))"

definition sweep_stats :: "porder \<Rightarrow> int \<Rightarrow> int \<Rightarrow> pbook \<Rightarrow> pbook" where
  "sweep_stats y mid lc b =
     (let b1 = upd_stats (\<lambda>s. s\<lparr>bs_sweeps := inc64 (bs_sweeps s), bs_levels_touched := u64 (bs_levels_touched s + lc),
                  bs_multi_sweeps := (if lc \<ge> 2 then inc64 (bs_multi_sweeps s) else bs_multi_sweeps s)\<rparr>) b;
          d = \<bar>s32 (po_price y - mid)\<bar>; e = pb_exec b1;
          e1 = (if mid < 0 then e
                else e\<lparr>bd_within := (if bd_limit e > 0 \<and> d \<le> bd_limit e then inc64 (bd_within e) else bd_within e),
                       bd_outside := (if bd_limit e > 0 \<and> d > bd_limit e then inc64 (bd_outside e) else bd_outside e),
                       sg_violations := (if sg_limit e > 0 \<and> d > sg_limit e then inc64 (sg_violations e) else sg_violations e)\<rparr>);
          e2 = (if po_price y > 0 \<and> mid > 0 \<and> (if po_side y = BUY then po_price y > mid + 1000 else po_price y < mid - 1000)
                then e1\<lparr>nbbo_violations := inc64 (nbbo_violations e1)\<rparr> else e1);
          b2 = (if mid < 0 then b1
                else upd_stats (\<lambda>s. s\<lparr>bs_eff_spread := u64 (bs_eff_spread s + u64 (s32 (2 * d))), bs_eff_samples := inc64 (bs_eff_samples s)\<rparr>) b1)
      in b2\<lparr>pb_exec := e2\<rparr>)"

definition match_against :: "nat \<Rightarrow> int \<Rightarrow> nat \<Rightarrow> pbook \<Rightarrow> pbook option" where
  "match_against n tm tk b =
     (let q = remaining_qty (order_at b tk); mid = mid_ticks (pb_core b)
      in case sweep n tm tk q 0 b of None \<Rightarrow> None
         | Some (b1, q1, lc) \<Rightarrow> Some (if q1 < q then sweep_stats (order_at b1 tk) mid lc b1 else b1))"

section \<open>Admission\<close>

record submit_args =
  sa_side :: Side
  sa_price :: int
  sa_qty :: int
  sa_type :: OrderType
  sa_tif :: TimeInForce
  sa_id :: int
  sa_client :: int
  sa_display :: int
  sa_min :: int

definition reject :: "int \<Rightarrow> submit_args \<Rightarrow> RejectReason \<Rightarrow> pbook \<Rightarrow> pbook" where
  "reject now a r b =
     (let b1 = tally_rejection r (upd_stats (\<lambda>s. s\<lparr>bs_rejected := inc64 (bs_rejected s)\<rparr>) b); k = pb_acc b1;
          b2 = (if sa_client a = 0 then b1
                else b1\<lparr>pb_acc := k\<lparr>pa_rejections := AList.update (sa_client a) (inc64 (at_or 0 (pa_rejections k) (sa_client a))) (pa_rejections k)\<rparr>\<rparr>)
      in push_audit now E_REJECT (sa_id a) (sa_side a) (sa_price a) (sa_qty a) S_REJECTED
           (emit now E_REJECT (sa_id a) 0 (sa_price a) (sa_qty a) S_REJECTED r (sa_client a) b2))"

definition consume_rate_token :: "int \<Rightarrow> int \<Rightarrow> pbook \<Rightarrow> pbook \<times> bool" where
  "consume_rate_token now cid b =
     (let g = pb_guard b in case map_of (rate_buckets g) cid of None \<Rightarrow> (b, True)
      | Some r \<Rightarrow>
        let add = ddiv (dmul (d_of_int (now - rb_last_ns r)) (rb_refill r)) (Fin 1000000000); t = dadd (rb_tokens r) add;
            r1 = (if now > rb_last_ns r then r\<lparr>rb_tokens := (if dlt t (rb_capacity r) then t else rb_capacity r), rb_last_ns := now\<rparr> else r)
        in if dlt (rb_tokens r1) (Fin 1)
           then (b\<lparr>pb_guard := g\<lparr>rate_buckets := AList.update cid r1 (rate_buckets g), rate_rejects := inc64 (rate_rejects g)\<rparr>\<rparr>, False)
           else (b\<lparr>pb_guard := g\<lparr>rate_buckets := AList.update cid (r1\<lparr>rb_tokens := dsub (rb_tokens r1) (Fin 1)\<rparr>) (rate_buckets g)\<rparr>\<rparr>, True))"

definition halt_for_auction :: "pbook \<Rightarrow> pbook" where
  "halt_for_auction b = b\<lparr>pb_guard := (pb_guard b)\<lparr>auction_mode := True, reopen_pending := True\<rparr>\<rparr>"

definition pro_halt :: "string \<Rightarrow> pbook \<Rightarrow> pbook" where
  "pro_halt r b = b\<lparr>pb_guard := (pb_guard b)\<lparr>pg_halted := True, halt_reason := take 31 r\<rparr>\<rparr>"

definition luld_breach :: "pbook \<Rightarrow> pbook" where
  "luld_breach b =
     (let b1 = b\<lparr>pb_guard := (pb_guard b)\<lparr>luld_breaches := inc64 (luld_breaches (pb_guard b))\<rparr>\<rparr>
      in if luld_to_auction (pb_guard b1) then halt_for_auction b1
         else if luld_auto_halt (pb_guard b1) then pro_halt ''LULD_BREACH'' b1 else b1)"

record walk_result =
  wr_fillable :: int
  wr_avg :: int
  wr_levels :: int
  wr_worst :: int

fun walk_loop :: "pcore \<Rightarrow> int list \<Rightarrow> int \<Rightarrow> int \<Rightarrow> walk_result \<Rightarrow> int \<times> walk_result" where
  "walk_loop c [] left acc r = (acc, r)"
| "walk_loop c (p # ps) left acc r =
     (let avail = lv_total (pc_levels c p); take = min avail left
      in if left \<le> 0 then (acc, r)
         else if avail \<le> 0 then walk_loop c ps left acc r
         else walk_loop c ps (left - take) (acc + take * p)
                (r\<lparr>wr_fillable := wr_fillable r + take, wr_levels := wr_levels r + 1, wr_worst := p\<rparr>))"

definition walk_the_book :: "Side \<Rightarrow> int \<Rightarrow> int \<Rightarrow> pcore \<Rightarrow> walk_result" where
  "walk_the_book side want limit c =
     (let (acc, r) = walk_loop c (taker_prices side limit c) want 0 \<lparr>wr_fillable = 0, wr_avg = 0, wr_levels = 0, wr_worst = 0\<rparr>
      in r\<lparr>wr_avg := (if wr_fillable r > 0 then s32 (tdiv acc (wr_fillable r)) else 0)\<rparr>)"

definition mmp_blocked :: "int \<Rightarrow> pbook \<Rightarrow> bool" where
  "mmp_blocked cid b = (case map_of (mmp_conf (pb_guard b)) cid of Some m \<Rightarrow> mm_tripped m | None \<Rightarrow> False)"

text \<open>The checks in front of the rate limiter, and those behind it.\<close>

definition admit_first :: "submit_args \<Rightarrow> pbook \<Rightarrow> RejectReason" where
  "admit_first a b =
     (if session_phase (pb_guard b) = CLOSED then MARKET_CLOSED
      else if pg_halted (pb_guard b) then HALTED
      else if sa_qty a \<le> 0 then QTY_ZERO_OR_NEGATIVE
      else if \<not> pro_in_range (pb_core b) (sa_price a) \<and> sa_type a \<noteq> MARKET then PRICE_OUT_OF_RANGE
      else if sa_id a \<noteq> 0 \<and> map_of (pc_index (pb_core b)) (sa_id a) \<noteq> None then DUPLICATE_ID
      else R_NONE)"

definition is_fok :: "submit_args \<Rightarrow> bool" where
  "is_fok a \<longleftrightarrow> sa_type a = OT_FOK \<or> sa_tif a = TIF_FOK"

definition admit_market :: "submit_args \<Rightarrow> pbook \<Rightarrow> RejectReason" where
  "admit_market a b =
     (let c = pb_core b in
      if sa_type a = POST_ONLY \<and> would_cross (sa_side a) (sa_price a) c then POST_ONLY_WOULD_CROSS
      else if is_fok a \<and> \<not> fok_fillable (sa_side a) (sa_price a) (sa_qty a) c then FOK_NOT_FILLABLE
      else if sa_min a > 0 \<and> sa_type a \<noteq> POST_ONLY \<and> sa_type a \<noteq> HIDDEN \<and> \<not> auction_mode (pb_guard b)
              \<and> wr_fillable (walk_the_book (sa_side a) (sa_qty a) (sa_price a) c) < sa_min a then MIN_QTY_NOT_MET
      else R_NONE)"

definition luld_outside :: "submit_args \<Rightarrow> pbook \<Rightarrow> bool" where
  "luld_outside a b \<longleftrightarrow> luld_on (pb_guard b) \<and> (sa_price a < luld_low (pb_guard b) \<or> sa_price a > luld_high (pb_guard b))"

definition admit :: "int \<Rightarrow> submit_args \<Rightarrow> pbook \<Rightarrow> pbook \<times> RejectReason" where
  "admit now a b =
     (let ext = \<not> internal_submit (pb_guard b) \<and> sa_client a \<noteq> 0; (b1, ok) = (if rate_on (pb_guard b) \<and> ext then consume_rate_token now (sa_client a) b else (b, True))
      in if admit_first a b \<noteq> R_NONE then (b, admit_first a b)
         else if \<not> ok then (b1, RATE_LIMITED)
         else if mmp_on (pb_guard b1) \<and> ext \<and> mmp_blocked (sa_client a) b1 then (b1, MMP_TRIPPED)
         else if luld_outside a b1 then (luld_breach b1, LULD_BAND_BREACH)
         else (b1, admit_market a b1))"

section \<open>Acceptance and resting\<close>

definition fresh_order :: "int \<Rightarrow> submit_args \<Rightarrow> int \<Rightarrow> pcore \<Rightarrow> porder" where
  "fresh_order now a oid c =
     (let ice = (if sa_type a = ICEBERG \<and> sa_display a > 0 then min (sa_display a) (sa_qty a) else 0)
      in porder_reset\<lparr>po_id := oid, po_client := sa_client a, po_price := sa_price a, po_total := sa_qty a,
           po_displayed := (if sa_type a = HIDDEN then 0 else if ice > 0 then ice else sa_qty a), po_ice_size := ice,
           po_side := sa_side a, po_type := sa_type a, po_tif := sa_tif a, po_submit_ts := now, po_decision_mid := mid_ticks c\<rparr>)"

definition burst_detect :: "int \<Rightarrow> pcount \<Rightarrow> pcount" where
  "burst_detect now k =
     (if bu_window k = 0 then k
      else (if bu_last k \<noteq> 0 \<and> now > bu_last k \<and> now - bu_last k \<le> bu_window k
            then (if bu_in_run k = 0 then k\<lparr>bu_runs := inc64 (bu_runs k), bu_in_run := 2\<rparr> else k\<lparr>bu_in_run := inc64 (bu_in_run k)\<rparr>)
            else k\<lparr>bu_in_run := 0\<rparr>)\<lparr>bu_last := now\<rparr>)"

definition note_peak :: "pbook \<Rightarrow> pbook" where
  "note_peak b = upd_stats (\<lambda>s. s\<lparr>bs_peak_pool := (if pc_active (pb_core b) = pc_high_water (pb_core b)
     then pc_high_water (pb_core b) else bs_peak_pool s)\<rparr>) b"

definition accept :: "int \<Rightarrow> submit_args \<Rightarrow> nat \<Rightarrow> pcore \<Rightarrow> pbook \<Rightarrow> pbook" where
  "accept now a s c b =
     (let oid = (if sa_id a \<noteq> 0 then sa_id a else pb_next_id b);
          b1 = note_peak (b\<lparr>pb_core := upd_order s (\<lambda>_. fresh_order now a oid c) c,
                  pb_next_id := (if sa_id a \<noteq> 0 then pb_next_id b else inc64 (pb_next_id b))\<rparr>);
          b2 = tally_accept (sa_type a) (sa_tif a) (upd_stats (\<lambda>t. t\<lparr>bs_added := inc64 (bs_added t)\<rparr>) (upd_count (burst_detect now) b1));
          b3 = emit now E_ACCEPT oid 0 (sa_price a) (sa_qty a) S_OPEN R_NONE (sa_client a) b2
      in exposure_on_submit (sa_client a) (sa_side a) (sa_qty a) (push_audit now E_ACCEPT oid (sa_side a) (sa_price a) (sa_qty a) S_OPEN b3))"

definition queue_depth_sample :: "int \<Rightarrow> pcount \<Rightarrow> pcount" where
  "queue_depth_sample d k = k\<lparr>qd_sum := u64 (qd_sum k + d), qd_count := inc64 (qd_count k), qd_max := max d (qd_max k)\<rparr>"

text \<open>An order never becomes worse than the best of its side by resting.\<close>

definition improve_best :: "Side \<Rightarrow> int \<Rightarrow> pcore \<Rightarrow> pcore" where
  "improve_best side p c =
     (if side = BUY then (if pc_bid c = NO_BID_TICKS \<or> p > pc_bid c then c\<lparr>pc_bid := p\<rparr> else c)
      else (if pc_ask c = NO_ASK_TICKS \<or> p < pc_ask c then c\<lparr>pc_ask := p\<rparr> else c))"

definition rest_taker :: "nat \<Rightarrow> pbook \<Rightarrow> pbook" where
  "rest_taker s b =
     (let x0 = order_at b s;
          x = (if po_filled x0 > 0 then x0\<lparr>po_status := S_PARTIALLY_FILLED, po_displayed := min (po_displayed x0) (remaining_qty x0)\<rparr>
               else x0\<lparr>po_status := S_OPEN\<rparr>);
          b1 = upd_count (queue_depth_sample (lv_count (level_at b (po_price x)))) b;
          b2 = on_core (\<lambda>c. put_index s (enqueue_at_level s (upd_order s (\<lambda>_. x) c))) b1
      in if po_type x = HIDDEN then b2
         else let b3 = on_core (improve_best (po_side x) (po_price x)) b2
              in push_delta (CHR ''A'') (side_char (po_side x)) (po_price x) (lv_total (level_at b3 (po_price x))) b3)"

definition drop_rest :: "int \<Rightarrow> nat \<Rightarrow> pbook \<Rightarrow> pbook" where
  "drop_rest now s b =
     (let x = order_at b s; b1 = on_core (set_status S_CANCELLED s) b;
          b2 = emit now E_CANCEL (po_id x) 0 (po_price x) (remaining_qty x) S_CANCELLED R_NONE (po_client x) b1
      in on_core (free_order s) (count_cancelled x b2))"

definition finish_taker :: "nat \<Rightarrow> pbook \<Rightarrow> pbook" where
  "finish_taker s b = on_core (\<lambda>c. free_order s (set_status S_FILLED s c)) (upd_count (\<lambda>k. k\<lparr>cp_filled := inc64 (cp_filled k)\<rparr>) b)"

text \<open>What happens to the order after matching.\<close>

definition conclude :: "int \<Rightarrow> nat \<Rightarrow> pbook \<Rightarrow> pbook" where
  "conclude now s b =
     (let x = order_at b s in if po_filled x \<ge> po_total x then finish_taker s b
      else if po_type x = OT_IOC \<or> po_tif x = TIF_IOC then drop_rest now s b
      else rest_taker s b)"

definition matches_now :: "submit_args \<Rightarrow> pbook \<Rightarrow> bool" where
  "matches_now a b \<longleftrightarrow> sa_type a \<noteq> POST_ONLY \<and> sa_type a \<noteq> HIDDEN \<and> \<not> auction_mode (pb_guard b)"

section \<open>Stop orders\<close>

definition reject_quietly :: "RejectReason \<Rightarrow> pbook \<Rightarrow> pbook" where
  "reject_quietly r b = tally_rejection r (upd_stats (\<lambda>s. s\<lparr>bs_rejected := inc64 (bs_rejected s)\<rparr>) b)"

definition submit_stop :: "int \<Rightarrow> Side \<Rightarrow> int \<Rightarrow> int \<Rightarrow> int \<Rightarrow> int \<Rightarrow> int \<Rightarrow> pbook \<Rightarrow> pbook \<times> int \<times> RejectReason" where
  "submit_stop now side trigger limit qty oid0 cid b =
     (let fail = (\<lambda>r. (reject_quietly r b, 0, r)) in
      if session_phase (pb_guard b) = CLOSED then fail MARKET_CLOSED
      else if qty \<le> 0 then fail QTY_ZERO_OR_NEGATIVE
      else if trigger < 0 \<or> trigger \<ge> pc_LEVELS (pb_core b) then fail PRICE_OUT_OF_RANGE
      else case alloc_order (pb_core b) of None \<Rightarrow> fail POOL_EXHAUSTED
      | Some (s, c) \<Rightarrow>
        let oid = (if oid0 \<noteq> 0 then oid0 else pb_next_id b);
            x = porder_reset\<lparr>po_id := oid, po_client := cid, po_price := limit, po_total := qty, po_displayed := qty, po_side := side,
                  po_type := STOP, po_submit_ts := now, po_stop_trigger := trigger\<rparr>;
            c1 = put_index s ((upd_order s (\<lambda>_. x) c)\<lparr>pc_stops := pc_stops c @ [s]\<rparr>);
            b1 = note_peak (b\<lparr>pb_core := c1, pb_next_id := (if oid0 \<noteq> 0 then pb_next_id b else inc64 (pb_next_id b))\<rparr>);
            b2 = tally_accept STOP DAY (upd_stats (\<lambda>t. t\<lparr>bs_added := inc64 (bs_added t)\<rparr>) b1)
        in (emit now E_ACCEPT oid 0 trigger qty S_NEW R_NONE cid b2, oid, R_NONE))"

definition link_oco :: "int \<Rightarrow> int \<Rightarrow> pbook \<Rightarrow> pbook \<times> bool" where
  "link_oco x y b =
     (let k = pb_links b; ix = map_of (pc_index (pb_core b))
      in if x = 0 \<or> y = 0 \<or> x = y \<or> ix x = None \<or> ix y = None \<or> map_of (oco_partner k) x \<noteq> None \<or> map_of (oco_partner k) y \<noteq> None
         then (b, False)
         else (b\<lparr>pb_links := k\<lparr>oco_partner := AList.update y x (AList.update x y (oco_partner k))\<rparr>\<rparr>, True))"

definition set_internal :: "bool \<Rightarrow> pbook \<Rightarrow> pbook" where
  "set_internal f b = b\<lparr>pb_guard := (pb_guard b)\<lparr>internal_submit := f\<rparr>\<rparr>"

section \<open>Submit\<close>

text \<open>A full fill may arm the exits of a bracket, which are submitted in turn.\<close>

definition take_in :: "int \<Rightarrow> submit_args \<Rightarrow> pbook \<Rightarrow> pbook \<times> RejectReason + pbook \<times> nat" where
  "take_in now a b =
     (let (b0, r) = admit now a b
      in if r \<noteq> R_NONE then Inl (reject now a r b0, r)
         else case alloc_order (pb_core b0) of None \<Rightarrow> Inl (reject now a POOL_EXHAUSTED b0, POOL_EXHAUSTED)
         | Some (s, c) \<Rightarrow> Inr (accept now a s c b0, s))"

definition take_profit :: "bracket_spec \<Rightarrow> submit_args" where
  "take_profit sp = \<lparr>sa_side = br_side sp, sa_price = br_tp sp, sa_qty = br_qty sp, sa_type = LIMIT, sa_tif = GTC, sa_id = 0,
     sa_client = br_client sp, sa_display = 0, sa_min = 0\<rparr>"

definition pop_bracket :: "pbook \<Rightarrow> pbook" where
  "pop_bracket b = set_internal True (b\<lparr>pb_links := (pb_links b)\<lparr>br_pending := butlast (br_pending (pb_links b))\<rparr>\<rparr>)"

text \<open>The second half of \<open>arm_bracket_exits\<close>: the stop loss, and the pair with the take profit \<open>tp\<close>.\<close>

definition arm_stop_loss :: "int \<Rightarrow> bracket_spec \<Rightarrow> int \<Rightarrow> pbook \<Rightarrow> pbook" where
  "arm_stop_loss now sp tp b =
     (let (b3, sl, _) = submit_stop now (br_side sp) (br_sl sp) 0 (br_qty sp) 0 (br_client sp) b; b4 = set_internal False b3
      in if tp \<noteq> 0 \<and> sl \<noteq> 0
         then let b5 = fst (link_oco tp sl b4) in b5\<lparr>pb_links := (pb_links b5)\<lparr>br_armed := inc64 (br_armed (pb_links b5))\<rparr>\<rparr>
         else b4)"

fun submit :: "nat \<Rightarrow> int \<Rightarrow> submit_args \<Rightarrow> pbook \<Rightarrow> (pbook \<times> int \<times> RejectReason) option"
  and process_bracket_pending :: "nat \<Rightarrow> int \<Rightarrow> pbook \<Rightarrow> pbook option" where
  "submit 0 now a b = None"
| "submit (Suc n) now a b =
     (case take_in now a b of Inl (b0, r) \<Rightarrow> Some (b0, 0, r)
      | Inr (b1, s) \<Rightarrow>
        if \<not> matches_now a b1 then Some (conclude now s b1, po_id (order_at b1 s), R_NONE)
        else case match_against n now s b1 of None \<Rightarrow> None
        | Some b2 \<Rightarrow> (case process_bracket_pending n now (process_oco_pending now b2) of None \<Rightarrow> None
            | Some b3 \<Rightarrow> Some (conclude now s (process_mmp_pending now b3), po_id (order_at b1 s), R_NONE)))"
| "process_bracket_pending 0 now b = None"
| "process_bracket_pending (Suc n) now b =
     (if br_pending (pb_links b) = [] then Some b
      else case submit n now (take_profit (List.last (br_pending (pb_links b)))) (pop_bracket b) of None \<Rightarrow> None
           | Some (b2, tp, _) \<Rightarrow> process_bracket_pending n now (arm_stop_loss now (List.last (br_pending (pb_links b))) tp b2))"

definition cancel :: "int \<Rightarrow> int \<Rightarrow> pbook \<Rightarrow> pbook \<times> bool" where
  "cancel now oid b = (case map_of (pc_index (pb_core b)) oid of None \<Rightarrow> (b, False)
     | Some s \<Rightarrow> if pending_stop (order_at b s)
         then let (b1, ok) = cancel_pending_stop now s b in (process_oco_pending now b1, ok)
         else (process_oco_pending now (cancel_internal now s True b), True))"

section \<open>Modify\<close>

definition decrease_in_place :: "int \<Rightarrow> int \<Rightarrow> nat \<Rightarrow> int \<Rightarrow> pbook \<Rightarrow> pbook" where
  "decrease_in_place now oid s qty b =
     (let x = order_at b s; delta = po_total x - qty; vis = min delta (po_displayed x); k = pb_links b;
          b1 = on_core (\<lambda>c. upd_level (po_price x) (\<lambda>l. l\<lparr>lv_total := s32 (lv_total l - vis), lv_hidden := s32 (lv_hidden l - (delta - vis))\<rparr>)
                 (upd_order s (\<lambda>x. x\<lparr>po_total := qty, po_displayed := po_displayed x - vis\<rparr>) c)) b;
          b2 = (case map_of (br_specs k) oid of None \<Rightarrow> b1
                | Some sp \<Rightarrow> b1\<lparr>pb_links := k\<lparr>br_specs := AList.update oid (sp\<lparr>br_qty := qty\<rparr>) (br_specs k)\<rparr>\<rparr>);
          b3 = upd_stats (\<lambda>t. t\<lparr>bs_replaced := inc64 (bs_replaced t), bs_preserved_mods := inc64 (bs_preserved_mods t)\<rparr>) b2
      in emit now E_REPLACE (po_id x) 0 (po_price x) qty (po_status x) R_NONE (po_client x) b3)"

definition unlink_oco :: "int \<Rightarrow> pbook \<Rightarrow> pbook \<times> bool" where
  "unlink_oco oid b = (case map_of (oco_partner (pb_links b)) oid of None \<Rightarrow> (b, False)
     | Some p \<Rightarrow> (b\<lparr>pb_links := (pb_links b)\<lparr>oco_partner := AList.delete p (AList.delete oid (oco_partner (pb_links b)))\<rparr>\<rparr>, True))"

definition relink_after_modify :: "int \<Rightarrow> int \<Rightarrow> int \<Rightarrow> pbook \<Rightarrow> pbook" where
  "relink_after_modify now nid partner b =
     (let ix = map_of (pc_index (pb_core b))
      in if partner = 0 \<or> nid = 0 then b
         else if ix nid \<noteq> None \<and> ix partner \<noteq> None then fst (link_oco nid partner b)
         else if ix nid = None
         then process_oco_pending now (b\<lparr>pb_links := (pb_links b)\<lparr>oco_pending := oco_pending (pb_links b) @ [partner]\<rparr>\<rparr>)
         else b)"

definition restore_bracket :: "nat \<Rightarrow> int \<Rightarrow> int \<Rightarrow> bracket_spec option \<Rightarrow> pbook \<Rightarrow> pbook option" where
  "restore_bracket n now nid sp b =
     (case sp of None \<Rightarrow> Some b
      | Some x \<Rightarrow> let k = pb_links b in if nid = 0 then Some b
          else if map_of (pc_index (pb_core b)) nid \<noteq> None then Some (b\<lparr>pb_links := k\<lparr>br_specs := AList.update nid x (br_specs k)\<rparr>\<rparr>)
          else process_bracket_pending n now (b\<lparr>pb_links := k\<lparr>br_pending := br_pending k @ [x]\<rparr>\<rparr>))"

definition modify :: "nat \<Rightarrow> int \<Rightarrow> int \<Rightarrow> int \<Rightarrow> int \<Rightarrow> pbook \<Rightarrow> (pbook \<times> int \<times> RejectReason) option" where
  "modify n now oid price qty b =
     (case map_of (pc_index (pb_core b)) oid of None \<Rightarrow> Some (b, 0, R_NONE)
      | Some s \<Rightarrow>
        let x = order_at b s
        in if price = po_price x \<and> qty < po_total x \<and> qty > po_filled x then Some (decrease_in_place now oid s qty b, po_id x, R_NONE)
           else let partner = at_or 0 (oco_partner (pb_links b)) oid;
                    b1 = (if partner \<noteq> 0 then fst (unlink_oco oid b) else b);
                    spec = map_option (\<lambda>sp. sp\<lparr>br_qty := qty\<rparr>) (map_of (br_specs (pb_links b1)) oid);
                    b2 = upd_stats (\<lambda>t. t\<lparr>bs_replaced := inc64 (bs_replaced t), bs_lost_mods := inc64 (bs_lost_mods t)\<rparr>) (cancel_internal now s False b1)
                in case submit n now \<lparr>sa_side = po_side x, sa_price = price, sa_qty = s32 (qty - po_filled x), sa_type = po_type x, sa_tif = po_tif x,
                                      sa_id = oid, sa_client = po_client x, sa_display = 0, sa_min = 0\<rparr> b2 of None \<Rightarrow> None
                   | Some (b3, nid, r) \<Rightarrow>
                     map_option (\<lambda>b4. (b4, nid, r)) (restore_bracket n now nid spec (relink_after_modify now nid partner b3)))"

end
