(* ===== verification/Pro_Links.thy ===== *)
theory Pro_Links
  imports Pro_Match
begin

text \<open>
  The queues of the price levels as \<open>FullOrderBook\<close> keeps them: head and tail of every level and the
  two link fields of every order.  The pointer updates of \<open>enqueue_at_level\<close>, \<open>unlink_from_level\<close> and
  of the matching loop refine the list operations of the book's model, and the walk of
  \<open>audit_book_integrity\<close> finds every link in order.
\<close>

section \<open>A list in the links\<close>

definition first_or :: "nat list \<Rightarrow> nat option \<Rightarrow> nat option" where
  "first_or xs n = (case xs of [] \<Rightarrow> n | x # _ \<Rightarrow> Some x)"

definition last_or :: "nat option \<Rightarrow> nat list \<Rightarrow> nat option" where
  "last_or p xs = (if xs = [] then p else Some (List.last xs))"

lemma first_last_simps [simp]:
  "first_or [] n = n" "first_or (x # xs) n = Some x" "last_or p [] = p" "last_or p [x] = Some x"
  "first_or (xs @ ys) n = first_or xs (first_or ys n)" "last_or p (xs @ ys) = last_or (last_or p xs) ys"
  by (simp_all add: first_or_def last_or_def split: list.splits)

text \<open>\<open>xs\<close> is linked both ways, with \<open>p\<close> in front of it and \<open>n\<close> behind it.\<close>

fun seg :: "links \<Rightarrow> nat option \<Rightarrow> nat list \<Rightarrow> nat option \<Rightarrow> bool" where
  "seg s p [] n = True"
| "seg s p (x # xs) n = (prev_at_level s x = p \<and> next_at_level s x = first_or xs n \<and> seg s (Some x) xs n)"

lemma last_or_Cons: "last_or p (x # xs) = last_or (Some x) xs"
  by (simp add: last_or_def)

lemma seg_append: "seg s p (xs @ ys) n \<longleftrightarrow> seg s p xs (first_or ys n) \<and> seg s (last_or p xs) ys n"
  by (induction xs arbitrary: p) (auto simp: last_or_Cons)

lemma seg_frame:
  "seg s p xs n \<Longrightarrow> (\<And>x. x \<in> set xs \<Longrightarrow> next_at_level s' x = next_at_level s x \<and> prev_at_level s' x = prev_at_level s x) \<Longrightarrow> seg s' p xs n"
  by (induction xs arbitrary: p) auto

definition list_rep :: "links \<Rightarrow> int \<Rightarrow> nat list \<Rightarrow> bool" where
  "list_rep s p xs \<longleftrightarrow> level_head s p = first_or xs None \<and> level_tail s p = last_or None xs \<and> seg s None xs None \<and> distinct xs"

lemma list_rep_frame:
  assumes "list_rep s p xs" "level_head s' p = level_head s p" "level_tail s' p = level_tail s p"
    and "\<And>x. x \<in> set xs \<Longrightarrow> next_at_level s' x = next_at_level s x \<and> prev_at_level s' x = prev_at_level s x"
  shows "list_rep s' p xs"
  using assms seg_frame [of s None xs None s'] by (simp add: list_rep_def)

text \<open>A list taken apart at one of its orders.\<close>

lemma list_rep_split:
  assumes "list_rep s p (ys @ x # zs)"
  shows "prev_at_level s x = last_or None ys" "next_at_level s x = first_or zs None" "seg s None ys (Some x)" "seg s (Some x) zs None"
    and "distinct ys" "distinct zs" "x \<notin> set ys" "x \<notin> set zs" "set ys \<inter> set zs = {}"
    and "level_head s p = first_or ys (Some x)" "level_tail s p = last_or (Some x) zs"
  using assms by (auto simp: list_rep_def seg_append last_or_Cons)

lemma rep_enqueue:
  assumes "list_rep s p xs" "x \<notin> set xs"
  shows "list_rep (link_enqueue p x s) p (xs @ [x])"
proof (cases xs rule: rev_cases)
  case Nil
  then show ?thesis using assms by (simp add: list_rep_def link_enqueue_def Let_def)
next
  case (snoc ys t)
  have s: "seg s None ys (Some t)" "prev_at_level s t = last_or None ys" "level_tail s p = Some t" "level_head s p = first_or ys (Some t)"
    "t \<notin> set ys" "distinct ys" using assms(1) snoc by (auto simp: list_rep_def seg_append)
  have "seg (link_enqueue p x s) None ys (Some t)"
    by (rule seg_frame [OF s(1)]) (use assms(2) snoc s in \<open>auto simp: link_enqueue_def Let_def\<close>)
  then show ?thesis using assms(2) snoc s by (auto simp: list_rep_def link_enqueue_def Let_def seg_append last_or_Cons)
qed

lemma link_unlink_fields:
  assumes "list_rep s p (ys @ x # zs)"
  shows "next_at_level (link_unlink p x s) = (if ys = [] then next_at_level s else (next_at_level s)(List.last ys := first_or zs None))"
    and "prev_at_level (link_unlink p x s) = (if zs = [] then prev_at_level s else (prev_at_level s)(hd zs := last_or None ys))"
    and "level_head (link_unlink p x s) = (if ys = [] then (level_head s)(p := first_or zs None) else level_head s)"
    and "level_tail (link_unlink p x s) = (if zs = [] then (level_tail s)(p := last_or None ys) else level_tail s)"
proof -
  note f = list_rep_split [OF assms]
  have n: "ys \<noteq> [] \<Longrightarrow> List.last ys \<noteq> x" using f(7) by auto
  show "next_at_level (link_unlink p x s) = (if ys = [] then next_at_level s else (next_at_level s)(List.last ys := first_or zs None))"
    "prev_at_level (link_unlink p x s) = (if zs = [] then prev_at_level s else (prev_at_level s)(hd zs := last_or None ys))"
    "level_head (link_unlink p x s) = (if ys = [] then (level_head s)(p := first_or zs None) else level_head s)"
    "level_tail (link_unlink p x s) = (if zs = [] then (level_tail s)(p := last_or None ys) else level_tail s)"
    using f(1,2) n by (auto simp: link_unlink_def bridge_next_def Let_def last_or_def first_or_def split: list.splits)
qed

lemma rep_unlink:
  assumes "list_rep s p (ys @ x # zs)"
  shows "list_rep (link_unlink p x s) p (ys @ zs)"
proof -
  let ?s = "link_unlink p x s"
  note f = list_rep_split [OF assms] and u = link_unlink_fields [OF assms]
  have "seg ?s None ys (first_or zs None)"
  proof (cases ys rule: rev_cases)
    case (snoc us v)
    have "seg s None us (Some v)" "prev_at_level s v = last_or None us" using f(3) snoc by (simp_all add: seg_append)
    moreover from this(1) have "seg ?s None us (Some v)" by (rule seg_frame) (use f(5,9) snoc u(1,2) in \<open>auto dest: hd_in_set\<close>)
    moreover have "zs \<noteq> [] \<Longrightarrow> hd zs \<noteq> v" using f(9) snoc by (auto dest: hd_in_set)
    ultimately show ?thesis using snoc u(1,2) by (auto simp: seg_append)
  qed simp
  moreover have "seg ?s (last_or None ys) zs None"
  proof (cases zs)
    case (Cons z ws)
    have "seg s (Some z) ws None" "next_at_level s z = first_or ws None" using f(4) Cons by simp_all
    moreover from this(1) have "seg ?s (Some z) ws None" by (rule seg_frame) (use f(6,9) Cons u(1,2) in \<open>auto dest: last_in_set\<close>)
    moreover have "ys \<noteq> [] \<Longrightarrow> List.last ys \<noteq> z" using f(9) Cons by (auto dest: last_in_set)
    ultimately show ?thesis using Cons u(1,2) by auto
  qed simp
  ultimately have "seg ?s None (ys @ zs) None" by (simp add: seg_append)
  then show ?thesis using f u(3,4) by (auto simp: list_rep_def last_or_def first_or_def split: list.splits)
qed

lemma to_tail_as_requeue:
  assumes "list_rep s p (ys @ x # zs)" "zs \<noteq> []"
  shows "link_to_tail p x s = link_enqueue p x (link_unlink p x s)"
proof -
  note f = list_rep_split [OF assms(1)]
  obtain z ws where zs: "zs = z # ws" using assms(2) by (cases zs) auto
  have t: "level_tail s p = Some (List.last zs)" "List.last zs \<noteq> x" using f(8,11) assms(2) by (auto simp: last_or_def)
  have x: "next_at_level s x = Some z" "z \<noteq> x" using f(2,8) zs by auto
  have l: "ys \<noteq> [] \<Longrightarrow> List.last ys \<noteq> x" using f(7) by auto
  show ?thesis
    using t x l f(1)
    by (cases "ys = []") (auto simp: link_to_tail_def link_enqueue_def link_unlink_def bridge_next_def Let_def last_or_def intro!: links.equality)
qed

lemma rep_to_tail:
  assumes "list_rep s p xs" "x \<in> set xs"
  shows "list_rep (link_to_tail p x s) p (to_tail x xs)"
proof -
  obtain ys zs where xs: "xs = ys @ x # zs" "x \<notin> set ys" using split_list_first [OF assms(2)] by auto
  have r: "list_rep s p (ys @ x # zs)" using assms(1) xs by simp
  show ?thesis
  proof (cases "zs = []")
    case True
    then show ?thesis using r xs by (simp add: to_tail_def link_to_tail_def list_rep_def)
  next
    case False
    then have "List.last xs \<noteq> x" using list_rep_split(8) [OF r] xs by auto
    then have "to_tail x xs = (ys @ zs) @ [x]" using xs by (simp add: to_tail_def remove1_append)
    then show ?thesis
      using rep_enqueue [OF rep_unlink [OF r]] list_rep_split(7,8) [OF r] by (simp add: to_tail_as_requeue [OF r False])
  qed
qed

section \<open>All levels\<close>

text \<open>Every level is a list, and no order is in two of them.\<close>

definition links_rep :: "links \<Rightarrow> (int \<Rightarrow> nat list) \<Rightarrow> bool" where
  "links_rep s Q \<longleftrightarrow> (\<forall>p. list_rep s p (Q p)) \<and> (\<forall>p r. p \<noteq> r \<longrightarrow> set (Q p) \<inter> set (Q r) = {})"

lemma links_disjoint: "links_rep s Q \<Longrightarrow> x \<in> set (Q p) \<Longrightarrow> r \<noteq> p \<Longrightarrow> x \<notin> set (Q r)"
  unfolding links_rep_def by blast

lemma links_rep_upd:
  assumes "links_rep s Q" "list_rep s' p xs" "\<And>r. r \<noteq> p \<Longrightarrow> set xs \<inter> set (Q r) = {}"
    and "\<And>r. r \<noteq> p \<Longrightarrow> level_head s' r = level_head s r \<and> level_tail s' r = level_tail s r"
    and "\<And>x. x \<notin> insert y (set (Q p)) \<Longrightarrow> next_at_level s' x = next_at_level s x \<and> prev_at_level s' x = prev_at_level s x"
    and "\<And>r. r \<noteq> p \<Longrightarrow> y \<notin> set (Q r)"
  shows "links_rep s' (Q(p := xs))"
proof -
  have "list_rep s' r (Q r)" if "r \<noteq> p" for r
  proof (rule list_rep_frame [of s])
    show "list_rep s r (Q r)" using assms(1) by (simp add: links_rep_def)
    have "set (Q r) \<inter> set (Q p) = {}" using assms(1) that by (simp add: links_rep_def)
    then show "next_at_level s' x = next_at_level s x \<and> prev_at_level s' x = prev_at_level s x" if "x \<in> set (Q r)" for x
      using that \<open>r \<noteq> p\<close> assms(6) by (intro assms(5)) blast
  qed (use assms(4) that in simp_all)
  then show ?thesis using assms(1-3) unfolding links_rep_def by (auto simp: Int_commute)
qed

lemma link_enqueue_frame:
  assumes "list_rep s p xs"
  shows "r \<noteq> p \<Longrightarrow> level_head (link_enqueue p x s) r = level_head s r \<and> level_tail (link_enqueue p x s) r = level_tail s r"
    and "y \<notin> insert x (set xs) \<Longrightarrow> next_at_level (link_enqueue p x s) y = next_at_level s y \<and> prev_at_level (link_enqueue p x s) y = prev_at_level s y"
  using assms by (auto simp: link_enqueue_def Let_def list_rep_def last_or_def split: if_splits)

lemma link_unlink_frame:
  assumes "list_rep s p (ys @ x # zs)"
  shows "r \<noteq> p \<Longrightarrow> level_head (link_unlink p x s) r = level_head s r \<and> level_tail (link_unlink p x s) r = level_tail s r"
    and "y \<notin> set ys \<union> set zs \<Longrightarrow> next_at_level (link_unlink p x s) y = next_at_level s y \<and> prev_at_level (link_unlink p x s) y = prev_at_level s y"
proof -
  show "r \<noteq> p \<Longrightarrow> level_head (link_unlink p x s) r = level_head s r \<and> level_tail (link_unlink p x s) r = level_tail s r"
    unfolding link_unlink_fields(3,4) [OF assms] by simp
  assume "y \<notin> set ys \<union> set zs"
  then have "ys \<noteq> [] \<longrightarrow> y \<noteq> List.last ys" "zs \<noteq> [] \<longrightarrow> y \<noteq> hd zs" by auto
  then show "next_at_level (link_unlink p x s) y = next_at_level s y \<and> prev_at_level (link_unlink p x s) y = prev_at_level s y"
    unfolding link_unlink_fields(1,2) [OF assms] by simp
qed

lemma links_enqueue:
  assumes "links_rep s Q" "\<And>r. x \<notin> set (Q r)"
  shows "links_rep (link_enqueue p x s) (Q(p := Q p @ [x]))"
proof -
  have r: "list_rep s p (Q p)" using assms(1) by (simp add: links_rep_def)
  show ?thesis
    by (rule links_rep_upd [OF assms(1) rep_enqueue [OF r assms(2)], where y = x])
      (use assms link_enqueue_frame [OF r] in \<open>auto simp: links_rep_def\<close>)
qed

lemma links_unlink:
  assumes "links_rep s Q" "x \<in> set (Q p)"
  shows "links_rep (link_unlink p x s) (Q(p := remove1 x (Q p)))"
proof -
  obtain ys zs where q: "Q p = ys @ x # zs" "x \<notin> set ys" using split_list_first [OF assms(2)] by auto
  have r: "list_rep s p (ys @ x # zs)" using assms(1) unfolding links_rep_def q(1) [symmetric] by blast
  have "links_rep (link_unlink p x s) (Q(p := ys @ zs))"
  proof (rule links_rep_upd [OF assms(1) rep_unlink [OF r], where y = x])
    show "set (ys @ zs) \<inter> set (Q r) = {}" "x \<notin> set (Q r)" if "r \<noteq> p" for r
      using links_disjoint [OF assms(1) _ that] q(1) by auto
  qed (use q link_unlink_frame [OF r] in auto)
  then show ?thesis using q by (simp add: remove1_append)
qed

lemma links_to_tail:
  assumes "links_rep s Q" "x \<in> set (Q p)"
  shows "links_rep (link_to_tail p x s) (Q(p := to_tail x (Q p)))"
proof -
  obtain ys zs where q: "Q p = ys @ x # zs" "x \<notin> set ys" using split_list_first [OF assms(2)] by auto
  have r: "list_rep s p (ys @ x # zs)" using assms(1) unfolding links_rep_def q(1) [symmetric] by blast
  show ?thesis
  proof (cases "zs = []")
    case True
    then have "link_to_tail p x s = s" "to_tail x (Q p) = Q p" using q list_rep_split(11) [OF r] by (simp_all add: link_to_tail_def to_tail_def)
    then show ?thesis using assms(1) by simp
  next
    case False
    have "List.last (Q p) \<noteq> x" using list_rep_split(8) [OF r] q False by auto
    then have "to_tail x (Q p) = remove1 x (Q p) @ [x]" using assms(2) by (auto simp: to_tail_def)
    moreover have "x \<notin> set ((Q(p := remove1 x (Q p))) r)" for r
      using links_disjoint [OF assms, of r] q list_rep_split(7,8) [OF r] by (auto simp: remove1_append)
    ultimately show ?thesis
      using links_enqueue [OF links_unlink [OF assms], of x p] by (simp add: to_tail_as_requeue [OF r False])
  qed
qed

text \<open>The successor the matching loop reads.\<close>

lemma links_next:
  assumes "links_rep s Q" "x \<in> set (Q p)"
  shows "next_at_level s x = next_at (Q p) x"
proof -
  obtain ys zs where q: "Q p = ys @ x # zs" "x \<notin> set ys" using split_list_first [OF assms(2)] by auto
  have "list_rep s p (ys @ x # zs)" using assms(1) unfolding links_rep_def q(1) [symmetric] by blast
  moreover have "dropWhile (\<lambda>y. y \<noteq> x) (ys @ x # zs) = x # zs" using q(2) by (induction ys) auto
  ultimately show ?thesis using list_rep_split(2) q(1) by (simp add: next_at_def first_or_def split: list.splits)
qed

section \<open>The audit of the links\<close>

text \<open>The walk over one level; \<open>n\<close> bounds the number of nodes.\<close>

fun link_walk :: "nat \<Rightarrow> links \<Rightarrow> nat option \<Rightarrow> nat option \<Rightarrow> int \<Rightarrow> nat option \<times> int" where
  "link_walk 0 s prv cur v = (prv, v)"
| "link_walk (Suc n) s prv cur v = (case cur of None \<Rightarrow> (prv, v)
     | Some x \<Rightarrow> link_walk n s (Some x) (next_at_level s x) (if prev_at_level s x \<noteq> prv then v + 1 else v))"

definition link_violations :: "nat \<Rightarrow> links \<Rightarrow> int \<Rightarrow> int" where
  "link_violations n s p = (let (lst, v) = link_walk n s None (level_head s p) 0 in if level_tail s p \<noteq> lst then v + 1 else v)"

lemma link_walk_seg: "seg s prv xs None \<Longrightarrow> length xs < n \<Longrightarrow> link_walk n s prv (first_or xs None) v = (last_or prv xs, v)"
proof (induction xs arbitrary: prv n)
  case Nil
  then show ?case by (cases n) simp_all
next
  case (Cons x xs)
  then show ?case by (cases n) (simp_all add: last_or_Cons)
qed

lemma links_audit: "links_rep s Q \<Longrightarrow> length (Q p) < n \<Longrightarrow> link_violations n s p = 0"
  using link_walk_seg [of s None "Q p" n 0] by (auto simp: links_rep_def list_rep_def link_violations_def)

section \<open>Runs of the link operations\<close>

text \<open>What the matching core does to the queues of its levels.\<close>

datatype link_op = L_enqueue int nat | L_unlink int nat | L_to_tail int nat

fun step_with :: "(int \<Rightarrow> nat \<Rightarrow> 's \<Rightarrow> 's) \<Rightarrow> (int \<Rightarrow> nat \<Rightarrow> 's \<Rightarrow> 's) \<Rightarrow> (int \<Rightarrow> nat \<Rightarrow> 's \<Rightarrow> 's) \<Rightarrow> link_op \<Rightarrow> 's \<Rightarrow> 's" where
  "step_with enq unl mov (L_enqueue p x) s = enq p x s"
| "step_with enq unl mov (L_unlink p x) s = unl p x s"
| "step_with enq unl mov (L_to_tail p x) s = mov p x s"

definition link_step :: "link_op \<Rightarrow> links \<Rightarrow> links" where
  "link_step = step_with link_enqueue link_unlink link_to_tail"

definition queue_step :: "link_op \<Rightarrow> (int \<Rightarrow> nat list) \<Rightarrow> (int \<Rightarrow> nat list)" where
  "queue_step = step_with (\<lambda>p x Q. Q(p := Q p @ [x])) (\<lambda>p x Q. Q(p := remove1 x (Q p))) (\<lambda>p x Q. Q(p := to_tail x (Q p)))"

text \<open>An order is queued when it is in no level; it is taken out of or moved in the level it is in.\<close>

fun op_fits :: "link_op \<Rightarrow> (int \<Rightarrow> nat list) \<Rightarrow> bool" where
  "op_fits (L_enqueue p x) Q = (\<forall>r. x \<notin> set (Q r))"
| "op_fits (L_unlink p x) Q = (x \<in> set (Q p))"
| "op_fits (L_to_tail p x) Q = (x \<in> set (Q p))"

inductive queue_run :: "link_op list \<Rightarrow> (int \<Rightarrow> nat list) \<Rightarrow> bool" where
  queue_start: "queue_run [] (\<lambda>_. [])"
| queue_more: "queue_run os Q \<Longrightarrow> op_fits a Q \<Longrightarrow> queue_run (os @ [a]) (queue_step a Q)"

text \<open>What the book needs of whatever keeps its queues.\<close>

locale level_queues =
  fixes rep :: "'s \<Rightarrow> (int \<Rightarrow> nat list) \<Rightarrow> bool" and start :: 's
    and enq unl mov :: "int \<Rightarrow> nat \<Rightarrow> 's \<Rightarrow> 's" and succ_of :: "'s \<Rightarrow> nat \<Rightarrow> nat option"
  assumes rep_start: "rep start (\<lambda>_. [])"
    and rep_enq: "rep s Q \<Longrightarrow> (\<And>r. x \<notin> set (Q r)) \<Longrightarrow> rep (enq p x s) (Q(p := Q p @ [x]))"
    and rep_unl: "rep s Q \<Longrightarrow> x \<in> set (Q p) \<Longrightarrow> rep (unl p x s) (Q(p := remove1 x (Q p)))"
    and rep_mov: "rep s Q \<Longrightarrow> x \<in> set (Q p) \<Longrightarrow> rep (mov p x s) (Q(p := to_tail x (Q p)))"
    and rep_succ: "rep s Q \<Longrightarrow> x \<in> set (Q p) \<Longrightarrow> succ_of s x = next_at (Q p) x"
begin

lemma queues_run: "queue_run os Q \<Longrightarrow> rep (fold (step_with enq unl mov) os start) Q"
proof (induction rule: queue_run.induct)
  case queue_start
  then show ?case by (simp add: rep_start)
next
  case (queue_more os Q a)
  then show ?case by (cases a) (simp_all add: queue_step_def rep_enq [unfolded fun_upd_def] rep_unl [unfolded fun_upd_def] rep_mov [unfolded fun_upd_def])
qed

lemma succ_run: "queue_run os Q \<Longrightarrow> x \<in> set (Q p) \<Longrightarrow> succ_of (fold (step_with enq unl mov) os start) x = next_at (Q p) x"
  by (rule rep_succ [OF queues_run])

end

interpretation lk: level_queues links_rep links_init link_enqueue link_unlink link_to_tail next_at_level
  by unfold_locales (simp add: links_rep_def list_rep_def links_init_def, rule links_enqueue, assumption+, simp_all only: links_unlink links_to_tail links_next)

text \<open>
  C11. The pointers of the price levels implement queues: after any sequence of enqueues of orders that are in no queue, and unlinks
  and moves to the tail of orders that are in the queue named (\<open>op_fits\<close>), head and tail of every
  level are the ends of its queue, the successor of every queued order is the next one in its queue,
  and the audit's walk over the level finds no link out of place.
\<close>

theorem pro_links_refine:
  assumes "queue_run os Q"
  defines "s \<equiv> fold link_step os links_init"
  shows "level_head s p = head_at (Q p) \<and> level_tail s p = last_or None (Q p)
    \<and> (\<forall>x \<in> set (Q p). next_at_level s x = next_at (Q p) x) \<and> link_violations (Suc (length (Q p))) s p = 0"
proof -
  have r: "links_rep s Q" unfolding s_def link_step_def by (rule lk.queues_run [OF assms(1)])
  then have "level_head s p = head_at (Q p) \<and> level_tail s p = last_or None (Q p)"
    by (auto simp: links_rep_def list_rep_def head_at_def first_or_def)
  then show ?thesis using links_next [OF r] links_audit [OF r, of p "Suc (length (Q p))"] by simp
qed

text \<open>Three orders at a price: the first goes to the tail, the second leaves.\<close>

theorem pro_links_refine_witness:
  "level_head (fold link_step [L_enqueue 5 0, L_enqueue 5 1, L_enqueue 5 2, L_to_tail 5 0, L_unlink 5 1] links_init) 5 = Some 2"
proof -
  have "queue_run ((((([] @ [L_enqueue 5 0]) @ [L_enqueue 5 1]) @ [L_enqueue 5 2]) @ [L_to_tail 5 0]) @ [L_unlink 5 1]) ((\<lambda>_. [])(5 := [2, 0]))"
    using queue_more [OF queue_more [OF queue_more [OF queue_more [OF queue_more [OF queue_start, of "L_enqueue 5 0"], of "L_enqueue 5 1"],
        of "L_enqueue 5 2"], of "L_to_tail 5 0"], of "L_unlink 5 1"]
    by (simp add: queue_step_def to_tail_def)
  then have "queue_run [L_enqueue 5 0, L_enqueue 5 1, L_enqueue 5 2, L_to_tail 5 0, L_unlink 5 1] ((\<lambda>_. [])(5 := [2, 0]))" by simp
  from pro_links_refine [OF this, of 5] show ?thesis by (simp add: head_at_def)
qed

end
