(* ===== verification/Pro_Inv.thy ===== *)
theory Pro_Inv
  imports Pro_Links
begin

text \<open>
  The structural invariant of \<open>FullOrderBook\<close> and its preservation by the order path: every slot of
  the pool is free, resting at exactly the level of its price, a pending stop, or held by the call in
  progress; the aggregates of every level are the sums over its queue; the index points at live orders
  under their own ids.  Its consequence is that \<open>audit_book_integrity\<close> finds no violation.
\<close>

section \<open>The audit\<close>

text \<open>
  The walk along the pointers of a level, with the count, the two sums and the violations so far.  A walk that takes more
  steps than the pool has orders goes round in a circle and never ends: \<^const>\<open>None\<close>.
\<close>

fun level_walk :: "nat \<Rightarrow> pcore \<Rightarrow> int \<Rightarrow> nat option \<Rightarrow> nat option \<Rightarrow> int \<times> int \<times> int \<times> int \<Rightarrow> (nat option \<times> int \<times> int \<times> int \<times> int) option" where
  "level_walk n c p prv None (cnt, qty, hid, v) = Some (prv, cnt, qty, hid, v)"
| "level_walk 0 c p prv (Some s) acc = None"
| "level_walk (Suc n) c p prv (Some s) (cnt, qty, hid, v) =
     (let x = pc_pool c s
      in level_walk n c p (Some s) (next_at_level (pc_links c) s)
           (cnt + 1, qty + po_displayed x, hid + hidden_part x,
            v + (if prev_at_level (pc_links c) s \<noteq> prv then 1 else 0) + (if po_price x \<noteq> p then 1 else 0)))"

definition level_violations :: "pcore \<Rightarrow> int \<Rightarrow> int option" where
  "level_violations c p =
     map_option (\<lambda>(lst, cnt, qty, hid, v). let l = pc_levels c p in
         v + (if level_tail (pc_links c) p \<noteq> lst then 1 else 0) + (if lv_count l \<noteq> cnt then 1 else 0)
           + (if lv_total l \<noteq> qty then 1 else 0) + (if lv_hidden l \<noteq> hid then 1 else 0))
       (level_walk (pc_MAX c) c p None (level_head (pc_links c) p) (0, 0, 0, 0))"

definition add_violations :: "int option \<Rightarrow> int option \<Rightarrow> int option" where
  "add_violations a b = (case a of None \<Rightarrow> None | Some x \<Rightarrow> map_option (\<lambda>y. x + y) b)"

definition audit_book_integrity :: "pcore \<Rightarrow> int option" where
  "audit_book_integrity c = fold (\<lambda>p v. add_violations v (level_violations c p)) [0..pc_LEVELS c - 1] (Some 0)"

section \<open>The invariant\<close>

definition qty_ok :: "porder \<Rightarrow> bool" where
  "qty_ok x \<longleftrightarrow> 0 \<le> po_filled x \<and> 0 \<le> po_displayed x \<and> po_displayed x \<le> remaining_qty x"

text \<open>What is known of an order before it rests.\<close>

definition held_ok :: "porder \<Rightarrow> bool" where
  "held_ok x \<longleftrightarrow> 0 \<le> po_filled x \<and> 0 \<le> po_displayed x \<and> (po_filled x = 0 \<longrightarrow> po_displayed x \<le> po_total x)"

definition level_ok :: "pcore \<Rightarrow> int \<Rightarrow> bool" where
  "level_ok c p \<longleftrightarrow> (let l = pc_levels c p; xs = map (pc_pool c) (lv_queue l)
     in distinct (lv_queue l) \<and> lv_count l = int (length xs) \<and> lv_total l = s32 (sum_list (map po_displayed xs))
        \<and> lv_hidden l = s32 (sum_list (map hidden_part xs)))"

text \<open>\<open>H\<close> are the slots the running call holds: allocated, in no list yet.\<close>

definition slots_ok :: "nat set \<Rightarrow> pcore \<Rightarrow> bool" where
  "slots_ok H c \<longleftrightarrow>
     (\<forall>p s. s \<in> set (lv_queue (pc_levels c p)) \<longleftrightarrow> s < pc_MAX c \<and> is_active (pc_pool c s) \<and> po_price (pc_pool c s) = p)
   \<and> distinct (pc_free c) \<and> distinct (pc_stops c)
   \<and> (\<forall>s \<in> set (pc_free c). s < pc_MAX c \<and> \<not> is_active (pc_pool c s) \<and> s \<notin> set (pc_stops c) \<and> s \<notin> H)
   \<and> (\<forall>s \<in> set (pc_stops c). s < pc_MAX c \<and> pending_stop (pc_pool c s) \<and> held_ok (pc_pool c s) \<and> s \<notin> H)
   \<and> (\<forall>s \<in> H. s < pc_MAX c \<and> \<not> is_active (pc_pool c s) \<and> held_ok (pc_pool c s))
   \<and> (\<forall>s < pc_MAX c. is_active (pc_pool c s) \<or> s \<in> set (pc_free c) \<or> s \<in> set (pc_stops c) \<or> s \<in> H)
   \<and> (\<forall>s < pc_MAX c. is_active (pc_pool c s) \<longrightarrow> qty_ok (pc_pool c s))"

definition index_ok :: "nat set \<Rightarrow> pcore \<Rightarrow> bool" where
  "index_ok H c \<longleftrightarrow> hm_wf (pc_index c) \<and> (\<forall>k s. map_of (pc_index c) k = Some s \<longrightarrow> po_id (pc_pool c s) = k \<and> s < pc_MAX c \<and> s \<notin> set (pc_free c) \<and> s \<notin> H)"

text \<open>The pointers of the levels spell out the queues.\<close>

definition links_ok :: "pcore \<Rightarrow> bool" where
  "links_ok c \<longleftrightarrow> links_rep (pc_links c) (\<lambda>p. lv_queue (pc_levels c p))"

definition core_inv :: "nat set \<Rightarrow> pcore \<Rightarrow> bool" where
  "core_inv H c \<longleftrightarrow> int (pc_MAX c) < 2 ^ 31 \<and> slots_ok H c \<and> (\<forall>p. level_ok c p) \<and> index_ok H c \<and> links_ok c"

lemma links_ok_same: "links_ok c \<Longrightarrow> pc_links c' = pc_links c \<Longrightarrow> (\<And>p. lv_queue (pc_levels c' p) = lv_queue (pc_levels c p)) \<Longrightarrow> links_ok c'"
  by (simp add: links_ok_def)

lemma links_ok_upd:
  assumes "links_rep (pc_links c') ((\<lambda>p. lv_queue (pc_levels c p))(r := xs))" "pc_levels c' = (pc_levels c)(r := l)" "lv_queue l = xs"
  shows "links_ok c'"
proof -
  have "(\<lambda>p. lv_queue (pc_levels c' p)) = (\<lambda>p. lv_queue (pc_levels c p))(r := xs)" using assms(2,3) by (auto simp: fun_eq_iff)
  then show ?thesis using assms(1) by (simp add: links_ok_def)
qed

lemma links_rep_reset:
  assumes "links_rep k Q" "\<And>p. s \<notin> set (Q p)"
  shows "links_rep (link_reset s k) Q"
  unfolding links_rep_def
proof (intro conjI allI impI)
  show "list_rep (link_reset s k) p (Q p)" for p
    by (rule list_rep_frame [of k]) (use assms in \<open>auto simp: links_rep_def link_reset_def\<close>)
qed (use assms(1) in \<open>simp add: links_rep_def\<close>)

lemma init_inv: "int N < 2 ^ 31 \<Longrightarrow> core_inv {} (pcore_init L N)"
  by (simp add: core_inv_def slots_ok_def level_ok_def index_ok_def pcore_init_def plevel_clear_def is_active_def porder_reset_def s32_id
      links_ok_def lk.rep_start)

text \<open>An order that is active and below the pool size rests at its price.\<close>

lemma core_invD:
  assumes "core_inv H c"
  shows queue_iff: "s \<in> set (lv_queue (pc_levels c p)) \<longleftrightarrow> s < pc_MAX c \<and> is_active (pc_pool c s) \<and> po_price (pc_pool c s) = p"
    and queue_distinct: "distinct (lv_queue (pc_levels c p))"
    and queue_qty: "s < pc_MAX c \<Longrightarrow> is_active (pc_pool c s) \<Longrightarrow> qty_ok (pc_pool c s)"
    and index_live: "map_of (pc_index c) k = Some t \<Longrightarrow> po_id (pc_pool c t) = k \<and> t < pc_MAX c \<and> t \<notin> set (pc_free c) \<and> t \<notin> H"
    and held: "s \<in> H \<Longrightarrow> s < pc_MAX c \<and> \<not> is_active (pc_pool c s) \<and> held_ok (pc_pool c s)"
  using assms by (auto simp: core_inv_def slots_ok_def level_ok_def index_ok_def Let_def)

lemma queue_length: "core_inv H c \<Longrightarrow> int (length (lv_queue (pc_levels c p))) < 2 ^ 31"
proof -
  assume i: "core_inv H c"
  have "card (set (lv_queue (pc_levels c p))) \<le> card {..<pc_MAX c}"
    by (rule card_mono) (use queue_iff [OF i] in auto)
  then have "length (lv_queue (pc_levels c p)) \<le> pc_MAX c" using queue_distinct [OF i] by (simp add: distinct_card)
  then show ?thesis using i by (auto simp: core_inv_def)
qed

section \<open>Fields the invariant does not read\<close>

lemma upd_links_frame [simp]:
  "pc_pool (upd_links f c) = pc_pool c" "pc_levels (upd_links f c) = pc_levels c" "pc_index (upd_links f c) = pc_index c"
  "pc_MAX (upd_links f c) = pc_MAX c" "pc_LEVELS (upd_links f c) = pc_LEVELS c" "pc_free (upd_links f c) = pc_free c"
  "pc_stops (upd_links f c) = pc_stops c" "pc_pegs (upd_links f c) = pc_pegs c" "pc_active (upd_links f c) = pc_active c"
  "pc_high_water (upd_links f c) = pc_high_water c" "pc_bid (upd_links f c) = pc_bid c" "pc_ask (upd_links f c) = pc_ask c"
  "pc_oob (upd_links f c) = pc_oob c" "pc_links (upd_links f c) = f (pc_links c)"
  by (simp_all add: upd_links_def)

lemma core_inv_irrelevant [simp]:
  "core_inv H (c\<lparr>pc_bid := x\<rparr>) = core_inv H c" "core_inv H (c\<lparr>pc_ask := x\<rparr>) = core_inv H c"
  "core_inv H (c\<lparr>pc_active := a\<rparr>) = core_inv H c" "core_inv H (c\<lparr>pc_high_water := a\<rparr>) = core_inv H c"
  "core_inv H (c\<lparr>pc_pegs := g\<rparr>) = core_inv H c" "core_inv H (c\<lparr>pc_oob := f\<rparr>) = core_inv H c"
  by (simp_all add: core_inv_def slots_ok_def level_ok_def index_ok_def links_ok_def Let_def)

lemma core_inv_refresh [simp]:
  "core_inv H (refresh_best_bid_from x c) = core_inv H c" "core_inv H (refresh_best_ask_from x c) = core_inv H c"
  "core_inv H (improve_best side p c) = core_inv H c" "core_inv H (past_empty_level side p c) = core_inv H c"
  by (simp_all add: refresh_best_bid_from_def refresh_best_ask_from_def improve_best_def past_empty_level_def)

lemma refresh_frame [simp]:
  "pc_pool (refresh_best_bid_from x c) = pc_pool c" "pc_pool (refresh_best_ask_from x c) = pc_pool c"
  "pc_levels (refresh_best_bid_from x c) = pc_levels c" "pc_levels (refresh_best_ask_from x c) = pc_levels c"
  "pc_index (refresh_best_bid_from x c) = pc_index c" "pc_index (refresh_best_ask_from x c) = pc_index c"
  "pc_MAX (refresh_best_bid_from x c) = pc_MAX c" "pc_MAX (refresh_best_ask_from x c) = pc_MAX c"
  "pc_LEVELS (refresh_best_bid_from x c) = pc_LEVELS c" "pc_LEVELS (refresh_best_ask_from x c) = pc_LEVELS c"
  "pc_free (refresh_best_bid_from x c) = pc_free c" "pc_free (refresh_best_ask_from x c) = pc_free c"
  "pc_stops (refresh_best_bid_from x c) = pc_stops c" "pc_stops (refresh_best_ask_from x c) = pc_stops c"
  "pc_active (refresh_best_bid_from x c) = pc_active c" "pc_active (refresh_best_ask_from x c) = pc_active c"
  by (simp_all add: refresh_best_bid_from_def refresh_best_ask_from_def)

section \<open>Steps of the core\<close>

lemma plevel_full [simp]:
  "l\<lparr>lv_queue := xs, lv_total := t, lv_hidden := h, lv_count := n\<rparr> = \<lparr>lv_queue = xs, lv_total = t, lv_hidden = h, lv_count = n\<rparr>"
  by (cases l) simp

text \<open>Sums over a queue when one slot leaves, joins or changes.\<close>

lemma sum_remove1: "s \<in> set xs \<Longrightarrow> distinct xs \<Longrightarrow> sum_list (map f (remove1 s xs)) = sum_list (map f xs) - (f s :: int)"
  by (simp add: sum_list_map_remove1)

lemma sum_other: "s \<notin> set xs \<Longrightarrow> sum_list (map (\<lambda>x. g ((h(s := y)) x)) xs) = sum_list (map (\<lambda>x. g (h x)) xs)"
  by (intro arg_cong [where f = sum_list] map_cong) auto

lemma sum_changed:
  "s \<in> set xs \<Longrightarrow> distinct xs \<Longrightarrow>
   sum_list (map (\<lambda>x. g ((h(s := y)) x)) xs) = sum_list (map (\<lambda>x. g (h x)) xs) + (g y - g (h s) :: int)"
proof (induction xs)
  case (Cons a xs)
  show ?case
  proof (cases "a = s")
    case True
    then have "s \<notin> set xs" using Cons.prems by simp
    then show ?thesis using True sum_other [of s xs g h y] by simp
  next
    case False
    then show ?thesis using Cons by simp
  qed
qed simp

lemma length_remove1_in: "s \<in> set xs \<Longrightarrow> int (length (remove1 s xs)) = int (length xs) - 1"
  using length_pos_if_in_set [of s xs] by (cases "length xs") (auto simp: length_remove1)

text \<open>A held slot may change as long as it does not become active.\<close>

lemma inv_upd_held:
  assumes "core_inv H c" "s \<in> H" "\<not> is_active x" "held_ok x"
  shows "core_inv H (upd_order s (\<lambda>_. x) c)"
proof -
  have q: "s \<notin> set (lv_queue (pc_levels c p))" for p using queue_iff [OF assms(1)] held [OF assms(1,2)] by blast
  have "level_ok (upd_order s (\<lambda>_. x) c) p" for p
    using assms(1) q [of p] sum_other [OF q, of po_displayed "pc_pool c" x] sum_other [OF q, of hidden_part "pc_pool c" x]
    by (simp add: core_inv_def level_ok_def upd_order_def Let_def comp_def)
  moreover have "slots_ok H (upd_order s (\<lambda>_. x) c)"
    using assms(1) q assms(2-4) unfolding core_inv_def slots_ok_def upd_order_def by auto
  moreover have "index_ok H (upd_order s (\<lambda>_. x) c)"
    using assms(1,2) by (auto simp: core_inv_def index_ok_def upd_order_def)
  moreover have "links_ok (upd_order s (\<lambda>_. x) c)" using assms(1) by (simp add: core_inv_def links_ok_def upd_order_def)
  ultimately show ?thesis using assms(1) by (simp add: core_inv_def) (simp add: upd_order_def)
qed

text \<open>
  A resting order may change its quantities and lose its place in the queue, the level following with
  the differences of what it shows and hides.
\<close>

lemma inv_requeue:
  assumes "core_inv H c" "s \<in> set (lv_queue (pc_levels c p))" "po_price x = p" "is_active x" "qty_ok x" "po_id x = po_id (pc_pool c s)"
    and "distinct ys" "set ys = set (lv_queue (pc_levels c p))"
    and "l = \<lparr>lv_queue = ys, lv_total = s32 (lv_total (pc_levels c p) + (po_displayed x - po_displayed (pc_pool c s))),
           lv_hidden = s32 (lv_hidden (pc_levels c p) + (hidden_part x - hidden_part (pc_pool c s))), lv_count = lv_count (pc_levels c p)\<rparr>"
    and "links_rep k ((\<lambda>r. lv_queue (pc_levels c r))(p := ys))"
  shows "core_inv H (c\<lparr>pc_pool := (pc_pool c)(s := x), pc_levels := (pc_levels c)(p := l), pc_links := k\<rparr>)" (is "core_inv H ?c")
proof -
  let ?q = "lv_queue (pc_levels c p)"
  have s: "s < pc_MAX c" "is_active (pc_pool c s)" "po_price (pc_pool c s) = p" using queue_iff [OF assms(1)] assms(2) by auto
  have sum: "sum_list (map f ys) = sum_list (map f ?q)" for f :: "nat \<Rightarrow> int"
    using assms(7,8) queue_distinct [OF assms(1)] by (simp add: sum_list_distinct_conv_sum_set)
  have "level_ok ?c p'" for p'
  proof (cases "p' = p")
    case True
    have "level_ok c p" "length ys = length ?q"
      using assms(1,7,8) queue_distinct [OF assms(1), of p] by (simp_all add: core_inv_def) (metis distinct_card)
    then show ?thesis
      using True assms(7,9) sum_changed [OF assms(2) queue_distinct [OF assms(1)], of po_displayed "pc_pool c" x]
        sum_changed [OF assms(2) queue_distinct [OF assms(1)], of hidden_part "pc_pool c" x]
      by (simp add: level_ok_def Let_def comp_def sum wrap_simps)
  next
    case False
    then have q: "s \<notin> set (lv_queue (pc_levels c p'))" using queue_iff [OF assms(1), of s p'] s by simp
    show ?thesis
      using assms(1) False sum_other [OF q, of po_displayed "pc_pool c" x] sum_other [OF q, of hidden_part "pc_pool c" x]
      by (simp add: core_inv_def level_ok_def Let_def comp_def)
  qed
  moreover have "slots_ok H ?c"
    using assms(1,3,4,5,8,9) s unfolding core_inv_def slots_ok_def pending_stop_def is_active_def by (auto simp: fun_upd_def)
  moreover have "index_ok H ?c" using assms(1,6) by (auto simp: core_inv_def index_ok_def)
  moreover have "links_ok ?c" by (rule links_ok_upd [of _ c p ys l]) (simp_all add: assms(9,10))
  ultimately show ?thesis using assms(1) by (simp add: core_inv_def)
qed

text \<open>The same with the place in the queue kept.\<close>

lemma inv_requantify:
  assumes "core_inv H c" "s \<in> set (lv_queue (pc_levels c p))" "po_price x = p" "is_active x" "qty_ok x" "po_id x = po_id (pc_pool c s)"
    and "l = \<lparr>lv_queue = lv_queue (pc_levels c p), lv_total = s32 (lv_total (pc_levels c p) + (po_displayed x - po_displayed (pc_pool c s))),
           lv_hidden = s32 (lv_hidden (pc_levels c p) + (hidden_part x - hidden_part (pc_pool c s))), lv_count = lv_count (pc_levels c p)\<rparr>"
  shows "core_inv H (c\<lparr>pc_pool := (pc_pool c)(s := x), pc_levels := (pc_levels c)(p := l)\<rparr>)"
proof -
  have "links_rep (pc_links c) ((\<lambda>r. lv_queue (pc_levels c r))(p := lv_queue (pc_levels c p)))"
    using assms(1) by (simp add: core_inv_def links_ok_def fun_upd_idem)
  from inv_requeue [OF assms(1-6) queue_distinct [OF assms(1)] refl assms(7) this] show ?thesis
    by (rule rev_iffD1) (intro arg_cong [where f = "core_inv H"] pcore.equality, simp_all)
qed

text \<open>A resting order leaves its queue for the free list; the level loses what the order had in it.\<close>

definition retire :: "BookOrderStatus \<Rightarrow> nat \<Rightarrow> plevel \<Rightarrow> pcore \<Rightarrow> pcore" where
  "retire st s l c = (let x = pc_pool c s
     in c\<lparr>pc_pool := (pc_pool c)(s := x\<lparr>po_status := st\<rparr>), pc_levels := (pc_levels c)(po_price x := l),
           pc_links := link_unlink (po_price x) s (pc_links c),
           pc_index := AList.delete (po_id x) (pc_index c), pc_free := s # pc_free c\<rparr>)"

lemma inv_retire:
  assumes "core_inv H c" "s < pc_MAX c" "is_active (pc_pool c s)" "st \<noteq> S_OPEN" "st \<noteq> S_PARTIALLY_FILLED"
    and "l0 = pc_levels c (po_price (pc_pool c s))"
    and "l = \<lparr>lv_queue = remove1 s (lv_queue l0), lv_total = s32 (lv_total l0 - po_displayed (pc_pool c s)),
           lv_hidden = s32 (lv_hidden l0 - hidden_part (pc_pool c s)), lv_count = lv_count l0 - 1\<rparr>"
  shows "core_inv H (retire st s l c)" (is "core_inv H ?c")
proof -
  let ?x = "pc_pool c s" let ?p = "po_price ?x"
  have q: "s \<in> set (lv_queue l0)" "distinct (lv_queue l0)" using queue_iff [OF assms(1)] queue_distinct [OF assms(1)] assms(2,3,6) by auto
  have n: "\<not> is_active (?x\<lparr>po_status := st\<rparr>)" "\<not> pending_stop ?x" using assms(3-5) by (auto simp: is_active_def pending_stop_def)
  have "level_ok ?c p" for p
  proof (cases "p = ?p")
    case True
    let ?r = "remove1 s (lv_queue l0)"
    have r: "s \<notin> set ?r" using q(2) by simp
    show ?thesis
      using True assms(1,6,7) q sum_other [OF r, of po_displayed "pc_pool c" "?x\<lparr>po_status := st\<rparr>"]
        sum_other [OF r, of hidden_part "pc_pool c" "?x\<lparr>po_status := st\<rparr>"] sum_remove1 [OF q, of "\<lambda>y. po_displayed (pc_pool c y)"]
        sum_remove1 [OF q, of "\<lambda>y. hidden_part (pc_pool c y)"] length_remove1_in [OF q(1)]
      by (simp add: core_inv_def level_ok_def retire_def Let_def comp_def distinct_remove1 wrap_simps)
  next
    case False
    then have r: "s \<notin> set (lv_queue (pc_levels c p))" using queue_iff [OF assms(1), of s p] by simp
    show ?thesis
      using assms(1) False sum_other [OF r, of po_displayed "pc_pool c" "?x\<lparr>po_status := st\<rparr>"]
        sum_other [OF r, of hidden_part "pc_pool c" "?x\<lparr>po_status := st\<rparr>"]
      by (simp add: core_inv_def level_ok_def retire_def Let_def comp_def)
  qed
  moreover have "slots_ok H ?c"
    using assms(1-3,6,7) q n unfolding core_inv_def slots_ok_def retire_def Let_def by (auto simp: fun_upd_def)
  moreover have "index_ok H ?c"
    using assms(1) by (auto simp: core_inv_def index_ok_def retire_def Let_def delete_conv' hm_wf_delete)
  moreover have "links_ok ?c"
    by (rule links_ok_upd [of _ c ?p "remove1 s (lv_queue l0)" l])
      (use assms(1,6,7) q(1) links_unlink [of "pc_links c" "\<lambda>p. lv_queue (pc_levels c p)" s ?p]
        in \<open>simp_all add: core_inv_def links_ok_def retire_def Let_def\<close>)
  ultimately show ?thesis using assms(1) by (simp add: core_inv_def) (simp add: retire_def Let_def)
qed

text \<open>A held order joins the queue of its price; one more for a slot that is handed back.\<close>

definition settle_in :: "nat \<Rightarrow> porder \<Rightarrow> plevel \<Rightarrow> pcore \<Rightarrow> pcore" where
  "settle_in s x l c = c\<lparr>pc_pool := (pc_pool c)(s := x), pc_levels := (pc_levels c)(po_price x := l), pc_links := link_enqueue (po_price x) s (pc_links c),
     pc_index := AList.update (po_id x) s (pc_index c)\<rparr>"

lemma inv_settle_in:
  assumes "core_inv H c" "s \<in> H" "is_active x" "qty_ok x" "l0 = pc_levels c (po_price x)"
    and "l = \<lparr>lv_queue = lv_queue l0 @ [s], lv_total = s32 (lv_total l0 + po_displayed x), lv_hidden = s32 (lv_hidden l0 + hidden_part x),
           lv_count = s32 (lv_count l0 + 1)\<rparr>"
  shows "core_inv (H - {s}) (settle_in s x l c)" (is "core_inv _ ?c")
proof -
  have q: "s \<notin> set (lv_queue (pc_levels c p))" for p using queue_iff [OF assms(1)] held [OF assms(1,2)] by blast
  have n: "\<not> pending_stop x" using assms(3) by (auto simp: is_active_def pending_stop_def)
  have len: "int (length (lv_queue l0)) + 1 < 2 ^ 31"
  proof -
    have "card (insert s (set (lv_queue l0))) \<le> card {..<pc_MAX c}"
      by (rule card_mono) (use queue_iff [OF assms(1)] held [OF assms(1,2)] assms(5) in auto)
    then have "length (lv_queue l0) + 1 \<le> pc_MAX c"
      using queue_distinct [OF assms(1), of "po_price x"] q assms(5) by (simp add: distinct_card)
    then show ?thesis using assms(1) by (auto simp: core_inv_def)
  qed
  have "level_ok ?c p" for p
    using assms(1,5,6) q [of p] len sum_other [OF q [of p], of po_displayed "pc_pool c" x] sum_other [OF q [of p], of hidden_part "pc_pool c" x]
    by (auto simp: core_inv_def level_ok_def settle_in_def Let_def comp_def wrap_simps s32_id)
  moreover have "slots_ok (H - {s}) ?c"
    using assms(1-5) q n held [OF assms(1,2)] unfolding core_inv_def slots_ok_def settle_in_def assms(6) by (auto simp: fun_upd_def)
  moreover have "index_ok (H - {s}) ?c"
    using assms(1,2) held [OF assms(1,2)] by (auto simp: core_inv_def index_ok_def slots_ok_def settle_in_def update_conv' hm_wf_update)
  moreover have "links_ok ?c"
    by (rule links_ok_upd [of _ c "po_price x" "lv_queue l0 @ [s]" l])
      (use assms(1,5,6) q links_enqueue [of "pc_links c" "\<lambda>p. lv_queue (pc_levels c p)" s "po_price x"]
        in \<open>simp_all add: core_inv_def links_ok_def settle_in_def\<close>)
  ultimately show ?thesis using assms(1) by (simp add: core_inv_def) (simp add: settle_in_def)
qed

lemma inv_free_held:
  assumes "core_inv H c" "s \<in> H"
  shows "core_inv (H - {s}) (free_order s c)"
  using assms held [OF assms] unfolding core_inv_def slots_ok_def level_ok_def index_ok_def links_ok_def free_order_def Let_def by auto

lemma inv_alloc:
  assumes "core_inv H c" "alloc_order c = Some (s, c')"
  shows "core_inv (insert s H) c'" "s \<notin> H" "pc_levels c' = pc_levels c" "pc_LEVELS c' = pc_LEVELS c"
proof -
  obtain fs where fr: "pc_free c = s # fs" and c': "c' = c\<lparr>pc_free := fs, pc_pool := (pc_pool c)(s := porder_reset), pc_links := link_reset s (pc_links c),
      pc_active := u64 (pc_active c + 1), pc_high_water := pc_high_water c'\<rparr>"
    using assms(2) by (auto simp: alloc_order_def Let_def split: list.splits)
  have s: "s < pc_MAX c" "\<not> is_active (pc_pool c s)" "s \<notin> set fs" "s \<notin> set (pc_stops c)" "s \<notin> H"
    using assms(1) fr by (auto simp: core_inv_def slots_ok_def)
  let ?d = "c\<lparr>pc_free := fs, pc_pool := (pc_pool c)(s := porder_reset), pc_links := link_reset s (pc_links c)\<rparr>"
  have n: "\<not> is_active porder_reset" "held_ok porder_reset" by (simp_all add: is_active_def porder_reset_def held_ok_def)
  have q: "s \<notin> set (lv_queue (pc_levels c p))" for p using queue_iff [OF assms(1)] s(2) by blast
  have "level_ok ?d p" for p
    using assms(1) q [of p] sum_other [OF q, of po_displayed "pc_pool c" porder_reset] sum_other [OF q, of hidden_part "pc_pool c" porder_reset]
    by (simp add: core_inv_def level_ok_def Let_def comp_def)
  moreover have "slots_ok (insert s H) ?d"
    using assms(1) q fr s n unfolding core_inv_def slots_ok_def by auto
  moreover have "index_ok (insert s H) ?d"
    using assms(1) fr by (auto simp: core_inv_def index_ok_def)
  moreover have "links_ok ?d" using assms(1) q links_rep_reset [of "pc_links c" "\<lambda>p. lv_queue (pc_levels c p)" s] by (simp add: core_inv_def links_ok_def)
  ultimately have "core_inv (insert s H) ?d" using assms(1) by (simp add: core_inv_def)
  then show "core_inv (insert s H) c'" by (subst c') simp
  show "s \<notin> H" "pc_levels c' = pc_levels c" "pc_LEVELS c' = pc_LEVELS c" using s(5) by simp_all (subst c', simp)+
qed

section \<open>What does not touch the core\<close>

lemma core_frame [simp]:
  "pb_core (emit now ev oid mid px q st rr cid b) = pb_core b"
  "pb_core (push_audit now ev oid side px q st b) = pb_core b"
  "pb_core (push_delta ty ch px q b) = pb_core b"
  "pb_core (upd_exposure cid f b) = pb_core b"
  "pb_core (exposure_on_submit cid side q b) = pb_core b"
  "pb_core (stuffing_check cid b) = pb_core b"
  "pb_core (exposure_on_cancel cid side q b) = pb_core b"
  "pb_core (exposure_on_fill cid side q b) = pb_core b"
  "pb_core (tag_aggressor_volume cid q b) = pb_core b"
  "pb_core (tag_passive_volume cid q b) = pb_core b"
  "pb_core (account_vwap_on_fill cid px q b) = pb_core b"
  "pb_core (mmp_on_maker_fill now cid b) = pb_core b"
  "pb_core (tally_rejection r b) = pb_core b"
  "pb_core (tally_accept oty tif b) = pb_core b"
  "pb_core (record_first_fill_latency sub fill b) = pb_core b"
  "pb_core (record_lifecycle_age now sub b) = pb_core b"
  "pb_core (upd_stats fs b) = pb_core b"
  "pb_core (upd_count fc b) = pb_core b"
  "pb_core (record_trade mkr tkr px q side tm b) = pb_core b"
  "pb_core (oco_on_complete oid b) = pb_core b"
  "pb_core (bracket_on_full_fill oid b) = pb_core b"
  "pb_core (erase_bracket oid b) = pb_core b"
  "pb_core (count_cancelled x b) = pb_core b"
  "pb_core (pop_oco b) = pb_core b"
  "pb_core (shortfall y px q b) = pb_core b"
  "pb_core (count_stp tk m b) = pb_core b"
  "pb_core (sweep_stats y mid lc b) = pb_core b"
  "pb_core (note_peak b) = pb_core b"
  "pb_core (reject_quietly r b) = pb_core b"
  "pb_core (set_internal fl b) = pb_core b"
  "pb_core (halt_for_auction b) = pb_core b"
  "pb_core (pro_halt rs b) = pb_core b"
  "pb_core (pop_bracket b) = pb_core b"
  by (simp_all add: emit_def push_audit_def push_delta_def upd_exposure_def exposure_on_submit_def stuffing_check_def exposure_on_cancel_def
      exposure_on_fill_def tag_aggressor_volume_def tag_passive_volume_def account_vwap_on_fill_def mmp_on_maker_fill_def tally_rejection_def
      tally_accept_def record_first_fill_latency_def record_lifecycle_age_def upd_stats_def upd_count_def record_trade_def oco_on_complete_def
      bracket_on_full_fill_def erase_bracket_def count_cancelled_def pop_oco_def shortfall_def count_stp_def sweep_stats_def note_peak_def
      reject_quietly_def set_internal_def halt_for_auction_def pro_halt_def pop_bracket_def Let_def split: option.splits prod.splits)

lemma core_frame2 [simp]:
  "pb_core (fill_accounts tm x y q b) = pb_core b"
  "pb_core (reject now a r b) = pb_core b"
  "pb_core (luld_breach b) = pb_core b"
  "pb_core (fst (consume_rate_token now cid b)) = pb_core b"
  "pb_core (fst (link_oco u v b)) = pb_core b"
  "pb_core (fst (unlink_oco u b)) = pb_core b"
  by (simp_all add: fill_accounts_def reject_def luld_breach_def consume_rate_token_def link_oco_def unlink_oco_def Let_def split: option.splits)

lemma admit_core [simp]: "pb_core (fst (admit now a b)) = pb_core b"
proof -
  let ?t = "if rate_on (pb_guard b) \<and> \<not> internal_submit (pb_guard b) \<and> sa_client a \<noteq> 0 then consume_rate_token now (sa_client a) b else (b, True)"
  obtain b1 ok where e: "?t = (b1, ok)" by (cases ?t)
  have "pb_core b1 = pb_core b" using e core_frame2(4) [of now "sa_client a" b] by (metis Pair_inject fst_conv)
  then show ?thesis unfolding admit_def Let_def e by simp
qed

section \<open>Cancelling keeps the invariant\<close>

definition book_inv :: "nat set \<Rightarrow> pbook \<Rightarrow> bool" where
  "book_inv H b \<longleftrightarrow> core_inv H (pb_core b)"

lemma cancel_internal_core:
  "is_active (order_at b s) \<Longrightarrow> pb_core (cancel_internal now s ev b) =
     free_order s (erase_index (po_id (order_at b s)) (set_status S_CANCELLED s (leave_level s (pb_core b))))"
  by (simp add: cancel_internal_def Let_def)

lemma leave_level_frame [simp]:
  "pc_pool (leave_level s c) = pc_pool c" "pc_index (leave_level s c) = pc_index c" "pc_free (leave_level s c) = pc_free c"
  "pc_stops (leave_level s c) = pc_stops c" "pc_pegs (leave_level s c) = pc_pegs c" "pc_active (leave_level s c) = pc_active c"
  "pc_high_water (leave_level s c) = pc_high_water c" "pc_MAX (leave_level s c) = pc_MAX c" "pc_LEVELS (leave_level s c) = pc_LEVELS c"
  by (simp_all add: leave_level_def unlink_from_level_def upd_level_def upd_links_def refresh_best_bid_from_def refresh_best_ask_from_def Let_def)

lemma leave_level_levels: "pc_levels (leave_level s c) = pc_levels (unlink_from_level s c)"
  "pc_links (leave_level s c) = link_unlink (po_price (pc_pool c s)) s (pc_links c)"
  "lv_count (pc_levels c (po_price (pc_pool c s))) > 0 \<Longrightarrow>
   pc_levels (unlink_from_level s c) = (let x = pc_pool c s; l = pc_levels c (po_price x) in (pc_levels c)(po_price x :=
     \<lparr>lv_queue = remove1 s (lv_queue l), lv_total = s32 (lv_total l - po_displayed x), lv_hidden = s32 (lv_hidden l - hidden_part x),
       lv_count = lv_count l - 1\<rparr>))"
  by (simp_all add: leave_level_def unlink_from_level_def upd_level_def upd_links_def refresh_best_bid_from_def refresh_best_ask_from_def Let_def)

lemma leave_retire:
  assumes "core_inv H c" "s < pc_MAX c" "is_active (pc_pool c s)" "x = pc_pool c s" "l0 = pc_levels c (po_price x)"
  shows "\<exists>bd ak oo. free_order s (erase_index (po_id x) (set_status st s (leave_level s c))) =
    (retire st s \<lparr>lv_queue = remove1 s (lv_queue l0), lv_total = s32 (lv_total l0 - po_displayed x),
       lv_hidden = s32 (lv_hidden l0 - hidden_part x), lv_count = lv_count l0 - 1\<rparr> c)
      \<lparr>pc_bid := bd, pc_ask := ak, pc_active := u64 (pc_active c - 1), pc_oob := oo\<rparr>"
proof -
  have "s \<in> set (lv_queue l0)" "lv_count l0 = int (length (lv_queue l0))"
    using queue_iff [OF assms(1)] assms by (auto simp: core_inv_def level_ok_def Let_def)
  then have "lv_count l0 > 0" by (metis length_pos_if_in_set of_nat_0_less_iff)
  then show ?thesis
    using assms(4,5)
    by (intro exI [of _ "pc_bid (leave_level s c)"] exI [of _ "pc_ask (leave_level s c)"] exI [of _ "pc_oob (leave_level s c)"])
      (rule pcore.equality, simp_all add: retire_def set_status_def upd_order_def erase_index_def free_order_def Let_def leave_level_levels)
qed

lemma inv_cancel_internal:
  assumes "book_inv H b" "s < pc_MAX (pb_core b)"
  shows "book_inv H (cancel_internal now s ev b)"
proof (cases "is_active (order_at b s)")
  case True
  let ?c = "pb_core b" let ?x = "pc_pool ?c s" let ?l0 = "pc_levels ?c (po_price ?x)"
  have a: "core_inv H ?c" "is_active ?x" using assms True by (simp_all add: book_inv_def order_at_def)
  from leave_retire [OF a(1) assms(2) a(2) refl refl, of S_CANCELLED] show ?thesis
    using inv_retire [OF a(1) assms(2) a(2), of S_CANCELLED, OF _ _ refl refl] True
    by (auto simp: book_inv_def cancel_internal_core order_at_def)
next
  case False
  then show ?thesis using assms by (simp add: cancel_internal_def)
qed

lemma swap_erase_split:
  assumes "x \<in> set xs" "distinct xs"
  shows "distinct (swap_erase x xs) \<and> set (swap_erase x xs) = set xs - {x}"
proof -
  obtain ys zs where xs: "xs = ys @ x # zs" "x \<notin> set ys" using split_list_first [OF assms(1)] by blast
  then have tw: "takeWhile (\<lambda>y. y \<noteq> x) xs = ys" by (subst xs(1), subst takeWhile_append2) auto
  show ?thesis
  proof (cases zs rule: rev_cases)
    case Nil
    then show ?thesis using xs tw assms(2) by (simp add: swap_erase_def butlast_append)
  next
    case (snoc us w)
    then have "swap_erase x xs = ys @ w # us" using xs(1) tw by (simp add: swap_erase_def list_update_append butlast_append)
    then show ?thesis using xs(1) snoc assms(2) by auto
  qed
qed

lemma upd_order_erase: "upd_order s f (erase_index k c) = erase_index k (upd_order s f c)"
  by (cases c) (simp add: upd_order_def erase_index_def)

lemma inv_cancel_pending_stop:
  assumes "book_inv H b"
  shows "book_inv H (fst (cancel_pending_stop now s b))"
proof (cases "s \<in> set (pc_stops (pb_core b))")
  case True
  let ?c = "pb_core b"
  have i: "core_inv H ?c" using assms by (simp add: book_inv_def)
  then have s: "s < pc_MAX ?c" "pending_stop (pc_pool ?c s)" "s \<notin> H" "s \<notin> set (pc_free ?c)" "distinct (pc_stops ?c)" "held_ok (pc_pool ?c s)"
    using True by (auto simp: core_inv_def slots_ok_def)
  note e = swap_erase_split [OF True s(5)]
  have na: "\<not> is_active (pc_pool ?c s)" using s(2) by (auto simp: pending_stop_def is_active_def)
  have "core_inv (insert s H) (erase_index (po_id (pc_pool ?c s)) (?c\<lparr>pc_stops := swap_erase s (pc_stops ?c)\<rparr>))"
    using i s e na unfolding core_inv_def slots_ok_def level_ok_def index_ok_def links_ok_def erase_index_def Let_def by (auto simp: delete_conv' hm_wf_delete)
  from inv_upd_held [OF this, of s "(pc_pool ?c s)\<lparr>po_status := S_CANCELLED\<rparr>"] s(6)
  have "core_inv (insert s H) (upd_order s (\<lambda>_. (pc_pool ?c s)\<lparr>po_status := S_CANCELLED\<rparr>) (erase_index (po_id (pc_pool ?c s)) (?c\<lparr>pc_stops := swap_erase s (pc_stops ?c)\<rparr>)))"
    by (simp add: is_active_def held_ok_def)
  from inv_free_held [OF this [unfolded upd_order_erase], of s] show ?thesis
    using s(3) True by (simp add: book_inv_def cancel_pending_stop_def Let_def order_at_def set_status_def upd_order_def erase_index_def free_order_def)
next
  case False
  then show ?thesis using assms by (simp add: cancel_pending_stop_def)
qed

lemma inv_cancel_slot: "book_inv H b \<Longrightarrow> s < pc_MAX (pb_core b) \<Longrightarrow> book_inv H (cancel_slot now s b)"
  by (simp add: cancel_slot_def inv_cancel_pending_stop inv_cancel_internal)

lemma book_inv_links [simp]:
  "book_inv H (b\<lparr>pb_links := k\<rparr>) = book_inv H b" "book_inv H (b\<lparr>pb_guard := g\<rparr>) = book_inv H b" "book_inv H (b\<lparr>pb_exec := e\<rparr>) = book_inv H b"
  by (simp_all add: book_inv_def)

lemma inv_oco_loop: "book_inv H b \<Longrightarrow> book_inv H (oco_loop n now b)"
proof (induction n arbitrary: b)
  case (Suc n)
  have p: "book_inv H (pop_oco b)" using Suc.prems by (simp add: pop_oco_def)
  show ?case
  proof (cases "map_of (pc_index (pb_core (pop_oco b))) (List.last (oco_pending (pb_links b)))")
    case None
    then show ?thesis using Suc.IH [OF p] Suc.prems by simp
  next
    case (Some s)
    then have "s < pc_MAX (pb_core b)" using index_live Suc.prems by (auto simp: book_inv_def)
    then show ?thesis using Some Suc.prems p by (simp add: Suc.IH inv_cancel_slot Let_def)
  qed
qed simp

lemma inv_process_oco [simp]: "book_inv H b \<Longrightarrow> book_inv H (process_oco_pending now b)"
  by (simp add: process_oco_pending_def inv_oco_loop)

lemma MAX_fixed [simp]:
  "pc_MAX (pb_core (cancel_internal now s ev b)) = pc_MAX (pb_core b)"
  "pc_MAX (pb_core (fst (cancel_pending_stop now s b))) = pc_MAX (pb_core b)"
  by (simp_all add: cancel_internal_def cancel_pending_stop_def Let_def free_order_def erase_index_def set_status_def upd_order_def)

lemma inv_fold_cancel:
  "book_inv H b \<Longrightarrow> \<forall>s \<in> set ss. s < pc_MAX (pb_core b) \<Longrightarrow> book_inv H (fold (\<lambda>s. cancel_internal now s True) ss b)"
  by (induction ss arbitrary: b) (simp_all add: inv_cancel_internal)

lemma inv_fold_stops:
  "book_inv H (fst z) \<Longrightarrow>
   book_inv H (fst (fold (\<lambda>s (x, k). let (y, ok) = cancel_pending_stop now s x in (y, if ok then k + 1 else k)) ss z))"
proof (induction ss arbitrary: z)
  case (Cons s ss)
  obtain x k where z: "z = (x, k)" by (cases z)
  obtain y ok where y: "cancel_pending_stop now s x = (y, ok)" by (cases "cancel_pending_stop now s x")
  have "book_inv H y" using inv_cancel_pending_stop [of H x now s] Cons.prems z y by simp
  then show ?case using Cons.IH [of "(y, if ok then k + 1 else k)"] by (simp add: z y)
qed simp

lemma inv_mass_cancel:
  assumes "book_inv H b"
  shows "book_inv H (fst (mass_cancel now cid b))"
proof -
  have m: "s < pc_MAX (pb_core b)" if "s \<in> set (map snd (pc_index (pb_core b)))" for s
  proof -
    from that obtain k where "(k, s) \<in> set (pc_index (pb_core b))" by auto
    moreover have "hm_wf (pc_index (pb_core b))" using assms by (simp add: book_inv_def core_inv_def index_ok_def)
    ultimately have "map_of (pc_index (pb_core b)) k = Some s" by simp
    then show ?thesis using index_live assms by (auto simp: book_inv_def)
  qed
  let ?act = "filter (\<lambda>s. is_active (order_at b s)) (filter (\<lambda>s. po_client (order_at b s) = cid) (map snd (pc_index (pb_core b))))"
  let ?stp = "filter (\<lambda>s. \<not> is_active (order_at b s) \<and> pending_stop (order_at b s)) (filter (\<lambda>s. po_client (order_at b s) = cid) (map snd (pc_index (pb_core b))))"
  let ?b1 = "fold (\<lambda>s. cancel_internal now s True) ?act b"
  let ?z = "fold (\<lambda>s (x, k). case cancel_pending_stop now s x of (y, ok) \<Rightarrow> (y, if ok then k + 1 else k)) ?stp (?b1, length ?act)"
  have "book_inv H ?b1" using inv_fold_cancel [OF assms, of ?act now] m by (auto simp del: set_map)
  then have z: "book_inv H (fst ?z)" using inv_fold_stops [of H "(?b1, length ?act)" now ?stp] unfolding Let_def by simp
  obtain b2 n where r: "?z = (b2, n)" by (cases ?z)
  have "book_inv H b2" using z unfolding r by simp
  then have "book_inv H (process_oco_pending now (upd_stats (\<lambda>t. t\<lparr>bs_mass_cancels := u64 (bs_mass_cancels t + int n)\<rparr>) b2))"
    by (intro inv_process_oco) (simp add: book_inv_def)
  then show ?thesis unfolding mass_cancel_def Let_def r by simp
qed

section \<open>The pending cancels of linked orders\<close>

text \<open>A cancel adds an entry to the queue of linked orders only while it removes a pair of links.\<close>

definition oco_size :: "pbook \<Rightarrow> nat" where
  "oco_size b = length (oco_pending (pb_links b)) + length (oco_partner (pb_links b))"

lemma links_frame [simp]:
  "pb_links (emit now ev oid mid px q st rr cid b) = pb_links b"
  "pb_links (push_audit now ev oid side px q st b) = pb_links b"
  "pb_links (push_delta ty ch px q b) = pb_links b"
  "pb_links (exposure_on_cancel cid side q b) = pb_links b"
  "pb_links (record_lifecycle_age now sub b) = pb_links b"
  "pb_links (upd_stats fs b) = pb_links b"
  "pb_links (upd_count fc b) = pb_links b"
  "pb_links (count_cancelled x b) = pb_links b"
  "pb_links (on_core f b) = pb_links b"
  by (simp_all add: emit_def push_audit_def push_delta_def exposure_on_cancel_def upd_exposure_def record_lifecycle_age_def upd_stats_def upd_count_def
      count_cancelled_def stuffing_check_def Let_def split: option.splits prod.splits)

lemma oco_erase [simp]: "oco_size (erase_bracket oid b) = oco_size b"
  by (simp add: erase_bracket_def oco_size_def)

lemma length_delete_le: "length (AList.delete k m) \<le> length m"
  by (simp add: AList.delete_eq)

lemma length_delete_lt: "map_of m k = Some v \<Longrightarrow> length (AList.delete k m) < length m"
proof (induction m)
  case (Cons x m)
  then show ?case using length_delete_le [of k m] by (auto split: if_splits)
qed simp

lemma oco_complete_size: "oco_size (oco_on_complete oid b) \<le> oco_size b"
proof (cases "map_of (oco_partner (pb_links b)) oid")
  case None
  then show ?thesis by (simp add: oco_on_complete_def)
next
  case (Some p)
  then show ?thesis
    using length_delete_lt [OF Some] length_delete_le [of p "AList.delete oid (oco_partner (pb_links b))"] by (simp add: oco_on_complete_def oco_size_def Let_def)
qed

lemma oco_size_frame [simp]:
  "oco_size (push_delta ty ch px q b) = oco_size b" "oco_size (upd_stats fs b) = oco_size b" "oco_size (b\<lparr>pb_core := c\<rparr>) = oco_size b"
  "oco_size (emit now ev oid mid px q st rr cid b) = oco_size b" "oco_size (push_audit now ev oid side px q st b) = oco_size b"
  "oco_size (exposure_on_cancel cid side q b) = oco_size b" "oco_size (record_lifecycle_age now sub b) = oco_size b"
  "oco_size (upd_count fc b) = oco_size b" "oco_size (count_cancelled x b) = oco_size b"
  by (simp_all add: oco_size_def)

lemma oco_cancel_size: "oco_size (cancel_slot now s b) \<le> oco_size b"
proof -
  have le: "oco_size (oco_on_complete oid b') \<le> oco_size b" if "oco_size b' = oco_size b" for b' oid
    using oco_complete_size [of oid b'] that by simp
  have "oco_size (cancel_internal now s True b) \<le> oco_size b"
    unfolding cancel_internal_def Let_def by (auto intro!: le)
  moreover have "oco_size (fst (cancel_pending_stop now s b)) \<le> oco_size b"
    unfolding cancel_pending_stop_def Let_def by (auto intro!: le)
  ultimately show ?thesis by (simp add: cancel_slot_def)
qed

lemma oco_loop_empties: "oco_size b \<le> n \<Longrightarrow> oco_pending (pb_links (oco_loop n now b)) = []"
proof (induction n arbitrary: b)
  case 0
  then show ?case by (simp add: oco_size_def)
next
  case (Suc n)
  show ?case
  proof (cases "oco_pending (pb_links b) = []")
    case False
    have p: "oco_size (pop_oco b) \<le> n" using Suc.prems False by (cases "oco_pending (pb_links b)") (auto simp: pop_oco_def oco_size_def)
    let ?t = "\<lambda>b1. b1\<lparr>pb_links := (pb_links b1)\<lparr>oco_triggered := inc64 (oco_triggered (pb_links b1))\<rparr>\<rparr>"
    have "oco_size (cancel_slot now s (?t (pop_oco b))) \<le> n" for s
      using oco_cancel_size [of now s "?t (pop_oco b)"] p by (simp add: oco_size_def)
    then show ?thesis using False Suc.IH [OF p] Suc.IH by (auto simp: Let_def split: option.splits)
  qed simp
qed

text \<open>The loop's bound is enough: it leaves nothing pending.\<close>

lemma process_oco_empties: "oco_pending (pb_links (process_oco_pending now b)) = []"
  by (simp add: process_oco_pending_def oco_loop_empties oco_size_def)

end
