(* ===== verification/Pro_Run.thy ===== *)
theory Pro_Run
  imports Pro_Inv
begin

text \<open>
  The invariant of \<^term>\<open>core_inv\<close> through matching, submit and modify, and what follows for runs of
  the book.
\<close>

section \<open>The next maker\<close>

lemma dropWhile_first: "m \<notin> set ys \<Longrightarrow> dropWhile (\<lambda>y. y \<noteq> m) (ys @ m # zs) = m # zs"
  by (induction ys) auto

lemma next_at_split: "m \<notin> set ys \<Longrightarrow> next_at (ys @ m # zs) m = head_at zs"
  by (simp add: next_at_def head_at_def dropWhile_first split: list.splits)

lemma head_at_in: "head_at xs = Some n \<Longrightarrow> n \<in> set xs"
  by (cases xs) (simp_all add: head_at_def)

lemma next_at_in:
  assumes "next_at xs m = Some n" "distinct xs"
  shows "n \<in> set xs \<and> n \<noteq> m"
proof (cases "m \<in> set xs")
  case True
  then obtain ys zs where xs: "xs = ys @ m # zs" "m \<notin> set ys" using split_list_first [OF True] by auto
  then have "head_at zs = Some n" using assms(1) next_at_split [OF xs(2), of zs] by simp
  then have "n \<in> set zs" by (rule head_at_in)
  moreover have "m \<notin> set zs" using assms(2) unfolding xs(1) by simp
  ultimately show ?thesis unfolding xs(1) by auto
next
  case False
  then have d: "dropWhile (\<lambda>y. y \<noteq> m) xs = []" by (subst dropWhile_eq_Nil_conv) blast
  have "next_at xs m = None" unfolding next_at_def d by simp
  then show ?thesis using assms(1) by simp
qed

lemma to_tail_perm: "distinct xs \<Longrightarrow> m \<in> set xs \<Longrightarrow> distinct (to_tail m xs) \<and> set (to_tail m xs) = set xs"
  by (auto simp: to_tail_def)

section \<open>An execution\<close>

definition stamp :: "int \<Rightarrow> porder \<Rightarrow> porder" where
  "stamp tm x = (if po_first_fill_ts x \<noteq> 0 then x else x\<lparr>po_first_fill_ts := tm\<rparr>)"

lemma note_first_fill_core: "pb_core (note_first_fill tm s b) = upd_order s (stamp tm) (pb_core b)"
  by (simp add: note_first_fill_def Let_def order_at_def upd_order_def stamp_def)

definition filled_by :: "int \<Rightarrow> int \<Rightarrow> porder \<Rightarrow> porder" where
  "filled_by tm q x = stamp tm (x\<lparr>po_filled := po_filled x + q\<rparr>)"

lemma filled_by_simps [simp]:
  "po_filled (filled_by tm q x) = po_filled x + q" "po_displayed (filled_by tm q x) = po_displayed x" "po_total (filled_by tm q x) = po_total x"
  "po_price (filled_by tm q x) = po_price x" "po_status (filled_by tm q x) = po_status x" "po_id (filled_by tm q x) = po_id x"
  "po_side (filled_by tm q x) = po_side x" "po_type (filled_by tm q x) = po_type x" "po_client (filled_by tm q x) = po_client x"
  "po_tif (filled_by tm q x) = po_tif x" "is_active (filled_by tm q x) = is_active x" "po_ice_size (filled_by tm q x) = po_ice_size x"
  by (simp_all add: filled_by_def stamp_def is_active_def)

lemma held_filled: "held_ok x \<Longrightarrow> 0 \<le> q \<Longrightarrow> held_ok (filled_by tm q x)"
  by (auto simp: held_ok_def)

lemma execute_core:
  assumes "m \<noteq> tk" "x = filled_by tm q (order_at b m)"
  shows "pb_core (execute tm p tk m q b) =
    (let c = upd_order tk (filled_by tm q) (pb_core b)
     in c\<lparr>pc_pool := (pc_pool c)(m := x\<lparr>po_displayed := po_displayed x - q\<rparr>),
          pc_levels := (pc_levels c)(p := (pc_levels c p)\<lparr>lv_total := s32 (lv_total (pc_levels c p) - q)\<rparr>), pc_oob := (pc_oob c \<or> \<not> pro_in_range c p)\<rparr>)"
proof -
  have "pb_core (execute tm p tk m q b) = upd_order m (\<lambda>x. x\<lparr>po_displayed := po_displayed x - q\<rparr>) (upd_level p (\<lambda>l. l\<lparr>lv_total := s32 (lv_total l - q)\<rparr>)
      (upd_order tk (stamp tm) (upd_order m (stamp tm) (upd_order tk (\<lambda>y. y\<lparr>po_filled := po_filled y + q\<rparr>)
        (upd_order m (\<lambda>x. x\<lparr>po_filled := po_filled x + q\<rparr>) (pb_core b))))))"
  proof -
    define b1 where "b1 = on_core (\<lambda>c. upd_order tk (\<lambda>y. y\<lparr>po_filled := po_filled y + q\<rparr>) (upd_order m (\<lambda>x. x\<lparr>po_filled := po_filled x + q\<rparr>) c)) b"
    define b2 where "b2 = note_first_fill tm tk (note_first_fill tm m b1)"
    define u v where "u = order_at b2 m" "v = order_at b2 tk"
    define b4 where "b4 = emit tm E_FILL (po_id v) (po_id u) (po_price u) q (if remaining_qty v = 0 then S_FILLED else S_PARTIALLY_FILLED) R_NONE (po_client v)
      (record_trade (po_id u) (po_id v) (po_price u) q (po_side v) tm (fill_accounts tm u v q b2))"
    have "execute tm p tk m q b = on_core (\<lambda>c. upd_order m (\<lambda>x. x\<lparr>po_displayed := po_displayed x - q\<rparr>) (upd_level p (\<lambda>l. l\<lparr>lv_total := s32 (lv_total l - q)\<rparr>) c)) b4"
      unfolding execute_def Let_def b4_def u_v_def b2_def b1_def by (rule refl)
    moreover have "pb_core b4 = pb_core b2" by (simp add: b4_def)
    moreover have "pb_core b2 = upd_order tk (stamp tm) (upd_order m (stamp tm) (pb_core b1))" by (simp add: b2_def note_first_fill_core)
    ultimately show ?thesis by (simp add: b1_def)
  qed
  then show ?thesis
    using assms by (intro pcore.equality) (simp_all add: Let_def upd_order_def upd_level_def order_at_def filled_by_def fun_eq_iff pro_in_range_def)
qed

lemma execute_fields [simp]:
  assumes "m \<noteq> tk"
  shows "order_at (execute tm p tk m q b) tk = filled_by tm q (order_at b tk)"
    and "order_at (execute tm p tk m q b) m = (filled_by tm q (order_at b m))\<lparr>po_displayed := po_displayed (order_at b m) - q\<rparr>"
    and "lv_queue (level_at (execute tm p tk m q b) r) = lv_queue (level_at b r)"
  using assms by (simp_all add: order_at_def level_at_def execute_core [OF assms refl] Let_def upd_order_def)

lemma inv_execute:
  assumes "book_inv H b" "tk \<in> H" "m \<in> set (lv_queue (level_at b p))" "0 \<le> q" "q \<le> po_displayed (order_at b m)"
  shows "book_inv H (execute tm p tk m q b)"
proof -
  let ?c = "pb_core b" let ?d = "upd_order tk (filled_by tm q) ?c" let ?y = "pc_pool ?c m"
  let ?x = "(filled_by tm q ?y)\<lparr>po_displayed := po_displayed ?y - q\<rparr>"
  have i: "core_inv H ?c" using assms(1) by (simp add: book_inv_def)
  have m: "m < pc_MAX ?c" "is_active ?y" "po_price ?y = p" using queue_iff [OF i] assms(3) by (auto simp: level_at_def)
  have t: "m \<noteq> tk" "\<not> is_active (pc_pool ?c tk)" using held [OF i assms(2)] m(2) by auto
  have d: "core_inv H ?d" using inv_upd_held [OF i assms(2), of "filled_by tm q (pc_pool ?c tk)"] t(2) held [OF i assms(2)] held_filled [OF _ assms(4)] by (simp add: upd_order_def)
  have ok: "qty_ok ?x" using queue_qty [OF i m(1,2)] assms(4,5) by (auto simp: qty_ok_def order_at_def remaining_qty_def)
  have act: "is_active ?x" using m(2) by (simp add: is_active_def)
  have hid: "hidden_part ?x = hidden_part ?y" by (simp add: hidden_part_def)
  have "core_inv H (?d\<lparr>pc_pool := (pc_pool ?d)(m := ?x), pc_levels := (pc_levels ?d)(p := (pc_levels ?d p)\<lparr>lv_total := s32 (lv_total (pc_levels ?d p) - q)\<rparr>)\<rparr>)"
  proof (rule inv_requantify [OF d _ _ act ok])
    show "m \<in> set (lv_queue (pc_levels ?d p))" "po_price ?x = p" "po_id ?x = po_id (pc_pool ?d m)"
      using assms(3) m(3) t(1) by (simp_all add: upd_order_def level_at_def)
    have "level_ok ?c p" using i by (simp add: core_inv_def)
    then have "s32 (lv_hidden (pc_levels ?c p)) = lv_hidden (pc_levels ?c p)" by (simp add: level_ok_def Let_def wrap_simps)
    then show "(pc_levels ?d p)\<lparr>lv_total := s32 (lv_total (pc_levels ?d p) - q)\<rparr> = \<lparr>lv_queue = lv_queue (pc_levels ?d p),
        lv_total = s32 (lv_total (pc_levels ?d p) + (po_displayed ?x - po_displayed (pc_pool ?d m))),
        lv_hidden = s32 (lv_hidden (pc_levels ?d p) + (hidden_part ?x - hidden_part (pc_pool ?d m))), lv_count = lv_count (pc_levels ?d p)\<rparr>"
      using t(1) hid by (intro plevel.equality) (simp_all add: upd_order_def)
  qed
  then show ?thesis by (simp add: book_inv_def execute_core [OF t(1) refl] Let_def order_at_def)
qed

section \<open>After the execution\<close>

lemma s32_level: "core_inv H c \<Longrightarrow> s32 (lv_total (pc_levels c p)) = lv_total (pc_levels c p) \<and> s32 (lv_hidden (pc_levels c p)) = lv_hidden (pc_levels c p)"
  by (simp add: core_inv_def level_ok_def Let_def wrap_simps)

lemma inv_same_qty:
  assumes "core_inv H c" "s < pc_MAX c" "is_active (pc_pool c s)" "st = S_OPEN \<or> st = S_PARTIALLY_FILLED"
  shows "core_inv H (set_status st s c)"
proof -
  let ?x = "(pc_pool c s)\<lparr>po_status := st\<rparr>" and ?p = "po_price (pc_pool c s)"
  have "core_inv H (c\<lparr>pc_pool := (pc_pool c)(s := ?x), pc_levels := (pc_levels c)(?p := pc_levels c ?p)\<rparr>)"
  proof (rule inv_requantify [OF assms(1)])
    show "s \<in> set (lv_queue (pc_levels c ?p))" using queue_iff [OF assms(1)] assms(2,3) by blast
    show "is_active ?x" "qty_ok ?x" using assms(4) queue_qty [OF assms(1-3)] by (auto simp: is_active_def qty_ok_def remaining_qty_def)
    show "pc_levels c ?p = \<lparr>lv_queue = lv_queue (pc_levels c ?p), lv_total = s32 (lv_total (pc_levels c ?p) + (po_displayed ?x - po_displayed (pc_pool c s))),
        lv_hidden = s32 (lv_hidden (pc_levels c ?p) + (hidden_part ?x - hidden_part (pc_pool c s))), lv_count = lv_count (pc_levels c ?p)\<rparr>"
      using s32_level [OF assms(1), of ?p] by (intro plevel.equality) (simp_all add: hidden_part_def)
  qed simp_all
  then show ?thesis by (simp add: set_status_def upd_order_def)
qed

lemma plevel_tail: "l\<lparr>lv_total := t, lv_hidden := h, lv_queue := xs\<rparr> = \<lparr>lv_queue = xs, lv_total = t, lv_hidden = h, lv_count = lv_count l\<rparr>"
  by (cases l) simp

lemma plevel_left: "l\<lparr>lv_queue := xs, lv_count := n\<rparr> = \<lparr>lv_queue = xs, lv_total = lv_total l, lv_hidden = lv_hidden l, lv_count = n\<rparr>"
  by (cases l) simp

lemma refresh_iceberg_core:
  assumes "ice_jitter (if po_ice_size x > 0 then po_ice_size x else 100) (pb_exec b) = (w, e)" "x = order_at b m" "d = min (remaining_qty x) w"
    and "c = pb_core b" "l = pc_levels c p"
  shows "pb_core (refresh_iceberg p m b) = c\<lparr>pc_pool := (pc_pool c)(m := x\<lparr>po_displayed := d\<rparr>),
    pc_levels := (pc_levels c)(p := \<lparr>lv_queue = to_tail m (lv_queue l), lv_total = s32 (lv_total l + d), lv_hidden = s32 (lv_hidden l - d), lv_count = lv_count l\<rparr>),
    pc_links := link_to_tail p m (pc_links c), pc_oob := (pc_oob c \<or> \<not> pro_in_range c p)\<rparr>"
proof -
  have "pb_core (refresh_iceberg p m b) = upd_level p (\<lambda>l. l\<lparr>lv_total := s32 (lv_total l + d), lv_hidden := s32 (lv_hidden l - d), lv_queue := to_tail m (lv_queue l)\<rparr>)
      (upd_links (link_to_tail p m) (upd_order m (\<lambda>x. x\<lparr>po_displayed := d\<rparr>) c))"
    using assms(1) unfolding assms(2-5) refresh_iceberg_def Let_def by simp
  then show ?thesis
    using assms(2,4,5) by (intro pcore.equality) (simp_all add: plevel_tail upd_level_def upd_links_def upd_order_def order_at_def pro_in_range_def)
qed

lemma ice_jitter_pos: "0 < w \<Longrightarrow> 0 < fst (ice_jitter w e)"
  by (auto simp: ice_jitter_def Let_def)

lemma inv_refresh_iceberg:
  assumes "book_inv H b" "m \<in> set (lv_queue (level_at b p))" "po_displayed (order_at b m) = 0"
  shows "book_inv H (refresh_iceberg p m b)"
proof -
  let ?c = "pb_core b" let ?x = "pc_pool ?c m"
  obtain w e where j: "ice_jitter (if po_ice_size ?x > 0 then po_ice_size ?x else 100) (pb_exec b) = (w, e)" by fastforce
  have w: "0 < w" using ice_jitter_pos [of "if po_ice_size ?x > 0 then po_ice_size ?x else 100" "pb_exec b"] unfolding j by (simp split: if_splits)
  let ?d = "min (remaining_qty ?x) w"
  have i: "core_inv H ?c" using assms(1) by (simp add: book_inv_def)
  have m: "m < pc_MAX ?c" "is_active ?x" "po_price ?x = p" using queue_iff [OF i] assms(2) by (auto simp: level_at_def)
  have ok: "qty_ok ?x" by (rule queue_qty [OF i m(1,2)])
  have "core_inv H (?c\<lparr>pc_pool := (pc_pool ?c)(m := ?x\<lparr>po_displayed := ?d\<rparr>), pc_levels := (pc_levels ?c)(p :=
     \<lparr>lv_queue = to_tail m (lv_queue (pc_levels ?c p)), lv_total = s32 (lv_total (pc_levels ?c p) + ?d), lv_hidden = s32 (lv_hidden (pc_levels ?c p) - ?d),
       lv_count = lv_count (pc_levels ?c p)\<rparr>), pc_links := link_to_tail p m (pc_links ?c)\<rparr>)"
  proof (rule inv_requeue [OF i])
    show "m \<in> set (lv_queue (pc_levels ?c p))" using assms(2) by (simp add: level_at_def)
    then show "distinct (to_tail m (lv_queue (pc_levels ?c p)))" "set (to_tail m (lv_queue (pc_levels ?c p))) = set (lv_queue (pc_levels ?c p))"
      using to_tail_perm [OF queue_distinct [OF i]] by blast+
    show "links_rep (link_to_tail p m (pc_links ?c)) ((\<lambda>r. lv_queue (pc_levels ?c r))(p := to_tail m (lv_queue (pc_levels ?c p))))"
      using i assms(2) by (intro links_to_tail) (simp_all add: core_inv_def links_ok_def level_at_def)
    show "is_active (?x\<lparr>po_displayed := ?d\<rparr>)" using m(2) by (simp add: is_active_def)
    show "qty_ok (?x\<lparr>po_displayed := ?d\<rparr>)" using ok w by (auto simp: qty_ok_def remaining_qty_def)
  qed (use m(3) assms(3) in \<open>simp_all add: order_at_def hidden_part_def\<close>)
  then show ?thesis unfolding book_inv_def refresh_iceberg_core [OF j order_at_def [symmetric] refl refl refl] by simp
qed

lemma inv_finish_maker:
  assumes "book_inv H b" "m \<in> set (lv_queue (level_at b p))" "po_filled (order_at b m) \<ge> po_total (order_at b m)"
  shows "book_inv H (finish_maker tm p tk m q b)"
proof -
  let ?c = "pb_core b" let ?x = "pc_pool ?c m" let ?l = "pc_levels ?c p"
  let ?l' = "\<lparr>lv_queue = remove1 m (lv_queue ?l), lv_total = lv_total ?l, lv_hidden = lv_hidden ?l, lv_count = lv_count ?l - 1\<rparr>"
  have i: "core_inv H ?c" using assms(1) by (simp add: book_inv_def)
  have m: "m < pc_MAX ?c" "is_active ?x" "po_price ?x = p" using queue_iff [OF i] assms(2) by (auto simp: level_at_def)
  have z: "po_displayed ?x = 0" "hidden_part ?x = 0"
    using queue_qty [OF i m(1,2)] assms(3) by (auto simp: qty_ok_def remaining_qty_def hidden_part_def order_at_def)
  have n: "lv_count ?l > 0" using assms(2) i by (auto simp: core_inv_def level_ok_def Let_def level_at_def dest: length_pos_if_in_set)
  have "core_inv H (retire S_FILLED m ?l' ?c)"
  proof (rule inv_retire [OF i m(1,2) _ _ refl])
    show "?l' = \<lparr>lv_queue = remove1 m (lv_queue (pc_levels ?c (po_price ?x))), lv_total = s32 (lv_total (pc_levels ?c (po_price ?x)) - po_displayed ?x),
       lv_hidden = s32 (lv_hidden (pc_levels ?c (po_price ?x)) - hidden_part ?x), lv_count = lv_count (pc_levels ?c (po_price ?x)) - 1\<rparr>"
      unfolding m(3) z using s32_level [OF i, of p] by simp
  qed simp_all
  moreover have "pb_core (finish_maker tm p tk m q b) = (retire S_FILLED m ?l' ?c)\<lparr>pc_active := u64 (pc_active ?c - 1), pc_oob := (pc_oob ?c \<or> \<not> pro_in_range ?c p)\<rparr>"
    using n m(3) by (intro pcore.equality) (simp_all add: finish_maker_def Let_def set_status_def upd_order_def upd_level_def upd_links_def erase_index_def free_order_def
        order_at_def retire_def pro_in_range_def plevel_left)
  ultimately show ?thesis by (simp add: book_inv_def)
qed

lemma finish_maker_frame:
  "pc_MAX (pb_core (finish_maker tm p tk m q b)) = pc_MAX (pb_core b)"
  "lv_queue (level_at (finish_maker tm p tk m q b) r) = (if r = p then remove1 m (lv_queue (level_at b p)) else lv_queue (level_at b r))"
  by (simp_all add: finish_maker_def Let_def set_status_def upd_order_def upd_level_def upd_links_def erase_index_def free_order_def level_at_def)

lemma refresh_iceberg_frame:
  "lv_queue (level_at (refresh_iceberg p m b) r) = (if r = p then to_tail m (lv_queue (level_at b p)) else lv_queue (level_at b r))"
  by (simp add: refresh_iceberg_def Let_def upd_order_def upd_level_def upd_links_def level_at_def split: prod.splits)

lemma cancel_internal_queue:
  assumes "m \<in> set (lv_queue (level_at b p))" "book_inv H b"
  shows "lv_queue (level_at (cancel_internal now m ev b) p) = remove1 m (lv_queue (level_at b p))"
proof -
  have "is_active (order_at b m)" "po_price (order_at b m) = p"
    using assms queue_iff by (auto simp: book_inv_def level_at_def order_at_def)
  then show ?thesis
    by (simp add: level_at_def cancel_internal_core order_at_def free_order_def erase_index_def set_status_def upd_order_def leave_level_levels(1))
      (simp add: unlink_from_level_def upd_level_def upd_links_def Let_def)
qed

lemma settle_inv:
  assumes "book_inv H b" "m \<in> set (lv_queue (level_at b p))" "settle_maker tm p tk m q b = (b', nx)"
  shows "book_inv H b' \<and> (\<forall>n. nx = Some n \<longrightarrow> n \<in> set (lv_queue (level_at b' p)))"
proof -
  let ?x = "order_at b m" let ?q = "lv_queue (level_at b p)"
  have d: "distinct ?q" using assms(1) queue_distinct by (simp add: book_inv_def level_at_def)
  have n: "n \<in> set ?q \<and> n \<noteq> m" if "nx = Some n" for n
    using that assms(3) next_at_in [OF _ d] by (auto simp: settle_maker_def Let_def split: if_splits)
  have m: "m < pc_MAX (pb_core b)" "is_active (pc_pool (pb_core b) m)" using assms(1,2) queue_iff by (auto simp: book_inv_def level_at_def)
  consider (ice) "po_displayed ?x = 0" "b' = refresh_iceberg p m b" | (full) "po_filled ?x \<ge> po_total ?x" "b' = finish_maker tm p tk m q b"
    | (part) "b' = on_core (set_status S_PARTIALLY_FILLED m) b"
    using assms(3) by (auto simp: settle_maker_def Let_def split: if_splits)
  then show ?thesis
  proof cases
    case ice
    then show ?thesis using inv_refresh_iceberg [OF assms(1,2)] n to_tail_perm [OF d assms(2)] by (auto simp: refresh_iceberg_frame)
  next
    case full
    then show ?thesis using inv_finish_maker [OF assms(1,2)] n d by (auto simp: finish_maker_frame)
  next
    case part
    then show ?thesis
      using inv_same_qty [of H "pb_core b" m] assms(1) m n by (auto simp: book_inv_def level_at_def set_status_def upd_order_def)
  qed
qed

lemma count_stp_frame [simp]:
  "order_at (count_stp tk m b) = order_at b" "level_at (count_stp tk m b) = level_at b" "book_inv H (count_stp tk m b) = book_inv H b"
  by (simp_all add: fun_eq_iff order_at_def level_at_def book_inv_def)

lemma inv_level_step:
  assumes "book_inv H b" "tk \<in> H" "m \<in> set (lv_queue (level_at b p))" "0 < q"
  shows "case level_step tm p tk m q b of Inl (b', q') \<Rightarrow> book_inv H b'
    | Inr (b', nx, q') \<Rightarrow> book_inv H b' \<and> (\<forall>n. nx = Some n \<longrightarrow> n \<in> set (lv_queue (level_at b' p)))"
proof -
  define own where "own \<longleftrightarrow> pb_stp b \<noteq> STP_NONE \<and> same_trading_entity (po_client (order_at b m)) (po_client (order_at b tk)) b"
  define b0 where "b0 = (if own then count_stp tk m b else b)"
  define e where "e = min q (po_displayed (order_at b0 m))"
  obtain b1 nx where s: "settle_maker tm p tk m e (execute tm p tk m e b0) = (b1, nx)" by fastforce
  have i0: "book_inv H b0" "m \<in> set (lv_queue (level_at b0 p))" "level_at b0 = level_at b" using assms(1,3) by (auto simp: b0_def)
  have m: "m < pc_MAX (pb_core b0)" "is_active (pc_pool (pb_core b0) m)" using i0(1,2) queue_iff by (auto simp: book_inv_def level_at_def)
  have t: "m \<noteq> tk" using held [of H "pb_core b0" tk] i0(1) assms(2) m(2) by (auto simp: book_inv_def)
  have c: "book_inv H (cancel_internal tm m True b0)" by (rule inv_cancel_internal [OF i0(1) m(1)])
  have nc: "n \<in> set (lv_queue (level_at (cancel_internal tm m True b0) p))" if "next_at (lv_queue (level_at b0 p)) m = Some n" for n
  proof -
    have d: "distinct (lv_queue (level_at b0 p))" using i0(1) queue_distinct by (auto simp: book_inv_def level_at_def)
    show ?thesis using next_at_in [OF that d] d by (simp add: cancel_internal_queue [OF i0(2,1)])
  qed
  have "0 \<le> e" "e \<le> po_displayed (order_at b0 m)"
    using queue_qty [of H "pb_core b0" m] i0(1) m assms(4) by (auto simp: e_def book_inv_def qty_ok_def order_at_def)
  from inv_execute [OF i0(1) assms(2) i0(2) this] have "book_inv H (execute tm p tk m e b0)" .
  from settle_inv [OF this _ s] have "book_inv H b1 \<and> (\<forall>n. nx = Some n \<longrightarrow> n \<in> set (lv_queue (level_at b1 p)))" using i0(2) t by simp
  moreover have "level_step tm p tk m q b = (if own \<and> pb_stp b = CANCEL_NEWEST then Inl (b0, 0)
      else if own \<and> pb_stp b = CANCEL_OLDEST then Inr (cancel_internal tm m True b0, next_at (lv_queue (level_at b0 p)) m, q)
      else if own \<and> pb_stp b = CANCEL_BOTH then Inl (cancel_internal tm m True b0, 0) else Inr (b1, nx, q - e))"
    using s unfolding level_step_def Let_def own_def [symmetric] b0_def [symmetric] e_def [symmetric] by simp
  ultimately show ?thesis using c nc i0(1) by simp
qed

lemma inv_match_at_level:
  assumes "book_inv H b" "tk \<in> H" "\<forall>m. mo = Some m \<longrightarrow> m \<in> set (lv_queue (level_at b p))" "match_at_level n tm p tk mo q b = Some (b', q')"
  shows "book_inv H b'"
  using assms
proof (induction n arbitrary: mo q b)
  case (Suc n)
  show ?case
  proof (cases "mo = None \<or> q \<le> 0")
    case True
    then show ?thesis using Suc.prems by (cases mo) auto
  next
    case False
    then obtain m where mo: "mo = Some m" and q: "0 < q" by auto
    note st = inv_level_step [OF Suc.prems(1,2), of m p q tm]
    show ?thesis
    proof (cases "level_step tm p tk m q b")
      case (Inl r)
      then show ?thesis using st Suc.prems(3,4) q mo by (cases r) simp
    next
      case (Inr r)
      obtain b1 nx q1 where r: "r = (b1, nx, q1)" by (cases r)
      then show ?thesis using st Suc.IH [of b1 nx q1] Suc.prems(2-4) q mo Inr by simp
    qed
  qed
qed simp

section \<open>Submit and modify\<close>

lemma inv_sweep:
  assumes "book_inv H b" "tk \<in> H" "sweep n tm tk q lc b = Some (b', q', lc')"
  shows "book_inv H b'"
  using assms
proof (induction n arbitrary: q lc b)
  case (Suc n)
  let ?y = "order_at b tk" let ?p = "best_against (po_side ?y) (pb_core b)"
  show ?case
  proof (cases "q > 0 \<and> would_cross (po_side ?y) (po_price ?y) (pb_core b)")
    case True
    then obtain b1 q1 where m: "match_at_level n tm ?p tk (head_at (lv_queue (level_at b ?p))) q b = Some (b1, q1)"
      and s: "sweep n tm tk q1 (if q1 < q then lc + 1 else lc) (on_core (past_empty_level (po_side ?y) ?p) b1) = Some (b', q', lc')"
      using Suc.prems(3) by (auto simp: Let_def split: option.splits)
    have "book_inv H b1" by (rule inv_match_at_level [OF Suc.prems(1,2) _ m]) (use head_at_in in auto)
    then show ?thesis using Suc.IH [OF _ Suc.prems(2) s] by (simp add: book_inv_def)
  next
    case False
    then show ?thesis using Suc.prems by (auto simp: Let_def)
  qed
qed simp

lemma inv_match_against: "book_inv H b \<Longrightarrow> tk \<in> H \<Longrightarrow> match_against n tm tk b = Some b' \<Longrightarrow> book_inv H b'"
  using inv_sweep [of H b tk n tm "remaining_qty (order_at b tk)" 0]
  by (auto simp: match_against_def Let_def book_inv_def split: option.splits prod.splits if_splits)

lemma inv_mmp: "book_inv H b \<Longrightarrow> book_inv H (process_mmp_pending now b)"
proof -
  have "book_inv H b \<Longrightarrow> book_inv H (mmp_loop n now b)" for n b
    by (induction n arbitrary: b) (simp_all add: Let_def inv_mass_cancel)
  then show "book_inv H b \<Longrightarrow> ?thesis" by (simp add: process_mmp_pending_def)
qed

text \<open>A call holds one slot on top of those its callers hold.\<close>

lemma fresh_order_fields:
  "po_status (fresh_order now a oid c) = S_NEW" "po_filled (fresh_order now a oid c) = 0" "po_total (fresh_order now a oid c) = sa_qty a"
  "po_displayed (fresh_order now a oid c) = (if sa_type a = HIDDEN then 0
     else if sa_type a = ICEBERG \<and> sa_display a > 0 \<and> min (sa_display a) (sa_qty a) > 0 then min (sa_display a) (sa_qty a) else sa_qty a)"
  by (simp_all add: fresh_order_def porder_reset_def Let_def)

lemma fresh_held: "0 < sa_qty a \<Longrightarrow> \<not> is_active (fresh_order now a oid c) \<and> held_ok (fresh_order now a oid c)"
  by (simp add: is_active_def held_ok_def fresh_order_fields)

lemma admit_qty: "admit now a b = (b0, R_NONE) \<Longrightarrow> 0 < sa_qty a"
  by (auto simp: admit_def admit_first_def Let_def split: prod.splits if_splits)

lemma accept_core: "pb_core (accept now a s c b) = upd_order s (\<lambda>_. fresh_order now a (if sa_id a \<noteq> 0 then sa_id a else pb_next_id b) c) c"
  by (simp add: accept_def Let_def)

lemma take_in_inv:
  assumes "book_inv H b"
  shows "case take_in now a b of Inl (b', r) \<Rightarrow> book_inv H b'
    | Inr (b', s) \<Rightarrow> book_inv (insert s H) b' \<and> s \<notin> H"
proof -
  obtain b0 r where ad: "admit now a b = (b0, r)" by fastforce
  have c: "pb_core b0 = pb_core b" using admit_core [of now a b] ad by simp
  show ?thesis
  proof (cases "r \<noteq> R_NONE \<or> alloc_order (pb_core b) = None")
    case True
    then show ?thesis using assms ad c by (auto simp: take_in_def book_inv_def)
  next
    case False
    then obtain s c' where al: "alloc_order (pb_core b) = Some (s, c')" by auto
    note I = inv_alloc [OF assms [unfolded book_inv_def] al]
    have "0 < sa_qty a" using False ad admit_qty by blast
    then have "core_inv (insert s H) (upd_order s (\<lambda>_. fresh_order now a oid c') c')" for oid
      using fresh_held by (intro inv_upd_held [OF I(1)]) auto
    then show ?thesis using False al ad c I(2) by (simp add: take_in_def book_inv_def accept_core)
  qed
qed

text \<open>The order that comes out of matching is filled, dropped or joins the book.\<close>

lemma inv_release:
  assumes "book_inv (insert s H) b" "s \<notin> H" "st \<noteq> S_OPEN" "st \<noteq> S_PARTIALLY_FILLED"
  shows "core_inv H (free_order s (set_status st s (pb_core b)))"
proof -
  let ?c = "pb_core b"
  have i: "core_inv (insert s H) ?c" using assms(1) by (simp add: book_inv_def)
  have "core_inv (insert s H) (upd_order s (\<lambda>_. (pc_pool ?c s)\<lparr>po_status := st\<rparr>) ?c)"
    using held [OF i, of s] assms(3,4) by (intro inv_upd_held [OF i]) (auto simp: is_active_def held_ok_def)
  from inv_free_held [OF this, of s] assms(2) show ?thesis by (simp add: set_status_def upd_order_def)
qed

lemma rest_taker_core:
  assumes "x0 = order_at b s" "x = (if po_filled x0 > 0 then x0\<lparr>po_status := S_PARTIALLY_FILLED, po_displayed := min (po_displayed x0) (remaining_qty x0)\<rparr>
      else x0\<lparr>po_status := S_OPEN\<rparr>)" "c = pb_core b" "l = pc_levels c (po_price x)"
  shows "\<exists>bd ak oo. pb_core (rest_taker s b) =
    (settle_in s x \<lparr>lv_queue = lv_queue l @ [s], lv_total = s32 (lv_total l + po_displayed x), lv_hidden = s32 (lv_hidden l + hidden_part x),
       lv_count = s32 (lv_count l + 1)\<rparr> c)\<lparr>pc_bid := bd, pc_ask := ak, pc_oob := oo\<rparr>"
proof -
  let ?d = "put_index s (enqueue_at_level s (upd_order s (\<lambda>_. x) c))"
  have d: "pb_core (rest_taker s b) = (if po_type x = HIDDEN then ?d else improve_best (po_side x) (po_price x) ?d)"
    unfolding rest_taker_def Let_def assms(1) [symmetric] assms(2) [symmetric] assms(3) by simp
  have "?d = (settle_in s x \<lparr>lv_queue = lv_queue l @ [s], lv_total = s32 (lv_total l + po_displayed x), lv_hidden = s32 (lv_hidden l + hidden_part x),
       lv_count = s32 (lv_count l + 1)\<rparr> c)\<lparr>pc_oob := pc_oob ?d\<rparr>"
    using assms(4) by (intro pcore.equality) (simp_all add: put_index_def enqueue_at_level_def upd_order_def upd_level_def upd_links_def settle_in_def Let_def)
  moreover have "\<exists>bd ak. pb_core (rest_taker s b) = ?d\<lparr>pc_bid := bd, pc_ask := ak\<rparr>"
    unfolding d by (intro exI [of _ "pc_bid (pb_core (rest_taker s b))"] exI [of _ "pc_ask (pb_core (rest_taker s b))"])
      (simp add: d improve_best_def)
  ultimately obtain e bd ak oo where "pb_core (rest_taker s b) = (e\<lparr>pc_oob := oo\<rparr>)\<lparr>pc_bid := bd, pc_ask := ak\<rparr>"
    and "e = settle_in s x \<lparr>lv_queue = lv_queue l @ [s], lv_total = s32 (lv_total l + po_displayed x), lv_hidden = s32 (lv_hidden l + hidden_part x),
       lv_count = s32 (lv_count l + 1)\<rparr> c" by metis
  moreover have "(e\<lparr>pc_oob := oo\<rparr>)\<lparr>pc_bid := bd, pc_ask := ak\<rparr> = e\<lparr>pc_bid := bd, pc_ask := ak, pc_oob := oo\<rparr>" by (cases e) simp
  ultimately show ?thesis by metis
qed

lemma rested_ok:
  assumes "held_ok x0" "po_filled x0 < po_total x0"
    and "x = (if po_filled x0 > 0 then x0\<lparr>po_status := S_PARTIALLY_FILLED, po_displayed := min (po_displayed x0) (remaining_qty x0)\<rparr>
      else x0\<lparr>po_status := S_OPEN\<rparr>)"
  shows "is_active x \<and> qty_ok x"
  using assms by (auto simp: is_active_def qty_ok_def held_ok_def remaining_qty_def)

lemma inv_conclude:
  assumes "book_inv (insert s H) b" "s \<notin> H"
  shows "book_inv H (conclude now s b)"
proof -
  let ?x = "order_at b s"
  have i: "core_inv (insert s H) (pb_core b)" using assms(1) by (simp add: book_inv_def)
  have "book_inv H (finish_taker s b)" "book_inv H (drop_rest now s b)"
    using inv_release [OF assms] by (simp_all add: book_inv_def finish_taker_def drop_rest_def Let_def)
  moreover have "book_inv H (rest_taker s b)" if lt: "po_filled ?x < po_total ?x"
  proof -
    define x where "x = (if po_filled ?x > 0 then ?x\<lparr>po_status := S_PARTIALLY_FILLED, po_displayed := min (po_displayed ?x) (remaining_qty ?x)\<rparr>
      else ?x\<lparr>po_status := S_OPEN\<rparr>)"
    have "is_active x \<and> qty_ok x" by (rule rested_ok [OF _ lt x_def]) (use held [OF i, of s] in \<open>simp add: order_at_def\<close>)
    with assms(2) have "core_inv H (settle_in s x l (pb_core b))"
      if "l = \<lparr>lv_queue = lv_queue (pc_levels (pb_core b) (po_price x)) @ [s], lv_total = s32 (lv_total (pc_levels (pb_core b) (po_price x)) + po_displayed x),
        lv_hidden = s32 (lv_hidden (pc_levels (pb_core b) (po_price x)) + hidden_part x), lv_count = s32 (lv_count (pc_levels (pb_core b) (po_price x)) + 1)\<rparr>" for l
      using inv_settle_in [OF i _ _ _ refl that] by simp
    from this [OF refl] show ?thesis
      using rest_taker_core [OF refl x_def refl refl] unfolding book_inv_def by (elim exE) (simp only: core_inv_irrelevant)
  qed
  ultimately show ?thesis by (simp add: conclude_def Let_def)
qed

lemma inv_park:
  assumes "core_inv (insert s H) c" "s \<notin> H" "pending_stop (pc_pool c s)" "ss = pc_stops c @ [s]" "s \<notin> set (pc_stops c)"
  shows "core_inv H (put_index s (c\<lparr>pc_stops := ss\<rparr>))"
proof -
  let ?c = "put_index s (c\<lparr>pc_stops := ss\<rparr>)"
  have f: "pc_pool ?c = pc_pool c" "pc_free ?c = pc_free c" "pc_levels ?c = pc_levels c" "pc_MAX ?c = pc_MAX c" "pc_stops ?c = ss"
    "pc_index ?c = AList.update (po_id (pc_pool c s)) s (pc_index c)" by (simp_all add: put_index_def)
  have h: "s < pc_MAX c" "held_ok (pc_pool c s)" "s \<notin> set (pc_free c)" using assms(1) held [OF assms(1), of s] by (auto simp: core_inv_def slots_ok_def)
  have "slots_ok H ?c"
    using assms h unfolding core_inv_def slots_ok_def f by auto
  moreover have "index_ok H ?c"
    using assms(1,2) h unfolding core_inv_def index_ok_def f by (auto simp: update_conv' hm_wf_update)
  moreover have "links_ok ?c" using assms(1) by (simp add: core_inv_def links_ok_def put_index_def)
  moreover have "\<forall>p. level_ok ?c p" using assms(1) unfolding core_inv_def level_ok_def f by blast
  ultimately show ?thesis using assms(1) unfolding core_inv_def f by blast
qed

lemma inv_submit_stop:
  assumes "book_inv H b"
  shows "book_inv H (fst (submit_stop now side trigger limit qty oid0 cid b))"
proof (cases "session_phase (pb_guard b) = CLOSED \<or> qty \<le> 0 \<or> trigger < 0 \<or> trigger \<ge> pc_LEVELS (pb_core b) \<or> alloc_order (pb_core b) = None")
  case True
  then show ?thesis using assms by (auto simp: submit_stop_def book_inv_def Let_def)
next
  case False
  then obtain s c where al: "alloc_order (pb_core b) = Some (s, c)" by auto
  note I = inv_alloc [OF assms [unfolded book_inv_def] al]
  define oid where "oid = (if oid0 \<noteq> 0 then oid0 else pb_next_id b)"
  define x where "x = porder_reset\<lparr>po_id := oid, po_client := cid, po_price := limit, po_total := qty, po_displayed := qty, po_side := side,
                  po_type := STOP, po_submit_ts := now, po_stop_trigger := trigger\<rparr>"
  have x: "\<not> is_active x" "held_ok x" "pending_stop x" "po_id x = oid"
    using False by (simp_all add: x_def porder_reset_def is_active_def held_ok_def pending_stop_def)
  have i: "core_inv (insert s H) (upd_order s (\<lambda>_. x) c)" using x by (intro inv_upd_held [OF I(1)]) auto
  have ns: "s \<notin> set (pc_stops c)" "s \<notin> set (pc_free c)" using I(1) by (auto simp: core_inv_def slots_ok_def)
  let ?c = "upd_order s (\<lambda>_. x) c"
  have xs: "pc_pool ?c s = x" "pc_stops ?c = pc_stops c" "pc_free ?c = pc_free c" by (simp_all add: upd_order_def)
  have "core_inv H (put_index s (?c\<lparr>pc_stops := pc_stops c @ [s]\<rparr>))" by (rule inv_park [OF i I(2)]) (use x ns xs in simp_all)
  moreover have "pb_core (fst (submit_stop now side trigger limit qty oid0 cid b)) = put_index s ((upd_order s (\<lambda>_. x) c)\<lparr>pc_stops := pc_stops c @ [s]\<rparr>)"
    using False al by (simp add: submit_stop_def Let_def oid_def x_def)
  ultimately show ?thesis by (simp add: book_inv_def)
qed

lemma inv_arm_stop_loss: "book_inv H b \<Longrightarrow> book_inv H (arm_stop_loss now sp tp b)"
  using inv_submit_stop [of H b now "br_side sp" "br_sl sp" 0 "br_qty sp" 0 "br_client sp"]
  by (auto simp: arm_stop_loss_def Let_def book_inv_def split: prod.splits)

lemma inv_submit_both:
  "(book_inv H b \<longrightarrow> submit n now a b = Some (b', oid, r) \<longrightarrow> book_inv H b')"
  "(book_inv H b \<longrightarrow> process_bracket_pending n now b = Some b'' \<longrightarrow> book_inv H b'')"
proof (induction n arbitrary: H b now a b' oid r b'')
  case (Suc n)
  { case 1
    show ?case
    proof (intro impI)
      assume i: "book_inv H b" and s: "submit (Suc n) now a b = Some (b', oid, r)"
      show "book_inv H b'"
      proof (cases "take_in now a b")
        case (Inl z)
        then show ?thesis using take_in_inv [OF i, of now a] s by (cases z) simp
      next
        case (Inr z)
        obtain b1 s1 where z: "z = (b1, s1)" by (cases z)
        have t: "book_inv (insert s1 H) b1" "s1 \<notin> H" using take_in_inv [OF i, of now a] Inr z by simp_all
        show ?thesis
        proof (cases "matches_now a b1")
          case True
          then obtain b2 b3 where m: "match_against n now s1 b1 = Some b2" and p: "process_bracket_pending n now (process_oco_pending now b2) = Some b3"
            and e: "b' = conclude now s1 (process_mmp_pending now b3)"
            using s Inr z by (auto split: option.splits)
          have "book_inv (insert s1 H) b2" by (rule inv_match_against [OF t(1) _ m]) simp
          then have "book_inv (insert s1 H) b3" using Suc.IH(2) p inv_process_oco by blast
          then show ?thesis unfolding e by (intro inv_conclude inv_mmp t(2))
        next
          case False
          then show ?thesis using s Inr z inv_conclude [OF t, of now] by auto
        qed
      qed
    qed
  next
    case 2
    let ?sp = "List.last (br_pending (pb_links b))"
    show ?case
    proof (intro impI)
      assume i: "book_inv H b" and s: "process_bracket_pending (Suc n) now b = Some b''"
      show "book_inv H b''"
      proof (cases "br_pending (pb_links b) = []")
        case False
        then obtain b2 tp r2 where m: "submit n now (take_profit ?sp) (pop_bracket b) = Some (b2, tp, r2)"
          and p: "process_bracket_pending n now (arm_stop_loss now ?sp tp b2) = Some b''"
          using s by (auto split: option.splits)
        have "book_inv H (pop_bracket b)" using i by (simp add: book_inv_def)
        then have "book_inv H b2" using Suc.IH(1) m by blast
        then show ?thesis using Suc.IH(2) p inv_arm_stop_loss by blast
      qed (use i s in simp)
    qed
  }
qed simp_all

lemmas inv_submit = inv_submit_both(1) [rule_format]
  and inv_brackets = inv_submit_both(2) [rule_format]

lemma inv_cancel:
  assumes "book_inv H b"
  shows "book_inv H (fst (cancel now oid b))"
proof (cases "map_of (pc_index (pb_core b)) oid")
  case (Some s)
  then have s: "s < pc_MAX (pb_core b)" using index_live assms by (auto simp: book_inv_def)
  show ?thesis
    using Some inv_cancel_pending_stop [OF assms, of now s] inv_cancel_internal [OF assms s, of now True]
    by (cases "cancel_pending_stop now s b") (simp add: cancel_def)
qed (use assms in \<open>simp add: cancel_def\<close>)

text \<open>
  Giving up quantity in place keeps the invariant when the order rests.  A stop that waits is in the
  index too, but in no level.
\<close>

lemma inv_decrease:
  assumes "book_inv H b" "s < pc_MAX (pb_core b)" "is_active (order_at b s)" "qty < po_total (order_at b s)" "po_filled (order_at b s) < qty"
  shows "book_inv H (decrease_in_place now oid s qty b)"
proof -
  let ?c = "pb_core b" let ?x = "pc_pool ?c s" let ?p = "po_price ?x" let ?l = "pc_levels ?c ?p"
  let ?vis = "min (po_total ?x - qty) (po_displayed ?x)" let ?y = "?x\<lparr>po_total := qty, po_displayed := po_displayed ?x - ?vis\<rparr>"
  have i: "core_inv H ?c" and a: "is_active ?x" using assms(1,3) by (simp_all add: book_inv_def order_at_def)
  have "core_inv H (?c\<lparr>pc_pool := (pc_pool ?c)(s := ?y), pc_levels := (pc_levels ?c)(?p := ?l\<lparr>lv_total := s32 (lv_total ?l - ?vis),
      lv_hidden := s32 (lv_hidden ?l - (po_total ?x - qty - ?vis))\<rparr>)\<rparr>)"
  proof (rule inv_requantify [OF i])
    show "s \<in> set (lv_queue ?l)" using queue_iff [OF i, of s ?p] assms(2) a by simp
    show "is_active ?y" using a by (simp add: is_active_def)
    show "qty_ok ?y" using queue_qty [OF i assms(2) a] assms(4,5) by (auto simp: qty_ok_def remaining_qty_def order_at_def)
    show "?l\<lparr>lv_total := s32 (lv_total ?l - ?vis), lv_hidden := s32 (lv_hidden ?l - (po_total ?x - qty - ?vis))\<rparr> =
      \<lparr>lv_queue = lv_queue ?l, lv_total = s32 (lv_total ?l + (po_displayed ?y - po_displayed ?x)),
       lv_hidden = s32 (lv_hidden ?l + (hidden_part ?y - hidden_part ?x)), lv_count = lv_count ?l\<rparr>"
      by (intro plevel.equality) (simp_all add: hidden_part_def algebra_simps)
  qed simp_all
  moreover have "pb_core (decrease_in_place now oid s qty b) = ?c\<lparr>pc_pool := (pc_pool ?c)(s := ?y), pc_levels := (pc_levels ?c)(?p := ?l\<lparr>lv_total :=
      s32 (lv_total ?l - ?vis), lv_hidden := s32 (lv_hidden ?l - (po_total ?x - qty - ?vis))\<rparr>), pc_oob := (pc_oob ?c \<or> \<not> pro_in_range ?c ?p)\<rparr>"
    by (intro pcore.equality) (simp_all add: decrease_in_place_def Let_def upd_order_def upd_level_def order_at_def pro_in_range_def split: option.splits)
  ultimately show ?thesis by (simp add: book_inv_def)
qed

lemma inv_relink: "book_inv H b \<Longrightarrow> book_inv H (relink_after_modify now nid partner b)"
  by (simp add: relink_after_modify_def Let_def) (simp add: book_inv_def)

lemma inv_restore: "book_inv H b \<Longrightarrow> restore_bracket n now nid sp b = Some b' \<Longrightarrow> book_inv H b'"
  by (auto simp: restore_bracket_def Let_def split: option.splits if_splits elim: inv_brackets [rotated])

lemma inv_modify:
  assumes "book_inv H b" "modify n now oid price qty b = Some (b', nid, r)"
    and "\<And>s. map_of (pc_index (pb_core b)) oid = Some s \<Longrightarrow> is_active (order_at b s)"
  shows "book_inv H b'"
proof (cases "map_of (pc_index (pb_core b)) oid")
  case None
  then show ?thesis using assms(1,2) by (simp add: modify_def)
next
  case (Some s)
  let ?x = "order_at b s"
  have s: "s < pc_MAX (pb_core b)" "is_active ?x" using index_live assms(1) assms(3) Some by (auto simp: book_inv_def)
  show ?thesis
  proof (cases "price = po_price ?x \<and> qty < po_total ?x \<and> qty > po_filled ?x")
    case True
    then show ?thesis using assms(1,2) Some s inv_decrease by (auto simp: modify_def Let_def)
  next
    case False
    define partner where "partner = at_or 0 (oco_partner (pb_links b)) oid"
    define b1 where "b1 = (if partner \<noteq> 0 then fst (unlink_oco oid b) else b)"
    define b2 where "b2 = upd_stats (\<lambda>t. t\<lparr>bs_replaced := inc64 (bs_replaced t), bs_lost_mods := inc64 (bs_lost_mods t)\<rparr>) (cancel_internal now s False b1)"
    define a where "a = \<lparr>sa_side = po_side ?x, sa_price = price, sa_qty = s32 (qty - po_filled ?x), sa_type = po_type ?x, sa_tif = po_tif ?x,
                                      sa_id = oid, sa_client = po_client ?x, sa_display = 0, sa_min = 0\<rparr>"
    define spec where "spec = map_option (\<lambda>sp. sp\<lparr>br_qty := qty\<rparr>) (map_of (br_specs (pb_links b1)) oid)"
    have m: "modify n now oid price qty b = (case submit n now a b2 of None \<Rightarrow> None
        | Some (b3, nid, r) \<Rightarrow> map_option (\<lambda>b4. (b4, nid, r)) (restore_bracket n now nid spec (relink_after_modify now nid partner b3)))"
      unfolding modify_def Some option.case(2) Let_def if_not_P [OF False] a_def [symmetric] partner_def [symmetric] b1_def [symmetric] b2_def [symmetric]
        spec_def [symmetric] by (rule refl)
    have "book_inv H b1" using assms(1) by (simp add: b1_def book_inv_def)
    then have "book_inv H (cancel_internal now s False b1)" using s(1) by (intro inv_cancel_internal) (simp_all add: b1_def)
    then have b2: "book_inv H b2" by (simp add: b2_def book_inv_def)
    obtain b3 where "submit n now a b2 = Some (b3, nid, r)" "restore_bracket n now nid spec (relink_after_modify now nid partner b3) = Some b'"
      using assms(2) unfolding m by (auto split: option.splits)
    then show ?thesis using inv_submit [OF b2] inv_relink inv_restore by blast
  qed
qed

end
