(* ===== verification/Pro_Props.thy ===== *)
theory Pro_Props
  imports Pro_Run
begin

text \<open>
  What the structural invariant of \<open>FullOrderBook\<close> means for its callers: runs of the public calls
  and the book's own integrity audit.
\<close>

section \<open>Runs\<close>

text \<open>
  A call of the order path, with the time its clock shows, or the change of a setting, which leaves
  pool, levels and index alone.  \<open>modify\<close> is one of a resting order.
\<close>

inductive pro_run :: "int \<Rightarrow> nat \<Rightarrow> pbook \<Rightarrow> bool" for L N where
  run_new: "pro_run L N (FullOrderBook L N)"
| run_submit: "pro_run L N b \<Longrightarrow> submit n now a b = Some (b', oid, r) \<Longrightarrow> pro_run L N b'"
| run_stop: "pro_run L N b \<Longrightarrow> pro_run L N (fst (submit_stop now side trigger limit qty oid cid b))"
| run_cancel: "pro_run L N b \<Longrightarrow> pro_run L N (fst (cancel now oid b))"
| run_mass_cancel: "pro_run L N b \<Longrightarrow> pro_run L N (fst (mass_cancel now cid b))"
| run_modify: "pro_run L N b \<Longrightarrow> modify n now oid price qty b = Some (b', nid, r)
    \<Longrightarrow> (\<forall>s. map_of (pc_index (pb_core b)) oid = Some s \<longrightarrow> is_active (order_at b s)) \<Longrightarrow> pro_run L N b'"
| run_setting: "pro_run L N b \<Longrightarrow> pb_core b' = pb_core b \<Longrightarrow> pro_run L N b'"

lemma run_inv: "pro_run L N b \<Longrightarrow> int N < 2 ^ 31 \<Longrightarrow> book_inv {} b"
proof (induction rule: pro_run.induct)
  case run_new
  then show ?case by (simp add: book_inv_def FullOrderBook_def init_inv)
next
  case (run_modify b n now oid price qty b' nid r)
  then show ?case using inv_modify [of "{}" b n now oid price qty b' nid r] by auto
qed (auto simp: inv_submit_stop inv_cancel inv_mass_cancel book_inv_def [symmetric] dest: inv_submit, simp add: book_inv_def)

section \<open>The audit\<close>

text \<open>The shown and the hidden quantity of the orders queued at a price.\<close>

definition queued :: "pbook \<Rightarrow> int \<Rightarrow> porder list" where
  "queued b p = map (order_at b) (lv_queue (level_at b p))"

lemma level_walk_seg:
  "seg (pc_links c) prv xs None \<Longrightarrow> length xs \<le> n \<Longrightarrow> (\<And>x. x \<in> set xs \<Longrightarrow> po_price (pc_pool c x) = p) \<Longrightarrow>
   level_walk n c p prv (first_or xs None) (cnt, qty, hid, v) = Some (last_or prv xs, cnt + int (length xs),
     qty + sum_list (map (\<lambda>x. po_displayed (pc_pool c x)) xs), hid + sum_list (map (\<lambda>x. hidden_part (pc_pool c x)) xs), v)"
proof (induction xs arbitrary: n prv cnt qty hid)
  case (Cons x xs)
  then obtain m where n: "n = Suc m" "length xs \<le> m" by (cases n) auto
  show ?case using Cons.IH [of "Some x" m "cnt + 1"] Cons.prems n by (simp add: Let_def last_or_Cons)
qed simp

lemma audit_level_clean:
  assumes "core_inv H c" "xs = map (pc_pool c) (lv_queue (pc_levels c p))"
    "- (2 ^ 31) \<le> sum_list (map po_displayed xs)" "sum_list (map po_displayed xs) < 2 ^ 31"
    "- (2 ^ 31) \<le> sum_list (map hidden_part xs)" "sum_list (map hidden_part xs) < 2 ^ 31"
  shows "level_violations c p = Some 0"
proof -
  let ?q = "lv_queue (pc_levels c p)"
  have r: "list_rep (pc_links c) p ?q" using assms(1) by (simp add: core_inv_def links_ok_def links_rep_def)
  have "card (set ?q) \<le> card {..<pc_MAX c}" by (rule card_mono) (use queue_iff [OF assms(1)] in auto)
  then have n: "length ?q \<le> pc_MAX c" using queue_distinct [OF assms(1)] by (simp add: distinct_card)
  have "level_walk (pc_MAX c) c p None (first_or ?q None) (0, 0, 0, 0) = Some (last_or None ?q, 0 + int (length ?q),
      0 + sum_list (map (\<lambda>x. po_displayed (pc_pool c x)) ?q), 0 + sum_list (map (\<lambda>x. hidden_part (pc_pool c x)) ?q), 0)"
    by (rule level_walk_seg [OF _ n]) (use r queue_iff [OF assms(1), of _ p] in \<open>auto simp: list_rep_def\<close>)
  moreover have "level_ok c p" using assms(1) by (simp add: core_inv_def)
  ultimately show ?thesis
    using assms(3-6) r unfolding level_violations_def level_ok_def Let_def list_rep_def assms(2) by (simp add: s32_id comp_def)
qed

lemma audit_clean:
  assumes "\<And>p. 0 \<le> p \<Longrightarrow> p < pc_LEVELS c \<Longrightarrow> level_violations c p = Some 0"
  shows "audit_book_integrity c = Some 0"
proof -
  have "fold (\<lambda>p v. add_violations v (level_violations c p)) ps (Some 0) = Some 0" if "\<forall>p \<in> set ps. level_violations c p = Some 0" for ps
    using that by (induction ps) (simp_all add: add_violations_def)
  then show ?thesis using assms by (simp add: audit_book_integrity_def)
qed

lemma sum_nonneg_list: "(\<And>x. x \<in> set xs \<Longrightarrow> 0 \<le> f x) \<Longrightarrow> 0 \<le> sum_list (map f xs :: int list)"
  by (induction xs) auto

lemma queued_qty:
  assumes "core_inv H c" "s \<in> set (lv_queue (pc_levels c p))"
  shows "0 \<le> po_displayed (pc_pool c s) \<and> 0 \<le> hidden_part (pc_pool c s)"
  using queue_iff [OF assms(1), of s p] assms(2) queue_qty [OF assms(1), of s] by (auto simp: qty_ok_def hidden_part_def remaining_qty_def)

text \<open>
  C8. The integrity audit of the book ends and finds nothing after any run of submits, stop submits, cancels, mass
  cancels, modifies of resting orders and changes of settings on a new book, as long as the run never
  accessed a price outside the grid and what is queued at a price, shown and hidden, fits the 32-bit totals of a level: along the
  pointers of every level each order links back to the one before it and has the price of the level, the
  tail is the last order, and the count, the shown and the hidden total are those of the orders met.
\<close>

theorem pro_audit_clean:
  assumes "pro_run L N b" "int N < 2 ^ 31" "\<not> pc_oob (pb_core b)"
    and "\<forall>p \<in> {0..<pc_LEVELS (pb_core b)}. sum_list (map remaining_qty (queued b p)) < 2 ^ 31"
  shows "audit_book_integrity (pb_core b) = Some 0"
proof (rule audit_clean)
  fix p assume p: "0 \<le> p" "p < pc_LEVELS (pb_core b)"
  let ?c = "pb_core b" let ?q = "lv_queue (pc_levels ?c p)" let ?xs = "map (pc_pool ?c) ?q"
  have i: "core_inv {} ?c" using run_inv [OF assms(1,2)] by (simp add: book_inv_def)
  have d: "0 \<le> sum_list (map po_displayed ?xs)" and h: "0 \<le> sum_list (map hidden_part ?xs)"
    using queued_qty [OF i, of _ p] by (auto intro!: sum_nonneg_list)
  have "sum_list (map po_displayed ?xs) + sum_list (map hidden_part ?xs) = sum_list (map remaining_qty ?xs)"
    by (simp add: sum_list_addf [symmetric] hidden_part_def remaining_qty_def comp_def)
  also have "\<dots> < 2 ^ 31" using assms(4) p by (simp add: queued_def order_at_def [abs_def] level_at_def)
  finally show "level_violations ?c p = Some 0" using d h by (intro audit_level_clean [OF i refl]) simp_all
qed

text \<open>A book with a resting sell of which a buy takes a part and rests with nothing left.\<close>

definition plain :: "Side \<Rightarrow> int \<Rightarrow> int \<Rightarrow> int \<Rightarrow> submit_args" where
  "plain side p q cid = \<lparr>sa_side = side, sa_price = p, sa_qty = q, sa_type = LIMIT, sa_tif = DAY, sa_id = 0, sa_client = cid, sa_display = 0, sa_min = 0\<rparr>"

definition submits :: "submit_args list \<Rightarrow> pbook \<Rightarrow> pbook option" where
  "submits as b = fold (\<lambda>a r. case r of None \<Rightarrow> None | Some x \<Rightarrow> map_option fst (submit 30 7 a x)) as (Some b)"

definition sample_book :: pbook where
  "sample_book = the (submits [plain SELL 2 10 1, plain BUY 2 4 2] (FullOrderBook 4 3))"

lemma submits_run: "pro_run L N b \<Longrightarrow> submits as b = Some b' \<Longrightarrow> pro_run L N b'"
proof (induction as arbitrary: b)
  case (Cons a as)
  have none: "fold (\<lambda>a r. case r of None \<Rightarrow> None | Some x \<Rightarrow> map_option fst (submit 30 7 a x)) as None = None" by (induction as) auto
  obtain b1 oid r where s: "submit 30 7 a b = Some (b1, oid, r)" and e: "submits as b1 = Some b'"
    using Cons.prems(2) none by (cases "submit 30 7 a b") (auto simp: submits_def)
  show ?case by (rule Cons.IH [OF run_submit [OF Cons.prems(1) s] e])
qed (simp add: submits_def)

theorem pro_audit_clean_witness: "pro_run 4 3 sample_book \<and> audit_book_integrity (pb_core sample_book) = Some 0"
proof -
  have "case submits [plain SELL 2 10 1, plain BUY 2 4 2] (FullOrderBook 4 3) of None \<Rightarrow> False
    | Some b \<Rightarrow> pc_LEVELS (pb_core b) = 4 \<and> \<not> pc_oob (pb_core b) \<and> list_all (\<lambda>p. sum_list (map remaining_qty (queued b p)) < 2 ^ 31) [0..3]" by code_simp
  then have s: "submits [plain SELL 2 10 1, plain BUY 2 4 2] (FullOrderBook 4 3) = Some sample_book"
    and "\<not> pc_oob (pb_core sample_book)" "\<forall>p \<in> {0..<pc_LEVELS (pb_core sample_book)}. sum_list (map remaining_qty (queued sample_book p)) < 2 ^ 31"
    unfolding sample_book_def by (auto simp: list_all_iff split: option.splits)
  moreover have r: "pro_run 4 3 sample_book" by (rule submits_run [OF run_new s])
  ultimately show ?thesis using pro_audit_clean [OF r] r by simp
qed

end
