(* ===== verification/Pro_Progress.thy ===== *)
theory Pro_Progress
  imports Pro_Props
begin

text \<open>
  Matching comes to an end: unless fully hidden orders rest in the book, every pass of the matching
  loops uses up quantity of the incoming order, an order of the book, an empty slice of an iceberg, or
  a price level.
\<close>

section \<open>The work left\<close>

definition resting_slots :: "pcore \<Rightarrow> nat set" where
  "resting_slots c = {s. s < pc_MAX c \<and> is_active (pc_pool c s)}"

text \<open>All of the order shows, or it is an iceberg.\<close>

definition lively :: "porder \<Rightarrow> bool" where
  "lively x \<longleftrightarrow> po_type x \<noteq> HIDDEN \<and> (po_type x \<noteq> ICEBERG \<longrightarrow> po_displayed x = remaining_qty x)"

definition all_lively :: "pcore \<Rightarrow> bool" where
  "all_lively c \<longleftrightarrow> (\<forall>s \<in> resting_slots c. lively (pc_pool c s))"

definition blank :: "pcore \<Rightarrow> nat set" where
  "blank c = {s \<in> resting_slots c. po_displayed (pc_pool c s) = 0}"

definition work :: "pcore \<Rightarrow> int \<Rightarrow> nat" where
  "work c q = nat q + card (blank c) + card (resting_slots c)"

definition best_ok :: "pcore \<Rightarrow> bool" where
  "best_ok c \<longleftrightarrow> pc_LEVELS c < 2 ^ 31 \<and> (pc_ask c = NO_ASK_TICKS \<or> 0 \<le> pc_ask c \<and> pc_ask c < pc_LEVELS c)
     \<and> (pc_bid c = NO_BID_TICKS \<or> 0 \<le> pc_bid c \<and> pc_bid c < pc_LEVELS c)"

lemma finite_resting [simp]: "finite (resting_slots c)" "finite (blank c)"
  by (auto simp: resting_slots_def blank_def)

text \<open>One order changes and stays in the book, or leaves it.\<close>

lemma work_leave:
  assumes "pc_MAX c' = pc_MAX c" "pc_pool c' = (pc_pool c)(m := x)" "m \<in> resting_slots c" "\<not> is_active x" "q' \<le> q"
  shows "work c' q' < work c q" and "all_lively c \<Longrightarrow> all_lively c'"
proof -
  have r: "resting_slots c' = resting_slots c - {m}" using assms(1,2,4) by (auto simp: resting_slots_def)
  then have b: "blank c' \<subseteq> blank c" using assms(2) by (auto simp: blank_def)
  have "card (resting_slots c') < card (resting_slots c)" unfolding r by (rule card_Diff1_less [OF finite_resting(1) assms(3)])
  moreover have "card (blank c') \<le> card (blank c)" using b by (simp add: card_mono)
  moreover have "nat q' \<le> nat q" using assms(5) by simp
  ultimately show "work c' q' < work c q" by (simp add: work_def)
  show "all_lively c \<Longrightarrow> all_lively c'" using assms(2) r by (auto simp: all_lively_def)
qed

lemma work_stay:
  assumes "pc_MAX c' = pc_MAX c" "pc_pool c' = (pc_pool c)(m := x)" "m \<in> resting_slots c" "is_active x" "lively x" "q' \<le> q" "0 < q"
    and "q' < q \<or> po_displayed (pc_pool c m) = 0" "po_displayed x \<noteq> 0"
  shows "work c' q' < work c q" and "all_lively c \<Longrightarrow> all_lively c'"
proof -
  have r: "resting_slots c' = resting_slots c" using assms(1-4) by (auto simp: resting_slots_def)
  have b: "blank c' = blank c - {m}" using assms(2,9) r by (auto simp: blank_def)
  have "card (blank c') \<le> card (blank c)" unfolding b by (rule card_mono) auto
  moreover have "card (blank c') < card (blank c)" if "po_displayed (pc_pool c m) = 0"
    unfolding b by (rule card_Diff1_less) (use assms(3) that in \<open>simp_all add: blank_def\<close>)
  ultimately show "work c' q' < work c q" using assms(6-8) r by (auto simp: work_def)
  show "all_lively c \<Longrightarrow> all_lively c'" using assms(2,5) r by (auto simp: all_lively_def)
qed

text \<open>An order that does not rest makes no difference.\<close>

lemma work_other:
  assumes "pc_MAX c' = pc_MAX c" "pc_pool c' = (pc_pool c)(s := y)" "\<not> is_active (pc_pool c s)" "\<not> is_active y"
  shows "resting_slots c' = resting_slots c" "work c' q = work c q" "all_lively c' = all_lively c"
proof -
  show r: "resting_slots c' = resting_slots c" using assms by (auto simp: resting_slots_def)
  have "s \<notin> resting_slots c" using assms(3) by (simp add: resting_slots_def)
  then have "blank c' = blank c" "all_lively c' = all_lively c" using assms(2) r by (auto simp: blank_def all_lively_def)
  then show "work c' q = work c q" "all_lively c' = all_lively c" using r by (simp_all add: work_def)
qed

section \<open>One pass\<close>

lemma scan_levels_cases: "scan_levels c ps d = d \<or> scan_levels c ps d \<in> set ps"
  by (auto simp: scan_levels_def find_Some_iff split: option.splits)

lemma best_ok_refresh: "best_ok c \<Longrightarrow> best_ok (refresh_best_bid_from a c)" "best_ok c \<Longrightarrow> best_ok (refresh_best_ask_from a c)"
  using scan_levels_cases [of c "rev [0..a]" NO_BID_TICKS] scan_levels_cases [of c "[a..pc_LEVELS c - 1]" NO_ASK_TICKS]
  by (auto simp: best_ok_def refresh_best_bid_from_def refresh_best_ask_from_def)

lemma best_ok_cong: "pc_LEVELS c' = pc_LEVELS c \<Longrightarrow> pc_ask c' = pc_ask c \<Longrightarrow> pc_bid c' = pc_bid c \<Longrightarrow> best_ok c' = best_ok c"
  by (simp add: best_ok_def)

lemma cancel_internal_shape:
  assumes "is_active (order_at b m)"
  shows "pc_pool (pb_core (cancel_internal now m ev b)) = (pc_pool (pb_core b))(m := (order_at b m)\<lparr>po_status := S_CANCELLED\<rparr>)"
    and "best_ok (pb_core b) \<Longrightarrow> best_ok (pb_core (cancel_internal now m ev b))"
proof -
  let ?c = "pb_core b" let ?d = "leave_level m ?c"
  note e = cancel_internal_core [OF assms, of now ev]
  show "pc_pool (pb_core (cancel_internal now m ev b)) = (pc_pool ?c)(m := (order_at b m)\<lparr>po_status := S_CANCELLED\<rparr>)"
    unfolding e by (simp add: free_order_def erase_index_def set_status_def upd_order_def order_at_def)
  assume "best_ok ?c"
  then have "best_ok (unlink_from_level m ?c)" by (subst best_ok_cong [of _ ?c]) (simp_all add: unlink_from_level_def upd_level_def Let_def)
  then have "best_ok ?d" by (auto simp: leave_level_def Let_def best_ok_refresh)
  then show "best_ok (pb_core (cancel_internal now m ev b))"
    unfolding e by (subst best_ok_cong [of _ ?d]) (simp_all add: free_order_def erase_index_def set_status_def upd_order_def)
qed

lemma settle_shape:
  assumes "settle_maker tm p tk m q b = (b', nx)" "x = order_at b m" "lively x" "qty_ok x"
  shows "\<exists>x'. pc_pool (pb_core b') = (pc_pool (pb_core b))(m := x') \<and> pc_MAX (pb_core b') = pc_MAX (pb_core b)
    \<and> pc_LEVELS (pb_core b') = pc_LEVELS (pb_core b) \<and> pc_ask (pb_core b') = pc_ask (pb_core b) \<and> pc_bid (pb_core b') = pc_bid (pb_core b)
    \<and> (is_active x' \<longrightarrow> lively x' \<and> po_displayed x' \<noteq> 0)"
proof -
  consider (ice) "po_displayed x = 0" "remaining_qty x > 0" "po_type x = ICEBERG" "b' = refresh_iceberg p m b"
    | (full) "b' = finish_maker tm p tk m q b"
    | (part) "po_displayed x = 0 \<and> remaining_qty x > 0 \<longrightarrow> po_type x \<noteq> ICEBERG" "po_filled x < po_total x" "b' = on_core (set_status S_PARTIALLY_FILLED m) b"
    using assms(1,2) by (auto simp: settle_maker_def Let_def split: if_splits)
  then show ?thesis
  proof cases
    case ice
    obtain w e where j: "ice_jitter (if po_ice_size x > 0 then po_ice_size x else 100) (pb_exec b) = (w, e)" by fastforce
    have w: "0 < w" using ice_jitter_pos [of "if po_ice_size x > 0 then po_ice_size x else 100" "pb_exec b"] unfolding j by (simp split: if_splits)
    show ?thesis
      unfolding ice(4) refresh_iceberg_core [OF j assms(2) refl refl refl]
      by (rule exI [of _ "x\<lparr>po_displayed := min (remaining_qty x) w\<rparr>"]) (use ice w in \<open>simp add: lively_def min_def\<close>)
  next
    case full
    show ?thesis
      unfolding full by (rule exI [of _ "x\<lparr>po_status := S_FILLED\<rparr>"])
        (simp add: assms(2) finish_maker_def Let_def set_status_def upd_order_def upd_level_def erase_index_def free_order_def order_at_def is_active_def)
  next
    case part
    have "po_displayed x \<noteq> 0" using part(1,2) assms(3) by (auto simp: lively_def remaining_qty_def)
    then show ?thesis
      unfolding part(3) by (intro exI [of _ "x\<lparr>po_status := S_PARTIALLY_FILLED\<rparr>"])
        (use assms(2,3) in \<open>simp add: set_status_def upd_order_def order_at_def lively_def remaining_qty_def\<close>)
  qed
qed

text \<open>No part of the matching changes the self-trade policy.\<close>

lemma stp_frame [simp]:
  "pb_stp (emit now ev oid mid px q st rr cid b) = pb_stp b"
  "pb_stp (push_audit now ev oid side px q st b) = pb_stp b"
  "pb_stp (push_delta ty ch px q b) = pb_stp b"
  "pb_stp (upd_exposure cid f b) = pb_stp b"
  "pb_stp (stuffing_check cid b) = pb_stp b"
  "pb_stp (account_vwap_on_fill cid px q b) = pb_stp b"
  "pb_stp (mmp_on_maker_fill now cid b) = pb_stp b"
  "pb_stp (record_first_fill_latency sub fill b) = pb_stp b"
  "pb_stp (record_lifecycle_age now sub b) = pb_stp b"
  "pb_stp (upd_stats fs b) = pb_stp b"
  "pb_stp (upd_count fc b) = pb_stp b"
  "pb_stp (record_trade mkr tkr px q side tm b) = pb_stp b"
  "pb_stp (oco_on_complete oid b) = pb_stp b"
  "pb_stp (bracket_on_full_fill oid b) = pb_stp b"
  "pb_stp (erase_bracket oid b) = pb_stp b"
  "pb_stp (count_cancelled x b) = pb_stp b"
  "pb_stp (shortfall y px q b) = pb_stp b"
  "pb_stp (count_stp tk m b) = pb_stp b"
  by (simp_all add: emit_def push_audit_def push_delta_def upd_exposure_def stuffing_check_def account_vwap_on_fill_def mmp_on_maker_fill_def
      record_first_fill_latency_def record_lifecycle_age_def upd_stats_def upd_count_def record_trade_def oco_on_complete_def
      bracket_on_full_fill_def erase_bracket_def count_cancelled_def shortfall_def count_stp_def Let_def split: option.splits prod.splits)

lemma stp_frame2 [simp]:
  "pb_stp (note_first_fill tm s b) = pb_stp b"
  "pb_stp (exposure_on_fill cid side q b) = pb_stp b"
  "pb_stp (exposure_on_cancel cid side q b) = pb_stp b"
  "pb_stp (tag_aggressor_volume cid q b) = pb_stp b"
  "pb_stp (tag_passive_volume cid q b) = pb_stp b"
  by (simp_all add: note_first_fill_def exposure_on_fill_def exposure_on_cancel_def tag_aggressor_volume_def tag_passive_volume_def Let_def)

lemma stp_frame3 [simp]:
  "pb_stp (fill_accounts tm x y q b) = pb_stp b"
  "pb_stp (execute tm p tk m q b) = pb_stp b"
  "pb_stp (refresh_iceberg p m b) = pb_stp b"
  "pb_stp (finish_maker tm p tk m q b) = pb_stp b"
  "pb_stp (cancel_internal now s ev b) = pb_stp b"
  by (simp_all add: fill_accounts_def execute_def refresh_iceberg_def finish_maker_def cancel_internal_def Let_def split: prod.splits)

lemma stp_settle: "settle_maker tm p tk m q b = (b', nx) \<Longrightarrow> pb_stp b' = pb_stp b"
  by (auto simp: settle_maker_def Let_def split: if_splits)

text \<open>What a pass leaves as it was of the incoming order.\<close>

definition same_taker :: "porder \<Rightarrow> porder \<Rightarrow> bool" where
  "same_taker y y' \<longleftrightarrow> po_side y' = po_side y \<and> po_price y' = po_price y"

definition step_ok :: "nat \<Rightarrow> pbook \<Rightarrow> int \<Rightarrow> pbook \<Rightarrow> int \<Rightarrow> bool" where
  "step_ok tk b q b' q' \<longleftrightarrow> all_lively (pb_core b') \<and> best_ok (pb_core b') \<and> same_taker (order_at b tk) (order_at b' tk) \<and> pb_stp b' = pb_stp b
     \<and> q' \<le> q \<and> 0 \<le> q' \<and> remaining_qty (order_at b' tk) - q' \<ge> remaining_qty (order_at b tk) - q
     \<and> (pb_stp b = STP_NONE \<longrightarrow> remaining_qty (order_at b' tk) - q' = remaining_qty (order_at b tk) - q)"

lemma step_ok_trans: "step_ok tk b q b1 q1 \<Longrightarrow> step_ok tk b1 q1 b2 q2 \<Longrightarrow> step_ok tk b q b2 q2"
  by (auto simp: step_ok_def same_taker_def)

lemma step_ok_refl: "all_lively (pb_core b) \<Longrightarrow> best_ok (pb_core b) \<Longrightarrow> 0 \<le> q \<Longrightarrow> step_ok tk b q b q"
  by (simp add: step_ok_def same_taker_def)

lemma step_cancel:
  assumes "book_inv H b" "tk \<in> H" "m \<in> set (lv_queue (level_at b p))" "all_lively (pb_core b)" "best_ok (pb_core b)" "0 < q" "q' \<le> q" "0 \<le> q'"
    and "pb_stp b \<noteq> STP_NONE"
  shows "step_ok tk b q (cancel_internal tm m True b) q' \<and> work (pb_core (cancel_internal tm m True b)) q' < work (pb_core b) q"
proof -
  let ?b = "cancel_internal tm m True b"
  have i: "core_inv H (pb_core b)" using assms(1) by (simp add: book_inv_def)
  have m: "m < pc_MAX (pb_core b)" "is_active (order_at b m)" using queue_iff [OF i] assms(3) by (auto simp: level_at_def order_at_def)
  have t: "m \<noteq> tk" using held [OF i assms(2)] m(2) by (auto simp: order_at_def)
  have r: "m \<in> resting_slots (pb_core b)" using m by (simp add: resting_slots_def order_at_def)
  note s = cancel_internal_shape [OF m(2), of tm True]
  have tk: "order_at ?b tk = order_at b tk" using t s(1) by (simp add: order_at_def)
  have "work (pb_core ?b) q' < work (pb_core b) q" "all_lively (pb_core ?b)"
    using work_leave [OF _ s(1) r _ assms(7)] assms(4) by (simp_all add: is_active_def)
  then show ?thesis using s(2) assms(5,7-9) tk by (simp add: step_ok_def same_taker_def)
qed

lemma step_trade:
  assumes "book_inv H b" "tk \<in> H" "m \<in> set (lv_queue (level_at b p))" "all_lively (pb_core b)" "best_ok (pb_core b)" "0 < q"
    and "e = min q (po_displayed (order_at b m))" "settle_maker tm p tk m e (execute tm p tk m e b) = (b', nx)"
  shows "step_ok tk b q b' (q - e) \<and> work (pb_core b') (q - e) < work (pb_core b) q"
proof -
  let ?c = "pb_core b" let ?b1 = "execute tm p tk m e b" let ?x = "order_at b m" let ?x1 = "order_at ?b1 m"
  have i: "core_inv H ?c" using assms(1) by (simp add: book_inv_def)
  have m: "m < pc_MAX ?c" "is_active ?x" using queue_iff [OF i] assms(3) by (auto simp: level_at_def order_at_def)
  have t: "m \<noteq> tk" "\<not> is_active (pc_pool ?c tk)" using held [OF i assms(2)] m(2) by (auto simp: order_at_def)
  have r: "m \<in> resting_slots ?c" using m by (simp add: resting_slots_def order_at_def)
  have l: "lively ?x" using assms(4) r by (simp add: all_lively_def order_at_def)
  have k: "qty_ok ?x" using queue_qty [OF i m(1)] m(2) by (simp add: order_at_def)
  have e: "0 \<le> e" "e \<le> q" "e \<le> po_displayed ?x" using assms(6,7) k by (auto simp: qty_ok_def)
  have l1: "lively ?x1" "qty_ok ?x1" using l k e t(1) by (auto simp: lively_def remaining_qty_def qty_ok_def)
  obtain x' where s: "pc_pool (pb_core b') = (pc_pool (pb_core ?b1))(m := x')" "pc_MAX (pb_core b') = pc_MAX (pb_core ?b1)"
    "pc_LEVELS (pb_core b') = pc_LEVELS (pb_core ?b1)" "pc_ask (pb_core b') = pc_ask (pb_core ?b1)" "pc_bid (pb_core b') = pc_bid (pb_core ?b1)"
    "is_active x' \<longrightarrow> lively x' \<and> po_displayed x' \<noteq> 0"
    using settle_shape [OF assms(8) refl l1] by blast
  define d where "d = ?c\<lparr>pc_pool := (pc_pool ?c)(tk := filled_by tm e (pc_pool ?c tk))\<rparr>"
  have d: "resting_slots d = resting_slots ?c" "work d q = work ?c q" "all_lively d = all_lively ?c"
    using work_other [of d ?c tk "filled_by tm e (pc_pool ?c tk)"] t(2) by (simp_all add: d_def)
  have p: "pc_pool (pb_core b') = (pc_pool d)(m := x')" "pc_MAX (pb_core b') = pc_MAX d" "pc_pool d m = ?x"
    using s(1,2) t(1) by (simp_all add: execute_core [OF t(1) refl] Let_def upd_order_def d_def order_at_def)
  have b: "best_ok (pb_core b')"
    using assms(5) s(3-5) by (subst best_ok_cong [of _ ?c]) (simp_all add: execute_core [OF t(1) refl] Let_def upd_order_def)
  have tk: "order_at b' tk = filled_by tm e (order_at b tk)" using t(1) p(1) by (simp add: order_at_def d_def)
  have mv: "q - e < q \<or> po_displayed (pc_pool d m) = 0" using e assms(6,7) p(3) by auto
  have w: "work (pb_core b') (q - e) < work ?c q \<and> all_lively (pb_core b')"
  proof (cases "is_active x'")
    case True
    then show ?thesis using work_stay [OF p(2,1) _ True _ _ assms(6) mv] s(6) r d assms(4) e(1) by auto
  next
    case False
    then show ?thesis using work_leave [OF p(2,1) _ False, of "q - e" q] r d assms(4) e(1) by auto
  qed
  have "pb_stp b' = pb_stp b" using stp_settle [OF assms(8)] by simp
  then show ?thesis using w b e tk by (simp add: step_ok_def same_taker_def remaining_qty_def)
qed

lemma level_step_progress:
  assumes "book_inv H b" "tk \<in> H" "m \<in> set (lv_queue (level_at b p))" "all_lively (pb_core b)" "best_ok (pb_core b)" "0 < q"
  shows "case level_step tm p tk m q b of Inl (b', q') \<Rightarrow> q' = 0 \<and> step_ok tk b q b' q'
    | Inr (b', nx, q') \<Rightarrow> step_ok tk b q b' q' \<and> work (pb_core b') q' < work (pb_core b) q"
proof -
  define own where "own \<longleftrightarrow> pb_stp b \<noteq> STP_NONE \<and> same_trading_entity (po_client (order_at b m)) (po_client (order_at b tk)) b"
  define b0 where "b0 = (if own then count_stp tk m b else b)"
  define e where "e = min q (po_displayed (order_at b0 m))"
  obtain b1 nx where s: "settle_maker tm p tk m e (execute tm p tk m e b0) = (b1, nx)" by fastforce
  have i0: "book_inv H b0" "m \<in> set (lv_queue (level_at b0 p))" "pb_core b0 = pb_core b" "order_at b0 = order_at b" "pb_stp b0 = pb_stp b"
    using assms(1,3) by (auto simp: b0_def)
  have f: "step_ok tk b0 q b' q' = step_ok tk b q b' q'" for b' q' using i0 by (simp add: step_ok_def)
  have o: "own \<Longrightarrow> pb_stp b0 \<noteq> STP_NONE" using i0(5) by (simp add: own_def)
  have z: "step_ok tk b q b0 0" if own using that o i0(3-5) assms(4-6) by (simp add: step_ok_def same_taker_def)
  have c: "step_ok tk b q (cancel_internal tm m True b0) q' \<and> work (pb_core (cancel_internal tm m True b0)) q' < work (pb_core b) q"
    if own "q' \<le> q" "0 \<le> q'" for q'
    using step_cancel [OF i0(1) assms(2) i0(2) _ _ assms(6) that(2,3) o [OF that(1)], of tm] assms(4,5) i0(3) by (simp add: f)
  have "step_ok tk b q b1 (q - e) \<and> work (pb_core b1) (q - e) < work (pb_core b) q"
    using step_trade [OF i0(1) assms(2) i0(2) _ _ assms(6) e_def s] assms(4,5) i0(3) by (simp add: f)
  moreover have "level_step tm p tk m q b = (if own \<and> pb_stp b = CANCEL_NEWEST then Inl (b0, 0)
      else if own \<and> pb_stp b = CANCEL_OLDEST then Inr (cancel_internal tm m True b0, next_at (lv_queue (level_at b0 p)) m, q)
      else if own \<and> pb_stp b = CANCEL_BOTH then Inl (cancel_internal tm m True b0, 0) else Inr (b1, nx, q - e))"
    using s unfolding level_step_def Let_def own_def [symmetric] b0_def [symmetric] e_def [symmetric] by simp
  ultimately show ?thesis using c [of q] c [of 0] z assms(6) by simp
qed

section \<open>The loops end\<close>

lemma match_at_level_mono: "match_at_level n tm p tk mo q b = Some r \<Longrightarrow> n \<le> k \<Longrightarrow> match_at_level k tm p tk mo q b = Some r"
proof (induction n arbitrary: k mo q b)
  case (Suc n)
  obtain j where k: "k = Suc j" "n \<le> j" using Suc.prems(2) by (cases k) auto
  show ?case
  proof (cases mo)
    case (Some m)
    then show ?thesis using Suc.prems(1) Suc.IH [OF _ k(2)] k(1) by (auto split: if_splits sum.splits)
  qed (use Suc.prems(1) k(1) in simp)
qed simp

lemma sweep_mono: "sweep n tm tk q lc b = Some r \<Longrightarrow> n \<le> k \<Longrightarrow> sweep k tm tk q lc b = Some r"
proof (induction n arbitrary: k q lc b)
  case (Suc n)
  obtain j where k: "k = Suc j" "n \<le> j" using Suc.prems(2) by (cases k) auto
  let ?y = "order_at b tk" let ?p = "best_against (po_side ?y) (pb_core b)"
  show ?case
  proof (cases "q > 0 \<and> would_cross (po_side ?y) (po_price ?y) (pb_core b)")
    case True
    then obtain b1 q1 where m: "match_at_level n tm ?p tk (head_at (lv_queue (level_at b ?p))) q b = Some (b1, q1)"
      and s: "sweep n tm tk q1 (if q1 < q then lc + 1 else lc) (on_core (past_empty_level (po_side ?y) ?p) b1) = Some r"
      using Suc.prems(1) by (auto simp: Let_def split: option.splits)
    show ?thesis using True match_at_level_mono [OF m k(2)] Suc.IH [OF s k(2)] k(1) by (simp add: Let_def)
  next
    case False
    then show ?thesis using Suc.prems(1) k(1) by (auto simp: Let_def)
  qed
qed simp

lemma match_at_level_ends:
  assumes "book_inv H b" "tk \<in> H" "\<forall>m. mo = Some m \<longrightarrow> m \<in> set (lv_queue (level_at b p))" "all_lively (pb_core b)" "best_ok (pb_core b)" "0 \<le> q"
  shows "\<exists>n b' q'. match_at_level n tm p tk mo q b = Some (b', q') \<and> step_ok tk b q b' q'
    \<and> (mo \<noteq> None \<and> 0 < q \<longrightarrow> q' = 0 \<or> work (pb_core b') q' < work (pb_core b) q) \<and> (mo = None \<longrightarrow> b' = b \<and> q' = q)"
  using assms
proof (induction "work (pb_core b) q" arbitrary: b q mo rule: less_induct)
  case less
  note r = step_ok_refl [OF less.prems(4-6), of tk]
  show ?case
  proof (cases "mo = None \<or> q \<le> 0")
    case True
    then have "match_at_level (Suc 0) tm p tk mo q b = Some (b, q)" by (cases mo) auto
    then show ?thesis using True r less.prems(6) by (intro exI [of _ "Suc 0"]) auto
  next
    case False
    then obtain m where mo: "mo = Some m" and q: "0 < q" and m: "m \<in> set (lv_queue (level_at b p))" using less.prems(3) by auto
    note st = level_step_progress [OF less.prems(1,2) m less.prems(4,5) q, of tm] and iv = inv_level_step [OF less.prems(1,2) m q, of tm]
    show ?thesis
    proof (cases "level_step tm p tk m q b")
      case (Inl z)
      then have "match_at_level (Suc 0) tm p tk mo q b = Some z" using mo q by simp
      then show ?thesis using st Inl mo by (intro exI [of _ "Suc 0"] exI [of _ "fst z"] exI [of _ "snd z"]) (cases z, simp)
    next
      case (Inr z)
      obtain b1 nx q1 where z: "z = (b1, nx, q1)" by (cases z)
      have s1: "step_ok tk b q b1 q1" "work (pb_core b1) q1 < work (pb_core b) q" using st Inr z by simp_all
      have i1: "book_inv H b1" "\<forall>n. nx = Some n \<longrightarrow> n \<in> set (lv_queue (level_at b1 p))" using iv Inr z by simp_all
      obtain n b' q' where n: "match_at_level n tm p tk nx q1 b1 = Some (b', q')" "step_ok tk b1 q1 b' q'"
        "nx \<noteq> None \<and> 0 < q1 \<longrightarrow> q' = 0 \<or> work (pb_core b') q' < work (pb_core b1) q1" "nx = None \<longrightarrow> b' = b1 \<and> q' = q1"
        using less.hyps [OF s1(2) i1(1) less.prems(2) i1(2)] s1(1) by (auto simp: step_ok_def)
      have "match_at_level (Suc n) tm p tk mo q b = Some (b', q')" using mo q Inr z n(1) by simp
      moreover have "q' = 0 \<or> work (pb_core b') q' < work (pb_core b) q"
        using n(2-4) s1(2) by (cases "nx = None"; cases "0 < q1") (auto simp: step_ok_def)
      ultimately show ?thesis using step_ok_trans [OF s1(1) n(2)] mo by blast
    qed
  qed
qed

text \<open>How far the best opposite price is from the end of the book.\<close>

definition levels_ahead :: "Side \<Rightarrow> pcore \<Rightarrow> nat" where
  "levels_ahead side c = (if side = BUY then (if has_ask c then nat (pc_LEVELS c - pc_ask c) else 0)
     else (if has_bid c then nat (pc_bid c + 1) else 0))"

lemma next_level:
  assumes "best_ok c" "would_cross side px c" "lv_queue (pc_levels c (best_against side c)) = []"
  shows "levels_ahead side (past_empty_level side (best_against side c) c) < levels_ahead side c"
proof (cases "side = BUY")
  case True
  then have a: "0 \<le> pc_ask c" "pc_ask c < pc_LEVELS c" "has_ask c" "pc_LEVELS c < 2 ^ 31"
    using assms(1,2) by (auto simp: best_ok_def would_cross_def has_ask_def)
  then have "s32 (pc_ask c + 1) = pc_ask c + 1" by (simp add: s32_id)
  then show ?thesis
    using True a assms(3) scan_levels_cases [of c "[pc_ask c + 1..pc_LEVELS c - 1]" NO_ASK_TICKS]
    by (auto simp: levels_ahead_def past_empty_level_def best_against_def refresh_best_ask_from_def has_ask_def)
next
  case False
  then have a: "0 \<le> pc_bid c" "has_bid c" using assms(1,2) by (auto simp: best_ok_def would_cross_def has_bid_def)
  then show ?thesis
    using False assms(3) scan_levels_cases [of c "rev [0..pc_bid c - 1]" NO_BID_TICKS]
    by (auto simp: levels_ahead_def past_empty_level_def best_against_def refresh_best_bid_from_def has_bid_def)
qed

lemma past_empty_frame [simp]:
  "pc_pool (past_empty_level side p c) = pc_pool c" "pc_MAX (past_empty_level side p c) = pc_MAX c"
  "best_ok c \<Longrightarrow> best_ok (past_empty_level side p c)"
  by (simp_all add: past_empty_level_def best_ok_refresh)

lemma past_empty_work [simp]: "work (past_empty_level side p c) q = work c q" "all_lively (past_empty_level side p c) = all_lively c"
  by (simp_all add: work_def blank_def resting_slots_def all_lively_def)

lemma sweep_ends:
  assumes "book_inv H b" "tk \<in> H" "all_lively (pb_core b)" "best_ok (pb_core b)" "0 \<le> q"
  shows "\<exists>n b' q' lc'. sweep n tm tk q lc b = Some (b', q', lc') \<and> step_ok tk b q b' q'
    \<and> (q' = 0 \<or> \<not> would_cross (po_side (order_at b' tk)) (po_price (order_at b' tk)) (pb_core b'))"
  using assms
proof (induction "(work (pb_core b) q, levels_ahead (po_side (order_at b tk)) (pb_core b))" arbitrary: b q lc
    rule: wf_induct_rule [OF wf_lex_prod [OF wf_less_than wf_less_than]])
  case (1 b q lc)
  let ?y = "order_at b tk" let ?p = "best_against (po_side ?y) (pb_core b)" let ?mo = "head_at (lv_queue (level_at b ?p))"
  note r = step_ok_refl [OF "1.prems"(3-5), of tk]
  show ?case
  proof (cases "q > 0 \<and> would_cross (po_side ?y) (po_price ?y) (pb_core b)")
    case False
    then have "sweep (Suc 0) tm tk q lc b = Some (b, q, lc)" by (auto simp: Let_def)
    then show ?thesis using False r "1.prems"(5) by (intro exI [of _ "Suc 0"] exI [of _ b] exI [of _ q] exI [of _ lc]) auto
  next
    case True
    have mo: "\<forall>m. ?mo = Some m \<longrightarrow> m \<in> set (lv_queue (level_at b ?p))" using head_at_in by auto
    obtain n b1 q1 where n: "match_at_level n tm ?p tk ?mo q b = Some (b1, q1)" "step_ok tk b q b1 q1"
      "?mo \<noteq> None \<and> 0 < q \<longrightarrow> q1 = 0 \<or> work (pb_core b1) q1 < work (pb_core b) q" "?mo = None \<longrightarrow> b1 = b \<and> q1 = q"
      using match_at_level_ends [OF "1.prems"(1,2) mo "1.prems"(3-5)] by blast
    define b2 where "b2 = on_core (past_empty_level (po_side ?y) ?p) b1"
    have s2: "step_ok tk b q b2 q1" using n(2) by (simp add: step_ok_def b2_def order_at_def)
    have i2: "book_inv H b2" using inv_match_at_level [OF "1.prems"(1,2) mo n(1)] by (simp add: b2_def book_inv_def)
    have "\<exists>n b' q' lc'. sweep n tm tk q1 (if q1 < q then lc + 1 else lc) b2 = Some (b', q', lc') \<and> step_ok tk b2 q1 b' q'
      \<and> (q' = 0 \<or> \<not> would_cross (po_side (order_at b' tk)) (po_price (order_at b' tk)) (pb_core b'))"
    proof (cases "q1 = 0")
      case True
      then have "sweep (Suc 0) tm tk q1 (if q1 < q then lc + 1 else lc) b2 = Some (b2, q1, if q1 < q then lc + 1 else lc)" by (simp add: Let_def)
      moreover have "step_ok tk b2 q1 b2 q1" using s2 by (simp add: step_ok_def same_taker_def)
      ultimately show ?thesis using True by blast
    next
      case False
      have "((work (pb_core b2) q1, levels_ahead (po_side (order_at b2 tk)) (pb_core b2)),
             (work (pb_core b) q, levels_ahead (po_side (order_at b tk)) (pb_core b))) \<in> less_than <*lex*> less_than"
      proof (cases "?mo = None")
        case True
        then have e: "b1 = b" "q1 = q" "lv_queue (pc_levels (pb_core b) ?p) = []" using n(4) by (auto simp: head_at_def level_at_def split: list.splits)
        have "levels_ahead (po_side ?y) (pb_core b2) < levels_ahead (po_side ?y) (pb_core b)"
          using next_level [OF "1.prems"(4) conjunct2 [OF \<open>q > 0 \<and> _\<close>] e(3)] by (simp add: b2_def e(1))
        then show ?thesis by (simp add: b2_def e(1,2) order_at_def)
      next
        case False
        then show ?thesis using n(3) \<open>q1 \<noteq> 0\<close> \<open>q > 0 \<and> _\<close> by (simp add: b2_def)
      qed
      from "1.hyps" [OF this i2 "1.prems"(2)] show ?thesis using s2 unfolding step_ok_def by blast
    qed
    then obtain k b' q' lc' where k: "sweep k tm tk q1 (if q1 < q then lc + 1 else lc) b2 = Some (b', q', lc')" "step_ok tk b2 q1 b' q'"
      "q' = 0 \<or> \<not> would_cross (po_side (order_at b' tk)) (po_price (order_at b' tk)) (pb_core b')" by blast
    have "sweep (Suc (max n k)) tm tk q lc b = Some (b', q', lc')"
      using True match_at_level_mono [OF n(1), of "max n k"] sweep_mono [OF k(1), of "max n k"] by (simp add: Let_def b2_def)
    then show ?thesis using step_ok_trans [OF s2 k(2)] k(3) by blast
  qed
qed

section \<open>Matching an accepted order\<close>

lemma all_lively_list: "all_lively c \<longleftrightarrow> list_all (\<lambda>s. is_active (pc_pool c s) \<longrightarrow> lively (pc_pool c s)) [0..<pc_MAX c]"
  by (auto simp: all_lively_def resting_slots_def list_all_iff)

lemma take_in_taker:
  assumes "take_in now a b = Inr (b1, s)"
  shows "po_side (order_at b1 s) = sa_side a" "po_price (order_at b1 s) = sa_price a" "remaining_qty (order_at b1 s) = sa_qty a" "0 < sa_qty a"
    "pb_stp b1 = pb_stp (fst (admit now a b))"
proof -
  obtain b0 where ad: "admit now a b = (b0, R_NONE)" using assms by (cases "admit now a b") (auto simp: take_in_def split: if_splits option.splits)
  obtain c where b1: "b1 = accept now a s c b0" using assms ad by (auto simp: take_in_def split: option.splits)
  show "po_side (order_at b1 s) = sa_side a" "po_price (order_at b1 s) = sa_price a" "remaining_qty (order_at b1 s) = sa_qty a"
    unfolding b1 by (simp_all add: order_at_def accept_core upd_order_def fresh_order_def porder_reset_def remaining_qty_def Let_def)
  show "0 < sa_qty a" by (rule admit_qty [OF ad])
  show "pb_stp b1 = pb_stp (fst (admit now a b))"
    unfolding b1 ad by (simp add: accept_def note_peak_def tally_accept_def exposure_on_submit_def Let_def)
qed

text \<open>
  C9. Matching an accepted order ends, whatever the policies in force: in a book reached by a run of calls
  in which no fully hidden order rests and the best prices are prices of the book, some number of
  passes completes \<open>match_against\<close>.  The order is not filled beyond its quantity, and without
  self-trade prevention it is then filled completely or the best opposite price is beyond its limit.
\<close>

theorem pro_match_ends:
  assumes "pro_run L N b" "int N < 2 ^ 31" "take_in now a b = Inr (b1, s)" "all_lively (pb_core b1)" "best_ok (pb_core b1)"
  shows "\<exists>n b'. match_against n now s b1 = Some b' \<and> 0 \<le> remaining_qty (order_at b' s)
    \<and> (pb_stp b1 = STP_NONE \<longrightarrow> remaining_qty (order_at b' s) = 0 \<or> \<not> would_cross (sa_side a) (sa_price a) (pb_core b'))"
proof -
  have i: "book_inv (insert s {}) b1" using take_in_inv [OF run_inv [OF assms(1,2)], of now a] assms(3) by simp
  note t = take_in_taker [OF assms(3)]
  obtain n b2 q lc where e: "sweep n now s (remaining_qty (order_at b1 s)) 0 b1 = Some (b2, q, lc)" "step_ok s b1 (remaining_qty (order_at b1 s)) b2 q"
    "q = 0 \<or> \<not> would_cross (po_side (order_at b2 s)) (po_price (order_at b2 s)) (pb_core b2)"
    using sweep_ends [OF i _ assms(4,5), of s "remaining_qty (order_at b1 s)" now 0] t(3,4) by auto
  obtain b' where b': "match_against n now s b1 = Some b'" "pb_core b' = pb_core b2" using e(1) by (auto simp: match_against_def Let_def)
  then have o: "order_at b' s = order_at b2 s" by (simp add: order_at_def)
  have "0 \<le> remaining_qty (order_at b' s)" using e(2) o by (auto simp: step_ok_def)
  moreover have "remaining_qty (order_at b' s) = 0 \<or> \<not> would_cross (sa_side a) (sa_price a) (pb_core b')" if "pb_stp b1 = STP_NONE"
    using that e(2,3) o b'(2) t(1,2) by (auto simp: step_ok_def same_taker_def)
  ultimately show ?thesis using b'(1) by blast
qed

definition accepted_in :: "submit_args \<Rightarrow> pbook \<Rightarrow> (pbook \<times> nat) option" where
  "accepted_in a b = (case take_in 9 a b of Inl _ \<Rightarrow> None | Inr r \<Rightarrow> Some r)"

definition one_sell :: "pbook" where
  "one_sell = the (submits [plain SELL 2 10 1] (FullOrderBook 4 3))"

theorem pro_match_ends_witness:
  "\<exists>b1 s n b'. take_in 9 (plain BUY 2 4 2) one_sell = Inr (b1, s) \<and> match_against n 9 s b1 = Some b' \<and> 0 \<le> remaining_qty (order_at b' s)"
proof -
  have "case submits [plain SELL 2 10 1] (FullOrderBook 4 3) of None \<Rightarrow> False | Some b \<Rightarrow> (case accepted_in (plain BUY 2 4 2) b of None \<Rightarrow> False
     | Some (b1, s) \<Rightarrow> list_all (\<lambda>s. is_active (pc_pool (pb_core b1) s) \<longrightarrow> lively (pc_pool (pb_core b1) s)) [0..<pc_MAX (pb_core b1)] \<and> best_ok (pb_core b1))"
    by code_simp
  then obtain b1 s where b: "submits [plain SELL 2 10 1] (FullOrderBook 4 3) = Some one_sell" and t: "take_in 9 (plain BUY 2 4 2) one_sell = Inr (b1, s)"
    and k: "all_lively (pb_core b1)" "best_ok (pb_core b1)"
    by (auto simp: one_sell_def accepted_in_def all_lively_list split: option.splits sum.splits)
  have "pro_run 4 3 one_sell" by (rule submits_run [OF run_new b])
  from pro_match_ends [OF this _ t k] show ?thesis using t by auto
qed

end
