(* ===== verification/Pro_Limits.thy ===== *)
theory Pro_Limits
  imports Pro_Props
begin

text \<open>
  Runs of \<open>FullOrderBook\<close> that end outside what its comments promise, each a computation of the model
  on a book of a few levels.
\<close>

definition book_with :: "SelfTradePrevention \<Rightarrow> pbook" where
  "book_with p = (FullOrderBook 4 4)\<lparr>pb_stp := p\<rparr>"

definition bests :: "pbook option \<Rightarrow> (int \<times> int) option" where
  "bests r = map_option (\<lambda>b. (pc_bid (pb_core b), pc_ask (pb_core b))) r"

text \<open>
  \<open>CANCEL_NEWEST\<close> ends the matching of the incoming order but not the order: the rest of it is queued
  at its limit, so the book of one client is locked.
\<close>

lemma cancel_newest_rests: "bests (submits [plain SELL 2 10 1, plain BUY 2 4 1] (book_with CANCEL_NEWEST)) = Some (2, 2)"
  by code_simp

text \<open>
  \<open>CANCEL_OLDEST\<close>: when the cancel empties the best level it refreshes the best price, and
  \<open>match_against\<close> then refreshes it once more from the level behind.  The sell at 2 stays in the book
  without being the best ask, and the buy rests above it.
\<close>

lemma cancel_oldest_loses_best:
  "bests (submits [plain SELL 1 5 1, plain SELL 2 5 2, plain BUY 3 4 1] (book_with CANCEL_OLDEST)) = Some (3, NO_ASK_TICKS)"
  by code_simp

text \<open>\<open>DECREMENT_AND_CXL\<close> has no case of its own: the two orders of the client trade.\<close>

lemma decrement_trades:
  "map_option (\<lambda>b. (bs_fills (pb_stats b), bs_stp_blocks (pb_stats b))) (submits [plain SELL 2 10 1, plain BUY 2 4 1] (book_with DECREMENT_AND_CXL)) = Some (1, 1)"
  by code_simp

text \<open>A fully hidden order at the best price shows nothing to trade with, so a pass leaves the level and the
  incoming order as they are: no end within the passes given.\<close>

lemma hidden_at_best_spins:
  "(case submits [plain SELL 2 5 1, (plain SELL 2 5 2)\<lparr>sa_type := HIDDEN\<rparr>] (book_with STP_NONE) of None \<Rightarrow> False
     | Some b \<Rightarrow> submit 6 7 (plain BUY 2 8 3) b = None)"
  by code_simp

text \<open>
  A stop that waits is in the index but in no level; lowering its quantity at its own limit price takes
  the difference from the level of that price.
\<close>

lemma modify_pending_stop_breaks_audit:
  "(case modify 5 7 1 2 3 (fst (submit_stop 7 BUY 3 2 9 0 1 (book_with STP_NONE))) of None \<Rightarrow> False
     | Some (b, _) \<Rightarrow> audit_book_integrity (pb_core b) = Some 1)"
  by code_simp

text \<open>An order that names its id may take the id the counter gives out next; the second order replaces it in the index.\<close>

lemma auto_id_collides:
  "map_option (\<lambda>b. (pc_index (pb_core b), pc_active (pb_core b))) (submits [(plain SELL 2 5 1)\<lparr>sa_id := 1\<rparr>, plain SELL 3 5 2] (book_with STP_NONE)) = Some ([(1, 1)], 2)"
  by code_simp

text \<open>A market order is not held to the price range; its rest is queued at a level outside the array.\<close>

lemma market_rest_out_of_range:
  "map_option (\<lambda>b. pc_oob (pb_core b)) (submits [(plain BUY 9 5 1)\<lparr>sa_type := MARKET\<rparr>] (book_with STP_NONE)) = Some True"
  by code_simp

end
