(* ===== verification/Ouch_Orders.thy ===== *)
theory Ouch_Orders
  imports Ouch Fix_Orders
begin

text \<open>
  \<open>ouch-protocol/ouch_order_state.hpp\<close>: the client's record of its OUCH orders, driven by the responses
  of the exchange, and the read-outs over it.  The iteration order of the hash map is that of the
  association list.
\<close>

section \<open>State\<close>

datatype OrderState = OS_NEW | OS_LIVE | OS_PARTIAL | OS_FILLED | OS_CANCELLED | OS_REJECTED

fun order_state_str :: "OrderState \<Rightarrow> string" where
  "order_state_str OS_NEW = ''NEW''"
| "order_state_str OS_LIVE = ''LIVE''"
| "order_state_str OS_PARTIAL = ''PARTIAL''"
| "order_state_str OS_FILLED = ''FILLED''"
| "order_state_str OS_CANCELLED = ''CANCELLED''"
| "order_state_str OS_REJECTED = ''REJECTED''"

record ouch_record =
  or_state :: OrderState
  or_original :: int
  or_remaining :: int
  or_filled :: int
  or_order_ref :: int
  or_pending_cancel :: bool
  or_fill_notional :: dbl
  or_side :: char
  or_price :: dbl

record ouch_tracker =
  ot_orders :: "(byte list, ouch_record) hmap"
  ot_live :: int
  ot_filled :: int
  ot_cancelled :: int
  ot_rejected :: int
  ot_broken :: int
  ot_ordered_shares :: int
  ot_broken_shares :: int
  ot_exec_count :: int
  ot_exec_shares :: int
  ot_max_exec :: int
  ot_min_exec :: int
  ot_cancelled_shares :: int
  ot_last_reject :: byte
  ot_responses :: int
  ot_cancel_rejects :: int
  ot_replaced :: int
  ot_desyncs :: int
  ot_fill_notional :: dbl
  ot_bought :: int
  ot_sold :: int
  ot_buy_notional :: dbl
  ot_sell_notional :: dbl

definition ot0 :: ouch_tracker where
  "ot0 = \<lparr>ot_orders = [], ot_live = 0, ot_filled = 0, ot_cancelled = 0, ot_rejected = 0, ot_broken = 0, ot_ordered_shares = 0,
     ot_broken_shares = 0, ot_exec_count = 0, ot_exec_shares = 0, ot_max_exec = 0, ot_min_exec = 0, ot_cancelled_shares = 0,
     ot_last_reject = 0, ot_responses = 0, ot_cancel_rejects = 0, ot_replaced = 0, ot_desyncs = 0, ot_fill_notional = Fin 0,
     ot_bought = 0, ot_sold = 0, ot_buy_notional = Fin 0, ot_sell_notional = Fin 0\<rparr>"

definition plus1 :: "int \<Rightarrow> int" where
  "plus1 n = u64 (n + 1)"

section \<open>What the client sends\<close>

definition ot_on_new :: "byte list \<Rightarrow> int \<Rightarrow> ouch_tracker \<Rightarrow> ouch_tracker" where
  "ot_on_new tok n t = t\<lparr>ot_orders := AList.update tok \<lparr>or_state = OS_NEW, or_original = n, or_remaining = n, or_filled = 0, or_order_ref = 0,
       or_pending_cancel = False, or_fill_notional = Fin 0, or_side = CHR '' '', or_price = Fin 0\<rparr> (ot_orders t),
     ot_ordered_shares := s64 (ot_ordered_shares t + n)\<rparr>"

definition or_working :: "ouch_record \<Rightarrow> bool" where
  "or_working r \<longleftrightarrow> or_state r = OS_LIVE \<or> or_state r = OS_PARTIAL"

definition or_done :: "ouch_record \<Rightarrow> bool" where
  "or_done r \<longleftrightarrow> or_state r = OS_FILLED \<or> or_state r = OS_CANCELLED \<or> or_state r = OS_REJECTED"

definition put_rec :: "byte list \<Rightarrow> ouch_record \<Rightarrow> ouch_tracker \<Rightarrow> ouch_tracker" where
  "put_rec tok r t = t\<lparr>ot_orders := AList.update tok r (ot_orders t)\<rparr>"

definition ot_on_cancel_sent :: "byte list \<Rightarrow> ouch_tracker \<Rightarrow> ouch_tracker" where
  "ot_on_cancel_sent tok t = (case map_of (ot_orders t) tok of None \<Rightarrow> t
     | Some r \<Rightarrow> if or_working r then put_rec tok (r\<lparr>or_pending_cancel := True\<rparr>) t else t)"

section \<open>What the exchange answers\<close>

text \<open>A response that names no known order.\<close>

definition desync :: "ouch_tracker \<Rightarrow> ouch_tracker" where
  "desync t = t\<lparr>ot_rejected := plus1 (ot_rejected t), ot_desyncs := plus1 (ot_desyncs t)\<rparr>"

definition take_replaced :: "OUCHResponse \<Rightarrow> ouch_tracker \<Rightarrow> ouch_tracker \<times> OrderState" where
  "take_replaced r t = (case map_of (ot_orders t) (r_prev_token r) of None \<Rightarrow> (desync t, OS_REJECTED)
     | Some x \<Rightarrow>
       let y = x\<lparr>or_remaining := r_shares r, or_order_ref := r_order_ref r, or_pending_cancel := False, or_price := r_price r,
                 or_state := (if or_filled x > 0 then OS_PARTIAL else OS_LIVE)\<rparr>
       in (put_rec (r_token r) y (t\<lparr>ot_orders := AList.delete (r_prev_token r) (ot_orders t), ot_replaced := plus1 (ot_replaced t)\<rparr>), or_state y))"

definition take_accepted :: "OUCHResponse \<Rightarrow> ouch_record \<Rightarrow> ouch_tracker \<Rightarrow> ouch_tracker" where
  "take_accepted r x t = (put_rec (r_token r) (x\<lparr>or_state := OS_LIVE, or_order_ref := r_order_ref r,
       or_side := (case r_side r of [] \<Rightarrow> CHR '' '' | c # _ \<Rightarrow> c), or_price := r_price r\<rparr>) t)\<lparr>ot_live := plus1 (ot_live t)\<rparr>"

text \<open>The tape of executions: counters, extremes and notional, by the side of the order.\<close>

definition count_exec :: "char \<Rightarrow> int \<Rightarrow> dbl \<Rightarrow> ouch_tracker \<Rightarrow> ouch_tracker" where
  "count_exec side e notional t =
     (let t1 = t\<lparr>ot_exec_shares := s64 (ot_exec_shares t + e), ot_exec_count := plus1 (ot_exec_count t), ot_max_exec := max e (ot_max_exec t),
                 ot_min_exec := (if ot_min_exec t = 0 \<or> e < ot_min_exec t then e else ot_min_exec t),
                 ot_fill_notional := dadd (ot_fill_notional t) notional\<rparr>
      in if side = CHR ''B'' then t1\<lparr>ot_bought := s64 (ot_bought t + e), ot_buy_notional := dadd (ot_buy_notional t) notional\<rparr>
         else if side = CHR ''S'' then t1\<lparr>ot_sold := s64 (ot_sold t + e), ot_sell_notional := dadd (ot_sell_notional t) notional\<rparr> else t1)"

definition take_executed :: "OUCHResponse \<Rightarrow> ouch_record \<Rightarrow> ouch_tracker \<Rightarrow> ouch_tracker" where
  "take_executed r x t =
     (if or_done x then t
      else let e = (if r_shares r < or_remaining x then r_shares r else or_remaining x); notional = dmul (r_price r) (d_of_int e);
               x1 = x\<lparr>or_filled := s32 (or_filled x + e), or_remaining := s32 (or_remaining x - e)\<rparr>;
               x2 = (if e > 0 then x1\<lparr>or_fill_notional := dadd (or_fill_notional x1) notional\<rparr> else x1);
               t1 = (if e > 0 then count_exec (or_side x) e notional t else t)
           in if or_remaining x2 \<le> 0 then (put_rec (r_token r) (x2\<lparr>or_state := OS_FILLED\<rparr>) t1)\<lparr>ot_filled := plus1 (ot_filled t1)\<rparr>
              else put_rec (r_token r) (if e > 0 then x2\<lparr>or_state := OS_PARTIAL\<rparr> else x2) t1)"

definition take_cancelled :: "OUCHResponse \<Rightarrow> ouch_record \<Rightarrow> ouch_tracker \<Rightarrow> ouch_tracker" where
  "take_cancelled r x t = (put_rec (r_token r) (x\<lparr>or_state := OS_CANCELLED, or_remaining := 0, or_pending_cancel := False\<rparr>) t)
     \<lparr>ot_cancelled_shares := s64 (ot_cancelled_shares t + or_remaining x), ot_cancelled := plus1 (ot_cancelled t)\<rparr>"

text \<open>The share of a notional that goes with \<open>back\<close> of \<open>n\<close> shares.\<close>

definition unwind :: "dbl \<Rightarrow> int \<Rightarrow> int \<Rightarrow> dbl" where
  "unwind v back n = dsub v (dmul v (ddiv (d_of_int back) (d_of_int n)))"

definition take_broken :: "OUCHResponse \<Rightarrow> ouch_record \<Rightarrow> ouch_tracker \<Rightarrow> ouch_tracker" where
  "take_broken r x t =
     (let back = (if r_shares r < or_filled x then r_shares r else or_filled x);
          x1 = (if back > 0 \<and> or_filled x > 0 then x\<lparr>or_fill_notional := unwind (or_fill_notional x) back (or_filled x)\<rparr> else x);
          x2 = x1\<lparr>or_filled := s32 (or_filled x - back), or_remaining := s32 (or_remaining x + back)\<rparr>;
          t1 = (if or_side x = CHR ''B''
                then t\<lparr>ot_buy_notional := (if ot_bought t > 0 then unwind (ot_buy_notional t) back (ot_bought t) else ot_buy_notional t),
                       ot_bought := s64 (ot_bought t - back)\<rparr>
                else if or_side x = CHR ''S''
                then t\<lparr>ot_sell_notional := (if ot_sold t > 0 then unwind (ot_sell_notional t) back (ot_sold t) else ot_sell_notional t),
                       ot_sold := s64 (ot_sold t - back)\<rparr>
                else t)
      in (put_rec (r_token r) (x2\<lparr>or_state := (if or_filled x2 > 0 then OS_PARTIAL else OS_LIVE)\<rparr>) t1)
           \<lparr>ot_broken := plus1 (ot_broken t), ot_broken_shares := s64 (ot_broken_shares t + back)\<rparr>)"

definition take_aiq :: "OUCHResponse \<Rightarrow> ouch_record \<Rightarrow> ouch_tracker \<Rightarrow> ouch_tracker" where
  "take_aiq r x t =
     (let dec = (if r_shares r < or_remaining x then r_shares r else or_remaining x);
          x1 = x\<lparr>or_remaining := s32 (or_remaining x - dec)\<rparr>;
          t1 = t\<lparr>ot_cancelled_shares := s64 (ot_cancelled_shares t + dec)\<rparr>
      in if or_remaining x1 = 0
         then (put_rec (r_token r) (x1\<lparr>or_state := OS_CANCELLED, or_pending_cancel := False\<rparr>) t1)\<lparr>ot_cancelled := plus1 (ot_cancelled t)\<rparr>
         else put_rec (r_token r) x1 t1)"

definition take_rejected :: "OUCHResponse \<Rightarrow> ouch_record \<Rightarrow> ouch_tracker \<Rightarrow> ouch_tracker" where
  "take_rejected r x t = (put_rec (r_token r) (x\<lparr>or_state := OS_REJECTED\<rparr>) t)\<lparr>ot_rejected := plus1 (ot_rejected t)\<rparr>"

text \<open>A response about a known order, by its type.\<close>

definition take_response :: "OUCHResponse \<Rightarrow> ouch_record \<Rightarrow> ouch_tracker \<Rightarrow> ouch_tracker" where
  "take_response r x t =
     (if r_type r = ''ACCEPTED'' then take_accepted r x t
      else if r_type r = ''EXECUTED'' then take_executed r x t
      else if r_type r = ''CANCELLED'' then take_cancelled r x t
      else if r_type r = ''BROKEN'' then take_broken r x t
      else if r_type r = ''CXL_PEND'' then put_rec (r_token r) (x\<lparr>or_pending_cancel := True\<rparr>) t
      else if r_type r = ''CXL_REJECT'' then (put_rec (r_token r) (x\<lparr>or_pending_cancel := False\<rparr>) t)\<lparr>ot_cancel_rejects := plus1 (ot_cancel_rejects t)\<rparr>
      else if r_type r = ''RESTATED'' then put_rec (r_token r) (x\<lparr>or_remaining := r_shares r, or_price := r_price r\<rparr>) t
      else if r_type r = ''AIQ_CXL'' then take_aiq r x t
      else if r_type r = ''REJECTED''
      then (take_rejected r x t)\<lparr>ot_last_reject := (case r_reason r of [] \<Rightarrow> ot_last_reject t | c # _ \<Rightarrow> c)\<rparr>
      else take_rejected r x t)"

definition ot_state :: "byte list \<Rightarrow> ouch_tracker \<Rightarrow> OrderState" where
  "ot_state tok t = (case map_of (ot_orders t) tok of Some r \<Rightarrow> or_state r | None \<Rightarrow> OS_REJECTED)"

definition on_response :: "OUCHResponse \<Rightarrow> ouch_tracker \<Rightarrow> ouch_tracker \<times> OrderState" where
  "on_response r t0 =
     (let t = t0\<lparr>ot_responses := plus1 (ot_responses t0)\<rparr>
      in if r_type r = ''REPLACED'' then take_replaced r t
         else case map_of (ot_orders t) (r_token r) of None \<Rightarrow> (desync t, OS_REJECTED)
         | Some x \<Rightarrow> let t1 = take_response r x t in (t1, ot_state (r_token r) t1))"

definition ot_reset_session :: "ouch_tracker \<Rightarrow> ouch_tracker" where
  "ot_reset_session t = ot0"

section \<open>Read-outs of one order\<close>

definition ot_is_pending_cancel :: "byte list \<Rightarrow> ouch_tracker \<Rightarrow> bool" where
  "ot_is_pending_cancel tok t = (case map_of (ot_orders t) tok of Some r \<Rightarrow> or_pending_cancel r | None \<Rightarrow> False)"

definition ot_remaining :: "byte list \<Rightarrow> ouch_tracker \<Rightarrow> int" where
  "ot_remaining tok t = (case map_of (ot_orders t) tok of Some r \<Rightarrow> or_remaining r | None \<Rightarrow> 0)"

definition ot_filled_of :: "byte list \<Rightarrow> ouch_tracker \<Rightarrow> int" where
  "ot_filled_of tok t = (case map_of (ot_orders t) tok of Some r \<Rightarrow> or_filled r | None \<Rightarrow> 0)"

definition ratio :: "int \<Rightarrow> int \<Rightarrow> dbl" where
  "ratio a n = (if n > 0 then ddiv (d_of_int a) (d_of_int n) else Fin 0)"

definition filled_fraction :: "byte list \<Rightarrow> ouch_tracker \<Rightarrow> dbl" where
  "filled_fraction tok t = (case map_of (ot_orders t) tok of None \<Rightarrow> Fin 0 | Some r \<Rightarrow> ratio (or_filled r) (s32 (or_filled r + or_remaining r)))"

definition ot_avg_fill_price :: "byte list \<Rightarrow> ouch_tracker \<Rightarrow> dbl" where
  "ot_avg_fill_price tok t = (case map_of (ot_orders t) tok of None \<Rightarrow> Fin 0
     | Some r \<Rightarrow> if or_filled r \<le> 0 then Fin 0 else ddiv (or_fill_notional r) (d_of_int (or_filled r)))"

section \<open>Read-outs over all orders\<close>

definition recs :: "ouch_tracker \<Rightarrow> ouch_record list" where
  "recs t = map snd (ot_orders t)"

definition sum_dbl :: "('a \<Rightarrow> dbl) \<Rightarrow> 'a list \<Rightarrow> dbl" where
  "sum_dbl f xs = fold (\<lambda>x s. dadd s (f x)) xs (Fin 0)"

definition ot_fill_vwap :: "ouch_tracker \<Rightarrow> dbl" where
  "ot_fill_vwap t = (if ot_exec_shares t > 0 then ddiv (ot_fill_notional t) (d_of_int (ot_exec_shares t)) else Fin 0)"

definition ot_order_count :: "ouch_tracker \<Rightarrow> nat" where
  "ot_order_count t = length (ot_orders t)"

definition total_filled_shares :: "ouch_tracker \<Rightarrow> int" where
  "total_filled_shares t = sum32 or_filled (recs t)"

definition total_remaining_shares :: "ouch_tracker \<Rightarrow> int" where
  "total_remaining_shares t = sum32 or_remaining (recs t)"

definition working_shares :: "ouch_tracker \<Rightarrow> int" where
  "working_shares t = sum32 or_remaining (filter or_working (recs t))"

definition largest_remaining :: "ouch_tracker \<Rightarrow> int" where
  "largest_remaining t = fold (\<lambda>r m. if or_remaining r > m then or_remaining r else m) (filter or_working (recs t)) 0"

definition on_side :: "char \<Rightarrow> ouch_tracker \<Rightarrow> ouch_record list" where
  "on_side c t = filter (\<lambda>r. or_working r \<and> or_side r = c) (recs t)"

definition working_shares_side :: "char \<Rightarrow> ouch_tracker \<Rightarrow> int" where
  "working_shares_side c t = sum32 or_remaining (on_side c t)"

definition or_notional :: "ouch_record \<Rightarrow> dbl" where
  "or_notional r = dmul (d_of_int (or_remaining r)) (or_price r)"

definition working_notional :: "ouch_tracker \<Rightarrow> dbl" where
  "working_notional t = sum_dbl or_notional (filter or_working (recs t))"

definition working_notional_side :: "char \<Rightarrow> ouch_tracker \<Rightarrow> dbl" where
  "working_notional_side c t = sum_dbl or_notional (on_side c t)"

definition net_working_notional :: "ouch_tracker \<Rightarrow> dbl" where
  "net_working_notional t = dsub (working_notional_side (CHR ''B'') t) (working_notional_side (CHR ''S'') t)"

definition working_vwap :: "char \<Rightarrow> ouch_tracker \<Rightarrow> dbl" where
  "working_vwap c t = (let sh = working_shares_side c t in if sh > 0 then ddiv (working_notional_side c t) (d_of_int sh) else Fin 0)"

definition net_filled_shares :: "ouch_tracker \<Rightarrow> int" where
  "net_filled_shares t = s64 (ot_bought t - ot_sold t)"

definition avg_buy_price :: "ouch_tracker \<Rightarrow> dbl" where
  "avg_buy_price t = (if ot_bought t > 0 then ddiv (ot_buy_notional t) (d_of_int (ot_bought t)) else Fin 0)"

definition avg_sell_price :: "ouch_tracker \<Rightarrow> dbl" where
  "avg_sell_price t = (if ot_sold t > 0 then ddiv (ot_sell_notional t) (d_of_int (ot_sold t)) else Fin 0)"

definition realized_spread_capture :: "ouch_tracker \<Rightarrow> dbl" where
  "realized_spread_capture t = (if ot_bought t > 0 \<and> ot_sold t > 0 then dsub (avg_sell_price t) (avg_buy_price t) else Fin 0)"

definition realized_spread_capture_bps :: "ouch_tracker \<Rightarrow> dbl" where
  "realized_spread_capture_bps t = (let bp = avg_buy_price t in if ot_bought t > 0 \<and> ot_sold t > 0 \<and> dlt (Fin 0) bp
     then dmul (ddiv (dsub (avg_sell_price t) bp) bp) (Fin 10000) else Fin 0)"

definition net_cash_flow :: "ouch_tracker \<Rightarrow> dbl" where
  "net_cash_flow t = dsub (ot_sell_notional t) (ot_buy_notional t)"

definition mark_to_market_pnl :: "dbl \<Rightarrow> ouch_tracker \<Rightarrow> dbl" where
  "mark_to_market_pnl mark t = dadd (net_cash_flow t) (dmul (d_of_int (net_filled_shares t)) mark)"

definition ot_realized_pnl :: "ouch_tracker \<Rightarrow> dbl" where
  "ot_realized_pnl t = (let m = min (ot_bought t) (ot_sold t) in if m > 0 then dmul (d_of_int m) (dsub (avg_sell_price t) (avg_buy_price t)) else Fin 0)"

definition ot_unrealized_pnl :: "dbl \<Rightarrow> ouch_tracker \<Rightarrow> dbl" where
  "ot_unrealized_pnl mark t = dsub (mark_to_market_pnl mark t) (ot_realized_pnl t)"

definition breakeven_mark :: "ouch_tracker \<Rightarrow> dbl" where
  "breakeven_mark t = (let n = net_filled_shares t in if n \<noteq> 0 then ddiv (dneg (net_cash_flow t)) (d_of_int n) else Fin 0)"

definition net_working_shares :: "ouch_tracker \<Rightarrow> int" where
  "net_working_shares t = s32 (working_shares_side (CHR ''B'') t - working_shares_side (CHR ''S'') t)"

definition projected_net_shares :: "ouch_tracker \<Rightarrow> int" where
  "projected_net_shares t = s32 (s32 (net_filled_shares t) + net_working_shares t)"

text \<open>The token of the largest working order as well, cut to fourteen characters.\<close>

definition largest_remaining_token :: "ouch_tracker \<Rightarrow> int \<times> byte list" where
  "largest_remaining_token t = fold (\<lambda>(k, r) (m, w). if or_working r \<and> or_remaining r > m then (or_remaining r, take 14 (cstr k)) else (m, w))
     (ot_orders t) (0, [])"

definition avg_working_shares :: "ouch_tracker \<Rightarrow> dbl" where
  "avg_working_shares t = ratio (working_shares t) (int (length (filter or_working (recs t))))"

definition active_count :: "ouch_tracker \<Rightarrow> nat" where
  "active_count t = length (filter (\<lambda>r. \<not> or_done r) (recs t))"

definition cancel_pending_count :: "ouch_tracker \<Rightarrow> nat" where
  "cancel_pending_count t = length (filter or_pending_cancel (recs t))"

definition pending_cancel_shares :: "ouch_tracker \<Rightarrow> int" where
  "pending_cancel_shares t = sum32 or_remaining (filter or_pending_cancel (recs t))"

definition ot_pending_cancel_fraction :: "ouch_tracker \<Rightarrow> dbl" where
  "ot_pending_cancel_fraction t = ratio (pending_cancel_shares t) (working_shares t)"

definition pending_cancel_notional :: "ouch_tracker \<Rightarrow> dbl" where
  "pending_cancel_notional t = sum_dbl or_notional (filter or_pending_cancel (recs t))"

definition status_count :: "OrderState \<Rightarrow> ouch_tracker \<Rightarrow> nat" where
  "status_count st t = length (filter (\<lambda>r. or_state r = st) (recs t))"

definition ot_fill_rate :: "ouch_tracker \<Rightarrow> dbl" where
  "ot_fill_rate t = ratio (total_filled_shares t) (ot_ordered_shares t)"

definition desync_rate :: "ouch_tracker \<Rightarrow> dbl" where
  "desync_rate t = ratio (ot_desyncs t) (ot_responses t)"

definition broken_share_rate :: "ouch_tracker \<Rightarrow> dbl" where
  "broken_share_rate t = ratio (ot_broken_shares t) (ot_ordered_shares t)"

definition cancelled_share_rate :: "ouch_tracker \<Rightarrow> dbl" where
  "cancelled_share_rate t = ratio (ot_cancelled_shares t) (ot_ordered_shares t)"

definition ot_cancel_to_fill_ratio :: "ouch_tracker \<Rightarrow> dbl" where
  "ot_cancel_to_fill_ratio t = ratio (ot_cancelled_shares t) (total_filled_shares t)"

definition ot_reject_rate :: "ouch_tracker \<Rightarrow> dbl" where
  "ot_reject_rate t = ratio (ot_rejected t) (int (ot_order_count t))"

definition ot_cancel_rate :: "ouch_tracker \<Rightarrow> dbl" where
  "ot_cancel_rate t = ratio (ot_cancelled t) (int (ot_order_count t))"

definition ot_order_fill_rate :: "ouch_tracker \<Rightarrow> dbl" where
  "ot_order_fill_rate t = ratio (ot_filled t) (int (ot_order_count t))"

definition avg_exec_shares :: "ouch_tracker \<Rightarrow> dbl" where
  "avg_exec_shares t = ratio (ot_exec_shares t) (ot_exec_count t)"

definition avg_order_size :: "ouch_tracker \<Rightarrow> dbl" where
  "avg_order_size t = ratio (ot_ordered_shares t) (int (ot_order_count t))"

definition executions_per_order :: "ouch_tracker \<Rightarrow> dbl" where
  "executions_per_order t = ratio (ot_exec_count t) (int (ot_order_count t))"

end
