(* ===== verification/Ouch_Track.thy ===== *)
theory Ouch_Track
  imports Ouch_Orders
begin

text \<open>
  The accounts of the OUCH order tracker: shares are conserved by every report, and the tracker fed
  from the byte stream of the exchange follows an order to its end.
\<close>

section \<open>What a report does to the accounts\<close>

definition rec_ok :: "ouch_record \<Rightarrow> bool" where
  "rec_ok r \<longleftrightarrow> 0 \<le> or_filled r \<and> 0 \<le> or_remaining r \<and> or_filled r + or_remaining r < 2 ^ 31"

text \<open>
  The record \<open>x\<close> of an order becomes \<open>y\<close>: \<open>e\<close> shares executed, \<open>k\<close> broken, \<open>d\<close> cancelled, and a rest
  set by the exchange on its own account when \<open>free\<close>.
\<close>

definition effect :: "bool \<Rightarrow> byte list \<Rightarrow> ouch_record \<Rightarrow> ouch_tracker \<Rightarrow> ouch_tracker \<Rightarrow> bool" where
  "effect free tok x t t' \<longleftrightarrow> (\<exists>y e k d. ot_orders t' = AList.update tok y (ot_orders t) \<and> rec_ok y
     \<and> or_filled y = or_filled x + e - k \<and> (free \<or> or_remaining y = or_remaining x - e + k - d)
     \<and> s64 (ot_exec_shares t') = s64 (ot_exec_shares t + e) \<and> s64 (ot_broken_shares t') = s64 (ot_broken_shares t + k)
     \<and> s64 (ot_cancelled_shares t') = s64 (ot_cancelled_shares t + d) \<and> ot_ordered_shares t' = ot_ordered_shares t)"

lemma effectI:
  assumes "ot_orders t' = AList.update tok y (ot_orders t)" "rec_ok y" "or_filled y = or_filled x + e - k"
    "free \<or> or_remaining y = or_remaining x - e + k - d" "s64 (ot_exec_shares t') = s64 (ot_exec_shares t + e)"
    "s64 (ot_broken_shares t') = s64 (ot_broken_shares t + k)" "s64 (ot_cancelled_shares t') = s64 (ot_cancelled_shares t + d)"
    "ot_ordered_shares t' = ot_ordered_shares t"
  shows "effect free tok x t t'"
  unfolding effect_def using assms by blast

lemma effect_executed:
  assumes "rec_ok x" "map_of (ot_orders t) (r_token r) = Some x" "0 \<le> r_shares r"
  shows "effect free (r_token r) x t (take_executed r x t)"
proof (cases "or_done x")
  case True
  then show ?thesis using assms by (intro effectI [where y = x and e = 0 and k = 0 and d = 0]) (simp_all add: take_executed_def update_triv)
next
  case False
  define e where "e = (if r_shares r < or_remaining x then r_shares r else or_remaining x)"
  define y where "y = (let x1 = x\<lparr>or_filled := or_filled x + e, or_remaining := or_remaining x - e\<rparr>;
      x2 = (if e > 0 then x1\<lparr>or_fill_notional := dadd (or_fill_notional x1) (dmul (r_price r) (d_of_int e))\<rparr> else x1)
    in if or_remaining x2 \<le> 0 then x2\<lparr>or_state := OS_FILLED\<rparr> else if e > 0 then x2\<lparr>or_state := OS_PARTIAL\<rparr> else x2)"
  have e: "0 \<le> e" "e \<le> or_remaining x" using assms(1,3) by (auto simp: e_def rec_ok_def)
  have s: "s32 (or_filled x + e) = or_filled x + e" "s32 (or_remaining x - e) = or_remaining x - e" using assms(1) e by (simp_all add: rec_ok_def s32_id)
  have q: "or_filled y = or_filled x + e" "or_remaining y = or_remaining x - e" by (simp_all add: y_def Let_def)
  show ?thesis
  proof (rule effectI [where y = y and e = e and k = 0 and d = 0])
    show "ot_orders (take_executed r x t) = AList.update (r_token r) y (ot_orders t)"
      using False s by (simp add: take_executed_def Let_def e_def [symmetric] put_rec_def count_exec_def y_def)
    show "rec_ok y" using assms(1) e q by (simp add: rec_ok_def)
    show "s64 (ot_exec_shares (take_executed r x t)) = s64 (ot_exec_shares t + e)"
      using False e by (simp add: take_executed_def Let_def e_def [symmetric] put_rec_def count_exec_def wrap_simps)
  qed (use q False in \<open>simp_all add: take_executed_def Let_def put_rec_def count_exec_def\<close>)
qed

lemma effect_broken:
  assumes "rec_ok x" "0 \<le> r_shares r"
  shows "effect free (r_token r) x t (take_broken r x t)"
proof -
  define k where "k = (if r_shares r < or_filled x then r_shares r else or_filled x)"
  define y where "y = (let x1 = (if k > 0 \<and> or_filled x > 0 then x\<lparr>or_fill_notional := unwind (or_fill_notional x) k (or_filled x)\<rparr> else x);
      x2 = x1\<lparr>or_filled := or_filled x - k, or_remaining := or_remaining x + k\<rparr>
    in x2\<lparr>or_state := (if or_filled x2 > 0 then OS_PARTIAL else OS_LIVE)\<rparr>)"
  have k: "0 \<le> k" "k \<le> or_filled x" using assms by (auto simp: k_def rec_ok_def)
  have s: "s32 (or_filled x - k) = or_filled x - k" "s32 (or_remaining x + k) = or_remaining x + k" using assms(1) k by (simp_all add: rec_ok_def s32_id)
  have q: "or_filled y = or_filled x - k" "or_remaining y = or_remaining x + k" by (simp_all add: y_def Let_def)
  show ?thesis
  proof (rule effectI [where y = y and e = 0 and k = k and d = 0])
    show "ot_orders (take_broken r x t) = AList.update (r_token r) y (ot_orders t)"
      using s by (simp add: take_broken_def Let_def k_def [symmetric] put_rec_def y_def)
    show "rec_ok y" using assms(1) k q by (simp add: rec_ok_def)
    show "s64 (ot_broken_shares (take_broken r x t)) = s64 (ot_broken_shares t + k)"
      by (simp add: take_broken_def Let_def k_def [symmetric] put_rec_def wrap_simps)
  qed (use q in \<open>simp_all add: take_broken_def Let_def put_rec_def\<close>)
qed

lemma effect_aiq:
  assumes "rec_ok x" "0 \<le> r_shares r"
  shows "effect free (r_token r) x t (take_aiq r x t)"
proof -
  define d where "d = (if r_shares r < or_remaining x then r_shares r else or_remaining x)"
  define y where "y = (if or_remaining x - d = 0 then x\<lparr>or_remaining := or_remaining x - d, or_state := OS_CANCELLED, or_pending_cancel := False\<rparr>
    else x\<lparr>or_remaining := or_remaining x - d\<rparr>)"
  have d: "0 \<le> d" "d \<le> or_remaining x" using assms by (auto simp: d_def rec_ok_def)
  have s: "s32 (or_remaining x - d) = or_remaining x - d" using assms(1) d by (simp add: rec_ok_def s32_id)
  have z: "s32 0 = 0" by (simp add: s32_def)
  have q: "or_filled y = or_filled x" "or_remaining y = or_remaining x - d" by (simp_all add: y_def)
  show ?thesis
  proof (rule effectI [where y = y and e = 0 and k = 0 and d = d])
    show "ot_orders (take_aiq r x t) = AList.update (r_token r) y (ot_orders t)"
      unfolding take_aiq_def Let_def d_def [symmetric] by (simp add: s z put_rec_def y_def)
    show "rec_ok y" using assms(1) d q by (simp add: rec_ok_def)
    show "s64 (ot_cancelled_shares (take_aiq r x t)) = s64 (ot_cancelled_shares t + d)"
      by (simp add: take_aiq_def Let_def d_def [symmetric] put_rec_def wrap_simps)
  qed (use q in \<open>simp_all add: take_aiq_def Let_def put_rec_def\<close>)
qed

lemma effect_plain:
  assumes "rec_ok x" "ot_orders t' = AList.update tok y (ot_orders t)" "or_filled y = or_filled x" "or_remaining y = or_remaining x"
    "ot_exec_shares t' = ot_exec_shares t" "ot_broken_shares t' = ot_broken_shares t" "ot_cancelled_shares t' = ot_cancelled_shares t"
    "ot_ordered_shares t' = ot_ordered_shares t"
  shows "effect free tok x t t'"
  by (rule effectI [where y = y and e = 0 and k = 0 and d = 0]) (use assms in \<open>simp_all add: rec_ok_def\<close>)

lemma effect_cancelled: "rec_ok x \<Longrightarrow> effect free (r_token r) x t (take_cancelled r x t)"
  by (rule effectI [where y = "x\<lparr>or_state := OS_CANCELLED, or_remaining := 0, or_pending_cancel := False\<rparr>" and e = 0 and k = 0 and d = "or_remaining x"])
    (simp_all add: take_cancelled_def put_rec_def rec_ok_def wrap_simps)

lemma effect_response:
  assumes "rec_ok x" "map_of (ot_orders t) (r_token r) = Some x" "0 \<le> r_shares r"
    "r_type r = ''RESTATED'' \<Longrightarrow> or_filled x + r_shares r < 2 ^ 31"
  shows "effect (r_type r = ''RESTATED'') (r_token r) x t (take_response r x t)"
proof (cases "r_type r = ''RESTATED''")
  case True
  then show ?thesis
    using assms by (intro effectI [where y = "x\<lparr>or_remaining := r_shares r, or_price := r_price r\<rparr>" and e = 0 and k = 0 and d = 0])
      (simp_all add: take_response_def put_rec_def rec_ok_def)
next
  case False
  have p: "effect False (r_token r) x t (put_rec (r_token r) (x\<lparr>or_pending_cancel := c\<rparr>) t)" for c
    by (rule effect_plain [OF assms(1), where y = "x\<lparr>or_pending_cancel := c\<rparr>"]) (simp_all add: put_rec_def)
  have c: "effect False (r_token r) x t ((put_rec (r_token r) (x\<lparr>or_pending_cancel := False\<rparr>) t)\<lparr>ot_cancel_rejects := n\<rparr>)" for n
    by (rule effect_plain [OF assms(1), where y = "x\<lparr>or_pending_cancel := False\<rparr>"]) (simp_all add: put_rec_def)
  have j: "effect False (r_token r) x t ((take_rejected r x t)\<lparr>ot_last_reject := z\<rparr>)" "effect False (r_token r) x t (take_rejected r x t)" for z
    by (rule effect_plain [OF assms(1), where y = "x\<lparr>or_state := OS_REJECTED\<rparr>"], simp_all add: take_rejected_def put_rec_def)+
  have a: "effect False (r_token r) x t (take_accepted r x t)"
    by (rule effect_plain [OF assms(1), where y = "x\<lparr>or_state := OS_LIVE, or_order_ref := r_order_ref r,
       or_side := (case r_side r of [] \<Rightarrow> CHR '' '' | c # _ \<Rightarrow> c), or_price := r_price r\<rparr>"]) (simp_all add: take_accepted_def put_rec_def)
  show ?thesis
    using False p c j a effect_executed [OF assms(1-3), of False] effect_broken [OF assms(1,3), of False] effect_aiq [OF assms(1,3), of False]
      effect_cancelled [OF assms(1), of False] by (simp add: take_response_def)
qed

section \<open>Runs\<close>

text \<open>
  What the exchange may send: no negative quantity, and a size given by the exchange itself, in
  \<open>RESTATED\<close> and \<open>REPLACED\<close>, fits 32 bits together with what is filled; a replacement has a token of
  its own.
\<close>

definition report_fits :: "OUCHResponse \<Rightarrow> ouch_tracker \<Rightarrow> bool" where
  "report_fits r t \<longleftrightarrow> 0 \<le> r_shares r
     \<and> (r_type r = ''RESTATED'' \<longrightarrow> ot_filled_of (r_token r) t + r_shares r < 2 ^ 31)
     \<and> (r_type r = ''REPLACED'' \<longrightarrow> ot_filled_of (r_prev_token r) t + r_shares r < 2 ^ 31
          \<and> (r_token r = r_prev_token r \<or> map_of (ot_orders t) (r_token r) = None))"

text \<open>\<open>plain\<close>: no size is set by the exchange.\<close>

inductive ot_run :: "bool \<Rightarrow> ouch_tracker \<Rightarrow> bool" where
  ot_start: "ot_run plain ot0"
| ot_new: "ot_run plain t \<Longrightarrow> map_of (ot_orders t) tok = None \<Longrightarrow> 0 \<le> n \<Longrightarrow> n < 2 ^ 31 \<Longrightarrow> ot_run plain (ot_on_new tok n t)"
| ot_cancel: "ot_run plain t \<Longrightarrow> ot_run plain (ot_on_cancel_sent tok t)"
| ot_resp: "ot_run plain t \<Longrightarrow> report_fits r t \<Longrightarrow> (plain \<longrightarrow> r_type r \<noteq> ''RESTATED'' \<and> r_type r \<noteq> ''REPLACED'')
    \<Longrightarrow> ot_run plain (fst (on_response r t))"
| ot_reset: "ot_run plain t \<Longrightarrow> ot_run plain (ot_reset_session t)"

definition ot_inv :: "bool \<Rightarrow> ouch_tracker \<Rightarrow> bool" where
  "ot_inv plain t \<longleftrightarrow> hm_wf (ot_orders t) \<and> (\<forall>k r. map_of (ot_orders t) k = Some r \<longrightarrow> rec_ok r)
     \<and> s64 (hm_sum or_filled (ot_orders t)) = s64 (ot_exec_shares t - ot_broken_shares t)
     \<and> (plain \<longrightarrow> s64 (hm_sum or_filled (ot_orders t) + hm_sum or_remaining (ot_orders t) + ot_cancelled_shares t) = s64 (ot_ordered_shares t))"

lemma s64_eq_add: "s64 a = s64 b \<Longrightarrow> s64 (a + c) = s64 (b + c)"
  by (metis s64_wrap(2))

lemma s64_eq_diff: "s64 a = s64 b \<Longrightarrow> s64 c = s64 d \<Longrightarrow> s64 (a - c) = s64 (b - d)"
  by (metis s64_wrap(4,5))

lemma s64_eq_sum: "s64 a = s64 b \<Longrightarrow> s64 c = s64 d \<Longrightarrow> s64 (a + c) = s64 (b + d)"
  by (metis s64_wrap(2,3))

lemma inv_effect:
  assumes "ot_inv plain t" "map_of (ot_orders t) tok = Some x" "effect free tok x t t'" "plain \<longrightarrow> \<not> free"
  shows "ot_inv plain t'"
proof -
  obtain y e k d where y: "ot_orders t' = AList.update tok y (ot_orders t)" "rec_ok y" "or_filled y = or_filled x + e - k"
    "free \<or> or_remaining y = or_remaining x - e + k - d" and s: "s64 (ot_exec_shares t') = s64 (ot_exec_shares t + e)"
    "s64 (ot_broken_shares t') = s64 (ot_broken_shares t + k)" "s64 (ot_cancelled_shares t') = s64 (ot_cancelled_shares t + d)"
    "ot_ordered_shares t' = ot_ordered_shares t" using assms(3) unfolding effect_def by blast
  have w: "hm_wf (ot_orders t)" using assms(1) by (simp add: ot_inv_def)
  have f: "hm_sum or_filled (ot_orders t') = hm_sum or_filled (ot_orders t) + (e - k)"
    and m: "\<not> free \<Longrightarrow> hm_sum or_remaining (ot_orders t') = hm_sum or_remaining (ot_orders t) - e + k - d"
    using y assms(2) w by (simp_all add: hm_sum_update)
  have "s64 (hm_sum or_filled (ot_orders t) + (e - k)) = s64 ((ot_exec_shares t - ot_broken_shares t) + (e - k))"
    using assms(1) by (intro s64_eq_add) (simp add: ot_inv_def)
  also have "\<dots> = s64 ((ot_exec_shares t + e) - (ot_broken_shares t + k))" by (simp add: algebra_simps)
  also have "\<dots> = s64 (ot_exec_shares t' - ot_broken_shares t')" using s(1,2) by (intro s64_eq_diff) simp_all
  finally have 1: "s64 (hm_sum or_filled (ot_orders t')) = s64 (ot_exec_shares t' - ot_broken_shares t')" by (simp add: f)
  have 2: "s64 (hm_sum or_filled (ot_orders t') + hm_sum or_remaining (ot_orders t') + ot_cancelled_shares t') = s64 (ot_ordered_shares t')" if plain
  proof -
    have "hm_sum or_filled (ot_orders t') + hm_sum or_remaining (ot_orders t') = hm_sum or_filled (ot_orders t) + hm_sum or_remaining (ot_orders t) - d"
      using f m assms(4) that by simp
    then have "s64 (hm_sum or_filled (ot_orders t') + hm_sum or_remaining (ot_orders t') + ot_cancelled_shares t')
        = s64 (hm_sum or_filled (ot_orders t) + hm_sum or_remaining (ot_orders t) - d + (ot_cancelled_shares t + d))"
      using s(3) by (intro s64_eq_sum) simp_all
    then show ?thesis using assms(1) that s(4) by (simp add: ot_inv_def add.assoc)
  qed
  have "rec_ok r" if "map_of (ot_orders t') j = Some r" for j r
    using that y(1,2) assms(1) by (auto simp: ot_inv_def update_conv' split: if_splits)
  then show ?thesis using 1 2 w y(1) by (simp add: ot_inv_def hm_wf_update)
qed

lemma inv_new:
  assumes "ot_inv plain t" "map_of (ot_orders t) tok = None" "0 \<le> n" "n < 2 ^ 31"
  shows "ot_inv plain (ot_on_new tok n t)"
proof -
  have "s64 (hm_sum or_filled (ot_orders t) + hm_sum or_remaining (ot_orders t) + ot_cancelled_shares t + n) = s64 (ot_ordered_shares t + n)" if plain
    using assms(1) that by (intro s64_eq_add) (simp add: ot_inv_def)
  then show ?thesis
    using assms by (auto simp: ot_inv_def ot_on_new_def hm_wf_update hm_sum_update update_conv' rec_ok_def wrap_simps algebra_simps split: if_splits)
qed

lemma inv_cancel_sent:
  assumes "ot_inv plain t"
  shows "ot_inv plain (ot_on_cancel_sent tok t)"
proof (cases "map_of (ot_orders t) tok")
  case (Some x)
  have "rec_ok x" using assms Some by (simp add: ot_inv_def)
  then have "effect False tok x t (put_rec tok (x\<lparr>or_pending_cancel := True\<rparr>) t)"
    by (rule effect_plain [where y = "x\<lparr>or_pending_cancel := True\<rparr>"]) (simp_all add: put_rec_def)
  from inv_effect [OF assms Some this] show ?thesis using assms Some by (simp add: ot_on_cancel_sent_def)
qed (use assms in \<open>simp add: ot_on_cancel_sent_def\<close>)

lemma inv_ignore: "ot_inv plain (desync t) = ot_inv plain t" "ot_inv plain (t\<lparr>ot_responses := n\<rparr>) = ot_inv plain t"
  by (simp_all add: ot_inv_def desync_def)

lemma inv_replaced:
  assumes "ot_inv False t" "report_fits r t" "r_type r = ''REPLACED''"
  shows "ot_inv False (fst (take_replaced r t))"
proof (cases "map_of (ot_orders t) (r_prev_token r)")
  case None
  then show ?thesis using assms(1) by (simp add: take_replaced_def inv_ignore)
next
  case (Some x)
  have n: "map_of (AList.delete (r_prev_token r) (ot_orders t)) (r_token r) = None"
    using assms(2,3) by (auto simp: report_fits_def delete_conv')
  have x: "rec_ok x" "0 \<le> r_shares r" "or_filled x + r_shares r < 2 ^ 31" "hm_wf (ot_orders t)"
    using assms Some by (auto simp: ot_inv_def report_fits_def ot_filled_of_def)
  show ?thesis
    using assms(1) Some x n
    by (auto simp: ot_inv_def take_replaced_def Let_def put_rec_def hm_wf_update hm_wf_delete hm_sum_update hm_sum_delete update_conv' delete_conv' rec_ok_def
        split: if_splits)
qed

lemma inv_response:
  assumes "ot_inv plain t" "report_fits r t" "plain \<longrightarrow> r_type r \<noteq> ''RESTATED'' \<and> r_type r \<noteq> ''REPLACED''"
  shows "ot_inv plain (fst (on_response r t))"
proof -
  define u where "u = t\<lparr>ot_responses := plus1 (ot_responses t)\<rparr>"
  have i: "ot_inv plain u" "report_fits r u" "ot_orders u = ot_orders t" using assms(1,2) by (simp_all add: u_def inv_ignore report_fits_def ot_filled_of_def)
  show ?thesis
  proof (cases "r_type r = ''REPLACED''")
    case True
    then show ?thesis using inv_replaced [of u r] i assms(3) by (cases plain) (simp_all add: on_response_def Let_def u_def [symmetric])
  next
    case False
    show ?thesis
    proof (cases "map_of (ot_orders u) (r_token r)")
      case None
      then show ?thesis using False i(1) by (simp add: on_response_def Let_def u_def [symmetric] inv_ignore)
    next
      case (Some x)
      have x: "rec_ok x" using i(1) Some by (simp add: ot_inv_def)
      have "effect (r_type r = ''RESTATED'') (r_token r) x u (take_response r x u)"
        by (rule effect_response [OF x Some]) (use i(2) Some in \<open>simp_all add: report_fits_def ot_filled_of_def\<close>)
      from inv_effect [OF i(1) Some this] show ?thesis using False Some assms(3) by (simp add: on_response_def Let_def u_def [symmetric])
    qed
  qed
qed

lemma run_ot_inv: "ot_run plain t \<Longrightarrow> ot_inv plain t"
proof (induction rule: ot_run.induct)
  case (ot_start plain)
  then show ?case by (simp add: ot_inv_def ot0_def)
next
  case (ot_reset plain t)
  then show ?case by (simp add: ot_inv_def ot0_def ot_reset_session_def)
qed (simp_all add: inv_new inv_cancel_sent inv_response)

lemma sum32_eq: "sum32 f xs = s32 (sum_list (map f xs))"
proof -
  have "fold (\<lambda>x s. s32 (s + f x)) xs (s32 a) = s32 (a + sum_list (map f xs))" for a
    by (induction xs arbitrary: a) (simp_all add: wrap_simps algebra_simps)
  from this [of 0] show ?thesis by (simp add: sum32_def s32_def)
qed

lemma sum_recs: "sum_list (map f (recs t)) = hm_sum f (ot_orders t)"
  by (simp add: recs_def hm_sum_def comp_def case_prod_beta')

lemma s32_of_s64: "s64 a = s64 b \<Longrightarrow> s32 a = s32 b"
proof -
  assume "s64 a = s64 b"
  then have "a mod 2 ^ 64 = b mod 2 ^ 64" by (simp only: s64_cong)
  then have "(a mod 2 ^ 64) mod 2 ^ 32 = (b mod 2 ^ 64) mod (2 ^ 32 :: int)" by simp
  then show ?thesis by (simp add: s32_cong mod_mod_cancel)
qed

text \<open>
  C35. The tracker's books balance after any run of orders, cancel requests and reports: the shares filled
  over all orders are the shares executed less the shares broken, no order has a negative quantity,
  and as long as the exchange sets no size of its own (\<open>RESTATED\<close>, \<open>REPLACED\<close>) the shares ordered are
  those filled, still open and cancelled.  Totals are 32-bit as in the code.  An order is entered under a token not in use,
  and the sizes of orders and reports are not negative.
\<close>

theorem ouch_shares_conserved:
  assumes "ot_run plain t"
  shows "total_filled_shares t = s32 (ot_exec_shares t - ot_broken_shares t)
    \<and> (plain \<longrightarrow> s32 (total_filled_shares t + total_remaining_shares t + ot_cancelled_shares t) = s32 (ot_ordered_shares t))
    \<and> 0 \<le> ot_filled_of tok t \<and> 0 \<le> ot_remaining tok t"
proof -
  have i: "ot_inv plain t" by (rule run_ot_inv [OF assms])
  have "0 \<le> ot_filled_of tok t \<and> 0 \<le> ot_remaining tok t"
    using i by (auto simp: ot_inv_def ot_filled_of_def ot_remaining_def rec_ok_def split: option.splits)
  moreover have "total_filled_shares t = s32 (ot_exec_shares t - ot_broken_shares t)"
    using i unfolding total_filled_shares_def sum32_eq sum_recs by (intro s32_of_s64) (simp add: ot_inv_def)
  moreover have "s32 (total_filled_shares t + total_remaining_shares t + ot_cancelled_shares t) = s32 (ot_ordered_shares t)" if plain
  proof -
    have "s32 (s32 a + s32 b + c) = s32 (a + b + c)" for a b c by (metis s32_wrap(3,4) add.assoc)
    then show ?thesis
      using i that s32_of_s64 [of "hm_sum or_filled (ot_orders t) + hm_sum or_remaining (ot_orders t) + ot_cancelled_shares t" "ot_ordered_shares t"]
      by (simp add: total_filled_shares_def total_remaining_shares_def sum32_eq sum_recs ot_inv_def)
  qed
  ultimately show ?thesis by blast
qed

theorem ouch_shares_conserved_witness:
  "total_filled_shares (fst (on_response (msg_resp (Executed [65] 30 (Fin 10) 1)) (ot_on_new [65] 100 ot0))) = 30"
proof -
  let ?t = "ot_on_new [65] 100 ot0" let ?r = "msg_resp (Executed [65] 30 (Fin 10) 1)"
  have "ot_run True (fst (on_response ?r ?t))"
    by (intro ot_resp ot_new ot_start) (simp_all add: ot0_def report_fits_def resp0_def)
  from ouch_shares_conserved [OF this, of "[65]"] show ?thesis
    by (simp add: on_response_def Let_def ot_on_new_def ot0_def take_response_def take_executed_def or_done_def resp0_def put_rec_def count_exec_def s64_def s32_def)
qed

section \<open>The tracker behind the wire\<close>

text \<open>The callback of \<open>parse_stream\<close> hands every response to the tracker.\<close>

definition drive :: "OUCHResponse list \<Rightarrow> ouch_tracker \<Rightarrow> ouch_tracker" where
  "drive rs t = fold (\<lambda>r t. fst (on_response r t)) rs t"

lemma drive_simps [simp]: "drive [] t = t" "drive (r # rs) t = drive rs (fst (on_response r t))" "drive (rs @ rs') t = drive rs' (drive rs t)"
  by (simp_all add: drive_def)

definition about :: "byte list \<Rightarrow> OUCHResponse \<Rightarrow> bool" where
  "about tok r \<longleftrightarrow> r_token r = tok \<or> (r_type r = ''REPLACED'' \<and> r_prev_token r = tok)"

lemma map_of_put: "map_of (ot_orders (put_rec k r t)) tok = (if tok = k then Some r else map_of (ot_orders t) tok)"
  by (simp add: put_rec_def update_conv')

lemma take_response_keeps:
  assumes "tok \<noteq> r_token r"
  shows "map_of (ot_orders (take_response r x t)) tok = map_of (ot_orders t) tok"
proof -
  have o: "ot_orders (put_rec k y u) = AList.update k y (ot_orders u)" "ot_orders (count_exec c e v u) = ot_orders u" for k y u c e v
    by (simp_all add: put_rec_def count_exec_def Let_def)
  have "map_of (ot_orders (take_executed r x t)) tok = map_of (ot_orders t) tok"
    using assms by (simp add: take_executed_def Let_def o update_conv')
  moreover have "map_of (ot_orders (take_broken r x t)) tok = map_of (ot_orders t) tok"
    using assms by (simp add: take_broken_def Let_def o update_conv')
  moreover have "map_of (ot_orders (take_aiq r x t)) tok = map_of (ot_orders t) tok"
    using assms by (simp add: take_aiq_def Let_def o update_conv')
  ultimately show ?thesis
    using assms by (simp add: take_response_def take_accepted_def take_cancelled_def take_rejected_def o update_conv')
qed

lemma on_response_keeps:
  assumes "\<not> about tok r"
  shows "map_of (ot_orders (fst (on_response r t))) tok = map_of (ot_orders t) tok"
  using assms take_response_keeps [of tok r]
  by (auto simp: on_response_def take_replaced_def about_def desync_def map_of_put delete_conv' Let_def split: option.splits)

lemma on_response_known:
  assumes "map_of (ot_orders t) (r_token r) = Some x" "r_type r \<noteq> ''REPLACED''"
  shows "fst (on_response r t) = take_response r x (t\<lparr>ot_responses := plus1 (ot_responses t)\<rparr>)"
  using assms by (simp add: on_response_def Let_def)

lemma drive_keeps: "filter (about tok) rs = [] \<Longrightarrow> map_of (ot_orders (drive rs t)) tok = map_of (ot_orders t) tok"
  by (induction rs arbitrary: t) (auto simp: on_response_keeps split: if_splits)

text \<open>A fill of a working order.\<close>

lemma executed_step:
  assumes "map_of (ot_orders t) (r_token r) = Some x" "r_type r = ''EXECUTED''" "or_working x" "rec_ok x" "0 < r_shares r" "r_shares r \<le> or_remaining x"
  shows "\<exists>y. map_of (ot_orders (fst (on_response r t))) (r_token r) = Some y \<and> or_filled y = or_filled x + r_shares r
    \<and> or_remaining y = or_remaining x - r_shares r \<and> or_order_ref y = or_order_ref x \<and> rec_ok y
    \<and> or_state y = (if or_remaining x = r_shares r then OS_FILLED else OS_PARTIAL)"
proof -
  have n: "\<not> or_done x" using assms(3) by (auto simp: or_working_def or_done_def)
  have e: "(if r_shares r < or_remaining x then r_shares r else or_remaining x) = r_shares r" using assms(6) by simp
  have s: "s32 (or_filled x + r_shares r) = or_filled x + r_shares r" "s32 (or_remaining x - r_shares r) = or_remaining x - r_shares r"
    using assms(4-6) by (simp_all add: rec_ok_def s32_id)
  show ?thesis
    using assms(2-6) n s s32_id [of 0]
    by (simp add: on_response_known [OF assms(1)] take_response_def take_executed_def e Let_def map_of_put put_rec_def count_exec_def update_conv' rec_ok_def)
qed

lemma fills_step:
  assumes "map_of (ot_orders t) tok = Some x" "or_working x" "rec_ok x" "or_remaining x = sum_list (map r_shares fs)"
    and "filter (about tok) rs = fs" "fs \<noteq> []" "\<forall>r \<in> set fs. r_token r = tok \<and> r_type r = ''EXECUTED'' \<and> 0 < r_shares r"
  shows "\<exists>y. map_of (ot_orders (drive rs t)) tok = Some y \<and> or_state y = OS_FILLED \<and> or_filled y = or_filled x + or_remaining x
    \<and> or_remaining y = 0 \<and> or_order_ref y = or_order_ref x"
  using assms
proof (induction rs arbitrary: t x fs)
  case (Cons r rs)
  show ?case
  proof (cases "about tok r")
    case True
    obtain gs where fs: "fs = r # gs" "gs = filter (about tok) rs" using Cons.prems(5) True by simp
    have r: "r_token r = tok" "r_type r = ''EXECUTED''" "0 < r_shares r" using Cons.prems(7) fs by simp_all
    have g: "0 \<le> sum_list (map r_shares gs)" "gs \<noteq> [] \<Longrightarrow> 0 < sum_list (map r_shares gs)"
    proof -
      have p: "\<forall>r \<in> set gs. 0 < r_shares r" using Cons.prems(7) fs by simp
      then show "0 \<le> sum_list (map r_shares gs)" by (intro sum_list_nonneg) auto
      from p show "gs \<noteq> [] \<Longrightarrow> 0 < sum_list (map r_shares gs)" by (cases gs) (auto intro!: add_pos_nonneg sum_list_nonneg simp: less_imp_le)
    qed
    obtain y where y: "map_of (ot_orders (fst (on_response r t))) tok = Some y" "or_filled y = or_filled x + r_shares r"
      "or_remaining y = sum_list (map r_shares gs)" "or_order_ref y = or_order_ref x" "rec_ok y"
      "or_state y = (if gs = [] then OS_FILLED else OS_PARTIAL)"
      using executed_step [of t r x] Cons.prems(1-4) r fs(1) g by (cases "gs = []") auto
    show ?thesis
    proof (cases "gs = []")
      case True
      have "map_of (ot_orders (drive rs u)) tok = map_of (ot_orders u) tok" for u
        using True fs(2) by (intro drive_keeps) simp
      then show ?thesis using y True Cons.prems(4) fs(1) by simp
    next
      case False
      then have w: "or_working y" using y(6) by (simp add: or_working_def)
      have g: "\<forall>r \<in> set gs. r_token r = tok \<and> r_type r = ''EXECUTED'' \<and> 0 < r_shares r" using Cons.prems(7) fs(1) by simp
      have s: "or_filled y + or_remaining y = or_filled x + or_remaining x" using y(2,3) Cons.prems(4) fs(1) by simp
      from Cons.IH [OF y(1) w y(5,3) fs(2) [symmetric] False g] show ?thesis unfolding s y(4) drive_simps(2) .
    qed
  next
    case False
    then show ?thesis using Cons.IH [OF _ Cons.prems(2-4) _ Cons.prems(6,7), of "fst (on_response r t)"] Cons.prems(1,5) by (simp add: on_response_keeps)
  qed
qed simp

text \<open>
  C34. An order that the exchange accepts and fills is followed to its end from the bytes of the
  connection: however the messages about other orders are interleaved with those about this one, and
  wherever the stream is cut in two, the tracker ends with the order filled in full under the
  reference the exchange gave it.
\<close>

theorem ouch_order_followed:
  assumes "\<forall>m \<in> set ms. msg_ok m" "n < 2 ^ 31"
    and "filter (\<lambda>m. about tok (msg_resp m)) ms = Accepted tok sd n st px oref tif # map (\<lambda>(q, p, mn). Executed tok q p mn) fills"
    and "fills \<noteq> []" "\<forall>(q, p, mn) \<in> set fills. 0 < q" "sum_list (map fst fills) = n"
    and "concat (map encode_msg ms) = as @ bs"
  shows "let (rs1, k) = parse_stream as; (rs2, _) = parse_stream (drop k as @ bs); t = drive rs2 (drive rs1 (ot_on_new tok n t0))
    in \<exists>y. map_of (ot_orders t) tok = Some y \<and> or_state y = OS_FILLED \<and> or_filled y = n \<and> or_remaining y = 0 \<and> or_order_ref y = oref"
proof -
  let ?rs = "map msg_resp ms"
  obtain rs1 k where p1: "parse_stream as = (rs1, k)" by fastforce
  obtain rs2 k2 where p2: "parse_stream (drop k as @ bs) = (rs2, k2)" by fastforce
  have "rs1 @ rs2 = ?rs" using stream_messages [of ms as bs] p1 p2 assms(1,7) parse_encode by (simp add: map_idI)
  then have d: "drive rs2 (drive rs1 u) = drive ?rs u" for u by (metis drive_simps(3))
  define ra where "ra = msg_resp (Accepted tok sd n st px oref tif)"
  define rf where "rf = map (\<lambda>(q, p, mn). msg_resp (Executed tok q p mn)) fills"
  have "filter (about tok) ?rs = ra # rf"
    using assms(3) by (simp add: filter_map comp_def case_prod_unfold ra_def rf_def)
  then obtain us vs where s: "?rs = us @ ra # vs" "filter (about tok) us = []" "filter (about tok) vs = rf"
    by (auto simp: filter_eq_Cons_iff filter_empty_conv)
  define t1 where "t1 = drive us (ot_on_new tok n t0)"
  define x1 where "x1 = \<lparr>or_state = OS_NEW, or_original = n, or_remaining = n, or_filled = 0, or_order_ref = 0,
     or_pending_cancel = False, or_fill_notional = Fin 0, or_side = CHR '' '', or_price = Fin 0\<rparr>"
  have t1: "map_of (ot_orders t1) tok = Some x1"
    using drive_keeps [OF s(2)] by (simp add: t1_def ot_on_new_def update_conv' x1_def)
  obtain x2 where x2: "map_of (ot_orders (fst (on_response ra t1))) tok = Some x2" "or_state x2 = OS_LIVE" "or_remaining x2 = n"
    "or_filled x2 = 0" "or_order_ref x2 = oref"
    using t1 on_response_known [of t1 ra x1] by (simp add: ra_def take_response_def take_accepted_def map_of_put x1_def)
  have rf: "\<forall>r \<in> set rf. r_token r = tok \<and> r_type r = ''EXECUTED'' \<and> 0 < r_shares r" "rf \<noteq> []"
    using assms(4,5) by (auto simp: rf_def)
  have sm: "sum_list (map r_shares rf) = n"
    using assms(6) by (simp add: rf_def comp_def case_prod_unfold)
  have "0 \<le> sum_list (map r_shares rf)" using rf(1) by (intro sum_list_nonneg) (auto simp: less_imp_le)
  then have "0 \<le> n" using sm by simp
  then have "rec_ok x2" using x2 assms(2) by (simp add: rec_ok_def)
  from fills_step [OF x2(1) _ this _ s(3) rf(2,1)] x2 sm obtain y where
    "map_of (ot_orders (drive vs (fst (on_response ra t1)))) tok = Some y" "or_state y = OS_FILLED" "or_filled y = n" "or_remaining y = 0" "or_order_ref y = oref"
    by (auto simp: or_working_def)
  then show ?thesis using d [of "ot_on_new tok n t0"] s(1) by (simp add: p1 p2 t1_def)
qed

theorem ouch_order_followed_witness:
  "let ms = [Cancelled [66] 5 85, Accepted [65] 66 10 [65] (Fin 1) 7 48, Executed [65] 4 (Fin 1) 1, Executed [65] 6 (Fin 1) 2];
       bs = concat (map encode_msg ms); (rs1, k) = parse_stream (take 40 bs); (rs2, _) = parse_stream (drop k (take 40 bs) @ drop 40 bs);
       t = drive rs2 (drive rs1 (ot_on_new [65] 10 ot0))
   in \<exists>y. map_of (ot_orders t) [65] = Some y \<and> or_state y = OS_FILLED \<and> or_filled y = 10 \<and> or_remaining y = 0 \<and> or_order_ref y = 7"
proof -
  let ?ms = "[Cancelled [66] 5 85, Accepted [65] 66 10 [65] (Fin 1) 7 48, Executed [65] 4 (Fin 1) 1, Executed [65] 6 (Fin 1) 2]"
  have 1: "\<forall>m \<in> set ?ms. msg_ok m" by (simp add: field_ok_def int32_ok_def int64_ok_def SPACE_def)
  have 2: "filter (\<lambda>m. about [65] (msg_resp m)) ?ms = Accepted [65] 66 10 [65] (Fin 1) 7 48
      # map (\<lambda>(q, p, mn). Executed [65] q p mn) [(4, Fin 1, 1), (6, Fin 1, 2)]"
    by (simp add: about_def resp0_def)
  have 3: "\<forall>(q, p, mn) \<in> set [(4, Fin 1, 1), (6, Fin 1, 2) :: int \<times> dbl \<times> int]. 0 < q" by simp
  have 4: "sum_list (map fst [(4, Fin 1, 1), (6, Fin 1, 2) :: int \<times> dbl \<times> int]) = 10" by simp
  from ouch_order_followed [OF 1 _ 2 _ 3 4 append_take_drop_id [of 40, symmetric], of ot0] show ?thesis
    by (simp only: Let_def) simp
qed

end
