(* ===== verification/Ordered_Map.thy ===== *)
theory Ordered_Map
  imports Prelude
begin

text \<open>
  \<open>std::map\<close>: an association list in ascending order of its keys.  \<^const>\<open>map_of\<close> is \<open>find\<close>,
  \<^const>\<open>AList.delete\<close> is \<open>erase\<close>, iteration from \<open>begin\<close> walks the list and from \<open>rbegin\<close> its reverse.
\<close>

type_synonym ('k, 'v) omap = "('k \<times> 'v) list"

definition om_wf :: "('k :: linorder, 'v) omap \<Rightarrow> bool" where
  "om_wf m \<longleftrightarrow> sorted_wrt (<) (map fst m)"

text \<open>\<open>m[k] = v\<close>.\<close>

fun om_put :: "'k :: linorder \<Rightarrow> 'v \<Rightarrow> ('k, 'v) omap \<Rightarrow> ('k, 'v) omap" where
  "om_put k v [] = [(k, v)]"
| "om_put k v ((k', v') # m) = (if k < k' then (k, v) # (k', v') # m else if k = k' then (k, v) # m else (k', v') # om_put k v m)"

text \<open>The value under a key, zero when absent, as \<open>m[k] += ...\<close> reads it.\<close>

definition om_get :: "('k, int) omap \<Rightarrow> 'k \<Rightarrow> int" where
  "om_get m k = (case map_of m k of None \<Rightarrow> 0 | Some v \<Rightarrow> v)"

lemma om_wf_Nil [simp]: "om_wf []"
  by (simp add: om_wf_def)

lemma om_wf_Cons: "om_wf ((k, v) # m) \<longleftrightarrow> (\<forall>j \<in> fst ` set m. k < j) \<and> om_wf m"
  by (auto simp: om_wf_def)

lemma keys_om_put: "fst ` set (om_put k v m) = insert k (fst ` set m)"
  by (induction k v m rule: om_put.induct) auto

lemma om_wf_put: "om_wf m \<Longrightarrow> om_wf (om_put k v m)"
  by (induction k v m rule: om_put.induct) (auto simp: om_wf_Cons keys_om_put)

lemma map_of_om_put: "om_wf m \<Longrightarrow> map_of (om_put k v m) j = (if j = k then Some v else map_of m j)"
proof (induction k v m rule: om_put.induct)
  case (2 k v k' v' m)
  then show ?case by (auto simp: om_wf_Cons)
qed simp

lemma om_wf_delete: "om_wf m \<Longrightarrow> om_wf (AList.delete k m)"
  by (simp add: om_wf_def AList.delete_eq sorted_wrt_map sorted_wrt_filter)

lemma om_wf_distinct: "om_wf m \<Longrightarrow> hm_wf m"
  by (simp add: om_wf_def strict_sorted_iff)

lemma om_wf_hm: "om_wf m \<longleftrightarrow> sorted (map fst m) \<and> hm_wf m"
  by (auto simp: om_wf_def strict_sorted_iff)

text \<open>An ordered map is determined by its look-ups.\<close>

lemma om_eqI:
  fixes m m' :: "('k :: linorder, 'v) omap"
  assumes "om_wf m" "om_wf m'" "map_of m = map_of m'"
  shows "m = m'"
proof -
  have "set (map fst m) = set (map fst m')" using assms(3) by (metis dom_map_of_conv_image_fst set_map)
  then have k: "map fst m = map fst m'" using assms(1,2) by (intro strict_sorted_equal) (simp_all add: om_wf_def)
  have list: "map (\<lambda>j. (j, the (map_of xs j))) (map fst xs) = xs" if "om_wf xs" for xs :: "('k :: linorder, 'v) omap"
    using om_wf_distinct [OF that] by (auto intro!: map_idI)
  show ?thesis using list [OF assms(1)] list [OF assms(2)] k assms(3) by simp
qed

lemma om_get_put: "om_wf m \<Longrightarrow> om_get (om_put k v m) j = (if j = k then v else om_get m j)"
  by (simp add: om_get_def map_of_om_put)

lemma om_get_delete: "om_get (AList.delete k m) j = (if j = k then 0 else om_get m j)"
  by (simp add: om_get_def delete_conv')

text \<open>The first and the last key.\<close>

lemma om_hd_least: "om_wf m \<Longrightarrow> m \<noteq> [] \<Longrightarrow> fst (hd m) = Min (fst ` set m)"
  by (cases m) (force simp: om_wf_Cons intro!: Min_eqI [symmetric])+

lemma om_last_greatest:
  assumes "om_wf m" "m \<noteq> []"
  shows "fst (last m) = Max (fst ` set m)"
proof (rule Max_eqI [symmetric])
  obtain xs x where m: "m = xs @ [x]" using assms(2) by (cases m rule: rev_cases) auto
  fix k assume "k \<in> fst ` set m"
  then show "k \<le> fst (last m)" using assms(1) by (auto simp: m om_wf_def sorted_wrt_append less_imp_le)
qed (use assms(2) in auto)

end
