(* ===== verification/Itch_Book.thy ===== *)
theory Itch_Book
  imports Itch Ordered_Map
begin

text \<open>
  \<open>itch-parser/itch_book.hpp\<close>: the limit-order book rebuilt from the market-data messages, resting
  orders by reference and share totals by price level, with the tape of executions and the read-outs
  of \<open>ITCHOrderBook\<close>.
\<close>

section \<open>State\<close>

record resting =
  rs_side :: byte
  rs_ticks :: int
  rs_shares :: int

text \<open>What is kept of the executions.\<close>

record itape =
  tp_shares :: int
  tp_notional :: int
  tp_bid :: int
  tp_ask :: int
  tp_max_delta :: int
  tp_min_delta :: int
  tp_notional_bid :: int
  tp_notional_ask :: int
  tp_buy_prints :: int
  tp_sell_prints :: int
  tp_prints :: int
  tp_largest :: int
  tp_last_ticks :: int
  tp_last_buy :: bool
  tp_tick_dir :: int
  tp_run :: int
  tp_max_buy_run :: int
  tp_max_sell_run :: int

record ibook =
  ib_orders :: "(int, resting) hmap"
  ib_bids :: "(int, int) omap"
  ib_asks :: "(int, int) omap"
  ib_adds :: int
  ib_executes :: int
  ib_cancels :: int
  ib_deletes :: int
  ib_replaces :: int
  ib_orphans :: int
  ib_tape :: itape
  ib_pulled_bid :: int
  ib_pulled_ask :: int
  ib_reprice_sum :: int
  ib_repriced :: int
  ib_max_reprice :: int

definition itape0 :: itape where
  "itape0 = \<lparr>tp_shares = 0, tp_notional = 0, tp_bid = 0, tp_ask = 0, tp_max_delta = 0, tp_min_delta = 0, tp_notional_bid = 0,
     tp_notional_ask = 0, tp_buy_prints = 0, tp_sell_prints = 0, tp_prints = 0, tp_largest = 0, tp_last_ticks = 0, tp_last_buy = False,
     tp_tick_dir = 0, tp_run = 0, tp_max_buy_run = 0, tp_max_sell_run = 0\<rparr>"

definition ib0 :: ibook where
  "ib0 = \<lparr>ib_orders = [], ib_bids = [], ib_asks = [], ib_adds = 0, ib_executes = 0, ib_cancels = 0, ib_deletes = 0, ib_replaces = 0,
     ib_orphans = 0, ib_tape = itape0, ib_pulled_bid = 0, ib_pulled_ask = 0, ib_reprice_sum = 0, ib_repriced = 0, ib_max_reprice = 0\<rparr>"

section \<open>Events\<close>

definition ib_to_ticks :: "dbl \<Rightarrow> int" where
  "ib_to_ticks price = d_to_s64 (dadd (dmul price (Fin 100)) (if dle (Fin 0) price then Fin (1 / 2) else Fin (- 1 / 2)))"

abbreviation is_bid :: "byte \<Rightarrow> bool" where
  "is_bid sd \<equiv> sd = chr (CHR ''B'')"

definition side_book :: "byte \<Rightarrow> ibook \<Rightarrow> (int, int) omap" where
  "side_book sd b = (if is_bid sd then ib_bids b else ib_asks b)"

definition set_side_book :: "byte \<Rightarrow> (int, int) omap \<Rightarrow> ibook \<Rightarrow> ibook" where
  "set_side_book sd m b = (if is_bid sd then b\<lparr>ib_bids := m\<rparr> else b\<lparr>ib_asks := m\<rparr>)"

definition level_take :: "int \<Rightarrow> int \<Rightarrow> (int, int) omap \<Rightarrow> (int, int) omap" where
  "level_take px dec m = (case map_of m px of None \<Rightarrow> m
     | Some q \<Rightarrow> if s64 (q - dec) \<le> 0 then AList.delete px m else om_put px (s64 (q - dec)) m)"

definition taken_of :: "int \<Rightarrow> resting \<Rightarrow> int" where
  "taken_of qty r = (if qty < rs_shares r then qty else rs_shares r)"

definition ib_reduce :: "int \<Rightarrow> int \<Rightarrow> ibook \<Rightarrow> ibook" where
  "ib_reduce ref qty b = (case map_of (ib_orders b) ref of None \<Rightarrow> b\<lparr>ib_orphans := u64 (ib_orphans b + 1)\<rparr>
     | Some r \<Rightarrow>
       let dec = taken_of qty r; r1 = r\<lparr>rs_shares := rs_shares r - dec\<rparr>;
           b1 = set_side_book (rs_side r) (level_take (rs_ticks r) dec (side_book (rs_side r) b)) b
       in b1\<lparr>ib_orders := (if rs_shares r1 = 0 then AList.delete ref (ib_orders b1) else AList.update ref r1 (ib_orders b1))\<rparr>)"

definition on_add :: "int \<Rightarrow> byte \<Rightarrow> dbl \<Rightarrow> int \<Rightarrow> ibook \<Rightarrow> ibook" where
  "on_add ref sd price shares b =
     (if shares = 0 then b
      else let px = ib_to_ticks price; b1 = b\<lparr>ib_orders := AList.update ref \<lparr>rs_side = sd, rs_ticks = px, rs_shares = shares\<rparr> (ib_orders b)\<rparr>;
               b2 = set_side_book sd (om_put px (s64 (om_get (side_book sd b1) px + shares)) (side_book sd b1)) b1
           in b2\<lparr>ib_adds := u64 (ib_adds b2 + 1)\<rparr>)"

text \<open>A print on the tape: volumes and notional by the side hit, and the running delta with its extremes.\<close>

definition tape_volume :: "resting \<Rightarrow> int \<Rightarrow> itape \<Rightarrow> itape" where
  "tape_volume r dec t =
     (let notional = s64 (dec * rs_ticks r);
          t1 = t\<lparr>tp_shares := s64 (tp_shares t + dec), tp_notional := s64 (tp_notional t + notional)\<rparr>;
          t2 = (if is_bid (rs_side r)
                then t1\<lparr>tp_bid := s64 (tp_bid t + dec), tp_notional_bid := s64 (tp_notional_bid t + notional), tp_sell_prints := u64 (tp_sell_prints t + 1)\<rparr>
                else t1\<lparr>tp_ask := s64 (tp_ask t + dec), tp_notional_ask := s64 (tp_notional_ask t + notional), tp_buy_prints := u64 (tp_buy_prints t + 1)\<rparr>);
          cd = s64 (tp_ask t2 - tp_bid t2)
      in t2\<lparr>tp_max_delta := max cd (tp_max_delta t), tp_min_delta := min cd (tp_min_delta t), tp_prints := u64 (tp_prints t + 1),
            tp_largest := max dec (tp_largest t)\<rparr>)"

text \<open>The tick test and the run of prints by the same aggressor.\<close>

definition tape_direction :: "resting \<Rightarrow> itape \<Rightarrow> itape" where
  "tape_direction r t =
     (let px = rs_ticks r; buy = (rs_side r = chr (CHR ''S''));
          dir = (if tp_last_ticks t \<noteq> 0 then if px > tp_last_ticks t then 1 else if px < tp_last_ticks t then - 1 else tp_tick_dir t
                 else tp_tick_dir t);
          run = (if tp_run t > 0 \<and> buy then s32 (tp_run t + 1) else if tp_run t < 0 \<and> \<not> buy then s32 (tp_run t - 1)
                 else if buy then 1 else - 1)
      in t\<lparr>tp_tick_dir := dir, tp_last_ticks := px, tp_last_buy := buy, tp_run := run,
           tp_max_buy_run := (if run > tp_max_buy_run t then run else tp_max_buy_run t),
           tp_max_sell_run := (if \<not> run > tp_max_buy_run t \<and> - run > tp_max_sell_run t then - run else tp_max_sell_run t)\<rparr>)"

definition on_execute :: "int \<Rightarrow> int \<Rightarrow> ibook \<Rightarrow> ibook" where
  "on_execute ref exec_shares b =
     (let b1 = (case map_of (ib_orders b) ref of None \<Rightarrow> b
                | Some r \<Rightarrow> b\<lparr>ib_tape := tape_direction r (tape_volume r (taken_of exec_shares r) (ib_tape b))\<rparr>);
          b2 = ib_reduce ref exec_shares b1
      in b2\<lparr>ib_executes := u64 (ib_executes b2 + 1)\<rparr>)"

definition note_pulled :: "resting \<Rightarrow> int \<Rightarrow> ibook \<Rightarrow> ibook" where
  "note_pulled r dec b = (if is_bid (rs_side r) then b\<lparr>ib_pulled_bid := s64 (ib_pulled_bid b + dec)\<rparr>
     else b\<lparr>ib_pulled_ask := s64 (ib_pulled_ask b + dec)\<rparr>)"

definition on_cancel :: "int \<Rightarrow> int \<Rightarrow> ibook \<Rightarrow> ibook" where
  "on_cancel ref cancelled_shares b =
     (let b1 = (case map_of (ib_orders b) ref of None \<Rightarrow> b | Some r \<Rightarrow> note_pulled r (taken_of cancelled_shares r) b);
          b2 = ib_reduce ref cancelled_shares b1
      in b2\<lparr>ib_cancels := u64 (ib_cancels b2 + 1)\<rparr>)"

definition on_delete :: "int \<Rightarrow> ibook \<Rightarrow> ibook" where
  "on_delete ref b = (case map_of (ib_orders b) ref of
       None \<Rightarrow> b\<lparr>ib_orphans := u64 (ib_orphans b + 1), ib_deletes := u64 (ib_deletes b + 1)\<rparr>
     | Some r \<Rightarrow> let b2 = ib_reduce ref (rs_shares r) (note_pulled r (rs_shares r) b) in b2\<lparr>ib_deletes := u64 (ib_deletes b2 + 1)\<rparr>)"

definition on_replace :: "int \<Rightarrow> int \<Rightarrow> dbl \<Rightarrow> int \<Rightarrow> ibook \<Rightarrow> ibook" where
  "on_replace orig_ref new_ref new_price new_shares b = (case map_of (ib_orders b) orig_ref of
       None \<Rightarrow> b\<lparr>ib_orphans := u64 (ib_orphans b + 1), ib_replaces := u64 (ib_replaces b + 1)\<rparr>
     | Some r \<Rightarrow>
       let new_px = ib_to_ticks new_price;
           move = s64 (if new_px > rs_ticks r then new_px - rs_ticks r else rs_ticks r - new_px);
           b1 = b\<lparr>ib_reprice_sum := s64 (ib_reprice_sum b + move), ib_max_reprice := max move (ib_max_reprice b), ib_repriced := u64 (ib_repriced b + 1)\<rparr>;
           b2 = on_add new_ref (rs_side r) new_price new_shares (ib_reduce orig_ref (rs_shares r) b1)
       in b2\<lparr>ib_adds := u64 (ib_adds b2 - 1), ib_replaces := u64 (ib_replaces b2 + 1)\<rparr>)"

fun ib_apply :: "ParsedMessage \<Rightarrow> ibook \<Rightarrow> ibook" where
  "ib_apply (ADD_ORDER tm ref sd n st px) b = on_add ref sd px n b"
| "ib_apply (ADD_ORDER_MPID tm ref sd n st px mp) b = on_add ref sd px n b"
| "ib_apply (ORDER_EXECUTED tm ref n mn) b = on_execute ref n b"
| "ib_apply (ORDER_CANCELLED tm ref n) b = on_cancel ref n b"
| "ib_apply (DELETE_ORDER tm ref) b = on_delete ref b"
| "ib_apply (REPLACE_ORDER tm ref ref2 n px) b = on_replace ref ref2 px n b"
| "ib_apply _ b = b"

definition ib_clear :: "ibook \<Rightarrow> ibook" where
  "ib_clear b = ib0"

section \<open>The top of the book\<close>

definition ticks_price :: "int \<Rightarrow> dbl" where
  "ticks_price px = ddiv (d_of_int px) (Fin 100)"

text \<open>The levels of a side from the touch outwards, and those an order of the side takes.\<close>

definition from_touch :: "byte \<Rightarrow> ibook \<Rightarrow> (int \<times> int) list" where
  "from_touch sd b = (if is_bid sd then rev (ib_bids b) else ib_asks b)"

definition to_take :: "byte \<Rightarrow> ibook \<Rightarrow> (int \<times> int) list" where
  "to_take sd b = (if is_bid sd then ib_asks b else rev (ib_bids b))"

definition ib_best_bid :: "ibook \<Rightarrow> dbl" where
  "ib_best_bid b = (if ib_bids b = [] then Fin 0 else ticks_price (fst (last (ib_bids b))))"

definition ib_best_ask :: "ibook \<Rightarrow> dbl" where
  "ib_best_ask b = (if ib_asks b = [] then Fin 0 else ticks_price (fst (hd (ib_asks b))))"

definition one_sided :: "ibook \<Rightarrow> bool" where
  "one_sided b \<longleftrightarrow> ib_bids b = [] \<or> ib_asks b = []"

definition ib_spread :: "ibook \<Rightarrow> dbl" where
  "ib_spread b = (if one_sided b then Fin 0 else dsub (ib_best_ask b) (ib_best_bid b))"

definition ib_mid_price :: "ibook \<Rightarrow> dbl" where
  "ib_mid_price b = (if one_sided b then Fin 0 else ddiv (dadd (ib_best_bid b) (ib_best_ask b)) (Fin 2))"

definition ib_spread_bps :: "ibook \<Rightarrow> dbl" where
  "ib_spread_bps b = (let m = ib_mid_price b in if dlt (Fin 0) m then dmul (ddiv (ib_spread b) m) (Fin 10000) else Fin 0)"

definition ib_spread_ticks :: "ibook \<Rightarrow> int" where
  "ib_spread_ticks b = (if one_sided b then 0 else s64 (fst (hd (ib_asks b)) - fst (last (ib_bids b))))"

definition is_marketable :: "byte \<Rightarrow> dbl \<Rightarrow> ibook \<Rightarrow> bool" where
  "is_marketable sd limit b = (if is_bid sd then dlt (Fin 0) (ib_best_ask b) \<and> dle (ib_best_ask b) limit
     else dlt (Fin 0) (ib_best_bid b) \<and> dle limit (ib_best_bid b))"

definition ib_best_bid_qty :: "ibook \<Rightarrow> int" where
  "ib_best_bid_qty b = (if ib_bids b = [] then 0 else snd (last (ib_bids b)))"

definition ib_best_ask_qty :: "ibook \<Rightarrow> int" where
  "ib_best_ask_qty b = (if ib_asks b = [] then 0 else snd (hd (ib_asks b)))"

text \<open>\<open>(b - a) / (b + a)\<close> of two share counts.\<close>

definition share_imbalance :: "int \<Rightarrow> int \<Rightarrow> dbl" where
  "share_imbalance x y = (if s64 (x + y) > 0 then ddiv (d_of_int (s64 (x - y))) (d_of_int (s64 (x + y))) else Fin 0)"

definition ib_imbalance :: "ibook \<Rightarrow> dbl" where
  "ib_imbalance b = share_imbalance (ib_best_bid_qty b) (ib_best_ask_qty b)"

definition ib_microprice :: "ibook \<Rightarrow> dbl" where
  "ib_microprice b = (if one_sided b then Fin 0
     else let qb = ib_best_bid_qty b; qa = ib_best_ask_qty b; tot = s64 (qb + qa)
       in if tot \<le> 0 then Fin 0
          else ddiv (dadd (dmul (ib_best_ask b) (d_of_int qb)) (dmul (ib_best_bid b) (d_of_int qa))) (d_of_int tot))"

definition microprice_skew :: "ibook \<Rightarrow> dbl" where
  "microprice_skew b = (let mp = ib_microprice b; m = ib_mid_price b in if dlt (Fin 0) mp \<and> dlt (Fin 0) m then dsub mp m else Fin 0)"

definition imbalance_signal :: "dbl \<Rightarrow> ibook \<Rightarrow> int" where
  "imbalance_signal threshold b = (let imb = ib_imbalance b in if dlt threshold imb then 1 else if dlt imb (dneg threshold) then - 1 else 0)"

definition ib_is_locked :: "ibook \<Rightarrow> bool" where
  "ib_is_locked b \<longleftrightarrow> ib_bids b \<noteq> [] \<and> ib_asks b \<noteq> [] \<and> fst (last (ib_bids b)) = fst (hd (ib_asks b))"

definition ib_is_crossed :: "ibook \<Rightarrow> bool" where
  "ib_is_crossed b \<longleftrightarrow> ib_bids b \<noteq> [] \<and> ib_asks b \<noteq> [] \<and> fst (last (ib_bids b)) > fst (hd (ib_asks b))"

section \<open>Sums over levels\<close>

definition sum_qty :: "(int \<times> int) list \<Rightarrow> int" where
  "sum_qty ls = fold (\<lambda>(p, q) s. s64 (s + q)) ls 0"

definition sum_value :: "(int \<times> int) list \<Rightarrow> dbl" where
  "sum_value ls = fold (\<lambda>(p, q) s. dadd s (dmul (ticks_price p) (d_of_int q))) ls (Fin 0)"

text \<open>The levels of a side no more than \<open>ticks\<close> away from the best.\<close>

definition near_touch :: "byte \<Rightarrow> int \<Rightarrow> ibook \<Rightarrow> (int \<times> int) list" where
  "near_touch sd ticks b = (case from_touch sd b of [] \<Rightarrow> []
     | (p, q) # ls \<Rightarrow> if ticks < 0 then []
         else if is_bid sd then takeWhile (\<lambda>(x, _). x \<ge> s64 (p - ticks)) (from_touch sd b)
         else takeWhile (\<lambda>(x, _). x \<le> s64 (p + ticks)) (from_touch sd b))"

definition liquidity_within :: "byte \<Rightarrow> int \<Rightarrow> ibook \<Rightarrow> int" where
  "liquidity_within sd ticks b = sum_qty (near_touch sd ticks b)"

definition notional_within :: "byte \<Rightarrow> int \<Rightarrow> ibook \<Rightarrow> dbl" where
  "notional_within sd ticks b = sum_value (near_touch sd ticks b)"

definition levels_within :: "byte \<Rightarrow> int \<Rightarrow> ibook \<Rightarrow> nat" where
  "levels_within sd ticks b = length (near_touch sd ticks b)"

definition fillable_shares :: "byte \<Rightarrow> dbl \<Rightarrow> ibook \<Rightarrow> int" where
  "fillable_shares sd limit b = (let lim = ib_to_ticks limit
     in sum_qty (takeWhile (\<lambda>(x, _). if is_bid sd then \<not> x > lim else \<not> x < lim) (to_take sd b)))"

definition total_shares :: "byte \<Rightarrow> ibook \<Rightarrow> int" where
  "total_shares sd b = sum_qty (side_book sd b)"

definition ib_total_notional :: "byte \<Rightarrow> ibook \<Rightarrow> dbl" where
  "ib_total_notional sd b = sum_value (side_book sd b)"

definition level_count :: "byte \<Rightarrow> ibook \<Rightarrow> nat" where
  "level_count sd b = length (side_book sd b)"

definition top_of :: "byte \<Rightarrow> int \<Rightarrow> ibook \<Rightarrow> (int \<times> int) list" where
  "top_of sd n b = take (nat n) (from_touch sd b)"

definition vwap_depth :: "byte \<Rightarrow> int \<Rightarrow> ibook \<Rightarrow> dbl" where
  "vwap_depth sd n b = (let ls = top_of sd n b; qty = sum_qty ls in if qty > 0 then ddiv (sum_value ls) (d_of_int qty) else Fin 0)"

definition depth_weighted_spread :: "int \<Rightarrow> ibook \<Rightarrow> dbl" where
  "depth_weighted_spread n b = (let vb = vwap_depth (chr (CHR ''B'')) n b; va = vwap_depth (chr (CHR ''S'')) n b
     in if dlt (Fin 0) vb \<and> dlt (Fin 0) va then dsub va vb else Fin 0)"

definition depth_weighted_mid :: "int \<Rightarrow> ibook \<Rightarrow> dbl" where
  "depth_weighted_mid n b = (let bv = vwap_depth (chr (CHR ''B'')) n b; av = vwap_depth (chr (CHR ''S'')) n b
     in if dlt (Fin 0) bv \<and> dlt (Fin 0) av then ddiv (dadd bv av) (Fin 2) else Fin 0)"

definition depth_imbalance :: "int \<Rightarrow> ibook \<Rightarrow> dbl" where
  "depth_imbalance n b = share_imbalance (sum_qty (top_of (chr (CHR ''B'')) n b)) (sum_qty (top_of (chr (CHR ''S'')) n b))"

text \<open>\<open>(b - a) / (b + a)\<close> of two doubles.\<close>

definition value_imbalance :: "dbl \<Rightarrow> dbl \<Rightarrow> dbl" where
  "value_imbalance x y = (if dlt (Fin 0) (dadd x y) then ddiv (dsub x y) (dadd x y) else Fin 0)"

definition notional_imbalance :: "int \<Rightarrow> ibook \<Rightarrow> dbl" where
  "notional_imbalance n b = value_imbalance (sum_value (top_of (chr (CHR ''B'')) n b)) (sum_value (top_of (chr (CHR ''S'')) n b))"

definition liquidity_imbalance_within :: "int \<Rightarrow> ibook \<Rightarrow> dbl" where
  "liquidity_imbalance_within ticks b =
     share_imbalance (liquidity_within (chr (CHR ''B'')) ticks b) (liquidity_within (chr (CHR ''S'')) ticks b)"

definition ib_qty_at :: "byte \<Rightarrow> dbl \<Rightarrow> ibook \<Rightarrow> int" where
  "ib_qty_at sd price b = om_get (side_book sd b) (ib_to_ticks price)"

definition queue_ahead :: "byte \<Rightarrow> dbl \<Rightarrow> ibook \<Rightarrow> int" where
  "queue_ahead sd price b = om_get (side_book sd b) (ib_to_ticks price)"

definition top_levels :: "byte \<Rightarrow> int \<Rightarrow> ibook \<Rightarrow> (dbl \<times> int) list" where
  "top_levels sd n b = map (\<lambda>(p, q). (ticks_price p, q)) (top_of sd n b)"

definition nth_level_price :: "byte \<Rightarrow> int \<Rightarrow> ibook \<Rightarrow> dbl" where
  "nth_level_price sd n b = (if n < 0 \<or> nat n \<ge> length (from_touch sd b) then Fin 0 else ticks_price (fst (from_touch sd b ! nat n)))"

definition nth_level_qty :: "byte \<Rightarrow> int \<Rightarrow> ibook \<Rightarrow> int" where
  "nth_level_qty sd n b = (if n < 0 \<or> nat n \<ge> length (from_touch sd b) then 0 else snd (from_touch sd b ! nat n))"

definition cumulative_qty :: "byte \<Rightarrow> int \<Rightarrow> ibook \<Rightarrow> int" where
  "cumulative_qty sd n b = sum_qty (top_of sd n b)"

definition depth_concentration :: "byte \<Rightarrow> int \<Rightarrow> ibook \<Rightarrow> dbl" where
  "depth_concentration sd n b = (let t = total_shares sd b in if t \<le> 0 then Fin 0 else ddiv (d_of_int (cumulative_qty sd n b)) (d_of_int t))"

definition depth_notional :: "byte \<Rightarrow> int \<Rightarrow> ibook \<Rightarrow> dbl" where
  "depth_notional sd n b = sum_value (top_of sd n b)"

text \<open>The differences of adjacent prices, positive from the touch outwards.\<close>

definition level_gap :: "byte \<Rightarrow> int \<Rightarrow> int \<Rightarrow> int" where
  "level_gap sd prev px = s64 (if is_bid sd then prev - px else px - prev)"

fun gap_loop :: "byte \<Rightarrow> int option \<Rightarrow> (int \<times> int) list \<Rightarrow> int \<Rightarrow> int" where
  "gap_loop sd prev [] g = g"
| "gap_loop sd prev ((p, q) # ls) g = gap_loop sd (Some p) ls (case prev of None \<Rightarrow> g | Some x \<Rightarrow> if level_gap sd x p > g then level_gap sd x p else g)"

definition largest_level_gap :: "byte \<Rightarrow> int \<Rightarrow> ibook \<Rightarrow> int" where
  "largest_level_gap sd n b = (if n \<le> 1 then 0 else gap_loop sd None (top_of sd n b) 0)"

definition book_slope :: "byte \<Rightarrow> int \<Rightarrow> ibook \<Rightarrow> dbl" where
  "book_slope sd n b = (let ls = top_of sd n b in if n \<le> 1 \<or> length ls < 2 then Fin 0
     else let span = level_gap sd (fst (hd ls)) (fst (last ls)) in if span \<le> 0 then Fin 0 else ddiv (d_of_int (sum_qty ls)) (d_of_int span))"

definition book_slope_imbalance :: "int \<Rightarrow> ibook \<Rightarrow> dbl" where
  "book_slope_imbalance n b = value_imbalance (book_slope (chr (CHR ''B'')) n b) (book_slope (chr (CHR ''S'')) n b)"

section \<open>Walking the book\<close>

text \<open>The level at which the cumulative size covers the order, and how many levels that takes.\<close>

fun fill_level :: "int \<Rightarrow> nat \<Rightarrow> (int \<times> int) list \<Rightarrow> (int \<times> nat) option" where
  "fill_level remaining k [] = None"
| "fill_level remaining k ((p, q) # ls) = (if s64 (remaining - q) \<le> 0 then Some (p, Suc k) else fill_level (s64 (remaining - q)) (Suc k) ls)"

definition price_to_fill :: "byte \<Rightarrow> int \<Rightarrow> ibook \<Rightarrow> dbl" where
  "price_to_fill sd shares b = (if shares \<le> 0 then Fin 0
     else case fill_level shares 0 (to_take sd b) of Some (p, k) \<Rightarrow> ticks_price p | None \<Rightarrow> Fin 0)"

definition levels_to_fill :: "byte \<Rightarrow> int \<Rightarrow> ibook \<Rightarrow> int" where
  "levels_to_fill sd shares b = (if shares \<le> 0 then 0 else case fill_level shares 0 (to_take sd b) of Some (p, k) \<Rightarrow> int k | None \<Rightarrow> - 1)"

definition spread_at_size :: "int \<Rightarrow> ibook \<Rightarrow> dbl" where
  "spread_at_size shares b = (let buy = price_to_fill (chr (CHR ''B'')) shares b; sell = price_to_fill (chr (CHR ''S'')) shares b
     in if dlt (Fin 0) buy \<and> dlt (Fin 0) sell then dsub buy sell else Fin 0)"

fun walk_fill :: "(int \<times> int) list \<Rightarrow> int \<Rightarrow> int \<Rightarrow> dbl \<Rightarrow> int \<times> dbl" where
  "walk_fill [] remaining filled notional = (filled, notional)"
| "walk_fill ((p, q) # ls) remaining filled notional =
     (if remaining > 0
      then let t = min remaining q
           in walk_fill ls (s64 (remaining - t)) (s64 (filled + t)) (dadd notional (dmul (d_of_int p) (d_of_int t)))
      else (filled, notional))"

definition expected_fill :: "byte \<Rightarrow> int \<Rightarrow> ibook \<Rightarrow> int \<times> dbl" where
  "expected_fill sd shares b = (if shares \<le> 0 then (0, Fin 0)
     else let (filled, notional) = walk_fill (to_take sd b) shares 0 (Fin 0)
          in (filled, if filled > 0 then ddiv (ddiv notional (d_of_int filled)) (Fin 100) else Fin 0))"

definition slippage_bps :: "byte \<Rightarrow> int \<Rightarrow> ibook \<Rightarrow> dbl" where
  "slippage_bps sd shares b =
     (let (filled, vwap) = expected_fill sd shares b; m = ib_mid_price b
      in if filled \<le> 0 \<or> dle m (Fin 0) \<or> dle vwap (Fin 0) then Fin 0
         else dmul (ddiv (if is_bid sd then dsub vwap m else dsub m vwap) m) (Fin 10000))"

definition round_trip_cost_bps :: "int \<Rightarrow> ibook \<Rightarrow> dbl" where
  "round_trip_cost_bps shares b = dadd (slippage_bps (chr (CHR ''B'')) shares b) (slippage_bps (chr (CHR ''S'')) shares b)"

definition fill_shortfall :: "byte \<Rightarrow> int \<Rightarrow> ibook \<Rightarrow> int" where
  "fill_shortfall sd shares b = (if shares \<le> 0 then 0 else s64 (shares - fst (expected_fill sd shares b)))"

section \<open>Tape and flow\<close>

text \<open>A quotient of two counters, zero when the second is not positive.\<close>

definition per :: "int \<Rightarrow> int \<Rightarrow> dbl" where
  "per x n = (if n > 0 then ddiv (d_of_int x) (d_of_int n) else Fin 0)"

definition tape_vwap :: "int \<Rightarrow> int \<Rightarrow> dbl" where
  "tape_vwap notional shares = (if shares > 0 then ddiv (ddiv (d_of_int notional) (d_of_int shares)) (Fin 100) else Fin 0)"

definition executed_vwap :: "ibook \<Rightarrow> dbl" where
  "executed_vwap b = tape_vwap (tp_notional (ib_tape b)) (tp_shares (ib_tape b))"

definition buy_vwap :: "ibook \<Rightarrow> dbl" where
  "buy_vwap b = tape_vwap (tp_notional_ask (ib_tape b)) (tp_ask (ib_tape b))"

definition sell_vwap :: "ibook \<Rightarrow> dbl" where
  "sell_vwap b = tape_vwap (tp_notional_bid (ib_tape b)) (tp_bid (ib_tape b))"

definition last_trade_price :: "ibook \<Rightarrow> dbl" where
  "last_trade_price b = ticks_price (tp_last_ticks (ib_tape b))"

definition is_uptick :: "ibook \<Rightarrow> bool" where
  "is_uptick b \<longleftrightarrow> tp_tick_dir (ib_tape b) > 0"

definition avg_trade_size :: "ibook \<Rightarrow> dbl" where
  "avg_trade_size b = per (tp_shares (ib_tape b)) (tp_prints (ib_tape b))"

definition pulled_shares :: "byte \<Rightarrow> ibook \<Rightarrow> int" where
  "pulled_shares sd b = (if is_bid sd then ib_pulled_bid b else ib_pulled_ask b)"

definition pull_to_take_ratio :: "byte \<Rightarrow> ibook \<Rightarrow> dbl" where
  "pull_to_take_ratio sd b = per (pulled_shares sd b) (if is_bid sd then tp_bid (ib_tape b) else tp_ask (ib_tape b))"

definition pull_imbalance :: "ibook \<Rightarrow> dbl" where
  "pull_imbalance b = share_imbalance (ib_pulled_bid b) (ib_pulled_ask b)"

definition mid_vs_vwap_bps :: "ibook \<Rightarrow> dbl" where
  "mid_vs_vwap_bps b = (let vwap = executed_vwap b; mid = ib_mid_price b
     in if dlt (Fin 0) vwap \<and> dlt (Fin 0) mid then dmul (ddiv (dsub mid vwap) vwap) (Fin 10000) else Fin 0)"

definition tape_effective_spread :: "ibook \<Rightarrow> dbl" where
  "tape_effective_spread b = (if tp_ask (ib_tape b) > 0 \<and> tp_bid (ib_tape b) > 0 then dsub (buy_vwap b) (sell_vwap b) else Fin 0)"

definition cumulative_delta :: "ibook \<Rightarrow> int" where
  "cumulative_delta b = s64 (tp_ask (ib_tape b) - tp_bid (ib_tape b))"

definition tape_imbalance :: "ibook \<Rightarrow> dbl" where
  "tape_imbalance b = share_imbalance (tp_ask (ib_tape b)) (tp_bid (ib_tape b))"

definition print_imbalance :: "ibook \<Rightarrow> dbl" where
  "print_imbalance b = (let x = tp_buy_prints (ib_tape b); y = tp_sell_prints (ib_tape b)
     in if u64 (x + y) > 0 then ddiv (dsub (d_of_int x) (d_of_int y)) (d_of_int (u64 (x + y))) else Fin 0)"

definition avg_reprice_ticks :: "ibook \<Rightarrow> dbl" where
  "avg_reprice_ticks b = per (ib_reprice_sum b) (ib_repriced b)"

definition ref_event_count :: "ibook \<Rightarrow> int" where
  "ref_event_count b = u64 (ib_executes b + ib_cancels b + ib_deletes b + ib_replaces b)"

definition orphan_rate :: "ibook \<Rightarrow> dbl" where
  "orphan_rate b = per (ib_orphans b) (ref_event_count b)"

definition cancel_to_add_ratio :: "ibook \<Rightarrow> dbl" where
  "cancel_to_add_ratio b = per (ib_cancels b) (ib_adds b)"

definition execute_to_add_ratio :: "ibook \<Rightarrow> dbl" where
  "execute_to_add_ratio b = per (ib_executes b) (ib_adds b)"

definition order_to_trade_ratio :: "ibook \<Rightarrow> dbl" where
  "order_to_trade_ratio b = per (u64 (ib_adds b + ib_cancels b + ib_deletes b + ib_replaces b)) (tp_prints (ib_tape b))"

section \<open>Resting orders\<close>

definition resting_on :: "byte \<Rightarrow> ibook \<Rightarrow> resting list" where
  "resting_on sd b = filter (\<lambda>r. rs_side r = sd) (map snd (ib_orders b))"

definition resting_order_count :: "byte \<Rightarrow> ibook \<Rightarrow> nat" where
  "resting_order_count sd b = length (resting_on sd b)"

definition avg_resting_order_size :: "byte \<Rightarrow> ibook \<Rightarrow> dbl" where
  "avg_resting_order_size sd b = per (fold (\<lambda>r s. s64 (s + rs_shares r)) (resting_on sd b) 0) (int (length (resting_on sd b)))"

definition participant_imbalance :: "ibook \<Rightarrow> dbl" where
  "participant_imbalance b = (let x = resting_order_count (chr (CHR ''B'')) b; y = resting_order_count (chr (CHR ''S'')) b
     in if x + y > 0 then ddiv (dsub (d_of_int (int x)) (d_of_int (int y))) (d_of_int (int (x + y))) else Fin 0)"

definition order_count_at :: "byte \<Rightarrow> dbl \<Rightarrow> ibook \<Rightarrow> nat" where
  "order_count_at sd price b = length (filter (\<lambda>r. rs_ticks r = ib_to_ticks price) (resting_on sd b))"

text \<open>The largest amount seen by a loop, and where: \<open>(amount, price)\<close>.\<close>

definition pick_largest :: "(int \<times> int) list \<Rightarrow> int \<times> int" where
  "pick_largest xs = fold (\<lambda>(q, p) (mx, px). if q > mx then (q, p) else (mx, px)) xs (0, 0)"

definition largest_resting_order :: "byte \<Rightarrow> ibook \<Rightarrow> int \<times> dbl option" where
  "largest_resting_order sd b = (let (mx, px) = pick_largest (map (\<lambda>r. (rs_shares r, rs_ticks r)) (resting_on sd b))
     in (mx, if mx > 0 then Some (ticks_price px) else None))"

definition largest_level :: "byte \<Rightarrow> ibook \<Rightarrow> int \<times> dbl option" where
  "largest_level sd b = (let (mx, px) = pick_largest (map (\<lambda>(p, q). (q, p)) (side_book sd b))
     in (mx, if mx > 0 then Some (ticks_price px) else None))"

text \<open>The totals of \<open>audit_book\<close>, rebuilt from the resting orders of the bids or of the asks.\<close>

definition rebuild :: "bool \<Rightarrow> (int, resting) hmap \<Rightarrow> (int, int) omap" where
  "rebuild bid os = fold (\<lambda>(ref, r) m. if is_bid (rs_side r) = bid then om_put (rs_ticks r) (s64 (om_get m (rs_ticks r) + rs_shares r)) m else m) os []"

definition audit_book :: "ibook \<Rightarrow> int" where
  "audit_book b =
     (if \<exists>l \<in> set (ib_bids b). snd l \<le> 0 then 1
      else if \<exists>l \<in> set (ib_asks b). snd l \<le> 0 then 2
      else if \<exists>o' \<in> set (ib_orders b). rs_shares (snd o') = 0 then 5
      else if rebuild True (ib_orders b) \<noteq> ib_bids b then 3
      else if rebuild False (ib_orders b) \<noteq> ib_asks b then 4 else 0)"

end
