(* ===== verification/Itch_Props.thy ===== *)
theory Itch_Props
  imports Itch_Book
begin

text \<open>
  Properties of the rebuilt book: after any sequence of messages that reuses no live reference the two
  structures the book keeps agree, the book built from the bytes of the feed is the set of orders the
  messages describe, and the different walks over its levels agree with each other.
\<close>

section \<open>Level totals\<close>

text \<open>The map holds the positive totals of \<open>f\<close> and nothing else.\<close>

definition totals :: "(int, int) omap \<Rightarrow> (int \<Rightarrow> int) \<Rightarrow> bool" where
  "totals m f \<longleftrightarrow> om_wf m \<and> (\<forall>px. 0 \<le> f px \<and> map_of m px = (if f px = 0 then None else Some (f px)))"

lemma totals_get: "totals m f \<Longrightarrow> om_get m px = f px"
  by (simp add: totals_def om_get_def)

lemma totals_unique: "totals m f \<Longrightarrow> totals m' f \<Longrightarrow> m = m'"
  by (rule om_eqI) (auto simp: totals_def)

lemma totals_positive: "totals m f \<Longrightarrow> l \<in> set m \<Longrightarrow> 0 < snd l"
proof -
  assume a: "totals m f" "l \<in> set m"
  then have "om_wf m" by (simp add: totals_def)
  from map_of_is_SomeI [OF om_wf_distinct [OF this], of "fst l" "snd l"] a(2) have "map_of m (fst l) = Some (snd l)" by simp
  moreover have "0 \<le> f (fst l)" "map_of m (fst l) = (if f (fst l) = 0 then None else Some (f (fst l)))" using a(1) by (simp_all add: totals_def)
  ultimately show ?thesis by (auto split: if_splits)
qed

lemma totals_keys: "totals m f \<Longrightarrow> fst ` set m = {px. f px \<noteq> 0}"
proof -
  assume "totals m f"
  then have "dom (map_of m) = {px. f px \<noteq> 0}" by (auto simp: totals_def dom_def split: if_splits)
  then show ?thesis by (simp add: dom_map_of_conv_image_fst)
qed

lemma totals_take:
  assumes "totals m f" "0 \<le> d" "d \<le> f px" "f px < 2 ^ 63"
  shows "totals (level_take px d m) (f(px := f px - d))"
proof -
  have w: "om_wf m" "om_wf (AList.delete px m)" using assms(1) by (simp_all add: totals_def om_wf_delete)
  have s: "s64 (f px - d) = f px - d" using assms by (intro s64_id) simp_all
  show ?thesis using assms w s
    by (auto simp: totals_def level_take_def om_wf_put map_of_om_put delete_conv' split: option.split if_splits)
qed

lemma totals_add:
  assumes "totals m f" "0 < n" "f px + n < 2 ^ 63"
  shows "totals (om_put px (s64 (om_get m px + n)) m) (f(px := f px + n))"
proof -
  have f: "0 \<le> f px" "om_get m px = f px" using assms(1) by (simp_all add: totals_def totals_get)
  have "s64 (om_get m px + n) = f px + n" using f assms by (simp add: s64_id)
  moreover have "(f px + n = 0) = False" using f(1) assms(2) by simp
  ultimately show ?thesis using assms f by (simp only: totals_def om_wf_put map_of_om_put) simp
qed

section \<open>The invariant\<close>

text \<open>The shares of the resting orders of a side at a price.\<close>

definition share_at :: "bool \<Rightarrow> int \<Rightarrow> resting \<Rightarrow> int" where
  "share_at bid px r = (if is_bid (rs_side r) = bid \<and> rs_ticks r = px then rs_shares r else 0)"

definition resting_at :: "bool \<Rightarrow> (int, resting) hmap \<Rightarrow> int \<Rightarrow> int" where
  "resting_at bid os px = hm_sum (share_at bid px) os"

definition shares_ok :: "(int, resting) hmap \<Rightarrow> bool" where
  "shares_ok os \<longleftrightarrow> (\<forall>r \<in> snd ` set os. 0 < rs_shares r \<and> rs_shares r < 2 ^ 32)"

definition ib_inv :: "nat \<Rightarrow> ibook \<Rightarrow> bool" where
  "ib_inv n b \<longleftrightarrow> hm_wf (ib_orders b) \<and> length (ib_orders b) \<le> n \<and> shares_ok (ib_orders b)
     \<and> totals (ib_bids b) (resting_at True (ib_orders b)) \<and> totals (ib_asks b) (resting_at False (ib_orders b))"

lemma resting_at_bounds:
  assumes "shares_ok os"
  shows "0 \<le> resting_at bid os px" "resting_at bid os px \<le> int (length os) * 2 ^ 32"
proof -
  have "0 \<le> resting_at bid os px \<and> resting_at bid os px \<le> int (length os) * 2 ^ 32"
    using assms by (induction os) (auto simp: resting_at_def shares_ok_def share_at_def algebra_simps)
  then show "0 \<le> resting_at bid os px" "resting_at bid os px \<le> int (length os) * 2 ^ 32" by simp_all
qed

lemma resting_at_small:
  assumes "shares_ok os" "length os < 2 ^ 31"
  shows "resting_at bid os px < 2 ^ 63"
proof -
  have "int (length os) * 2 ^ 32 < 2 ^ 31 * 2 ^ 32" using assms(2) by simp
  then show ?thesis using resting_at_bounds(2) [OF assms(1), of bid px] by simp
qed

lemma share_at_le:
  assumes "shares_ok os" "map_of os ref = Some r"
  shows "share_at bid px r \<le> resting_at bid os px"
  using assms
proof (induction os)
  case (Cons x os)
  have o: "shares_ok os" using Cons.prems(1) by (simp add: shares_ok_def)
  have "0 \<le> share_at bid px (snd x)" using Cons.prems(1) by (auto simp: shares_ok_def share_at_def)
  then show ?case
    using Cons resting_at_bounds(1) [OF o, of bid px] o by (cases x) (auto simp: resting_at_def split: if_splits)
qed simp

lemma map_of_shares: "shares_ok os \<Longrightarrow> map_of os ref = Some r \<Longrightarrow> 0 < rs_shares r \<and> rs_shares r < 2 ^ 32"
  by (auto simp: shares_ok_def dest!: map_of_SomeD)

lemma shares_ok_update: "shares_ok os \<Longrightarrow> 0 < rs_shares r \<Longrightarrow> rs_shares r < 2 ^ 32 \<Longrightarrow> shares_ok (AList.update ref r os)"
  by (auto simp: shares_ok_def dest!: hm_set_update)

lemma shares_ok_delete: "shares_ok os \<Longrightarrow> shares_ok (AList.delete ref os)"
  by (auto simp: shares_ok_def dest!: hm_set_delete)

lemma length_update_same: "map_of m k = Some v \<Longrightarrow> length (AList.update k w m) = length m"
  by (induction m) (auto split: if_splits)

text \<open>The invariant only reads orders and levels.\<close>

lemma ib_inv_cong:
  "ib_orders b' = ib_orders b \<Longrightarrow> ib_bids b' = ib_bids b \<Longrightarrow> ib_asks b' = ib_asks b \<Longrightarrow> ib_inv n b' = ib_inv n b"
  by (simp add: ib_inv_def)

lemma resting_at_update:
  "hm_wf os \<Longrightarrow> resting_at bid (AList.update ref r os) = (\<lambda>px. resting_at bid os px - hm_val (share_at bid px) (map_of os ref) + share_at bid px r)"
  by (simp add: fun_eq_iff resting_at_def hm_sum_update)

lemma resting_at_delete:
  "hm_wf os \<Longrightarrow> resting_at bid (AList.delete ref os) = (\<lambda>px. resting_at bid os px - hm_val (share_at bid px) (map_of os ref))"
  by (simp add: fun_eq_iff resting_at_def hm_sum_delete)

lemma side_totals:
  "ib_inv n b \<Longrightarrow> totals (side_book sd b) (resting_at (is_bid sd) (ib_orders b))"
  by (auto simp: ib_inv_def side_book_def)

text \<open>An event about one side leaves the other alone.\<close>

lemma set_side_inv:
  assumes "ib_inv n b" "hm_wf os" "length os \<le> k" "shares_ok os"
    and "totals m (resting_at (is_bid sd) os)" "resting_at (\<not> is_bid sd) os = resting_at (\<not> is_bid sd) (ib_orders b)"
  shows "ib_inv k ((set_side_book sd m b)\<lparr>ib_orders := os\<rparr>)"
  using assms by (cases "is_bid sd") (auto simp: ib_inv_def set_side_book_def)

lemma set_side_orders: "ib_orders (set_side_book sd m b) = ib_orders b"
  by (simp add: set_side_book_def)

lemma reduce_inv:
  assumes "ib_inv n b" "n < 2 ^ 31" "0 \<le> qty"
  shows "ib_inv n (ib_reduce ref qty b)"
proof (cases "map_of (ib_orders b) ref")
  case None
  then show ?thesis using assms(1) by (simp add: ib_reduce_def ib_inv_def)
next
  case (Some r)
  let ?os = "ib_orders b" let ?bid = "is_bid (rs_side r)"
  define d where "d = taken_of qty r"
  define r1 where "r1 = r\<lparr>rs_shares := rs_shares r - d\<rparr>"
  define os where "os = (if rs_shares r1 = 0 then AList.delete ref ?os else AList.update ref r1 ?os)"
  have i: "hm_wf ?os" "length ?os \<le> n" "shares_ok ?os" using assms(1) by (simp_all add: ib_inv_def)
  have r: "0 < rs_shares r" "rs_shares r < 2 ^ 32" using map_of_shares [OF i(3) Some] by simp_all
  have d: "0 \<le> d" "d \<le> rs_shares r" using assms(3) r by (auto simp: d_def taken_of_def)
  have len: "length os \<le> n"
    using i(2) length_hm_delete [OF i(1) Some] length_update_same [OF Some] by (simp add: os_def)
  have ok: "hm_wf os" "shares_ok os"
    using i r d by (auto simp: os_def hm_wf_update hm_wf_delete shares_ok_update shares_ok_delete r1_def)
  have at: "resting_at bid os px = resting_at bid ?os px - (if bid = ?bid \<and> px = rs_ticks r then d else 0)" for bid px
    using i(1) Some by (auto simp: os_def resting_at_update resting_at_delete share_at_def r1_def)
  have le: "d \<le> resting_at ?bid ?os (rs_ticks r)" using share_at_le [OF i(3) Some, of ?bid "rs_ticks r"] d by (simp add: share_at_def)
  have small: "resting_at ?bid ?os (rs_ticks r) < 2 ^ 63" using i(2,3) assms(2) by (intro resting_at_small) simp_all
  have e: "(resting_at ?bid ?os)(rs_ticks r := resting_at ?bid ?os (rs_ticks r) - d) = resting_at ?bid os" by (simp add: fun_eq_iff at)
  have "totals (level_take (rs_ticks r) d (side_book (rs_side r) b)) (resting_at ?bid os)"
    using totals_take [OF side_totals [OF assms(1), of "rs_side r"] d(1) le small] unfolding e .
  from set_side_inv [OF assms(1) ok(1) len ok(2) this] at have
    "ib_inv n ((set_side_book (rs_side r) (level_take (rs_ticks r) d (side_book (rs_side r) b)) b)\<lparr>ib_orders := os\<rparr>)"
    by (simp add: fun_eq_iff)
  then show ?thesis unfolding os_def r1_def d_def by (simp only: ib_reduce_def Some option.case Let_def set_side_orders)
qed

lemma add_inv:
  assumes "ib_inv n b" "Suc n < 2 ^ 31" "map_of (ib_orders b) ref = None" "0 \<le> shares" "shares < 2 ^ 32"
  shows "ib_inv (Suc n) (on_add ref sd price shares b)"
proof (cases "shares = 0")
  case True
  then show ?thesis using assms(1) by (simp add: on_add_def ib_inv_def)
next
  case False
  define px where "px = ib_to_ticks price"
  define r where "r = \<lparr>rs_side = sd, rs_ticks = px, rs_shares = shares\<rparr>"
  define os where "os = AList.update ref r (ib_orders b)"
  define m where "m = om_put px (s64 (om_get (side_book sd b) px + shares)) (side_book sd b)"
  have i: "hm_wf (ib_orders b)" "length (ib_orders b) \<le> n" "shares_ok (ib_orders b)" using assms(1) by (simp_all add: ib_inv_def)
  have ok: "hm_wf os" "length os \<le> Suc n" "shares_ok os"
    using i assms(3-5) False by (simp_all add: os_def hm_wf_update length_hm_update shares_ok_update r_def)
  have at: "resting_at bid os p = resting_at bid (ib_orders b) p + (if bid = is_bid sd \<and> p = px then shares else 0)" for bid p
    using i(1) assms(3) by (auto simp: os_def resting_at_update share_at_def r_def)
  have "length os < 2 ^ 31" using ok(2) assms(2) by simp
  from resting_at_small [OF ok(3) this, of "is_bid sd" px] have "resting_at (is_bid sd) (ib_orders b) px + shares < 2 ^ 63" by (simp add: at)
  moreover have e: "(resting_at (is_bid sd) (ib_orders b))(px := resting_at (is_bid sd) (ib_orders b) px + shares) = resting_at (is_bid sd) os"
    by (simp add: fun_eq_iff at)
  ultimately have "totals m (resting_at (is_bid sd) os)"
    using totals_add [OF side_totals [OF assms(1), of sd], of shares px] assms(4) False unfolding e m_def by simp
  from set_side_inv [OF assms(1) ok(1,2,3) this] at have j: "ib_inv (Suc n) ((set_side_book sd m b)\<lparr>ib_orders := os\<rparr>)"
    by (simp add: fun_eq_iff)
  show ?thesis
    by (rule iffD2 [OF ib_inv_cong j])
      (use False in \<open>simp_all add: on_add_def Let_def px_def [symmetric] r_def os_def m_def side_book_def set_side_book_def\<close>)
qed

section \<open>Runs\<close>

text \<open>
  What the feed may send: share counts are 32-bit, and a reference in use is not given to another order.
\<close>

fun msg_fits :: "ParsedMessage \<Rightarrow> ibook \<Rightarrow> bool" where
  "msg_fits (ADD_ORDER tm ref sd n st px) b \<longleftrightarrow> uint32_ok n \<and> map_of (ib_orders b) ref = None"
| "msg_fits (ADD_ORDER_MPID tm ref sd n st px mp) b \<longleftrightarrow> uint32_ok n \<and> map_of (ib_orders b) ref = None"
| "msg_fits (ORDER_EXECUTED tm ref n mn) b \<longleftrightarrow> uint32_ok n"
| "msg_fits (ORDER_CANCELLED tm ref n) b \<longleftrightarrow> uint32_ok n"
| "msg_fits (REPLACE_ORDER tm ref ref2 n px) b \<longleftrightarrow> uint32_ok n \<and> (ref2 = ref \<or> map_of (ib_orders b) ref2 = None)"
| "msg_fits _ b \<longleftrightarrow> True"

text \<open>A book after \<open>n\<close> messages.\<close>

inductive ib_run :: "nat \<Rightarrow> ibook \<Rightarrow> bool" where
  ib_start: "ib_run 0 ib0"
| ib_msg: "ib_run n b \<Longrightarrow> msg_fits m b \<Longrightarrow> ib_run (Suc n) (ib_apply m b)"
| ib_reset: "ib_run n b \<Longrightarrow> ib_run n (ib_clear b)"

lemma ib_inv_mono: "ib_inv n b \<Longrightarrow> n \<le> k \<Longrightarrow> ib_inv k b"
  by (auto simp: ib_inv_def)

lemma reduce_orders:
  "map_of (ib_orders b) ref = Some r \<Longrightarrow> ib_orders (ib_reduce ref qty b)
     = (if rs_shares r \<le> qty then AList.delete ref (ib_orders b) else AList.update ref (r\<lparr>rs_shares := rs_shares r - qty\<rparr>) (ib_orders b))"
  if "0 < rs_shares r" "0 \<le> qty"
  using that by (auto simp: ib_reduce_def taken_of_def Let_def set_side_orders)

lemma execute_inv:
  assumes "ib_inv n b" "n < 2 ^ 31" "0 \<le> qty"
  shows "ib_inv n (on_execute ref qty b)"
proof -
  have "ib_inv n (b\<lparr>ib_tape := t\<rparr>)" for t using assms(1) by (simp add: ib_inv_def)
  then have "ib_inv n (ib_reduce ref qty (b\<lparr>ib_tape := t\<rparr>))" for t using assms(2,3) by (intro reduce_inv)
  moreover have "ib_inv n (ib_reduce ref qty b)" by (rule reduce_inv [OF assms])
  ultimately show ?thesis by (auto simp: on_execute_def Let_def ib_inv_def split: option.split)
qed

lemma note_pulled_frame [simp]:
  "ib_orders (note_pulled r d b) = ib_orders b" "ib_bids (note_pulled r d b) = ib_bids b" "ib_asks (note_pulled r d b) = ib_asks b"
  by (simp_all add: note_pulled_def)

lemma pulled_inv: "ib_inv n (note_pulled r d b) = ib_inv n b"
  by (simp add: ib_inv_def)

lemma cancel_inv:
  assumes "ib_inv n b" "n < 2 ^ 31" "0 \<le> qty"
  shows "ib_inv n (on_cancel ref qty b)"
proof -
  have "ib_inv n (ib_reduce ref qty (note_pulled r d b))" for r d using assms by (intro reduce_inv) (simp_all add: pulled_inv)
  moreover have "ib_inv n (ib_reduce ref qty b)" by (rule reduce_inv [OF assms])
  ultimately show ?thesis by (auto simp: on_cancel_def Let_def ib_inv_def split: option.split)
qed

lemma delete_inv:
  assumes "ib_inv n b" "n < 2 ^ 31"
  shows "ib_inv n (on_delete ref b)"
proof (cases "map_of (ib_orders b) ref")
  case (Some r)
  have "0 \<le> rs_shares r" using map_of_shares [OF _ Some] assms(1) by (simp add: ib_inv_def less_imp_le)
  then have "ib_inv n (ib_reduce ref (rs_shares r) (note_pulled r (rs_shares r) b))" using assms by (intro reduce_inv) (simp_all add: pulled_inv)
  then show ?thesis using Some by (simp add: on_delete_def Let_def ib_inv_def)
qed (use assms in \<open>simp add: on_delete_def ib_inv_def\<close>)

lemma replace_inv:
  assumes "ib_inv n b" "Suc n < 2 ^ 31" "0 \<le> shares" "shares < 2 ^ 32" "ref2 = ref \<or> map_of (ib_orders b) ref2 = None"
  shows "ib_inv (Suc n) (on_replace ref ref2 price shares b)"
proof (cases "map_of (ib_orders b) ref")
  case None
  then show ?thesis using assms(1) by (simp add: on_replace_def ib_inv_def)
next
  case (Some r)
  have r: "0 < rs_shares r" using map_of_shares [OF _ Some] assms(1) by (simp add: ib_inv_def)
  have *: "ib_inv (Suc n) (on_add ref2 (rs_side r) price shares (ib_reduce ref (rs_shares r) (b\<lparr>ib_reprice_sum := x, ib_max_reprice := y, ib_repriced := z\<rparr>)))"
    (is "ib_inv _ (on_add _ _ _ _ (ib_reduce _ _ ?b))") for x y z
  proof (rule add_inv [OF _ assms(2) _ assms(3,4)])
    have "ib_inv n ?b" using assms(1) by (simp add: ib_inv_def)
    then show "ib_inv n (ib_reduce ref (rs_shares r) ?b)" using assms(2) r by (intro reduce_inv) simp_all
    show "map_of (ib_orders (ib_reduce ref (rs_shares r) ?b)) ref2 = None"
      using r Some assms(5) by (auto simp: reduce_orders [of r] delete_conv')
  qed
  show ?thesis using Some * by (simp add: on_replace_def Let_def ib_inv_def)
qed

lemma apply_inv:
  assumes "ib_inv n b" "msg_fits m b" "Suc n < 2 ^ 31"
  shows "ib_inv (Suc n) (ib_apply m b)"
proof -
  have s: "ib_inv (Suc n) b" by (rule ib_inv_mono [OF assms(1)]) simp
  show ?thesis
    using assms s
    by (cases m) (auto simp: uint32_ok_def intro: add_inv execute_inv cancel_inv delete_inv replace_inv ib_inv_mono)
qed

lemma ib0_inv: "ib_inv n ib0"
  by (simp add: ib_inv_def ib0_def shares_ok_def totals_def resting_at_def)

lemma run_ib_inv: "ib_run n b \<Longrightarrow> n < 2 ^ 31 \<Longrightarrow> ib_inv n b"
  by (induction rule: ib_run.induct) (simp_all add: ib0_inv ib_clear_def apply_inv)

section \<open>The audit\<close>

lemma resting_prices:
  assumes "shares_ok os"
  shows "{px. resting_at bid os px \<noteq> 0} = {rs_ticks r | r. r \<in> snd ` set os \<and> is_bid (rs_side r) = bid}"
  using assms
proof (induction os)
  case (Cons x os)
  obtain ref r where x: "x = (ref, r)" by (cases x)
  have o: "shares_ok os" "0 < rs_shares r" using Cons.prems by (simp_all add: shares_ok_def x)
  have "resting_at bid (x # os) px \<noteq> 0 \<longleftrightarrow> (is_bid (rs_side r) = bid \<and> rs_ticks r = px) \<or> resting_at bid os px \<noteq> 0" for px
    using o(2) resting_at_bounds(1) [OF o(1), of bid px] by (auto simp: x resting_at_def share_at_def)
  then show ?case using Cons.IH [OF o(1)] by (auto simp: x set_eq_iff)
qed (simp add: resting_at_def)

lemma rebuild_totals:
  assumes "shares_ok os" "length os < 2 ^ 31"
  shows "totals (rebuild bid os) (resting_at bid os)"
proof -
  have "totals (fold (\<lambda>(ref, r) m. if is_bid (rs_side r) = bid then om_put (rs_ticks r) (s64 (om_get m (rs_ticks r) + rs_shares r)) m else m) os m)
      (\<lambda>px. f px + resting_at bid os px)"
    if "totals m f" "shares_ok os" "\<forall>px. f px + resting_at bid os px < 2 ^ 63" for m f os
    using that
  proof (induction os arbitrary: m f)
    case (Cons x os)
    obtain ref r where x: "x = (ref, r)" by (cases x)
    have o: "shares_ok os" "0 < rs_shares r" using Cons.prems(2) by (simp_all add: shares_ok_def x)
    show ?case
    proof (cases "is_bid (rs_side r) = bid")
      case True
      have e: "f px + resting_at bid (x # os) px = (f(rs_ticks r := f (rs_ticks r) + rs_shares r)) px + resting_at bid os px" for px
        using True by (simp add: x resting_at_def share_at_def)
      have "f (rs_ticks r) + rs_shares r < 2 ^ 63"
        using spec [OF Cons.prems(3), of "rs_ticks r"] e [of "rs_ticks r"] resting_at_bounds(1) [OF o(1), of bid "rs_ticks r"] by simp
      from Cons.IH [OF totals_add [OF Cons.prems(1) o(2) this] o(1)] Cons.prems(3) e True show ?thesis by (simp add: x)
    next
      case False
      have "resting_at bid (x # os) px = resting_at bid os px" for px using False by (simp add: x resting_at_def share_at_def)
      then show ?thesis using Cons.IH [OF Cons.prems(1) o(1)] Cons.prems(3) False by (simp add: x)
    qed
  qed (simp add: resting_at_def)
  from this [of "[]" "\<lambda>px. 0" os] assms resting_at_small [OF assms] show ?thesis by (simp add: rebuild_def totals_def)
qed

lemma audit_inv:
  assumes "ib_inv n b" "n < 2 ^ 31"
  shows "audit_book b = 0"
proof -
  have i: "shares_ok (ib_orders b)" "length (ib_orders b) < 2 ^ 31" "totals (ib_bids b) (resting_at True (ib_orders b))"
    "totals (ib_asks b) (resting_at False (ib_orders b))" using assms by (simp_all add: ib_inv_def)
  have "rebuild True (ib_orders b) = ib_bids b" "rebuild False (ib_orders b) = ib_asks b"
    using rebuild_totals [OF i(1,2)] i(3,4) by (blast intro: totals_unique)+
  moreover have "\<forall>l \<in> set (ib_bids b). \<not> snd l \<le> 0" "\<forall>l \<in> set (ib_asks b). \<not> snd l \<le> 0"
    using totals_positive [OF i(3)] totals_positive [OF i(4)] by (auto simp: not_le)
  moreover have "\<forall>x \<in> set (ib_orders b). rs_shares (snd x) \<noteq> 0" using i(1) by (auto simp: shares_ok_def)
  ultimately show ?thesis by (auto simp: audit_book_def)
qed

text \<open>
  C38. The book passes its own audit: after any sequence of fewer than \<open>2^31\<close> messages in which no live
  reference is given to another order, the share totals of every price level are those of the orders
  resting there, no empty level and no empty order is kept, and the best prices are the best prices of
  the resting orders.
\<close>

theorem itch_audit_clean:
  assumes "ib_run n b" "n < 2 ^ 31"
  shows "audit_book b = 0
    \<and> (\<forall>px. om_get (side_book sd b) px = (\<Sum>(ref, r) \<leftarrow> ib_orders b. if is_bid (rs_side r) = is_bid sd \<and> rs_ticks r = px then rs_shares r else 0))
    \<and> (let bids = {rs_ticks r | r. r \<in> snd ` set (ib_orders b) \<and> is_bid (rs_side r)};
           asks = {rs_ticks r | r. r \<in> snd ` set (ib_orders b) \<and> \<not> is_bid (rs_side r)}
       in ib_best_bid b = (if bids = {} then Fin 0 else ticks_price (Max bids))
        \<and> ib_best_ask b = (if asks = {} then Fin 0 else ticks_price (Min asks)))"
proof -
  have i: "ib_inv n b" by (rule run_ib_inv [OF assms])
  have t: "totals (ib_bids b) (resting_at True (ib_orders b))" "totals (ib_asks b) (resting_at False (ib_orders b))" "shares_ok (ib_orders b)"
    using i by (simp_all add: ib_inv_def)
  have k: "{px. resting_at bid (ib_orders b) px \<noteq> 0} = {rs_ticks r | r. r \<in> snd ` set (ib_orders b) \<and> is_bid (rs_side r) = bid}" for bid
    by (rule resting_prices [OF t(3)])
  have "om_get (side_book sd b) px = (\<Sum>(ref, r) \<leftarrow> ib_orders b. if is_bid (rs_side r) = is_bid sd \<and> rs_ticks r = px then rs_shares r else 0)" for px
    using totals_get [OF side_totals [OF i], of sd px] by (simp add: resting_at_def hm_sum_def share_at_def)
  moreover define bids where "bids = {rs_ticks r | r. r \<in> snd ` set (ib_orders b) \<and> is_bid (rs_side r)}"
  moreover define asks where "asks = {rs_ticks r | r. r \<in> snd ` set (ib_orders b) \<and> \<not> is_bid (rs_side r)}"
  moreover have "fst ` set (ib_bids b) = bids" "fst ` set (ib_asks b) = asks"
    using totals_keys [OF t(1)] totals_keys [OF t(2)] k [of True] k [of False] by (simp_all add: bids_def asks_def)
  then have "ib_best_bid b = (if bids = {} then Fin 0 else ticks_price (Max bids))" "ib_best_ask b = (if asks = {} then Fin 0 else ticks_price (Min asks))"
    using om_last_greatest [of "ib_bids b"] om_hd_least [of "ib_asks b"] t(1,2) by (auto simp: ib_best_bid_def ib_best_ask_def totals_def)
  ultimately show ?thesis using audit_inv [OF i assms(2)] by (simp only: Let_def simp_thms)
qed

theorem itch_audit_clean_witness:
  "audit_book (ib_apply (ORDER_EXECUTED 2 7 40 1) (ib_apply (ADD_ORDER 1 7 66 100 [] (Fin 10)) ib0)) = 0"
proof -
  have "ib_run (Suc (Suc 0)) (ib_apply (ORDER_EXECUTED 2 7 40 1) (ib_apply (ADD_ORDER 1 7 66 100 [] (Fin 10)) ib0))"
    by (intro ib_msg ib_start) (simp_all add: uint32_ok_def ib0_def)
  from itch_audit_clean [OF this] show ?thesis by simp
qed

section \<open>Prices in ticks\<close>

text \<open>A price field counts hundredths of a cent; the book keeps whole cents, rounded to nearest.\<close>

definition cents :: "32 word \<Rightarrow> int" where
  "cents w = (uint w + 50) div 100"

lemma ticks_of_price:
  assumes "0 \<le> p" "p < 2 ^ 32" "p mod 100 \<noteq> 50"
  shows "ib_to_ticks (to_float p) = (p + 50) div 100"
proof -
  define P where "P = (of_int p :: rat)"
  have P: "0 \<le> P" "P < 2 ^ 32"
    using assms of_int_less_iff [where ?'a = rat, of p "2 ^ 32"] by (simp_all add: P_def)
  define y where "y = rnd (P / 10000)"
  have "\<bar>y - P / 10000\<bar> \<le> 2 powi (19 - 54)" unfolding y_def by (rule rnd_error_lt) (use P in simp_all)
  then have y: "\<bar>y - P / 10000\<bar> \<le> 1 / 34359738368" by (simp add: power_int_minus)
  have y0: "0 \<le> y"
  proof (cases "p = 0")
    case True
    then show ?thesis by (simp add: y_def P_def rnd_0)
  next
    case False
    then have "1 \<le> P" using assms(1) by (simp add: P_def)
    then show ?thesis using y by linarith
  qed
  define z where "z = rnd (y * 100)"
  have yb: "\<bar>y * 100\<bar> < 2 powi 26" using y P by (simp add: abs_if field_simps split: if_splits)
  have "\<bar>z - y * 100\<bar> \<le> 2 powi (26 - 54)" unfolding z_def by (rule rnd_error_lt [OF yb]) simp
  then have z: "\<bar>z - y * 100\<bar> \<le> 1 / 268435456" by (simp add: power_int_minus)
  define w where "w = rnd (z + 1 / 2)"
  have zb: "\<bar>z + 1 / 2\<bar> < 2 powi 27" using z yb by (simp add: abs_if field_simps split: if_splits)
  have "\<bar>w - (z + 1 / 2)\<bar> \<le> 2 powi (27 - 54)" unfolding w_def by (rule rnd_error_lt [OF zb]) simp
  then have w: "\<bar>w - (z + 1 / 2)\<bar> \<le> 1 / 134217728" by (simp add: power_int_minus)
  have "\<bar>y * 100 - P / 100\<bar> = \<bar>y - P / 10000\<bar> * 100" by (simp add: abs_if field_simps)
  then have "\<bar>y * 100 - P / 100\<bar> < 1 / 10000" using y by linarith
  then have "\<bar>w - (P / 100 + 1 / 2)\<bar> < 1 / 1000" using z w by linarith
  then have wP: "\<bar>w - (P + 50) / 100\<bar> < 1 / 1000" by (simp add: add_divide_distrib)
  define q where "q = (p + 50) div 100"
  have m: "p + 50 = 100 * q + (p + 50) mod 100" by (simp add: q_def)
  have "(p + 50) mod 100 \<noteq> 0"
  proof
    assume "(p + 50) mod 100 = 0"
    then have "p = 50 + 100 * (q - 1)" using m by simp
    then have "p mod 100 = 50" by (simp only: mod_mult_self2) simp
    then show False using assms(3) by simp
  qed
  then have r: "1 \<le> (p + 50) mod 100" "(p + 50) mod 100 \<le> 99" using pos_mod_bound [of 100 "p + 50"] pos_mod_sign [of 100 "p + 50"] by linarith+
  have Pq: "P + 50 = 100 * of_int q + of_int ((p + 50) mod 100)"
    using arg_cong [OF m, of "of_int :: int \<Rightarrow> rat"] by (simp add: P_def)
  have r': "1 \<le> (of_int ((p + 50) mod 100) :: rat)" "(of_int ((p + 50) mod 100) :: rat) \<le> 99"
    using r by linarith+
  have "of_int q \<le> w" "w < of_int q + 1" using wP Pq r' by (auto simp: abs_if field_simps split: if_splits)
  then have f: "\<lfloor>w\<rfloor> = q" by (simp add: floor_eq_iff)
  have q: "0 \<le> q" "q < 2 ^ 63" using assms(1,2) by (simp_all add: q_def)
  then have w0: "\<not> w < 0" using \<open>of_int q \<le> w\<close> by (metis not_le of_int_0_le_iff order_trans)
  have "to_float p = Fin y"
    using assms P by (simp add: to_float_def PRICE_SCALE_def d_of_int_small P_def [symmetric] fin_small y_def)
  moreover have "dmul (Fin y) (Fin 100) = Fin z" using yb by (simp add: fin_small z_def)
  moreover have "dadd (Fin z) (Fin (1 / 2)) = Fin w" using zb by (simp add: fin_small w_def)
  moreover have "dle (Fin 0) (Fin y)" using y0 by (simp add: dle_def not_less)
  ultimately have "ib_to_ticks (to_float p) = d_to_s64 (Fin w)" by (simp only: ib_to_ticks_def if_True)
  also have "\<dots> = q" using f w0 q by (simp add: trunc_def)
  finally show ?thesis by (simp add: q_def)
qed

lemma ticks_of_field: "uint w mod 100 \<noteq> 50 \<Longrightarrow> ib_to_ticks (to_float (uint w)) = cents w"
  using uint_bounded [of w] by (simp add: cents_def ticks_of_price)

section \<open>The book the feed describes\<close>

type_synonym order_map = "int \<rightharpoonup> byte \<times> int \<times> int"

definition lower :: "int \<Rightarrow> int \<Rightarrow> order_map \<Rightarrow> order_map" where
  "lower ref n om = (case om ref of None \<Rightarrow> om | Some (sd, p, q) \<Rightarrow> if q \<le> n then om(ref := None) else om(ref \<mapsto> (sd, p, q - n)))"

definition enter :: "int \<Rightarrow> byte \<Rightarrow> int \<Rightarrow> int \<Rightarrow> order_map \<Rightarrow> order_map" where
  "enter ref sd p n om = (if n = 0 then om else om(ref \<mapsto> (sd, p, n)))"

fun book_spec :: "itch_msg \<Rightarrow> order_map \<Rightarrow> order_map" where
  "book_spec (I_Add tm ref sd n st px) om = enter ref sd (cents px) n om"
| "book_spec (I_AddMpid tm ref sd n st px mp) om = enter ref sd (cents px) n om"
| "book_spec (I_Delete tm ref) om = om(ref := None)"
| "book_spec (I_Replace tm ref ref2 n px) om = (case om ref of None \<Rightarrow> om | Some (sd, p, q) \<Rightarrow> enter ref2 sd (cents px) n (om(ref := None)))"
| "book_spec (I_Executed tm ref n mn) om = lower ref n om"
| "book_spec (I_Cancelled tm ref n) om = lower ref n om"
| "book_spec _ om = om"

text \<open>No live reference is reused, and no price falls on half a cent.\<close>

fun spec_fits :: "itch_msg \<Rightarrow> order_map \<Rightarrow> bool" where
  "spec_fits (I_Add tm ref sd n st px) om \<longleftrightarrow> om ref = None \<and> uint px mod 100 \<noteq> 50"
| "spec_fits (I_AddMpid tm ref sd n st px mp) om \<longleftrightarrow> om ref = None \<and> uint px mod 100 \<noteq> 50"
| "spec_fits (I_Replace tm ref ref2 n px) om \<longleftrightarrow> (ref2 = ref \<or> om ref2 = None) \<and> uint px mod 100 \<noteq> 50"
| "spec_fits _ om \<longleftrightarrow> True"

fun feed_fits :: "itch_msg list \<Rightarrow> order_map \<Rightarrow> bool" where
  "feed_fits [] om \<longleftrightarrow> True"
| "feed_fits (m # ms) om \<longleftrightarrow> itch_ok m \<and> spec_fits m om \<and> feed_fits ms (book_spec m om)"

definition resting_orders :: "ibook \<Rightarrow> order_map" where
  "resting_orders b ref = map_option (\<lambda>r. (rs_side r, rs_ticks r, rs_shares r)) (map_of (ib_orders b) ref)"

lemma resting_orders_None: "resting_orders b ref = None \<longleftrightarrow> map_of (ib_orders b) ref = None"
  by (simp add: resting_orders_def)

lemma resting_frame: "ib_orders b' = ib_orders b \<Longrightarrow> resting_orders b' = resting_orders b"
  by (simp add: resting_orders_def fun_eq_iff)

lemma resting_counters: "resting_orders (b\<lparr>ib_adds := x, ib_replaces := y\<rparr>) = resting_orders b"
  by (rule resting_frame) simp

lemma resting_reduce:
  assumes "ib_inv n b" "0 \<le> qty"
  shows "resting_orders (ib_reduce ref qty b) = lower ref qty (resting_orders b)"
proof (cases "map_of (ib_orders b) ref")
  case None
  then show ?thesis by (simp add: ib_reduce_def lower_def resting_orders_def fun_eq_iff)
next
  case (Some r)
  have r: "0 < rs_shares r" using map_of_shares [OF _ Some] assms(1) by (simp add: ib_inv_def)
  show ?thesis
    using Some reduce_orders [OF r assms(2) Some] by (auto simp: resting_orders_def lower_def fun_eq_iff delete_conv' update_conv')
qed

lemma resting_add: "resting_orders (on_add ref sd price n b) = enter ref sd (ib_to_ticks price) n (resting_orders b)"
  by (auto simp: on_add_def enter_def Let_def resting_orders_def fun_eq_iff update_conv' set_side_book_def)

lemma reduce_orders_cong: "ib_orders b' = ib_orders b \<Longrightarrow> ib_orders (ib_reduce ref q b') = ib_orders (ib_reduce ref q b)"
  by (simp add: ib_reduce_def Let_def set_side_orders split: option.split)

lemma event_orders:
  "ib_orders (on_execute ref n b) = ib_orders (ib_reduce ref n b)"
  "ib_orders (on_cancel ref n b) = ib_orders (ib_reduce ref n b)"
  "map_of (ib_orders b) ref = Some r \<Longrightarrow> ib_orders (on_delete ref b) = ib_orders (ib_reduce ref (rs_shares r) b)"
  by (auto simp: on_execute_def on_cancel_def on_delete_def Let_def intro: reduce_orders_cong split: option.split)

lemma resting_replace:
  assumes "ib_inv k b"
  shows "resting_orders (on_replace ref ref2 price n b)
    = (case resting_orders b ref of None \<Rightarrow> resting_orders b | Some (sd, p, q) \<Rightarrow> enter ref2 sd (ib_to_ticks price) n ((resting_orders b)(ref := None)))"
proof (cases "map_of (ib_orders b) ref")
  case None
  then have "ib_orders (on_replace ref ref2 price n b) = ib_orders b" by (simp add: on_replace_def)
  from resting_frame [OF this] show ?thesis using None by (simp add: resting_orders_def [of b ref])
next
  case (Some r)
  have r: "0 < rs_shares r" using map_of_shares [OF _ Some] assms by (simp add: ib_inv_def)
  have d: "resting_orders (ib_reduce ref (rs_shares r) b') = (resting_orders b)(ref := None)" if "ib_orders b' = ib_orders b" for b'
    using resting_frame [OF reduce_orders_cong [OF that]] resting_reduce [OF assms, of "rs_shares r"] r Some
    by (simp add: lower_def resting_orders_def [of b ref])
  show ?thesis
    using Some by (simp add: on_replace_def Let_def resting_orders_def [of b ref] resting_counters resting_add d)
qed

lemma resting_apply:
  assumes "ib_inv k b" "itch_ok m" "spec_fits m (resting_orders b)"
  shows "resting_orders (ib_apply (itch_value m) b) = book_spec m (resting_orders b)"
proof (cases m)
  case (I_Delete tm ref)
  show ?thesis
  proof (cases "map_of (ib_orders b) ref")
    case None
    then have "ib_orders (on_delete ref b) = ib_orders b" by (simp add: on_delete_def)
    from resting_frame [OF this] show ?thesis using None I_Delete by (auto simp: resting_orders_def fun_eq_iff)
  next
    case (Some r)
    have r: "0 < rs_shares r" using map_of_shares [OF _ Some] assms(1) by (simp add: ib_inv_def)
    show ?thesis
      using I_Delete Some r resting_frame [OF event_orders(3) [OF Some]] resting_reduce [OF assms(1), of "rs_shares r"]
      by (simp add: lower_def resting_orders_def [of b ref])
  qed
qed (use assms in \<open>simp_all add: resting_add resting_replace ticks_of_field resting_frame [OF event_orders(1)] resting_frame [OF event_orders(2)]
    resting_reduce uint32_ok_def split: option.split\<close>)

lemma spec_msg_fits: "itch_ok m \<Longrightarrow> spec_fits m (resting_orders b) \<Longrightarrow> msg_fits (itch_value m) b"
  by (cases m) (simp_all add: resting_orders_None)

text \<open>The feed handler: parse a buffer and apply the message.\<close>

definition feed :: "byte list \<Rightarrow> Stats \<times> ibook \<Rightarrow> Stats \<times> ibook" where
  "feed d = (\<lambda>(s, b). let (s', m) = itch_parse d s in (s', ib_apply m b))"

lemma feed_step: "itch_ok m \<Longrightarrow> snd (feed (itch_bytes m) (s, b)) = ib_apply (itch_value m) b"
  using itch_parse_bytes [of m "[]" s] by (simp add: feed_def split_beta)

lemma feed_run:
  assumes "ib_run k b" "feed_fits ms (resting_orders b)" "k + length ms < 2 ^ 31"
  shows "ib_run (k + length ms) (snd (fold feed (map itch_bytes ms) (s, b)))
    \<and> resting_orders (snd (fold feed (map itch_bytes ms) (s, b))) = fold book_spec ms (resting_orders b)"
  using assms
proof (induction ms arbitrary: k b s)
  case (Cons m ms)
  obtain s' where f: "feed (itch_bytes m) (s, b) = (s', ib_apply (itch_value m) b)"
    using feed_step [of m s b] Cons.prems(2) by (metis feed_fits.simps(2) prod.collapse)
  have r: "ib_run (Suc k) (ib_apply (itch_value m) b)" using Cons.prems by (intro ib_msg) (simp_all add: spec_msg_fits)
  have "ib_inv k b" using Cons.prems by (intro run_ib_inv) simp_all
  then have e: "resting_orders (ib_apply (itch_value m) b) = book_spec m (resting_orders b)" using Cons.prems(2) by (simp add: resting_apply)
  show ?case using Cons.IH [OF r, of s'] Cons.prems e by (simp add: f)
qed simp

lemma hm_sum_dom: "hm_wf m \<Longrightarrow> hm_sum f m = (\<Sum>k \<in> dom (map_of m). f (the (map_of m k)))"
proof (induction m)
  case (Cons x m)
  obtain k v where x: "x = (k, v)" by (cases x)
  have k: "k \<notin> dom (map_of m)" using Cons.prems by (simp add: x dom_map_of_conv_image_fst)
  have "(\<Sum>j \<in> dom (map_of m). f (the (map_of (x # m) j))) = (\<Sum>j \<in> dom (map_of m). f (the (map_of m j)))"
    using k by (intro sum.cong) (auto simp: x)
  moreover have "dom (map_of (x # m)) = insert k (dom (map_of m))" by (auto simp: x dom_def)
  then have "(\<Sum>j \<in> dom (map_of (x # m)). f (the (map_of (x # m) j))) = f v + (\<Sum>j \<in> dom (map_of m). f (the (map_of (x # m) j)))"
    using k by (simp only: sum.insert [OF finite_dom_map_of k]) (simp add: x)
  moreover have "hm_sum f m = (\<Sum>j \<in> dom (map_of m). f (the (map_of m j)))" using Cons by simp
  ultimately show ?case by (simp only: x hm_sum_simps)
qed simp

text \<open>
  C37. The book rebuilt from the bytes of the feed holds exactly the orders the messages describe, each
  with what is left of it, and the shares it shows at a price are the sum of those orders: an
  abstract map from references to side, price in cents and open shares is all a client needs to know
  of the parser, the order table and the two level maps.  No message adds an order under a reference in use, and no price lies
  half way between two cents, where the rounding of the binary fraction decides.
\<close>

theorem itch_book_refines:
  assumes "feed_fits ms Map.empty" "length ms < 2 ^ 31"
  shows "let b = snd (fold feed (map itch_bytes ms) (reset_stats, ib0)); orders = fold book_spec ms Map.empty
    in resting_orders b = orders
      \<and> om_get (side_book sd b) px = (\<Sum>ref \<in> dom orders. case the (orders ref) of (sd', p, q) \<Rightarrow> if is_bid sd' = is_bid sd \<and> p = px then q else 0)
      \<and> audit_book b = 0"
proof -
  define b where "b = snd (fold feed (map itch_bytes ms) (reset_stats, ib0))"
  define orders where "orders = fold book_spec ms Map.empty"
  have 0: "resting_orders ib0 = Map.empty" by (simp add: resting_orders_def ib0_def fun_eq_iff)
  have r: "ib_run (0 + length ms) b" "resting_orders b = orders"
    using feed_run [OF ib_start, of ms reset_stats] assms by (simp_all add: 0 b_def orders_def)
  have i: "ib_inv (length ms) b" using run_ib_inv [OF r(1)] assms(2) by simp
  have d: "dom (map_of (ib_orders b)) = dom orders" by (auto simp: r(2) [symmetric] resting_orders_def dom_def)
  have "om_get (side_book sd b) px = (\<Sum>ref \<in> dom orders. share_at (is_bid sd) px (the (map_of (ib_orders b) ref)))"
    using totals_get [OF side_totals [OF i], of sd px] i by (simp add: resting_at_def hm_sum_dom ib_inv_def d)
  also have "\<dots> = (\<Sum>ref \<in> dom orders. case the (orders ref) of (sd', p, q) \<Rightarrow> if is_bid sd' = is_bid sd \<and> p = px then q else 0)"
    by (rule sum.cong) (auto simp: r(2) [symmetric] resting_orders_def share_at_def)
  finally show ?thesis using r(2) audit_inv [OF i assms(2)] by (simp add: b_def [symmetric] orders_def [symmetric])
qed

theorem itch_book_refines_witness:
  "audit_book (snd (fold feed (map itch_bytes [I_Add 1 7 66 100 (replicate 8 32) 123400, I_Executed 2 7 40 1]) (reset_stats, ib0))) = 0"
proof -
  have "feed_fits [I_Add 1 7 66 100 (replicate 8 32) 123400, I_Executed 2 7 40 1] Map.empty"
    by (simp add: int64_ok_def uint32_ok_def)
  from itch_book_refines [OF this] show ?thesis unfolding Let_def by simp
qed

end
