(* ===== verification/Itch_Walks.thy ===== *)
theory Itch_Walks
  imports Itch_Props
begin

text \<open>
  The walks of \<open>ITCHOrderBook\<close> over the levels of a side agree with each other: what can be filled, how
  many levels that takes, down to which price, and the sums over the top of the book.
\<close>

section \<open>Levels\<close>

definition level_sum :: "(int \<times> int) list \<Rightarrow> int" where
  "level_sum ls = sum_list (map snd ls)"

lemma level_sum_simps [simp]: "level_sum [] = 0" "level_sum ((p, q) # ls) = q + level_sum ls" "level_sum (xs @ ys) = level_sum xs + level_sum ys"
    "level_sum (rev ls) = level_sum ls"
  by (simp_all add: level_sum_def flip: rev_map)

definition levels_ok :: "(int \<times> int) list \<Rightarrow> bool" where
  "levels_ok ls \<longleftrightarrow> (\<forall>l \<in> set ls. 0 < snd l) \<and> level_sum ls < 2 ^ 63"

lemma level_sum_nonneg: "\<forall>l \<in> set ls. 0 < snd l \<Longrightarrow> 0 \<le> level_sum ls"
  unfolding level_sum_def by (rule sum_list_nonneg) (auto simp: less_imp_le)

lemma levels_ok_Cons: "levels_ok ((p, q) # ls) \<Longrightarrow> 0 < q \<and> q < 2 ^ 63 \<and> levels_ok ls"
  using level_sum_nonneg [of ls] by (auto simp: levels_ok_def)

lemma levels_ok_take:
  assumes "levels_ok ls"
  shows "levels_ok (take k ls)" "level_sum (take k ls) \<le> level_sum ls" "0 \<le> level_sum (take k ls)"
proof -
  have p: "\<forall>l \<in> set (take k ls). 0 < snd l" "\<forall>l \<in> set (drop k ls). 0 < snd l"
    using assms by (auto simp: levels_ok_def dest: in_set_takeD in_set_dropD)
  have "level_sum (take k ls) + level_sum (drop k ls) = level_sum ls" by (metis level_sum_simps(3) append_take_drop_id)
  then show "levels_ok (take k ls)" "level_sum (take k ls) \<le> level_sum ls" "0 \<le> level_sum (take k ls)"
    using level_sum_nonneg [OF p(1)] level_sum_nonneg [OF p(2)] p(1) assms by (auto simp: levels_ok_def)
qed

lemma sum_qty_wrap: "sum_qty ls = s64 (level_sum ls)"
proof -
  have "fold (\<lambda>(p, q) s. s64 (s + q)) ls (s64 a) = s64 (a + level_sum ls)" for a
  proof (induction ls arbitrary: a)
    case (Cons x ls)
    then show ?case by (cases x) (simp add: wrap_simps algebra_simps)
  qed simp
  from this [of 0] show ?thesis by (simp add: sum_qty_def s64_def)
qed

lemma sum_qty_exact: "levels_ok ls \<Longrightarrow> sum_qty ls = level_sum ls"
  using level_sum_nonneg [of ls] by (simp add: sum_qty_wrap levels_ok_def s64_id)

section \<open>The walks\<close>

lemma walk_fill_amount:
  assumes "levels_ok ls" "0 \<le> rem" "0 \<le> filled" "filled + rem < 2 ^ 63"
  shows "fst (walk_fill ls rem filled v) = filled + min rem (level_sum ls)"
  using assms
proof (induction ls rem filled v rule: walk_fill.induct)
  case (2 p q ls rem filled v)
  have q: "0 < q" "q < 2 ^ 63" "levels_ok ls" using levels_ok_Cons [OF 2(2)] by simp_all
  have n: "0 \<le> level_sum ls" using q(3) by (simp add: levels_ok_def level_sum_nonneg)
  show ?case
  proof (cases "rem > 0")
    case True
    define t where "t = min rem q"
    have t: "0 < t" "t \<le> rem" "t \<le> q" using True q by (simp_all add: t_def)
    have s: "s64 (rem - t) = rem - t" "s64 (filled + t) = filled + t" using t 2(3-5) by (simp_all add: s64_id)
    show ?thesis using 2(1) [OF True t_def q(3)] True t n s 2(3-5) by (simp add: Let_def t_def [symmetric]) (auto simp: t_def min_def)
  next
    case False
    then show ?thesis using 2(3) q(1) n by simp
  qed
qed simp

text \<open>The level that completes an order, when there is one.\<close>

lemma fill_level_spec:
  assumes "levels_ok ls" "0 < rem" "rem < 2 ^ 63"
  shows "case fill_level rem k ls of None \<Rightarrow> level_sum ls < rem
    | Some (p, j) \<Rightarrow> k < j \<and> j - k \<le> length ls \<and> p = fst (ls ! (j - k - 1)) \<and> level_sum (take (j - k - 1) ls) < rem \<and> rem \<le> level_sum (take (j - k) ls)"
  using assms
proof (induction rem k ls rule: fill_level.induct)
  case (2 rem k p q ls)
  have q: "0 < q" "q < 2 ^ 63" "levels_ok ls" using levels_ok_Cons [OF 2(2)] by simp_all
  have s: "s64 (rem - q) = rem - q" using q 2(3,4) by (intro s64_id) simp_all
  show ?case
  proof (cases "rem \<le> q")
    case True
    then show ?thesis using s 2(3) by simp
  next
    case False
    have IH: "case fill_level (rem - q) (Suc k) ls of None \<Rightarrow> level_sum ls < rem - q
      | Some (p, j) \<Rightarrow> Suc k < j \<and> j - Suc k \<le> length ls \<and> p = fst (ls ! (j - Suc k - 1)) \<and> level_sum (take (j - Suc k - 1) ls) < rem - q
          \<and> rem - q \<le> level_sum (take (j - Suc k) ls)"
      using 2(1) [unfolded s] False q 2(3,4) by simp
    show ?thesis
    proof (cases "fill_level (rem - q) (Suc k) ls")
      case None
      then show ?thesis using IH False s by simp
    next
      case (Some x)
      obtain p' j where x: "x = (p', j)" by (cases x)
      have "Suc k < j" using IH by (simp add: Some x)
      then have "j - k = Suc (j - Suc k)" "j - Suc k = Suc (j - Suc k - 1)" by simp_all
      then show ?thesis using IH False s Some x by (simp add: take_Cons' nth_Cons')
    qed
  qed
qed simp

section \<open>The levels of a book\<close>

lemma sum_share_at:
  assumes "finite K" "0 \<le> rs_shares r"
  shows "(\<Sum>p \<in> K. share_at bid p r) \<le> rs_shares r"
proof -
  have "(\<Sum>p \<in> K. share_at bid p r) = (\<Sum>p \<in> K \<inter> {rs_ticks r}. share_at bid p r)"
    using assms(1) by (intro sum.mono_neutral_right) (auto simp: share_at_def)
  also have "\<dots> \<le> rs_shares r" using assms by (cases "rs_ticks r \<in> K") (auto simp: share_at_def)
  finally show ?thesis .
qed

lemma sum_resting_at:
  assumes "finite K" "shares_ok os"
  shows "(\<Sum>p \<in> K. resting_at bid os p) \<le> int (length os) * 2 ^ 32"
  using assms(2)
proof (induction os)
  case (Cons x os)
  obtain ref r where x: "x = (ref, r)" by (cases x)
  have r: "0 \<le> rs_shares r" "rs_shares r < 2 ^ 32" "shares_ok os" using Cons.prems by (auto simp: shares_ok_def x)
  have "(\<Sum>p \<in> K. resting_at bid (x # os) p) = (\<Sum>p \<in> K. share_at bid p r) + (\<Sum>p \<in> K. resting_at bid os p)"
    by (simp add: x resting_at_def sum.distrib)
  then show ?case using Cons.IH [OF r(3)] sum_share_at [OF assms(1) r(1), of bid] r(2) by (simp add: algebra_simps)
qed (simp add: resting_at_def)

lemma totals_sum:
  assumes "totals m f"
  shows "level_sum m = (\<Sum>p \<in> fst ` set m. f p)"
proof -
  have d: "distinct (map fst m)" using assms om_wf_distinct by (auto simp: totals_def)
  have "level_sum m = (\<Sum>l \<in> set m. snd l)" using d by (simp add: level_sum_def distinct_map sum.distinct_set_conv_list)
  also have "\<dots> = (\<Sum>l \<in> set m. f (fst l))"
  proof (rule sum.cong)
    fix l assume "l \<in> set m"
    then have "map_of m (fst l) = Some (snd l)" using d by simp
    then show "snd l = f (fst l)" using assms by (auto simp: totals_def split: if_splits)
  qed simp
  also have "\<dots> = (\<Sum>p \<in> fst ` set m. f p)" using d by (simp add: distinct_map sum.reindex)
  finally show ?thesis .
qed

lemma totals_levels:
  assumes "totals m (resting_at bid os)" "shares_ok os" "length os < 2 ^ 31"
  shows "levels_ok m"
proof -
  have "int (length os) * 2 ^ 32 < 2 ^ 31 * 2 ^ 32" using assms(3) by simp
  then have "level_sum m < 2 ^ 63" using totals_sum [OF assms(1)] sum_resting_at [of "fst ` set m" os bid] assms(2) by simp
  then show ?thesis using totals_positive [OF assms(1)] by (simp add: levels_ok_def)
qed

definition other_side :: "byte \<Rightarrow> byte" where
  "other_side sd = (if is_bid sd then chr (CHR ''S'') else chr (CHR ''B''))"

lemma to_take_touch: "to_take sd b = from_touch (other_side sd) b"
  by (simp add: to_take_def from_touch_def other_side_def)

lemma run_levels:
  assumes "ib_run n b" "n < 2 ^ 31"
  shows "levels_ok (from_touch sd b)" "levels_ok (side_book sd b)" "level_sum (side_book sd b) = level_sum (from_touch sd b)"
proof -
  have i: "ib_inv n b" by (rule run_ib_inv [OF assms])
  have "levels_ok (side_book sd b)" using totals_levels [OF side_totals [OF i]] i assms(2) by (simp add: ib_inv_def)
  then show "levels_ok (from_touch sd b)" "levels_ok (side_book sd b)" "level_sum (side_book sd b) = level_sum (from_touch sd b)"
    by (auto simp: from_touch_def side_book_def levels_ok_def)
qed

lemma sum_nth_levels: "(\<Sum>i < k. if k0 + i < length ls then snd (ls ! (k0 + i)) else 0) = level_sum (take k (drop k0 ls))"
proof (induction k arbitrary: k0)
  case (Suc k)
  have "(\<Sum>i < Suc k. if k0 + i < length ls then snd (ls ! (k0 + i)) else 0)
      = (if k0 < length ls then snd (ls ! k0) else 0) + (\<Sum>i < k. if Suc k0 + i < length ls then snd (ls ! (Suc k0 + i)) else 0)"
    by (subst sum.lessThan_Suc_shift) (simp cong: if_cong)
  also have "\<dots> = level_sum (take (Suc k) (drop k0 ls))"
    using Suc [of "Suc k0"] by (cases "k0 < length ls") (simp_all add: level_sum_def Cons_nth_drop_Suc [symmetric])
  finally show ?case .
qed simp

text \<open>
  C39. The walks over the book agree.  The single pass of \<open>cumulative_qty\<close> is the sum of the levels looked
  up one by one; a sweep fills the order or everything there is, and \<open>fill_shortfall\<close> is the rest;
  \<open>levels_to_fill\<close> is \<open>-1\<close> exactly when the book cannot fill the order, and otherwise the least number
  of levels that cover it, the last of them at the price \<open>price_to_fill\<close> names.
\<close>

theorem itch_walks_agree:
  assumes "ib_run n b" "n < 2 ^ 31" "0 < q" "q < 2 ^ 63"
  shows "cumulative_qty sd (int k) b = (\<Sum>i < k. nth_level_qty sd (int i) b)
    \<and> fst (expected_fill sd q b) = min q (total_shares (other_side sd) b)
    \<and> fill_shortfall sd q b = max 0 (q - total_shares (other_side sd) b)
    \<and> (if fill_shortfall sd q b > 0 then levels_to_fill sd q b = - 1
      else \<exists>j. levels_to_fill sd q b = int (Suc j) \<and> price_to_fill sd q b = nth_level_price (other_side sd) (int j) b
        \<and> cumulative_qty (other_side sd) (int j) b < q \<and> q \<le> cumulative_qty (other_side sd) (int (Suc j)) b)"
proof -
  let ?o = "other_side sd" let ?ls = "from_touch (other_side sd) b"
  have ok: "levels_ok ?ls" "levels_ok (from_touch sd b)" by (rule run_levels(1) [OF assms(1,2)])+
  have c: "cumulative_qty s (int j) b = level_sum (take j (from_touch s b))" for s j
    using sum_qty_exact [OF levels_ok_take(1) [OF run_levels(1) [OF assms(1,2)]], of j s] by (simp add: cumulative_qty_def top_of_def)
  have t: "total_shares ?o b = level_sum ?ls"
    using run_levels [OF assms(1,2), of ?o] by (simp add: total_shares_def sum_qty_exact)
  have s: "cumulative_qty sd (int k) b = (\<Sum>i < k. nth_level_qty sd (int i) b)"
  proof -
    have "nth_level_qty sd (int i) b = (if 0 + i < length (from_touch sd b) then snd (from_touch sd b ! (0 + i)) else 0)" for i
      by (simp add: nth_level_qty_def)
    then show ?thesis by (simp only: c sum_nth_levels drop_0)
  qed
  have e: "fst (expected_fill sd q b) = min q (total_shares ?o b)"
    using walk_fill_amount [OF ok(1), of q 0 "Fin 0"] assms(3,4) by (simp add: expected_fill_def to_take_touch t split_beta)
  have n: "0 \<le> level_sum ?ls" using ok(1) by (simp add: levels_ok_def level_sum_nonneg)
  have "s64 (q - min q (level_sum ?ls)) = q - min q (level_sum ?ls)" using assms(3,4) n by (intro s64_id) (auto simp: min_def)
  then have f: "fill_shortfall sd q b = max 0 (q - total_shares ?o b)" using assms(3) e t by (simp add: fill_shortfall_def)
  have l: "case fill_level q 0 ?ls of None \<Rightarrow> level_sum ?ls < q
    | Some (p, j) \<Rightarrow> 0 < j \<and> j \<le> length ?ls \<and> p = fst (?ls ! (j - 1)) \<and> level_sum (take (j - 1) ?ls) < q \<and> q \<le> level_sum (take j ?ls)"
    using fill_level_spec [OF ok(1) assms(3,4), of 0] by (auto split: option.splits prod.splits)
  have "if fill_shortfall sd q b > 0 then levels_to_fill sd q b = - 1
      else \<exists>j. levels_to_fill sd q b = int (Suc j) \<and> price_to_fill sd q b = nth_level_price ?o (int j) b
        \<and> cumulative_qty ?o (int j) b < q \<and> q \<le> cumulative_qty ?o (int (Suc j)) b"
  proof (cases "fill_level q 0 ?ls")
    case None
    then show ?thesis using l assms(3) by (simp add: f t levels_to_fill_def to_take_touch)
  next
    case (Some x)
    obtain p j' where x: "x = (p, j')" by (cases x)
    obtain j where j': "j' = Suc j" using l by (cases j') (simp_all add: Some x)
    have j: "j < length ?ls" "p = fst (?ls ! j)" "level_sum (take j ?ls) < q" "q \<le> level_sum (take (Suc j) ?ls)"
      using l by (simp_all add: Some x j')
    then have "q \<le> level_sum ?ls" using levels_ok_take(2) [OF ok(1), of "Suc j"] by simp
    then have "\<not> fill_shortfall sd q b > 0" by (simp add: f t)
    moreover have "levels_to_fill sd q b = int (Suc j)" "price_to_fill sd q b = nth_level_price ?o (int j) b"
      using j(1,2) assms(3) by (simp_all add: levels_to_fill_def price_to_fill_def to_take_touch Some x j' nth_level_price_def)
    moreover have "cumulative_qty ?o (int j) b < q" "q \<le> cumulative_qty ?o (int (Suc j)) b" using j(3,4) unfolding c by simp_all
    ultimately show ?thesis by (simp only: if_False) blast
  qed
  then show ?thesis using s e f by blast
qed

theorem itch_walks_agree_witness:
  "fst (expected_fill 66 40 (ib_apply (ADD_ORDER 1 7 83 100 [] (Fin 10)) ib0)) = 40"
proof -
  have "ib_run (Suc 0) (ib_apply (ADD_ORDER 1 7 83 100 [] (Fin 10)) ib0)"
    by (intro ib_msg ib_start) (simp_all add: uint32_ok_def ib0_def)
  from itch_walks_agree [OF this, of 40 66 0] show ?thesis
    by (simp add: total_shares_def sum_qty_def side_book_def other_side_def on_add_def Let_def ib0_def set_side_book_def om_get_def s64_def)
qed

section \<open>Where comments and code part\<close>

text \<open>
  A replace by an order of no shares: \<open>on_add\<close> returns before it counts, and \<open>on_replace\<close> takes back a
  count that was never given.
\<close>

lemma replace_zero_uncounts: "ib_adds (on_replace 1 2 (Fin 10) 0 (on_add 1 66 (Fin 10) 5 ib0)) = 0 \<and> ib_adds (on_add 1 66 (Fin 10) 5 ib0) = 1"
  by code_simp

text \<open>\<open>depth_weighted_spread(1)\<close> is not exactly the touch spread: the average of one level rounds twice.\<close>

lemma weighted_spread_rounds:
  "(let b = on_add 2 83 (fin (6 / 100)) 1 (on_add 1 66 (fin (5 / 100)) 3 ib0) in depth_weighted_spread 1 b \<noteq> ib_spread b)"
  by code_simp

text \<open>An order whose side is neither \<open>B\<close> nor \<open>S\<close> rests among the asks, but an execution of it counts as one by a seller.\<close>

lemma odd_side_sells:
  "(let t = ib_tape (on_execute 1 5 (on_add 1 88 (Fin 10) 5 ib0)) in tp_ask t = 5 \<and> tp_buy_prints t = 1 \<and> \<not> tp_last_buy t \<and> tp_run t = - 1)"
  by code_simp

end
