(* ===== verification/Router.thy ===== *)
theory Router
  imports Ouch_Orders
begin

text \<open>
  \<open>router/smart_router.hpp\<close>: the smart order router.  Venues with their quotes, fees, latency and health,
  the three routing strategies, the statistics of the session and the read-outs over the venues.  A
  venue is named by its position; a C string is its characters before the terminator.
\<close>

section \<open>State\<close>

definition MAX_VENUES :: nat where
  "MAX_VENUES = 16"

datatype RoutingStrategy = BEST_PRICE | LOWEST_LATENCY | SPLIT

datatype RouteReject = ROUTE_OK | NO_VENUES | NO_LIQUIDITY

fun route_reject_str :: "RouteReject \<Rightarrow> string" where
  "route_reject_str ROUTE_OK = ''NONE''"
| "route_reject_str NO_VENUES = ''NO_VENUES''"
| "route_reject_str NO_LIQUIDITY = ''NO_LIQUIDITY''"

record Venue =
  v_name :: string
  v_latency :: int
  v_latency_p99 :: int
  v_fee :: dbl
  v_best_bid :: dbl
  v_best_ask :: dbl
  v_bid_size :: int
  v_ask_size :: int
  v_active :: bool
  v_ewma :: dbl
  v_samples :: int
  v_failures :: int
  v_routed :: int
  v_routes :: int
  v_last_quote :: int

definition venue0 :: "string \<Rightarrow> int \<Rightarrow> dbl \<Rightarrow> Venue" where
  "venue0 n lat fee = \<lparr>v_name = take 15 n, v_latency = lat, v_latency_p99 = 0, v_fee = fee, v_best_bid = Fin 0, v_best_ask = Fin 0,
     v_bid_size = 0, v_ask_size = 0, v_active = True, v_ewma = Fin 0, v_samples = 0, v_failures = 0, v_routed = 0, v_routes = 0, v_last_quote = 0\<rparr>"

definition selection_latency_ns :: "Venue \<Rightarrow> int" where
  "selection_latency_ns v = (if v_samples v > 0 then d_to_s64 (v_ewma v) else if v_latency_p99 v > 0 then v_latency_p99 v else v_latency v)"

record RouteDecision =
  d_venue :: string
  d_price :: dbl
  d_effective_price :: dbl
  d_total_fee :: dbl
  d_quantity :: int
  d_unfilled :: int
  d_num_venues :: int
  d_latency :: int
  d_valid :: bool
  d_reject :: RouteReject

definition decision0 :: RouteDecision where
  "decision0 = \<lparr>d_venue = [], d_price = Fin 0, d_effective_price = Fin 0, d_total_fee = Fin 0, d_quantity = 0, d_unfilled = 0, d_num_venues = 0,
     d_latency = 0, d_valid = False, d_reject = ROUTE_OK\<rparr>"

text \<open>\<open>venues_[0]\<close> to \<open>venues_[venue_count_ - 1]\<close> are a list.\<close>

record Router =
  sr_venues :: "Venue list"
  sr_strategy :: RoutingStrategy
  sr_threshold :: int
  sr_max_failures :: int
  sr_routes :: int
  sr_rejected :: int
  sr_latency :: int
  sr_max_latency :: int
  sr_unfilled :: int
  sr_notional :: dbl
  sr_fees :: dbl

definition sr0 :: "RoutingStrategy \<Rightarrow> int \<Rightarrow> Router" where
  "sr0 strat threshold = \<lparr>sr_venues = [], sr_strategy = strat, sr_threshold = threshold, sr_max_failures = 3, sr_routes = 0, sr_rejected = 0,
     sr_latency = 0, sr_max_latency = 0, sr_unfilled = 0, sr_notional = Fin 0, sr_fees = Fin 0\<rparr>"

definition effective_price :: "bool \<Rightarrow> Venue \<Rightarrow> dbl" where
  "effective_price is_buy v = (if is_buy then dadd (v_best_ask v) (v_fee v) else dsub (v_best_bid v) (v_fee v))"

section \<open>Venues\<close>

definition add_venue :: "Venue \<Rightarrow> Router \<Rightarrow> Router" where
  "add_venue v r = (if length (sr_venues r) < MAX_VENUES then r\<lparr>sr_venues := sr_venues r @ [v]\<rparr> else r)"

text \<open>The first venue of a name.\<close>

fun venue_index :: "string \<Rightarrow> Venue list \<Rightarrow> nat option" where
  "venue_index n [] = None"
| "venue_index n (v # vs) = (if v_name v = n then Some 0 else map_option Suc (venue_index n vs))"

definition upd_venue :: "string \<Rightarrow> (Venue \<Rightarrow> Venue) \<Rightarrow> Router \<Rightarrow> Router" where
  "upd_venue n f r = (case venue_index n (sr_venues r) of None \<Rightarrow> r | Some i \<Rightarrow> r\<lparr>sr_venues := (sr_venues r)[i := f (sr_venues r ! i)]\<rparr>)"

definition venue_of :: "string \<Rightarrow> Router \<Rightarrow> Venue option" where
  "venue_of n r = map_option (nth (sr_venues r)) (venue_index n (sr_venues r))"

definition remove_venue :: "string \<Rightarrow> Router \<Rightarrow> Router \<times> bool" where
  "remove_venue n r = (case venue_index n (sr_venues r) of None \<Rightarrow> (r, False)
     | Some i \<Rightarrow> (r\<lparr>sr_venues := take i (sr_venues r) @ drop (Suc i) (sr_venues r)\<rparr>, True))"

definition record_latency :: "string \<Rightarrow> int \<Rightarrow> Router \<Rightarrow> Router" where
  "record_latency n observed r = (if observed \<le> 0 then r
     else upd_venue n (\<lambda>v. v\<lparr>v_ewma := (if v_samples v = 0 then d_of_int observed
              else dadd (dmul (fin (2 / 10)) (d_of_int observed)) (dmul (dsub (Fin 1) (fin (2 / 10))) (v_ewma v))),
            v_samples := u32 (v_samples v + 1), v_failures := 0, v_active := True\<rparr>) r)"

definition set_failure_threshold :: "int \<Rightarrow> Router \<Rightarrow> Router" where
  "set_failure_threshold n r = (if n > 0 then r\<lparr>sr_max_failures := n\<rparr> else r)"

definition record_reject :: "string \<Rightarrow> Router \<Rightarrow> Router" where
  "record_reject n r = upd_venue n (\<lambda>v. v\<lparr>v_failures := u32 (v_failures v + 1),
     v_active := (if u32 (v_failures v + 1) \<ge> sr_max_failures r then False else v_active v)\<rparr>) r"

definition record_success :: "string \<Rightarrow> Router \<Rightarrow> Router" where
  "record_success n r = upd_venue n (\<lambda>v. v\<lparr>v_failures := 0, v_active := True\<rparr>) r"

definition venue_active :: "string \<Rightarrow> Router \<Rightarrow> bool" where
  "venue_active n r = (case venue_of n r of Some v \<Rightarrow> v_active v | None \<Rightarrow> False)"

definition set_venue_active :: "string \<Rightarrow> bool \<Rightarrow> Router \<Rightarrow> Router \<times> bool" where
  "set_venue_active n a r = (upd_venue n (\<lambda>v. v\<lparr>v_active := a, v_failures := (if a then 0 else v_failures v)\<rparr>) r, venue_of n r \<noteq> None)"

definition set_venue_fee :: "string \<Rightarrow> dbl \<Rightarrow> Router \<Rightarrow> Router \<times> bool" where
  "set_venue_fee n fee r = (upd_venue n (\<lambda>v. v\<lparr>v_fee := fee\<rparr>) r, venue_of n r \<noteq> None)"

definition venue_ewma_latency :: "string \<Rightarrow> Router \<Rightarrow> dbl" where
  "venue_ewma_latency n r = (case venue_of n r of Some v \<Rightarrow> v_ewma v | None \<Rightarrow> Fin 0)"

definition venue_failure_streak :: "string \<Rightarrow> Router \<Rightarrow> int" where
  "venue_failure_streak n r = (case venue_of n r of Some v \<Rightarrow> s32 (v_failures v) | None \<Rightarrow> - 1)"

definition update_quote :: "int \<Rightarrow> string \<Rightarrow> dbl \<Rightarrow> dbl \<Rightarrow> int \<Rightarrow> int \<Rightarrow> int \<Rightarrow> Router \<Rightarrow> Router" where
  "update_quote now n bid ask bsz asz stamp r = upd_venue n (\<lambda>v. v\<lparr>v_best_bid := bid, v_best_ask := ask, v_bid_size := bsz, v_ask_size := asz,
     v_last_quote := (if stamp \<noteq> 0 then stamp else now)\<rparr>) r"

section \<open>Routing\<close>

definition has_liq :: "bool \<Rightarrow> Venue \<Rightarrow> bool" where
  "has_liq is_buy v \<longleftrightarrow> (if is_buy then dlt (Fin 0) (v_best_ask v) \<and> v_ask_size v > 0 else dlt (Fin 0) (v_best_bid v) \<and> v_bid_size v > 0)"

definition v_size :: "bool \<Rightarrow> Venue \<Rightarrow> int" where
  "v_size is_buy v = (if is_buy then v_ask_size v else v_bid_size v)"

definition quote_px :: "bool \<Rightarrow> Venue \<Rightarrow> dbl" where
  "quote_px is_buy v = (if is_buy then v_best_ask v else v_best_bid v)"

text \<open>\<open>better is_buy x y\<close>: price \<open>x\<close> is better than \<open>y\<close> for the side.\<close>

definition better :: "bool \<Rightarrow> dbl \<Rightarrow> dbl \<Rightarrow> bool" where
  "better is_buy x y = (if is_buy then dlt x y else dlt y x)"

definition candidates :: "bool \<Rightarrow> Router \<Rightarrow> nat list" where
  "candidates is_buy r = filter (\<lambda>i. v_active (sr_venues r ! i) \<and> has_liq is_buy (sr_venues r ! i)) [0..<length (sr_venues r)]"

text \<open>The best of a list by a strict comparison, the first of equals: \<open>best = c[0]; for ... if better, best = c[i]\<close>.\<close>

fun pick_first :: "('a \<Rightarrow> 'a \<Rightarrow> bool) \<Rightarrow> 'a \<Rightarrow> 'a list \<Rightarrow> 'a" where
  "pick_first bt x [] = x"
| "pick_first bt x (y # ys) = pick_first bt (if bt y x then y else x) ys"

definition book_stats :: "RouteDecision \<Rightarrow> Router \<Rightarrow> Router" where
  "book_stats d r = r\<lparr>sr_routes := u64 (sr_routes r + 1), sr_latency := u64 (sr_latency r + d_latency d), sr_max_latency := max (d_latency d) (sr_max_latency r),
     sr_unfilled := s64 (sr_unfilled r + d_unfilled d), sr_notional := dadd (sr_notional r) (dmul (d_price d) (d_of_int (d_quantity d))),
     sr_fees := dadd (sr_fees r) (d_total_fee d)\<rparr>"

definition note_routed :: "nat \<Rightarrow> int \<Rightarrow> Router \<Rightarrow> Router" where
  "note_routed i n r = r\<lparr>sr_venues := (sr_venues r)[i := (sr_venues r ! i)\<lparr>v_routed := s64 (v_routed (sr_venues r ! i) + n), v_routes := u64 (v_routes (sr_venues r ! i) + 1)\<rparr>]\<rparr>"

definition route_one :: "int \<Rightarrow> int \<Rightarrow> bool \<Rightarrow> int \<Rightarrow> nat \<Rightarrow> Router \<Rightarrow> Router \<times> RouteDecision" where
  "route_one t0 t1 is_buy quantity i r =
     (let v = sr_venues r ! i; filled = min quantity (v_size is_buy v);
          d = decision0\<lparr>d_valid := True, d_venue := take 15 (v_name v), d_price := quote_px is_buy v, d_effective_price := effective_price is_buy v,
                d_total_fee := dmul (v_fee v) (d_of_int filled), d_quantity := filled, d_unfilled := s32 (quantity - filled), d_num_venues := 1,
                d_latency := s64 (t1 - t0)\<rparr>
      in (book_stats d (note_routed i filled r), d))"

text \<open>The exchange sort of \<open>split_order\<close>: the inner loop brings the best of the rest to the front.\<close>

fun exchange :: "('a \<Rightarrow> 'a \<Rightarrow> bool) \<Rightarrow> 'a \<Rightarrow> 'a list \<Rightarrow> 'a \<times> 'a list" where
  "exchange bt x [] = (x, [])"
| "exchange bt x (y # ys) = (if bt y x then let (z, zs) = exchange bt y ys in (z, x # zs) else let (z, zs) = exchange bt x ys in (z, y # zs))"

lemma length_exchange: "length (snd (exchange bt x ys)) = length ys"
  by (induction bt x ys rule: exchange.induct) (auto simp: split_beta)

function exchange_sort :: "('a \<Rightarrow> 'a \<Rightarrow> bool) \<Rightarrow> 'a list \<Rightarrow> 'a list" where
  "exchange_sort bt [] = []"
| "exchange_sort bt (x # xs) = (let (z, zs) = exchange bt x xs in z # exchange_sort bt zs)"
  by pat_completeness auto
termination
proof (relation "measure (\<lambda>(bt, xs). length xs)")
  fix bt :: "'a \<Rightarrow> 'a \<Rightarrow> bool" and x xs p z zs assume "p = exchange bt x xs" "(z, zs) = p"
  then show "((bt, zs), bt, x # xs) \<in> measure (\<lambda>(bt, xs). length xs)" using length_exchange [of bt x xs] by (metis in_measure case_prod_conv less_Suc_eq list.size(4) snd_conv add.right_neutral add_Suc_right)
qed simp

text \<open>The allocation loop over the sorted candidates.\<close>

record split_acc =
  sp_router :: Router
  sp_remaining :: int
  sp_filled :: int
  sp_used :: int
  sp_price :: dbl
  sp_fee :: dbl

fun split_loop :: "bool \<Rightarrow> nat list \<Rightarrow> split_acc \<Rightarrow> split_acc" where
  "split_loop is_buy [] s = s"
| "split_loop is_buy (i # is) s =
     (if sp_remaining s > 0
      then let v = sr_venues (sp_router s) ! i; alloc = min (sp_remaining s) (v_size is_buy v)
           in split_loop is_buy is (if alloc \<le> 0 then s
                else s\<lparr>sp_price := dadd (sp_price s) (dmul (quote_px is_buy v) (d_of_int alloc)), sp_fee := dadd (sp_fee s) (dmul (v_fee v) (d_of_int alloc)),
                       sp_filled := s32 (sp_filled s + alloc), sp_remaining := s32 (sp_remaining s - alloc),
                       sp_router := note_routed i alloc (sp_router s), sp_used := sp_used s + 1\<rparr>)
      else s)"

definition by_price :: "bool \<Rightarrow> Router \<Rightarrow> nat \<Rightarrow> nat \<Rightarrow> bool" where
  "by_price is_buy r i j = better is_buy (effective_price is_buy (sr_venues r ! i)) (effective_price is_buy (sr_venues r ! j))"

definition split_order :: "int \<Rightarrow> int \<Rightarrow> nat list \<Rightarrow> bool \<Rightarrow> int \<Rightarrow> Router \<Rightarrow> Router \<times> RouteDecision" where
  "split_order t0 t1 cs is_buy quantity r =
     (let sorted = exchange_sort (by_price is_buy r) cs;
          s = split_loop is_buy sorted \<lparr>sp_router = r, sp_remaining = quantity, sp_filled = 0, sp_used = 0, sp_price = Fin 0, sp_fee = Fin 0\<rparr>;
          n = d_of_int (sp_filled s)
      in if sp_filled s = 0 then ((sp_router s)\<lparr>sr_rejected := u64 (sr_rejected (sp_router s) + 1)\<rparr>, decision0\<lparr>d_reject := NO_LIQUIDITY\<rparr>)
         else let d = decision0\<lparr>d_valid := True, d_venue := take 15 (v_name (sr_venues r ! hd sorted)), d_price := ddiv (sp_price s) n,
                    d_effective_price := ddiv (if is_buy then dadd (sp_price s) (sp_fee s) else dsub (sp_price s) (sp_fee s)) n,
                    d_total_fee := sp_fee s, d_quantity := sp_filled s, d_unfilled := s32 (quantity - sp_filled s), d_num_venues := sp_used s,
                    d_latency := s64 (t1 - t0)\<rparr>
              in (book_stats d (sp_router s), d))"

definition route_order :: "int \<Rightarrow> int \<Rightarrow> string \<Rightarrow> int \<Rightarrow> RoutingStrategy \<Rightarrow> Router \<Rightarrow> Router \<times> RouteDecision" where
  "route_order t0 t1 side quantity strat r =
     (let is_buy = (case side of c # _ \<Rightarrow> c = CHR ''B'' | [] \<Rightarrow> False); cs = candidates is_buy r
      in if cs = [] then (r\<lparr>sr_rejected := u64 (sr_rejected r + 1)\<rparr>, decision0\<lparr>d_reject := (if sr_venues r = [] then NO_VENUES else NO_LIQUIDITY)\<rparr>)
         else if strat = SPLIT \<and> quantity \<ge> sr_threshold r then split_order t0 t1 cs is_buy quantity r
         else let best = (if strat = LOWEST_LATENCY
                          then pick_first (\<lambda>i j. selection_latency_ns (sr_venues r ! i) < selection_latency_ns (sr_venues r ! j)) (hd cs) (tl cs)
                          else pick_first (by_price is_buy r) (hd cs) (tl cs))
              in route_one t0 t1 is_buy quantity best r)"

definition route_default :: "int \<Rightarrow> int \<Rightarrow> string \<Rightarrow> int \<Rightarrow> Router \<Rightarrow> Router \<times> RouteDecision" where
  "route_default t0 t1 side quantity r = route_order t0 t1 side quantity (sr_strategy r) r"

definition reset_routing_stats :: "Router \<Rightarrow> Router" where
  "reset_routing_stats r = r\<lparr>sr_venues := map (\<lambda>v. v\<lparr>v_routed := 0, v_routes := 0\<rparr>) (sr_venues r)\<rparr>"

definition reset_session_stats :: "Router \<Rightarrow> Router" where
  "reset_session_stats r = reset_routing_stats (r\<lparr>sr_routes := 0, sr_rejected := 0, sr_latency := 0, sr_max_latency := 0, sr_unfilled := 0,
     sr_notional := Fin 0, sr_fees := Fin 0\<rparr>)"

end
