(* ===== verification/Router_Reads.thy ===== *)
theory Router_Reads
  imports Router
begin

text \<open>
  The read-outs of \<open>router/smart_router.hpp\<close>: the best bid and offer over all venues, liquidity and cost by
  venue, the planned sweeps, and the statistics of what was routed.
\<close>

section \<open>Scans over the venues\<close>

text \<open>The active venues that satisfy a condition, in the order of the loop.\<close>

definition active_with :: "(Venue \<Rightarrow> bool) \<Rightarrow> Router \<Rightarrow> Venue list" where
  "active_with P r = filter (\<lambda>v. v_active v \<and> P v) (sr_venues r)"

text \<open>The first best element of a list by a strict comparison of keys.\<close>

definition best_by :: "('k \<Rightarrow> 'k \<Rightarrow> bool) \<Rightarrow> (Venue \<Rightarrow> 'k) \<Rightarrow> Venue list \<Rightarrow> Venue option" where
  "best_by bt key vs = (case vs of [] \<Rightarrow> None | w # ws \<Rightarrow> Some (pick_first (\<lambda>x y. bt (key x) (key y)) w ws))"

definition name_of :: "Venue option \<Rightarrow> string option" where
  "name_of = map_option v_name"

definition key_or0 :: "(Venue \<Rightarrow> dbl) \<Rightarrow> Venue option \<Rightarrow> dbl" where
  "key_or0 key ov = (case ov of None \<Rightarrow> Fin 0 | Some v \<Rightarrow> key v)"

definition sum_sizes :: "bool \<Rightarrow> Venue list \<Rightarrow> int" where
  "sum_sizes is_buy vs = sum32 (v_size is_buy) vs"

definition least_healthy_venue :: "Router \<Rightarrow> (string \<times> int) option" where
  "least_healthy_venue r = map_option (\<lambda>v. (v_name v, s32 (v_failures v))) (best_by (>) v_failures (active_with (\<lambda>v. v_failures v > 0) r))"

section \<open>Freshness\<close>

definition is_fresh :: "int \<Rightarrow> int \<Rightarrow> Venue \<Rightarrow> bool" where
  "is_fresh max_age now v \<longleftrightarrow> v_last_quote v \<noteq> 0 \<and> \<not> s64 (now - v_last_quote v) > max_age"

definition quote_age :: "int \<Rightarrow> Venue \<Rightarrow> int" where
  "quote_age now v = (let age = s64 (now - v_last_quote v) in if age > 0 then age else 0)"

definition fresh_venue_count :: "int \<Rightarrow> int \<Rightarrow> Router \<Rightarrow> nat" where
  "fresh_venue_count max_age now r = length (active_with (is_fresh max_age now) r)"

definition venue_quote_age_ns :: "string \<Rightarrow> int \<Rightarrow> Router \<Rightarrow> int" where
  "venue_quote_age_ns n now r = (case venue_of n r of None \<Rightarrow> - 1 | Some v \<Rightarrow> if v_last_quote v = 0 then - 1 else quote_age now v)"

definition stalest :: "int \<Rightarrow> Router \<Rightarrow> Venue option" where
  "stalest now r = best_by (>) (quote_age now) (active_with (\<lambda>v. v_last_quote v \<noteq> 0) r)"

definition stalest_quote_age_ns :: "int \<Rightarrow> Router \<Rightarrow> int" where
  "stalest_quote_age_ns now r = (case stalest now r of None \<Rightarrow> - 1 | Some v \<Rightarrow> quote_age now v)"

definition stalest_quote_venue :: "int \<Rightarrow> Router \<Rightarrow> string option" where
  "stalest_quote_venue now r = name_of (stalest now r)"

section \<open>The national best bid and offer\<close>

definition nbb :: "Router \<Rightarrow> Venue option" where
  "nbb r = best_by (\<lambda>x y. dlt y x) v_best_bid (active_with (\<lambda>v. v_bid_size v > 0 \<and> dlt (Fin 0) (v_best_bid v)) r)"

text \<open>The offer does not ask for a positive price.\<close>

definition nbo :: "Router \<Rightarrow> Venue option" where
  "nbo r = best_by dlt v_best_ask (active_with (\<lambda>v. v_ask_size v > 0) r)"

definition national_best_bid :: "Router \<Rightarrow> dbl" where
  "national_best_bid r = key_or0 v_best_bid (nbb r)"

definition national_best_ask :: "Router \<Rightarrow> dbl" where
  "national_best_ask r = key_or0 v_best_ask (nbo r)"

definition nbbo_bid_venue :: "Router \<Rightarrow> string option" where
  "nbbo_bid_venue r = name_of (nbb r)"

definition nbbo_ask_venue :: "Router \<Rightarrow> string option" where
  "nbbo_ask_venue r = name_of (nbo r)"

text \<open>Both sides are quoted.\<close>

definition both_quoted :: "Router \<Rightarrow> bool" where
  "both_quoted r \<longleftrightarrow> dlt (Fin 0) (national_best_bid r) \<and> dlt (Fin 0) (national_best_ask r)"

definition nbbo_mid :: "Router \<Rightarrow> dbl" where
  "nbbo_mid r = (if both_quoted r then ddiv (dadd (national_best_bid r) (national_best_ask r)) (Fin 2) else Fin 0)"

definition fresh_nbbo_mid :: "int \<Rightarrow> int \<Rightarrow> Router \<Rightarrow> dbl" where
  "fresh_nbbo_mid max_age now r =
     (case (best_by (\<lambda>x y. dlt y x) v_best_bid (active_with (\<lambda>v. is_fresh max_age now v \<and> has_liq False v) r),
            best_by dlt v_best_ask (active_with (\<lambda>v. is_fresh max_age now v \<and> has_liq True v) r)) of
        (Some b, Some a) \<Rightarrow> ddiv (dadd (v_best_bid b) (v_best_ask a)) (Fin 2) | _ \<Rightarrow> Fin 0)"

definition nbbo_microprice :: "Router \<Rightarrow> dbl" where
  "nbbo_microprice r =
     (case (nbb r, best_by dlt v_best_ask (active_with (has_liq True) r)) of
        (Some b, Some a) \<Rightarrow> let denom = v_bid_size b + v_ask_size a
          in if denom \<le> 0 then Fin 0
             else ddiv (dadd (dmul (v_best_bid b) (d_of_int (v_ask_size a))) (dmul (v_best_ask a) (d_of_int (v_bid_size b)))) (d_of_int denom)
      | _ \<Rightarrow> Fin 0)"

definition nbbo_spread :: "Router \<Rightarrow> dbl" where
  "nbbo_spread r = (if both_quoted r then dsub (national_best_ask r) (national_best_bid r) else Fin 0)"

definition bps_of :: "dbl \<Rightarrow> dbl \<Rightarrow> dbl" where
  "bps_of x m = dmul (ddiv x m) (Fin 10000)"

definition nbbo_spread_bps :: "Router \<Rightarrow> dbl" where
  "nbbo_spread_bps r = (let m = nbbo_mid r in if dlt (Fin 0) m then bps_of (nbbo_spread r) m else Fin 0)"

text \<open>\<open>==\<close> of doubles.\<close>

definition deq :: "dbl \<Rightarrow> dbl \<Rightarrow> bool" where
  "deq x y \<longleftrightarrow> x \<noteq> NaN \<and> x = y"

definition at_touch :: "bool \<Rightarrow> Router \<Rightarrow> Venue list" where
  "at_touch is_buy r = active_with (\<lambda>v. v_size is_buy v > 0 \<and> deq (quote_px is_buy v) (if is_buy then national_best_ask r else national_best_bid r)) r"

definition sum64 :: "('a \<Rightarrow> int) \<Rightarrow> 'a list \<Rightarrow> int" where
  "sum64 f xs = fold (\<lambda>x s. s64 (s + f x)) xs 0"

definition nbbo_imbalance :: "Router \<Rightarrow> dbl" where
  "nbbo_imbalance r = (if dle (national_best_bid r) (Fin 0) \<or> dle (national_best_ask r) (Fin 0) then Fin 0
     else let b = sum64 v_bid_size (at_touch False r); a = sum64 v_ask_size (at_touch True r)
          in if s64 (b + a) > 0 then ddiv (d_of_int (s64 (b - a))) (d_of_int (s64 (b + a))) else Fin 0)"

definition nbbo_locked :: "Router \<Rightarrow> bool" where
  "nbbo_locked r \<longleftrightarrow> both_quoted r \<and> deq (national_best_bid r) (national_best_ask r)"

definition nbbo_crossed :: "Router \<Rightarrow> bool" where
  "nbbo_crossed r \<longleftrightarrow> both_quoted r \<and> dlt (national_best_ask r) (national_best_bid r)"

definition internally_crossed_count :: "Router \<Rightarrow> nat" where
  "internally_crossed_count r = length (active_with (\<lambda>v. dlt (Fin 0) (v_best_bid v) \<and> dlt (Fin 0) (v_best_ask v) \<and> dlt (v_best_ask v) (v_best_bid v)) r)"

definition venues_at_nbbo :: "bool \<Rightarrow> Router \<Rightarrow> nat" where
  "venues_at_nbbo bid_side r = (if dle (if bid_side then national_best_bid r else national_best_ask r) (Fin 0) then 0 else length (at_touch (\<not> bid_side) r))"

definition nbbo_depth :: "bool \<Rightarrow> Router \<Rightarrow> int" where
  "nbbo_depth is_buy r = (if dle (if is_buy then national_best_ask r else national_best_bid r) (Fin 0) then 0
     else sum64 (v_size is_buy) (at_touch is_buy r))"

definition nbbo_depth_notional :: "bool \<Rightarrow> Router \<Rightarrow> dbl" where
  "nbbo_depth_notional is_buy r = (let best = (if is_buy then national_best_ask r else national_best_bid r)
     in if dle best (Fin 0) then Fin 0 else dmul (d_of_int (nbbo_depth is_buy r)) best)"

section \<open>Liquidity\<close>

definition quoting :: "bool \<Rightarrow> Router \<Rightarrow> Venue list" where
  "quoting is_buy r = active_with (has_liq is_buy) r"

definition available_liquidity :: "bool \<Rightarrow> Router \<Rightarrow> int" where
  "available_liquidity is_buy r = sum_sizes is_buy (quoting is_buy r)"

definition fresh_available_liquidity :: "bool \<Rightarrow> int \<Rightarrow> int \<Rightarrow> Router \<Rightarrow> int" where
  "fresh_available_liquidity is_buy max_age now r = sum_sizes is_buy (filter (is_fresh max_age now) (quoting is_buy r))"

definition available_liquidity_notional :: "bool \<Rightarrow> Router \<Rightarrow> dbl" where
  "available_liquidity_notional is_buy r = sum_dbl (\<lambda>v. dmul (quote_px is_buy v) (d_of_int (v_size is_buy v))) (quoting is_buy r)"

definition touch_concentration :: "bool \<Rightarrow> Router \<Rightarrow> dbl" where
  "touch_concentration is_buy r = ratio (nbbo_depth is_buy r) (available_liquidity is_buy r)"

definition active_venue_count :: "Router \<Rightarrow> nat" where
  "active_venue_count r = length (active_with (\<lambda>v. True) r)"

definition two_sided_venue_count :: "Router \<Rightarrow> nat" where
  "two_sided_venue_count r = length (active_with (\<lambda>v. has_liq False v \<and> has_liq True v) r)"

definition liquidity_venue_count :: "bool \<Rightarrow> Router \<Rightarrow> nat" where
  "liquidity_venue_count is_buy r = length (quoting is_buy r)"

definition cheapest :: "bool \<Rightarrow> Router \<Rightarrow> Venue option" where
  "cheapest is_buy r = best_by (better is_buy) (effective_price is_buy) (quoting is_buy r)"

definition best_effective_price :: "bool \<Rightarrow> Router \<Rightarrow> dbl" where
  "best_effective_price is_buy r = key_or0 (effective_price is_buy) (cheapest is_buy r)"

definition cheapest_venue :: "bool \<Rightarrow> Router \<Rightarrow> string option" where
  "cheapest_venue is_buy r = name_of (cheapest is_buy r)"

definition most_expensive_venue :: "bool \<Rightarrow> Router \<Rightarrow> string option" where
  "most_expensive_venue is_buy r = name_of (best_by (\<lambda>x y. better is_buy y x) (effective_price is_buy) (quoting is_buy r))"

definition effective_price_dispersion :: "bool \<Rightarrow> Router \<Rightarrow> dbl" where
  "effective_price_dispersion is_buy r = (let vs = quoting is_buy r; e = effective_price is_buy
     in if length vs \<ge> 2 then dsub (key_or0 e (best_by (\<lambda>x y. dlt y x) e vs)) (key_or0 e (best_by dlt e vs)) else Fin 0)"

definition effective_spread_bps :: "Router \<Rightarrow> dbl" where
  "effective_spread_bps r = (let a = best_effective_price True r; b = best_effective_price False r
     in if dle a (Fin 0) \<or> dle b (Fin 0) then Fin 0
        else let m = ddiv (dadd a b) (Fin 2) in if dlt (Fin 0) m then bps_of (dsub a b) m else Fin 0)"

definition sr_is_marketable :: "bool \<Rightarrow> dbl \<Rightarrow> Router \<Rightarrow> bool" where
  "sr_is_marketable is_buy limit r = (let best = best_effective_price is_buy r
     in \<not> dle best (Fin 0) \<and> (if is_buy then dle best limit else dle limit best))"

definition within_limit :: "bool \<Rightarrow> dbl \<Rightarrow> Venue \<Rightarrow> bool" where
  "within_limit is_buy limit v = (if is_buy then dle (effective_price is_buy v) limit else dle limit (effective_price is_buy v))"

definition liquidity_at_limit :: "bool \<Rightarrow> dbl \<Rightarrow> Router \<Rightarrow> int" where
  "liquidity_at_limit is_buy limit r = sum_sizes is_buy (filter (within_limit is_buy limit) (quoting is_buy r))"

definition venue_effective_price :: "string \<Rightarrow> bool \<Rightarrow> Router \<Rightarrow> dbl" where
  "venue_effective_price n is_buy r = (case venue_of n r of None \<Rightarrow> Fin 0
     | Some v \<Rightarrow> if v_active v \<and> has_liq is_buy v then effective_price is_buy v else Fin 0)"

definition rebate_venue_count :: "Router \<Rightarrow> nat" where
  "rebate_venue_count r = length (active_with (\<lambda>v. dlt (v_fee v) (Fin 0)) r)"

definition avg_venue_fee :: "Router \<Rightarrow> dbl" where
  "avg_venue_fee r = (let vs = active_with (\<lambda>v. True) r in if vs = [] then Fin 0 else ddiv (sum_dbl v_fee vs) (d_of_int (int (length vs))))"

definition fee_of :: "Venue option \<Rightarrow> (string \<times> dbl) option" where
  "fee_of = map_option (\<lambda>v. (v_name v, v_fee v))"

definition cheapest_fee_venue :: "Router \<Rightarrow> (string \<times> dbl) option" where
  "cheapest_fee_venue r = fee_of (best_by dlt v_fee (active_with (\<lambda>v. True) r))"

definition dearest_fee_venue :: "Router \<Rightarrow> (string \<times> dbl) option" where
  "dearest_fee_venue r = fee_of (best_by (\<lambda>x y. dlt y x) v_fee (active_with (\<lambda>v. True) r))"

definition deepest_venue :: "bool \<Rightarrow> Router \<Rightarrow> string option" where
  "deepest_venue is_buy r = name_of (best_by (>) (v_size is_buy) (quoting is_buy r))"

definition fastest_venue :: "Router \<Rightarrow> string option" where
  "fastest_venue r = name_of (best_by (<) selection_latency_ns (active_with (\<lambda>v. True) r))"

definition slowest_venue :: "Router \<Rightarrow> string option" where
  "slowest_venue r = name_of (best_by (>) selection_latency_ns (active_with (\<lambda>v. True) r))"

definition avg_venue_latency_ns :: "Router \<Rightarrow> dbl" where
  "avg_venue_latency_ns r = (let vs = active_with (\<lambda>v. True) r in ratio (sum64 selection_latency_ns vs) (int (length vs)))"

definition venue_latency_spread_ns :: "Router \<Rightarrow> int" where
  "venue_latency_spread_ns r = (let vs = active_with (\<lambda>v. True) r
     in case (best_by (>) selection_latency_ns vs, best_by (<) selection_latency_ns vs) of
       (Some hi, Some lo) \<Rightarrow> s64 (selection_latency_ns hi - selection_latency_ns lo) | _ \<Rightarrow> 0)"

definition sr_fill_shortfall :: "bool \<Rightarrow> int \<Rightarrow> Router \<Rightarrow> int" where
  "sr_fill_shortfall is_buy shares r = (let avail = available_liquidity is_buy r in if shares > avail then s32 (shares - avail) else 0)"

definition fillable_ratio :: "bool \<Rightarrow> int \<Rightarrow> Router \<Rightarrow> dbl" where
  "fillable_ratio is_buy shares r = (if shares \<le> 0 then Fin 0
     else ddiv (d_of_int (min (available_liquidity is_buy r) shares)) (d_of_int shares))"

definition venue_liquidity_share :: "string \<Rightarrow> bool \<Rightarrow> Router \<Rightarrow> dbl" where
  "venue_liquidity_share n is_buy r = (let t = available_liquidity is_buy r
     in if t \<le> 0 then Fin 0 else case venue_of n r of None \<Rightarrow> Fin 0
       | Some v \<Rightarrow> if \<not> v_active v then Fin 0
           else dmul (ddiv (d_of_int (if has_liq is_buy v then v_size is_buy v else 0)) (d_of_int t)) (Fin 100))"

section \<open>Planned sweeps\<close>

text \<open>
  One pass of a sweep: the best venue not yet used that the sweep admits.  \<open>sweep_pick\<close> is the inner
  loop, over the positions of the venues.
\<close>

definition sweep_pick :: "(Venue \<Rightarrow> bool) \<Rightarrow> (Venue \<Rightarrow> dbl) \<Rightarrow> bool \<Rightarrow> nat list \<Rightarrow> Venue list \<Rightarrow> nat option" where
  "sweep_pick ok key is_buy used vs =
     (case filter (\<lambda>i. i \<notin> set used \<and> ok (vs ! i)) [0..<length vs] of [] \<Rightarrow> None
      | i # is \<Rightarrow> Some (pick_first (\<lambda>j k. better is_buy (key (vs ! j)) (key (vs ! k))) i is))"

record sweep_acc =
  sw_remaining :: int
  sw_filled :: int
  sw_notional :: dbl
  sw_used :: "nat list"

fun sweep_loop :: "nat \<Rightarrow> (Venue \<Rightarrow> bool) \<Rightarrow> (Venue \<Rightarrow> dbl) \<Rightarrow> bool \<Rightarrow> Venue list \<Rightarrow> sweep_acc \<Rightarrow> sweep_acc" where
  "sweep_loop 0 ok key is_buy vs s = s"
| "sweep_loop (Suc n) ok key is_buy vs s =
     (if sw_remaining s > 0
      then case sweep_pick ok key is_buy (sw_used s) vs of None \<Rightarrow> s
        | Some i \<Rightarrow> let t = (if sw_remaining s < v_size is_buy (vs ! i) then sw_remaining s else v_size is_buy (vs ! i))
            in sweep_loop n ok key is_buy vs (s\<lparr>sw_remaining := s32 (sw_remaining s - t), sw_filled := s32 (sw_filled s + t),
                 sw_notional := dadd (sw_notional s) (dmul (key (vs ! i)) (d_of_int t)), sw_used := i # sw_used s\<rparr>)
      else s)"

definition sweep_plan :: "(Venue \<Rightarrow> bool) \<Rightarrow> (Venue \<Rightarrow> dbl) \<Rightarrow> bool \<Rightarrow> int \<Rightarrow> Router \<Rightarrow> sweep_acc" where
  "sweep_plan ok key is_buy shares r = sweep_loop (length (sr_venues r)) ok key is_buy (sr_venues r)
     \<lparr>sw_remaining = shares, sw_filled = 0, sw_notional = Fin 0, sw_used = []\<rparr>"

definition sweep_result :: "sweep_acc \<Rightarrow> int \<times> dbl" where
  "sweep_result s = (sw_filled s, if sw_filled s > 0 then ddiv (sw_notional s) (d_of_int (sw_filled s)) else Fin 0)"

text \<open>\<open>px <= 0.0 || sz <= 0\<close> is skipped; a price that is not a number is not.\<close>

definition sweepable :: "bool \<Rightarrow> Venue \<Rightarrow> bool" where
  "sweepable is_buy v \<longleftrightarrow> v_active v \<and> \<not> dle (quote_px is_buy v) (Fin 0) \<and> \<not> v_size is_buy v \<le> 0"

definition past_limit :: "bool \<Rightarrow> dbl \<Rightarrow> Venue \<Rightarrow> bool" where
  "past_limit is_buy limit v = (if is_buy then dlt limit (effective_price is_buy v) else dlt (effective_price is_buy v) limit)"

definition sweep_to_fill :: "bool \<Rightarrow> int \<Rightarrow> Router \<Rightarrow> int \<times> dbl" where
  "sweep_to_fill is_buy shares r = (if shares \<le> 0 then (0, Fin 0) else sweep_result (sweep_plan (sweepable is_buy) (quote_px is_buy) is_buy shares r))"

definition sweep_to_fill_fresh :: "bool \<Rightarrow> int \<Rightarrow> int \<Rightarrow> int \<Rightarrow> Router \<Rightarrow> int \<times> dbl" where
  "sweep_to_fill_fresh is_buy shares max_age now r = (if shares \<le> 0 then (0, Fin 0)
     else sweep_result (sweep_plan (\<lambda>v. sweepable is_buy v \<and> is_fresh max_age now v) (quote_px is_buy) is_buy shares r))"

definition sweep_to_fill_at_limit :: "bool \<Rightarrow> int \<Rightarrow> dbl \<Rightarrow> Router \<Rightarrow> int \<times> dbl" where
  "sweep_to_fill_at_limit is_buy shares limit r = (if shares \<le> 0 then (0, Fin 0)
     else sweep_result (sweep_plan (\<lambda>v. sweepable is_buy v \<and> \<not> past_limit is_buy limit v) (effective_price is_buy) is_buy shares r))"

definition venues_to_fill_at_limit :: "bool \<Rightarrow> int \<Rightarrow> dbl \<Rightarrow> Router \<Rightarrow> int" where
  "venues_to_fill_at_limit is_buy shares limit r = (if shares \<le> 0 then 0
     else let s = sweep_plan (\<lambda>v. sweepable is_buy v \<and> \<not> past_limit is_buy limit v) (effective_price is_buy) is_buy shares r
          in if sw_remaining s > 0 then - 1 else int (length (sw_used s)))"

definition venues_to_fill :: "bool \<Rightarrow> int \<Rightarrow> Router \<Rightarrow> int" where
  "venues_to_fill is_buy shares r = (if shares \<le> 0 then 0
     else let s = sweep_plan (sweepable is_buy) (quote_px is_buy) is_buy shares r
          in if sw_remaining s \<le> 0 then int (length (sw_used s)) else - 1)"

definition sweep_slippage_bps :: "bool \<Rightarrow> int \<Rightarrow> Router \<Rightarrow> dbl" where
  "sweep_slippage_bps is_buy shares r =
     (let (filled, vwap) = sweep_to_fill is_buy shares r; m = nbbo_mid r
      in if filled \<le> 0 \<or> dle vwap (Fin 0) \<or> dle m (Fin 0) then Fin 0 else bps_of (if is_buy then dsub vwap m else dsub m vwap) m)"

section \<open>What was routed\<close>

definition venue_routed_shares :: "string \<Rightarrow> Router \<Rightarrow> int" where
  "venue_routed_shares n r = (case venue_of n r of Some v \<Rightarrow> v_routed v | None \<Rightarrow> 0)"

definition venue_route_count :: "string \<Rightarrow> Router \<Rightarrow> int" where
  "venue_route_count n r = (case venue_of n r of Some v \<Rightarrow> s64 (v_routes v) | None \<Rightarrow> - 1)"

definition avg_route_size :: "string \<Rightarrow> Router \<Rightarrow> dbl" where
  "avg_route_size n r = (case venue_of n r of Some v \<Rightarrow> ratio (v_routed v) (v_routes v) | None \<Rightarrow> Fin 0)"

definition total_routed_shares :: "Router \<Rightarrow> int" where
  "total_routed_shares r = sum64 v_routed (sr_venues r)"

definition venue_share_pct :: "string \<Rightarrow> Router \<Rightarrow> dbl" where
  "venue_share_pct n r = (let t = total_routed_shares r in if t \<le> 0 then Fin 0 else dmul (ddiv (d_of_int (venue_routed_shares n r)) (d_of_int t)) (Fin 100))"

text \<open>The sum of squared shares of a total.\<close>

definition hhi :: "(Venue \<Rightarrow> int) \<Rightarrow> int \<Rightarrow> Venue list \<Rightarrow> dbl" where
  "hhi f t vs = (if t \<le> 0 then Fin 0 else sum_dbl (\<lambda>v. let s = ddiv (d_of_int (f v)) (d_of_int t) in dmul s s) vs)"

definition routing_concentration :: "Router \<Rightarrow> dbl" where
  "routing_concentration r = hhi v_routed (total_routed_shares r) (sr_venues r)"

definition liquidity_concentration :: "bool \<Rightarrow> Router \<Rightarrow> dbl" where
  "liquidity_concentration is_buy r = hhi (v_size is_buy) (available_liquidity is_buy r) (quoting is_buy r)"

definition busiest_venue :: "Router \<Rightarrow> (string \<times> int) option" where
  "busiest_venue r = map_option (\<lambda>v. (v_name v, v_routed v)) (best_by (>) v_routed (filter (\<lambda>v. v_routed v > 0) (sr_venues r)))"

definition most_chosen_venue :: "Router \<Rightarrow> (string \<times> int) option" where
  "most_chosen_venue r = map_option (\<lambda>v. (v_name v, s64 (v_routes v))) (best_by (>) v_routes (filter (\<lambda>v. v_routes v > 0) (sr_venues r)))"

definition idle_venue_count :: "bool \<Rightarrow> Router \<Rightarrow> nat" where
  "idle_venue_count is_buy r = length (filter (\<lambda>v. v_routed v = 0) (quoting is_buy r))"

definition avg_fee_per_share :: "Router \<Rightarrow> dbl" where
  "avg_fee_per_share r = (let t = total_routed_shares r in if t > 0 then ddiv (sr_fees r) (d_of_int t) else Fin 0)"

definition sr_reject_rate :: "Router \<Rightarrow> dbl" where
  "sr_reject_rate r = ratio (sr_rejected r) (u64 (sr_routes r + sr_rejected r))"

definition avg_routing_latency_ns :: "Router \<Rightarrow> dbl" where
  "avg_routing_latency_ns r = ratio (sr_latency r) (sr_routes r)"

definition route_shortfall_rate :: "Router \<Rightarrow> dbl" where
  "route_shortfall_rate r = ratio (sr_unfilled r) (s64 (total_routed_shares r + sr_unfilled r))"

definition avg_routed_price :: "Router \<Rightarrow> dbl" where
  "avg_routed_price r = (let t = total_routed_shares r in if t > 0 then ddiv (sr_notional r) (d_of_int t) else Fin 0)"

definition fee_bps_of_routed_notional :: "Router \<Rightarrow> dbl" where
  "fee_bps_of_routed_notional r = (if dlt (Fin 0) (sr_notional r) then bps_of (sr_fees r) (sr_notional r) else Fin 0)"

end
