(* ===== verification/Router_Props.thy ===== *)
theory Router_Props
  imports Router_Reads "HOL-Library.Multiset"
begin

text \<open>
  Properties of the router: a split order goes to the cheapest venues first and takes what they show,
  no share is lost between what was asked, routed and left over, and the planned sweeps agree with
  the liquidity read-outs and with what a split order does.
\<close>

section \<open>Choosing the best\<close>

text \<open>
  A strict comparison on the elements that can be compared: a strict weak order.  Sorting and picking
  only rely on it.
\<close>

locale ranking =
  fixes bt :: "'a \<Rightarrow> 'a \<Rightarrow> bool" and good :: "'a \<Rightarrow> bool"
  assumes asym: "good x \<Longrightarrow> good y \<Longrightarrow> bt x y \<Longrightarrow> \<not> bt y x"
    and not_trans: "good x \<Longrightarrow> good y \<Longrightarrow> good z \<Longrightarrow> \<not> bt x y \<Longrightarrow> \<not> bt y z \<Longrightarrow> \<not> bt x z"
begin

lemma not_self: "good x \<Longrightarrow> \<not> bt x x"
  using asym by blast

lemma exchange_best:
  assumes "exchange bt x ys = (z, zs)" "\<forall>y \<in> set (x # ys). good y"
  shows "mset (z # zs) = mset (x # ys)" "\<forall>y \<in> set zs. \<not> bt y z"
proof -
  have "mset (z # zs) = mset (x # ys) \<and> (\<forall>y \<in> set zs. \<not> bt y z)"
    using assms
  proof (induction ys arbitrary: x z zs)
    case (Cons y ys)
    define w where "w = (if bt y x then y else x)" define l where "l = (if bt y x then x else y)"
    obtain zs' where e: "exchange bt w ys = (z, zs')" "zs = l # zs'"
      using Cons.prems(1) by (cases "exchange bt w ys") (auto simp: w_def l_def split: if_splits prod.splits)
    have g: "\<forall>y \<in> set (w # ys). good y" "good l" "good w" using Cons.prems(2) by (simp_all add: w_def l_def)
    note I = Cons.IH [OF e(1) g(1)]
    have s: "set (z # zs') = set (w # ys)" using I by (metis set_mset_mset)
    have "\<not> bt l w" using asym not_self Cons.prems(2) by (auto simp: w_def l_def)
    moreover have "\<not> bt w z"
    proof (cases "w = z")
      case False
      then have "w \<in> set zs'" using s by auto
      then show ?thesis using I by blast
    qed (use not_self g(3) in simp)
    moreover have "good z" using s g(1) by auto
    ultimately have "\<not> bt l z" using not_trans g(2,3) by blast
    then show ?case using I by (auto simp: e(2) w_def l_def)
  qed simp
  then show "mset (z # zs) = mset (x # ys)" "\<forall>y \<in> set zs. \<not> bt y z" by simp_all
qed

lemma exchange_sorts:
  assumes "\<forall>x \<in> set xs. good x"
  shows "mset (exchange_sort bt xs) = mset xs" "sorted_wrt (\<lambda>a b. \<not> bt b a) (exchange_sort bt xs)"
proof -
  have "mset (exchange_sort bt xs) = mset xs \<and> sorted_wrt (\<lambda>a b. \<not> bt b a) (exchange_sort bt xs)"
    using assms
  proof (induction "length xs" arbitrary: xs)
    case (Suc n)
    obtain x ys where xs: "xs = x # ys" using Suc.hyps(2) by (cases xs) auto
    obtain z zs where e: "exchange bt x ys = (z, zs)" by fastforce
    note E = exchange_best [OF e, unfolded xs [symmetric], OF Suc.prems]
    have l: "n = length zs" using E(1) Suc.hyps(2) by (metis length_Cons nat.inject size_mset)
    have g: "\<forall>x \<in> set zs. good x" using E(1) Suc.prems by (metis list.set_intros(2) set_mset_mset)
    note I = Suc.hyps(1) [OF l g]
    have "set (exchange_sort bt zs) = set zs" using I by (metis set_mset_mset)
    then show ?case using I E by (simp add: xs e)
  qed simp
  then show "mset (exchange_sort bt xs) = mset xs" "sorted_wrt (\<lambda>a b. \<not> bt b a) (exchange_sort bt xs)" by simp_all
qed

lemma pick_first_best:
  assumes "\<forall>y \<in> set (x # ys). good y"
  shows "pick_first bt x ys \<in> set (x # ys)" "\<forall>y \<in> set (x # ys). \<not> bt y (pick_first bt x ys)"
proof -
  have "pick_first bt x ys \<in> set (x # ys) \<and> (\<forall>y \<in> set (x # ys). \<not> bt y (pick_first bt x ys))"
    using assms
  proof (induction ys arbitrary: x)
    case (Cons y ys)
    define w where "w = (if bt y x then y else x)" define l where "l = (if bt y x then x else y)"
    have g: "\<forall>y \<in> set (w # ys). good y" "good l" "good w" using Cons.prems by (simp_all add: w_def l_def)
    note I = Cons.IH [OF g(1)]
    have "\<not> bt l w" using asym not_self Cons.prems by (auto simp: w_def l_def)
    then have "\<not> bt l (pick_first bt w ys)" using not_trans [OF g(2,3)] I g by (metis list.set_intros(1))
    then show ?case using I by (auto simp: w_def l_def split: if_splits)
  qed (simp add: not_self)
  then show "pick_first bt x ys \<in> set (x # ys)" "\<forall>y \<in> set (x # ys). \<not> bt y (pick_first bt x ys)" by simp_all
qed

end

lemma dlt_asym: "dlt x y \<Longrightarrow> \<not> dlt y x"
  by (cases x; cases y) auto

lemma dlt_not_trans: "y \<noteq> NaN \<Longrightarrow> \<not> dlt x y \<Longrightarrow> \<not> dlt y z \<Longrightarrow> \<not> dlt x z"
  by (cases x; cases y; cases z) auto

interpretation price: ranking "by_price is_buy r" "\<lambda>i. effective_price is_buy (sr_venues r ! i) \<noteq> NaN" for is_buy r
  by unfold_locales (auto simp: by_price_def better_def dest: dlt_asym dlt_not_trans split: if_splits)

interpretation latency: ranking "\<lambda>i j. selection_latency_ns (vs ! i) < selection_latency_ns (vs ! j)" "\<lambda>i. True" for vs
  by unfold_locales auto

section \<open>The allocation of a split order\<close>

text \<open>What venue \<open>i\<close> is given when \<open>q\<close> shares are spread over the venues of a list in turn.\<close>

fun grant :: "(nat \<Rightarrow> int) \<Rightarrow> int \<Rightarrow> nat list \<Rightarrow> nat \<Rightarrow> int" where
  "grant sz q [] i = 0"
| "grant sz q (c # cs) i = (if i = c then min q (sz c) else grant sz (q - min q (sz c)) cs i)"

lemma grant_outside: "i \<notin> set cs \<Longrightarrow> grant sz q cs i = 0"
  by (induction cs arbitrary: q) auto

lemma grant_bounds: "0 \<le> q \<Longrightarrow> \<forall>c \<in> set cs. 0 \<le> sz c \<Longrightarrow> 0 \<le> grant sz q cs i \<and> (i \<in> set cs \<longrightarrow> grant sz q cs i \<le> sz i)"
  by (induction cs arbitrary: q) auto

lemma grant_none: "\<forall>c \<in> set cs. 0 \<le> sz c \<Longrightarrow> grant sz 0 cs i = 0"
  by (induction cs) auto

lemma grant_sum:
  assumes "0 \<le> q" "\<forall>c \<in> set cs. 0 \<le> sz c" "distinct cs"
  shows "(\<Sum>i \<in> set cs. grant sz q cs i) = min q (\<Sum>i \<in> set cs. sz i)"
  using assms
proof (induction cs arbitrary: q)
  case (Cons c cs)
  have n: "0 \<le> (\<Sum>i \<in> set cs. sz i)" using Cons.prems(2) by (intro sum_nonneg) simp
  have "(\<Sum>i \<in> set cs. grant sz q (c # cs) i) = (\<Sum>i \<in> set cs. grant sz (q - min q (sz c)) cs i)"
    using Cons.prems(3) by (intro sum.cong) auto
  also have "\<dots> = min (q - min q (sz c)) (\<Sum>i \<in> set cs. sz i)" using Cons.prems by (intro Cons.IH) auto
  finally show ?case using Cons.prems n by (simp add: min_def)
qed simp

lemma grant_priority:
  assumes "\<forall>c \<in> set cs. 0 \<le> sz c" "distinct cs"
  shows "sorted_wrt (\<lambda>a b. grant sz q cs b > 0 \<longrightarrow> grant sz q cs a = sz a) cs"
  using assms
proof (induction cs arbitrary: q)
  case (Cons c cs)
  have "grant sz q (c # cs) c = sz c" if "b \<in> set cs" "grant sz q (c # cs) b > 0" for b
  proof (rule ccontr)
    assume "grant sz q (c # cs) c \<noteq> sz c"
    then have "q - min q (sz c) = 0" by (simp add: min_def split: if_splits)
    then show False using that grant_none [of cs sz b] Cons.prems by (auto split: if_splits)
  qed
  moreover have "sorted_wrt (\<lambda>a b. grant sz q (c # cs) b > 0 \<longrightarrow> grant sz q (c # cs) a = sz a) cs"
    using Cons.IH [of "q - min q (sz c)"] Cons.prems by (auto elim!: sorted_wrt_mono_rel [rotated])
  ultimately show ?case by simp
qed simp

definition size_at :: "bool \<Rightarrow> Router \<Rightarrow> nat \<Rightarrow> int" where
  "size_at is_buy r i = v_size is_buy (sr_venues r ! i)"

lemma note_routed_frame:
  "length (sr_venues (note_routed i n r)) = length (sr_venues r)" "size_at is_buy (note_routed i n r) = size_at is_buy r"
  "sr_unfilled (note_routed i n r) = sr_unfilled r"
  "i < length (sr_venues r) \<Longrightarrow> v_routed (sr_venues (note_routed i n r) ! j) = (if j = i then s64 (v_routed (sr_venues r ! i) + n) else v_routed (sr_venues r ! j))"
proof -
  show "size_at is_buy (note_routed i n r) = size_at is_buy r"
  proof
    fix j
    show "size_at is_buy (note_routed i n r) j = size_at is_buy r j"
      by (cases "i < length (sr_venues r)") (auto simp: size_at_def note_routed_def v_size_def nth_list_update list_update_beyond)
  qed
qed (auto simp: note_routed_def)

lemma split_loop_grant:
  assumes "distinct cs" "\<forall>c \<in> set cs. c < length (sr_venues (sp_router s)) \<and> 0 < size_at is_buy (sp_router s) c"
    and "0 \<le> sp_remaining s" "0 \<le> sp_filled s" "sp_filled s + sp_remaining s < 2 ^ 31"
  shows "let s' = split_loop is_buy cs s; sz = size_at is_buy (sp_router s) in
      sp_filled s' = sp_filled s + min (sp_remaining s) (\<Sum>c \<in> set cs. sz c)
    \<and> length (sr_venues (sp_router s')) = length (sr_venues (sp_router s)) \<and> sr_unfilled (sp_router s') = sr_unfilled (sp_router s)
    \<and> (\<forall>i. s64 (v_routed (sr_venues (sp_router s') ! i)) = s64 (v_routed (sr_venues (sp_router s) ! i) + grant sz (sp_remaining s) cs i))"
  using assms
proof (induction cs arbitrary: s)
  case (Cons c cs)
  let ?sz = "size_at is_buy (sp_router s)"
  have n: "0 \<le> (\<Sum>i \<in> set cs. ?sz i)" using Cons.prems(2) by (intro sum_nonneg) (simp add: less_imp_le)
  have c: "c < length (sr_venues (sp_router s))" "0 < ?sz c" "c \<notin> set cs" "distinct cs" using Cons.prems(1,2) by simp_all
  show ?case
  proof (cases "sp_remaining s > 0")
    case False
    then have r: "sp_remaining s = 0" using Cons.prems(3) by simp
    have "\<forall>c' \<in> set (c # cs). 0 \<le> ?sz c'" using Cons.prems(2) by (simp add: less_imp_le)
    from grant_none [OF this] r show ?thesis using n c(2,3) by (simp add: Let_def del: grant.simps)
  next
    case True
    define a where "a = min (sp_remaining s) (?sz c)"
    define t where "t = s\<lparr>sp_price := dadd (sp_price s) (dmul (quote_px is_buy (sr_venues (sp_router s) ! c)) (d_of_int a)),
        sp_fee := dadd (sp_fee s) (dmul (v_fee (sr_venues (sp_router s) ! c)) (d_of_int a)), sp_filled := s32 (sp_filled s + a),
        sp_remaining := s32 (sp_remaining s - a), sp_router := note_routed c a (sp_router s), sp_used := sp_used s + 1\<rparr>"
    have a: "0 < a" "a \<le> sp_remaining s" using True c(2) by (simp_all add: a_def)
    have w: "s32 (sp_filled s + a) = sp_filled s + a" "s32 (sp_remaining s - a) = sp_remaining s - a"
      using a Cons.prems(3-5) by (simp_all add: s32_id)
    have l: "split_loop is_buy (c # cs) s = split_loop is_buy cs t"
      using True a(1) by (simp add: Let_def a_def t_def size_at_def not_le)
    have t: "sp_remaining t = sp_remaining s - a" "sp_filled t = sp_filled s + a" "size_at is_buy (sp_router t) = ?sz"
      "length (sr_venues (sp_router t)) = length (sr_venues (sp_router s))" "sr_unfilled (sp_router t) = sr_unfilled (sp_router s)"
      "\<And>i. v_routed (sr_venues (sp_router t) ! i) = (if i = c then s64 (v_routed (sr_venues (sp_router s) ! c) + a) else v_routed (sr_venues (sp_router s) ! i))"
      by (simp_all add: t_def w note_routed_frame c(1))
    have I: "sp_filled (split_loop is_buy cs t) = sp_filled t + min (sp_remaining t) (\<Sum>c \<in> set cs. ?sz c)"
      "length (sr_venues (sp_router (split_loop is_buy cs t))) = length (sr_venues (sp_router t))"
      "sr_unfilled (sp_router (split_loop is_buy cs t)) = sr_unfilled (sp_router t)"
      "\<And>i. s64 (v_routed (sr_venues (sp_router (split_loop is_buy cs t)) ! i)) = s64 (v_routed (sr_venues (sp_router t) ! i) + grant ?sz (sp_remaining t) cs i)"
      using Cons.IH [of t] Cons.prems(2-5) c(4) a by (simp_all add: Let_def t)
    have "s64 (v_routed (sr_venues (sp_router (split_loop is_buy cs t)) ! i)) = s64 (v_routed (sr_venues (sp_router s) ! i) + grant ?sz (sp_remaining s) (c # cs) i)" for i
      using I(4) [of i] grant_outside [of c cs] c(3) by (simp add: t wrap_simps a_def [symmetric])
    then show ?thesis unfolding l Let_def using I(1-3) t c(2,3) n a by (simp add: min_def a_def split: if_splits)
  qed
qed simp

section \<open>Routes\<close>

lemma candidates_props:
  "distinct (candidates is_buy r)"
  "c \<in> set (candidates is_buy r) \<longleftrightarrow> c < length (sr_venues r) \<and> v_active (sr_venues r ! c) \<and> has_liq is_buy (sr_venues r ! c)"
  by (auto simp: candidates_def)

lemma has_liq_size: "has_liq is_buy v \<Longrightarrow> 0 < v_size is_buy v"
  by (auto simp: has_liq_def v_size_def split: if_splits)

lemma book_stats_frame:
  "sr_venues (book_stats d r) = sr_venues r" "sr_unfilled (book_stats d r) = s64 (sr_unfilled r + d_unfilled d)"
  by (simp_all add: book_stats_def)

definition sorted_candidates :: "bool \<Rightarrow> Router \<Rightarrow> nat list" where
  "sorted_candidates is_buy r = exchange_sort (by_price is_buy r) (candidates is_buy r)"

text \<open>The sort only moves elements, whatever it compares.\<close>

lemma exchange_mset: "mset (fst (exchange bt x ys) # snd (exchange bt x ys)) = mset (x # ys)"
  by (induction bt x ys rule: exchange.induct) (auto simp: split_beta add_mset_commute)

lemma exchange_sort_mset: "mset (exchange_sort bt xs) = mset xs"
proof (induction bt xs rule: exchange_sort.induct)
  case (2 bt x xs)
  then show ?case using exchange_mset [of bt x xs] by (cases "exchange bt x xs") simp
qed simp

lemma sorted_candidates_set: "set (sorted_candidates is_buy r) = set (candidates is_buy r)" "distinct (sorted_candidates is_buy r)"
proof -
  have m: "mset (sorted_candidates is_buy r) = mset (candidates is_buy r)" by (simp add: sorted_candidates_def exchange_sort_mset)
  show "set (sorted_candidates is_buy r) = set (candidates is_buy r)" using m by (metis set_mset_mset)
  show "distinct (sorted_candidates is_buy r)" using m candidates_props(1) mset_eq_imp_distinct_iff by blast
qed

text \<open>The shares of the candidates, and what a split order gives each of them.\<close>

definition cand_total :: "bool \<Rightarrow> Router \<Rightarrow> int" where
  "cand_total is_buy r = (\<Sum>c \<in> set (candidates is_buy r). size_at is_buy r c)"

lemma cand_size: "c \<in> set (candidates is_buy r) \<Longrightarrow> 0 < size_at is_buy r c"
  by (simp add: candidates_props size_at_def has_liq_size)

lemma cand_total_pos: "candidates is_buy r \<noteq> [] \<Longrightarrow> 0 < cand_total is_buy r"
  unfolding cand_total_def by (intro sum_pos) (auto simp: cand_size)

lemma split_result:
  assumes "candidates is_buy r \<noteq> []" "0 < q" "q < 2 ^ 31" "split_order t0 t1 (candidates is_buy r) is_buy q r = (r', d)"
  shows "d_valid d" "d_quantity d = min q (cand_total is_buy r)" "d_unfilled d = q - d_quantity d"
    "length (sr_venues r') = length (sr_venues r)" "sr_unfilled r' = s64 (sr_unfilled r + d_unfilled d)"
    "s64 (v_routed (sr_venues r' ! i)) = s64 (v_routed (sr_venues r ! i) + grant (size_at is_buy r) q (sorted_candidates is_buy r) i)"
proof -
  define s where "s = \<lparr>sp_router = r, sp_remaining = q, sp_filled = 0, sp_used = 0, sp_price = Fin 0, sp_fee = Fin 0\<rparr>"
  define s' where "s' = split_loop is_buy (sorted_candidates is_buy r) s"
  have c: "\<forall>c \<in> set (sorted_candidates is_buy r). c < length (sr_venues r) \<and> 0 < size_at is_buy r c"
    by (simp add: sorted_candidates_set cand_size) (simp add: candidates_props)
  have L: "sp_filled s' = min q (cand_total is_buy r)" "length (sr_venues (sp_router s')) = length (sr_venues r)" "sr_unfilled (sp_router s') = sr_unfilled r"
    "\<And>i. s64 (v_routed (sr_venues (sp_router s') ! i)) = s64 (v_routed (sr_venues r ! i) + grant (size_at is_buy r) q (sorted_candidates is_buy r) i)"
    using split_loop_grant [of "sorted_candidates is_buy r" s is_buy] c assms(2,3) sorted_candidates_set
    by (simp_all add: s_def s'_def Let_def cand_total_def)
  have f: "0 < sp_filled s'" "sp_filled s' \<le> q" using L(1) assms(2) cand_total_pos [OF assms(1)] by simp_all
  have u: "s32 (q - sp_filled s') = q - sp_filled s'" using f assms(3) by (simp add: s32_id)
  have e: "\<exists>d'. (r', d) = (book_stats d' (sp_router s'), d') \<and> d_valid d' \<and> d_quantity d' = sp_filled s' \<and> d_unfilled d' = q - sp_filled s'"
    using assms(4) f(1) u
    by (simp add: split_order_def Let_def sorted_candidates_def [symmetric] s_def [symmetric] s'_def [symmetric]) force
  then show "d_valid d" "d_quantity d = min q (cand_total is_buy r)" "d_unfilled d = q - d_quantity d"
    "length (sr_venues r') = length (sr_venues r)" "sr_unfilled r' = s64 (sr_unfilled r + d_unfilled d)"
    "s64 (v_routed (sr_venues r' ! i)) = s64 (v_routed (sr_venues r ! i) + grant (size_at is_buy r) q (sorted_candidates is_buy r) i)"
    using L by (auto simp: book_stats_frame)
qed

definition side_name :: "bool \<Rightarrow> string" where
  "side_name is_buy = (if is_buy then ''BUY'' else ''SELL'')"

text \<open>
  C18. A split order is executed at the cheapest venues: it fills the order or all the liquidity the
  candidates show, each venue is given no more than it shows, what the venues are given adds up to the
  quantity reported, and a venue gets shares only when every venue with a strictly better price after
  fees has given all it shows.  (No candidate's price after fees is NaN, and the quantity reaches the split threshold.)
\<close>

theorem route_split_optimal:
  assumes "candidates is_buy r \<noteq> []" "0 < q" "q < 2 ^ 31" "sr_threshold r \<le> q"
    and "\<forall>c \<in> set (candidates is_buy r). effective_price is_buy (sr_venues r ! c) \<noteq> NaN"
  shows "let (r', d) = route_order t0 t1 (side_name is_buy) q SPLIT r; cs = set (candidates is_buy r)
    in d_valid d \<and> d_quantity d = min q (\<Sum>c \<in> cs. size_at is_buy r c) \<and> d_unfilled d = q - d_quantity d
     \<and> (\<exists>alloc. (\<forall>i. s64 (v_routed (sr_venues r' ! i)) = s64 (v_routed (sr_venues r ! i) + alloc i))
          \<and> (\<forall>i. 0 \<le> alloc i \<and> (0 < alloc i \<longrightarrow> i \<in> cs \<and> alloc i \<le> size_at is_buy r i)) \<and> (\<Sum>i \<in> cs. alloc i) = d_quantity d
          \<and> (\<forall>i \<in> cs. \<forall>j \<in> cs. by_price is_buy r i j \<and> 0 < alloc j \<longrightarrow> alloc i = size_at is_buy r i))"
proof -
  let ?cs = "sorted_candidates is_buy r" let ?g = "grant (size_at is_buy r) q ?cs"
  obtain r' d where e: "split_order t0 t1 (candidates is_buy r) is_buy q r = (r', d)" by fastforce
  have ro: "route_order t0 t1 (side_name is_buy) q SPLIT r = (r', d)"
    using assms(1,4) e by (cases is_buy) (simp_all add: route_order_def side_name_def Let_def)
  note S = split_result [OF assms(1-3) e]
  have z: "\<forall>c \<in> set ?cs. 0 \<le> size_at is_buy r c" by (simp add: sorted_candidates_set cand_size less_imp_le)
  have b: "0 \<le> ?g i \<and> (0 < ?g i \<longrightarrow> i \<in> set (candidates is_buy r) \<and> ?g i \<le> size_at is_buy r i)" for i
    using grant_bounds [OF _ z, of q i] grant_outside [of i ?cs] assms(2) sorted_candidates_set(1) by fastforce
  have su: "(\<Sum>i \<in> set (candidates is_buy r). ?g i) = d_quantity d"
    using grant_sum [OF _ z sorted_candidates_set(2), of q] assms(2) S(2) by (simp add: sorted_candidates_set cand_total_def)
  have p: "?g i = size_at is_buy r i" if "i \<in> set (candidates is_buy r)" "j \<in> set (candidates is_buy r)" "by_price is_buy r i j" "0 < ?g j" for i j
  proof -
    note A = that
    have so: "sorted_wrt (\<lambda>a b. \<not> by_price is_buy r b a) ?cs" using price.exchange_sorts(2) [of "candidates is_buy r" is_buy r] assms(5) by (simp add: sorted_candidates_def)
    have pr: "sorted_wrt (\<lambda>a b. ?g b > 0 \<longrightarrow> ?g a = size_at is_buy r a) ?cs" by (rule grant_priority [OF z sorted_candidates_set(2)])
    obtain k l where kl: "k < length ?cs" "l < length ?cs" "?cs ! k = i" "?cs ! l = j" using A(1,2) sorted_candidates_set(1) by (metis in_set_conv_nth)
    have "k \<noteq> l" using kl A(3) price.not_self [of is_buy r i] assms(5) A(1) by auto
    moreover have "\<not> l < k" using so kl A(3) by (auto simp: sorted_wrt_iff_nth_less)
    ultimately have "k < l" by simp
    then show ?thesis using pr kl A(4) by (auto simp: sorted_wrt_iff_nth_less)
  qed
  have "\<exists>alloc. (\<forall>i. s64 (v_routed (sr_venues r' ! i)) = s64 (v_routed (sr_venues r ! i) + alloc i))
      \<and> (\<forall>i. 0 \<le> alloc i \<and> (0 < alloc i \<longrightarrow> i \<in> set (candidates is_buy r) \<and> alloc i \<le> size_at is_buy r i))
      \<and> (\<Sum>i \<in> set (candidates is_buy r). alloc i) = d_quantity d
      \<and> (\<forall>i \<in> set (candidates is_buy r). \<forall>j \<in> set (candidates is_buy r). by_price is_buy r i j \<and> 0 < alloc j \<longrightarrow> alloc i = size_at is_buy r i)"
    using S(6) b su p by (intro exI [of _ ?g]) blast
  then show ?thesis using S(1-3) by (simp add: ro cand_total_def)
qed

definition sample_router :: Router where
  "sample_router = update_quote 1 ''B'' (Fin 9) (Fin 11) 70 50 1 (update_quote 1 ''A'' (Fin 9) (Fin 10) 30 40 1
     (add_venue (venue0 ''B'' 5 (Fin 0)) (add_venue (venue0 ''A'' 5 (Fin 0)) (sr0 SPLIT 10))))"

theorem route_split_optimal_witness: "d_quantity (snd (route_order 0 1 (side_name True) 60 SPLIT sample_router)) = 60"
proof -
  have c: "candidates True sample_router = [0, 1]" by code_simp
  have "\<forall>c \<in> set (candidates True sample_router). effective_price True (sr_venues sample_router ! c) \<noteq> NaN" unfolding c by code_simp
  moreover have "sr_threshold sample_router \<le> 60" by code_simp
  moreover have "(\<Sum>c \<in> set (candidates True sample_router). size_at True sample_router c) = 90" unfolding c by code_simp
  ultimately show ?thesis
    using route_split_optimal [of True sample_router 60 0 1] c by (simp add: split_beta)
qed

section \<open>No share is lost\<close>

definition routed_sum :: "Router \<Rightarrow> int" where
  "routed_sum r = (\<Sum>v \<leftarrow> sr_venues r. v_routed v)"

lemma sum64_wrap: "sum64 f xs = s64 (sum_list (map f xs))"
proof -
  have "fold (\<lambda>x s. s64 (s + f x)) xs (s64 a) = s64 (a + sum_list (map f xs))" for a
    by (induction xs arbitrary: a) (simp_all add: wrap_simps algebra_simps)
  from this [of 0] show ?thesis by (simp add: sum64_def s64_def)
qed

lemma routed_sum_nth: "routed_sum r = (\<Sum>i < length (sr_venues r). v_routed (sr_venues r ! i))"
  by (simp add: routed_sum_def sum_list_sum_nth atLeast0LessThan)

lemma s64_eq_both: "s64 a = s64 b \<Longrightarrow> s64 c = s64 d \<Longrightarrow> s64 (a + c) = s64 (b + d)"
  by (metis s64_wrap(2,3))

lemma s64_sum_cong:
  assumes "\<And>i. i \<in> A \<Longrightarrow> s64 (f i) = s64 (g i)"
  shows "s64 (sum f A) = s64 (sum g A)"
  using assms
proof (induction A rule: infinite_finite_induct)
  case (insert x A)
  have "s64 (f x) = s64 (g x)" "s64 (sum f A) = s64 (sum g A)" using insert.IH insert.prems by simp_all
  from s64_eq_both [OF this] show ?case using insert.hyps by simp
qed simp_all

lemma routed_note:
  assumes "i < length (sr_venues r)"
  shows "s64 (routed_sum (note_routed i n r)) = s64 (routed_sum r + n)"
proof -
  have "routed_sum (note_routed i n r) = routed_sum r - v_routed (sr_venues r ! i) + s64 (v_routed (sr_venues r ! i) + n)"
    using assms by (simp add: routed_sum_def note_routed_def sum_list_map_upd)
  then show ?thesis by (simp add: wrap_simps)
qed

lemma routed_split:
  assumes "candidates is_buy r \<noteq> []" "0 < q" "q < 2 ^ 31" "split_order t0 t1 (candidates is_buy r) is_buy q r = (r', d)"
  shows "s64 (routed_sum r') = s64 (routed_sum r + d_quantity d)"
proof -
  let ?g = "grant (size_at is_buy r) q (sorted_candidates is_buy r)" let ?n = "length (sr_venues r)"
  note S = split_result [OF assms]
  have z: "\<forall>c \<in> set (sorted_candidates is_buy r). 0 \<le> size_at is_buy r c" by (simp add: sorted_candidates_set cand_size less_imp_le)
  have "s64 (routed_sum r') = s64 (\<Sum>i < ?n. v_routed (sr_venues r ! i) + ?g i)"
    unfolding routed_sum_nth S(4) by (rule s64_sum_cong) (rule S(6))
  moreover have "(\<Sum>i < ?n. ?g i) = (\<Sum>i \<in> set (candidates is_buy r). ?g i)"
  proof (rule sum.mono_neutral_right)
    show "set (candidates is_buy r) \<subseteq> {..<?n}" by (auto simp: candidates_props)
    show "\<forall>i \<in> {..<?n} - set (candidates is_buy r). ?g i = 0" using grant_outside sorted_candidates_set(1) by auto
  qed simp
  moreover have "(\<Sum>i \<in> set (candidates is_buy r). ?g i) = d_quantity d"
    using grant_sum [OF _ z sorted_candidates_set(2), of q] assms(2) S(2) by (simp add: sorted_candidates_set cand_total_def)
  ultimately show ?thesis by (simp add: sum.distrib routed_sum_nth)
qed

text \<open>A call either finds no candidate and changes nothing but a counter, or routes a part of the order and books the rest.\<close>

definition routed_call :: "int \<Rightarrow> Router \<Rightarrow> Router \<times> RouteDecision \<Rightarrow> bool" where
  "routed_call q r = (\<lambda>(r', d). if d_valid d
     then s64 (routed_sum r') = s64 (routed_sum r + d_quantity d) \<and> sr_unfilled r' = s64 (sr_unfilled r + d_unfilled d) \<and> d_quantity d + d_unfilled d = q
       \<and> 0 < d_quantity d \<and> 0 \<le> d_unfilled d
     else sr_venues r' = sr_venues r \<and> sr_unfilled r' = sr_unfilled r)"

lemma route_one_call:
  assumes "i \<in> set (candidates is_buy r)" "0 < q" "q < 2 ^ 31"
  shows "routed_call q r (route_one t0 t1 is_buy q i r)"
proof -
  define f where "f = min q (v_size is_buy (sr_venues r ! i))"
  have i: "i < length (sr_venues r)" "0 < v_size is_buy (sr_venues r ! i)" using assms(1) by (simp_all add: candidates_props has_liq_size)
  have f: "0 < f" "f \<le> q" using i(2) assms(2) by (simp_all add: f_def)
  have "s32 (q - f) = q - f" using f assms(3) by (simp add: s32_id)
  then show ?thesis
    using f routed_note [OF i(1), of f] by (simp add: routed_call_def route_one_def Let_def f_def [symmetric] book_stats_frame note_routed_frame routed_sum_def)
qed

lemma route_order_call:
  assumes "0 < q" "q < 2 ^ 31"
  shows "routed_call q r (route_order t0 t1 side q strat r)"
proof -
  define is_buy where "is_buy = (case side of c # _ \<Rightarrow> c = CHR ''B'' | [] \<Rightarrow> False)"
  let ?cs = "candidates is_buy r"
  show ?thesis
  proof (cases "?cs = []")
    case True
    then show ?thesis by (simp add: route_order_def Let_def is_buy_def [symmetric] routed_call_def decision0_def)
  next
    case False
    obtain r' d where e: "split_order t0 t1 ?cs is_buy q r = (r', d)" by fastforce
    have sp: "routed_call q r (split_order t0 t1 ?cs is_buy q r)"
      using split_result(1,2,3,5) [OF False assms e] routed_split [OF False assms e] cand_total_pos [OF False] assms by (simp add: routed_call_def e)
    have in_cs: "pick_first bt (hd ?cs) (tl ?cs) \<in> set ?cs" for bt
    proof -
      have "pick_first bt x xs \<in> set (x # xs)" for x xs by (induction xs arbitrary: x) (auto split: if_splits)
      then show ?thesis using False by (metis list.collapse)
    qed
    show ?thesis
      using False sp route_one_call [OF in_cs assms] by (simp add: route_order_def Let_def is_buy_def [symmetric])
  qed
qed

lemma upd_venue_routed:
  assumes "\<And>v. v_routed (f v) = v_routed v"
  shows "routed_sum (upd_venue n f r) = routed_sum r" "sr_unfilled (upd_venue n f r) = sr_unfilled r"
proof -
  have "venue_index n vs = Some i \<Longrightarrow> i < length vs" for vs i by (induction vs arbitrary: i) (auto split: if_splits)
  then show "routed_sum (upd_venue n f r) = routed_sum r"
    using assms by (auto simp: upd_venue_def routed_sum_def sum_list_map_upd split: option.split)
  show "sr_unfilled (upd_venue n f r) = sr_unfilled r" by (simp add: upd_venue_def split: option.split)
qed

text \<open>
  Runs of all the calls that change the router.  \<open>a\<close> are the shares of the orders that were given a route, \<open>c\<close> what
  the venues carried in and out: the routed shares an added venue starts with, less those a removed venue takes with it
  and those \<open>reset_routing_stats\<close> clears while the shortfall stays.  Orders have a positive 32-bit quantity.
\<close>

inductive sr_run :: "int \<Rightarrow> int \<Rightarrow> Router \<Rightarrow> bool" where
  sr_start: "sr_run 0 0 (sr0 strat threshold)"
| sr_venue: "sr_run a c r \<Longrightarrow> sr_run a (if length (sr_venues r) < MAX_VENUES then c + v_routed v else c) (add_venue v r)"
| sr_remove: "sr_run a c r \<Longrightarrow> sr_run a (case venue_of n r of None \<Rightarrow> c | Some v \<Rightarrow> c - v_routed v) (fst (remove_venue n r))"
| sr_quote: "sr_run a c r \<Longrightarrow> sr_run a c (update_quote now n bid ask bsz asz stamp r)"
| sr_lat: "sr_run a c r \<Longrightarrow> sr_run a c (record_latency n t r)"
| sr_bad: "sr_run a c r \<Longrightarrow> sr_run a c (record_reject n r)"
| sr_good: "sr_run a c r \<Longrightarrow> sr_run a c (record_success n r)"
| sr_limit: "sr_run a c r \<Longrightarrow> sr_run a c (set_failure_threshold k r)"
| sr_switch: "sr_run a c r \<Longrightarrow> sr_run a c (fst (set_venue_active n b r))"
| sr_fee: "sr_run a c r \<Longrightarrow> sr_run a c (fst (set_venue_fee n fee r))"
| sr_route: "sr_run a c r \<Longrightarrow> 0 < q \<Longrightarrow> q < 2 ^ 31 \<Longrightarrow> route_order t0 t1 side q strat r = (r', d)
    \<Longrightarrow> sr_run (if d_valid d then a + q else a) c r'"
| sr_clear: "sr_run a c r \<Longrightarrow> sr_run a (c - (\<Sum>v \<leftarrow> sr_venues r. v_routed v)) (reset_routing_stats r)"
| sr_reset: "sr_run a c r \<Longrightarrow> sr_run 0 0 (reset_session_stats r)"

lemma venue_of_found:
  "case venue_index n vs of None \<Rightarrow> True | Some i \<Rightarrow> i < length vs \<and> sum_list (map v_routed (take i vs @ drop (Suc i) vs)) = sum_list (map v_routed vs) - v_routed (vs ! i)"
  by (induction n vs rule: venue_index.induct) (auto split: option.splits)

lemma run_accounts: "sr_run a c r \<Longrightarrow> s64 (routed_sum r + sr_unfilled r) = s64 (a + c)"
proof (induction rule: sr_run.induct)
  case (sr_route a c r q t0 t1 side strat r' d)
  have k: "routed_call q r (r', d)" using route_order_call [OF sr_route(2,3), of r t0 t1 side strat] sr_route(4) by simp
  show ?case
  proof (cases "d_valid d")
    case True
    then have "s64 (routed_sum r' + sr_unfilled r') = s64 ((routed_sum r + d_quantity d) + (sr_unfilled r + d_unfilled d))"
      using k s64_eq_both [of "routed_sum r'" "routed_sum r + d_quantity d" "sr_unfilled r'" "sr_unfilled r + d_unfilled d"] by (simp add: routed_call_def wrap_simps)
    also have "(routed_sum r + d_quantity d) + (sr_unfilled r + d_unfilled d) = (routed_sum r + sr_unfilled r) + q" using k True by (simp add: routed_call_def)
    also have "s64 ((routed_sum r + sr_unfilled r) + q) = s64 ((a + c) + q)" using s64_eq_both [OF sr_route.IH refl] .
    finally show ?thesis using True by (simp add: algebra_simps)
  next
    case False
    then show ?thesis using k sr_route.IH by (simp add: routed_call_def routed_sum_def)
  qed
next
  case (sr_venue a c r v)
  show ?case using sr_venue.IH s64_eq_both [OF sr_venue.IH refl, of "v_routed v"] by (simp add: add_venue_def routed_sum_def algebra_simps)
next
  case (sr_remove a c r n)
  show ?case
  proof (cases "venue_index n (sr_venues r)")
    case None
    then show ?thesis using sr_remove.IH by (simp add: remove_venue_def venue_of_def)
  next
    case (Some i)
    let ?v = "v_routed (sr_venues r ! i)"
    have "routed_sum (fst (remove_venue n r)) = routed_sum r - ?v"
      using Some venue_of_found [where n = n and vs = "sr_venues r"] by (simp add: remove_venue_def routed_sum_def)
    moreover have "s64 (routed_sum r - ?v + sr_unfilled r) = s64 (a + (c - ?v))"
      using s64_eq_both [OF sr_remove.IH refl, of "- ?v"] by (simp add: algebra_simps)
    ultimately show ?thesis using Some by (simp add: remove_venue_def venue_of_def)
  qed
next
  case (sr_clear a c r)
  then show ?case
    using s64_eq_both [OF sr_clear.IH refl, of "- routed_sum r"] by (simp add: reset_routing_stats_def routed_sum_def comp_def algebra_simps)
next
  case (sr_reset a c r)
  then show ?case by (simp add: reset_session_stats_def reset_routing_stats_def routed_sum_def comp_def)
next
  case (sr_lat a c r n t)
  then show ?case by (simp add: record_latency_def upd_venue_routed)
qed (simp_all add: sr0_def routed_sum_def [of "sr0 _ _"] update_quote_def record_reject_def record_success_def set_failure_threshold_def set_venue_active_def
    set_venue_fee_def upd_venue_routed, simp_all add: routed_sum_def)

text \<open>
  C19. No share is lost: after any sequence of the router's calls, with orders of positive quantity under any
  strategy, the shares routed over all venues and the shortfall the router reports add up to the shares of the
  orders it routed since the last session reset and what the venues carried in and out: the routed shares of added
  venues, less those of removed venues and those cleared by a reset of the venues' counters alone (all as 64-bit counters).
\<close>

theorem router_shares_conserved:
  assumes "sr_run asked carried r"
  shows "s64 (total_routed_shares r + sr_unfilled r) = s64 (asked + carried)"
  using run_accounts [OF assms] by (simp add: total_routed_shares_def sum64_wrap routed_sum_def wrap_simps)

text \<open>An order of 60 is split over two venues; the venue that got 40 of them is removed.\<close>

lemma sr_fresh_venue: "sr_run a c r \<Longrightarrow> sr_run a c (add_venue (venue0 n l f) r)"
  using sr_venue [of a c r "venue0 n l f"] by (simp add: venue0_def split: if_splits)

theorem router_shares_conserved_witness:
  "let r = fst (remove_venue ''A'' (fst (route_order 0 1 ''BUY'' 60 SPLIT sample_router)))
   in s64 (total_routed_shares r + sr_unfilled r) = s64 (60 + (0 - 40))"
proof -
  let ?x = "route_order 0 1 ''BUY'' 60 SPLIT sample_router"
  have "sr_run 0 0 sample_router" unfolding sample_router_def by (intro sr_quote sr_fresh_venue sr_start)
  from sr_route [OF this, of 60 0 1 "''BUY''" SPLIT] have "sr_run (if d_valid (snd ?x) then 0 + 60 else 0) 0 (fst ?x)" by (cases ?x) simp
  moreover have "d_valid (snd ?x)" by code_simp
  ultimately have "sr_run 60 0 (fst ?x)" by simp
  from sr_remove [OF this, of "''A''"] have "sr_run 60 (case map_option v_routed (venue_of ''A'' (fst ?x)) of None \<Rightarrow> 0 | Some k \<Rightarrow> 0 - k) (fst (remove_venue ''A'' (fst ?x)))"
    by (cases "venue_of ''A'' (fst ?x)") simp_all
  moreover have "map_option v_routed (venue_of ''A'' (fst ?x)) = Some 40" by code_simp
  ultimately show ?thesis using router_shares_conserved [of 60 "0 - 40" "fst (remove_venue ''A'' (fst ?x))"] unfolding Let_def by simp
qed

section \<open>Planned sweeps\<close>

text \<open>The venues a sweep admits, and those it has not used.\<close>

definition admitted :: "(Venue \<Rightarrow> bool) \<Rightarrow> Venue list \<Rightarrow> nat set" where
  "admitted ok vs = {i. i < length vs \<and> ok (vs ! i)}"

lemma admitted_finite [simp]: "finite (admitted ok vs)"
  by (simp add: admitted_def)

lemma pick_first_in: "pick_first bt x xs \<in> set (x # xs)"
  by (induction xs arbitrary: x) (auto split: if_splits)

lemma sweep_pick_cases:
  "case sweep_pick ok key is_buy used vs of None \<Rightarrow> admitted ok vs \<subseteq> set used | Some i \<Rightarrow> i \<in> admitted ok vs - set used"
proof (cases "filter (\<lambda>i. i \<notin> set used \<and> ok (vs ! i)) [0..<length vs]")
  case Nil
  then have "\<forall>i < length vs. \<not> (i \<notin> set used \<and> ok (vs ! i))" by (simp add: filter_empty_conv)
  then show ?thesis using Nil by (auto simp: sweep_pick_def admitted_def)
next
  case (Cons i js)
  have "set (i # js) = admitted ok vs - set used" unfolding Cons [symmetric] by (auto simp: admitted_def)
  then show ?thesis using Cons pick_first_in by (metis (no_types, lifting) list.simps(5) option.simps(5) sweep_pick_def)
qed

lemma sweep_loop_fills:
  assumes "\<forall>i \<in> admitted ok vs. 0 < v_size is_buy (vs ! i)" "set (sw_used s) \<subseteq> admitted ok vs" "distinct (sw_used s)"
    and "card (admitted ok vs - set (sw_used s)) \<le> n" "0 \<le> sw_remaining s" "0 \<le> sw_filled s" "sw_filled s + sw_remaining s < 2 ^ 31"
  shows "let s' = sweep_loop n ok key is_buy vs s; rest = (\<Sum>i \<in> admitted ok vs - set (sw_used s). v_size is_buy (vs ! i))
    in sw_filled s' = sw_filled s + min (sw_remaining s) rest \<and> sw_remaining s' = sw_remaining s - min (sw_remaining s) rest"
  using assms(2-7)
proof (induction n arbitrary: s)
  case 0
  then have "admitted ok vs - set (sw_used s) = {}" by simp
  then show ?case using 0(4) by (simp only: Let_def sweep_loop.simps) simp
next
  case (Suc n)
  let ?A = "admitted ok vs" let ?sz = "\<lambda>i. v_size is_buy (vs ! i)"
  have nn: "0 \<le> (\<Sum>i \<in> ?A - B. ?sz i)" for B using assms(1) by (intro sum_nonneg) (simp add: less_imp_le)
  show ?case
  proof (cases "sw_remaining s > 0")
    case False
    then show ?thesis using Suc.prems(4) nn [of "set (sw_used s)"] by simp
  next
    case True
    show ?thesis
    proof (cases "sweep_pick ok key is_buy (sw_used s) vs")
      case None
      then have "?A \<subseteq> set (sw_used s)" using sweep_pick_cases [where ok = ok and key = key and is_buy = is_buy and used = "sw_used s" and vs = vs] by simp
      then have "?A - set (sw_used s) = {}" by blast
      then show ?thesis using None True by (simp only: Let_def sweep_loop.simps option.case if_True) simp
    next
      case (Some i)
      have i: "i \<in> ?A - set (sw_used s)" using sweep_pick_cases [where ok = ok and key = key and is_buy = is_buy and used = "sw_used s" and vs = vs] by (simp add: Some)
      define t where "t = (if sw_remaining s < ?sz i then sw_remaining s else ?sz i)"
      define s1 where "s1 = s\<lparr>sw_remaining := s32 (sw_remaining s - t), sw_filled := s32 (sw_filled s + t),
                 sw_notional := dadd (sw_notional s) (dmul (key (vs ! i)) (d_of_int t)), sw_used := i # sw_used s\<rparr>"
      have z: "0 < ?sz i" using assms(1) i by simp
      have t: "0 < t" "t \<le> sw_remaining s" "t = min (sw_remaining s) (?sz i)" using z True by (simp_all add: t_def)
      have w: "s32 (sw_remaining s - t) = sw_remaining s - t" "s32 (sw_filled s + t) = sw_filled s + t"
        using t(1,2) Suc.prems(4-6) by (simp_all add: s32_id)
      have s1: "sw_remaining s1 = sw_remaining s - t" "sw_filled s1 = sw_filled s + t" "sw_used s1 = i # sw_used s" by (simp_all add: s1_def w)
      have split: "?A - set (sw_used s) = insert i (?A - set (sw_used s1))" "i \<notin> ?A - set (sw_used s1)" using i by (auto simp: s1)
      define R where "R = (\<Sum>j \<in> ?A - set (sw_used s1). ?sz j)"
      have R: "(\<Sum>j \<in> ?A - set (sw_used s). ?sz j) = ?sz i + R"
        unfolding split(1) R_def by (rule sum.insert) (use split(2) in simp_all)
      have c: "card (?A - set (sw_used s1)) \<le> n" using Suc.prems(3) card_insert_disjoint [OF _ split(2)] unfolding split(1) by simp
      have u: "set (sw_used s1) \<subseteq> ?A" "distinct (sw_used s1)" using i Suc.prems(1,2) by (auto simp: s1)
      have b: "0 \<le> sw_remaining s1" "0 \<le> sw_filled s1" "sw_filled s1 + sw_remaining s1 < 2 ^ 31" using t(1,2) Suc.prems(5,6) by (simp_all add: s1)
      have e: "sweep_loop (Suc n) ok key is_buy vs s = sweep_loop n ok key is_buy vs s1" using True Some by (simp add: Let_def t_def [symmetric] s1_def)
      note I = Suc.IH [OF u c b, unfolded Let_def R_def [symmetric] s1(1,2)]
      have m: "min (sw_remaining s) (?sz i + R) = t + min (sw_remaining s - t) R"
        using nn [of "set (sw_used s1)"] z unfolding t(3) R_def [symmetric] by (simp add: min_def)
      show ?thesis unfolding e Let_def R m using I by simp
    qed
  qed
qed

lemma sum_filter_nth: "(\<Sum>v \<leftarrow> filter P vs. f v) = (\<Sum>i \<in> {i. i < length vs \<and> P (vs ! i)}. (f (vs ! i) :: int))"
proof -
  have "(\<Sum>v \<leftarrow> filter P vs. f v) = (\<Sum>v \<leftarrow> vs. if P v then f v else 0)" by (induction vs) simp_all
  also have "\<dots> = (\<Sum>i < length vs. if P (vs ! i) then f (vs ! i) else 0)" by (simp add: sum_list_sum_nth atLeast0LessThan)
  also have "\<dots> = (\<Sum>i \<in> {..<length vs} \<inter> {i. P (vs ! i)}. f (vs ! i))" by (simp add: sum.inter_restrict)
  also have "{..<length vs} \<inter> {i. P (vs ! i)} = {i. i < length vs \<and> P (vs ! i)}" by auto
  finally show ?thesis .
qed

lemma sum32_wrap: "sum32 f xs = s32 (sum_list (map f xs))"
proof -
  have "fold (\<lambda>x s. s32 (s + f x)) xs (s32 a) = s32 (a + sum_list (map f xs))" for a
    by (induction xs arbitrary: a) (simp_all add: wrap_simps algebra_simps)
  from this [of 0] show ?thesis by (simp add: sum32_def s32_def)
qed

text \<open>What a sweep fills, when the sizes it admits are positive.\<close>

lemma sweep_plan_fills:
  assumes "\<forall>v. ok v \<longrightarrow> 0 < v_size is_buy v" "0 < q" "q < 2 ^ 31"
  shows "sw_filled (sweep_plan ok key is_buy q r) = min q (\<Sum>v \<leftarrow> filter ok (sr_venues r). v_size is_buy v)"
    "sw_remaining (sweep_plan ok key is_buy q r) = q - min q (\<Sum>v \<leftarrow> filter ok (sr_venues r). v_size is_buy v)"
proof -
  let ?A = "admitted ok (sr_venues r)"
  have "card ?A \<le> card {..<length (sr_venues r)}" by (rule card_mono) (auto simp: admitted_def)
  then have c: "card ?A \<le> length (sr_venues r)" by simp
  have s: "(\<Sum>v \<leftarrow> filter ok (sr_venues r). v_size is_buy v) = (\<Sum>i \<in> ?A. v_size is_buy (sr_venues r ! i))"
    by (simp add: sum_filter_nth admitted_def)
  show "sw_filled (sweep_plan ok key is_buy q r) = min q (\<Sum>v \<leftarrow> filter ok (sr_venues r). v_size is_buy v)"
    "sw_remaining (sweep_plan ok key is_buy q r) = q - min q (\<Sum>v \<leftarrow> filter ok (sr_venues r). v_size is_buy v)"
    using sweep_loop_fills [of ok "sr_venues r" is_buy "\<lparr>sw_remaining = q, sw_filled = 0, sw_notional = Fin 0, sw_used = []\<rparr>" "length (sr_venues r)" key]
      assms c by (simp_all add: sweep_plan_def Let_def s admitted_def)
qed

text \<open>
  C20. Plan and execution agree.  When the prices are numbers and the sizes add up within 32 bits, a
  planned sweep fills the smaller of the order and the liquidity the router reports, the shortfall is the
  rest, a sweep needs \<open>-1\<close> venues exactly when there is a shortfall, a sweep under a limit fills what
  \<open>liquidity_at_limit\<close> reports, and a split order of the same size fills as much as the sweep.
\<close>

theorem router_plan_agrees:
  assumes "0 < q" "q < 2 ^ 31" "sr_threshold r \<le> q"
    and "\<forall>v \<in> set (sr_venues r). quote_px is_buy v \<noteq> NaN \<and> effective_price is_buy v \<noteq> NaN" "limit \<noteq> NaN"
    and "(\<Sum>v \<leftarrow> quoting is_buy r. v_size is_buy v) < 2 ^ 31"
  shows "fst (sweep_to_fill is_buy q r) = min q (available_liquidity is_buy r)
    \<and> sr_fill_shortfall is_buy q r = q - fst (sweep_to_fill is_buy q r)
    \<and> (venues_to_fill is_buy q r = - 1 \<longleftrightarrow> 0 < sr_fill_shortfall is_buy q r)
    \<and> fst (sweep_to_fill_at_limit is_buy q limit r) = min q (liquidity_at_limit is_buy limit r)
    \<and> d_quantity (snd (route_order t0 t1 (side_name is_buy) q SPLIT r)) = fst (sweep_to_fill is_buy q r)"
proof -
  let ?vs = "sr_venues r" let ?sz = "v_size is_buy"
  define A where "A = (\<Sum>v \<leftarrow> quoting is_buy r. ?sz v)"
  define L where "L = (\<Sum>v \<leftarrow> filter (within_limit is_buy limit) (quoting is_buy r). ?sz v)"
  have pos: "\<forall>v. sweepable is_buy v \<longrightarrow> 0 < ?sz v" by (simp add: sweepable_def)
  have sw: "sweepable is_buy v \<longleftrightarrow> v_active v \<and> has_liq is_buy v" if "v \<in> set ?vs" for v
    using assms(4) that by (auto simp: sweepable_def has_liq_def dle_def quote_px_def v_size_def split: if_splits)
  have f1: "filter (sweepable is_buy) ?vs = quoting is_buy r"
    unfolding quoting_def active_with_def by (rule filter_cong) (simp_all add: sw)
  have f2: "filter (\<lambda>v. sweepable is_buy v \<and> \<not> past_limit is_buy limit v) ?vs = filter (within_limit is_buy limit) (quoting is_buy r)"
    unfolding quoting_def active_with_def filter_filter
    by (rule filter_cong) (use assms(4,5) sw in \<open>auto simp: past_limit_def within_limit_def dle_def\<close>)
  have qp: "\<forall>v \<in> set (quoting is_buy r). 0 < ?sz v" by (simp add: quoting_def active_with_def has_liq_size)
  have nn: "0 \<le> A" "0 \<le> L" using qp unfolding A_def L_def by (auto intro!: sum_list_nonneg simp: less_imp_le)
  have "(\<Sum>v \<leftarrow> filter P xs. ?sz v) \<le> (\<Sum>v \<leftarrow> xs. ?sz v)" if "\<forall>v \<in> set xs. 0 < ?sz v" for P xs
    using that by (induction xs) (auto simp: less_imp_le add_increasing)
  then have LA: "L \<le> A" using qp by (simp add: L_def A_def)
  have av: "available_liquidity is_buy r = A" "liquidity_at_limit is_buy limit r = L"
    using nn LA assms(6) by (simp_all add: available_liquidity_def liquidity_at_limit_def sum_sizes_def sum32_wrap A_def [symmetric] L_def [symmetric] s32_id)
  have s1: "fst (sweep_to_fill is_buy q r) = min q A"
    using assms(1) sweep_plan_fills(1) [OF pos assms(1,2), of "quote_px is_buy" r] by (simp add: sweep_to_fill_def sweep_result_def f1 A_def)
  have s2: "fst (sweep_to_fill_at_limit is_buy q limit r) = min q L"
    using assms(1) sweep_plan_fills(1) [of "\<lambda>v. sweepable is_buy v \<and> \<not> past_limit is_buy limit v" is_buy q "effective_price is_buy" r] pos assms(1,2)
    by (simp add: sweep_to_fill_at_limit_def sweep_result_def f2 L_def)
  have sh: "sr_fill_shortfall is_buy q r = q - min q A" using assms(1,2) nn(1) by (simp add: sr_fill_shortfall_def av s32_id min_def)
  have v: "venues_to_fill is_buy q r = - 1 \<longleftrightarrow> 0 < q - min q A"
    using assms(1) sweep_plan_fills(2) [OF pos assms(1,2), of "quote_px is_buy" r] by (auto simp: venues_to_fill_def Let_def f1 A_def)
  have cs: "set (candidates is_buy r) = {i. i < length ?vs \<and> v_active (?vs ! i) \<and> has_liq is_buy (?vs ! i)}" by (auto simp: candidates_def)
  have ct: "cand_total is_buy r = A"
    unfolding cand_total_def A_def quoting_def active_with_def sum_filter_nth cs size_at_def by simp
  have "d_quantity (snd (route_order t0 t1 (side_name is_buy) q SPLIT r)) = min q A"
  proof (cases "candidates is_buy r = []")
    case True
    then have "A = 0" using ct by (simp add: cand_total_def)
    then show ?thesis using True assms(1) by (cases is_buy) (simp_all add: route_order_def side_name_def Let_def decision0_def)
  next
    case False
    obtain r' d where e: "split_order t0 t1 (candidates is_buy r) is_buy q r = (r', d)" by fastforce
    then have "route_order t0 t1 (side_name is_buy) q SPLIT r = (r', d)"
      using False assms(3) by (cases is_buy) (simp_all add: route_order_def side_name_def Let_def)
    then show ?thesis using split_result(2) [OF False assms(1,2) e] ct by simp
  qed
  then show ?thesis using s1 s2 sh v av by simp
qed

theorem router_plan_agrees_witness: "fst (sweep_to_fill True 200 sample_router) = min 200 (available_liquidity True sample_router)"
proof -
  have "list_all (\<lambda>v. quote_px True v \<noteq> NaN \<and> effective_price True v \<noteq> NaN) (sr_venues sample_router)" by code_simp
  then have n: "\<forall>v \<in> set (sr_venues sample_router). quote_px True v \<noteq> NaN \<and> effective_price True v \<noteq> NaN" by (simp add: list_all_iff)
  have "(\<Sum>v \<leftarrow> quoting True sample_router. v_size True v) < 2 ^ 31" by code_simp
  moreover have "sr_threshold sample_router \<le> 200" by code_simp
  ultimately show ?thesis using router_plan_agrees [of 200 sample_router True "Fin 0"] n by simp
qed

section \<open>Where comments and code part\<close>

text \<open>With every venue switched off the reason is \<open>NO_LIQUIDITY\<close>, though no venue is active.\<close>

lemma all_off_no_liquidity:
  "d_reject (snd (route_order 0 1 ''BUY'' 60 SPLIT (fst (set_venue_active ''A'' False (fst (set_venue_active ''B'' False sample_router)))))) = NO_LIQUIDITY
   \<and> active_venue_count (fst (set_venue_active ''A'' False (fst (set_venue_active ''B'' False sample_router)))) = 0"
  by code_simp

text \<open>One venue with a size but no price takes the national best offer away.\<close>

lemma unpriced_ask_hides_offer:
  "(let r = update_quote 1 ''A'' (Fin 9) (Fin 0) 30 40 1 sample_router in national_best_ask r = Fin 0 \<and> nbbo_mid r = Fin 0 \<and> available_liquidity True r = 50)"
  by code_simp

text \<open>The primary venue of a split order is the cheapest, not the one with the largest part.\<close>

lemma primary_is_cheapest:
  "(let (r, d) = route_order 0 1 ''BUY'' 90 SPLIT sample_router in d_venue d = ''A'' \<and> venue_routed_shares ''A'' r = 40 \<and> venue_routed_shares ''B'' r = 50)"
  by code_simp

text \<open>An order of a negative quantity is given a route and taken from what was routed before.\<close>

lemma negative_order_routed:
  "(let (r, d) = route_order 0 1 ''BUY'' (- 5) BEST_PRICE sample_router in d_valid d \<and> d_quantity d = - 5 \<and> total_routed_shares r = - 5)"
  by code_simp

end
