(* ===== verification/Exec_Algo.thy ===== *)
theory Exec_Algo
  imports Binary64 Common
begin

text \<open>
  \<open>strategy/exec_algo.hpp\<close>: the execution algorithms.  A parent order is cut into child orders over time,
  in equal pieces (\<open>TWAPExecutor\<close>) or after a profile of volume (\<open>VWAPExecutor\<close>); both follow the fills
  that come back, and \<open>MarketVWAPTracker\<close> measures the benchmark they are compared with.
\<close>

section \<open>Orders and statistics\<close>

record ParentOrder =
  po_symbol :: string
  po_side :: Side
  total_qty :: int
  start_ts_sec :: int
  duration_sec :: int
  num_slices :: int

definition parent0 :: ParentOrder where
  "parent0 = \<lparr>po_symbol = [], po_side = BUY, total_qty = 0, start_ts_sec = 0, duration_sec = 0, num_slices = 0\<rparr>"

record ChildOrder =
  co_qty :: int
  co_price_ticks :: int
  co_valid :: bool

definition child0 :: ChildOrder where
  "child0 = \<lparr>co_qty = 0, co_price_ticks = 0, co_valid = False\<rparr>"

record ExecStats =
  filled_qty :: int
  cash_ticks :: int
  num_fills :: int
  slices_emitted :: int
  slices_skipped :: int

definition stats0 :: ExecStats where
  "stats0 = \<lparr>filled_qty = 0, cash_ticks = 0, num_fills = 0, slices_emitted = 0, slices_skipped = 0\<rparr>"

definition realized_vwap_ticks :: "ExecStats \<Rightarrow> int" where
  "realized_vwap_ticks st = (if filled_qty st > 0 then s32 (tdiv (cash_ticks st) (filled_qty st)) else 0)"

definition exec_slippage_bps :: "Side \<Rightarrow> int \<Rightarrow> int \<Rightarrow> dbl" where
  "exec_slippage_bps side realized_ticks benchmark_ticks =
     (if benchmark_ticks \<le> 0 then Fin 0
      else let diff = d_of_int (s32 (realized_ticks - benchmark_ticks));
               bps = dmul (ddiv diff (d_of_int benchmark_ticks)) (Fin 10000)
           in if side = BUY then bps else dneg bps)"

text \<open>Both executors account for a fill in the same way.\<close>

definition stats_fill :: "int \<Rightarrow> int \<Rightarrow> ExecStats \<Rightarrow> ExecStats" where
  "stats_fill qty price st =
     (if qty \<le> 0 \<or> price \<le> 0 then st
      else st \<lparr>filled_qty := s64 (filled_qty st + qty),
               cash_ticks := s64 (cash_ticks st + s64 (qty * price)),
               num_fills := s32 (num_fills st + 1)\<rparr>)"

definition slice_seconds :: "ParentOrder \<Rightarrow> int" where
  "slice_seconds p = (if num_slices p > 0 then max 1 (tdiv (duration_sec p) (num_slices p)) else 1)"

definition slot_at :: "ParentOrder \<Rightarrow> int \<Rightarrow> int \<Rightarrow> int" where
  "slot_at p secs now_sec = tdiv (s32 (now_sec - start_ts_sec p)) secs"

definition market_child :: "int \<Rightarrow> ChildOrder" where
  "market_child qty = \<lparr>co_qty = qty, co_price_ticks = 0, co_valid = True\<rparr>"

section \<open>Equal slices\<close>

record TWAPExecutor =
  tw_parent :: ParentOrder
  tw_secs :: int
  tw_slice_size :: int
  tw_stats :: ExecStats

definition twap0 :: "ParentOrder \<Rightarrow> TWAPExecutor" where
  "twap0 p = \<lparr>tw_parent = p, tw_secs = slice_seconds p,
     tw_slice_size = (if num_slices p > 0 then tdiv (total_qty p) (num_slices p) else 0), tw_stats = stats0\<rparr>"

definition twap_qty :: "TWAPExecutor \<Rightarrow> int \<Rightarrow> int" where
  "twap_qty x slot =
     (let p = tw_parent x;
          qty = (if slot = num_slices p - 1
                 then s32 (total_qty p - s32 (tw_slice_size x * (num_slices p - 1))) else tw_slice_size x);
          remaining = s32 (total_qty p - s32 (filled_qty (tw_stats x)))
      in if qty > remaining then remaining else qty)"

definition twap_on_tick :: "int \<Rightarrow> TWAPExecutor \<Rightarrow> TWAPExecutor \<times> ChildOrder" where
  "twap_on_tick now_sec x =
     (let p = tw_parent x; st = tw_stats x; slot = slot_at p (tw_secs x) now_sec
      in if num_slices p \<le> 0 \<or> filled_qty st \<ge> total_qty p then (x, child0)
         else if now_sec < start_ts_sec p then (x, child0)
         else if slot < slices_emitted st then (x, child0)
         else if slot \<ge> num_slices p then (x, child0)
         else let qty = twap_qty x slot
              in if qty \<le> 0 then (x, child0)
                 else (x \<lparr>tw_stats := st \<lparr>slices_emitted := s32 (slices_emitted st + 1)\<rparr>\<rparr>, market_child qty))"

definition twap_apply_fill :: "int \<Rightarrow> int \<Rightarrow> TWAPExecutor \<Rightarrow> TWAPExecutor" where
  "twap_apply_fill qty price x = x \<lparr>tw_stats := stats_fill qty price (tw_stats x)\<rparr>"

definition twap_done :: "TWAPExecutor \<Rightarrow> bool" where
  "twap_done x \<longleftrightarrow> filled_qty (tw_stats x) \<ge> total_qty (tw_parent x)"

section \<open>Slices after a profile\<close>

text \<open>
  Conversion to \<open>std::int32_t\<close>, with the result of the conversion instruction where the value does not fit.
\<close>

fun d_to_s32 :: "dbl \<Rightarrow> int" where
  "d_to_s32 (Fin a) = (if - (2 ^ 31) \<le> trunc a \<and> trunc a < 2 ^ 31 then trunc a else - (2 ^ 31))"
| "d_to_s32 _ = - (2 ^ 31)"

definition normalized :: "dbl list \<Rightarrow> dbl list" where
  "normalized profile =
     (let sum = foldl dadd (Fin 0) profile
      in if dlt (Fin 0) sum then map (\<lambda>v. ddiv v sum) profile else profile)"

definition slot_target :: "int \<Rightarrow> dbl \<Rightarrow> int" where
  "slot_target qty cum = d_to_s32 (dadd (dmul cum (d_of_int qty)) (Fin (1 / 2)))"

text \<open>The loop over the slots; \<open>k\<close> slots are left and \<open>ps\<close> is what is left of the profile.\<close>

fun target_loop :: "nat \<Rightarrow> int \<Rightarrow> dbl list \<Rightarrow> dbl \<Rightarrow> int list" where
  "target_loop 0 qty ps cum = []"
| "target_loop (Suc k) qty ps cum =
     (let cum' = dadd cum (case ps of [] \<Rightarrow> Fin 0 | v # _ \<Rightarrow> v)
      in (if k = 0 then qty else slot_target qty cum') # target_loop k qty (tl ps) cum')"

record VWAPExecutor =
  vw_parent :: ParentOrder
  vw_profile :: "dbl list"
  vw_targets :: "int list"
  vw_secs :: int
  vw_next_slot :: int
  vw_emitted_qty :: int
  vw_stats :: ExecStats

text \<open>
  The constructor; a negative number of slices makes \<open>reserve\<close> throw \<open>std::length_error\<close>, which is
  \<^const>\<open>None\<close>.
\<close>

definition vwap0 :: "ParentOrder \<Rightarrow> dbl list \<Rightarrow> VWAPExecutor option" where
  "vwap0 p volume_profile =
     (if num_slices p < 0 then None
      else let profile = normalized volume_profile
           in Some \<lparr>vw_parent = p, vw_profile = profile,
                vw_targets = target_loop (nat (num_slices p)) (total_qty p) profile (Fin 0),
                vw_secs = slice_seconds p, vw_next_slot = 0, vw_emitted_qty = 0, vw_stats = stats0\<rparr>)"

definition vwap_on_tick :: "int \<Rightarrow> VWAPExecutor \<Rightarrow> VWAPExecutor \<times> ChildOrder" where
  "vwap_on_tick now_sec x =
     (let p = vw_parent x; st = vw_stats x; slot = slot_at p (vw_secs x) now_sec
      in if num_slices p \<le> 0 \<or> filled_qty st \<ge> total_qty p then (x, child0)
         else if now_sec < start_ts_sec p then (x, child0)
         else if slot < vw_next_slot x then (x, child0)
         else if slot \<ge> num_slices p then (x, child0)
         else let qty = s32 (vw_targets x ! nat slot - vw_emitted_qty x);
                  x' = x \<lparr>vw_next_slot := slot + 1\<rparr>
              in if qty \<le> 0 then (x' \<lparr>vw_stats := st \<lparr>slices_skipped := s32 (slices_skipped st + 1)\<rparr>\<rparr>, child0)
                 else (x' \<lparr>vw_emitted_qty := s32 (vw_emitted_qty x + qty),
                           vw_stats := st \<lparr>slices_emitted := s32 (slices_emitted st + 1)\<rparr>\<rparr>, market_child qty))"

definition vwap_apply_fill :: "int \<Rightarrow> int \<Rightarrow> VWAPExecutor \<Rightarrow> VWAPExecutor" where
  "vwap_apply_fill qty price x = x \<lparr>vw_stats := stats_fill qty price (vw_stats x)\<rparr>"

definition vwap_done :: "VWAPExecutor \<Rightarrow> bool" where
  "vwap_done x \<longleftrightarrow> filled_qty (vw_stats x) \<ge> total_qty (vw_parent x)"

section \<open>The benchmark and the standard profile\<close>

record MarketVWAPTracker =
  mk_cash :: int
  mk_volume :: int

definition market0 :: MarketVWAPTracker where
  "market0 = \<lparr>mk_cash = 0, mk_volume = 0\<rparr>"

definition on_trade :: "int \<Rightarrow> int \<Rightarrow> MarketVWAPTracker \<Rightarrow> MarketVWAPTracker" where
  "on_trade price qty m =
     (if price \<le> 0 \<or> qty \<le> 0 then m
      else m \<lparr>mk_cash := s64 (mk_cash m + s64 (price * qty)), mk_volume := s64 (mk_volume m + qty)\<rparr>)"

definition vwap_ticks :: "MarketVWAPTracker \<Rightarrow> int" where
  "vwap_ticks m = (if mk_volume m > 0 then s32 (tdiv (mk_cash m) (mk_volume m)) else 0)"

definition u_shape_profile :: "int \<Rightarrow> dbl list" where
  "u_shape_profile n =
     (if n \<le> 0 then []
      else let open_slots = max 1 (tdiv n 5); close_slots = max 1 (tdiv n 5);
               middle_slots = max 1 (n - open_slots - close_slots);
               open_weight = ddiv (fin (30 / 100)) (d_of_int open_slots);
               middle_weight = ddiv (fin (40 / 100)) (d_of_int middle_slots);
               close_weight = ddiv (fin (30 / 100)) (d_of_int close_slots)
           in replicate (nat open_slots) open_weight @ replicate (nat middle_slots) middle_weight @
              replicate (nat close_slots) close_weight)"

end
