(* ===== verification/Exec_Props.thy ===== *)
theory Exec_Props
  imports Exec_Algo
begin

text \<open>
  Correctness of the execution algorithms: how rounding in the profile is bounded, runs of ticks and
  fills, and what the child orders of a run add up to.
\<close>

section \<open>Rounding in the profile\<close>

lemma round_even_nonneg: "0 \<le> x \<Longrightarrow> 0 \<le> round_even x"
  by (simp add: round_even_def Let_def)

lemma rnd_nonneg: "0 \<le> x \<Longrightarrow> 0 \<le> rnd x"
  by (simp add: rnd_def round_even_nonneg)

lemma rnd_below:
  assumes "0 \<le> x" "x < 2 powi e" "- 1021 \<le> e" "e \<le> 100"
  shows "fin x = Fin (rnd x)" "0 \<le> rnd x" "\<bar>rnd x - x\<bar> \<le> 2 powi (e - 54)"
proof -
  have "(2 :: rat) powi e \<le> 2 powi 100" using assms(4) by (intro power_int_increasing) simp_all
  then have "\<bar>x\<bar> < 2 ^ 100" using assms by simp
  then show "fin x = Fin (rnd x)" by (rule fin_small)
  show "0 \<le> rnd x" using assms(1) by (rule rnd_nonneg)
  show "\<bar>rnd x - x\<bar> \<le> 2 powi (e - 54)" using assms by (intro rnd_error_lt) simp_all
qed

lemma ulp_two: "2 powi (1 - 54) = (1 / 2 ^ 53 :: rat)"
  by (simp add: power_int_minus)

text \<open>A sum of non-negative values below \<open>2^e\<close> is off by at most half a unit per summand.\<close>

lemma dsum_error:
  assumes "0 \<le> c" "\<forall>v\<in>set vs. 0 \<le> v" "- 1021 \<le> e" "e \<le> 100"
    and "c + sum_list vs + of_nat (length vs) * 2 powi (e - 54) < 2 powi e"
  shows "\<exists>r. foldl dadd (Fin c) (map Fin vs) = Fin r \<and> 0 \<le> r \<and>
           \<bar>r - (c + sum_list vs)\<bar> \<le> of_nat (length vs) * 2 powi (e - 54)"
  using assms
proof (induction vs arbitrary: c)
  case (Cons v vs)
  define u where "u = (2 powi (e - 54) :: rat)"
  note C = Cons.prems [folded u_def]
  have u: "0 \<le> u" by (simp add: u_def)
  have vs: "0 \<le> sum_list vs" "0 \<le> v" using C(2) by (auto intro: sum_list_nonneg)
  have nn: "0 \<le> of_nat (length vs) * u" using u by simp
  have C5: "c + v + sum_list vs + u + of_nat (length vs) * u < 2 powi e"
    using C(5) by (simp add: distrib_right add.assoc)
  then have "c + v < 2 powi e" using vs u nn by linarith
  from rnd_below [OF _ this C(3,4)] have R: "fin (c + v) = Fin (rnd (c + v))" "0 \<le> rnd (c + v)"
    "\<bar>rnd (c + v) - (c + v)\<bar> \<le> u" using C(1) vs(2) by (simp_all add: u_def)
  have "rnd (c + v) + sum_list vs + of_nat (length vs) * u < 2 powi e"
    using C5 R(3) by linarith
  from Cons.IH [OF R(2) _ C(3,4), folded u_def, OF _ this] C(2) obtain r where
    r: "foldl dadd (Fin (rnd (c + v))) (map Fin vs) = Fin r" "0 \<le> r"
      "\<bar>r - (rnd (c + v) + sum_list vs)\<bar> \<le> of_nat (length vs) * u" by auto
  have "\<bar>r - (c + v + sum_list vs)\<bar> \<le> u + of_nat (length vs) * u" using r(3) R(3) by linarith
  then show ?case using r R(1) by (simp add: distrib_right add.assoc u_def)
qed simp

text \<open>The weights after normalisation add up to one, up to rounding.\<close>

lemma normalized_sum:
  assumes "\<forall>v\<in>set vs. 0 \<le> v" "length vs \<le> 2 ^ 16"
    and "2 powi (- 900) \<le> sum_list vs" "sum_list vs \<le> 2 powi 90"
  shows "\<exists>ws. normalized (map Fin vs) = map Fin ws \<and> (\<forall>w\<in>set ws. 0 \<le> w) \<and> length ws = length vs \<and>
           sum_list ws \<le> 1 + 2 powi (- 34)"
proof -
  define S where "S = sum_list vs"
  define n where "n = (of_nat (length vs) :: rat)"
  have n: "0 \<le> n" "n \<le> 65536"
    using assms(2) of_nat_le_iff [where ?'a = rat, of "length vs" "2 ^ 16"] by (simp_all add: n_def)
  have S0: "0 < S" using assms(3) by (simp add: S_def)
  define e where "e = ilog2 S + 2"
  have e1: "2 powi e \<le> 4 * S" using ilog2_bounds(1) [OF S0] by (simp add: e_def power_int_add)
  have e2: "2 * S < 2 powi e" using ilog2_bounds(2) [OF S0] by (simp add: e_def power_int_add)
  have "2 powi (- 900) < (2 powi e :: rat)" using e2 assms(3) S0 by (simp add: S_def)
  then have elo: "- 900 < e" by (meson not_less one_le_numeral power_int_increasing)
  have "2 powi e \<le> (2 powi 92 :: rat)" using e1 assms(4) by (simp add: S_def)
  then have ehi: "e \<le> 92" by (metis not_less one_less_numeral_iff power_int_strict_increasing semiring_norm(76))
  have u: "2 powi (e - 54) = (2 powi e / 2 ^ 54 :: rat)" by (simp add: power_int_diff)
  have nu: "n * 2 powi (e - 54) \<le> 2 powi e / 2 ^ 38"
  proof -
    have "n * 2 powi (e - 54) \<le> 65536 * 2 powi (e - 54)" using n by (intro mult_right_mono) simp_all
    also have "\<dots> = 2 powi e / 2 ^ 38" by (simp add: u)
    finally show ?thesis .
  qed
  have "0 + sum_list vs + of_nat (length vs) * 2 powi (e - 54) < 2 powi e"
    using nu e2 S0 by (simp add: S_def [symmetric] n_def [symmetric])
  from dsum_error [OF _ assms(1) _ _ this] elo ehi obtain s where
    s: "foldl dadd (Fin 0) (map Fin vs) = Fin s" "\<bar>s - S\<bar> \<le> n * 2 powi (e - 54)"
    by (auto simp: S_def n_def)
  have "\<bar>s - S\<bar> \<le> S / 2 ^ 36" using s(2) nu e1 by simp
  then have "S - S / 2 ^ 36 \<le> s" by linarith
  then have s1: "S * (1 - 1 / 2 ^ 36) \<le> s" by (simp add: right_diff_distrib)
  then have s0: "0 < s" using S0 by (simp add: right_diff_distrib)
  have q: "v / s \<le> 1 + 1 / 2 ^ 35" if "v \<le> S" for v
  proof -
    have "S \<le> (1 + 1 / 2 ^ 35) * (S * (1 - 1 / 2 ^ 36))" using S0 by (simp add: field_simps)
    also have "\<dots> \<le> (1 + 1 / 2 ^ 35) * s" using s1 by (intro mult_left_mono) simp_all
    finally show ?thesis using that s0 by (simp add: pos_divide_le_eq)
  qed
  have le: "v \<le> S" if "v \<in> set vs" for v
    using assms(1) that unfolding S_def by (intro member_le_sum_list) auto
  define ws where "ws = map (\<lambda>v. rnd (v / s)) vs"
  have W: "fin (v / s) = Fin (rnd (v / s))" "0 \<le> rnd (v / s)" "rnd (v / s) \<le> v / s + 1 / 2 ^ 53" if "v \<in> set vs" for v
  proof -
    have "v / s < 2" using q [OF le [OF that]] by (rule le_less_trans) simp
    then have "0 \<le> v / s" "v / s < 2 powi 1" using assms(1) that s0 by simp_all
    note R = rnd_below [OF this]
    show "fin (v / s) = Fin (rnd (v / s))" "0 \<le> rnd (v / s)" using R(1,2) by simp_all
    have "\<bar>rnd (v / s) - v / s\<bar> \<le> 1 / 2 ^ 53" unfolding ulp_two [symmetric] using R(3) by simp
    then show "rnd (v / s) \<le> v / s + 1 / 2 ^ 53" by linarith
  qed
  have "sum_list ws \<le> sum_list (map (\<lambda>v. v / s + 1 / 2 ^ 53) vs)"
    unfolding ws_def using W(3) by (intro sum_list_mono) simp
  also have "\<dots> = S / s + n / 2 ^ 53" unfolding S_def n_def by (induction vs) (simp_all add: add_divide_distrib)
  also have "\<dots> \<le> 1 + 2 powi (- 34)" proof -
    have "S / s \<le> 1 + 1 / 2 ^ 35" by (rule q) simp
    moreover have "n / 2 ^ 53 \<le> 65536 / 2 ^ 53" using n(2) by (intro divide_right_mono) simp_all
    moreover have "1 / 2 ^ 35 + 65536 / 2 ^ 53 \<le> (2 powi (- 34) :: rat)" by (simp add: power_int_minus)
    ultimately show ?thesis by linarith
  qed
  finally have "sum_list ws \<le> 1 + 2 powi (- 34)" .
  moreover have "normalized (map Fin vs) = map Fin ws"
    using s(1) s0 W(1) by (simp add: normalized_def Let_def ws_def)
  ultimately show ?thesis using W(2) by (intro exI [of _ ws]) (auto simp: ws_def)
qed

text \<open>A cumulative weight that exceeds one only by rounding gives a target within the order.\<close>

lemma slot_target_bounds:
  assumes "0 \<le> c" "c \<le> 1 + 2 powi (- 33)" "0 \<le> q" "q < 2 ^ 31"
  shows "0 \<le> slot_target q (Fin c) \<and> slot_target q (Fin c) \<le> q"
proof -
  define Q where "Q = (of_int q :: rat)"
  have Q: "0 \<le> Q" "Q < 2 ^ 31"
    using assms of_int_less_iff [where ?'a = rat, of q "2 ^ 31"] by (simp_all add: Q_def)
  have "c * Q \<le> (1 + 2 powi (- 33)) * Q" using assms(2) Q by (intro mult_right_mono) simp_all
  also have "\<dots> \<le> Q + 1 / 4" using Q by (simp add: power_int_minus field_simps)
  finally have cq: "c * Q \<le> Q + 1 / 4" .
  have y: "fin (c * Q) = Fin (rnd (c * Q))" "0 \<le> rnd (c * Q)" "\<bar>rnd (c * Q) - c * Q\<bar> \<le> 2 powi (32 - 54)"
    using rnd_below [of "c * Q" 32] cq Q assms(1) by simp_all
  have half: "2 powi (32 - 54) \<le> (1 / 16 :: rat)" by (simp add: power_int_minus)
  define z where "z = rnd (c * Q) + 1 / 2"
  have zQ: "0 \<le> z" "z \<le> Q + 7 / 8" using y(2,3) cq half unfolding z_def by linarith+
  have z: "fin z = Fin (rnd z)" "0 \<le> rnd z" "\<bar>rnd z - z\<bar> \<le> 2 powi (32 - 54)"
    using rnd_below [of z 32] zQ Q by simp_all
  have "rnd z < Q + 1" using z(3) zQ(2) half by linarith
  then have "trunc (rnd z) \<le> q" "0 \<le> trunc (rnd z)"
    using z(2) by (simp_all add: trunc_def Q_def floor_le_iff)
  moreover have "slot_target q (Fin c) = d_to_s32 (Fin (rnd z))"
    using assms y(1) z(1) by (simp add: slot_target_def d_of_int_small Q_def [symmetric] z_def)
  ultimately show ?thesis using assms by simp
qed

definition profile_ok :: "rat list \<Rightarrow> bool" where
  "profile_ok vs \<longleftrightarrow> list_all (\<lambda>v. 0 \<le> v) vs \<and> length vs \<le> 2 ^ 16 \<and>
     (sum_list vs = 0 \<or> 1 / 2 ^ 300 \<le> sum_list vs \<and> sum_list vs \<le> 2 ^ 90)"

lemma normalized_ok:
  assumes "profile_ok vs"
  shows "\<exists>ws. normalized (map Fin vs) = map Fin ws \<and> (\<forall>w\<in>set ws. 0 \<le> w) \<and> sum_list ws \<le> 1 + 2 powi (- 34)"
proof (cases "sum_list vs = 0")
  case True
  have "foldl dadd (Fin 0) (map Fin vs) = Fin 0" if "\<forall>v\<in>set vs. v = 0" for vs
    using that by (induction vs) (simp_all add: fin_def)
  moreover have "\<forall>v\<in>set vs. v = 0"
    using assms True sum_list_nonneg_eq_0_iff [of vs] by (auto simp: profile_ok_def list_all_iff)
  ultimately have "normalized (map Fin vs) = map Fin vs" by (simp add: normalized_def)
  moreover have "\<forall>w\<in>set vs. 0 \<le> w" using assms by (simp add: profile_ok_def list_all_iff)
  ultimately show ?thesis using True by (intro exI [of _ vs]) simp
next
  case False
  have "2 powi (- 900) \<le> (1 / 2 ^ 300 :: rat)" by (simp add: power_int_minus)
  then have "2 powi (- 900) \<le> sum_list vs" using False assms unfolding profile_ok_def by linarith
  moreover have "\<forall>v\<in>set vs. 0 \<le> v" "length vs \<le> 2 ^ 16" "sum_list vs \<le> 2 powi 90"
    using False assms by (simp_all add: profile_ok_def list_all_iff)
  ultimately show ?thesis using normalized_sum by blast
qed

lemma target_loop_bounds:
  assumes "0 \<le> c" "\<forall>w\<in>set ws. 0 \<le> w" "c + sum_list ws + of_nat k / 2 ^ 53 \<le> 1 + 2 powi (- 33)" "0 \<le> q" "q < 2 ^ 31"
  shows "\<forall>x\<in>set (target_loop k q (map Fin ws) (Fin c)). 0 \<le> x \<and> x \<le> q"
  using assms
proof (induction k arbitrary: ws c)
  case (Suc k)
  define w where "w = (case ws of [] \<Rightarrow> 0 | v # _ \<Rightarrow> v)"
  have w: "(case map Fin ws of [] \<Rightarrow> Fin 0 | v # _ \<Rightarrow> v) = Fin w" "sum_list ws = w + sum_list (tl ws)" "0 \<le> w"
    using Suc.prems(2) by (cases ws; simp add: w_def)+
  have rest: "0 \<le> sum_list (tl ws)" "\<forall>v\<in>set (tl ws). 0 \<le> v"
    using Suc.prems(2) by (cases ws; auto intro: sum_list_nonneg)+
  define d where "d = rnd (c + w)"
  have b: "2 powi (- 33) \<le> (1 / 2 :: rat)" by (simp add: power_int_minus)
  have P: "c + w + sum_list (tl ws) + of_nat k / 2 ^ 53 + 1 / 2 ^ 53 \<le> 1 + 2 powi (- 33)"
    using Suc.prems(3) w(2) by (simp add: add_divide_distrib add.assoc add.commute [of 1])
  have k: "0 \<le> (of_nat k / 2 ^ 53 :: rat)" by simp
  have "c + w \<le> 1 + 2 powi (- 33)" using P rest(1) k by simp
  then have "c + w < 2" using b by linarith
  then have "fin (c + w) = Fin d" "0 \<le> d" "\<bar>d - (c + w)\<bar> \<le> 2 powi (1 - 54)"
    using rnd_below [of "c + w" 1] Suc.prems(1) w(3) unfolding d_def by simp_all
  moreover from this(3) have "d \<le> c + w + 1 / 2 ^ 53" unfolding ulp_two by linarith
  ultimately have d: "fin (c + w) = Fin d" "0 \<le> d" "d \<le> c + w + 1 / 2 ^ 53" by blast+
  have D: "d + sum_list (tl ws) + of_nat k / 2 ^ 53 \<le> 1 + 2 powi (- 33)" using d(3) P by linarith
  then have "d \<le> 1 + 2 powi (- 33)" using rest(1) k by linarith
  note T = slot_target_bounds [OF d(2) this Suc.prems(4,5)]
  have "target_loop (Suc k) q (map Fin ws) (Fin c) =
      (if k = 0 then q else slot_target q (Fin d)) # target_loop k q (map Fin (tl ws)) (Fin d)"
    using w(1) d(1) by (simp add: map_tl Let_def)
  then show ?case using Suc.IH [OF d(2) rest(2) D Suc.prems(4,5)] T Suc.prems(4) by auto
qed simp

lemma target_loop_shape:
  "length (target_loop k q ps c) = k" "0 < k \<Longrightarrow> target_loop k q ps c ! (k - 1) = q"
proof (induction k arbitrary: ps c)
  case (Suc k)
  { case 1 show ?case using Suc(1) by (simp add: Let_def) }
  { case 2 show ?case using Suc(2) by (cases k) (simp_all add: Let_def) }
qed simp_all

lemma vwap_targets:
  assumes "vwap0 p (map Fin vs) = Some x" "profile_ok vs" "0 < num_slices p" "num_slices p \<le> 2 ^ 16"
    and "0 \<le> total_qty p" "total_qty p < 2 ^ 31"
  shows "length (vw_targets x) = nat (num_slices p)" "vw_targets x ! nat (num_slices p - 1) = total_qty p"
    "\<forall>y\<in>set (vw_targets x). 0 \<le> y \<and> y \<le> total_qty p"
proof -
  obtain ws where ws: "normalized (map Fin vs) = map Fin ws" "\<forall>w\<in>set ws. 0 \<le> w" "sum_list ws \<le> 1 + 2 powi (- 34)"
    using normalized_ok [OF assms(2)] by blast
  have x: "vw_targets x = target_loop (nat (num_slices p)) (total_qty p) (map Fin ws) (Fin 0)"
    using assms(1) ws(1) by (auto simp: vwap0_def Let_def split: if_splits)
  show "length (vw_targets x) = nat (num_slices p)" by (simp add: x target_loop_shape)
  show "vw_targets x ! nat (num_slices p - 1) = total_qty p"
    using target_loop_shape(2) [of "nat (num_slices p)"] assms(3) by (simp add: x nat_diff_distrib)
  have "(of_nat (nat (num_slices p)) :: rat) \<le> of_nat (2 ^ 16)" using assms(4) by (simp only: of_nat_le_iff) simp
  then have "of_nat (nat (num_slices p)) / 2 ^ 53 \<le> (65536 / 2 ^ 53 :: rat)" by (intro divide_right_mono) simp_all
  moreover have "2 powi (- 34) + 65536 / 2 ^ 53 \<le> (2 powi (- 33) :: rat)" by (simp add: power_int_minus)
  ultimately have "0 + sum_list ws + of_nat (nat (num_slices p)) / 2 ^ 53 \<le> 1 + 2 powi (- 33)" using ws(3) by linarith
  from target_loop_bounds [OF _ ws(2) this assms(5,6)] show "\<forall>y\<in>set (vw_targets x). 0 \<le> y \<and> y \<le> total_qty p"
    by (simp add: x)
qed

section \<open>Runs\<close>

datatype exec_event = Tick int | Fill int int

definition child_qty :: "ChildOrder \<Rightarrow> int" where
  "child_qty c = (if co_valid c then co_qty c else 0)"

definition sent :: "ChildOrder list \<Rightarrow> int" where
  "sent cs = sum_list (map child_qty cs)"

lemma sent_simps [simp]: "sent [] = 0" "sent (c # cs) = child_qty c + sent cs" "sent (cs @ ds) = sent cs + sent ds"
  by (simp_all add: sent_def)

lemma child_qty_simps [simp]: "child_qty child0 = 0" "child_qty (market_child q) = q" "co_valid (market_child q)" "\<not> co_valid child0"
  by (simp_all add: child_qty_def child0_def market_child_def)

text \<open>A run collects the child orders of its ticks.\<close>

fun exec_run :: "(int \<Rightarrow> 's \<Rightarrow> 's \<times> ChildOrder) \<Rightarrow> (int \<Rightarrow> int \<Rightarrow> 's \<Rightarrow> 's) \<Rightarrow> exec_event list \<Rightarrow> 's \<Rightarrow> 's \<times> ChildOrder list" where
  "exec_run tick fill [] x = (x, [])"
| "exec_run tick fill (Tick t # es) x = (let (y, c) = tick t x; (z, cs) = exec_run tick fill es y in (z, c # cs))"
| "exec_run tick fill (Fill q p # es) x = exec_run tick fill es (fill q p x)"

text \<open>No fill reports more than what has been sent so far.\<close>

fun covered :: "(int \<Rightarrow> 's \<Rightarrow> 's \<times> ChildOrder) \<Rightarrow> (int \<Rightarrow> int \<Rightarrow> 's \<Rightarrow> 's) \<Rightarrow> ('s \<Rightarrow> int) \<Rightarrow> int \<Rightarrow> exec_event list \<Rightarrow> 's \<Rightarrow> bool" where
  "covered tick fill filled a [] x = True"
| "covered tick fill filled a (Tick t # es) x = covered tick fill filled (a + child_qty (snd (tick t x))) es (fst (tick t x))"
| "covered tick fill filled a (Fill q p # es) x =
     ((if 0 < q \<and> 0 < p then filled x + q \<le> a else True) \<and> covered tick fill filled a es (fill q p x))"

text \<open>What both executors promise about a tick and a fill.\<close>

locale slicing =
  fixes tick :: "int \<Rightarrow> 's \<Rightarrow> 's \<times> ChildOrder"
    and fill :: "int \<Rightarrow> int \<Rightarrow> 's \<Rightarrow> 's"
    and filled :: "'s \<Rightarrow> int"
  assumes tick_filled: "filled (fst (tick t x)) = filled x"
    and fill_filled: "filled (fill q p x) = (if 0 < q \<and> 0 < p then s64 (filled x + q) else filled x)"
    and child_nonneg: "0 \<le> child_qty (snd (tick t x))"
begin

lemma fill_within:
  assumes "if 0 < q \<and> 0 < p then filled x + q \<le> a else True" "0 \<le> filled x" "filled x \<le> a" "a < 2 ^ 31"
  shows "0 \<le> filled (fill q p x) \<and> filled (fill q p x) \<le> a"
  using assms by (auto simp: fill_filled s64_id)

lemma run_append:
  "exec_run tick fill (es @ fs) x =
     (let (y, cs) = exec_run tick fill es x; (z, ds) = exec_run tick fill fs y in (z, cs @ ds))"
proof (induction es arbitrary: x)
  case (Cons e es)
  then show ?case by (cases e) (simp_all add: split_beta Let_def)
qed (simp add: split_beta)

lemma covered_append:
  "covered tick fill filled a (es @ fs) x \<longleftrightarrow>
     covered tick fill filled a es x \<and>
     covered tick fill filled (a + sent (snd (exec_run tick fill es x))) fs (fst (exec_run tick fill es x))"
  by (induction tick fill filled a es x rule: covered.induct) (simp_all add: split_beta Let_def add.assoc)

lemma sent_nonneg: "0 \<le> sent (snd (exec_run tick fill es x))"
proof (induction es arbitrary: x)
  case (Cons e es)
  then show ?case using child_nonneg by (cases e) (simp_all add: split_beta Let_def)
qed simp

lemma run_keeps:
  assumes "\<And>cs x t. I cs x \<Longrightarrow> 0 \<le> filled x \<Longrightarrow> filled x \<le> sent cs \<Longrightarrow> I (cs @ [snd (tick t x)]) (fst (tick t x))"
    and "\<And>cs x q p. I cs x \<Longrightarrow> I cs (fill q p x)"
    and "\<And>cs x. I cs x \<Longrightarrow> sent cs < 2 ^ 31"
    and "covered tick fill filled (sent cs) es x" "I cs x" "0 \<le> filled x" "filled x \<le> sent cs"
  shows "I (cs @ snd (exec_run tick fill es x)) (fst (exec_run tick fill es x)) \<and>
    0 \<le> filled (fst (exec_run tick fill es x)) \<and>
    filled (fst (exec_run tick fill es x)) \<le> sent (cs @ snd (exec_run tick fill es x))"
  using assms(4-)
proof (induction es arbitrary: cs x)
  case (Cons ev es)
  show ?case
  proof (cases ev)
    case (Tick t)
    obtain y c where t: "tick t x = (y, c)" by force
    have "filled y = filled x" "0 \<le> child_qty c" using tick_filled [of t x] child_nonneg [of t x] t by simp_all
    then have "covered tick fill filled (sent (cs @ [c])) es y" "0 \<le> filled y" "filled y \<le> sent (cs @ [c])"
      using Cons.prems t Tick by simp_all
    moreover have "I (cs @ [c]) y" using assms(1) [OF Cons.prems(2-4), of t] t by simp
    ultimately have "I ((cs @ [c]) @ snd (exec_run tick fill es y)) (fst (exec_run tick fill es y)) \<and>
        0 \<le> filled (fst (exec_run tick fill es y)) \<and>
        filled (fst (exec_run tick fill es y)) \<le> sent ((cs @ [c]) @ snd (exec_run tick fill es y))"
      by (intro Cons.IH)
    then show ?thesis using Tick t by (simp add: split_beta)
  next
    case (Fill q p)
    then have "covered tick fill filled (sent cs) es (fill q p x)"
      and "if 0 < q \<and> 0 < p then filled x + q \<le> sent cs else True" using Cons.prems(1) by auto
    then show ?thesis using Cons.IH [of cs "fill q p x"] fill_within [of q p x] assms(2,3) Cons.prems(2-4) Fill by simp
  qed
qed simp

end

abbreviation tw_filled :: "TWAPExecutor \<Rightarrow> int" where
  "tw_filled x \<equiv> filled_qty (tw_stats x)"

abbreviation vw_filled :: "VWAPExecutor \<Rightarrow> int" where
  "vw_filled x \<equiv> filled_qty (vw_stats x)"

interpretation twap: slicing twap_on_tick twap_apply_fill tw_filled
  by unfold_locales (simp_all add: twap_on_tick_def twap_apply_fill_def stats_fill_def Let_def)

interpretation vwap: slicing vwap_on_tick vwap_apply_fill vw_filled
  by unfold_locales (simp_all add: vwap_on_tick_def vwap_apply_fill_def stats_fill_def Let_def)

section \<open>Volume profile\<close>

definition vw_inv :: "ParentOrder \<Rightarrow> int list \<Rightarrow> ChildOrder list \<Rightarrow> VWAPExecutor \<Rightarrow> bool" where
  "vw_inv p targets cs x \<longleftrightarrow> vw_parent x = p \<and> vw_targets x = targets \<and> vw_secs x = slice_seconds p \<and>
     sent cs = vw_emitted_qty x \<and> 0 \<le> vw_emitted_qty x \<and> vw_emitted_qty x \<le> total_qty p \<and>
     0 \<le> vw_next_slot x \<and> vw_next_slot x \<le> num_slices p \<and>
     (vw_next_slot x = num_slices p \<longrightarrow> vw_emitted_qty x = total_qty p) \<and>
     slices_emitted (vw_stats x) = int (length (filter co_valid cs)) \<and> 0 \<le> slices_skipped (vw_stats x) \<and>
     slices_emitted (vw_stats x) + slices_skipped (vw_stats x) \<le> vw_next_slot x"

definition targets_ok :: "ParentOrder \<Rightarrow> int list \<Rightarrow> bool" where
  "targets_ok p tg \<longleftrightarrow> 0 < num_slices p \<and> num_slices p \<le> 2 ^ 16 \<and> 0 \<le> total_qty p \<and> total_qty p < 2 ^ 31 \<and>
     length tg = nat (num_slices p) \<and> tg ! nat (num_slices p - 1) = total_qty p \<and> (\<forall>y\<in>set tg. 0 \<le> y \<and> y \<le> total_qty p)"

lemma vw_slot:
  assumes "targets_ok p tg" "vw_inv p tg cs x" "vw_next_slot x \<le> slot" "slot < num_slices p"
  defines "d \<equiv> tg ! nat slot - vw_emitted_qty x"
  shows "s32 d = d" "0 < d \<Longrightarrow> s32 (vw_emitted_qty x + d) = tg ! nat slot"
    "0 \<le> tg ! nat slot" "tg ! nat slot \<le> total_qty p" "slot = num_slices p - 1 \<Longrightarrow> tg ! nat slot = total_qty p"
    "s32 (slices_emitted (vw_stats x) + 1) = slices_emitted (vw_stats x) + 1"
    "s32 (slices_skipped (vw_stats x) + 1) = slices_skipped (vw_stats x) + 1"
proof -
  have "nat slot < length tg" using assms by (auto simp: targets_ok_def vw_inv_def)
  then have "tg ! nat slot \<in> set tg" by simp
  then show b: "0 \<le> tg ! nat slot" "tg ! nat slot \<le> total_qty p" using assms(1) by (simp_all add: targets_ok_def)
  show "slot = num_slices p - 1 \<Longrightarrow> tg ! nat slot = total_qty p" using assms(1) by (simp add: targets_ok_def)
  show "s32 d = d" "0 < d \<Longrightarrow> s32 (vw_emitted_qty x + d) = tg ! nat slot"
    using b assms(1,2) unfolding d_def by (auto simp: targets_ok_def vw_inv_def intro!: s32_id)
  have "0 \<le> slices_emitted (vw_stats x)" "0 \<le> slices_skipped (vw_stats x)"
    "slices_emitted (vw_stats x) + slices_skipped (vw_stats x) \<le> 2 ^ 16"
    using assms(1,2) by (auto simp: targets_ok_def vw_inv_def)
  then show "s32 (slices_emitted (vw_stats x) + 1) = slices_emitted (vw_stats x) + 1"
    "s32 (slices_skipped (vw_stats x) + 1) = slices_skipped (vw_stats x) + 1" by (auto intro!: s32_id)
qed

lemma vw_tick:
  assumes ok: "targets_ok p tg" and I: "vw_inv p tg cs x" and f: "0 \<le> vw_filled x" "vw_filled x \<le> sent cs"
  shows "vw_inv p tg (cs @ [snd (vwap_on_tick t x)]) (fst (vwap_on_tick t x)) \<and>
    (start_ts_sec p \<le> t \<longrightarrow> slot_at p (slice_seconds p) t = num_slices p - 1 \<longrightarrow> sent (cs @ [snd (vwap_on_tick t x)]) = total_qty p)"
proof -
  define slot where "slot = slot_at p (slice_seconds p) t"
  have P: "vw_parent x = p" "vw_secs x = slice_seconds p" "vw_targets x = tg" "sent cs = vw_emitted_qty x"
    "vw_emitted_qty x \<le> total_qty p" "num_slices p > 0" "vw_next_slot x \<le> num_slices p"
    "vw_next_slot x = num_slices p \<Longrightarrow> vw_emitted_qty x = total_qty p"
    using I ok by (auto simp: vw_inv_def targets_ok_def)
  have idle: "vw_inv p tg (cs @ [child0]) x" using I by (simp add: vw_inv_def)
  consider "vw_filled x \<ge> total_qty p" | "vw_filled x < total_qty p" "t < start_ts_sec p \<or> num_slices p \<le> slot"
    | "vw_filled x < total_qty p" "\<not> t < start_ts_sec p" "slot < vw_next_slot x"
    | "vw_filled x < total_qty p" "\<not> t < start_ts_sec p" "vw_next_slot x \<le> slot" "slot < num_slices p"
    by linarith
  then show ?thesis
  proof cases
    case 1
    then show ?thesis using idle P f by (simp add: vwap_on_tick_def Let_def)
  next
    case 2
    then show ?thesis using idle P(1-3,6) by (auto simp: vwap_on_tick_def Let_def slot_def [symmetric])
  next
    case 3
    then have "slot = num_slices p - 1 \<Longrightarrow> vw_emitted_qty x = total_qty p" using P by simp
    with 3 show ?thesis using idle P(1-4,6) by (simp add: vwap_on_tick_def Let_def slot_def [symmetric])
  next
    case 4
    note S = vw_slot [OF ok I 4(3,4)]
    show ?thesis
    proof (cases "tg ! nat slot - vw_emitted_qty x \<le> 0")
      case True
      then have "vwap_on_tick t x = (x \<lparr>vw_next_slot := slot + 1,
          vw_stats := vw_stats x \<lparr>slices_skipped := slices_skipped (vw_stats x) + 1\<rparr>\<rparr>, child0)"
        using 4 P(1-3,6) S(1,7) by (simp add: vwap_on_tick_def Let_def slot_def [symmetric])
      moreover have "vw_emitted_qty x = total_qty p" if "slot + 1 = num_slices p" using S(5) True P(5) that by simp
      ultimately show ?thesis using I 4 P(4) by (auto simp: vw_inv_def slot_def [symmetric])
    next
      case False
      then have "vwap_on_tick t x = (x \<lparr>vw_next_slot := slot + 1, vw_emitted_qty := tg ! nat slot,
          vw_stats := vw_stats x \<lparr>slices_emitted := slices_emitted (vw_stats x) + 1\<rparr>\<rparr>, market_child (tg ! nat slot - vw_emitted_qty x))"
        using 4 P(1-3,6) S(1,2,6) by (simp add: vwap_on_tick_def Let_def slot_def [symmetric])
      moreover have "tg ! nat slot = total_qty p" if "slot + 1 = num_slices p" using S(5) that by simp
      ultimately show ?thesis using I S(3,4) 4 P(4) by (auto simp: vw_inv_def slot_def [symmetric])
    qed
  qed
qed

lemma vw_fill: "vw_inv p tg cs x \<Longrightarrow> vw_inv p tg cs (vwap_apply_fill q px x)"
  by (simp add: vw_inv_def vwap_apply_fill_def stats_fill_def)

lemma vw_run:
  assumes ok: "targets_ok p tg" and "vw_inv p tg cs x" "0 \<le> vw_filled x" "vw_filled x \<le> sent cs"
    and "covered vwap_on_tick vwap_apply_fill vw_filled (sent cs) es x"
  shows "vw_inv p tg (cs @ snd (exec_run vwap_on_tick vwap_apply_fill es x)) (fst (exec_run vwap_on_tick vwap_apply_fill es x)) \<and>
    0 \<le> vw_filled (fst (exec_run vwap_on_tick vwap_apply_fill es x)) \<and>
    vw_filled (fst (exec_run vwap_on_tick vwap_apply_fill es x)) \<le> sent (cs @ snd (exec_run vwap_on_tick vwap_apply_fill es x))"
proof (rule vwap.run_keeps [where I = "vw_inv p tg", OF _ _ _ assms(5,2-4)])
  show "sent cs < 2 ^ 31" if "vw_inv p tg cs x" for cs x
    using that ok by (auto simp: vw_inv_def targets_ok_def)
qed (use vw_tick [OF ok] vw_fill in blast)+

fun in_last_slot :: "ParentOrder \<Rightarrow> exec_event \<Rightarrow> bool" where
  "in_last_slot p (Tick t) = (start_ts_sec p \<le> t \<and> slot_at p (slice_seconds p) t = num_slices p - 1)"
| "in_last_slot p (Fill q px) = False"

lemma vw_run_full:
  assumes ok: "targets_ok p tg" and I: "vw_inv p tg [] x" "vw_filled x = 0"
    and c: "covered vwap_on_tick vwap_apply_fill vw_filled 0 es x"
    and t: "Tick t \<in> set es" "start_ts_sec p \<le> t" "slot_at p (slice_seconds p) t = num_slices p - 1"
  shows "sent (snd (exec_run vwap_on_tick vwap_apply_fill es x)) = total_qty p"
proof -
  obtain as bs where es: "es = as @ Tick t # bs" using t(1) by (meson split_list)
  obtain y cs where r: "exec_run vwap_on_tick vwap_apply_fill as x = (y, cs)" by force
  have ca: "covered vwap_on_tick vwap_apply_fill vw_filled 0 as x" using c by (simp add: es vwap.covered_append)
  have y: "vw_inv p tg cs y" "0 \<le> vw_filled y" "vw_filled y \<le> sent cs"
    using vw_run [OF ok I(1) _ _ , of as] ca I(2) r by simp_all
  obtain z k where tk: "vwap_on_tick t y = (z, k)" by force
  have "sent cs + child_qty k = total_qty p" using vw_tick [OF ok y, of t] t(2,3) tk by simp
  then have "total_qty p \<le> sent (snd (exec_run vwap_on_tick vwap_apply_fill es x))"
    using vwap.sent_nonneg [of bs z] by (simp add: es vwap.run_append r tk split_beta Let_def)
  moreover have "sent (snd (exec_run vwap_on_tick vwap_apply_fill es x)) \<le> total_qty p"
    using vw_run [OF ok I(1) _ _ , of es] c I(2) by (simp add: vw_inv_def)
  ultimately show ?thesis by simp
qed

section \<open>Equal slices\<close>

text \<open>The ticks of a run visit the slots one after the other, from slot \<open>k\<close> to the last one.\<close>

fun steady :: "ParentOrder \<Rightarrow> int \<Rightarrow> exec_event list \<Rightarrow> bool" where
  "steady p k [] = (k = num_slices p)"
| "steady p k (Fill q px # es) = steady p k es"
| "steady p k (Tick t # es) =
     (let slot = slot_at p (slice_seconds p) t
      in if t < start_ts_sec p \<or> slot < k \<or> num_slices p \<le> slot then steady p k es
         else slot = k \<and> steady p (k + 1) es)"

definition tw_inv :: "ParentOrder \<Rightarrow> int \<Rightarrow> ChildOrder list \<Rightarrow> TWAPExecutor \<Rightarrow> bool" where
  "tw_inv p k cs x \<longleftrightarrow> tw_parent x = p \<and> tw_secs x = slice_seconds p \<and> tw_slice_size x = total_qty p div num_slices p \<and>
     slices_emitted (tw_stats x) = k \<and> 0 \<le> k \<and> k \<le> num_slices p \<and> int (length (filter co_valid cs)) = k \<and>
     sent cs = (if k = num_slices p then total_qty p else k * (total_qty p div num_slices p)) \<and>
     0 \<le> tw_filled x \<and> tw_filled x \<le> sent cs"

definition slices_ok :: "ParentOrder \<Rightarrow> bool" where
  "slices_ok p \<longleftrightarrow> 0 < num_slices p \<and> num_slices p \<le> total_qty p \<and> total_qty p < 2 ^ 31"

lemma slice_arith:
  fixes n q k :: int
  assumes "0 < n" "n \<le> q" "0 \<le> k" "k < n"
  shows "0 < q div n" "k * (q div n) < q" "k * (q div n) + q div n \<le> q"
    "k = n - 1 \<Longrightarrow> q - q div n * (n - 1) = q - k * (q div n)"
proof -
  show d: "0 < q div n" using assms by (simp add: pos_imp_zdiv_pos_iff)
  have "(k + 1) * (q div n) \<le> n * (q div n)" using assms d by (intro mult_right_mono) simp_all
  moreover have "n * (q div n) \<le> q" using pos_mod_sign [OF assms(1), of q] mult_div_mod_eq [of n q] by linarith
  ultimately have "(k + 1) * (q div n) \<le> q" by linarith
  then show "k * (q div n) + q div n \<le> q" by (simp add: distrib_right)
  then show "k * (q div n) < q" using d by linarith
qed simp

lemma tw_slot:
  assumes "slices_ok p" "tw_inv p k cs x" "k < num_slices p"
  shows "twap_qty x k = (if k = num_slices p - 1 then total_qty p - k * (total_qty p div num_slices p) else total_qty p div num_slices p)"
    "tw_filled x < total_qty p"
proof -
  note ok = assms(1) [unfolded slices_ok_def] and I = assms(2) [unfolded tw_inv_def]
  define d where "d = total_qty p div num_slices p"
  have A: "0 < d" "k * d < total_qty p" "k * d + d \<le> total_qty p" "k = num_slices p - 1 \<Longrightarrow> total_qty p - d * (num_slices p - 1) = total_qty p - k * d"
    using slice_arith [of "num_slices p" "total_qty p" k] ok I assms(3) by (simp_all add: d_def)
  have F: "0 \<le> tw_filled x" "tw_filled x \<le> k * d" using I assms(3) by (simp_all add: d_def)
  then show "tw_filled x < total_qty p" using A by linarith
  have kd: "0 \<le> k * d" using I A(1) by simp
  have r: "s32 (tw_filled x) = tw_filled x" "s32 (total_qty p - tw_filled x) = total_qty p - tw_filled x"
    using F A ok by (auto intro!: s32_id)
  have l: "s32 (d * (num_slices p - 1)) = d * (num_slices p - 1)" "s32 (total_qty p - d * (num_slices p - 1)) = total_qty p - d * (num_slices p - 1)"
    if "k = num_slices p - 1"
    using that A(2) kd ok by (auto simp: mult.commute intro!: s32_id)
  show "twap_qty x k = (if k = num_slices p - 1 then total_qty p - k * (total_qty p div num_slices p) else total_qty p div num_slices p)"
  proof (cases "k = num_slices p - 1")
    case True
    have "twap_qty x k = (if total_qty p - k * d > total_qty p - tw_filled x then total_qty p - tw_filled x else total_qty p - k * d)"
      unfolding twap_qty_def Let_def using I r l [OF True] True
      by (simp add: d_def mult.commute [of "total_qty p div num_slices p" "num_slices p - 1"])
    then show ?thesis using True F by (simp add: d_def)
  next
    case False
    have "twap_qty x k = (if d > total_qty p - tw_filled x then total_qty p - tw_filled x else d)"
      unfolding twap_qty_def Let_def using I r False by (simp add: d_def)
    then show ?thesis using False F A(3) by (simp add: d_def)
  qed
qed

lemma tw_tick_next:
  assumes ok: "slices_ok p" and I: "tw_inv p k cs x" and "k < num_slices p" "start_ts_sec p \<le> t" "slot_at p (slice_seconds p) t = k"
  shows "tw_inv p (k + 1) (cs @ [snd (twap_on_tick t x)]) (fst (twap_on_tick t x))"
proof -
  define d where "d = total_qty p div num_slices p"
  have A: "0 < d" "k * d < total_qty p"
    using slice_arith [of "num_slices p" "total_qty p" k] ok I assms(3) by (simp_all add: d_def slices_ok_def tw_inv_def)
  note S = tw_slot [OF ok I assms(3), folded d_def]
  have "0 < twap_qty x k" using S(1) A by (simp split: if_splits)
  moreover have "s32 (k + 1) = k + 1" using I ok assms(3) by (intro s32_id) (auto simp: tw_inv_def slices_ok_def)
  ultimately have "twap_on_tick t x = (x \<lparr>tw_stats := tw_stats x \<lparr>slices_emitted := k + 1\<rparr>\<rparr>, market_child (twap_qty x k))"
    using I assms(3-5) S(2) by (simp add: twap_on_tick_def Let_def tw_inv_def)
  then show ?thesis using I S A assms(3) by (auto simp: tw_inv_def d_def [symmetric] distrib_right)
qed

lemma tw_tick_idle:
  assumes "t < start_ts_sec p \<or> slot_at p (slice_seconds p) t < k \<or> num_slices p \<le> slot_at p (slice_seconds p) t" "tw_inv p k cs x"
  shows "twap_on_tick t x = (x, child0)"
  using assms by (auto simp: twap_on_tick_def Let_def tw_inv_def)

lemma tw_fill:
  assumes "slices_ok p" "tw_inv p k cs x" "if 0 < q \<and> 0 < px then tw_filled x + q \<le> sent cs else True"
  shows "tw_inv p k cs (twap_apply_fill q px x)"
proof -
  have "0 \<le> k" "k \<le> num_slices p" using assms(2) by (simp_all add: tw_inv_def)
  then have "sent cs < 2 ^ 31"
    using assms(1,2) slice_arith(2) [of "num_slices p" "total_qty p" k] by (auto simp: tw_inv_def slices_ok_def)
  then have "0 \<le> tw_filled (twap_apply_fill q px x) \<and> tw_filled (twap_apply_fill q px x) \<le> sent cs"
    using twap.fill_within [OF assms(3)] assms(2) by (simp add: tw_inv_def)
  then show ?thesis using assms(2) by (auto simp: tw_inv_def twap_apply_fill_def stats_fill_def)
qed

lemma tw_run:
  assumes "slices_ok p" "tw_inv p k cs x" "steady p k es" "covered twap_on_tick twap_apply_fill tw_filled (sent cs) es x"
  shows "tw_inv p (num_slices p) (cs @ snd (exec_run twap_on_tick twap_apply_fill es x)) (fst (exec_run twap_on_tick twap_apply_fill es x))"
  using assms(2-)
proof (induction es arbitrary: k cs x)
  case (Cons ev es)
  show ?case
  proof (cases ev)
    case (Tick t)
    let ?idle = "t < start_ts_sec p \<or> slot_at p (slice_seconds p) t < k \<or> num_slices p \<le> slot_at p (slice_seconds p) t"
    obtain y c where t: "twap_on_tick t x = (y, c)" by force
    have "\<exists>k'. tw_inv p k' (cs @ [c]) y \<and> steady p k' es"
    proof (cases ?idle)
      case True
      then have "y = x" "c = child0" using tw_tick_idle [OF _ Cons.prems(1)] t by simp_all
      then show ?thesis using True Cons.prems(1,2) Tick by (intro exI [of _ k]) (auto simp: tw_inv_def Let_def)
    next
      case False
      then have k: "slot_at p (slice_seconds p) t = k" "steady p (k + 1) es" using Cons.prems(2) Tick by (simp_all add: Let_def)
      then show ?thesis using tw_tick_next [OF assms(1) Cons.prems(1), of t] False t by (intro exI [of _ "k + 1"]) simp
    qed
    then obtain k' where "tw_inv p k' (cs @ [c]) y" "steady p k' es" by blast
    from Cons.IH [OF this] show ?thesis using Cons.prems(3) Tick t by (simp add: split_beta)
  next
    case (Fill q px)
    then show ?thesis using Cons.IH [OF tw_fill [OF assms(1) Cons.prems(1), of q px]] Cons.prems(2,3) by simp
  qed
qed simp

section \<open>Benchmark\<close>

definition market_after :: "(int \<times> int) list \<Rightarrow> MarketVWAPTracker" where
  "market_after fs = fold (\<lambda>(q, px). on_trade px q) fs market0"

definition stats_after :: "(int \<times> int) list \<Rightarrow> ExecStats" where
  "stats_after fs = fold (\<lambda>(q, px). stats_fill q px) fs stats0"

definition value_of :: "(int \<times> int) list \<Rightarrow> int" where
  "value_of fs = sum_list (map (\<lambda>(q, px). q * px) fs)"

definition priced_within :: "int \<Rightarrow> int \<Rightarrow> (int \<times> int) list \<Rightarrow> bool" where
  "priced_within lo hi fs \<longleftrightarrow> list_all (\<lambda>(q, px). 0 < q \<and> lo \<le> px \<and> px \<le> hi) fs"

lemma value_bounds:
  assumes "priced_within lo hi fs" "0 < lo"
  shows "lo * sum_list (map fst fs) \<le> value_of fs \<and> value_of fs \<le> hi * sum_list (map fst fs) \<and>
    0 \<le> sum_list (map fst fs) \<and> sum_list (map fst fs) \<le> value_of fs \<and> (fs \<noteq> [] \<longrightarrow> 0 < sum_list (map fst fs))"
  using assms(1)
proof (induction fs)
  case (Cons f fs)
  obtain q px where f: "f = (q, px)" by force
  then have p: "0 < q" "lo \<le> px" "px \<le> hi" "priced_within lo hi fs" using Cons.prems by (simp_all add: priced_within_def)
  define m where "m = q * px"
  have "lo * q \<le> m" "m \<le> hi * q" "q \<le> m"
    using p assms(2) mult_left_mono [of lo px q] mult_left_mono [of px hi q] mult_left_mono [of 1 px q]
    by (simp_all add: mult.commute m_def)
  moreover have "value_of (f # fs) = m + value_of fs" "sum_list (map fst (f # fs)) = q + sum_list (map fst fs)"
    by (simp_all add: value_of_def f m_def)
  ultimately show ?case using Cons.IH [OF p(4)] p(1) by (auto simp: distrib_left)
qed (simp add: value_of_def)

lemma accounts_exact:
  assumes "priced_within lo hi fs" "0 < lo" "value_of fs < 2 ^ 63"
  shows "mk_cash (market_after fs) = value_of fs \<and> mk_volume (market_after fs) = sum_list (map fst fs) \<and>
    cash_ticks (stats_after fs) = value_of fs \<and> filled_qty (stats_after fs) = sum_list (map fst fs)"
  using assms
proof (induction fs rule: rev_induct)
  case (snoc f fs)
  obtain q px where f: "f = (q, px)" by force
  have P: "priced_within lo hi fs" "0 < q" "lo \<le> px" using snoc.prems(1) f by (simp_all add: priced_within_def)
  have v: "value_of (fs @ [f]) = value_of fs + q * px" by (simp add: value_of_def f)
  define m where "m = q * px"
  have b: "0 \<le> sum_list (map fst fs)" "sum_list (map fst fs) \<le> value_of fs" using value_bounds [OF P(1) assms(2)] by simp_all
  have "0 < px" using P(3) assms(2) by simp
  then have q: "0 < m" "q \<le> m" using P(2) mult_left_mono [of 1 px q] by (simp_all add: m_def)
  have V: "value_of fs + m < 2 ^ 63" using snoc.prems(3) v by (simp add: m_def)
  then have W: "s64 m = m" "s64 (value_of fs + m) = value_of fs + m"
    "s64 (sum_list (map fst fs) + q) = sum_list (map fst fs) + q" using q b P(2) by (auto intro!: s64_id)
  have IH: "mk_cash (market_after fs) = value_of fs" "mk_volume (market_after fs) = sum_list (map fst fs)"
    "cash_ticks (stats_after fs) = value_of fs" "filled_qty (stats_after fs) = sum_list (map fst fs)"
    using snoc.IH P(1) assms(2) V q by simp_all
  have M: "market_after (fs @ [f]) = on_trade px q (market_after fs)" "stats_after (fs @ [f]) = stats_fill q px (stats_after fs)"
    by (simp_all add: market_after_def stats_after_def f)
  have n: "\<not> px \<le> 0" "\<not> q \<le> 0" using \<open>0 < px\<close> P(2) by simp_all
  have s: "sum_list (map fst (fs @ [f])) = sum_list (map fst fs) + q" by (simp add: f)
  show ?case unfolding s by (simp add: M v on_trade_def stats_fill_def n IH mult.commute [of px q] m_def [symmetric] W)
qed (simp add: market_after_def stats_after_def market0_def stats0_def value_of_def)

section \<open>Properties\<close>

text \<open>
  C21. Slices after a profile: with non-negative weights, not necessarily adding up to one, and fills that never exceed
  what was sent, the child orders of any run never exceed the parent order in spite of the roundings of the
  cumulative weights; each slot is used at most once; and once a tick falls into the last slot the children add up
  to exactly the parent order, whatever slots were missed before.  There are at most \<open>2^16\<close> slices and as many weights.
\<close>

theorem vwap_completes:
  assumes "0 < num_slices p" "num_slices p \<le> 2 ^ 16" "0 \<le> total_qty p" "total_qty p < 2 ^ 31" "profile_ok vs"
    and "vwap0 p (map Fin vs) = Some x" "covered vwap_on_tick vwap_apply_fill vw_filled 0 es x"
    and "exec_run vwap_on_tick vwap_apply_fill es x = (y, cs)"
  shows "sent cs = vw_emitted_qty y \<and> sent cs \<le> total_qty p \<and> vw_filled y \<le> sent cs \<and>
    slices_emitted (vw_stats y) = int (length (filter co_valid cs)) \<and>
    slices_emitted (vw_stats y) + slices_skipped (vw_stats y) \<le> num_slices p \<and>
    (list_ex (in_last_slot p) es \<longrightarrow> sent cs = total_qty p)"
proof -
  have ok: "targets_ok p (vw_targets x)" using vwap_targets [OF assms(6,5,1-4)] assms(1-4) by (simp add: targets_ok_def)
  have x: "vw_inv p (vw_targets x) [] x" "vw_filled x = 0"
    using assms(1,3,6) by (auto simp: vwap0_def vw_inv_def stats0_def Let_def split: if_splits)
  have "vw_inv p (vw_targets x) cs y" "vw_filled y \<le> sent cs" using vw_run [OF ok x(1), of es] x(2) assms(7,8) by simp_all
  moreover have "sent cs = total_qty p"
    if "list_ex (in_last_slot p) es"
  proof -
    note A = that
    obtain ev where ev: "ev \<in> set es" "in_last_slot p ev" using A by (auto simp: list_ex_iff)
    obtain t where t: "ev = Tick t" using ev(2) by (cases ev) simp_all
    show ?thesis using vw_run_full [OF ok x assms(7), of t] ev assms(8) by (simp add: t)
  qed
  ultimately show ?thesis by (auto simp: vw_inv_def)
qed

text \<open>
  C22. Equal slices: when the ticks visit every slot, fills never exceed what was sent and the order has a share for every
  slice, there is exactly one child order per slice and they add up to exactly the parent order, the remainder
  of the division included, whatever part of them has been filled in the meantime.
\<close>

theorem twap_completes:
  assumes "slices_ok p" "steady p 0 es" "covered twap_on_tick twap_apply_fill tw_filled 0 es (twap0 p)"
    and "exec_run twap_on_tick twap_apply_fill es (twap0 p) = (x, cs)"
  shows "sent cs = total_qty p \<and> int (length (filter co_valid cs)) = num_slices p \<and> tw_filled x \<le> total_qty p"
proof -
  have "tw_inv p 0 [] (twap0 p)"
    using assms(1) by (simp add: tw_inv_def twap0_def slices_ok_def stats0_def tdiv_nonneg)
  from tw_run [OF assms(1) this assms(2)] assms(3,4) show ?thesis by (simp add: tw_inv_def)
qed

text \<open>
  C23. The benchmark: the market tracker and the statistics of an executor that see the same trades report the same average
  price, it lies between the lowest and the highest price traded, and the slippage against it is zero.  Prices are positive and
  the value traded fits 64 bits.
\<close>

theorem exec_benchmark_agrees:
  assumes "priced_within lo hi fs" "0 < lo" "hi < 2 ^ 31" "fs \<noteq> []" "value_of fs < 2 ^ 63"
  shows "vwap_ticks (market_after fs) = realized_vwap_ticks (stats_after fs) \<and>
    lo \<le> vwap_ticks (market_after fs) \<and> vwap_ticks (market_after fs) \<le> hi \<and>
    exec_slippage_bps side (realized_vwap_ticks (stats_after fs)) (vwap_ticks (market_after fs)) = Fin 0"
proof -
  note B = value_bounds [OF assms(1,2)]
  define v where "v = value_of fs div sum_list (map fst fs)"
  have n: "0 < sum_list (map fst fs)" using B assms(4) by blast
  have "lo \<le> v" using zdiv_mono1 [of "lo * sum_list (map fst fs)" "value_of fs", OF _ n] B n by (simp add: v_def)
  moreover have "v \<le> hi" using zdiv_mono1 [of "value_of fs" "hi * sum_list (map fst fs)", OF _ n] B n by (simp add: v_def)
  moreover have "s32 v = v" using calculation assms(2,3) by (intro s32_id) simp_all
  moreover have "tdiv (value_of fs) (sum_list (map fst fs)) = v" using B n by (simp add: tdiv_nonneg v_def)
  ultimately have V: "vwap_ticks (market_after fs) = v" "realized_vwap_ticks (stats_after fs) = v" "lo \<le> v" "v \<le> hi"
    using accounts_exact [OF assms(1,2,5)] n by (simp_all add: vwap_ticks_def realized_vwap_ticks_def)
  have "0 < v" "d_of_int v = Fin (of_int v)" using V(3,4) assms(2,3) by (auto intro: d_of_int_small)
  then have "exec_slippage_bps side v v = Fin 0"
    by (simp add: exec_slippage_bps_def Let_def s32_id fin_def d_of_int_small [of 0])
  then show ?thesis using V by simp
qed

section \<open>Witnesses\<close>

definition day :: "int \<Rightarrow> int \<Rightarrow> ParentOrder" where
  "day qty n = parent0 \<lparr>total_qty := qty, duration_sec := n, num_slices := n\<rparr>"

theorem vwap_completes_witness:
  "sent (snd (exec_run vwap_on_tick vwap_apply_fill [Tick 0, Fill 1 100, Tick 3] (the (vwap0 (day 10 4) (map Fin [1, 2, 3, 4]))))) = 10"
proof -
  let ?es = "[Tick 0, Fill 1 100, Tick 3]" and ?x = "the (vwap0 (day 10 4) (map Fin [1, 2, 3, 4]))"
  have p: "num_slices (day 10 4) = 4" "total_qty (day 10 4) = 10" by (simp_all add: day_def parent0_def)
  have x: "vwap0 (day 10 4) (map Fin [1, 2, 3, 4]) = Some ?x" by (simp add: vwap0_def p Let_def)
  have v: "profile_ok [1, 2, 3, 4]" by (simp add: profile_ok_def)
  have c: "covered vwap_on_tick vwap_apply_fill vw_filled 0 ?es ?x" by code_simp
  have l: "list_ex (in_last_slot (day 10 4)) ?es" by code_simp
  obtain y cs where r: "exec_run vwap_on_tick vwap_apply_fill ?es ?x = (y, cs)" by force
  have "list_ex (in_last_slot (day 10 4)) ?es \<longrightarrow> sent cs = 10" 
    using vwap_completes [OF _ _ _ _ v x c r, unfolded p] by fastforce
  then show ?thesis using l by (simp only: r snd_conv)
qed

theorem twap_completes_witness:
  "sent (snd (exec_run twap_on_tick twap_apply_fill [Tick 0, Fill 2 100, Tick 1, Tick 1, Tick 2, Tick 3] (twap0 (day 10 4)))) = 10"
proof -
  let ?es = "[Tick 0, Fill 2 100, Tick 1, Tick 1, Tick 2, Tick 3]" and ?x = "twap0 (day 10 4)"
  have ok: "slices_ok (day 10 4)" by code_simp
  have s: "steady (day 10 4) 0 ?es" by code_simp
  have c: "covered twap_on_tick twap_apply_fill tw_filled 0 ?es ?x" by code_simp
  obtain y cs where r: "exec_run twap_on_tick twap_apply_fill ?es ?x = (y, cs)" by force
  from twap_completes [OF ok s c r] r show ?thesis by (simp add: day_def)
qed

theorem exec_benchmark_agrees_witness:
  "vwap_ticks (market_after [(100, 10), (300, 14)]) = realized_vwap_ticks (stats_after [(100, 10), (300, 14)]) \<and>
   vwap_ticks (market_after [(100, 10), (300, 14)]) \<le> 14"
  using exec_benchmark_agrees [of 10 14 "[(100, 10), (300, 14)]" BUY] by (simp add: priced_within_def value_of_def)

section \<open>Where the code departs from its comments\<close>

text \<open>
  With fewer shares than slices, or a first tick in the last slot, the last slice is sent again by every further tick of
  its slot until the fill arrives: three shares ordered, six sent.
\<close>

lemma twap_repeats_last_slice:
  "sent (snd (exec_run twap_on_tick twap_apply_fill [Tick 9, Tick 9] (twap0 (day 3 10)))) = 6"
  "sent (snd (exec_run twap_on_tick twap_apply_fill [Tick 3, Tick 3, Tick 3] (twap0 (day 10 4)))) = 12"
  by code_simp+

text \<open>An empty profile does not fall back to equal pieces: everything waits for the last slot.\<close>

lemma empty_profile_waits: "map_option vw_targets (vwap0 (day 100 4) []) = Some [0, 0, 0, 100]"
  by code_simp

text \<open>A negative weight makes the first slot send twice the order.\<close>

lemma negative_weight_oversends:
  "map_option (\<lambda>x. sent (snd (exec_run vwap_on_tick vwap_apply_fill [Tick 0, Tick 1] x))) (vwap0 (day 100 2) [Fin 2, Fin (- 1)]) = Some 200"
  by code_simp

text \<open>The standard profile for two slots has three weights, of which the executor uses two.\<close>

lemma short_profile_longer: "length (u_shape_profile 2) = 3" "length (u_shape_profile 10) = 10"
  "map_option vw_targets (vwap0 (day 100 2) (u_shape_profile 2)) = Some [30, 100]"
  by code_simp+

end
