(* ===== verification/Config.thy ===== *)
theory Config
  imports Fix_Text
begin

text \<open>
  \<open>config/config_loader.hpp\<close>: the configuration file.  The records with their defaults, the helpers on lines, the
  loop over the lines of the file with its sections and lists, and the overrides from the environment.
\<close>

section \<open>Configuration\<close>

record RiskConfig =
  rc_max_position_per_symbol :: int
  rc_max_portfolio_exposure :: int
  rc_max_daily_loss :: dbl
  rc_max_orders_per_second :: int
  rc_max_order_value :: dbl
  rc_max_drawdown_pct :: dbl
  rc_max_price_band_pct :: dbl
  rc_max_shares_per_order :: int
  rc_max_short_per_symbol :: int
  rc_max_consecutive_losses :: int
  rc_max_daily_traded_notional :: dbl

record OmsConfig =
  oc_max_position :: int
  oc_max_order_value :: dbl

record StrategyConfig =
  sc_window :: int
  sc_threshold_pct :: dbl
  sc_order_size :: int

record VenueConfig =
  vc_name :: "byte list"
  vc_latency_ns :: int
  vc_fee_per_share :: dbl

record RouterConfig =
  roc_default_strategy :: "byte list"
  roc_split_threshold :: int
  roc_venues :: "VenueConfig list"

record StockConfig =
  stc_symbol :: "byte list"
  stc_base_price :: dbl

record SimulatorConfig =
  sic_num_messages :: int
  sic_seed :: int
  sic_stocks :: "StockConfig list"

record HFTConfig =
  cfg_risk :: RiskConfig
  cfg_oms :: OmsConfig
  cfg_strategy :: StrategyConfig
  cfg_router :: RouterConfig
  cfg_simulator :: SimulatorConfig
  cfg_level :: "byte list"
  cfg_loaded :: bool
  cfg_source :: "byte list"

definition risk_config0 :: RiskConfig where
  "risk_config0 = \<lparr>rc_max_position_per_symbol = 5000,
     rc_max_portfolio_exposure = 50000,
     rc_max_daily_loss = Fin 100000,
     rc_max_orders_per_second = 1000,
     rc_max_order_value = Fin 500000,
     rc_max_drawdown_pct = Fin 5,
     rc_max_price_band_pct = Fin 20,
     rc_max_shares_per_order = 100000,
     rc_max_short_per_symbol = 0,
     rc_max_consecutive_losses = 0,
     rc_max_daily_traded_notional = Fin 0\<rparr>"

definition oms_config0 :: OmsConfig where
  "oms_config0 = \<lparr>oc_max_position = 10000,
     oc_max_order_value = Fin 1000000\<rparr>"

definition strategy_config0 :: StrategyConfig where
  "strategy_config0 = \<lparr>sc_window = 20,
     sc_threshold_pct = fin (1 / 10),
     sc_order_size = 100\<rparr>"

definition venue_config0 :: VenueConfig where
  "venue_config0 = \<lparr>vc_name = [], vc_latency_ns = 500, vc_fee_per_share = fin (3 / 1000)\<rparr>"

definition router_config0 :: RouterConfig where
  "router_config0 = \<lparr>roc_default_strategy = bytes_of ''BEST_PRICE'', roc_split_threshold = 500, roc_venues = []\<rparr>"

definition stock_config0 :: StockConfig where
  "stock_config0 = \<lparr>stc_symbol = [], stc_base_price = Fin 100\<rparr>"

definition simulator_config0 :: SimulatorConfig where
  "simulator_config0 = \<lparr>sic_num_messages = 10000, sic_seed = 42, sic_stocks = []\<rparr>"

definition config0 :: HFTConfig where
  "config0 = \<lparr>cfg_risk = risk_config0, cfg_oms = oms_config0, cfg_strategy = strategy_config0, cfg_router = router_config0,
     cfg_simulator = simulator_config0, cfg_level = bytes_of ''INFO'', cfg_loaded = False, cfg_source = []\<rparr>"

section \<open>Lines\<close>

definition indent :: "byte list \<Rightarrow> int" where
  "indent raw = int (length (takeWhile (\<lambda>b. b = 32) raw))"

definition blank :: "byte \<Rightarrow> bool" where
  "blank b \<longleftrightarrow> b = 32 \<or> b = 9 \<or> b = 13 \<or> b = 10"

definition cfg_trim :: "byte list \<Rightarrow> byte list" where
  "cfg_trim s = rev (dropWhile blank (rev (dropWhile blank s)))"

definition strip_comment :: "byte list \<Rightarrow> byte list" where
  "strip_comment s = (if 35 \<in> set s then cfg_trim (takeWhile (\<lambda>b. b \<noteq> 35) s) else s)"

definition kv :: "byte list \<Rightarrow> (byte list \<times> byte list) option" where
  "kv line =
     (if 58 \<in> set line
      then let key = cfg_trim (takeWhile (\<lambda>b. b \<noteq> 58) line);
               val = strip_comment (cfg_trim (drop (length (takeWhile (\<lambda>b. b \<noteq> 58) line) + 1) line))
           in if key = [] then None else Some (key, val)
      else None)"

definition safe_copy :: "nat \<Rightarrow> byte list \<Rightarrow> byte list" where
  "safe_copy n src = take (n - 1) src"

text \<open>
  What successive calls of \<open>fgets\<close> with a buffer of 512 bytes return: up to and including a newline, at most 511 bytes.
\<close>

function fgets_lines :: "byte list \<Rightarrow> byte list list" where
  "fgets_lines [] = []"
| "fgets_lines (b # bs) =
     (let n = min 511 (length (takeWhile (\<lambda>c. c \<noteq> 10) (b # bs)) + 1) in take n (b # bs) # fgets_lines (drop n (b # bs)))"
  by pat_completeness auto
termination by (relation "measure length") (auto simp: Let_def)

text \<open>\<open>std::string raw(line_buf)\<close> ends at a zero byte.\<close>

definition raw_line :: "byte list \<Rightarrow> byte list" where
  "raw_line buf = takeWhile (\<lambda>b. b \<noteq> 0) buf"

section \<open>The line loop\<close>

datatype Section = SEC_NONE | SEC_RISK | SEC_OMS | SEC_STRATEGY | SEC_ROUTER | SEC_SIMULATOR | SEC_LOGGING

definition section_header :: "byte list \<Rightarrow> Section option" where
  "section_header line =
     (if line = bytes_of ''risk:'' then Some SEC_RISK
      else if line = bytes_of ''oms:'' then Some SEC_OMS
      else if line = bytes_of ''strategy:'' then Some SEC_STRATEGY
      else if line = bytes_of ''router:'' then Some SEC_ROUTER
      else if line = bytes_of ''simulator:'' then Some SEC_SIMULATOR
      else if line = bytes_of ''logging:'' then Some SEC_LOGGING
      else None)"

definition assign_risk :: "byte list \<Rightarrow> byte list \<Rightarrow> RiskConfig \<Rightarrow> RiskConfig" where
  "assign_risk k v c =
     (if k = bytes_of ''max_position_per_symbol'' then c \<lparr>rc_max_position_per_symbol := atoi v\<rparr>
     else if k = bytes_of ''max_portfolio_exposure'' then c \<lparr>rc_max_portfolio_exposure := atoi v\<rparr>
     else if k = bytes_of ''max_daily_loss'' then c \<lparr>rc_max_daily_loss := atof v\<rparr>
     else if k = bytes_of ''max_orders_per_second'' then c \<lparr>rc_max_orders_per_second := atoi v\<rparr>
     else if k = bytes_of ''max_order_value'' then c \<lparr>rc_max_order_value := atof v\<rparr>
     else if k = bytes_of ''max_drawdown_pct'' then c \<lparr>rc_max_drawdown_pct := atof v\<rparr>
     else if k = bytes_of ''max_price_band_pct'' then c \<lparr>rc_max_price_band_pct := atof v\<rparr>
     else if k = bytes_of ''max_shares_per_order'' then c \<lparr>rc_max_shares_per_order := atoi v\<rparr>
     else if k = bytes_of ''max_short_per_symbol'' then c \<lparr>rc_max_short_per_symbol := atoi v\<rparr>
     else if k = bytes_of ''max_consecutive_losses'' then c \<lparr>rc_max_consecutive_losses := atoi v\<rparr>
     else if k = bytes_of ''max_daily_traded_notional'' then c \<lparr>rc_max_daily_traded_notional := atof v\<rparr>
      else c)"

definition assign_oms :: "byte list \<Rightarrow> byte list \<Rightarrow> OmsConfig \<Rightarrow> OmsConfig" where
  "assign_oms k v c =
     (if k = bytes_of ''max_position'' then c \<lparr>oc_max_position := atoi v\<rparr>
     else if k = bytes_of ''max_order_value'' then c \<lparr>oc_max_order_value := atof v\<rparr>
      else c)"

definition assign_strategy :: "byte list \<Rightarrow> byte list \<Rightarrow> StrategyConfig \<Rightarrow> StrategyConfig" where
  "assign_strategy k v c =
     (if k = bytes_of ''window'' then c \<lparr>sc_window := atoi v\<rparr>
     else if k = bytes_of ''threshold_pct'' then c \<lparr>sc_threshold_pct := atof v\<rparr>
     else if k = bytes_of ''order_size'' then c \<lparr>sc_order_size := atoi v\<rparr>
      else c)"

definition assign_router :: "byte list \<Rightarrow> byte list \<Rightarrow> RouterConfig \<Rightarrow> RouterConfig" where
  "assign_router k v c =
     (if k = bytes_of ''default_strategy'' then c \<lparr>roc_default_strategy := safe_copy 16 v\<rparr>
      else if k = bytes_of ''split_threshold'' then c \<lparr>roc_split_threshold := atoi v\<rparr>
      else c)"

definition assign_simulator :: "byte list \<Rightarrow> byte list \<Rightarrow> SimulatorConfig \<Rightarrow> SimulatorConfig" where
  "assign_simulator k v c =
     (if k = bytes_of ''num_messages'' then c \<lparr>sic_num_messages := atoi v\<rparr>
      else if k = bytes_of ''seed'' then c \<lparr>sic_seed := atoi v\<rparr>
      else c)"

fun assign :: "Section \<Rightarrow> byte list \<Rightarrow> byte list \<Rightarrow> HFTConfig \<Rightarrow> HFTConfig" where
  "assign SEC_RISK k v cfg = cfg \<lparr>cfg_risk := assign_risk k v (cfg_risk cfg)\<rparr>"
| "assign SEC_OMS k v cfg = cfg \<lparr>cfg_oms := assign_oms k v (cfg_oms cfg)\<rparr>"
| "assign SEC_STRATEGY k v cfg = cfg \<lparr>cfg_strategy := assign_strategy k v (cfg_strategy cfg)\<rparr>"
| "assign SEC_ROUTER k v cfg = cfg \<lparr>cfg_router := assign_router k v (cfg_router cfg)\<rparr>"
| "assign SEC_SIMULATOR k v cfg = cfg \<lparr>cfg_simulator := assign_simulator k v (cfg_simulator cfg)\<rparr>"
| "assign SEC_LOGGING k v cfg = (if k = bytes_of ''level'' then cfg \<lparr>cfg_level := safe_copy 16 v\<rparr> else cfg)"
| "assign SEC_NONE k v cfg = cfg"

text \<open>An item of a list: a line that starts with a dash opens a new entry, the pair on it goes to the last entry.\<close>

definition item_new :: "byte list \<Rightarrow> bool" where
  "item_new line \<longleftrightarrow> length line \<ge> 2 \<and> line ! 0 = 45 \<and> line ! 1 = 32"

definition list_item :: "'a \<Rightarrow> (byte list \<Rightarrow> byte list \<Rightarrow> 'a \<Rightarrow> 'a) \<Rightarrow> byte list \<Rightarrow> 'a list \<Rightarrow> 'a list" where
  "list_item x0 upd line xs =
     (let ys = (if item_new line then xs @ [x0] else xs);
          item = (if item_new line then cfg_trim (drop 2 line) else line);
          zs = (if ys = [] then [x0] else ys)
      in case kv item of None \<Rightarrow> zs | Some (k, v) \<Rightarrow> butlast zs @ [upd k v (List.last zs)])"

definition assign_venue :: "byte list \<Rightarrow> byte list \<Rightarrow> VenueConfig \<Rightarrow> VenueConfig" where
  "assign_venue k v c =
     (if k = bytes_of ''name'' then c \<lparr>vc_name := safe_copy 16 v\<rparr>
      else if k = bytes_of ''latency_ns'' then c \<lparr>vc_latency_ns := atoi v\<rparr>
      else if k = bytes_of ''fee_per_share'' then c \<lparr>vc_fee_per_share := atof v\<rparr>
      else c)"

definition assign_stock :: "byte list \<Rightarrow> byte list \<Rightarrow> StockConfig \<Rightarrow> StockConfig" where
  "assign_stock k v c =
     (if k = bytes_of ''symbol'' then c \<lparr>stc_symbol := safe_copy 9 v\<rparr>
      else if k = bytes_of ''base_price'' then c \<lparr>stc_base_price := atof v\<rparr>
      else c)"

record parse_state =
  ps_cfg :: HFTConfig
  ps_sec :: Section
  ps_in_venues :: bool
  ps_in_stocks :: bool

definition key_line :: "byte list \<Rightarrow> parse_state \<Rightarrow> parse_state" where
  "key_line line s =
     (case kv line of None \<Rightarrow> s
      | Some (k, v) \<Rightarrow>
          if k = bytes_of ''venues'' \<and> ps_sec s = SEC_ROUTER then s \<lparr>ps_in_venues := True, ps_in_stocks := False\<rparr>
          else if k = bytes_of ''stocks'' \<and> ps_sec s = SEC_SIMULATOR then s \<lparr>ps_in_stocks := True, ps_in_venues := False\<rparr>
          else s \<lparr>ps_cfg := assign (ps_sec s) k v (ps_cfg s), ps_in_venues := False, ps_in_stocks := False\<rparr>)"

definition add_venue_line :: "byte list \<Rightarrow> HFTConfig \<Rightarrow> HFTConfig" where
  "add_venue_line line cfg = cfg \<lparr>cfg_router := cfg_router cfg
     \<lparr>roc_venues := list_item venue_config0 assign_venue line (roc_venues (cfg_router cfg))\<rparr>\<rparr>"

definition add_stock_line :: "byte list \<Rightarrow> HFTConfig \<Rightarrow> HFTConfig" where
  "add_stock_line line cfg = cfg \<lparr>cfg_simulator := cfg_simulator cfg
     \<lparr>sic_stocks := list_item stock_config0 assign_stock line (sic_stocks (cfg_simulator cfg))\<rparr>\<rparr>"

definition config_line :: "byte list \<Rightarrow> parse_state \<Rightarrow> parse_state" where
  "config_line buf s =
     (let raw = raw_line buf; ind = indent raw; line = cfg_trim raw
      in if line = [] \<or> line ! 0 = 35 then s
         else if ind = 0 then
           (case section_header line of
              Some sec \<Rightarrow> s \<lparr>ps_sec := sec, ps_in_venues := False, ps_in_stocks := False\<rparr>
            | None \<Rightarrow> s \<lparr>ps_in_venues := False, ps_in_stocks := False\<rparr>)
         else if ind = 2 then key_line line s
         else if ind \<ge> 4 \<and> ps_in_venues s \<and> ps_sec s = SEC_ROUTER then s \<lparr>ps_cfg := add_venue_line line (ps_cfg s)\<rparr>
         else if ind \<ge> 4 \<and> ps_in_stocks s \<and> ps_sec s = SEC_SIMULATOR then s \<lparr>ps_cfg := add_stock_line line (ps_cfg s)\<rparr>
         else s)"

section \<open>Environment and loading\<close>

definition env_int :: "(string \<Rightarrow> byte list option) \<Rightarrow> string \<Rightarrow> int \<Rightarrow> int" where
  "env_int getenv name field = (case getenv name of Some v \<Rightarrow> atoi v | None \<Rightarrow> field)"

definition env_dbl :: "(string \<Rightarrow> byte list option) \<Rightarrow> string \<Rightarrow> dbl \<Rightarrow> dbl" where
  "env_dbl getenv name field = (case getenv name of Some v \<Rightarrow> atof v | None \<Rightarrow> field)"

definition env_risk :: "(string \<Rightarrow> byte list option) \<Rightarrow> RiskConfig \<Rightarrow> RiskConfig" where
  "env_risk getenv c = \<lparr>rc_max_position_per_symbol = env_int getenv ''HFT_RISK_MAX_POSITION_PER_SYMBOL'' (rc_max_position_per_symbol c),
     rc_max_portfolio_exposure = env_int getenv ''HFT_RISK_MAX_PORTFOLIO_EXPOSURE'' (rc_max_portfolio_exposure c),
     rc_max_daily_loss = env_dbl getenv ''HFT_RISK_MAX_DAILY_LOSS'' (rc_max_daily_loss c),
     rc_max_orders_per_second = env_int getenv ''HFT_RISK_MAX_ORDERS_PER_SECOND'' (rc_max_orders_per_second c),
     rc_max_order_value = env_dbl getenv ''HFT_RISK_MAX_ORDER_VALUE'' (rc_max_order_value c),
     rc_max_drawdown_pct = env_dbl getenv ''HFT_RISK_MAX_DRAWDOWN_PCT'' (rc_max_drawdown_pct c),
     rc_max_price_band_pct = env_dbl getenv ''HFT_RISK_MAX_PRICE_BAND_PCT'' (rc_max_price_band_pct c),
     rc_max_shares_per_order = env_int getenv ''HFT_RISK_MAX_SHARES_PER_ORDER'' (rc_max_shares_per_order c),
     rc_max_short_per_symbol = env_int getenv ''HFT_RISK_MAX_SHORT_PER_SYMBOL'' (rc_max_short_per_symbol c),
     rc_max_consecutive_losses = env_int getenv ''HFT_RISK_MAX_CONSECUTIVE_LOSSES'' (rc_max_consecutive_losses c),
     rc_max_daily_traded_notional = env_dbl getenv ''HFT_RISK_MAX_DAILY_TRADED_NOTIONAL'' (rc_max_daily_traded_notional c)\<rparr>"

definition env_oms :: "(string \<Rightarrow> byte list option) \<Rightarrow> OmsConfig \<Rightarrow> OmsConfig" where
  "env_oms getenv c = \<lparr>oc_max_position = env_int getenv ''HFT_OMS_MAX_POSITION'' (oc_max_position c),
     oc_max_order_value = env_dbl getenv ''HFT_OMS_MAX_ORDER_VALUE'' (oc_max_order_value c)\<rparr>"

definition env_strategy :: "(string \<Rightarrow> byte list option) \<Rightarrow> StrategyConfig \<Rightarrow> StrategyConfig" where
  "env_strategy getenv c = \<lparr>sc_window = env_int getenv ''HFT_STRATEGY_WINDOW'' (sc_window c),
     sc_threshold_pct = env_dbl getenv ''HFT_STRATEGY_THRESHOLD_PCT'' (sc_threshold_pct c),
     sc_order_size = env_int getenv ''HFT_STRATEGY_ORDER_SIZE'' (sc_order_size c)\<rparr>"

definition env_overrides :: "(string \<Rightarrow> byte list option) \<Rightarrow> HFTConfig \<Rightarrow> HFTConfig" where
  "env_overrides getenv cfg = cfg \<lparr>cfg_risk := env_risk getenv (cfg_risk cfg), cfg_oms := env_oms getenv (cfg_oms cfg),
     cfg_strategy := env_strategy getenv (cfg_strategy cfg),
     cfg_simulator := cfg_simulator cfg \<lparr>sic_num_messages := env_int getenv ''HFT_SIMULATOR_NUM_MESSAGES'' (sic_num_messages (cfg_simulator cfg)),
       sic_seed := env_int getenv ''HFT_SIMULATOR_SEED'' (sic_seed (cfg_simulator cfg))\<rparr>\<rparr>"

text \<open>The files that can be opened, with their contents, and the environment are arguments.\<close>

definition open_config :: "(byte list \<Rightarrow> byte list option) \<Rightarrow> byte list \<Rightarrow> byte list option" where
  "open_config files path = (case files path of Some bs \<Rightarrow> Some bs | None \<Rightarrow> files (take 511 (bytes_of ''../'' @ path)))"

definition load_config :: "(byte list \<Rightarrow> byte list option) \<Rightarrow> (string \<Rightarrow> byte list option) \<Rightarrow> byte list \<Rightarrow> HFTConfig" where
  "load_config files getenv path =
     (case open_config files path of None \<Rightarrow> config0
      | Some bs \<Rightarrow>
          let s0 = \<lparr>ps_cfg = config0 \<lparr>cfg_source := safe_copy 256 path\<rparr>, ps_sec = SEC_NONE, ps_in_venues = False, ps_in_stocks = False\<rparr>;
              s = fold config_line (fgets_lines bs) s0
          in env_overrides getenv (ps_cfg s) \<lparr>cfg_loaded := True\<rparr>)"

end
