(* ===== verification/Config_Props.thy ===== *)
theory Config_Props
  imports Config
begin

text \<open>
  What a configuration file and the environment amount to: files written out from a list of sections with their
  settings, the value the loader takes from them for every setting that has an environment variable, and runs that
  show where the loader departs from its description.
\<close>

section \<open>Precedence\<close>

text \<open>The assignments the line loop takes from a file, in their order; an auxiliary of the proof.\<close>

fun settings :: "Section \<Rightarrow> byte list list \<Rightarrow> ((Section \<times> byte list) \<times> byte list) list" where
  "settings sec [] = []"
| "settings sec (buf # bufs) =
     (let line = cfg_trim (raw_line buf); ind = indent (raw_line buf)
      in if line = [] \<or> line ! 0 = 35 then settings sec bufs
         else if ind = 0 then settings (case section_header line of Some sec' \<Rightarrow> sec' | None \<Rightarrow> sec) bufs
         else if ind = 2 then (case kv line of Some (k, v) \<Rightarrow> [((sec, k), v)] | None \<Rightarrow> []) @ settings sec bufs
         else settings sec bufs)"

text \<open>The last assignment to a key counts, and the environment counts more.\<close>

definition effective :: "(byte list \<Rightarrow> 'a) \<Rightarrow> 'a \<Rightarrow> byte list option \<Rightarrow> (Section \<times> byte list) \<Rightarrow> ((Section \<times> byte list) \<times> byte list) list \<Rightarrow> 'a" where
  "effective conv dflt ev key ss = (case ev of Some v \<Rightarrow> conv v | None \<Rightarrow> (case map_of (rev ss) key of Some v \<Rightarrow> conv v | None \<Rightarrow> dflt))"

definition int_fields :: "((Section \<times> byte list) \<times> (HFTConfig \<Rightarrow> int) \<times> int \<times> string) list" where
  "int_fields =
     [((SEC_RISK, bytes_of ''max_position_per_symbol''), \<lambda>c. rc_max_position_per_symbol (cfg_risk c), 5000, ''HFT_RISK_MAX_POSITION_PER_SYMBOL''),
      ((SEC_RISK, bytes_of ''max_portfolio_exposure''), \<lambda>c. rc_max_portfolio_exposure (cfg_risk c), 50000, ''HFT_RISK_MAX_PORTFOLIO_EXPOSURE''),
      ((SEC_RISK, bytes_of ''max_orders_per_second''), \<lambda>c. rc_max_orders_per_second (cfg_risk c), 1000, ''HFT_RISK_MAX_ORDERS_PER_SECOND''),
      ((SEC_RISK, bytes_of ''max_shares_per_order''), \<lambda>c. rc_max_shares_per_order (cfg_risk c), 100000, ''HFT_RISK_MAX_SHARES_PER_ORDER''),
      ((SEC_RISK, bytes_of ''max_short_per_symbol''), \<lambda>c. rc_max_short_per_symbol (cfg_risk c), 0, ''HFT_RISK_MAX_SHORT_PER_SYMBOL''),
      ((SEC_RISK, bytes_of ''max_consecutive_losses''), \<lambda>c. rc_max_consecutive_losses (cfg_risk c), 0, ''HFT_RISK_MAX_CONSECUTIVE_LOSSES''),
      ((SEC_OMS, bytes_of ''max_position''), \<lambda>c. oc_max_position (cfg_oms c), 10000, ''HFT_OMS_MAX_POSITION''),
      ((SEC_STRATEGY, bytes_of ''window''), \<lambda>c. sc_window (cfg_strategy c), 20, ''HFT_STRATEGY_WINDOW''),
      ((SEC_STRATEGY, bytes_of ''order_size''), \<lambda>c. sc_order_size (cfg_strategy c), 100, ''HFT_STRATEGY_ORDER_SIZE''),
      ((SEC_SIMULATOR, bytes_of ''num_messages''), \<lambda>c. sic_num_messages (cfg_simulator c), 10000, ''HFT_SIMULATOR_NUM_MESSAGES''),
      ((SEC_SIMULATOR, bytes_of ''seed''), \<lambda>c. sic_seed (cfg_simulator c), 42, ''HFT_SIMULATOR_SEED'')]"

definition dbl_fields :: "((Section \<times> byte list) \<times> (HFTConfig \<Rightarrow> dbl) \<times> dbl \<times> string) list" where
  "dbl_fields =
     [((SEC_RISK, bytes_of ''max_daily_loss''), \<lambda>c. rc_max_daily_loss (cfg_risk c), Fin 100000, ''HFT_RISK_MAX_DAILY_LOSS''),
      ((SEC_RISK, bytes_of ''max_order_value''), \<lambda>c. rc_max_order_value (cfg_risk c), Fin 500000, ''HFT_RISK_MAX_ORDER_VALUE''),
      ((SEC_RISK, bytes_of ''max_drawdown_pct''), \<lambda>c. rc_max_drawdown_pct (cfg_risk c), Fin 5, ''HFT_RISK_MAX_DRAWDOWN_PCT''),
      ((SEC_RISK, bytes_of ''max_price_band_pct''), \<lambda>c. rc_max_price_band_pct (cfg_risk c), Fin 20, ''HFT_RISK_MAX_PRICE_BAND_PCT''),
      ((SEC_RISK, bytes_of ''max_daily_traded_notional''), \<lambda>c. rc_max_daily_traded_notional (cfg_risk c), Fin 0, ''HFT_RISK_MAX_DAILY_TRADED_NOTIONAL''),
      ((SEC_OMS, bytes_of ''max_order_value''), \<lambda>c. oc_max_order_value (cfg_oms c), Fin 1000000, ''HFT_OMS_MAX_ORDER_VALUE''),
      ((SEC_STRATEGY, bytes_of ''threshold_pct''), \<lambda>c. sc_threshold_pct (cfg_strategy c), fin (1 / 10), ''HFT_STRATEGY_THRESHOLD_PCT'')]"

lemma bytes_of_inject [simp]: "bytes_of s = bytes_of t \<longleftrightarrow> s = t"
proof -
  have "c = d" if "chr c = chr d" for c d
  proof -
    have "(of_nat (of_char c) :: byte) = of_nat (of_char d)" using that by (simp only: chr_def of_nat_of_char)
    then have "(of_char c :: nat) mod 256 = of_char d mod 256"
      by (simp add: word_of_nat_eq_iff take_bit_eq_mod)
    moreover have "(of_char c :: nat) < 256" "(of_char d :: nat) < 256" by simp_all
    ultimately have "(of_char c :: nat) = of_char d" by simp
    then show ?thesis by (simp only: of_char_eq_iff)
  qed
  then have "inj chr" by (rule injI)
  then show ?thesis by (simp add: bytes_of_def inj_map_eq_map)
qed

text \<open>What a field of the configuration has to do with the rest of the loader.\<close>

definition cfg_field_ok :: "(byte list \<Rightarrow> 'a) \<Rightarrow> (Section \<times> byte list) \<times> (HFTConfig \<Rightarrow> 'a) \<times> 'a \<times> string \<Rightarrow> bool" where
  "cfg_field_ok conv f \<longleftrightarrow> (case f of (key, get, dflt, name) \<Rightarrow>
     (\<forall>sec k v c. get (assign sec k v c) = (if key = (sec, k) then conv v else get c)) \<and>
     (\<forall>l c. get (add_venue_line l c) = get c \<and> get (add_stock_line l c) = get c) \<and>
     (\<forall>getenv c. get (env_overrides getenv c) = (case getenv name of Some v \<Rightarrow> conv v | None \<Rightarrow> get c)) \<and>
     (\<forall>x. get (config0 \<lparr>cfg_source := x\<rparr>) = dflt) \<and> (\<forall>x c. get (c \<lparr>cfg_loaded := x\<rparr>) = get c) \<and>
     key \<noteq> (SEC_ROUTER, bytes_of ''venues'') \<and> key \<noteq> (SEC_SIMULATOR, bytes_of ''stocks''))"

lemmas config_defs = add_venue_line_def add_stock_line_def env_overrides_def env_risk_def env_oms_def env_strategy_def env_int_def env_dbl_def
  config0_def risk_config0_def oms_config0_def strategy_config0_def simulator_config0_def

lemma assign_cases:
  "assign sec k v c = (case sec of SEC_RISK \<Rightarrow> c \<lparr>cfg_risk := assign_risk k v (cfg_risk c)\<rparr> | SEC_OMS \<Rightarrow> c \<lparr>cfg_oms := assign_oms k v (cfg_oms c)\<rparr>
     | SEC_STRATEGY \<Rightarrow> c \<lparr>cfg_strategy := assign_strategy k v (cfg_strategy c)\<rparr>
     | SEC_ROUTER \<Rightarrow> c \<lparr>cfg_router := assign_router k v (cfg_router c)\<rparr>
     | SEC_SIMULATOR \<Rightarrow> c \<lparr>cfg_simulator := assign_simulator k v (cfg_simulator c)\<rparr>
     | SEC_LOGGING \<Rightarrow> (if k = bytes_of ''level'' then c \<lparr>cfg_level := safe_copy 16 v\<rparr> else c) | SEC_NONE \<Rightarrow> c)"
  by (cases sec) simp_all

lemma int_fields_ok: "list_all (cfg_field_ok atoi) int_fields"
  unfolding int_fields_def list.pred_inject cfg_field_ok_def prod.case
  by (intro conjI allI TrueI;
      simp add: config_defs assign_cases assign_risk_def assign_oms_def assign_strategy_def assign_simulator_def split: Section.split)

lemma dbl_fields_ok: "list_all (cfg_field_ok atof) dbl_fields"
  unfolding dbl_fields_def list.pred_inject cfg_field_ok_def prod.case
  by (intro conjI allI TrueI;
      simp add: config_defs assign_cases assign_risk_def assign_oms_def assign_strategy_def assign_simulator_def split: Section.split)

lemma lines_give:
  assumes "cfg_field_ok conv (key, get, dflt, name)"
  shows "get (ps_cfg (fold config_line bufs s)) =
    (case map_of (rev (settings (ps_sec s) bufs)) key of Some v \<Rightarrow> conv v | None \<Rightarrow> get (ps_cfg s))"
proof (induction bufs arbitrary: s)
  case (Cons buf bufs)
  note F = assms [unfolded cfg_field_ok_def prod.case]
  let ?line = "cfg_trim (raw_line buf)" and ?ind = "indent (raw_line buf)"
  consider "?line = [] \<or> ?line ! 0 = 35" | "\<not> (?line = [] \<or> ?line ! 0 = 35)" "?ind = 0"
    | "\<not> (?line = [] \<or> ?line ! 0 = 35)" "?ind = 2" | "\<not> (?line = [] \<or> ?line ! 0 = 35)" "?ind \<noteq> 0" "?ind \<noteq> 2" by blast
  then show ?case
  proof cases
    case 1
    then show ?thesis using Cons.IH by (auto simp: config_line_def Let_def)
  next
    case 2
    then show ?thesis using Cons.IH by (auto simp: config_line_def Let_def split: option.split)
  next
    case 3
    then have "config_line buf s = key_line ?line s" by (simp add: config_line_def Let_def)
    moreover have "ps_sec (key_line ?line s) = ps_sec s" by (simp add: key_line_def split: option.split)
    moreover have "get (ps_cfg (key_line ?line s)) =
        (case kv ?line of Some (k, v) \<Rightarrow> if key = (ps_sec s, k) then conv v else get (ps_cfg s) | None \<Rightarrow> get (ps_cfg s))"
      using F by (auto simp: key_line_def split: option.split)
    ultimately show ?thesis using Cons.IH [of "key_line ?line s"] 3 by (auto simp: Let_def split: option.splits)
  next
    case 4
    have "get (ps_cfg (config_line buf s)) = get (ps_cfg s)" "ps_sec (config_line buf s) = ps_sec s"
      using 4 F by (simp_all add: config_line_def Let_def)
    then show ?thesis using Cons.IH [of "config_line buf s"] 4 by (simp add: Let_def split: option.split)
  qed
qed simp

lemma load_gives:
  assumes "cfg_field_ok conv (key, get, dflt, name)" "open_config files path = Some bs"
  shows "get (load_config files getenv path) = effective conv dflt (getenv name) key (settings SEC_NONE (fgets_lines bs))"
  using assms(1) lines_give [OF assms(1)] by (simp add: load_config_def assms(2) Let_def effective_def cfg_field_ok_def split: option.split)

lemma fields_give:
  assumes "list_all (cfg_field_ok conv) fs" "open_config files path = Some bs"
  shows "list_all (\<lambda>(key, get, dflt, name). get (load_config files getenv path) =
      effective conv dflt (getenv name) key (settings SEC_NONE (fgets_lines bs))) fs"
  using assms(1)
proof (induction fs)
  case (Cons f fs)
  obtain key get dflt name where f: "f = (key, get, dflt, name)" by (cases f)
  show ?case using Cons load_gives [OF _ assms(2), of conv key get dflt name] by (simp add: f)
qed simp

section \<open>Files\<close>

text \<open>
  A file as its author means it: sections with their lines, each a setting, perhaps with a comment behind it, or a
  comment; and how it is written.
\<close>

datatype cfg_item = Setting "byte list" "byte list" "byte list" | Remark "byte list"

type_synonym cfg_doc = "(Section \<times> cfg_item list) list"

primrec section_name :: "Section \<Rightarrow> string" where
  "section_name SEC_NONE = []"
| "section_name SEC_RISK = ''risk''"
| "section_name SEC_OMS = ''oms''"
| "section_name SEC_STRATEGY = ''strategy''"
| "section_name SEC_ROUTER = ''router''"
| "section_name SEC_SIMULATOR = ''simulator''"
| "section_name SEC_LOGGING = ''logging''"

primrec item_bytes :: "cfg_item \<Rightarrow> byte list" where
  "item_bytes (Setting k v c) = [32, 32] @ k @ [58, 32] @ v @ (if c = [] then [] else [32, 35] @ c)"
| "item_bytes (Remark t) = 35 # t"

definition section_lines :: "Section \<times> cfg_item list \<Rightarrow> byte list list" where
  "section_lines = (\<lambda>(sec, items). (bytes_of (section_name sec) @ [58]) # map item_bytes items)"

definition doc_lines :: "cfg_doc \<Rightarrow> byte list list" where
  "doc_lines d = concat (map section_lines d)"

definition render :: "cfg_doc \<Rightarrow> byte list" where
  "render d = concat (map (\<lambda>l. l @ [10]) (doc_lines d))"

text \<open>Keys and values without the characters that mean something to the loader, on lines it reads in one piece.\<close>

definition word_ok :: "byte list \<Rightarrow> bool" where
  "word_ok w \<longleftrightarrow> w \<noteq> [] \<and> \<not> blank (hd w) \<and> \<not> blank (List.last w) \<and> 0 \<notin> set w \<and> 10 \<notin> set w \<and> 35 \<notin> set w"

primrec item_ok :: "cfg_item \<Rightarrow> bool" where
  "item_ok (Setting k v c) \<longleftrightarrow> word_ok k \<and> 58 \<notin> set k \<and> word_ok v \<and> 0 \<notin> set c \<and> 10 \<notin> set c \<and> length (item_bytes (Setting k v c)) \<le> 510"
| "item_ok (Remark t) \<longleftrightarrow> 0 \<notin> set t \<and> 10 \<notin> set t \<and> length t \<le> 509"

definition doc_ok :: "cfg_doc \<Rightarrow> bool" where
  "doc_ok d \<longleftrightarrow> list_all (\<lambda>(sec, items). sec \<noteq> SEC_NONE \<and> list_all item_ok items) d"

text \<open>The settings of a file, each with its section.\<close>

primrec item_settings :: "Section \<Rightarrow> cfg_item \<Rightarrow> ((Section \<times> byte list) \<times> byte list) list" where
  "item_settings sec (Setting k v c) = [((sec, k), v)]"
| "item_settings sec (Remark t) = []"

definition doc_settings :: "cfg_doc \<Rightarrow> ((Section \<times> byte list) \<times> byte list) list" where
  "doc_settings d = concat (map (\<lambda>(sec, items). concat (map (item_settings sec) items)) d)"

section \<open>Reading a file back\<close>

lemma fgets_line: "10 \<notin> set l \<Longrightarrow> length l \<le> 510 \<Longrightarrow> fgets_lines ((l @ [10]) @ rest) = (l @ [10]) # fgets_lines rest"
proof -
  assume a: "10 \<notin> set l" "length l \<le> 510"
  obtain b bs where e: "(l @ [10]) @ rest = b # bs" by (cases l) auto
  have "takeWhile (\<lambda>c. c \<noteq> 10) (b # bs) = l" unfolding e [symmetric] append_assoc using a(1) by (subst takeWhile_append2) auto
  then have "min 511 (length (takeWhile (\<lambda>c. c \<noteq> 10) (b # bs)) + 1) = length (l @ [10])" using a(2) by simp
  then have "fgets_lines (b # bs) = take (length (l @ [10])) (b # bs) # fgets_lines (drop (length (l @ [10])) (b # bs))"
    by (subst fgets_lines.simps) (simp only: Let_def)
  then show ?thesis unfolding e [symmetric] by simp
qed

lemma fgets_render: "list_all (\<lambda>l. 10 \<notin> set l \<and> length l \<le> 510) ls \<Longrightarrow> fgets_lines (concat (map (\<lambda>l. l @ [10]) ls)) = map (\<lambda>l. l @ [10]) ls"
proof (induction ls)
  case (Cons l ls)
  then show ?case using fgets_line [of l "concat (map (\<lambda>l. l @ [10]) ls)"] by simp
qed simp

lemma blank_chars [simp]: "blank 32" "blank 10" "\<not> blank 35" "\<not> blank 58"
  by (simp_all add: blank_def)

lemma trim_words:
  assumes "w \<noteq> []" "\<not> blank (hd w)" "\<not> blank (List.last w)" "list_all blank a" "list_all blank z"
  shows "cfg_trim (a @ w @ z) = w"
proof -
  have "dropWhile blank (a @ w @ z) = w @ z"
    using assms(1,2,4) by (cases w) (simp_all add: dropWhile_append list_all_iff)
  moreover have "dropWhile blank (rev z @ rev w) = rev w"
    using assms(1,3,5) by (cases w rule: rev_cases) (simp_all add: dropWhile_append list_all_iff)
  ultimately show ?thesis by (simp add: cfg_trim_def)
qed

lemma trim_tail:
  assumes "w \<noteq> []" "\<not> blank (hd w)" "list_all blank a"
  shows "\<exists>c'. cfg_trim (a @ w @ 35 # c) = w @ 35 # c'"
proof -
  have "dropWhile blank (a @ w @ 35 # c) = w @ 35 # c"
    using assms by (cases w) (simp_all add: dropWhile_append list_all_iff)
  moreover obtain y where "dropWhile blank (rev c @ 35 # rev w) = y @ 35 # rev w"
    by (cases "\<forall>x \<in> set c. blank x") (auto simp: dropWhile_append)
  ultimately show ?thesis by (auto simp: cfg_trim_def)
qed

lemma word_trim [simp]: "word_ok w \<Longrightarrow> cfg_trim w = w" "word_ok w \<Longrightarrow> cfg_trim (32 # w) = w" "word_ok w \<Longrightarrow> cfg_trim (w @ [32]) = w"
  using trim_words [of w "[]" "[]"] trim_words [of w "[32]" "[]"] trim_words [of w "[]" "[32]"] by (simp_all add: word_ok_def)

text \<open>A setting with or without a comment, once the indentation is gone.\<close>

lemma kv_split: "58 \<notin> set k \<Longrightarrow> takeWhile (\<lambda>b. b \<noteq> 58) (k @ 58 # r) = k"
  by (subst takeWhile_append2) auto

lemma kv_plain:
  assumes "word_ok k" "58 \<notin> set k" "word_ok v"
  shows "kv (k @ 58 # 32 # v) = Some (k, v)"
proof -
  have "35 \<notin> set v" "k \<noteq> []" using assms by (simp_all add: word_ok_def)
  then show ?thesis using assms by (simp add: kv_def Let_def kv_split strip_comment_def)
qed

lemma kv_comment:
  assumes "word_ok k" "58 \<notin> set k" "word_ok v"
  shows "kv (k @ 58 # 32 # v @ 32 # 35 # c) = Some (k, v)"
proof -
  obtain c' where c': "cfg_trim (32 # v @ 32 # 35 # c) = (v @ [32]) @ 35 # c'"
    using trim_tail [of "v @ [32]" "[32]" c] assms(3) by (auto simp: word_ok_def)
  have "takeWhile (\<lambda>b. b \<noteq> 35) ((v @ [32]) @ 35 # c') = v @ [32]"
    using assms(3) by (subst takeWhile_append2) (auto simp: word_ok_def)
  then have "strip_comment (cfg_trim (32 # v @ 32 # 35 # c)) = v" unfolding c' using assms(3) by (simp add: strip_comment_def)
  moreover have "k \<noteq> []" using assms(1) by (simp add: word_ok_def)
  ultimately show ?thesis using assms by (simp add: kv_def Let_def kv_split)
qed

lemma setting_line:
  assumes "item_ok (Setting k v c)"
  obtains line where "cfg_trim (item_bytes (Setting k v c) @ [10]) = line" "line \<noteq> []" "line ! 0 \<noteq> 35" "kv line = Some (k, v)"
proof -
  have k: "word_ok k" "58 \<notin> set k" "word_ok v" using assms by simp_all
  have h: "k \<noteq> []" "\<not> blank (hd k)" "v \<noteq> []" "\<not> blank (List.last v)" using k(1,3) by (auto simp: word_ok_def)
  have h0: "k ! 0 \<noteq> 35" using k(1) nth_mem [of 0 k] by (metis length_greater_0_conv word_ok_def)
  show thesis
  proof (cases "c = []")
    case True
    have "cfg_trim ([32, 32] @ (k @ 58 # 32 # v) @ [10]) = k @ 58 # 32 # v" by (rule trim_words) (use h in auto)
    then show thesis using True kv_plain [OF k] h h0 by (intro that [of "k @ 58 # 32 # v"]) (auto simp: nth_append)
  next
    case False
    obtain c' where "cfg_trim ([32, 32] @ (k @ 58 # 32 # v @ [32]) @ 35 # c @ [10]) = (k @ 58 # 32 # v @ [32]) @ 35 # c'"
      using trim_tail [of "k @ 58 # 32 # v @ [32]" "[32, 32]" "c @ [10]"] h by auto
    then show thesis using False kv_comment [OF k, of c'] h h0 by (intro that [of "k @ 58 # 32 # v @ 32 # 35 # c'"]) (auto simp: nth_append)
  qed
qed

lemma setting_indent: "word_ok k \<Longrightarrow> indent (32 # 32 # k @ xs) = 2"
  by (cases k) (auto simp: word_ok_def indent_def blank_def)

lemma raw_render: "0 \<notin> set l \<Longrightarrow> raw_line (l @ [10]) = l @ [10]"
  by (auto simp: raw_line_def takeWhile_eq_all_conv)

lemma remark_trim: "\<exists>c'. cfg_trim (35 # t @ [10]) = 35 # c'"
proof -
  obtain y where "dropWhile blank (rev t @ [35]) = y @ [35]" by (cases "\<forall>x \<in> set t. blank x") (auto simp: dropWhile_append)
  then show ?thesis by (auto simp: cfg_trim_def)
qed

lemma items_settings:
  "list_all item_ok items \<Longrightarrow> settings sec (map (\<lambda>l. l @ [10]) (map item_bytes items) @ ls) = concat (map (item_settings sec) items) @ settings sec ls"
proof (induction items)
  case (Cons i items)
  show ?case
  proof (cases i)
    case (Setting k v c)
    then have ok: "item_ok (Setting k v c)" using Cons.prems by simp
    then have z: "0 \<notin> set (item_bytes i)" by (auto simp: Setting word_ok_def)
    obtain line where l: "cfg_trim (item_bytes i @ [10]) = line" "line \<noteq> []" "line ! 0 \<noteq> 35" "kv line = Some (k, v)"
      using setting_line [OF ok] Setting by blast
    have "indent (item_bytes i @ [10]) = 2" using setting_indent [of k] ok Setting by simp
    then show ?thesis using Cons l by (simp add: raw_render [OF z] Let_def) (simp add: Setting)
  next
    case (Remark t)
    then have z: "0 \<notin> set (item_bytes i)" using Cons.prems by simp
    show ?thesis using Cons remark_trim [of t] by (auto simp: raw_render [OF z [unfolded Remark item_bytes.simps], simplified] Let_def Remark)
  qed
qed simp

lemma header_settings:
  assumes "sec' \<noteq> SEC_NONE"
  shows "settings sec (((bytes_of (section_name sec') @ [58]) @ [10]) # ls) = settings sec' ls"
proof -
  let ?h = "bytes_of (section_name sec') @ [58]"
  have "raw_line (?h @ [10]) = ?h @ [10] \<and> cfg_trim (?h @ [10]) = ?h \<and> indent (?h @ [10]) = 0 \<and> ?h ! 0 \<noteq> 35 \<and> section_header ?h = Some sec'"
    using assms by (cases sec') (simp, (simp only: section_name.simps, code_simp)+)
  then show ?thesis by (simp add: Let_def)
qed

lemma doc_read: "doc_ok d \<Longrightarrow> settings sec (map (\<lambda>l. l @ [10]) (doc_lines d)) = doc_settings d"
proof (induction d arbitrary: sec)
  case (Cons x d)
  obtain sec' items where x: "x = (sec', items)" by (cases x)
  have ok: "sec' \<noteq> SEC_NONE" "list_all item_ok items" "doc_ok d" using Cons.prems by (simp_all add: doc_ok_def x)
  have "map (\<lambda>l. l @ [10]) (doc_lines (x # d)) = ((bytes_of (section_name sec') @ [58]) @ [10])
      # map (\<lambda>l. l @ [10]) (map item_bytes items) @ map (\<lambda>l. l @ [10]) (doc_lines d)"
    by (simp add: doc_lines_def section_lines_def x)
  then have "settings sec (map (\<lambda>l. l @ [10]) (doc_lines (x # d)))
      = settings sec' (map (\<lambda>l. l @ [10]) (map item_bytes items) @ map (\<lambda>l. l @ [10]) (doc_lines d))"
    by (simp only: header_settings [OF ok(1)])
  also have "\<dots> = doc_settings (x # d)"
    by (simp only: items_settings [OF ok(2)] Cons.IH [OF ok(3)]) (simp add: doc_settings_def x)
  finally show ?case .
qed (simp add: doc_lines_def doc_settings_def)

lemma doc_lines_short:
  assumes "doc_ok d"
  shows "list_all (\<lambda>l. 10 \<notin> set l \<and> length l \<le> 510) (doc_lines d)"
proof -
  have i: "10 \<notin> set (item_bytes i) \<and> length (item_bytes i) \<le> 510" if "item_ok i" for i
    using that by (cases i) (auto simp: word_ok_def)
  have h: "10 \<notin> set (bytes_of (section_name sec) @ [58]) \<and> length (bytes_of (section_name sec) @ [58]) \<le> 510" for sec
    by (cases sec) (simp only: section_name.simps, code_simp)+
  show ?thesis
    unfolding doc_lines_def section_lines_def list_all_iff using assms i h by (auto simp: doc_ok_def list_all_iff)
qed

lemma render_read: "doc_ok d \<Longrightarrow> settings SEC_NONE (fgets_lines (render d)) = doc_settings d"
  by (simp only: render_def fgets_render [OF doc_lines_short] doc_read)

section \<open>Properties\<close>

text \<open>
  C32. Precedence of settings.  When the file that is opened is one written out from a list of sections with settings and
  comments, each of the 18 limits and parameters of risk, OMS, strategy and simulator that have an environment
  variable has the value of that variable if it is set, otherwise the value of the last setting of its key in
  a section of its name, and otherwise its default.  (The settings of the router and of logging have no variable.
  Headers stand alone on their line, keys and values contain no comment or line characters, and lines have at
  most 510 characters.)
\<close>

theorem config_precedence:
  assumes "open_config files path = Some (render d)" "doc_ok d"
  shows "list_all (\<lambda>(key, get, dflt, name). get (load_config files getenv path) =
      effective atoi dflt (getenv name) key (doc_settings d)) int_fields \<and>
    list_all (\<lambda>(key, get, dflt, name). get (load_config files getenv path) =
      effective atof dflt (getenv name) key (doc_settings d)) dbl_fields"
  using fields_give [OF int_fields_ok assms(1)] fields_give [OF dbl_fields_ok assms(1)] unfolding render_read [OF assms(2)] by blast

section \<open>Sample files\<close>

definition file_of :: "string list \<Rightarrow> byte list" where
  "file_of ls = concat (map (\<lambda>l. bytes_of l @ [10]) ls)"

definition loaded_from :: "string list \<Rightarrow> (string \<Rightarrow> byte list option) \<Rightarrow> HFTConfig" where
  "loaded_from ls getenv = load_config (\<lambda>_. Some (file_of ls)) getenv (bytes_of ''config.yaml'')"

definition no_env :: "string \<Rightarrow> byte list option" where
  "no_env name = None"

definition sample_file :: "string list" where
  "sample_file = [''# limits'', ''risk:'', ''  max_order_value: 7500.5   # one order'', ''oms:'', ''  max_order_value: 100'', ''  max_order_value: 200'',
     ''router:'', ''  venues:'', ''    - name: NYSE'', ''      latency_ns: 400'', ''    - name: BATS'', ''      fee_per_share: -0.5'']"

definition sample_doc :: cfg_doc where
  "sample_doc = [(SEC_RISK, [Setting (bytes_of ''max_order_value'') (bytes_of ''7500.5'') (bytes_of ''one order''), Remark (bytes_of '' of the OMS'')]),
     (SEC_OMS, [Setting (bytes_of ''max_order_value'') (bytes_of ''100'') [], Setting (bytes_of ''max_order_value'') (bytes_of ''200'') []])]"

definition sample_env :: "string \<Rightarrow> byte list option" where
  "sample_env name = (if name = ''HFT_OMS_MAX_POSITION'' then Some (bytes_of ''77'') else None)"

theorem config_precedence_witness:
  "let c = load_config (\<lambda>_. Some (render sample_doc)) sample_env (bytes_of ''config.yaml'')
   in rc_max_order_value (cfg_risk c) = Fin (15001 / 2) \<and> oc_max_order_value (cfg_oms c) = Fin 200
    \<and> oc_max_position (cfg_oms c) = 77 \<and> sc_window (cfg_strategy c) = 20"
proof -
  have ok: "doc_ok sample_doc" by code_simp
  have v: "effective atof (Fin 500000) (sample_env ''HFT_RISK_MAX_ORDER_VALUE'') (SEC_RISK, bytes_of ''max_order_value'') (doc_settings sample_doc) = Fin (15001 / 2)"
    "effective atof (Fin 1000000) (sample_env ''HFT_OMS_MAX_ORDER_VALUE'') (SEC_OMS, bytes_of ''max_order_value'') (doc_settings sample_doc) = Fin 200"
    "effective atoi 10000 (sample_env ''HFT_OMS_MAX_POSITION'') (SEC_OMS, bytes_of ''max_position'') (doc_settings sample_doc) = 77"
    "effective atoi 20 (sample_env ''HFT_STRATEGY_WINDOW'') (SEC_STRATEGY, bytes_of ''window'') (doc_settings sample_doc) = 20"
    by code_simp+
  have o: "open_config (\<lambda>_. Some (render sample_doc)) (bytes_of ''config.yaml'') = Some (render sample_doc)" by (simp add: open_config_def)
  show ?thesis using config_precedence [OF o ok, of sample_env] v by (simp add: int_fields_def dbl_fields_def Let_def)
qed

text \<open>The file above, read.\<close>

lemma sample_read:
  "oc_max_order_value (cfg_oms (loaded_from sample_file no_env)) = Fin 200"
  "rc_max_order_value (cfg_risk (loaded_from sample_file no_env)) = Fin (15001 / 2)"
  "map (\<lambda>v. (vc_name v, vc_latency_ns v)) (roc_venues (cfg_router (loaded_from sample_file no_env))) =
     [(bytes_of ''NYSE'', 400), (bytes_of ''BATS'', 500)]"
  by code_simp+

section \<open>Where the loader departs from its description\<close>

text \<open>The environment has no effect when there is no file.\<close>

lemma env_needs_file: "load_config (\<lambda>_. None) getenv path = config0"
  by (simp add: load_config_def open_config_def)

text \<open>
  A section header with a comment, or one the loader does not know, does not end the section before: the limit of the
  OMS becomes the limit of the risk manager.
\<close>

lemma header_comment_leaks:
  "rc_max_order_value (cfg_risk (loaded_from [''risk:'', ''  max_order_value: 500'', ''oms:  # entry'', ''  max_order_value: 900''] no_env)) = Fin 900"
  "rc_max_order_value (cfg_risk (loaded_from [''risk:'', ''  max_order_value: 500'', ''legacy:'', ''  max_order_value: 900''] no_env)) = Fin 900"
  by code_simp+

text \<open>Settings of the router and of logging cannot be overridden.\<close>

lemma router_not_overridden:
  "cfg_router (env_overrides getenv c) = cfg_router c \<and> cfg_level (env_overrides getenv c) = cfg_level c"
  by (simp add: env_overrides_def)

text \<open>A file found one directory up is reported under the path that was asked for.\<close>

lemma source_is_asked_path:
  "cfg_source (load_config ((\<lambda>_. None)(bytes_of ''../c.yaml'' := Some [])) no_env (bytes_of ''c.yaml'')) = bytes_of ''c.yaml''"
  by code_simp

end
