(* ===== verification/Pro_Snapshot.thy ===== *)
theory Pro_Snapshot
  imports Pro_Props
begin

text \<open>
  Snapshots of \<open>FullOrderBook\<close> in \<open>orderbook/orderbook_pro.hpp\<close>: \<open>clear\<close>, the packed order records,
  \<open>serialize_snapshot\<close> and \<open>load_snapshot\<close>, and the incremental messages of the book feed with their wire form.
\<close>

section \<open>Integers in memory\<close>

text \<open>\<open>memcpy\<close> of an integer of \<open>n\<close> bytes on a little-endian machine.\<close>

definition put_le :: "nat \<Rightarrow> int \<Rightarrow> byte list" where
  "put_le n x = map (\<lambda>i. word_of_int (x div 256 ^ i)) [0..<n]"

fun get_le :: "byte list \<Rightarrow> int" where
  "get_le [] = 0"
| "get_le (b # bs) = uint b + 256 * get_le bs"

definition get_u64 :: "nat \<Rightarrow> byte list \<Rightarrow> int" where
  "get_u64 off bs = get_le (take 8 (drop off bs))"

definition get_s32 :: "nat \<Rightarrow> byte list \<Rightarrow> int" where
  "get_s32 off bs = s32 (get_le (take 4 (drop off bs)))"

definition get_u8 :: "nat \<Rightarrow> byte list \<Rightarrow> nat" where
  "get_u8 off bs = nat (get_le (take 1 (drop off bs)))"

section \<open>Order records\<close>

definition ORDER_RECORD_SIZE :: nat where
  "ORDER_RECORD_SIZE = 64"

fun side_code :: "Side \<Rightarrow> nat" where
  "side_code BUY = 0" | "side_code SELL = 1"

fun status_code :: "BookOrderStatus \<Rightarrow> nat" where
  "status_code S_NEW = 0" | "status_code S_OPEN = 1" | "status_code S_PARTIALLY_FILLED = 2" | "status_code S_FILLED = 3"
| "status_code S_CANCELLED = 4" | "status_code S_REJECTED = 5" | "status_code S_EXPIRED = 6" | "status_code S_REPLACED = 7"

text \<open>The enumerator of a byte; \<^const>\<open>None\<close> is a byte that is none.\<close>

definition side_of :: "nat \<Rightarrow> Side option" where
  "side_of n = find (\<lambda>x. side_code x = n) [BUY, SELL]"

definition type_of :: "nat \<Rightarrow> OrderType option" where
  "type_of n = find (\<lambda>x. type_code x = n) [LIMIT, OT_IOC, OT_FOK, POST_ONLY, ICEBERG, STOP, PEG, MARKET, HIDDEN, AON]"

definition tif_of :: "nat \<Rightarrow> TimeInForce option" where
  "tif_of n = find (\<lambda>x. tif_code x = n) [DAY, GTC, TIF_IOC, TIF_FOK, GTD, GTX]"

definition status_of :: "nat \<Rightarrow> BookOrderStatus option" where
  "status_of n = find (\<lambda>x. status_code x = n) [S_NEW, S_OPEN, S_PARTIALLY_FILLED, S_FILLED, S_CANCELLED, S_REJECTED, S_EXPIRED, S_REPLACED]"

definition order_record :: "porder \<Rightarrow> byte list" where
  "order_record x = put_le 8 (po_id x) @ put_le 8 (po_client x) @ put_le 4 (po_price x) @ put_le 4 (po_total x) @ put_le 4 (po_filled x)
     @ put_le 4 (po_displayed x) @ put_le 1 (int (side_code (po_side x))) @ put_le 1 (int (type_code (po_type x)))
     @ put_le 1 (int (tif_code (po_tif x))) @ put_le 1 (int (status_code (po_status x))) @ put_le 8 (po_submit_ts x)
     @ put_le 8 (po_expire_ts x) @ put_le 4 (po_stop_trigger x) @ put_le 4 (po_peg_offset x) @ put_le 4 (po_ice_size x)"

text \<open>What \<open>load_snapshot\<close> writes into a fresh order.\<close>

definition record_order :: "byte list \<Rightarrow> porder option" where
  "record_order r =
     (case (side_of (get_u8 32 r), type_of (get_u8 33 r), tif_of (get_u8 34 r), status_of (get_u8 35 r)) of
        (Some side, Some ty, Some tif, Some st) \<Rightarrow>
          Some (porder_reset \<lparr>po_id := get_u64 0 r, po_client := get_u64 8 r, po_price := get_s32 16 r, po_total := get_s32 20 r,
            po_filled := get_s32 24 r, po_displayed := get_s32 28 r, po_side := side, po_type := ty, po_tif := tif, po_status := st,
            po_submit_ts := get_u64 36 r, po_expire_ts := get_u64 44 r, po_stop_trigger := get_s32 52 r, po_peg_offset := get_s32 56 r,
            po_ice_size := get_s32 60 r\<rparr>)
      | _ \<Rightarrow> None)"

section \<open>Writing\<close>

definition SNAPSHOT_MAGIC :: int where
  "SNAPSHOT_MAGIC = 0x4F42504F"

definition SNAPSHOT_VERSION :: int where
  "SNAPSHOT_VERSION = 2"

definition snapshot_size_estimate :: "pcore \<Rightarrow> nat" where
  "snapshot_size_estimate c = 4 + 4 + 8 + nat (pc_active c) * ORDER_RECORD_SIZE"

definition snapshot_slots :: "pcore \<Rightarrow> nat list" where
  "snapshot_slots c = concat (map (\<lambda>p. lv_queue (pc_levels c p)) [0..pc_LEVELS c - 1]) @ pc_stops c"

definition serialize_snapshot :: "nat \<Rightarrow> pcore \<Rightarrow> byte list" where
  "serialize_snapshot cap c =
     (if cap < snapshot_size_estimate c then []
      else put_le 4 SNAPSHOT_MAGIC @ put_le 4 SNAPSHOT_VERSION @ put_le 8 (pc_active c) @
           concat (map (\<lambda>s. order_record (pc_pool c s)) (snapshot_slots c)))"

section \<open>Reading\<close>

definition clear_core :: "pcore \<Rightarrow> pcore" where
  "clear_core c =
     (let c1 = fold free_order (snapshot_slots c) c
      in c1 \<lparr>pc_levels := (\<lambda>p. if 0 \<le> p \<and> p < pc_LEVELS c then plevel_clear else pc_levels c p),
             pc_links := pc_links c1 \<lparr>level_head := (\<lambda>p. if 0 \<le> p \<and> p < pc_LEVELS c then None else level_head (pc_links c1) p),
               level_tail := (\<lambda>p. if 0 \<le> p \<and> p < pc_LEVELS c then None else level_tail (pc_links c1) p)\<rparr>, pc_index := [],
             pc_stops := [], pc_pegs := [], pc_bid := NO_BID_TICKS, pc_ask := NO_ASK_TICKS\<rparr>)"

definition pro_clear :: "pbook \<Rightarrow> pbook" where
  "pro_clear b = b \<lparr>pb_core := clear_core (pb_core b),
     pb_trades := pb_trades b \<lparr>pt_ring := pt_ring (pb_trades b) \<lparr>pt_last_trade := - 1, pt_head := 0, pt_count := 0\<rparr>\<rparr>\<rparr>"

definition place_loaded :: "nat \<Rightarrow> porder \<Rightarrow> pcore \<Rightarrow> pcore" where
  "place_loaded s x c =
     (let c1 = upd_order s (\<lambda>_. x) c
      in if po_type x = STOP \<and> po_status x = S_NEW
         then c1 \<lparr>pc_stops := pc_stops c1 @ [s], pc_index := AList.update (po_id x) s (pc_index c1)\<rparr>
         else let c2 = enqueue_at_level s c1;
                  c3 = c2 \<lparr>pc_index := AList.update (po_id x) s (pc_index c2), pc_pegs := (if po_type x = PEG then pc_pegs c2 @ [s] else pc_pegs c2)\<rparr>
              in if po_side x = BUY
                 then (if pc_bid c3 = NO_BID_TICKS \<or> po_price x > pc_bid c3 then c3 \<lparr>pc_bid := po_price x\<rparr> else c3)
                 else (if pc_ask c3 = NO_ASK_TICKS \<or> po_price x < pc_ask c3 then c3 \<lparr>pc_ask := po_price x\<rparr> else c3))"

text \<open>
  The loop over the records; \<open>k\<close> are left.  The result is the core with the largest id seen, and whether the loop
  ran to its end.  \<^const>\<open>None\<close> is a read past the end of the buffer, or a record with a byte that is no enumerator,
  which the model does not follow.
\<close>

fun load_records :: "nat \<Rightarrow> byte list \<Rightarrow> int \<Rightarrow> pcore \<Rightarrow> (pcore \<times> int \<times> bool) option" where
  "load_records 0 bs mx c = Some (c, mx, True)"
| "load_records (Suc k) bs mx c =
     (if length bs < ORDER_RECORD_SIZE then None
      else case alloc_order c of None \<Rightarrow> Some (c, mx, False)
      | Some (s, c1) \<Rightarrow>
         (case record_order (take ORDER_RECORD_SIZE bs) of None \<Rightarrow> None
          | Some x \<Rightarrow> load_records k (drop ORDER_RECORD_SIZE bs) (if po_id x > mx then po_id x else mx) (place_loaded s x c1)))"


definition load_snapshot :: "byte list \<Rightarrow> pbook \<Rightarrow> (pbook \<times> bool) option" where
  "load_snapshot bs b =
     (if length bs < 16 then Some (b, False)
      else let magic = get_le (take 4 bs); version = get_le (take 4 (drop 4 bs)); count = get_u64 8 bs
           in if magic \<noteq> SNAPSHOT_MAGIC then Some (b, False)
              else if version \<noteq> SNAPSHOT_VERSION then Some (b, False)
              else if int (length bs) < u64 (16 + count * int ORDER_RECORD_SIZE) then Some (b, False)
              else let b1 = pro_clear b
                   in case load_records (nat count) (drop 16 bs) 0 (pb_core b1) of
                        None \<Rightarrow> None
                      | Some (c, mx, ok) \<Rightarrow>
                          Some (note_peak (b1 \<lparr>pb_core := c, pb_next_id := (if ok \<and> mx \<ge> pb_next_id b then u64 (mx + 1) else pb_next_id b)\<rparr>), ok))"

section \<open>The feed of changes\<close>

definition DELTA_WIRE_SIZE :: nat where
  "DELTA_WIRE_SIZE = 18"

definition enable_delta_queue :: "bool \<Rightarrow> pbook \<Rightarrow> pbook" where
  "enable_delta_queue on b = b \<lparr>pb_feed := pb_feed b \<lparr>pf_delta_on := on\<rparr>\<rparr>"

definition pop_delta_queue :: "nat \<Rightarrow> pbook \<Rightarrow> pbook \<times> delta_message list" where
  "pop_delta_queue max_n b =
     (let ds = pf_deltas (pb_feed b); n = min max_n (length ds)
      in (b \<lparr>pb_feed := pb_feed b \<lparr>pf_deltas := drop n ds\<rparr>\<rparr>, take n ds))"

definition serialize_delta :: "delta_message \<Rightarrow> byte list" where
  "serialize_delta d = [of_char (dm_type d), of_char (dm_side d)] @ put_le 4 (dm_price d) @ put_le 4 (dm_qty d) @ put_le 8 (dm_seq d)"

definition deserialize_delta :: "byte list \<Rightarrow> delta_message option" where
  "deserialize_delta bs =
     (if length bs < DELTA_WIRE_SIZE then None
      else Some \<lparr>dm_type = char_of (get_u8 0 bs), dm_side = char_of (get_u8 1 bs), dm_price = get_s32 2 bs, dm_qty = get_s32 6 bs,
        dm_seq = get_u64 10 bs\<rparr>)"

end
