(* ===== verification/Pro_Restore.thy ===== *)
theory Pro_Restore
  imports Pro_Snapshot
begin

text \<open>
  What a snapshot keeps: the bytes that \<open>serialize_snapshot\<close> writes, loaded into any book with room, give a book with the
  same orders in the same queues.
\<close>

section \<open>Records\<close>

lemma length_put_le [simp]: "length (put_le n x) = n"
  by (simp add: put_le_def)

lemma put_le_Suc: "put_le (Suc n) x = word_of_int x # put_le n (x div 256)"
  by (simp add: put_le_def upt_conv_Cons map_Suc_upt [symmetric] zdiv_zmult2_eq del: upt_Suc)

lemma get_put_le: "get_le (put_le n x) = x mod 256 ^ n"
proof (induction n arbitrary: x)
  case (Suc n)
  have "uint (word_of_int x :: byte) = x mod 256" by (simp add: uint_word_of_int)
  then show ?case using Suc by (simp add: put_le_Suc zmod_zmult2_eq)
qed (simp add: put_le_def)

lemma get_put_wide:
  "0 \<le> x \<Longrightarrow> x < 2 ^ 64 \<Longrightarrow> get_le (put_le 8 x) = x"
  "- (2 ^ 31) \<le> x \<Longrightarrow> x < 2 ^ 31 \<Longrightarrow> s32 (get_le (put_le 4 x)) = x"
  "0 \<le> x \<Longrightarrow> x < 256 \<Longrightarrow> get_le (put_le (Suc 0) x) = x"
proof -
  show "0 \<le> x \<Longrightarrow> x < 2 ^ 64 \<Longrightarrow> get_le (put_le 8 x) = x" by (simp add: get_put_le)
  show "0 \<le> x \<Longrightarrow> x < 256 \<Longrightarrow> get_le (put_le (Suc 0) x) = x" by (simp add: get_put_le)
  assume x: "- (2 ^ 31) \<le> x" "x < 2 ^ 31"
  have "s32 (x mod 2 ^ 32) = s32 x" by (simp add: s32_cong)
  then show "s32 (get_le (put_le 4 x)) = x" using x by (simp add: get_put_le s32_id)
qed

definition saved :: "porder \<Rightarrow> porder" where
  "saved x = x \<lparr>po_peg_cap := 0, po_decision_mid := - 1, po_first_fill_ts := 0\<rparr>"

text \<open>The fields have the ranges of their types, and the id is not the largest.\<close>

definition order_ok :: "porder \<Rightarrow> bool" where
  "order_ok x \<longleftrightarrow> 0 \<le> po_id x \<and> po_id x < 2 ^ 64 - 1 \<and> list_all (\<lambda>v. 0 \<le> v \<and> v < 2 ^ 64) [po_client x, po_submit_ts x, po_expire_ts x] \<and>
     list_all (\<lambda>v. - (2 ^ 31) \<le> v \<and> v < 2 ^ 31) [po_price x, po_total x, po_filled x, po_displayed x, po_stop_trigger x, po_peg_offset x, po_ice_size x]"

lemma codes_back [simp]:
  "side_of (side_code a) = Some a" "type_of (type_code b) = Some b" "tif_of (tif_code c) = Some c" "status_of (status_code d) = Some d"
proof -
  show "side_of (side_code a) = Some a" by (cases a) (simp_all add: side_of_def)
  show "type_of (type_code b) = Some b" by (cases b) (simp_all add: type_of_def)
  show "tif_of (tif_code c) = Some c" by (cases c) (simp_all add: tif_of_def)
  show "status_of (status_code d) = Some d" by (cases d) (simp_all add: status_of_def)
qed

lemma codes_small: "side_code a < 256" "type_code b < 256" "tif_code c < 256" "status_code d < 256"
proof -
  show "side_code a < 256" by (cases a) simp_all
  show "type_code b < 256" by (cases b) simp_all
  show "tif_code c < 256" by (cases c) simp_all
  show "status_code d < 256" by (cases d) simp_all
qed

lemma length_order_record [simp]: "length (order_record x) = ORDER_RECORD_SIZE"
  by (simp add: order_record_def ORDER_RECORD_SIZE_def)

lemma record_back:
  assumes "order_ok x"
  shows "record_order (order_record x) = Some (saved x)"
proof -
  have b: "get_u8 32 (order_record x) = side_code (po_side x)" "get_u8 33 (order_record x) = type_code (po_type x)"
    "get_u8 34 (order_record x) = tif_code (po_tif x)" "get_u8 35 (order_record x) = status_code (po_status x)"
    using codes_small by (simp_all add: get_u8_def order_record_def get_put_wide)
  have u: "get_u64 0 (order_record x) = po_id x" "get_u64 8 (order_record x) = po_client x" "get_u64 36 (order_record x) = po_submit_ts x"
    "get_u64 44 (order_record x) = po_expire_ts x"
    using assms by (simp_all add: get_u64_def order_record_def get_put_wide order_ok_def)
  have s: "get_s32 16 (order_record x) = po_price x" "get_s32 20 (order_record x) = po_total x" "get_s32 24 (order_record x) = po_filled x"
    "get_s32 28 (order_record x) = po_displayed x" "get_s32 52 (order_record x) = po_stop_trigger x"
    "get_s32 56 (order_record x) = po_peg_offset x" "get_s32 60 (order_record x) = po_ice_size x"
    using assms by (simp_all add: get_s32_def order_record_def get_put_wide order_ok_def)
  show ?thesis by (simp add: record_order_def b u s saved_def porder_reset_def)
qed

lemma saved_simps [simp]:
  "po_id (saved x) = po_id x" "po_price (saved x) = po_price x" "po_displayed (saved x) = po_displayed x" "po_side (saved x) = po_side x"
  "po_status (saved x) = po_status x" "po_type (saved x) = po_type x" "hidden_part (saved x) = hidden_part x" "pending_stop (saved x) = pending_stop x"
  by (simp_all add: saved_def hidden_part_def pending_stop_def)

section \<open>Loading\<close>

definition queued_in :: "pcore \<Rightarrow> int \<Rightarrow> porder list" where
  "queued_in c p = map (pc_pool c) (lv_queue (pc_levels c p))"

definition level_sums :: "plevel \<Rightarrow> porder list \<Rightarrow> bool" where
  "level_sums l xs \<longleftrightarrow> lv_total l = s32 (sum_list (map po_displayed xs)) \<and> lv_hidden l = s32 (sum_list (map hidden_part xs)) \<and>
     lv_count l = s32 (int (length xs))"

definition best_bid_of :: "porder list \<Rightarrow> int" where
  "best_bid_of xs = fold max (map po_price (filter (\<lambda>x. \<not> pending_stop x \<and> po_side x = BUY) xs)) NO_BID_TICKS"

definition best_ask_of :: "porder list \<Rightarrow> int" where
  "best_ask_of xs = fold min (map po_price (filter (\<lambda>x. \<not> pending_stop x \<and> po_side x = SELL) xs)) NO_ASK_TICKS"

text \<open>The core after the orders \<open>xs\<close> have been loaded into an empty book.\<close>

definition holds_orders :: "porder list \<Rightarrow> pcore \<Rightarrow> bool" where
  "holds_orders xs c \<longleftrightarrow> int (pc_MAX c) < 2 ^ 31 \<and> distinct (pc_free c) \<and> length (pc_free c) + length xs = pc_MAX c \<and>
     (\<forall>s\<in>set (pc_free c). s \<notin> set (pc_stops c) \<and> (\<forall>p. pro_in_range c p \<longrightarrow> s \<notin> set (lv_queue (pc_levels c p))) \<and>
        (\<forall>k. map_of (pc_index c) k \<noteq> Some s)) \<and>
     (\<forall>p. pro_in_range c p \<longrightarrow> queued_in c p = filter (\<lambda>x. \<not> pending_stop x \<and> po_price x = p) xs \<and>
        level_sums (pc_levels c p) (filter (\<lambda>x. \<not> pending_stop x \<and> po_price x = p) xs)) \<and>
     map (pc_pool c) (pc_stops c) = filter pending_stop xs \<and> pc_active c = int (length xs) \<and>
     (\<forall>k. map_option (pc_pool c) (map_of (pc_index c) k) = map_of (rev (map (\<lambda>x. (po_id x, x)) xs)) k) \<and>
     pc_bid c = best_bid_of xs \<and> pc_ask c = best_ask_of xs"

definition fits :: "pcore \<Rightarrow> porder \<Rightarrow> bool" where
  "fits c x \<longleftrightarrow> pending_stop x \<or> pro_in_range c (po_price x)"

lemma holds_at:
  assumes "holds_orders xs c" "pro_in_range c p"
  shows "queued_in c p = filter (\<lambda>x. \<not> pending_stop x \<and> po_price x = p) xs"
    "level_sums (pc_levels c p) (filter (\<lambda>x. \<not> pending_stop x \<and> po_price x = p) xs)"
  using assms unfolding holds_orders_def by blast+

lemma level_sums_snoc:
  "level_sums l xs \<Longrightarrow> level_sums (l \<lparr>lv_queue := q, lv_total := s32 (lv_total l + po_displayed x), lv_hidden := s32 (lv_hidden l + hidden_part x),
     lv_count := s32 (lv_count l + 1)\<rparr>) (xs @ [x])"
  by (simp add: level_sums_def wrap_simps add.commute)

lemma map_upd_notin: "s \<notin> set xs \<Longrightarrow> map (f(s := y)) xs = map f xs"
  by (induction xs) auto

lemma place_fields:
  "pc_pool (place_loaded s x c) = (pc_pool c)(s := x)" "pc_free (place_loaded s x c) = pc_free c" "pc_MAX (place_loaded s x c) = pc_MAX c"
  "pc_LEVELS (place_loaded s x c) = pc_LEVELS c" "pc_active (place_loaded s x c) = pc_active c"
  "pc_index (place_loaded s x c) = AList.update (po_id x) s (pc_index c)"
  "pc_stops (place_loaded s x c) = (if pending_stop x then pc_stops c @ [s] else pc_stops c)"
  "pc_levels (place_loaded s x c) = (if pending_stop x then pc_levels c else (pc_levels c)(po_price x :=
     (let l = pc_levels c (po_price x) in l \<lparr>lv_queue := lv_queue l @ [s], lv_total := s32 (lv_total l + po_displayed x),
        lv_hidden := s32 (lv_hidden l + hidden_part x), lv_count := s32 (lv_count l + 1)\<rparr>)))"
  "pc_bid (place_loaded s x c) = (if \<not> pending_stop x \<and> po_side x = BUY \<and> (pc_bid c = NO_BID_TICKS \<or> pc_bid c < po_price x) then po_price x else pc_bid c)"
  "pc_ask (place_loaded s x c) = (if \<not> pending_stop x \<and> po_side x = SELL \<and> (pc_ask c = NO_ASK_TICKS \<or> po_price x < pc_ask c) then po_price x else pc_ask c)"
  "pc_oob (place_loaded s x c) = (pc_oob c \<or> \<not> pending_stop x \<and> \<not> pro_in_range c (po_price x))"
  by (cases "po_side x"; simp add: place_loaded_def pending_stop_def enqueue_at_level_def upd_level_def upd_order_def Let_def pro_in_range_def)+

lemma best_of_snoc:
  "\<not> pending_stop x \<Longrightarrow> po_side x = BUY \<Longrightarrow> best_bid_of (xs @ [x]) = max (po_price x) (best_bid_of xs)"
  "\<not> pending_stop x \<Longrightarrow> po_side x = SELL \<Longrightarrow> best_ask_of (xs @ [x]) = min (po_price x) (best_ask_of xs)"
  "pending_stop x \<or> po_side x \<noteq> BUY \<Longrightarrow> best_bid_of (xs @ [x]) = best_bid_of xs"
  "pending_stop x \<or> po_side x \<noteq> SELL \<Longrightarrow> best_ask_of (xs @ [x]) = best_ask_of xs"
  by (auto simp: best_bid_of_def best_ask_of_def)

text \<open>One record more.\<close>

lemma load_one:
  assumes "holds_orders xs c" "alloc_order c = Some (s, c1)" "fits c x" "pc_LEVELS c < 2 ^ 31"
  shows "holds_orders (xs @ [x]) (place_loaded s x c1) \<and> pc_LEVELS (place_loaded s x c1) = pc_LEVELS c \<and> pc_MAX (place_loaded s x c1) = pc_MAX c \<and>
    pc_oob (place_loaded s x c1) = pc_oob c"
proof -
  obtain fs where f: "pc_free c = s # fs" "c1 = c \<lparr>pc_free := fs, pc_pool := (pc_pool c)(s := porder_reset), pc_links := link_reset s (pc_links c), pc_active := u64 (pc_active c + 1),
      pc_high_water := (if u64 (pc_active c + 1) > pc_high_water c then u64 (pc_active c + 1) else pc_high_water c)\<rparr>"
    using assms(2) by (auto simp: alloc_order_def Let_def split: list.splits)
  note I = assms(1) [unfolded holds_orders_def]
  let ?c = "place_loaded s x c1" and ?keep = "\<lambda>p x. \<not> pending_stop x \<and> po_price x = p"
  note P = place_fields [of s x c1]
  have c1: "pc_pool c1 = (pc_pool c)(s := porder_reset)" "pc_free c1 = fs" "pc_MAX c1 = pc_MAX c" "pc_LEVELS c1 = pc_LEVELS c"
    "pc_active c1 = u64 (pc_active c + 1)" "pc_index c1 = pc_index c" "pc_stops c1 = pc_stops c" "pc_levels c1 = pc_levels c"
    "pc_bid c1 = pc_bid c" "pc_ask c1 = pc_ask c" "pc_oob c1 = pc_oob c" by (simp_all add: f(2))
  have s: "s \<notin> set fs" "s \<notin> set (pc_stops c)" "\<And>p. pro_in_range c p \<Longrightarrow> s \<notin> set (lv_queue (pc_levels c p))" "\<And>k. map_of (pc_index c) k \<noteq> Some s"
    using I f(1) by auto
  have r: "pro_in_range ?c = pro_in_range c" "pro_in_range c1 = pro_in_range c" by (simp_all add: fun_eq_iff pro_in_range_def P c1)
  have price: "0 \<le> po_price x" "po_price x < NO_ASK_TICKS" "pro_in_range c (po_price x)" if "\<not> pending_stop x"
    using that assms(3,4) by (auto simp: fits_def pro_in_range_def NO_ASK_TICKS_def)
  have 1: "int (pc_MAX ?c) < 2 ^ 31" "distinct (pc_free ?c)" "length (pc_free ?c) + length (xs @ [x]) = pc_MAX ?c"
    "pc_active ?c = int (length (xs @ [x]))" using I f(1) by (auto simp: P c1 u64_id)
  have 2: "\<forall>t\<in>set (pc_free ?c). t \<notin> set (pc_stops ?c) \<and> (\<forall>p. pro_in_range ?c p \<longrightarrow> t \<notin> set (lv_queue (pc_levels ?c p))) \<and>
      (\<forall>k. map_of (pc_index ?c) k \<noteq> Some t)"
    using I s(1) f(1) by (auto simp: P r c1 update_conv' Let_def)
  have 3: "queued_in ?c p = filter (?keep p) (xs @ [x]) \<and> level_sums (pc_levels ?c p) (filter (?keep p) (xs @ [x]))"
    if p: "pro_in_range ?c p" for p
  proof -
    have "queued_in c p = filter (?keep p) xs" "level_sums (pc_levels c p) (filter (?keep p) xs)" using I p by (auto simp: r)
    moreover have "map (pc_pool ?c) (lv_queue (pc_levels c p)) = queued_in c p"
      using s(3) [of p] p by (simp add: P r queued_in_def c1 map_upd_notin)
    ultimately show ?thesis
      using level_sums_snoc [where l = "pc_levels c p" and xs = "filter (?keep p) xs" and q = "lv_queue (pc_levels c p) @ [s]" and x = x]
      by (auto simp: queued_in_def P c1 Let_def)
  qed
  have 4: "map (pc_pool ?c) (pc_stops ?c) = filter pending_stop (xs @ [x])"
    using I s(2) by (auto simp: P c1 map_upd_notin)
  have 5: "map_option (pc_pool ?c) (map_of (pc_index ?c) k) = map_of (rev (map (\<lambda>x. (po_id x, x)) (xs @ [x]))) k" for k
  proof -
    have "map_option (pc_pool c) (map_of (pc_index c) k) = map_of (rev (map (\<lambda>x. (po_id x, x)) xs)) k" using I by blast
    moreover have "map_option ((pc_pool c)(s := x)) (map_of (pc_index c) k) = map_option (pc_pool c) (map_of (pc_index c) k)"
      using s(4) [of k] by (cases "map_of (pc_index c) k") auto
    ultimately show ?thesis by (auto simp: P c1 update_conv')
  qed
  have 6: "pc_bid ?c = best_bid_of (xs @ [x])"
  proof (cases "\<not> pending_stop x \<and> po_side x = BUY")
    case True
    then show ?thesis using I price by (auto simp: P c1 best_of_snoc(1) NO_BID_TICKS_def)
  qed (use I in \<open>auto simp: P c1 best_of_snoc(3)\<close>)
  have 7: "pc_ask ?c = best_ask_of (xs @ [x])"
  proof (cases "\<not> pending_stop x \<and> po_side x = SELL")
    case True
    then show ?thesis using I price by (auto simp: P c1 best_of_snoc(2))
  qed (use I in \<open>auto simp: P c1 best_of_snoc(4)\<close>)
  have "pc_oob ?c = pc_oob c" "pc_LEVELS ?c = pc_LEVELS c" "pc_MAX ?c = pc_MAX c" using price by (auto simp: P c1 r pro_in_range_def)
  then show ?thesis using 1 2 3 4 5 6 7 unfolding holds_orders_def by blast
qed

lemma load_all:
  assumes "holds_orders ys c" "list_all (\<lambda>x. order_ok x \<and> fits c x) xs" "length xs \<le> length (pc_free c)" "pc_LEVELS c < 2 ^ 31"
  shows "\<exists>c'. load_records (length xs) (concat (map order_record xs) @ rest) mx c = Some (c', fold max (map po_id xs) mx, True) \<and>
    holds_orders (ys @ map saved xs) c' \<and> pc_LEVELS c' = pc_LEVELS c \<and> pc_MAX c' = pc_MAX c \<and> pc_oob c' = pc_oob c"
  using assms
proof (induction xs arbitrary: ys c mx)
  case (Cons x xs)
  obtain s fs where f: "pc_free c = s # fs" using Cons.prems(3) by (cases "pc_free c") auto
  then obtain c1 where a: "alloc_order c = Some (s, c1)" "pc_free c1 = fs" by (auto simp: alloc_order_def Let_def)
  have x: "order_ok x" "fits c x" using Cons.prems(2) by simp_all
  have "fits c (saved x)" using x(2) by (simp add: fits_def)
  note L = load_one [OF Cons.prems(1) a(1) this Cons.prems(4)]
  let ?c = "place_loaded s (saved x) c1"
  have "pro_in_range ?c = pro_in_range c" using L by (simp add: fun_eq_iff pro_in_range_def)
  then have "list_all (\<lambda>x. order_ok x \<and> fits ?c x) xs" using Cons.prems(2) by (simp add: fits_def)
  moreover have "length xs \<le> length (pc_free ?c)" using Cons.prems(3) f a(2) by (simp add: place_fields)
  ultimately obtain c' where "load_records (length xs) (concat (map order_record xs) @ rest) (max mx (po_id x)) ?c =
      Some (c', fold max (map po_id xs) (max mx (po_id x)), True)"
    "holds_orders ((ys @ [saved x]) @ map saved xs) c'" "pc_LEVELS c' = pc_LEVELS ?c" "pc_MAX c' = pc_MAX ?c" "pc_oob c' = pc_oob ?c"
    using Cons.IH [of "ys @ [saved x]" ?c "max mx (po_id x)"] L Cons.prems(4) by auto
  moreover have "(if po_id x > mx then po_id x else mx) = max mx (po_id x)" by simp
  ultimately show ?case using L a(1) record_back [OF x(1)] by (auto simp: max.commute [of "po_id x"])
qed simp

section \<open>Clearing\<close>

text \<open>The count of live orders is right and every resting order has a price of the book.\<close>

definition counted :: "pcore \<Rightarrow> bool" where
  "counted c \<longleftrightarrow> pc_active c = int (length (snapshot_slots c)) \<and> pc_LEVELS c < 2 ^ 31 \<and>
     list_all (\<lambda>s. is_active (pc_pool c s) \<longrightarrow> pro_in_range c (po_price (pc_pool c s))) [0..<pc_MAX c]"

lemma distinct_queues:
  "distinct ps \<Longrightarrow> (\<And>p. distinct (f p)) \<Longrightarrow> (\<And>p q s. s \<in> set (f p) \<Longrightarrow> s \<in> set (f q) \<Longrightarrow> p = q) \<Longrightarrow> distinct (concat (map f ps))"
  by (induction ps) auto

lemma slots_partition:
  assumes "core_inv {} c" "counted c"
  shows "distinct (snapshot_slots c)" "set (snapshot_slots c) \<inter> set (pc_free c) = {}" "set (snapshot_slots c) \<union> set (pc_free c) = {..<pc_MAX c}"
    "distinct (pc_free c)"
proof -
  have S: "slots_ok {} c" using assms(1) by (simp add: core_inv_def)
  note Q = queue_iff [OF assms(1)]
  have st: "s \<in> set (pc_stops c) \<Longrightarrow> s < pc_MAX c \<and> \<not> is_active (pc_pool c s)" for s
    using S by (auto simp: slots_ok_def pending_stop_def is_active_def)
  have lv: "s \<in> set (concat (map (\<lambda>p. lv_queue (pc_levels c p)) [0..pc_LEVELS c - 1])) \<longleftrightarrow> s < pc_MAX c \<and> is_active (pc_pool c s)" for s
  proof -
    have "pro_in_range c (po_price (pc_pool c s))" if "s < pc_MAX c" "is_active (pc_pool c s)"
      using assms(2) that by (simp add: counted_def list_all_iff)
    then show ?thesis by (auto simp: Q pro_in_range_def)
  qed
  have "distinct (concat (map (\<lambda>p. lv_queue (pc_levels c p)) [0..pc_LEVELS c - 1]))"
    by (rule distinct_queues) (use queue_distinct [OF assms(1)] Q in auto)
  then show "distinct (snapshot_slots c)" using S lv st unfolding snapshot_slots_def distinct_append by (auto simp: slots_ok_def)
  have m: "s \<in> set (snapshot_slots c) \<longleftrightarrow> s < pc_MAX c \<and> is_active (pc_pool c s) \<or> s \<in> set (pc_stops c)" for s
    unfolding snapshot_slots_def set_append Un_iff lv by blast
  show "set (snapshot_slots c) \<inter> set (pc_free c) = {}" using S m by (auto simp: slots_ok_def)
  show "set (snapshot_slots c) \<union> set (pc_free c) = {..<pc_MAX c}" using S m st by (auto simp: slots_ok_def)
  show "distinct (pc_free c)" using S by (simp add: slots_ok_def)
qed

lemma free_all:
  "pc_free (fold free_order ss c) = rev ss @ pc_free c" "pc_MAX (fold free_order ss c) = pc_MAX c" "pc_LEVELS (fold free_order ss c) = pc_LEVELS c"
  "pc_oob (fold free_order ss c) = pc_oob c"
  by (induction ss arbitrary: c) (simp_all add: free_order_def)

lemma free_all_active: "pc_active c = int (length ss) \<Longrightarrow> length ss < 2 ^ 63 \<Longrightarrow> pc_active (fold free_order ss c) = 0"
  by (induction ss arbitrary: c) (simp_all add: free_order_def u64_id)

lemma cleared_empty:
  assumes "core_inv {} c" "counted c"
  shows "holds_orders [] (clear_core c)" "pc_LEVELS (clear_core c) = pc_LEVELS c" "pc_MAX (clear_core c) = pc_MAX c"
    "length (pc_free (clear_core c)) = pc_MAX c" "pc_oob (clear_core c) = pc_oob c"
proof -
  note P = slots_partition [OF assms]
  have f: "pc_free (clear_core c) = rev (snapshot_slots c) @ pc_free c" by (simp add: clear_core_def free_all Let_def)
  have "distinct (pc_free (clear_core c))" using P by (auto simp: f)
  moreover have "set (pc_free (clear_core c)) = {..<pc_MAX c}" using P(3) by (simp add: f)
  ultimately show l: "length (pc_free (clear_core c)) = pc_MAX c" using distinct_card [of "pc_free (clear_core c)"] by simp
  have N: "int (pc_MAX c) < 2 ^ 31" using assms(1) by (simp add: core_inv_def)
  have "length (snapshot_slots c) \<le> pc_MAX c" using l by (simp add: f)
  then have "length (snapshot_slots c) < 2 ^ 63" using N by simp
  then have "pc_active (clear_core c) = 0" using free_all_active assms(2) by (simp add: clear_core_def Let_def counted_def)
  then show "holds_orders [] (clear_core c)"
    using l \<open>distinct (pc_free (clear_core c))\<close> N
    by (auto simp: holds_orders_def clear_core_def Let_def free_all pro_in_range_def queued_in_def plevel_clear_def level_sums_def s32_id best_bid_of_def best_ask_of_def)
  show "pc_LEVELS (clear_core c) = pc_LEVELS c" "pc_MAX (clear_core c) = pc_MAX c" "pc_oob (clear_core c) = pc_oob c"
    by (simp_all add: clear_core_def Let_def free_all)
qed

section \<open>Restoring\<close>

definition snapshot_orders :: "pcore \<Rightarrow> porder list" where
  "snapshot_orders c = map (pc_pool c) (snapshot_slots c)"

lemma kept_at_level:
  assumes "core_inv {} c"
  shows "pro_in_range c p \<Longrightarrow> filter (\<lambda>x. \<not> pending_stop x \<and> po_price x = p) (snapshot_orders c) = queued_in c p"
    and "filter pending_stop (snapshot_orders c) = map (pc_pool c) (pc_stops c)"
proof -
  note Q = queue_iff [OF assms(1)]
  have st: "pending_stop (pc_pool c s)" if "s \<in> set (pc_stops c)" for s using assms(1) that by (simp add: core_inv_def slots_ok_def)
  have q: "filter (\<lambda>x. \<not> pending_stop x \<and> po_price x = p) (queued_in c r) = (if r = p then queued_in c p else [])"
    "filter pending_stop (queued_in c r) = []" for r
  proof -
    have a: "x \<in> set (queued_in c r) \<Longrightarrow> \<not> pending_stop x \<and> po_price x = r" for x
      using Q by (auto simp: queued_in_def is_active_def pending_stop_def)
    then show "filter (\<lambda>x. \<not> pending_stop x \<and> po_price x = p) (queued_in c r) = (if r = p then queued_in c p else [])"
      by (cases "r = p") (auto simp: filter_empty_conv intro!: filter_True)
    show "filter pending_stop (queued_in c r) = []" using a by (auto simp: filter_empty_conv)
  qed
  have o: "snapshot_orders c = concat (map (queued_in c) [0..pc_LEVELS c - 1]) @ map (pc_pool c) (pc_stops c)"
    by (simp add: snapshot_orders_def snapshot_slots_def map_concat queued_in_def [abs_def] comp_def)
  have "concat (map (\<lambda>r. if r = p then queued_in c p else []) ps) = (if p \<in> set ps then queued_in c p else [])" if "distinct ps" for ps
    using that by (induction ps) auto
  then show "filter (\<lambda>x. \<not> pending_stop x \<and> po_price x = p) (snapshot_orders c) = queued_in c p" if "pro_in_range c p"
    using that st by (simp add: o filter_concat comp_def q pro_in_range_def filter_empty_conv)
  show "filter pending_stop (snapshot_orders c) = map (pc_pool c) (pc_stops c)"
    using st by (simp add: o filter_concat comp_def q filter_map)
qed

lemma header_back:
  assumes "0 \<le> n" "n < 2 ^ 64"
  shows "get_le (take 4 (put_le 4 SNAPSHOT_MAGIC @ put_le 4 SNAPSHOT_VERSION @ put_le 8 n @ bs)) = SNAPSHOT_MAGIC"
    "get_le (take 4 (drop 4 (put_le 4 SNAPSHOT_MAGIC @ put_le 4 SNAPSHOT_VERSION @ put_le 8 n @ bs))) = SNAPSHOT_VERSION"
    "get_u64 8 (put_le 4 SNAPSHOT_MAGIC @ put_le 4 SNAPSHOT_VERSION @ put_le 8 n @ bs) = n"
    "drop 16 (put_le 4 SNAPSHOT_MAGIC @ put_le 4 SNAPSHOT_VERSION @ put_le 8 n @ bs) = bs"
  using assms by (simp_all add: get_put_le SNAPSHOT_MAGIC_def SNAPSHOT_VERSION_def get_u64_def)

lemma length_records: "length (concat (map (\<lambda>s. order_record (f s)) ss)) = length ss * ORDER_RECORD_SIZE"
  by (induction ss) simp_all

lemma fold_max_base: "m \<le> fold max xs (m :: int)"
proof (induction xs arbitrary: m)
  case (Cons x xs)
  show ?case using Cons [of "max x m"] by simp
qed simp

lemma fold_max_ge: "x \<in> set xs \<Longrightarrow> x \<le> fold max xs (m :: int)"
proof (induction xs arbitrary: m)
  case (Cons y ys)
  then show ?case using fold_max_base [of "max y m" ys] by auto
qed simp

lemma fold_max_less: "m < k \<Longrightarrow> (\<And>x. x \<in> set xs \<Longrightarrow> x < k) \<Longrightarrow> fold max xs (m :: int) < k"
  by (induction xs arbitrary: m) auto

text \<open>The core that a snapshot of \<open>c\<close> gives.\<close>

lemma restored_core:
  assumes c: "core_inv {} c" "counted c" "list_all order_ok (snapshot_orders c)"
    and d: "core_inv {} d" "counted d" "pc_LEVELS d = pc_LEVELS c" "length (snapshot_slots c) \<le> pc_MAX d"
  shows "\<exists>e. load_records (length (snapshot_orders c)) (concat (map order_record (snapshot_orders c))) 0 (clear_core d) =
      Some (e, fold max (map po_id (snapshot_orders c)) 0, True) \<and> holds_orders (map saved (snapshot_orders c)) e \<and>
      pc_LEVELS e = pc_LEVELS c \<and> pc_oob e = pc_oob d"
proof -
  note K = cleared_empty [OF d(1,2)]
  have "fits (clear_core d) x" if "x \<in> set (snapshot_orders c)" for x
  proof -
    note A = that
    obtain s where s: "x = pc_pool c s" "s \<in> set (snapshot_slots c)" using A by (auto simp: snapshot_orders_def)
    then consider "s \<in> set (pc_stops c)" | p where "p \<in> {0..<pc_LEVELS c}" "s \<in> set (lv_queue (pc_levels c p))"
      by (auto simp: snapshot_slots_def)
    then show ?thesis
    proof cases
      case 1
      then show ?thesis using c(1) s(1) by (simp add: core_inv_def slots_ok_def fits_def)
    next
      case 2
      then show ?thesis using queue_iff [OF c(1)] s(1) d(3) K(2) by (simp add: fits_def pro_in_range_def)
    qed
  qed
  then have "list_all (\<lambda>x. order_ok x \<and> fits (clear_core d) x) (snapshot_orders c)" using c(3) by (simp add: list_all_iff)
  moreover have "length (snapshot_orders c) \<le> length (pc_free (clear_core d))" using d(4) K(4) by (simp add: snapshot_orders_def)
  moreover have "pc_LEVELS (clear_core d) < 2 ^ 31" using d(2) K(2) by (simp add: counted_def)
  ultimately obtain e where "load_records (length (snapshot_orders c)) (concat (map order_record (snapshot_orders c)) @ []) 0 (clear_core d) =
      Some (e, fold max (map po_id (snapshot_orders c)) 0, True)" "holds_orders ([] @ map saved (snapshot_orders c)) e"
    "pc_LEVELS e = pc_LEVELS (clear_core d)" "pc_oob e = pc_oob (clear_core d)"
    using load_all [OF K(1), of "snapshot_orders c" "[]" 0] by blast
  then show ?thesis using K(2,5) d(3) by (intro exI [of _ e]) simp
qed

section \<open>Properties\<close>

text \<open>
  C10. Recovery from a snapshot: the bytes that \<open>serialize_snapshot\<close> writes for a book, loaded into any book of as many levels
  with room for the orders, whatever that book held, give a book with the same orders in the same queues, in the same
  order and with the same totals, the same pending stops, the best prices of the loaded orders, and a next id above all of
  theirs.  An order keeps all its fields but the cap of a peg, the decision price and the time of the first fill.  Of both books
  it is assumed (\<open>counted\<close>) that the count of active orders is the number of orders a snapshot holds and that every
  active order has a price of the grid, and of the orders that their fields fit the widths of the record.
\<close>

theorem snapshot_restores:
  assumes "pro_run L N b" "int N < 2 ^ 31" "pro_run L' N' b0" "int N' < 2 ^ 31"
    and "counted (pb_core b)" "counted (pb_core b0)" "list_all order_ok (snapshot_orders (pb_core b))"
    and "pc_LEVELS (pb_core b0) = pc_LEVELS (pb_core b)" "length (snapshot_slots (pb_core b)) \<le> pc_MAX (pb_core b0)"
    and "snapshot_size_estimate (pb_core b) \<le> cap"
  shows "\<exists>b1. load_snapshot (serialize_snapshot cap (pb_core b)) b0 = Some (b1, True) \<and>
    length (serialize_snapshot cap (pb_core b)) = snapshot_size_estimate (pb_core b) \<and>
    (\<forall>p. 0 \<le> p \<and> p < pc_LEVELS (pb_core b) \<longrightarrow> queued b1 p = map saved (queued b p) \<and>
       lv_total (level_at b1 p) = lv_total (level_at b p) \<and> lv_hidden (level_at b1 p) = lv_hidden (level_at b p) \<and>
       lv_count (level_at b1 p) = lv_count (level_at b p)) \<and>
    map (order_at b1) (pc_stops (pb_core b1)) = map (\<lambda>s. saved (order_at b s)) (pc_stops (pb_core b)) \<and>
    pc_active (pb_core b1) = pc_active (pb_core b) \<and>
    pc_bid (pb_core b1) = best_bid_of (snapshot_orders (pb_core b)) \<and> pc_ask (pb_core b1) = best_ask_of (snapshot_orders (pb_core b)) \<and>
    (\<forall>x\<in>set (snapshot_orders (pb_core b)). po_id x < pb_next_id b1)"
proof -
  define c where "c = pb_core b"
  define xs where "xs = snapshot_orders c"
  define n where "n = length xs"
  have c: "core_inv {} c" "core_inv {} (pb_core b0)" using run_inv assms(1-4) by (simp_all add: book_inv_def c_def)
  obtain e where e: "load_records n (concat (map order_record xs)) 0 (clear_core (pb_core b0)) = Some (e, fold max (map po_id xs) 0, True)"
    "holds_orders (map saved xs) e" "pc_LEVELS e = pc_LEVELS c"
    using restored_core [OF c(1) _ _ c(2)] assms(5-9) unfolding c_def [symmetric] xs_def n_def by auto
  have n: "pc_active c = int n" "n \<le> pc_MAX (pb_core b0)" "int (pc_MAX (pb_core b0)) < 2 ^ 31"
    using assms(5,9) c(2) by (simp_all add: counted_def core_inv_def c_def n_def xs_def snapshot_orders_def)
  have bytes: "serialize_snapshot cap c = put_le 4 SNAPSHOT_MAGIC @ put_le 4 SNAPSHOT_VERSION @ put_le 8 (int n) @ concat (map order_record xs)"
    using assms(10) n(1) by (simp add: serialize_snapshot_def c_def xs_def snapshot_orders_def comp_def)
  have size: "length (concat (map order_record xs)) = n * ORDER_RECORD_SIZE"
    using length_records [of "pc_pool c" "snapshot_slots c"] by (simp add: xs_def n_def snapshot_orders_def comp_def)
  define mx where "mx = fold max (map po_id xs) 0"
  have mx: "mx < 2 ^ 64 - 1" "\<forall>x\<in>set xs. po_id x \<le> mx" "0 \<le> mx"
    using assms(7) fold_max_less [of 0 "2 ^ 64 - 1" "map po_id xs"] fold_max_ge [of _ "map po_id xs" 0] fold_max_base [of 0 "map po_id xs"]
    by (auto simp: mx_def xs_def c_def list_all_iff order_ok_def)
  define b1 where "b1 = note_peak (pro_clear b0 \<lparr>pb_core := e, pb_next_id := (if mx \<ge> pb_next_id b0 then u64 (mx + 1) else pb_next_id b0)\<rparr>)"
  have b1: "pb_core b1 = e" "pb_next_id b1 = (if mx \<ge> pb_next_id b0 then u64 (mx + 1) else pb_next_id b0)"
    by (simp_all add: b1_def note_peak_def upd_stats_def)
  have "\<not> int (length (serialize_snapshot cap c)) < u64 (16 + int n * int ORDER_RECORD_SIZE)"
    using n(2,3) by (simp add: bytes size u64_id ORDER_RECORD_SIZE_def)
  then have load: "load_snapshot (serialize_snapshot cap c) b0 = Some (b1, True)"
    using header_back [of "int n" "concat (map order_record xs)"] n e(1)
    by (simp add: load_snapshot_def bytes Let_def pro_clear_def b1_def mx_def)
  have len: "length (serialize_snapshot cap c) = snapshot_size_estimate c" by (simp add: bytes size snapshot_size_estimate_def n(1))
  have q: "queued b1 p = map saved (queued b p) \<and> lv_total (level_at b1 p) = lv_total (level_at b p) \<and>
      lv_hidden (level_at b1 p) = lv_hidden (level_at b p) \<and> lv_count (level_at b1 p) = lv_count (level_at b p)"
    if p: "0 \<le> p" "p < pc_LEVELS c" for p
  proof -
    have "filter (\<lambda>x. \<not> pending_stop x \<and> po_price x = p) (map saved xs) = map saved (queued_in c p)"
      using kept_at_level(1) [OF c(1), of p] p by (simp add: filter_map comp_def xs_def pro_in_range_def)
    then have "queued_in e p = map saved (queued_in c p)" "level_sums (pc_levels e p) (map saved (queued_in c p))"
      using holds_at [OF e(2), of p] e(3) p by (simp_all only: pro_in_range_def)
    moreover have "level_ok c p" using c(1) by (simp add: core_inv_def)
    moreover have "int (length (queued_in c p)) < 2 ^ 31" using queue_length [OF c(1), of p] by (simp add: queued_in_def)
    ultimately show ?thesis
      by (simp add: level_sums_def level_ok_def Let_def queued_def order_at_def [abs_def] level_at_def b1 c_def queued_in_def comp_def s32_id)
  qed
  have st: "map (order_at b1) (pc_stops (pb_core b1)) = map (\<lambda>s. saved (order_at b s)) (pc_stops c)"
    using e(2) kept_at_level(2) [OF c(1)] by (simp add: holds_orders_def b1 order_at_def [abs_def] filter_map comp_def xs_def c_def)
  have best: "best_bid_of (map saved xs) = best_bid_of xs" "best_ask_of (map saved xs) = best_ask_of xs"
    by (simp_all add: best_bid_of_def best_ask_of_def filter_map comp_def)
  have "\<forall>x\<in>set xs. po_id x < pb_next_id b1" using mx by (auto simp: b1 u64_id)
  then show ?thesis
    using load len q st best e(2) n(1) unfolding c_def [symmetric] xs_def [symmetric]
    by (intro exI [of _ b1]) (simp add: holds_orders_def b1 n_def)
qed

section \<open>A sample\<close>

definition stopped_book :: pbook where
  "stopped_book = fst (submit_stop 9 BUY 3 3 5 0 1 (the (submits [plain SELL 2 10 1, plain BUY 2 4 2, plain BUY 1 6 2] (FullOrderBook 4 4))))"

lemma stopped_run: "pro_run 4 4 stopped_book"
proof -
  have "submits [plain SELL 2 10 1, plain BUY 2 4 2, plain BUY 1 6 2] (FullOrderBook 4 4) \<noteq> None" by code_simp
  then show ?thesis unfolding stopped_book_def using run_stop [OF submits_run [OF run_new]] by auto
qed

theorem snapshot_restores_witness:
  "map_option snd (load_snapshot (serialize_snapshot 1000 (pb_core stopped_book)) sample_book) = Some True"
proof -
  have s: "case submits [plain SELL 2 10 1, plain BUY 2 4 2] (FullOrderBook 4 3) of None \<Rightarrow> False
    | Some b \<Rightarrow> counted (pb_core b) \<and> pc_LEVELS (pb_core b) = 4 \<and> pc_MAX (pb_core b) = 3" by code_simp
  then have "submits [plain SELL 2 10 1, plain BUY 2 4 2] (FullOrderBook 4 3) = Some sample_book"
    unfolding sample_book_def by (auto split: option.splits)
  from submits_run [OF run_new this] have r: "pro_run 4 3 sample_book" .
  have b0: "counted (pb_core sample_book)" "pc_LEVELS (pb_core sample_book) = 4" "pc_MAX (pb_core sample_book) = 3"
    using s unfolding sample_book_def by (auto split: option.splits)
  have "counted (pb_core stopped_book)" "list_all order_ok (snapshot_orders (pb_core stopped_book))" "pc_LEVELS (pb_core stopped_book) = 4"
    "length (snapshot_slots (pb_core stopped_book)) \<le> 3" "snapshot_size_estimate (pb_core stopped_book) \<le> 1000" by code_simp+
  from snapshot_restores [OF stopped_run _ r _ this(1) b0(1) this(2) _ _ this(5)] this(3,4) b0(2,3) show ?thesis by auto
qed

section \<open>Where snapshots fall short\<close>

text \<open>
  The size check of \<open>load_snapshot\<close> wraps around: a header of 16 bytes that announces \<open>2^58\<close> records passes it, and the
  first record is read past the end of the buffer.
\<close>

definition forged_header :: "byte list" where
  "forged_header = put_le 4 SNAPSHOT_MAGIC @ put_le 4 SNAPSHOT_VERSION @ put_le 8 (2 ^ 58)"

lemma load_short: "0 < k \<Longrightarrow> length bs < ORDER_RECORD_SIZE \<Longrightarrow> load_records k bs mx c = None"
  by (cases k) simp_all

lemma forged_count_overruns: "length forged_header = 16" "load_snapshot forged_header b = None"
proof -
  show l: "length forged_header = 16" by (simp add: forged_header_def)
  note H = header_back [of "2 ^ 58" "[]", unfolded append_Nil2, folded forged_header_def]
  have "u64 (16 + 2 ^ 58 * int ORDER_RECORD_SIZE) = 16" by (simp add: ORDER_RECORD_SIZE_def u64_def)
  moreover have "load_records (nat (2 ^ 58)) [] 0 c = None" for c by (rule load_short) (simp_all add: ORDER_RECORD_SIZE_def)
  moreover have "drop 16 forged_header = []" using l by simp
  ultimately show "load_snapshot forged_header b = None"
    unfolding load_snapshot_def Let_def using H(1-3) l by (simp del: power_numeral)
qed

text \<open>A record takes 64 bytes, not the 70 of the comment; and clearing keeps the statistics.\<close>

lemma record_is_64: "length (order_record x) = 64"
  by (simp add: ORDER_RECORD_SIZE_def)

lemma clear_keeps_stats: "pb_stats (pro_clear b) = pb_stats b"
  by (simp add: pro_clear_def)

section \<open>Messages of the feed\<close>

text \<open>What the wire form of a message keeps, whatever follows it in the buffer.\<close>

theorem delta_roundtrip:
  assumes "- (2 ^ 31) \<le> dm_price d" "dm_price d < 2 ^ 31" "- (2 ^ 31) \<le> dm_qty d" "dm_qty d < 2 ^ 31" "0 \<le> dm_seq d" "dm_seq d < 2 ^ 64"
  shows "deserialize_delta (serialize_delta d @ rest) = Some d \<and> length (serialize_delta d) = DELTA_WIRE_SIZE"
proof -
  have c: "unat (of_char x :: byte) = of_char x" for x
  proof -
    have "unat (of_char x :: byte) = unat (of_nat (of_char x) :: byte)" by (simp only: of_nat_of_char)
    also have "\<dots> = of_char x" by (subst unat_of_nat) simp
    finally show ?thesis .
  qed
  let ?bs = "serialize_delta d @ rest"
  have "get_u8 0 ?bs = of_char (dm_type d)" "get_u8 1 ?bs = of_char (dm_side d)" by (simp_all add: get_u8_def serialize_delta_def c)
  moreover have "get_s32 2 ?bs = dm_price d" using assms by (simp add: get_s32_def serialize_delta_def get_put_wide)
  moreover have "get_s32 6 ?bs = dm_qty d" using assms by (simp add: get_s32_def serialize_delta_def get_put_wide)
  moreover have "get_u64 10 ?bs = dm_seq d" using assms by (simp add: get_u64_def serialize_delta_def get_put_wide)
  moreover have "length (serialize_delta d) = DELTA_WIRE_SIZE" by (simp add: serialize_delta_def DELTA_WIRE_SIZE_def)
  ultimately show ?thesis by (simp add: deserialize_delta_def)
qed

end
