(* ===== verification/Spec2Isabelle.thy ===== *)
theory Spec2Isabelle
  imports Spsc Mpmc Waitable Sequencer Varlen Common Flat_Book Oms_Props Oms_Metrics Soupbin Itch Risk_Props Risk_Metrics Gap_Props Feed_Meters Multicast Fix_Props Pro_Links Pro_Progress Pro_Limits Ouch_Track Itch_Walks Router_Props Exec_Props Config_Props Pro_Restore
begin

text \<open>
  A verification development for the trading infrastructure under \<open>src/\<close>: the C++ components from the
  market-data feed to the exchange gateway and the queues between them.

  \<^bold>\<open>The program.\<close>  Market data arrives as UDP packets (\<open>multicast/multicast.hpp\<close>) whose losses and
  duplicates \<open>multicast/gap_recovery.hpp\<close> repairs; \<open>itch-parser/itch_parser.hpp\<close> decodes the messages and
  \<open>itch-parser/itch_book.hpp\<close> rebuilds the book they describe.
  Threads hand items to each other through the queues of \<open>lockfree/\<close>.  \<open>router/smart_router.hpp\<close> chooses
  the venue, or the venues, an order goes to by their quotes, fees and delays, and
  \<open>strategy/exec_algo.hpp\<close> cuts a large order into child orders over time.  \<open>config/config_loader.hpp\<close> reads
  the limits and parameters of all of them.  A decision to trade passes
  \<open>risk/risk_manager.hpp\<close>, is entered in \<open>oms/oms.hpp\<close> and goes to an exchange over FIX
  (\<open>fix-protocol/\<close>) or OUCH over SoupBinTCP (\<open>ouch-protocol/\<close>), whose trackers follow the order by the
  reports that come back.  On the exchange's side stand two matching books,
  \<open>orderbook/orderbook_flat.hpp\<close> and the full-featured \<open>orderbook/orderbook_pro.hpp\<close>.

  \<^bold>\<open>Theories.\<close>
  \<^item> \<open>Prelude\<close>: fixed-width integers as wrap functions (\<open>s32\<close>, \<open>s64\<close>, \<open>u32\<close>, \<open>u64\<close>; collection
    \<open>wrap_simps\<close>), truncating division, association lists for hash maps with their sums.
  \<^item> \<open>Binary64\<close>: the \<open>double\<close> of the code, IEEE-754 binary64 over the rationals, and the fixed-point
    prices of \<open>common/types.hpp\<close>.
  \<^item> \<open>Ring_Buffer\<close>: mask-wrapped rings and the locale \<open>bounded_fifo\<close>; \<open>Common\<close>: \<open>common/types.hpp\<close>,
    \<open>symbol_key.hpp\<close>, \<open>ring_counter.hpp\<close> and the locale \<open>sliding_window\<close> of rings of timestamps.
  \<^item> \<open>Spsc\<close>, \<open>Mpmc\<close>, \<open>Mpsc\<close>, \<open>Waitable\<close>, \<open>Sequencer\<close>, \<open>Varlen\<close>: one theory per queue of \<open>lockfree/\<close>.  The
    member functions come as functions on the state, the threads as an inductive step relation in
    which one step is one shared-memory access.  Memory is sequentially consistent except in \<open>Waitable\<close>, whose
    argument hangs on a store followed by a load of another location: there the release stores go through a
    buffer per thread, and the fence the code lacks is a parameter of the step relation.
  \<^item> \<open>Level_Bitmap\<close> and \<open>Flat_Book\<close>: \<open>orderbook_flat.hpp\<close>, its occupancy bitmap (locale
    \<open>level_index\<close>) and its book.
  \<^item> \<open>Pro_Nodes\<close>, \<open>Pro_Types\<close>, \<open>Pro_Trades\<close>, \<open>Pro_Book\<close>, \<open>Pro_Match\<close>: link fields, data, trade tape, levels and the
    calls of \<open>orderbook_pro.hpp\<close>.  The state has the head, tail and link fields of the code, which every operation on a
    level updates, and beside them the list of the pool slots queued at the level, which the matching loop follows;
    \<open>Pro_Links\<close> shows that the pointer operations implement such queues (locale \<open>level_queues\<close>), and the invariant that
    the two agree.  \<open>Pro_Inv\<close>, \<open>Pro_Run\<close>, \<open>Pro_Props\<close>: the audit along the pointers, the structural invariant and runs of calls; \<open>Pro_Progress\<close>:
    matching ends; \<open>Pro_Snapshot\<close>, \<open>Pro_Restore\<close>: snapshots and the feed of changes; \<open>Pro_Limits\<close>: computed runs that show where the code departs from its comments.
  \<^item> \<open>Risk\<close>, \<open>Risk_Props\<close>, \<open>Risk_Metrics\<close>: \<open>risk_manager.hpp\<close>.  \<open>Oms\<close>, \<open>Oms_Props\<close>,
    \<open>Oms_Metrics\<close>: \<open>oms.hpp\<close>.  \<open>Router\<close>, \<open>Router_Reads\<close>, \<open>Router_Props\<close>: \<open>smart_router.hpp\<close>, with the
    insertion sort over venues in the locale \<open>ranking\<close>, interpreted for costs and for delays.
  \<^item> \<open>Exec_Algo\<close>, \<open>Exec_Props\<close>: \<open>exec_algo.hpp\<close>, with what both executors promise about a tick and a fill in
    the locale \<open>slicing\<close>; \<open>Config\<close>, \<open>Config_Props\<close>: \<open>config_loader.hpp\<close>.
  \<^item> \<open>Gap_Recovery\<close>, \<open>Feed_Meters\<close>, \<open>Gap_Props\<close>: \<open>gap_recovery.hpp\<close> (locales \<open>once_filter\<close> and
    \<open>full_filter\<close>); \<open>Multicast\<close>: \<open>multicast.hpp\<close>.
  \<^item> \<open>Wire\<close>: what the wire formats share, and the locale \<open>framing\<close> of byte streams cut into frames;
    \<open>Ouch\<close>, \<open>Ouch_Orders\<close>, \<open>Ouch_Track\<close>: \<open>ouch_protocol.hpp\<close> and \<open>ouch_order_state.hpp\<close>; \<open>Soupbin\<close>:
    \<open>soupbin.hpp\<close> and \<open>soupbin_session.hpp\<close>; \<open>Itch\<close>: \<open>itch_parser.hpp\<close>; \<open>Itch_Book\<close>, \<open>Itch_Props\<close>,
    \<open>Itch_Walks\<close>: \<open>itch_book.hpp\<close>, its level maps as the ordered lists of \<open>Ordered_Map\<close>.
  \<^item> \<open>Fix_Text\<close>, \<open>Fix_Parser\<close>, \<open>Fix_Session\<close>, \<open>Fix_Decode\<close>, \<open>Fix_Orders\<close>, \<open>Fix_Props\<close>: the files of
    \<open>fix-protocol/\<close> (locale \<open>typed_message\<close>).

  \<^bold>\<open>State and operations.\<close>  A class is a \<open>record\<close> with one field per data member, a member function a
  definition of the same name that takes the record and returns it changed, with what the function
  returns beside it (a prefix such as \<open>ft_\<close>, \<open>ot_\<close> or \<open>pro_\<close> keeps names of different classes apart).  A
  reading of the clock, the bytes received and the contents of a file are arguments.  A write out of
  the bounds of an array is a flag or a value of the result.  \<open>std::unordered_map\<close> is an association
  list; statements do not depend on its order except where a read-out iterates over it, and there the
  order of the list is that of the iteration.

  \<^bold>\<open>What is shown.\<close>
  \<^item> Queues: items leave exactly once and in order under every interleaving, readers of the sequencer
    see every item; a consumer that sleeps gets its item at its timeout at the latest, and a wake-up can be lost
    without the missing fence and never with it (\<open>Spsc\<close> and \<open>Varlen\<close> interpret \<open>bounded_fifo\<close>).
  \<^item> Books: the flat book refines a book of price levels and never stays crossed; the full book passes
    its own integrity audit, all six checks, after every run of calls that stays on the price grid, matching ends, the links refine the queues, and a
    snapshot loaded into any book with room gives back the same queues.
  \<^item> Risk and orders: exposure equals what was sent less what was cancelled or filled; an allowed order
    respects the limits on the order, its symbol, the portfolio, the day's loss and the drawdown, and runs respect the rate
    limit; a tripped breaker survives a restart; a rejected submit to the OMS changes only its reject statistics and an
    accepted one reserves its quantity; the OMS agrees with its positions and a closed order stays closed; profit and loss is the cash flow plus the value held.
  \<^item> Router: a split order uses the cheapest venues first, what is routed and what is left over add up
    to what was asked for and what venues added or removed carry, and the planning read-outs agree with the execution of the plan.
  \<^item> Execution: child orders add up to the parent order exactly, whatever is filled in the meantime and in
    spite of the rounding of the weights.
  \<^item> Configuration: of a file written out from sections of settings the loader recovers the settings, and the environment
    counts before the last assignment in the file, and that before the default, for the 18 settings with a variable.
  \<^item> Feed: gap detection reports exactly the missing numbers, either line delivers each number once,
    the reorder buffer delivers the longest gap-free prefix, retransmission accounts for each request;
    the book rebuilt from the bytes of the feed holds exactly the orders the messages describe.
  \<^item> Wire formats: what one side writes the other reads, for OUCH, SoupBinTCP, ITCH, FIX and MoldUDP64;
    cutting a stream does not change what is delivered (\<open>Ouch\<close> and \<open>Soupbin\<close> interpret \<open>framing\<close>); the
    trackers of both protocols, behind encoder, stream and parser, follow an order to its end; a session
    with the mock exchange answers every order with its own acceptance and execution.

  \<^bold>\<open>Fuel.\<close>  Loops whose end is not structural carry a bound, and a lemma shows that it is enough:
  the matching loop of the flat book \<open>2 * LEVELS\<close> passes, eviction loops of rings one pass per slot, the
  sweep of the router one per venue, the drains of \<open>gap_recovery.hpp\<close> one per item held, the pending one-cancels-other queue its length plus the
  number of links (\<open>process_oco_empties\<close>), the audit of a level one step per slot of the pool (a longer walk never ends, and
  \<open>pro_audit_clean\<close> shows that none is).  The matching loops of the full book take their fuel as an argument; \<open>pro_match_ends\<close> gives the
  amount that is enough when no fully hidden order rests, and \<open>Pro_Limits\<close> computes a book with one on
  which the loop does not end.

  \<^bold>\<open>Not modelled.\<close>  Sockets, \<open>epoll\<close>, TLS, threads' scheduling and the clock are the outside of the
  program.  Outside \<open>Waitable\<close> memory orders are not distinguished.  Of \<open>orderbook_pro.hpp\<close> stop triggers, pegs, expiry, auctions and
  most read-outs are left out.  The strategies and indicators, the simulator, the back test, the
  loggers, the monitor, the first two order books and the
  demonstration programs are not part of the development: they are drivers around the components
  above, output, or formulas in floating point with no state that others rely on.
\<close>

end
